(* ===== verification/Kaptanto_Prelude.thy ===== *)
theory Kaptanto_Prelude
  imports Main "HOL-Library.Word" "HOL-Library.AList"
begin

text \<open>
  Shared vocabulary of the development: machine integers and byte strings, Go maps as
  association lists, Go call results (a value or a run-time panic), and the generic lemmas
  on them that the component theories use. Nothing here is specific to one component.
\<close>

section \<open>Types\<close>

type_synonym byte = "8 word"
type_synonym bytes = "8 word list"
type_synonym u32 = "32 word"
type_synonym u64 = "64 word"

text \<open>
  A Go map is an association list: the list order is one of the iteration orders that
  \<open>range\<close> may produce. Lookup is \<^const>\<open>map_of\<close>, assignment is \<^const>\<open>AList.update\<close>,
  \<open>delete\<close> is \<^const>\<open>AList.delete\<close>; well-formed maps have distinct keys.
\<close>

type_synonym ('k, 'v) gomap = "('k \<times> 'v) list"

abbreviation gm_get :: "('k, 'v) gomap \<Rightarrow> 'k \<Rightarrow> 'v option" where
  "gm_get m k \<equiv> map_of m k"

abbreviation gm_set :: "'k \<Rightarrow> 'v \<Rightarrow> ('k, 'v) gomap \<Rightarrow> ('k, 'v) gomap" where
  "gm_set k v m \<equiv> AList.update k v m"

abbreviation gm_del :: "'k \<Rightarrow> ('k, 'v) gomap \<Rightarrow> ('k, 'v) gomap" where
  "gm_del k m \<equiv> AList.delete k m"

abbreviation gm_wf :: "('k, 'v) gomap \<Rightarrow> bool" where
  "gm_wf m \<equiv> distinct (map fst m)"

text \<open>Indexing a Go map with a missing key yields the zero value of the element type.\<close>

definition gm_get0 :: "'v \<Rightarrow> ('k, 'v) gomap \<Rightarrow> 'k \<Rightarrow> 'v" where
  "gm_get0 z m k = (case map_of m k of None \<Rightarrow> z | Some v \<Rightarrow> v)"

text \<open>A Go call returns a value or panics.\<close>

datatype 'a go = Ret 'a | Panic

named_theorems gomap_simps "lookup after an update or a deletion of a Go map"
named_theorems record_frames "fields an operation leaves alone"

section \<open>Go maps\<close>

text \<open>Lookups stay lookups: they are not rewritten to membership in the association list.\<close>

declare map_of_eq_Some_iff [simp del] Some_eq_map_of_iff [simp del]

lemma gm_get_set [gomap_simps]: "gm_get (gm_set k v m) k' = (if k = k' then Some v else gm_get m k')"
  by (simp add: update_conv)

lemma gm_get_del [gomap_simps]: "gm_get (gm_del k m) k' = (if k = k' then None else gm_get m k')"
  by (simp add: delete_conv)

lemma gm_get0_set [gomap_simps]:
  "gm_get0 z (gm_set k v m) k' = (if k = k' then v else gm_get0 z m k')"
  by (simp add: gm_get0_def gm_get_set)

lemma gm_get0_Some [simp]: "gm_get m k = Some v \<Longrightarrow> gm_get0 z m k = v"
  by (simp add: gm_get0_def)

lemma gm_get0_None [simp]: "gm_get m k = None \<Longrightarrow> gm_get0 z m k = z"
  by (simp add: gm_get0_def)

lemma gm_wf_set [simp]: "gm_wf m \<Longrightarrow> gm_wf (gm_set k v m)"
  by (rule distinct_update)

lemma gm_wf_del [simp]: "gm_wf m \<Longrightarrow> gm_wf (gm_del k m)"
  by (rule distinct_delete)

lemma gm_del_empty_iff: "gm_del k m = [] \<longleftrightarrow> (\<forall>k'. k' \<noteq> k \<longrightarrow> gm_get m k' = None)"
proof
  assume *: "gm_del k m = []"
  show "\<forall>k'. k' \<noteq> k \<longrightarrow> gm_get m k' = None"
  proof (intro allI impI)
    fix k' assume "k' \<noteq> k"
    then show "gm_get m k' = None"
      using * gm_get_del [of k m k'] by simp
  qed
next
  assume *: "\<forall>k'. k' \<noteq> k \<longrightarrow> gm_get m k' = None"
  have "gm_get (gm_del k m) k' = None" for k'
    using * by (simp add: gm_get_del)
  then show "gm_del k m = []"
    by (metis map_of_eq_empty_iff ext)
qed

lemma gm_mem_iff: "gm_wf m \<Longrightarrow> (k, v) \<in> set m \<longleftrightarrow> gm_get m k = Some v"
  by (metis map_of_is_SomeI map_of_SomeD)

section \<open>Machine words\<close>

text \<open>Successors of \<^typ>\<open>u64\<close> sequence numbers wrap at the top; below it they behave.\<close>

lemma word_less_succ: "x \<noteq> - 1 \<Longrightarrow> x < x + (1 :: 'a::len word)"
  using inc_less_eq_self_iff_eq [of x] by (simp add: not_le [symmetric])

lemma word_less_succ_iff: "x \<noteq> - 1 \<Longrightarrow> y < x + 1 \<longleftrightarrow> y \<le> (x :: 'a::len word)"
  using word_less_succ [of x] less_inc_imp_less_eq [of y x] by auto

lemma word_succ_le_iff: "x \<noteq> - 1 \<Longrightarrow> x + 1 \<le> y \<longleftrightarrow> x < (y :: 'a::len word)"
  by (simp add: inc_less_eq_iff)

lemma word_le_succ: "x \<noteq> - 1 \<Longrightarrow> x \<le> x + (1 :: 'a::len word)"
  using word_less_succ [of x] by simp

section \<open>Lists\<close>

lemma list_update_same_conv: "i < length xs \<Longrightarrow> xs[i := xs ! i] = xs"
  by simp

lemma nth_update_iff:
  "i < length xs \<Longrightarrow> j < length xs \<Longrightarrow> xs[i := v] ! j = (if i = j then v else xs ! j)"
  by (simp add: nth_list_update)


section \<open>Decimal numerals\<close>

text \<open>\<open>strconv.FormatUint(n, 10)\<close>.\<close>

fun dec_str :: "nat \<Rightarrow> string" where
  "dec_str n = (if n < 10 then [char_of (48 + n)] else dec_str (n div 10) @ [char_of (48 + n mod 10)])"

declare dec_str.simps [simp del]

definition is_digit :: "char \<Rightarrow> bool" where
  "is_digit c \<longleftrightarrow> 48 \<le> (of_char c :: nat) \<and> (of_char c :: nat) \<le> 57"

fun dec_val :: "string \<Rightarrow> nat" where
  "dec_val s = foldl (\<lambda>a c. a * 10 + (of_char c - 48)) 0 s"

lemma dec_str_digits: "c \<in> set (dec_str n) \<Longrightarrow> is_digit c"
proof (induction n rule: dec_str.induct)
  case (1 n)
  then show ?case
    by (subst (asm) (2) dec_str.simps) (auto simp: is_digit_def split: if_splits)
qed

lemma dec_val_dec_str [simp]: "dec_val (dec_str n) = n"
proof (induction n rule: dec_str.induct)
  case (1 n)
  then show ?case by (subst dec_str.simps) auto
qed

lemma dec_str_inject [simp]: "dec_str m = dec_str n \<longleftrightarrow> m = n"
  by (metis dec_val_dec_str)

lemma dec_str_nonempty [simp]: "dec_str n \<noteq> []"
  by (subst dec_str.simps) auto

text \<open>A separator that is no digit splits an identifier from a trailing numeral uniquely.\<close>

lemma sep_dec_inject:
  assumes "\<not> is_digit c"
  shows "a @ c # dec_str m = b @ c # dec_str n \<longleftrightarrow> a = b \<and> m = n"
proof
  assume eq: "a @ c # dec_str m = b @ c # dec_str n"
  have tw: "takeWhile is_digit (rev (x @ c # dec_str k)) = rev (dec_str k)" for x k
  proof -
    have "rev (x @ c # dec_str k) = rev (dec_str k) @ c # rev x" by simp
    moreover have "takeWhile is_digit (rev (dec_str k) @ c # rev x) = rev (dec_str k) @ takeWhile is_digit (c # rev x)"
      by (rule takeWhile_append2) (simp add: dec_str_digits)
    ultimately show ?thesis using assms by simp
  qed
  from eq have "rev (dec_str m) = rev (dec_str n)" using tw [of a m] tw [of b n] by simp
  then have "m = n" by simp
  with eq show "a = b \<and> m = n" by simp
qed simp

end
