(* ===== verification/Change_Event.thy ===== *)
theory Change_Event
  imports Kaptanto_Prelude
begin

text \<open>
  The unified event type (\<open>internal/event/event.go\<close>), the log entry that wraps it
  (\<open>internal/eventlog/eventlog.go\<close>, \<open>logentry.go\<close>) and the JSON values rows are made of.
  Go strings and \<open>json.RawMessage\<close> are \<^typ>\<open>string\<close>s, one character per byte; a nil
  \<open>RawMessage\<close> is \<^term>\<open>None\<close>. The JSON codec is a parameter of the operations that decode.
\<close>

section \<open>IEEE doubles and JSON values\<close>

text \<open>
  A \<open>float64\<close> is kept as its 64 bits: sign, 11 exponent bits, 52 mantissa bits. Go's
  \<open>==\<close>, \<open><\<close> on doubles are the IEEE relations: a NaN is unordered and the two zeros are equal.
\<close>

type_synonym float64 = "64 word"

definition f64_mag :: "float64 \<Rightarrow> nat" where
  "f64_mag x = unat x mod 2 ^ 63"

definition f64_neg :: "float64 \<Rightarrow> bool" where
  "f64_neg x \<longleftrightarrow> 2 ^ 63 \<le> unat x"

definition f64_is_nan :: "float64 \<Rightarrow> bool" where
  "f64_is_nan x \<longleftrightarrow> 0x7FF0000000000000 < f64_mag x"

definition f64_eq :: "float64 \<Rightarrow> float64 \<Rightarrow> bool" where
  "f64_eq x y \<longleftrightarrow> \<not> f64_is_nan x \<and> \<not> f64_is_nan y \<and> (x = y \<or> (f64_mag x = 0 \<and> f64_mag y = 0))"

definition f64_less :: "float64 \<Rightarrow> float64 \<Rightarrow> bool" where
  "f64_less x y \<longleftrightarrow> \<not> f64_is_nan x \<and> \<not> f64_is_nan y \<and>
     (if f64_neg x then
        (if f64_neg y then f64_mag y < f64_mag x else \<not> (f64_mag x = 0 \<and> f64_mag y = 0))
      else \<not> f64_neg y \<and> f64_mag x < f64_mag y)"

datatype json = JNull | JBool bool | JNum float64 | JStr string | JArr "json list"
  | JObj "(string, json) gomap"

section \<open>Change events\<close>

type_synonym operation = string

definition OpInsert :: operation where "OpInsert = ''insert''"
definition OpUpdate :: operation where "OpUpdate = ''update''"
definition OpDelete :: operation where "OpDelete = ''delete''"
definition OpRead :: operation where "OpRead = ''read''"
definition OpControl :: operation where "OpControl = ''control''"

lemmas op_defs = OpInsert_def OpUpdate_def OpDelete_def OpRead_def OpControl_def

type_synonym raw_message = "string option"

record change_event =
  ev_id :: string
  ev_idempotency_key :: string
  ev_timestamp :: int
  ev_source :: string
  ev_operation :: operation
  ev_database :: string
  ev_schema :: string
  ev_table :: string
  ev_key :: raw_message
  ev_before :: raw_message
  ev_after :: raw_message
  ev_metadata :: "(string, json) gomap"
  ev_ai_context :: raw_message

text \<open>\<open>string(raw)\<close> and \<open>len(raw)\<close>: a nil slice converts to the empty string.\<close>

definition raw_str :: "raw_message \<Rightarrow> string" where
  "raw_str r = (case r of None \<Rightarrow> [] | Some s \<Rightarrow> s)"

definition str_bytes :: "string \<Rightarrow> bytes" where
  "str_bytes s = map (\<lambda>c. of_char c) s"

section \<open>Log entries\<close>

record log_entry =
  le_seq :: u64
  le_partition :: u32
  le_event :: "change_event option"
  le_raw :: string

datatype entry_error = NoRawBytes | UnmarshalFailed

text \<open>
  \<open>MaterializeEvent\<close> decodes \<open>Raw\<close> once; it is a no-op when the event is present. The entry is
  returned updated; on an error it is unchanged.
\<close>

definition MaterializeEvent ::
  "(string \<Rightarrow> change_event option) \<Rightarrow> log_entry \<Rightarrow> entry_error + log_entry" where
  "MaterializeEvent unmarshal e =
     (if le_event e \<noteq> None then Inr e
      else if le_raw e = [] then Inl NoRawBytes
      else case unmarshal (le_raw e) of
             None \<Rightarrow> Inl UnmarshalFailed
           | Some ev \<Rightarrow> Inr (e\<lparr>le_event := Some ev\<rparr>))"

text \<open>
  \<open>GroupingKey\<close>: the primary-key bytes used for per-key ordering. The partial decode of the
  \<open>key\<close> field (parameter \<open>decode_key\<close>) is used when the event is not materialised.
\<close>

definition GroupingKey ::
  "(string \<Rightarrow> raw_message option) \<Rightarrow> log_entry \<Rightarrow> entry_error + string" where
  "GroupingKey decode_key e =
     (case le_event e of
        Some ev \<Rightarrow> Inr (raw_str (ev_key ev))
      | None \<Rightarrow>
          if le_raw e = [] then Inl NoRawBytes
          else case decode_key (le_raw e) of
                 None \<Rightarrow> Inl UnmarshalFailed
               | Some k \<Rightarrow> Inr (raw_str k))"

section \<open>Lemmas\<close>

lemma length_str_bytes [simp]: "length (str_bytes s) = length s"
  by (simp add: str_bytes_def)

lemma str_bytes_inject [simp]: "str_bytes s = str_bytes t \<longleftrightarrow> s = t"
proof -
  have "inj (\<lambda>c. of_char c :: byte)"
  proof (rule injI)
    fix c d :: char
    assume *: "(of_char c :: byte) = of_char d"
    have "unat (of_char a :: byte) = of_char a" for a
    proof -
      have "unat (of_nat (of_char a) :: byte) = of_char a mod 256"
        by (simp add: unsigned_of_nat take_bit_eq_mod)
      then show ?thesis by (simp add: of_nat_of_char)
    qed
    with * show "c = d" by (metis of_char_eq_iff)
  qed
  then show ?thesis by (simp add: str_bytes_def inj_map_eq_map)
qed

lemma f64_eq_sym: "f64_eq x y \<longleftrightarrow> f64_eq y x"
  by (auto simp: f64_eq_def)

lemma f64_less_irrefl [simp]: "\<not> f64_less x x"
  by (auto simp: f64_less_def)

lemma f64_less_not_sym: "f64_less x y \<Longrightarrow> \<not> f64_less y x"
  by (auto simp: f64_less_def split: if_splits)

lemma f64_nan_unordered: "f64_is_nan x \<Longrightarrow> \<not> f64_eq x y \<and> \<not> f64_less x y \<and> \<not> f64_less y x"
  by (simp add: f64_eq_def f64_less_def)

lemma f64_trichotomy:
  assumes "\<not> f64_is_nan x" "\<not> f64_is_nan y"
  shows "f64_less x y \<or> f64_eq x y \<or> f64_less y x"
proof -
  have split: "unat z = (if f64_neg z then 2 ^ 63 else 0) + f64_mag z" for z :: float64
  proof -
    have "unat z < 2 ^ 64" using unsigned_less [of z, where ?'a = nat] by simp
    then have "unat z div 2 ^ 63 < 2" by (simp add: less_mult_imp_div_less)
    then have "unat z div 2 ^ 63 = (if f64_neg z then 1 else 0)"
      by (auto simp: f64_neg_def div_greater_zero_iff)
    then show ?thesis
      using div_mult_mod_eq [of "unat z" "2 ^ 63"] by (simp add: f64_mag_def split: if_splits)
  qed
  have "x = y" if "f64_neg x = f64_neg y" "f64_mag x = f64_mag y"
    using that split [of x] split [of y] by (simp add: word_unat_eq_iff)
  with assms show ?thesis
    by (auto simp: f64_less_def f64_eq_def)
qed

lemma GroupingKey_materialized:
  assumes "\<And>r ev. unmarshal r = Some ev \<Longrightarrow> decode_key r = Some (ev_key ev)"
    and "MaterializeEvent unmarshal e = Inr e'"
  shows "GroupingKey decode_key e' = GroupingKey decode_key e"
  using assms by (auto simp: MaterializeEvent_def GroupingKey_def split: if_splits option.splits)

end
