(* ===== verification/Retry_Scheduler.thy ===== *)
theory Retry_Scheduler
  imports Change_Event
begin

text \<open>
  The retry scheduler (\<open>internal/router/retry.go\<close>, \<open>permanent.go\<close>): per-consumer queues of
  blocked message groups, the RTR-06 cursor floors, dead-lettering and the drain loop. Pointers
  to retry records are compared by identity in the source; a record carries its address \<open>rr_ref\<close>.
  Wall-clock readings, random numbers, \<open>Consumer.Deliver\<close> and \<open>dlq.Store.Write\<close> outcomes are
  arguments (\<open>drain_env\<close>), one per loop iteration; the end of the list is a cancelled context.
\<close>

section \<open>Errors\<close>

datatype go_error =
    ErrOther string
  | ErrClosedPipe
  | ErrDeadlineExceeded
  | PermanentError string
  | PermanentFlushError u64 "go_error option"
  | ErrWrap string go_error
  | RuntimeError string go_error
  | ExtractError go_error
  | StatusError nat string

text \<open>
  \<open>RuntimeError\<close> is the failure of a transform (\<open>internal/transform/transform.go\<close>), \<open>ExtractError\<close> and
  \<open>StatusError\<close> those of the vector sink (\<open>internal/output/vector/extract.go\<close>, \<open>status.go\<close>); the first
  two carry the \<open>PermanentDelivery\<close> marker and unwrap to their cause.
\<close>

text \<open>\<open>errors.Unwrap\<close>, followed to the end, with the error itself first.\<close>

fun err_chain :: "go_error \<Rightarrow> go_error list" where
  "err_chain (ErrWrap m e) = ErrWrap m e # err_chain e"
| "err_chain (RuntimeError l e) = RuntimeError l e # err_chain e"
| "err_chain (ExtractError e) = ExtractError e # err_chain e"
| "err_chain (PermanentFlushError s (Some e)) = PermanentFlushError s (Some e) # err_chain e"
| "err_chain e = [e]"

fun is_permanent_delivery :: "go_error \<Rightarrow> bool" where
  "is_permanent_delivery (PermanentError _) = True"
| "is_permanent_delivery (PermanentFlushError _ _) = True"
| "is_permanent_delivery (RuntimeError _ _) = True"
| "is_permanent_delivery (ExtractError _) = True"
| "is_permanent_delivery _ = False"

definition isPermanentError :: "go_error option \<Rightarrow> bool" where
  "isPermanentError err =
     (case err of
        None \<Rightarrow> False
      | Some e \<Rightarrow>
          if list_ex is_permanent_delivery (err_chain e) then True
          else list_ex (\<lambda>x. x = ErrClosedPipe) (err_chain e) \<or> list_ex (\<lambda>x. x = ErrDeadlineExceeded) (err_chain e))"

fun err_string :: "go_error \<Rightarrow> string" where
  "err_string (ErrOther m) = m"
| "err_string ErrClosedPipe = ''io: read/write on closed pipe''"
| "err_string ErrDeadlineExceeded = ''i/o timeout''"
| "err_string (PermanentError c) = ''permanent delivery error: '' @ c"
| "err_string (PermanentFlushError s None) = ''permanent flush error for seq '' @ dec_str (unat s)"
| "err_string (PermanentFlushError s (Some e)) =
     ''permanent flush error for seq '' @ dec_str (unat s) @ '': '' @ err_string e"
| "err_string (ErrWrap m e) = m @ err_string e"
| "err_string (RuntimeError l e) = ''transform ('' @ l @ ''): '' @ err_string e"
| "err_string (ExtractError e) = ''vector extract: '' @ err_string e"
| "err_string (StatusError n m) =
     ''vector: HTTP '' @ dec_str n @ (if m = [] then [] else '': '' @ m)"

section \<open>Backoff\<close>

text \<open>Durations are nanoseconds.\<close>

definition second :: int where "second = 1000000000"

definition retryDelays :: "int list" where
  "retryDelays = [1 * second, 5 * second, 30 * second, 120 * second, 600 * second]"

definition maxRetries :: nat where "maxRetries = 15"
definition maxReasonBytes :: nat where "maxReasonBytes = 1024"

definition NextDelay :: "nat \<Rightarrow> int" where
  "NextDelay attempt =
     (if attempt \<ge> length retryDelays then retryDelays ! (length retryDelays - 1) else retryDelays ! attempt)"

text \<open>\<open>rnd\<close> is \<open>rand.Int64N\<close>: a number in \<open>[0, n)\<close>.\<close>

definition JitteredDelay :: "(int \<Rightarrow> int) \<Rightarrow> nat \<Rightarrow> int" where
  "JitteredDelay rnd attempt = rnd (NextDelay attempt) + 1"

section \<open>State\<close>

record retry_record =
  rr_ref :: nat
  rr_entry :: log_entry
  rr_attempts :: nat
  rr_next_retry_at :: int
  rr_consumer_id :: string
  rr_last_err :: "go_error option"

record consumer_retry_state =
  cr_consumer :: string
  cr_blocked :: "(string, retry_record list) gomap"
  cr_floors :: "(u32, u64) gomap"

record retry_scheduler =
  rs_states :: "(string, consumer_retry_state) gomap"
  rs_dlq :: bool
  rs_on_floor_released :: bool

definition NewRetryScheduler :: retry_scheduler where
  "NewRetryScheduler = \<lparr>rs_states = [], rs_dlq = False, rs_on_floor_released = False\<rparr>"

definition rs_SetDLQ :: "bool \<Rightarrow> retry_scheduler \<Rightarrow> retry_scheduler" where
  "rs_SetDLQ store rs = rs\<lparr>rs_dlq := store\<rparr>"

text \<open>What \<open>OnFloorReleased\<close> is called with: consumer, partition, the floor or none.\<close>

datatype floor_note = FloorNote (fn_consumer: string) (fn_partition: u32) (fn_floor: "u64 option")

section \<open>Queues and floors\<close>

definition ensureState :: "string \<Rightarrow> retry_scheduler \<Rightarrow> consumer_retry_state" where
  "ensureState c rs =
     (case gm_get (rs_states rs) c of
        Some s \<Rightarrow> s
      | None \<Rightarrow> \<lparr>cr_consumer = c, cr_blocked = [], cr_floors = []\<rparr>)"

definition lowerFloor :: "u32 \<Rightarrow> u64 \<Rightarrow> consumer_retry_state \<Rightarrow> consumer_retry_state" where
  "lowerFloor p seq s =
     (case gm_get (cr_floors s) p of
        None \<Rightarrow> s\<lparr>cr_floors := gm_set p seq (cr_floors s)\<rparr>
      | Some cur \<Rightarrow> if seq < cur then s\<lparr>cr_floors := gm_set p seq (cr_floors s)\<rparr> else s)"

definition AddBlocked :: "string \<Rightarrow> string \<Rightarrow> retry_record \<Rightarrow> retry_scheduler \<Rightarrow> retry_scheduler" where
  "AddBlocked c groupKey rec rs =
     (let s = ensureState c rs;
          existed = gm_get (cr_blocked s) groupKey \<noteq> None;
          s1 = s\<lparr>cr_blocked := gm_set groupKey (gm_get0 [] (cr_blocked s) groupKey @ [rec]) (cr_blocked s)\<rparr>;
          s2 = (if existed then s1 else lowerFloor (le_partition (rr_entry rec)) (le_seq (rr_entry rec)) s1)
      in rs\<lparr>rs_states := gm_set c s2 (rs_states rs)\<rparr>)"

text \<open>The scan over the heads of the blocked groups, in iteration order.\<close>

fun scan_heads :: "u32 \<Rightarrow> (string, retry_record list) gomap \<Rightarrow> u64 option \<Rightarrow> u64 option" where
  "scan_heads p [] acc = acc"
| "scan_heads p ((g, []) # gs) acc = scan_heads p gs acc"
| "scan_heads p ((g, h # q) # gs) acc =
     (if le_partition (rr_entry h) \<noteq> p then scan_heads p gs acc
      else scan_heads p gs
             (case acc of
                None \<Rightarrow> Some (le_seq (rr_entry h))
              | Some m \<Rightarrow> if le_seq (rr_entry h) < m then Some (le_seq (rr_entry h)) else acc))"

definition recomputeFloor :: "u32 \<Rightarrow> consumer_retry_state \<Rightarrow> consumer_retry_state" where
  "recomputeFloor p s =
     (case scan_heads p (cr_blocked s) None of
        None \<Rightarrow> s\<lparr>cr_floors := gm_del p (cr_floors s)\<rparr>
      | Some m \<Rightarrow> s\<lparr>cr_floors := gm_set p m (cr_floors s)\<rparr>)"

definition afterPop :: "bool \<Rightarrow> u32 \<Rightarrow> consumer_retry_state \<Rightarrow> consumer_retry_state \<times> floor_note option" where
  "afterPop cb p s =
     (let s' = recomputeFloor p s
      in (s', if cb then Some (FloorNote (cr_consumer s') p (gm_get (cr_floors s') p)) else None))"

definition Floor :: "retry_scheduler \<Rightarrow> string \<Rightarrow> u32 \<Rightarrow> u64 option" where
  "Floor rs c p =
     (case gm_get (rs_states rs) c of None \<Rightarrow> None | Some s \<Rightarrow> gm_get (cr_floors s) p)"

definition BlockedCount :: "retry_scheduler \<Rightarrow> string \<Rightarrow> nat" where
  "BlockedCount rs c = (case gm_get (rs_states rs) c of None \<Rightarrow> 0 | Some s \<Rightarrow> length (cr_blocked s))"

definition HasBlocked :: "retry_scheduler \<Rightarrow> bool" where
  "HasBlocked rs = list_ex (\<lambda>(_, s). length (cr_blocked s) > 0) (rs_states rs)"

definition IsBlocked :: "retry_scheduler \<Rightarrow> string \<Rightarrow> string \<Rightarrow> bool" where
  "IsBlocked rs c groupKey =
     (case gm_get (rs_states rs) c of
        None \<Rightarrow> False
      | Some s \<Rightarrow> length (gm_get0 [] (cr_blocked s) groupKey) > 0)"

definition BlockedQueue :: "retry_scheduler \<Rightarrow> string \<Rightarrow> string \<Rightarrow> retry_record list" where
  "BlockedQueue rs c groupKey =
     (case gm_get (rs_states rs) c of None \<Rightarrow> [] | Some s \<Rightarrow> gm_get0 [] (cr_blocked s) groupKey)"

definition ForceRetryNow :: "int \<Rightarrow> string \<Rightarrow> string \<Rightarrow> retry_scheduler \<Rightarrow> retry_scheduler" where
  "ForceRetryNow now c groupKey rs =
     (case gm_get (rs_states rs) c of
        None \<Rightarrow> rs
      | Some s \<Rightarrow>
          (case gm_get (cr_blocked s) groupKey of
             None \<Rightarrow> rs
           | Some [] \<Rightarrow> rs
           | Some (r # q) \<Rightarrow>
               rs\<lparr>rs_states := gm_set c (s\<lparr>cr_blocked :=
                  gm_set groupKey (r\<lparr>rr_next_retry_at := now - second\<rparr> # q) (cr_blocked s)\<rparr>) (rs_states rs)\<rparr>))"

section \<open>Dead-lettering\<close>

record dlq_entry =
  dq_id :: string
  dq_consumer_id :: string
  dq_event_id :: string
  dq_table :: string
  dq_partition :: u32
  dq_seq :: u64
  dq_attempts :: nat
  dq_reason :: string
  dq_idempotency_key :: string
  dq_payload :: string
  dq_created_at :: "int option"

definition buildDLQEntry :: "(change_event \<Rightarrow> string option) \<Rightarrow> retry_record \<Rightarrow> dlq_entry" where
  "buildDLQEntry marshal rec =
     (let e = rr_entry rec;
          payload = (case (le_raw e, le_event e) of
                       ([], Some ev) \<Rightarrow> (case marshal ev of None \<Rightarrow> [] | Some j \<Rightarrow> j)
                     | (raw, _) \<Rightarrow> raw);
          reason = (case rr_last_err rec of None \<Rightarrow> [] | Some err \<Rightarrow> take maxReasonBytes (err_string err))
      in \<lparr>dq_id = [], dq_consumer_id = rr_consumer_id rec,
          dq_event_id = (case le_event e of None \<Rightarrow> [] | Some ev \<Rightarrow> ev_id ev),
          dq_table = (case le_event e of None \<Rightarrow> [] | Some ev \<Rightarrow> ev_table ev),
          dq_partition = le_partition e, dq_seq = le_seq e, dq_attempts = rr_attempts rec, dq_reason = reason,
          dq_idempotency_key = (case le_event e of None \<Rightarrow> [] | Some ev \<Rightarrow> ev_idempotency_key ev),
          dq_payload = payload, dq_created_at = None\<rparr>)"

definition popHead :: "int \<Rightarrow> string \<Rightarrow> retry_record list \<Rightarrow> consumer_retry_state \<Rightarrow> consumer_retry_state" where
  "popHead now groupKey queue s =
     (case queue of
        _ # r2 # rest \<Rightarrow>
          s\<lparr>cr_blocked := gm_set groupKey (r2\<lparr>rr_next_retry_at := now\<rparr> # rest) (cr_blocked s)\<rparr>
      | _ \<Rightarrow> s\<lparr>cr_blocked := gm_del groupKey (cr_blocked s)\<rparr>)"

text \<open>Effects visible outside the scheduler, in the order they happen.\<close>

datatype effect =
    EffDeliver string log_entry "go_error option"
  | EffDLQ dlq_entry bool
  | EffFloor floor_note

definition put_state :: "string \<Rightarrow> consumer_retry_state \<Rightarrow> retry_scheduler \<Rightarrow> retry_scheduler" where
  "put_state c s rs = rs\<lparr>rs_states := gm_set c s (rs_states rs)\<rparr>"

definition note_eff :: "floor_note option \<Rightarrow> effect list" where
  "note_eff n = (case n of None \<Rightarrow> [] | Some x \<Rightarrow> [EffFloor x])"

definition pop_and_release ::
  "int \<Rightarrow> string \<Rightarrow> string \<Rightarrow> retry_record \<Rightarrow> retry_record list \<Rightarrow> consumer_retry_state \<Rightarrow> retry_scheduler
     \<Rightarrow> retry_scheduler \<times> effect list" where
  "pop_and_release now c groupKey rec queue s rs =
     (let (s', n) = afterPop (rs_on_floor_released rs) (le_partition (rr_entry rec)) (popHead now groupKey queue s)
      in (put_state c s' rs, note_eff n))"

text \<open>
  \<open>deadLetterHead\<close>. With no store the head is logged and popped. With a store the entry is
  written first; a failed write keeps the head and pushes \<open>NextRetryAt\<close> to the plateau; after a
  successful write the log line dereferences \<open>rec.Entry.Event\<close>, which panics on a nil event,
  before the head is popped.
\<close>

definition deadLetterHead ::
  "(change_event \<Rightarrow> string option) \<Rightarrow> go_error option \<Rightarrow> int \<Rightarrow> (int \<Rightarrow> int) \<Rightarrow> string \<Rightarrow> string \<Rightarrow> retry_record
     \<Rightarrow> retry_scheduler \<Rightarrow> (retry_scheduler \<times> effect list) go" where
  "deadLetterHead marshal writeErr now rnd c groupKey rec rs =
     (let s = ensureState c rs;
          queue = gm_get0 [] (cr_blocked s) groupKey
      in if \<not> rs_dlq rs then
           (case queue of
              [] \<Rightarrow> Ret (rs, [])
            | h # q \<Rightarrow>
                if rr_ref h \<noteq> rr_ref rec then Ret (rs, [])
                else Ret (pop_and_release now c groupKey rec queue s rs))
         else
           (let w = EffDLQ (buildDLQEntry marshal rec) (writeErr = None)
            in case queue of
                 [] \<Rightarrow> Ret (rs, [w])
               | h # q \<Rightarrow>
                   if rr_ref h \<noteq> rr_ref rec then Ret (rs, [w])
                   else if writeErr \<noteq> None then
                     Ret (put_state c (s\<lparr>cr_blocked := gm_set groupKey
                            (h\<lparr>rr_next_retry_at := now + JitteredDelay rnd (length retryDelays - 1)\<rparr> # q)
                            (cr_blocked s)\<rparr>) rs, [w])
                   else if le_event (rr_entry rec) = None then Panic
                   else (let (rs', effs) = pop_and_release now c groupKey rec queue s rs
                         in Ret (rs', w # effs))))"

section \<open>Draining a group\<close>

record drain_env =
  de_now :: int
  de_deliver :: "go_error option"
  de_now2 :: int
  de_write :: "go_error option"
  de_rnd :: "int \<Rightarrow> int"

datatype drain_step = DrainStop retry_scheduler "effect list" | DrainGo retry_scheduler "effect list"

text \<open>
  The first critical section of an iteration: the head to deliver, or \<^term>\<open>None\<close> with the
  state to return with.
\<close>

definition drain_head :: "int \<Rightarrow> string \<Rightarrow> string \<Rightarrow> retry_scheduler \<Rightarrow> retry_scheduler \<times> retry_record option" where
  "drain_head now c groupKey rs =
     (let s = ensureState c rs
      in case gm_get0 [] (cr_blocked s) groupKey of
           [] \<Rightarrow> (put_state c (s\<lparr>cr_blocked := gm_del groupKey (cr_blocked s)\<rparr>) rs, None)
         | rec # q \<Rightarrow> if now < rr_next_retry_at rec then (rs, None) else (rs, Some rec))"

text \<open>The second critical section: apply the delivery outcome \<open>err\<close> of \<open>rec\<close>.\<close>

definition drain_apply ::
  "(change_event \<Rightarrow> string option) \<Rightarrow> drain_env \<Rightarrow> string \<Rightarrow> string \<Rightarrow> retry_record \<Rightarrow> retry_scheduler \<Rightarrow> drain_step go" where
  "drain_apply marshal env c groupKey rec rs =
     (let s = ensureState c rs;
          queue = gm_get0 [] (cr_blocked s) groupKey;
          err = de_deliver env;
          d = EffDeliver c (rr_entry rec) err;
          store = (\<lambda>r. put_state c (s\<lparr>cr_blocked := gm_set groupKey (r # tl queue) (cr_blocked s)\<rparr>) rs);
          dead = (\<lambda>r. case deadLetterHead marshal (de_write env) (de_now2 env) (de_rnd env) c groupKey r (store r) of
                        Panic \<Rightarrow> Panic
                      | Ret (rs', effs) \<Rightarrow> Ret (DrainGo rs' (d # effs)))
      in case queue of
           [] \<Rightarrow> Ret (DrainStop rs [d])
         | h # q \<Rightarrow>
             if rr_ref h \<noteq> rr_ref rec then Ret (DrainStop rs [d])
             else if err = None then
               (let (rs', effs) = pop_and_release (de_now2 env) c groupKey h queue s rs
                in Ret (DrainGo rs' (d # effs)))
             else if isPermanentError err then dead (h\<lparr>rr_last_err := err\<rparr>)
             else
               (let r = h\<lparr>rr_last_err := err, rr_attempts := Suc (rr_attempts h)\<rparr>
                in if rr_attempts r \<ge> maxRetries then dead r
                   else Ret (DrainStop (store (r\<lparr>rr_next_retry_at :=
                          de_now2 env + JitteredDelay (de_rnd env) (rr_attempts r)\<rparr>)) [d])))"

fun drainGroup ::
  "(change_event \<Rightarrow> string option) \<Rightarrow> drain_env list \<Rightarrow> string \<Rightarrow> string \<Rightarrow> retry_scheduler
     \<Rightarrow> (retry_scheduler \<times> effect list) go" where
  "drainGroup marshal [] c groupKey rs = Ret (rs, [])"
| "drainGroup marshal (env # envs) c groupKey rs =
     (case drain_head (de_now env) c groupKey rs of
        (rs1, None) \<Rightarrow> Ret (rs1, [])
      | (rs1, Some rec) \<Rightarrow>
          (case drain_apply marshal env c groupKey rec rs1 of
             Panic \<Rightarrow> Panic
           | Ret (DrainStop rs2 effs) \<Rightarrow> Ret (rs2, effs)
           | Ret (DrainGo rs2 effs) \<Rightarrow>
               (case drainGroup marshal envs c groupKey rs2 of
                  Panic \<Rightarrow> Panic
                | Ret (rs3, effs') \<Rightarrow> Ret (rs3, effs @ effs'))))"

section \<open>Tick\<close>

text \<open>Phase 1: drop empty groups and collect the groups whose head is due.\<close>

definition due_groups :: "int \<Rightarrow> consumer_retry_state \<Rightarrow> string list" where
  "due_groups now s =
     map fst (filter (\<lambda>(g, q). case q of [] \<Rightarrow> False | r # _ \<Rightarrow> \<not> now < rr_next_retry_at r) (cr_blocked s))"

definition tick_phase1 :: "int \<Rightarrow> retry_scheduler \<Rightarrow> retry_scheduler \<times> (string \<times> string) list" where
  "tick_phase1 now rs =
     (rs\<lparr>rs_states := map (\<lambda>(c, s). (c, s\<lparr>cr_blocked := filter (\<lambda>(g, q). q \<noteq> []) (cr_blocked s)\<rparr>)) (rs_states rs)\<rparr>,
      concat (map (\<lambda>(c, s). map (Pair c) (due_groups now s)) (rs_states rs)))"

fun tick_phase2 ::
  "(change_event \<Rightarrow> string option) \<Rightarrow> (string \<times> string) list \<Rightarrow> drain_env list list \<Rightarrow> retry_scheduler
     \<Rightarrow> (retry_scheduler \<times> effect list) go" where
  "tick_phase2 marshal [] envss rs = Ret (rs, [])"
| "tick_phase2 marshal (dg # due) [] rs = Ret (rs, [])"
| "tick_phase2 marshal ((c, g) # due) (envs # envss) rs =
     (case drainGroup marshal envs c g rs of
        Panic \<Rightarrow> Panic
      | Ret (rs1, effs) \<Rightarrow>
          (case tick_phase2 marshal due envss rs1 of
             Panic \<Rightarrow> Panic
           | Ret (rs2, effs') \<Rightarrow> Ret (rs2, effs @ effs')))"

definition Tick ::
  "(change_event \<Rightarrow> string option) \<Rightarrow> int \<Rightarrow> drain_env list list \<Rightarrow> retry_scheduler
     \<Rightarrow> (retry_scheduler \<times> effect list) go" where
  "Tick marshal now envss rs = (let (rs1, due) = tick_phase1 now rs in tick_phase2 marshal due envss rs1)"


section \<open>Invariant\<close>

text \<open>
  \<open>head_seqs p m\<close>: the sequence numbers of the heads of the groups that live on partition
  \<open>p\<close>. The floor of a partition is their minimum. \<open>pf\<close> maps a group key to the partition its
  events are stored in.
\<close>

fun head_of :: "u32 \<Rightarrow> retry_record list \<Rightarrow> u64 option" where
  "head_of p [] = None"
| "head_of p (h # q) = (if le_partition (rr_entry h) = p then Some (le_seq (rr_entry h)) else None)"

definition head_seqs :: "u32 \<Rightarrow> (string, retry_record list) gomap \<Rightarrow> u64 set" where
  "head_seqs p m = {s. \<exists>g q. gm_get m g = Some q \<and> head_of p q = Some s}"

definition opt_min :: "'a::linorder set \<Rightarrow> 'a option" where
  "opt_min S = (if S = {} then None else Some (Min S))"

definition crs_inv :: "(string \<Rightarrow> u32) \<Rightarrow> consumer_retry_state \<Rightarrow> bool" where
  "crs_inv pf s \<longleftrightarrow> gm_wf (cr_blocked s) \<and>
     (\<forall>g q. gm_get (cr_blocked s) g = Some q \<longrightarrow> q \<noteq> [] \<and> (\<forall>r \<in> set q. le_partition (rr_entry r) = pf g)) \<and>
     (\<forall>p. gm_get (cr_floors s) p = opt_min (head_seqs p (cr_blocked s)))"

definition rs_inv :: "(string \<Rightarrow> u32) \<Rightarrow> retry_scheduler \<Rightarrow> bool" where
  "rs_inv pf rs \<longleftrightarrow> gm_wf (rs_states rs) \<and>
     (\<forall>c s. gm_get (rs_states rs) c = Some s \<longrightarrow> cr_consumer s = c \<and> crs_inv pf s)"

text \<open>The entries queued for a consumer and group, in order.\<close>

definition queued :: "retry_scheduler \<Rightarrow> string \<Rightarrow> string \<Rightarrow> log_entry list" where
  "queued rs c g = map rr_entry (BlockedQueue rs c g)"

section \<open>Minimum of the heads\<close>

lemma finite_head_seqs [simp]: "finite (head_seqs p m)"
proof (rule finite_subset)
  show "head_seqs p m \<subseteq> (\<lambda>(g, q). the (head_of p q)) ` set m"
    by (force simp: head_seqs_def dest: map_of_SomeD)
qed simp

lemma head_seqs_Nil [simp]: "head_seqs p [] = {}"
  by (simp add: head_seqs_def)

lemma opt_min_insert:
  "finite S \<Longrightarrow> opt_min (insert x S) = Some (case opt_min S of None \<Rightarrow> x | Some m \<Rightarrow> min x m)"
  by (simp add: opt_min_def)

lemma head_seqs_Cons:
  assumes "g \<notin> fst ` set m"
  shows "head_seqs p ((g, q) # m) = set_option (head_of p q) \<union> head_seqs p m"
proof -
  have none: "gm_get m g = None" using assms by (simp add: map_of_eq_None_iff)
  have get: "gm_get ((g, q) # m) g' = (if g = g' then Some q else gm_get m g')" for g' by simp
  show ?thesis
  proof (rule set_eqI)
    fix s
    show "s \<in> head_seqs p ((g, q) # m) \<longleftrightarrow> s \<in> set_option (head_of p q) \<union> head_seqs p m"
      unfolding head_seqs_def mem_Collect_eq Un_iff elem_set get using none
      by (metis option.distinct(1) option.inject)
  qed
qed

lemma scan_heads_acc:
  "gm_wf m \<Longrightarrow> scan_heads p m acc =
     (case (acc, opt_min (head_seqs p m)) of (None, o') \<Rightarrow> o' | (Some a, None) \<Rightarrow> Some a | (Some a, Some b) \<Rightarrow> Some (min a b))"
proof (induction p m acc rule: scan_heads.induct)
  case (1 p acc)
  then show ?case by (simp add: opt_min_def split: option.splits)
next
  case (2 p g gs acc)
  then show ?case by (simp add: head_seqs_Cons)
next
  case (3 p g h q gs acc)
  have wf: "gm_wf gs" and new: "g \<notin> fst ` set gs" using "3.prems" by auto
  show ?case
  proof (cases "le_partition (rr_entry h) = p")
    case True
    with "3.IH"(2) [OF _ wf] new show ?thesis
      by (auto simp: head_seqs_Cons opt_min_insert min_def split: option.splits)
  next
    case False
    with "3.IH"(1) [OF _ wf] new show ?thesis by (simp add: head_seqs_Cons)
  qed
qed

lemma scan_heads_Min: "gm_wf m \<Longrightarrow> scan_heads p m None = opt_min (head_seqs p m)"
  by (simp add: scan_heads_acc)

text \<open>Only the head a group contributes matters: replacing, adding or removing a group.\<close>

lemma head_seqs_set_eq:
  assumes "\<And>q0. gm_get m g = Some q0 \<Longrightarrow> head_of p q0 = head_of p q"
    and "gm_get m g = None \<Longrightarrow> head_of p q = None"
  shows "head_seqs p (gm_set g q m) = head_seqs p m"
proof (rule set_eqI)
  fix s
  show "s \<in> head_seqs p (gm_set g q m) \<longleftrightarrow> s \<in> head_seqs p m"
  proof (cases "gm_get m g")
    case None
    with assms(2) show ?thesis
      unfolding head_seqs_def mem_Collect_eq gm_get_set
      by (metis option.distinct(1) option.inject)
  next
    case (Some q0)
    with assms(1) show ?thesis
      unfolding head_seqs_def mem_Collect_eq gm_get_set by (metis option.inject)
  qed
qed

lemma head_seqs_del_eq:
  assumes "\<And>q0. gm_get m g = Some q0 \<Longrightarrow> head_of p q0 = None"
  shows "head_seqs p (gm_del g m) = head_seqs p m"
  unfolding head_seqs_def gm_get_del using assms by (metis option.distinct(1))

lemma head_seqs_set_new:
  assumes "gm_get m g = None"
  shows "head_seqs p (gm_set g q m) = set_option (head_of p q) \<union> head_seqs p m"
proof (rule set_eqI)
  fix s
  show "s \<in> head_seqs p (gm_set g q m) \<longleftrightarrow> s \<in> set_option (head_of p q) \<union> head_seqs p m"
    unfolding head_seqs_def mem_Collect_eq Un_iff elem_set gm_get_set using assms
    by (metis option.distinct(1) option.inject)
qed

section \<open>Projections\<close>

lemma crs_inv_fresh [simp]: "crs_inv pf \<lparr>cr_consumer = c, cr_blocked = [], cr_floors = []\<rparr>"
  by (simp add: crs_inv_def opt_min_def)

lemma rs_inv_ensure:
  assumes "rs_inv pf rs"
  shows "crs_inv pf (ensureState c rs)" "cr_consumer (ensureState c rs) = c"
  using assms by (auto simp: ensureState_def rs_inv_def split: option.splits)

lemma rs_inv_new [simp]: "rs_inv pf NewRetryScheduler"
  by (simp add: rs_inv_def NewRetryScheduler_def)

lemma BlockedQueue_ensure: "BlockedQueue rs c g = gm_get0 [] (cr_blocked (ensureState c rs)) g"
  by (simp add: BlockedQueue_def ensureState_def split: option.splits)

lemma Floor_ensure: "Floor rs c p = gm_get (cr_floors (ensureState c rs)) p"
  by (simp add: Floor_def ensureState_def split: option.splits)

lemma IsBlocked_queue: "IsBlocked rs c g \<longleftrightarrow> BlockedQueue rs c g \<noteq> []"
  by (simp add: IsBlocked_def BlockedQueue_def split: option.splits)

lemma ensure_put: "ensureState c' (put_state c s rs) = (if c = c' then s else ensureState c' rs)"
  by (simp add: ensureState_def put_state_def gomap_simps)

lemma put_state_sel [simp]:
  "rs_dlq (put_state c s rs) = rs_dlq rs" "rs_on_floor_released (put_state c s rs) = rs_on_floor_released rs"
  by (simp_all add: put_state_def)

lemma rs_inv_put:
  "rs_inv pf rs \<Longrightarrow> crs_inv pf s \<Longrightarrow> cr_consumer s = c \<Longrightarrow> rs_inv pf (put_state c s rs)"
  by (auto simp: rs_inv_def put_state_def gomap_simps split: if_splits)

lemma crs_inv_queue:
  assumes "crs_inv pf s" "gm_get0 [] (cr_blocked s) g = h # q"
  shows "gm_get (cr_blocked s) g = Some (h # q)" "le_partition (rr_entry h) = pf g"
    "\<And>r. r \<in> set q \<Longrightarrow> le_partition (rr_entry r) = pf g"
  using assms by (auto simp: crs_inv_def gm_get0_def split: option.splits)

section \<open>Each operation keeps the invariant\<close>

lemma AddBlocked_state:
  assumes "rs_inv pf rs" "le_partition (rr_entry rec) = pf g"
  shows "\<exists>s. AddBlocked c g rec rs = put_state c s rs \<and> crs_inv pf s \<and> cr_consumer s = c \<and>
     cr_blocked s = gm_set g (BlockedQueue rs c g @ [rec]) (cr_blocked (ensureState c rs))"
proof -
  define s where "s = ensureState c rs"
  have inv: "crs_inv pf s" "cr_consumer s = c" using rs_inv_ensure [OF assms(1)] by (simp_all add: s_def)
  let ?q = "gm_get0 [] (cr_blocked s) g"
  show ?thesis
  proof (cases "gm_get (cr_blocked s) g")
    case (Some q)
    with inv have "q \<noteq> []" unfolding crs_inv_def by blast
    with Some obtain h t where q: "q = h # t" "gm_get (cr_blocked s) g = Some (h # t)"
      by (cases q) auto
    let ?s = "s\<lparr>cr_blocked := gm_set g (?q @ [rec]) (cr_blocked s)\<rparr>"
    have "head_seqs p (gm_set g (h # t @ [rec]) (cr_blocked s)) = head_seqs p (cr_blocked s)" for p
      by (rule head_seqs_set_eq) (auto simp: q)
    with inv assms(2) q have "crs_inv pf ?s"
      by (auto simp: crs_inv_def gomap_simps split: if_splits)
    with inv Some show ?thesis
      by (intro exI [of _ ?s]) (simp add: AddBlocked_def Let_def s_def [symmetric] put_state_def BlockedQueue_ensure)
  next
    case None
    let ?s1 = "s\<lparr>cr_blocked := gm_set g [rec] (cr_blocked s)\<rparr>"
    let ?s = "lowerFloor (le_partition (rr_entry rec)) (le_seq (rr_entry rec)) ?s1"
    have bl: "cr_blocked ?s = gm_set g [rec] (cr_blocked s)" "cr_consumer ?s = cr_consumer s"
      by (simp_all add: lowerFloor_def split: option.splits)
    have "gm_get (cr_floors ?s) p = opt_min (head_seqs p (cr_blocked ?s))" for p
      using inv(1) unfolding bl head_seqs_set_new [OF None]
      by (auto simp: crs_inv_def lowerFloor_def gomap_simps opt_min_insert min_def split: option.splits if_splits)
    with inv assms(2) bl have "crs_inv pf ?s"
      by (auto simp: crs_inv_def gomap_simps split: if_splits)
    with inv None bl show ?thesis
      by (intro exI [of _ ?s]) (simp add: AddBlocked_def Let_def s_def [symmetric] put_state_def BlockedQueue_ensure)
  qed
qed

lemma AddBlocked_inv:
  "rs_inv pf rs \<Longrightarrow> le_partition (rr_entry rec) = pf g \<Longrightarrow> rs_inv pf (AddBlocked c g rec rs)"
  using AddBlocked_state rs_inv_put by metis

lemma BlockedQueue_AddBlocked:
  "BlockedQueue (AddBlocked c g rec rs) c' g' =
     (if c' = c \<and> g' = g then BlockedQueue rs c g @ [rec] else BlockedQueue rs c' g')"
proof -
  define s where "s = ensureState c rs"
  have "cr_blocked (if b then x else lowerFloor p n x) = cr_blocked x" for b x p n
    by (simp add: lowerFloor_def split: option.splits)
  then show ?thesis
    by (simp add: AddBlocked_def Let_def put_state_def [symmetric] BlockedQueue_ensure ensure_put gomap_simps)
qed

lemma AddBlocked_sel [simp]:
  "rs_dlq (AddBlocked c g rec rs) = rs_dlq rs"
  "rs_on_floor_released (AddBlocked c g rec rs) = rs_on_floor_released rs"
  by (simp_all add: AddBlocked_def Let_def)

lemma Floor_AddBlocked_other: "c' \<noteq> c \<Longrightarrow> Floor (AddBlocked c g rec rs) c' p = Floor rs c' p"
  by (simp add: AddBlocked_def Let_def put_state_def [symmetric] Floor_ensure ensure_put)

text \<open>Replacing the head by a record of the same entry changes neither queues nor floors.\<close>

lemma replace_head:
  assumes "crs_inv pf s" "gm_get0 [] (cr_blocked s) g = h # q" "rr_entry h' = rr_entry h"
  shows "crs_inv pf (s\<lparr>cr_blocked := gm_set g (h' # q) (cr_blocked s)\<rparr>)"
proof -
  note G = crs_inv_queue [OF assms(1,2)]
  have "head_seqs p (gm_set g (h' # q) (cr_blocked s)) = head_seqs p (cr_blocked s)" for p
    by (rule head_seqs_set_eq) (auto simp: G(1) assms(3))
  with assms G show ?thesis
    by (auto simp: crs_inv_def gomap_simps split: if_splits)
qed

lemma popHead_sel [simp]:
  "cr_floors (popHead now g q s) = cr_floors s" "cr_consumer (popHead now g q s) = cr_consumer s"
  by (simp_all add: popHead_def split: list.splits)

lemma recompute_sel [simp]:
  "cr_blocked (recomputeFloor p s) = cr_blocked s" "cr_consumer (recomputeFloor p s) = cr_consumer s"
  by (simp_all add: recomputeFloor_def split: option.splits)

lemma popHead_inv:
  fixes now :: int
  assumes inv: "crs_inv pf s" and q: "gm_get0 [] (cr_blocked s) g = h # q"
  defines "s' \<equiv> recomputeFloor (pf g) (popHead now g (h # q) s)"
  shows "crs_inv pf s'"
    and "gm_get0 [] (cr_blocked s') g' = (if g' = g then (case q of [] \<Rightarrow> [] | r # t \<Rightarrow> r\<lparr>rr_next_retry_at := now\<rparr> # t)
           else gm_get0 [] (cr_blocked s) g')"
proof -
  note G = crs_inv_queue [OF inv q]
  have bl: "cr_blocked s' = (case q of [] \<Rightarrow> gm_del g (cr_blocked s)
      | r # t \<Rightarrow> gm_set g (r\<lparr>rr_next_retry_at := now\<rparr> # t) (cr_blocked s))"
    by (simp add: s'_def popHead_def split: list.splits)
  then show "gm_get0 [] (cr_blocked s') g' = (if g' = g then (case q of [] \<Rightarrow> [] | r # t \<Rightarrow> r\<lparr>rr_next_retry_at := now\<rparr> # t)
           else gm_get0 [] (cr_blocked s) g')"
    by (auto simp: gm_get0_def gomap_simps split: list.splits)
  have wf: "gm_wf (cr_blocked s')" using inv by (auto simp: bl crs_inv_def split: list.splits)
  have qs: "q' \<noteq> [] \<and> (\<forall>r \<in> set q'. le_partition (rr_entry r) = pf g')"
    if "gm_get (cr_blocked s') g' = Some q'" for g' q'
    using that inv G(3) by (auto simp: bl crs_inv_def gomap_simps split: list.splits if_splits)
  have "gm_get (cr_floors s') p = opt_min (head_seqs p (cr_blocked s'))" for p
  proof (cases "p = pf g")
    case True
    have "scan_heads (pf g) (cr_blocked (popHead now g (h # q) s)) None = opt_min (head_seqs (pf g) (cr_blocked s'))"
      using wf by (simp add: scan_heads_Min s'_def)
    with True show ?thesis
      by (simp add: s'_def recomputeFloor_def gomap_simps split: option.splits)
  next
    case False
    have "head_seqs p (cr_blocked s') = head_seqs p (cr_blocked s)"
      unfolding bl using False G
      by (auto split: list.splits intro!: head_seqs_set_eq head_seqs_del_eq)
    moreover have "gm_get (cr_floors s') p = gm_get (cr_floors s) p"
      using False by (simp add: s'_def recomputeFloor_def gomap_simps split: option.splits)
    ultimately show ?thesis using inv by (simp add: crs_inv_def)
  qed
  with wf qs show "crs_inv pf s'" by (simp add: crs_inv_def)
qed

lemma pop_and_release_state:
  assumes inv: "rs_inv pf rs" and q: "BlockedQueue rs c g = h # q"
    and ref: "rr_entry rec = rr_entry h"
    and eq: "pop_and_release now c g rec (h # q) (ensureState c rs) rs = (rs', effs)"
  shows "rs_inv pf rs'" "queued rs' c' g' = (if c' = c \<and> g' = g then tl (queued rs c g) else queued rs c' g')"
    "effs = (if rs_on_floor_released rs then [EffFloor (FloorNote c (pf g) (Floor rs' c (pf g)))] else [])"
    "rs_dlq rs' = rs_dlq rs" "rs_on_floor_released rs' = rs_on_floor_released rs"
    "c' \<noteq> c \<Longrightarrow> Floor rs' c' p = Floor rs c' p"
proof -
  define s where "s = ensureState c rs"
  have si: "crs_inv pf s" "cr_consumer s = c" using rs_inv_ensure [OF inv] by (simp_all add: s_def)
  have sq: "gm_get0 [] (cr_blocked s) g = h # q" using q by (simp add: s_def BlockedQueue_ensure)
  have part: "le_partition (rr_entry rec) = pf g" using crs_inv_queue(2) [OF si(1) sq] by (simp add: ref)
  let ?s = "recomputeFloor (pf g) (popHead now g (h # q) s)"
  from eq have rs': "rs' = put_state c ?s rs"
    and effs: "effs = note_eff (if rs_on_floor_released rs
        then Some (FloorNote (cr_consumer ?s) (pf g) (gm_get (cr_floors ?s) (pf g))) else None)"
    by (simp_all add: pop_and_release_def afterPop_def Let_def part s_def [symmetric])
  note P = popHead_inv [OF si(1) sq, of now]
  show "rs_inv pf rs'" unfolding rs' using P(1) si by (intro rs_inv_put inv) auto
  show "queued rs' c' g' = (if c' = c \<and> g' = g then tl (queued rs c g) else queued rs c' g')"
    using P(2) [of g'] sq q
    by (auto simp: queued_def BlockedQueue_ensure rs' ensure_put s_def split: list.splits)
  show "effs = (if rs_on_floor_released rs then [EffFloor (FloorNote c (pf g) (Floor rs' c (pf g)))] else [])"
    unfolding effs by (simp add: note_eff_def Floor_ensure rs' ensure_put si(2))
  show "rs_dlq rs' = rs_dlq rs" "rs_on_floor_released rs' = rs_on_floor_released rs"
    by (simp_all add: rs')
  show "Floor rs' c' p = Floor rs c' p" if "c' \<noteq> c" using that by (simp add: Floor_ensure rs' ensure_put)
qed

text \<open>
  What one application of a delivery outcome can do: leave every queue and floor as it was, or
  remove exactly the head of the group, which was delivered, or written to the dead-letter
  store, or dropped because no store is configured.
\<close>

definition head_settled :: "bool \<Rightarrow> go_error option \<Rightarrow> log_entry \<Rightarrow> effect list \<Rightarrow> bool" where
  "head_settled dlq err e effs \<longleftrightarrow>
     err = None \<or> \<not> dlq \<or> (\<exists>d. EffDLQ d True \<in> set effs \<and> dq_seq d = le_seq e \<and> dq_partition d = le_partition e \<and>
        le_event e \<noteq> None \<and> dq_event_id d = ev_id (the (le_event e)))"

definition same_queues :: "retry_scheduler \<Rightarrow> retry_scheduler \<Rightarrow> bool" where
  "same_queues rs rs' \<longleftrightarrow> (\<forall>c g. queued rs' c g = queued rs c g) \<and> (\<forall>c p. Floor rs' c p = Floor rs c p)"

fun step_state :: "drain_step \<Rightarrow> retry_scheduler" where
  "step_state (DrainStop rs effs) = rs"
| "step_state (DrainGo rs effs) = rs"

fun step_effects :: "drain_step \<Rightarrow> effect list" where
  "step_effects (DrainStop rs effs) = effs"
| "step_effects (DrainGo rs effs) = effs"

lemma same_queues_refl [simp]: "same_queues rs rs"
  by (simp add: same_queues_def)

lemma replace_head_rs:
  assumes inv: "rs_inv pf rs" and q: "BlockedQueue rs c g = h # q" and e: "rr_entry h' = rr_entry h"
  defines "rs' \<equiv> put_state c ((ensureState c rs)\<lparr>cr_blocked := gm_set g (h' # q) (cr_blocked (ensureState c rs))\<rparr>) rs"
  shows "rs_inv pf rs'" "same_queues rs rs'" "BlockedQueue rs' c g = h' # q"
proof -
  note si = rs_inv_ensure [OF inv, of c]
  have sq: "gm_get0 [] (cr_blocked (ensureState c rs)) g = h # q" using q by (simp add: BlockedQueue_ensure)
  show "rs_inv pf rs'" unfolding rs'_def
    using replace_head [OF si(1) sq e] si(2) by (intro rs_inv_put inv) auto
  show "BlockedQueue rs' c g = h' # q" by (simp add: rs'_def BlockedQueue_ensure ensure_put gomap_simps)
  show "same_queues rs rs'"
    using q e by (auto simp: same_queues_def queued_def BlockedQueue_ensure Floor_ensure rs'_def ensure_put gomap_simps)
qed

lemma buildDLQEntry_sel [simp]:
  "dq_seq (buildDLQEntry m r) = le_seq (rr_entry r)" "dq_partition (buildDLQEntry m r) = le_partition (rr_entry r)"
  "dq_event_id (buildDLQEntry m r) = (case le_event (rr_entry r) of None \<Rightarrow> [] | Some ev \<Rightarrow> ev_id ev)"
  "dq_consumer_id (buildDLQEntry m r) = rr_consumer_id r"
  by (simp_all add: buildDLQEntry_def Let_def)

lemma deadLetterHead_cases:
  assumes inv: "rs_inv pf rs" and q: "BlockedQueue rs c g = h # q" and e: "rec = h"
    and eq: "deadLetterHead marshal werr now rnd c g rec rs = Ret (rs', effs)"
  obtains (keep) "rs_inv pf rs'" "same_queues rs rs'" "rs_dlq rs' = rs_dlq rs"
      "rs_on_floor_released rs' = rs_on_floor_released rs" "\<And>n. EffFloor n \<notin> set effs"
  | (pop) "rs_inv pf rs'" "\<And>c' g'. queued rs' c' g' = (if c' = c \<and> g' = g then tl (queued rs c g) else queued rs c' g')"
      "head_settled (rs_dlq rs) (Some err) (rr_entry h) effs" "rs_dlq rs' = rs_dlq rs"
      "rs_on_floor_released rs' = rs_on_floor_released rs" "\<And>c' p. c' \<noteq> c \<Longrightarrow> Floor rs' c' p = Floor rs c' p"
      "\<And>n. EffFloor n \<in> set effs \<longleftrightarrow> rs_on_floor_released rs \<and> n = FloorNote c (pf g) (Floor rs' c (pf g))"
proof (cases "rs_dlq rs \<and> werr \<noteq> None")
  case True
  with eq q e have rs': "rs' = put_state c ((ensureState c rs)\<lparr>cr_blocked :=
      gm_set g (h\<lparr>rr_next_retry_at := now + JitteredDelay rnd (length retryDelays - 1)\<rparr> # q)
        (cr_blocked (ensureState c rs))\<rparr>) rs"
    and effs: "effs = [EffDLQ (buildDLQEntry marshal rec) False]"
    by (auto simp: deadLetterHead_def Let_def BlockedQueue_ensure)
  show thesis
    by (rule keep) (use replace_head_rs [OF inv q] rs' effs in simp_all)
next
  case False
  obtain rs1 pe where pr: "pop_and_release now c g rec (h # q) (ensureState c rs) rs = (rs1, pe)"
    by fastforce
  note P = pop_and_release_state [OF inv q _ pr, unfolded e, OF refl]
  from False eq q e pr have rs1: "rs' = rs1"
    and effs: "effs = (if rs_dlq rs then [EffDLQ (buildDLQEntry marshal rec) True] else []) @ pe"
    and ev: "rs_dlq rs \<Longrightarrow> le_event (rr_entry h) \<noteq> None"
    by (auto simp: deadLetterHead_def Let_def BlockedQueue_ensure split: if_splits)
  show thesis
  proof (rule pop)
    show "head_settled (rs_dlq rs) (Some err) (rr_entry h) effs"
      using ev by (auto simp: head_settled_def effs e intro!: exI [of _ "buildDLQEntry marshal h"])
  qed (use P rs1 effs in auto)
qed

lemma drain_apply_cases:
  assumes inv: "rs_inv pf rs" and q: "BlockedQueue rs c g = h # q"
    and eq: "drain_apply marshal env c g rec rs = Ret st"
  obtains (keep) "rs_inv pf (step_state st)" "same_queues rs (step_state st)"
      "rs_dlq (step_state st) = rs_dlq rs" "rs_on_floor_released (step_state st) = rs_on_floor_released rs"
      "\<And>n. EffFloor n \<notin> set (step_effects st)"
  | (pop) "rs_inv pf (step_state st)"
      "\<And>c' g'. queued (step_state st) c' g' = (if c' = c \<and> g' = g then tl (queued rs c g) else queued rs c' g')"
      "head_settled (rs_dlq rs) (de_deliver env) (rr_entry h) (step_effects st)"
      "rs_dlq (step_state st) = rs_dlq rs" "rs_on_floor_released (step_state st) = rs_on_floor_released rs"
      "\<And>c' p. c' \<noteq> c \<Longrightarrow> Floor (step_state st) c' p = Floor rs c' p"
      "\<And>n. EffFloor n \<in> set (step_effects st) \<longleftrightarrow>
         rs_on_floor_released rs \<and> n = FloorNote c (pf g) (Floor (step_state st) c (pf g))"
      "rr_ref h = rr_ref rec"
proof -
  note keep_case = keep and pop_case = pop
  have sq: "gm_get0 [] (cr_blocked (ensureState c rs)) g = h # q" using q by (simp add: BlockedQueue_ensure)
  let ?d = "EffDeliver c (rr_entry rec) (de_deliver env)"
  have dead: thesis
    if err: "de_deliver env = Some err" and ref: "rr_ref h = rr_ref rec" and r: "rr_entry r = rr_entry h"
      and d: "(case deadLetterHead marshal (de_write env) (de_now2 env) (de_rnd env) c g r
                (put_state c ((ensureState c rs)\<lparr>cr_blocked := gm_set g (r # q) (cr_blocked (ensureState c rs))\<rparr>) rs) of
               Panic \<Rightarrow> Panic | Ret (rs', effs) \<Rightarrow> Ret (DrainGo rs' (EffDeliver c (rr_entry rec) (Some err) # effs))) = Ret st"
    for err r
  proof -
    define rs1 where "rs1 = put_state c ((ensureState c rs)\<lparr>cr_blocked := gm_set g (r # q) (cr_blocked (ensureState c rs))\<rparr>) rs"
    note R = replace_head_rs [OF inv q r, folded rs1_def]
    from d obtain rs' effs where dl: "deadLetterHead marshal (de_write env) (de_now2 env) (de_rnd env) c g r rs1 = Ret (rs', effs)"
      and st: "st = DrainGo rs' (EffDeliver c (rr_entry rec) (Some err) # effs)"
      by (auto simp: rs1_def [symmetric] split: go.splits)
    have sel: "rs_dlq rs1 = rs_dlq rs" "rs_on_floor_released rs1 = rs_on_floor_released rs"
      by (simp_all add: rs1_def)
    show thesis
      using R(1,3) refl dl
    proof (cases rule: deadLetterHead_cases [where err = err])
      case keep
      then show thesis
        using R(2) sel by (intro keep_case) (auto simp: st same_queues_def)
    next
      case pop
      have "head_settled (rs_dlq rs) (de_deliver env) (rr_entry h) (EffDeliver c (rr_entry rec) (Some err) # effs)"
        using pop(3) by (auto simp: head_settled_def err r sel)
      with pop R(2) sel ref show thesis
        by (intro pop_case) (auto simp: st same_queues_def)
    qed
  qed
  show thesis
  proof (cases "rr_ref h = rr_ref rec")
    case False
    with eq sq have "st = DrainStop rs [?d]" by (simp add: drain_apply_def Let_def)
    with inv show thesis by (intro keep) auto
  next
    case ref: True
    show thesis
    proof (cases "de_deliver env")
      case None
      obtain rs1 pe where pr: "pop_and_release (de_now2 env) c g h (h # q) (ensureState c rs) rs = (rs1, pe)"
        by fastforce
      with eq sq ref None have st: "st = DrainGo rs1 (?d # pe)" by (simp add: drain_apply_def Let_def)
      note P = pop_and_release_state [OF inv q refl pr]
      show thesis
        by (rule pop) (use P st ref None in \<open>auto simp: head_settled_def\<close>)
    next
      case (Some err)
      show thesis
      proof (cases "isPermanentError (Some err)")
        case True
        with eq sq ref Some show thesis
          by (intro dead [OF Some ref, of "h\<lparr>rr_last_err := Some err\<rparr>"]) (simp_all add: drain_apply_def Let_def)
      next
        case False
        let ?r = "h\<lparr>rr_last_err := Some err, rr_attempts := Suc (rr_attempts h)\<rparr>"
        show thesis
        proof (cases "maxRetries \<le> Suc (rr_attempts h)")
          case True
          with eq sq ref Some False show thesis
            by (intro dead [OF Some ref, of ?r]) (simp_all add: drain_apply_def Let_def)
        next
          case no: False
          let ?r' = "?r\<lparr>rr_next_retry_at := de_now2 env + JitteredDelay (de_rnd env) (Suc (rr_attempts h))\<rparr>"
          from eq sq ref Some False no have st: "st = DrainStop (put_state c ((ensureState c rs)\<lparr>cr_blocked :=
              gm_set g (?r' # q) (cr_blocked (ensureState c rs))\<rparr>) rs) [?d]"
            by (simp add: drain_apply_def Let_def)
          show thesis
            by (rule keep) (use replace_head_rs [OF inv q, of ?r'] st in simp_all)
        qed
      qed
    qed
  qed
qed

section \<open>The first critical section of a drain\<close>

lemma drain_head_Some: "drain_head now c g rs = (rs', Some rec) \<Longrightarrow> rs' = rs \<and> (\<exists>q. BlockedQueue rs c g = rec # q)"
  by (auto simp: drain_head_def Let_def BlockedQueue_ensure split: list.splits if_splits)

lemma drain_head_None:
  assumes inv: "rs_inv pf rs" and h: "drain_head now c g rs = (rs', None)"
  shows "rs_inv pf rs'" "BlockedQueue rs' c' g' = BlockedQueue rs c' g'" "Floor rs' c' p = Floor rs c' p"
    "rs_dlq rs' = rs_dlq rs" "rs_on_floor_released rs' = rs_on_floor_released rs"
proof -
  let ?s = "ensureState c rs"
  let ?s' = "?s\<lparr>cr_blocked := gm_del g (cr_blocked ?s)\<rparr>"
  note si = rs_inv_ensure [OF inv, of c]
  have cs: "rs' = rs \<or> BlockedQueue rs c g = [] \<and> rs' = put_state c ?s' rs"
    using h by (auto simp: drain_head_def Let_def BlockedQueue_ensure split: list.splits if_splits)
  have none: "gm_get (cr_blocked ?s) g = None" if "BlockedQueue rs c g = []"
    using that si(1) by (auto simp: BlockedQueue_ensure crs_inv_def gm_get0_def split: option.splits)
  have same: "gm_get (gm_del g (cr_blocked ?s)) k = gm_get (cr_blocked ?s) k" if "BlockedQueue rs c g = []" for k
    using none [OF that] by (auto simp: gomap_simps)
  have ci: "crs_inv pf ?s'" if "BlockedQueue rs c g = []"
    using si(1) same [OF that] by (simp add: crs_inv_def head_seqs_def)
  show "rs_inv pf rs'" using cs inv ci si(2) by (auto intro: rs_inv_put)
  show "BlockedQueue rs' c' g' = BlockedQueue rs c' g'"
    using cs same by (auto simp: BlockedQueue_ensure ensure_put gm_get0_def)
  show "Floor rs' c' p = Floor rs c' p" using cs by (auto simp: Floor_ensure ensure_put)
  show "rs_dlq rs' = rs_dlq rs" "rs_on_floor_released rs' = rs_on_floor_released rs" using cs by auto
qed

section \<open>Draining a group\<close>

text \<open>
  What a drain of one group leaves behind: a suffix of the group's queue, everything in front
  of it delivered, dead-lettered, or dropped for lack of a store; the other queues are untouched.
\<close>

definition accounted :: "bool \<Rightarrow> string \<Rightarrow> effect list \<Rightarrow> log_entry \<Rightarrow> bool" where
  "accounted dlq c effs e \<longleftrightarrow> \<not> dlq \<or>
     list_ex (\<lambda>x. case x of
        EffDeliver c' e' err \<Rightarrow> c' = c \<and> e' = e \<and> err = None
      | EffDLQ d ok \<Rightarrow> ok \<and> dq_seq d = le_seq e \<and> dq_partition d = le_partition e \<and>
          map_option ev_id (le_event e) = Some (dq_event_id d)
      | EffFloor n \<Rightarrow> False) effs"

lemma accounted_append: "accounted dlq c effs e \<Longrightarrow> accounted dlq c (effs @ effs') e"
  "accounted dlq c effs' e \<Longrightarrow> accounted dlq c (effs @ effs') e"
  by (auto simp: accounted_def)

lemma drain_apply_delivers:
  "drain_apply marshal env c g rec rs = Ret st \<Longrightarrow> EffDeliver c (rr_entry rec) (de_deliver env) \<in> set (step_effects st)"
  by (auto simp: drain_apply_def Let_def split: list.splits if_splits go.splits prod.splits)

lemma drain_one:
  assumes inv: "rs_inv pf rs" and h: "drain_head now c g rs = (rs1, Some rec)"
    and ap: "drain_apply marshal env c g rec rs1 = Ret st"
  shows "rs_inv pf (step_state st)" "rs_dlq (step_state st) = rs_dlq rs"
    "\<exists>gone. queued rs c g = gone @ queued (step_state st) c g \<and> (\<forall>e \<in> set gone. accounted (rs_dlq rs) c (step_effects st) e)"
    "(c', g') \<noteq> (c, g) \<Longrightarrow> queued (step_state st) c' g' = queued rs c' g'"
proof -
  obtain q where rs1: "rs1 = rs" and q: "BlockedQueue rs c g = rec # q" using drain_head_Some [OF h] by blast
  have R: "rs_inv pf (step_state st) \<and> rs_dlq (step_state st) = rs_dlq rs \<and>
    (\<exists>gone. queued rs c g = gone @ queued (step_state st) c g \<and> (\<forall>e \<in> set gone. accounted (rs_dlq rs) c (step_effects st) e)) \<and>
    (\<forall>c' g'. (c', g') \<noteq> (c, g) \<longrightarrow> queued (step_state st) c' g' = queued rs c' g')"
    using inv q ap [unfolded rs1]
  proof (cases rule: drain_apply_cases)
    case keep
    then show ?thesis by (auto simp: same_queues_def intro!: exI [of _ "[]"])
  next
    case pop
    have "accounted (rs_dlq rs) c (step_effects st) (rr_entry rec)"
      using pop(3) drain_apply_delivers [OF ap]
      unfolding head_settled_def accounted_def list_ex_iff by force
    with pop(1,2,4) q show ?thesis
      by (auto simp: queued_def intro!: exI [of _ "[rr_entry rec]"])
  qed
  then show "rs_inv pf (step_state st)" "rs_dlq (step_state st) = rs_dlq rs"
    "\<exists>gone. queued rs c g = gone @ queued (step_state st) c g \<and> (\<forall>e \<in> set gone. accounted (rs_dlq rs) c (step_effects st) e)"
    "(c', g') \<noteq> (c, g) \<Longrightarrow> queued (step_state st) c' g' = queued rs c' g'"
    by blast+
qed

lemma drainGroup_spec:
  assumes "rs_inv pf rs" "drainGroup marshal envs c g rs = Ret (rs', effs)"
  shows "rs_inv pf rs' \<and> rs_dlq rs' = rs_dlq rs \<and>
    (\<exists>gone. queued rs c g = gone @ queued rs' c g \<and> (\<forall>e \<in> set gone. accounted (rs_dlq rs) c effs e)) \<and>
    (\<forall>c' g'. (c', g') \<noteq> (c, g) \<longrightarrow> queued rs' c' g' = queued rs c' g')"
  using assms
proof (induction envs arbitrary: rs effs)
  case Nil
  then show ?case by simp
next
  case (Cons env envs)
  obtain rs1 r where h: "drain_head (de_now env) c g rs = (rs1, r)" by fastforce
  show ?case
  proof (cases r)
    case None
    with Cons.prems(2) h have "rs' = rs1" "effs = []" by auto
    with drain_head_None [OF Cons.prems(1) h [unfolded None]] show ?thesis by (simp add: queued_def)
  next
    case (Some rec)
    from Cons.prems(2) h Some obtain st where ap: "drain_apply marshal env c g rec rs1 = Ret st"
      by (auto split: go.splits)
    note O = drain_one [OF Cons.prems(1) h [unfolded Some] ap]
    show ?thesis
    proof (cases st)
      case (DrainStop rs2 e2)
      with Cons.prems(2) h Some ap O show ?thesis by auto
    next
      case (DrainGo rs2 e2)
      with Cons.prems(2) h Some ap obtain e3
        where rest: "drainGroup marshal envs c g rs2 = Ret (rs', e3)" and effs: "effs = e2 @ e3"
        by (auto split: go.splits)
      have i2: "rs_inv pf rs2" using O(1) DrainGo by simp
      obtain g1 where g1: "queued rs c g = g1 @ queued rs2 c g" "\<forall>e \<in> set g1. accounted (rs_dlq rs) c e2 e"
        using O(3) DrainGo by auto
      obtain g2 where g2: "queued rs2 c g = g2 @ queued rs' c g" "\<forall>e \<in> set g2. accounted (rs_dlq rs) c e3 e"
        and R: "rs_inv pf rs'" "rs_dlq rs' = rs_dlq rs" "\<forall>c' g'. (c', g') \<noteq> (c, g) \<longrightarrow> queued rs' c' g' = queued rs2 c' g'"
        using Cons.IH [OF i2 rest] O(2) DrainGo by auto
      have "queued rs c g = (g1 @ g2) @ queued rs' c g \<and> (\<forall>e \<in> set (g1 @ g2). accounted (rs_dlq rs) c effs e)"
        using g1 g2 accounted_append unfolding effs by fastforce
      with R O(4) DrainGo show ?thesis by auto
    qed
  qed
qed

text \<open>
  C3. DLQ-01, the drain loop loses nothing: from a well-formed scheduler, a drain of a group
  that returns has removed a prefix of the group's queue and nothing else, each removed entry was
  delivered to the consumer without an error or written to the dead-letter store (with no store
  configured the source drops it with a log line), the remaining queue keeps its order, no other
  queue changed, and the scheduler is well-formed again.
\<close>

theorem drainGroup_accounts:
  assumes "rs_inv pf rs" "drainGroup marshal envs c g rs = Ret (rs', effs)"
  shows "rs_inv pf rs' \<and>
    (\<exists>gone. queued rs c g = gone @ queued rs' c g \<and> (\<forall>e \<in> set gone. accounted (rs_dlq rs) c effs e)) \<and>
    (\<forall>c' g'. (c', g') \<noteq> (c, g) \<longrightarrow> queued rs' c' g' = queued rs c' g')"
  using drainGroup_spec [OF assms] by blast

section \<open>Progress\<close>

fun deliveries :: "effect list \<Rightarrow> log_entry list" where
  "deliveries [] = []"
| "deliveries (EffDeliver c e err # effs) = e # deliveries effs"
| "deliveries (_ # effs) = deliveries effs"

lemma deliveries_append [simp]: "deliveries (a @ b) = deliveries a @ deliveries b"
  by (induction a rule: deliveries.induct) auto

lemma note_eff_deliveries [simp]: "deliveries (note_eff n) = []"
  by (simp add: note_eff_def split: option.splits)

lemma drain_success:
  assumes inv: "rs_inv pf rs" and q: "BlockedQueue rs c g = h # q" and now: "rr_next_retry_at h \<le> de_now env"
    and ok: "de_deliver env = None"
  obtains rs' effs where "drain_head (de_now env) c g rs = (rs, Some h)"
    "drain_apply marshal env c g h rs = Ret (DrainGo rs' effs)" "deliveries effs = [rr_entry h]" "rs_inv pf rs'"
    "BlockedQueue rs' c g = (case q of [] \<Rightarrow> [] | r # t \<Rightarrow> r\<lparr>rr_next_retry_at := de_now2 env\<rparr> # t)"
proof -
  have sq: "gm_get0 [] (cr_blocked (ensureState c rs)) g = h # q" using q by (simp add: BlockedQueue_ensure)
  have hd: "drain_head (de_now env) c g rs = (rs, Some h)" using sq now by (simp add: drain_head_def Let_def)
  obtain rs' pe where pr: "pop_and_release (de_now2 env) c g h (h # q) (ensureState c rs) rs = (rs', pe)" by fastforce
  have ap: "drain_apply marshal env c g h rs = Ret (DrainGo rs' (EffDeliver c (rr_entry h) None # pe))"
    using sq ok pr by (simp add: drain_apply_def Let_def)
  have pe: "deliveries pe = []" using pr by (auto simp: pop_and_release_def split: prod.splits)
  note si = rs_inv_ensure [OF inv, of c]
  have part: "le_partition (rr_entry h) = pf g" by (rule crs_inv_queue(2) [OF si(1) sq])
  have "BlockedQueue rs' c g = (case q of [] \<Rightarrow> [] | r # t \<Rightarrow> r\<lparr>rr_next_retry_at := de_now2 env\<rparr> # t)"
    using pr popHead_inv(2) [OF si(1) sq, of "de_now2 env" g]
    by (auto simp: pop_and_release_def afterPop_def Let_def part BlockedQueue_ensure ensure_put)
  with hd ap pe pop_and_release_state(1) [OF inv q refl pr] show thesis by (intro that) auto
qed

lemma drain_progress:
  assumes "rs_inv pf rs" "BlockedQueue rs c g = q" "length q < length envs"
    and "\<forall>env \<in> set envs. de_deliver env = None" "\<forall>h t. q = h # t \<longrightarrow> rr_next_retry_at h \<le> de_now (hd envs)"
    and "\<forall>i. Suc i < length envs \<longrightarrow> de_now2 (envs ! i) \<le> de_now (envs ! Suc i)"
  shows "\<exists>rs' effs. drainGroup marshal envs c g rs = Ret (rs', effs) \<and> BlockedQueue rs' c g = [] \<and>
    deliveries effs = map rr_entry q"
  using assms
proof (induction "length q" arbitrary: q rs envs rule: less_induct)
  case less
  obtain env envs' where envs: "envs = env # envs'" using less.prems(3) by (cases envs) auto
  show ?case
  proof (cases q)
    case Nil
    have sq: "gm_get0 [] (cr_blocked (ensureState c rs)) g = []"
      using less.prems(2) Nil by (simp add: BlockedQueue_ensure)
    obtain rs1 where h: "drain_head (de_now env) c g rs = (rs1, None)" using sq by (simp add: drain_head_def Let_def)
    with drain_head_None(2) [OF less.prems(1) h, of c g] less.prems(2) Nil show ?thesis by (simp add: envs)
  next
    case (Cons h t)
    have q: "BlockedQueue rs c g = h # t" using less.prems(2) Cons by simp
    obtain rs1 e1 where S: "drain_head (de_now env) c g rs = (rs, Some h)"
      "drain_apply marshal env c g h rs = Ret (DrainGo rs1 e1)" "deliveries e1 = [rr_entry h]" "rs_inv pf rs1"
      "BlockedQueue rs1 c g = (case t of [] \<Rightarrow> [] | r # u \<Rightarrow> r\<lparr>rr_next_retry_at := de_now2 env\<rparr> # u)"
      using drain_success [OF less.prems(1) q, of env marshal] less.prems(4,5) Cons envs by auto
    let ?q = "case t of [] \<Rightarrow> [] | r # u \<Rightarrow> r\<lparr>rr_next_retry_at := de_now2 env\<rparr> # u"
    have q1: "length ?q = length t" "map rr_entry ?q = map rr_entry t" by (auto split: list.splits)
    have ne: "envs' \<noteq> []" using less.prems(3) Cons envs by auto
    have first: "de_now2 env \<le> de_now (hd envs')"
      using less.prems(6) [rule_format, of 0] ne by (cases envs') (auto simp: envs)
    have tick: "\<forall>i. Suc i < length envs' \<longrightarrow> de_now2 (envs' ! i) \<le> de_now (envs' ! Suc i)"
      using less.prems(6) envs by (metis Suc_less_eq length_Cons nth_Cons_Suc)
    have "\<exists>rs' effs. drainGroup marshal envs' c g rs1 = Ret (rs', effs) \<and> BlockedQueue rs' c g = [] \<and>
      deliveries effs = map rr_entry ?q"
    proof (rule less.hyps [OF _ S(4,5) _ _ _ tick])
      show "length ?q < length q" "length ?q < length envs'" using less.prems(3) Cons envs q1(1) by simp_all
      show "\<forall>env \<in> set envs'. de_deliver env = None" using less.prems(4) envs by simp
      show "\<forall>h' t'. ?q = h' # t' \<longrightarrow> rr_next_retry_at h' \<le> de_now (hd envs')"
        using first by (cases t) auto
    qed
    with S q1 Cons show ?thesis by (auto simp: envs)
  qed
qed

text \<open>
  Once a consumer recovers, its backlog drains completely and in order: if the head of the
  group is due, every delivery succeeds, the clock does not run backwards, and there are more
  loop iterations than queued records, then the drain returns, the group is no longer blocked,
  and the deliveries are exactly the queued entries, first to last.
\<close>

theorem drainGroup_drains:
  assumes "rs_inv pf rs" "length (BlockedQueue rs c g) < length envs"
    and "\<forall>env \<in> set envs. de_deliver env = None"
    and "\<forall>h t. BlockedQueue rs c g = h # t \<longrightarrow> rr_next_retry_at h \<le> de_now (hd envs)"
    and "\<forall>i. Suc i < length envs \<longrightarrow> de_now2 (envs ! i) \<le> de_now (envs ! Suc i)"
  shows "\<exists>rs' effs. drainGroup marshal envs c g rs = Ret (rs', effs) \<and> \<not> IsBlocked rs' c g \<and>
    deliveries effs = queued rs c g"
  using drain_progress [OF assms(1) refl assms(2,3,4,5), of marshal] by (auto simp: queued_def IsBlocked_queue)

section \<open>The floor in every reachable state\<close>

lemma ForceRetryNow_eq:
  assumes "rs_inv pf rs"
  shows "ForceRetryNow now c g rs =
    (case BlockedQueue rs c g of [] \<Rightarrow> rs
     | h # q \<Rightarrow> put_state c ((ensureState c rs)\<lparr>cr_blocked :=
         gm_set g (h\<lparr>rr_next_retry_at := now - second\<rparr> # q) (cr_blocked (ensureState c rs))\<rparr>) rs)"
  by (auto simp: ForceRetryNow_def BlockedQueue_def ensureState_def put_state_def gm_get0_def split: option.splits list.splits)

lemma ForceRetryNow_inv:
  assumes "rs_inv pf rs"
  shows "rs_inv pf (ForceRetryNow now c g rs)" "same_queues rs (ForceRetryNow now c g rs)"
  using assms replace_head_rs [OF assms] ForceRetryNow_eq [OF assms, of now c g]
  by (auto split: list.splits)

lemma gm_get_map_val: "gm_get (map (\<lambda>(k, v). (k, f v)) m) k = map_option f (gm_get m k)"
  by (induction m) auto

lemma tick_phase1_states:
  assumes "rs_inv pf rs"
  shows "fst (tick_phase1 now rs) = rs"
proof -
  have id: "s\<lparr>cr_blocked := filter (\<lambda>(g, q). q \<noteq> []) (cr_blocked s)\<rparr> = s" if "(c, s) \<in> set (rs_states rs)" for c s
  proof -
    have "gm_get (rs_states rs) c = Some s" using assms that gm_mem_iff [of "rs_states rs" c s] unfolding rs_inv_def by blast
    then have "crs_inv pf s" using assms unfolding rs_inv_def by blast
    then have wf: "gm_wf (cr_blocked s)" and ne: "\<And>g q. gm_get (cr_blocked s) g = Some q \<Longrightarrow> q \<noteq> []"
      unfolding crs_inv_def by blast+
    have "filter (\<lambda>(g, q). q \<noteq> []) (cr_blocked s) = cr_blocked s"
      unfolding filter_id_conv
    proof
      fix x assume x: "x \<in> set (cr_blocked s)"
      obtain g q where gq: "x = (g, q)" by fastforce
      with x gm_mem_iff [OF wf] have "gm_get (cr_blocked s) g = Some q" by blast
      with ne gq show "case x of (g, q) \<Rightarrow> q \<noteq> []" by simp
    qed
    then show ?thesis by simp
  qed
  have "map (\<lambda>(c, s). (c, s\<lparr>cr_blocked := filter (\<lambda>(g, q). q \<noteq> []) (cr_blocked s)\<rparr>)) (rs_states rs) = rs_states rs"
  proof (rule map_idI)
    fix x assume x: "x \<in> set (rs_states rs)"
    obtain c s where xs: "x = (c, s)" by fastforce
    show "(case x of (c, s) \<Rightarrow> (c, s\<lparr>cr_blocked := filter (\<lambda>(g, q). q \<noteq> []) (cr_blocked s)\<rparr>)) = x"
      unfolding xs prod.case id [OF x [unfolded xs]] ..
  qed
  then show ?thesis by (simp add: tick_phase1_def)
qed

lemma tick_phase2_spec:
  assumes "rs_inv pf rs" "tick_phase2 marshal due envss rs = Ret (rs', effs)"
  shows "rs_inv pf rs' \<and> rs_dlq rs' = rs_dlq rs \<and>
    (\<forall>c g. \<exists>gone. queued rs c g = gone @ queued rs' c g \<and> (\<forall>e \<in> set gone. accounted (rs_dlq rs) c effs e))"
  using assms
proof (induction marshal due envss rs arbitrary: effs rule: tick_phase2.induct)
  case (3 marshal c g due envs envss rs)
  from "3.prems"(2) obtain rs1 e1 e2 where d: "drainGroup marshal envs c g rs = Ret (rs1, e1)"
    and t: "tick_phase2 marshal due envss rs1 = Ret (rs', e2)" and effs: "effs = e1 @ e2"
    by (auto split: go.splits)
  note D = drainGroup_spec [OF "3.prems"(1) d]
  have i1: "rs_inv pf rs1" and dq: "rs_dlq rs1 = rs_dlq rs" using D by simp_all
  note T = "3.IH" [OF d refl i1 t]
  have "\<exists>gone. queued rs c' g' = gone @ queued rs' c' g' \<and> (\<forall>e \<in> set gone. accounted (rs_dlq rs) c' effs e)" for c' g'
  proof -
    obtain g1 where g1: "queued rs c' g' = g1 @ queued rs1 c' g'" "\<forall>e \<in> set g1. accounted (rs_dlq rs) c' e1 e"
      using D by (cases "(c', g') = (c, g)") auto
    obtain g2 where g2: "queued rs1 c' g' = g2 @ queued rs' c' g'" "\<forall>e \<in> set g2. accounted (rs_dlq rs) c' e2 e"
      using T unfolding dq by blast
    from g1 g2 show ?thesis
      by (intro exI [of _ "g1 @ g2"]) (auto simp: effs intro: accounted_append)
  qed
  with T dq show ?case by simp
qed auto

text \<open>
  The scheduler as its callers use it: \<open>AddBlocked\<close> only with the entry's own group and
  partition, operator retries, drains and ticks.
\<close>

inductive rs_reach :: "(change_event \<Rightarrow> string option) \<Rightarrow> (string \<Rightarrow> u32) \<Rightarrow> retry_scheduler \<Rightarrow> bool"
  for marshal pf where
  new: "rs_reach marshal pf (rs_SetDLQ dlq NewRetryScheduler)"
| block: "rs_reach marshal pf rs \<Longrightarrow> le_partition (rr_entry rec) = pf g \<Longrightarrow> rs_reach marshal pf (AddBlocked c g rec rs)"
| force: "rs_reach marshal pf rs \<Longrightarrow> rs_reach marshal pf (ForceRetryNow now c g rs)"
| drain: "rs_reach marshal pf rs \<Longrightarrow> drainGroup marshal envs c g rs = Ret (rs', effs) \<Longrightarrow> rs_reach marshal pf rs'"
| tick: "rs_reach marshal pf rs \<Longrightarrow> Tick marshal now envss rs = Ret (rs', effs) \<Longrightarrow> rs_reach marshal pf rs'"

lemma rs_reach_inv: "rs_reach marshal pf rs \<Longrightarrow> rs_inv pf rs"
proof (induction rule: rs_reach.induct)
  case (new dlq)
  then show ?case by (simp add: rs_inv_def rs_SetDLQ_def NewRetryScheduler_def)
next
  case (block rs rec g c)
  then show ?case by (simp add: AddBlocked_inv)
next
  case (force rs now c g)
  then show ?case by (simp add: ForceRetryNow_inv)
next
  case (drain rs envs c g rs' effs)
  then show ?case using drainGroup_spec by blast
next
  case (tick rs now envss rs' effs)
  have "tick_phase2 marshal (snd (tick_phase1 now rs)) envss rs = Ret (rs', effs)"
    using tick.hyps(2) tick_phase1_states [OF tick.IH, of now] by (simp add: Tick_def split: prod.splits)
  then show ?case using tick_phase2_spec [OF tick.IH] by blast
qed


section \<open>Panics\<close>

lemma deadLetterHead_panic:
  "deadLetterHead marshal werr now rnd c g rec rs = Panic \<Longrightarrow> le_event (rr_entry rec) = None"
  by (auto simp: deadLetterHead_def Let_def split: list.splits if_splits prod.splits)

lemma drain_apply_panic:
  "drain_apply marshal env c g rec rs = Panic \<Longrightarrow> \<exists>h q. BlockedQueue rs c g = h # q \<and> le_event (rr_entry h) = None"
  by (auto simp: drain_apply_def Let_def BlockedQueue_ensure dest!: deadLetterHead_panic
      split: list.splits if_splits go.splits prod.splits)

lemma drainGroup_total:
  assumes "rs_inv pf rs" "\<forall>e \<in> set (queued rs c g). le_event e \<noteq> None"
  shows "drainGroup marshal envs c g rs \<noteq> Panic"
  using assms
proof (induction envs arbitrary: rs)
  case (Cons env envs)
  obtain rs1 r where h: "drain_head (de_now env) c g rs = (rs1, r)" by fastforce
  show ?case
  proof (cases r)
    case (Some rec)
    from drain_head_Some [OF h [unfolded Some]] obtain q where rs1: "rs1 = rs" and q: "BlockedQueue rs c g = rec # q"
      by blast
    have np: "drain_apply marshal env c g rec rs \<noteq> Panic"
      using drain_apply_panic [of marshal env c g rec rs] Cons.prems(2) q by (auto simp: queued_def)
    then obtain st where ap: "drain_apply marshal env c g rec rs1 = Ret st"
      by (cases "drain_apply marshal env c g rec rs") (auto simp: rs1)
    show ?thesis
    proof (cases st)
      case (DrainGo rs2 e2)
      note O = drain_one [OF Cons.prems(1) h [unfolded Some] ap]
      have "\<forall>e \<in> set (queued rs2 c g). le_event e \<noteq> None"
        using O(3) Cons.prems(2) DrainGo by auto
      then have "drainGroup marshal envs c g rs2 \<noteq> Panic" using O(1) DrainGo by (intro Cons.IH) auto
      with h Some ap DrainGo show ?thesis by (auto split: go.splits)
    qed (use h Some ap in auto)
  qed (use h in auto)
qed simp

text \<open>
  A drain never panics while every queued record of the group carries its decoded event.
\<close>

theorem drainGroup_no_panic:
  assumes "rs_inv pf rs" "\<forall>e \<in> set (queued rs c g). le_event e \<noteq> None"
  shows "drainGroup marshal envs c g rs \<noteq> Panic"
  using assms by (rule drainGroup_total)

text \<open>
  The other side: with a dead-letter store configured, draining a due head whose event was
  never decoded panics as soon as the consumer refuses it permanently and the dead-letter write
  succeeds, although the entry is already in the store. Follow-on records of a blocked group are
  queued with the event left undecoded.
\<close>

theorem undecoded_head_panics:
  assumes "rs_dlq rs" "BlockedQueue rs c g = rec # q" "le_event (rr_entry rec) = None"
    and "rr_next_retry_at rec \<le> de_now env" "isPermanentError (de_deliver env)" "de_write env = None"
  shows "drainGroup marshal (env # envs) c g rs = Panic"
proof -
  have sq: "gm_get0 [] (cr_blocked (ensureState c rs)) g = rec # q" using assms(2) by (simp add: BlockedQueue_ensure)
  have h: "drain_head (de_now env) c g rs = (rs, Some rec)" using sq assms(4) by (simp add: drain_head_def Let_def)
  obtain err where "de_deliver env = Some err"
    using assms(5) by (cases "de_deliver env") (auto simp: isPermanentError_def)
  with sq assms have "drain_apply marshal env c g rec rs = Panic"
    by (simp add: drain_apply_def deadLetterHead_def Let_def ensure_put gomap_simps)
  with h show ?thesis by simp
qed

end
