(* ===== verification/Router.thy ===== *)
theory Router
  imports Retry_Scheduler
begin

text \<open>
  The fan-out router (\<open>internal/router/router.go\<close>): consumers with per-partition cursors,
  dispatch of one log entry in its three phases, provisional cursors of batch flushers, the
  poison-flush path and the floor-release callback. The cursor store is an interface with
  several implementations; the operations take its \<open>save\<close>, \<open>load\<close> and \<open>delete\<close> as arguments
  over a store state of any type. A failed save is a \<open>save\<close> that leaves the store unchanged.
\<close>

definition poisonStreakLimit :: nat where "poisonStreakLimit = 25"

section \<open>State\<close>

record consumer_state =
  cs_consumer :: "string option"
  cs_cursor :: "(u32, u64) gomap"
  cs_removed :: bool
  cs_batch :: bool
  cs_provisional :: "(u32, u64) gomap"
  cs_skipped :: "(u32, u64 list) gomap"
  cs_streak :: "(u32, nat) gomap"
  cs_streak_logged :: "u32 list"
  cs_nodlq_logged :: "(u32 \<times> u64) list"

record 'st router =
  rt_consumers :: "consumer_state list"
  rt_num :: u32
  rt_store :: 'st
  rt_rs :: retry_scheduler
  rt_dlq :: bool

record consumer_snap =
  sn_consumer :: "string option"
  sn_blocked :: bool
  sn_cursor :: u64
  sn_skipped :: bool

type_synonym 'st saver = "string \<Rightarrow> u32 \<Rightarrow> u64 \<Rightarrow> 'st \<Rightarrow> 'st"

datatype cursor_save = CursorSave string u32 u64

definition active :: "consumer_state \<Rightarrow> bool" where
  "active cs \<longleftrightarrow> \<not> cs_removed cs \<and> cs_consumer cs \<noteq> None"

definition cs_id :: "consumer_state \<Rightarrow> string" where
  "cs_id cs = (case cs_consumer cs of None \<Rightarrow> [] | Some i \<Rightarrow> i)"

definition cursor_at :: "consumer_state \<Rightarrow> u32 \<Rightarrow> u64" where
  "cursor_at cs p = gm_get0 0 (cs_cursor cs) p"

definition set_consumer :: "nat \<Rightarrow> consumer_state \<Rightarrow> 'st router \<Rightarrow> 'st router" where
  "set_consumer i cs rt = rt\<lparr>rt_consumers := (rt_consumers rt)[i := cs]\<rparr>"

definition saveCursor :: "'st saver \<Rightarrow> cursor_save \<Rightarrow> 'st router \<Rightarrow> 'st router" where
  "saveCursor save sv rt = (case sv of CursorSave c p seq \<Rightarrow> rt\<lparr>rt_store := save c p seq (rt_store rt)\<rparr>)"

section \<open>Construction and registration\<close>

definition NewRouter :: "u32 \<Rightarrow> 'st \<Rightarrow> 'st router" where
  "NewRouter numPartitions store =
     \<lparr>rt_consumers = [], rt_num = numPartitions, rt_store = store,
      rt_rs = NewRetryScheduler\<lparr>rs_on_floor_released := True\<rparr>, rt_dlq = False\<rparr>"

definition SetDLQ :: "bool \<Rightarrow> 'st router \<Rightarrow> 'st router" where
  "SetDLQ store rt = rt\<lparr>rt_dlq := store\<rparr>"

definition allPartitions :: "u32 \<Rightarrow> u32 list" where
  "allPartitions n = map word_of_nat [0..<unat n]"

text \<open>\<open>load\<close> yields \<^term>\<open>None\<close> on an error; the cursor then starts at 1.\<close>

definition Register ::
  "('st \<Rightarrow> string \<Rightarrow> u32 \<Rightarrow> u64 option) \<Rightarrow> string \<Rightarrow> bool \<Rightarrow> 'st router \<Rightarrow> 'st router" where
  "Register load c isBatchFlusher rt =
     (let cursors = map (\<lambda>p. (p, case load (rt_store rt) c p of None \<Rightarrow> 1 | Some s \<Rightarrow> s)) (allPartitions (rt_num rt));
          cs = \<lparr>cs_consumer = Some c, cs_cursor = cursors, cs_removed = False, cs_batch = isBatchFlusher,
                cs_provisional = [], cs_skipped = [], cs_streak = [], cs_streak_logged = [], cs_nodlq_logged = []\<rparr>
      in rt\<lparr>rt_consumers := rt_consumers rt @ [cs]\<rparr>)"

fun find_active :: "string \<Rightarrow> nat \<Rightarrow> consumer_state list \<Rightarrow> nat option" where
  "find_active c i [] = None"
| "find_active c i (cs # css) = (if active cs \<and> cs_id cs = c then Some i else find_active c (Suc i) css)"

definition Unregister ::
  "(string \<Rightarrow> 'st \<Rightarrow> 'st) \<Rightarrow> string \<Rightarrow> 'st router \<Rightarrow> bool \<times> 'st router" where
  "Unregister del c rt =
     (case find_active c 0 (rt_consumers rt) of
        None \<Rightarrow> (False, rt)
      | Some i \<Rightarrow>
          let rt1 = set_consumer i ((rt_consumers rt ! i)\<lparr>cs_removed := True, cs_consumer := None,
                      cs_provisional := [], cs_skipped := []\<rparr>) rt
          in (True, rt1\<lparr>rt_store := del c (rt_store rt1)\<rparr>))"

definition ConsumerCount :: "'st router \<Rightarrow> nat" where
  "ConsumerCount rt = length (filter active (rt_consumers rt))"

section \<open>Reading position\<close>

fun min_cursor_loop :: "u32 \<Rightarrow> consumer_state list \<Rightarrow> u64 \<Rightarrow> u64" where
  "min_cursor_loop p [] m = m"
| "min_cursor_loop p (cs # css) m =
     (if \<not> active cs then min_cursor_loop p css m
      else min_cursor_loop p css (if m = 0 \<or> cursor_at cs p < m then cursor_at cs p else m))"

definition minCursorForPartition :: "u32 \<Rightarrow> 'st router \<Rightarrow> u64" where
  "minCursorForPartition p rt = (let m = min_cursor_loop p (rt_consumers rt) 0 in if m = 0 then 1 else m)"

section \<open>Persisting cursors\<close>

definition capped :: "retry_scheduler \<Rightarrow> string \<Rightarrow> u32 \<Rightarrow> u64 \<Rightarrow> u64" where
  "capped rs c p seq = (case Floor rs c p of Some f \<Rightarrow> if f < seq then f else seq | None \<Rightarrow> seq)"

definition queuePersistCursor ::
  "retry_scheduler \<Rightarrow> consumer_state \<Rightarrow> u32 \<Rightarrow> u64 \<Rightarrow> cursor_save list \<Rightarrow> cursor_save list" where
  "queuePersistCursor rs cs p seq saves = saves @ [CursorSave (cs_id cs) p (capped rs (cs_id cs) p seq)]"

definition raise_cursor :: "u32 \<Rightarrow> u64 \<Rightarrow> consumer_state \<Rightarrow> consumer_state" where
  "raise_cursor p seq cs = (if seq > cursor_at cs p then cs\<lparr>cs_cursor := gm_set p seq (cs_cursor cs)\<rparr> else cs)"

definition advanceCursorLocked ::
  "nat \<Rightarrow> u32 \<Rightarrow> u64 \<Rightarrow> 'st router \<times> cursor_save list \<Rightarrow> 'st router \<times> cursor_save list" where
  "advanceCursorLocked i p seq st =
     (let cs = raise_cursor p seq (rt_consumers (fst st) ! i)
      in (set_consumer i cs (fst st), queuePersistCursor (rt_rs (fst st)) cs p (cursor_at cs p) (snd st)))"

definition handleFloorRelease :: "'st saver \<Rightarrow> floor_note \<Rightarrow> 'st router \<Rightarrow> 'st router" where
  "handleFloorRelease save n rt =
     (case find_active (fn_consumer n) 0 (rt_consumers rt) of
        None \<Rightarrow> rt
      | Some i \<Rightarrow>
          let seq = cursor_at (rt_consumers rt ! i) (fn_partition n);
              seq' = (case fn_floor n of Some f \<Rightarrow> if f < seq then f else seq | None \<Rightarrow> seq)
          in saveCursor save (CursorSave (fn_consumer n) (fn_partition n) seq') rt)"

section \<open>Dispatch\<close>

text \<open>Phase 1: snapshot the consumers.\<close>

definition snapshot_one :: "u32 \<Rightarrow> u64 \<Rightarrow> string \<Rightarrow> bool \<Rightarrow> retry_scheduler \<Rightarrow> consumer_state \<Rightarrow> consumer_snap" where
  "snapshot_one p seq groupKey hasBlocked rs cs =
     (if \<not> active cs then \<lparr>sn_consumer = None, sn_blocked = False, sn_cursor = 0, sn_skipped = False\<rparr>
      else \<lparr>sn_consumer = cs_consumer cs,
            sn_blocked = (hasBlocked \<and> IsBlocked rs (cs_id cs) groupKey),
            sn_cursor = cursor_at cs p,
            sn_skipped = (seq \<in> set (gm_get0 [] (cs_skipped cs) p))\<rparr>)"

definition snapshotConsumers :: "u32 \<Rightarrow> u64 \<Rightarrow> string \<Rightarrow> bool \<Rightarrow> 'st router \<Rightarrow> consumer_snap list" where
  "snapshotConsumers p seq groupKey hasBlocked rt =
     map (snapshot_one p seq groupKey hasBlocked (rt_rs rt)) (rt_consumers rt)"

text \<open>
  The environment of one dispatch: outcome of \<open>Deliver\<close> per consumer index, whether the
  context is done when a consumer is considered and at the end of phase 2, the clock, and the
  address of a retry record allocated for a consumer.
\<close>

record dispatch_env =
  dv_deliver :: "nat \<Rightarrow> go_error option"
  dv_ctx :: "nat \<Rightarrow> bool"
  dv_ctx_end :: bool
  dv_now :: int
  dv_ref :: "nat \<Rightarrow> nat"

definition attempts_delivery :: "dispatch_env \<Rightarrow> log_entry \<Rightarrow> nat \<Rightarrow> consumer_snap \<Rightarrow> bool" where
  "attempts_delivery env e i sn \<longleftrightarrow>
     \<not> (sn_consumer sn = None \<or> sn_blocked sn \<or> dv_ctx env i) \<and> \<not> le_seq e < sn_cursor sn \<and> \<not> sn_skipped sn"

text \<open>Phase 2: the error slot of every consumer, and the deliveries made.\<close>

fun deliver_errs :: "dispatch_env \<Rightarrow> log_entry \<Rightarrow> nat \<Rightarrow> consumer_snap list \<Rightarrow> go_error option list" where
  "deliver_errs env e i [] = []"
| "deliver_errs env e i (sn # sns) =
     (if attempts_delivery env e i sn then dv_deliver env i else None) # deliver_errs env e (Suc i) sns"

fun deliver_effects :: "dispatch_env \<Rightarrow> log_entry \<Rightarrow> nat \<Rightarrow> consumer_snap list \<Rightarrow> effect list" where
  "deliver_effects env e i [] = []"
| "deliver_effects env e i (sn # sns) =
     (if attempts_delivery env e i sn then [EffDeliver (the (sn_consumer sn)) e (dv_deliver env i)] else []) @
     deliver_effects env e (Suc i) sns"

text \<open>Phase 3 for one consumer.\<close>

definition dispatchUpdateCursor ::
  "(string \<Rightarrow> change_event option) \<Rightarrow> dispatch_env \<Rightarrow> u32 \<Rightarrow> log_entry \<Rightarrow> string \<Rightarrow> go_error option \<Rightarrow> nat \<Rightarrow> consumer_snap
     \<Rightarrow> 'st router \<times> cursor_save list \<Rightarrow> 'st router \<times> cursor_save list" where
  "dispatchUpdateCursor unmarshal env p entry0 groupKey err i sn st =
     (let rt = fst st; saves = snd st;
          cs = rt_consumers rt ! i;
          entry = entry0\<lparr>le_partition := p\<rparr>;
          next = le_seq entry + 1
      in if sn_blocked sn then
           (if le_seq entry < sn_cursor sn then st
            else
              let rec = \<lparr>rr_ref = dv_ref env i, rr_entry = entry, rr_attempts = 0,
                         rr_next_retry_at = dv_now env + NextDelay 0, rr_consumer_id = cs_id cs, rr_last_err = None\<rparr>;
                  rs = AddBlocked (cs_id cs) groupKey rec (rt_rs rt);
                  cs' = raise_cursor p next cs
              in (set_consumer i cs' (rt\<lparr>rt_rs := rs\<rparr>), queuePersistCursor rs cs' p next saves))
         else if le_seq entry < sn_cursor sn then st
         else
           (case err of
              Some _ \<Rightarrow>
                let entry1 = (case MaterializeEvent unmarshal entry of Inl _ \<Rightarrow> entry | Inr e1 \<Rightarrow> e1);
                    rec = \<lparr>rr_ref = dv_ref env i, rr_entry = entry1, rr_attempts = 1,
                           rr_next_retry_at = dv_now env, rr_consumer_id = cs_id cs, rr_last_err = None\<rparr>
                in (rt\<lparr>rt_rs := AddBlocked (cs_id cs) groupKey rec (rt_rs rt)\<rparr>, saves)
            | None \<Rightarrow>
                if cs_batch cs then
                  (if next > gm_get0 0 (cs_provisional cs) p
                   then (set_consumer i (cs\<lparr>cs_provisional := gm_set p next (cs_provisional cs)\<rparr>) rt, saves)
                   else st)
                else
                  let cs' = raise_cursor p next cs
                  in (set_consumer i cs' rt, queuePersistCursor (rt_rs rt) cs' p next saves)))"

text \<open>The phase-3 loop over the snapshots.\<close>

fun apply_loop ::
  "(string \<Rightarrow> change_event option) \<Rightarrow> dispatch_env \<Rightarrow> u32 \<Rightarrow> log_entry \<Rightarrow> string \<Rightarrow> nat \<Rightarrow> (consumer_snap \<times> go_error option) list
     \<Rightarrow> 'st router \<times> cursor_save list \<Rightarrow> 'st router \<times> cursor_save list" where
  "apply_loop unmarshal env p entry groupKey i [] st = st"
| "apply_loop unmarshal env p entry groupKey i ((sn, err) # sns) st =
     (if sn_consumer sn = None then apply_loop unmarshal env p entry groupKey (Suc i) sns st
      else if i \<ge> length (rt_consumers (fst st)) then st
      else
        let cs = rt_consumers (fst st) ! i
        in if \<not> active cs \<or> cs_consumer cs \<noteq> sn_consumer sn then apply_loop unmarshal env p entry groupKey (Suc i) sns st
           else if sn_skipped sn then
             apply_loop unmarshal env p entry groupKey (Suc i) sns (advanceCursorLocked i p (le_seq entry + 1) st)
           else
             apply_loop unmarshal env p entry groupKey (Suc i) sns
               (dispatchUpdateCursor unmarshal env p entry groupKey err i sn st))"

definition applyDispatchCursors ::
  "(string \<Rightarrow> change_event option) \<Rightarrow> 'st saver \<Rightarrow> dispatch_env \<Rightarrow> u32 \<Rightarrow> log_entry \<Rightarrow> string
     \<Rightarrow> consumer_snap list \<Rightarrow> go_error option list \<Rightarrow> 'st router \<Rightarrow> 'st router" where
  "applyDispatchCursors unmarshal save env p entry groupKey snaps errs rt =
     (let (rt1, saves) = apply_loop unmarshal env p entry groupKey 0 (zip snaps errs) (rt, [])
      in fold (saveCursor save) saves rt1)"

text \<open>
  The whole of \<open>dispatch\<close>. The grouping key is computed up front only when some group is
  blocked, and after a failed delivery otherwise; a grouping-key error abandons the dispatch.
\<close>

definition dispatch ::
  "(string \<Rightarrow> change_event option) \<Rightarrow> (string \<Rightarrow> raw_message option) \<Rightarrow> 'st saver \<Rightarrow> dispatch_env \<Rightarrow> u32 \<Rightarrow> log_entry
     \<Rightarrow> 'st router \<Rightarrow> 'st router \<times> effect list" where
  "dispatch unmarshal decode_key save env p entry rt =
     (let hasBlocked = HasBlocked (rt_rs rt)
      in case (if hasBlocked then GroupingKey decode_key entry else Inr []) of
           Inl _ \<Rightarrow> (rt, [])
         | Inr gk \<Rightarrow>
             (let snaps = snapshotConsumers p (le_seq entry) gk hasBlocked rt;
                  errs = deliver_errs env entry 0 snaps;
                  effs = deliver_effects env entry 0 snaps
              in if dv_ctx_end env then (rt, effs)
                 else
                   (case (if \<not> hasBlocked \<and> list_ex (\<lambda>e. e \<noteq> None) errs then GroupingKey decode_key entry else Inr gk) of
                      Inl _ \<Rightarrow> (rt, effs)
                    | Inr gk' \<Rightarrow> (applyDispatchCursors unmarshal save env p entry gk' snaps errs rt, effs))))"

section \<open>Batch flushers\<close>

definition promoteProvisional :: "'st saver \<Rightarrow> nat \<Rightarrow> u32 \<Rightarrow> 'st router \<Rightarrow> 'st router" where
  "promoteProvisional save i p rt =
     (if i \<ge> length (rt_consumers rt) then rt
      else let cs = rt_consumers rt ! i
           in if \<not> active cs then rt
              else case gm_get (cs_provisional cs) p of
                     None \<Rightarrow> rt
                   | Some provisional \<Rightarrow>
                       let cs1 = raise_cursor p provisional (cs\<lparr>cs_provisional := gm_del p (cs_provisional cs)\<rparr>);
                           newCursor = cursor_at cs1 p;
                           cs2 = (case gm_get (cs_skipped cs1) p of
                                    None \<Rightarrow> cs1
                                  | Some m \<Rightarrow>
                                      let m' = filter (\<lambda>s. \<not> s \<le> newCursor) m
                                      in cs1\<lparr>cs_skipped := (if m' = [] then gm_del p (cs_skipped cs1)
                                                            else gm_set p m' (cs_skipped cs1))\<rparr>)
                       in saveCursor save (CursorSave (cs_id cs) p (capped (rt_rs rt) (cs_id cs) p newCursor))
                            (set_consumer i cs2 rt))"

definition discardProvisional :: "nat \<Rightarrow> u32 \<Rightarrow> 'st router \<Rightarrow> 'st router" where
  "discardProvisional i p rt =
     (if i \<ge> length (rt_consumers rt) then rt
      else let cs = rt_consumers rt ! i
           in if \<not> active cs then rt
              else set_consumer i (cs\<lparr>cs_provisional := gm_del p (cs_provisional cs)\<rparr>) rt)"

definition resetPoisonStreak :: "nat \<Rightarrow> u32 \<Rightarrow> 'st router \<Rightarrow> 'st router" where
  "resetPoisonStreak i p rt =
     (if i \<ge> length (rt_consumers rt) then rt
      else let cs = rt_consumers rt ! i
           in set_consumer i (cs\<lparr>cs_streak := gm_del p (cs_streak cs),
                cs_streak_logged := removeAll p (cs_streak_logged cs)\<rparr>) rt)"

definition logPoisonDLQDisabledOnce :: "nat \<Rightarrow> u32 \<Rightarrow> u64 \<Rightarrow> 'st router \<Rightarrow> 'st router" where
  "logPoisonDLQDisabledOnce i p seq rt =
     (if i \<ge> length (rt_consumers rt) then rt
      else let cs = rt_consumers rt ! i
           in if (p, seq) \<in> set (cs_nodlq_logged cs) then rt
              else set_consumer i (cs\<lparr>cs_nodlq_logged := (p, seq) # cs_nodlq_logged cs\<rparr>) rt)"

text \<open>
  The poison path. \<open>window\<close> is the result of the re-read \<open>ReadPartition(p, fromSeq, 256)\<close>
  (\<^term>\<open>None\<close> on an error), \<open>write\<close> the outcome of \<open>dlq.Store.Write\<close>. The result says whether
  the poison was skipped; the entry written to the store is in the effects.
\<close>

definition handlePoisonFlush ::
  "(change_event \<Rightarrow> string option) \<Rightarrow> (u32 \<Rightarrow> u64 \<Rightarrow> log_entry list option) \<Rightarrow> (dlq_entry \<Rightarrow> go_error option)
     \<Rightarrow> nat \<Rightarrow> u32 \<Rightarrow> u64 \<Rightarrow> go_error \<Rightarrow> 'st router \<Rightarrow> bool \<times> 'st router \<times> effect list" where
  "handlePoisonFlush marshal reread write i p seq pfe rt =
     (if i \<ge> length (rt_consumers rt) then (False, rt, [])
      else
        let cs = rt_consumers rt ! i
        in if \<not> active cs then (False, rt, [])
           else if gm_get0 0 (cs_streak cs) p \<ge> poisonStreakLimit then
             (False, set_consumer i (cs\<lparr>cs_streak_logged := List.insert p (cs_streak_logged cs)\<rparr>) rt, [])
           else
             let fromSeq = (if cursor_at cs p = 0 then 1 else cursor_at cs p)
             in case reread p fromSeq of
                  None \<Rightarrow> (False, rt, [])
                | Some entries \<Rightarrow>
                    (case find (\<lambda>e. le_seq e = seq) entries of
                       None \<Rightarrow> (False, rt, [])
                     | Some found \<Rightarrow>
                         if \<not> rt_dlq rt then (False, logPoisonDLQDisabledOnce i p seq rt, [])
                         else
                           let d = buildDLQEntry marshal
                                     \<lparr>rr_ref = 0, rr_entry = found\<lparr>le_partition := p\<rparr>, rr_attempts = 1,
                                      rr_next_retry_at = 0, rr_consumer_id = cs_id cs, rr_last_err = Some pfe\<rparr>
                           in if write d \<noteq> None then (False, rt, [EffDLQ d False])
                              else
                                let cs1 = cs\<lparr>cs_skipped := gm_set p (List.insert seq (gm_get0 [] (cs_skipped cs) p)) (cs_skipped cs),
                                             cs_streak := gm_set p (Suc (gm_get0 0 (cs_streak cs) p)) (cs_streak cs)\<rparr>
                                in (True, discardProvisional i p (set_consumer i cs1 rt), [EffDLQ d True])))"

record flusher_backoff =
  fb_attempts :: nat
  fb_next_at :: int

text \<open>\<open>errors.As(err, &pfe)\<close>: the first \<open>PermanentFlushError\<close> of the chain.\<close>

definition poison_of :: "go_error \<Rightarrow> (u64 \<times> go_error) option" where
  "poison_of err =
     (case find (\<lambda>e. case e of PermanentFlushError _ _ \<Rightarrow> True | _ \<Rightarrow> False) (err_chain err) of
        Some (PermanentFlushError s c) \<Rightarrow> Some (s, PermanentFlushError s c)
      | _ \<Rightarrow> None)"

record flush_env =
  fe_ctx :: "nat \<Rightarrow> bool"
  fe_flush :: "nat \<Rightarrow> go_error option"
  fe_reread :: "nat \<Rightarrow> u32 \<Rightarrow> u64 \<Rightarrow> log_entry list option"
  fe_write :: "nat \<Rightarrow> dlq_entry \<Rightarrow> go_error option"
  fe_now :: "nat \<Rightarrow> int"
  fe_rnd :: "nat \<Rightarrow> int \<Rightarrow> int"

text \<open>The flush loop over the indices of the active batch flushers; \<^term>\<open>None\<close> is the zero time.\<close>

fun flush_loop ::
  "(change_event \<Rightarrow> string option) \<Rightarrow> 'st saver \<Rightarrow> flush_env \<Rightarrow> u32 \<Rightarrow> nat list \<Rightarrow> (nat, flusher_backoff) gomap \<Rightarrow> int option
     \<Rightarrow> 'st router \<Rightarrow> 'st router \<times> (nat, flusher_backoff) gomap \<times> int option \<times> effect list" where
  "flush_loop marshal save env p [] bs until rt = (rt, bs, until, [])"
| "flush_loop marshal save env p (i # is) bs until rt =
     (if fe_ctx env i then (rt, bs, until, [])
      else case fe_flush env i of
             None \<Rightarrow>
               flush_loop marshal save env p is (gm_del i bs) until
                 (promoteProvisional save i p (resetPoisonStreak i p rt))
           | Some err \<Rightarrow>
               let (handled, rt1, effs) =
                     (case poison_of err of
                        None \<Rightarrow> (False, rt, [])
                      | Some (seq, pfe) \<Rightarrow> handlePoisonFlush marshal (fe_reread env i) (fe_write env i) i p seq pfe rt)
               in if handled then
                    (let (rt2, bs2, u2, effs2) = flush_loop marshal save env p is (gm_del i bs) until rt1
                     in (rt2, bs2, u2, effs @ effs2))
                  else
                    let bo = gm_get0 \<lparr>fb_attempts = 0, fb_next_at = 0\<rparr> bs i;
                        att = Suc (fb_attempts bo);
                        nextAt = fe_now env i + JitteredDelay (fe_rnd env i) (att - 1);
                        until1 = (case until of None \<Rightarrow> Some nextAt | Some u \<Rightarrow> if nextAt > u then Some nextAt else until);
                        (rt2, bs2, u2, effs2) =
                          flush_loop marshal save env p is (gm_set i \<lparr>fb_attempts = att, fb_next_at = nextAt\<rparr> bs) until1
                            (discardProvisional i p rt1)
                    in (rt2, bs2, u2, effs @ effs2))"

definition flusher_indices :: "consumer_state list \<Rightarrow> nat list" where
  "flusher_indices css = filter (\<lambda>i. active (css ! i) \<and> cs_batch (css ! i)) [0..<length css]"

definition flushBatchConsumers ::
  "(change_event \<Rightarrow> string option) \<Rightarrow> 'st saver \<Rightarrow> flush_env \<Rightarrow> u32 \<Rightarrow> (nat, flusher_backoff) gomap \<Rightarrow> int option
     \<Rightarrow> 'st router \<Rightarrow> 'st router \<times> (nat, flusher_backoff) gomap \<times> int option \<times> effect list" where
  "flushBatchConsumers marshal save env p bs until rt =
     flush_loop marshal save env p (flusher_indices (rt_consumers rt)) bs until rt"

section \<open>The partition loop\<close>

text \<open>
  The dispatch loop over one batch: \<open>envs\<close> gives one environment per entry, and runs out where
  the context is cancelled between entries.
\<close>

fun dispatch_all ::
  "(string \<Rightarrow> change_event option) \<Rightarrow> (string \<Rightarrow> raw_message option) \<Rightarrow> 'st saver \<Rightarrow> u32 \<Rightarrow> (log_entry \<times> dispatch_env) list
     \<Rightarrow> 'st router \<Rightarrow> 'st router \<times> effect list" where
  "dispatch_all unmarshal decode_key save p [] rt = (rt, [])"
| "dispatch_all unmarshal decode_key save p ((e, env) # es) rt =
     (let (rt1, effs) = dispatch unmarshal decode_key save env p e rt;
          (rt2, effs2) = dispatch_all unmarshal decode_key save p es rt1
      in (rt2, effs @ effs2))"

text \<open>
  One turn of \<open>runPartition\<close> that found entries: read from the minimum cursor, dispatch the
  batch, flush. \<open>reads p from 256\<close> is the event log's \<open>ReadPartition\<close>; an error or an empty batch
  leaves the router as it is (the loop waits and retries).
\<close>

definition poll_once ::
  "(change_event \<Rightarrow> string option) \<Rightarrow> (string \<Rightarrow> change_event option) \<Rightarrow> (string \<Rightarrow> raw_message option) \<Rightarrow> 'st saver
     \<Rightarrow> (u32 \<Rightarrow> u64 \<Rightarrow> nat \<Rightarrow> log_entry list option) \<Rightarrow> dispatch_env list \<Rightarrow> flush_env
     \<Rightarrow> u32 \<Rightarrow> (nat, flusher_backoff) gomap \<Rightarrow> 'st router
     \<Rightarrow> 'st router \<times> (nat, flusher_backoff) gomap \<times> int option \<times> effect list" where
  "poll_once marshal unmarshal decode_key save reads envs fenv p bs rt =
     (case reads p (minCursorForPartition p rt) 256 of
        None \<Rightarrow> (rt, bs, None, [])
      | Some entries \<Rightarrow>
          if entries = [] then (rt, bs, None, [])
          else
            let (rt1, effs) = dispatch_all unmarshal decode_key save p (zip entries envs) rt
            in if length envs < length entries then (rt1, bs, None, effs)
               else
                 let (rt2, bs2, until, effs2) = flushBatchConsumers marshal save fenv p bs None rt1
                 in (rt2, bs2, until, effs @ effs2))"

end
