(* ===== verification/Cursor_Stores.thy ===== *)
theory Cursor_Stores
  imports Router
begin

text \<open>
  The consumer cursor stores: the in-memory store of \<open>internal/router/router.go\<close>, and the
  SQLite and Postgres stores of \<open>internal/checkpoint\<close>, which collect saves in a dirty map and
  flush it in the background. A flush is two critical sections, so saves, loads and deletes may
  run between its snapshot and its end. The locale is what the router relies on: a store never
  hands out a cursor that was not saved before, whatever it loses.
\<close>

section \<open>The interface\<close>

text \<open>
  \<open>holds st c p\<close>: the cursors of consumer \<open>c\<close> on partition \<open>p\<close> still present anywhere in the
  store, durable or not. \<open>bg\<close> are the store's own steps: flushes, crashes, deletions.
\<close>

locale cursor_store =
  fixes save :: "'st saver"
    and load :: "'st \<Rightarrow> string \<Rightarrow> u32 \<Rightarrow> u64 option"
    and bg :: "'op \<Rightarrow> 'st \<Rightarrow> 'st"
    and holds :: "'st \<Rightarrow> string \<Rightarrow> u32 \<Rightarrow> u64 set"
  assumes load_holds: "load st c p = Some s \<Longrightarrow> s = 1 \<or> s \<in> holds st c p"
    and holds_save: "holds (save c p s st) c' p' \<subseteq> (if c' = c \<and> p' = p then {s} else {}) \<union> holds st c' p'"
    and holds_bg: "holds (bg b st) c p \<subseteq> holds st c p"

section \<open>The in-memory store\<close>

type_synonym noop_store = "(string, u64) gomap"

definition noopKey :: "string \<Rightarrow> u32 \<Rightarrow> string" where
  "noopKey c p = c @ '':'' @ dec_str (unat p)"

definition noop_SaveCursor :: "noop_store saver" where
  "noop_SaveCursor c p seq st = gm_set (noopKey c p) seq st"

definition noop_LoadCursor :: "noop_store \<Rightarrow> string \<Rightarrow> u32 \<Rightarrow> u64 option" where
  "noop_LoadCursor st c p = Some (case gm_get st (noopKey c p) of None \<Rightarrow> 1 | Some v \<Rightarrow> v)"

definition noop_DeleteCursor :: "string \<Rightarrow> noop_store \<Rightarrow> noop_store" where
  "noop_DeleteCursor c st = filter (\<lambda>(k, v). take (length c + 1) k \<noteq> c @ '':'') st"

lemma noopKey_inject [simp]: "noopKey c p = noopKey c' p' \<longleftrightarrow> c = c' \<and> p = p'"
proof -
  have "\<not> is_digit CHR '':''" by (simp add: is_digit_def)
  from sep_dec_inject [OF this, of c "unat p" c' "unat p'"] show ?thesis by (simp add: noopKey_def word_unat_eq_iff)
qed

lemma filter_lookup: "gm_get (filter (\<lambda>(k, v). P k) m) k = (if P k then gm_get m k else None)"
  by (induction m) auto

interpretation noop: cursor_store noop_SaveCursor noop_LoadCursor noop_DeleteCursor
  "\<lambda>st c p. set_option (gm_get st (noopKey c p))"
  by unfold_locales
    (auto simp: noop_SaveCursor_def noop_LoadCursor_def noop_DeleteCursor_def gomap_simps filter_lookup
      split: option.splits if_splits)

section \<open>The batched stores\<close>

text \<open>
  State of \<open>SQLiteCursorStore\<close> and \<open>PostgresCursorStore\<close>: the dirty map, the table rows, and the
  snapshot of a flush between its two critical sections.
\<close>

record batched_store =
  bs_dirty :: "(string \<times> u32, u64) gomap"
  bs_rows :: "(string \<times> u32, u64) gomap"
  bs_flight :: "(string \<times> u32, u64) gomap option"

definition NewBatchedStore :: "(string \<times> u32, u64) gomap \<Rightarrow> batched_store" where
  "NewBatchedStore rows = \<lparr>bs_dirty = [], bs_rows = rows, bs_flight = None\<rparr>"

definition SaveCursor :: "batched_store saver" where
  "SaveCursor c p seq st = st\<lparr>bs_dirty := gm_set (c, p) seq (bs_dirty st)\<rparr>"

text \<open>\<open>LoadCursor\<close> when the query succeeds; a query error is a \<^term>\<open>None\<close> of the caller's choosing.\<close>

definition LoadCursor :: "batched_store \<Rightarrow> string \<Rightarrow> u32 \<Rightarrow> u64 option" where
  "LoadCursor st c p =
     Some (case gm_get (bs_dirty st) (c, p) of
             Some v \<Rightarrow> v
           | None \<Rightarrow> (case gm_get (bs_rows st) (c, p) of None \<Rightarrow> 1 | Some v \<Rightarrow> v))"

definition DeleteCursor :: "string \<Rightarrow> batched_store \<Rightarrow> batched_store" where
  "DeleteCursor c st =
     st\<lparr>bs_dirty := filter (\<lambda>(k, v). fst k \<noteq> c) (bs_dirty st),
        bs_rows := filter (\<lambda>(k, v). fst k \<noteq> c) (bs_rows st)\<rparr>"

text \<open>The first critical section of \<open>flush\<close>: snapshot and clear the dirty map.\<close>

definition flush_begin :: "batched_store \<Rightarrow> batched_store" where
  "flush_begin st =
     (if bs_dirty st = [] \<or> bs_flight st \<noteq> None then st
      else st\<lparr>bs_dirty := [], bs_flight := Some (bs_dirty st)\<rparr>)"

definition restoreSnapshot :: "(string \<times> u32, u64) gomap \<Rightarrow> (string \<times> u32, u64) gomap \<Rightarrow> (string \<times> u32, u64) gomap" where
  "restoreSnapshot snapshot dirty =
     fold (\<lambda>(k, v) d. if gm_get d k = None then gm_set k v d else d) snapshot dirty"

text \<open>The driver refuses an unsigned value with the high bit set: the columns are signed 64-bit.\<close>

definition upsertable :: "(string \<times> u32, u64) gomap \<Rightarrow> bool" where
  "upsertable snapshot \<longleftrightarrow> list_all (\<lambda>(k, v). unat v < 2 ^ 63) snapshot"

text \<open>
  The transaction and the end of \<open>flush\<close>. \<open>db_ok\<close>: \<open>BeginTx\<close>, the upserts and \<open>Commit\<close> met no
  database error. The transaction is atomic; after a failure the snapshot is restored.
\<close>

definition flush_end :: "bool \<Rightarrow> batched_store \<Rightarrow> batched_store" where
  "flush_end db_ok st =
     (case bs_flight st of
        None \<Rightarrow> st
      | Some snapshot \<Rightarrow>
          if db_ok \<and> upsertable snapshot
          then st\<lparr>bs_rows := fold (\<lambda>(k, v) m. gm_set k v m) snapshot (bs_rows st), bs_flight := None\<rparr>
          else st\<lparr>bs_dirty := restoreSnapshot snapshot (bs_dirty st), bs_flight := None\<rparr>)"

text \<open>A crash keeps only the rows.\<close>

definition crash :: "batched_store \<Rightarrow> batched_store" where
  "crash st = NewBatchedStore (bs_rows st)"

datatype store_op = FlushBegin | FlushEnd bool | Delete string | Crash

fun store_bg :: "store_op \<Rightarrow> batched_store \<Rightarrow> batched_store" where
  "store_bg FlushBegin st = flush_begin st"
| "store_bg (FlushEnd ok) st = flush_end ok st"
| "store_bg (Delete c) st = DeleteCursor c st"
| "store_bg Crash st = crash st"

definition all_held :: "batched_store \<Rightarrow> string \<Rightarrow> u32 \<Rightarrow> u64 set" where
  "all_held st c p = {v. ((c, p), v) \<in> set (bs_dirty st) \<union> set (bs_rows st) \<union>
     (case bs_flight st of None \<Rightarrow> {} | Some f \<Rightarrow> set f)}"

lemma set_update_sub: "set (AList.update k v m) \<subseteq> insert (k, v) (set m)"
  by (induction m) auto

lemma set_restore_sub: "set (restoreSnapshot f d) \<subseteq> set f \<union> set d"
  unfolding restoreSnapshot_def
proof (induction f arbitrary: d)
  case (Cons x f)
  obtain k v where x: "x = (k, v)" by fastforce
  show ?case using Cons.IH [of d] Cons.IH [of "gm_set k v d"] set_update_sub [of k v d] by (auto simp: x)
qed simp

lemma set_upserts_sub: "set (fold (\<lambda>(k, v) m. gm_set k v m) f m) \<subseteq> set f \<union> set m"
proof (induction f arbitrary: m)
  case (Cons x f)
  obtain k v where x: "x = (k, v)" by fastforce
  show ?case using Cons.IH [of "gm_set k v m"] set_update_sub [of k v m] by (auto simp: x)
qed simp

lemma held_bg: "all_held (store_bg b st) c p \<subseteq> all_held st c p"
proof (cases b)
  case FlushBegin
  then show ?thesis by (auto simp: all_held_def flush_begin_def)
next
  case (FlushEnd ok)
  then show ?thesis
    using set_restore_sub [of _ "bs_dirty st"] set_upserts_sub [of _ "bs_rows st"]
    by (auto simp: all_held_def flush_end_def split: option.splits)
next
  case (Delete x3)
  then show ?thesis by (auto simp: all_held_def DeleteCursor_def)
next
  case Crash
  then show ?thesis by (auto simp: all_held_def crash_def NewBatchedStore_def)
qed

interpretation batched: cursor_store SaveCursor LoadCursor store_bg all_held
proof unfold_locales
  show "LoadCursor st c p = Some s \<Longrightarrow> s = 1 \<or> s \<in> all_held st c p" for st c p s
    by (auto simp: LoadCursor_def all_held_def dest: map_of_SomeD split: option.splits)
  show "all_held (SaveCursor c p s st) c' p' \<subseteq> (if c' = c \<and> p' = p then {s} else {}) \<union> all_held st c' p'" for c p s st c' p'
    using set_update_sub [of "(c, p)" s "bs_dirty st"] by (auto simp: SaveCursor_def all_held_def)
qed (rule held_bg)

section \<open>The batched stores refine a map of the last saves\<close>

text \<open>The value a key has once everything pending is written.\<close>

definition logical :: "batched_store \<Rightarrow> string \<times> u32 \<Rightarrow> u64 option" where
  "logical st k =
     (case gm_get (bs_dirty st) k of
        Some v \<Rightarrow> Some v
      | None \<Rightarrow> (case (case bs_flight st of None \<Rightarrow> None | Some f \<Rightarrow> gm_get f k) of
                   Some v \<Rightarrow> Some v
                 | None \<Rightarrow> gm_get (bs_rows st) k))"

definition store_wf :: "batched_store \<Rightarrow> bool" where
  "store_wf st \<longleftrightarrow> gm_wf (bs_dirty st) \<and> (\<forall>f. bs_flight st = Some f \<longrightarrow> gm_wf f)"

datatype cursor_op = Save string u32 u64 | Begin | End bool

fun run_op :: "cursor_op \<Rightarrow> batched_store \<Rightarrow> batched_store" where
  "run_op (Save c p s) st = SaveCursor c p s st"
| "run_op Begin st = flush_begin st"
| "run_op (End ok) st = flush_end ok st"

fun spec_op :: "cursor_op \<Rightarrow> (string \<times> u32 \<Rightarrow> u64 option) \<Rightarrow> (string \<times> u32 \<Rightarrow> u64 option)" where
  "spec_op (Save c p s) m = m((c, p) \<mapsto> s)"
| "spec_op _ m = m"

lemma restore_get:
  "gm_get (restoreSnapshot f d) k = (case gm_get d k of Some v \<Rightarrow> Some v | None \<Rightarrow> gm_get f k)"
  unfolding restoreSnapshot_def
proof (induction f arbitrary: d)
  case (Cons x f)
  obtain k0 v0 where x: "x = (k0, v0)" by fastforce
  show ?case by (simp add: x Cons.IH gomap_simps split: option.splits)
qed (simp split: option.splits)

lemma restore_wf: "gm_wf d \<Longrightarrow> gm_wf (restoreSnapshot f d)"
  unfolding restoreSnapshot_def by (induction f arbitrary: d) auto

lemma upserts_get:
  "gm_wf f \<Longrightarrow> gm_get (fold (\<lambda>(k, v) m. gm_set k v m) f m) k = (case gm_get f k of Some v \<Rightarrow> Some v | None \<Rightarrow> gm_get m k)"
proof (induction f arbitrary: m)
  case (Cons x f)
  obtain k0 v0 where x: "x = (k0, v0)" by fastforce
  have "gm_get f k0 = None" using Cons.prems by (simp add: x map_of_eq_None_iff)
  with Cons.prems show ?case by (auto simp: x Cons.IH gomap_simps split: option.splits)
qed simp

lemma run_op_wf: "store_wf st \<Longrightarrow> store_wf (run_op b st)"
  by (cases b) (auto simp: store_wf_def SaveCursor_def flush_begin_def flush_end_def restore_wf split: option.splits)

lemma run_op_logical: "store_wf st \<Longrightarrow> logical (run_op b st) = spec_op b (logical st)"
proof (cases b)
  case (Save c p s)
  then show ?thesis by (auto simp: logical_def SaveCursor_def gomap_simps fun_eq_iff split: option.splits)
next
  case Begin
  then show ?thesis by (auto simp: logical_def flush_begin_def fun_eq_iff split: option.splits)
next
  case (End ok)
  assume "store_wf st"
  with End show ?thesis
    by (auto simp: logical_def flush_end_def store_wf_def restore_get upserts_get fun_eq_iff split: option.splits)
qed

lemma run_ops_logical:
  "store_wf st \<Longrightarrow> store_wf (fold run_op ops st) \<and> logical (fold run_op ops st) = fold spec_op ops (logical st)"
  by (induction ops arbitrary: st) (simp_all add: run_op_wf run_op_logical)

text \<open>
  C14. A cursor is never lost between the dirty map and the table: start with table rows
  \<open>rows\<close>, run any interleaving of saves, flush starts and flush ends, failed transactions included,
  with no flush in flight at the end; then one successful flush leaves in the table exactly the
  last saved value of every key, and the original row where nothing was saved.
\<close>

theorem flush_durable:
  assumes "st = fold run_op ops (NewBatchedStore rows)" "bs_flight st = None" "upsertable (bs_dirty st)"
  shows "gm_get (bs_rows (flush_end True (flush_begin st))) k = fold spec_op ops (gm_get rows) k"
proof -
  have "store_wf (NewBatchedStore rows)" by (simp add: store_wf_def NewBatchedStore_def)
  note R = run_ops_logical [OF this, of ops, folded assms(1)]
  have l0: "logical (NewBatchedStore rows) = gm_get rows"
    by (simp add: logical_def NewBatchedStore_def fun_eq_iff)
  have wf: "store_wf st" using R by simp
  have "gm_get (bs_rows (flush_end True (flush_begin st))) k = logical st k"
    using assms(2,3) wf
    by (simp add: flush_begin_def flush_end_def logical_def store_wf_def upserts_get split: option.splits)
  with R l0 show ?thesis by simp
qed

theorem flush_durable_witness:
  "\<exists>st. st = fold run_op [Save ''c'' 0 5, Begin, Save ''c'' 0 7, End False] (NewBatchedStore [((''c'', 0), 2)]) \<and>
     bs_flight st = None \<and> upsertable (bs_dirty st) \<and>
     gm_get (bs_rows (flush_end True (flush_begin st))) (''c'', 0) = Some 7"
proof -
  let ?ops = "[Save ''c'' 0 5, Begin, Save ''c'' 0 7, End False]"
  let ?st = "fold run_op ?ops (NewBatchedStore [((''c'', 0), 2)])"
  have st: "?st = \<lparr>bs_dirty = [((''c'', 0), 7)], bs_rows = [((''c'', 0), 2)], bs_flight = None\<rparr>"
    by (simp add: NewBatchedStore_def SaveCursor_def flush_begin_def flush_end_def restoreSnapshot_def)
  have f: "bs_flight ?st = None" and u: "upsertable (bs_dirty ?st)" unfolding st by (simp_all add: upsertable_def)
  have "gm_get (bs_rows (flush_end True (flush_begin ?st))) (''c'', 0) = fold spec_op ?ops (gm_get [((''c'', 0), 2)]) (''c'', 0)"
    by (rule flush_durable [OF refl f u])
  also have "\<dots> = Some 7" by simp
  finally show ?thesis using f u by blast
qed

section \<open>Deletions\<close>

text \<open>
  A delete that runs while a flush is in flight does not delete: the snapshot still holds
  the consumer's cursor and the commit writes the row again.
\<close>

theorem delete_during_flush_undone:
  assumes "bs_flight st = None" "gm_get (bs_dirty st) (c, p) = Some v" "upsertable (bs_dirty st)" "gm_wf (bs_dirty st)"
  shows "gm_get (bs_rows (flush_end True (DeleteCursor c (flush_begin st)))) (c, p) = Some v"
  using assms by (auto simp: flush_begin_def DeleteCursor_def flush_end_def upserts_get)

theorem delete_during_flush_undone_witness:
  "gm_get (bs_rows (flush_end True (DeleteCursor ''c'' (flush_begin (SaveCursor ''c'' 0 5 (NewBatchedStore [])))))) (''c'', 0) = Some 5"
  by (rule delete_during_flush_undone) (simp_all add: SaveCursor_def NewBatchedStore_def upsertable_def)

text \<open>
  What the in-memory \<open>DeleteCursor\<close> removes: the cursors of the consumer itself and those
  of every consumer whose identifier continues it after a colon; all others keep theirs.
\<close>

theorem noop_DeleteCursor_scope:
  "gm_get (noop_DeleteCursor c st) (noopKey d p) =
     (if d = c \<or> take (length c + 1) d = c @ '':'' then None else gm_get st (noopKey d p))"
proof -
  have key: "take (length c + 1) (noopKey d p) = c @ '':'' \<longleftrightarrow> d = c \<or> take (length c + 1) d = c @ '':''"
  proof (cases "length c < length d")
    case True
    then show ?thesis by (auto simp: noopKey_def)
  next
    case False
    then have no: "take (length c + 1) d \<noteq> c @ '':''" by (auto dest: arg_cong [of _ _ length])
    show ?thesis
    proof
      assume eq: "take (length c + 1) (noopKey d p) = c @ '':''"
      have at: "noopKey d p ! length c = CHR '':''" "length c < length (noopKey d p)"
      proof -
        show "length c < length (noopKey d p)" using arg_cong [OF eq, of length] by simp
        then show "noopKey d p ! length c = CHR '':''"
          using arg_cong [OF eq, of "\<lambda>s. s ! length c"] by (simp add: nth_append)
      qed
      have "length d = length c"
      proof (rule ccontr)
        assume "length d \<noteq> length c"
        with False at(2) have "noopKey d p ! length c \<in> set (dec_str (unat p))"
          by (auto simp: noopKey_def nth_append nth_Cons' intro!: nth_mem)
        with at(1) dec_str_digits have "is_digit CHR '':''" by fastforce
        then show False by (simp add: is_digit_def)
      qed
      then have "take (length c) (noopKey d p) = d" by (simp add: noopKey_def)
      moreover have "take (length c) (noopKey d p) = c"
        using arg_cong [OF eq, of "take (length c)"] by simp
      ultimately show "d = c \<or> take (length c + 1) d = c @ '':''" by simp
    next
      assume "d = c \<or> take (length c + 1) d = c @ '':''"
      with no show "take (length c + 1) (noopKey d p) = c @ '':''" by (auto simp: noopKey_def)
    qed
  qed
  show ?thesis unfolding noop_DeleteCursor_def filter_lookup key by simp
qed

end
