(* ===== verification/Delivery.thy ===== *)
theory Delivery
  imports Cursor_Stores
begin

text \<open>
  The delivery system: the event log, one partition loop per partition, the retry scheduler and
  restarts, interleaved. Each critical section of \<open>Router.dispatch\<close> and of
  \<open>RetryScheduler.drainGroup\<close> is one step, so a drain may run between the snapshot and the
  cursor update of a dispatch. The main result is RTR-06 / at-least-once delivery for consumers
  without \<open>FlushBatch\<close>: whatever the store holds at a crash, every log entry below a persisted
  cursor was delivered to that consumer or dead-lettered.
\<close>

section \<open>States\<close>

datatype pc = Idle | Batch "log_entry list" | Snapped log_entry "log_entry list" bool "consumer_snap list"

text \<open>
  \<open>sy_log p\<close> is the content of partition \<open>p\<close>, \<open>sy_next p\<close> a bound below every sequence number
  still to be leased, \<open>sy_drain\<close> the head the drain loop is delivering, and \<open>sy_done\<close> the history
  of (consumer, partition, sequence) triples that were delivered or dead-lettered.
\<close>

record 'st system =
  sy_rt :: "'st router"
  sy_log :: "u32 \<Rightarrow> log_entry list"
  sy_next :: "u32 \<Rightarrow> u64"
  sy_pc :: "u32 \<Rightarrow> pc"
  sy_drain :: "(string \<times> string \<times> retry_record) option"
  sy_done :: "(string \<times> u32 \<times> u64) set"

definition boot ::
  "('st \<Rightarrow> string \<Rightarrow> u32 \<Rightarrow> u64 option) \<Rightarrow> bool \<Rightarrow> u32 \<Rightarrow> string list \<Rightarrow> 'st \<Rightarrow> 'st router" where
  "boot load dlq n ids store =
     fold (\<lambda>c. Register load c False) ids
       (let rt = NewRouter n store in rt\<lparr>rt_rs := rs_SetDLQ dlq (rt_rs rt), rt_dlq := dlq\<rparr>)"

definition gkey :: "(string \<Rightarrow> raw_message option) \<Rightarrow> log_entry \<Rightarrow> string" where
  "gkey dk e = (case GroupingKey dk e of Inr k \<Rightarrow> k | Inl _ \<Rightarrow> [])"

text \<open>The triples a dispatch delivers successfully.\<close>

definition delivered_now :: "dispatch_env \<Rightarrow> u32 \<Rightarrow> log_entry \<Rightarrow> consumer_snap list \<Rightarrow> (string \<times> u32 \<times> u64) set" where
  "delivered_now env p e snaps =
     {(c, p, le_seq e) | c i. i < length snaps \<and> sn_consumer (snaps ! i) = Some c \<and>
        attempts_delivery env e i (snaps ! i) \<and> dv_deliver env i = None}"

text \<open>Saves that fail are skipped: \<open>okf\<close> says which consumers' saves reach the store in this step.\<close>

definition try_save :: "'st saver \<Rightarrow> (string \<Rightarrow> bool) \<Rightarrow> 'st saver" where
  "try_save save okf c p s st = (if okf c then save c p s st else st)"

text \<open>Loads that fail make the cursor start at 1.\<close>

definition try_load ::
  "('st \<Rightarrow> string \<Rightarrow> u32 \<Rightarrow> u64 option) \<Rightarrow> (string \<Rightarrow> u32 \<Rightarrow> bool) \<Rightarrow> 'st \<Rightarrow> string \<Rightarrow> u32 \<Rightarrow> u64 option" where
  "try_load load okl st c p = (if okl c p then load st c p else None)"

definition run_notes :: "'st saver \<Rightarrow> effect list \<Rightarrow> 'st router \<Rightarrow> 'st router" where
  "run_notes save effs rt =
     fold (\<lambda>eff rt. case eff of EffFloor n \<Rightarrow> handleFloorRelease save n rt | _ \<Rightarrow> rt) effs rt"

text \<open>
  What counts as done for the head \<open>e\<close> of a drain: it was delivered, or written to the
  dead-letter store, or popped while no store is configured (the source logs and drops it).
\<close>

definition settles :: "retry_scheduler \<Rightarrow> drain_env \<Rightarrow> string \<Rightarrow> string \<Rightarrow> log_entry \<Rightarrow> drain_step \<Rightarrow> bool" where
  "settles rs env c g e st \<longleftrightarrow> de_deliver env = None \<or>
     list_ex (\<lambda>x. case x of EffDLQ d ok \<Rightarrow> ok \<and> dq_seq d = le_seq e \<and> dq_partition d = le_partition e | _ \<Rightarrow> False)
       (step_effects st) \<or>
     (\<not> rs_dlq rs \<and> queued (step_state st) c g \<noteq> queued rs c g)"

inductive sys_step ::
  "(change_event \<Rightarrow> string option) \<Rightarrow> (string \<Rightarrow> change_event option) \<Rightarrow> (string \<Rightarrow> raw_message option) \<Rightarrow> (string \<Rightarrow> u32) \<Rightarrow> 'st saver
     \<Rightarrow> ('st \<Rightarrow> string \<Rightarrow> u32 \<Rightarrow> u64 option) \<Rightarrow> ('op \<Rightarrow> 'st \<Rightarrow> 'st) \<Rightarrow> string list \<Rightarrow> bool \<Rightarrow> 'st system \<Rightarrow> 'st system \<Rightarrow> bool"
  for marshal unmarshal dk pf save load bg ids dlq where
  append: "p < rt_num (sy_rt s) \<Longrightarrow> sy_next s p \<le> le_seq e \<Longrightarrow> le_seq e \<noteq> - 1 \<Longrightarrow>
      GroupingKey dk e = Inr (gkey dk e) \<Longrightarrow> pf (gkey dk e) = p \<Longrightarrow> le_partition e = p \<Longrightarrow>
      sys_step marshal unmarshal dk pf save load bg ids dlq s
        (s\<lparr>sy_log := (sy_log s)(p := sy_log s p @ [e]), sy_next := (sy_next s)(p := le_seq e + 1)\<rparr>)"
| read: "p < rt_num (sy_rt s) \<Longrightarrow> sy_pc s p = Idle \<Longrightarrow>
      es = take n (filter (\<lambda>e. minCursorForPartition p (sy_rt s) \<le> le_seq e) (sy_log s p)) \<Longrightarrow>
      sys_step marshal unmarshal dk pf save load bg ids dlq s (s\<lparr>sy_pc := (sy_pc s)(p := Batch es)\<rparr>)"
| batch_done: "sy_pc s p = Batch [] \<Longrightarrow>
      sys_step marshal unmarshal dk pf save load bg ids dlq s (s\<lparr>sy_pc := (sy_pc s)(p := Idle)\<rparr>)"
| snap: "sy_pc s p = Batch (e # es) \<Longrightarrow> hb = HasBlocked (rt_rs (sy_rt s)) \<Longrightarrow>
      snaps = snapshotConsumers p (le_seq e) (if hb then gkey dk e else []) hb (sy_rt s) \<Longrightarrow>
      sys_step marshal unmarshal dk pf save load bg ids dlq s (s\<lparr>sy_pc := (sy_pc s)(p := Snapped e es hb snaps)\<rparr>)"
| update: "sy_pc s p = Snapped e es hb snaps \<Longrightarrow> \<not> dv_ctx_end env \<Longrightarrow> (\<And>i. \<not> dv_ctx env i) \<Longrightarrow>
      errs = deliver_errs env e 0 snaps \<Longrightarrow>
      gk = (if hb \<or> list_ex (\<lambda>x. x \<noteq> None) errs then gkey dk e else []) \<Longrightarrow>
      sys_step marshal unmarshal dk pf save load bg ids dlq s
        (s\<lparr>sy_rt := applyDispatchCursors unmarshal (try_save save okf) env p e gk snaps errs (sy_rt s),
           sy_pc := (sy_pc s)(p := Batch es),
           sy_done := sy_done s \<union> delivered_now env p e snaps\<rparr>)"
| drain_pick: "sy_drain s = None \<Longrightarrow> drain_head now c g (rt_rs (sy_rt s)) = (rs, Some rec) \<Longrightarrow>
      sys_step marshal unmarshal dk pf save load bg ids dlq s
        (s\<lparr>sy_rt := (sy_rt s)\<lparr>rt_rs := rs\<rparr>, sy_drain := Some (c, g, rec)\<rparr>)"
| drain_idle: "sy_drain s = None \<Longrightarrow> drain_head now c g (rt_rs (sy_rt s)) = (rs, None) \<Longrightarrow>
      sys_step marshal unmarshal dk pf save load bg ids dlq s (s\<lparr>sy_rt := (sy_rt s)\<lparr>rt_rs := rs\<rparr>\<rparr>)"
| drain_outcome: "sy_drain s = Some (c, g, rec) \<Longrightarrow>
      drain_apply marshal env c g rec (rt_rs (sy_rt s)) = Ret st \<Longrightarrow>
      settled = (if settles (rt_rs (sy_rt s)) env c g (rr_entry rec) st then {(c, pf g, le_seq (rr_entry rec))} else {}) \<Longrightarrow>
      sys_step marshal unmarshal dk pf save load bg ids dlq s
        (s\<lparr>sy_rt := run_notes (try_save save okf) (step_effects st) ((sy_rt s)\<lparr>rt_rs := step_state st\<rparr>),
           sy_drain := None, sy_done := sy_done s \<union> settled\<rparr>)"
| store: "sys_step marshal unmarshal dk pf save load bg ids dlq s
        (s\<lparr>sy_rt := (sy_rt s)\<lparr>rt_store := bg b (rt_store (sy_rt s))\<rparr>\<rparr>)"
| restart: "sys_step marshal unmarshal dk pf save load bg ids dlq s
        (s\<lparr>sy_rt := boot (try_load load okl) dlq (rt_num (sy_rt s)) ids (rt_store (sy_rt s)),
           sy_pc := (\<lambda>_. Idle), sy_drain := None\<rparr>)"

text \<open>The start: an empty log; the store is the one the process finds.\<close>

definition start ::
  "('st \<Rightarrow> string \<Rightarrow> u32 \<Rightarrow> u64 option) \<Rightarrow> bool \<Rightarrow> u32 \<Rightarrow> string list \<Rightarrow> 'st \<Rightarrow> 'st system" where
  "start load dlq n ids store =
     \<lparr>sy_rt = boot load dlq n ids store, sy_log = (\<lambda>_. []), sy_next = (\<lambda>_. 1), sy_pc = (\<lambda>_. Idle),
      sy_drain = None, sy_done = {}\<rparr>"

inductive reachable ::
  "(change_event \<Rightarrow> string option) \<Rightarrow> (string \<Rightarrow> change_event option) \<Rightarrow> (string \<Rightarrow> raw_message option) \<Rightarrow> (string \<Rightarrow> u32) \<Rightarrow> 'st saver
     \<Rightarrow> ('st \<Rightarrow> string \<Rightarrow> u32 \<Rightarrow> u64 option) \<Rightarrow> ('op \<Rightarrow> 'st \<Rightarrow> 'st) \<Rightarrow> string list \<Rightarrow> bool \<Rightarrow> 'st system \<Rightarrow> 'st system \<Rightarrow> bool"
  for marshal unmarshal dk pf save load bg ids dlq s0 where
  start: "reachable marshal unmarshal dk pf save load bg ids dlq s0 s0"
| step: "reachable marshal unmarshal dk pf save load bg ids dlq s0 s \<Longrightarrow>
      sys_step marshal unmarshal dk pf save load bg ids dlq s t \<Longrightarrow>
      reachable marshal unmarshal dk pf save load bg ids dlq s0 t"

section \<open>Invariant\<close>

text \<open>Positions a partition loop has gone past in its current batch.\<close>

definition passed :: "pc \<Rightarrow> u64 \<Rightarrow> bool" where
  "passed k s = (case k of Batch (x # _) \<Rightarrow> s < le_seq x | Snapped x _ _ _ \<Rightarrow> s < le_seq x | _ \<Rightarrow> False)"

definition seqs_of :: "retry_scheduler \<Rightarrow> string \<Rightarrow> string \<Rightarrow> u64 list" where
  "seqs_of rs c g = map le_seq (queued rs c g)"

text \<open>Per consumer: what was reached is done or queued, and a queue keeps a group's earlier entries in front.\<close>

definition reached_ok ::
  "(string \<Rightarrow> raw_message option) \<Rightarrow> (u32 \<Rightarrow> log_entry list) \<Rightarrow> (string \<times> u32 \<times> u64) set \<Rightarrow> retry_scheduler \<Rightarrow> string
     \<Rightarrow> u32 \<Rightarrow> (u64 \<Rightarrow> bool) \<Rightarrow> bool" where
  "reached_ok dk L D rs c p B \<longleftrightarrow>
     (\<forall>e \<in> set (L p). B (le_seq e) \<longrightarrow> (c, p, le_seq e) \<in> D \<or> le_seq e \<in> set (seqs_of rs c (gkey dk e)))"

definition queue_ok ::
  "(string \<Rightarrow> raw_message option) \<Rightarrow> (string \<Rightarrow> u32) \<Rightarrow> (u32 \<Rightarrow> log_entry list) \<Rightarrow> (string \<times> u32 \<times> u64) set \<Rightarrow> string \<Rightarrow> string \<Rightarrow> u64 list
     \<Rightarrow> bool" where
  "queue_ok dk pf L D c g q \<longleftrightarrow>
     (\<forall>i < length q. \<forall>e \<in> set (L (pf g)). gkey dk e = g \<and> le_seq e < q ! i \<longrightarrow>
        (c, pf g, le_seq e) \<in> D \<or> le_seq e \<in> set (take i q))"

definition log_ok :: "(string \<Rightarrow> raw_message option) \<Rightarrow> (string \<Rightarrow> u32) \<Rightarrow> (u32 \<Rightarrow> log_entry list) \<Rightarrow> (u32 \<Rightarrow> u64) \<Rightarrow> bool" where
  "log_ok dk pf L nxt \<longleftrightarrow>
     (\<forall>p. 1 \<le> nxt p \<and> sorted_wrt (<) (map le_seq (L p)) \<and>
        (\<forall>e \<in> set (L p). 1 \<le> le_seq e \<and> le_seq e < nxt p \<and> le_seq e \<noteq> - 1 \<and> pf (gkey dk e) = p))"

section \<open>The arithmetic core: a capped cursor is safe\<close>

lemma Floor_le_head:
  assumes "rs_inv pf rs" "seqs_of rs c g \<noteq> []"
  shows "\<exists>f. Floor rs c (pf g) = Some f \<and> f \<le> hd (seqs_of rs c g)"
proof -
  note si = rs_inv_ensure(1) [OF assms(1), of c]
  from assms(2) obtain h q where q: "gm_get0 [] (cr_blocked (ensureState c rs)) g = h # q"
    by (cases "BlockedQueue rs c g") (auto simp: seqs_of_def queued_def BlockedQueue_ensure)
  note G = crs_inv_queue [OF si q]
  have "le_seq (rr_entry h) \<in> head_seqs (pf g) (cr_blocked (ensureState c rs))"
    unfolding head_seqs_def using G by (auto intro!: exI [of _ g])
  then have "opt_min (head_seqs (pf g) (cr_blocked (ensureState c rs))) = Some (Min (head_seqs (pf g) (cr_blocked (ensureState c rs))))"
    "Min (head_seqs (pf g) (cr_blocked (ensureState c rs))) \<le> le_seq (rr_entry h)"
    by (auto simp: opt_min_def)
  moreover have "hd (seqs_of rs c g) = le_seq (rr_entry h)"
    using q by (simp add: seqs_of_def queued_def BlockedQueue_ensure)
  ultimately show ?thesis using si by (simp add: Floor_ensure crs_inv_def)
qed

lemma capped_le: "capped rs c p s \<le> s"
  by (auto simp: capped_def split: option.splits)

lemma capped_safe:
  assumes inv: "rs_inv pf rs" and log: "log_ok dk pf L nxt"
    and r: "reached_ok dk L D rs c p (\<lambda>x. x < s)" and q: "\<And>g. queue_ok dk pf L D c g (seqs_of rs c g)"
    and e: "e \<in> set (L p)" "le_seq e < capped rs c p s"
  shows "(c, p, le_seq e) \<in> D"
proof -
  let ?g = "gkey dk e"
  have pf: "pf ?g = p" using log e(1) by (simp add: log_ok_def)
  have "le_seq e < s" using e(2) capped_le order_less_le_trans by blast
  then have "(c, p, le_seq e) \<in> D \<or> le_seq e \<in> set (seqs_of rs c ?g)"
    using r e(1) by (simp add: reached_ok_def)
  then show ?thesis
  proof
    assume "le_seq e \<in> set (seqs_of rs c ?g)"
    then have ne: "seqs_of rs c ?g \<noteq> []" by auto
    from Floor_le_head [OF inv ne] obtain f where f: "Floor rs c p = Some f" "f \<le> hd (seqs_of rs c ?g)"
      unfolding pf by blast
    from f(1) e(2) have "le_seq e < f" by (auto simp: capped_def split: if_splits)
    with f(2) have "le_seq e < seqs_of rs c ?g ! 0" by (simp add: hd_conv_nth [OF ne])
    with q [of ?g] ne e(1) pf show ?thesis unfolding queue_ok_def by fastforce
  qed
qed


section \<open>Monotonicity and queues\<close>

lemma reached_ok_mono:
  "reached_ok dk L D rs c p B \<Longrightarrow> D \<subseteq> D' \<Longrightarrow> (\<And>g. set (seqs_of rs c g) \<subseteq> set (seqs_of rs' c g)) \<Longrightarrow>
     (\<And>x. B' x \<Longrightarrow> B x) \<Longrightarrow> reached_ok dk L D' rs' c p B'"
  unfolding reached_ok_def by blast

lemma queue_ok_mono: "queue_ok dk pf L D c g q \<Longrightarrow> D \<subseteq> D' \<Longrightarrow> queue_ok dk pf L D' c g q"
  unfolding queue_ok_def by blast

lemma queue_ok_snoc:
  assumes "queue_ok dk pf L D c g q"
    and "\<And>e. e \<in> set (L (pf g)) \<Longrightarrow> gkey dk e = g \<Longrightarrow> le_seq e < x \<Longrightarrow> (c, pf g, le_seq e) \<in> D \<or> le_seq e \<in> set q"
  shows "queue_ok dk pf L D c g (q @ [x])"
  using assms unfolding queue_ok_def by (auto simp: nth_append less_Suc_eq)

lemma queue_ok_tl:
  assumes "queue_ok dk pf L D c g (x # q)" "D \<subseteq> D'" "(c, pf g, x) \<in> D'"
  shows "queue_ok dk pf L D' c g q"
proof -
  have "(c, pf g, le_seq e) \<in> D' \<or> le_seq e \<in> set (take i q)"
    if "i < length q" "e \<in> set (L (pf g))" "gkey dk e = g" "le_seq e < q ! i" for i e
  proof -
    have "(c, pf g, le_seq e) \<in> D \<or> le_seq e \<in> set (take (Suc i) (x # q))"
      using assms(1) that unfolding queue_ok_def by (metis length_Cons nth_Cons_Suc Suc_less_eq)
    with assms(2,3) show ?thesis by auto
  qed
  then show ?thesis unfolding queue_ok_def by blast
qed

lemma seqs_of_AddBlocked:
  "seqs_of (AddBlocked c g rec rs) c' g' =
     (if c' = c \<and> g' = g then seqs_of rs c g @ [le_seq (rr_entry rec)] else seqs_of rs c' g')"
  by (simp add: seqs_of_def queued_def BlockedQueue_AddBlocked)

section \<open>Cursors\<close>

lemma raise_cursor_sel [simp]:
  "cs_consumer (raise_cursor p x cs) = cs_consumer cs" "cs_removed (raise_cursor p x cs) = cs_removed cs"
  "cs_batch (raise_cursor p x cs) = cs_batch cs" "cs_skipped (raise_cursor p x cs) = cs_skipped cs"
  "cs_id (raise_cursor p x cs) = cs_id cs"
  by (simp_all add: raise_cursor_def cs_id_def)

lemma cursor_raise: "cursor_at (raise_cursor p x cs) p' = (if p' = p then max x (cursor_at cs p) else cursor_at cs p')"
  by (auto simp: raise_cursor_def cursor_at_def gomap_simps max_def)

lemma MaterializeEvent_sel:
  "MaterializeEvent um e = Inr e' \<Longrightarrow> le_seq e' = le_seq e \<and> le_partition e' = le_partition e"
  by (auto simp: MaterializeEvent_def split: if_splits option.splits)

text \<open>A save is fine when everything below it is done.\<close>

definition save_ok ::
  "(u32 \<Rightarrow> log_entry list) \<Rightarrow> (string \<times> u32 \<times> u64) set \<Rightarrow> (u32 \<Rightarrow> u64) \<Rightarrow> string \<Rightarrow> u32 \<Rightarrow> u64 \<Rightarrow> bool" where
  "save_ok L D nxt c p s \<longleftrightarrow> 1 \<le> s \<and> s \<le> nxt p \<and> (\<forall>e \<in> set (L p). le_seq e < s \<longrightarrow> (c, p, le_seq e) \<in> D)"

lemma save_ok_mono: "save_ok L D nxt c p s \<Longrightarrow> D \<subseteq> D' \<Longrightarrow> save_ok L D' nxt c p s"
  unfolding save_ok_def by blast

definition bounded :: "(string \<Rightarrow> u32) \<Rightarrow> (u32 \<Rightarrow> u64) \<Rightarrow> retry_scheduler \<Rightarrow> bool" where
  "bounded pf nxt rs \<longleftrightarrow> (\<forall>c g. \<forall>x \<in> set (seqs_of rs c g). 1 \<le> x \<and> x < nxt (pf g))"

lemma Floor_in_queue:
  assumes "rs_inv pf rs" "Floor rs c p = Some f"
  shows "\<exists>g. pf g = p \<and> f \<in> set (seqs_of rs c g)"
proof -
  note si = rs_inv_ensure(1) [OF assms(1), of c]
  let ?m = "cr_blocked (ensureState c rs)"
  have "opt_min (head_seqs p ?m) = Some f" using si assms(2) by (simp add: Floor_ensure crs_inv_def)
  then have "f \<in> head_seqs p ?m" by (auto simp: opt_min_def split: if_splits intro: Min_in)
  then obtain g q where q: "gm_get ?m g = Some q" "head_of p q = Some f" by (auto simp: head_seqs_def)
  then obtain h t where h: "q = h # t" "le_partition (rr_entry h) = p" "f = le_seq (rr_entry h)"
    by (cases q) (auto split: if_splits)
  with si q have "pf g = p" unfolding crs_inv_def by fastforce
  moreover have "f \<in> set (seqs_of rs c g)"
    using q h by (simp add: seqs_of_def queued_def BlockedQueue_ensure gm_get0_def)
  ultimately show ?thesis by blast
qed

lemma capped_save_ok:
  assumes "rs_inv pf rs" "log_ok dk pf L nxt" "bounded pf nxt rs"
    and "reached_ok dk L D rs c p (\<lambda>x. x < s)" "\<And>g. queue_ok dk pf L D c g (seqs_of rs c g)"
    and "1 \<le> s" "s \<le> nxt p"
  shows "save_ok L D nxt c p (capped rs c p s)"
proof -
  have "1 \<le> capped rs c p s"
  proof (cases "Floor rs c p")
    case (Some f)
    from Floor_in_queue [OF assms(1) Some] assms(3) have "1 \<le> f" unfolding bounded_def by blast
    with Some assms(6) show ?thesis by (simp add: capped_def)
  qed (use assms(6) in \<open>simp add: capped_def\<close>)
  moreover have "capped rs c p s \<le> nxt p" using capped_le assms(7) order_trans by blast
  ultimately show ?thesis
    unfolding save_ok_def using capped_safe [OF assms(1,2,4,5)] by blast
qed

section \<open>Phase 3 for one consumer\<close>

definition same_consumer :: "u32 \<Rightarrow> consumer_state \<Rightarrow> consumer_state \<Rightarrow> bool" where
  "same_consumer p cs cs' \<longleftrightarrow> cs_consumer cs' = cs_consumer cs \<and> cs_removed cs' = cs_removed cs \<and>
     cs_batch cs' = cs_batch cs \<and> cs_skipped cs' = cs_skipped cs \<and> (\<forall>p'. p' \<noteq> p \<longrightarrow> cursor_at cs' p' = cursor_at cs p') \<and>
     cursor_at cs p \<le> cursor_at cs' p"

definition only_appends :: "retry_scheduler \<Rightarrow> retry_scheduler \<Rightarrow> string \<Rightarrow> string \<Rightarrow> bool" where
  "only_appends rs rs' c g \<longleftrightarrow> rs_dlq rs' = rs_dlq rs \<and> rs_on_floor_released rs' = rs_on_floor_released rs \<and>
     (\<forall>c' g'. (c', g') \<noteq> (c, g) \<longrightarrow> BlockedQueue rs' c' g' = BlockedQueue rs c' g') \<and>
     (\<exists>rs2. BlockedQueue rs' c g = BlockedQueue rs c g @ rs2)"

lemma only_appends_refl [simp]: "only_appends rs rs c g"
  by (simp add: only_appends_def)

lemma only_appends_Add [simp]: "only_appends rs (AddBlocked c g rec rs) c g"
  by (auto simp: only_appends_def BlockedQueue_AddBlocked)

lemma same_consumer_raise [simp]: "same_consumer p cs (raise_cursor p x cs)" "same_consumer p cs cs"
  by (auto simp: same_consumer_def cursor_raise)

text \<open>The obligations of one consumer around the entry \<open>e\<close>, before and after its update.\<close>

lemma dispatchUpdateCursor_ok:
  fixes rt :: "'st router" and cs :: consumer_state
  defines "c \<equiv> cs_id cs" and "rs \<equiv> rt_rs rt"
  assumes cs: "cs = rt_consumers rt ! k" "k < length (rt_consumers rt)" "\<not> cs_batch cs"
    and inv: "rs_inv pf rs" "log_ok dk pf L nxt" "bounded pf nxt rs"
    and e: "e \<in> set (L p)" and sn: "sn_cursor sn = cursor_at cs p"
    and emp: "\<not> sn_blocked sn \<Longrightarrow> seqs_of rs c (gkey dk e) = []"
    and gk: "sn_blocked sn \<or> err \<noteq> None \<Longrightarrow> gk = gkey dk e"
    and cur: "1 \<le> cursor_at cs p" "cursor_at cs p \<le> nxt p"
    and r: "reached_ok dk L D rs c p (\<lambda>x. x < cursor_at cs p \<or> x < le_seq e)"
    and q: "\<And>g. queue_ok dk pf L D c g (seqs_of rs c g)"
    and ok: "\<not> sn_blocked sn \<Longrightarrow> \<not> le_seq e < cursor_at cs p \<Longrightarrow> err = None \<Longrightarrow> (c, p, le_seq e) \<in> D"
  obtains cs' rs' sv where
    "dispatchUpdateCursor um env p e gk err k sn (rt, saves) = (set_consumer k cs' (rt\<lparr>rt_rs := rs'\<rparr>), saves @ sv)"
    "same_consumer p cs cs'" "cursor_at cs' p \<le> nxt p" "rs_inv pf rs'" "bounded pf nxt rs'"
    "only_appends rs rs' c (gkey dk e)"
    "reached_ok dk L D rs' c p (\<lambda>x. x < cursor_at cs' p \<or> x \<le> le_seq e)"
    "\<And>g. queue_ok dk pf L D c g (seqs_of rs' c g)"
    "\<And>v. v \<in> set sv \<Longrightarrow> \<exists>s. v = CursorSave c p s \<and> save_ok L D nxt c p s"
proof -
  note [simp] = c_def rs_def
  let ?g = "gkey dk e"
  let ?e = "e\<lparr>le_partition := p\<rparr>"
  have pf: "pf ?g = p" and s1: "1 \<le> le_seq e" and sn1: "le_seq e < nxt p" and top: "le_seq e \<noteq> - 1"
    using inv(2) e by (auto simp: log_ok_def)
  have nx: "le_seq e + 1 \<le> nxt p" "1 \<le> le_seq e + 1"
    using sn1 inc_le word_le_succ [OF top] s1 by (blast, metis order_trans)
  have self: "set_consumer k cs (rt\<lparr>rt_rs := rs\<rparr>) = rt"
    using cs by (simp add: set_consumer_def)
  have uniq: "e' \<in> set (L p) \<Longrightarrow> le_seq e' = le_seq e \<Longrightarrow> e' = e" for e'
  proof -
    assume "e' \<in> set (L p)" "le_seq e' = le_seq e"
    moreover have "distinct (map le_seq (L p))"
      using inv(2) by (simp add: log_ok_def strict_sorted_iff)
    ultimately show "e' = e" using e by (simp add: distinct_map inj_on_def)
  qed
  have step: "reached_ok dk L D rs' c p (\<lambda>x. x < max (le_seq e + 1) (cursor_at cs p) \<or> x \<le> le_seq e)"
    if "\<And>g. set (seqs_of rs c g) \<subseteq> set (seqs_of rs' c g)"
      and "(c, p, le_seq e) \<in> D \<or> le_seq e \<in> set (seqs_of rs' c ?g)" for rs'
    using r that uniq unfolding reached_ok_def
    by (metis (no_types, lifting) less_max_iff_disj order_le_less subsetD top word_less_succ_iff)
  have addq: "queue_ok dk pf L D c g (seqs_of (AddBlocked c ?g rec rs) c g)" if "le_seq (rr_entry rec) = le_seq e" for rec g
  proof (cases "g = ?g")
    case True
    have "(c, p, le_seq e') \<in> D \<or> le_seq e' \<in> set (seqs_of rs c ?g)"
      if "e' \<in> set (L p)" "gkey dk e' = ?g" "le_seq e' < le_seq e" for e'
      using r that unfolding reached_ok_def by metis
    then have "queue_ok dk pf L D c ?g (seqs_of rs c ?g @ [le_seq e])"
      using q [of ?g] pf by (intro queue_ok_snoc) auto
    with True that show ?thesis by (simp add: seqs_of_AddBlocked)
  next
    case False
    with q show ?thesis by (simp add: seqs_of_AddBlocked)
  qed
  have addb: "bounded pf nxt (AddBlocked c ?g rec rs)" if "le_seq (rr_entry rec) = le_seq e" for rec
    using inv(3) that pf s1 sn1 by (auto simp: bounded_def seqs_of_AddBlocked)
  have addi: "rs_inv pf (AddBlocked c ?g rec rs)" if "le_partition (rr_entry rec) = p" for rec
    using inv(1) that pf by (intro AddBlocked_inv) auto
  show thesis
  proof (cases "le_seq e < cursor_at cs p")
    case True
    have "dispatchUpdateCursor um env p e gk err k sn (rt, saves) = (set_consumer k cs (rt\<lparr>rt_rs := rs\<rparr>), saves @ [])"
      using True sn self by (auto simp: dispatchUpdateCursor_def Let_def split: option.splits)
    moreover have "reached_ok dk L D rs c p (\<lambda>x. x < cursor_at cs p \<or> x \<le> le_seq e)"
      by (rule reached_ok_mono [OF r]) (use True in auto)
    ultimately show thesis
      using inv q cur by (intro that [of cs rs "[]"]) simp_all
  next
    case ge: False
    have mx: "max (le_seq e + 1) (cursor_at cs p) \<le> nxt p" using nx cur by simp
    show thesis
    proof (cases "sn_blocked sn")
      case True
      define rec where "rec = \<lparr>rr_ref = dv_ref env k, rr_entry = ?e, rr_attempts = 0,
         rr_next_retry_at = dv_now env + NextDelay 0, rr_consumer_id = c, rr_last_err = None\<rparr>"
      let ?rs = "AddBlocked c ?g rec rs"
      have rr: "le_seq (rr_entry rec) = le_seq e" "le_partition (rr_entry rec) = p" by (simp_all add: rec_def)
      have gk': "gk = ?g" using gk True by blast
      have eq: "dispatchUpdateCursor um env p e gk err k sn (rt, saves) =
          (set_consumer k (raise_cursor p (le_seq e + 1) cs) (rt\<lparr>rt_rs := ?rs\<rparr>),
           saves @ [CursorSave c p (capped ?rs c p (le_seq e + 1))])"
        using True ge sn cs(1) gk' by (simp add: dispatchUpdateCursor_def Let_def queuePersistCursor_def rec_def)
      have R: "reached_ok dk L D ?rs c p (\<lambda>x. x < max (le_seq e + 1) (cursor_at cs p) \<or> x \<le> le_seq e)"
        by (rule step) (auto simp: seqs_of_AddBlocked rr)
      have "save_ok L D nxt c p (capped ?rs c p (le_seq e + 1))"
        by (rule capped_save_ok [OF addi [OF rr(2)] inv(2) addb [OF rr(1)] _ addq [OF rr(1)] nx(2,1)])
          (rule reached_ok_mono [OF R], auto simp: less_max_iff_disj)
      with eq R mx addq addb addi rr show thesis
        by (intro that [of "raise_cursor p (le_seq e + 1) cs" ?rs "[CursorSave c p (capped ?rs c p (le_seq e + 1))]"])
          (auto simp: cursor_raise)
    next
      case nb: False
      show thesis
      proof (cases err)
        case (Some x)
        define e1 where "e1 = (case MaterializeEvent um ?e of Inl _ \<Rightarrow> ?e | Inr e1 \<Rightarrow> e1)"
        define rec where "rec = \<lparr>rr_ref = dv_ref env k, rr_entry = e1, rr_attempts = 1,
           rr_next_retry_at = dv_now env, rr_consumer_id = c, rr_last_err = None\<rparr>"
        let ?rs = "AddBlocked c ?g rec rs"
        have rr: "le_seq (rr_entry rec) = le_seq e" "le_partition (rr_entry rec) = p"
          by (auto simp: rec_def e1_def dest: MaterializeEvent_sel split: sum.splits)
        have gk': "gk = ?g" using gk Some by blast
        have eq: "dispatchUpdateCursor um env p e gk err k sn (rt, saves) =
            (set_consumer k cs (rt\<lparr>rt_rs := ?rs\<rparr>), saves @ [])"
          using nb ge sn cs gk' Some
          by (simp add: dispatchUpdateCursor_def Let_def rec_def e1_def set_consumer_def)
        have R: "reached_ok dk L D ?rs c p (\<lambda>x. x < max (le_seq e + 1) (cursor_at cs p) \<or> x \<le> le_seq e)"
          by (rule step) (auto simp: seqs_of_AddBlocked rr)
        have "reached_ok dk L D ?rs c p (\<lambda>x. x < cursor_at cs p \<or> x \<le> le_seq e)"
          by (rule reached_ok_mono [OF R]) (auto simp: less_max_iff_disj)
        with eq cur addq addb addi rr show thesis
          by (intro that [of cs ?rs "[]"]) simp_all
      next
        case None
        have D: "(c, p, le_seq e) \<in> D" using ok nb ge None by blast
        have eq: "dispatchUpdateCursor um env p e gk err k sn (rt, saves) =
            (set_consumer k (raise_cursor p (le_seq e + 1) cs) (rt\<lparr>rt_rs := rs\<rparr>),
             saves @ [CursorSave c p (capped rs c p (le_seq e + 1))])"
          using nb ge sn cs None by (simp add: dispatchUpdateCursor_def Let_def queuePersistCursor_def)
        have R: "reached_ok dk L D rs c p (\<lambda>x. x < max (le_seq e + 1) (cursor_at cs p) \<or> x \<le> le_seq e)"
          by (rule step) (use D in auto)
        have "save_ok L D nxt c p (capped rs c p (le_seq e + 1))"
          by (rule capped_save_ok [OF inv _ q nx(2,1)]) (rule reached_ok_mono [OF R], auto simp: less_max_iff_disj)
        with eq R mx inv q show thesis
          by (intro that [of "raise_cursor p (le_seq e + 1) cs" rs "[CursorSave c p (capped rs c p (le_seq e + 1))]"])
            (auto simp: cursor_raise)
      qed
    qed
  qed
qed

section \<open>Phase 3 for all consumers\<close>

text \<open>A consumer is in order up to the bound \<open>B\<close> of every partition below \<open>n\<close>.\<close>

definition consumer_ok ::
  "(string \<Rightarrow> raw_message option) \<Rightarrow> (u32 \<Rightarrow> log_entry list) \<Rightarrow> (u32 \<Rightarrow> u64) \<Rightarrow> (string \<times> u32 \<times> u64) set \<Rightarrow> u32
     \<Rightarrow> (u32 \<Rightarrow> u64 \<Rightarrow> bool) \<Rightarrow> retry_scheduler \<Rightarrow> consumer_state \<Rightarrow> bool" where
  "consumer_ok dk L nxt D n B rs cs \<longleftrightarrow> \<not> cs_removed cs \<and> cs_consumer cs \<noteq> None \<and> \<not> cs_batch cs \<and> cs_skipped cs = [] \<and>
     (\<forall>p < n. 1 \<le> cursor_at cs p \<and> cursor_at cs p \<le> nxt p \<and>
        reached_ok dk L D rs (cs_id cs) p (\<lambda>x. x < cursor_at cs p \<or> B p x))"

definition queues_ok ::
  "(string \<Rightarrow> raw_message option) \<Rightarrow> (string \<Rightarrow> u32) \<Rightarrow> (u32 \<Rightarrow> log_entry list) \<Rightarrow> (string \<times> u32 \<times> u64) set \<Rightarrow> retry_scheduler \<Rightarrow> bool" where
  "queues_ok dk pf L D rs \<longleftrightarrow> (\<forall>c g. queue_ok dk pf L D c g (seqs_of rs c g))"

text \<open>What the snapshot of consumer \<open>cs\<close> still says at the update.\<close>

definition snap_ok :: "(string \<Rightarrow> raw_message option) \<Rightarrow> u32 \<Rightarrow> log_entry \<Rightarrow> bool \<Rightarrow> retry_scheduler \<Rightarrow> consumer_state \<Rightarrow> consumer_snap \<Rightarrow> bool" where
  "snap_ok dk p e hb rs cs sn \<longleftrightarrow> sn_consumer sn = cs_consumer cs \<and> sn_cursor sn = cursor_at cs p \<and> \<not> sn_skipped sn \<and>
     (sn_blocked sn \<longrightarrow> hb) \<and> (\<not> sn_blocked sn \<longrightarrow> seqs_of rs (cs_id cs) (gkey dk e) = [])"

definition frame :: "u32 \<Rightarrow> (string \<Rightarrow> u32) \<Rightarrow> 'st router \<Rightarrow> 'st router \<Rightarrow> bool" where
  "frame p pf rt rt' \<longleftrightarrow> length (rt_consumers rt') = length (rt_consumers rt) \<and>
     (\<forall>i < length (rt_consumers rt). same_consumer p (rt_consumers rt ! i) (rt_consumers rt' ! i)) \<and>
     rt_store rt' = rt_store rt \<and> rt_num rt' = rt_num rt \<and> rt_dlq rt' = rt_dlq rt \<and>
     rs_dlq (rt_rs rt') = rs_dlq (rt_rs rt) \<and> rs_on_floor_released (rt_rs rt') = rs_on_floor_released (rt_rs rt) \<and>
     (\<forall>c g. pf g \<noteq> p \<longrightarrow> BlockedQueue (rt_rs rt') c g = BlockedQueue (rt_rs rt) c g) \<and>
     (\<forall>c g. \<exists>q2. BlockedQueue (rt_rs rt') c g = BlockedQueue (rt_rs rt) c g @ q2)"

lemma same_consumer_trans: "same_consumer p a b \<Longrightarrow> same_consumer p b c \<Longrightarrow> same_consumer p a c"
  unfolding same_consumer_def by force

lemma frame_refl [simp]: "frame p pf rt rt"
  by (simp add: frame_def)

lemma frame_trans:
  assumes "frame p pf a b" "frame p pf b c"
  shows "frame p pf a c"
proof -
  have "\<exists>q2. BlockedQueue (rt_rs c) k g = BlockedQueue (rt_rs a) k g @ q2" for k g
    using assms unfolding frame_def by (metis append.assoc)
  moreover have "same_consumer p (rt_consumers a ! i) (rt_consumers c ! i)" if "i < length (rt_consumers a)" for i
    using assms that same_consumer_trans unfolding frame_def by metis
  ultimately show ?thesis using assms unfolding frame_def by simp
qed

lemma same_consumer_id: "same_consumer p cs cs' \<Longrightarrow> cs_id cs' = cs_id cs"
  by (simp add: same_consumer_def cs_id_def)

lemma seqs_of_cong: "BlockedQueue rs' c g = BlockedQueue rs c g \<Longrightarrow> seqs_of rs' c g = seqs_of rs c g"
  by (simp add: seqs_of_def queued_def)

definition bound_upto :: "u32 \<Rightarrow> log_entry \<Rightarrow> (u32 \<Rightarrow> u64 \<Rightarrow> bool) \<Rightarrow> u32 \<Rightarrow> u64 \<Rightarrow> bool" where
  "bound_upto p e B p' x = (if p' = p then x \<le> le_seq e else B p' x)"

lemma set_consumer_sel [simp]:
  "rt_consumers (set_consumer i cs rt) = (rt_consumers rt)[i := cs]" "rt_rs (set_consumer i cs rt) = rt_rs rt"
  "rt_store (set_consumer i cs rt) = rt_store rt" "rt_num (set_consumer i cs rt) = rt_num rt"
  "rt_dlq (set_consumer i cs rt) = rt_dlq rt"
  by (simp_all add: set_consumer_def)

lemma apply_loop_ok:
  assumes log: "log_ok dk pf L nxt" and e: "e \<in> set (L p)" and p: "p < n"
    and B: "\<And>x. B p x \<longleftrightarrow> x < le_seq e"
    and gk: "hb \<or> list_ex (\<lambda>x. x \<noteq> None) (map snd sns) \<Longrightarrow> gk = gkey dk e"
    and dist: "distinct (map cs_id (rt_consumers rt))"
    and inv: "rs_inv pf (rt_rs rt)" "bounded pf nxt (rt_rs rt)" "queues_ok dk pf L D (rt_rs rt)"
    and len: "k + length sns = length (rt_consumers rt)"
    and pre: "\<And>i. i < k \<Longrightarrow> consumer_ok dk L nxt D n (bound_upto p e B) (rt_rs rt) (rt_consumers rt ! i)"
    and post: "\<And>i. i < length sns \<Longrightarrow> consumer_ok dk L nxt D n B (rt_rs rt) (rt_consumers rt ! (k + i)) \<and>
        snap_ok dk p e hb (rt_rs rt) (rt_consumers rt ! (k + i)) (fst (sns ! i)) \<and>
        (\<not> sn_blocked (fst (sns ! i)) \<and> \<not> le_seq e < sn_cursor (fst (sns ! i)) \<and> snd (sns ! i) = None \<longrightarrow>
           (cs_id (rt_consumers rt ! (k + i)), p, le_seq e) \<in> D)"
    and sv: "\<And>v. v \<in> set saves \<Longrightarrow> \<exists>c s. v = CursorSave c p s \<and> save_ok L D nxt c p s"
  obtains rt' saves' where
    "apply_loop um env p e gk k sns (rt, saves) = (rt', saves')" "frame p pf rt rt'"
    "rs_inv pf (rt_rs rt')" "bounded pf nxt (rt_rs rt')" "queues_ok dk pf L D (rt_rs rt')"
    "\<And>i. i < length (rt_consumers rt') \<Longrightarrow> consumer_ok dk L nxt D n (bound_upto p e B) (rt_rs rt') (rt_consumers rt' ! i)"
    "\<And>v. v \<in> set saves' \<Longrightarrow> \<exists>c s. v = CursorSave c p s \<and> save_ok L D nxt c p s"
  using gk dist inv len pre post sv
proof (induction sns arbitrary: k rt saves thesis)
  case Nil
  show ?case
    by (rule Nil.prems(1) [of rt saves]) (use Nil.prems in simp_all)
next
  case (Cons x sns)
  obtain sn err where x: "x = (sn, err)" by fastforce
  let ?cs = "rt_consumers rt ! k"
  have k: "k < length (rt_consumers rt)" using Cons.prems(7) by simp
  note P0 = Cons.prems(9) [of 0, simplified x, simplified]
  have cok: "consumer_ok dk L nxt D n B (rt_rs rt) ?cs" and sok: "snap_ok dk p e hb (rt_rs rt) ?cs sn"
    and dn: "\<not> sn_blocked sn \<Longrightarrow> \<not> le_seq e < sn_cursor sn \<Longrightarrow> err = None \<Longrightarrow> (cs_id ?cs, p, le_seq e) \<in> D"
    using P0 by auto
  have act: "active ?cs" and scon: "sn_consumer sn = cs_consumer ?cs" and nsk: "\<not> sn_skipped sn"
    using cok sok by (auto simp: consumer_ok_def snap_ok_def active_def)
  have pfe: "pf (gkey dk e) = p" using log e by (simp add: log_ok_def)
  have nb: "\<not> cs_batch ?cs" and scur: "sn_cursor sn = cursor_at ?cs p"
    and emp: "\<not> sn_blocked sn \<Longrightarrow> seqs_of (rt_rs rt) (cs_id ?cs) (gkey dk e) = []"
    and cur: "1 \<le> cursor_at ?cs p" "cursor_at ?cs p \<le> nxt p"
    using cok sok p by (auto simp: consumer_ok_def snap_ok_def)
  have gke: "sn_blocked sn \<or> err \<noteq> None \<Longrightarrow> gk = gkey dk e"
    using Cons.prems(2) sok by (auto simp: snap_ok_def x)
  have rch: "reached_ok dk L D (rt_rs rt) (cs_id ?cs) p (\<lambda>x. x < cursor_at ?cs p \<or> x < le_seq e)"
  proof -
    have "reached_ok dk L D (rt_rs rt) (cs_id ?cs) p (\<lambda>x. x < cursor_at ?cs p \<or> B p x)"
      using cok p by (simp add: consumer_ok_def)
    then show ?thesis by (simp only: B)
  qed
  have qs: "queue_ok dk pf L D (cs_id ?cs) g (seqs_of (rt_rs rt) (cs_id ?cs) g)" for g
    using Cons.prems(6) by (simp add: queues_ok_def)
  have okd: "\<not> sn_blocked sn \<Longrightarrow> \<not> le_seq e < cursor_at ?cs p \<Longrightarrow> err = None \<Longrightarrow> (cs_id ?cs, p, le_seq e) \<in> D"
    using dn scur by simp
  note step = dispatchUpdateCursor_ok [OF refl k nb Cons.prems(4) log Cons.prems(5) e scur emp gke cur rch qs okd,
      where um = um and env = env and saves = saves]
  obtain cs' rs' sv where
    eq: "dispatchUpdateCursor um env p e gk err k sn (rt, saves) = (set_consumer k cs' (rt\<lparr>rt_rs := rs'\<rparr>), saves @ sv)"
    and same: "same_consumer p ?cs cs'" and c1: "cursor_at cs' p \<le> nxt p"
    and rinv: "rs_inv pf rs'" "bounded pf nxt rs'" and app: "only_appends (rt_rs rt) rs' (cs_id ?cs) (gkey dk e)"
    and reach: "reached_ok dk L D rs' (cs_id ?cs) p (\<lambda>x. x < cursor_at cs' p \<or> x \<le> le_seq e)"
    and qok: "\<And>g. queue_ok dk pf L D (cs_id ?cs) g (seqs_of rs' (cs_id ?cs) g)"
    and svo: "\<And>v. v \<in> set sv \<Longrightarrow> \<exists>s. v = CursorSave (cs_id ?cs) p s \<and> save_ok L D nxt (cs_id ?cs) p s"
    by (rule step; (assumption | rule that; assumption))
  let ?rt = "set_consumer k cs' (rt\<lparr>rt_rs := rs'\<rparr>)"
  have loop: "apply_loop um env p e gk k (x # sns) (rt, saves) = apply_loop um env p e gk (Suc k) sns (?rt, saves @ sv)"
    using k act scon nsk eq by (auto simp: x active_def)
  have fr: "frame p pf rt ?rt"
  proof -
    have "BlockedQueue rs' c g = BlockedQueue (rt_rs rt) c g" if "pf g \<noteq> p" for c g
      using app that pfe unfolding only_appends_def by (metis prod.inject)
    moreover have "\<exists>q2. BlockedQueue rs' c g = BlockedQueue (rt_rs rt) c g @ q2" for c g
      using app unfolding only_appends_def by (metis append_Nil2 prod.inject)
    ultimately show ?thesis
      using same app k by (simp add: frame_def only_appends_def nth_list_update)
  qed
  have other: "BlockedQueue rs' c g = BlockedQueue (rt_rs rt) c g" if "c \<noteq> cs_id ?cs" for c g
    using app that by (simp add: only_appends_def)
  have ids: "cs_id (rt_consumers rt ! i) \<noteq> cs_id ?cs" if "i \<noteq> k" "i < length (rt_consumers rt)" for i
    using Cons.prems(3) that k by (metis distinct_conv_nth length_map nth_map)
  have keepc: "consumer_ok dk L nxt D n B' rs' (rt_consumers rt ! i)"
    if "consumer_ok dk L nxt D n B' (rt_rs rt) (rt_consumers rt ! i)" "i \<noteq> k" "i < length (rt_consumers rt)" for i B'
    using that(1) seqs_of_cong [OF other [OF ids [OF that(2,3)]]]
    unfolding consumer_ok_def reached_ok_def by simp
  have selfc: "consumer_ok dk L nxt D n (bound_upto p e B) rs' cs'"
  proof -
    have "reached_ok dk L D rs' (cs_id ?cs) p' (\<lambda>x. x < cursor_at cs' p' \<or> bound_upto p e B p' x)" if "p' < n" for p'
    proof (cases "p' = p")
      case True
      with reach show ?thesis by (simp add: bound_upto_def)
    next
      case False
      have "reached_ok dk L D (rt_rs rt) (cs_id ?cs) p' (\<lambda>x. x < cursor_at ?cs p' \<or> B p' x)"
        using cok that by (simp add: consumer_ok_def)
      moreover have "seqs_of rs' (cs_id ?cs) (gkey dk e') = seqs_of (rt_rs rt) (cs_id ?cs) (gkey dk e')"
        if "e' \<in> set (L p')" for e'
      proof (rule seqs_of_cong)
        have "gkey dk e' \<noteq> gkey dk e" using log that False pfe unfolding log_ok_def by metis
        then show "BlockedQueue rs' (cs_id ?cs) (gkey dk e') = BlockedQueue (rt_rs rt) (cs_id ?cs) (gkey dk e')"
          using app by (simp add: only_appends_def)
      qed
      ultimately show ?thesis
        using same False by (simp add: reached_ok_def same_consumer_def bound_upto_def)
    qed
    moreover have "1 \<le> cursor_at cs' p'" "cursor_at cs' p' \<le> nxt p'" if "p' < n" for p'
      using cok same c1 that unfolding consumer_ok_def same_consumer_def by (metis order_trans)+
    ultimately show ?thesis
      using cok same same_consumer_id [OF same] by (simp add: consumer_ok_def same_consumer_def)
  qed
  have idk: "cs_id cs' = cs_id ?cs" using same_consumer_id [OF same] .
  show ?case
  proof (rule Cons.IH [of "Suc k" ?rt "saves @ sv"])
    show "hb \<or> list_ex (\<lambda>x. x \<noteq> None) (map snd sns) \<Longrightarrow> gk = gkey dk e"
      using Cons.prems(2) by auto
    have "map cs_id (rt_consumers ?rt) = map cs_id (rt_consumers rt)"
      using idk k by (metis length_map list_update_id map_update nth_map router.select_convs(1) router.surjective router.update_convs(4) set_consumer_sel(1))
    then show "distinct (map cs_id (rt_consumers ?rt))" using Cons.prems(3) by simp
    show "rs_inv pf (rt_rs ?rt)" "bounded pf nxt (rt_rs ?rt)" using rinv by simp_all
    show "queues_ok dk pf L D (rt_rs ?rt)"
      using Cons.prems(6) qok other unfolding queues_ok_def
      by (metis router.select_convs(4) router.surjective router.update_convs(4) seqs_of_cong set_consumer_sel(2))
    show "Suc k + length sns = length (rt_consumers ?rt)" using Cons.prems(7) by simp
  next
    fix i assume "i < Suc k"
    then show "consumer_ok dk L nxt D n (bound_upto p e B) (rt_rs ?rt) (rt_consumers ?rt ! i)"
      using Cons.prems(8) keepc selfc k by (cases "i = k") (auto simp: less_Suc_eq)
  next
    fix i assume i: "i < length sns"
    then have ne: "Suc k + i \<noteq> k" "Suc k + i < length (rt_consumers rt)" using Cons.prems(7) by auto
    have "seqs_of rs' (cs_id (rt_consumers rt ! (Suc k + i))) g = seqs_of (rt_rs rt) (cs_id (rt_consumers rt ! (Suc k + i))) g" for g
      using other [OF ids [OF ne]] by (rule seqs_of_cong)
    then show "consumer_ok dk L nxt D n B (rt_rs ?rt) (rt_consumers ?rt ! (Suc k + i)) \<and>
        snap_ok dk p e hb (rt_rs ?rt) (rt_consumers ?rt ! (Suc k + i)) (fst (sns ! i)) \<and>
        (\<not> sn_blocked (fst (sns ! i)) \<and> \<not> le_seq e < sn_cursor (fst (sns ! i)) \<and> snd (sns ! i) = None \<longrightarrow>
           (cs_id (rt_consumers ?rt ! (Suc k + i)), p, le_seq e) \<in> D)"
      using Cons.prems(9) [of "Suc i"] i keepc [OF _ ne] by (simp add: snap_ok_def)
  next
    fix v assume "v \<in> set (saves @ sv)"
    then show "\<exists>c s. v = CursorSave c p s \<and> save_ok L D nxt c p s"
      using Cons.prems(10) svo by (metis Un_iff set_append)
  next
    fix rt' saves'
    assume "apply_loop um env p e gk (Suc k) sns (?rt, saves @ sv) = (rt', saves')" "frame p pf ?rt rt'"
      "rs_inv pf (rt_rs rt')" "bounded pf nxt (rt_rs rt')" "queues_ok dk pf L D (rt_rs rt')"
      "\<And>i. i < length (rt_consumers rt') \<Longrightarrow> consumer_ok dk L nxt D n (bound_upto p e B) (rt_rs rt') (rt_consumers rt' ! i)"
      "\<And>v. v \<in> set saves' \<Longrightarrow> \<exists>c s. v = CursorSave c p s \<and> save_ok L D nxt c p s"
    with fr loop show thesis using frame_trans by (intro Cons.prems(1)) auto
  qed
qed

end
