(* ===== verification/Delivery_Safety.thy ===== *)
theory Delivery_Safety
  imports Delivery
begin

text \<open>
  The invariant of the delivery system and its preservation by every step, up to the
  at-least-once result: whatever cursor the store holds, all entries below it are done.
\<close>

section \<open>The invariant\<close>

definition seg :: "log_entry list \<Rightarrow> log_entry list \<Rightarrow> bool" where
  "seg es l \<longleftrightarrow> (\<exists>pre post. l = pre @ es @ post)"

definition pc_ok ::
  "(string \<Rightarrow> raw_message option) \<Rightarrow> (u32 \<Rightarrow> log_entry list) \<Rightarrow> 'st router \<Rightarrow> u32 \<Rightarrow> pc \<Rightarrow> bool" where
  "pc_ok dk L rt p k =
     (case k of
        Idle \<Rightarrow> True
      | Batch es \<Rightarrow> p < rt_num rt \<and> seg es (L p)
      | Snapped e es hb snaps \<Rightarrow> p < rt_num rt \<and> seg (e # es) (L p) \<and> length snaps = length (rt_consumers rt) \<and>
          (\<forall>i < length snaps. snap_ok dk p e hb (rt_rs rt) (rt_consumers rt ! i) (snaps ! i)))"

definition drain_ok :: "retry_scheduler \<Rightarrow> (string \<times> string \<times> retry_record) option \<Rightarrow> bool" where
  "drain_ok rs d =
     (case d of None \<Rightarrow> True
      | Some (c, g, rec) \<Rightarrow> BlockedQueue rs c g \<noteq> [] \<and> rr_entry (hd (BlockedQueue rs c g)) = rr_entry rec)"

definition store_ok ::
  "('st \<Rightarrow> string \<Rightarrow> u32 \<Rightarrow> u64 set) \<Rightarrow> string list \<Rightarrow> (u32 \<Rightarrow> log_entry list) \<Rightarrow> (string \<times> u32 \<times> u64) set \<Rightarrow> (u32 \<Rightarrow> u64)
     \<Rightarrow> 'st \<Rightarrow> bool" where
  "store_ok holds ids L D nxt st \<longleftrightarrow> (\<forall>c \<in> set ids. \<forall>p. \<forall>s \<in> holds st c p. save_ok L D nxt c p s)"

text \<open>The part about the log, the scheduler and the consumers, relative to a bound \<open>B\<close>.\<close>

definition core_ok ::
  "(string \<Rightarrow> raw_message option) \<Rightarrow> (string \<Rightarrow> u32) \<Rightarrow> string list \<Rightarrow> (u32 \<Rightarrow> log_entry list) \<Rightarrow> (u32 \<Rightarrow> u64)
     \<Rightarrow> (string \<times> u32 \<times> u64) set \<Rightarrow> (u32 \<Rightarrow> u64 \<Rightarrow> bool) \<Rightarrow> 'st router \<Rightarrow> bool" where
  "core_ok dk pf ids L nxt D B rt \<longleftrightarrow>
     log_ok dk pf L nxt \<and> (\<forall>p. \<not> p < rt_num rt \<longrightarrow> nxt p = 1) \<and> distinct ids \<and>
     map cs_consumer (rt_consumers rt) = map Some ids \<and>
     rs_inv pf (rt_rs rt) \<and> bounded pf nxt (rt_rs rt) \<and> queues_ok dk pf L D (rt_rs rt) \<and>
     (\<forall>cs \<in> set (rt_consumers rt). consumer_ok dk L nxt D (rt_num rt) B (rt_rs rt) cs)"

definition sys_inv ::
  "(string \<Rightarrow> raw_message option) \<Rightarrow> (string \<Rightarrow> u32) \<Rightarrow> ('st \<Rightarrow> string \<Rightarrow> u32 \<Rightarrow> u64 set) \<Rightarrow> string list \<Rightarrow> 'st system \<Rightarrow> bool" where
  "sys_inv dk pf holds ids s \<longleftrightarrow>
     core_ok dk pf ids (sy_log s) (sy_next s) (sy_done s) (\<lambda>p. passed (sy_pc s p)) (sy_rt s) \<and>
     store_ok holds ids (sy_log s) (sy_done s) (sy_next s) (rt_store (sy_rt s)) \<and>
     (\<forall>p. pc_ok dk (sy_log s) (sy_rt s) p (sy_pc s p)) \<and>
     drain_ok (rt_rs (sy_rt s)) (sy_drain s)"

lemma cs_ids: "map cs_consumer css = map Some ids \<Longrightarrow> map cs_id css = ids"
  by (induction css arbitrary: ids) (auto simp: cs_id_def)

lemma consumer_ok_mono:
  assumes "consumer_ok dk L nxt D n B rs cs"
    and "\<And>p x. p < n \<Longrightarrow> B' p x \<Longrightarrow> \<forall>e \<in> set (L p). le_seq e = x \<longrightarrow> B p x \<or> x < cursor_at cs p"
  shows "consumer_ok dk L nxt D n B' rs cs"
  using assms unfolding consumer_ok_def reached_ok_def by metis

lemma core_ok_mono:
  assumes "core_ok dk pf ids L nxt D B rt"
    and "\<And>cs p x. cs \<in> set (rt_consumers rt) \<Longrightarrow> p < rt_num rt \<Longrightarrow> B' p x \<Longrightarrow>
      \<forall>e \<in> set (L p). le_seq e = x \<longrightarrow> B p x \<or> x < cursor_at cs p"
  shows "core_ok dk pf ids L nxt D B' rt"
proof -
  have "consumer_ok dk L nxt D (rt_num rt) B' (rt_rs rt) cs" if "cs \<in> set (rt_consumers rt)" for cs
    by (rule consumer_ok_mono [of _ _ _ _ _ B]) (use assms that in \<open>auto simp: core_ok_def\<close>)
  with assms(1) show ?thesis by (simp add: core_ok_def)
qed

section \<open>Appending to the log\<close>

lemma append_core:
  assumes core: "core_ok dk pf ids L nxt D B rt" and p: "p < rt_num rt" "nxt p \<le> le_seq e" "le_seq e \<noteq> - 1"
    and g: "pf (gkey dk e) = p"
  defines "L' \<equiv> L(p := L p @ [e])" and "nxt' \<equiv> nxt(p := le_seq e + 1)"
  assumes B: "\<And>q x. B q x \<Longrightarrow> x < nxt q"
  shows "core_ok dk pf ids L' nxt' D B rt" "save_ok L D nxt c q s \<Longrightarrow> save_ok L' D nxt' c q s"
proof -
  have log: "log_ok dk pf L nxt" using core by (simp add: core_ok_def)
  have n1: "1 \<le> nxt p" "1 \<le> le_seq e" using log p by (auto simp: log_ok_def intro: order_trans)
  have le: "nxt q \<le> nxt' q" for q
    using p word_le_succ [OF p(3)] by (auto simp: nxt'_def intro: order_trans)
  have lt: "le_seq e < le_seq e + 1" using p(3) by (rule word_less_succ)
  have log': "log_ok dk pf L' nxt'"
    unfolding log_ok_def
  proof (intro allI conjI ballI)
    fix q
    show "1 \<le> nxt' q" using log le unfolding log_ok_def by (metis order_trans)
    show "sorted_wrt (<) (map le_seq (L' q))"
      using log p(2) by (auto simp: L'_def log_ok_def sorted_wrt_append intro: order_less_le_trans)
    fix e' assume "e' \<in> set (L' q)"
    then have *: "e' \<in> set (L q) \<or> q = p \<and> e' = e" by (auto simp: L'_def split: if_splits)
    then show "1 \<le> le_seq e'" "le_seq e' \<noteq> - 1" "pf (gkey dk e') = q"
      using log n1 p(3) g unfolding log_ok_def by auto
    have "le_seq e' < nxt q \<or> q = p \<and> e' = e" using * log unfolding log_ok_def by blast
    then show "le_seq e' < nxt' q" using le [of q] lt by (auto simp: nxt'_def intro: order_less_le_trans)
  qed
  have reach: "reached_ok dk L' D rs c q (\<lambda>x. x < s \<or> B q x)"
    if "reached_ok dk L D rs c q (\<lambda>x. x < s \<or> B q x)" "s \<le> nxt q" for rs c q s
    using that B [of q] p(2) unfolding reached_ok_def L'_def
    by (auto split: if_splits) (metis order_less_le_trans not_less_iff_gr_or_eq order_le_less)+
  have "bounded pf nxt' (rt_rs rt)"
    using core le unfolding core_ok_def bounded_def by (meson order_less_le_trans)
  moreover have "queues_ok dk pf L' D (rt_rs rt)"
  proof -
    have "queue_ok dk pf L' D c k (seqs_of (rt_rs rt) c k)" for c k
    proof -
      have "x < le_seq e" if "x \<in> set (seqs_of (rt_rs rt) c k)" "pf k = p" for x
        using core that p(2) unfolding core_ok_def bounded_def by (metis order_less_le_trans)
      then have "\<not> le_seq e < seqs_of (rt_rs rt) c k ! i" if "i < length (seqs_of (rt_rs rt) c k)" "pf k = p" for i
        using that by (meson not_less_iff_gr_or_eq nth_mem)
      moreover have "queue_ok dk pf L D c k (seqs_of (rt_rs rt) c k)"
        using core by (simp add: core_ok_def queues_ok_def)
      moreover have "e' \<in> set (L q) \<or> q = p \<and> e' = e" if "e' \<in> set (L' q)" for e' q
        using that by (auto simp: L'_def split: if_splits)
      ultimately show ?thesis unfolding queue_ok_def by metis
    qed
    then show ?thesis by (simp add: queues_ok_def)
  qed
  moreover have "consumer_ok dk L' nxt' D (rt_num rt) B (rt_rs rt) cs" if "cs \<in> set (rt_consumers rt)" for cs
    using core that reach le unfolding core_ok_def consumer_ok_def by (meson order_trans)
  moreover have "nxt' q = 1" if "\<not> q < rt_num rt" for q
    using core that p(1) by (auto simp: core_ok_def nxt'_def)
  ultimately show "core_ok dk pf ids L' nxt' D B rt" using core log' by (simp add: core_ok_def)
  show "save_ok L' D nxt' c q s" if "save_ok L D nxt c q s"
    using that le p(2) unfolding save_ok_def L'_def
    by (auto split: if_splits) (metis not_less_iff_gr_or_eq order_less_le_trans order_trans)+
qed

section \<open>Segments of the log\<close>

lemma seg_mem: "seg es l \<Longrightarrow> e \<in> set es \<Longrightarrow> e \<in> set l"
  by (auto simp: seg_def)

lemma seg_snoc: "seg es l \<Longrightarrow> seg es (l @ [e])"
  unfolding seg_def by (metis append.assoc)

lemma seg_Cons: "seg (e # es) l \<Longrightarrow> seg es l"
  unfolding seg_def by (metis append.assoc append_Cons append_Nil)

lemma sorted_before:
  assumes "sorted_wrt (<) (map le_seq (pre @ x # r))" "e \<in> set (pre @ x # r)" "le_seq e < le_seq x"
  shows "e \<in> set pre"
proof -
  have "le_seq x \<le> le_seq y" if "y \<in> set (x # r)" for y
    using assms(1) that by (auto simp: sorted_wrt_append intro: less_imp_le)
  with assms(2,3) show ?thesis by (metis Un_iff leD set_append)
qed

lemma seg_next:
  assumes "seg (e # x # es) l" "sorted_wrt (<) (map le_seq l)" "e' \<in> set l" "le_seq e' < le_seq x"
  shows "le_seq e' \<le> le_seq e"
proof -
  obtain pre post where l: "l = pre @ e # x # es @ post" using assms(1) by (auto simp: seg_def)
  have "e' \<in> set (pre @ [e])"
    using assms(2-4) by (intro sorted_before [of "pre @ [e]" x "es @ post"]) (simp_all add: l)
  with assms(2) show ?thesis by (auto simp: l sorted_wrt_append intro: less_imp_le)
qed

lemma sorted_filter_ge:
  fixes m :: u64
  assumes "sorted_wrt (<) (map le_seq l)"
  shows "\<exists>pre. l = pre @ filter (\<lambda>e. m \<le> le_seq e) l \<and> (\<forall>e \<in> set pre. le_seq e < m)"
  using assms
proof (induction l)
  case (Cons a l)
  show ?case
  proof (cases "m \<le> le_seq a")
    case True
    with Cons.prems have "filter (\<lambda>e. m \<le> le_seq e) l = l" by (auto simp: filter_id_conv)
    with True show ?thesis by simp
  next
    case False
    with Cons obtain pre where "l = pre @ filter (\<lambda>e. m \<le> le_seq e) l" "\<forall>e \<in> set pre. le_seq e < m" by auto
    with False show ?thesis by (intro exI [of _ "a # pre"]) auto
  qed
qed simp

lemma passed_bound:
  assumes "pc_ok dk L rt p k" "log_ok dk pf L nxt" "passed k x"
  shows "x < nxt p"
proof -
  obtain e where "x < le_seq e" "e \<in> set (L p)"
    using assms(1,3) by (auto simp: pc_ok_def passed_def split: pc.splits list.splits dest: seg_mem)
  with assms(2) show ?thesis unfolding log_ok_def by (meson order_less_trans)
qed

section \<open>One lemma per step\<close>

lemma append_step:
  assumes "sys_inv dk pf holds ids s" "p < rt_num (sy_rt s)" "sy_next s p \<le> le_seq e" "le_seq e \<noteq> - 1" "pf (gkey dk e) = p"
  shows "sys_inv dk pf holds ids
     (s\<lparr>sy_log := (sy_log s)(p := sy_log s p @ [e]), sy_next := (sy_next s)(p := le_seq e + 1)\<rparr>)"
proof -
  have core: "core_ok dk pf ids (sy_log s) (sy_next s) (sy_done s) (\<lambda>p. passed (sy_pc s p)) (sy_rt s)"
    and pcs: "\<And>p. pc_ok dk (sy_log s) (sy_rt s) p (sy_pc s p)"
    using assms(1) by (simp_all add: sys_inv_def)
  have B: "x < sy_next s q" if "passed (sy_pc s q) x" for q x
    using passed_bound [OF pcs _ that] core unfolding core_ok_def by blast
  note A = append_core [OF core assms(2-5), OF B]
  have "pc_ok dk ((sy_log s)(p := sy_log s p @ [e])) (sy_rt s) q (sy_pc s q)" for q
    using pcs [of q] by (auto simp: pc_ok_def seg_snoc split: pc.splits)
  then show ?thesis
    using assms(1) A unfolding sys_inv_def store_ok_def by simp
qed

lemma min_cursor_loop_le:
  assumes "\<And>cs. cs \<in> set css \<Longrightarrow> active cs \<and> 1 \<le> cursor_at cs p"
  shows "(m \<noteq> 0 \<longrightarrow> min_cursor_loop p css m \<le> m) \<and> (\<forall>cs \<in> set css. min_cursor_loop p css m \<le> cursor_at cs p) \<and>
    (m \<noteq> 0 \<or> css \<noteq> [] \<longrightarrow> min_cursor_loop p css m \<noteq> 0)"
  using assms
proof (induction css arbitrary: m)
  case (Cons cs css)
  have cs: "active cs" "1 \<le> cursor_at cs p" "cursor_at cs p \<noteq> 0" using Cons.prems [of cs] by auto
  let ?m = "if m = 0 \<or> cursor_at cs p < m then cursor_at cs p else m"
  have IH: "min_cursor_loop p css ?m \<le> ?m" "\<forall>c \<in> set css. min_cursor_loop p css ?m \<le> cursor_at c p"
    "min_cursor_loop p css ?m \<noteq> 0"
    using Cons.IH [of ?m] Cons.prems cs by auto
  have "?m \<le> cursor_at cs p" "m \<noteq> 0 \<longrightarrow> ?m \<le> m" by auto
  with IH cs show ?case by (auto intro: order_trans)
qed simp

lemma minCursorForPartition_le:
  assumes "\<And>cs. cs \<in> set (rt_consumers rt) \<Longrightarrow> active cs \<and> 1 \<le> cursor_at cs p" "cs \<in> set (rt_consumers rt)"
  shows "minCursorForPartition p rt \<le> cursor_at cs p"
proof -
  note M = min_cursor_loop_le [OF assms(1), of "rt_consumers rt" 0, simplified]
  have "min_cursor_loop p (rt_consumers rt) 0 \<noteq> 0" using M assms(2) by fastforce
  with M assms(2) show ?thesis by (simp add: minCursorForPartition_def Let_def)
qed

lemma consumer_ok_active: "consumer_ok dk L nxt D n B rs cs \<Longrightarrow> p < n \<Longrightarrow> active cs \<and> 1 \<le> cursor_at cs p"
  by (simp add: consumer_ok_def active_def)

lemma pc_step:
  assumes inv: "sys_inv dk pf holds ids s" and k: "pc_ok dk (sy_log s) (sy_rt s) p k"
    and B: "\<And>e cs. e \<in> set (sy_log s p) \<Longrightarrow> p < rt_num (sy_rt s) \<Longrightarrow> cs \<in> set (rt_consumers (sy_rt s)) \<Longrightarrow> passed k (le_seq e) \<Longrightarrow>
      passed (sy_pc s p) (le_seq e) \<or> le_seq e < cursor_at cs p"
  shows "sys_inv dk pf holds ids (s\<lparr>sy_pc := (sy_pc s)(p := k)\<rparr>)"
proof -
  have "core_ok dk pf ids (sy_log s) (sy_next s) (sy_done s) (\<lambda>q. passed (((sy_pc s)(p := k)) q)) (sy_rt s)"
    by (rule core_ok_mono [of _ _ _ _ _ _ "\<lambda>p. passed (sy_pc s p)"])
      (use inv B in \<open>auto simp: sys_inv_def split: if_splits\<close>)
  with inv k show ?thesis by (simp add: sys_inv_def)
qed

lemma read_step:
  assumes inv: "sys_inv dk pf holds ids s" and p: "p < rt_num (sy_rt s)"
    and es: "es = take n (filter (\<lambda>e. minCursorForPartition p (sy_rt s) \<le> le_seq e) (sy_log s p))"
  shows "sys_inv dk pf holds ids (s\<lparr>sy_pc := (sy_pc s)(p := Batch es)\<rparr>)"
proof (rule pc_step [OF inv])
  let ?m = "minCursorForPartition p (sy_rt s)"
  have core: "core_ok dk pf ids (sy_log s) (sy_next s) (sy_done s) (\<lambda>p. passed (sy_pc s p)) (sy_rt s)"
    using inv by (simp add: sys_inv_def)
  then have so: "sorted_wrt (<) (map le_seq (sy_log s p))" by (simp add: core_ok_def log_ok_def)
  then obtain pre where pre: "sy_log s p = pre @ filter (\<lambda>e. ?m \<le> le_seq e) (sy_log s p)" "\<forall>e \<in> set pre. le_seq e < ?m"
    using sorted_filter_ge by blast
  obtain post where l: "sy_log s p = pre @ es @ post"
    using pre(1) es by (metis append_take_drop_id)
  then show "pc_ok dk (sy_log s) (sy_rt s) p (Batch es)"
    using p unfolding pc_ok_def seg_def by auto
  fix e cs
  assume e: "e \<in> set (sy_log s p)" and cs: "cs \<in> set (rt_consumers (sy_rt s))" and k: "passed (Batch es) (le_seq e)"
  from k obtain x xs where x: "es = x # xs" "le_seq e < le_seq x" by (auto simp: passed_def split: list.splits)
  have "e \<in> set pre"
    using so e by (intro sorted_before [OF _ _ x(2), of pre "xs @ post"]) (simp_all add: l x(1))
  with pre(2) have "le_seq e < ?m" by blast
  moreover have "?m \<le> cursor_at cs p"
    using core consumer_ok_active p by (intro minCursorForPartition_le cs) (auto simp: core_ok_def)
  ultimately show "passed (sy_pc s p) (le_seq e) \<or> le_seq e < cursor_at cs p" using order_less_le_trans by blast
qed

lemma HasBlocked_queue: "\<not> HasBlocked rs \<Longrightarrow> BlockedQueue rs c g = []"
  by (auto simp: HasBlocked_def BlockedQueue_def list_ex_iff gm_get0_def split: option.splits dest!: map_of_SomeD)

lemma snap_step:
  assumes inv: "sys_inv dk pf holds ids s" and k: "sy_pc s p = Batch (e # es)" and hb: "hb = HasBlocked (rt_rs (sy_rt s))"
    and sn: "snaps = snapshotConsumers p (le_seq e) (if hb then gkey dk e else []) hb (sy_rt s)"
  shows "sys_inv dk pf holds ids (s\<lparr>sy_pc := (sy_pc s)(p := Snapped e es hb snaps)\<rparr>)"
proof (rule pc_step [OF inv])
  have pcs: "pc_ok dk (sy_log s) (sy_rt s) p (sy_pc s p)" for p using inv by (simp add: sys_inv_def)
  have pc: "p < rt_num (sy_rt s)" "seg (e # es) (sy_log s p)"
    using pcs [of p] k by (simp_all add: pc_ok_def)
  have "snap_ok dk p e hb (rt_rs (sy_rt s)) (rt_consumers (sy_rt s) ! i) (snaps ! i)" if i: "i < length (rt_consumers (sy_rt s))" for i
  proof -
    let ?cs = "rt_consumers (sy_rt s) ! i"
    have "consumer_ok dk (sy_log s) (sy_next s) (sy_done s) (rt_num (sy_rt s)) (\<lambda>p. passed (sy_pc s p)) (rt_rs (sy_rt s)) ?cs"
      using inv i by (simp add: sys_inv_def core_ok_def)
    then have cs: "active ?cs" "cs_skipped ?cs = []" by (auto simp: consumer_ok_def active_def)
    have "seqs_of (rt_rs (sy_rt s)) (cs_id ?cs) (gkey dk e) = []"
      if "\<not> (hb \<and> IsBlocked (rt_rs (sy_rt s)) (cs_id ?cs) (if hb then gkey dk e else []))"
      using that hb HasBlocked_queue [of "rt_rs (sy_rt s)"] by (auto simp: seqs_of_def queued_def IsBlocked_queue)
    with cs i show ?thesis
      by (auto simp: snap_ok_def sn snapshotConsumers_def snapshot_one_def gm_get0_def)
  qed
  then show "pc_ok dk (sy_log s) (sy_rt s) p (Snapped e es hb snaps)"
    using pc by (simp add: pc_ok_def sn snapshotConsumers_def)
qed (use k in \<open>auto simp: passed_def\<close>)

section \<open>The cursor update of a dispatch\<close>

lemma deliver_errs_length [simp]: "length (deliver_errs env e i sns) = length sns"
  by (induction sns arbitrary: i) auto

lemma deliver_errs_nth:
  "j < length sns \<Longrightarrow>
     deliver_errs env e i sns ! j = (if attempts_delivery env e (i + j) (sns ! j) then dv_deliver env (i + j) else None)"
  by (induction sns arbitrary: i j) (auto simp: nth_Cons split: nat.splits)

lemma core_done_mono:
  assumes "core_ok dk pf ids L nxt D B rt" "D \<subseteq> D'"
  shows "core_ok dk pf ids L nxt D' B rt"
proof -
  have "queues_ok dk pf L D' (rt_rs rt)"
    using assms queue_ok_mono unfolding core_ok_def queues_ok_def by blast
  moreover have "consumer_ok dk L nxt D' (rt_num rt) B (rt_rs rt) cs" if "cs \<in> set (rt_consumers rt)" for cs
    using assms that unfolding core_ok_def consumer_ok_def reached_ok_def by blast
  ultimately show ?thesis using assms(1) by (simp add: core_ok_def)
qed

lemma store_done_mono: "store_ok holds ids L D nxt st \<Longrightarrow> D \<subseteq> D' \<Longrightarrow> store_ok holds ids L D' nxt st"
  unfolding store_ok_def using save_ok_mono by blast

lemma fold_saveCursor_sel:
  "rt_consumers (fold (saveCursor save) svs rt) = rt_consumers rt" "rt_rs (fold (saveCursor save) svs rt) = rt_rs rt"
  "rt_num (fold (saveCursor save) svs rt) = rt_num rt"
  by (induction svs arbitrary: rt) (auto simp: saveCursor_def split: cursor_save.splits)

lemma frame_consumers: "frame p pf rt rt' \<Longrightarrow> map cs_consumer (rt_consumers rt') = map cs_consumer (rt_consumers rt)"
  by (auto simp: frame_def same_consumer_def intro!: nth_equalityI)

lemma frame_pc_ok:
  assumes "frame p pf rt rt'" "log_ok dk pf L nxt" "q \<noteq> p" "pc_ok dk L rt q k"
  shows "pc_ok dk L rt' q k"
proof -
  have F: "length (rt_consumers rt') = length (rt_consumers rt)" "rt_num rt' = rt_num rt"
    "\<And>i. i < length (rt_consumers rt) \<Longrightarrow> same_consumer p (rt_consumers rt ! i) (rt_consumers rt' ! i)"
    "\<And>c g. pf g \<noteq> p \<Longrightarrow> BlockedQueue (rt_rs rt') c g = BlockedQueue (rt_rs rt) c g"
    using assms(1) by (simp_all add: frame_def)
  have "snap_ok dk q e hb (rt_rs rt') (rt_consumers rt' ! i) sn"
    if "e \<in> set (L q)" "i < length (rt_consumers rt)" "snap_ok dk q e hb (rt_rs rt) (rt_consumers rt ! i) sn" for e hb i sn
  proof -
    have "pf (gkey dk e) = q" using assms(2) that(1) by (simp add: log_ok_def)
    then have "seqs_of (rt_rs rt') c (gkey dk e) = seqs_of (rt_rs rt) c (gkey dk e)" for c
      using assms(3) by (intro seqs_of_cong F(4)) simp
    with F(3) [OF that(2)] that(3) assms(3) show ?thesis
      by (simp add: snap_ok_def same_consumer_def same_consumer_id [OF F(3) [OF that(2)]])
  qed
  moreover have "e \<in> set (L q)" if "seg (e # es) (L q)" for e es using that by (auto dest: seg_mem)
  ultimately show ?thesis using assms(4) F(1,2) by (auto simp: pc_ok_def split: pc.splits)
qed

lemma frame_drain_ok: "frame p pf rt rt' \<Longrightarrow> drain_ok (rt_rs rt) d \<Longrightarrow> drain_ok (rt_rs rt') d"
proof -
  assume "frame p pf rt rt'" "drain_ok (rt_rs rt) d"
  moreover from this(1) have "\<forall>c g. \<exists>q2. BlockedQueue (rt_rs rt') c g = BlockedQueue (rt_rs rt) c g @ q2"
    by (simp add: frame_def)
  then have "BlockedQueue (rt_rs rt') c g \<noteq> [] \<and> hd (BlockedQueue (rt_rs rt') c g) = hd (BlockedQueue (rt_rs rt) c g)"
    if "BlockedQueue (rt_rs rt) c g \<noteq> []" for c g
    using that by (metis append_is_Nil_conv hd_append2)
  ultimately show ?thesis by (auto simp: drain_ok_def split: option.splits)
qed

text \<open>Phase 3 of a dispatch, for all consumers, on the invariant.\<close>

lemma apply_core:
  assumes core: "core_ok dk pf ids L nxt D B rt" and B: "\<And>x. B p x \<longleftrightarrow> x < le_seq e"
    and pc: "pc_ok dk L rt p (Snapped e es hb snaps)"
    and env: "\<And>i. \<not> dv_ctx env i" and errs: "errs = deliver_errs env e 0 snaps"
    and gk: "gk = (if hb \<or> list_ex (\<lambda>x. x \<noteq> None) errs then gkey dk e else [])"
  defines "D' \<equiv> D \<union> delivered_now env p e snaps"
  obtains rt' saves where
    "apply_loop um env p e gk 0 (zip snaps errs) (rt, []) = (rt', saves)" "frame p pf rt rt'"
    "core_ok dk pf ids L nxt D' (bound_upto p e B) rt'"
    "\<And>v. v \<in> set saves \<Longrightarrow> \<exists>c s. v = CursorSave c p s \<and> save_ok L D' nxt c p s"
proof -
  have core': "core_ok dk pf ids L nxt D' B rt" by (rule core_done_mono [OF core]) (simp add: D'_def)
  have p: "p < rt_num rt" and e: "e \<in> set (L p)" and len: "length snaps = length (rt_consumers rt)"
    and sok: "\<And>i. i < length snaps \<Longrightarrow> snap_ok dk p e hb (rt_rs rt) (rt_consumers rt ! i) (snaps ! i)"
    using pc by (auto simp: pc_ok_def dest: seg_mem)
  have le: "length errs = length snaps" by (simp add: errs)
  have log: "log_ok dk pf L nxt" and inv: "rs_inv pf (rt_rs rt)" "bounded pf nxt (rt_rs rt)" "queues_ok dk pf L D' (rt_rs rt)"
    and con: "map cs_consumer (rt_consumers rt) = map Some ids" and dis: "distinct ids"
    and cok: "\<And>i. i < length (rt_consumers rt) \<Longrightarrow> consumer_ok dk L nxt D' (rt_num rt) B (rt_rs rt) (rt_consumers rt ! i)"
    using core' by (simp_all add: core_ok_def)
  have del: "(cs_id (rt_consumers rt ! i), p, le_seq e) \<in> D'"
    if "i < length snaps" "\<not> sn_blocked (snaps ! i)" "\<not> le_seq e < sn_cursor (snaps ! i)" "errs ! i = None" for i
  proof -
    have c: "sn_consumer (snaps ! i) = cs_consumer (rt_consumers rt ! i)" "\<not> sn_skipped (snaps ! i)"
      using sok [OF that(1)] by (simp_all add: snap_ok_def)
    have "cs_consumer (rt_consumers rt ! i) \<noteq> None"
      using cok [of i] that(1) len by (simp add: consumer_ok_def)
    then obtain c where cc: "cs_consumer (rt_consumers rt ! i) = Some c" by auto
    have at: "attempts_delivery env e i (snaps ! i)" using c cc that env by (simp add: attempts_delivery_def)
    with that(1,4) have "dv_deliver env i = None" by (simp add: errs deliver_errs_nth)
    with at c cc that(1) show ?thesis by (auto simp: D'_def delivered_now_def cs_id_def)
  qed
  show thesis
  proof (rule apply_loop_ok [where B = B and D = D' and k = 0 and saves = "[]" and sns = "zip snaps errs" and hb = hb
        and n = "rt_num rt" and um = um and env = env and gk = gk, OF log e p B])
    show "distinct (map cs_id (rt_consumers rt))" using cs_ids [OF con] dis by simp
    fix rt' saves
    assume A: "apply_loop um env p e gk 0 (zip snaps errs) (rt, []) = (rt', saves)" "frame p pf rt rt'"
      "rs_inv pf (rt_rs rt')" "bounded pf nxt (rt_rs rt')" "queues_ok dk pf L D' (rt_rs rt')"
      "\<And>i. i < length (rt_consumers rt') \<Longrightarrow>
         consumer_ok dk L nxt D' (rt_num rt) (bound_upto p e B) (rt_rs rt') (rt_consumers rt' ! i)"
      "\<And>v. v \<in> set saves \<Longrightarrow> \<exists>c s. v = CursorSave c p s \<and> save_ok L D' nxt c p s"
    have n: "rt_num rt' = rt_num rt" using A(2) by (simp add: frame_def)
    have "core_ok dk pf ids L nxt D' (bound_upto p e B) rt'"
      using core' A(3-6) frame_consumers [OF A(2)] unfolding core_ok_def n by (auto simp: in_set_conv_nth)
    with A show thesis by (intro that [of rt' saves]) auto
  qed (use inv len le gk cok sok del in auto)
qed

section \<open>Draining\<close>

text \<open>Removing a done head keeps the core; the cursors and the log are untouched.\<close>

lemma pop_core:
  assumes core: "core_ok dk pf ids L nxt D B rt" and q: "queued (rt_rs rt) c g = h # q"
    and rs': "rs_inv pf rs'" "\<And>c' g'. queued rs' c' g' = (if c' = c \<and> g' = g then q else queued (rt_rs rt) c' g')"
    and D: "D \<subseteq> D'" "(c, pf g, le_seq h) \<in> D'"
  shows "core_ok dk pf ids L nxt D' B (rt\<lparr>rt_rs := rs'\<rparr>)"
proof -
  have core': "core_ok dk pf ids L nxt D' B rt" by (rule core_done_mono [OF core D(1)])
  have sub: "set (seqs_of rs' c' g') \<subseteq> set (seqs_of (rt_rs rt) c' g')" for c' g'
    by (auto simp: seqs_of_def rs' q)
  have "bounded pf nxt rs'" using core' sub unfolding core_ok_def bounded_def by blast
  moreover have "queues_ok dk pf L D' rs'"
  proof -
    have "queue_ok dk pf L D' c' g' (seqs_of rs' c' g')" for c' g'
    proof -
      have "queue_ok dk pf L D' c' g' (seqs_of (rt_rs rt) c' g')" using core' by (simp add: core_ok_def queues_ok_def)
      then show ?thesis
        using queue_ok_tl [of dk pf L D' c g "le_seq h" "map le_seq q" D'] D(2)
        by (auto simp: seqs_of_def rs' q)
    qed
    then show ?thesis by (simp add: queues_ok_def)
  qed
  moreover have "consumer_ok dk L nxt D' (rt_num rt) B rs' cs" if cs: "cs \<in> set (rt_consumers rt)" for cs
  proof -
    have log: "log_ok dk pf L nxt" using core by (simp add: core_ok_def)
    have "(cs_id cs, p, le_seq e) \<in> D' \<or> le_seq e \<in> set (seqs_of rs' (cs_id cs) (gkey dk e))"
      if "e \<in> set (L p)" "(cs_id cs, p, le_seq e) \<in> D' \<or> le_seq e \<in> set (seqs_of (rt_rs rt) (cs_id cs) (gkey dk e))" for e p
    proof -
      have "pf (gkey dk e) = p" using log that(1) by (simp add: log_ok_def)
      with that(2) D(2) q show ?thesis by (auto simp: seqs_of_def rs')
    qed
    moreover have "consumer_ok dk L nxt D' (rt_num rt) B (rt_rs rt) cs" using core' cs by (simp add: core_ok_def)
    ultimately show ?thesis unfolding consumer_ok_def reached_ok_def by blast
  qed
  ultimately show ?thesis using core' rs'(1) by (simp add: core_ok_def)
qed

lemma shrink_pc_ok:
  assumes "\<And>c g. seqs_of (rt_rs rt) c g = [] \<Longrightarrow> seqs_of rs' c g = []" "pc_ok dk L rt p k"
  shows "pc_ok dk L (rt\<lparr>rt_rs := rs'\<rparr>) p k"
  using assms by (auto simp: pc_ok_def snap_ok_def split: pc.splits)

text \<open>What is saved when a floor is released is safe.\<close>

lemma find_active_nth:
  "find_active c i css = Some j \<Longrightarrow> i \<le> j \<and> j - i < length css \<and> active (css ! (j - i)) \<and> cs_id (css ! (j - i)) = c"
proof (induction css arbitrary: i)
  case (Cons cs css)
  show ?case
  proof (cases "active cs \<and> cs_id cs = c")
    case False
    with Cons.prems have "find_active c (Suc i) css = Some j" by (auto split: if_splits)
    from Cons.IH [OF this] show ?thesis by (auto simp: Suc_diff_le nth_Cons' simp flip: diff_Suc_eq_diff_pred)
  qed (use Cons.prems in auto)
qed simp

lemma release_save_ok:
  assumes core: "core_ok dk pf ids L nxt D B rt" and p: "p < rt_num rt"
    and f: "find_active c 0 (rt_consumers rt) = Some i"
  shows "save_ok L D nxt c p (capped (rt_rs rt) c p (cursor_at (rt_consumers rt ! i) p))"
proof -
  have i: "i < length (rt_consumers rt)" "cs_id (rt_consumers rt ! i) = c" using find_active_nth [OF f] by auto
  then have ok: "consumer_ok dk L nxt D (rt_num rt) B (rt_rs rt) (rt_consumers rt ! i)"
    using core by (simp add: core_ok_def)
  have r: "reached_ok dk L D (rt_rs rt) c p (\<lambda>x. x < cursor_at (rt_consumers rt ! i) p)"
    by (rule reached_ok_mono [of _ _ _ _ _ _ "\<lambda>x. x < cursor_at (rt_consumers rt ! i) p \<or> B p x"])
      (use ok p i in \<open>auto simp: consumer_ok_def\<close>)
  show ?thesis
    by (rule capped_save_ok [OF _ _ _ r]) (use core ok p in \<open>auto simp: core_ok_def consumer_ok_def queues_ok_def\<close>)
qed

section \<open>Restart\<close>

lemma boot_consumers:
  "rt_consumers (fold (\<lambda>c. Register load c False) ids rt) =
     rt_consumers rt @ map (\<lambda>c. \<lparr>cs_consumer = Some c,
        cs_cursor = map (\<lambda>p. (p, case load (rt_store rt) c p of None \<Rightarrow> 1 | Some s \<Rightarrow> s)) (allPartitions (rt_num rt)),
        cs_removed = False, cs_batch = False, cs_provisional = [], cs_skipped = [], cs_streak = [], cs_streak_logged = [],
        cs_nodlq_logged = []\<rparr>) ids
   \<and> rt_num (fold (\<lambda>c. Register load c False) ids rt) = rt_num rt
   \<and> rt_store (fold (\<lambda>c. Register load c False) ids rt) = rt_store rt
   \<and> rt_rs (fold (\<lambda>c. Register load c False) ids rt) = rt_rs rt"
  by (induction ids arbitrary: rt) (simp_all add: Register_def Let_def)

lemma allPartitions_mem: "p < n \<Longrightarrow> p \<in> set (allPartitions n)"
  by (auto simp: allPartitions_def image_iff word_less_nat_alt intro!: bexI [of _ "unat p"])

lemma map_of_map_pair: "p \<in> set ps \<Longrightarrow> map_of (map (\<lambda>p. (p, f p)) ps) p = Some (f p)"
  by (induction ps) auto

lemma boot_core:
  assumes log: "log_ok dk pf L nxt" "\<And>p. \<not> p < n \<Longrightarrow> nxt p = 1" and ids: "distinct ids"
    and st: "\<And>c p s. c \<in> set ids \<Longrightarrow> load store c p = Some s \<Longrightarrow> s = 1 \<or> save_ok L D nxt c p s"
  shows "core_ok dk pf ids L nxt D (\<lambda>p x. False) (boot load dlq n ids store)"
proof -
  let ?rt = "boot load dlq n ids store"
  let ?cur = "\<lambda>c p. case load store c p of None \<Rightarrow> 1 | Some s \<Rightarrow> s"
  have rt: "rt_num ?rt = n" "rt_rs ?rt = NewRetryScheduler\<lparr>rs_on_floor_released := True, rs_dlq := dlq\<rparr>"
    "rt_consumers ?rt = map (\<lambda>c. \<lparr>cs_consumer = Some c, cs_cursor = map (\<lambda>p. (p, ?cur c p)) (allPartitions n),
        cs_removed = False, cs_batch = False, cs_provisional = [], cs_skipped = [], cs_streak = [], cs_streak_logged = [],
        cs_nodlq_logged = []\<rparr>) ids"
    by (simp_all add: boot_def boot_consumers NewRouter_def rs_SetDLQ_def Let_def)
  have q: "seqs_of (rt_rs ?rt) c g = []" for c g
    by (simp add: rt seqs_of_def queued_def BlockedQueue_def NewRetryScheduler_def)
  have inv: "rs_inv pf (rt_rs ?rt)" by (simp add: rt rs_inv_def NewRetryScheduler_def)
  have cur: "1 \<le> ?cur c p \<and> ?cur c p \<le> nxt p \<and> (\<forall>e \<in> set (L p). le_seq e < ?cur c p \<longrightarrow> (c, p, le_seq e) \<in> D)"
    if "c \<in> set ids" for c p
  proof -
    have one: "\<not> le_seq e < 1" if "e \<in> set (L p)" for e
      using log(1) that unfolding log_ok_def by (metis leD)
    have "?cur c p = 1 \<or> save_ok L D nxt c p (?cur c p)"
      using st [OF that] by (auto split: option.splits)
    with one log(1) show ?thesis by (auto simp: save_ok_def log_ok_def)
  qed
  have "consumer_ok dk L nxt D n (\<lambda>p x. False) (rt_rs ?rt) cs" if "cs \<in> set (rt_consumers ?rt)" for cs
    using that cur by (auto simp: rt(3) consumer_ok_def reached_ok_def cursor_at_def gm_get0_def map_of_map_pair
        allPartitions_mem cs_id_def)
  then show ?thesis
    using log ids inv q by (simp add: core_ok_def rt(1,3) bounded_def queues_ok_def queue_ok_def comp_def)
qed

section \<open>Every step keeps the invariant\<close>

lemma passed_Idle [simp]: "passed Idle = (\<lambda>x. False)"
  by (simp add: passed_def fun_eq_iff)

lemma core_ok_cong:
  assumes "rt_consumers rt' = rt_consumers rt" "rt_rs rt' = rt_rs rt" "rt_num rt' = rt_num rt"
  shows "core_ok dk pf ids L nxt D B rt' = core_ok dk pf ids L nxt D B rt" "pc_ok dk L rt' p k = pc_ok dk L rt p k"
  using assms by (simp_all add: core_ok_def pc_ok_def split: pc.splits)

lemma settles_pop:
  assumes "head_settled (rs_dlq rs) (de_deliver env) e (step_effects st)"
    and "queued (step_state st) c g = tl (queued rs c g)" "queued rs c g \<noteq> []"
  shows "settles rs env c g e st"
proof -
  have "tl (queued rs c g) \<noteq> queued rs c g" using assms(3) by (metis list.collapse not_Cons_self2)
  with assms(1,2) show ?thesis unfolding settles_def head_settled_def list_ex_iff by force
qed

context cursor_store
begin

lemma store_save:
  "store_ok holds ids L D nxt st \<Longrightarrow> save_ok L D nxt c p s \<Longrightarrow> store_ok holds ids L D nxt (try_save save okf c p s st)"
proof -
  assume st: "store_ok holds ids L D nxt st" and sv: "save_ok L D nxt c p s"
  have "x = s \<and> c' = c \<and> p' = p \<or> x \<in> holds st c' p'" if "x \<in> holds (save c p s st) c' p'" for x c' p'
    using holds_save [of c p s st c' p'] that by (auto split: if_splits)
  with st sv show ?thesis unfolding store_ok_def try_save_def by metis
qed

lemma store_saves:
  assumes "store_ok holds ids L D nxt (rt_store rt)"
    and "\<And>v. v \<in> set svs \<Longrightarrow> \<exists>c s. v = CursorSave c p s \<and> save_ok L D nxt c p s"
  shows "store_ok holds ids L D nxt (rt_store (fold (saveCursor (try_save save okf)) svs rt))"
  using assms
proof (induction svs arbitrary: rt)
  case (Cons v svs)
  from Cons.prems(2) [of v] obtain c s where v: "v = CursorSave c p s" "save_ok L D nxt c p s" by auto
  have "store_ok holds ids L D nxt (rt_store (saveCursor (try_save save okf) v rt))"
    using store_save [OF Cons.prems(1) v(2)] by (simp add: saveCursor_def v(1))
  with Cons show ?case by simp
qed simp

lemma update_step:
  assumes inv: "sys_inv dk pf holds ids s" and k: "sy_pc s p = Snapped e es hb snaps"
    and env: "\<And>i. \<not> dv_ctx env i" and errs: "errs = deliver_errs env e 0 snaps"
    and gk: "gk = (if hb \<or> list_ex (\<lambda>x. x \<noteq> None) errs then gkey dk e else [])"
  shows "sys_inv dk pf holds ids
     (s\<lparr>sy_rt := applyDispatchCursors um (try_save save okf) env p e gk snaps errs (sy_rt s),
        sy_pc := (sy_pc s)(p := Batch es), sy_done := sy_done s \<union> delivered_now env p e snaps\<rparr>)"
proof -
  let ?L = "sy_log s" and ?nxt = "sy_next s" and ?B = "\<lambda>p. passed (sy_pc s p)"
  let ?D = "sy_done s \<union> delivered_now env p e snaps"
  have core: "core_ok dk pf ids ?L ?nxt (sy_done s) ?B (sy_rt s)" and pcs: "\<And>q. pc_ok dk ?L (sy_rt s) q (sy_pc s q)"
    and st: "store_ok holds ids ?L (sy_done s) ?nxt (rt_store (sy_rt s))" and dr: "drain_ok (rt_rs (sy_rt s)) (sy_drain s)"
    using inv by (simp_all add: sys_inv_def)
  have log: "log_ok dk pf ?L ?nxt" using core by (simp add: core_ok_def)
  have pc: "pc_ok dk ?L (sy_rt s) p (Snapped e es hb snaps)" using pcs [of p] k by simp
  have B: "?B p x \<longleftrightarrow> x < le_seq e" for x by (simp add: k passed_def)
  obtain rt' saves where loop: "apply_loop um env p e gk 0 (zip snaps errs) (sy_rt s, []) = (rt', saves)"
    and fr: "frame p pf (sy_rt s) rt'" and core1: "core_ok dk pf ids ?L ?nxt ?D (bound_upto p e ?B) rt'"
    and sv: "\<And>v. v \<in> set saves \<Longrightarrow> \<exists>c s. v = CursorSave c p s \<and> save_ok ?L ?D ?nxt c p s"
    using apply_core [OF core B pc env errs gk, of um] by metis
  let ?rt = "applyDispatchCursors um (try_save save okf) env p e gk snaps errs (sy_rt s)"
  have rt: "?rt = fold (saveCursor (try_save save okf)) saves rt'" by (simp add: applyDispatchCursors_def loop)
  have sel: "rt_consumers ?rt = rt_consumers rt'" "rt_rs ?rt = rt_rs rt'" "rt_num ?rt = rt_num rt'"
    by (simp_all add: rt fold_saveCursor_sel)
  have "store_ok holds ids ?L ?D ?nxt (rt_store rt')"
    using store_done_mono [OF st, of ?D] fr by (simp add: frame_def)
  then have st': "store_ok holds ids ?L ?D ?nxt (rt_store ?rt)" unfolding rt by (rule store_saves) (rule sv)
  have seg: "p < rt_num (sy_rt s)" "seg (e # es) (?L p)" using pc by (simp_all add: pc_ok_def)
  have "core_ok dk pf ids ?L ?nxt ?D (\<lambda>q. passed (((sy_pc s)(p := Batch es)) q)) rt'"
  proof (rule core_ok_mono [OF core1], intro ballI impI disjI1)
    fix cs q x e'
    assume e': "e' \<in> set (?L q)" "le_seq e' = x" and b: "passed (((sy_pc s)(p := Batch es)) q) x"
    show "bound_upto p e ?B q x"
    proof (cases "q = p")
      case True
      with b obtain y ys where y: "es = y # ys" "x < le_seq y" by (auto simp: passed_def split: list.splits)
      have so: "sorted_wrt (<) (map le_seq (?L p))" using log by (simp add: log_ok_def)
      from seg_next [OF _ so, of e y ys e'] seg(2) y e' True show ?thesis by (simp add: bound_upto_def)
    next
      case False
      with b show ?thesis by (simp add: bound_upto_def)
    qed
  qed
  moreover have "pc_ok dk ?L rt' q (((sy_pc s)(p := Batch es)) q)" for q
    using seg seg_Cons fr frame_pc_ok [OF fr log _ pcs] by (cases "q = p") (auto simp: pc_ok_def frame_def)
  ultimately show ?thesis
    using st' frame_drain_ok [OF fr dr] sel by (simp add: sys_inv_def core_ok_cong [OF sel])
qed

lemma run_notes_ok:
  fixes okf :: "string \<Rightarrow> bool"
  assumes "core_ok dk pf ids L nxt D B rt" "p < rt_num rt" "store_ok holds ids L D nxt (rt_store rt)"
    and "\<And>n. EffFloor n \<in> set effs \<Longrightarrow> n = FloorNote c p (Floor (rt_rs rt) c p)"
  defines "rt' \<equiv> run_notes (try_save save okf) effs rt"
  shows "rt_consumers rt' = rt_consumers rt \<and> rt_rs rt' = rt_rs rt \<and> rt_num rt' = rt_num rt \<and>
    store_ok holds ids L D nxt (rt_store rt')"
  using assms(1-4) unfolding rt'_def
proof (induction effs arbitrary: rt)
  case (Cons x effs)
  let ?rt = "case x of EffFloor n \<Rightarrow> handleFloorRelease (try_save save okf) n rt | _ \<Rightarrow> rt"
  have one: "rt_consumers ?rt = rt_consumers rt \<and> rt_rs ?rt = rt_rs rt \<and> rt_num ?rt = rt_num rt \<and>
    store_ok holds ids L D nxt (rt_store ?rt)"
  proof (cases "\<exists>n. x = EffFloor n")
    case True
    with Cons.prems(4) have x: "x = EffFloor (FloorNote c p (Floor (rt_rs rt) c p))" by auto
    have "store_ok holds ids L D nxt (rt_store ?rt)"
      using release_save_ok [OF Cons.prems(1,2)] store_save Cons.prems(3)
      by (auto simp: x handleFloorRelease_def saveCursor_def Let_def capped_def [symmetric] split: option.splits)
    then show ?thesis by (simp add: x handleFloorRelease_def saveCursor_def Let_def split: option.splits)
  next
    case False
    with Cons.prems(3) show ?thesis by (cases x) auto
  qed
  have "core_ok dk pf ids L nxt D B ?rt" using Cons.prems(1) one core_ok_cong(1) [of ?rt rt] by auto
  with Cons.IH [of ?rt] Cons.prems one show ?case by (auto simp: run_notes_def)
qed (simp add: run_notes_def)

lemma drain_pick_step:
  assumes inv: "sys_inv dk pf holds ids s" and h: "drain_head now c g (rt_rs (sy_rt s)) = (rs, Some rec)"
  shows "sys_inv dk pf holds ids (s\<lparr>sy_rt := (sy_rt s)\<lparr>rt_rs := rs\<rparr>, sy_drain := Some (c, g, rec)\<rparr>)"
proof -
  have "rs = rt_rs (sy_rt s)" "\<exists>q. BlockedQueue rs c g = rec # q" using drain_head_Some [OF h] by auto
  with inv show ?thesis by (auto simp: sys_inv_def drain_ok_def)
qed

lemma drain_idle_step:
  assumes inv: "sys_inv dk pf holds ids s" and h: "drain_head now c g (rt_rs (sy_rt s)) = (rs, None)"
  shows "sys_inv dk pf holds ids (s\<lparr>sy_rt := (sy_rt s)\<lparr>rt_rs := rs\<rparr>\<rparr>)"
proof -
  have ri: "rs_inv pf (rt_rs (sy_rt s))" using inv by (simp add: sys_inv_def core_ok_def)
  note H = drain_head_None [OF ri h]
  have eq: "seqs_of rs c g = seqs_of (rt_rs (sy_rt s)) c g" for c g using H(2) by (intro seqs_of_cong)
  have "core_ok dk pf ids (sy_log s) (sy_next s) (sy_done s) (\<lambda>p. passed (sy_pc s p)) ((sy_rt s)\<lparr>rt_rs := rs\<rparr>)"
    using inv H(1) unfolding sys_inv_def core_ok_def bounded_def queues_ok_def consumer_ok_def reached_ok_def
    by (simp add: eq)
  moreover have "pc_ok dk (sy_log s) ((sy_rt s)\<lparr>rt_rs := rs\<rparr>) p (sy_pc s p)" for p
    using inv eq by (intro shrink_pc_ok) (auto simp: sys_inv_def)
  moreover have "drain_ok rs (sy_drain s)"
    using inv H(2) by (auto simp: sys_inv_def drain_ok_def split: option.splits)
  ultimately show ?thesis using inv by (simp add: sys_inv_def)
qed

lemma drain_outcome_step:
  assumes inv: "sys_inv dk pf holds ids s" and d: "sy_drain s = Some (c, g, rec)"
    and ap: "drain_apply marshal env c g rec (rt_rs (sy_rt s)) = Ret st"
    and se: "settled = (if settles (rt_rs (sy_rt s)) env c g (rr_entry rec) st then {(c, pf g, le_seq (rr_entry rec))} else {})"
  shows "sys_inv dk pf holds ids
     (s\<lparr>sy_rt := run_notes (try_save save okf) (step_effects st) ((sy_rt s)\<lparr>rt_rs := step_state st\<rparr>),
        sy_drain := None, sy_done := sy_done s \<union> settled\<rparr>)"
proof -
  let ?L = "sy_log s" and ?nxt = "sy_next s" and ?B = "\<lambda>p. passed (sy_pc s p)" and ?rs = "rt_rs (sy_rt s)"
  let ?D = "sy_done s \<union> settled" and ?rt = "(sy_rt s)\<lparr>rt_rs := step_state st\<rparr>"
  have core: "core_ok dk pf ids ?L ?nxt (sy_done s) ?B (sy_rt s)" and pcs: "\<And>q. pc_ok dk ?L (sy_rt s) q (sy_pc s q)"
    and st: "store_ok holds ids ?L (sy_done s) ?nxt (rt_store (sy_rt s))" and dr: "drain_ok ?rs (sy_drain s)"
    using inv by (simp_all add: sys_inv_def)
  have ri: "rs_inv pf ?rs" using core by (simp add: core_ok_def)
  obtain h q where q: "BlockedQueue ?rs c g = h # q" and he: "rr_entry h = rr_entry rec"
    using dr d by (cases "BlockedQueue ?rs c g") (auto simp: drain_ok_def)
  have pq: "pf g < rt_num (sy_rt s)"
  proof (rule ccontr)
    assume "\<not> pf g < rt_num (sy_rt s)"
    then have "?nxt (pf g) = 1" using core by (simp add: core_ok_def)
    moreover have "1 \<le> le_seq (rr_entry h) \<and> le_seq (rr_entry h) < ?nxt (pf g)"
      using core q unfolding core_ok_def bounded_def seqs_of_def queued_def by (metis list.set_intros(1) list.simps(9))
    ultimately show False by auto
  qed
  have fin: ?thesis
    if c2: "core_ok dk pf ids ?L ?nxt ?D ?B ?rt" and sub: "\<And>c g. seqs_of ?rs c g = [] \<Longrightarrow> seqs_of (step_state st) c g = []"
      and fl: "\<And>n. EffFloor n \<in> set (step_effects st) \<Longrightarrow> n = FloorNote c (pf g) (Floor (step_state st) c (pf g))"
  proof -
    have st2: "store_ok holds ids ?L ?D ?nxt (rt_store ?rt)" using store_done_mono [OF st, of ?D] by simp
    let ?rt2 = "run_notes (try_save save okf) (step_effects st) ?rt"
    have R: "rt_consumers ?rt2 = rt_consumers ?rt" "rt_rs ?rt2 = rt_rs ?rt" "rt_num ?rt2 = rt_num ?rt"
      "store_ok holds ids ?L ?D ?nxt (rt_store ?rt2)"
      using run_notes_ok [OF c2 _ st2, of "pf g" "step_effects st" c okf] pq fl by simp_all
    have "pc_ok dk ?L ?rt q (sy_pc s q)" for q using sub pcs by (intro shrink_pc_ok) auto
    with c2 R(4) show ?thesis by (simp add: sys_inv_def core_ok_cong [OF R(1-3)] drain_ok_def)
  qed
  show ?thesis
    using ri q ap
  proof (cases rule: drain_apply_cases)
    case keep
    have eq: "seqs_of (step_state st) c g = seqs_of ?rs c g" for c g using keep(2) by (simp add: seqs_of_def same_queues_def)
    have "core_ok dk pf ids ?L ?nxt ?D ?B (sy_rt s)" by (rule core_done_mono [OF core]) simp
    with keep(1) have "core_ok dk pf ids ?L ?nxt ?D ?B ?rt"
      unfolding core_ok_def bounded_def queues_ok_def consumer_ok_def reached_ok_def by (simp add: eq)
    with keep(5) eq show ?thesis by (intro fin) auto
  next
    case pop
    have qh: "queued ?rs c g = rr_entry h # map rr_entry q" by (simp add: queued_def q)
    have "settles ?rs env c g (rr_entry rec) st"
      using pop(2,3) qh he by (intro settles_pop) auto
    then have "(c, pf g, le_seq (rr_entry h)) \<in> ?D" by (simp add: se he)
    then have "core_ok dk pf ids ?L ?nxt ?D ?B ?rt"
      using pop(1,2) qh by (intro pop_core [OF core qh]) auto
    moreover have "seqs_of (step_state st) c' g' = []" if "seqs_of ?rs c' g' = []" for c' g'
      using that pop(2) [of c' g'] by (auto simp: seqs_of_def)
    ultimately show ?thesis using pop(7) by (intro fin) auto
  qed
qed

lemma restart_step:
  assumes "sys_inv dk pf holds ids s"
  shows "sys_inv dk pf holds ids
     (s\<lparr>sy_rt := boot (try_load load okl) dlq (rt_num (sy_rt s)) ids (rt_store (sy_rt s)), sy_pc := (\<lambda>_. Idle), sy_drain := None\<rparr>)"
proof -
  let ?rt = "boot (try_load load okl) dlq (rt_num (sy_rt s)) ids (rt_store (sy_rt s))"
  have "rt_store ?rt = rt_store (sy_rt s)" by (simp add: boot_def boot_consumers NewRouter_def Let_def)
  moreover have "core_ok dk pf ids (sy_log s) (sy_next s) (sy_done s) (\<lambda>p x. False) ?rt"
  proof (rule boot_core)
    fix c p x assume "c \<in> set ids" "try_load load okl (rt_store (sy_rt s)) c p = Some x"
    with assms load_holds [of "rt_store (sy_rt s)" c p x]
    show "x = 1 \<or> save_ok (sy_log s) (sy_done s) (sy_next s) c p x"
      unfolding sys_inv_def store_ok_def try_load_def by (auto split: if_splits)
  qed (use assms in \<open>auto simp: sys_inv_def core_ok_def\<close>)
  ultimately show ?thesis using assms by (simp add: sys_inv_def passed_def pc_ok_def drain_ok_def)
qed

lemma store_step:
  assumes "sys_inv dk pf holds ids s"
  shows "sys_inv dk pf holds ids (s\<lparr>sy_rt := (sy_rt s)\<lparr>rt_store := bg b (rt_store (sy_rt s))\<rparr>\<rparr>)"
proof -
  let ?rt = "(sy_rt s)\<lparr>rt_store := bg b (rt_store (sy_rt s))\<rparr>"
  have "store_ok holds ids (sy_log s) (sy_done s) (sy_next s) (rt_store ?rt)"
    using assms holds_bg [of b "rt_store (sy_rt s)"] unfolding sys_inv_def store_ok_def by fastforce
  with assms show ?thesis
    using core_ok_cong [of ?rt "sy_rt s"] by (simp add: sys_inv_def)
qed

theorem sys_step_inv:
  assumes "sys_step marshal unmarshal dk pf save load bg ids dlq s t" "sys_inv dk pf holds ids s"
  shows "sys_inv dk pf holds ids t"
  using assms
proof (cases rule: sys_step.cases)
  case batch_done
  then show ?thesis
    using pc_step [OF assms(2), of _ Idle] by (simp add: pc_ok_def passed_def)
next
  case (append p e)
  then show ?thesis using append_step [OF assms(2)] by simp
next
  case (read p es n)
  then show ?thesis using read_step [OF assms(2)] by simp
next
  case (snap p e es hb snaps)
  then show ?thesis using snap_step [OF assms(2)] by simp
next
  case (update p e es hb snaps env errs gk okf)
  then show ?thesis using update_step [OF assms(2), where okf = okf] by simp
next
  case (drain_pick now c g rs rec)
  then show ?thesis using drain_pick_step [OF assms(2)] by simp
next
  case (drain_idle now c g rs)
  then show ?thesis using drain_idle_step [OF assms(2)] by simp
next
  case (drain_outcome c g rec env st settled okf)
  then show ?thesis using drain_outcome_step [OF assms(2), where okf = okf] by simp
next
  case (restart okl)
  then show ?thesis using restart_step [OF assms(2), of okl] by simp
next
  case (store b)
  then show ?thesis using store_step [OF assms(2)] by simp
qed

theorem reachable_inv:
  assumes "reachable marshal unmarshal dk pf save load bg ids dlq (start load dlq n ids store) s"
    and "distinct ids" "\<And>c p. c \<in> set ids \<Longrightarrow> holds store c p = {}"
  shows "sys_inv dk pf holds ids s"
  using assms(1)
proof induction
  case start
  have "core_ok dk pf ids (\<lambda>_. []) (\<lambda>_. 1) {} (\<lambda>p x. False) (boot load dlq n ids store)"
    using assms(2,3) load_holds [of store] by (intro boot_core) (auto simp: log_ok_def, blast)
  moreover have "rt_store (boot load dlq n ids store) = store" by (simp add: boot_def boot_consumers NewRouter_def Let_def)
  ultimately show ?case
    using assms(3) by (simp add: sys_inv_def Delivery.start_def passed_def pc_ok_def drain_ok_def store_ok_def)
next
  case (step s t)
  then show ?case using sys_step_inv by blast
qed

text \<open>At-least-once: whatever the store still holds, durable or pending, everything below it is done.\<close>

theorem at_least_once:
  assumes "reachable marshal unmarshal dk pf save load bg ids dlq (start load dlq n ids store) s"
    and "distinct ids" "\<And>c p. c \<in> set ids \<Longrightarrow> holds store c p = {}"
    and "c \<in> set ids" "x \<in> holds (rt_store (sy_rt s)) c p" "e \<in> set (sy_log s p)" "le_seq e < x"
  shows "(c, p, le_seq e) \<in> sy_done s"
  using reachable_inv [OF assms(1-3)] assms(4-7) unfolding sys_inv_def store_ok_def save_ok_def by blast

text \<open>Nothing a consumer's cursor has passed is lost: it is done or waits in the retry queue of its group.\<close>

theorem passed_done_or_queued:
  assumes "reachable marshal unmarshal dk pf save load bg ids dlq (start load dlq n ids store) s"
    and "distinct ids" "\<And>c p. c \<in> set ids \<Longrightarrow> holds store c p = {}"
    and "cs \<in> set (rt_consumers (sy_rt s))" "p < rt_num (sy_rt s)" "e \<in> set (sy_log s p)" "le_seq e < cursor_at cs p"
  shows "(cs_id cs, p, le_seq e) \<in> sy_done s \<or>
    le_seq e \<in> le_seq ` set (queued (rt_rs (sy_rt s)) (cs_id cs) (gkey dk e))"
proof -
  have "consumer_ok dk (sy_log s) (sy_next s) (sy_done s) (rt_num (sy_rt s)) (\<lambda>p. passed (sy_pc s p)) (rt_rs (sy_rt s)) cs"
    using reachable_inv [OF assms(1-3)] assms(4) by (simp add: sys_inv_def core_ok_def)
  with assms(5-7) show ?thesis unfolding consumer_ok_def reached_ok_def seqs_of_def by auto
qed

end

section \<open>The code's loops run these steps\<close>

lemma run_notes_rs [simp]: "rt_rs (run_notes sv effs rt) = rt_rs rt"
  unfolding run_notes_def
  by (induction effs arbitrary: rt)
    (auto simp: handleFloorRelease_def saveCursor_def Let_def split: effect.splits option.splits)

text \<open>
  \<open>dispatch\<close> is the snapshot step followed by the update step: when the context is not
  cancelled and the grouping key decodes, running the whole of \<open>dispatch\<close> on the next entry of a
  batch reaches the router state that the two steps reach.
\<close>

theorem dispatch_refines:
  fixes bg :: "'op \<Rightarrow> 'st \<Rightarrow> 'st"
  assumes "sy_pc s p = Batch (e # es)" "GroupingKey dk e = Inr (gkey dk e)" "\<not> dv_ctx_end env" "\<And>i. \<not> dv_ctx env i"
  shows "\<exists>t u. sys_step marshal unmarshal dk pf save load bg ids dlq s t \<and>
    sys_step marshal unmarshal dk pf save load bg ids dlq t u \<and>
    sy_rt u = fst (dispatch unmarshal dk (try_save save okf) env p e (sy_rt s)) \<and> sy_pc u p = Batch es"
proof -
  let ?rt = "sy_rt s"
  let ?hb = "HasBlocked (rt_rs ?rt)"
  let ?snaps = "snapshotConsumers p (le_seq e) (if ?hb then gkey dk e else []) ?hb ?rt"
  let ?errs = "deliver_errs env e 0 ?snaps"
  let ?gk = "if ?hb \<or> list_ex (\<lambda>x. x \<noteq> None) ?errs then gkey dk e else []"
  let ?t = "s\<lparr>sy_pc := (sy_pc s)(p := Snapped e es ?hb ?snaps)\<rparr>"
  let ?u = "?t\<lparr>sy_rt := applyDispatchCursors unmarshal (try_save save okf) env p e ?gk ?snaps ?errs (sy_rt ?t),
     sy_pc := (sy_pc ?t)(p := Batch es), sy_done := sy_done ?t \<union> delivered_now env p e ?snaps\<rparr>"
  have "sys_step marshal unmarshal dk pf save load bg ids dlq s ?t"
    by (rule sys_step.snap [OF assms(1) refl refl])
  moreover have "sys_step marshal unmarshal dk pf save load bg ids dlq ?t ?u"
    by (rule sys_step.update [OF _ assms(3,4) refl refl]) simp
  moreover have "sy_rt ?u = fst (dispatch unmarshal dk (try_save save okf) env p e ?rt)"
    using assms(2,3) by (simp add: dispatch_def Let_def)
  ultimately show ?thesis by fastforce
qed

text \<open>
  \<open>drainGroup\<close> is a sequence of drain steps: whatever the environment does, a drain that
  returns leaves the scheduler in a state the step system reaches, with no head being drained.
\<close>

theorem drainGroup_refines:
  fixes bg :: "'op \<Rightarrow> 'st \<Rightarrow> 'st"
  assumes "sy_drain s = None" "drainGroup marshal envs c g (rt_rs (sy_rt s)) = Ret (rs', effs)"
  shows "\<exists>u. (sys_step marshal unmarshal dk pf save load bg ids dlq)\<^sup>*\<^sup>* s u \<and> rt_rs (sy_rt u) = rs' \<and> sy_drain u = None"
  using assms
proof (induction envs arbitrary: s effs)
  case Nil
  then show ?case by auto
next
  case (Cons env envs)
  let ?step = "sys_step marshal unmarshal dk pf save load bg ids dlq"
  obtain rs1 r where h: "drain_head (de_now env) c g (rt_rs (sy_rt s)) = (rs1, r)" by fastforce
  show ?case
  proof (cases r)
    case None
    with Cons.prems h have "rs' = rs1" by auto
    moreover have "?step s (s\<lparr>sy_rt := (sy_rt s)\<lparr>rt_rs := rs1\<rparr>\<rparr>)"
      using Cons.prems(1) h None by (intro sys_step.drain_idle) auto
    ultimately show ?thesis using Cons.prems(1) by (intro exI [of _ "s\<lparr>sy_rt := (sy_rt s)\<lparr>rt_rs := rs1\<rparr>\<rparr>"]) auto
  next
    case (Some rec)
    let ?t = "s\<lparr>sy_rt := (sy_rt s)\<lparr>rt_rs := rs1\<rparr>, sy_drain := Some (c, g, rec)\<rparr>"
    from Cons.prems(2) h Some obtain st where ap: "drain_apply marshal env c g rec rs1 = Ret st"
      by (auto split: go.splits)
    let ?u = "?t\<lparr>sy_rt := run_notes (try_save save (\<lambda>_. True)) (step_effects st) ((sy_rt ?t)\<lparr>rt_rs := step_state st\<rparr>),
       sy_drain := None,
       sy_done := sy_done ?t \<union> (if settles (rt_rs (sy_rt ?t)) env c g (rr_entry rec) st then {(c, pf g, le_seq (rr_entry rec))} else {})\<rparr>"
    have s1: "?step s ?t" by (rule sys_step.drain_pick [OF Cons.prems(1) h [unfolded Some]])
    have s2: "?step ?t ?u" by (rule sys_step.drain_outcome [OF _ _ refl]) (simp_all add: ap)
    have "\<exists>u. ?step\<^sup>*\<^sup>* s u \<and> rt_rs (sy_rt u) = step_state st \<and> sy_drain u = None"
    proof (intro exI conjI)
      show "?step\<^sup>*\<^sup>* s ?u"
        by (rule rtranclp.rtrancl_into_rtrancl [of ?step s ?t ?u], rule r_into_rtranclp [of ?step], rule s1, rule s2)
    qed simp_all
    then obtain u where u: "?step\<^sup>*\<^sup>* s u" "rt_rs (sy_rt u) = step_state st" "sy_drain u = None" by blast
    show ?thesis
    proof (cases st)
      case (DrainStop rs2 e2)
      with Cons.prems(2) h Some ap have "rs' = rs2" by auto
      with DrainStop u show ?thesis by auto
    next
      case (DrainGo rs2 e2)
      with Cons.prems(2) h Some ap obtain e3 where "drainGroup marshal envs c g rs2 = Ret (rs', e3)"
        by (auto split: go.splits)
      then have "\<exists>v. ?step\<^sup>*\<^sup>* u v \<and> rt_rs (sy_rt v) = rs' \<and> sy_drain v = None"
        using u DrainGo by (intro Cons.IH) auto
      then obtain v where v: "?step\<^sup>*\<^sup>* u v" "rt_rs (sy_rt v) = rs'" "sy_drain v = None" by blast
      from rtranclp_trans [of ?step, OF u(1) v(1)] v(2,3) show ?thesis by blast
    qed
  qed
qed

end
