(* ===== verification/Retry_Examples.thy ===== *)
theory Retry_Examples
  imports Retry_Scheduler
begin

text \<open>
  Small schedulers on which the properties of the retry scheduler are applied: one consumer
  with one blocked group of one or two records.
\<close>

definition ex_ev :: change_event where
  "ex_ev = \<lparr>ev_id = ''e'', ev_idempotency_key = ''k'', ev_timestamp = 0, ev_source = ''s'', ev_operation = OpInsert,
     ev_database = ''d'', ev_schema = ''public'', ev_table = ''t'', ev_key = Some ''1'', ev_before = None, ev_after = None,
     ev_metadata = [], ev_ai_context = None\<rparr>"

definition ex_rec :: "change_event option \<Rightarrow> u64 \<Rightarrow> retry_record" where
  "ex_rec ev s = \<lparr>rr_ref = unat s, rr_entry = \<lparr>le_seq = s, le_partition = 0, le_event = ev, le_raw = ''r''\<rparr>, rr_attempts = 0,
     rr_next_retry_at = 0, rr_consumer_id = ''c'', rr_last_err = None\<rparr>"

definition ex_rs :: "change_event option \<Rightarrow> retry_scheduler" where
  "ex_rs ev = AddBlocked ''c'' ''g'' (ex_rec ev 7) (rs_SetDLQ True NewRetryScheduler)"

definition ex_denv :: "go_error option \<Rightarrow> drain_env" where
  "ex_denv err = \<lparr>de_now = 1, de_deliver = err, de_now2 = 1, de_write = None, de_rnd = (\<lambda>_. 0)\<rparr>"

lemma ex_rs_reach: "rs_reach (\<lambda>_. None) (\<lambda>_. 0) (ex_rs ev)"
  unfolding ex_rs_def by (rule rs_reach.block [OF rs_reach.new]) (simp add: ex_rec_def)

lemma ex_rs_inv: "rs_inv (\<lambda>_. 0) (ex_rs ev)"
  by (rule rs_reach_inv [OF ex_rs_reach])

lemma ex_rs_queue: "BlockedQueue (ex_rs ev) ''c'' ''g'' = [ex_rec ev 7]"
  by (simp add: ex_rs_def BlockedQueue_AddBlocked) (simp add: BlockedQueue_def rs_SetDLQ_def NewRetryScheduler_def)

lemma ex_drain:
  "\<exists>rs' effs. drainGroup (\<lambda>_. None) [ex_denv None, ex_denv None] ''c'' ''g'' (ex_rs (Some ex_ev)) = Ret (rs', effs) \<and>
     \<not> IsBlocked rs' ''c'' ''g'' \<and> deliveries effs = queued (ex_rs (Some ex_ev)) ''c'' ''g''"
proof -
  have "\<exists>rs' effs. drainGroup (\<lambda>_. None) [ex_denv None, ex_denv None] ''c'' ''g'' (ex_rs (Some ex_ev)) = Ret (rs', effs) \<and>
     BlockedQueue rs' ''c'' ''g'' = [] \<and> deliveries effs = map rr_entry [ex_rec (Some ex_ev) 7]"
    by (rule drain_progress [OF ex_rs_inv ex_rs_queue]) (auto simp: ex_denv_def ex_rec_def less_Suc_eq)
  then show ?thesis by (auto simp: IsBlocked_queue queued_def ex_rs_queue)
qed

theorem drainGroup_accounts_witness:
  "\<exists>rs' effs. drainGroup (\<lambda>_. None) [ex_denv None, ex_denv None] ''c'' ''g'' (ex_rs (Some ex_ev)) = Ret (rs', effs) \<and>
     rs_inv (\<lambda>_. 0) rs' \<and>
     (\<exists>gone. queued (ex_rs (Some ex_ev)) ''c'' ''g'' = gone @ queued rs' ''c'' ''g'' \<and>
        (\<forall>e \<in> set gone. accounted (rs_dlq (ex_rs (Some ex_ev))) ''c'' effs e))"
proof -
  obtain rs' effs where d: "drainGroup (\<lambda>_. None) [ex_denv None, ex_denv None] ''c'' ''g'' (ex_rs (Some ex_ev)) = Ret (rs', effs)"
    using ex_drain by blast
  from drainGroup_accounts [OF ex_rs_inv d] d show ?thesis by blast
qed

theorem drainGroup_drains_witness:
  "\<exists>rs' effs. drainGroup (\<lambda>_. None) [ex_denv None, ex_denv None] ''c'' ''g'' (ex_rs (Some ex_ev)) = Ret (rs', effs) \<and>
     \<not> IsBlocked rs' ''c'' ''g'' \<and> deliveries effs = queued (ex_rs (Some ex_ev)) ''c'' ''g''"
  by (rule drainGroup_drains [OF ex_rs_inv]) (auto simp: ex_rs_queue ex_denv_def ex_rec_def less_Suc_eq)


theorem drainGroup_no_panic_witness:
  "map le_event (queued (ex_rs (Some ex_ev)) ''c'' ''g'') = [Some ex_ev] \<and>
   drainGroup (\<lambda>_. None) [ex_denv (Some ErrClosedPipe)] ''c'' ''g'' (ex_rs (Some ex_ev)) \<noteq> Panic"
  using drainGroup_no_panic [OF ex_rs_inv, of "Some ex_ev" "''c''" "''g''"]
  by (simp add: queued_def ex_rs_queue ex_rec_def del: drainGroup.simps)

theorem undecoded_head_panics_witness:
  "rs_dlq (ex_rs None) \<and> isPermanentError (Some ErrClosedPipe) \<and>
   drainGroup (\<lambda>_. None) [ex_denv (Some ErrClosedPipe)] ''c'' ''g'' (ex_rs None) = Panic"
proof -
  have d: "rs_dlq (ex_rs None)" by (simp add: ex_rs_def rs_SetDLQ_def)
  have p: "isPermanentError (Some ErrClosedPipe)" by (simp add: isPermanentError_def)
  have "drainGroup (\<lambda>_. None) (ex_denv (Some ErrClosedPipe) # []) ''c'' ''g'' (ex_rs None) = Panic"
    by (rule undecoded_head_panics [OF d ex_rs_queue]) (use p in \<open>simp_all add: ex_rec_def ex_denv_def\<close>)
  with d p show ?thesis by simp
qed

end
