(* ===== verification/Eventlog_Keys.thy ===== *)
theory Eventlog_Keys
  imports Kaptanto_Prelude
begin

text \<open>
  The key layout of the embedded event store (\<open>internal/eventlog/keys.go\<close>): partition
  entry keys, the scan prefix, the dedup index keys and the dedup value. The theorems are
  the codec's contract: round trip, prefix membership, and that the byte order of keys is
  the numeric order of (partition, sequence), which makes a forward scan of the store an
  ascending read of a partition.
\<close>

section \<open>Big-endian integers\<close>

text \<open>
  \<open>binary.BigEndian.PutUint32/64\<close> writes the most significant byte first; byte \<open>k\<close> is
  \<open>byte(v >> 8k)\<close>. \<open>be_bytes n v\<close> is that for an \<open>n\<close>-byte integer, \<open>be_nat\<close> its inverse.
\<close>

fun be_bytes :: "nat \<Rightarrow> nat \<Rightarrow> bytes" where
  "be_bytes 0 v = []"
| "be_bytes (Suc n) v = word_of_nat (v div 256 ^ n) # be_bytes n v"

fun be_nat :: "bytes \<Rightarrow> nat" where
  "be_nat [] = 0"
| "be_nat (b # bs) = unat b * 256 ^ length bs + be_nat bs"

definition put_u32 :: "u32 \<Rightarrow> bytes" where
  "put_u32 v = be_bytes 4 (unat v)"

definition put_u64 :: "u64 \<Rightarrow> bytes" where
  "put_u64 v = be_bytes 8 (unat v)"

text \<open>\<open>bytes.Compare(a, b) < 0\<close>: the order in which the store keeps its keys.\<close>

fun bytes_less :: "bytes \<Rightarrow> bytes \<Rightarrow> bool" where
  "bytes_less _ [] = False"
| "bytes_less [] (_ # _) = True"
| "bytes_less (a # as) (b # bs) = (a < b \<or> (a = b \<and> bytes_less as bs))"

fun has_prefix :: "bytes \<Rightarrow> bytes \<Rightarrow> bool" where
  "has_prefix _ [] = True"
| "has_prefix [] (_ # _) = False"
| "has_prefix (a # as) (p # ps) = (a = p \<and> has_prefix as ps)"

section \<open>Keys\<close>

definition prefixPart :: byte where "prefixPart = 0x50"
definition sepSeq :: byte where "sepSeq = 0x53"
definition prefixDedup :: byte where "prefixDedup = 0x44"
definition prefixDedupHash :: byte where "prefixDedupHash = 0x48"
definition maxBadgerKeyLen :: nat where "maxBadgerKeyLen = 65000"

definition encodePartKey :: "u32 \<Rightarrow> u64 \<Rightarrow> bytes" where
  "encodePartKey part seq = prefixPart # put_u32 part @ sepSeq # put_u64 seq"

definition encodePartPrefix :: "u32 \<Rightarrow> bytes" where
  "encodePartPrefix part = prefixPart # put_u32 part"

definition encodeDedupKey :: "bytes \<Rightarrow> bytes" where
  "encodeDedupKey idempotencyKey = prefixDedup # idempotencyKey"

text \<open>\<open>crypto/sha256\<close> is the parameter \<open>sha256\<close>.\<close>

definition dedupIndexKey :: "(bytes \<Rightarrow> bytes) \<Rightarrow> bytes \<Rightarrow> bytes" where
  "dedupIndexKey sha256 idempotencyKey =
     (if length idempotencyKey < maxBadgerKeyLen then encodeDedupKey idempotencyKey
      else prefixDedupHash # sha256 idempotencyKey)"

definition encodePartSeq :: "u32 \<Rightarrow> u64 \<Rightarrow> bytes" where
  "encodePartSeq part seq = put_u32 part @ put_u64 seq"

text \<open>\<open>decodePartKey\<close> slices \<open>key[1:5]\<close> and \<open>key[6:14]\<close>: it panics on a shorter key.\<close>

definition decodePartKey :: "bytes \<Rightarrow> (u32 \<times> u64) go" where
  "decodePartKey key =
     (if length key < 14 then Panic
      else Ret (word_of_nat (be_nat (take 4 (drop 1 key))),
                word_of_nat (be_nat (take 8 (drop 6 key)))))"

lemmas key_defs = encodePartKey_def encodePartPrefix_def encodeDedupKey_def dedupIndexKey_def
  encodePartSeq_def decodePartKey_def put_u32_def put_u64_def
lemmas key_consts = prefixPart_def sepSeq_def prefixDedup_def prefixDedupHash_def

section \<open>The integer codec\<close>

lemma length_be_bytes [simp]: "length (be_bytes n v) = n"
  by (induction n) auto

lemma length_put [simp]: "length (put_u32 p) = 4" "length (put_u64 s) = 8"
  by (simp_all add: put_u32_def put_u64_def)

lemma be_bytes_mod: "m \<le> n \<Longrightarrow> be_bytes m (v mod 256 ^ n) = be_bytes m v"
proof (induction m)
  case (Suc m)
  have "v mod 256 ^ n div 256 ^ m mod 256 = v div 256 ^ m mod 256"
  proof -
    from Suc.prems obtain k where n: "n = m + Suc k"
      by (metis add.commute add_Suc_right le_iff_add plus_1_eq_Suc add.assoc)
    have "(256::nat) ^ n = 256 ^ m * 256 ^ Suc k" by (simp add: n power_add)
    then have "v mod 256 ^ n div 256 ^ m = (v div 256 ^ m) mod 256 ^ Suc k"
      by (simp add: mod_mult2_eq)
    then show ?thesis
      by (simp add: mod_mod_cancel)
  qed
  then have "(word_of_nat (v mod 256 ^ n div 256 ^ m) :: byte) = word_of_nat (v div 256 ^ m)"
    by (simp add: word_of_nat_eq_iff take_bit_eq_mod)
  with Suc show ?case by simp
qed simp

lemma be_nat_be_bytes: "be_nat (be_bytes n v) = v mod 256 ^ n"
proof (induction n)
  case (Suc n)
  have "be_nat (be_bytes (Suc n) v) = (v div 256 ^ n mod 256) * 256 ^ n + v mod 256 ^ n"
    using Suc by (simp add: unsigned_of_nat take_bit_eq_mod)
  also have "\<dots> = v mod (256 ^ n * 256)"
    by (simp add: mod_mult2_eq)
  finally show ?case by (simp add: mult.commute)
qed simp

lemma be_nat_put [simp]: "be_nat (put_u32 p) = unat p" "be_nat (put_u64 s) = unat s"
  using unsigned_less [of p, where ?'a = nat] unsigned_less [of s, where ?'a = nat]
  by (simp_all add: put_u32_def put_u64_def be_nat_be_bytes)

lemma bytes_less_append:
  "length a = length b \<Longrightarrow> bytes_less (a @ as) (b @ bs) \<longleftrightarrow>
     bytes_less a b \<or> (a = b \<and> bytes_less as bs)"
  by (induction a b rule: list_induct2) auto

lemma bytes_less_be_nat: "length a = length b \<Longrightarrow> bytes_less a b \<longleftrightarrow> be_nat a < be_nat b"
proof (induction a b rule: list_induct2)
  case (Cons x xs y ys)
  have bx: "be_nat zs < 256 ^ length zs" for zs
  proof (induction zs)
    case (Cons z zs)
    have "unat z \<le> 255" using unsigned_less [of z, where ?'a = nat] by simp
    then have "unat z * 256 ^ length zs \<le> 255 * 256 ^ length zs" by (rule mult_le_mono1)
    with Cons have "unat z * 256 ^ length zs + be_nat zs < 256 * 256 ^ length zs" by linarith
    then show ?case by simp
  qed simp
  have lt: "unat u * 256 ^ length xs + c < unat w * 256 ^ length xs + d"
    if "u < w" "c < 256 ^ length xs" for u w :: byte and c d
  proof -
    from that(1) have "Suc (unat u) * 256 ^ length xs \<le> unat w * 256 ^ length xs"
      by (intro mult_le_mono1) (simp add: word_less_nat_alt)
    with that(2) show ?thesis by simp
  qed
  have "x < y \<or> x = y \<or> y < x" by auto
  then show ?case
    using Cons lt [of x y "be_nat xs" "be_nat ys"] lt [of y x "be_nat ys" "be_nat xs"]
      bx [of xs] bx [of ys] by auto
qed simp

lemma bytes_less_put [simp]:
  "bytes_less (put_u32 p) (put_u32 q) \<longleftrightarrow> p < q"
  "bytes_less (put_u64 s) (put_u64 t) \<longleftrightarrow> s < t"
  by (simp_all add: bytes_less_be_nat word_less_nat_alt)

lemma put_inject [simp]: "put_u32 p = put_u32 q \<longleftrightarrow> p = q" "put_u64 s = put_u64 t \<longleftrightarrow> s = t"
  by (metis be_nat_put word_unat_eq_iff)+

lemma has_prefix_conv: "has_prefix xs ps \<longleftrightarrow> take (length ps) xs = ps"
  by (induction xs ps rule: has_prefix.induct) auto

lemma decode_encode: "decodePartKey (encodePartKey part seq) = Ret (part, seq)"
proof -
  have "take 4 (drop 1 (encodePartKey part seq)) = put_u32 part"
    by (simp add: encodePartKey_def)
  moreover have "take 8 (drop 6 (encodePartKey part seq)) = put_u64 seq"
    by (simp add: encodePartKey_def drop_Cons')
  moreover have "length (encodePartKey part seq) = 14"
    by (simp add: encodePartKey_def)
  ultimately show ?thesis
    by (simp add: decodePartKey_def)
qed

lemma key_order:
  "bytes_less (encodePartKey p s) (encodePartKey q t) \<longleftrightarrow> p < q \<or> (p = q \<and> s < t)"
  by (simp add: encodePartKey_def bytes_less_append)

section \<open>Properties\<close>

text \<open>Decoding an encoded partition key returns the partition and the sequence number.\<close>

theorem decodePartKey_encodePartKey:
  "decodePartKey (encodePartKey part seq) = Ret (part, seq) \<and> length (encodePartKey part seq) = 14"
  using decode_encode by (simp add: encodePartKey_def)

text \<open>
  Keys sort in the byte order of the store exactly as their (partition, sequence) pairs
  sort numerically, and a key carries the scan prefix of its own partition only, so a forward
  prefix scan meets exactly a partition's entries in ascending sequence order.
\<close>

theorem encodePartKey_order:
  "(bytes_less (encodePartKey p s) (encodePartKey q t) \<longleftrightarrow> p < q \<or> (p = q \<and> s < t)) \<and>
   (has_prefix (encodePartKey p s) (encodePartPrefix q) \<longleftrightarrow> p = q)"
  by (intro conjI key_order) (simp add: has_prefix_conv encodePartKey_def encodePartPrefix_def)

end
