(* ===== verification/Eventlog_Store.thy ===== *)
theory Eventlog_Store
  imports Change_Event Eventlog_Keys
begin

text \<open>
  The durable event log (\<open>internal/eventlog/badger.go\<close>): partitioning, \<open>Append\<close>,
  \<open>AppendBatch\<close> with its transaction chunking, \<open>ReadPartition\<close>, notify channels and append
  observers. The Badger database is a third-party package and enters as the parameter
  \<open>bg\<close> (a record of its operations); \<open>badger_ok\<close> collects the documented behaviour the code
  relies on. Retention expiry is not modelled: \<open>view\<close> is the live content of the store.
\<close>

section \<open>The database the log is built on\<close>

datatype get_result = Found | KeyNotFound | GetErr

record 'db badger =
  bg_get :: "'db \<Rightarrow> bytes \<Rightarrow> get_result"
  bg_set :: "'db \<Rightarrow> bytes \<Rightarrow> bytes \<Rightarrow> int \<Rightarrow> 'db option"
  bg_commit :: "'db \<Rightarrow> 'db \<Rightarrow> 'db option"
  bg_next :: "'db \<Rightarrow> u32 \<Rightarrow> 'db \<times> u64 option"
  bg_scan :: "'db \<Rightarrow> bytes \<Rightarrow> bytes \<Rightarrow> (bytes \<times> bytes option) list"
  bg_max_size :: "'db \<Rightarrow> int"
  bg_max_count :: "'db \<Rightarrow> int"

datatype log_error = MarshalErr | SeqErr | DedupErr | SetErr | CommitErr | TooBigErr
  | ValueErr | CancelledErr

text \<open>\<open>db.Update(fn)\<close>: run \<open>fn\<close> in a transaction, commit when it returns nil, else discard.\<close>

definition bg_update ::
  "'db badger \<Rightarrow> ('db \<Rightarrow> log_error + 'db \<times> 'a) \<Rightarrow> 'db \<Rightarrow> log_error + 'db \<times> 'a" where
  "bg_update bg f db =
     (case f db of
        Inl e \<Rightarrow> Inl e
      | Inr (txn, x) \<Rightarrow>
          (case bg_commit bg db txn of None \<Rightarrow> Inl CommitErr | Some db' \<Rightarrow> Inr (db', x)))"

section \<open>Partitioning\<close>

text \<open>\<open>hash/fnv\<close> 32-bit FNV-1a; \<open>%\<close> by zero panics.\<close>

definition fnv32a :: "bytes \<Rightarrow> u32" where
  "fnv32a bs = fold (\<lambda>b h. xor h (ucast b) * 16777619) bs 2166136261"

definition PartitionOf :: "bytes \<Rightarrow> u32 \<Rightarrow> u32 go" where
  "PartitionOf groupingKey numPartitions =
     (if numPartitions = 0 then Panic else Ret (fnv32a groupingKey mod numPartitions))"

section \<open>State\<close>

text \<open>
  \<open>el_pending\<close> holds the partitions whose depth-1 notify channel has a pending signal;
  \<open>el_observers\<close> the registered observer ids; \<open>el_calls\<close> the trace of \<open>ObserveAppend\<close> calls.
\<close>

record 'db evlog =
  el_db :: 'db
  el_num :: u32
  el_retention :: int
  el_pending :: "u32 list"
  el_observers :: "nat list"
  el_next_obs :: nat
  el_calls :: "(nat \<times> (change_event \<times> u64) list) list"

definition RegisterObserver :: "'db evlog \<Rightarrow> nat \<times> 'db evlog" where
  "RegisterObserver el =
     (el_next_obs el,
      el\<lparr>el_next_obs := Suc (el_next_obs el), el_observers := el_observers el @ [el_next_obs el]\<rparr>)"

definition UnregisterObserver :: "nat \<Rightarrow> 'db evlog \<Rightarrow> 'db evlog" where
  "UnregisterObserver i el = el\<lparr>el_observers := removeAll i (el_observers el)\<rparr>"

definition notifyObservers :: "(change_event \<times> u64) list \<Rightarrow> 'db evlog \<Rightarrow> 'db evlog" where
  "notifyObservers evs el =
     (if evs = [] then el
      else el\<lparr>el_calls := el_calls el @ map (\<lambda>ob. (ob, evs)) (el_observers el)\<rparr>)"

definition notify :: "u32 \<Rightarrow> 'db evlog \<Rightarrow> 'db evlog" where
  "notify p el = (if p \<in> set (el_pending el) then el else el\<lparr>el_pending := p # el_pending el\<rparr>)"

section \<open>Append\<close>

text \<open>The body of the write transaction, shared by \<open>Append\<close> and \<open>commitChunk\<close>: \<open>True\<close> when written.\<close>

definition write_event ::
  "'db badger \<Rightarrow> int \<Rightarrow> u32 \<Rightarrow> u64 \<Rightarrow> bytes \<Rightarrow> bytes \<Rightarrow> 'db \<Rightarrow> log_error + 'db \<times> bool" where
  "write_event bg retention part seq val dedupKey txn =
     (case bg_get bg txn dedupKey of
        Found \<Rightarrow> Inr (txn, False)
      | GetErr \<Rightarrow> Inl DedupErr
      | KeyNotFound \<Rightarrow>
          (case bg_set bg txn (encodePartKey part seq) val retention of
             None \<Rightarrow> Inl SetErr
           | Some txn1 \<Rightarrow>
               (case bg_set bg txn1 dedupKey (encodePartSeq part seq) retention of
                  None \<Rightarrow> Inl SetErr
                | Some txn2 \<Rightarrow> Inr (txn2, True))))"

definition Append ::
  "'db badger \<Rightarrow> (change_event \<Rightarrow> string option) \<Rightarrow> (bytes \<Rightarrow> bytes) \<Rightarrow> 'db evlog \<Rightarrow> change_event
     \<Rightarrow> ((log_error + u64) \<times> 'db evlog) go" where
  "Append bg marshal sha256 el ev =
     (case PartitionOf (str_bytes (raw_str (ev_key ev))) (el_num el) of
        Panic \<Rightarrow> Panic
      | Ret part \<Rightarrow> Ret
         (case marshal ev of
            None \<Rightarrow> (Inl MarshalErr, el)
          | Some val \<Rightarrow>
              (case bg_next bg (el_db el) part of
                 (db1, None) \<Rightarrow> (Inl SeqErr, el\<lparr>el_db := db1\<rparr>)
               | (db1, Some seq) \<Rightarrow>
                   (case bg_update bg
                           (write_event bg (el_retention el) part seq (str_bytes val)
                              (dedupIndexKey sha256 (str_bytes (ev_idempotency_key ev)))) db1 of
                      Inl e \<Rightarrow> (Inl e, el\<lparr>el_db := db1\<rparr>)
                    | Inr (db2, False) \<Rightarrow> (Inr 0, el\<lparr>el_db := db2\<rparr>)
                    | Inr (db2, True) \<Rightarrow>
                        (Inr seq, notifyObservers [(ev, seq)] (notify part (el\<lparr>el_db := db2\<rparr>)))))))"

section \<open>AppendBatch\<close>

record prepared =
  pe_partition :: u32
  pe_val :: bytes
  pe_dedupKey :: bytes
  pe_seq :: u64

text \<open>Phase 1: marshal and lease a sequence number per event, stopping at the first error.\<close>

fun prepare_items ::
  "'db badger \<Rightarrow> (change_event \<Rightarrow> string option) \<Rightarrow> (bytes \<Rightarrow> bytes) \<Rightarrow> u32 \<Rightarrow> change_event list \<Rightarrow> 'db
     \<Rightarrow> ((log_error + prepared list) \<times> 'db) go" where
  "prepare_items bg marshal sha256 n [] db = Ret (Inr [], db)"
| "prepare_items bg marshal sha256 n (ev # evs) db =
     (case PartitionOf (str_bytes (raw_str (ev_key ev))) n of
        Panic \<Rightarrow> Panic
      | Ret part \<Rightarrow>
          (case marshal ev of
             None \<Rightarrow> Ret (Inl MarshalErr, db)
           | Some val \<Rightarrow>
               (case bg_next bg db part of
                  (db1, None) \<Rightarrow> Ret (Inl SeqErr, db1)
                | (db1, Some seq) \<Rightarrow>
                    (case prepare_items bg marshal sha256 n evs db1 of
                       Panic \<Rightarrow> Panic
                     | Ret (Inl e, db2) \<Rightarrow> Ret (Inl e, db2)
                     | Ret (Inr items, db2) \<Rightarrow>
                         Ret (Inr (\<lparr>pe_partition = part, pe_val = str_bytes val,
                                    pe_dedupKey = dedupIndexKey sha256 (str_bytes (ev_idempotency_key ev)),
                                    pe_seq = seq\<rparr> # items), db2)))))"

definition item_size :: "prepared \<Rightarrow> int" where
  "item_size it = int (length (pe_val it) + length (pe_dedupKey it) +
     length (encodePartKey (pe_partition it) (pe_seq it)) +
     length (encodePartSeq (pe_partition it) (pe_seq it)))"

text \<open>The loop of \<open>chunkRanges\<close>; \<open>i\<close> is the loop index, \<open>start\<close>, \<open>size\<close>, \<open>count\<close> its variables.\<close>

fun chunk_loop ::
  "int \<Rightarrow> int \<Rightarrow> nat \<Rightarrow> nat \<Rightarrow> int \<Rightarrow> int \<Rightarrow> prepared list \<Rightarrow> (nat \<times> nat) list" where
  "chunk_loop maxSize maxCount i start sz cnt [] = (if start < i then [(start, i)] else [])"
| "chunk_loop maxSize maxCount i start sz cnt (it # its) =
     (if start < i \<and> (sz + item_size it > maxSize \<or> cnt + 2 > maxCount)
      then (start, i) # chunk_loop maxSize maxCount (Suc i) i (item_size it) 2 its
      else chunk_loop maxSize maxCount (Suc i) start (sz + item_size it) (cnt + 2) its)"

definition half_budget :: "int \<Rightarrow> int" where
  "half_budget m = (let h = (if m < 0 then - ((- m) div 2) else m div 2) in if h \<le> 0 then 1 else h)"

definition chunkRanges :: "'db badger \<Rightarrow> 'db \<Rightarrow> prepared list \<Rightarrow> (nat \<times> nat) list" where
  "chunkRanges bg db items =
     (if items = [] then []
      else chunk_loop (half_budget (bg_max_size bg db)) (half_budget (bg_max_count bg db)) 0 0 0 0 items)"

text \<open>The transaction body of \<open>commitChunk\<close> over the items of one chunk; it yields one sequence per item.\<close>

fun commit_items ::
  "'db badger \<Rightarrow> int \<Rightarrow> int \<Rightarrow> prepared list \<Rightarrow> 'db \<Rightarrow> log_error + 'db \<times> u64 list" where
  "commit_items bg retention hardMax [] txn = Inr (txn, [])"
| "commit_items bg retention hardMax (it # its) txn =
     (if item_size it > hardMax then Inl TooBigErr
      else case write_event bg retention (pe_partition it) (pe_seq it) (pe_val it) (pe_dedupKey it) txn of
             Inl e \<Rightarrow> Inl e
           | Inr (txn1, written) \<Rightarrow>
               (case commit_items bg retention hardMax its txn1 of
                  Inl e \<Rightarrow> Inl e
                | Inr (txn2, seqs) \<Rightarrow> Inr (txn2, (if written then pe_seq it else 0) # seqs)))"

definition commitChunk ::
  "'db badger \<Rightarrow> int \<Rightarrow> prepared list \<Rightarrow> nat \<Rightarrow> nat \<Rightarrow> 'db \<Rightarrow> log_error + 'db \<times> u64 list" where
  "commitChunk bg retention items start stop db =
     bg_update bg (commit_items bg retention (bg_max_size bg db) (take (stop - start) (drop start items))) db"

fun commit_ranges ::
  "'db badger \<Rightarrow> int \<Rightarrow> prepared list \<Rightarrow> (nat \<times> nat) list \<Rightarrow> 'db \<Rightarrow> (log_error + u64 list) \<times> 'db" where
  "commit_ranges bg retention items [] db = (Inr [], db)"
| "commit_ranges bg retention items ((start, stop) # rs) db =
     (case commitChunk bg retention items start stop db of
        Inl e \<Rightarrow> (Inl e, db)
      | Inr (db1, seqs) \<Rightarrow>
          (case commit_ranges bg retention items rs db1 of
             (Inl e, db2) \<Rightarrow> (Inl e, db2)
           | (Inr seqs', db2) \<Rightarrow> (Inr (seqs @ seqs'), db2)))"

definition AppendBatch ::
  "'db badger \<Rightarrow> (change_event \<Rightarrow> string option) \<Rightarrow> (bytes \<Rightarrow> bytes) \<Rightarrow> 'db evlog \<Rightarrow> change_event list
     \<Rightarrow> ((log_error + u64 list) \<times> 'db evlog) go" where
  "AppendBatch bg marshal sha256 el evs =
     (if evs = [] then Ret (Inr [], el)
      else case prepare_items bg marshal sha256 (el_num el) evs (el_db el) of
             Panic \<Rightarrow> Panic
           | Ret (Inl e, db1) \<Rightarrow> Ret (Inl e, el\<lparr>el_db := db1\<rparr>)
           | Ret (Inr items, db1) \<Rightarrow>
               (case commit_ranges bg (el_retention el) items (chunkRanges bg db1 items) db1 of
                  (Inl e, db2) \<Rightarrow> Ret (Inl e, el\<lparr>el_db := db2\<rparr>)
                | (Inr seqs, db2) \<Rightarrow>
                    (let written = filter (\<lambda>(it, ev, s). s \<noteq> 0) (zip items (zip evs seqs));
                         el1 = fold (\<lambda>(it, ev, s). notify (pe_partition it)) written (el\<lparr>el_db := db2\<rparr>)
                     in Ret (Inr seqs, notifyObservers (map snd written) el1))))"

section \<open>ReadPartition\<close>

definition bytes_str :: "bytes \<Rightarrow> string" where
  "bytes_str bs = map (\<lambda>b. char_of (unat b)) bs"

text \<open>
  The iterator loop: stop at the limit or when \<open>cancelled\<close> says the context is done before
  item \<open>i\<close> (entries read so far are returned with the error); a value that cannot be read is an error.
\<close>

fun read_loop ::
  "(nat \<Rightarrow> bool) \<Rightarrow> nat \<Rightarrow> u32 \<Rightarrow> (bytes \<times> bytes option) list \<Rightarrow> log_entry list
     \<Rightarrow> (log_entry list \<times> log_error option) go" where
  "read_loop cancelled limit part [] acc = Ret (acc, None)"
| "read_loop cancelled limit part ((k, v) # kvs) acc =
     (if length acc \<ge> limit then Ret (acc, None)
      else if cancelled (length acc) then Ret (acc, Some CancelledErr)
      else case v of
             None \<Rightarrow> Ret (acc, Some ValueErr)
           | Some val \<Rightarrow>
               (case decodePartKey k of
                  Panic \<Rightarrow> Panic
                | Ret (_, seq) \<Rightarrow>
                    read_loop cancelled limit part kvs
                      (acc @ [\<lparr>le_seq = seq, le_partition = part, le_event = None, le_raw = bytes_str val\<rparr>])))"

definition ReadPartition ::
  "'db badger \<Rightarrow> (nat \<Rightarrow> bool) \<Rightarrow> 'db evlog \<Rightarrow> u32 \<Rightarrow> u64 \<Rightarrow> nat \<Rightarrow> (log_entry list \<times> log_error option) go" where
  "ReadPartition bg cancelled el part fromSeq limit =
     read_loop cancelled limit part
       (bg_scan bg (el_db el) (encodePartPrefix part) (encodePartKey part fromSeq)) []"


section \<open>What the database promises\<close>

text \<open>
  \<open>view db\<close> is the live key-value content, \<open>hi db p\<close> a strict upper bound of the sequence
  numbers leased so far for partition \<open>p\<close>. The clauses are Badger's documented behaviour:
  a transaction reads its own writes, \<open>Next\<close> hands out increasing integers that survive
  restarts, and a prefix iterator visits the matching keys in ascending byte order.
\<close>

definition badger_ok ::
  "'db badger \<Rightarrow> ('db \<Rightarrow> bytes \<Rightarrow> bytes option) \<Rightarrow> ('db \<Rightarrow> u32 \<Rightarrow> nat) \<Rightarrow> bool" where
  "badger_ok bg view hi \<longleftrightarrow>
     (\<forall>db k. bg_get bg db k = Found \<longrightarrow> view db k \<noteq> None) \<and>
     (\<forall>db k. bg_get bg db k = KeyNotFound \<longrightarrow> view db k = None) \<and>
     (\<forall>db k v t db'. bg_set bg db k v t = Some db' \<longrightarrow> view db' = (view db)(k \<mapsto> v) \<and> hi db' = hi db) \<and>
     (\<forall>db t db'. bg_commit bg db t = Some db' \<longrightarrow> view db' = view t \<and> hi db' = hi t) \<and>
     (\<forall>db p. view (fst (bg_next bg db p)) = view db \<and> (\<forall>q. hi db q \<le> hi (fst (bg_next bg db p)) q)) \<and>
     (\<forall>db p s. snd (bg_next bg db p) = Some s \<longrightarrow> hi db p \<le> unat s \<and> unat s < hi (fst (bg_next bg db p)) p) \<and>
     (\<forall>db pre st. sorted_wrt (\<lambda>a b. bytes_less (fst a) (fst b)) (bg_scan bg db pre st)) \<and>
     (\<forall>db pre st k. k \<in> fst ` set (bg_scan bg db pre st) \<longleftrightarrow>
        view db k \<noteq> None \<and> has_prefix k pre \<and> \<not> bytes_less k st) \<and>
     (\<forall>db pre st k v. (k, Some v) \<in> set (bg_scan bg db pre st) \<longrightarrow> view db k = Some v)"

lemma badger_okD:
  assumes "badger_ok bg view hi"
  shows "bg_get bg db k = Found \<Longrightarrow> view db k \<noteq> None"
    and "bg_get bg db k = KeyNotFound \<Longrightarrow> view db k = None"
    and "bg_set bg db k v t = Some db' \<Longrightarrow> view db' = (view db)(k \<mapsto> v)"
    and "bg_set bg db k v t = Some db' \<Longrightarrow> hi db' = hi db"
    and "bg_commit bg db txn = Some db' \<Longrightarrow> view db' = view txn"
    and "bg_commit bg db txn = Some db' \<Longrightarrow> hi db' = hi txn"
    and "bg_next bg db p = (db', r) \<Longrightarrow> view db' = view db"
    and "bg_next bg db p = (db', r) \<Longrightarrow> hi db q \<le> hi db' q"
    and "bg_next bg db p = (db', Some s) \<Longrightarrow> hi db p \<le> unat s"
    and "bg_next bg db p = (db', Some s) \<Longrightarrow> unat s < hi db' p"
    and "sorted_wrt (\<lambda>a b. bytes_less (fst a) (fst b)) (bg_scan bg db pre st)"
    and "k \<in> fst ` set (bg_scan bg db pre st) \<longleftrightarrow> view db k \<noteq> None \<and> has_prefix k pre \<and> \<not> bytes_less k st"
    and "(k, Some v) \<in> set (bg_scan bg db pre st) \<Longrightarrow> view db k = Some v"
proof -
  have nx: "view (fst (bg_next bg db p)) = view db" "hi db q \<le> hi (fst (bg_next bg db p)) q"
    using assms by (simp_all add: badger_ok_def)
  have nx': "snd (bg_next bg db p) = Some s \<Longrightarrow> hi db p \<le> unat s \<and> unat s < hi (fst (bg_next bg db p)) p"
    using assms by (simp add: badger_ok_def)
  show "bg_next bg db p = (db', r) \<Longrightarrow> view db' = view db"
    "bg_next bg db p = (db', r) \<Longrightarrow> hi db q \<le> hi db' q"
    "bg_next bg db p = (db', Some s) \<Longrightarrow> hi db p \<le> unat s"
    "bg_next bg db p = (db', Some s) \<Longrightarrow> unat s < hi db' p"
    using nx nx' by auto
qed (use assms in \<open>simp_all add: badger_ok_def\<close>)

text \<open>
  The invariant of the store: sequence 0 is never handed out again, and every stored
  partition key has a sequence number that was leased.
\<close>

definition evlog_inv ::
  "('db \<Rightarrow> bytes \<Rightarrow> bytes option) \<Rightarrow> ('db \<Rightarrow> u32 \<Rightarrow> nat) \<Rightarrow> 'db evlog \<Rightarrow> bool" where
  "evlog_inv view hi el \<longleftrightarrow>
     el_num el \<noteq> 0 \<and> (\<forall>p. 1 \<le> hi (el_db el) p) \<and>
     (\<forall>p s. view (el_db el) (encodePartKey p s) \<noteq> None \<longrightarrow> unat s < hi (el_db el) p) \<and>
     (\<forall>p k. view (el_db el) k \<noteq> None \<and> has_prefix k (encodePartPrefix p) \<longrightarrow> (\<exists>s. k = encodePartKey p s))"

section \<open>Partitions\<close>

lemma PartitionOf_less: "PartitionOf k n = Ret p \<Longrightarrow> p < n"
  by (auto simp: PartitionOf_def word_mod_less_divisor word_neq_0_conv split: if_splits)

section \<open>Keys in the store\<close>

lemma dedup_not_part [simp]:
  "dedupIndexKey sha k \<noteq> encodePartKey p s" "encodePartKey p s \<noteq> dedupIndexKey sha k"
  by (simp_all add: dedupIndexKey_def encodeDedupKey_def encodePartKey_def key_consts)

lemma dedup_no_part_prefix: "\<not> has_prefix (dedupIndexKey sha k) (encodePartPrefix p)"
  by (simp add: dedupIndexKey_def encodeDedupKey_def encodePartPrefix_def key_consts)

lemma encodePartKey_inject [simp]: "encodePartKey p s = encodePartKey q t \<longleftrightarrow> p = q \<and> s = t"
  by (simp add: encodePartKey_def)

lemma has_prefix_encodePartKey [simp]:
  "has_prefix (encodePartKey p s) (encodePartPrefix q) \<longleftrightarrow> p = q"
  by (simp add: has_prefix_conv encodePartKey_def encodePartPrefix_def)

lemma bytes_str_str_bytes [simp]: "bytes_str (str_bytes s) = s"
proof -
  have "unat (of_char c :: byte) = of_char c" for c
  proof -
    have "unat (of_nat (of_char c) :: byte) = of_char c mod 256"
      by (simp add: unsigned_of_nat take_bit_eq_mod)
    then show ?thesis by (simp add: of_nat_of_char)
  qed
  then show ?thesis by (simp add: bytes_str_def str_bytes_def comp_def)
qed

section \<open>The write transaction\<close>

lemma write_event_cases:
  assumes "badger_ok bg view hi"
    and "write_event bg ret p s val dk txn = Inr (txn', w)"
  shows "hi txn' = hi txn"
    and "w \<Longrightarrow> view txn dk = None \<and> view txn' = (view txn)(encodePartKey p s \<mapsto> val, dk \<mapsto> encodePartSeq p s)"
    and "\<not> w \<Longrightarrow> view txn dk \<noteq> None \<and> txn' = txn"
  using assms(2) badger_okD [OF assms(1)]
  by (auto simp: write_event_def split: get_result.splits option.splits)

lemma bg_update_Inr:
  assumes "badger_ok bg view hi" "bg_update bg f db = Inr (db', x)"
  obtains txn where "f db = Inr (txn, x)" "view db' = view txn" "hi db' = hi txn"
  using assms(2) badger_okD(5,6) [OF assms(1)]
  by (auto simp: bg_update_def split: sum.splits option.splits)

lemma notify_frame [simp, record_frames]:
  "el_db (notify p el) = el_db el" "el_num (notify p el) = el_num el"
  "el_retention (notify p el) = el_retention el" "el_observers (notify p el) = el_observers el"
  "el_calls (notify p el) = el_calls el"
  by (simp_all add: notify_def)

lemma notifyObservers_frame [simp, record_frames]:
  "el_db (notifyObservers evs el) = el_db el" "el_num (notifyObservers evs el) = el_num el"
  "el_pending (notifyObservers evs el) = el_pending el"
  "el_observers (notifyObservers evs el) = el_observers el"
  by (simp_all add: notifyObservers_def)

lemma notify_pending [simp]: "set (el_pending (notify p el)) = insert p (set (el_pending el))"
  by (auto simp: notify_def)

text \<open>Case analysis of a successful \<open>Append\<close>.\<close>

lemma Append_Inr:
  assumes ok: "badger_ok bg view hi"
    and app: "Append bg marshal sha el ev = Ret (Inr s, el')"
    and inv: "evlog_inv view hi el"
  obtains (dup) "s = 0" "view (el_db el) (dedupIndexKey sha (str_bytes (ev_idempotency_key ev))) \<noteq> None"
      "view (el_db el') = view (el_db el)" "\<forall>p. hi (el_db el) p \<le> hi (el_db el') p"
      "el_num el' = el_num el" "el_calls el' = el_calls el"
  | (new) p val where "s \<noteq> 0" "PartitionOf (str_bytes (raw_str (ev_key ev))) (el_num el) = Ret p"
      "marshal ev = Some val"
      "view (el_db el) (dedupIndexKey sha (str_bytes (ev_idempotency_key ev))) = None"
      "view (el_db el') = (view (el_db el))(encodePartKey p s \<mapsto> str_bytes val,
          dedupIndexKey sha (str_bytes (ev_idempotency_key ev)) \<mapsto> encodePartSeq p s)"
      "hi (el_db el) p \<le> unat s" "unat s < hi (el_db el') p" "\<forall>q. hi (el_db el) q \<le> hi (el_db el') q"
      "el_num el' = el_num el" "p \<in> set (el_pending el')"
      "el_calls el' = el_calls el @ map (\<lambda>ob. (ob, [(ev, s)])) (el_observers el)"
proof -
  let ?dk = "dedupIndexKey sha (str_bytes (ev_idempotency_key ev))"
  from app obtain p where p: "PartitionOf (str_bytes (raw_str (ev_key ev))) (el_num el) = Ret p"
    by (auto simp: Append_def split: go.splits)
  with app obtain val where val: "marshal ev = Some val"
    by (auto simp: Append_def split: option.splits)
  with app p obtain db1 s1 where nx: "bg_next bg (el_db el) p = (db1, Some s1)"
    by (cases "bg_next bg (el_db el) p") (auto simp: Append_def split: option.splits)
  define u where "u = bg_update bg (write_event bg (el_retention el) p s1 (str_bytes val) ?dk) db1"
  from app p val nx obtain db2 w where u: "u = Inr (db2, w)"
    by (auto simp: Append_def u_def [symmetric] split: sum.splits)
  then obtain txn where wr: "write_event bg (el_retention el) p s1 (str_bytes val) ?dk db1 = Inr (txn, w)"
    and v2: "view db2 = view txn" and h2: "hi db2 = hi txn"
    unfolding u_def by (rule bg_update_Inr [OF ok])
  note W = write_event_cases [OF ok wr]
  have v1: "view db1 = view (el_db el)" using badger_okD(7) [OF ok nx] .
  have h1: "hi (el_db el) q \<le> hi db1 q" for q using badger_okD(8) [OF ok nx] .
  have hp: "hi (el_db el) p \<le> unat s1" "unat s1 < hi db1 p"
    using badger_okD(9,10) [OF ok nx] by auto
  show thesis
  proof (cases w)
    case False
    with app p val nx u have "s = 0" "el' = el\<lparr>el_db := db2\<rparr>"
      by (auto simp: Append_def u_def [symmetric])
    with W False v1 v2 h1 h2 show thesis by (intro dup) auto
  next
    case True
    with app p val nx u have s: "s = s1"
      and el': "el' = notifyObservers [(ev, s1)] (notify p (el\<lparr>el_db := db2\<rparr>))"
      by (auto simp: Append_def u_def [symmetric])
    have "s1 \<noteq> 0" using hp inv by (auto simp: evlog_inv_def) (metis Suc_n_not_le_n le_trans)
    with W True v1 v2 h1 h2 hp s el' p val show thesis
      by (intro new) (auto simp: notifyObservers_def)
  qed
qed

section \<open>Properties of Append\<close>

text \<open>\<open>Append\<close> keeps the invariant of the store.\<close>

lemma Append_inv:
  assumes "badger_ok bg view hi" "Append bg marshal sha el ev = Ret (Inr s, el')" "evlog_inv view hi el"
  shows "evlog_inv view hi el'"
  using assms
proof (cases rule: Append_Inr)
  case dup
  with assms(3) show ?thesis
    unfolding evlog_inv_def by (metis le_trans order_less_le_trans)
next
  case (new p val)
  have "unat t < hi (el_db el') q"
    if "view (el_db el') (encodePartKey q t) \<noteq> None" for q t
  proof (cases "q = p \<and> t = s")
    case False
    with that new(5) have "view (el_db el) (encodePartKey q t) \<noteq> None"
      by (auto split: if_splits)
    with assms(3) new(8) show ?thesis by (meson evlog_inv_def order_less_le_trans)
  qed (use new(7) in simp)
  moreover have "\<exists>t. k = encodePartKey q t"
    if "view (el_db el') k \<noteq> None" "has_prefix k (encodePartPrefix q)" for q k
    using that new(5) assms(3) dedup_no_part_prefix
    unfolding evlog_inv_def by (metis fun_upd_other has_prefix_encodePartKey)
  ultimately show ?thesis
    using assms(3) new unfolding evlog_inv_def by (metis le_trans)
qed

text \<open>
  C11. LOG-03: once an event was appended, appending an event with the same idempotency key
  succeeds only with the duplicate sentinel 0, and the stored content does not change.
\<close>

theorem Append_dedup:
  assumes "badger_ok bg view hi" "evlog_inv view hi el"
    and "Append bg marshal sha el ev = Ret (Inr s, el1)"
    and "ev_idempotency_key ev' = ev_idempotency_key ev"
    and "Append bg marshal sha el1 ev' = Ret (Inr s', el2)"
  shows "s' = 0 \<and> view (el_db el2) = view (el_db el1) \<and> el_calls el2 = el_calls el1"
proof -
  let ?dk = "dedupIndexKey sha (str_bytes (ev_idempotency_key ev))"
  have "view (el_db el1) ?dk \<noteq> None"
    using assms(1,3,2) by (cases rule: Append_Inr) auto
  moreover have "evlog_inv view hi el1" using Append_inv assms(1,2,3) by blast
  ultimately show ?thesis
    using assms(1,5) assms(4) by (cases rule: Append_Inr [OF assms(1,5)]) auto
qed


section \<open>Reading a partition\<close>

definition kv_entry :: "u32 \<Rightarrow> bytes \<times> bytes option \<Rightarrow> log_entry" where
  "kv_entry p kv = \<lparr>le_seq = (case decodePartKey (fst kv) of Ret (_, s) \<Rightarrow> s | Panic \<Rightarrow> 0),
     le_partition = p, le_event = None, le_raw = bytes_str (the (snd kv))\<rparr>"

lemma kv_entry_part [simp]:
  "kv_entry p (encodePartKey q s, Some v) = \<lparr>le_seq = s, le_partition = p, le_event = None, le_raw = bytes_str v\<rparr>"
  by (simp add: kv_entry_def decode_encode)

lemma read_loop_prefix:
  assumes "\<forall>kv \<in> set kvs. \<exists>s. fst kv = encodePartKey q s"
  shows "\<exists>n err. read_loop c lim p kvs acc = Ret (acc @ map (kv_entry p) (take n kvs), err) \<and>
           n \<le> length kvs \<and> (\<forall>kv \<in> set (take n kvs). snd kv \<noteq> None) \<and>
           (length acc \<le> lim \<longrightarrow> length acc + n \<le> lim) \<and>
           (err = None \<and> length acc + n < lim \<longrightarrow> n = length kvs)"
  using assms
proof (induction c lim p kvs acc rule: read_loop.induct)
  case (2 c lim p k v kvs acc)
  from "2.prems" obtain s where k: "k = encodePartKey q s" by auto
  show ?case
  proof (cases "length acc \<ge> lim \<or> c (length acc) \<or> v = None")
    case True
    then show ?thesis
      by (intro exI [of _ 0]) auto
  next
    case False
    then obtain x where v: "v = Some x" by auto
    have IH: "\<exists>n err. read_loop c lim p kvs (acc @ [kv_entry p (k, v)]) =
           Ret ((acc @ [kv_entry p (k, v)]) @ map (kv_entry p) (take n kvs), err) \<and>
           n \<le> length kvs \<and> (\<forall>kv \<in> set (take n kvs). snd kv \<noteq> None) \<and>
           (length (acc @ [kv_entry p (k, v)]) \<le> lim \<longrightarrow> length (acc @ [kv_entry p (k, v)]) + n \<le> lim) \<and>
           (err = None \<and> length (acc @ [kv_entry p (k, v)]) + n < lim \<longrightarrow> n = length kvs)"
      using "2.IH" [OF _ _ v, of "(q, s)" q s] "2.prems" False v k by (simp add: decode_encode)
    then obtain n err where n:
      "read_loop c lim p kvs (acc @ [kv_entry p (k, v)]) =
         Ret (acc @ [kv_entry p (k, v)] @ map (kv_entry p) (take n kvs), err)"
      "n \<le> length kvs" "\<forall>kv \<in> set (take n kvs). snd kv \<noteq> None"
      "length acc + Suc n \<le> lim" "err = None \<and> length acc + Suc n < lim \<longrightarrow> n = length kvs"
      using False by auto
    then show ?thesis
      using False v k by (intro exI [of _ "Suc n"] exI [of _ err]) (simp add: decode_encode)
  qed
qed auto

lemma sorted_wrt_take: "sorted_wrt P xs \<Longrightarrow> sorted_wrt P (take n xs)"
  by (metis append_take_drop_id sorted_wrt_append)

lemma ReadPartition_reads:
  assumes ok: "badger_ok bg view hi" and inv: "evlog_inv view hi el"
  shows "\<exists>es err. ReadPartition bg c el p fromSeq limit = Ret (es, err) \<and> length es \<le> limit \<and>
     sorted_wrt (<) (map le_seq es) \<and>
     (\<forall>e \<in> set es. fromSeq \<le> le_seq e \<and> le_partition e = p \<and> le_event e = None \<and>
        (\<exists>v. view (el_db el) (encodePartKey p (le_seq e)) = Some v \<and> le_raw e = bytes_str v)) \<and>
     (\<forall>s. fromSeq \<le> s \<and> view (el_db el) (encodePartKey p s) \<noteq> None \<and>
        ((\<exists>e \<in> set es. s < le_seq e) \<or> (err = None \<and> length es < limit)) \<longrightarrow> s \<in> le_seq ` set es)"
proof -
  define kvs where "kvs = bg_scan bg (el_db el) (encodePartPrefix p) (encodePartKey p fromSeq)"
  have mem: "k \<in> fst ` set kvs \<longleftrightarrow> view (el_db el) k \<noteq> None \<and> has_prefix k (encodePartPrefix p) \<and>
      \<not> bytes_less k (encodePartKey p fromSeq)" for k
    unfolding kvs_def by (rule badger_okD(12) [OF ok])
  have form: "\<exists>s. fst kv = encodePartKey p s \<and> fromSeq \<le> s" if "kv \<in> set kvs" for kv
  proof -
    from that have "fst kv \<in> fst ` set kvs" by simp
    then obtain s where "fst kv = encodePartKey p s"
      using inv unfolding mem evlog_inv_def by blast
    with \<open>fst kv \<in> fst ` set kvs\<close> show ?thesis unfolding mem by (auto simp: key_order not_less)
  qed
  then have "\<forall>kv \<in> set kvs. \<exists>s. fst kv = encodePartKey p s" by blast
  from read_loop_prefix [OF this, of c limit p "[]"] obtain n err where
    rl: "ReadPartition bg c el p fromSeq limit = Ret (map (kv_entry p) (take n kvs), err)"
    and n: "n \<le> length kvs" "\<forall>kv \<in> set (take n kvs). snd kv \<noteq> None" "n \<le> limit"
      "err = None \<and> n < limit \<longrightarrow> n = length kvs"
    by (auto simp: ReadPartition_def kvs_def)
  let ?es = "map (kv_entry p) (take n kvs)"
  have seqk: "fst kv = encodePartKey p (le_seq (kv_entry p kv))" if "kv \<in> set kvs" for kv
    using form [OF that] by (auto simp: kv_entry_def decode_encode)
  have sk: "sorted_wrt (\<lambda>a b. bytes_less (fst a) (fst b)) kvs"
    unfolding kvs_def by (rule badger_okD(11) [OF ok])
  have lt: "le_seq (kv_entry p a) < le_seq (kv_entry p b)"
    if "a \<in> set kvs" "b \<in> set kvs" "bytes_less (fst a) (fst b)" for a b
    using that by (metis seqk key_order less_irrefl)
  have sorted: "sorted_wrt (<) (map le_seq ?es)"
    unfolding map_map sorted_wrt_map comp_def
    by (rule sorted_wrt_mono_rel [OF _ sorted_wrt_take [OF sk]]) (blast intro: lt dest: in_set_takeD)
  have each: "fromSeq \<le> le_seq e \<and> le_partition e = p \<and> le_event e = None \<and>
        (\<exists>v. view (el_db el) (encodePartKey p (le_seq e)) = Some v \<and> le_raw e = bytes_str v)"
    if "e \<in> set ?es" for e
  proof -
    from that obtain kv where kv: "kv \<in> set (take n kvs)" "e = kv_entry p kv" by auto
    then have mk: "kv \<in> set kvs" by (blast dest: in_set_takeD)
    from n(2) kv(1) obtain v where v: "snd kv = Some v" by auto
    from form [OF mk] obtain s where s: "fst kv = encodePartKey p s" "fromSeq \<le> s" by blast
    from v mk have "view (el_db el) (fst kv) = Some v"
      using badger_okD(13) [OF ok, of "fst kv" v] unfolding kvs_def by (metis prod.collapse)
    with s v kv(2) show ?thesis by (cases kv) simp
  qed
  have complete: "s \<in> le_seq ` set ?es"
    if s: "fromSeq \<le> s" "view (el_db el) (encodePartKey p s) \<noteq> None"
      and cov: "(\<exists>e \<in> set ?es. s < le_seq e) \<or> (err = None \<and> length ?es < limit)" for s
  proof -
    from s have "encodePartKey p s \<in> fst ` set kvs" unfolding mem by (simp add: key_order not_less)
    then obtain kv where kv: "kv \<in> set kvs" "fst kv = encodePartKey p s" by auto
    then have ks: "le_seq (kv_entry p kv) = s" by (simp add: kv_entry_def decode_encode)
    have "kv \<in> set (take n kvs)"
    proof (rule ccontr)
      assume no: "kv \<notin> set (take n kvs)"
      then have dr: "kv \<in> set (drop n kvs)"
        using kv(1) by (metis Un_iff append_take_drop_id set_append)
      have before: "bytes_less (fst x) (fst kv)" if "x \<in> set (take n kvs)" for x
        using sk dr that by (metis append_take_drop_id sorted_wrt_append)
      from cov show False
      proof
        assume "\<exists>e \<in> set ?es. s < le_seq e"
        then obtain x where "x \<in> set (take n kvs)" "s < le_seq (kv_entry p x)" by auto
        then show False
          using lt [OF _ kv(1) before, of x] ks by (auto dest: in_set_takeD)
      next
        assume "err = None \<and> length ?es < limit"
        with n have "n = length kvs" by auto
        with dr show False by simp
      qed
    qed
    with ks show ?thesis by force
  qed
  have "length ?es \<le> limit" using n by simp
  with rl sorted each complete show ?thesis by blast
qed

text \<open>
  C13. A read never panics, returns at most \<open>limit\<close> stored entries of the partition from
  \<open>fromSeq\<close> on in strictly ascending sequence order, leaves no stored sequence out between
  two that it returns, and, when it stops early without an error, has returned them all.
\<close>

theorem ReadPartition_spec:
  assumes ok: "badger_ok bg view hi" and inv: "evlog_inv view hi el"
  shows "\<exists>es err. ReadPartition bg c el p fromSeq limit = Ret (es, err) \<and> length es \<le> limit \<and>
     sorted_wrt (<) (map le_seq es) \<and>
     (\<forall>e \<in> set es. fromSeq \<le> le_seq e \<and> le_partition e = p \<and>
        (\<exists>v. view (el_db el) (encodePartKey p (le_seq e)) = Some v \<and> le_raw e = bytes_str v)) \<and>
     (\<forall>s. fromSeq \<le> s \<and> view (el_db el) (encodePartKey p s) \<noteq> None \<and>
        ((\<exists>e \<in> set es. s < le_seq e) \<or> (err = None \<and> length es < limit)) \<longrightarrow> s \<in> le_seq ` set es)"
  using ReadPartition_reads [OF assms] by blast

end
