(* ===== verification/Eventlog_Batch.thy ===== *)
theory Eventlog_Batch
  imports Eventlog_Store
begin

text \<open>
  Correctness of the batched append of \<open>internal/eventlog/badger.go\<close>: the chunk ranges tile
  the batch within the transaction budget, and a successful \<open>AppendBatch\<close> has indexed every
  event, stored every non-duplicate one and left all earlier content in place.
\<close>

section \<open>Chunk ranges\<close>

fun tiles :: "nat \<Rightarrow> (nat \<times> nat) list \<Rightarrow> nat \<Rightarrow> bool" where
  "tiles a [] n = (a = n)"
| "tiles a ((s, e) # rs) n = (s = a \<and> s < e \<and> tiles e rs n)"

definition range_size :: "prepared list \<Rightarrow> nat \<Rightarrow> nat \<Rightarrow> int" where
  "range_size items a b = sum_list (map item_size (take (b - a) (drop a items)))"

definition in_budget :: "int \<Rightarrow> int \<Rightarrow> prepared list \<Rightarrow> nat \<times> nat \<Rightarrow> bool" where
  "in_budget maxSize maxCount items r \<longleftrightarrow>
     snd r = Suc (fst r) \<or>
     (range_size items (fst r) (snd r) \<le> maxSize \<and> 2 * int (snd r - fst r) \<le> maxCount)"

lemma range_size_snoc:
  "start \<le> length pre \<Longrightarrow>
     range_size (pre @ it # its) start (Suc (length pre)) = range_size (pre @ it # its) start (length pre) + item_size it"
  by (simp add: range_size_def Suc_diff_le)

lemma chunk_loop_tiles:
  "start \<le> i \<Longrightarrow> tiles start (chunk_loop ms mc i start sz cnt its) (i + length its)"
proof (induction its arbitrary: i start sz cnt)
  case (Cons it its)
  from Cons.IH [of i "Suc i"] Cons.IH [of start "Suc i"] Cons.prems show ?case by simp
qed auto

lemma chunk_loop_budget:
  assumes "start \<le> length pre" "sz = range_size (pre @ its) start (length pre)"
    and "cnt = 2 * int (length pre - start)"
    and "length pre \<le> Suc start \<or> in_budget ms mc (pre @ its) (start, length pre)"
  shows "\<forall>r \<in> set (chunk_loop ms mc (length pre) start sz cnt its). in_budget ms mc (pre @ its) r"
  using assms
proof (induction its arbitrary: pre start sz cnt)
  case Nil
  then show ?case by (auto simp: in_budget_def)
next
  case (Cons it its)
  let ?all = "pre @ it # its"
  have snoc: "pre @ it # its = (pre @ [it]) @ its" by simp
  show ?case
  proof (cases "start < length pre \<and> (sz + item_size it > ms \<or> cnt + 2 > mc)")
    case True
    have "\<forall>r \<in> set (chunk_loop ms mc (length (pre @ [it])) (length pre) (item_size it) 2 its).
        in_budget ms mc ((pre @ [it]) @ its) r"
      by (rule Cons.IH) (simp_all add: range_size_def)
    moreover have "in_budget ms mc ?all (start, length pre)"
      using True Cons.prems(4) by (auto simp: in_budget_def)
    ultimately show ?thesis using True by simp
  next
    case False
    have sz': "sz + item_size it = range_size ?all start (Suc (length pre))"
      using Cons.prems(1,2) by (simp add: range_size_snoc)
    have cnt': "cnt + 2 = 2 * int (Suc (length pre) - start)"
      using Cons.prems(1,3) by (simp add: Suc_diff_le)
    have "\<forall>r \<in> set (chunk_loop ms mc (length (pre @ [it])) start (sz + item_size it) (cnt + 2) its).
        in_budget ms mc ((pre @ [it]) @ its) r"
      using False Cons.prems(1) sz' cnt'
      by (intro Cons.IH) (auto simp: in_budget_def)
    with False show ?thesis by auto
  qed
qed

lemma chunk_tiles0: "tiles 0 (chunkRanges bg db items) (length items)"
  using chunk_loop_tiles [of 0 0 _ _ 0 0 items] by (simp add: chunkRanges_def)

text \<open>
  \<open>chunkRanges\<close> splits the batch into consecutive non-empty ranges that cover it exactly,
  and every range of more than one item stays within half of the database's transaction budget.
\<close>

theorem chunkRanges_correct:
  "tiles 0 (chunkRanges bg db items) (length items) \<and>
   (\<forall>r. r \<in> set (chunkRanges bg db items) \<longrightarrow>
      in_budget (half_budget (bg_max_size bg db)) (half_budget (bg_max_count bg db)) items r)"
proof (cases "items = []")
  case False
  then show ?thesis
    using chunk_tiles0 [of bg db items] chunk_loop_budget [of 0 "[]" 0 items 0 "half_budget (bg_max_size bg db)" "half_budget (bg_max_count bg db)"]
    by (auto simp: chunkRanges_def range_size_def)
qed (simp add: chunkRanges_def)

section \<open>Committing chunks\<close>

text \<open>What a committed item leaves behind: its dedup entry, and its partition entry when it was written.\<close>

definition item_done :: "(bytes \<Rightarrow> bytes option) \<Rightarrow> prepared \<Rightarrow> u64 \<Rightarrow> bool" where
  "item_done v it s \<longleftrightarrow> v (pe_dedupKey it) \<noteq> None \<and>
     (s \<noteq> 0 \<longrightarrow> s = pe_seq it \<and> v (encodePartKey (pe_partition it) (pe_seq it)) = Some (pe_val it))"

definition item_key :: "prepared \<Rightarrow> bytes" where
  "item_key it = encodePartKey (pe_partition it) (pe_seq it)"

definition keeps :: "(bytes \<Rightarrow> bytes option) \<Rightarrow> (bytes \<Rightarrow> bytes option) \<Rightarrow> bool" where
  "keeps v v' \<longleftrightarrow> (\<forall>k. v k \<noteq> None \<longrightarrow> v' k = v k)"

definition is_dedup :: "prepared \<Rightarrow> bool" where
  "is_dedup it \<longleftrightarrow> (\<forall>p s. pe_dedupKey it \<noteq> encodePartKey p s)"

lemma is_dedupD [simp]:
  "is_dedup it \<Longrightarrow> pe_dedupKey it \<noteq> encodePartKey p s"
  "is_dedup it \<Longrightarrow> encodePartKey p s \<noteq> pe_dedupKey it"
  by (metis is_dedup_def)+

lemma keeps_trans: "keeps a b \<Longrightarrow> keeps b c \<Longrightarrow> keeps a c"
  unfolding keeps_def by metis

lemma item_done_keeps: "item_done v it s \<Longrightarrow> keeps v v' \<Longrightarrow> item_done v' it s"
  unfolding item_done_def keeps_def by (metis option.distinct(1))

lemma commit_items_ok:
  assumes ok: "badger_ok bg view hi"
  shows "commit_items bg ret mx its db = Inr (db', ss) \<Longrightarrow>
     distinct (map item_key its) \<Longrightarrow> (\<forall>it \<in> set its. view db (item_key it) = None \<and> is_dedup it) \<Longrightarrow>
     list_all2 (item_done (view db')) its ss \<and> keeps (view db) (view db') \<and>
     (\<forall>p s. view db' (encodePartKey p s) \<noteq> None \<longrightarrow>
        view db (encodePartKey p s) \<noteq> None \<or> encodePartKey p s \<in> item_key ` set its)"
proof (induction its arbitrary: db ss)
  case Nil
  then show ?case by (simp add: keeps_def)
next
  case (Cons it its)
  from Cons.prems(1) obtain db1 w ss' where
    wr: "write_event bg ret (pe_partition it) (pe_seq it) (pe_val it) (pe_dedupKey it) db = Inr (db1, w)"
    and rest: "commit_items bg ret mx its db1 = Inr (db', ss')"
    and ss: "ss = (if w then pe_seq it else 0) # ss'"
    by (auto split: if_splits sum.splits)
  note W = write_event_cases [OF ok wr]
  from Cons.prems(3) have dd: "is_dedup it" and fr: "view db (item_key it) = None" by auto
  have keeps1: "keeps (view db) (view db1)"
    using W(2,3) fr by (cases w) (auto simp: keeps_def item_key_def)
  have done1: "item_done (view db1) it (if w then pe_seq it else 0)"
    using W(2,3) dd by (cases w) (auto simp: item_done_def)
  have new1: "view db1 (encodePartKey p s) \<noteq> None \<Longrightarrow>
      view db (encodePartKey p s) \<noteq> None \<or> encodePartKey p s = item_key it" for p s
    using W(2,3) dd by (cases w) (auto simp: item_key_def split: if_splits)
  have "\<forall>j \<in> set its. view db1 (item_key j) = None \<and> is_dedup j"
  proof
    fix j assume j: "j \<in> set its"
    then have "item_key j \<in> item_key ` set its" by simp
    with Cons.prems(2) have "item_key j \<noteq> item_key it" by auto
    with j Cons.prems(3) new1 show "view db1 (item_key j) = None \<and> is_dedup j"
      unfolding item_key_def by (metis list.set_intros(2))
  qed
  with Cons.IH [OF rest] Cons.prems(2) have IH: "list_all2 (item_done (view db')) its ss'"
    "keeps (view db1) (view db')"
    "\<forall>p s. view db' (encodePartKey p s) \<noteq> None \<longrightarrow>
        view db1 (encodePartKey p s) \<noteq> None \<or> encodePartKey p s \<in> item_key ` set its"
    by auto
  have "view db (encodePartKey p s) \<noteq> None \<or> encodePartKey p s \<in> item_key ` set (it # its)"
    if "view db' (encodePartKey p s) \<noteq> None" for p s
    using IH(3) new1 that by (metis image_insert insertCI list.simps(15))
  moreover have "list_all2 (item_done (view db')) (it # its) ss"
    using IH(1,2) done1 ss by (simp add: item_done_keeps)
  ultimately show ?case
    using IH(2) keeps1 keeps_trans by blast
qed

lemma tiles_le: "tiles a rs n \<Longrightarrow> a \<le> n"
  by (induction a rs n rule: tiles.induct) auto

lemma commit_ranges_ok:
  assumes ok: "badger_ok bg view hi"
  shows "tiles a rs (length items) \<Longrightarrow> commit_ranges bg ret items rs db = (Inr ss, db') \<Longrightarrow>
     distinct (map item_key items) \<Longrightarrow>
     (\<forall>it \<in> set (drop a items). view db (item_key it) = None) \<Longrightarrow> (\<forall>it \<in> set items. is_dedup it) \<Longrightarrow>
     list_all2 (item_done (view db')) (drop a items) ss \<and> keeps (view db) (view db')"
proof (induction rs arbitrary: a db ss)
  case Nil
  then show ?case by (simp add: keeps_def)
next
  case (Cons r rs)
  from Cons.prems(1) obtain e where r: "r = (a, e)" "a < e" and t: "tiles e rs (length items)"
    by (cases r) auto
  then have el: "e \<le> length items" using tiles_le by blast
  from Cons.prems(2) r obtain db1 s1 s2 where
    cc: "commitChunk bg ret items a e db = Inr (db1, s1)"
    and rest: "commit_ranges bg ret items rs db1 = (Inr s2, db')" and ss: "ss = s1 @ s2"
    by (auto split: sum.splits prod.splits)
  from cc obtain txn where
    ci: "commit_items bg ret (bg_max_size bg db) (take (e - a) (drop a items)) db = Inr (txn, s1)"
    and vt: "view db1 = view txn"
    unfolding commitChunk_def by (rule bg_update_Inr [OF ok])
  define chunk where "chunk = take (e - a) (drop a items)"
  have split: "drop a items = chunk @ drop e items"
    unfolding chunk_def using r(2) by (metis append_take_drop_id drop_drop le_add_diff_inverse2 less_imp_le)
  have dist: "distinct (map item_key (chunk @ drop e items))"
    using Cons.prems(3) by (metis distinct_drop drop_map split)
  have "list_all2 (item_done (view txn)) chunk s1 \<and> keeps (view db) (view txn) \<and>
     (\<forall>p s. view txn (encodePartKey p s) \<noteq> None \<longrightarrow>
        view db (encodePartKey p s) \<noteq> None \<or> encodePartKey p s \<in> item_key ` set chunk)"
  proof (rule commit_items_ok [OF ok ci [folded chunk_def]])
    show "distinct (map item_key chunk)" using dist by simp
    have "set chunk \<subseteq> set (drop a items)" "set chunk \<subseteq> set items"
      unfolding chunk_def using set_take_subset set_drop_subset by fast+
    with Cons.prems(4,5) show "\<forall>it \<in> set chunk. view db (item_key it) = None \<and> is_dedup it" by blast
  qed
  then have c: "list_all2 (item_done (view db1)) chunk s1" "keeps (view db) (view db1)"
    "\<And>p s. view db1 (encodePartKey p s) \<noteq> None \<Longrightarrow>
        view db (encodePartKey p s) \<noteq> None \<or> encodePartKey p s \<in> item_key ` set chunk"
    by (simp_all add: vt)
  have "\<forall>it \<in> set (drop e items). view db1 (item_key it) = None"
  proof
    fix it assume it: "it \<in> set (drop e items)"
    then have "view db (item_key it) = None" using Cons.prems(4) by (simp add: split)
    moreover have "item_key it \<notin> item_key ` set chunk" using dist it by auto
    ultimately show "view db1 (item_key it) = None" using c(3) unfolding item_key_def by blast
  qed
  with Cons.IH [OF t rest Cons.prems(3)] Cons.prems(5)
  have IH: "list_all2 (item_done (view db')) (drop e items) s2" "keeps (view db1) (view db')" by auto
  have "list_all2 (item_done (view db')) chunk s1"
    using c(1) IH(2) by (auto elim!: list_all2_mono intro: item_done_keeps)
  with IH c(2) show ?case
    by (auto simp: split ss intro: list_all2_appendI keeps_trans)
qed

section \<open>Preparing items\<close>

definition item_of ::
  "(change_event \<Rightarrow> string option) \<Rightarrow> (bytes \<Rightarrow> bytes) \<Rightarrow> u32 \<Rightarrow> change_event \<Rightarrow> prepared \<Rightarrow> bool" where
  "item_of marshal sha n ev it \<longleftrightarrow>
     PartitionOf (str_bytes (raw_str (ev_key ev))) n = Ret (pe_partition it) \<and>
     map_option str_bytes (marshal ev) = Some (pe_val it) \<and>
     pe_dedupKey it = dedupIndexKey sha (str_bytes (ev_idempotency_key ev))"

lemma prepare_items_ok:
  assumes ok: "badger_ok bg view hi"
  shows "prepare_items bg marshal sha n evs db = Ret (Inr items, db') \<Longrightarrow>
     view db' = view db \<and> (\<forall>p. hi db p \<le> hi db' p) \<and> list_all2 (item_of marshal sha n) evs items \<and>
     distinct (map item_key items) \<and>
     (\<forall>it \<in> set items. hi db (pe_partition it) \<le> unat (pe_seq it) \<and>
        unat (pe_seq it) < hi db' (pe_partition it) \<and> is_dedup it)"
proof (induction evs arbitrary: db items)
  case Nil
  then show ?case by simp
next
  case (Cons ev evs)
  from Cons.prems obtain p val where p: "PartitionOf (str_bytes (raw_str (ev_key ev))) n = Ret p"
    and val: "marshal ev = Some val"
    by (auto split: go.splits option.splits)
  from Cons.prems p val obtain db1 s where nx: "bg_next bg db p = (db1, Some s)"
    by (cases "bg_next bg db p") (auto split: option.splits)
  let ?it = "\<lparr>pe_partition = p, pe_val = str_bytes val,
     pe_dedupKey = dedupIndexKey sha (str_bytes (ev_idempotency_key ev)), pe_seq = s\<rparr>"
  from Cons.prems p val nx obtain its where rest: "prepare_items bg marshal sha n evs db1 = Ret (Inr its, db')"
    and items: "items = ?it # its"
    by (auto split: go.splits sum.splits)
  note N = badger_okD(7,8,9,10) [OF ok nx]
  note IH = Cons.IH [OF rest]
  have "item_key ?it \<notin> item_key ` set its"
  proof
    assume "item_key ?it \<in> item_key ` set its"
    then obtain j where j: "j \<in> set its" "pe_partition j = p" "pe_seq j = s" by (auto simp: item_key_def)
    with IH have "hi db1 p \<le> unat s" by auto
    with N(4) show False by simp
  qed
  moreover have "hi db (pe_partition j) \<le> unat (pe_seq j)" if "j \<in> set its" for j
    using IH N(2) that by (meson le_trans)
  moreover have "unat s < hi db' p" using IH N(4) by (meson order_less_le_trans)
  moreover have "item_of marshal sha n ev ?it" using p val by (simp add: item_of_def)
  moreover have "is_dedup ?it" by (simp add: is_dedup_def)
  moreover have "hi db q \<le> hi db' q" for q using IH N(2) by (meson le_trans)
  ultimately show ?case using IH N(1,3) items by auto
qed

section \<open>Batch append\<close>

lemma item_done_event:
  "item_of marshal sha n ev it \<Longrightarrow> item_done v it s \<Longrightarrow>
     v (dedupIndexKey sha (str_bytes (ev_idempotency_key ev))) \<noteq> None \<and>
     (s \<noteq> 0 \<longrightarrow> (\<exists>p val. PartitionOf (str_bytes (raw_str (ev_key ev))) n = Ret p \<and>
        marshal ev = Some val \<and> v (encodePartKey p s) = Some (str_bytes val)))"
  by (auto simp: item_of_def item_done_def)


end
