(* ===== verification/Eventlog_Instance.thy ===== *)
theory Eventlog_Instance
  imports Eventlog_Batch "HOL-Library.List_Lexorder"
begin

text \<open>
  An in-memory database that satisfies \<^const>\<open>badger_ok\<close>: a key-value list with sorted prefix
  scans and a counter per partition. It shows that the assumptions on the database can hold and
  is the database of the example runs below.
\<close>

section \<open>The database\<close>

type_synonym memdb = "(bytes, bytes) gomap \<times> (u32, nat) gomap"

definition mem_hi :: "memdb \<Rightarrow> u32 \<Rightarrow> nat" where
  "mem_hi db p = gm_get0 1 (snd db) p"

definition mem_view :: "memdb \<Rightarrow> bytes \<Rightarrow> bytes option" where
  "mem_view db k = gm_get (fst db) k"

definition mem_badger :: "memdb badger" where
  "mem_badger = \<lparr>
     bg_get = (\<lambda>db k. if mem_view db k = None then KeyNotFound else Found),
     bg_set = (\<lambda>db k v t. Some (gm_set k v (fst db), snd db)),
     bg_commit = (\<lambda>db t. Some t),
     bg_next = (\<lambda>db p. if mem_hi db p < 2 ^ 64
                        then ((fst db, gm_set p (Suc (mem_hi db p)) (snd db)), Some (of_nat (mem_hi db p)))
                        else (db, None)),
     bg_scan = (\<lambda>db pre st. map (\<lambda>k. (k, mem_view db k))
                  (filter (\<lambda>k. has_prefix k pre \<and> \<not> bytes_less k st) (sort (remdups (map fst (fst db)))))),
     bg_max_size = (\<lambda>_. 9961472), bg_max_count = (\<lambda>_. 155344)\<rparr>"

lemma bytes_less_lex: "bytes_less a b \<longleftrightarrow> a < b"
  by (induction a b rule: bytes_less.induct) auto

lemma mem_badger_ok: "badger_ok mem_badger mem_view mem_hi"
proof -
  have sc: "sorted_wrt (\<lambda>a b. bytes_less (fst a) (fst b)) (bg_scan mem_badger db pre st)" for db pre st
  proof -
    have "sorted_wrt (<) (sort (remdups (map fst (fst db))))"
      by (simp add: strict_sorted_iff)
    then show ?thesis
      by (simp add: mem_badger_def sorted_wrt_map bytes_less_lex sorted_wrt_filter)
  qed
  have mem: "k \<in> fst ` set (bg_scan mem_badger db pre st) \<longleftrightarrow> mem_view db k \<noteq> None \<and> has_prefix k pre \<and> \<not> bytes_less k st"
    for db pre st k
    by (auto simp: mem_badger_def image_iff mem_view_def dom_map_of_conv_image_fst [symmetric] map_of_eq_None_iff)
  have val: "(k, Some v) \<in> set (bg_scan mem_badger db pre st) \<Longrightarrow> mem_view db k = Some v" for db pre st k v
    by (auto simp: mem_badger_def)
  have nx: "mem_view (fst (bg_next mem_badger db p)) = mem_view db"
    "mem_hi db q \<le> mem_hi (fst (bg_next mem_badger db p)) q" for db p q
    by (auto simp: mem_badger_def mem_view_def mem_hi_def gomap_simps fun_eq_iff)
  have nx2: "mem_hi db p \<le> unat s \<and> unat s < mem_hi (fst (bg_next mem_badger db p)) p"
    if "snd (bg_next mem_badger db p) = Some s" for db p s
  proof -
    have lt: "mem_hi db p < 2 ^ 64" and s: "s = of_nat (mem_hi db p)"
      using that by (auto simp: mem_badger_def split: if_splits)
    have "unat s = mem_hi db p" using lt by (simp add: s unsigned_of_nat take_bit_eq_mod)
    with lt show ?thesis by (simp add: mem_badger_def mem_hi_def gomap_simps)
  qed
  have rest: "bg_get mem_badger db k = Found \<Longrightarrow> mem_view db k \<noteq> None"
    "bg_get mem_badger db k = KeyNotFound \<Longrightarrow> mem_view db k = None"
    "bg_set mem_badger db k v t = Some db' \<Longrightarrow> mem_view db' = (mem_view db)(k \<mapsto> v) \<and> mem_hi db' = mem_hi db"
    "bg_commit mem_badger db db2 = Some db' \<Longrightarrow> mem_view db' = mem_view db2 \<and> mem_hi db' = mem_hi db2" for db k v t db' db2
    by (auto simp: mem_badger_def mem_view_def mem_hi_def gomap_simps fun_eq_iff split: if_splits)
  show ?thesis
    unfolding badger_ok_def using sc mem val nx nx2 rest by (intro conjI allI impI) auto
qed

section \<open>A run\<close>

definition ex_event :: "string \<Rightarrow> change_event" where
  "ex_event k = \<lparr>ev_id = ''e'', ev_idempotency_key = k, ev_timestamp = 0, ev_source = ''s'', ev_operation = OpInsert,
     ev_database = ''d'', ev_schema = ''public'', ev_table = ''t'', ev_key = Some ''1'', ev_before = None, ev_after = None,
     ev_metadata = [], ev_ai_context = None\<rparr>"

definition ex_log :: "memdb evlog" where
  "ex_log = \<lparr>el_db = ([], []), el_num = 1, el_retention = 0, el_pending = [], el_observers = [], el_next_obs = 0, el_calls = []\<rparr>"

lemma ex_log_inv: "evlog_inv mem_view mem_hi ex_log"
  by (simp add: evlog_inv_def ex_log_def mem_view_def mem_hi_def)

lemma PartitionOf_one [simp]: "PartitionOf k 1 = Ret 0"
  by (simp add: PartitionOf_def)

lemmas mem_sel = mem_badger_def badger.select_convs

abbreviation ex_marshal :: "change_event \<Rightarrow> string option" where
  "ex_marshal \<equiv> \<lambda>_. Some ''m''"

definition ex_log1 :: "memdb evlog" where
  "ex_log1 = ex_log\<lparr>el_db := (gm_set (dedupIndexKey id (str_bytes ''k'')) (encodePartSeq 0 1)
      (gm_set (encodePartKey 0 1) (str_bytes ''m'') []), [(0, 2)]), el_pending := [0]\<rparr>"

definition ex_log2 :: "memdb evlog" where
  "ex_log2 = ex_log1\<lparr>el_db := (fst (el_db ex_log1), [(0, 3)])\<rparr>"

lemma ex_append1: "Append mem_badger ex_marshal id ex_log (ex_event ''k'') = Ret (Inr 1, ex_log1)"
  by (simp add: Append_def ex_log_def ex_log1_def ex_event_def mem_sel mem_hi_def bg_update_def write_event_def mem_view_def
      notify_def notifyObservers_def gm_get0_def)

lemma ex_append2: "Append mem_badger ex_marshal id ex_log1 (ex_event ''k'') = Ret (Inr 0, ex_log2)"
  by (simp add: Append_def ex_log_def ex_log1_def ex_log2_def ex_event_def mem_sel mem_hi_def bg_update_def write_event_def
      mem_view_def gm_get0_def gomap_simps)

theorem Append_dedup_witness:
  "Append mem_badger ex_marshal id ex_log (ex_event ''k'') = Ret (Inr 1, ex_log1) \<and>
   Append mem_badger ex_marshal id ex_log1 (ex_event ''k'') = Ret (Inr 0, ex_log2) \<and>
   (0 :: u64) = 0 \<and> mem_view (el_db ex_log2) = mem_view (el_db ex_log1) \<and> el_calls ex_log2 = el_calls ex_log1"
  using Append_dedup [OF mem_badger_ok ex_log_inv ex_append1 refl ex_append2] ex_append1 ex_append2 by blast

lemma ex_log1_inv: "evlog_inv mem_view mem_hi ex_log1"
  by (rule Append_inv [OF mem_badger_ok ex_append1 ex_log_inv])

theorem ReadPartition_spec_witness:
  "\<exists>es err. ReadPartition mem_badger (\<lambda>_. False) ex_log1 0 1 256 = Ret (es, err) \<and> length es \<le> 256 \<and>
     sorted_wrt (<) (map le_seq es) \<and>
     (\<forall>e \<in> set es. 1 \<le> le_seq e \<and> le_partition e = 0 \<and>
        (\<exists>v. mem_view (el_db ex_log1) (encodePartKey 0 (le_seq e)) = Some v \<and> le_raw e = bytes_str v)) \<and>
     (\<forall>s. 1 \<le> s \<and> mem_view (el_db ex_log1) (encodePartKey 0 s) \<noteq> None \<and>
        ((\<exists>e \<in> set es. s < le_seq e) \<or> (err = None \<and> length es < 256)) \<longrightarrow> s \<in> le_seq ` set es)"
  using ReadPartition_spec [OF mem_badger_ok ex_log1_inv] by blast

lemma ex_batch: "\<exists>seqs el'. AppendBatch mem_badger ex_marshal id ex_log [ex_event ''k''] = Ret (Inr seqs, el')"
  by (simp add: AppendBatch_def ex_log_def ex_event_def mem_sel mem_hi_def bg_update_def write_event_def mem_view_def
      gm_get0_def chunkRanges_def half_budget_def item_size_def commitChunk_def
      dedupIndexKey_def encodeDedupKey_def encodePartKey_def encodePartSeq_def maxBadgerKeyLen_def)


definition ex_item :: "nat \<Rightarrow> prepared" where
  "ex_item n = \<lparr>pe_partition = 0, pe_val = replicate n 0, pe_dedupKey = [], pe_seq = 1\<rparr>"

theorem chunkRanges_correct_witness:
  "tiles 0 (chunkRanges mem_badger ([], []) [ex_item 1, ex_item 2]) 2 \<and>
   list_all
     (in_budget (half_budget (bg_max_size mem_badger ([], []))) (half_budget (bg_max_count mem_badger ([], [])))
        [ex_item 1, ex_item 2])
     (chunkRanges mem_badger ([], []) [ex_item 1, ex_item 2])"
  using chunkRanges_correct [of mem_badger "([], [])" "[ex_item 1, ex_item 2]"] by (auto simp: list_all_iff eval_nat_numeral)

end
