(* ===== verification/Dlq_Store.thy ===== *)
theory Dlq_Store
  imports Retry_Scheduler "HOL-Library.Char_ord" "HOL-Library.List_Lexorder" "HOL-Library.Product_Lexorder"
    "HOL-Library.Multiset"
begin

text \<open>
  The dead-letter store (\<open>internal/dlq/dlq.go\<close>, \<open>internal/dlq/sqlite.go\<close>): the table as a list of
  rows in insertion order, with a primary key \<open>id\<close> and the unique index on (consumer, event).
  SQL text is modelled by what the statements do; \<open>db_ok\<close> is whether the database reports no error.
  Times are nanoseconds since the epoch, columns hold signed 64-bit integers.
\<close>

section \<open>Rows\<close>

record dlq_row =
  dr_id :: string
  dr_consumer_id :: string
  dr_event_id :: string
  dr_table :: string
  dr_partition :: int
  dr_seq :: int
  dr_attempts :: nat
  dr_reason :: string
  dr_idempotency_key :: string
  dr_payload :: string
  dr_created_ms :: int

record dlq_filter =
  df_consumer :: string
  df_table :: string
  df_older_than :: "int option"
  df_limit :: int

datatype dlq_error = DlqDbError | DlqNotFound

definition UnixMilli :: "int \<Rightarrow> int" where
  "UnixMilli t = t div 1000000"

definition truncateReason :: "string \<Rightarrow> string" where
  "truncateReason s = (if length s \<le> maxReasonBytes then s else take maxReasonBytes s)"

section \<open>Writing\<close>

definition entry_row :: "string \<Rightarrow> int \<Rightarrow> dlq_entry \<Rightarrow> dlq_row" where
  "entry_row new_id now e =
     \<lparr>dr_id = (if dq_id e = [] then new_id else dq_id e), dr_consumer_id = dq_consumer_id e, dr_event_id = dq_event_id e,
      dr_table = dq_table e, dr_partition = uint (dq_partition e), dr_seq = sint (dq_seq e), dr_attempts = dq_attempts e,
      dr_reason = truncateReason (dq_reason e), dr_idempotency_key = dq_idempotency_key e, dr_payload = dq_payload e,
      dr_created_ms = UnixMilli (case dq_created_at e of None \<Rightarrow> now | Some t \<Rightarrow> t)\<rparr>"

definition same_key :: "dlq_row \<Rightarrow> dlq_row \<Rightarrow> bool" where
  "same_key r r' \<longleftrightarrow> dr_consumer_id r = dr_consumer_id r' \<and> dr_event_id r = dr_event_id r'"

text \<open>
  \<open>INSERT ... ON CONFLICT(consumer_id, event_id) DO NOTHING\<close>. A clash of the primary key with
  another row is an error, since the conflict clause does not name it.
\<close>

definition insert_row :: "dlq_row \<Rightarrow> dlq_row list \<Rightarrow> dlq_error + dlq_row list" where
  "insert_row r rows =
     (if list_ex (same_key r) rows then Inr rows
      else if list_ex (\<lambda>x. dr_id x = dr_id r) rows then Inl DlqDbError
      else Inr (rows @ [r]))"

definition Write :: "bool \<Rightarrow> string \<Rightarrow> int \<Rightarrow> dlq_entry \<Rightarrow> dlq_row list \<Rightarrow> dlq_error + dlq_row list" where
  "Write db_ok new_id now e rows = (if db_ok then insert_row (entry_row new_id now e) rows else Inl DlqDbError)"

section \<open>Reading and deleting\<close>

definition scanEntry :: "dlq_row \<Rightarrow> dlq_entry" where
  "scanEntry r =
     \<lparr>dq_id = dr_id r, dq_consumer_id = dr_consumer_id r, dq_event_id = dr_event_id r, dq_table = dr_table r,
      dq_partition = of_int (dr_partition r), dq_seq = of_int (dr_seq r), dq_attempts = dr_attempts r,
      dq_reason = dr_reason r, dq_idempotency_key = dr_idempotency_key r, dq_payload = dr_payload r,
      dq_created_at = Some (dr_created_ms r * 1000000)\<rparr>"

text \<open>The \<open>WHERE\<close> clause \<open>buildFilterQuery\<close> assembles.\<close>

definition row_matches :: "dlq_filter \<Rightarrow> dlq_row \<Rightarrow> bool" where
  "row_matches f r \<longleftrightarrow> (df_consumer f \<noteq> [] \<longrightarrow> dr_consumer_id r = df_consumer f) \<and>
     (df_table f \<noteq> [] \<longrightarrow> dr_table r = df_table f) \<and>
     (case df_older_than f of None \<Rightarrow> True | Some t \<Rightarrow> dr_created_ms r < UnixMilli t)"

definition order_key :: "dlq_row \<Rightarrow> string \<times> int \<times> int" where
  "order_key r = (dr_consumer_id r, dr_partition r, dr_seq r)"

definition dlq_List :: "dlq_filter \<Rightarrow> dlq_row list \<Rightarrow> dlq_entry list" where
  "dlq_List f rows =
     (let sel = sort_key order_key (filter (row_matches f) rows)
      in map scanEntry (if df_limit f > 0 then take (nat (df_limit f)) sel else sel))"

definition dlq_Get :: "string \<Rightarrow> dlq_row list \<Rightarrow> dlq_error + dlq_entry" where
  "dlq_Get i rows = (case find (\<lambda>r. dr_id r = i) rows of None \<Rightarrow> Inl DlqNotFound | Some r \<Rightarrow> Inr (scanEntry r))"

definition dlq_Delete :: "bool \<Rightarrow> string list \<Rightarrow> dlq_row list \<Rightarrow> dlq_error + dlq_row list" where
  "dlq_Delete db_ok ids rows =
     (if ids = [] then Inr rows
      else if \<not> db_ok then Inl DlqDbError
      else Inr (filter (\<lambda>r. dr_id r \<notin> set ids) rows))"

definition Purge :: "bool \<Rightarrow> dlq_filter \<Rightarrow> dlq_row list \<Rightarrow> dlq_error + (nat \<times> dlq_row list)" where
  "Purge db_ok f rows =
     (if \<not> db_ok then Inl DlqDbError
      else Inr (length (filter (row_matches f) rows), filter (\<lambda>r. \<not> row_matches f r) rows))"

section \<open>Invariant\<close>

text \<open>The two uniqueness constraints of the table.\<close>

definition table_ok :: "dlq_row list \<Rightarrow> bool" where
  "table_ok rows \<longleftrightarrow> distinct (map dr_id rows) \<and> distinct (map (\<lambda>r. (dr_consumer_id r, dr_event_id r)) rows)"

lemma Write_ok: "table_ok rows \<Longrightarrow> Write db_ok i now e rows = Inr rows' \<Longrightarrow> table_ok rows'"
proof -
  let ?r = "entry_row i now e"
  assume t: "table_ok rows" and w: "Write db_ok i now e rows = Inr rows'"
  from w have "rows' = rows \<or> rows' = rows @ [?r] \<and> \<not> list_ex (same_key ?r) rows \<and> \<not> list_ex (\<lambda>x. dr_id x = dr_id ?r) rows"
    by (auto simp: Write_def insert_row_def split: if_splits)
  with t show ?thesis by (auto simp: table_ok_def same_key_def list_ex_iff) metis
qed

lemma Delete_ok: "table_ok rows \<Longrightarrow> dlq_Delete db_ok ids rows = Inr rows' \<Longrightarrow> table_ok rows'"
  by (auto simp: dlq_Delete_def table_ok_def distinct_map_filter split: if_splits)

lemma Purge_ok: "table_ok rows \<Longrightarrow> Purge db_ok f rows = Inr (n, rows') \<Longrightarrow> table_ok rows'"
  by (auto simp: Purge_def table_ok_def distinct_map_filter split: if_splits)

section \<open>The interface the retry scheduler relies on\<close>

text \<open>
  The writes a run of the scheduler made, applied to a store. In the locale, \<open>stored st c ev\<close>
  says that the store holds an entry for this consumer and event.
\<close>

definition run_puts :: "(dlq_entry \<Rightarrow> 'st \<Rightarrow> 'st) \<Rightarrow> effect list \<Rightarrow> 'st \<Rightarrow> 'st" where
  "run_puts put effs st = fold (\<lambda>eff st. case eff of EffDLQ d ok \<Rightarrow> if ok then put d st else st | _ \<Rightarrow> st) effs st"

locale dlq_sink =
  fixes put :: "dlq_entry \<Rightarrow> 'st \<Rightarrow> 'st"
    and stored :: "'st \<Rightarrow> string \<Rightarrow> string \<Rightarrow> bool"
  assumes put_stored: "stored (put d st) (dq_consumer_id d) (dq_event_id d)"
    and put_keeps: "stored st c ev \<Longrightarrow> stored (put d st) c ev"
begin

lemma run_puts_keeps: "stored st c ev \<Longrightarrow> stored (run_puts put effs st) c ev"
  unfolding run_puts_def
  by (induction effs arbitrary: st) (auto simp: put_keeps split: effect.splits)

lemma run_puts_stored: "EffDLQ d True \<in> set effs \<Longrightarrow> stored (run_puts put effs st) (dq_consumer_id d) (dq_event_id d)"
proof (induction effs arbitrary: st)
  case (Cons x effs)
  show ?case
  proof (cases "x = EffDLQ d True")
    case True
    have "stored (run_puts put effs (put d st)) (dq_consumer_id d) (dq_event_id d)"
      by (rule run_puts_keeps) (rule put_stored)
    with True show ?thesis by (simp add: run_puts_def)
  next
    case False
    with Cons show ?thesis by (simp add: run_puts_def)
  qed
qed simp

end

text \<open>A write the store accepted; the address of a fresh identifier is the number of rows so far.\<close>

definition accepted :: "(nat \<Rightarrow> string) \<Rightarrow> int \<Rightarrow> dlq_entry \<Rightarrow> dlq_row list \<Rightarrow> dlq_row list" where
  "accepted idgen now d rows =
     (let r = entry_row (idgen (length rows)) now d
      in if list_ex (same_key r) rows then rows else rows @ [r])"

definition in_table :: "dlq_row list \<Rightarrow> string \<Rightarrow> string \<Rightarrow> bool" where
  "in_table rows c ev \<longleftrightarrow> list_ex (\<lambda>r. dr_consumer_id r = c \<and> dr_event_id r = ev) rows"

lemma Write_accepted: "Write db_ok (idgen (length rows)) now d rows = Inr rows' \<Longrightarrow> rows' = accepted idgen now d rows"
  by (auto simp: Write_def insert_row_def accepted_def Let_def split: if_splits)

interpretation sqlite: dlq_sink "accepted idgen now" in_table for idgen now
  by unfold_locales (auto simp: accepted_def in_table_def same_key_def entry_row_def Let_def list_ex_iff)

section \<open>Properties\<close>

text \<open>
  DLQ-02: writing is idempotent on (consumer, event). After a successful write, writing
  any entry for the same consumer and event again, with whatever identifier, time and contents,
  succeeds and changes nothing, and the table satisfies both uniqueness constraints throughout.
\<close>

theorem Write_idempotent:
  assumes "table_ok rows" "Write db_ok i now e rows = Inr rows1"
    and "dq_consumer_id e' = dq_consumer_id e" "dq_event_id e' = dq_event_id e"
  shows "table_ok rows1 \<and> Write True i' now' e' rows1 = Inr rows1"
  using assms Write_ok [OF assms(1,2)]
  by (auto simp: Write_def insert_row_def same_key_def entry_row_def list_ex_iff split: if_splits)

lemma find_append_new: "\<not> list_ex P xs \<Longrightarrow> P y \<Longrightarrow> find P (xs @ [y]) = Some y"
  by (induction xs) auto

lemma of_int_sint [simp]: "of_int (sint (x :: u64)) = x"
  by simp

text \<open>
  What is written can be read back: a write that stores a new row makes \<open>Get\<close> return the
  entry with the same partition and sequence number, although the columns are signed, and the
  same payload; only the reason is cut to 1024 bytes and the time to milliseconds.
\<close>

theorem Get_Write:
  assumes "Write db_ok i now e rows = Inr rows1" "rows1 \<noteq> rows" "dq_id e = []"
  shows "dlq_Get i rows1 = Inr (e\<lparr>dq_id := i, dq_reason := take 1024 (dq_reason e),
     dq_created_at := Some (UnixMilli (case dq_created_at e of None \<Rightarrow> now | Some t \<Rightarrow> t) * 1000000)\<rparr>)"
proof -
  let ?r = "entry_row i now e"
  have r: "rows1 = rows @ [?r]" and new: "\<not> list_ex (\<lambda>x. dr_id x = dr_id ?r) rows"
    using assms(1,2) by (auto simp: Write_def insert_row_def split: if_splits)
  have id: "dr_id ?r = i" using assms(3) by (simp add: entry_row_def)
  have "find (\<lambda>x. dr_id x = i) rows1 = Some ?r"
    using find_append_new [of "\<lambda>x. dr_id x = i" rows ?r] new by (simp add: r id)
  moreover have "scanEntry ?r = e\<lparr>dq_id := i, dq_reason := take 1024 (dq_reason e),
     dq_created_at := Some (UnixMilli (case dq_created_at e of None \<Rightarrow> now | Some t \<Rightarrow> t) * 1000000)\<rparr>"
    using assms(3) by (simp add: scanEntry_def entry_row_def truncateReason_def maxReasonBytes_def)
  ultimately show ?thesis by (simp add: dlq_Get_def)
qed

text \<open>
  \<open>List\<close> returns the matching entries in the order (consumer, partition, sequence), all of
  them when there is no limit or it is not reached, and with a limit the first ones of that order.
\<close>

theorem List_correct:
  "\<exists>sel. sorted (map order_key sel) \<and> mset sel = mset (filter (row_matches f) rows) \<and>
     dlq_List f rows = map scanEntry (if df_limit f > 0 then take (nat (df_limit f)) sel else sel)"
  by (rule exI [of _ "sort_key order_key (filter (row_matches f) rows)"]) (simp add: dlq_List_def Let_def)

text \<open>
  \<open>Purge\<close> removes exactly the rows its filter selects, whatever the limit, reports how many,
  and leaves the rest; afterwards the same filter lists nothing.
\<close>

theorem Purge_correct:
  assumes "Purge db_ok f rows = Inr (n, rows1)"
  shows "n + length rows1 = length rows \<and> dlq_List f rows1 = [] \<and> (\<forall>r. r \<in> set rows1 \<longleftrightarrow> r \<in> set rows \<and> \<not> row_matches f r)"
proof -
  have "length (filter (row_matches f) rows) + length (filter (\<lambda>r. \<not> row_matches f r) rows) = length rows"
    by (rule sum_length_filter_compl)
  moreover have "filter (row_matches f) (filter (\<lambda>r. \<not> row_matches f r) rows) = []" by (simp add: filter_empty_conv)
  ultimately show ?thesis using assms by (auto simp: Purge_def dlq_List_def Let_def split: if_splits)
qed

text \<open>
  Dead-lettering is durable end to end: draining a group with a store configured leaves a
  suffix of its queue, and once the drain's accepted writes are in the SQLite table, every removed
  entry was either delivered or has its row, keyed by the entry's event identifier.
\<close>

theorem drained_entries_stored:
  assumes "rs_inv pf rs" "rs_dlq rs" "drainGroup marshal envs c g rs = Ret (rs', effs)"
  shows "\<exists>gone. queued rs c g = gone @ queued rs' c g \<and>
    (\<forall>e \<in> set gone. EffDeliver c e None \<in> set effs \<or>
       (\<exists>c' ev. le_event e = Some ev \<and> in_table (run_puts (accepted idgen now) effs rows) c' (ev_id ev)))"
proof -
  obtain gone where q: "queued rs c g = gone @ queued rs' c g" "\<forall>e \<in> set gone. accounted True c effs e"
    using drainGroup_spec [OF assms(1,3)] assms(2) by auto
  have "EffDeliver c e None \<in> set effs \<or>
       (\<exists>c' ev. le_event e = Some ev \<and> in_table (run_puts (accepted idgen now) effs rows) c' (ev_id ev))"
    if "e \<in> set gone" for e
  proof -
    have "accounted True c effs e" using q(2) that by blast
    then obtain x where x: "x \<in> set effs" "x = EffDeliver c e None \<or>
        (\<exists>d ev. x = EffDLQ d True \<and> le_event e = Some ev \<and> ev_id ev = dq_event_id d)"
      unfolding accounted_def list_ex_iff by (auto split: effect.splits)
    then show ?thesis
    proof (elim disjE exE conjE)
      fix d ev assume "x = EffDLQ d True" "le_event e = Some ev" "ev_id ev = dq_event_id d"
      with x(1) sqlite.run_puts_stored [of d effs idgen now rows] show ?thesis by auto
    qed (use x in auto)
  qed
  with q(1) show ?thesis by blast
qed

text \<open>
  Entries whose event was never decoded collide: the entries built for two such records of
  one consumer carry the same empty event identifier, so the second write reports success and
  stores nothing, whatever its sequence number and payload.
\<close>

theorem undecoded_entries_collide:
  assumes "le_event (rr_entry r1) = None" "le_event (rr_entry r2) = None" "rr_consumer_id r2 = rr_consumer_id r1"
    and "Write True i1 now1 (buildDLQEntry marshal r1) rows = Inr rows1"
  shows "Write True i2 now2 (buildDLQEntry marshal r2) rows1 = Inr rows1"
  using assms
  by (auto simp: Write_def insert_row_def same_key_def entry_row_def list_ex_iff split: if_splits)

section \<open>Examples\<close>

definition ex_dlq_entry :: "string \<Rightarrow> dlq_entry" where
  "ex_dlq_entry ev = \<lparr>dq_id = [], dq_consumer_id = ''c'', dq_event_id = ev, dq_table = ''t'', dq_partition = 3, dq_seq = 9,
     dq_attempts = 15, dq_reason = ''boom'', dq_idempotency_key = ''k'', dq_payload = ''p'', dq_created_at = None\<rparr>"

lemma ex_write: "Write True ''i1'' 5000000 (ex_dlq_entry ''e1'') [] = Inr [entry_row ''i1'' 5000000 (ex_dlq_entry ''e1'')]"
  by (simp add: Write_def insert_row_def)

theorem Write_idempotent_witness:
  "table_ok [entry_row ''i1'' 5000000 (ex_dlq_entry ''e1'')] \<and>
   Write True ''i2'' 7 (ex_dlq_entry ''e1'') [entry_row ''i1'' 5000000 (ex_dlq_entry ''e1'')] =
     Inr [entry_row ''i1'' 5000000 (ex_dlq_entry ''e1'')]"
  by (rule Write_idempotent [OF _ ex_write]) (simp_all add: table_ok_def)

theorem Get_Write_witness:
  "dlq_Get ''i1'' [entry_row ''i1'' 5000000 (ex_dlq_entry ''e1'')] =
     Inr ((ex_dlq_entry ''e1'')\<lparr>dq_id := ''i1'', dq_reason := take 1024 (dq_reason (ex_dlq_entry ''e1'')),
       dq_created_at := Some 5000000\<rparr>)"
  using Get_Write [OF ex_write] by (simp add: ex_dlq_entry_def UnixMilli_def)

theorem Purge_correct_witness:
  "1 + length [] = length [entry_row ''i1'' 5000000 (ex_dlq_entry ''e1'')] \<and>
   dlq_List \<lparr>df_consumer = ''c'', df_table = [], df_older_than = None, df_limit = 0\<rparr> [] = []"
proof -
  let ?f = "\<lparr>df_consumer = ''c'', df_table = [], df_older_than = None, df_limit = 0\<rparr>"
  have "Purge True ?f [entry_row ''i1'' 5000000 (ex_dlq_entry ''e1'')] = Inr (1, [])"
    by (simp add: Purge_def row_matches_def entry_row_def ex_dlq_entry_def)
  from Purge_correct [OF this] show ?thesis by auto
qed

definition ex_dead :: "string \<Rightarrow> retry_record" where
  "ex_dead raw = \<lparr>rr_ref = 0, rr_entry = \<lparr>le_seq = 7, le_partition = 0, le_event = None, le_raw = raw\<rparr>, rr_attempts = 1,
     rr_next_retry_at = 0, rr_consumer_id = ''c'', rr_last_err = None\<rparr>"

theorem undecoded_entries_collide_witness:
  "\<exists>rows1. Write True ''i1'' 1 (buildDLQEntry (\<lambda>_. None) (ex_dead ''one'')) [] = Inr rows1 \<and>
     Write True ''i2'' 2 (buildDLQEntry (\<lambda>_. None) (ex_dead ''two'')) rows1 = Inr rows1"
proof -
  obtain rows1 where w: "Write True ''i1'' 1 (buildDLQEntry (\<lambda>_. None) (ex_dead ''one'')) [] = Inr rows1"
    by (simp add: Write_def insert_row_def)
  from undecoded_entries_collide [OF _ _ _ w, of "ex_dead ''two''" "''i2''" 2] w show ?thesis
    by (auto simp: ex_dead_def)
qed

definition ex_alive :: change_event where
  "ex_alive = \<lparr>ev_id = ''e'', ev_idempotency_key = ''k'', ev_timestamp = 0, ev_source = ''s'', ev_operation = OpInsert,
     ev_database = ''d'', ev_schema = ''public'', ev_table = ''t'', ev_key = Some ''1'', ev_before = None, ev_after = None,
     ev_metadata = [], ev_ai_context = None\<rparr>"

definition ex_sched :: retry_scheduler where
  "ex_sched = AddBlocked ''c'' ''g'' \<lparr>rr_ref = 0, rr_entry = \<lparr>le_seq = 7, le_partition = 0, le_event = Some ex_alive, le_raw = ''r''\<rparr>,
     rr_attempts = 1, rr_next_retry_at = 0, rr_consumer_id = ''c'', rr_last_err = None\<rparr> (rs_SetDLQ True NewRetryScheduler)"

definition ex_refuse :: drain_env where
  "ex_refuse = \<lparr>de_now = 1, de_deliver = Some (PermanentError ''bad''), de_now2 = 1, de_write = None, de_rnd = (\<lambda>_. 0)\<rparr>"

lemma ex_sched_inv: "rs_inv (\<lambda>_. 0) ex_sched" "rs_dlq ex_sched"
  unfolding ex_sched_def by (rule AddBlocked_inv) (simp_all add: rs_inv_def rs_SetDLQ_def NewRetryScheduler_def)

lemma ex_sched_queued: "\<forall>e \<in> set (queued ex_sched ''c'' ''g''). le_event e \<noteq> None"
  by (auto simp: ex_sched_def queued_def BlockedQueue_AddBlocked)
    (simp add: BlockedQueue_def rs_SetDLQ_def NewRetryScheduler_def)

theorem drained_entries_stored_witness:
  "\<exists>rs' effs gone. drainGroup (\<lambda>_. None) [ex_refuse] ''c'' ''g'' ex_sched = Ret (rs', effs) \<and>
     queued ex_sched ''c'' ''g'' = gone @ queued rs' ''c'' ''g'' \<and>
     (\<forall>e \<in> set gone. EffDeliver ''c'' e None \<in> set effs \<or>
       (\<exists>c' ev. le_event e = Some ev \<and> in_table (run_puts (accepted (\<lambda>n. dec_str n) 0) effs []) c' (ev_id ev)))"
proof -
  obtain rs' effs where d: "drainGroup (\<lambda>_. None) [ex_refuse] ''c'' ''g'' ex_sched = Ret (rs', effs)"
    using drainGroup_total [OF ex_sched_inv(1) ex_sched_queued, of "\<lambda>_. None" "[ex_refuse]"]
    by (cases "drainGroup (\<lambda>_. None) [ex_refuse] ''c'' ''g'' ex_sched") (auto simp del: drainGroup.simps)
  from drained_entries_stored [OF ex_sched_inv d, of "\<lambda>n. dec_str n" 0 "[]"] d show ?thesis by blast
qed

end
