(* ===== verification/Go_Strings.thy ===== *)
theory Go_Strings
  imports Kaptanto_Prelude
begin

text \<open>
  The parts of Go's \<open>unicode\<close> and \<open>strings\<close> packages the sources use: character classes, case
  folding, \<open>TrimSpace\<close> on UTF-8 and \<open>Join\<close>.
\<close>

section \<open>Characters\<close>

definition code :: "char \<Rightarrow> nat" where "code c = of_char c"

text \<open>\<open>unicode.IsSpace\<close>, \<open>IsDigit\<close> and \<open>IsLetter\<close> of the rune of a single byte (Latin-1).\<close>

definition IsSpace :: "char \<Rightarrow> bool" where
  "IsSpace c \<longleftrightarrow> code c \<in> {9, 10, 11, 12, 13, 32, 133, 160}"

definition IsDigit :: "char \<Rightarrow> bool" where
  "IsDigit c \<longleftrightarrow> 48 \<le> code c \<and> code c \<le> 57"

definition IsLetter :: "char \<Rightarrow> bool" where
  "IsLetter c \<longleftrightarrow> (65 \<le> code c \<and> code c \<le> 90) \<or> (97 \<le> code c \<and> code c \<le> 122) \<or> code c \<in> {170, 181, 186} \<or>
     (192 \<le> code c \<and> code c \<noteq> 215 \<and> code c \<noteq> 247)"

definition upper :: "char \<Rightarrow> char" where
  "upper c = (if 97 \<le> code c \<and> code c \<le> 122 then char_of (code c - 32) else c)"

text \<open>
  \<open>strings.ToUpper\<close> and \<open>strings.EqualFold\<close> on the identifiers the tokenizer produces; the
  non-ASCII letters that fold to ASCII ones have bytes that end an identifier.
\<close>

definition ToUpper :: "string \<Rightarrow> string" where
  "ToUpper s = map upper s"

definition EqualFold :: "string \<Rightarrow> string \<Rightarrow> bool" where
  "EqualFold s t \<longleftrightarrow> ToUpper s = ToUpper t"

text \<open>The UTF-8 encodings of the white space that \<open>strings.TrimSpace\<close> removes.\<close>

definition bytes_of :: "nat list \<Rightarrow> string" where
  "bytes_of ns = map char_of ns"

definition space_seqs :: "string list" where
  "space_seqs = map bytes_of ([[9], [10], [11], [12], [13], [32], [194, 133], [194, 160], [225, 154, 128]] @
     map (\<lambda>n. [226, 128, n]) [128, 129, 130, 131, 132, 133, 134, 135, 136, 137, 138, 168, 169, 175] @
     [[226, 129, 159], [227, 128, 128]])"

fun strip_one :: "string list \<Rightarrow> string \<Rightarrow> string option" where
  "strip_one [] s = None"
| "strip_one (w # ws) s = (if w \<noteq> [] \<and> take (length w) s = w then Some (drop (length w) s) else strip_one ws s)"

lemma strip_one_shorter: "strip_one ws s = Some t \<Longrightarrow> length t < length s"
proof (induction ws s rule: strip_one.induct)
  case (2 w ws s)
  show ?case
  proof (cases "w \<noteq> [] \<and> take (length w) s = w")
    case True
    then have "s \<noteq> []" by auto
    with True "2.prems" show ?thesis by (cases w) auto
  qed (use 2 in auto)
qed simp

function trim_left :: "string list \<Rightarrow> string \<Rightarrow> string" where
  "trim_left ws s = (case strip_one ws s of None \<Rightarrow> s | Some t \<Rightarrow> trim_left ws t)"
  by pat_completeness auto
termination by (relation "measure (\<lambda>(ws, s). length s)") (auto simp: strip_one_shorter)

declare trim_left.simps [simp del]

definition TrimSpace :: "string \<Rightarrow> string" where
  "TrimSpace s = rev (trim_left (map rev space_seqs) (rev (trim_left space_seqs s)))"

text \<open>\<open>strings.Join\<close>.\<close>

fun join :: "string list \<Rightarrow> string \<Rightarrow> string" where
  "join [] sep = []"
| "join [x] sep = x"
| "join (x # y # xs) sep = x @ sep @ join (y # xs) sep"

section \<open>Trimming\<close>

definition solid :: "char \<Rightarrow> bool" where
  "solid c \<longleftrightarrow> code c < 128 \<and> \<not> IsSpace c"

lemma strip_none:
  assumes "solid c" "\<forall>w \<in> set ws. w \<noteq> [] \<longrightarrow> \<not> solid (hd w)"
  shows "strip_one ws (c # s) = None"
  using assms
proof (induction ws)
  case (Cons w ws)
  then show ?case by (cases w) auto
qed simp

lemma not_solid_seqs: "\<forall>w \<in> set space_seqs. w \<noteq> [] \<longrightarrow> \<not> solid (hd w)" "\<forall>w \<in> set (map rev space_seqs). w \<noteq> [] \<longrightarrow> \<not> solid (hd w)"
  by (simp_all add: space_seqs_def bytes_of_def solid_def IsSpace_def code_def)

lemma TrimSpace_solid: "s \<noteq> [] \<Longrightarrow> solid (hd s) \<Longrightarrow> solid (last s) \<Longrightarrow> TrimSpace s = s"
proof -
  assume s: "s \<noteq> []" "solid (hd s)" "solid (last s)"
  obtain c cs where c: "s = c # cs" using s(1) by (cases s) auto
  obtain ds d where d: "s = ds @ [d]" using s(1) by (cases s rule: rev_cases) auto
  have "trim_left space_seqs s = s"
    using strip_none [OF _ not_solid_seqs(1), of c cs] s c by (simp add: trim_left.simps)
  moreover have "trim_left (map rev space_seqs) (rev s) = rev s"
    using strip_none [OF _ not_solid_seqs(2), of d "rev ds"] s d by (simp add: trim_left.simps)
  ultimately show ?thesis by (simp add: TrimSpace_def)
qed

end
