(* ===== verification/Row_Filter.thy ===== *)
theory Row_Filter
  imports Change_Event Eventlog_Keys Go_Strings
begin

text \<open>
  Row, event and column filters (\<open>internal/output/row_filter.go\<close>, \<open>filter.go\<close>,
  \<open>column_filter.go\<close>): the tokenizer, the recursive-descent parser and the evaluator of the
  \<open>WHERE\<close> expressions of the configuration. Decimal conversion (\<open>strconv.ParseFloat\<close>,
  \<open>FormatFloat\<close>), \<open>fmt.Sprintf\<close> on composite values and the JSON codec are arguments, so the
  results hold for every such function. The parser takes fuel; enough fuel is proved to exist.
\<close>

section \<open>Tokens\<close>

datatype token =
    TokIdent string
  | TokString string
  | TokNumber string
  | TokOp string
  | TokLParen
  | TokRParen
  | TokComma
  | TokEOF

datatype filter_error =
    UnterminatedString nat
  | UnexpectedChar char nat
  | ExpectedRParen token
  | ExpectedColumn token
  | UnsupportedClause string
  | ExpectedNull token
  | ExpectedLParen token
  | ExpectedOperator string token
  | InvalidNumber string
  | ExpectedValue token
  | UnexpectedToken token
  | MalformedBefore
  | MalformedAfter

definition ident_char :: "char \<Rightarrow> bool" where
  "ident_char c \<longleftrightarrow> IsLetter c \<or> IsDigit c \<or> c = CHR ''_'' \<or> c = CHR ''.''"

definition number_char :: "char \<Rightarrow> bool" where
  "number_char c \<longleftrightarrow> IsDigit c \<or> c = CHR ''.''"

text \<open>\<open>tokenize\<close> from position \<open>i\<close> on the rest \<open>s\<close> of the input.\<close>

function tokenize :: "nat \<Rightarrow> string \<Rightarrow> filter_error + token list" where
  "tokenize i [] = Inr [TokEOF]"
| "tokenize i (c # cs) =
     (let emit = (\<lambda>t n. map_sum id (Cons t) (tokenize (i + Suc n) (drop n cs)))
      in if IsSpace c then tokenize (Suc i) cs
         else if c = CHR 0x27 then
           (let lit = takeWhile (\<lambda>x. x \<noteq> CHR 0x27) cs
            in if length lit = length cs then Inl (UnterminatedString i)
               else emit (TokString lit) (length lit + 1))
         else if c = CHR ''('' then emit TokLParen 0
         else if c = CHR '')'' then emit TokRParen 0
         else if c = CHR '','' then emit TokComma 0
         else if c = CHR ''!'' \<and> take 1 cs = ''='' then emit (TokOp ''!='') 1
         else if c = CHR ''>'' \<and> take 1 cs = ''='' then emit (TokOp ''>='') 1
         else if c = CHR ''<'' \<and> take 1 cs = ''='' then emit (TokOp ''<='') 1
         else if c = CHR ''>'' then emit (TokOp ''>'') 0
         else if c = CHR ''<'' then emit (TokOp ''<'') 0
         else if c = CHR ''='' then emit (TokOp ''='') 0
         else if IsDigit c \<or> (c = CHR ''-'' \<and> cs \<noteq> [] \<and> IsDigit (hd cs)) then
           (let ds = takeWhile number_char cs in emit (TokNumber (c # ds)) (length ds))
         else if IsLetter c \<or> c = CHR ''_'' then
           (let ds = takeWhile ident_char cs in emit (TokIdent (c # ds)) (length ds))
         else Inl (UnexpectedChar c i))"
  by pat_completeness auto
termination by (relation "measure (\<lambda>(i, s). length s)") auto

declare tokenize.simps(2) [simp del]

section \<open>Syntax trees\<close>

datatype lit = LStr string | LNum float64 | LNull

datatype expr =
    OrNode expr expr
  | AndNode expr expr
  | NotNode expr
  | CompareNode string string lit
  | IsNullNode string bool
  | InNode string "lit list"

section \<open>Parser\<close>

datatype 'a pres = POk 'a "token list" | PErr filter_error | POut

definition peek :: "token list \<Rightarrow> token" where
  "peek ts = (case ts of [] \<Rightarrow> TokEOF | t # _ \<Rightarrow> t)"

definition isKeyword :: "string \<Rightarrow> token list \<Rightarrow> bool" where
  "isKeyword kw ts = (case peek ts of TokIdent v \<Rightarrow> EqualFold v kw | _ \<Rightarrow> False)"

definition isReservedClause :: "string \<Rightarrow> bool" where
  "isReservedClause u \<longleftrightarrow> u \<in> set [''BETWEEN'', ''LIKE'', ''ILIKE'', ''EXISTS'', ''CASE'', ''WHEN'', ''THEN'', ''ELSE'', ''END'',
     ''SELECT'', ''FROM'', ''WHERE'', ''GROUP'', ''ORDER'', ''HAVING'', ''LIMIT'', ''OFFSET'', ''JOIN'', ''INNER'', ''LEFT'',
     ''RIGHT'', ''OUTER'', ''CROSS'', ''UNION'', ''INTERSECT'', ''EXCEPT'']"

definition parseValue :: "(string \<Rightarrow> float64 option) \<Rightarrow> token list \<Rightarrow> lit pres" where
  "parseValue parse_float ts =
     (case peek ts of
        TokString v \<Rightarrow> POk (LStr v) (tl ts)
      | TokNumber v \<Rightarrow> (case parse_float v of None \<Rightarrow> PErr (InvalidNumber v) | Some f \<Rightarrow> POk (LNum f) (tl ts))
      | TokIdent v \<Rightarrow> if EqualFold v ''NULL'' then POk LNull (tl ts) else PErr (ExpectedValue (peek ts))
      | t \<Rightarrow> PErr (ExpectedValue t))"

fun in_list :: "(string \<Rightarrow> float64 option) \<Rightarrow> nat \<Rightarrow> token list \<Rightarrow> lit list pres" where
  "in_list pf 0 ts = POut"
| "in_list pf (Suc n) ts =
     (case parseValue pf ts of
        PErr e \<Rightarrow> PErr e
      | POut \<Rightarrow> POut
      | POk v ts1 \<Rightarrow>
          if peek ts1 = TokComma
          then (case in_list pf n (tl ts1) of POk vs ts2 \<Rightarrow> POk (v # vs) ts2 | PErr e \<Rightarrow> PErr e | POut \<Rightarrow> POut)
          else POk [v] ts1)"

text \<open>The comparisons that follow a column name.\<close>

definition parse_column :: "(string \<Rightarrow> float64 option) \<Rightarrow> string \<Rightarrow> token list \<Rightarrow> expr pres" where
  "parse_column pf col ts =
     (if isKeyword ''IS'' ts then
        (let ts1 = tl ts;
             notNull = isKeyword ''NOT'' ts1;
             ts2 = (if notNull then tl ts1 else ts1)
         in if \<not> isKeyword ''NULL'' ts2 then PErr (ExpectedNull (peek ts2)) else POk (IsNullNode col notNull) (tl ts2))
      else if isKeyword ''IN'' ts then
        (if peek (tl ts) \<noteq> TokLParen then PErr (ExpectedLParen (peek (tl ts)))
         else case in_list pf (Suc (length ts)) (tl (tl ts)) of
                PErr e \<Rightarrow> PErr e
              | POut \<Rightarrow> POut
              | POk vs ts1 \<Rightarrow> if peek ts1 \<noteq> TokRParen then PErr (ExpectedRParen (peek ts1)) else POk (InNode col vs) (tl ts1))
      else case peek ts of
             TokOp op \<Rightarrow> (case parseValue pf (tl ts) of
                            PErr e \<Rightarrow> PErr e | POut \<Rightarrow> POut | POk v ts1 \<Rightarrow> POk (CompareNode col op v) ts1)
           | t \<Rightarrow> PErr (ExpectedOperator col t))"

text \<open>
  The mutually recursive functions \<open>parseOrExpr\<close> (also \<open>parseExpr\<close>), \<open>parseAndExpr\<close>,
  \<open>parseNotExpr\<close>, \<open>parsePrimary\<close> and the loops of the first two, as one recursion on the fuel.
\<close>

datatype call = OrExpr | OrLoop expr | AndExpr | AndLoop expr | NotExpr | Primary

primrec parse :: "(string \<Rightarrow> float64 option) \<Rightarrow> nat \<Rightarrow> call \<Rightarrow> token list \<Rightarrow> expr pres" where
  "parse pf 0 k ts = POut"
| "parse pf (Suc n) k ts =
     (case k of
        OrExpr \<Rightarrow>
          (case parse pf n AndExpr ts of PErr e \<Rightarrow> PErr e | POut \<Rightarrow> POut | POk l ts1 \<Rightarrow> parse pf n (OrLoop l) ts1)
      | OrLoop l \<Rightarrow>
          (if isKeyword ''OR'' ts
           then (case parse pf n AndExpr (tl ts) of
                   PErr e \<Rightarrow> PErr e | POut \<Rightarrow> POut | POk r ts1 \<Rightarrow> parse pf n (OrLoop (OrNode l r)) ts1)
           else POk l ts)
      | AndExpr \<Rightarrow>
          (case parse pf n NotExpr ts of PErr e \<Rightarrow> PErr e | POut \<Rightarrow> POut | POk l ts1 \<Rightarrow> parse pf n (AndLoop l) ts1)
      | AndLoop l \<Rightarrow>
          (if isKeyword ''AND'' ts
           then (case parse pf n NotExpr (tl ts) of
                   PErr e \<Rightarrow> PErr e | POut \<Rightarrow> POut | POk r ts1 \<Rightarrow> parse pf n (AndLoop (AndNode l r)) ts1)
           else POk l ts)
      | NotExpr \<Rightarrow>
          (if isKeyword ''NOT'' ts
           then (case parse pf n NotExpr (tl ts) of PErr e \<Rightarrow> PErr e | POut \<Rightarrow> POut | POk c ts1 \<Rightarrow> POk (NotNode c) ts1)
           else parse pf n Primary ts)
      | Primary \<Rightarrow>
          (case peek ts of
             TokLParen \<Rightarrow>
               (case parse pf n OrExpr (tl ts) of
                  PErr e \<Rightarrow> PErr e
                | POut \<Rightarrow> POut
                | POk inner ts1 \<Rightarrow> if peek ts1 \<noteq> TokRParen then PErr (ExpectedRParen (peek ts1)) else POk inner (tl ts1))
           | TokIdent col \<Rightarrow> if isReservedClause (ToUpper col) then PErr (UnsupportedClause col) else parse_column pf col (tl ts)
           | t \<Rightarrow> PErr (ExpectedColumn t)))"

text \<open>The fuel of the top call: six levels of calls per token.\<close>

definition parse_fuel :: "token list \<Rightarrow> nat" where
  "parse_fuel ts = 6 * length ts + 6"

text \<open>\<open>ParseRowFilter\<close>: \<open>Inr None\<close> is the filter that matches everything.\<close>

definition ParseRowFilter :: "(string \<Rightarrow> float64 option) \<Rightarrow> string \<Rightarrow> filter_error + expr option" where
  "ParseRowFilter pf s =
     (let s' = TrimSpace s
      in if s' = [] then Inr None
         else case tokenize 0 s' of
                Inl e \<Rightarrow> Inl e
              | Inr ts \<Rightarrow>
                  (case parse pf (parse_fuel ts) OrExpr ts of
                     PErr e \<Rightarrow> Inl e
                   | POut \<Rightarrow> Inl (UnexpectedToken TokEOF)
                   | POk e rest \<Rightarrow> if peek rest = TokEOF then Inr (Some e) else Inl (UnexpectedToken (peek rest))))"

section \<open>Evaluation\<close>

record row_context =
  rc_before :: "(string, json) gomap option"
  rc_after :: "(string, json) gomap option"
  rc_default :: "(string, json) gomap option"

definition CutPrefix :: "string \<Rightarrow> string \<Rightarrow> string option" where
  "CutPrefix s p = (if take (length p) s = p then Some (drop (length p) s) else None)"

text \<open>Value (nil when absent), whether the key exists, whether the row side is nil.\<close>

definition lookup_side :: "(string, json) gomap option \<Rightarrow> string \<Rightarrow> json \<times> bool \<times> bool" where
  "lookup_side side k =
     (case side of
        None \<Rightarrow> (JNull, False, True)
      | Some m \<Rightarrow> (case gm_get m k of None \<Rightarrow> (JNull, False, False) | Some v \<Rightarrow> (v, True, False)))"

definition resolveColumn :: "row_context \<Rightarrow> string \<Rightarrow> json \<times> bool \<times> bool" where
  "resolveColumn rc column =
     (case CutPrefix column ''before.'' of
        Some r \<Rightarrow> lookup_side (rc_before rc) r
      | None \<Rightarrow>
          (case CutPrefix column ''after.'' of
             Some r \<Rightarrow> lookup_side (rc_after rc) r
           | None \<Rightarrow> lookup_side (rc_default rc) column))"

text \<open>What the comparison uses of the standard library.\<close>

record convs =
  cv_parse :: "string \<Rightarrow> float64 option"
  cv_format :: "float64 \<Rightarrow> string"
  cv_sprint :: "json \<Rightarrow> string"

definition toFloat64 :: "convs \<Rightarrow> json \<Rightarrow> float64 option" where
  "toFloat64 cv v = (case v of JNum x \<Rightarrow> Some x | JStr s \<Rightarrow> cv_parse cv s | _ \<Rightarrow> None)"

definition anyToString :: "convs \<Rightarrow> json \<Rightarrow> string" where
  "anyToString cv v =
     (case v of
        JNull \<Rightarrow> []
      | JStr s \<Rightarrow> s
      | JNum x \<Rightarrow> cv_format cv x
      | JBool b \<Rightarrow> if b then ''true'' else ''false''
      | _ \<Rightarrow> cv_sprint cv v)"

definition lit_json :: "lit \<Rightarrow> json" where
  "lit_json l = (case l of LStr s \<Rightarrow> JStr s | LNum x \<Rightarrow> JNum x | LNull \<Rightarrow> JNull)"

definition str_less :: "string \<Rightarrow> string \<Rightarrow> bool" where
  "str_less a b = bytes_less (str_bytes a) (str_bytes b)"

definition compare_float :: "float64 \<Rightarrow> string \<Rightarrow> float64 \<Rightarrow> bool option" where
  "compare_float a op b =
     (if op = ''='' then Some (f64_eq a b)
      else if op = ''!='' then Some (\<not> f64_eq a b)
      else if op = ''>'' then Some (f64_less b a)
      else if op = ''<'' then Some (f64_less a b)
      else if op = ''>='' then Some (f64_less b a \<or> f64_eq a b)
      else if op = ''<='' then Some (f64_less a b \<or> f64_eq a b)
      else None)"

definition compare_string :: "string \<Rightarrow> string \<Rightarrow> string \<Rightarrow> bool" where
  "compare_string a op b =
     (if op = ''='' then a = b
      else if op = ''!='' then a \<noteq> b
      else if op = ''>'' then str_less b a
      else if op = ''<'' then str_less a b
      else if op = ''>='' then str_less b a \<or> a = b
      else if op = ''<='' then str_less a b \<or> a = b
      else False)"

text \<open>An unknown operator falls out of the numeric switch into the string comparison.\<close>

definition compareValues :: "convs \<Rightarrow> json \<Rightarrow> string \<Rightarrow> lit \<Rightarrow> bool" where
  "compareValues cv colVal op l =
     (case (toFloat64 cv colVal, toFloat64 cv (lit_json l)) of
        (Some a, Some b) \<Rightarrow>
          (case compare_float a op b of
             Some r \<Rightarrow> r
           | None \<Rightarrow> compare_string (anyToString cv colVal) op (anyToString cv (lit_json l)))
      | _ \<Rightarrow> compare_string (anyToString cv colVal) op (anyToString cv (lit_json l)))"

fun eval_expr :: "convs \<Rightarrow> row_context \<Rightarrow> expr \<Rightarrow> bool" where
  "eval_expr cv rc (OrNode a b) = (eval_expr cv rc a \<or> eval_expr cv rc b)"
| "eval_expr cv rc (AndNode a b) = (eval_expr cv rc a \<and> eval_expr cv rc b)"
| "eval_expr cv rc (NotNode a) = (\<not> eval_expr cv rc a)"
| "eval_expr cv rc (CompareNode col op v) =
     (let (x, _, sideNil) = resolveColumn rc col in if sideNil then False else compareValues cv x op v)"
| "eval_expr cv rc (IsNullNode col notNull) =
     (let (x, exists, sideNil) = resolveColumn rc col;
          isNull = (sideNil \<or> \<not> exists \<or> x = JNull)
      in if notNull then \<not> isNull else isNull)"
| "eval_expr cv rc (InNode col vs) =
     (let (x, _, sideNil) = resolveColumn rc col in if sideNil then False else list_ex (compareValues cv x ''='') vs)"

text \<open>
  \<open>Match\<close>. \<open>unmarshal\<close> is \<open>json.Unmarshal\<close> into a map: \<^term>\<open>None\<close> on an error, \<^term>\<open>Some None\<close>
  for a JSON null, which leaves the map nil.
\<close>

definition Match ::
  "convs \<Rightarrow> (string \<Rightarrow> (string, json) gomap option option) \<Rightarrow> expr option \<Rightarrow> change_event \<Rightarrow> filter_error + bool" where
  "Match cv unmarshal f ev =
     (case f of
        None \<Rightarrow> Inr True
      | Some root \<Rightarrow>
          if ev_before ev = None \<and> ev_after ev = None then Inr True
          else
            (case (case ev_before ev of None \<Rightarrow> Some None | Some raw \<Rightarrow> unmarshal raw) of
               None \<Rightarrow> Inl MalformedBefore
             | Some before \<Rightarrow>
                 (case (case ev_after ev of None \<Rightarrow> Some None | Some raw \<Rightarrow> unmarshal raw) of
                    None \<Rightarrow> Inl MalformedAfter
                  | Some after \<Rightarrow>
                      Inr (eval_expr cv \<lparr>rc_before = before, rc_after = after,
                             rc_default = (if after = None then before else after)\<rparr> root))))"

section \<open>Event and column filters\<close>

record event_filter =
  ef_tables :: "string list option"
  ef_operations :: "operation list option"

definition NewEventFilter :: "string list \<Rightarrow> string list \<Rightarrow> event_filter" where
  "NewEventFilter tables operations =
     \<lparr>ef_tables = (if tables = [] then None else Some tables),
      ef_operations = (if operations = [] then None else Some operations)\<rparr>"

definition Allow :: "event_filter \<Rightarrow> change_event \<Rightarrow> bool" where
  "Allow f ev \<longleftrightarrow> (case ef_tables f of None \<Rightarrow> True | Some ts \<Rightarrow> ev_table ev \<in> set ts) \<and>
     (case ef_operations f of None \<Rightarrow> True | Some os \<Rightarrow> ev_operation ev \<in> set os)"

definition BuildAllowSet :: "string list \<Rightarrow> string list" where
  "BuildAllowSet allowed = remdups allowed"

text \<open>\<open>decode\<close> and \<open>encode\<close> are \<open>json.Unmarshal\<close> into \<open>any\<close> and \<open>json.Marshal\<close>; \<^term>\<open>None\<close> is an error.\<close>

definition ApplyColumnFilterSet ::
  "(string \<Rightarrow> json option) \<Rightarrow> (json \<Rightarrow> string option) \<Rightarrow> raw_message \<Rightarrow> string list \<Rightarrow> raw_message option" where
  "ApplyColumnFilterSet decode encode raw allowSet =
     (case raw of
        None \<Rightarrow> Some None
      | Some r \<Rightarrow>
          if allowSet = [] then Some raw
          else case decode r of
                 Some (JObj m) \<Rightarrow> map_option Some (encode (JObj (filter (\<lambda>(k, v). k \<in> set allowSet) m)))
               | _ \<Rightarrow> Some raw)"

definition ApplyColumnFilter ::
  "(string \<Rightarrow> json option) \<Rightarrow> (json \<Rightarrow> string option) \<Rightarrow> raw_message \<Rightarrow> string list \<Rightarrow> raw_message option" where
  "ApplyColumnFilter decode encode raw allowed =
     (if allowed = [] then Some raw else ApplyColumnFilterSet decode encode raw (BuildAllowSet allowed))"

end
