(* ===== verification/Row_Filter_Eval.thy ===== *)
theory Row_Filter_Eval
  imports Row_Filter
begin

text \<open>
  What a row filter decides: the comparison operators are a consistent order except on NaN,
  \<open>IN\<close> is a disjunction of equalities, a missing row side fails comparisons, deletes are filtered
  on their old row, and column filters keep exactly the allowed keys.
\<close>

section \<open>Comparisons\<close>

lemma bytes_less_trichotomy: "bytes_less a b \<or> a = b \<or> bytes_less b a"
  by (induction a b rule: list_induct2') auto

lemma bytes_less_asym: "bytes_less a b \<Longrightarrow> \<not> bytes_less b a \<and> a \<noteq> b"
  by (induction a b rule: bytes_less.induct) auto

lemma str_less_trichotomy: "str_less a b \<or> a = b \<or> str_less b a"
  unfolding str_less_def using bytes_less_trichotomy by fastforce

lemma str_less_asym: "str_less a b \<Longrightarrow> \<not> str_less b a \<and> a \<noteq> b"
  unfolding str_less_def using bytes_less_asym by fastforce

lemma f64_less_not_eq: "f64_less a b \<Longrightarrow> \<not> f64_eq a b \<and> \<not> f64_eq b a"
  by (auto simp: f64_less_def f64_eq_def split: if_splits)

lemmas order_facts = str_less_trichotomy str_less_asym f64_less_not_sym f64_less_not_eq f64_eq_sym f64_trichotomy

text \<open>
  The six operators agree with each other: \<open>!=\<close> is the negation of \<open>=\<close> for all values,
  and unless a side converts to NaN, \<open>>=\<close> negates \<open><\<close>, \<open><=\<close> negates \<open>>\<close>, and exactly one of \<open><\<close>, \<open>=\<close>
  and \<open>>\<close> holds, whether the values are compared as numbers or as strings.
\<close>

theorem compareValues_consistent:
  assumes "\<And>x. toFloat64 cv c = Some x \<Longrightarrow> \<not> f64_is_nan x" "\<And>x. toFloat64 cv (lit_json l) = Some x \<Longrightarrow> \<not> f64_is_nan x"
  shows "(compareValues cv c ''!='' l \<longleftrightarrow> \<not> compareValues cv c ''='' l) \<and>
    (compareValues cv c ''>='' l \<longleftrightarrow> \<not> compareValues cv c ''<'' l) \<and>
    (compareValues cv c ''<='' l \<longleftrightarrow> \<not> compareValues cv c ''>'' l) \<and>
    (compareValues cv c ''<'' l \<longleftrightarrow> \<not> compareValues cv c ''='' l \<and> \<not> compareValues cv c ''>'' l) \<and>
    (compareValues cv c ''='' l \<longrightarrow> \<not> compareValues cv c ''>'' l)"
proof -
  define A where "A = anyToString cv c"
  define L where "L = anyToString cv (lit_json l)"
  have str: "(str_less A L \<longleftrightarrow> A \<noteq> L \<and> \<not> str_less L A) \<and> (str_less L A \<longleftrightarrow> A \<noteq> L \<and> \<not> str_less A L)"
    using str_less_trichotomy [of A L] str_less_asym [of A L] str_less_asym [of L A] by blast
  show ?thesis
  proof (cases "toFloat64 cv c \<noteq> None \<and> toFloat64 cv (lit_json l) \<noteq> None")
    case True
    then obtain a b where ab: "toFloat64 cv c = Some a" "toFloat64 cv (lit_json l) = Some b" by auto
    have "\<not> f64_is_nan a" "\<not> f64_is_nan b" using assms ab by auto
    then have "(f64_less a b \<longleftrightarrow> \<not> f64_eq a b \<and> \<not> f64_less b a) \<and> (f64_less b a \<longleftrightarrow> \<not> f64_eq a b \<and> \<not> f64_less a b)"
      using f64_trichotomy [of a b] f64_less_not_sym [of a b] f64_less_not_sym [of b a] f64_less_not_eq [of a b]
        f64_less_not_eq [of b a] by blast
    moreover have "compareValues cv c ''='' l = f64_eq a b" "compareValues cv c ''!='' l = (\<not> f64_eq a b)"
      "compareValues cv c ''<'' l = f64_less a b" "compareValues cv c ''>'' l = f64_less b a"
      "compareValues cv c ''>='' l = (f64_less b a \<or> f64_eq a b)" "compareValues cv c ''<='' l = (f64_less a b \<or> f64_eq a b)"
      by (simp_all add: compareValues_def compare_float_def ab)
    ultimately show ?thesis by argo
  next
    case False
    then have eq: "compareValues cv c op l = compare_string A op L" for op
      by (auto simp: compareValues_def A_def L_def split: option.splits)
    have "compareValues cv c ''='' l = (A = L)" "compareValues cv c ''!='' l = (A \<noteq> L)"
      "compareValues cv c ''<'' l = str_less A L" "compareValues cv c ''>'' l = str_less L A"
      "compareValues cv c ''>='' l = (str_less L A \<or> A = L)" "compareValues cv c ''<='' l = (str_less A L \<or> A = L)"
      by (simp_all add: eq compare_string_def)
    with str show ?thesis by argo
  qed
qed

definition ex_convs :: convs where
  "ex_convs = \<lparr>cv_parse = (\<lambda>_. None), cv_format = (\<lambda>_. ''0''), cv_sprint = (\<lambda>_. [])\<rparr>"

theorem compareValues_consistent_witness:
  "compareValues ex_convs (JStr ''apple'') ''<'' (LStr ''pear'') \<and> \<not> compareValues ex_convs (JStr ''apple'') ''>='' (LStr ''pear'')"
proof -
  have "compareValues ex_convs (JStr ''apple'') ''<'' (LStr ''pear'')" by code_simp
  with compareValues_consistent [of ex_convs "JStr ''apple''" "LStr ''pear''"] show ?thesis
    by (auto simp: toFloat64_def ex_convs_def lit_json_def)
qed

text \<open>
  Strings that both read as numbers are compared as numbers, also when the column and the
  literal are both strings: different strings with the same numeric value are equal, and a
  string that reads as NaN is not equal to itself.
\<close>

theorem numeric_strings_compared_as_numbers:
  assumes "cv_parse cv a = Some x" "cv_parse cv b = Some x"
  shows "compareValues cv (JStr a) ''='' (LStr b) \<longleftrightarrow> \<not> f64_is_nan x"
  using assms by (simp add: compareValues_def toFloat64_def lit_json_def compare_float_def f64_eq_def)

theorem numeric_strings_compared_as_numbers_witness:
  "compareValues (ex_convs\<lparr>cv_parse := (\<lambda>s. if s = ''007'' \<or> s = ''7'' then Some 0x401C000000000000 else None)\<rparr>) (JStr ''007'') ''='' (LStr ''7'')"
  using numeric_strings_compared_as_numbers [of "ex_convs\<lparr>cv_parse := (\<lambda>s. if s = ''007'' \<or> s = ''7'' then Some 0x401C000000000000 else None)\<rparr>"
      "''007''" "0x401C000000000000" "''7''"]
  by (simp add: f64_is_nan_def f64_mag_def)

section \<open>Evaluation\<close>

text \<open>\<open>column IN (v1, ..., vn)\<close> holds exactly when \<open>column = vi\<close> holds for one of the values.\<close>

theorem In_is_some_equality:
  "eval_expr cv rc (InNode col vs) \<longleftrightarrow> (\<exists>v. v \<in> set vs \<and> eval_expr cv rc (CompareNode col ''='' v))"
  by (auto simp: list_ex_iff split: prod.splits)

text \<open>
  A column of a row side that is nil fails every comparison and every \<open>IN\<close>, whatever the
  operator, and is null; so \<open>x = 1\<close> and \<open>x != 1\<close> are both false there while \<open>NOT x = 1\<close> is true.
\<close>

theorem nil_side_fails:
  assumes "snd (snd (resolveColumn rc col))"
  shows "\<not> eval_expr cv rc (CompareNode col op v) \<and> \<not> eval_expr cv rc (InNode col vs) \<and>
    eval_expr cv rc (IsNullNode col False) \<and> \<not> eval_expr cv rc (IsNullNode col True) \<and>
    eval_expr cv rc (NotNode (CompareNode col op v))"
  using assms by (auto split: prod.splits)

theorem nil_side_fails_witness:
  "\<not> eval_expr ex_convs \<lparr>rc_before = None, rc_after = Some [], rc_default = Some []\<rparr> (CompareNode ''before.id'' ''='' (LStr ''1'')) \<and>
   eval_expr ex_convs \<lparr>rc_before = None, rc_after = Some [], rc_default = Some []\<rparr> (NotNode (CompareNode ''before.id'' ''='' (LStr ''1'')))"
proof -
  have "snd (snd (resolveColumn \<lparr>rc_before = None, rc_after = Some [], rc_default = Some []\<rparr> ''before.id''))"
    by (simp add: resolveColumn_def CutPrefix_def lookup_side_def)
  from nil_side_fails [OF this, of ex_convs "''=''" "LStr ''1''" "[]"] show ?thesis by blast
qed

text \<open>The columns of an expression, all without a side prefix.\<close>

definition plain_column :: "string \<Rightarrow> bool" where
  "plain_column col \<longleftrightarrow> CutPrefix col ''before.'' = None \<and> CutPrefix col ''after.'' = None"

fun columns :: "expr \<Rightarrow> string list" where
  "columns (OrNode a b) = columns a @ columns b"
| "columns (AndNode a b) = columns a @ columns b"
| "columns (NotNode a) = columns a"
| "columns (CompareNode col op v) = [col]"
| "columns (IsNullNode col b) = [col]"
| "columns (InNode col vs) = [col]"

fun on_before :: "expr \<Rightarrow> expr" where
  "on_before (OrNode a b) = OrNode (on_before a) (on_before b)"
| "on_before (AndNode a b) = AndNode (on_before a) (on_before b)"
| "on_before (NotNode a) = NotNode (on_before a)"
| "on_before (CompareNode col op v) = CompareNode (''before.'' @ col) op v"
| "on_before (IsNullNode col b) = IsNullNode (''before.'' @ col) b"
| "on_before (InNode col vs) = InNode (''before.'' @ col) vs"

lemma resolve_before: "resolveColumn rc (''before.'' @ col) = lookup_side (rc_before rc) col"
  by (simp add: resolveColumn_def CutPrefix_def)

lemma resolve_plain: "plain_column col \<Longrightarrow> resolveColumn rc col = lookup_side (rc_default rc) col"
  by (simp add: resolveColumn_def plain_column_def)

lemma eval_on_before:
  "list_all plain_column (columns e) \<Longrightarrow> rc_default rc = rc_before rc \<Longrightarrow> eval_expr cv rc (on_before e) = eval_expr cv rc e"
proof (induction e)
  case (CompareNode col op v)
  then have "resolveColumn rc (''before.'' @ col) = resolveColumn rc col" by (simp only: resolve_before resolve_plain columns.simps list.pred_inject)
  then show ?case by (simp only: on_before.simps eval_expr.simps)
next
  case (IsNullNode col b)
  then have "resolveColumn rc (''before.'' @ col) = resolveColumn rc col" by (simp only: resolve_before resolve_plain columns.simps list.pred_inject)
  then show ?case by (simp only: on_before.simps eval_expr.simps)
next
  case (InNode col vs)
  then have "resolveColumn rc (''before.'' @ col) = resolveColumn rc col" by (simp only: resolve_before resolve_plain columns.simps list.pred_inject)
  then show ?case by (simp only: on_before.simps eval_expr.simps)
qed auto

text \<open>
  Deletes are filtered on the old row: for an event without a new row, a filter whose columns
  have no side prefix decides the same as the filter with every column read from \<open>before\<close>.
\<close>

theorem Match_delete_uses_before:
  assumes "ev_after ev = None" "list_all plain_column (columns e)"
  shows "Match cv unmarshal (Some e) ev = Match cv unmarshal (Some (on_before e)) ev"
  using assms by (auto simp: Match_def eval_on_before split: option.splits)

definition ex_delete :: change_event where
  "ex_delete = \<lparr>ev_id = ''e'', ev_idempotency_key = ''k'', ev_timestamp = 0, ev_source = ''s'', ev_operation = OpDelete,
     ev_database = ''d'', ev_schema = ''public'', ev_table = ''t'', ev_key = Some ''1'', ev_before = Some ''row'', ev_after = None,
     ev_metadata = [], ev_ai_context = None\<rparr>"

theorem Match_delete_uses_before_witness:
  "Match ex_convs (\<lambda>_. Some (Some [(''id'', JStr ''1'')])) (Some (CompareNode ''id'' ''='' (LStr ''1''))) ex_delete =
   Match ex_convs (\<lambda>_. Some (Some [(''id'', JStr ''1'')])) (Some (CompareNode ''before.id'' ''='' (LStr ''1''))) ex_delete"
  using Match_delete_uses_before [of ex_delete "CompareNode ''id'' ''='' (LStr ''1'')" ex_convs "\<lambda>_. Some (Some [(''id'', JStr ''1'')])"]
  by (simp add: ex_delete_def plain_column_def CutPrefix_def)

section \<open>Column filter\<close>

lemma filter_keys: "gm_get (filter (\<lambda>(k, v). P k) m) k = (if P k then gm_get m k else None)"
  by (induction m) auto

text \<open>
  The column filter keeps exactly the allowed columns: for a row that decodes to an object,
  with a non-empty allow-list and a JSON codec that reads back what it writes, the result decodes
  to an object that maps every allowed column to its old value and no other column to anything.
\<close>

theorem ApplyColumnFilter_keeps_allowed:
  assumes "decode r = Some (JObj m)" "allowed \<noteq> []"
    and "\<And>j out. encode j = Some out \<Longrightarrow> decode out = Some j"
    and "ApplyColumnFilter decode encode (Some r) allowed = Some out"
  shows "\<exists>s m'. out = Some s \<and> decode s = Some (JObj m') \<and>
    (\<forall>k. gm_get m' k = (if k \<in> set allowed then gm_get m k else None))"
proof -
  let ?m = "filter (\<lambda>(k, v). k \<in> set allowed) m"
  obtain s where "encode (JObj ?m) = Some s" "out = Some s"
    using assms(1,2,4) by (auto simp: ApplyColumnFilter_def ApplyColumnFilterSet_def BuildAllowSet_def split: if_splits)
  with assms(3) show ?thesis by (auto simp: filter_keys)
qed

definition ex_decode :: "string \<Rightarrow> json option" where
  "ex_decode s = (if s = ''ab'' then Some (JObj [(''a'', JBool True), (''b'', JNull)]) else if s = ''a'' then Some (JObj [(''a'', JBool True)]) else None)"

definition ex_encode :: "json \<Rightarrow> string option" where
  "ex_encode j = (if j = JObj [(''a'', JBool True)] then Some ''a'' else None)"

theorem ApplyColumnFilter_keeps_allowed_witness:
  "ApplyColumnFilter ex_decode ex_encode (Some ''ab'') [''a''] = Some (Some ''a'') \<and>
   (\<exists>s m'. Some ''a'' = Some s \<and> ex_decode s = Some (JObj m') \<and>
     (\<forall>k. gm_get m' k = (if k \<in> set [''a''] then gm_get [(''a'', JBool True), (''b'', JNull)] k else None)))"
proof -
  have 1: "ApplyColumnFilter ex_decode ex_encode (Some ''ab'') [''a''] = Some (Some ''a'')" by code_simp
  have 2: "ex_decode ''ab'' = Some (JObj [(''a'', JBool True), (''b'', JNull)])" by (simp add: ex_decode_def)
  have 3: "ex_encode j = Some out \<Longrightarrow> ex_decode out = Some j" for j out
    by (auto simp: ex_encode_def ex_decode_def split: if_splits)
  show ?thesis using 1 ApplyColumnFilter_keeps_allowed [OF 2 _ 3 1] by simp
qed

end
