(* ===== verification/Row_Filter_Parse.thy ===== *)
theory Row_Filter_Parse
  imports Row_Filter
begin

text \<open>
  The parser of row filters: the fuel of the top call is enough for every input, and the parser
  inverts the printer that writes an expression with the fewest parentheses, so precedence and
  associativity are the documented ones; the tokenizer inverts rendering with single spaces.
\<close>

section \<open>Enough fuel\<close>

lemma peek_nonempty: "peek ts \<noteq> TokEOF \<Longrightarrow> ts \<noteq> []"
  by (auto simp: peek_def)

lemma isKeyword_nonempty: "isKeyword kw ts \<Longrightarrow> ts \<noteq> []"
  by (auto simp: isKeyword_def peek_def)

lemma tl_shorter: "ts \<noteq> [] \<Longrightarrow> length (tl ts) < length ts"
  by (cases ts) auto

lemma parseValue_shorter: "parseValue pf ts = POk v r \<Longrightarrow> length r < length ts"
  using tl_shorter [of ts] peek_nonempty [of ts]
  by (auto simp: parseValue_def split: token.splits option.splits if_splits)

lemma parseValue_returns: "parseValue pf ts \<noteq> POut"
  by (auto simp: parseValue_def split: token.splits option.splits)

lemma in_list_shorter: "in_list pf n ts = POk vs r \<Longrightarrow> length r < length ts"
proof (induction pf n ts arbitrary: vs r rule: in_list.induct)
  case (2 pf n ts)
  show ?case
  proof (cases "parseValue pf ts")
    case (POk v ts1)
    note s = parseValue_shorter [OF POk]
    show ?thesis
    proof (cases "peek ts1 = TokComma")
      case True
      with "2.prems" POk obtain vs' where "in_list pf n (tl ts1) = POk vs' r" by (auto split: pres.splits)
      from "2.IH" [OF POk True this] s show ?thesis by simp
    qed (use "2.prems" POk s in auto)
  qed (use "2.prems" in auto)
qed simp

lemma in_list_returns: "length ts < n \<Longrightarrow> in_list pf n ts \<noteq> POut"
proof (induction pf n ts rule: in_list.induct)
  case (2 pf n ts)
  show ?case
  proof (cases "parseValue pf ts")
    case (POk v ts1)
    from parseValue_shorter [OF POk] "2.prems" have "length (tl ts1) < n" by simp
    with "2.IH" [OF POk] POk show ?thesis by (auto split: pres.splits)
  qed (use parseValue_returns in auto)
qed simp

lemma parse_column_shorter: "parse_column pf col ts = POk e r \<Longrightarrow> length r \<le> length ts"
  by (auto simp: parse_column_def Let_def split: if_splits pres.splits token.splits dest!: in_list_shorter parseValue_shorter)

lemma parse_column_returns: "parse_column pf col ts \<noteq> POut"
  using in_list_returns [of "tl (tl ts)" "Suc (length ts)" pf] parseValue_returns [of pf "tl ts"]
  by (auto simp: parse_column_def Let_def split: pres.splits token.splits)

fun slack :: "call \<Rightarrow> nat" where
  "slack OrExpr = 4"
| "slack (OrLoop _) = 1"
| "slack AndExpr = 3"
| "slack (AndLoop _) = 1"
| "slack NotExpr = 2"
| "slack Primary = 1"

fun is_loop :: "call \<Rightarrow> bool" where
  "is_loop (OrLoop _) = True"
| "is_loop (AndLoop _) = True"
| "is_loop _ = False"

lemma parse_shorter:
  "parse pf n k ts = POk e r \<Longrightarrow> length r \<le> length ts \<and> (\<not> is_loop k \<longrightarrow> length r < length ts)"
proof (induction n arbitrary: k ts e r)
  case (Suc n)
  show ?case
  proof (cases k)
    case OrExpr
    with Suc.prems obtain l ts1 where "parse pf n AndExpr ts = POk l ts1" "parse pf n (OrLoop l) ts1 = POk e r"
      by (auto split: pres.splits)
    from Suc.IH [OF this(1)] Suc.IH [OF this(2)] show ?thesis by simp
  next
    case (OrLoop l)
    with Suc.prems have "r = ts \<or> (\<exists>r1 ts1. isKeyword ''OR'' ts \<and> parse pf n AndExpr (tl ts) = POk r1 ts1 \<and>
        parse pf n (OrLoop (OrNode l r1)) ts1 = POk e r)"
      by (auto split: pres.splits if_splits)
    then show ?thesis using OrLoop by (auto dest!: Suc.IH)
  next
    case AndExpr
    with Suc.prems obtain l ts1 where "parse pf n NotExpr ts = POk l ts1" "parse pf n (AndLoop l) ts1 = POk e r"
      by (auto split: pres.splits)
    from Suc.IH [OF this(1)] Suc.IH [OF this(2)] show ?thesis by simp
  next
    case (AndLoop l)
    with Suc.prems have "r = ts \<or> (\<exists>r1 ts1. isKeyword ''AND'' ts \<and> parse pf n NotExpr (tl ts) = POk r1 ts1 \<and>
        parse pf n (AndLoop (AndNode l r1)) ts1 = POk e r)"
      by (auto split: pres.splits if_splits)
    then show ?thesis using AndLoop by (auto dest!: Suc.IH)
  next
    case NotExpr
    with Suc.prems have "(\<exists>c. parse pf n NotExpr (tl ts) = POk c r) \<or> parse pf n Primary ts = POk e r"
      by (auto split: pres.splits if_splits)
    with NotExpr show ?thesis by (auto dest!: Suc.IH)
  next
    case Primary
    show ?thesis
    proof (cases "peek ts")
      case (TokIdent col)
      then have "ts \<noteq> []" using peek_nonempty by auto
      with Suc.prems Primary TokIdent parse_column_shorter [of pf col "tl ts" e r] tl_shorter [of ts]
      show ?thesis by (cases ts) (auto split: if_splits)
    next
      case TokLParen
      with Suc.prems Primary obtain ts1 where "parse pf n OrExpr (tl ts) = POk e ts1" "r = tl ts1"
        by (auto split: pres.splits if_splits)
      with Suc.IH [OF this(1)] show ?thesis by auto
    qed (use Suc.prems Primary in auto)
  qed
qed simp

lemma parse_returns: "6 * length ts + slack k \<le> n \<Longrightarrow> parse pf n k ts \<noteq> POut"
proof (induction n arbitrary: k ts)
  case 0
  then show ?case by (cases k) auto
next
  case (Suc n)
  have fewer: "6 * length ts1 + slack k' \<le> n" if "length ts1 < length ts" "slack k' \<le> 5 + slack k" for ts1 k'
    using that Suc.prems by simp
  show ?case
  proof (cases k)
    case OrExpr
    have a: "parse pf n AndExpr ts \<noteq> POut" using Suc.prems OrExpr by (intro Suc.IH) simp
    show ?thesis
    proof (cases "parse pf n AndExpr ts")
      case (POk l ts1)
      with parse_shorter have "length ts1 < length ts" by fastforce
      then have "parse pf n (OrLoop l) ts1 \<noteq> POut" by (intro Suc.IH fewer) auto
      with POk OrExpr show ?thesis by simp
    qed (use a OrExpr in auto)
  next
    case (OrLoop l)
    show ?thesis
    proof (cases "isKeyword ''OR'' ts")
      case True
      note sh = tl_shorter [OF isKeyword_nonempty [OF True]]
      have a: "parse pf n AndExpr (tl ts) \<noteq> POut" using sh by (intro Suc.IH fewer) (auto simp: OrLoop)
      show ?thesis
      proof (cases "parse pf n AndExpr (tl ts)")
        case (POk r ts1)
        with parse_shorter sh have "length ts1 < length ts" by fastforce
        then have "parse pf n (OrLoop (OrNode l r)) ts1 \<noteq> POut" by (intro Suc.IH fewer) auto
        with POk True OrLoop show ?thesis by simp
      qed (use a True OrLoop in auto)
    qed (use OrLoop in simp)
  next
    case AndExpr
    have a: "parse pf n NotExpr ts \<noteq> POut" using Suc.prems AndExpr by (intro Suc.IH) simp
    show ?thesis
    proof (cases "parse pf n NotExpr ts")
      case (POk l ts1)
      with parse_shorter have "length ts1 < length ts" by fastforce
      then have "parse pf n (AndLoop l) ts1 \<noteq> POut" by (intro Suc.IH fewer) auto
      with POk AndExpr show ?thesis by simp
    qed (use a AndExpr in auto)
  next
    case (AndLoop l)
    show ?thesis
    proof (cases "isKeyword ''AND'' ts")
      case True
      note sh = tl_shorter [OF isKeyword_nonempty [OF True]]
      have a: "parse pf n NotExpr (tl ts) \<noteq> POut" using sh by (intro Suc.IH fewer) (auto simp: AndLoop)
      show ?thesis
      proof (cases "parse pf n NotExpr (tl ts)")
        case (POk r ts1)
        with parse_shorter sh have "length ts1 < length ts" by fastforce
        then have "parse pf n (AndLoop (AndNode l r)) ts1 \<noteq> POut" by (intro Suc.IH fewer) auto
        with POk True AndLoop show ?thesis by simp
      qed (use a True AndLoop in auto)
    qed (use AndLoop in simp)
  next
    case NotExpr
    show ?thesis
    proof (cases "isKeyword ''NOT'' ts")
      case True
      have "parse pf n NotExpr (tl ts) \<noteq> POut"
        using tl_shorter [OF isKeyword_nonempty [OF True]] by (intro Suc.IH fewer) (auto simp: NotExpr)
      with True NotExpr show ?thesis by (auto split: pres.splits)
    next
      case False
      have "parse pf n Primary ts \<noteq> POut" using Suc.prems NotExpr by (intro Suc.IH) simp
      with False NotExpr show ?thesis by simp
    qed
  next
    case Primary
    show ?thesis
    proof (cases "peek ts = TokLParen")
      case True
      then have "ts \<noteq> []" using peek_nonempty by auto
      then have "parse pf n OrExpr (tl ts) \<noteq> POut" using tl_shorter by (intro Suc.IH fewer) (auto simp: Primary)
      with True Primary show ?thesis by (auto split: pres.splits)
    qed (use Primary parse_column_returns in \<open>auto split: token.splits\<close>)
  qed
qed

text \<open>
  The parser always returns: the fuel \<open>ParseRowFilter\<close> starts with is enough for every
  token list, so its recursion ends with a tree or a reported error on every input.
\<close>

theorem parse_terminates: "parse pf (parse_fuel ts) OrExpr ts \<noteq> POut"
  by (rule parse_returns) (simp add: parse_fuel_def)

section \<open>Fuel is monotone\<close>

lemma parse_mono_Suc: "parse pf n k ts = r \<Longrightarrow> r \<noteq> POut \<Longrightarrow> parse pf (Suc n) k ts = r"
proof (induction n arbitrary: k ts r)
  case (Suc n)
  have IH: "parse pf (Suc n) k' ts' = parse pf n k' ts'" if "parse pf n k' ts' \<noteq> POut" for k' ts'
    using Suc.IH [OF refl that] .
  show ?case
    using Suc.prems IH
    by (cases k; subst parse.simps(2); subst (asm) (1) parse.simps(2);
        fastforce simp del: parse.simps split: pres.splits token.splits if_splits)
qed simp

lemma parse_mono: "parse pf n k ts = r \<Longrightarrow> r \<noteq> POut \<Longrightarrow> n \<le> m \<Longrightarrow> parse pf m k ts = r"
proof (induction m)
  case (Suc m)
  show ?case
  proof (cases "n \<le> m")
    case True
    with Suc show ?thesis by (intro parse_mono_Suc) auto
  next
    case False
    with Suc.prems have "n = Suc m" by simp
    with Suc.prems show ?thesis by simp
  qed
qed simp

text \<open>\<open>parses k ts e r\<close>: the call \<open>k\<close> reads \<open>e\<close> off the front of \<open>ts\<close>, with some fuel.\<close>

definition parses :: "(string \<Rightarrow> float64 option) \<Rightarrow> call \<Rightarrow> token list \<Rightarrow> expr \<Rightarrow> token list \<Rightarrow> bool" where
  "parses pf k ts e r \<longleftrightarrow> (\<exists>n. parse pf n k ts = POk e r)"

lemma parses_fuel: "parses pf OrExpr ts e r \<Longrightarrow> parse pf (parse_fuel ts) OrExpr ts = POk e r"
proof -
  assume "parses pf OrExpr ts e r"
  then obtain n where n: "parse pf n OrExpr ts = POk e r" by (auto simp: parses_def)
  have "parse pf (parse_fuel ts) OrExpr ts \<noteq> POut" by (rule parse_returns) (simp add: parse_fuel_def)
  then have "parse pf (max n (parse_fuel ts)) OrExpr ts = parse pf (parse_fuel ts) OrExpr ts"
    by (intro parse_mono [OF refl]) auto
  moreover have "parse pf (max n (parse_fuel ts)) OrExpr ts = POk e r" by (rule parse_mono [OF n]) auto
  ultimately show ?thesis by simp
qed

lemma parses2:
  assumes "parses pf k1 ts1 e1 r1" "parses pf k2 ts2 e2 r2"
  obtains n where "parse pf n k1 ts1 = POk e1 r1" "parse pf n k2 ts2 = POk e2 r2"
proof -
  obtain n1 n2 where "parse pf n1 k1 ts1 = POk e1 r1" "parse pf n2 k2 ts2 = POk e2 r2"
    using assms by (auto simp: parses_def)
  then have "parse pf (max n1 n2) k1 ts1 = POk e1 r1" "parse pf (max n1 n2) k2 ts2 = POk e2 r2"
    by (auto intro: parse_mono)
  then show thesis by (rule that)
qed

lemma parsesI: "parse pf (Suc n) k ts = POk e r \<Longrightarrow> parses pf k ts e r"
  unfolding parses_def by blast

lemma parses_OrExpr: "parses pf AndExpr ts l ts1 \<Longrightarrow> parses pf (OrLoop l) ts1 e r \<Longrightarrow> parses pf OrExpr ts e r"
  apply (erule (1) parses2)
  subgoal for n by (rule parsesI [of _ n]) simp
  done

lemma parses_AndExpr: "parses pf NotExpr ts l ts1 \<Longrightarrow> parses pf (AndLoop l) ts1 e r \<Longrightarrow> parses pf AndExpr ts e r"
  apply (erule (1) parses2)
  subgoal for n by (rule parsesI [of _ n]) simp
  done

lemma parses_OrLoop_stop: "\<not> isKeyword ''OR'' ts \<Longrightarrow> parses pf (OrLoop l) ts l ts"
  by (auto simp: parses_def intro!: exI [of _ "Suc 0"])

lemma parses_AndLoop_stop: "\<not> isKeyword ''AND'' ts \<Longrightarrow> parses pf (AndLoop l) ts l ts"
  by (auto simp: parses_def intro!: exI [of _ "Suc 0"])

lemma parses_OrLoop:
  "isKeyword ''OR'' (t # ts) \<Longrightarrow> parses pf AndExpr ts x ts1 \<Longrightarrow> parses pf (OrLoop (OrNode l x)) ts1 e r \<Longrightarrow>
     parses pf (OrLoop l) (t # ts) e r"
  apply (erule (1) parses2)
  subgoal for n by (rule parsesI [of _ n]) simp
  done

lemma parses_AndLoop:
  "isKeyword ''AND'' (t # ts) \<Longrightarrow> parses pf NotExpr ts x ts1 \<Longrightarrow> parses pf (AndLoop (AndNode l x)) ts1 e r \<Longrightarrow>
     parses pf (AndLoop l) (t # ts) e r"
  apply (erule (1) parses2)
  subgoal for n by (rule parsesI [of _ n]) simp
  done

lemma parses_Not: "isKeyword ''NOT'' (t # ts) \<Longrightarrow> parses pf NotExpr ts c r \<Longrightarrow> parses pf NotExpr (t # ts) (NotNode c) r"
  apply (clarsimp simp: parses_def [of pf NotExpr ts c r])
  subgoal for n by (rule parsesI [of _ n]) simp
  done

lemma parses_Not_Primary: "\<not> isKeyword ''NOT'' ts \<Longrightarrow> parses pf Primary ts e r \<Longrightarrow> parses pf NotExpr ts e r"
  apply (clarsimp simp: parses_def [of pf Primary ts e r])
  subgoal for n by (rule parsesI [of _ n]) simp
  done

lemma parses_Paren: "parses pf OrExpr ts e (TokRParen # r) \<Longrightarrow> parses pf Primary (TokLParen # ts) e r"
  apply (clarsimp simp: parses_def [of pf OrExpr ts e "TokRParen # r"])
  subgoal for n by (rule parsesI [of _ n]) (simp add: peek_def)
  done

lemma parses_Column:
  "\<not> isReservedClause (ToUpper col) \<Longrightarrow> parse_column pf col ts = POk e r \<Longrightarrow> parses pf Primary (TokIdent col # ts) e r"
  by (auto simp: parses_def peek_def intro!: exI [of _ "Suc 0"])

section \<open>Printing\<close>

text \<open>\<open>num\<close> writes a numeric literal.\<close>

definition lit_token :: "(float64 \<Rightarrow> string) \<Rightarrow> lit \<Rightarrow> token" where
  "lit_token num l = (case l of LStr s \<Rightarrow> TokString s | LNum x \<Rightarrow> TokNumber (num x) | LNull \<Rightarrow> TokIdent ''NULL'')"

fun list_tokens :: "(float64 \<Rightarrow> string) \<Rightarrow> lit list \<Rightarrow> token list" where
  "list_tokens num [] = []"
| "list_tokens num [v] = [lit_token num v]"
| "list_tokens num (v # vs) = lit_token num v # TokComma # list_tokens num vs"

definition paren :: "bool \<Rightarrow> token list \<Rightarrow> token list" where
  "paren b ts = (if b then TokLParen # ts @ [TokRParen] else ts)"

text \<open>Level 0 is a disjunction, 1 a conjunction, 2 a negation, 3 a primary.\<close>

primrec show_expr :: "(float64 \<Rightarrow> string) \<Rightarrow> expr \<Rightarrow> nat \<Rightarrow> token list" where
  "show_expr num (OrNode a b) = (\<lambda>l. paren (0 < l) (show_expr num a 0 @ TokIdent ''OR'' # show_expr num b 1))"
| "show_expr num (AndNode a b) = (\<lambda>l. paren (1 < l) (show_expr num a 1 @ TokIdent ''AND'' # show_expr num b 2))"
| "show_expr num (NotNode a) = (\<lambda>l. paren (2 < l) (TokIdent ''NOT'' # show_expr num a 2))"
| "show_expr num (CompareNode col op v) = (\<lambda>l. [TokIdent col, TokOp op, lit_token num v])"
| "show_expr num (IsNullNode col notNull) =
     (\<lambda>l. [TokIdent col, TokIdent ''IS''] @ (if notNull then [TokIdent ''NOT''] else []) @ [TokIdent ''NULL''])"
| "show_expr num (InNode col vs) = (\<lambda>l. [TokIdent col, TokIdent ''IN'', TokLParen] @ list_tokens num vs @ [TokRParen])"

definition good_lit :: "(string \<Rightarrow> float64 option) \<Rightarrow> (float64 \<Rightarrow> string) \<Rightarrow> lit \<Rightarrow> bool" where
  "good_lit pf num l \<longleftrightarrow> (case l of LNum x \<Rightarrow> pf (num x) = Some x | _ \<Rightarrow> True)"

definition good_column :: "string \<Rightarrow> bool" where
  "good_column col \<longleftrightarrow> \<not> EqualFold col ''NOT'' \<and> \<not> isReservedClause (ToUpper col)"

fun printable :: "(string \<Rightarrow> float64 option) \<Rightarrow> (float64 \<Rightarrow> string) \<Rightarrow> expr \<Rightarrow> bool" where
  "printable pf num (OrNode a b) = (printable pf num a \<and> printable pf num b)"
| "printable pf num (AndNode a b) = (printable pf num a \<and> printable pf num b)"
| "printable pf num (NotNode a) = printable pf num a"
| "printable pf num (CompareNode col op v) = (good_column col \<and> good_lit pf num v)"
| "printable pf num (IsNullNode col notNull) = good_column col"
| "printable pf num (InNode col vs) = (good_column col \<and> vs \<noteq> [] \<and> list_all (good_lit pf num) vs)"

lemma parseValue_lit: "good_lit pf num l \<Longrightarrow> parseValue pf (lit_token num l # r) = POk l r"
  by (auto simp: parseValue_def peek_def lit_token_def good_lit_def EqualFold_def split: lit.splits)

lemma in_list_tokens:
  "vs \<noteq> [] \<Longrightarrow> list_all (good_lit pf num) vs \<Longrightarrow> length vs \<le> n \<Longrightarrow>
     in_list pf n (list_tokens num vs @ TokRParen # r) = POk vs (TokRParen # r)"
proof (induction num vs arbitrary: n rule: list_tokens.induct)
  case (2 num v)
  then show ?case by (cases n) (auto simp: parseValue_lit peek_def)
next
  case (3 num v w vs)
  then show ?case by (cases n) (auto simp: parseValue_lit peek_def)
qed simp

lemma list_tokens_length: "length vs \<le> length (list_tokens num vs)"
  by (induction num vs rule: list_tokens.induct) auto

lemma keyword_eqs:
  "EqualFold ''IS'' ''IS''" "EqualFold ''IN'' ''IN''" "\<not> EqualFold ''IN'' ''IS''" "EqualFold ''NOT'' ''NOT''" "EqualFold ''NULL'' ''NULL''"
  "\<not> EqualFold ''NULL'' ''NOT''" "EqualFold ''OR'' ''OR''" "EqualFold ''AND'' ''AND''" "\<not> EqualFold ''OR'' ''AND''"
  by (simp_all add: EqualFold_def ToUpper_def upper_def code_def)

lemma parse_leaf:
  assumes "printable pf num e" "\<forall>a b. e \<noteq> OrNode a b" "\<forall>a b. e \<noteq> AndNode a b" "\<forall>a. e \<noteq> NotNode a"
  shows "parses pf Primary (show_expr num e l @ r) e r" "\<not> isKeyword ''NOT'' (show_expr num e l @ r)"
proof -
  have "\<exists>col ts. show_expr num e l @ r = TokIdent col # ts \<and> good_column col \<and> parse_column pf col ts = POk e r"
  proof (cases e)
    case (CompareNode col op v)
    with assms(1) show ?thesis
      by (auto simp: parse_column_def isKeyword_def peek_def parseValue_lit)
  next
    case (IsNullNode col b)
    with assms(1) show ?thesis
      by (auto simp: parse_column_def isKeyword_def peek_def keyword_eqs)
  next
    case (InNode col vs)
    let ?ts = "TokIdent ''IN'' # TokLParen # list_tokens num vs @ TokRParen # r"
    have "in_list pf (Suc (length ?ts)) (list_tokens num vs @ TokRParen # r) = POk vs (TokRParen # r)"
      using assms(1) InNode list_tokens_length [of vs num] by (intro in_list_tokens) auto
    then have "parse_column pf col ?ts = POk e r"
      by (simp add: parse_column_def isKeyword_def peek_def keyword_eqs InNode del: in_list.simps)
    with assms(1) InNode show ?thesis by auto
  qed (use assms in auto)
  then show "parses pf Primary (show_expr num e l @ r) e r" "\<not> isKeyword ''NOT'' (show_expr num e l @ r)"
    by (auto simp: good_column_def isKeyword_def peek_def intro: parses_Column)
qed

text \<open>What the parser does on a printed expression at each level, in front of any rest.\<close>

definition reads :: "(string \<Rightarrow> float64 option) \<Rightarrow> (float64 \<Rightarrow> string) \<Rightarrow> expr \<Rightarrow> bool" where
  "reads pf num e \<longleftrightarrow>
     (\<forall>r x r'. \<not> isKeyword ''AND'' r \<longrightarrow> parses pf (OrLoop e) r x r' \<longrightarrow> parses pf OrExpr (show_expr num e 0 @ r) x r') \<and>
     (\<forall>r x r'. parses pf (AndLoop e) r x r' \<longrightarrow> parses pf AndExpr (show_expr num e 1 @ r) x r') \<and>
     (\<forall>r. parses pf NotExpr (show_expr num e 2 @ r) e r) \<and>
     (\<forall>r. parses pf Primary (show_expr num e 3 @ r) e r)"

lemma reads_from_Not:
  assumes "\<And>r. parses pf NotExpr (show_expr num e 2 @ r) e r" "show_expr num e 1 = show_expr num e 2"
    and "show_expr num e 0 = show_expr num e 2" "\<And>r. parses pf Primary (show_expr num e 3 @ r) e r"
  shows "reads pf num e"
  unfolding reads_def
  using assms parses_AndExpr parses_OrExpr parses_AndLoop_stop by metis

lemma parses_paren_expr:
  assumes "\<And>r. \<not> isKeyword ''AND'' r \<Longrightarrow> \<not> isKeyword ''OR'' r \<Longrightarrow> parses pf OrExpr (ts @ r) e r"
  shows "parses pf Primary (paren True ts @ r) e r" "parses pf NotExpr (paren True ts @ r) e r"
proof -
  have "parses pf OrExpr (ts @ TokRParen # r) e (TokRParen # r)" by (rule assms) (auto simp: isKeyword_def peek_def)
  then show 1: "parses pf Primary (paren True ts @ r) e r" by (auto simp: paren_def intro: parses_Paren)
  show "parses pf NotExpr (paren True ts @ r) e r"
    by (rule parses_Not_Primary [OF _ 1]) (simp add: paren_def isKeyword_def peek_def)
qed

lemma show_reads: "printable pf num e \<Longrightarrow> reads pf num e"
proof (induction e)
  case (OrNode a b)
  then have ra: "reads pf num a" and rb: "reads pf num b" by auto
  have or: "parses pf OrExpr ((show_expr num a 0 @ TokIdent ''OR'' # show_expr num b 1) @ r) x r'"
    if "\<not> isKeyword ''AND'' r" "parses pf (OrLoop (OrNode a b)) r x r'" for r x r'
  proof -
    have "parses pf AndExpr (show_expr num b 1 @ r) b r"
      using rb that(1) parses_AndLoop_stop unfolding reads_def by blast
    then have "parses pf (OrLoop a) (TokIdent ''OR'' # show_expr num b 1 @ r) x r'"
      using that(2) by (intro parses_OrLoop) (auto simp: isKeyword_def peek_def keyword_eqs)
    moreover have "\<not> isKeyword ''AND'' (TokIdent ''OR'' # show_expr num b 1 @ r)"
      by (simp add: isKeyword_def peek_def keyword_eqs)
    ultimately show ?thesis using ra unfolding reads_def by simp
  qed
  have P: "parses pf Primary (paren True (show_expr num a 0 @ TokIdent ''OR'' # show_expr num b 1) @ r) (OrNode a b) r"
    "parses pf NotExpr (paren True (show_expr num a 0 @ TokIdent ''OR'' # show_expr num b 1) @ r) (OrNode a b) r" for r
    by (rule parses_paren_expr; rule or; simp add: parses_OrLoop_stop)+
  have "parses pf AndExpr (paren True (show_expr num a 0 @ TokIdent ''OR'' # show_expr num b 1) @ r) x r'"
    if "parses pf (AndLoop (OrNode a b)) r x r'" for r x r'
    by (rule parses_AndExpr [OF P(2) that])
  with P or show ?case unfolding reads_def by (simp add: paren_def)
next
  case (AndNode a b)
  then have ra: "reads pf num a" and rb: "reads pf num b" by auto
  let ?ts = "show_expr num a 1 @ TokIdent ''AND'' # show_expr num b 2"
  have and1: "parses pf AndExpr (?ts @ r) x r'" if "parses pf (AndLoop (AndNode a b)) r x r'" for r x r'
  proof -
    have "parses pf NotExpr (show_expr num b 2 @ r) b r" using rb unfolding reads_def by blast
    then have "parses pf (AndLoop a) (TokIdent ''AND'' # show_expr num b 2 @ r) x r'"
      using that by (intro parses_AndLoop) (auto simp: isKeyword_def peek_def keyword_eqs)
    then show ?thesis using ra unfolding reads_def by simp
  qed
  have or: "parses pf OrExpr (?ts @ r) x r'" if "\<not> isKeyword ''AND'' r" "parses pf (OrLoop (AndNode a b)) r x r'" for r x r'
    by (rule parses_OrExpr [OF and1 that(2)]) (rule parses_AndLoop_stop [OF that(1)])
  have P: "parses pf Primary (paren True ?ts @ r) (AndNode a b) r" "parses pf NotExpr (paren True ?ts @ r) (AndNode a b) r" for r
    by (rule parses_paren_expr; rule or; simp add: parses_OrLoop_stop)+
  with and1 or show ?case unfolding reads_def by (simp add: paren_def)
next
  case (NotNode a)
  then have ra: "reads pf num a" by auto
  let ?ts = "TokIdent ''NOT'' # show_expr num a 2"
  have n: "parses pf NotExpr (?ts @ r) (NotNode a) r" for r
    using ra unfolding reads_def by (auto simp: isKeyword_def peek_def keyword_eqs intro!: parses_Not)
  have or: "parses pf OrExpr (?ts @ r) (NotNode a) r" if "\<not> isKeyword ''AND'' r" "\<not> isKeyword ''OR'' r" for r
    by (rule parses_OrExpr [OF parses_AndExpr [OF n]])
      (auto intro: parses_AndLoop_stop [OF that(1)] parses_OrLoop_stop [OF that(2)])
  have "parses pf Primary (paren True ?ts @ r) (NotNode a) r" for r by (rule parses_paren_expr(1)) (rule or)
  with n show ?case by (intro reads_from_Not) (auto simp: paren_def)
qed (auto intro!: reads_from_Not parse_leaf(1) parses_Not_Primary [OF parse_leaf(2)])

lemma parse_show:
  assumes "printable pf num e"
  shows "parse pf (parse_fuel (show_expr num e 0 @ [TokEOF])) OrExpr (show_expr num e 0 @ [TokEOF]) = POk e [TokEOF]"
proof (rule parses_fuel)
  have no: "\<not> isKeyword kw [TokEOF]" for kw by (simp add: isKeyword_def peek_def)
  show "parses pf OrExpr (show_expr num e 0 @ [TokEOF]) e [TokEOF]"
    using show_reads [OF assms] no parses_OrLoop_stop [OF no] unfolding reads_def by blast
qed

section \<open>Rendering tokens\<close>

fun token_string :: "token \<Rightarrow> string" where
  "token_string (TokIdent v) = v"
| "token_string (TokString v) = CHR 0x27 # v @ [CHR 0x27]"
| "token_string (TokNumber v) = v"
| "token_string (TokOp v) = v"
| "token_string TokLParen = ''(''"
| "token_string TokRParen = '')''"
| "token_string TokComma = '',''"
| "token_string TokEOF = []"

fun render :: "token list \<Rightarrow> string" where
  "render [] = []"
| "render [t] = token_string t"
| "render (t # ts) = token_string t @ CHR '' '' # render ts"

fun good_token :: "token \<Rightarrow> bool" where
  "good_token (TokIdent v) = (v \<noteq> [] \<and> (IsLetter (hd v) \<or> hd v = CHR ''_'') \<and> list_all ident_char v \<and> list_all (\<lambda>c. code c < 128) v)"
| "good_token (TokString v) = (CHR 0x27 \<notin> set v)"
| "good_token (TokNumber v) = (v \<noteq> [] \<and> list_all number_char (tl v) \<and>
     (IsDigit (hd v) \<or> hd v = CHR ''-'' \<and> tl v \<noteq> [] \<and> IsDigit (hd (tl v))))"
| "good_token (TokOp v) = (v \<in> {''='', ''!='', ''>'', ''<'', ''>='', ''<=''})"
| "good_token TokEOF = False"
| "good_token _ = True"

text \<open>A token ends at the end of the input or at a space.\<close>

definition at_end :: "string \<Rightarrow> bool" where
  "at_end r \<longleftrightarrow> (case r of [] \<Rightarrow> True | c # _ \<Rightarrow> c = CHR '' '')"

lemma takeWhile_run: "list_all P v \<Longrightarrow> at_end r \<Longrightarrow> \<not> P CHR '' '' \<Longrightarrow> takeWhile P (v @ r) = v"
  by (induction v) (auto simp: at_end_def split: list.splits)

lemma char_classes:
  "\<not> ident_char CHR '' ''" "\<not> number_char CHR '' ''" "IsSpace CHR '' ''" "\<not> IsSpace CHR 0x27" "\<not> IsSpace CHR ''(''" "\<not> IsSpace CHR '')''"
  "\<not> IsSpace CHR '',''" "\<not> IsSpace CHR ''=''" "\<not> IsSpace CHR ''!''" "\<not> IsSpace CHR ''>''" "\<not> IsSpace CHR ''<''" "\<not> IsSpace CHR ''-''"
  "\<not> IsSpace CHR ''_''" "\<not> IsDigit CHR ''_''"
  by (simp_all add: ident_char_def number_char_def IsSpace_def IsLetter_def IsDigit_def code_def)

lemma digit_other:
  assumes "IsDigit c"
  shows "\<not> IsSpace c" "c \<notin> {CHR 0x27, CHR ''('', CHR '')'', CHR '','', CHR ''!'', CHR ''>'', CHR ''<'', CHR ''='', CHR ''-''}"
  using assms by (auto simp: IsDigit_def IsSpace_def code_def)

lemma letter_other:
  assumes "IsLetter c \<or> c = CHR ''_''" "code c < 128"
  shows "\<not> IsSpace c" "\<not> IsDigit c" "c \<notin> {CHR 0x27, CHR ''('', CHR '')'', CHR '','', CHR ''!'', CHR ''>'', CHR ''<'', CHR ''='', CHR ''-''}"
  using assms by (auto simp: IsLetter_def IsDigit_def IsSpace_def code_def)

lemma tokenize_space: "tokenize i (CHR '' '' # cs) = tokenize (Suc i) cs"
  by (simp add: tokenize.simps(2) char_classes Let_def)

lemma at_end_take: "at_end r \<Longrightarrow> take 1 r \<noteq> ''=''"
  by (auto simp: at_end_def split: list.splits)

lemma tokenize_op:
  assumes "at_end r"
  shows "tokenize i (CHR ''='' # r) = map_sum id (Cons (TokOp ''='')) (tokenize (Suc i) r)"
    "tokenize i (CHR ''>'' # r) = map_sum id (Cons (TokOp ''>'')) (tokenize (Suc i) r)"
    "tokenize i (CHR ''<'' # r) = map_sum id (Cons (TokOp ''<'')) (tokenize (Suc i) r)"
    "tokenize i (CHR ''!'' # CHR ''='' # r) = map_sum id (Cons (TokOp ''!='')) (tokenize (i + 2) r)"
    "tokenize i (CHR ''>'' # CHR ''='' # r) = map_sum id (Cons (TokOp ''>='')) (tokenize (i + 2) r)"
    "tokenize i (CHR ''<'' # CHR ''='' # r) = map_sum id (Cons (TokOp ''<='')) (tokenize (i + 2) r)"
  using at_end_take [OF assms] by (simp_all add: tokenize.simps(2) [of i] Let_def char_classes numeral_2_eq_2)

lemma tokenize_punct:
  "tokenize i (CHR ''('' # r) = map_sum id (Cons TokLParen) (tokenize (Suc i) r)"
  "tokenize i (CHR '')'' # r) = map_sum id (Cons TokRParen) (tokenize (Suc i) r)"
  "tokenize i (CHR '','' # r) = map_sum id (Cons TokComma) (tokenize (Suc i) r)"
  by (simp_all add: tokenize.simps(2) [of i] Let_def char_classes)

lemma tokenize_token:
  assumes "good_token t" and r: "at_end r"
  shows "\<exists>j. tokenize i (token_string t @ r) = map_sum id (Cons t) (tokenize j r)"
proof (cases t)
  case (TokIdent v)
  then obtain c ds where v: "v = c # ds" using assms by (cases v) auto
  have c: "IsLetter c \<or> c = CHR ''_''" "code c < 128" and ds: "list_all ident_char ds" using assms TokIdent v by auto
  note tw = takeWhile_run [OF ds r char_classes(1)]
  have "tokenize i (c # ds @ r) = map_sum id (Cons (TokIdent (c # ds))) (tokenize (i + Suc (length ds)) r)"
    unfolding tokenize.simps(2) [of i c] Let_def tw using letter_other [OF c] c(1) by simp
  then show ?thesis by (auto simp: TokIdent v)
next
  case (TokNumber v)
  then obtain c ds where v: "v = c # ds" using assms by (cases v) auto
  have ds: "list_all number_char ds" using assms TokNumber v by auto
  note tw = takeWhile_run [OF ds r char_classes(2)]
  have "IsDigit c \<or> c = CHR ''-'' \<and> ds \<noteq> [] \<and> IsDigit (hd ds)" using assms TokNumber v by auto
  then have "tokenize i (c # ds @ r) = map_sum id (Cons (TokNumber (c # ds))) (tokenize (i + Suc (length ds)) r)"
  proof
    assume d: "IsDigit c"
    show ?thesis unfolding tokenize.simps(2) [of i c] Let_def tw using digit_other [OF d] d by simp
  next
    assume d: "c = CHR ''-'' \<and> ds \<noteq> [] \<and> IsDigit (hd ds)"
    show ?thesis unfolding tokenize.simps(2) [of i c] Let_def tw using d char_classes by simp
  qed
  then show ?thesis by (auto simp: TokNumber v)
next
  case (TokString v)
  have "takeWhile (\<lambda>x. x \<noteq> CHR 0x27) (v @ CHR 0x27 # r) = v"
    using assms TokString by (subst takeWhile_append2) (auto simp: list_all_iff)
  then have "tokenize i (CHR 0x27 # v @ CHR 0x27 # r) =
      map_sum id (Cons (TokString v)) (tokenize (i + Suc (length v + 1)) r)"
    unfolding tokenize.simps(2) [of i] Let_def using char_classes by simp
  then show ?thesis by (auto simp: TokString)
next
  case (TokOp v)
  then have "v \<in> {''='', ''!='', ''>'', ''<'', ''>='', ''<=''}" using assms by simp
  then show ?thesis
    unfolding TokOp
    by (elim insertE emptyE; simp add: tokenize_op [OF r]; blast)
qed (use assms in \<open>simp_all add: tokenize_punct, blast+\<close>)

lemma tokenize_render: "list_all good_token ts \<Longrightarrow> tokenize i (render ts) = Inr (ts @ [TokEOF])"
proof (induction ts arbitrary: i rule: render.induct)
  case (2 t)
  then show ?case using tokenize_token [of t "[]" i] by (auto simp: at_end_def)
next
  case (3 t u ts)
  then obtain j where "tokenize i (render (t # u # ts)) = map_sum id (Cons t) (tokenize j (CHR '' '' # render (u # ts)))"
    using tokenize_token [of t "CHR '' '' # render (u # ts)" i] by (auto simp: at_end_def)
  with 3 show ?case by (simp add: tokenize_space)
qed simp

section \<open>Trimming\<close>

lemma solid_classes: "IsDigit c \<Longrightarrow> solid c" "IsLetter c \<Longrightarrow> code c < 128 \<Longrightarrow> solid c" "ident_char c \<Longrightarrow> code c < 128 \<Longrightarrow> solid c"
  "number_char c \<Longrightarrow> solid c"
  by (auto simp: solid_def IsDigit_def IsSpace_def IsLetter_def ident_char_def number_char_def code_def)

lemma solid_chars: "solid CHR 0x27" "solid CHR ''_''" "solid CHR ''-''" "solid CHR ''=''" "solid CHR ''<''" "solid CHR ''>''" "solid CHR ''!''"
  "solid CHR ''(''" "solid CHR '')''" "solid CHR '',''"
  by (simp_all add: solid_def IsSpace_def code_def)

lemma token_solid: "good_token t \<Longrightarrow> token_string t \<noteq> [] \<and> solid (hd (token_string t)) \<and> solid (last (token_string t))"
proof (cases t)
  case (TokIdent v)
  assume "good_token t"
  with TokIdent have v: "v \<noteq> []" "\<forall>c \<in> set v. ident_char c \<and> code c < 128" by (auto simp: list_all_iff)
  with solid_classes(3) TokIdent show ?thesis by auto
next
  case (TokNumber v)
  assume "good_token t"
  with TokNumber have v: "v \<noteq> []" "\<forall>c \<in> set (tl v). solid c" "solid (hd v)"
    by (auto simp: list_all_iff solid_classes solid_chars)
  then have "solid (last v)" by (cases v) auto
  with v TokNumber show ?thesis by simp
next
  case (TokOp v)
  assume "good_token t"
  with TokOp show ?thesis by (auto simp: solid_chars)
qed (auto simp: solid_chars)

lemma render_solid:
  "ts \<noteq> [] \<Longrightarrow> list_all good_token ts \<Longrightarrow> render ts \<noteq> [] \<and> solid (hd (render ts)) \<and> solid (last (render ts))"
proof (induction ts rule: render.induct)
  case (2 t)
  then show ?case using token_solid by simp
next
  case (3 t u ts)
  then show ?case using token_solid [of t] by simp
qed simp

section \<open>Round trip\<close>

text \<open>
  C21. Printing and parsing round trip. An expression written with the fewest parentheses that
  the grammar allows (\<open>OR\<close> below \<open>AND\<close> below \<open>NOT\<close>, both binary operators associating to the left),
  its tokens separated by single spaces, parses back to exactly that expression. The columns are
  ASCII identifiers other than reserved words, string literals contain no quote, and numeric
  literals are written so that the decimal conversion reads them back.
\<close>

theorem ParseRowFilter_print:
  assumes "printable pf num e" "list_all good_token (show_expr num e 0)"
  shows "ParseRowFilter pf (render (show_expr num e 0)) = Inr (Some e)"
proof -
  have "show_expr num e 0 \<noteq> []" by (cases e) (auto simp: paren_def)
  note S = render_solid [OF this assms(2)]
  have "TrimSpace (render (show_expr num e 0)) = render (show_expr num e 0)" using S by (intro TrimSpace_solid) auto
  with S tokenize_render [OF assms(2), of 0] parse_show [OF assms(1)] show ?thesis
    by (simp add: ParseRowFilter_def Let_def peek_def)
qed

definition ex_filter :: expr where
  "ex_filter = OrNode (CompareNode ''status'' ''='' (LStr ''paid'')) (AndNode (NotNode (IsNullNode ''before.id'' False))
     (InNode ''kind'' [LStr ''a'', LNull]))"

theorem ParseRowFilter_print_witness:
  "printable (\<lambda>_. None) (\<lambda>_. []) ex_filter \<and>
   render (show_expr (\<lambda>_. []) ex_filter 0) = ''status = '' @ [CHR 0x27] @ ''paid'' @ [CHR 0x27] @
     '' OR NOT before.id IS NULL AND kind IN ( '' @ [CHR 0x27] @ ''a'' @ [CHR 0x27] @ '' , NULL )'' \<and>
   ParseRowFilter (\<lambda>_. None) (render (show_expr (\<lambda>_. []) ex_filter 0)) = Inr (Some ex_filter)"
proof -
  have p: "printable (\<lambda>_. None) (\<lambda>_. []) ex_filter"
    by code_simp
  have g: "list_all good_token (show_expr (\<lambda>_. []) ex_filter 0)"
    by (simp add: ex_filter_def paren_def lit_token_def IsLetter_def IsDigit_def ident_char_def code_def)
  show ?thesis
    using p ParseRowFilter_print [OF p g] by (simp add: ex_filter_def paren_def lit_token_def)
qed

end
