(* ===== verification/Cluster.thy ===== *)
theory Cluster
  imports Cursor_Stores
begin

text \<open>
  Cluster membership and partition ownership (\<open>internal/cluster\<close>): the \<open>kaptanto_partitions\<close> and
  \<open>kaptanto_nodes\<close> tables, \<open>PartitionStore\<close>, \<open>PartitionManager\<close>, \<open>NodeHeartbeater\<close> and the
  epoch cursor store. Each SQL statement is one atomic step on the tables; a Go routine that
  issues several of them is interleaved with the other nodes between any two.
\<close>

section \<open>The tables\<close>

text \<open>A row of \<open>kaptanto_partitions\<close>: the owner (\<open>NULL\<close> is \<^term>\<open>None\<close>) and the epoch, a \<open>BIGINT\<close>.\<close>

type_synonym partition_table = "(u32, string option \<times> int) gomap"

datatype cluster_error = QueryFailed | BigintOutOfRange

definition createPartitionsTable :: partition_table where
  "createPartitionsTable = map (\<lambda>i. (word_of_nat i, (None, 0))) [0..<64]"

definition owner_of :: "partition_table \<Rightarrow> u32 \<Rightarrow> string option" where
  "owner_of t p = (case gm_get t p of None \<Rightarrow> None | Some (w, e) \<Rightarrow> w)"

definition epoch_of :: "partition_table \<Rightarrow> u32 \<Rightarrow> int" where
  "epoch_of t p = (case gm_get t p of None \<Rightarrow> 0 | Some (w, e) \<Rightarrow> e)"

definition listUnclaimed :: "partition_table \<Rightarrow> u32 list" where
  "listUnclaimed t = sort (map fst (filter (\<lambda>(p, w, e). w = None) t))"

text \<open>The conditional \<open>UPDATE ... RETURNING\<close>: no row is the lost race, an overflowing epoch an error.\<close>

definition claimPartition :: "string \<Rightarrow> u32 \<Rightarrow> partition_table \<Rightarrow> cluster_error + (int option \<times> partition_table)" where
  "claimPartition nodeID pid t =
     (case gm_get t pid of
        Some (None, e) \<Rightarrow>
          if e + 1 < 2 ^ 63 then Inr (Some (e + 1), gm_set pid (Some nodeID, e + 1) t)
          else Inl BigintOutOfRange
      | _ \<Rightarrow> Inr (None, t))"

definition stealRows :: "string \<Rightarrow> string \<Rightarrow> partition_table \<Rightarrow> cluster_error + ((u32 \<times> int) list \<times> partition_table)" where
  "stealRows nodeID stale t =
     (if list_all (\<lambda>(p, w, e). w = Some stale \<longrightarrow> e + 1 < 2 ^ 63) t
      then Inr (map (\<lambda>(p, w, e). (p, e + 1)) (filter (\<lambda>(p, w, e). w = Some stale) t),
                map (\<lambda>(p, w, e). if w = Some stale then (p, Some nodeID, e + 1) else (p, w, e)) t)
      else Inl BigintOutOfRange)"

definition releaseRows :: "string \<Rightarrow> partition_table \<Rightarrow> partition_table" where
  "releaseRows nodeID t = map (\<lambda>(p, w, e). (p, if w = Some nodeID then None else w, e)) t"

section \<open>PartitionStore\<close>

text \<open>A \<open>PartitionClaim\<close> is the pair of partition and epoch.\<close>

type_synonym partition_claim = "u32 \<times> int"

record partition_store =
  ps_nodeID :: string
  ps_epochs :: "(u32, int) gomap"

definition OpenPartitionStore :: "string \<Rightarrow> partition_store" where
  "OpenPartitionStore nodeID = \<lparr>ps_nodeID = nodeID, ps_epochs = []\<rparr>"

text \<open>One iteration of the loop in \<open>ClaimUnclaimed\<close>; \<open>db_ok\<close> says whether the query met no failure.\<close>

definition claim_one ::
  "bool \<Rightarrow> u32 \<Rightarrow> partition_claim list \<Rightarrow> partition_store \<Rightarrow> partition_table
     \<Rightarrow> (cluster_error + partition_claim list) \<times> partition_store \<times> partition_table" where
  "claim_one db_ok pid claimed ps t =
     (if \<not> db_ok then (Inl QueryFailed, ps, t)
      else case claimPartition (ps_nodeID ps) pid t of
        Inl e \<Rightarrow> (Inl e, ps, t)
      | Inr (None, t') \<Rightarrow> (Inr claimed, ps, t')
      | Inr (Some epoch, t') \<Rightarrow>
          (Inr (claimed @ [(pid, epoch)]), ps\<lparr>ps_epochs := gm_set pid epoch (ps_epochs ps)\<rparr>, t'))"

fun claim_loop ::
  "(u32 \<Rightarrow> bool) \<Rightarrow> u32 list \<Rightarrow> partition_claim list \<Rightarrow> partition_store \<Rightarrow> partition_table
     \<Rightarrow> (cluster_error + partition_claim list) \<times> partition_store \<times> partition_table" where
  "claim_loop db [] claimed ps t = (Inr claimed, ps, t)"
| "claim_loop db (pid # pids) claimed ps t =
     (case claim_one (db pid) pid claimed ps t of
        (Inl e, ps', t') \<Rightarrow> (Inl e, ps', t')
      | (Inr claimed', ps', t') \<Rightarrow> claim_loop db pids claimed' ps' t')"

definition ClaimUnclaimed ::
  "bool \<Rightarrow> (u32 \<Rightarrow> bool) \<Rightarrow> partition_store \<Rightarrow> partition_table
     \<Rightarrow> (cluster_error + partition_claim list) \<times> partition_store \<times> partition_table" where
  "ClaimUnclaimed list_ok db ps t =
     (if list_ok then claim_loop db (listUnclaimed t) [] ps t else (Inl QueryFailed, ps, t))"

text \<open>
  How a query that returns rows ends: it ran and every row was read, or it failed, before or
  after the statement took effect, with the first \<open>n\<close> rows read.
\<close>

datatype rows_outcome = RowsRead | RowsFailed bool nat

definition add_epochs :: "partition_claim list \<Rightarrow> (u32, int) gomap \<Rightarrow> (u32, int) gomap" where
  "add_epochs cs m = fold (\<lambda>(p, e) m. gm_set p e m) cs m"

definition StealStalePartitions ::
  "rows_outcome \<Rightarrow> string \<Rightarrow> partition_store \<Rightarrow> partition_table
     \<Rightarrow> (cluster_error + partition_claim list) \<times> partition_store \<times> partition_table" where
  "StealStalePartitions oc stale ps t =
     (case stealRows (ps_nodeID ps) stale t of
        Inl e \<Rightarrow> (Inl e, ps, t)
      | Inr (stolen, t') \<Rightarrow>
          (case oc of
             RowsRead \<Rightarrow> (Inr stolen, ps\<lparr>ps_epochs := add_epochs stolen (ps_epochs ps)\<rparr>, t')
           | RowsFailed applied n \<Rightarrow>
               if applied then (Inl QueryFailed, ps\<lparr>ps_epochs := add_epochs (take n stolen) (ps_epochs ps)\<rparr>, t')
               else (Inl QueryFailed, ps, t)))"

text \<open>An \<open>Exec\<close> ends well, or fails with the statement applied or not.\<close>

datatype exec_outcome = ExecOk | ExecFailed bool

definition ps_ReleaseAll ::
  "exec_outcome \<Rightarrow> partition_store \<Rightarrow> partition_table \<Rightarrow> bool \<times> partition_store \<times> partition_table" where
  "ps_ReleaseAll oc ps t =
     (case oc of
        ExecOk \<Rightarrow> (True, ps\<lparr>ps_epochs := []\<rparr>, releaseRows (ps_nodeID ps) t)
      | ExecFailed applied \<Rightarrow> (False, ps, if applied then releaseRows (ps_nodeID ps) t else t))"

definition ListOwned :: "partition_store \<Rightarrow> partition_table \<Rightarrow> partition_claim list" where
  "ListOwned ps t =
     map (\<lambda>(p, w, e). (p, e)) (sort_key fst (filter (\<lambda>(p, w, e). w = Some (ps_nodeID ps)) t))"

definition EpochFor :: "partition_store \<Rightarrow> u32 \<Rightarrow> int \<times> bool" where
  "EpochFor ps p = (case gm_get (ps_epochs ps) p of None \<Rightarrow> (0, False) | Some e \<Rightarrow> (e, True))"

section \<open>PartitionManager\<close>

text \<open>
  \<open>pm_rtr\<close>: \<^term>\<open>None\<close> is a nil router; otherwise the router's \<open>ownedPartitions\<close>, whose nil is the
  inner \<^term>\<open>None\<close>.
\<close>

record partition_manager =
  pm_store :: partition_store
  pm_owned :: "(u32, int) gomap"
  pm_rtr :: "u32 list option option"

definition NewPartitionManager :: "partition_store \<Rightarrow> partition_manager" where
  "NewPartitionManager ps = \<lparr>pm_store = ps, pm_owned = [], pm_rtr = None\<rparr>"

definition SetRouter :: "u32 list option \<Rightarrow> partition_manager \<Rightarrow> partition_manager" where
  "SetRouter rtr pm = pm\<lparr>pm_rtr := Some rtr\<rparr>"

definition OwnsPartition :: "partition_manager \<Rightarrow> u32 \<Rightarrow> bool" where
  "OwnsPartition pm p \<longleftrightarrow> gm_get (pm_owned pm) p \<noteq> None"

definition OwnedPartitions :: "partition_manager \<Rightarrow> u32 list" where
  "OwnedPartitions pm = sort (map fst (pm_owned pm))"

text \<open>\<open>Router.SetOwnedPartitions\<close>, and the partitions \<open>Router.Run\<close> starts.\<close>

definition SetOwnedPartitions :: "u32 list \<Rightarrow> u32 list option \<Rightarrow> u32 list option" where
  "SetOwnedPartitions owned _ = Some owned"

definition Run_partitions :: "u32 \<Rightarrow> u32 list option \<Rightarrow> u32 list" where
  "Run_partitions num owned = (case owned of None \<Rightarrow> allPartitions num | Some ps \<Rightarrow> ps)"

definition applyToRouter :: "partition_manager \<Rightarrow> partition_manager" where
  "applyToRouter pm =
     (case pm_rtr pm of
        None \<Rightarrow> pm
      | Some r \<Rightarrow> pm\<lparr>pm_rtr := Some (SetOwnedPartitions (OwnedPartitions pm) r)\<rparr>)"

definition pm_ReleaseAll ::
  "exec_outcome \<Rightarrow> partition_manager \<Rightarrow> partition_table \<Rightarrow> bool \<times> partition_manager \<times> partition_table" where
  "pm_ReleaseAll oc pm t =
     (case ps_ReleaseAll oc (pm_store pm) t of
        (ok, ps, t') \<Rightarrow> (ok, applyToRouter (pm\<lparr>pm_store := ps, pm_owned := []\<rparr>), t'))"

text \<open>What \<open>claimAndApply\<close> and \<open>stealPartitions\<close> do with the claims they get back.\<close>

definition apply_claims :: "cluster_error + partition_claim list \<Rightarrow> partition_manager \<Rightarrow> partition_manager" where
  "apply_claims r pm =
     (case r of
        Inl e \<Rightarrow> pm
      | Inr claims \<Rightarrow>
          if claims = [] then pm else applyToRouter (pm\<lparr>pm_owned := add_epochs claims (pm_owned pm)\<rparr>))"

definition claimAndApply ::
  "bool \<Rightarrow> (u32 \<Rightarrow> bool) \<Rightarrow> partition_manager \<Rightarrow> partition_table \<Rightarrow> partition_manager \<times> partition_table" where
  "claimAndApply list_ok db pm t =
     (case ClaimUnclaimed list_ok db (pm_store pm) t of
        (r, ps, t') \<Rightarrow> (apply_claims r (pm\<lparr>pm_store := ps\<rparr>), t'))"

definition stealPartitions ::
  "rows_outcome \<Rightarrow> string \<Rightarrow> partition_manager \<Rightarrow> partition_table \<Rightarrow> partition_manager \<times> partition_table" where
  "stealPartitions oc stale pm t =
     (case StealStalePartitions oc stale (pm_store pm) t of
        (r, ps, t') \<Rightarrow> (apply_claims r (pm\<lparr>pm_store := ps\<rparr>), t'))"

section \<open>NodeHeartbeater\<close>

text \<open>\<open>kaptanto_nodes\<close>, the address left out: \<open>last_seen\<close> in seconds of the database clock.\<close>

type_synonym nodes_table = "(string, int) gomap"

definition deriveNodeID :: "string \<Rightarrow> string option \<Rightarrow> string" where
  "deriveNodeID nodeID hostname =
     (if nodeID \<noteq> [] then nodeID
      else case hostname of
        None \<Rightarrow> ''node-unknown''
      | Some h \<Rightarrow> if h = [] then ''node-unknown'' else h)"

definition upsert :: "string \<Rightarrow> int \<Rightarrow> nodes_table \<Rightarrow> nodes_table" where
  "upsert nodeID now nt = gm_set nodeID now nt"

definition markOffline :: "string \<Rightarrow> nodes_table \<Rightarrow> nodes_table" where
  "markOffline nodeID nt = gm_del nodeID nt"

definition StaleNodes :: "int \<Rightarrow> int \<Rightarrow> nodes_table \<Rightarrow> string list" where
  "StaleNodes now thresholdSeconds nt = map fst (filter (\<lambda>(n, seen). seen < now - thresholdSeconds) nt)"

text \<open>
  A whole \<open>tick\<close> run without interference: steal from every stale node but this one, then claim.
  \<open>stale\<close> is the answer of \<open>StaleNodes\<close>, \<^term>\<open>None\<close> when the query failed.
\<close>

definition tick ::
  "string list option \<Rightarrow> (string \<Rightarrow> rows_outcome) \<Rightarrow> bool \<Rightarrow> (u32 \<Rightarrow> bool) \<Rightarrow>
     partition_manager \<Rightarrow> partition_table \<Rightarrow> partition_manager \<times> partition_table" where
  "tick stale oc list_ok db pm t =
     (let (pm1, t1) = (case stale of
            None \<Rightarrow> (pm, t)
          | Some ns \<Rightarrow>
              fold (\<lambda>n (pm, t). if n = ps_nodeID (pm_store pm) then (pm, t) else stealPartitions (oc n) n pm t)
                ns (pm, t))
      in claimAndApply list_ok db pm1 t1)"

section \<open>The epoch cursor store\<close>

definition epoch_SaveCursor :: "'st saver \<Rightarrow> partition_manager \<Rightarrow> 'st saver" where
  "epoch_SaveCursor inner manager consumerID partitionID seq st =
     (if \<not> OwnsPartition manager partitionID then st else inner consumerID partitionID seq st)"

text \<open>
  The store of a cluster node is the pair of its manager and the wrapped store. Seen from the
  router it is a cursor store whatever the manager does meanwhile: a dropped save loses a cursor
  and never invents one.
\<close>

datatype fence_op = InnerOp store_op | ManagerOp partition_manager

definition fenced_SaveCursor :: "(partition_manager \<times> batched_store) saver" where
  "fenced_SaveCursor c p seq st = (fst st, epoch_SaveCursor SaveCursor (fst st) c p seq (snd st))"

definition fenced_LoadCursor :: "partition_manager \<times> batched_store \<Rightarrow> string \<Rightarrow> u32 \<Rightarrow> u64 option" where
  "fenced_LoadCursor st = LoadCursor (snd st)"

definition fenced_DeleteCursor :: "string \<Rightarrow> partition_manager \<times> batched_store \<Rightarrow> partition_manager \<times> batched_store" where
  "fenced_DeleteCursor c st = (fst st, DeleteCursor c (snd st))"

fun fenced_bg :: "fence_op \<Rightarrow> partition_manager \<times> batched_store \<Rightarrow> partition_manager \<times> batched_store" where
  "fenced_bg (InnerOp b) st = (fst st, store_bg b (snd st))"
| "fenced_bg (ManagerOp m) st = (m, snd st)"

interpretation fenced: cursor_store fenced_SaveCursor fenced_LoadCursor fenced_bg "\<lambda>st. all_held (snd st)"
proof unfold_locales
  show "fenced_LoadCursor st c p = Some s \<Longrightarrow> s = 1 \<or> s \<in> all_held (snd st) c p" for st c p s
    unfolding fenced_LoadCursor_def by (rule batched.load_holds)
  show "all_held (snd (fenced_SaveCursor c p s st)) c' p' \<subseteq> (if c' = c \<and> p' = p then {s} else {}) \<union> all_held (snd st) c' p'"
    for c p s st c' p'
    using batched.holds_save [of c p s "snd st" c' p'] by (auto simp: fenced_SaveCursor_def epoch_SaveCursor_def)
  show "all_held (snd (fenced_bg b st)) c p \<subseteq> all_held (snd st) c p" for b st c p
    by (cases b) (simp_all add: held_bg)
qed

section \<open>The cluster\<close>

text \<open>
  A process: its manager, a \<open>ClaimUnclaimed\<close> under way (partitions still to try, claims so far)
  and the stale nodes its \<open>tick\<close> has still to steal from.
\<close>

record proc =
  pr_pm :: partition_manager
  pr_claim :: "(u32 list \<times> partition_claim list) option"
  pr_stale :: "string list"

record cluster =
  cl_parts :: partition_table
  cl_nodes :: nodes_table
  cl_now :: int
  cl_proc :: "string \<Rightarrow> proc"

definition boot_proc :: "string \<Rightarrow> proc" where
  "boot_proc n = \<lparr>pr_pm = SetRouter None (NewPartitionManager (OpenPartitionStore n)), pr_claim = None, pr_stale = []\<rparr>"

definition boot_cluster :: cluster where
  "boot_cluster = \<lparr>cl_parts = createPartitionsTable, cl_nodes = [], cl_now = 0, cl_proc = boot_proc\<rparr>"

text \<open>The atomic actions of the nodes; an action that is not enabled changes nothing.\<close>

datatype action =
    Heartbeat string
  | Offline string
  | Elapse nat
  | QueryStale string int
  | StealNext string rows_outcome
  | ClaimBegin string
  | ClaimNext string bool
  | ClaimDone string
  | Release string exec_outcome
  | Restart string

definition set_proc :: "string \<Rightarrow> proc \<Rightarrow> cluster \<Rightarrow> cluster" where
  "set_proc n pr c = c\<lparr>cl_proc := (cl_proc c)(n := pr)\<rparr>"

definition do_steal :: "string \<Rightarrow> rows_outcome \<Rightarrow> cluster \<Rightarrow> cluster" where
  "do_steal n oc c =
     (let pr = cl_proc c n in
      case pr_stale pr of
        [] \<Rightarrow> c
      | m # ms \<Rightarrow>
          if m = n then set_proc n (pr\<lparr>pr_stale := ms\<rparr>) c
          else (case stealPartitions oc m (pr_pm pr) (cl_parts c) of
                  (pm, t) \<Rightarrow> set_proc n (pr\<lparr>pr_pm := pm, pr_stale := ms\<rparr>) (c\<lparr>cl_parts := t\<rparr>)))"

definition do_claim_next :: "string \<Rightarrow> bool \<Rightarrow> cluster \<Rightarrow> cluster" where
  "do_claim_next n ok c =
     (let pr = cl_proc c n in
      case pr_claim pr of
        Some (pid # pids, claimed) \<Rightarrow>
          (case claim_one ok pid claimed (pm_store (pr_pm pr)) (cl_parts c) of
             (r, ps, t) \<Rightarrow>
               set_proc n (pr\<lparr>pr_pm := (pr_pm pr)\<lparr>pm_store := ps\<rparr>,
                              pr_claim := (case r of Inl e \<Rightarrow> None | Inr claimed' \<Rightarrow> Some (pids, claimed'))\<rparr>)
                 (c\<lparr>cl_parts := t\<rparr>))
      | _ \<Rightarrow> c)"

fun act :: "action \<Rightarrow> cluster \<Rightarrow> cluster" where
  "act (Heartbeat n) c = c\<lparr>cl_nodes := upsert n (cl_now c) (cl_nodes c)\<rparr>"
| "act (Offline n) c = c\<lparr>cl_nodes := markOffline n (cl_nodes c)\<rparr>"
| "act (Elapse d) c = c\<lparr>cl_now := cl_now c + int d\<rparr>"
| "act (QueryStale n thr) c =
     (let pr = cl_proc c n in
      if pr_claim pr = None then set_proc n (pr\<lparr>pr_stale := StaleNodes (cl_now c) thr (cl_nodes c)\<rparr>) c else c)"
| "act (StealNext n oc) c = do_steal n oc c"
| "act (ClaimBegin n) c =
     (let pr = cl_proc c n in
      if pr_claim pr = None \<and> pr_stale pr = []
      then set_proc n (pr\<lparr>pr_claim := Some (listUnclaimed (cl_parts c), [])\<rparr>) c else c)"
| "act (ClaimNext n ok) c = do_claim_next n ok c"
| "act (ClaimDone n) c =
     (let pr = cl_proc c n in
      case pr_claim pr of
        Some ([], claimed) \<Rightarrow> set_proc n (pr\<lparr>pr_pm := apply_claims (Inr claimed) (pr_pm pr), pr_claim := None\<rparr>) c
      | _ \<Rightarrow> c)"
| "act (Release n oc) c =
     (let pr = cl_proc c n in
      if pr_claim pr = None
      then (case pm_ReleaseAll oc (pr_pm pr) (cl_parts c) of
              (ok, pm, t) \<Rightarrow> set_proc n (pr\<lparr>pr_pm := pm\<rparr>) (c\<lparr>cl_parts := t\<rparr>))
      else c)"
| "act (Restart n) c = set_proc n (boot_proc n) c"

end
