(* ===== verification/Cluster_Safety.thy ===== *)
theory Cluster_Safety
  imports Cluster
begin

text \<open>
  What the partition tables guarantee over every interleaving of the nodes, database failures and
  restarts included: epochs are fencing tokens (each is granted once, to one node), ownership
  changes raise them, a claim that meets no failure covers every unclaimed partition. And what the
  manager's own map does not: it keeps partitions that were stolen, and misses partitions the
  table still assigns to the node.
\<close>

section \<open>The tables\<close>

lemma owner_set [simp]: "owner_of (gm_set p (w, e) t) q = (if p = q then w else owner_of t q)"
  by (simp add: owner_of_def gomap_simps)

lemma epoch_set [simp]: "epoch_of (gm_set p (w, e) t) q = (if p = q then e else epoch_of t q)"
  by (simp add: epoch_of_def gomap_simps)

definition steal_map :: "string \<Rightarrow> string \<Rightarrow> partition_table \<Rightarrow> partition_table" where
  "steal_map n m t = map (\<lambda>(p, w, e). if w = Some m then (p, Some n, e + 1) else (p, w, e)) t"

lemma owner_steal: "owner_of (steal_map n m t) p = (if owner_of t p = Some m then Some n else owner_of t p)"
  by (induction t) (auto simp: steal_map_def owner_of_def)

lemma epoch_steal: "epoch_of (steal_map n m t) p = (if owner_of t p = Some m then epoch_of t p + 1 else epoch_of t p)"
  by (induction t) (auto simp: steal_map_def owner_of_def epoch_of_def)

lemma keys_steal [simp]: "map fst (steal_map n m t) = map fst t"
  by (induction t) (auto simp: steal_map_def)

lemma owner_release: "owner_of (releaseRows n t) p = (if owner_of t p = Some n then None else owner_of t p)"
  by (induction t) (auto simp: releaseRows_def owner_of_def)

lemma epoch_release [simp]: "epoch_of (releaseRows n t) p = epoch_of t p"
  by (induction t) (auto simp: releaseRows_def epoch_of_def)

lemma keys_release [simp]: "map fst (releaseRows n t) = map fst t"
  by (induction t) (auto simp: releaseRows_def)

lemma row_of: "gm_wf t \<Longrightarrow> (p, w, e) \<in> set t \<Longrightarrow> owner_of t p = w \<and> epoch_of t p = e"
  by (simp add: owner_of_def epoch_of_def)

lemma stealRows_Inr:
  assumes "gm_wf t" "stealRows n m t = Inr (stolen, t')"
  shows "t' = steal_map n m t" "set stolen = {(p, epoch_of t p + 1) | p. owner_of t p = Some m}"
proof -
  have t': "t' = steal_map n m t" and st: "stolen = map (\<lambda>(p, w, e). (p, e + 1)) (filter (\<lambda>(p, w, e). w = Some m) t)"
    using assms(2) by (auto simp: stealRows_def steal_map_def split: if_splits)
  show "t' = steal_map n m t" by (rule t')
  show "set stolen = {(p, epoch_of t p + 1) | p. owner_of t p = Some m}" (is "?L = ?R")
  proof
    show "?L \<subseteq> ?R" using row_of [OF assms(1)] by (auto simp: st)
    show "?R \<subseteq> ?L"
    proof clarify
      fix p assume own: "owner_of t p = Some m"
      then obtain e where "gm_get t p = Some (Some m, e)" by (auto simp: owner_of_def split: option.splits prod.splits)
      then have "(p, Some m, e) \<in> set t" by (rule map_of_SomeD)
      with row_of [OF assms(1) this] show "(p, epoch_of t p + 1) \<in> ?L" by (force simp: st)
    qed
  qed
qed

lemma claimPartition_cases:
  obtains (err) e where "claimPartition n pid t = Inl e"
  | (lost) "claimPartition n pid t = Inr (None, t)"
  | (won) "claimPartition n pid t = Inr (Some (epoch_of t pid + 1), gm_set pid (Some n, epoch_of t pid + 1) t)"
      "owner_of t pid = None" "gm_get t pid \<noteq> None"
proof (cases "gm_get t pid")
  case None
  then show ?thesis using lost by (simp add: claimPartition_def)
next
  case (Some we)
  obtain w e where we: "we = (w, e)" by fastforce
  show ?thesis
    using err lost won Some we
    by (cases w; cases "e + 1 < 2 ^ 63") (simp_all add: claimPartition_def owner_of_def epoch_of_def)
qed

section \<open>What one action may change\<close>

text \<open>The epochs a process remembers for a partition, in any of its maps.\<close>

definition held :: "proc \<Rightarrow> u32 \<Rightarrow> int set" where
  "held pr p = set_option (gm_get (ps_epochs (pm_store (pr_pm pr))) p) \<union> set_option (gm_get (pm_owned (pr_pm pr)) p) \<union>
     {e. \<exists>pids cs. pr_claim pr = Some (pids, cs) \<and> (p, e) \<in> set cs}"

text \<open>The table only moves forward: the epoch never drops, and with the epoch the owner stays or is cleared.\<close>

definition forward :: "partition_table \<Rightarrow> partition_table \<Rightarrow> bool" where
  "forward t t' \<longleftrightarrow> (\<forall>p. epoch_of t p \<le> epoch_of t' p \<and>
     (epoch_of t' p = epoch_of t p \<longrightarrow> owner_of t' p = owner_of t p \<or> owner_of t' p = None))"

text \<open>A process gains an epoch only with the row that the action wrote for it.\<close>

definition gains :: "string \<Rightarrow> partition_table \<Rightarrow> partition_table \<Rightarrow> proc \<Rightarrow> proc \<Rightarrow> bool" where
  "gains n t t' pr pr' \<longleftrightarrow> (\<forall>p. \<forall>e\<in>held pr' p.
     e \<in> held pr p \<or> (e = epoch_of t p + 1 \<and> e = epoch_of t' p \<and> owner_of t' p = Some n))"

lemma forward_refl [simp]: "forward t t" by (simp add: forward_def)

lemma forward_trans: "forward t t' \<Longrightarrow> forward t' t'' \<Longrightarrow> forward t t''"
  unfolding forward_def by (metis antisym order_trans)

lemma gains_refl: "(\<And>p. held pr' p \<subseteq> held pr p) \<Longrightarrow> gains n t t' pr pr'"
  by (auto simp: gains_def)

lemma add_epochs_get: "gm_get (add_epochs cs m) p = Some e \<Longrightarrow> (p, e) \<in> set cs \<or> gm_get m p = Some e"
  unfolding add_epochs_def
proof (induction cs arbitrary: m)
  case (Cons x cs)
  obtain p0 e0 where x: "x = (p0, e0)" by fastforce
  from Cons.IH [of "gm_set p0 e0 m"] Cons.prems show ?case by (auto simp: x gomap_simps split: if_splits)
qed simp

lemma add_epochs_dom: "gm_get (add_epochs cs m) p \<noteq> None \<longleftrightarrow> p \<in> fst ` set cs \<or> gm_get m p \<noteq> None"
  unfolding add_epochs_def
proof (induction cs arbitrary: m)
  case (Cons x cs)
  obtain p0 e0 where x: "x = (p0, e0)" by fastforce
  from Cons.IH [of "gm_set p0 e0 m"] show ?case by (auto simp: x gomap_simps)
qed simp

lemma add_epochs_wf: "gm_wf m \<Longrightarrow> gm_wf (add_epochs cs m)"
  unfolding add_epochs_def by (induction cs arbitrary: m) auto

lemma applyToRouter_frames [simp]:
  "pm_store (applyToRouter pm) = pm_store pm" "pm_owned (applyToRouter pm) = pm_owned pm"
  by (simp_all add: applyToRouter_def split: option.splits)

lemma apply_claims_frames [simp]:
  "pm_store (apply_claims r pm) = pm_store pm"
  "pm_owned (apply_claims r pm) = (case r of Inl e \<Rightarrow> pm_owned pm | Inr cs \<Rightarrow> add_epochs cs (pm_owned pm))"
  by (auto simp: apply_claims_def add_epochs_def split: sum.splits)

lemma stealPartitions_step:
  assumes "gm_wf t" "stealPartitions oc m pm t = (pm', t')" "ps_nodeID (pm_store pm) = n"
  shows "forward t t'" "gm_wf t'" "ps_nodeID (pm_store pm') = n"
    "gains n t t' (pr\<lparr>pr_pm := pm\<rparr>) (pr\<lparr>pr_pm := pm', pr_stale := ms\<rparr>)"
proof -
  show "ps_nodeID (pm_store pm') = n"
    using assms(2,3) by (auto simp: stealPartitions_def StealStalePartitions_def split: sum.splits prod.splits rows_outcome.splits if_splits)
  have fwd: "forward t (steal_map n m t)" by (simp add: forward_def owner_steal epoch_steal)
  have "(forward t t' \<and> gm_wf t') \<and> gains n t t' (pr\<lparr>pr_pm := pm\<rparr>) (pr\<lparr>pr_pm := pm', pr_stale := ms\<rparr>)"
  proof (cases "stealRows n m t")
    case (Inl e)
    then have "t' = t" "pm' = pm"
      using assms by (auto simp: stealPartitions_def StealStalePartitions_def apply_claims_def)
    then show ?thesis using assms(1) by (auto simp: gains_def held_def)
  next
    case (Inr r)
    obtain stolen t1 where r: "r = (stolen, t1)" by fastforce
    note S = stealRows_Inr [OF assms(1) Inr [unfolded r]]
    have new: "(p, e) \<in> set stolen \<Longrightarrow> e = epoch_of t p + 1 \<and> e = epoch_of (steal_map n m t) p \<and> owner_of (steal_map n m t) p = Some n" for p e
      by (simp add: S(2) owner_steal epoch_steal)
    show ?thesis
      using assms Inr r fwd new S(1)
      by (auto simp: stealPartitions_def StealStalePartitions_def gains_def held_def
          split: rows_outcome.splits if_splits dest!: add_epochs_get in_set_takeD)
  qed
  then show "forward t t'" "gm_wf t'" "gains n t t' (pr\<lparr>pr_pm := pm\<rparr>) (pr\<lparr>pr_pm := pm', pr_stale := ms\<rparr>)" by auto
qed

lemma claim_one_step:
  assumes "gm_wf t" "claim_one ok pid claimed ps t = (r, ps', t')" "ps_nodeID ps = n"
    "pm_store (pr_pm pr) = ps" "pr_claim pr = Some (pid # pids, claimed)"
  shows "forward t t'" "gm_wf t'" "ps_nodeID ps' = n"
    "gains n t t' pr (pr\<lparr>pr_pm := (pr_pm pr)\<lparr>pm_store := ps'\<rparr>,
       pr_claim := (case r of Inl e \<Rightarrow> None | Inr claimed' \<Rightarrow> Some (pids, claimed'))\<rparr>)"
proof -
  have "(forward t t' \<and> gm_wf t') \<and> ps_nodeID ps' = n \<and> gains n t t' pr (pr\<lparr>pr_pm := (pr_pm pr)\<lparr>pm_store := ps'\<rparr>,
       pr_claim := (case r of Inl e \<Rightarrow> None | Inr claimed' \<Rightarrow> Some (pids, claimed'))\<rparr>)"
  proof (cases rule: claimPartition_cases [of n pid t])
    case (won)
    have "forward t (gm_set pid (Some n, epoch_of t pid + 1) t)" by (simp add: forward_def)
    then show ?thesis using assms won
      by (auto simp: claim_one_def gains_def held_def gomap_simps split: if_splits)
  qed (use assms in \<open>auto simp: claim_one_def gains_def held_def split: if_splits\<close>)
  then show "forward t t'" "gm_wf t'" "ps_nodeID ps' = n"
    "gains n t t' pr (pr\<lparr>pr_pm := (pr_pm pr)\<lparr>pm_store := ps'\<rparr>,
       pr_claim := (case r of Inl e \<Rightarrow> None | Inr claimed' \<Rightarrow> Some (pids, claimed'))\<rparr>)" by auto
qed

section \<open>The invariant of the cluster\<close>

definition ids_ok :: "cluster \<Rightarrow> bool" where
  "ids_ok c \<longleftrightarrow> gm_wf (cl_parts c) \<and> (\<forall>n. ps_nodeID (pm_store (pr_pm (cl_proc c n))) = n)"

definition fence_ok :: "cluster \<Rightarrow> bool" where
  "fence_ok c \<longleftrightarrow>
     (\<forall>n p. \<forall>e\<in>held (cl_proc c n) p. e \<le> epoch_of (cl_parts c) p \<and>
        (e = epoch_of (cl_parts c) p \<longrightarrow> owner_of (cl_parts c) p \<in> {None, Some n})) \<and>
     (\<forall>n m p. n \<noteq> m \<longrightarrow> held (cl_proc c n) p \<inter> held (cl_proc c m) p = {})"

text \<open>What an action by node \<open>n\<close> does to the cluster.\<close>

definition moves :: "string \<Rightarrow> cluster \<Rightarrow> cluster \<Rightarrow> bool" where
  "moves n c c' \<longleftrightarrow> ids_ok c' \<and> forward (cl_parts c) (cl_parts c') \<and>
     (\<forall>m. m \<noteq> n \<longrightarrow> cl_proc c' m = cl_proc c m) \<and>
     gains n (cl_parts c) (cl_parts c') (cl_proc c n) (cl_proc c' n)"

lemma set_proc_frames [simp]:
  "cl_parts (set_proc n pr c) = cl_parts c" "cl_proc (set_proc n pr c) = (cl_proc c)(n := pr)"
  by (simp_all add: set_proc_def)

lemma moves_local:
  assumes "ids_ok c" "cl_parts c' = cl_parts c" "\<And>m. m \<noteq> n \<Longrightarrow> cl_proc c' m = cl_proc c m"
    "ps_nodeID (pm_store (pr_pm (cl_proc c' n))) = n" "\<And>p. held (cl_proc c' n) p \<subseteq> held (cl_proc c n) p"
  shows "moves n c c'"
proof -
  have "ids_ok c'" unfolding ids_ok_def
  proof (intro conjI allI)
    show "gm_wf (cl_parts c')" using assms(1,2) by (simp add: ids_ok_def)
    show "ps_nodeID (pm_store (pr_pm (cl_proc c' m))) = m" for m
      using assms(1,3,4) by (cases "m = n") (simp_all add: ids_ok_def)
  qed
  then show ?thesis using assms by (simp add: moves_def gains_refl)
qed

lemma moves_table:
  assumes "ids_ok c" "forward (cl_parts c) t" "gm_wf t" "ps_nodeID (pm_store (pr_pm pr)) = n"
    "gains n (cl_parts c) t (cl_proc c n) pr"
  shows "moves n c (set_proc n pr (c\<lparr>cl_parts := t\<rparr>))"
  using assms by (auto simp: moves_def ids_ok_def)

fun actor :: "action \<Rightarrow> string" where
  "actor (Heartbeat n) = n"
| "actor (Offline n) = n"
| "actor (Elapse d) = []"
| "actor (QueryStale n thr) = n"
| "actor (StealNext n oc) = n"
| "actor (ClaimBegin n) = n"
| "actor (ClaimNext n ok) = n"
| "actor (ClaimDone n) = n"
| "actor (Release n oc) = n"
| "actor (Restart n) = n"

lemma do_steal_moves:
  assumes "ids_ok c"
  shows "moves n c (do_steal n oc c)"
proof (cases "pr_stale (cl_proc c n)")
  case Nil
  then show ?thesis using assms by (auto simp: do_steal_def ids_ok_def intro: moves_local)
next
  case (Cons m ms)
  let ?pr = "cl_proc c n"
  have id: "ps_nodeID (pm_store (pr_pm ?pr)) = n" and wf: "gm_wf (cl_parts c)" using assms by (simp_all add: ids_ok_def)
  show ?thesis
  proof (cases "m = n")
    case True
    then show ?thesis using assms Cons id
      by (auto simp: do_steal_def held_def ids_ok_def intro!: moves_local)
  next
    case False
    obtain pm t where S: "stealPartitions oc m (pr_pm ?pr) (cl_parts c) = (pm, t)" by fastforce
    note step = stealPartitions_step(1-3) [OF wf S id] stealPartitions_step(4) [OF wf S id, of ?pr ms]
    have "do_steal n oc c = set_proc n (?pr\<lparr>pr_pm := pm, pr_stale := ms\<rparr>) (c\<lparr>cl_parts := t\<rparr>)"
      using Cons False S by (simp add: do_steal_def)
    with step show ?thesis by (simp add: moves_table [OF assms])
  qed
qed

lemma do_claim_next_moves:
  assumes "ids_ok c"
  shows "moves n c (do_claim_next n ok c)"
proof (cases "\<exists>pid pids claimed. pr_claim (cl_proc c n) = Some (pid # pids, claimed)")
  case False
  then have "do_claim_next n ok c = c" by (auto simp: do_claim_next_def Let_def split: option.splits prod.splits list.splits)
  then show ?thesis using assms by (auto simp: ids_ok_def intro: moves_local)
next
  case True
  then obtain pid pids claimed where cl: "pr_claim (cl_proc c n) = Some (pid # pids, claimed)" by blast
  let ?pr = "cl_proc c n"
  have id: "ps_nodeID (pm_store (pr_pm ?pr)) = n" and wf: "gm_wf (cl_parts c)" using assms by (simp_all add: ids_ok_def)
  obtain r ps t where S: "claim_one ok pid claimed (pm_store (pr_pm ?pr)) (cl_parts c) = (r, ps, t)" by (metis prod_cases3)
  note step = claim_one_step [OF wf S id refl cl]
  show ?thesis using cl S step by (simp add: do_claim_next_def Let_def moves_table [OF assms])
qed

lemma release_moves:
  assumes "ids_ok c"
  shows "moves n c (act (Release n oc) c)"
proof (cases "pr_claim (cl_proc c n) = None")
  case False
  then show ?thesis using assms by (auto simp: ids_ok_def intro: moves_local)
next
  case True
  let ?pr = "cl_proc c n"
  have id: "ps_nodeID (pm_store (pr_pm ?pr)) = n" and wf: "gm_wf (cl_parts c)" using assms by (simp_all add: ids_ok_def)
  obtain ok pm t where S: "pm_ReleaseAll oc (pr_pm ?pr) (cl_parts c) = (ok, pm, t)" by (metis prod_cases3)
  have "t = cl_parts c \<or> t = releaseRows n (cl_parts c)"
    using S id by (auto simp: pm_ReleaseAll_def ps_ReleaseAll_def split: exec_outcome.splits if_splits)
  then have t: "forward (cl_parts c) t" "gm_wf t"
    using wf by (auto simp: forward_def owner_release split: if_splits)
  have pm: "ps_nodeID (pm_store pm) = n" "held (?pr\<lparr>pr_pm := pm\<rparr>) p \<subseteq> held ?pr p" for p
    using S id by (auto simp: pm_ReleaseAll_def ps_ReleaseAll_def held_def split: exec_outcome.splits)
  have "gains n (cl_parts c) t ?pr (?pr\<lparr>pr_pm := pm\<rparr>)" by (rule gains_refl) (rule pm(2))
  with True S t pm(1) show ?thesis by (simp add: moves_table [OF assms])
qed

lemma act_moves: "ids_ok c \<Longrightarrow> moves (actor a) c (act a c)"
proof (cases a)
  case (StealNext n oc)
  assume "ids_ok c" then show ?thesis using StealNext by (simp add: do_steal_moves)
next
  case (ClaimNext n ok)
  assume "ids_ok c" then show ?thesis using ClaimNext by (simp add: do_claim_next_moves)
next
  case (Release n oc)
  assume "ids_ok c" then show ?thesis using Release release_moves [of c n oc] by simp
next
  case (ClaimDone n)
  assume ids: "ids_ok c"
  show ?thesis
  proof (cases "\<exists>cs. pr_claim (cl_proc c n) = Some ([], cs)")
    case True
    then obtain cs where cs: "pr_claim (cl_proc c n) = Some ([], cs)" by blast
    show ?thesis
      by (rule moves_local [OF ids]) (use ids ClaimDone cs in \<open>auto simp: ids_ok_def held_def Let_def dest!: add_epochs_get\<close>)
  next
    case False
    then have "act a c = c" using ClaimDone by (auto simp: Let_def split: option.splits prod.splits list.splits)
    then show ?thesis using ids ClaimDone by (auto simp: ids_ok_def intro: moves_local)
  qed
next
  case (QueryStale n thr)
  assume ids: "ids_ok c"
  show ?thesis by (rule moves_local [OF ids]) (use ids QueryStale in \<open>auto simp: ids_ok_def held_def Let_def\<close>)
next
  case (ClaimBegin n)
  assume ids: "ids_ok c"
  show ?thesis by (rule moves_local [OF ids]) (use ids ClaimBegin in \<open>auto simp: ids_ok_def held_def Let_def\<close>)
next
  case (Restart n)
  assume ids: "ids_ok c"
  show ?thesis
    by (rule moves_local [OF ids])
      (use ids Restart in \<open>auto simp: held_def boot_proc_def SetRouter_def NewPartitionManager_def OpenPartitionStore_def\<close>)
qed (auto simp: ids_ok_def intro!: moves_local)

lemma moves_fence:
  assumes "fence_ok c" "moves n c c'"
  shows "fence_ok c'"
proof -
  let ?t = "cl_parts c" and ?t' = "cl_parts c'"
  have up: "epoch_of ?t p \<le> epoch_of ?t' p"
    and keep: "epoch_of ?t' p = epoch_of ?t p \<Longrightarrow> owner_of ?t' p = owner_of ?t p \<or> owner_of ?t' p = None" for p
    using assms(2) by (auto simp: moves_def forward_def)
  have old: "e \<le> epoch_of ?t p \<and> (e = epoch_of ?t p \<longrightarrow> owner_of ?t p \<in> {None, Some m})" if "e \<in> held (cl_proc c m) p" for e m p
    using assms(1) that by (auto simp: fence_ok_def)
  have new: "e \<in> held (cl_proc c m) p \<or> (m = n \<and> e = epoch_of ?t p + 1 \<and> e = epoch_of ?t' p \<and> owner_of ?t' p = Some m)"
    if "e \<in> held (cl_proc c' m) p" for e m p
    using assms(2) that by (cases "m = n") (auto simp: moves_def gains_def)
  have "e \<le> epoch_of ?t' p \<and> (e = epoch_of ?t' p \<longrightarrow> owner_of ?t' p \<in> {None, Some m})" if e: "e \<in> held (cl_proc c' m) p" for e m p
  proof (cases "e \<in> held (cl_proc c m) p")
    case True
    from old [OF this] up [of p] keep [of p] show ?thesis by auto
  next
    case False
    with new [OF e] show ?thesis by auto
  qed
  moreover have "held (cl_proc c' m) p \<inter> held (cl_proc c' k) p = {}" if "m \<noteq> k" for m k p
  proof (rule ccontr)
    assume "held (cl_proc c' m) p \<inter> held (cl_proc c' k) p \<noteq> {}"
    then obtain e where e: "e \<in> held (cl_proc c' m) p" "e \<in> held (cl_proc c' k) p" by blast
    have "held (cl_proc c m) p \<inter> held (cl_proc c k) p = {}" using assms(1) that by (simp add: fence_ok_def)
    then have "\<not> (e \<in> held (cl_proc c m) p \<and> e \<in> held (cl_proc c k) p)" by blast
    with new [OF e(1)] new [OF e(2)] old [of e m p] old [of e k p] that show False by auto
  qed
  ultimately show ?thesis unfolding fence_ok_def by blast
qed

section \<open>Runs\<close>

definition run_acts :: "action list \<Rightarrow> cluster \<Rightarrow> cluster" where
  "run_acts as c = fold act as c"

lemma boot_ok: "ids_ok boot_cluster" "fence_ok boot_cluster"
proof -
  have "gm_wf createPartitionsTable"
    by (simp add: createPartitionsTable_def upt_rec)
  then show "ids_ok boot_cluster"
    by (simp add: ids_ok_def boot_cluster_def boot_proc_def SetRouter_def NewPartitionManager_def OpenPartitionStore_def)
  show "fence_ok boot_cluster"
    by (simp add: fence_ok_def held_def boot_cluster_def boot_proc_def SetRouter_def NewPartitionManager_def OpenPartitionStore_def)
qed

lemma run_ok: "ids_ok c \<Longrightarrow> fence_ok c \<Longrightarrow> ids_ok (run_acts as c) \<and> fence_ok (run_acts as c) \<and> forward (cl_parts c) (cl_parts (run_acts as c))"
proof (induction as arbitrary: c)
  case (Cons a as)
  have m: "moves (actor a) c (act a c)" by (rule act_moves [OF Cons.prems(1)])
  then have "ids_ok (act a c)" "forward (cl_parts c) (cl_parts (act a c))" by (simp_all add: moves_def)
  with Cons.IH [OF this(1) moves_fence [OF Cons.prems(2) m]] show ?case
    by (auto simp: run_acts_def intro: forward_trans)
qed (simp add: run_acts_def)


text \<open>
  Whenever a partition passes from one node to another, at once or through a release and
  whatever happens between, its epoch is strictly greater than before.
\<close>

theorem ownership_change_raises_epoch:
  assumes "c = run_acts as boot_cluster" "c' = run_acts as' c"
    and "owner_of (cl_parts c) p = Some n" "owner_of (cl_parts c') p = Some m" "n \<noteq> m"
  shows "epoch_of (cl_parts c) p < epoch_of (cl_parts c') p"
proof -
  have "ids_ok c" "fence_ok c" using run_ok [OF boot_ok, of as] assms(1) by simp_all
  from run_ok [OF this, of as'] have "forward (cl_parts c) (cl_parts c')" by (simp add: assms(2))
  with assms(3-5) show ?thesis unfolding forward_def by (metis option.distinct(1) option.inject order_le_imp_less_or_eq)
qed

section \<open>Claims and ticks without failures\<close>

text \<open>No epoch of a row the statement may touch is at the top of \<open>BIGINT\<close>.\<close>

definition room :: "partition_table \<Rightarrow> bool" where
  "room t \<longleftrightarrow> list_all (\<lambda>(p, w, e). e + 1 < 2 ^ 63) t"

lemma roomD: "room t \<Longrightarrow> epoch_of t p + 1 < 2 ^ 63"
  by (auto simp: room_def list_all_iff epoch_of_def split: option.splits dest: map_of_SomeD)

lemma owner_dom: "gm_get t p = Some (w, e) \<Longrightarrow> owner_of t p = w \<and> epoch_of t p = e"
  by (simp add: owner_of_def epoch_of_def)

lemma claimPartition_free:
  assumes "p \<in> fst ` set t" "owner_of t p = None" "epoch_of t p + 1 < 2 ^ 63"
  shows "claimPartition n p t = Inr (Some (epoch_of t p + 1), gm_set p (Some n, epoch_of t p + 1) t)"
proof -
  obtain w e where "gm_get t p = Some (w, e)" using assms(1) by (metis map_of_eq_None_iff not_Some_eq surj_pair)
  with assms owner_dom [OF this] show ?thesis by (simp add: claimPartition_def)
qed

lemma claim_loop_all:
  assumes "distinct pids" "\<And>p. p \<in> set pids \<Longrightarrow> p \<in> fst ` set t \<and> owner_of t p = None \<and> epoch_of t p + 1 < 2 ^ 63"
  shows "\<exists>ps' t'. claim_loop (\<lambda>_. True) pids claimed ps t = (Inr (claimed @ map (\<lambda>p. (p, epoch_of t p + 1)) pids), ps', t') \<and>
     ps_nodeID ps' = ps_nodeID ps \<and> fst ` set t' = fst ` set t \<and> (gm_wf t \<longrightarrow> gm_wf t') \<and>
     (\<forall>p. owner_of t' p = (if p \<in> set pids then Some (ps_nodeID ps) else owner_of t p)) \<and>
     (\<forall>p. epoch_of t' p = (if p \<in> set pids then epoch_of t p + 1 else epoch_of t p))"
  using assms
proof (induction pids arbitrary: claimed ps t)
  case (Cons p pids)
  let ?t = "gm_set p (Some (ps_nodeID ps), epoch_of t p + 1) t"
  let ?ps = "ps\<lparr>ps_epochs := gm_set p (epoch_of t p + 1) (ps_epochs ps)\<rparr>"
  let ?cl = "claimed @ [(p, epoch_of t p + 1)]"
  have P: "p \<in> fst ` set t" "owner_of t p = None" "epoch_of t p + 1 < 2 ^ 63" using Cons.prems(2) [of p] by auto
  have keys: "fst ` set ?t = fst ` set t" using P(1) dom_update [of p _ t] by (auto simp: dom_map_of_conv_image_fst [symmetric])
  have "\<And>q. q \<in> set pids \<Longrightarrow> q \<in> fst ` set ?t \<and> owner_of ?t q = None \<and> epoch_of ?t q + 1 < 2 ^ 63"
    using Cons.prems unfolding keys by auto
  from Cons.IH [OF _ this, of ?cl ?ps] Cons.prems(1) obtain ps' t' where
    IH: "claim_loop (\<lambda>_. True) pids ?cl ?ps ?t = (Inr (?cl @ map (\<lambda>q. (q, epoch_of ?t q + 1)) pids), ps', t')"
    "ps_nodeID ps' = ps_nodeID ps" "fst ` set t' = fst ` set t" "gm_wf ?t \<longrightarrow> gm_wf t'"
    "\<And>q. owner_of t' q = (if q \<in> set pids then Some (ps_nodeID ps) else owner_of ?t q)"
    "\<And>q. epoch_of t' q = (if q \<in> set pids then epoch_of ?t q + 1 else epoch_of ?t q)"
    unfolding keys by auto
  have eq: "map (\<lambda>q. (q, epoch_of ?t q + 1)) pids = map (\<lambda>q. (q, epoch_of t q + 1)) pids" using Cons.prems(1) by auto
  have "claim_loop (\<lambda>_. True) (p # pids) claimed ps t = (Inr (claimed @ map (\<lambda>p. (p, epoch_of t p + 1)) (p # pids)), ps', t')"
    using claimPartition_free [OF P, of "ps_nodeID ps"] IH(1) eq by (simp add: claim_one_def)
  moreover have "p \<notin> set pids" using Cons.prems(1) by simp
  ultimately show ?case using IH(2-6) by auto
qed simp

lemma listUnclaimed_set: "gm_wf t \<Longrightarrow> set (listUnclaimed t) = {p \<in> fst ` set t. owner_of t p = None}"
proof -
  assume wf: "gm_wf t"
  show ?thesis
  proof (intro equalityI subsetI)
    fix p assume "p \<in> set (listUnclaimed t)"
    then obtain e where "(p, None, e) \<in> set t" by (auto simp: listUnclaimed_def)
    with row_of [OF wf this] show "p \<in> {p \<in> fst ` set t. owner_of t p = None}" by force
  next
    fix p assume "p \<in> {p \<in> fst ` set t. owner_of t p = None}"
    then obtain w e where we: "(p, w, e) \<in> set t" and own: "owner_of t p = None" by auto
    with row_of [OF wf we] have "(p, None, e) \<in> set t" by simp
    then show "p \<in> set (listUnclaimed t)" by (force simp: listUnclaimed_def)
  qed
qed

lemma listUnclaimed_distinct: "gm_wf t \<Longrightarrow> distinct (listUnclaimed t)"
  by (simp add: listUnclaimed_def distinct_map_filter)

lemma ClaimUnclaimed_all:
  assumes "gm_wf t" "room t"
  shows "\<exists>ps' t'. ClaimUnclaimed True (\<lambda>_. True) ps t = (Inr (map (\<lambda>p. (p, epoch_of t p + 1)) (listUnclaimed t)), ps', t') \<and>
     ps_nodeID ps' = ps_nodeID ps \<and> fst ` set t' = fst ` set t \<and>
     (\<forall>p. owner_of t' p = (if p \<in> set (listUnclaimed t) then Some (ps_nodeID ps) else owner_of t p)) \<and>
     (\<forall>p. epoch_of t' p = (if p \<in> set (listUnclaimed t) then epoch_of t p + 1 else epoch_of t p))"
proof -
  have "\<And>p. p \<in> set (listUnclaimed t) \<Longrightarrow> p \<in> fst ` set t \<and> owner_of t p = None \<and> epoch_of t p + 1 < 2 ^ 63"
    using roomD [OF assms(2)] by (auto simp: listUnclaimed_set [OF assms(1)])
  from claim_loop_all [OF listUnclaimed_distinct [OF assms(1)] this, of "[]" ps] show ?thesis
    by (auto simp: ClaimUnclaimed_def)
qed

text \<open>
  \<open>ClaimUnclaimed\<close> that meets no failure and no rival claims every unclaimed partition, in
  increasing order, each with its epoch raised by one, and leaves every other row alone.
\<close>

theorem ClaimUnclaimed_claims_all:
  assumes "gm_wf t" "room t" "ClaimUnclaimed True (\<lambda>_. True) ps t = (r, ps', t')" "p \<in> fst ` set t"
  shows "r = Inr (map (\<lambda>p. (p, epoch_of t p + 1)) (listUnclaimed t)) \<and>
    owner_of t' p = Some (case owner_of t p of None \<Rightarrow> ps_nodeID ps | Some m \<Rightarrow> m) \<and>
    epoch_of t' p = (case owner_of t p of None \<Rightarrow> epoch_of t p + 1 | Some m \<Rightarrow> epoch_of t p)"
  using ClaimUnclaimed_all [OF assms(1,2), of ps] assms(3,4) listUnclaimed_set [OF assms(1)]
  by (auto split: option.splits)

text \<open>One theft that meets no failure.\<close>

lemma stealPartitions_ok:
  assumes "gm_wf t" "\<And>p. owner_of t p = Some m \<Longrightarrow> epoch_of t p + 1 < 2 ^ 63"
  shows "\<exists>pm' t'. stealPartitions RowsRead m pm t = (pm', t') \<and> t' = steal_map (ps_nodeID (pm_store pm)) m t \<and>
     ps_nodeID (pm_store pm') = ps_nodeID (pm_store pm) \<and>
     (\<forall>p. OwnsPartition pm' p \<longleftrightarrow> OwnsPartition pm p \<or> owner_of t p = Some m)"
proof -
  have "list_all (\<lambda>(p, w, e). w = Some m \<longrightarrow> e + 1 < 2 ^ 63) t"
    using assms(2) row_of [OF assms(1)] by (auto simp: list_all_iff)
  then obtain stolen t' where S: "stealRows (ps_nodeID (pm_store pm)) m t = Inr (stolen, t')"
    by (simp add: stealRows_def)
  note R = stealRows_Inr [OF assms(1) S]
  have "p \<in> fst ` set stolen \<longleftrightarrow> owner_of t p = Some m" for p by (force simp: R(2))
  then show ?thesis using S R(1)
    by (auto simp: stealPartitions_def StealStalePartitions_def OwnsPartition_def add_epochs_dom simp del: not_None_eq)
qed

lemma steal_all:
  assumes "gm_wf t" "\<And>p. owner_of t p \<noteq> Some self \<Longrightarrow> epoch_of t p + 1 < 2 ^ 63" "ps_nodeID (pm_store pm) = self"
  shows "\<exists>pm' t'. fold (\<lambda>n (pm, t). if n = ps_nodeID (pm_store pm) then (pm, t) else stealPartitions RowsRead n pm t) ns (pm, t) = (pm', t') \<and>
     ps_nodeID (pm_store pm') = self \<and> map fst t' = map fst t \<and>
     (\<forall>p. owner_of t' p = (if owner_of t p \<in> Some ` set ns then Some self else owner_of t p)) \<and>
     (\<forall>p. owner_of t' p \<noteq> Some self \<longrightarrow> epoch_of t' p = epoch_of t p) \<and>
     (\<forall>p. OwnsPartition pm' p \<longleftrightarrow> OwnsPartition pm p \<or> owner_of t p \<in> Some ` (set ns - {self}))"
  using assms
proof (induction ns arbitrary: pm t)
  case (Cons n ns)
  show ?case
  proof (cases "n = self")
    case True
    from Cons.IH [OF Cons.prems] show ?thesis using True Cons.prems(3) by fastforce
  next
    case False
    have "\<And>p. owner_of t p = Some n \<Longrightarrow> epoch_of t p + 1 < 2 ^ 63" using Cons.prems(2) False by simp
    from stealPartitions_ok [OF Cons.prems(1), of n pm, OF this] obtain pm1 where
      S: "stealPartitions RowsRead n pm t = (pm1, steal_map self n t)" "ps_nodeID (pm_store pm1) = self"
      "\<And>p. OwnsPartition pm1 p \<longleftrightarrow> OwnsPartition pm p \<or> owner_of t p = Some n" using Cons.prems(3) by auto
    let ?t = "steal_map self n t"
    have "gm_wf ?t" using Cons.prems(1) by simp
    moreover have "owner_of ?t p \<noteq> Some self \<Longrightarrow> epoch_of ?t p + 1 < 2 ^ 63" for p
      using Cons.prems(2) [of p] by (simp add: owner_steal epoch_steal split: if_splits)
    ultimately obtain pm' t' where IH:
      "fold (\<lambda>n (pm, t). if n = ps_nodeID (pm_store pm) then (pm, t) else stealPartitions RowsRead n pm t) ns (pm1, ?t) = (pm', t')"
      "ps_nodeID (pm_store pm') = self" "map fst t' = map fst t"
      "\<And>p. owner_of t' p = (if owner_of ?t p \<in> Some ` set ns then Some self else owner_of ?t p)"
      "\<And>p. owner_of t' p \<noteq> Some self \<longrightarrow> epoch_of t' p = epoch_of ?t p"
      "\<And>p. OwnsPartition pm' p \<longleftrightarrow> OwnsPartition pm1 p \<or> owner_of ?t p \<in> Some ` (set ns - {self})"
      using Cons.IH [of ?t pm1] S(2) by auto
    have "owner_of t' p = (if owner_of t p \<in> Some ` set (n # ns) then Some self else owner_of t p)" for p
      using IH(4) [of p] by (auto simp: owner_steal split: if_splits)
    moreover have "owner_of t' p \<noteq> Some self \<longrightarrow> epoch_of t' p = epoch_of t p" for p
      using IH(4,5) [of p] by (auto simp: owner_steal epoch_steal split: if_splits)
    moreover have "OwnsPartition pm' p \<longleftrightarrow> OwnsPartition pm p \<or> owner_of t p \<in> Some ` (set (n # ns) - {self})" for p
      using IH(6) [of p] S(3) [of p] False by (auto simp: owner_steal split: if_splits)
    ultimately show ?thesis using IH(1-3) S(1) False Cons.prems(3) by auto
  qed
qed auto

text \<open>
  C22. A \<open>tick\<close> that meets no failure and no rival takes over: afterwards every partition has an
  owner, this node for those that were unclaimed or belonged to a stale node; and the manager
  serves exactly what it served before and what the tick brought.
\<close>

theorem tick_takes_over:
  assumes "gm_wf t" "room t" "ps_nodeID (pm_store pm) = self" "p \<in> fst ` set t"
    and "tick (Some stale) (\<lambda>_. RowsRead) True (\<lambda>_. True) pm t = (pm', t')"
  shows "owner_of t' p = Some (case owner_of t p of None \<Rightarrow> self | Some m \<Rightarrow> if m \<in> set stale then self else m) \<and>
    (OwnsPartition pm' p \<longleftrightarrow> OwnsPartition pm p \<or> owner_of t p = None \<or> owner_of t p \<in> Some ` (set stale - {self}))"
proof -
  have "\<And>p. epoch_of t p + 1 < 2 ^ 63" by (rule roomD [OF assms(2)])
  from steal_all [OF assms(1) _ assms(3), of stale, OF this] obtain pm1 t1 where
    F: "fold (\<lambda>n (pm, t). if n = ps_nodeID (pm_store pm) then (pm, t) else stealPartitions RowsRead n pm t) stale (pm, t) = (pm1, t1)"
    "ps_nodeID (pm_store pm1) = self" "map fst t1 = map fst t"
    "\<And>p. owner_of t1 p = (if owner_of t p \<in> Some ` set stale then Some self else owner_of t p)"
    "\<And>p. owner_of t1 p \<noteq> Some self \<longrightarrow> epoch_of t1 p = epoch_of t p"
    "\<And>p. OwnsPartition pm1 p \<longleftrightarrow> OwnsPartition pm p \<or> owner_of t p \<in> Some ` (set stale - {self})" by blast
  have keys: "fst ` set t1 = fst ` set t" using F(3) by (metis set_map)
  have wf: "gm_wf t1" using assms(1) F(3) by simp
  let ?L = "listUnclaimed t1"
  have L: "q \<in> set ?L \<longleftrightarrow> q \<in> fst ` set t \<and> owner_of t q = None" for q
    using F(4) [of q] by (auto simp: listUnclaimed_set [OF wf] keys)
  have "\<And>q. q \<in> set ?L \<Longrightarrow> q \<in> fst ` set t1 \<and> owner_of t1 q = None \<and> epoch_of t1 q + 1 < 2 ^ 63"
    using F(5) roomD [OF assms(2)] by (auto simp: listUnclaimed_set [OF wf])
  from claim_loop_all [OF listUnclaimed_distinct [OF wf] this, of "[]" "pm_store pm1"] obtain ps' where
    C: "claim_loop (\<lambda>_. True) ?L [] (pm_store pm1) t1 = (Inr (map (\<lambda>q. (q, epoch_of t1 q + 1)) ?L), ps', t')"
      "pm' = apply_claims (Inr (map (\<lambda>q. (q, epoch_of t1 q + 1)) ?L)) (pm1\<lparr>pm_store := ps'\<rparr>)"
      "owner_of t' p = (if p \<in> set ?L then Some self else owner_of t1 p)"
    using assms(5) F(1,2) by (auto simp: tick_def claimAndApply_def ClaimUnclaimed_def)
  have "OwnsPartition pm' p \<longleftrightarrow> OwnsPartition pm1 p \<or> p \<in> set ?L"
    using C(2) by (auto simp: OwnsPartition_def add_epochs_dom image_image simp del: not_None_eq)
  with C(3) F(4,6) L assms(4) show ?thesis by (auto split: option.splits)
qed

end
