(* ===== verification/Cluster_Fencing.thy ===== *)
theory Cluster_Fencing
  imports Cluster_Safety
begin

text \<open>
  The manager's own map of owned partitions against the table. The map only grows until the node
  releases or restarts, so the epoch cursor store goes on accepting saves for partitions that
  another node took; and a partition the table assigns to a node that does not have it in its map
  stays unserved. Also the concrete runs that exercise the theorems of the cluster.
\<close>

section \<open>The map only grows\<close>

lemma add_epochs_None: "gm_get (add_epochs cs m) p = None \<longleftrightarrow> p \<notin> fst ` set cs \<and> gm_get m p = None"
  using add_epochs_dom [of cs m p] by blast

lemma owns_simps [simp]:
  "OwnsPartition (pm\<lparr>pm_store := x\<rparr>) p = OwnsPartition pm p"
  "OwnsPartition (apply_claims (Inl e) pm) p = OwnsPartition pm p"
  "OwnsPartition (apply_claims (Inr cs) pm) p \<longleftrightarrow> p \<in> fst ` set cs \<or> OwnsPartition pm p"
  by (simp_all add: OwnsPartition_def add_epochs_None del: not_None_eq)

fun leaves :: "string \<Rightarrow> action \<Rightarrow> bool" where
  "leaves n (Release m oc) \<longleftrightarrow> m = n"
| "leaves n (Restart m) \<longleftrightarrow> m = n"
| "leaves n _ \<longleftrightarrow> False"

lemma stealPartitions_owned:
  "stealPartitions oc m pm t = (pm', t') \<Longrightarrow> OwnsPartition pm p \<Longrightarrow> OwnsPartition pm' p"
  by (auto simp: stealPartitions_def StealStalePartitions_def 
      split: sum.splits prod.splits rows_outcome.splits if_splits)

lemma owns_act:
  assumes "OwnsPartition (pr_pm (cl_proc c n)) p" "\<not> leaves n a"
  shows "OwnsPartition (pr_pm (cl_proc (act a c) n)) p"
proof (cases a)
  case (StealNext m oc)
  show ?thesis
  proof (cases "pr_stale (cl_proc c m)")
    case (Cons k ms)
    obtain pm t where S: "stealPartitions oc k (pr_pm (cl_proc c m)) (cl_parts c) = (pm, t)" by fastforce
    show ?thesis using assms StealNext Cons S stealPartitions_owned [OF S] by (auto simp: do_steal_def Let_def)
  qed (use assms StealNext in \<open>simp add: do_steal_def\<close>)
next
  case (ClaimNext m ok)
  then show ?thesis using assms
    by (auto simp: do_claim_next_def Let_def split: option.splits prod.splits list.splits)
next
  case (ClaimDone m)
  then show ?thesis using assms
    by (auto simp: Let_def split: option.splits prod.splits list.splits)
next
  case (Release m oc)
  then show ?thesis using assms by (auto simp: Let_def split: prod.splits)
qed (use assms in \<open>auto simp: Let_def\<close>)

lemma owns_run:
  "OwnsPartition (pr_pm (cl_proc c n)) p \<Longrightarrow> list_all (\<lambda>a. \<not> leaves n a) as \<Longrightarrow>
   OwnsPartition (pr_pm (cl_proc (run_acts as c) n)) p"
  by (induction as arbitrary: c) (simp_all add: run_acts_def owns_act)

text \<open>
  A node whose partition is stolen is not fenced: once another node's tick has taken the
  partition over in the table, the epoch cursor store of the old owner still passes every save
  for it to the wrapped store, until the old owner itself releases or restarts.
\<close>

theorem stolen_partition_not_fenced:
  assumes "c = run_acts as boot_cluster" "room (cl_parts c)"
    and "owner_of (cl_parts c) p = Some n" "OwnsPartition (pr_pm (cl_proc c n)) p"
    and "pr_stale (cl_proc c m) = n # ms" "m \<noteq> n" "list_all (\<lambda>a. \<not> leaves n a) as'"
    and "c1 = act (StealNext m RowsRead) c" "c2 = run_acts as' c1"
  shows "owner_of (cl_parts c1) p = Some m \<and>
    epoch_SaveCursor inner (pr_pm (cl_proc c2 n)) consumer p seq st = inner consumer p seq st"
proof -
  have ids: "ids_ok c" using run_ok [OF boot_ok, of as] assms(1) by simp
  then have wf: "gm_wf (cl_parts c)" and id: "ps_nodeID (pm_store (pr_pm (cl_proc c m))) = m" by (simp_all add: ids_ok_def)
  have "\<And>q. epoch_of (cl_parts c) q + 1 < 2 ^ 63" by (rule roomD [OF assms(2)])
  from stealPartitions_ok [OF wf, of n "pr_pm (cl_proc c m)", OF this] obtain pm where
    "stealPartitions RowsRead n (pr_pm (cl_proc c m)) (cl_parts c) = (pm, steal_map m n (cl_parts c))" using id by auto
  then have "cl_parts c1 = steal_map m n (cl_parts c)" using assms(5,6,8) by (simp add: do_steal_def)
  then have "owner_of (cl_parts c1) p = Some m" using assms(3) by (simp add: owner_steal)
  moreover have "OwnsPartition (pr_pm (cl_proc c1 n)) p" unfolding assms(8) by (rule owns_act [OF assms(4)]) simp
  then have "OwnsPartition (pr_pm (cl_proc c2 n)) p" unfolding assms(9) by (rule owns_run [OF _ assms(7)])
  ultimately show ?thesis by (simp add: epoch_SaveCursor_def)
qed

section \<open>Partitions without a server\<close>

text \<open>The table gives \<open>p\<close> to \<open>n\<close>, and nothing the process of \<open>n\<close> remembers will make it serve \<open>p\<close>.\<close>

definition stranded :: "string \<Rightarrow> u32 \<Rightarrow> cluster \<Rightarrow> bool" where
  "stranded n p c \<longleftrightarrow> owner_of (cl_parts c) p = Some n \<and> \<not> OwnsPartition (pr_pm (cl_proc c n)) p \<and>
     (case pr_claim (cl_proc c n) of None \<Rightarrow> True | Some (pids, cs) \<Rightarrow> p \<notin> fst ` set cs)"

text \<open>The run never releases the partitions of \<open>n\<close> nor steals from \<open>n\<close>.\<close>

fun stays :: "string \<Rightarrow> action list \<Rightarrow> cluster \<Rightarrow> bool" where
  "stays n [] c \<longleftrightarrow> True"
| "stays n (a # as) c \<longleftrightarrow>
     (case a of
        Release m oc \<Rightarrow> m \<noteq> n
      | StealNext m oc \<Rightarrow> take 1 (pr_stale (cl_proc c m)) \<noteq> [n]
      | _ \<Rightarrow> True) \<and> stays n as (act a c)"

lemma steal_stranded:
  assumes "ids_ok c" "stranded n p c" "take 1 (pr_stale (cl_proc c m)) \<noteq> [n]"
  shows "stranded n p (do_steal m oc c)"
proof (cases "pr_stale (cl_proc c m)")
  case Nil
  then show ?thesis using assms by (simp add: do_steal_def)
next
  case (Cons k ms)
  with assms(3) have kn: "k \<noteq> n" by simp
  have wf: "gm_wf (cl_parts c)" and id: "ps_nodeID (pm_store (pr_pm (cl_proc c m))) = m" using assms(1) by (simp_all add: ids_ok_def)
  have own: "owner_of (cl_parts c) p = Some n" using assms(2) by (simp add: stranded_def)
  show ?thesis
  proof (cases "k = m")
    case True
    then show ?thesis using Cons assms(2) by (auto simp: do_steal_def Let_def stranded_def split: option.splits)
  next
    case False
    obtain pm t where S: "stealPartitions oc k (pr_pm (cl_proc c m)) (cl_parts c) = (pm, t)" by fastforce
    have "owner_of t p = Some n \<and> (OwnsPartition pm p \<longrightarrow> OwnsPartition (pr_pm (cl_proc c m)) p)"
    proof (cases "stealRows m k (cl_parts c)")
      case (Inl e)
      then show ?thesis using S id own by (auto simp: stealPartitions_def StealStalePartitions_def apply_claims_def)
    next
      case (Inr r)
      obtain stolen t1 where r: "r = (stolen, t1)" by fastforce
      note R = stealRows_Inr [OF wf Inr [unfolded r]]
      have "p \<notin> fst ` set stolen" using own kn by (auto simp: R(2))
      then show ?thesis using S Inr r id own kn R(1)
        by (auto simp: stealPartitions_def StealStalePartitions_def owner_steal
            split: rows_outcome.splits if_splits)
    qed
    then show ?thesis using Cons False S assms(2)
      by (auto simp: do_steal_def Let_def stranded_def split: option.splits)
  qed
qed

lemma claim_stranded:
  assumes "ids_ok c" "stranded n p c"
  shows "stranded n p (do_claim_next m ok c)"
proof (cases "\<exists>pid pids claimed. pr_claim (cl_proc c m) = Some (pid # pids, claimed)")
  case False
  then have "do_claim_next m ok c = c" by (auto simp: do_claim_next_def Let_def split: option.splits prod.splits list.splits)
  then show ?thesis using assms by simp
next
  case True
  then obtain pid pids claimed where cl: "pr_claim (cl_proc c m) = Some (pid # pids, claimed)" by blast
  have own: "owner_of (cl_parts c) p = Some n" using assms(2) by (simp add: stranded_def)
  show ?thesis
  proof (cases rule: claimPartition_cases [of "ps_nodeID (pm_store (pr_pm (cl_proc c m)))" pid "cl_parts c"])
    case (won)
    then have "pid \<noteq> p" using own by auto
    then show ?thesis using assms(2) cl won
      by (auto simp: do_claim_next_def Let_def claim_one_def stranded_def split: option.splits)
  qed (use assms(2) cl in \<open>auto simp: do_claim_next_def Let_def claim_one_def stranded_def split: option.splits\<close>)
qed

lemma act_stranded:
  assumes "ids_ok c" "stranded n p c" "stays n [a] c"
  shows "stranded n p (act a c)"
proof (cases a)
  case (StealNext m oc)
  then show ?thesis using assms by (simp add: steal_stranded)
next
  case (ClaimNext m ok)
  then show ?thesis using assms by (simp add: claim_stranded)
next
  case (ClaimDone m)
  then show ?thesis using assms(2)
    by (auto simp: stranded_def Let_def split: option.splits prod.splits list.splits)
next
  case (Release m oc)
  then have mn: "m \<noteq> n" using assms(3) by simp
  have "ps_nodeID (pm_store (pr_pm (cl_proc c m))) = m" using assms(1) by (simp add: ids_ok_def)
  then show ?thesis using assms(2) Release mn
    by (auto simp: stranded_def pm_ReleaseAll_def ps_ReleaseAll_def owner_release Let_def split: option.splits prod.splits exec_outcome.splits)
next
  case (Restart m)
  then show ?thesis using assms(2)
    by (auto simp: stranded_def boot_proc_def SetRouter_def NewPartitionManager_def OwnsPartition_def)
qed (use assms(2) in \<open>auto simp: stranded_def Let_def split: option.splits\<close>)

lemma run_stranded:
  "ids_ok c \<Longrightarrow> stranded n p c \<Longrightarrow> stays n as c \<Longrightarrow> stranded n p (run_acts as c)"
proof (induction as arbitrary: c)
  case (Cons a as)
  have "ids_ok (act a c)" using act_moves [OF Cons.prems(1)] by (simp add: moves_def)
  moreover have "stays n [a] c" using Cons.prems(3) by simp
  note act_stranded [OF Cons.prems(1,2) this]
  ultimately show ?case using Cons by (simp add: run_acts_def)
qed (simp add: run_acts_def)

text \<open>
  A partition the table assigns to a node that does not have it in its own map, as after a
  crash and restart under the same node identifier or after a claim that failed half way, stays
  so: no tick or claim of any node serves it, for as long as the node is not found stale and
  does not release.
\<close>

theorem unserved_partition_stays_unserved:
  assumes "c = run_acts as boot_cluster" "pr_claim (cl_proc c n) = None"
    and "owner_of (cl_parts c) p = Some n" "p \<notin> set (OwnedPartitions (pr_pm (cl_proc c n)))"
    and "stays n as' c" "c' = run_acts as' c"
  shows "owner_of (cl_parts c') p = Some n \<and> p \<notin> set (OwnedPartitions (pr_pm (cl_proc c' n)))"
proof -
  have eq: "p \<in> set (OwnedPartitions pm) \<longleftrightarrow> OwnsPartition pm p" for pm
    by (simp add: OwnedPartitions_def OwnsPartition_def map_of_eq_None_iff del: not_None_eq)
  have ids: "ids_ok c" using run_ok [OF boot_ok, of as] assms(1) by simp
  have "stranded n p c" using assms(2-4) by (simp add: stranded_def eq)
  from run_stranded [OF ids this assms(5)] show ?thesis by (simp add: stranded_def eq assms(6))
qed

section \<open>Concrete runs\<close>

text \<open>
  Node \<open>A\<close> claims partition 0 and falls silent; \<open>B\<close> steals it, then falls silent in turn, and
  \<open>C\<close> is about to steal from \<open>B\<close>. In \<open>run_crash\<close>, \<open>A\<close> restarts right after its claim.
\<close>

definition run_steal :: "action list" where
  "run_steal = [ClaimBegin ''A'', ClaimNext ''A'' True, Heartbeat ''A'', Elapse 20, QueryStale ''B'' 15, StealNext ''B'' RowsRead,
     Offline ''A'', Heartbeat ''B'', Elapse 20, QueryStale ''C'' 15]"

definition run_crash :: "action list" where
  "run_crash = [ClaimBegin ''A'', ClaimNext ''A'' True, Heartbeat ''A'', Restart ''A'']"

definition run_after :: "action list" where
  "run_after = [Heartbeat ''A'', QueryStale ''B'' 15, ClaimBegin ''B'', ClaimNext ''B'' True, ClaimBegin ''A'', ClaimNext ''A'' True]"

definition rows0 :: partition_table where
  "rows0 = [(0, Some ''A'', 3), (1, None, 5), (2, Some ''B'', 1)]"


theorem ownership_change_raises_epoch_witness:
  "epoch_of (cl_parts (run_acts run_steal boot_cluster)) 0 <
   epoch_of (cl_parts (run_acts [StealNext ''C'' RowsRead] (run_acts run_steal boot_cluster))) 0"
proof -
  have "owner_of (cl_parts (run_acts run_steal boot_cluster)) 0 = Some ''B''"
    "owner_of (cl_parts (run_acts [StealNext ''C'' RowsRead] (run_acts run_steal boot_cluster))) 0 = Some ''C''"
    by code_simp+
  from ownership_change_raises_epoch [OF refl refl this] show ?thesis by simp
qed

theorem ClaimUnclaimed_claims_all_witness:
  "\<exists>ps' t'. ClaimUnclaimed True (\<lambda>_. True) (OpenPartitionStore ''C'') rows0 = (Inr [(1, 6)], ps', t') \<and>
     owner_of t' 1 = Some ''C'' \<and> epoch_of t' 1 = 6"
proof -
  obtain r ps' t' where C: "ClaimUnclaimed True (\<lambda>_. True) (OpenPartitionStore ''C'') rows0 = (r, ps', t')" by (metis prod_cases3)
  have "gm_wf rows0" "room rows0" "1 \<in> fst ` set rows0" by (simp_all add: rows0_def room_def)
  from ClaimUnclaimed_claims_all [OF this(1,2) C this(3)] C
  show ?thesis by (simp add: rows0_def listUnclaimed_def epoch_of_def owner_of_def OpenPartitionStore_def)
qed

theorem tick_takes_over_witness:
  "\<exists>pm' t'. tick (Some [''A'']) (\<lambda>_. RowsRead) True (\<lambda>_. True) (NewPartitionManager (OpenPartitionStore ''C'')) rows0 = (pm', t') \<and>
     owner_of t' 0 = Some ''C'' \<and> OwnsPartition pm' 0"
proof -
  let ?pm = "NewPartitionManager (OpenPartitionStore ''C'')"
  obtain pm' t' where T: "tick (Some [''A'']) (\<lambda>_. RowsRead) True (\<lambda>_. True) ?pm rows0 = (pm', t')" by fastforce
  have "gm_wf rows0" "room rows0" "ps_nodeID (pm_store ?pm) = ''C''" "0 \<in> fst ` set rows0"
    by (simp_all add: rows0_def room_def NewPartitionManager_def OpenPartitionStore_def)
  from tick_takes_over [OF this T] T show ?thesis by (simp add: rows0_def owner_of_def)
qed

theorem stolen_partition_not_fenced_witness:
  "let c = act (StealNext ''C'' RowsRead) (run_acts run_steal boot_cluster) in
   owner_of (cl_parts c) 0 = Some ''C'' \<and>
   epoch_SaveCursor SaveCursor (pr_pm (cl_proc (run_acts [Heartbeat ''B''] c) ''B'')) ''consumer'' 0 9 (NewBatchedStore []) =
     \<lparr>bs_dirty = [((''consumer'', 0), 9)], bs_rows = [], bs_flight = None\<rparr>"
proof -
  have "room (cl_parts (run_acts run_steal boot_cluster))"
    "owner_of (cl_parts (run_acts run_steal boot_cluster)) 0 = Some ''B''"
    "OwnsPartition (pr_pm (cl_proc (run_acts run_steal boot_cluster) ''B'')) 0"
    "pr_stale (cl_proc (run_acts run_steal boot_cluster) ''C'') = [''B'']" by code_simp+
  from stolen_partition_not_fenced [OF refl this _ _ refl refl, of "[Heartbeat ''B'']" SaveCursor "''consumer''" 9 "NewBatchedStore []"]
  show ?thesis by (simp add: SaveCursor_def NewBatchedStore_def)
qed

theorem unserved_partition_stays_unserved_witness:
  "owner_of (cl_parts (run_acts run_after (run_acts run_crash boot_cluster))) 0 = Some ''A'' \<and>
   0 \<notin> set (OwnedPartitions (pr_pm (cl_proc (run_acts run_after (run_acts run_crash boot_cluster)) ''A'')))"
proof -
  have "pr_claim (cl_proc (run_acts run_crash boot_cluster) ''A'') = None"
    "owner_of (cl_parts (run_acts run_crash boot_cluster)) 0 = Some ''A''"
    "0 \<notin> set (OwnedPartitions (pr_pm (cl_proc (run_acts run_crash boot_cluster) ''A'')))"
    "stays ''A'' run_after (run_acts run_crash boot_cluster)" by code_simp+
  from unserved_partition_stays_unserved [OF refl this refl] show ?thesis .
qed

end
