(* ===== verification/Pg_Parser.thy ===== *)
theory Pg_Parser
  imports Change_Event
begin

text \<open>
  The pgoutput parser (\<open>internal/parser/pgoutput\<close>): relation cache, LRU TOAST cache, decoding
  of row messages into change events and the idempotency keys that make redelivery harmless.
  \<open>pglogrepl\<close> turns bytes into messages; a message is a value of \<open>wal_msg\<close> here. Parameters:
  \<open>marshal\<close> is \<open>json.Marshal\<close> on a row, \<open>lsn_str\<close> is \<open>pglogrepl.LSN.String\<close>.
\<close>

section \<open>Messages\<close>

text \<open>A column of a tuple; \<open>ColOther\<close> is a type byte the decoder does not know.\<close>

datatype col_data = ColNull | ColToast | ColText string | ColBinary string | ColOther

record rel_column =
  rc_name :: string
  rc_flags :: "8 word"

record relation_msg =
  rm_id :: u32
  rm_namespace :: string
  rm_name :: string
  rm_columns :: "rel_column list"

datatype wal_msg =
    BeginMsg u64
  | CommitMsg
  | RelationMsg relation_msg
  | InsertMsg u32 "col_data list option"
  | UpdateMsg u32 "col_data list option" "col_data list option"
  | DeleteMsg u32 "col_data list option"
  | StreamStartMsg bool
  | StreamStopMsg
  | StreamCommitMsg u64
  | StreamAbortMsg
  | OtherMsg

section \<open>Rows\<close>

datatype row_val = VNull | VStr string | VBytes string

type_synonym row = "(string, row_val) gomap"

text \<open>One column, and the loop over the columns that stops at the end of either list.\<close>

definition decode_col :: "row option \<Rightarrow> string \<Rightarrow> col_data \<Rightarrow> row \<Rightarrow> row" where
  "decode_col prevRow name col row =
     (case col of
        ColNull \<Rightarrow> gm_set name VNull row
      | ColToast \<Rightarrow>
          (case prevRow of
             None \<Rightarrow> row
           | Some pr \<Rightarrow> (case gm_get pr name of None \<Rightarrow> row | Some v \<Rightarrow> gm_set name v row))
      | ColText s \<Rightarrow> gm_set name (VStr s) row
      | ColBinary s \<Rightarrow> gm_set name (VBytes s) row
      | ColOther \<Rightarrow> row)"

definition decodeColumns :: "relation_msg \<Rightarrow> col_data list \<Rightarrow> row option \<Rightarrow> row" where
  "decodeColumns rel cols prevRow =
     fold (\<lambda>(rc, col) row. decode_col prevRow (rc_name rc) col row) (zip (rm_columns rel) cols) []"

definition pk_col :: "rel_column \<Rightarrow> col_data \<Rightarrow> row \<Rightarrow> row" where
  "pk_col rc col pk =
     (if bit (rc_flags rc) 0
      then (case col of
              ColText s \<Rightarrow> gm_set (rc_name rc) (VStr s) pk
            | ColNull \<Rightarrow> gm_set (rc_name rc) VNull pk
            | _ \<Rightarrow> pk)
      else pk)"

definition extractPK :: "relation_msg \<Rightarrow> col_data list \<Rightarrow> row" where
  "extractPK rel cols = fold (\<lambda>(rc, col) pk. pk_col rc col pk) (zip (rm_columns rel) cols) []"

definition marshalPK :: "(row \<Rightarrow> string option) \<Rightarrow> row \<Rightarrow> string" where
  "marshalPK marshal pkMap = (case marshal pkMap of None \<Rightarrow> ''{}'' | Some b \<Rightarrow> b)"

definition decodeSerializeAndRow ::
  "(row \<Rightarrow> string option) \<Rightarrow> relation_msg \<Rightarrow> col_data list \<Rightarrow> row option \<Rightarrow> (row \<times> string) option" where
  "decodeSerializeAndRow marshal rel cols prevRow =
     (let row = decodeColumns rel cols prevRow in
      case marshal row of None \<Rightarrow> None | Some afterJSON \<Rightarrow> Some (row, afterJSON))"

section \<open>Relation cache\<close>

type_synonym relation_cache = "(u32, relation_msg) gomap"

definition NewRelationCache :: relation_cache where
  "NewRelationCache = []"

definition rel_Set :: "relation_msg \<Rightarrow> relation_cache \<Rightarrow> relation_cache" where
  "rel_Set msg c = gm_set (rm_id msg) msg c"

definition rel_Get :: "relation_cache \<Rightarrow> u32 \<Rightarrow> relation_msg option" where
  "rel_Get c i = gm_get c i"

definition rel_All :: "relation_cache \<Rightarrow> relation_msg list" where
  "rel_All c = map snd c"

definition LookupByName :: "relation_cache \<Rightarrow> string \<Rightarrow> string \<Rightarrow> relation_msg option" where
  "LookupByName c namespace relation =
     List.find (\<lambda>msg. rm_namespace msg = namespace \<and> rm_name msg = relation) (map snd c)"

section \<open>TOAST cache\<close>

type_synonym toast_key = "u32 \<times> string"

text \<open>
  \<open>store\<close> maps keys to rows, \<open>order\<close> is the linked list front first, and \<open>items\<close> are the keys with
  a list element: the element of a key is the one that carries it.
\<close>

record toast_cache =
  tc_store :: "(toast_key, row) gomap"
  tc_order :: "(toast_key \<times> row) list"
  tc_items :: "toast_key list"
  tc_cap :: nat

definition defaultToastCacheCap :: nat where
  "defaultToastCacheCap = 4096"

definition NewTOASTCache :: toast_cache where
  "NewTOASTCache = \<lparr>tc_store = [], tc_order = [], tc_items = [], tc_cap = defaultToastCacheCap\<rparr>"

function evict :: "toast_cache \<Rightarrow> toast_cache" where
  "evict c =
     (if tc_cap c < length (tc_order c)
      then (let k = fst (last (tc_order c)) in
            evict (c\<lparr>tc_order := butlast (tc_order c), tc_items := removeAll k (tc_items c),
                      tc_store := gm_del k (tc_store c)\<rparr>))
      else c)"
  by pat_completeness auto

termination evict
  by (relation "measure (\<lambda>c. length (tc_order c))") (auto simp: Let_def)

declare evict.simps [simp del]

definition toast_Set :: "toast_key \<Rightarrow> row \<Rightarrow> toast_cache \<Rightarrow> toast_cache" where
  "toast_Set key row c =
     (if key \<in> set (tc_items c)
      then c\<lparr>tc_store := gm_set key row (tc_store c),
             tc_order := (key, row) # filter (\<lambda>(k, r). k \<noteq> key) (tc_order c)\<rparr>
      else evict (c\<lparr>tc_order := (key, row) # tc_order c, tc_items := key # tc_items c,
                     tc_store := gm_set key row (tc_store c)\<rparr>))"

definition toast_Get :: "toast_key \<Rightarrow> toast_cache \<Rightarrow> row option \<times> toast_cache" where
  "toast_Get key c =
     (case gm_get (tc_store c) key of
        None \<Rightarrow> (None, c)
      | Some row \<Rightarrow>
          (Some row,
           if key \<in> set (tc_items c)
           then c\<lparr>tc_order := filter (\<lambda>(k, r). k = key) (tc_order c) @ filter (\<lambda>(k, r). k \<noteq> key) (tc_order c)\<rparr>
           else c))"

definition toast_Delete :: "toast_key \<Rightarrow> toast_cache \<Rightarrow> toast_cache" where
  "toast_Delete key c =
     (if key \<in> set (tc_items c)
      then c\<lparr>tc_order := filter (\<lambda>(k, r). k \<noteq> key) (tc_order c), tc_items := removeAll key (tc_items c),
             tc_store := gm_del key (tc_store c)\<rparr>
      else c\<lparr>tc_store := gm_del key (tc_store c)\<rparr>)"

section \<open>Parser\<close>

record parser =
  pa_sourceID :: string
  pa_relations :: relation_cache
  pa_toast :: toast_cache
  pa_lsn :: u64
  pa_changeSeq :: u64
  pa_inStream :: bool

definition New :: "string \<Rightarrow> parser" where
  "New sourceID = \<lparr>pa_sourceID = sourceID, pa_relations = NewRelationCache, pa_toast = NewTOASTCache,
     pa_lsn = 0, pa_changeSeq = 0, pa_inStream = False\<rparr>"

datatype parse_error = UnknownRelation u32 | NoTuple u32 | MarshalRow | MarshalKey

definition ClearRelationCache :: "parser \<Rightarrow> parser" where
  "ClearRelationCache p = p\<lparr>pa_relations := NewRelationCache, pa_inStream := False, pa_changeSeq := 0, pa_lsn := 0\<rparr>"

text \<open>The idempotency key \<open>sourceID:namespace.relationName:pk:op:lsn:changeSeq\<close>.\<close>

definition idempotency_key :: "string \<Rightarrow> relation_msg \<Rightarrow> string \<Rightarrow> operation \<Rightarrow> string \<Rightarrow> u64 \<Rightarrow> string" where
  "idempotency_key sourceID rel pkStr op lsnStr changeSeq =
     sourceID @ '':'' @ rm_namespace rel @ ''.'' @ rm_name rel @ '':'' @ pkStr @ '':'' @ op @ '':'' @ lsnStr @ '':'' @
     dec_str (unat changeSeq)"

text \<open>\<open>env\<close>: the identifier \<open>idGen.New\<close> mints and the clock.\<close>

definition newEvent ::
  "(u64 \<Rightarrow> string) \<Rightarrow> string \<times> int \<Rightarrow> relation_msg \<Rightarrow> operation \<Rightarrow> string \<Rightarrow> string \<Rightarrow> raw_message \<Rightarrow> raw_message \<Rightarrow> parser
     \<Rightarrow> change_event \<times> parser" where
  "newEvent lsn_str env rel op pkStr keyJSON beforeJSON afterJSON p =
     (\<lparr>ev_id = fst env,
       ev_idempotency_key = idempotency_key (pa_sourceID p) rel pkStr op (lsn_str (pa_lsn p)) (pa_changeSeq p),
       ev_timestamp = snd env, ev_source = pa_sourceID p, ev_operation = op, ev_database = [],
       ev_schema = rm_namespace rel, ev_table = rm_name rel, ev_key = Some keyJSON, ev_before = beforeJSON,
       ev_after = afterJSON, ev_metadata = [(''lsn'', JStr (lsn_str (pa_lsn p))), (''snapshot'', JBool False)],
       ev_ai_context = None\<rparr>,
      p\<lparr>pa_changeSeq := pa_changeSeq p + 1\<rparr>)"

definition handleInsert ::
  "(row \<Rightarrow> string option) \<Rightarrow> (u64 \<Rightarrow> string) \<Rightarrow> string \<times> int \<Rightarrow> u32 \<Rightarrow> col_data list option \<Rightarrow> parser
     \<Rightarrow> (parse_error + change_event) \<times> parser" where
  "handleInsert marshal lsn_str env rid tuple p =
     (case rel_Get (pa_relations p) rid of
        None \<Rightarrow> (Inl (UnknownRelation rid), p)
      | Some rel \<Rightarrow>
         (case tuple of
            None \<Rightarrow> (Inl (NoTuple rid), p)
          | Some cols \<Rightarrow>
              let pkMap = extractPK rel cols; pkStr = marshalPK marshal pkMap; tk = (rid, pkStr) in
              (case decodeSerializeAndRow marshal rel cols None of
                 None \<Rightarrow> (Inl MarshalRow, p)
               | Some (row, afterJSON) \<Rightarrow>
                   let p = p\<lparr>pa_toast := toast_Set tk row (pa_toast p)\<rparr> in
                   (case marshal pkMap of
                      None \<Rightarrow> (Inl MarshalKey, p)
                    | Some keyJSON \<Rightarrow>
                        (case newEvent lsn_str env rel OpInsert pkStr keyJSON None (Some afterJSON) p of
                           (ev, p) \<Rightarrow> (Inr ev, p))))))"

definition handleUpdate ::
  "(row \<Rightarrow> string option) \<Rightarrow> (u64 \<Rightarrow> string) \<Rightarrow> string \<times> int \<Rightarrow> u32 \<Rightarrow> col_data list option \<Rightarrow> col_data list option \<Rightarrow> parser
     \<Rightarrow> (parse_error + change_event) \<times> parser" where
  "handleUpdate marshal lsn_str env rid oldTuple newTuple p =
     (case rel_Get (pa_relations p) rid of
        None \<Rightarrow> (Inl (UnknownRelation rid), p)
      | Some rel \<Rightarrow>
         (case newTuple of
            None \<Rightarrow> (Inl (NoTuple rid), p)
          | Some cols \<Rightarrow>
              let pkMap = extractPK rel cols; pkStr = marshalPK marshal pkMap; tk = (rid, pkStr) in
              (case toast_Get tk (pa_toast p) of
                 (prevRow, tc) \<Rightarrow>
                   let p = p\<lparr>pa_toast := tc\<rparr> in
                   (case decodeSerializeAndRow marshal rel cols prevRow of
                      None \<Rightarrow> (Inl MarshalRow, p)
                    | Some (row, afterJSON) \<Rightarrow>
                        let p = p\<lparr>pa_toast := toast_Set tk row (pa_toast p)\<rparr> in
                        (case marshal pkMap of
                           None \<Rightarrow> (Inl MarshalKey, p)
                         | Some keyJSON \<Rightarrow>
                             (case oldTuple of
                                None \<Rightarrow>
                                  (case newEvent lsn_str env rel OpUpdate pkStr keyJSON None (Some afterJSON) p of
                                     (ev, p) \<Rightarrow> (Inr ev, p))
                              | Some old \<Rightarrow>
                                  (case marshal (decodeColumns rel old None) of
                                     None \<Rightarrow> (Inl MarshalRow, p)
                                   | Some beforeJSON \<Rightarrow>
                                       (case newEvent lsn_str env rel OpUpdate pkStr keyJSON (Some beforeJSON) (Some afterJSON) p of
                                          (ev, p) \<Rightarrow> (Inr ev, p)))))))))"

definition handleDelete ::
  "(row \<Rightarrow> string option) \<Rightarrow> (u64 \<Rightarrow> string) \<Rightarrow> string \<times> int \<Rightarrow> u32 \<Rightarrow> col_data list option \<Rightarrow> parser
     \<Rightarrow> (parse_error + change_event) \<times> parser" where
  "handleDelete marshal lsn_str env rid oldTuple p =
     (case rel_Get (pa_relations p) rid of
        None \<Rightarrow> (Inl (UnknownRelation rid), p)
      | Some rel \<Rightarrow>
         (case oldTuple of
            None \<Rightarrow> (Inl (NoTuple rid), p)
          | Some cols \<Rightarrow>
              let pkMap = extractPK rel cols; pkStr = marshalPK marshal pkMap;
                  p = p\<lparr>pa_toast := toast_Delete (rid, pkStr) (pa_toast p)\<rparr> in
              (case marshal pkMap of
                 None \<Rightarrow> (Inl MarshalKey, p)
               | Some keyJSON \<Rightarrow>
                   (case marshal (decodeColumns rel cols None) of
                      None \<Rightarrow> (Inl MarshalRow, p)
                    | Some beforeJSON \<Rightarrow>
                        (case newEvent lsn_str env rel OpDelete pkStr keyJSON (Some beforeJSON) None p of
                           (ev, p) \<Rightarrow> (Inr ev, p))))))"

text \<open>\<open>Parse\<close> on a decoded message; a result \<^term>\<open>Inr None\<close> is \<open>(nil, nil)\<close>.\<close>

definition wrap :: "(parse_error + change_event) \<times> parser \<Rightarrow> (parse_error + change_event option) \<times> parser" where
  "wrap r = (case r of (Inl e, p) \<Rightarrow> (Inl e, p) | (Inr ev, p) \<Rightarrow> (Inr (Some ev), p))"

fun Parse ::
  "(row \<Rightarrow> string option) \<Rightarrow> (u64 \<Rightarrow> string) \<Rightarrow> string \<times> int \<Rightarrow> wal_msg \<Rightarrow> parser
     \<Rightarrow> (parse_error + change_event option) \<times> parser" where
  "Parse marshal lsn_str env (BeginMsg finalLSN) p = (Inr None, p\<lparr>pa_lsn := finalLSN, pa_changeSeq := 0\<rparr>)"
| "Parse marshal lsn_str env CommitMsg p = (Inr None, p)"
| "Parse marshal lsn_str env (RelationMsg m) p = (Inr None, p\<lparr>pa_relations := rel_Set m (pa_relations p)\<rparr>)"
| "Parse marshal lsn_str env (InsertMsg rid t) p = wrap (handleInsert marshal lsn_str env rid t p)"
| "Parse marshal lsn_str env (UpdateMsg rid t u) p = wrap (handleUpdate marshal lsn_str env rid t u p)"
| "Parse marshal lsn_str env (DeleteMsg rid t) p = wrap (handleDelete marshal lsn_str env rid t p)"
| "Parse marshal lsn_str env (StreamStartMsg first) p =
     (Inr None, if first then p\<lparr>pa_inStream := True, pa_changeSeq := 0\<rparr> else p\<lparr>pa_inStream := True\<rparr>)"
| "Parse marshal lsn_str env StreamStopMsg p = (Inr None, p\<lparr>pa_inStream := False\<rparr>)"
| "Parse marshal lsn_str env (StreamCommitMsg commitLSN) p = (Inr None, p\<lparr>pa_lsn := commitLSN, pa_inStream := False\<rparr>)"
| "Parse marshal lsn_str env StreamAbortMsg p = (Inr None, p\<lparr>pa_inStream := False\<rparr>)"
| "Parse marshal lsn_str env OtherMsg p = (Inr None, p)"

end
