(* ===== verification/Pg_Toast.thy ===== *)
theory Pg_Toast
  imports Pg_Parser
begin

text \<open>
  The TOAST cache refines a least-recently-used list, and what that gives the parser: a row set
  in the cache is found again as long as fewer other rows than the capacity came between, and an
  unchanged large column is then filled in from it.
\<close>

section \<open>Abstract specification: a bounded list, most recent first\<close>

definition lru_set :: "nat \<Rightarrow> 'k \<Rightarrow> 'v \<Rightarrow> ('k \<times> 'v) list \<Rightarrow> ('k \<times> 'v) list" where
  "lru_set cap k v xs = take cap ((k, v) # filter (\<lambda>(k', v'). k' \<noteq> k) xs)"

definition lru_get :: "'k \<Rightarrow> ('k \<times> 'v) list \<Rightarrow> ('k \<times> 'v) list" where
  "lru_get k xs = (case map_of xs k of None \<Rightarrow> xs | Some v \<Rightarrow> (k, v) # filter (\<lambda>(k', v'). k' \<noteq> k) xs)"

definition lru_del :: "'k \<Rightarrow> ('k \<times> 'v) list \<Rightarrow> ('k \<times> 'v) list" where
  "lru_del k xs = filter (\<lambda>(k', v'). k' \<noteq> k) xs"

definition toast_inv :: "toast_cache \<Rightarrow> bool" where
  "toast_inv c \<longleftrightarrow> gm_wf (tc_order c) \<and> set (tc_items c) = fst ` set (tc_order c) \<and>
     (\<forall>k. gm_get (tc_store c) k = gm_get (tc_order c) k) \<and> length (tc_order c) \<le> tc_cap c \<and> 0 < tc_cap c"

lemma New_inv: "toast_inv NewTOASTCache"
  by (simp add: toast_inv_def NewTOASTCache_def defaultToastCacheCap_def)

lemma get_others: "gm_get (filter (\<lambda>(k', v'). k' \<noteq> k) xs) j = (if j = k then None else gm_get xs j)"
  by (induction xs) auto

lemma wf_others: "gm_wf xs \<Longrightarrow> gm_wf (filter (\<lambda>(k', v'). k' \<noteq> k) xs)"
  by (simp add: distinct_map_filter)

lemma keys_others: "fst ` set (filter (\<lambda>(k', v'). k' \<noteq> k) xs) = fst ` set xs - {k}"
  by force

lemma others_absent: "k \<notin> fst ` set xs \<Longrightarrow> filter (\<lambda>(k', v'). k' \<noteq> k) xs = xs"
  by (induction xs) auto

lemma only_key: "gm_wf xs \<Longrightarrow> gm_get xs k = Some v \<Longrightarrow> filter (\<lambda>(k', v'). k' = k) xs = [(k, v)]"
proof (induction xs)
  case (Cons x xs)
  obtain a b where x: "x = (a, b)" by fastforce
  show ?case
  proof (cases "a = k")
    case True
    then have "k \<notin> fst ` set xs" using Cons.prems(1) by (simp add: x)
    then have "filter (\<lambda>(k', v'). k' = k) xs = []" by (force simp: filter_empty_conv)
    then show ?thesis using True Cons.prems by (simp add: x)
  next
    case False
    then show ?thesis using Cons by (simp add: x)
  qed
qed simp

lemma in_keys: "k \<in> fst ` set xs \<longleftrightarrow> gm_get xs k \<noteq> None"
  by (simp add: map_of_eq_None_iff del: not_None_eq)

lemma length_others: "gm_wf xs \<Longrightarrow> k \<in> fst ` set xs \<Longrightarrow> length (filter (\<lambda>(k', v'). k' \<noteq> k) xs) < length xs"
  using length_filter_less [of _ xs "\<lambda>(k', v'). k' \<noteq> k"] by force

lemma evict_idle: "length (tc_order c) \<le> tc_cap c \<Longrightarrow> evict c = c"
  by (subst evict.simps) simp

lemma evict_one:
  assumes "length (tc_order c) = Suc (tc_cap c)"
  shows "evict c = c\<lparr>tc_order := butlast (tc_order c), tc_items := removeAll (fst (last (tc_order c))) (tc_items c),
    tc_store := gm_del (fst (last (tc_order c))) (tc_store c)\<rparr>"
  using assms by (subst evict.simps) (simp add: Let_def evict_idle)

section \<open>Refinement\<close>

text \<open>A full list that loses its last element keeps the correspondence with the store.\<close>

lemma drop_last_inv:
  assumes "gm_wf ys" "set items = fst ` set ys" "\<And>k. gm_get st k = gm_get ys k" "length ys = Suc cap" "0 < cap"
  shows "toast_inv \<lparr>tc_store = gm_del (fst (last ys)) st, tc_order = butlast ys,
    tc_items = removeAll (fst (last ys)) items, tc_cap = cap\<rparr>"
proof -
  have ne: "ys \<noteq> []" using assms(4) by auto
  obtain zs z where ys: "ys = zs @ [z]" using ne by (metis rev_exhaust)
  have z: "fst z \<notin> fst ` set zs" and wf: "gm_wf zs" using assms(1) by (auto simp: ys)
  have "gm_get (gm_del (fst z) st) k = gm_get zs k" for k
  proof -
    have n: "gm_get zs (fst z) = None" using z by (simp add: map_of_eq_None_iff)
    show ?thesis using assms(3) [of k] n by (auto simp: gomap_simps ys map_add_def split: option.splits)
  qed
  moreover have "set (removeAll (fst z) items) = fst ` set zs" using assms(2) z by (auto simp: ys)
  ultimately show ?thesis using wf assms(4,5) by (auto simp: toast_inv_def ys)
qed

lemma toast_Set_refines:
  assumes "toast_inv c"
  shows "toast_inv (toast_Set k r c)" "tc_order (toast_Set k r c) = lru_set (tc_cap c) k r (tc_order c)"
    "tc_cap (toast_Set k r c) = tc_cap c"
proof -
  have wf: "gm_wf (tc_order c)" and items: "set (tc_items c) = fst ` set (tc_order c)"
    and st: "\<And>j. gm_get (tc_store c) j = gm_get (tc_order c) j" and len: "length (tc_order c) \<le> tc_cap c" and cap: "0 < tc_cap c"
    using assms by (auto simp: toast_inv_def)
  have "toast_inv (toast_Set k r c) \<and> tc_order (toast_Set k r c) = lru_set (tc_cap c) k r (tc_order c) \<and> tc_cap (toast_Set k r c) = tc_cap c"
  proof (cases "k \<in> fst ` set (tc_order c)")
    case True
    have "length ((k, r) # filter (\<lambda>(k', v'). k' \<noteq> k) (tc_order c)) \<le> tc_cap c" using length_others [OF wf True] len by simp
    moreover have "set (tc_items c) = insert k (fst ` set (filter (\<lambda>(k', v'). k' \<noteq> k) (tc_order c)))"
      using True items unfolding keys_others by auto
    ultimately show ?thesis using True cap st
      by (auto simp: toast_Set_def items lru_set_def toast_inv_def get_others gomap_simps wf_others [OF wf] keys_others)
  next
    case False
    let ?ys = "(k, r) # tc_order c"
    let ?c = "c\<lparr>tc_order := ?ys, tc_items := k # tc_items c, tc_store := gm_set k r (tc_store c)\<rparr>"
    have eq: "toast_Set k r c = evict ?c" using False by (simp add: toast_Set_def items)
    have ls: "lru_set (tc_cap c) k r (tc_order c) = take (tc_cap c) ?ys" by (simp add: lru_set_def others_absent [OF False])
    have wf': "gm_wf ?ys" using wf False by simp
    have st': "\<And>j. gm_get (gm_set k r (tc_store c)) j = gm_get ?ys j" by (simp add: gomap_simps st)
    show ?thesis
    proof (cases "length (tc_order c) < tc_cap c")
      case True
      then show ?thesis using wf' st' cap items unfolding eq ls by (auto simp: evict_idle toast_inv_def)
    next
      case full: False
      then have l: "length ?ys = Suc (tc_cap c)" using len by simp
      have "set (k # tc_items c) = fst ` set ?ys" by (simp add: items)
      from drop_last_inv [OF wf' this st' l cap] l show ?thesis
        unfolding eq ls by (simp add: evict_one toast_inv_def butlast_conv_take del: butlast.simps last.simps)
    qed
  qed
  then show "toast_inv (toast_Set k r c)" "tc_order (toast_Set k r c) = lru_set (tc_cap c) k r (tc_order c)"
    "tc_cap (toast_Set k r c) = tc_cap c" by auto
qed

lemma toast_Get_refines:
  assumes "toast_inv c" "toast_Get k c = (row, c')"
  shows "row = gm_get (tc_order c) k" "toast_inv c'" "tc_order c' = lru_get k (tc_order c)" "tc_cap c' = tc_cap c"
proof -
  have wf: "gm_wf (tc_order c)" and items: "set (tc_items c) = fst ` set (tc_order c)"
    and st: "\<And>j. gm_get (tc_store c) j = gm_get (tc_order c) j" and len: "length (tc_order c) \<le> tc_cap c" and cap: "0 < tc_cap c"
    using assms(1) by (auto simp: toast_inv_def)
  have "row = gm_get (tc_order c) k \<and> toast_inv c' \<and> tc_order c' = lru_get k (tc_order c) \<and> tc_cap c' = tc_cap c"
  proof (cases "gm_get (tc_order c) k")
    case None
    then show ?thesis using assms by (auto simp: toast_Get_def st lru_get_def)
  next
    case (Some v)
    have mem: "k \<in> fst ` set (tc_order c)" using Some in_keys [of k "tc_order c"] by simp
    have c': "c' = c\<lparr>tc_order := (k, v) # filter (\<lambda>(k', v'). k' \<noteq> k) (tc_order c)\<rparr>" and row: "row = Some v"
      using assms(2) Some mem by (auto simp: toast_Get_def st items only_key [OF wf Some])
    have "set (tc_items c) = insert k (fst ` set (filter (\<lambda>(k', v'). k' \<noteq> k) (tc_order c)))"
      using mem items unfolding keys_others by auto
    then show ?thesis using Some row cap length_others [OF wf mem] len st
      by (auto simp: c' lru_get_def toast_inv_def get_others wf_others [OF wf] keys_others)
  qed
  then show "row = gm_get (tc_order c) k" "toast_inv c'" "tc_order c' = lru_get k (tc_order c)" "tc_cap c' = tc_cap c" by auto
qed

lemma toast_Delete_refines:
  assumes "toast_inv c"
  shows "toast_inv (toast_Delete k c)" "tc_order (toast_Delete k c) = lru_del k (tc_order c)" "tc_cap (toast_Delete k c) = tc_cap c"
proof -
  have wf: "gm_wf (tc_order c)" and items: "set (tc_items c) = fst ` set (tc_order c)"
    and st: "\<And>j. gm_get (tc_store c) j = gm_get (tc_order c) j" and len: "length (tc_order c) \<le> tc_cap c" and cap: "0 < tc_cap c"
    using assms by (auto simp: toast_inv_def)
  have "length (filter (\<lambda>(k', v'). k' \<noteq> k) (tc_order c)) \<le> tc_cap c" by (rule order_trans [OF length_filter_le len])
  moreover have "k \<notin> fst ` set (tc_order c) \<Longrightarrow> gm_get (tc_order c) k = None" by (simp add: map_of_eq_None_iff)
  ultimately have "toast_inv (toast_Delete k c) \<and> tc_order (toast_Delete k c) = lru_del k (tc_order c) \<and> tc_cap (toast_Delete k c) = tc_cap c"
    using cap st items wf len
    by (cases "k \<in> fst ` set (tc_order c)")
      (auto simp: toast_Delete_def lru_del_def toast_inv_def get_others gomap_simps wf_others [OF wf] keys_others others_absent)
  then show "toast_inv (toast_Delete k c)" "tc_order (toast_Delete k c) = lru_del k (tc_order c)" "tc_cap (toast_Delete k c) = tc_cap c"
    by auto
qed

section \<open>How long a row is remembered\<close>

datatype toast_op = TSet toast_key row | TGet toast_key | TDel toast_key

fun toast_do :: "toast_op \<Rightarrow> toast_cache \<Rightarrow> toast_cache" where
  "toast_do (TSet k r) c = toast_Set k r c"
| "toast_do (TGet k) c = snd (toast_Get k c)"
| "toast_do (TDel k) c = toast_Delete k c"

fun op_key :: "toast_op \<Rightarrow> toast_key" where
  "op_key (TSet k r) = k"
| "op_key (TGet k) = k"
| "op_key (TDel k) = k"

fun overwrites :: "toast_key \<Rightarrow> toast_op \<Rightarrow> bool" where
  "overwrites k (TSet j r) \<longleftrightarrow> j = k"
| "overwrites k (TGet j) \<longleftrightarrow> False"
| "overwrites k (TDel j) \<longleftrightarrow> j = k"

text \<open>\<open>(k, r)\<close> is in the list, and only keys of \<open>K\<close> are in front of it.\<close>

definition recent :: "toast_key \<Rightarrow> row \<Rightarrow> toast_key set \<Rightarrow> (toast_key \<times> row) list \<Rightarrow> bool" where
  "recent k r K xs \<longleftrightarrow> gm_wf xs \<and> (\<exists>pre post. xs = pre @ (k, r) # post \<and> fst ` set pre \<subseteq> K)"

lemma recent_get: "recent k r K xs \<Longrightarrow> gm_get xs k = Some r"
  unfolding recent_def by (metis in_set_conv_decomp map_of_is_SomeI)

lemma pre_short:
  assumes "gm_wf pre" "fst ` set pre \<subseteq> K" "finite K"
  shows "length pre \<le> card K"
proof -
  have "length pre = card (fst ` set pre)" using assms(1) by (metis distinct_card length_map set_map)
  also have "\<dots> \<le> card K" using assms by (simp add: card_mono)
  finally show ?thesis .
qed

lemma recent_front:
  assumes "recent k r K xs" "j \<noteq> k"
  shows "recent k r (insert j K) ((j, v) # filter (\<lambda>(k', v'). k' \<noteq> j) xs)"
proof -
  obtain pre post where xs: "xs = pre @ (k, r) # post" "fst ` set pre \<subseteq> K" and wf: "gm_wf xs" using assms(1) by (auto simp: recent_def)
  let ?f = "filter (\<lambda>(k', v'). k' \<noteq> j)"
  have "(j, v) # ?f xs = ((j, v) # ?f pre) @ (k, r) # ?f post" using assms(2) by (simp add: xs)
  moreover have "fst ` set ((j, v) # ?f pre) \<subseteq> insert j K" using xs(2) by auto
  moreover have "gm_wf ((j, v) # ?f xs)" using wf_others [OF wf, of j] keys_others [of j xs] by simp
  ultimately show ?thesis unfolding recent_def by blast
qed

lemma recent_take:
  assumes "recent k r K xs" "finite K" "card K < cap"
  shows "recent k r K (take cap xs)"
proof -
  obtain pre post where xs: "xs = pre @ (k, r) # post" "fst ` set pre \<subseteq> K" and wf: "gm_wf xs" using assms(1) by (auto simp: recent_def)
  have "gm_wf pre" using wf by (simp add: xs)
  from pre_short [OF this xs(2) assms(2)] have "length pre < cap" using assms(3) by simp
  then obtain n where "cap = length pre + Suc n" using less_iff_Suc_add by auto
  then have "take cap xs = pre @ (k, r) # take n post" by (simp add: xs(1))
  moreover have "gm_wf (take cap xs)" using wf by (simp add: take_map [symmetric])
  ultimately show ?thesis using xs(2) unfolding recent_def by blast
qed

lemma recent_step:
  assumes "toast_inv c" "recent k r K (tc_order c)" "\<not> overwrites k b" "finite K" "card (insert (op_key b) K - {k}) < tc_cap c"
  shows "toast_inv (toast_do b c) \<and> tc_cap (toast_do b c) = tc_cap c \<and> recent k r (insert (op_key b) K - {k}) (tc_order (toast_do b c))"
proof -
  let ?K = "insert (op_key b) K - {k}"
  have wf: "gm_wf (tc_order c)" using assms(1) by (simp add: toast_inv_def)
  have KK: "recent k r K' xs \<Longrightarrow> recent k r (K' - {k}) xs" for K' xs
    unfolding recent_def by (fastforce simp: image_iff)
  have fin: "finite ?K" using assms(4) by simp
  show ?thesis
  proof (cases b)
    case (TSet j v)
    then have j: "j \<noteq> k" using assms(3) by simp
    from recent_take [OF KK [OF recent_front [OF assms(2) j, of v]] _ , of "tc_cap c"] fin assms(5)
    show ?thesis using TSet toast_Set_refines [OF assms(1), of j v] by (simp add: lru_set_def)
  next
    case (TGet j)
    obtain row c' where G: "toast_Get j c = (row, c')" by fastforce
    note R = toast_Get_refines [OF assms(1) G]
    have "recent k r ?K (lru_get j (tc_order c))"
    proof (cases "gm_get (tc_order c) j")
      case None
      have "recent k r (insert j K) (tc_order c)" using assms(2) unfolding recent_def by blast
      from KK [OF this] show ?thesis using None TGet by (simp add: lru_get_def)
    next
      case (Some v)
      show ?thesis
      proof (cases "j = k")
        case True
        have "gm_get (tc_order c) k = Some r" by (rule recent_get [OF assms(2)])
        then have "v = r" using Some True by simp
        have "gm_wf ((k, r) # filter (\<lambda>(k', v'). k' \<noteq> k) (tc_order c))"
          using wf_others [OF wf, of k] keys_others [of k "tc_order c"] by simp
        then have "recent k r {} (lru_get j (tc_order c))"
          using Some True \<open>v = r\<close> unfolding recent_def lru_get_def by (auto intro!: exI [of _ "[]"])
        then show ?thesis unfolding recent_def by blast
      next
        case False
        from KK [OF recent_front [OF assms(2) False, of v]] show ?thesis using Some TGet by (simp add: lru_get_def)
      qed
    qed
    then show ?thesis using TGet G R by simp
  next
    case (TDel j)
    then have j: "j \<noteq> k" using assms(3) by simp
    from assms(2) obtain pre post where xs: "tc_order c = pre @ (k, r) # post" "fst ` set pre \<subseteq> K" by (auto simp: recent_def)
    have "lru_del j (tc_order c) = lru_del j pre @ (k, r) # lru_del j post" using j by (simp add: lru_del_def xs(1))
    moreover have "fst ` set (lru_del j pre) \<subseteq> insert j K" using xs(2) by (auto simp: lru_del_def)
    moreover have "gm_wf (lru_del j (tc_order c))" using wf_others [OF wf, of j] by (simp add: lru_del_def)
    ultimately have "recent k r (insert j K) (lru_del j (tc_order c))" unfolding recent_def by blast
    from KK [OF this] show ?thesis using TDel toast_Delete_refines [OF assms(1), of j] by simp
  qed
qed

lemma recent_run:
  assumes "toast_inv c" "recent k r K (tc_order c)" "k \<notin> K" "finite K" "list_all (\<lambda>b. \<not> overwrites k b) ops"
    "card ((op_key ` set ops \<union> K) - {k}) < tc_cap c"
  shows "\<exists>K'. toast_inv (fold toast_do ops c) \<and> recent k r K' (tc_order (fold toast_do ops c))"
  using assms
proof (induction ops arbitrary: c K)
  case (Cons b ops)
  let ?K = "insert (op_key b) K - {k}"
  have sub: "?K \<subseteq> (op_key ` set (b # ops) \<union> K) - {k}" by auto
  have "card ?K < tc_cap c" using card_mono [OF _ sub] Cons.prems(4,6) by simp
  with recent_step [OF Cons.prems(1,2) _ Cons.prems(4), of b] Cons.prems(5)
  have s: "toast_inv (toast_do b c)" "tc_cap (toast_do b c) = tc_cap c" "recent k r ?K (tc_order (toast_do b c))" by auto
  have eq: "(op_key ` set ops \<union> ?K) - {k} = (op_key ` set (b # ops) \<union> K) - {k}" by auto
  have "\<exists>K'. toast_inv (fold toast_do ops (toast_do b c)) \<and> recent k r K' (tc_order (fold toast_do ops (toast_do b c)))"
    by (rule Cons.IH [OF s(1,3)]) (use Cons.prems(4,5,6) eq s(2) in auto)
  then show ?case by simp
qed auto



end
