(* ===== verification/Pg_Keys.thy ===== *)
theory Pg_Keys
  imports Pg_Toast
begin

text \<open>
  What the parser promises the event log: within a transaction every change has its own
  idempotency key, and a transaction that is sent again gets the same keys, whatever state the
  caches are in. And how the TOAST cache enters the emitted rows.
\<close>

section \<open>Decoded rows\<close>

definition col_val :: "row option \<Rightarrow> string \<Rightarrow> col_data \<Rightarrow> row_val option" where
  "col_val prev name col =
     (case col of
        ColNull \<Rightarrow> Some VNull
      | ColToast \<Rightarrow> (case prev of None \<Rightarrow> None | Some pr \<Rightarrow> gm_get pr name)
      | ColText s \<Rightarrow> Some (VStr s)
      | ColBinary s \<Rightarrow> Some (VBytes s)
      | ColOther \<Rightarrow> None)"

lemma decode_col_get:
  "gm_get (decode_col prev name col row) n =
     (if n = name then (case col_val prev name col of None \<Rightarrow> gm_get row n | Some v \<Rightarrow> Some v) else gm_get row n)"
  by (auto simp: decode_col_def col_val_def gomap_simps split: col_data.splits option.splits)

lemma decode_fold_other:
  "n \<notin> set (map (rc_name \<circ> fst) zs) \<Longrightarrow>
   gm_get (fold (\<lambda>(rc, col) row. decode_col prev (rc_name rc) col row) zs row) n = gm_get row n"
  by (induction zs arbitrary: row) (auto simp: decode_col_get)

lemma decode_fold_at:
  assumes "distinct (map (rc_name \<circ> fst) zs)" "(rc, col) \<in> set zs" "gm_get row (rc_name rc) = None"
  shows "gm_get (fold (\<lambda>(rc, col) row. decode_col prev (rc_name rc) col row) zs row) (rc_name rc) = col_val prev (rc_name rc) col"
  using assms
proof (induction zs arbitrary: row)
  case (Cons z zs)
  obtain rc' col' where z: "z = (rc', col')" by fastforce
  show ?case
  proof (cases "(rc, col) \<in> set zs")
    case True
    then have "rc_name rc \<in> set (map (rc_name \<circ> fst) zs)" by force
    moreover have "rc_name rc' \<notin> set (map (rc_name \<circ> fst) zs)" using Cons.prems(1) by (simp add: z)
    ultimately have "rc_name rc \<noteq> rc_name rc'" by metis
    then have "gm_get (decode_col prev (rc_name rc') col' row) (rc_name rc) = None" using Cons.prems(3) by (simp add: decode_col_get)
    from Cons.IH [OF _ True this] Cons.prems(1) show ?thesis by (simp add: z)
  next
    case False
    then have "rc' = rc" "col' = col" using Cons.prems(2) by (auto simp: z)
    then show ?thesis using Cons.prems(1,3) by (simp add: z decode_fold_other decode_col_get split: option.splits)
  qed
qed simp

text \<open>
  The value of every column of a decoded row: sent values as sent, unchanged large values
  from the previous row of the key, and absent when there is none.
\<close>

theorem decodeColumns_column:
  assumes "distinct (map rc_name (rm_columns rel))" "i < length (rm_columns rel)" "i < length cols"
  shows "gm_get (decodeColumns rel cols prev) (rc_name (rm_columns rel ! i)) =
    (case cols ! i of
       ColNull \<Rightarrow> Some VNull
     | ColToast \<Rightarrow> (case prev of None \<Rightarrow> None | Some pr \<Rightarrow> gm_get pr (rc_name (rm_columns rel ! i)))
     | ColText s \<Rightarrow> Some (VStr s)
     | ColBinary s \<Rightarrow> Some (VBytes s)
     | ColOther \<Rightarrow> None)"
proof -
  let ?zs = "zip (rm_columns rel) cols"
  have "map (rc_name \<circ> fst) ?zs = take (length cols) (map rc_name (rm_columns rel))"
    by (metis map_fst_zip_take map_map min.commute take_all_iff take_map min_def linorder_le_cases)
  then have d: "distinct (map (rc_name \<circ> fst) ?zs)" using assms(1) by (metis distinct_take)
  have "(rm_columns rel ! i, cols ! i) \<in> set ?zs" using assms(2,3) by (auto simp: in_set_zip)
  from decode_fold_at [OF d this, of "[]" prev] show ?thesis unfolding decodeColumns_def col_val_def by simp
qed

section \<open>Keys\<close>

text \<open>The messages of a run; a message that does not parse is logged and dropped by the caller.\<close>

fun parse_run ::
  "(row \<Rightarrow> string option) \<Rightarrow> (u64 \<Rightarrow> string) \<Rightarrow> ((string \<times> int) \<times> wal_msg) list \<Rightarrow> parser \<Rightarrow> change_event list \<times> parser" where
  "parse_run marshal lsn_str [] p = ([], p)"
| "parse_run marshal lsn_str ((env, m) # ms) p =
     (case Parse marshal lsn_str env m p of
        (r, p') \<Rightarrow>
          (case parse_run marshal lsn_str ms p' of
             (evs, p'') \<Rightarrow> ((case r of Inr (Some ev) \<Rightarrow> ev # evs | _ \<Rightarrow> evs), p'')))"

text \<open>The messages that do not start a transaction: they leave the commit position and the counter's base alone.\<close>

fun inside :: "wal_msg \<Rightarrow> bool" where
  "inside (BeginMsg l) \<longleftrightarrow> False"
| "inside (StreamStartMsg first) \<longleftrightarrow> False"
| "inside (StreamCommitMsg l) \<longleftrightarrow> False"
| "inside _ \<longleftrightarrow> True"

text \<open>What handling one row message does to the parser, and the key of the event it makes.\<close>

definition handled :: "parser \<Rightarrow> (parse_error + change_event) \<times> parser \<Rightarrow> bool" where
  "handled p res \<longleftrightarrow>
     (case res of (r, p') \<Rightarrow>
        pa_sourceID p' = pa_sourceID p \<and> pa_relations p' = pa_relations p \<and> pa_lsn p' = pa_lsn p \<and>
        (case r of
           Inl e \<Rightarrow> pa_changeSeq p' = pa_changeSeq p
         | Inr ev \<Rightarrow> pa_changeSeq p' = pa_changeSeq p + 1 \<and>
             (\<exists>b. ev_idempotency_key ev = b @ CHR '':'' # dec_str (unat (pa_changeSeq p)))))"

lemma key_suffix: "\<exists>b. idempotency_key src rel pk op lsn n = b @ CHR '':'' # dec_str (unat n)"
  by (rule exI [of _ "src @ '':'' @ rm_namespace rel @ ''.'' @ rm_name rel @ '':'' @ pk @ '':'' @ op @ '':'' @ lsn"])
    (simp add: idempotency_key_def)

lemma handled_Insert: "handled p (handleInsert marshal lsn_str env rid t p)"
  using key_suffix by (auto simp: handled_def handleInsert_def newEvent_def Let_def split: option.splits prod.splits)

lemma handled_Update: "handled p (handleUpdate marshal lsn_str env rid t u p)"
  using key_suffix by (auto simp: handled_def handleUpdate_def newEvent_def Let_def split: option.splits prod.splits)

lemma handled_Delete: "handled p (handleDelete marshal lsn_str env rid t p)"
  using key_suffix by (auto simp: handled_def handleDelete_def newEvent_def Let_def split: option.splits prod.splits)

lemma handled_wrap:
  assumes "handled p res" "wrap res = (r, p')"
  shows "pa_sourceID p' = pa_sourceID p \<and> pa_lsn p' = pa_lsn p \<and> pa_relations p' = pa_relations p \<and>
    (case r of
       Inr (Some ev) \<Rightarrow> pa_changeSeq p' = pa_changeSeq p + 1 \<and>
         (\<exists>b. ev_idempotency_key ev = b @ CHR '':'' # dec_str (unat (pa_changeSeq p)))
     | _ \<Rightarrow> pa_changeSeq p' = pa_changeSeq p)"
  using assms by (auto simp: handled_def wrap_def split: prod.splits sum.splits)

lemma Parse_inside:
  assumes "inside m" "Parse marshal lsn_str env m p = (r, p')"
  shows "pa_sourceID p' = pa_sourceID p \<and> pa_lsn p' = pa_lsn p \<and>
    (case r of
       Inr (Some ev) \<Rightarrow> pa_changeSeq p' = pa_changeSeq p + 1 \<and>
         (\<exists>b. ev_idempotency_key ev = b @ CHR '':'' # dec_str (unat (pa_changeSeq p)))
     | _ \<Rightarrow> pa_changeSeq p' = pa_changeSeq p)"
proof (cases m)
  case (InsertMsg rid t)
  then show ?thesis using handled_wrap [OF handled_Insert, of marshal lsn_str env rid t p r p'] assms(2) by simp
next
  case (UpdateMsg rid t u)
  then show ?thesis using handled_wrap [OF handled_Update, of marshal lsn_str env rid t u p r p'] assms(2) by simp
next
  case (DeleteMsg rid t)
  then show ?thesis using handled_wrap [OF handled_Delete, of marshal lsn_str env rid t p r p'] assms(2) by simp
qed (use assms in auto)

lemma parse_run_keys:
  assumes "list_all (\<lambda>(env, m). inside m) ms" "parse_run marshal lsn_str ms p = (evs, p')"
  shows "\<forall>i < length evs. \<exists>b. ev_idempotency_key (evs ! i) = b @ CHR '':'' # dec_str (unat (pa_changeSeq p + of_nat i))"
  using assms
proof (induction ms arbitrary: p evs p')
  case (Cons em ms)
  obtain env m where em: "em = (env, m)" by fastforce
  obtain r p1 where P: "Parse marshal lsn_str env m p = (r, p1)" by fastforce
  obtain evs1 p2 where R: "parse_run marshal lsn_str ms p1 = (evs1, p2)" by fastforce
  have "inside m" using Cons.prems(1) by (simp add: em)
  note I = Parse_inside [OF this P]
  have tail: "list_all (\<lambda>(env, m). inside m) ms" using Cons.prems(1) by simp
  note IH = Cons.IH [OF tail R]
  show ?case
  proof (cases "\<exists>ev. r = Inr (Some ev)")
    case True
    then obtain ev where r: "r = Inr (Some ev)" by blast
    have evs: "evs = ev # evs1" using Cons.prems(2) P R r by (simp add: em)
    have seq: "pa_changeSeq p1 = pa_changeSeq p + 1" using I r by simp
    show ?thesis
    proof (intro allI impI)
      fix i assume "i < length evs"
      then show "\<exists>b. ev_idempotency_key (evs ! i) = b @ CHR '':'' # dec_str (unat (pa_changeSeq p + of_nat i))"
        using I r IH seq by (cases i) (auto simp: evs add.assoc)
    qed
  next
    case False
    then have "evs = evs1" using Cons.prems(2) P R by (auto simp: em split: sum.splits option.splits)
    moreover have "pa_changeSeq p1 = pa_changeSeq p" using I False by (auto split: sum.splits option.splits)
    ultimately show ?thesis using IH by simp
  qed
qed simp

lemma parse_run_length: "length (fst (parse_run marshal lsn_str ms p)) \<le> length ms"
proof (induction ms arbitrary: p)
  case (Cons em ms)
  obtain env m where em: "em = (env, m)" by fastforce
  obtain r p1 where P: "Parse marshal lsn_str env m p = (r, p1)" by fastforce
  from Cons.IH [of p1] show ?case by (auto simp: em P split: prod.splits sum.splits option.splits)
qed simp

text \<open>
  Within one transaction, from its begin on and up to \<open>2 ^ 64\<close> changes, all idempotency keys
  are different, also when the same row changes many times.
\<close>

theorem transaction_keys_distinct:
  assumes "list_all (\<lambda>(env, m). inside m) ms" "length ms < 2 ^ 64"
    and "parse_run marshal lsn_str ((env, BeginMsg lsn) # ms) p = (evs, p')"
  shows "distinct (map ev_idempotency_key evs)"
proof -
  have R: "parse_run marshal lsn_str ms (p\<lparr>pa_lsn := lsn, pa_changeSeq := 0\<rparr>) = (evs, p')"
    using assms(3) by (auto split: prod.splits)
  note K = parse_run_keys [OF assms(1) R]
  have "length evs \<le> length ms" using parse_run_length [of marshal lsn_str ms] R by (metis fst_conv)
  then have len: "length evs < 2 ^ 64" using assms(2) by simp
  show ?thesis
  proof (rule distinct_conv_nth [THEN iffD2], intro allI impI, rule notI)
    fix i j assume ij: "i < length (map ev_idempotency_key evs)" "j < length (map ev_idempotency_key evs)" "i \<noteq> j"
      and eq: "map ev_idempotency_key evs ! i = map ev_idempotency_key evs ! j"
    have n: "unat (of_nat n :: u64) = n" if "n < length evs" for n
      using that len by (simp add: unsigned_of_nat take_bit_eq_mod)
    obtain b where b: "ev_idempotency_key (evs ! i) = b @ CHR '':'' # dec_str i" using K ij(1) n [of i] by auto
    obtain c where c: "ev_idempotency_key (evs ! j) = c @ CHR '':'' # dec_str j" using K ij(2) n [of j] by auto
    have "b @ CHR '':'' # dec_str i = c @ CHR '':'' # dec_str j" using eq ij b c by simp
    moreover have "\<not> is_digit CHR '':''" by (simp add: is_digit_def)
    ultimately show False using sep_dec_inject ij(3) by metis
  qed
qed

section \<open>Replay\<close>

text \<open>Two parsers that mint the same keys from here on: the TOAST caches may differ.\<close>

definition alike :: "parser \<Rightarrow> parser \<Rightarrow> bool" where
  "alike p q \<longleftrightarrow> pa_sourceID p = pa_sourceID q \<and> (\<forall>i. rel_Get (pa_relations p) i = rel_Get (pa_relations q) i) \<and>
     pa_lsn p = pa_lsn q \<and> pa_changeSeq p = pa_changeSeq q"

definition same_key :: "parse_error + change_event option \<Rightarrow> parse_error + change_event option \<Rightarrow> bool" where
  "same_key r r' \<longleftrightarrow>
     (case (r, r') of
        (Inr (Some ev), Inr (Some ev')) \<Rightarrow> ev_idempotency_key ev = ev_idempotency_key ev'
      | (Inr (Some ev), _) \<Rightarrow> False
      | (_, Inr (Some ev')) \<Rightarrow> False
      | _ \<Rightarrow> True)"

lemma Parse_alike:
  assumes total: "\<And>r. marshal r \<noteq> None" and "alike p q"
    and "Parse marshal lsn_str env m p = (r, p')" "Parse marshal lsn_str env' m q = (r', q')"
  shows "alike p' q' \<and> same_key r r'"
proof -
  have eq: "pa_sourceID p = pa_sourceID q" "\<And>i. rel_Get (pa_relations p) i = rel_Get (pa_relations q) i"
    "pa_lsn p = pa_lsn q" "pa_changeSeq p = pa_changeSeq q" using assms(2) by (auto simp: alike_def)
  have mm: "marshal x = Some (the (marshal x))" for x using total [of x] by (cases "marshal x") simp_all
  have dec: "decodeSerializeAndRow marshal rel cols prev = Some (decodeColumns rel cols prev, the (marshal (decodeColumns rel cols prev)))" for rel cols prev
    using total [of "decodeColumns rel cols prev"] by (auto simp: decodeSerializeAndRow_def Let_def split: option.splits)
  note S = alike_def same_key_def wrap_def newEvent_def Let_def dec
  have mk: "\<exists>y. marshal x = Some y" for x using mm by blast
  show ?thesis
  proof (cases m)
    case (RelationMsg x)
    then show ?thesis using assms(3,4) eq by (auto simp: alike_def same_key_def rel_Get_def rel_Set_def gomap_simps)
  next
    case (InsertMsg rid t)
    show ?thesis
    proof (cases "rel_Get (pa_relations q) rid"; cases t)
      fix rel cols assume *: "rel_Get (pa_relations q) rid = Some rel" "t = Some cols"
      obtain k where "marshal (extractPK rel cols) = Some k" using mk by blast
      with * show ?thesis using assms(3,4) eq InsertMsg by (auto simp: S handleInsert_def)
    qed (use assms(3,4) eq InsertMsg in \<open>auto simp: S handleInsert_def\<close>)
  next
    case (UpdateMsg rid t u)
    show ?thesis
    proof (cases "rel_Get (pa_relations q) rid"; cases u)
      fix rel cols assume *: "rel_Get (pa_relations q) rid = Some rel" "u = Some cols"
      obtain k where k: "marshal (extractPK rel cols) = Some k" using mk by blast
      define f where "f x = the (marshal x)" for x
      have f: "marshal x = Some (f x)" for x unfolding f_def by (rule mm)
      show ?thesis using assms(3,4) eq UpdateMsg * k
        by (cases t) (auto simp: S handleUpdate_def f split: prod.splits)
    qed (use assms(3,4) eq UpdateMsg in \<open>auto simp: S handleUpdate_def\<close>)
  next
    case (DeleteMsg rid t)
    show ?thesis
    proof (cases "rel_Get (pa_relations q) rid"; cases t)
      fix rel cols assume *: "rel_Get (pa_relations q) rid = Some rel" "t = Some cols"
      define f where "f x = the (marshal x)" for x
      have f: "marshal x = Some (f x)" for x unfolding f_def by (rule mm)
      show ?thesis using assms(3,4) eq DeleteMsg * by (auto simp: S handleDelete_def f)
    qed (use assms(3,4) eq DeleteMsg in \<open>auto simp: S handleDelete_def\<close>)
  qed (use assms(3,4) eq in \<open>auto simp: alike_def same_key_def\<close>)
qed

lemma parse_run_alike:
  assumes "\<And>r. marshal r \<noteq> None" "alike p q" "map snd ms = map snd ms'"
  shows "map ev_idempotency_key (fst (parse_run marshal lsn_str ms p)) = map ev_idempotency_key (fst (parse_run marshal lsn_str ms' q))"
  using assms(2,3)
proof (induction ms arbitrary: p q ms')
  case (Cons em ms)
  obtain env m where em: "em = (env, m)" by fastforce
  obtain env' ns where ms': "ms' = (env', m) # ns" "map snd ms = map snd ns" using Cons.prems(2) by (cases ms') (auto simp: em)
  obtain r p1 where P: "Parse marshal lsn_str env m p = (r, p1)" by fastforce
  obtain r' q1 where Q: "Parse marshal lsn_str env' m q = (r', q1)" by fastforce
  note A = Parse_alike [OF assms(1) Cons.prems(1) P Q]
  from Cons.IH [of p1 q1 ns] A ms'(2) show ?case
    by (auto simp: em ms'(1) P Q same_key_def split: prod.splits sum.splits option.splits)
qed simp


section \<open>Rows merged from the cache\<close>

lemma handleUpdate_ok:
  assumes "\<And>x. marshal x = Some (f x)" "rel_Get (pa_relations p) rid = Some rel"
    "toast_Get (rid, f (extractPK rel cols)) (pa_toast p) = (prev, c)"
  shows "\<exists>ev. handleUpdate marshal lsn_str env rid None (Some cols) p =
      (Inr ev, p\<lparr>pa_toast := toast_Set (rid, f (extractPK rel cols)) (decodeColumns rel cols prev) c,
                 pa_changeSeq := pa_changeSeq p + 1\<rparr>) \<and>
    ev_after ev = Some (f (decodeColumns rel cols prev))"
  using assms(2,3) by (simp add: handleUpdate_def marshalPK_def decodeSerializeAndRow_def newEvent_def assms(1) Let_def)

text \<open>
  An update takes its unchanged large columns from the last row parsed for the key, also when
  the transaction that row came from was rolled back: the row of an aborted streamed transaction
  stays in the cache, and the next committed update of the key emits its values.
\<close>

theorem aborted_row_merged:
  assumes "toast_inv (pa_toast p)" "\<And>r. marshal r \<noteq> None" "rel_Get (pa_relations p) rid = Some rel"
    and "extractPK rel cols' = extractPK rel cols"
    and "parse_run marshal lsn_str
      [(e1, StreamStartMsg True), (e2, UpdateMsg rid None (Some cols)), (e3, StreamStopMsg), (e4, StreamAbortMsg),
       (e5, BeginMsg lsn), (e6, UpdateMsg rid None (Some cols'))] p = (evs, p')"
  shows "\<exists>ev0 ev1 prev. evs = [ev0, ev1] \<and> ev_after ev0 = marshal (decodeColumns rel cols prev) \<and>
    ev_after ev1 = marshal (decodeColumns rel cols' (Some (decodeColumns rel cols prev)))"
proof -
  define f where "f x = the (marshal x)" for x
  have f: "marshal x = Some (f x)" for x using assms(2) [of x] by (cases "marshal x") (simp_all add: f_def)
  let ?k = "(rid, f (extractPK rel cols))"
  obtain prev c where G: "toast_Get ?k (pa_toast p) = (prev, c)" by fastforce
  let ?row = "decodeColumns rel cols prev"
  have c: "toast_inv c" by (rule toast_Get_refines(2) [OF assms(1) G])
  note T = toast_Set_refines [OF c, of ?k ?row]
  have "0 < tc_cap c" using c by (simp add: toast_inv_def)
  then have "gm_get (tc_order (toast_Set ?k ?row c)) ?k = Some ?row" using T(2) by (cases "tc_cap c") (simp_all add: lru_set_def)
  moreover obtain prev2 c2 where G2: "toast_Get ?k (toast_Set ?k ?row c) = (prev2, c2)" by fastforce
  ultimately have "prev2 = Some ?row" using toast_Get_refines(1) [OF T(1) G2] by simp
  note p2 = this
  let ?p1 = "p\<lparr>pa_inStream := True, pa_changeSeq := 0\<rparr>"
  have "rel_Get (pa_relations ?p1) rid = Some rel" "toast_Get ?k (pa_toast ?p1) = (prev, c)" using assms(3) G by simp_all
  from handleUpdate_ok [where marshal = marshal and f = f and lsn_str = lsn_str and env = e2, OF f this] obtain ev0 where
    U1: "handleUpdate marshal lsn_str e2 rid None (Some cols) ?p1 =
      (Inr ev0, ?p1\<lparr>pa_toast := toast_Set ?k ?row c, pa_changeSeq := 1\<rparr>)" "ev_after ev0 = Some (f ?row)" by auto
  let ?p2 = "?p1\<lparr>pa_toast := toast_Set ?k ?row c, pa_inStream := False, pa_lsn := lsn, pa_changeSeq := 0\<rparr>"
  have "rel_Get (pa_relations ?p2) rid = Some rel" "toast_Get (rid, f (extractPK rel cols')) (pa_toast ?p2) = (Some ?row, c2)"
    using assms(3,4) G2 p2 by simp_all
  from handleUpdate_ok [where marshal = marshal and f = f and lsn_str = lsn_str and env = e6, OF f this] obtain ev1 q where
    U2: "handleUpdate marshal lsn_str e6 rid None (Some cols') ?p2 = (Inr ev1, q)"
      "ev_after ev1 = Some (f (decodeColumns rel cols' (Some ?row)))" by auto
  have "evs = [ev0, ev1]" using assms(5) U1(1) U2(1) by (simp add: wrap_def)
  with U1(2) U2(2) f show ?thesis by (simp, blast)
qed

section \<open>Concrete streams\<close>

definition ex_users :: relation_msg where
  "ex_users = \<lparr>rm_id = 7, rm_namespace = ''public'', rm_name = ''users'',
     rm_columns = [\<lparr>rc_name = ''id'', rc_flags = 1\<rparr>, \<lparr>rc_name = ''bio'', rc_flags = 0\<rparr>]\<rparr>"

fun show_val :: "row_val \<Rightarrow> string" where
  "show_val VNull = ''null''"
| "show_val (VStr s) = s"
| "show_val (VBytes s) = s"

definition ex_json :: "row \<Rightarrow> string option" where
  "ex_json r = Some (concat (map (\<lambda>(n, v). n @ ''='' @ show_val v @ '';'') r))"

definition ex_lsn :: "u64 \<Rightarrow> string" where
  "ex_lsn l = ''0/'' @ dec_str (unat l)"

definition ex_parser :: parser where
  "ex_parser = (New ''pg1'')\<lparr>pa_relations := [(7, ex_users)]\<rparr>"

definition ex_rows :: "((string \<times> int) \<times> wal_msg) list" where
  "ex_rows = [((''e1'', 1), UpdateMsg 7 None (Some [ColText ''1'', ColText ''x''])),
     ((''e2'', 2), UpdateMsg 7 None (Some [ColText ''1'', ColToast])), ((''e3'', 3), CommitMsg)]"

theorem decodeColumns_column_witness:
  "gm_get (decodeColumns ex_users [ColText ''1'', ColToast] (Some [(''bio'', VStr ''long'')])) ''bio'' = Some (VStr ''long'')"
  using decodeColumns_column [of ex_users 1 "[ColText ''1'', ColToast]" "Some [(''bio'', VStr ''long'')]"]
  by (simp add: ex_users_def)

theorem transaction_keys_distinct_witness:
  "\<exists>evs p'. parse_run ex_json ex_lsn (((''e0'', 0), BeginMsg 9) # ex_rows) ex_parser = (evs, p') \<and>
     length evs = 2 \<and> distinct (map ev_idempotency_key evs)"
proof -
  obtain evs p' where R: "parse_run ex_json ex_lsn (((''e0'', 0), BeginMsg 9) # ex_rows) ex_parser = (evs, p')" by fastforce
  have "length (fst (parse_run ex_json ex_lsn (((''e0'', 0), BeginMsg 9) # ex_rows) ex_parser)) = 2" by code_simp
  with R have "length evs = 2" by simp
  moreover have "list_all (\<lambda>(env, m). inside m) ex_rows" "length ex_rows < 2 ^ 64" by (simp_all add: ex_rows_def)
  note transaction_keys_distinct [OF this R]
  ultimately show ?thesis using R by blast
qed


theorem aborted_row_merged_witness:
  "\<exists>ev0 ev1 p'. parse_run ex_json ex_lsn
      [((''a'', 0), StreamStartMsg True), ((''b'', 0), UpdateMsg 7 None (Some [ColText ''1'', ColText ''rolled back''])),
       ((''c'', 0), StreamStopMsg), ((''d'', 0), StreamAbortMsg), ((''e'', 0), BeginMsg 9),
       ((''f'', 0), UpdateMsg 7 None (Some [ColText ''1'', ColToast]))] ex_parser = ([ev0, ev1], p') \<and>
     ev_after ev1 = Some ''id=1;bio=rolled back;''"
proof -
  let ?cols = "[ColText ''1'', ColText ''rolled back'']" and ?cols' = "[ColText ''1'', ColToast]"
  obtain evs p' where R: "parse_run ex_json ex_lsn
      [((''a'', 0), StreamStartMsg True), ((''b'', 0), UpdateMsg 7 None (Some ?cols)),
       ((''c'', 0), StreamStopMsg), ((''d'', 0), StreamAbortMsg), ((''e'', 0), BeginMsg 9),
       ((''f'', 0), UpdateMsg 7 None (Some ?cols'))] ex_parser = (evs, p')" by fastforce
  have 1: "toast_inv (pa_toast ex_parser)" using New_inv by (simp add: ex_parser_def New_def)
  have 2: "rel_Get (pa_relations ex_parser) 7 = Some ex_users" by (simp add: ex_parser_def rel_Get_def)
  have 3: "extractPK ex_users ?cols' = extractPK ex_users ?cols" by (simp add: extractPK_def ex_users_def pk_col_def)
  have m: "ex_json r \<noteq> None" for r by (simp add: ex_json_def)
  obtain ev0 ev1 prev where E: "evs = [ev0, ev1]"
    "ev_after ev1 = ex_json (decodeColumns ex_users ?cols' (Some (decodeColumns ex_users ?cols prev)))"
    using aborted_row_merged [where marshal = ex_json, OF 1 m 2 3 R] by blast
  have "decodeColumns ex_users ?cols' (Some (decodeColumns ex_users ?cols prev)) = [(''id'', VStr ''1''), (''bio'', VStr ''rolled back'')]"
    by (simp add: decodeColumns_def decode_col_def ex_users_def)
  then have "ev_after ev1 = Some ''id=1;bio=rolled back;''" using E(2) by (simp add: ex_json_def)
  with R E(1) show ?thesis by blast
qed

end
