(* ===== verification/Pg_Source.thy ===== *)
theory Pg_Source
  imports Pg_Keys
begin

text \<open>
  The Postgres source connector (\<open>internal/source/postgres/connector.go\<close>, \<open>publication.go\<close>):
  buffering of parsed changes, flush to the event log, checkpoint, acknowledgement to Postgres,
  and the decisions at connection time. The replication connection delivers \<open>recv\<close> events; the
  event log is the list of durable events, \<open>AppendBatch\<close> succeeds or fails with a durable prefix.
  Parameters: \<open>parseV2\<close> is \<open>pglogrepl.ParseV2\<close>, \<open>marshal\<close> and \<open>lsn_str\<close> as in the parser.
\<close>

section \<open>Decisions at connection time\<close>

definition EvalSlotCheck :: "bool \<Rightarrow> bool \<Rightarrow> bool" where
  "EvalSlotCheck slotPresent wasEverConnected = (if slotPresent then False else wasEverConnected)"

definition ReplicationStartLSN :: "bool \<Rightarrow> u64 \<Rightarrow> u64 \<Rightarrow> bool \<Rightarrow> u64 \<times> u64" where
  "ReplicationStartLSN needsSnapshot consistentPoint checkpointLSN hasCheckpoint =
     (if needsSnapshot then (consistentPoint, 0)
      else if \<not> hasCheckpoint then (0, 0)
      else (checkpointLSN + 1, checkpointLSN))"

text \<open>
  \<open>ensureSlot\<close>: \<open>count\<close> is the answer of the slot query, \<open>create\<close> the consistent point text of a new
  slot; \<^term>\<open>None\<close> is an error. \<open>parse_lsn\<close> is \<open>pglogrepl.ParseLSN\<close>.
\<close>

definition ensureSlot ::
  "(string \<Rightarrow> u64 option) \<Rightarrow> nat option \<Rightarrow> string option \<Rightarrow> bool \<Rightarrow> (bool \<times> u64) option" where
  "ensureSlot parse_lsn count create wasEverConnected =
     (case count of
        None \<Rightarrow> None
      | Some n \<Rightarrow>
          if 0 < n then Some (False, 0)
          else (case create of
                  None \<Rightarrow> None
                | Some cp \<Rightarrow>
                    Some (wasEverConnected, case parse_lsn cp of None \<Rightarrow> 0 | Some l \<Rightarrow> l)))"

definition BuildReplicationDSN :: "string \<Rightarrow> string" where
  "BuildReplicationDSN dsn = (if CHR ''?'' \<in> set dsn then dsn @ ''&replication=database'' else dsn @ ''?replication=database'')"

definition next_backoff :: "int \<Rightarrow> int \<Rightarrow> int" where
  "next_backoff backoff maxBackoff = (if backoff < maxBackoff then min (backoff * 2) maxBackoff else backoff)"

definition ackLSN :: "u64 \<Rightarrow> u64 \<Rightarrow> u64" where
  "ackLSN clientPos lastSaved = (if lastSaved < clientPos then lastSaved else clientPos)"

text \<open>The epoch getter is nil outside cluster mode.\<close>

definition ShouldSendStandby :: "(u64 \<times> bool) option \<Rightarrow> bool" where
  "ShouldSendStandby getter = (case getter of None \<Rightarrow> True | Some (epoch, isLeader) \<Rightarrow> isLeader)"

section \<open>State\<close>

definition walBufFlushThreshold :: nat where
  "walBufFlushThreshold = 1024"

record wal_state =
  wr_buf :: "change_event list"
  wr_streamed :: bool
  wr_pos :: u64
  wr_saved :: u64

record connector =
  cn_parser :: parser
  cn_has_log :: bool
  cn_log :: "change_event list"
  cn_chan :: "change_event list"
  cn_ckpt :: string
  cn_acks :: "u64 list"

definition NewWithEventLog :: "string \<Rightarrow> bool \<Rightarrow> connector" where
  "NewWithEventLog sourceID el =
     \<lparr>cn_parser = New sourceID, cn_has_log = el, cn_log = [], cn_chan = [], cn_ckpt = [], cn_acks = []\<rparr>"

definition chan_cap :: nat where
  "chan_cap = 1024"

text \<open>A non-blocking send on the events channel.\<close>

definition offer :: "change_event \<Rightarrow> change_event list \<Rightarrow> change_event list" where
  "offer ev ch = (if length ch < chan_cap then ch @ [ev] else ch)"

text \<open>How a call of the event log ends: \<open>AppendFailed n\<close> with the first \<open>n\<close> events durable.\<close>

datatype append_outcome = AppendOk | AppendFailed nat

datatype source_error = AppendErr | SaveErr | SendErr | UnexpectedMsg | ReceiveErr

section \<open>Appending\<close>

definition AppendAndQueue :: "bool \<Rightarrow> change_event \<Rightarrow> connector \<Rightarrow> (source_error + unit) \<times> connector" where
  "AppendAndQueue append_ok ev c =
     (if cn_has_log c \<and> \<not> append_ok then (Inl AppendErr, c)
      else (Inr (), c\<lparr>cn_log := (if cn_has_log c then cn_log c @ [ev] else cn_log c), cn_chan := offer ev (cn_chan c)\<rparr>))"

text \<open>Without an event log the sends block until the channel takes the event, so none is dropped.\<close>

definition AppendAndQueueBatch :: "append_outcome \<Rightarrow> change_event list \<Rightarrow> connector \<Rightarrow> (source_error + unit) \<times> connector" where
  "AppendAndQueueBatch oc evs c =
     (if evs = [] then (Inr (), c)
      else if cn_has_log c
      then (case oc of
              AppendFailed n \<Rightarrow> (Inl AppendErr, c\<lparr>cn_log := cn_log c @ take n evs\<rparr>)
            | AppendOk \<Rightarrow> (Inr (), c\<lparr>cn_log := cn_log c @ evs, cn_chan := fold offer evs (cn_chan c)\<rparr>))
      else (Inr (), c\<lparr>cn_chan := cn_chan c @ evs\<rparr>))"

definition flushWALBuf :: "append_outcome \<Rightarrow> wal_state \<Rightarrow> connector \<Rightarrow> (source_error + unit) \<times> wal_state \<times> connector" where
  "flushWALBuf oc st c =
     (if wr_buf st = [] then (Inr (), st, c)
      else case (if cn_has_log c then oc else AppendOk) of
        AppendFailed n \<Rightarrow> (Inl AppendErr, st, c\<lparr>cn_log := cn_log c @ take n (wr_buf st)\<rparr>)
      | AppendOk \<Rightarrow>
          (Inr (), st\<lparr>wr_buf := []\<rparr>,
           c\<lparr>cn_log := (if cn_has_log c then cn_log c @ wr_buf st else cn_log c), cn_chan := fold offer (wr_buf st) (cn_chan c)\<rparr>))"

definition bufferEvent :: "append_outcome \<Rightarrow> change_event \<Rightarrow> wal_state \<Rightarrow> connector \<Rightarrow> (source_error + unit) \<times> wal_state \<times> connector" where
  "bufferEvent oc ev st c =
     (let st = st\<lparr>wr_buf := wr_buf st @ [ev]\<rparr> in
      if walBufFlushThreshold \<le> length (wr_buf st) \<and> \<not> wr_streamed st then flushWALBuf oc st c else (Inr (), st, c))"

definition checkpointLSN :: "(u64 \<Rightarrow> string) \<Rightarrow> bool \<Rightarrow> wal_state \<Rightarrow> connector \<Rightarrow> (source_error + unit) \<times> wal_state \<times> connector" where
  "checkpointLSN lsn_str save_ok st c =
     (if save_ok then (Inr (), st\<lparr>wr_saved := wr_pos st\<rparr>, c\<lparr>cn_ckpt := lsn_str (wr_pos st)\<rparr>)
      else (Inl SaveErr, st, c))"

section \<open>Stamping the commit position\<close>

text \<open>\<open>strings.LastIndexByte\<close>.\<close>

definition LastIndexByte :: "string \<Rightarrow> char \<Rightarrow> nat option" where
  "LastIndexByte s ch =
     (let r = dropWhile (\<lambda>x. x \<noteq> ch) (rev s) in if r = [] then None else Some (length r - 1))"

definition rewriteIdempotencyLSN :: "string \<Rightarrow> change_event \<Rightarrow> change_event" where
  "rewriteIdempotencyLSN lsnStr ev =
     (let key = ev_idempotency_key ev in
      case LastIndexByte key CHR '':'' of
        None \<Rightarrow> ev
      | Some lst \<Rightarrow>
          if lst = 0 then ev
          else case LastIndexByte (take lst key) CHR '':'' of
            None \<Rightarrow> ev
          | Some second \<Rightarrow> ev\<lparr>ev_idempotency_key := take (second + 1) key @ lsnStr @ drop lst key\<rparr>)"

definition stampCommitLSN :: "string \<Rightarrow> change_event list \<Rightarrow> change_event list" where
  "stampCommitLSN lsnStr evs =
     map (\<lambda>ev. let ev = rewriteIdempotencyLSN lsnStr ev in
        ev\<lparr>ev_metadata := gm_set ''lsn'' (JStr lsnStr) (ev_metadata ev)\<rparr>) evs"

section \<open>Messages\<close>

text \<open>The type byte of a message: stream start \<open>S\<close>, stream abort \<open>A\<close>, commit \<open>C\<close>, stream commit \<open>c\<close>.\<close>

definition MessageTypeStreamStart :: byte where "MessageTypeStreamStart = 0x53"
definition MessageTypeStreamAbort :: byte where "MessageTypeStreamAbort = 0x41"
definition MessageTypeCommit :: byte where "MessageTypeCommit = 0x43"
definition MessageTypeStreamCommit :: byte where "MessageTypeStreamCommit = 0x63"

lemmas msg_types = MessageTypeStreamStart_def MessageTypeStreamAbort_def MessageTypeCommit_def MessageTypeStreamCommit_def

text \<open>The environment of one message: identifier and clock for the event, outcomes of the log and the store.\<close>

record xlog_env =
  xe_ev :: "string \<times> int"
  xe_append :: append_outcome
  xe_append2 :: append_outcome
  xe_save :: bool

text \<open>The result is an error, or the position to acknowledge when a transaction ended.\<close>

definition finishXLogData ::
  "(u64 \<Rightarrow> string) \<Rightarrow> xlog_env \<Rightarrow> byte \<Rightarrow> wal_state \<Rightarrow> connector
     \<Rightarrow> (source_error + u64 option) \<times> wal_state \<times> connector" where
  "finishXLogData lsn_str env msgType st c =
     (if msgType = MessageTypeStreamStart then (Inr None, st\<lparr>wr_streamed := True\<rparr>, c)
      else if msgType = MessageTypeStreamAbort then
        (case checkpointLSN lsn_str (xe_save env) (st\<lparr>wr_buf := [], wr_streamed := False\<rparr>) c of
           (Inl e, st, c) \<Rightarrow> (Inl e, st, c)
         | (Inr _, st, c) \<Rightarrow> (Inr (Some (wr_pos st)), st, c))
      else if msgType = MessageTypeCommit \<or> msgType = MessageTypeStreamCommit then
        (let st = (if msgType = MessageTypeStreamCommit
                   then st\<lparr>wr_buf := stampCommitLSN (lsn_str (pa_lsn (cn_parser c))) (wr_buf st)\<rparr> else st) in
         case flushWALBuf (xe_append2 env) st c of
           (Inl e, st, c) \<Rightarrow> (Inl e, st, c)
         | (Inr _, st, c) \<Rightarrow>
             (case checkpointLSN lsn_str (xe_save env) st c of
                (Inl e, st, c) \<Rightarrow> (Inl e, st, c)
              | (Inr _, st, c) \<Rightarrow> (Inr (Some (wr_pos st)), st\<lparr>wr_streamed := False\<rparr>, c)))
      else (Inr None, st, c))"

record xlog_data =
  xl_start :: u64
  xl_data :: bytes

definition handleXLogData ::
  "(row \<Rightarrow> string option) \<Rightarrow> (u64 \<Rightarrow> string) \<Rightarrow> (bytes \<Rightarrow> bool \<Rightarrow> wal_msg option) \<Rightarrow> xlog_env \<Rightarrow> xlog_data \<Rightarrow>
     wal_state \<Rightarrow> connector \<Rightarrow> (source_error + u64 option) \<times> wal_state \<times> connector" where
  "handleXLogData marshal lsn_str parseV2 env xld st c =
     (case parseV2 (xl_data xld) (pa_inStream (cn_parser c)) of
        None \<Rightarrow> (Inr None, st, c)
      | Some msg \<Rightarrow>
         (case Parse marshal lsn_str (xe_ev env) msg (cn_parser c) of
            (Inl e, p) \<Rightarrow> (Inr None, st, c\<lparr>cn_parser := p\<rparr>)
          | (Inr evo, p) \<Rightarrow>
             (case (case evo of
                      None \<Rightarrow> (Inr (), st, c\<lparr>cn_parser := p\<rparr>)
                    | Some ev \<Rightarrow> bufferEvent (xe_append env) ev st (c\<lparr>cn_parser := p\<rparr>)) of
                (Inl e, st, c) \<Rightarrow> (Inl e, st, c)
              | (Inr _, st, c) \<Rightarrow>
                  let e = xl_start xld + of_nat (length (xl_data xld));
                      st = (if wr_pos st < e then st\<lparr>wr_pos := e\<rparr> else st) in
                  if xl_data xld = [] then (Inr None, st, c)
                  else finishXLogData lsn_str env (xl_data xld ! 0) st c)))"

section \<open>The receive loop\<close>

text \<open>What \<open>ReceiveMessage\<close> brings; \<open>BadMsg\<close> is a payload that does not parse and is skipped.\<close>

datatype recv = Timeout | RecvFailed | NotCopyData | EmptyMsg | BadMsg | Keepalive u64 bool | XLog xlog_env xlog_data

definition sendStandbyStatus :: "(u64 \<times> bool) option \<Rightarrow> bool \<Rightarrow> u64 \<Rightarrow> connector \<Rightarrow> (source_error + unit) \<times> connector" where
  "sendStandbyStatus getter send_ok pos c =
     (if \<not> ShouldSendStandby getter then (Inr (), c)
      else if send_ok then (Inr (), c\<lparr>cn_acks := cn_acks c @ [pos]\<rparr>) else (Inl SendErr, c))"

text \<open>One iteration; an error leaves the loop.\<close>

definition receive_one ::
  "(row \<Rightarrow> string option) \<Rightarrow> (u64 \<Rightarrow> string) \<Rightarrow> (bytes \<Rightarrow> bool \<Rightarrow> wal_msg option) \<Rightarrow> (u64 \<times> bool) option \<Rightarrow> bool \<Rightarrow> recv \<Rightarrow>
     wal_state \<Rightarrow> connector \<Rightarrow> (source_error + unit) \<times> wal_state \<times> connector" where
  "receive_one marshal lsn_str parseV2 getter send_ok rv st c =
     (case rv of
        Timeout \<Rightarrow> (case sendStandbyStatus getter send_ok (ackLSN (wr_pos st) (wr_saved st)) c of (r, c) \<Rightarrow> (r, st, c))
      | RecvFailed \<Rightarrow> (Inl ReceiveErr, st, c)
      | NotCopyData \<Rightarrow> (Inl UnexpectedMsg, st, c)
      | EmptyMsg \<Rightarrow> (Inr (), st, c)
      | BadMsg \<Rightarrow> (Inr (), st, c)
      | Keepalive serverWALEnd replyRequested \<Rightarrow>
          (let st = (if wr_pos st < serverWALEnd then st\<lparr>wr_pos := serverWALEnd\<rparr> else st) in
           if replyRequested
           then (case sendStandbyStatus getter send_ok (ackLSN (wr_pos st) (wr_saved st)) c of (r, c) \<Rightarrow> (r, st, c))
           else (Inr (), st, c))
      | XLog env xld \<Rightarrow>
          (case handleXLogData marshal lsn_str parseV2 env xld st c of
             (Inl e, st, c) \<Rightarrow> (Inl e, st, c)
           | (Inr None, st, c) \<Rightarrow> (Inr (), st, c)
           | (Inr (Some ack), st, c) \<Rightarrow>
               (case sendStandbyStatus getter send_ok ack c of (r, c) \<Rightarrow> (r, st, c))))"

fun receiveLoop ::
  "(row \<Rightarrow> string option) \<Rightarrow> (u64 \<Rightarrow> string) \<Rightarrow> (bytes \<Rightarrow> bool \<Rightarrow> wal_msg option) \<Rightarrow> ((u64 \<times> bool) option \<times> bool \<times> recv) list \<Rightarrow>
     wal_state \<Rightarrow> connector \<Rightarrow> (source_error + unit) \<times> wal_state \<times> connector" where
  "receiveLoop marshal lsn_str parseV2 [] st c = (Inr (), st, c)"
| "receiveLoop marshal lsn_str parseV2 ((getter, send_ok, rv) # rest) st c =
     (case receive_one marshal lsn_str parseV2 getter send_ok rv st c of
        (Inl e, st, c) \<Rightarrow> (Inl e, st, c)
      | (Inr _, st, c) \<Rightarrow> receiveLoop marshal lsn_str parseV2 rest st c)"

text \<open>The start of a session: positions from the checkpoint, relation cache cleared.\<close>

definition session_state :: "u64 \<Rightarrow> wal_state" where
  "session_state lastSavedLSN = \<lparr>wr_buf = [], wr_streamed = False, wr_pos = 0, wr_saved = lastSavedLSN\<rparr>"

definition start_session :: "connector \<Rightarrow> connector" where
  "start_session c = c\<lparr>cn_parser := ClearRelationCache (cn_parser c)\<rparr>"

end
