(* ===== verification/Pg_Source_Props.thy ===== *)
theory Pg_Source_Props
  imports Pg_Source
begin

text \<open>
  The promises of the source connector: nothing is acknowledged before it is checkpointed, nothing
  is checkpointed at a commit before it is in the event log, streamed transactions get the
  position of their commit. And the three places where streaming breaks them: the one buffer for
  all open transactions, and the position computed from payload lengths.
\<close>

section \<open>Message types\<close>

text \<open>The type of a message is its first byte, as the replication protocol defines it.\<close>

definition typed :: "(bytes \<Rightarrow> bool \<Rightarrow> wal_msg option) \<Rightarrow> bool" where
  "typed parseV2 \<longleftrightarrow> (\<forall>d s m. parseV2 d s = Some m \<longrightarrow> d \<noteq> [] \<and>
     (d ! 0 = MessageTypeCommit \<longleftrightarrow> m = CommitMsg) \<and>
     (d ! 0 = MessageTypeStreamStart \<longleftrightarrow> (\<exists>f. m = StreamStartMsg f)) \<and>
     (d ! 0 = MessageTypeStreamAbort \<longleftrightarrow> m = StreamAbortMsg) \<and>
     (d ! 0 = MessageTypeStreamCommit \<longleftrightarrow> (\<exists>l. m = StreamCommitMsg l)))"

fun streaming :: "wal_msg \<Rightarrow> bool" where
  "streaming (StreamStartMsg f) \<longleftrightarrow> True"
| "streaming StreamStopMsg \<longleftrightarrow> True"
| "streaming (StreamCommitMsg l) \<longleftrightarrow> True"
| "streaming StreamAbortMsg \<longleftrightarrow> True"
| "streaming _ \<longleftrightarrow> False"

text \<open>A received message that belongs to no streamed transaction.\<close>

fun plain :: "(bytes \<Rightarrow> bool \<Rightarrow> wal_msg option) \<Rightarrow> recv \<Rightarrow> bool" where
  "plain parseV2 (XLog env xld) \<longleftrightarrow> (case parseV2 (xl_data xld) False of None \<Rightarrow> True | Some m \<Rightarrow> \<not> streaming m)"
| "plain parseV2 _ \<longleftrightarrow> True"

text \<open>The events the parser makes of a run of messages, in order.\<close>

fun next_event ::
  "(row \<Rightarrow> string option) \<Rightarrow> (u64 \<Rightarrow> string) \<Rightarrow> (bytes \<Rightarrow> bool \<Rightarrow> wal_msg option) \<Rightarrow> recv \<Rightarrow> parser \<Rightarrow> change_event list \<times> parser" where
  "next_event marshal lsn_str parseV2 (XLog env xld) p =
     (case parseV2 (xl_data xld) (pa_inStream p) of
        None \<Rightarrow> ([], p)
      | Some m \<Rightarrow> (case Parse marshal lsn_str (xe_ev env) m p of
                    (Inr (Some ev), p') \<Rightarrow> ([ev], p')
                  | (_, p') \<Rightarrow> ([], p')))"
| "next_event marshal lsn_str parseV2 _ p = ([], p)"

fun parsed_events ::
  "(row \<Rightarrow> string option) \<Rightarrow> (u64 \<Rightarrow> string) \<Rightarrow> (bytes \<Rightarrow> bool \<Rightarrow> wal_msg option) \<Rightarrow> recv list \<Rightarrow> parser \<Rightarrow> change_event list" where
  "parsed_events marshal lsn_str parseV2 [] p = []"
| "parsed_events marshal lsn_str parseV2 (rv # rvs) p =
     (case next_event marshal lsn_str parseV2 rv p of (evs, p') \<Rightarrow> evs @ parsed_events marshal lsn_str parseV2 rvs p')"

lemma handled_stream:
  "pa_inStream (snd (handleInsert marshal lsn_str env rid t p)) = pa_inStream p"
  "pa_inStream (snd (handleUpdate marshal lsn_str env rid t u p)) = pa_inStream p"
  "pa_inStream (snd (handleDelete marshal lsn_str env rid t p)) = pa_inStream p"
  by (simp_all add: handleInsert_def handleUpdate_def handleDelete_def newEvent_def Let_def split: option.splits prod.splits)

lemma Parse_stream: "\<not> streaming m \<Longrightarrow> pa_inStream (snd (Parse marshal lsn_str env m p)) = pa_inStream p"
proof (cases m)
  case (InsertMsg rid t)
  then show ?thesis using handled_stream(1) [of marshal lsn_str env rid t p] by (auto simp: wrap_def split: prod.splits sum.splits)
next
  case (UpdateMsg rid t u)
  then show ?thesis using handled_stream(2) [of marshal lsn_str env rid t u p] by (auto simp: wrap_def split: prod.splits sum.splits)
next
  case (DeleteMsg rid t)
  then show ?thesis using handled_stream(3) [of marshal lsn_str env rid t p] by (auto simp: wrap_def split: prod.splits sum.splits)
qed simp_all

section \<open>One message\<close>

text \<open>The pair of log and buffer after a step that appends \<open>evs\<close>.\<close>

lemma flush_ok:
  assumes "flushWALBuf oc st c = (Inr u, st', c')" "cn_has_log c"
  shows "wr_buf st' = [] \<and> cn_log c' = cn_log c @ wr_buf st \<and> wr_streamed st' = wr_streamed st \<and> wr_pos st' = wr_pos st \<and>
    wr_saved st' = wr_saved st \<and> cn_parser c' = cn_parser c \<and> cn_has_log c' \<and> cn_acks c' = cn_acks c \<and> cn_ckpt c' = cn_ckpt c"
  using assms by (auto simp: flushWALBuf_def split: if_splits append_outcome.splits)

lemma buffer_ok:
  assumes "bufferEvent oc ev st c = (Inr u, st', c')" "cn_has_log c"
  shows "cn_log c' @ wr_buf st' = cn_log c @ wr_buf st @ [ev] \<and> wr_streamed st' = wr_streamed st \<and> wr_pos st' = wr_pos st \<and>
    wr_saved st' = wr_saved st \<and> cn_parser c' = cn_parser c \<and> cn_has_log c' \<and> cn_acks c' = cn_acks c \<and> cn_ckpt c' = cn_ckpt c"
proof (cases "walBufFlushThreshold \<le> length (wr_buf st @ [ev]) \<and> \<not> wr_streamed st")
  case True
  then have "flushWALBuf oc (st\<lparr>wr_buf := wr_buf st @ [ev]\<rparr>) c = (Inr u, st', c')"
    using assms(1) by (simp add: bufferEvent_def Let_def)
  from flush_ok [OF this assms(2)] show ?thesis by simp
next
  case False
  then show ?thesis using assms by (auto simp: bufferEvent_def Let_def)
qed

lemma checkpoint_ok:
  "checkpointLSN lsn_str ok st c = (Inr u, st', c') \<Longrightarrow>
   st' = st\<lparr>wr_saved := wr_pos st\<rparr> \<and> c' = c\<lparr>cn_ckpt := lsn_str (wr_pos st)\<rparr>"
  by (simp add: checkpointLSN_def split: if_splits)

lemma finish_commit:
  assumes "finishXLogData lsn_str env MessageTypeCommit st c = (Inr r, st', c')" "cn_has_log c"
  shows "r = Some (wr_pos st') \<and> wr_buf st' = [] \<and> cn_log c' = cn_log c @ wr_buf st \<and> \<not> wr_streamed st' \<and>
    wr_saved st' = wr_pos st \<and> wr_pos st' = wr_pos st \<and> cn_ckpt c' = lsn_str (wr_pos st) \<and> cn_parser c' = cn_parser c \<and> cn_has_log c'"
  using assms flush_ok [OF _ assms(2)]
  by (fastforce simp: finishXLogData_def msg_types Let_def split: prod.splits sum.splits dest!: checkpoint_ok)

lemma finish_other:
  "msgType \<noteq> MessageTypeCommit \<Longrightarrow> msgType \<noteq> MessageTypeStreamStart \<Longrightarrow> msgType \<noteq> MessageTypeStreamAbort \<Longrightarrow>
   msgType \<noteq> MessageTypeStreamCommit \<Longrightarrow> finishXLogData lsn_str env msgType st c = (Inr None, st, c)"
  by (simp add: finishXLogData_def)

text \<open>A message outside streaming adds its event to log and buffer, and a commit empties the buffer.\<close>

definition step_ok :: "change_event list \<Rightarrow> parser \<Rightarrow> wal_state \<Rightarrow> connector \<Rightarrow> wal_state \<Rightarrow> connector \<Rightarrow> bool" where
  "step_ok evs p st c st' c' \<longleftrightarrow> cn_log c' @ wr_buf st' = cn_log c @ wr_buf st @ evs \<and> cn_parser c' = p \<and>
     \<not> wr_streamed st' \<and> cn_has_log c'"

lemma handle_plain:
  assumes "typed parseV2" "plain parseV2 (XLog env xld)" "cn_has_log c" "\<not> wr_streamed st" "\<not> pa_inStream (cn_parser c)"
    and H: "handleXLogData marshal lsn_str parseV2 env xld st c = (Inr r, st', c')"
  shows "\<exists>evs p. next_event marshal lsn_str parseV2 (XLog env xld) (cn_parser c) = (evs, p) \<and> step_ok evs p st c st' c' \<and>
    \<not> pa_inStream p \<and>
    (parseV2 (xl_data xld) False = Some CommitMsg \<longrightarrow> wr_buf st' = [] \<and> cn_ckpt c' = lsn_str (wr_pos st') \<and> wr_saved st' = wr_pos st')"
proof (cases "parseV2 (xl_data xld) False")
  case None
  then show ?thesis using assms(3-5) H by (auto simp: handleXLogData_def step_ok_def)
next
  case (Some m)
  have ns: "\<not> streaming m" using assms(2) Some by simp
  have ty: "xl_data xld \<noteq> []" "xl_data xld ! 0 = MessageTypeCommit \<longleftrightarrow> m = CommitMsg"
    "xl_data xld ! 0 \<noteq> MessageTypeStreamStart" "xl_data xld ! 0 \<noteq> MessageTypeStreamAbort" "xl_data xld ! 0 \<noteq> MessageTypeStreamCommit"
    using assms(1) [unfolded typed_def, rule_format, OF Some] ns by auto
  obtain res p where P: "Parse marshal lsn_str (xe_ev env) m (cn_parser c) = (res, p)" by fastforce
  have ins: "\<not> pa_inStream p" using Parse_stream [OF ns, of marshal lsn_str "xe_ev env" "cn_parser c"] P assms(5) by simp
  show ?thesis
  proof (cases res)
    case (Inl e)
    then have "m \<noteq> CommitMsg" using P by auto
    then show ?thesis using Inl Some P H assms(3-5) ins by (auto simp: handleXLogData_def step_ok_def)
  next
    case (Inr evo)
    let ?c = "c\<lparr>cn_parser := p\<rparr>"
    obtain x st1 c1 where B: "(case evo of None \<Rightarrow> (Inr (), st, ?c) | Some ev \<Rightarrow> bufferEvent (xe_append env) ev st ?c) = (x, st1, c1)"
      by (metis prod_cases3)
    let ?e = "xl_start xld + of_nat (length (xl_data xld))"
    let ?st = "if wr_pos st1 < ?e then st1\<lparr>wr_pos := ?e\<rparr> else st1"
    from H have x: "\<exists>u. x = Inr u" using Some P Inr B assms(5) by (cases x) (auto simp: handleXLogData_def)
    have F: "finishXLogData lsn_str env (xl_data xld ! 0) ?st c1 = (Inr r, st', c')"
      using H Some P Inr B x ty(1) assms(5) by (auto simp: handleXLogData_def Let_def)
    have 0: "cn_log c1 @ wr_buf st1 = cn_log c @ wr_buf st @ (case evo of None \<Rightarrow> [] | Some ev \<Rightarrow> [ev]) \<and>
      \<not> wr_streamed st1 \<and> cn_parser c1 = p \<and> cn_has_log c1"
    proof (cases evo)
      case None
      then show ?thesis using B assms(3,4) by auto
    next
      case (Some ev)
      obtain u where "bufferEvent (xe_append env) ev st ?c = (Inr u, st1, c1)" using B x Some by auto
      from buffer_ok [OF this] show ?thesis using assms(3,4) Some by simp
    qed
    then have 1: "cn_log c1 @ wr_buf ?st = cn_log c @ wr_buf st @ (case evo of None \<Rightarrow> [] | Some ev \<Rightarrow> [ev])"
      "\<not> wr_streamed ?st" "cn_parser c1 = p" "cn_has_log c1" by auto
    show ?thesis
    proof (cases "m = CommitMsg")
      case True
      then have "evo = None" using P Inr by auto
      moreover note finish_commit [OF F [unfolded ty(2) [THEN iffD2, OF True]] 1(4)]
      ultimately show ?thesis using 1 Some P Inr True ins assms(5) by (auto simp: step_ok_def)
    next
      case False
      then have "r = None \<and> st' = ?st \<and> c' = c1" using F finish_other ty by auto
      then show ?thesis using 1 Some P Inr False ins assms(5) by (cases evo) (auto simp: step_ok_def)
    qed
  qed
qed

lemma standby_frames:
  "sendStandbyStatus g ok pos c = (r, c') \<Longrightarrow> cn_log c' = cn_log c \<and> cn_parser c' = cn_parser c \<and> cn_has_log c' = cn_has_log c \<and>
     cn_ckpt c' = cn_ckpt c \<and> (cn_acks c' = cn_acks c \<or> cn_acks c' = cn_acks c @ [pos])"
  by (auto simp: sendStandbyStatus_def split: if_splits)

lemma receive_plain:
  assumes "typed parseV2" "plain parseV2 rv" "cn_has_log c" "\<not> wr_streamed st" "\<not> pa_inStream (cn_parser c)"
    and R: "receive_one marshal lsn_str parseV2 g ok rv st c = (Inr u, st', c')"
  shows "\<exists>evs p. next_event marshal lsn_str parseV2 rv (cn_parser c) = (evs, p) \<and> step_ok evs p st c st' c' \<and> \<not> pa_inStream p \<and>
    (\<forall>env xld. rv = XLog env xld \<longrightarrow> parseV2 (xl_data xld) False = Some CommitMsg \<longrightarrow>
       wr_buf st' = [] \<and> cn_ckpt c' = lsn_str (wr_pos st') \<and> wr_saved st' = wr_pos st')"
proof (cases rv)
  case (XLog env xld)
  obtain hr st1 c1 where H: "handleXLogData marshal lsn_str parseV2 env xld st c = (hr, st1, c1)" by (metis prod_cases3)
  then obtain r where r: "hr = Inr r" using R XLog by (cases hr) (auto simp: receive_one_def)
  have fr: "st' = st1 \<and> cn_log c' = cn_log c1 \<and> cn_parser c' = cn_parser c1 \<and> cn_has_log c' = cn_has_log c1 \<and> cn_ckpt c' = cn_ckpt c1"
    using R XLog H r standby_frames by (cases r) (auto simp: receive_one_def split: prod.splits)
  from handle_plain [OF assms(1) assms(2) [unfolded XLog] assms(3-5) H [unfolded r]] fr XLog show ?thesis
    by (auto simp: step_ok_def)
qed (use R assms(3-5) standby_frames in \<open>fastforce simp: receive_one_def step_ok_def Let_def split: prod.splits if_splits\<close>)+


section \<open>Acknowledgements\<close>

definition saved_ok :: "(u64 \<Rightarrow> string) \<Rightarrow> wal_state \<Rightarrow> connector \<Rightarrow> wal_state \<Rightarrow> connector \<Rightarrow> bool" where
  "saved_ok lsn_str st c st' c' \<longleftrightarrow> cn_acks c' = cn_acks c \<and>
     (cn_ckpt c' = lsn_str (wr_saved st') \<or> (cn_ckpt c' = cn_ckpt c \<and> wr_saved st' = wr_saved st))"

lemma flush_frames:
  "flushWALBuf oc st c = (r, st', c') \<Longrightarrow> cn_acks c' = cn_acks c \<and> cn_ckpt c' = cn_ckpt c \<and> wr_saved st' = wr_saved st \<and> wr_pos st' = wr_pos st"
  by (auto simp: flushWALBuf_def split: if_splits append_outcome.splits)

lemma buffer_frames:
  "bufferEvent oc ev st c = (r, st', c') \<Longrightarrow> cn_acks c' = cn_acks c \<and> cn_ckpt c' = cn_ckpt c \<and> wr_saved st' = wr_saved st"
  by (auto simp: bufferEvent_def Let_def split: if_splits dest: flush_frames)

lemma finish_saved:
  assumes "finishXLogData lsn_str env t st c = (r, st', c')"
  shows "(\<forall>ack. r = Inr (Some ack) \<longrightarrow> ack = wr_saved st') \<and> saved_ok lsn_str st c st' c'"
proof (cases "t = MessageTypeCommit \<or> t = MessageTypeStreamCommit")
  case True
  let ?st = "if t = MessageTypeStreamCommit then st\<lparr>wr_buf := stampCommitLSN (lsn_str (pa_lsn (cn_parser c))) (wr_buf st)\<rparr> else st"
  obtain x st1 c1 where F: "flushWALBuf (xe_append2 env) ?st c = (x, st1, c1)" by (metis prod_cases3)
  have fr: "cn_acks c1 = cn_acks c \<and> cn_ckpt c1 = cn_ckpt c \<and> wr_saved st1 = wr_saved st" using flush_frames [OF F] by auto
  have "t \<noteq> MessageTypeStreamStart" "t \<noteq> MessageTypeStreamAbort" using True by (auto simp: msg_types)
  with True assms F have "(case x of Inl e \<Rightarrow> (Inl e, st1, c1)
      | Inr _ \<Rightarrow> (case checkpointLSN lsn_str (xe_save env) st1 c1 of
           (Inl e, st, c) \<Rightarrow> (Inl e, st, c) | (Inr _, st, c) \<Rightarrow> (Inr (Some (wr_pos st)), st\<lparr>wr_streamed := False\<rparr>, c))) = (r, st', c')"
    by (simp add: finishXLogData_def Let_def split: sum.splits)
  then show ?thesis using fr by (auto simp: saved_ok_def checkpointLSN_def split: sum.splits if_splits)
next
  case False
  then show ?thesis using assms by (auto simp: finishXLogData_def saved_ok_def checkpointLSN_def split: if_splits)
qed

lemma handle_saved:
  assumes "handleXLogData marshal lsn_str parseV2 env xld st c = (r, st', c')"
  shows "(\<forall>ack. r = Inr (Some ack) \<longrightarrow> ack = wr_saved st') \<and> saved_ok lsn_str st c st' c'"
proof (cases "\<exists>msg evo p. parseV2 (xl_data xld) (pa_inStream (cn_parser c)) = Some msg \<and>
    Parse marshal lsn_str (xe_ev env) msg (cn_parser c) = (Inr evo, p)")
  case False
  then show ?thesis using assms by (auto simp: handleXLogData_def saved_ok_def split: option.splits prod.splits sum.splits)
next
  case True
  then obtain msg evo p where P: "parseV2 (xl_data xld) (pa_inStream (cn_parser c)) = Some msg"
    "Parse marshal lsn_str (xe_ev env) msg (cn_parser c) = (Inr evo, p)" by blast
  obtain x st1 c1 where B: "(case evo of None \<Rightarrow> (Inr (), st, c\<lparr>cn_parser := p\<rparr>)
      | Some ev \<Rightarrow> bufferEvent (xe_append env) ev st (c\<lparr>cn_parser := p\<rparr>)) = (x, st1, c1)" by (metis prod_cases3)
  have fr: "cn_acks c1 = cn_acks c \<and> cn_ckpt c1 = cn_ckpt c \<and> wr_saved st1 = wr_saved st"
    using B by (cases evo) (auto dest: buffer_frames)
  let ?e = "xl_start xld + of_nat (length (xl_data xld))"
  let ?st = "if wr_pos st1 < ?e then st1\<lparr>wr_pos := ?e\<rparr> else st1"
  have res: "(case x of Inl e \<Rightarrow> (Inl e, st1, c1)
      | Inr _ \<Rightarrow> if xl_data xld = [] then (Inr None, ?st, c1) else finishXLogData lsn_str env (xl_data xld ! 0) ?st c1) = (r, st', c')"
    using assms unfolding handleXLogData_def P(1) option.case P(2) prod.case sum.case B Let_def by (cases x) simp_all
  show ?thesis
  proof (cases "\<exists>u. x = Inr u \<and> xl_data xld \<noteq> []")
    case True
    then have "finishXLogData lsn_str env (xl_data xld ! 0) ?st c1 = (r, st', c')" using res by auto
    from finish_saved [OF this] fr show ?thesis by (auto simp: saved_ok_def)
  next
    case False
    then show ?thesis using res fr by (cases x) (auto simp: saved_ok_def split: if_splits)
  qed
qed

text \<open>
  C15. Whatever is received and whatever fails, a position is acknowledged to Postgres only up to
  the position last saved in the checkpoint store, and a node that is no longer the leader
  acknowledges nothing.
\<close>

theorem ack_never_ahead_of_checkpoint:
  assumes "receive_one marshal lsn_str parseV2 g ok rv st c = (r, st', c')"
  shows "(\<exists>new. cn_acks c' = cn_acks c @ new \<and> (\<forall>a. a \<in> set new \<longrightarrow> a \<le> wr_saved st' \<and> ShouldSendStandby g)) \<and>
    (cn_ckpt c = lsn_str (wr_saved st) \<longrightarrow> cn_ckpt c' = lsn_str (wr_saved st'))"
proof -
  have le: "ackLSN a b \<le> b" for a b by (auto simp: ackLSN_def not_less)
  show ?thesis
  proof (cases rv)
    case (XLog env xld)
    obtain hr st1 c1 where H: "handleXLogData marshal lsn_str parseV2 env xld st c = (hr, st1, c1)" by (metis prod_cases3)
    from handle_saved [OF H] show ?thesis using assms XLog H
      by (cases hr) (auto simp: receive_one_def sendStandbyStatus_def saved_ok_def split: option.splits if_splits)
  qed (use assms le in \<open>auto simp: receive_one_def sendStandbyStatus_def Let_def split: if_splits\<close>)
qed

section \<open>Streamed transactions\<close>

lemma LastIndexByte_at: "ch \<notin> set b \<Longrightarrow> LastIndexByte (a @ ch # b) ch = Some (length a)"
proof -
  assume b: "ch \<notin> set b"
  have "dropWhile (\<lambda>x. x \<noteq> ch) (rev b @ ch # rev a) = ch # rev a"
    using b by (subst dropWhile_append2) auto
  then show ?thesis by (simp add: LastIndexByte_def Let_def)
qed

lemma dec_str_no_colon: "CHR '':'' \<notin> set (dec_str n)"
  using dec_str_digits [of "CHR '':''" n] by (auto simp: is_digit_def)

lemma rewrite_at:
  assumes "CHR '':'' \<notin> set lsn" "ev_idempotency_key ev = b @ CHR '':'' # lsn @ CHR '':'' # dec_str n"
  shows "ev_idempotency_key (rewriteIdempotencyLSN lsn' ev) = b @ CHR '':'' # lsn' @ CHR '':'' # dec_str n"
proof -
  let ?p = "b @ CHR '':'' # lsn"
  have key: "ev_idempotency_key ev = ?p @ CHR '':'' # dec_str n" using assms(2) by simp
  have 1: "LastIndexByte (?p @ CHR '':'' # dec_str n) CHR '':'' = Some (length ?p)" by (rule LastIndexByte_at [OF dec_str_no_colon])
  have 2: "LastIndexByte ?p CHR '':'' = Some (length b)" by (rule LastIndexByte_at [OF assms(1)])
  have t: "take (length ?p) (?p @ CHR '':'' # dec_str n) = ?p" "drop (length ?p) (?p @ CHR '':'' # dec_str n) = CHR '':'' # dec_str n"
    "take (length b + 1) (?p @ CHR '':'' # dec_str n) = b @ '':''" by simp_all
  have "length ?p \<noteq> 0" by simp
  then show ?thesis unfolding rewriteIdempotencyLSN_def Let_def key 1 option.case t(1,2) 2 t(3) by simp
qed

text \<open>
  Stamping the commit position changes exactly the position field of the idempotency key,
  also when the primary key contains colons, and the \<open>lsn\<close> entry of the metadata.
\<close>

theorem stamped_key:
  assumes "ev_idempotency_key ev = idempotency_key src rel pk op lsn n" "CHR '':'' \<notin> set lsn"
  shows "map ev_idempotency_key (stampCommitLSN lsn' [ev]) = [idempotency_key src rel pk op lsn' n] \<and>
    map (\<lambda>e. gm_get (ev_metadata e) ''lsn'') (stampCommitLSN lsn' [ev]) = [Some (JStr lsn')]"
proof -
  have "ev_idempotency_key (rewriteIdempotencyLSN lsn' ev) = idempotency_key src rel pk op lsn' n"
    using rewrite_at [OF assms(2), of ev "src @ '':'' @ rm_namespace rel @ ''.'' @ rm_name rel @ '':'' @ pk @ '':'' @ op" "unat n" lsn'] assms(1)
    by (simp add: idempotency_key_def)
  then show ?thesis by (simp add: stampCommitLSN_def Let_def gomap_simps)
qed

text \<open>The commit and the abort of a streamed transaction, as the buffer sees them.\<close>

lemma handle_control:
  assumes "typed parseV2" "parseV2 (xl_data xld) (pa_inStream (cn_parser c)) = Some m" "Parse marshal lsn_str (xe_ev env) m (cn_parser c) = (Inr None, p)"
  shows "handleXLogData marshal lsn_str parseV2 env xld st c =
    finishXLogData lsn_str env (xl_data xld ! 0)
      (let e = xl_start xld + of_nat (length (xl_data xld)) in if wr_pos st < e then st\<lparr>wr_pos := e\<rparr> else st) (c\<lparr>cn_parser := p\<rparr>)"
proof -
  have "xl_data xld \<noteq> []" using assms(1,2) unfolding typed_def by blast
  then show ?thesis using assms(2,3) by (simp add: handleXLogData_def Let_def)
qed

lemma finish_abort:
  assumes "finishXLogData lsn_str env MessageTypeStreamAbort st c = (Inr r, st', c')"
  shows "wr_buf st' = [] \<and> cn_log c' = cn_log c \<and> \<not> wr_streamed st' \<and> cn_ckpt c' = lsn_str (wr_pos st) \<and>
    cn_parser c' = cn_parser c \<and> cn_has_log c' = cn_has_log c"
  using assms by (auto simp: finishXLogData_def msg_types split: prod.splits sum.splits dest!: checkpoint_ok)

lemma finish_stream_commit:
  assumes "finishXLogData lsn_str env MessageTypeStreamCommit st c = (Inr r, st', c')" "cn_has_log c"
  shows "cn_log c' = cn_log c @ stampCommitLSN (lsn_str (pa_lsn (cn_parser c))) (wr_buf st) \<and> wr_buf st' = []"
  using assms flush_ok [OF _ assms(2)]
  by (fastforce simp: finishXLogData_def msg_types Let_def split: prod.splits sum.splits dest!: checkpoint_ok)

lemma commit_type: "typed parseV2 \<Longrightarrow> parseV2 d s = Some CommitMsg \<Longrightarrow> d ! 0 = MessageTypeCommit"
  and abort_type: "typed parseV2 \<Longrightarrow> parseV2 d s = Some StreamAbortMsg \<Longrightarrow> d ! 0 = MessageTypeStreamAbort"
  and stream_commit_type: "typed parseV2 \<Longrightarrow> parseV2 d s = Some (StreamCommitMsg l) \<Longrightarrow> d ! 0 = MessageTypeStreamCommit"
  unfolding typed_def by blast+

text \<open>
  The rows of a streamed transaction that is still open reach the log with the commit of any
  other transaction, and stay there when the streamed transaction is rolled back afterwards.
\<close>

theorem open_stream_rows_leak:
  assumes "typed parseV2" "cn_has_log c" "\<not> pa_inStream (cn_parser c)"
    and "parseV2 (xl_data commit) False = Some CommitMsg" "parseV2 (xl_data abort) False = Some StreamAbortMsg"
    and "handleXLogData marshal lsn_str parseV2 env1 commit st c = (Inr r1, st1, c1)"
    and "handleXLogData marshal lsn_str parseV2 env2 abort st1 c1 = (Inr r2, st2, c2)"
  shows "cn_log c2 = cn_log c @ wr_buf st"
proof -
  have "finishXLogData lsn_str env1 MessageTypeCommit
      (let e = xl_start commit + of_nat (length (xl_data commit)) in if wr_pos st < e then st\<lparr>wr_pos := e\<rparr> else st)
      (c\<lparr>cn_parser := cn_parser c\<rparr>) = (Inr r1, st1, c1)"
    using assms(6) handle_control [OF assms(1), of commit c CommitMsg marshal lsn_str env1 "cn_parser c" st] assms(3,4) commit_type [OF assms(1,4)] by simp
  from finish_commit [OF this] assms(2) have 1: "cn_log c1 = cn_log c @ wr_buf st" "cn_parser c1 = cn_parser c" by (auto simp: Let_def split: if_splits)
  have "\<exists>st0 p. finishXLogData lsn_str env2 MessageTypeStreamAbort st0 (c1\<lparr>cn_parser := p\<rparr>) = (Inr r2, st2, c2)"
    using assms(7) handle_control [OF assms(1), of abort c1 StreamAbortMsg marshal lsn_str env2 "(cn_parser c1)\<lparr>pa_inStream := False\<rparr>" st1]
      assms(3,5) 1(2) abort_type [OF assms(1,5)] by auto
  with finish_abort 1(1) show ?thesis by fastforce
qed

text \<open>
  The abort of one streamed transaction throws away the rows of every other open one: when
  that other transaction commits afterwards, the log has nothing new, though both steps save a
  checkpoint and acknowledge.
\<close>

theorem abort_discards_other_streams:
  assumes "typed parseV2" "cn_has_log c" "\<not> pa_inStream (cn_parser c)"
    and "parseV2 (xl_data abort) False = Some StreamAbortMsg" "parseV2 (xl_data commit) False = Some (StreamCommitMsg l)"
    and "handleXLogData marshal lsn_str parseV2 env1 abort st c = (Inr r1, st1, c1)"
    and "handleXLogData marshal lsn_str parseV2 env2 commit st1 c1 = (Inr r2, st2, c2)"
  shows "cn_log c2 = cn_log c \<and> wr_buf st2 = []"
proof -
  let ?p = "(cn_parser c)\<lparr>pa_inStream := False\<rparr>"
  have "\<exists>st0. finishXLogData lsn_str env1 MessageTypeStreamAbort st0 (c\<lparr>cn_parser := ?p\<rparr>) = (Inr r1, st1, c1)"
    using assms(6) handle_control [OF assms(1), of abort c StreamAbortMsg marshal lsn_str env1 ?p st] assms(3,4) abort_type [OF assms(1,4)] by auto
  with finish_abort have 1: "cn_log c1 = cn_log c" "wr_buf st1 = []" "cn_parser c1 = ?p" "cn_has_log c1" using assms(2) by fastforce+
  let ?q = "?p\<lparr>pa_lsn := l, pa_inStream := False\<rparr>"
  let ?st = "let e = xl_start commit + of_nat (length (xl_data commit)) in if wr_pos st1 < e then st1\<lparr>wr_pos := e\<rparr> else st1"
  have F: "finishXLogData lsn_str env2 MessageTypeStreamCommit ?st (c1\<lparr>cn_parser := ?q\<rparr>) = (Inr r2, st2, c2)"
    using assms(7) handle_control [OF assms(1), of commit c1 "StreamCommitMsg l" marshal lsn_str env2 ?q st1] assms(5) 1(3)
      stream_commit_type [OF assms(1,5)] by simp
  have "wr_buf ?st = []" using 1(2) by (simp add: Let_def)
  with finish_stream_commit [OF F] 1 show ?thesis by (simp add: stampCommitLSN_def)
qed

text \<open>
  The saved position can lie beyond the end of the commit: it is the largest start of a
  message plus the length of its payload, and a long row message reaches past a commit that
  follows it closely.
\<close>

theorem checkpoint_overtakes_commit:
  assumes "typed parseV2" "cn_has_log c" "\<not> pa_inStream (cn_parser c)" "parseV2 (xl_data commit) False = Some CommitMsg"
    and "xl_start commit + of_nat (length (xl_data commit)) \<le> wr_pos st"
    and "handleXLogData marshal lsn_str parseV2 env commit st c = (Inr r, st', c')"
  shows "r = Some (wr_pos st) \<and> cn_ckpt c' = lsn_str (wr_pos st)"
proof -
  have "finishXLogData lsn_str env MessageTypeCommit
      (let e = xl_start commit + of_nat (length (xl_data commit)) in if wr_pos st < e then st\<lparr>wr_pos := e\<rparr> else st)
      (c\<lparr>cn_parser := cn_parser c\<rparr>) = (Inr r, st', c')"
    using assms(6) handle_control [OF assms(1), of commit c CommitMsg marshal lsn_str env "cn_parser c" st] assms(3,4) commit_type [OF assms(1,4)] by simp
  from finish_commit [OF this] assms(2,5) show ?thesis by (auto simp: Let_def not_less [symmetric])
qed

section \<open>A concrete session\<close>

text \<open>
  A decoder for one-byte messages: begin \<open>B\<close>, commit \<open>C\<close>, an insert \<open>I\<close>, stream start \<open>S\<close>, stop \<open>E\<close>,
  commit \<open>c\<close> and abort \<open>A\<close>. The bytes after the first are the padding of a long payload.
\<close>

fun ex_decode_wal :: "bytes \<Rightarrow> bool \<Rightarrow> wal_msg option" where
  "ex_decode_wal (b # _) s =
     (if b = 0x42 then Some (BeginMsg 9)
      else if b = 0x43 then Some CommitMsg
      else if b = 0x49 then Some (InsertMsg 7 (Some [ColText ''1'', ColText ''x'']))
      else if b = 0x53 then Some (StreamStartMsg True)
      else if b = 0x45 then Some StreamStopMsg
      else if b = 0x63 then Some (StreamCommitMsg 30)
      else if b = 0x41 then Some StreamAbortMsg
      else None)"
| "ex_decode_wal [] s = None"

lemma ex_typed: "typed ex_decode_wal"
  unfolding typed_def
proof (intro allI impI)
  fix d s m assume "ex_decode_wal d s = Some m"
  then show "d \<noteq> [] \<and> (d ! 0 = MessageTypeCommit \<longleftrightarrow> m = CommitMsg) \<and> (d ! 0 = MessageTypeStreamStart \<longleftrightarrow> (\<exists>f. m = StreamStartMsg f)) \<and>
    (d ! 0 = MessageTypeStreamAbort \<longleftrightarrow> m = StreamAbortMsg) \<and> (d ! 0 = MessageTypeStreamCommit \<longleftrightarrow> (\<exists>l. m = StreamCommitMsg l))"
    by (cases d) (auto simp: msg_types split: if_splits)
qed

definition ex_xenv :: xlog_env where
  "ex_xenv = \<lparr>xe_ev = (''id'', 0), xe_append = AppendOk, xe_append2 = AppendOk, xe_save = True\<rparr>"

definition ex_xl :: "u64 \<Rightarrow> byte \<Rightarrow> xlog_data" where
  "ex_xl start b = \<lparr>xl_start = start, xl_data = [b]\<rparr>"

definition ex_conn :: connector where
  "ex_conn = (NewWithEventLog ''pg1'' True)\<lparr>cn_parser := ex_parser\<rparr>"

definition ex_got :: "u64 \<Rightarrow> byte \<Rightarrow> (u64 \<times> bool) option \<times> bool \<times> recv" where
  "ex_got start b = (None, True, XLog ex_xenv (ex_xl start b))"


theorem ack_never_ahead_of_checkpoint_witness:
  "\<exists>r st' c' new. receive_one ex_json ex_lsn ex_decode_wal None True (Keepalive 50 True) (session_state 20) ex_conn = (r, st', c') \<and>
     cn_acks c' = cn_acks ex_conn @ new \<and> new = [20]"
proof -
  obtain r st' c' where R: "receive_one ex_json ex_lsn ex_decode_wal None True (Keepalive 50 True) (session_state 20) ex_conn = (r, st', c')"
    by (metis prod_cases3)
  obtain new where n: "cn_acks c' = cn_acks ex_conn @ new" using ack_never_ahead_of_checkpoint [OF R] by blast
  have "cn_acks (snd (snd (receive_one ex_json ex_lsn ex_decode_wal None True (Keepalive 50 True) (session_state 20) ex_conn))) = [20]" by code_simp
  moreover have "cn_acks ex_conn = []" by (simp add: ex_conn_def NewWithEventLog_def)
  ultimately have "new = [20]" using R n by simp
  with R n show ?thesis by blast
qed

theorem stamped_key_witness:
  "\<exists>ev. ev_idempotency_key ev = idempotency_key ''pg1'' ex_users ''{a:b}'' OpInsert ''0/0'' 3 \<and>
     map ev_idempotency_key (stampCommitLSN ''0/30'' [ev]) = [idempotency_key ''pg1'' ex_users ''{a:b}'' OpInsert ''0/30'' 3]"
proof -
  obtain ev :: change_event where "ev_idempotency_key ev = idempotency_key ''pg1'' ex_users ''{a:b}'' OpInsert ''0/0'' 3"
    by (metis change_event.select_convs(2))
  with stamped_key [OF this, of "''0/30''"] show ?thesis by auto
qed

definition ex_open :: wal_state where
  "ex_open = fst (snd (receiveLoop ex_json ex_lsn ex_decode_wal [ex_got 1 0x53, ex_got 2 0x49, ex_got 3 0x45] (session_state 0) ex_conn))"

definition ex_open_conn :: connector where
  "ex_open_conn = snd (snd (receiveLoop ex_json ex_lsn ex_decode_wal [ex_got 1 0x53, ex_got 2 0x49, ex_got 3 0x45] (session_state 0) ex_conn))"

lemma ex_open_state: "cn_has_log ex_open_conn" "\<not> pa_inStream (cn_parser ex_open_conn)" "length (wr_buf ex_open) = 1" "cn_log ex_open_conn = []"
  by code_simp+

theorem open_stream_rows_leak_witness:
  "\<exists>st1 c1 st2 c2 r1 r2.
     handleXLogData ex_json ex_lsn ex_decode_wal ex_xenv (ex_xl 4 0x43) ex_open ex_open_conn = (Inr r1, st1, c1) \<and>
     handleXLogData ex_json ex_lsn ex_decode_wal ex_xenv (ex_xl 5 0x41) st1 c1 = (Inr r2, st2, c2) \<and> length (cn_log c2) = 1"
proof -
  obtain x1 st1 c1 where H1: "handleXLogData ex_json ex_lsn ex_decode_wal ex_xenv (ex_xl 4 0x43) ex_open ex_open_conn = (x1, st1, c1)" by (metis prod_cases3)
  obtain x2 st2 c2 where H2: "handleXLogData ex_json ex_lsn ex_decode_wal ex_xenv (ex_xl 5 0x41) st1 c1 = (x2, st2, c2)" by (metis prod_cases3)
  have "\<not> isl (fst (handleXLogData ex_json ex_lsn ex_decode_wal ex_xenv (ex_xl 4 0x43) ex_open ex_open_conn))" by code_simp
  then obtain r1 where r1: "x1 = Inr r1" using H1 by (cases x1) auto
  have "\<not> isl (fst (case handleXLogData ex_json ex_lsn ex_decode_wal ex_xenv (ex_xl 4 0x43) ex_open ex_open_conn of (_, st1, c1) \<Rightarrow>
    handleXLogData ex_json ex_lsn ex_decode_wal ex_xenv (ex_xl 5 0x41) st1 c1))" by code_simp
  then obtain r2 where r2: "x2 = Inr r2" using H1 H2 by (cases x2) auto
  have "cn_log c2 = cn_log ex_open_conn @ wr_buf ex_open"
    by (rule open_stream_rows_leak [OF ex_typed ex_open_state(1,2) _ _ H1 [unfolded r1] H2 [unfolded r2]]) (simp_all add: ex_xl_def)
  then have "length (cn_log c2) = 1" using ex_open_state(3,4) by simp
  with H1 H2 r1 r2 show ?thesis by blast
qed

theorem abort_discards_other_streams_witness:
  "\<exists>st1 c1 st2 c2 r1 r2. length (wr_buf ex_open) = 1 \<and>
     handleXLogData ex_json ex_lsn ex_decode_wal ex_xenv (ex_xl 4 0x41) ex_open ex_open_conn = (Inr r1, st1, c1) \<and>
     handleXLogData ex_json ex_lsn ex_decode_wal ex_xenv (ex_xl 5 0x63) st1 c1 = (Inr r2, st2, c2) \<and> cn_log c2 = []"
proof -
  obtain x1 st1 c1 where H1: "handleXLogData ex_json ex_lsn ex_decode_wal ex_xenv (ex_xl 4 0x41) ex_open ex_open_conn = (x1, st1, c1)" by (metis prod_cases3)
  obtain x2 st2 c2 where H2: "handleXLogData ex_json ex_lsn ex_decode_wal ex_xenv (ex_xl 5 0x63) st1 c1 = (x2, st2, c2)" by (metis prod_cases3)
  have "\<not> isl (fst (handleXLogData ex_json ex_lsn ex_decode_wal ex_xenv (ex_xl 4 0x41) ex_open ex_open_conn))" by code_simp
  then obtain r1 where r1: "x1 = Inr r1" using H1 by (cases x1) auto
  have "\<not> isl (fst (case handleXLogData ex_json ex_lsn ex_decode_wal ex_xenv (ex_xl 4 0x41) ex_open ex_open_conn of (_, st1, c1) \<Rightarrow>
    handleXLogData ex_json ex_lsn ex_decode_wal ex_xenv (ex_xl 5 0x63) st1 c1))" by code_simp
  then obtain r2 where r2: "x2 = Inr r2" using H1 H2 by (cases x2) auto
  have "cn_log c2 = cn_log ex_open_conn \<and> wr_buf st2 = []"
    by (rule abort_discards_other_streams [OF ex_typed ex_open_state(1,2) _ _ H1 [unfolded r1] H2 [unfolded r2]]) (simp_all add: ex_xl_def)
  with H1 H2 r1 r2 ex_open_state(3,4) show ?thesis by auto
qed

theorem checkpoint_overtakes_commit_witness:
  "\<exists>r st' c'. handleXLogData ex_json ex_lsn ex_decode_wal ex_xenv (ex_xl 10 0x43) ((session_state 0)\<lparr>wr_pos := 100\<rparr>) ex_conn = (Inr r, st', c') \<and>
     r = Some 100"
proof -
  let ?st = "(session_state 0)\<lparr>wr_pos := 100\<rparr>"
  obtain x st' c' where H: "handleXLogData ex_json ex_lsn ex_decode_wal ex_xenv (ex_xl 10 0x43) ?st ex_conn = (x, st', c')" by (metis prod_cases3)
  have "\<not> isl (fst (handleXLogData ex_json ex_lsn ex_decode_wal ex_xenv (ex_xl 10 0x43) ?st ex_conn))" by code_simp
  then obtain r where r: "x = Inr r" using H by (cases x) auto
  have "r = Some (wr_pos ?st) \<and> cn_ckpt c' = ex_lsn (wr_pos ?st)"
    by (rule checkpoint_overtakes_commit [OF ex_typed _ _ _ _ H [unfolded r]])
      (simp_all add: ex_conn_def NewWithEventLog_def ex_parser_def New_def ex_xl_def)
  with H r show ?thesis by simp
qed

end
