(* ===== verification/Watermark.thy ===== *)
theory Watermark
  imports Eventlog_Store
begin

text \<open>
  The watermark checker of the backfill (\<open>internal/backfill/watermark.go\<close>): a snapshot row is
  dropped when the event log already has a newer change of the same row. Two ways to find out: a
  scan of the row's partition, and an in-memory index that is built by one scan of all partitions
  and kept current by the log's append observer. \<open>unmarshal\<close> decodes a stored event,
  \<open>parse_lsn\<close> is \<open>pglogrepl.ParseLSN\<close>, and \<open>read\<close> is \<open>EventLog.ReadPartition\<close> with the page size as limit.
\<close>

section \<open>State\<close>

definition defaultMaxIndexKeys :: nat where
  "defaultMaxIndexKeys = 2000000"

definition watermarkPageSize :: nat where
  "watermarkPageSize = 10000"

text \<open>\<open>ti_id\<close> is the identity of the allocated index, which the code compares as a pointer.\<close>

record table_index =
  ti_id :: nat
  ti_snapshotLSN :: u64
  ti_keys :: "(string, u64) gomap"
  ti_overCap :: bool

record checker =
  wc_numPartitions :: u32
  wc_maxIndexKeys :: nat
  wc_tables :: "(string, table_index) gomap"
  wc_fresh :: nat

definition NewWatermarkChecker :: "u32 \<Rightarrow> checker" where
  "NewWatermarkChecker numPartitions =
     \<lparr>wc_numPartitions = numPartitions, wc_maxIndexKeys = defaultMaxIndexKeys, wc_tables = [], wc_fresh = 0\<rparr>"

definition SetMaxIndexKeys :: "int \<Rightarrow> checker \<Rightarrow> checker" where
  "SetMaxIndexKeys n w = (if n \<le> 0 then w else w\<lparr>wc_maxIndexKeys := nat n\<rparr>)"

section \<open>Merging events into an index\<close>

definition lsnFromMetadata :: "(string \<Rightarrow> u64 option) \<Rightarrow> change_event \<Rightarrow> u64 option" where
  "lsnFromMetadata parse_lsn ev =
     (case gm_get (ev_metadata ev) ''lsn'' of Some (JStr s) \<Rightarrow> parse_lsn s | _ \<Rightarrow> None)"

definition mergeEventLocked :: "(string \<Rightarrow> u64 option) \<Rightarrow> nat \<Rightarrow> change_event \<Rightarrow> table_index \<Rightarrow> table_index" where
  "mergeEventLocked parse_lsn maxKeys ev ti =
     (case lsnFromMetadata parse_lsn ev of
        None \<Rightarrow> ti
      | Some lsn \<Rightarrow>
          if lsn \<le> ti_snapshotLSN ti then ti
          else
            (let key = raw_str (ev_key ev) in
             case gm_get (ti_keys ti) key of
               None \<Rightarrow>
                 if maxKeys \<le> length (ti_keys ti) then ti\<lparr>ti_overCap := True, ti_keys := []\<rparr>
                 else ti\<lparr>ti_keys := gm_set key lsn (ti_keys ti)\<rparr>
             | Some existing \<Rightarrow>
                 if existing < lsn then ti\<lparr>ti_keys := gm_set key lsn (ti_keys ti)\<rparr> else ti))"

definition set_index :: "string \<Rightarrow> table_index \<Rightarrow> checker \<Rightarrow> checker" where
  "set_index table ti w = w\<lparr>wc_tables := gm_set table ti (wc_tables w)\<rparr>"

definition observe_one :: "(string \<Rightarrow> u64 option) \<Rightarrow> change_event \<Rightarrow> checker \<Rightarrow> checker" where
  "observe_one parse_lsn ev w =
     (case gm_get (wc_tables w) (ev_table ev) of
        None \<Rightarrow> w
      | Some ti \<Rightarrow>
          if ti_overCap ti then w
          else set_index (ev_table ev) (mergeEventLocked parse_lsn (wc_maxIndexKeys w) ev ti) w)"

definition ObserveAppend :: "(string \<Rightarrow> u64 option) \<Rightarrow> change_event list \<Rightarrow> checker \<Rightarrow> checker" where
  "ObserveAppend parse_lsn evs w = fold (observe_one parse_lsn) evs w"

text \<open>The event of an entry, \<^term>\<open>None\<close> when it does not decode.\<close>

definition event_of :: "(string \<Rightarrow> change_event option) \<Rightarrow> log_entry \<Rightarrow> change_event option" where
  "event_of unmarshal e = (case MaterializeEvent unmarshal e of Inl _ \<Rightarrow> None | Inr e' \<Rightarrow> le_event e')"

fun merge_loop ::
  "(string \<Rightarrow> change_event option) \<Rightarrow> (string \<Rightarrow> u64 option) \<Rightarrow> nat \<Rightarrow> string \<Rightarrow> log_entry list \<Rightarrow> table_index \<Rightarrow> table_index" where
  "merge_loop unmarshal parse_lsn maxKeys table [] ti = ti"
| "merge_loop unmarshal parse_lsn maxKeys table (e # es) ti =
     (case event_of unmarshal e of
        None \<Rightarrow> merge_loop unmarshal parse_lsn maxKeys table es ti
      | Some ev \<Rightarrow>
          if ev_table ev \<noteq> table then merge_loop unmarshal parse_lsn maxKeys table es ti
          else
            (let ti = mergeEventLocked parse_lsn maxKeys ev ti in
             if ti_overCap ti then ti else merge_loop unmarshal parse_lsn maxKeys table es ti))"

definition mergeEntries ::
  "(string \<Rightarrow> change_event option) \<Rightarrow> (string \<Rightarrow> u64 option) \<Rightarrow> string \<Rightarrow> nat \<Rightarrow> log_entry list \<Rightarrow> checker \<Rightarrow> checker" where
  "mergeEntries unmarshal parse_lsn table tid entries w =
     (if entries = [] then w
      else case gm_get (wc_tables w) table of
        None \<Rightarrow> w
      | Some ti \<Rightarrow>
          if ti_id ti \<noteq> tid \<or> ti_overCap ti then w
          else set_index table (merge_loop unmarshal parse_lsn (wc_maxIndexKeys w) table entries ti) w)"

section \<open>StartTable and FinishTable\<close>

definition register_index :: "string \<Rightarrow> u64 \<Rightarrow> checker \<Rightarrow> checker" where
  "register_index table snapshotLSN w =
     set_index table \<lparr>ti_id = wc_fresh w, ti_snapshotLSN = snapshotLSN, ti_keys = [], ti_overCap = False\<rparr>
       (w\<lparr>wc_fresh := wc_fresh w + 1\<rparr>)"

definition discard_index :: "string \<Rightarrow> nat \<Rightarrow> checker \<Rightarrow> checker" where
  "discard_index table tid w =
     (case gm_get (wc_tables w) table of
        None \<Rightarrow> w
      | Some ti \<Rightarrow> if ti_id ti = tid then w\<lparr>wc_tables := gm_del table (wc_tables w)\<rparr> else w)"

text \<open>\<open>ti.overCap\<close> of the index being built; an index that was replaced is no longer reachable.\<close>

definition over_cap :: "string \<Rightarrow> nat \<Rightarrow> checker \<Rightarrow> bool" where
  "over_cap table tid w =
     (case gm_get (wc_tables w) table of None \<Rightarrow> False | Some ti \<Rightarrow> ti_id ti = tid \<and> ti_overCap ti)"

text \<open>What the scan does after a page: stop at the cap, go on in the partition, or go to the next one.\<close>

datatype scan_next = ScanStop | ScanFrom u64 | ScanPartition

definition after_page :: "string \<Rightarrow> nat \<Rightarrow> log_entry list \<Rightarrow> checker \<Rightarrow> scan_next" where
  "after_page table tid entries w =
     (if over_cap table tid w then ScanStop
      else if length entries < watermarkPageSize then ScanPartition
      else ScanFrom (le_seq (last entries) + 1))"

text \<open>
  The scan of one partition without interference; \<open>fuel\<close> bounds the number of pages. The outer
  option is \<^term>\<open>None\<close> when the fuel ran out, the inner one says whether every read succeeded.
\<close>

fun scan_partition ::
  "nat \<Rightarrow> (string \<Rightarrow> change_event option) \<Rightarrow> (string \<Rightarrow> u64 option) \<Rightarrow> (u32 \<Rightarrow> u64 \<Rightarrow> log_entry list option) \<Rightarrow> string \<Rightarrow> nat \<Rightarrow>
     u32 \<Rightarrow> u64 \<Rightarrow> checker \<Rightarrow> (bool \<times> checker) option" where
  "scan_partition 0 unmarshal parse_lsn read table tid p fromSeq w = None"
| "scan_partition (Suc fuel) unmarshal parse_lsn read table tid p fromSeq w =
     (case read p fromSeq of
        None \<Rightarrow> Some (False, w)
      | Some entries \<Rightarrow>
          (let w = mergeEntries unmarshal parse_lsn table tid entries w in
           case after_page table tid entries w of
             ScanStop \<Rightarrow> Some (True, w)
           | ScanPartition \<Rightarrow> Some (True, w)
           | ScanFrom s \<Rightarrow> scan_partition fuel unmarshal parse_lsn read table tid p s w))"

fun scan_all ::
  "nat \<Rightarrow> (string \<Rightarrow> change_event option) \<Rightarrow> (string \<Rightarrow> u64 option) \<Rightarrow> (u32 \<Rightarrow> u64 \<Rightarrow> log_entry list option) \<Rightarrow> string \<Rightarrow> nat \<Rightarrow>
     u32 list \<Rightarrow> checker \<Rightarrow> (bool \<times> checker) option" where
  "scan_all fuel unmarshal parse_lsn read table tid [] w = Some (True, w)"
| "scan_all fuel unmarshal parse_lsn read table tid (p # ps) w =
     (case scan_partition fuel unmarshal parse_lsn read table tid p 0 w of
        None \<Rightarrow> None
      | Some (False, w) \<Rightarrow> Some (False, w)
      | Some (True, w) \<Rightarrow>
          if over_cap table tid w then Some (True, w) else scan_all fuel unmarshal parse_lsn read table tid ps w)"

definition StartTable ::
  "nat \<Rightarrow> (string \<Rightarrow> change_event option) \<Rightarrow> (string \<Rightarrow> u64 option) \<Rightarrow> (u32 \<Rightarrow> u64 \<Rightarrow> log_entry list option) \<Rightarrow> string \<Rightarrow> u64 \<Rightarrow>
     checker \<Rightarrow> (bool \<times> checker) option" where
  "StartTable fuel unmarshal parse_lsn read table snapshotLSN w =
     (let tid = wc_fresh w; w = register_index table snapshotLSN w in
      case scan_all fuel unmarshal parse_lsn read table tid (map word_of_nat [0..<unat (wc_numPartitions w)]) w of
        None \<Rightarrow> None
      | Some (True, w) \<Rightarrow> Some (True, w)
      | Some (False, w) \<Rightarrow> Some (False, discard_index table tid w))"

definition FinishTable :: "string \<Rightarrow> checker \<Rightarrow> checker" where
  "FinishTable table w = w\<lparr>wc_tables := gm_del table (wc_tables w)\<rparr>"

section \<open>ShouldEmit\<close>

text \<open>An event that supersedes the snapshot row of \<open>pk\<close>.\<close>

definition supersedes :: "(string \<Rightarrow> u64 option) \<Rightarrow> string \<Rightarrow> string \<Rightarrow> u64 \<Rightarrow> change_event \<Rightarrow> bool" where
  "supersedes parse_lsn table pk snapshotLSN ev \<longleftrightarrow>
     ev_table ev = table \<and> raw_str (ev_key ev) = pk \<and>
     (case lsnFromMetadata parse_lsn ev of None \<Rightarrow> False | Some lsn \<Rightarrow> snapshotLSN < lsn)"

fun emit_pages ::
  "nat \<Rightarrow> (string \<Rightarrow> change_event option) \<Rightarrow> (string \<Rightarrow> u64 option) \<Rightarrow> (u32 \<Rightarrow> u64 \<Rightarrow> log_entry list option) \<Rightarrow> string \<Rightarrow> string \<Rightarrow> u64 \<Rightarrow>
     u32 \<Rightarrow> u64 \<Rightarrow> bool option option" where
  "emit_pages 0 unmarshal parse_lsn read table pk snapshotLSN p fromSeq = None"
| "emit_pages (Suc fuel) unmarshal parse_lsn read table pk snapshotLSN p fromSeq =
     (case read p fromSeq of
        None \<Rightarrow> Some None
      | Some entries \<Rightarrow>
          if list_ex (\<lambda>e. case event_of unmarshal e of None \<Rightarrow> False | Some ev \<Rightarrow> supersedes parse_lsn table pk snapshotLSN ev) entries
          then Some (Some False)
          else if length entries < watermarkPageSize then Some (Some True)
          else emit_pages fuel unmarshal parse_lsn read table pk snapshotLSN p (le_seq (last entries) + 1))"

text \<open>
  The result is \<^term>\<open>Panic\<close> (no partitions), \<^term>\<open>Ret None\<close> (fuel), \<^term>\<open>Ret (Some None)\<close> (read error)
  or the answer.
\<close>

definition shouldEmitScan ::
  "nat \<Rightarrow> (string \<Rightarrow> change_event option) \<Rightarrow> (string \<Rightarrow> u64 option) \<Rightarrow> (u32 \<Rightarrow> u64 \<Rightarrow> log_entry list option) \<Rightarrow> u32 \<Rightarrow>
     string \<Rightarrow> string \<Rightarrow> u64 \<Rightarrow> bool option option go" where
  "shouldEmitScan fuel unmarshal parse_lsn read num table pk snapshotLSN =
     (case PartitionOf (str_bytes pk) num of
        Panic \<Rightarrow> Panic
      | Ret p \<Rightarrow> Ret (emit_pages fuel unmarshal parse_lsn read table pk snapshotLSN p 0))"

definition ShouldEmit ::
  "nat \<Rightarrow> (string \<Rightarrow> change_event option) \<Rightarrow> (string \<Rightarrow> u64 option) \<Rightarrow> (u32 \<Rightarrow> u64 \<Rightarrow> log_entry list option) \<Rightarrow> checker \<Rightarrow>
     string \<Rightarrow> string \<Rightarrow> u64 \<Rightarrow> bool option option go" where
  "ShouldEmit fuel unmarshal parse_lsn read w table pk snapshotLSN =
     (case gm_get (wc_tables w) table of
        Some ti \<Rightarrow>
          if \<not> ti_overCap ti \<and> ti_snapshotLSN ti = snapshotLSN
          then Ret (Some (Some (gm_get (ti_keys ti) pk = None)))
          else shouldEmitScan fuel unmarshal parse_lsn read (wc_numPartitions w) table pk snapshotLSN
      | None \<Rightarrow> shouldEmitScan fuel unmarshal parse_lsn read (wc_numPartitions w) table pk snapshotLSN)"

end
