(* ===== verification/Watermark_Scan.thy ===== *)
theory Watermark_Scan
  imports Watermark
begin

text \<open>
  What the checker relies on from the log it reads, as a locale; the Badger log provides it. From
  the laws: the scan of a partition answers, with enough fuel always, and its answer is exactly
  whether a superseding event is stored there.
\<close>

section \<open>The interface\<close>

text \<open>The decoded event under a sequence number.\<close>

definition stored_event :: "(u32 \<Rightarrow> u64 \<Rightarrow> string option) \<Rightarrow> (string \<Rightarrow> change_event option) \<Rightarrow> u32 \<Rightarrow> u64 \<Rightarrow> change_event option" where
  "stored_event stored unmarshal p i =
     (case stored p i of None \<Rightarrow> None | Some r \<Rightarrow> if r = [] then None else unmarshal r)"

text \<open>
  \<open>stored p s\<close>: the bytes under sequence number \<open>s\<close> of partition \<open>p\<close>. An entry that is read has its event
  decoded already, or not yet. No number is the largest 64-bit one.
\<close>

locale paged_log =
  fixes read :: "u32 \<Rightarrow> u64 \<Rightarrow> log_entry list option"
    and stored :: "u32 \<Rightarrow> u64 \<Rightarrow> string option"
    and unmarshal :: "string \<Rightarrow> change_event option"
  assumes read_sorted: "read p s = Some es \<Longrightarrow> sorted_wrt (<) (map le_seq es)"
    and read_sound: "read p s = Some es \<Longrightarrow> e \<in> set es \<Longrightarrow>
      s \<le> le_seq e \<and> stored p (le_seq e) = Some (le_raw e) \<and> le_event e \<in> {None, stored_event stored unmarshal p (le_seq e)}"
    and read_complete: "read p s = Some es \<Longrightarrow> s \<le> i \<Longrightarrow> stored p i \<noteq> None \<Longrightarrow>
      (\<exists>e \<in> set es. i < le_seq e) \<or> length es < watermarkPageSize \<Longrightarrow> i \<in> le_seq ` set es"
    and seq_bound: "stored p i \<noteq> None \<Longrightarrow> i \<noteq> - 1"
begin

lemma event_of_read:
  "read p s = Some es \<Longrightarrow> e \<in> set es \<Longrightarrow> event_of unmarshal e = stored_event stored unmarshal p (le_seq e)"
  using read_sound [of p s es e]
  by (auto simp: event_of_def MaterializeEvent_def stored_event_def split: option.splits)

lemma page_last:
  assumes "read p s = Some es" "\<not> length es < watermarkPageSize"
  shows "es \<noteq> []" "last es \<in> set es" "s \<le> le_seq (last es)" "le_seq (last es) \<noteq> - 1"
    "\<And>e. e \<in> set es \<Longrightarrow> le_seq e \<le> le_seq (last es)"
    "\<And>i. s \<le> i \<Longrightarrow> i \<le> le_seq (last es) \<Longrightarrow> stored p i \<noteq> None \<Longrightarrow> i \<in> le_seq ` set es"
proof -
  show ne: "es \<noteq> []" using assms(2) by (auto simp: watermarkPageSize_def)
  then show l: "last es \<in> set es" by simp
  note S = read_sound [OF assms(1) l]
  show "s \<le> le_seq (last es)" using S by simp
  show "le_seq (last es) \<noteq> - 1" by (rule seq_bound [of p]) (use S in simp)
  show le: "le_seq e \<le> le_seq (last es)" if "e \<in> set es" for e
  proof -
    obtain xs x where es: "es = xs @ [x]" using ne by (metis rev_exhaust)
    show ?thesis using read_sorted [OF assms(1)] that by (auto simp: es sorted_wrt_append)
  qed
  show "i \<in> le_seq ` set es" if "s \<le> i" "i \<le> le_seq (last es)" "stored p i \<noteq> None" for i
  proof (cases "i = le_seq (last es)")
    case True
    then show ?thesis using l by blast
  next
    case False
    then have "i < le_seq (last es)" using that(2) by simp
    then show ?thesis using read_complete [OF assms(1) that(1,3)] l by blast
  qed
qed

lemma emit_pages_correct:
  assumes "emit_pages fuel unmarshal parse_lsn read table pk snap p s = Some (Some b)"
  shows "b \<longleftrightarrow> \<not> (\<exists>i ev. s \<le> i \<and> stored_event stored unmarshal p i = Some ev \<and> supersedes parse_lsn table pk snap ev)"
  using assms
proof (induction fuel arbitrary: s)
  case (Suc fuel)
  let ?hit = "\<lambda>e. case event_of unmarshal e of None \<Rightarrow> False | Some ev \<Rightarrow> supersedes parse_lsn table pk snap ev"
  obtain es where R: "read p s = Some es" using Suc.prems by (auto split: option.splits)
  have ev: "\<And>e. e \<in> set es \<Longrightarrow> event_of unmarshal e = stored_event stored unmarshal p (le_seq e)" by (rule event_of_read [OF R])
  have stored: "stored_event stored unmarshal p i = Some ev \<Longrightarrow> stored p i \<noteq> None" for i ev by (auto simp: stored_event_def split: option.splits)
  show ?case
  proof (cases "list_ex ?hit es")
    case True
    then obtain e where e: "e \<in> set es" "?hit e" by (auto simp: list_ex_iff)
    then obtain x where "stored_event stored unmarshal p (le_seq e) = Some x" "supersedes parse_lsn table pk snap x"
      using ev [OF e(1)] by (auto split: option.splits)
    moreover have "\<not> b" using Suc.prems R True by simp
    ultimately show ?thesis using read_sound [OF R e(1)] by blast
  next
    case no: False
    have none: "\<not> supersedes parse_lsn table pk snap x" if "i \<in> le_seq ` set es" "stored_event stored unmarshal p i = Some x" for i x
      using no that ev by (auto simp: list_ex_iff split: option.splits)
    show ?thesis
    proof (cases "length es < watermarkPageSize")
      case True
      then have "b" using Suc.prems R no by simp
      moreover have "i \<in> le_seq ` set es" if "s \<le> i" "stored_event stored unmarshal p i = Some x" for i x
        using read_complete [OF R that(1) stored [OF that(2)]] True by blast
      ultimately show ?thesis using none by blast
    next
      case False
      note L = page_last [OF R False]
      have IH: "b \<longleftrightarrow> \<not> (\<exists>i ev. le_seq (last es) + 1 \<le> i \<and> stored_event stored unmarshal p i = Some ev \<and> supersedes parse_lsn table pk snap ev)"
        by (rule Suc.IH) (use Suc.prems R no False in simp)
      have up: "le_seq (last es) + 1 \<le> i \<longleftrightarrow> le_seq (last es) < i" for i by (rule word_succ_le_iff [OF L(4)])
      have low: "\<not> supersedes parse_lsn table pk snap x"
        if "s \<le> i" "\<not> le_seq (last es) < i" "stored_event stored unmarshal p i = Some x" for i x
        using none [OF L(6) that(3)] that stored [OF that(3)] by (simp add: not_less)
      have "le_seq (last es) < i \<Longrightarrow> s \<le> i" for i using L(3) by simp
      then show ?thesis unfolding IH up using low by blast
    qed
  qed
qed simp

text \<open>As long as reads succeed, one page more than there are stored numbers is fuel enough.\<close>

lemma emit_pages_answers:
  assumes "\<And>s. read p s \<noteq> None" "finite {i. stored p i \<noteq> None}" "card {i. stored p i \<noteq> None \<and> s \<le> i} < fuel"
  shows "\<exists>b. emit_pages fuel unmarshal parse_lsn read table pk snap p s = Some (Some b)"
  using assms(3)
proof (induction fuel arbitrary: s)
  case (Suc fuel)
  obtain es where R: "read p s = Some es" using assms(1) by blast
  show ?case
  proof (cases "length es < watermarkPageSize")
    case False
    note L = page_last [OF R False]
    have gt: "le_seq (last es) + 1 \<le> i \<Longrightarrow> s \<le> i \<and> i \<noteq> le_seq (last es)" for i
      using L(3) word_succ_le_iff [OF L(4), of i] by auto
    have "stored p (le_seq (last es)) \<noteq> None" using read_sound [OF R L(2)] by simp
    then have "{i. stored p i \<noteq> None \<and> le_seq (last es) + 1 \<le> i} \<subset> {i. stored p i \<noteq> None \<and> s \<le> i}"
      using gt L(3) by (auto simp: psubset_eq)
    from psubset_card_mono [OF _ this] have "card {i. stored p i \<noteq> None \<and> le_seq (last es) + 1 \<le> i} < fuel"
      using Suc.prems assms(2) by (simp add: finite_subset [OF _ assms(2)])
    from Suc.IH [OF this] show ?thesis using R False by auto
  qed (auto simp: R)
qed simp

end

end
