(* ===== verification/Watermark_Index.thy ===== *)
theory Watermark_Index
  imports Watermark_Scan
begin

text \<open>
  The index against the scan, with appends running at the same time. An append commits first and
  calls the observer later; the build of an index reads page after page, and events commit, are
  observed, and other tables start and finish between any two steps. The invariant: an event that
  matters is in the index, or its observer call is still to come, or the scan has still to reach it.
\<close>

section \<open>The machine\<close>

type_synonym scan_state = "u32 list \<times> u64 \<times> log_entry list option"

record wm =
  wm_log :: "u32 \<Rightarrow> u64 \<Rightarrow> change_event option"
  wm_unseen :: "change_event list"
  wm_wc :: checker
  wm_scan :: "(string \<times> nat \<times> scan_state) option"

text \<open>A page that \<open>ReadPartition\<close> may return for partition \<open>p\<close> from \<open>s\<close> on.\<close>

definition page_of ::
  "(string \<Rightarrow> change_event option) \<Rightarrow> (u32 \<Rightarrow> u64 \<Rightarrow> change_event option) \<Rightarrow> u32 \<Rightarrow> u64 \<Rightarrow> log_entry list \<Rightarrow> bool" where
  "page_of unmarshal log p s es \<longleftrightarrow>
     sorted_wrt (<) (map le_seq es) \<and>
     (\<forall>e \<in> set es. s \<le> le_seq e \<and> log p (le_seq e) \<noteq> None \<and> event_of unmarshal e = log p (le_seq e)) \<and>
     (\<forall>i. s \<le> i \<and> log p i \<noteq> None \<and> ((\<exists>e \<in> set es. i < le_seq e) \<or> length es < watermarkPageSize) \<longrightarrow> i \<in> le_seq ` set es)"

inductive wm_step ::
  "(string \<Rightarrow> change_event option) \<Rightarrow> (string \<Rightarrow> u64 option) \<Rightarrow> u32 \<Rightarrow> wm \<Rightarrow> wm \<Rightarrow> bool"
  for unmarshal parse_lsn num where
  append: "wm_log s p i = None \<Longrightarrow> \<forall>j. wm_log s p j \<noteq> None \<longrightarrow> j < i \<Longrightarrow> i \<noteq> - 1 \<Longrightarrow>
    PartitionOf (str_bytes (raw_str (ev_key ev))) num = Ret p \<Longrightarrow>
    wm_step unmarshal parse_lsn num s (s\<lparr>wm_log := (wm_log s)(p := (wm_log s p)(i \<mapsto> ev)), wm_unseen := wm_unseen s @ [ev]\<rparr>)"
| observe: "wm_unseen s = a @ evs @ b \<Longrightarrow>
    wm_step unmarshal parse_lsn num s (s\<lparr>wm_wc := ObserveAppend parse_lsn evs (wm_wc s), wm_unseen := a @ b\<rparr>)"
| start: "wm_scan s = None \<Longrightarrow>
    wm_step unmarshal parse_lsn num s
      (s\<lparr>wm_wc := register_index t lsn (wm_wc s),
         wm_scan := Some (t, wc_fresh (wm_wc s), map word_of_nat [0..<unat num], 0, None)\<rparr>)"
| read_page: "wm_scan s = Some (t, tid, p # ps, frm, None) \<Longrightarrow> page_of unmarshal (wm_log s) p frm es \<Longrightarrow>
    wm_step unmarshal parse_lsn num s (s\<lparr>wm_scan := Some (t, tid, p # ps, frm, Some es)\<rparr>)"
| merge_page: "wm_scan s = Some (t, tid, p # ps, frm, Some es) \<Longrightarrow>
    w = mergeEntries unmarshal parse_lsn t tid es (wm_wc s) \<Longrightarrow>
    wm_step unmarshal parse_lsn num s
      (s\<lparr>wm_wc := w,
         wm_scan := (case after_page t tid es w of
                       ScanStop \<Rightarrow> None
                     | ScanPartition \<Rightarrow> Some (t, tid, ps, 0, None)
                     | ScanFrom i \<Rightarrow> Some (t, tid, p # ps, i, None))\<rparr>)"
| scan_done: "wm_scan s = Some (t, tid, [], frm, pg) \<Longrightarrow> wm_step unmarshal parse_lsn num s (s\<lparr>wm_scan := None\<rparr>)"
| scan_failed: "wm_scan s = Some (t, tid, sc) \<Longrightarrow>
    wm_step unmarshal parse_lsn num s (s\<lparr>wm_wc := discard_index t tid (wm_wc s), wm_scan := None\<rparr>)"
| finish: "wm_step unmarshal parse_lsn num s (s\<lparr>wm_wc := FinishTable t (wm_wc s)\<rparr>)"
| set_max: "wm_step unmarshal parse_lsn num s (s\<lparr>wm_wc := SetMaxIndexKeys n (wm_wc s)\<rparr>)"

inductive wm_reach ::
  "(string \<Rightarrow> change_event option) \<Rightarrow> (string \<Rightarrow> u64 option) \<Rightarrow> u32 \<Rightarrow> wm \<Rightarrow> bool"
  for unmarshal parse_lsn num where
  init: "wm_reach unmarshal parse_lsn num \<lparr>wm_log = (\<lambda>p i. None), wm_unseen = [], wm_wc = NewWatermarkChecker num, wm_scan = None\<rparr>"
| step: "wm_reach unmarshal parse_lsn num s \<Longrightarrow> wm_step unmarshal parse_lsn num s s' \<Longrightarrow> wm_reach unmarshal parse_lsn num s'"

section \<open>The invariant\<close>

fun todo :: "scan_state \<Rightarrow> u32 \<Rightarrow> u64 \<Rightarrow> bool" where
  "todo ([], frm, pg) q i \<longleftrightarrow> False"
| "todo (p # ps, frm, None) q i \<longleftrightarrow> q \<in> set ps \<or> (q = p \<and> frm \<le> i)"
| "todo (p # ps, frm, Some es) q i \<longleftrightarrow> q \<in> set ps \<or>
     (q = p \<and> (i \<in> le_seq ` set es \<or> (\<not> length es < watermarkPageSize \<and> le_seq (last es) < i)))"

definition log_fine :: "u32 \<Rightarrow> wm \<Rightarrow> bool" where
  "log_fine num s \<longleftrightarrow>
     (\<forall>p i ev. wm_log s p i = Some ev \<longrightarrow> i \<noteq> - 1 \<and> PartitionOf (str_bytes (raw_str (ev_key ev))) num = Ret p) \<and>
     (\<forall>ev \<in> set (wm_unseen s). \<exists>p i. wm_log s p i = Some ev)"

definition scan_fine :: "(string \<Rightarrow> change_event option) \<Rightarrow> wm \<Rightarrow> bool" where
  "scan_fine unmarshal s \<longleftrightarrow>
     (\<forall>t tid p ps frm es. wm_scan s = Some (t, tid, p # ps, frm, Some es) \<longrightarrow>
        (\<forall>e \<in> set es. event_of unmarshal e = wm_log s p (le_seq e) \<and> wm_log s p (le_seq e) \<noteq> None))"

definition ids_fine :: "wm \<Rightarrow> bool" where
  "ids_fine s \<longleftrightarrow> (\<forall>t ti. gm_get (wc_tables (wm_wc s)) t = Some ti \<longrightarrow> ti_id ti < wc_fresh (wm_wc s)) \<and>
     (\<forall>t tid sc. wm_scan s = Some (t, tid, sc) \<longrightarrow> tid < wc_fresh (wm_wc s))"

definition pending :: "wm \<Rightarrow> string \<Rightarrow> table_index \<Rightarrow> u32 \<Rightarrow> u64 \<Rightarrow> bool" where
  "pending s t ti p i \<longleftrightarrow> (\<exists>sc. wm_scan s = Some (t, ti_id ti, sc) \<and> todo sc p i)"

definition index_fine :: "(string \<Rightarrow> u64 option) \<Rightarrow> wm \<Rightarrow> bool" where
  "index_fine parse_lsn s \<longleftrightarrow>
     (\<forall>t ti. gm_get (wc_tables (wm_wc s)) t = Some ti \<and> \<not> ti_overCap ti \<longrightarrow>
        (\<forall>k. gm_get (ti_keys ti) k \<noteq> None \<longrightarrow> (\<exists>p i ev. wm_log s p i = Some ev \<and> supersedes parse_lsn t k (ti_snapshotLSN ti) ev)) \<and>
        (\<forall>p i ev k. wm_log s p i = Some ev \<and> supersedes parse_lsn t k (ti_snapshotLSN ti) ev \<longrightarrow>
           gm_get (ti_keys ti) k \<noteq> None \<or> ev \<in> set (wm_unseen s) \<or> pending s t ti p i))"

lemma index_fineD:
  assumes "index_fine parse_lsn s" "gm_get (wc_tables (wm_wc s)) t = Some ti" "\<not> ti_overCap ti"
  shows "gm_get (ti_keys ti) k \<noteq> None \<Longrightarrow> \<exists>p i ev. wm_log s p i = Some ev \<and> supersedes parse_lsn t k (ti_snapshotLSN ti) ev"
    and "wm_log s p i = Some ev \<Longrightarrow> supersedes parse_lsn t k (ti_snapshotLSN ti) ev \<Longrightarrow>
      gm_get (ti_keys ti) k \<noteq> None \<or> ev \<in> set (wm_unseen s) \<or> pending s t ti p i"
  using assms unfolding index_fine_def by blast+

section \<open>Merging\<close>

lemma merge_frames [simp]:
  "ti_id (mergeEventLocked parse_lsn n ev ti) = ti_id ti"
  "ti_snapshotLSN (mergeEventLocked parse_lsn n ev ti) = ti_snapshotLSN ti"
  by (auto simp: mergeEventLocked_def Let_def split: option.splits)

lemma merge_keys:
  assumes "\<not> ti_overCap (mergeEventLocked parse_lsn n ev ti)"
  shows "\<not> ti_overCap ti" (is ?A)
    and "gm_get (ti_keys (mergeEventLocked parse_lsn n ev ti)) k \<noteq> None \<longleftrightarrow>
      gm_get (ti_keys ti) k \<noteq> None \<or> (raw_str (ev_key ev) = k \<and> (\<exists>l. lsnFromMetadata parse_lsn ev = Some l \<and> ti_snapshotLSN ti < l))" (is ?B)
proof -
  show ?A using assms by (auto simp: mergeEventLocked_def Let_def split: option.splits if_splits)
  show ?B using assms by (auto simp: mergeEventLocked_def Let_def gomap_simps not_le split: option.splits if_splits)
qed

lemma supersedes_iff:
  "supersedes parse_lsn t k s ev \<longleftrightarrow> ev_table ev = t \<and> raw_str (ev_key ev) = k \<and> (\<exists>l. lsnFromMetadata parse_lsn ev = Some l \<and> s < l)"
  by (auto simp: supersedes_def split: option.splits)

lemma merge_loop_frames [simp]:
  "ti_id (merge_loop unmarshal parse_lsn n t es ti) = ti_id ti"
  "ti_snapshotLSN (merge_loop unmarshal parse_lsn n t es ti) = ti_snapshotLSN ti"
  by (induction es arbitrary: ti) (auto simp: Let_def split: option.splits)

lemma merge_loop_keys:
  assumes "\<not> ti_overCap (merge_loop unmarshal parse_lsn n t es ti)"
  shows "\<not> ti_overCap ti \<and>
    (gm_get (ti_keys (merge_loop unmarshal parse_lsn n t es ti)) k \<noteq> None \<longleftrightarrow>
      gm_get (ti_keys ti) k \<noteq> None \<or>
      (\<exists>e \<in> set es. \<exists>ev. event_of unmarshal e = Some ev \<and> supersedes parse_lsn t k (ti_snapshotLSN ti) ev))"
  using assms
proof (induction es arbitrary: ti)
  case (Cons e es)
  show ?case
  proof (cases "\<exists>ev. event_of unmarshal e = Some ev \<and> ev_table ev = t")
    case True
    then obtain ev where ev: "event_of unmarshal e = Some ev" "ev_table ev = t" by blast
    let ?ti = "mergeEventLocked parse_lsn n ev ti"
    have no: "\<not> ti_overCap ?ti" using Cons.prems ev by (auto simp: Let_def split: if_splits)
    then have "\<not> ti_overCap (merge_loop unmarshal parse_lsn n t es ?ti)" using Cons.prems ev by (simp add: Let_def)
    from Cons.IH [OF this] merge_keys [OF no] ev no show ?thesis by (auto simp: Let_def supersedes_iff simp del: not_None_eq)
  next
    case False
    then have "merge_loop unmarshal parse_lsn n t (e # es) ti = merge_loop unmarshal parse_lsn n t es ti"
      by (auto split: option.splits)
    moreover have "\<not> (\<exists>ev. event_of unmarshal e = Some ev \<and> supersedes parse_lsn t k (ti_snapshotLSN ti) ev)"
      using False by (auto simp: supersedes_iff)
    ultimately show ?thesis using Cons by (auto simp del: not_None_eq)
  qed
qed simp

section \<open>Every step keeps the invariant\<close>

definition wm_inv :: "(string \<Rightarrow> change_event option) \<Rightarrow> (string \<Rightarrow> u64 option) \<Rightarrow> u32 \<Rightarrow> wm \<Rightarrow> bool" where
  "wm_inv unmarshal parse_lsn num s \<longleftrightarrow>
     log_fine num s \<and> scan_fine unmarshal s \<and> ids_fine s \<and> index_fine parse_lsn s \<and> wc_numPartitions (wm_wc s) = num"

text \<open>The two halves of the invariant of one table, for the introduction rule.\<close>

lemma index_fineI:
  assumes "\<And>t ti k. gm_get (wc_tables (wm_wc s)) t = Some ti \<Longrightarrow> \<not> ti_overCap ti \<Longrightarrow> gm_get (ti_keys ti) k \<noteq> None \<Longrightarrow>
      \<exists>p i ev. wm_log s p i = Some ev \<and> supersedes parse_lsn t k (ti_snapshotLSN ti) ev"
    and "\<And>t ti p i ev k. gm_get (wc_tables (wm_wc s)) t = Some ti \<Longrightarrow> \<not> ti_overCap ti \<Longrightarrow> wm_log s p i = Some ev \<Longrightarrow>
      supersedes parse_lsn t k (ti_snapshotLSN ti) ev \<Longrightarrow> gm_get (ti_keys ti) k = None \<Longrightarrow> ev \<notin> set (wm_unseen s) \<Longrightarrow> pending s t ti p i"
  shows "index_fine parse_lsn s"
  unfolding index_fine_def using assms by blast

lemma append_keeps:
  assumes inv: "wm_inv unmarshal parse_lsn num s" and new: "wm_log s p i = None" and i: "i \<noteq> - 1"
    and part: "PartitionOf (str_bytes (raw_str (ev_key ev))) num = Ret p"
    and s': "s' = s\<lparr>wm_log := (wm_log s)(p := (wm_log s p)(i \<mapsto> ev)), wm_unseen := wm_unseen s @ [ev]\<rparr>"
  shows "wm_inv unmarshal parse_lsn num s'"
proof -
  have log: "wm_log s' q j = (if q = p \<and> j = i then Some ev else wm_log s q j)" for q j by (auto simp: s')
  have mono: "wm_log s q j = Some x \<Longrightarrow> wm_log s' q j = Some x" for q j x using new by (auto simp: log)
  have L: "log_fine num s" using inv by (simp add: wm_inv_def)
  have "\<exists>q j. wm_log s' q j = Some x" if "x \<in> set (wm_unseen s')" for x
  proof (cases "x = ev")
    case False
    then have "x \<in> set (wm_unseen s)" using that by (simp add: s')
    then obtain q j where "wm_log s q j = Some x" using L unfolding log_fine_def by blast
    then show ?thesis using mono by blast
  qed (auto simp: log)
  moreover have "\<forall>q j x. wm_log s' q j = Some x \<longrightarrow> j \<noteq> - 1 \<and> PartitionOf (str_bytes (raw_str (ev_key x))) num = Ret q"
    using L i part unfolding log log_fine_def by auto
  ultimately have "log_fine num s'" by (simp add: log_fine_def)
  moreover have "scan_fine unmarshal s'"
    using inv new unfolding wm_inv_def scan_fine_def by (fastforce simp: s')
  moreover have "ids_fine s'" using inv by (auto simp: wm_inv_def ids_fine_def s')
  moreover have "index_fine parse_lsn s'"
  proof (rule index_fineI)
    have I: "index_fine parse_lsn s" using inv by (simp add: wm_inv_def)
    fix t ti assume ti: "gm_get (wc_tables (wm_wc s')) t = Some ti" "\<not> ti_overCap ti"
    then have ti0: "gm_get (wc_tables (wm_wc s)) t = Some ti" by (simp add: s')
    note D = index_fineD [OF I ti0 ti(2)]
    show "\<exists>p i ev. wm_log s' p i = Some ev \<and> supersedes parse_lsn t k (ti_snapshotLSN ti) ev"
      if "gm_get (ti_keys ti) k \<noteq> None" for k using D(1) [OF that] mono by blast
    show "pending s' t ti q j" if "wm_log s' q j = Some x" "supersedes parse_lsn t k (ti_snapshotLSN ti) x"
      "gm_get (ti_keys ti) k = None" "x \<notin> set (wm_unseen s')" for q j x k
    proof -
      have "wm_log s q j = Some x" using that(1,4) by (auto simp: log s' split: if_splits)
      from D(2) [OF this that(2)] that(3,4) show ?thesis by (auto simp: s' pending_def)
    qed
  qed
  ultimately show ?thesis using inv by (simp add: wm_inv_def s')
qed

lemma observe_one_keeps:
  assumes inv: "wm_inv unmarshal parse_lsn num s" and un: "wm_unseen s = a @ ev # b"
    and s': "s' = s\<lparr>wm_wc := observe_one parse_lsn ev (wm_wc s), wm_unseen := a @ b\<rparr>"
  shows "wm_inv unmarshal parse_lsn num s'"
proof -
  let ?T = "\<lambda>s. gm_get (wc_tables (wm_wc s))"
  have frame: "wc_fresh (wm_wc s') = wc_fresh (wm_wc s)" "wc_numPartitions (wm_wc s') = wc_numPartitions (wm_wc s)"
    by (auto simp: s' observe_one_def set_index_def split: option.splits)
  have tab: "?T s' t = Some ti \<Longrightarrow> \<exists>ti0. ?T s t = Some ti0 \<and>
      (ti = ti0 \<and> (ti_overCap ti \<or> t \<noteq> ev_table ev) \<or> t = ev_table ev \<and> ti = mergeEventLocked parse_lsn (wc_maxIndexKeys (wm_wc s)) ev ti0)" for t ti
    by (auto simp: s' observe_one_def set_index_def gomap_simps split: option.splits if_splits)
  have I: "index_fine parse_lsn s" and L: "log_fine num s" using inv by (simp_all add: wm_inv_def)
  from L have seen: "\<exists>p i. wm_log s p i = Some ev" by (auto simp: log_fine_def un)
  have "log_fine num s'" using L by (auto simp: log_fine_def s' un)
  moreover have "scan_fine unmarshal s'" using inv by (auto simp: wm_inv_def scan_fine_def s')
  moreover have "ids_fine s'" using inv tab unfolding wm_inv_def ids_fine_def frame by (fastforce simp: s')
  moreover have "index_fine parse_lsn s'"
  proof (rule index_fineI)
    fix t ti assume ti: "?T s' t = Some ti" "\<not> ti_overCap ti"
    from tab [OF ti(1)] obtain ti0 where ti0: "?T s t = Some ti0"
      and "(ti = ti0 \<and> t \<noteq> ev_table ev) \<or> (t = ev_table ev \<and> ti = mergeEventLocked parse_lsn (wc_maxIndexKeys (wm_wc s)) ev ti0)"
      using ti(2) by blast
    then have F: "\<not> ti_overCap ti0 \<and> ti_id ti = ti_id ti0 \<and> ti_snapshotLSN ti = ti_snapshotLSN ti0 \<and>
        (gm_get (ti_keys ti) k \<noteq> None \<longleftrightarrow> gm_get (ti_keys ti0) k \<noteq> None \<or> supersedes parse_lsn t k (ti_snapshotLSN ti0) ev)" for k
    proof (elim disjE conjE)
      assume m: "t = ev_table ev" "ti = mergeEventLocked parse_lsn (wc_maxIndexKeys (wm_wc s)) ev ti0"
      show ?thesis using merge_keys [OF ti(2) [unfolded m(2)]] by (simp add: m supersedes_iff del: not_None_eq)
    qed (use ti(2) in \<open>simp add: supersedes_iff\<close>)
    note D = index_fineD [OF I ti0 conjunct1 [OF F]]
    show "\<exists>p i ev. wm_log s' p i = Some ev \<and> supersedes parse_lsn t k (ti_snapshotLSN ti) ev"
      if "gm_get (ti_keys ti) k \<noteq> None" for k
      using that D(1) [of k] F [of k] seen by (auto simp: s' simp del: not_None_eq)
    show "pending s' t ti q j" if "wm_log s' q j = Some x" "supersedes parse_lsn t k (ti_snapshotLSN ti) x"
      "gm_get (ti_keys ti) k = None" "x \<notin> set (wm_unseen s')" for q j x k
      using that D(2) [of q j x k] F [of k] by (auto simp: s' un pending_def simp del: not_None_eq)
  qed
  ultimately show ?thesis using inv frame by (simp add: wm_inv_def)
qed

lemma observe_keeps:
  assumes "wm_inv unmarshal parse_lsn num s" "wm_unseen s = a @ evs @ b"
  shows "wm_inv unmarshal parse_lsn num (s\<lparr>wm_wc := ObserveAppend parse_lsn evs (wm_wc s), wm_unseen := a @ b\<rparr>)"
  using assms
proof (induction evs arbitrary: s)
  case Nil
  then have "s\<lparr>wm_wc := ObserveAppend parse_lsn [] (wm_wc s), wm_unseen := a @ b\<rparr> = s" by (simp add: ObserveAppend_def)
  then show ?case using Nil by simp
next
  case (Cons ev evs)
  have "wm_inv unmarshal parse_lsn num (s\<lparr>wm_wc := observe_one parse_lsn ev (wm_wc s), wm_unseen := a @ evs @ b\<rparr>)"
    by (rule observe_one_keeps [OF Cons.prems(1)]) (use Cons.prems(2) in auto)
  from Cons.IH [OF this] show ?case by (simp add: ObserveAppend_def)
qed

lemma start_keeps:
  assumes inv: "wm_inv unmarshal parse_lsn num s" and idle: "wm_scan s = None"
    and s': "s' = s\<lparr>wm_wc := register_index t lsn (wm_wc s),
      wm_scan := Some (t, wc_fresh (wm_wc s), map word_of_nat [0..<unat num], 0, None)\<rparr>"
  shows "wm_inv unmarshal parse_lsn num s'"
proof -
  let ?T = "\<lambda>s. gm_get (wc_tables (wm_wc s))"
  have I: "index_fine parse_lsn s" and L: "log_fine num s" using inv by (simp_all add: wm_inv_def)
  have frame: "wc_fresh (wm_wc s') = wc_fresh (wm_wc s) + 1" "wc_numPartitions (wm_wc s') = wc_numPartitions (wm_wc s)"
    by (simp_all add: s' register_index_def set_index_def)
  have tab: "?T s' u = (if t = u then Some \<lparr>ti_id = wc_fresh (wm_wc s), ti_snapshotLSN = lsn, ti_keys = [], ti_overCap = False\<rparr> else ?T s u)" for u
    by (simp add: s' register_index_def set_index_def gomap_simps)
  have part: "todo (map word_of_nat [0..<unat num], 0, None) p i" if "wm_log s p i = Some ev" for p i ev
  proof -
    from that L have "p < num" using PartitionOf_less unfolding log_fine_def by blast
    then have "p \<in> set (map word_of_nat [0..<unat num])"
      by (auto intro!: image_eqI [where x = "unat p"] simp: word_less_nat_alt)
    then show ?thesis by (cases "map word_of_nat [0..<unat num] :: u32 list") auto
  qed
  have "log_fine num s'" using L by (simp add: log_fine_def s')
  moreover have "scan_fine unmarshal s'" by (simp add: scan_fine_def s')
  moreover have "ids_fine s'"
    using inv unfolding wm_inv_def ids_fine_def frame tab by (auto simp: s' less_Suc_eq)
  moreover have "index_fine parse_lsn s'"
  proof (rule index_fineI)
    fix u ti assume ti: "?T s' u = Some ti" "\<not> ti_overCap ti"
    have old: "t \<noteq> u \<Longrightarrow> ?T s u = Some ti" and new: "t = u \<Longrightarrow> ti_id ti = wc_fresh (wm_wc s) \<and> ti_keys ti = []"
      using ti(1) unfolding tab by auto
    show "\<exists>p i ev. wm_log s' p i = Some ev \<and> supersedes parse_lsn u k (ti_snapshotLSN ti) ev"
      if "gm_get (ti_keys ti) k \<noteq> None" for k
      using that old new index_fineD(1) [OF I _ ti(2), of u k] by (cases "t = u") (simp_all add: s')
    show "pending s' u ti q j" if "wm_log s' q j = Some x" "supersedes parse_lsn u k (ti_snapshotLSN ti) x"
      "gm_get (ti_keys ti) k = None" "x \<notin> set (wm_unseen s')" for q j x k
    proof (cases "t = u")
      case True
      then show ?thesis using new part [of q j x] that(1) by (simp add: s' pending_def)
    next
      case False
      then show ?thesis using old that index_fineD(2) [OF I _ ti(2), of u q j x k] idle by (simp add: s' pending_def)
    qed
  qed
  ultimately show ?thesis using inv frame by (simp add: wm_inv_def)
qed

lemma read_page_keeps:
  assumes inv: "wm_inv unmarshal parse_lsn num s" and scan: "wm_scan s = Some (t, tid, p # ps, frm, None)"
    and page: "page_of unmarshal (wm_log s) p frm es"
    and s': "s' = s\<lparr>wm_scan := Some (t, tid, p # ps, frm, Some es)\<rparr>"
  shows "wm_inv unmarshal parse_lsn num s'"
proof -
  have I: "index_fine parse_lsn s" using inv by (simp add: wm_inv_def)
  have moved: "todo (p # ps, frm, Some es) q i" if "todo (p # ps, frm, None) q i" "wm_log s q i \<noteq> None" for q i
  proof (cases "q \<in> set ps")
    case False
    then have q: "q = p" "frm \<le> i" using that(1) by auto
    have in_page: "(\<exists>e \<in> set es. i < le_seq e) \<or> length es < watermarkPageSize \<Longrightarrow> i \<in> le_seq ` set es"
      using page that(2) q unfolding page_of_def by blast
    show ?thesis
    proof (cases "i \<in> le_seq ` set es")
      case out: False
      then have long: "\<not> length es < watermarkPageSize" using in_page by blast
      then have "last es \<in> set es" by (auto simp: watermarkPageSize_def intro!: last_in_set)
      then have "\<not> i < le_seq (last es)" "i \<noteq> le_seq (last es)" using in_page out by blast+
      then show ?thesis using long q by auto
    qed (use q in simp)
  qed simp
  have "log_fine num s'" using inv by (simp add: wm_inv_def log_fine_def s')
  moreover have "scan_fine unmarshal s'" using page by (simp add: scan_fine_def s' page_of_def)
  moreover have "ids_fine s'" using inv scan by (auto simp: wm_inv_def ids_fine_def s')
  moreover have "index_fine parse_lsn s'"
  proof (rule index_fineI)
    fix u ti assume ti: "gm_get (wc_tables (wm_wc s')) u = Some ti" "\<not> ti_overCap ti"
    then have "gm_get (wc_tables (wm_wc s)) u = Some ti" by (simp add: s')
    note D = index_fineD [OF I this ti(2)]
    show "\<exists>p i ev. wm_log s' p i = Some ev \<and> supersedes parse_lsn u k (ti_snapshotLSN ti) ev"
      if "gm_get (ti_keys ti) k \<noteq> None" for k using D(1) [OF that] by (simp add: s')
    show "pending s' u ti q j" if "wm_log s' q j = Some x" "supersedes parse_lsn u k (ti_snapshotLSN ti) x"
      "gm_get (ti_keys ti) k = None" "x \<notin> set (wm_unseen s')" for q j x k
    proof -
      have "pending s u ti q j" using D(2) [of q j x k] that by (simp add: s')
      then have "todo (p # ps, frm, None) q j" "u = t" "ti_id ti = tid" by (auto simp: pending_def scan)
      then show ?thesis using moved [of q j] that(1) by (simp add: s' pending_def)
    qed
  qed
  ultimately show ?thesis using inv by (simp add: wm_inv_def s')
qed

lemma merge_page_keeps:
  assumes inv: "wm_inv unmarshal parse_lsn num s" and scan: "wm_scan s = Some (t, tid, p # ps, frm, Some es)"
    and w: "w = mergeEntries unmarshal parse_lsn t tid es (wm_wc s)"
    and s': "s' = s\<lparr>wm_wc := w, wm_scan := (case after_page t tid es w of ScanStop \<Rightarrow> None
        | ScanPartition \<Rightarrow> Some (t, tid, ps, 0, None) | ScanFrom i \<Rightarrow> Some (t, tid, p # ps, i, None))\<rparr>"
  shows "wm_inv unmarshal parse_lsn num s'"
proof -
  let ?T = "\<lambda>w. gm_get (wc_tables w)"
  have I: "index_fine parse_lsn s" and L: "log_fine num s" and S: "scan_fine unmarshal s" using inv by (simp_all add: wm_inv_def)
  have es: "e \<in> set es \<Longrightarrow> event_of unmarshal e = wm_log s p (le_seq e) \<and> wm_log s p (le_seq e) \<noteq> None" for e
    using S scan unfolding scan_fine_def by blast
  have frame: "wc_fresh w = wc_fresh (wm_wc s)" "wc_numPartitions w = wc_numPartitions (wm_wc s)"
    by (auto simp: w mergeEntries_def set_index_def split: option.splits)
  have tab: "\<exists>ti0. ?T (wm_wc s) u = Some ti0 \<and>
      (ti = ti0 \<and> (ti_overCap ti \<or> u \<noteq> t \<or> ti_id ti \<noteq> tid \<or> es = []) \<or>
       u = t \<and> ti_id ti0 = tid \<and> ti = merge_loop unmarshal parse_lsn (wc_maxIndexKeys (wm_wc s)) t es ti0)" if "?T w u = Some ti" for u ti
    using that by (auto simp: w mergeEntries_def set_index_def gomap_simps split: option.splits if_splits)
  have "log_fine num s'" using L by (simp add: log_fine_def s')
  moreover have "scan_fine unmarshal s'" by (auto simp: scan_fine_def s' split: scan_next.splits)
  moreover have "ids_fine s'"
  proof -
    have old: "?T (wm_wc s) u = Some ti \<Longrightarrow> ti_id ti < wc_fresh (wm_wc s)" "tid < wc_fresh (wm_wc s)" for u ti
      using inv scan unfolding wm_inv_def ids_fine_def by blast+
    have "ti_id ti < wc_fresh (wm_wc s)" if "?T w u = Some ti" for u ti using tab [OF that] old by auto
    then show ?thesis using old(2) by (auto simp: ids_fine_def s' frame split: scan_next.splits)
  qed
  moreover have "index_fine parse_lsn s'"
  proof (rule index_fineI)
    fix u ti assume "?T (wm_wc s') u = Some ti" and ok: "\<not> ti_overCap ti"
    then have ti: "?T w u = Some ti" by (simp add: s')
    from tab [OF this] obtain ti0 where ti0: "?T (wm_wc s) u = Some ti0"
      and c: "ti = ti0 \<and> (u \<noteq> t \<or> ti_id ti0 \<noteq> tid \<or> es = []) \<or>
        u = t \<and> ti_id ti0 = tid \<and> ti = merge_loop unmarshal parse_lsn (wc_maxIndexKeys (wm_wc s)) t es ti0"
      using ok by blast
    let ?hit = "\<lambda>k. \<exists>e \<in> set es. \<exists>ev. event_of unmarshal e = Some ev \<and> supersedes parse_lsn u k (ti_snapshotLSN ti0) ev"
    have F: "\<not> ti_overCap ti0 \<and> ti_id ti = ti_id ti0 \<and> ti_snapshotLSN ti = ti_snapshotLSN ti0 \<and>
        (gm_get (ti_keys ti) k \<noteq> None \<longleftrightarrow> gm_get (ti_keys ti0) k \<noteq> None \<or> (u = t \<and> ti_id ti0 = tid \<and> ?hit k))" for k
      using c
    proof (elim disjE conjE)
      assume m: "u = t" "ti_id ti0 = tid" "ti = merge_loop unmarshal parse_lsn (wc_maxIndexKeys (wm_wc s)) t es ti0"
      show ?thesis using merge_loop_keys [OF ok [unfolded m(3)], of k] by (simp add: m del: not_None_eq)
    qed (use ok in auto)
    note D = index_fineD [OF I ti0 conjunct1 [OF F]]
    show "\<exists>p i ev. wm_log s' p i = Some ev \<and> supersedes parse_lsn u k (ti_snapshotLSN ti) ev"
      if k: "gm_get (ti_keys ti) k \<noteq> None" for k
    proof (cases "gm_get (ti_keys ti0) k = None")
      case True
      then obtain e x where "e \<in> set es" "event_of unmarshal e = Some x" "supersedes parse_lsn u k (ti_snapshotLSN ti0) x"
        using k F [of k] by blast
      moreover then have "wm_log s p (le_seq e) = Some x" using es by simp
      ultimately show ?thesis using F [of k] by (auto simp: s')
    qed (use D(1) [of k] F [of k] in \<open>simp add: s'\<close>)
    show "pending s' u ti q j" if "wm_log s' q j = Some x" "supersedes parse_lsn u k (ti_snapshotLSN ti) x"
      "gm_get (ti_keys ti) k = None" "x \<notin> set (wm_unseen s')" for q j x k
    proof -
      have log: "wm_log s q j = Some x" using that(1) by (simp add: s')
      have "pending s u ti0 q j" using D(2) [OF log, of k] that F [of k] by (auto simp: s' simp del: not_None_eq)
      then have at: "u = t" "ti_id ti0 = tid" and "todo (p # ps, frm, Some es) q j" by (auto simp: pending_def scan)
      moreover have "\<not> (q = p \<and> j \<in> le_seq ` set es)"
        using es log that(2,3) F [of k] at by (auto simp del: not_None_eq)
      ultimately have todo: "q \<in> set ps \<or> (q = p \<and> \<not> length es < watermarkPageSize \<and> le_seq (last es) < j)" by auto
      have "\<not> over_cap t tid w" using ti ok at by (simp add: over_cap_def)
      moreover have "le_seq (last es) + 1 \<le> j" if "\<not> length es < watermarkPageSize" "le_seq (last es) < j"
      proof -
        have "last es \<in> set es" using that(1) by (auto simp: watermarkPageSize_def intro!: last_in_set)
        then have "le_seq (last es) \<noteq> - 1" using es L unfolding log_fine_def by fastforce
        then show ?thesis using that(2) word_succ_le_iff by blast
      qed
      ultimately show ?thesis using todo F [of k] at by (cases ps) (auto simp: pending_def s' after_page_def)
    qed
  qed
  ultimately show ?thesis using inv frame by (simp add: wm_inv_def s')
qed

text \<open>Steps that only drop indexes, or end a scan that has nothing left to do for the indexes that stay.\<close>

lemma drop_keeps:
  assumes inv: "wm_inv unmarshal parse_lsn num s"
    and same: "wm_log s' = wm_log s" "wm_unseen s' = wm_unseen s" "wc_fresh (wm_wc s') = wc_fresh (wm_wc s)"
      "wc_numPartitions (wm_wc s') = wc_numPartitions (wm_wc s)"
    and scan: "wm_scan s' = wm_scan s \<or> wm_scan s' = None"
    and tab: "\<And>t ti. gm_get (wc_tables (wm_wc s')) t = Some ti \<Longrightarrow> gm_get (wc_tables (wm_wc s)) t = Some ti"
    and pend: "\<And>t ti p i. gm_get (wc_tables (wm_wc s')) t = Some ti \<Longrightarrow> pending s t ti p i \<Longrightarrow> pending s' t ti p i"
  shows "wm_inv unmarshal parse_lsn num s'"
proof -
  have "log_fine num s'" using inv same by (simp add: wm_inv_def log_fine_def)
  moreover have "scan_fine unmarshal s'" using inv same scan by (auto simp: wm_inv_def scan_fine_def)
  moreover have "ids_fine s'"
    using inv scan tab unfolding wm_inv_def ids_fine_def same by (elim disjE conjE) (simp_all, blast+)
  moreover have "index_fine parse_lsn s'"
  proof (rule index_fineI)
    have I: "index_fine parse_lsn s" using inv by (simp add: wm_inv_def)
    fix t ti assume ti: "gm_get (wc_tables (wm_wc s')) t = Some ti" "\<not> ti_overCap ti"
    note D = index_fineD [OF I tab [OF ti(1)] ti(2)]
    show "\<exists>p i ev. wm_log s' p i = Some ev \<and> supersedes parse_lsn t k (ti_snapshotLSN ti) ev"
      if "gm_get (ti_keys ti) k \<noteq> None" for k using D(1) [OF that] by (simp add: same)
    show "pending s' t ti p i" if "wm_log s' p i = Some ev" "supersedes parse_lsn t k (ti_snapshotLSN ti) ev"
      "gm_get (ti_keys ti) k = None" "ev \<notin> set (wm_unseen s')" for p i ev k
      using D(2) [of p i ev k] that pend [OF ti(1), of p i] by (simp add: same)
  qed
  ultimately show ?thesis using inv same by (simp add: wm_inv_def)
qed

lemma wm_step_keeps:
  assumes "wm_step unmarshal parse_lsn num s s'" "wm_inv unmarshal parse_lsn num s"
  shows "wm_inv unmarshal parse_lsn num s'"
  using assms
proof cases
  case (append p i ev)
  then show ?thesis using append_keeps [OF assms(2)] by blast
next
  case (observe a evs b)
  then show ?thesis using observe_keeps [OF assms(2)] by blast
next
  case (start t lsn)
  then show ?thesis using start_keeps [OF assms(2)] by blast
next
  case (read_page t tid p ps frm es)
  then show ?thesis using read_page_keeps [OF assms(2)] by blast
next
  case (merge_page t tid p ps frm es w)
  then show ?thesis using merge_page_keeps [OF assms(2)] by blast
next
  case (scan_done t tid frm pg)
  then show ?thesis by (intro drop_keeps [OF assms(2)]) (auto simp: pending_def)
next
  case (scan_failed t tid sc)
  have "discard_index t tid (wm_wc s) = (wm_wc s)\<lparr>wc_tables := wc_tables (discard_index t tid (wm_wc s))\<rparr>"
    by (auto simp: discard_index_def split: option.splits)
  moreover have "gm_get (wc_tables (discard_index t tid (wm_wc s))) u = Some ti \<Longrightarrow>
      gm_get (wc_tables (wm_wc s)) u = Some ti \<and> (u = t \<longrightarrow> ti_id ti \<noteq> tid)" for u ti
    by (auto simp: discard_index_def gomap_simps split: option.splits if_splits)
  ultimately show ?thesis using scan_failed
    by (intro drop_keeps [OF assms(2)]) (auto simp: pending_def dest: arg_cong [where f = wc_fresh] arg_cong [where f = wc_numPartitions])
next
  case (finish t)
  then show ?thesis
    by (intro drop_keeps [OF assms(2)]) (auto simp: pending_def FinishTable_def gomap_simps split: if_splits)
next
  case (set_max n)
  then show ?thesis by (intro drop_keeps [OF assms(2)]) (auto simp: pending_def SetMaxIndexKeys_def split: if_splits)
qed

lemma wm_reach_inv: "wm_reach unmarshal parse_lsn num s \<Longrightarrow> wm_inv unmarshal parse_lsn num s"
proof (induction rule: wm_reach.induct)
  case init
  show ?case
    by (simp add: wm_inv_def log_fine_def scan_fine_def ids_fine_def index_fine_def NewWatermarkChecker_def)
next
  case (step s s')
  then show ?case using wm_step_keeps by blast
qed

section \<open>The index answers like the scan\<close>

text \<open>
  C7. In every reachable state, for a table whose index is registered, below its cap and not being
  built, and as long as no committed event that matters is still on its way to the observer: the
  answer from the index is the answer the scan of the log gives, when the scan answers.
\<close>

theorem index_agrees_with_scan:
  assumes reach: "wm_reach unmarshal parse_lsn num s"
    and log: "paged_log read stored unmarshal" "wm_log s = stored_event stored unmarshal"
    and index: "gm_get (wc_tables (wm_wc s)) table = Some ti" "\<not> ti_overCap ti"
    and built: "\<forall>sc. wm_scan s \<noteq> Some (table, ti_id ti, sc)"
    and observed: "\<forall>ev \<in> set (wm_unseen s). \<not> supersedes parse_lsn table pk (ti_snapshotLSN ti) ev"
    and scan: "shouldEmitScan fuel unmarshal parse_lsn read num table pk (ti_snapshotLSN ti) = Ret (Some (Some b))"
  shows "ShouldEmit fuel unmarshal parse_lsn read (wm_wc s) table pk (ti_snapshotLSN ti) = Ret (Some (Some b))"
proof -
  have inv: "index_fine parse_lsn s" "log_fine num s" using wm_reach_inv [OF reach] by (simp_all add: wm_inv_def)
  let ?hit = "\<lambda>p. \<exists>i ev. wm_log s p i = Some ev \<and> supersedes parse_lsn table pk (ti_snapshotLSN ti) ev"
  obtain p where p: "PartitionOf (str_bytes pk) num = Ret p" using scan by (auto simp: shouldEmitScan_def split: go.splits)
  then have "emit_pages fuel unmarshal parse_lsn read table pk (ti_snapshotLSN ti) p 0 = Some (Some b)"
    using scan by (simp add: shouldEmitScan_def)
  from paged_log.emit_pages_correct [OF log(1) this] have b: "b \<longleftrightarrow> \<not> ?hit p" by (simp add: log(2))
  have here: "?hit q \<Longrightarrow> q = p" for q using inv(2) p unfolding log_fine_def supersedes_iff by fastforce
  have "gm_get (ti_keys ti) pk \<noteq> None \<longleftrightarrow> ?hit p"
    using index_fineD [OF inv(1) index] built observed here unfolding pending_def by blast
  then have "(gm_get (ti_keys ti) pk = None) = b" using b by blast
  then show ?thesis using index by (simp add: ShouldEmit_def)
qed

end
