(* ===== verification/Watermark_Badger.thy ===== *)
theory Watermark_Badger
  imports Watermark_Index Eventlog_Instance
begin

text \<open>
  The Badger event log provides the paged reads the watermark checker relies on, and the in-memory
  database of \<^theory_text>\<open>Eventlog_Instance\<close> is one such log.
\<close>

section \<open>Paged reads of the Badger log\<close>

definition badger_pages :: "'db badger \<Rightarrow> 'db evlog \<Rightarrow> u32 \<Rightarrow> u64 \<Rightarrow> log_entry list option" where
  "badger_pages bg el p s =
     (case ReadPartition bg (\<lambda>_. False) el p s watermarkPageSize of Ret (es, None) \<Rightarrow> Some es | _ \<Rightarrow> None)"

definition badger_stored :: "('db \<Rightarrow> bytes \<Rightarrow> bytes option) \<Rightarrow> 'db evlog \<Rightarrow> u32 \<Rightarrow> u64 \<Rightarrow> string option" where
  "badger_stored view el p i = map_option bytes_str (view (el_db el) (encodePartKey p i))"

text \<open>A log whose counters have not reached the last sequence number.\<close>

locale badger_log =
  fixes bg :: "'db badger" and view :: "'db \<Rightarrow> bytes \<Rightarrow> bytes option" and hi :: "'db \<Rightarrow> u32 \<Rightarrow> nat" and el :: "'db evlog"
  assumes db_ok: "badger_ok bg view hi" and log_ok: "evlog_inv view hi el" and seqs_left: "hi (el_db el) p < 2 ^ 64"
begin

lemma badger_pagesD:
  assumes "badger_pages bg el p s = Some es"
  shows "sorted_wrt (<) (map le_seq es)"
    "\<And>e. e \<in> set es \<Longrightarrow> s \<le> le_seq e \<and> le_event e = None \<and> badger_stored view el p (le_seq e) = Some (le_raw e)"
    "\<And>i. s \<le> i \<Longrightarrow> badger_stored view el p i \<noteq> None \<Longrightarrow> (\<exists>e \<in> set es. i < le_seq e) \<or> length es < watermarkPageSize \<Longrightarrow>
      i \<in> le_seq ` set es"
proof -
  from ReadPartition_reads [OF db_ok log_ok, of "\<lambda>_. False" p s watermarkPageSize] obtain es' err where
    r: "ReadPartition bg (\<lambda>_. False) el p s watermarkPageSize = Ret (es', err)" and R: "sorted_wrt (<) (map le_seq es')"
      "\<forall>e \<in> set es'. s \<le> le_seq e \<and> le_partition e = p \<and> le_event e = None \<and>
        (\<exists>v. view (el_db el) (encodePartKey p (le_seq e)) = Some v \<and> le_raw e = bytes_str v)"
      "\<forall>i. s \<le> i \<and> view (el_db el) (encodePartKey p i) \<noteq> None \<and>
        ((\<exists>e \<in> set es'. i < le_seq e) \<or> (err = None \<and> length es' < watermarkPageSize)) \<longrightarrow> i \<in> le_seq ` set es'"
    by blast
  have e: "es' = es" "err = None" using assms by (auto simp: badger_pages_def r split: option.splits)
  show "sorted_wrt (<) (map le_seq es)" using R(1) by (simp add: e)
  show "s \<le> le_seq x \<and> le_event x = None \<and> badger_stored view el p (le_seq x) = Some (le_raw x)" if "x \<in> set es" for x
    using R(2) that by (auto simp: e badger_stored_def)
  show "i \<in> le_seq ` set es" if "s \<le> i" "badger_stored view el p i \<noteq> None"
    "(\<exists>e \<in> set es. i < le_seq e) \<or> length es < watermarkPageSize" for i
    using R(3) that unfolding e badger_stored_def by auto
qed

lemma stored_bound: "badger_stored view el p i \<noteq> None \<Longrightarrow> unat i < hi (el_db el) p"
  using log_ok by (auto simp: evlog_inv_def badger_stored_def)

end

sublocale badger_log \<subseteq> pages: paged_log "badger_pages bg el" "badger_stored view el" unmarshal
  for unmarshal
proof unfold_locales
  fix p s es i
  show "badger_pages bg el p s = Some es \<Longrightarrow> sorted_wrt (<) (map le_seq es)" by (rule badger_pagesD)
  show "badger_pages bg el p s = Some es \<Longrightarrow> e \<in> set es \<Longrightarrow>
      s \<le> le_seq e \<and> badger_stored view el p (le_seq e) = Some (le_raw e) \<and>
      le_event e \<in> {None, stored_event (badger_stored view el) unmarshal p (le_seq e)}" for e
    using badger_pagesD(2) [of p s es e] by simp
  show "badger_pages bg el p s = Some es \<Longrightarrow> s \<le> i \<Longrightarrow> badger_stored view el p i \<noteq> None \<Longrightarrow>
      (\<exists>e \<in> set es. i < le_seq e) \<or> length es < watermarkPageSize \<Longrightarrow> i \<in> le_seq ` set es" by (rule badger_pagesD)
  show "i \<noteq> - 1" if "badger_stored view el p i \<noteq> None"
  proof
    assume "i = - 1"
    then have "unat i = 2 ^ 64 - 1" by (simp add: unsigned_minus_1_eq_mask mask_eq_exp_minus_1)
    then show False using stored_bound [OF that] seqs_left [of p] by simp
  qed
qed

context badger_log
begin

lemma stored_card: "finite {i. badger_stored view el p i \<noteq> None}" "card {i. badger_stored view el p i \<noteq> None} \<le> hi (el_db el) p"
proof -
  let ?S = "{i. badger_stored view el p i \<noteq> None}"
  show fin: "finite ?S" by simp
  have "card ?S = card (unat ` ?S)" by (rule card_image [symmetric]) (rule inj_onI, simp add: unsigned_word_eqI)
  also have "\<dots> \<le> card {..<hi (el_db el) p}" using stored_bound by (intro card_mono) auto
  finally show "card ?S \<le> hi (el_db el) p" by simp
qed

lemma scan_decides:
  assumes "\<forall>s. badger_pages bg el p s \<noteq> None" "hi (el_db el) p < fuel"
  shows "emit_pages fuel unmarshal parse_lsn (badger_pages bg el) table pk snap p 0 =
    Some (Some (\<not> (\<exists>i ev. stored_event (badger_stored view el) unmarshal p i = Some ev \<and> supersedes parse_lsn table pk snap ev)))"
proof -
  have "card {i. badger_stored view el p i \<noteq> None \<and> 0 \<le> i} < fuel" using stored_card(2) [of p] assms(2) by simp
  from pages.emit_pages_answers [OF _ stored_card(1) this] obtain b where
    b: "emit_pages fuel unmarshal parse_lsn (badger_pages bg el) table pk snap p 0 = Some (Some b)" using assms(1) by blast
  from pages.emit_pages_correct [OF this] b show ?thesis by simp
qed

end

text \<open>
  C19. On a Badger log whose reads succeed the scan for a row always answers, within one page more
  than the partition ever numbered, and it says emit exactly when no stored event supersedes the row.
\<close>

theorem shouldEmitScan_decides:
  assumes "badger_ok bg view hi" "evlog_inv view hi el" "\<forall>q. hi (el_db el) q < 2 ^ 64"
    and "PartitionOf (str_bytes pk) num = Ret p" "\<forall>s. badger_pages bg el p s \<noteq> None" "hi (el_db el) p < fuel"
  shows "shouldEmitScan fuel unmarshal parse_lsn (badger_pages bg el) num table pk snap =
    Ret (Some (Some (\<not> (\<exists>i ev. stored_event (badger_stored view el) unmarshal p i = Some ev \<and> supersedes parse_lsn table pk snap ev))))"
proof -
  have "badger_log bg view hi el" using assms(1-3) by (simp add: badger_log_def)
  from badger_log.scan_decides [OF this assms(5,6)] show ?thesis by (simp add: shouldEmitScan_def assms(4))
qed

section \<open>A run on the in-memory database\<close>

interpretation mem_log: badger_log mem_badger mem_view mem_hi ex_log1
  by (simp add: badger_log_def mem_badger_ok ex_log1_inv) (simp add: ex_log1_def mem_hi_def gm_get0_def)

definition wx_event :: change_event where
  "wx_event = (ex_event ''k'')\<lparr>ev_metadata := [(''lsn'', JStr ''0/5'')]\<rparr>"

abbreviation wx_unmarshal :: "string \<Rightarrow> change_event option" where
  "wx_unmarshal \<equiv> \<lambda>_. Some wx_event"

abbreviation wx_lsn :: "string \<Rightarrow> u64 option" where
  "wx_lsn \<equiv> \<lambda>_. Some 5"

definition wx_entry :: log_entry where
  "wx_entry = \<lparr>le_seq = 1, le_partition = 0, le_event = None, le_raw = ''m''\<rparr>"

lemma wx_db: "fst (el_db ex_log1) = [(encodePartKey 0 1, str_bytes ''m''), (dedupIndexKey id (str_bytes ''k''), encodePartSeq 0 1)]"
  by (simp add: ex_log1_def)

lemma wx_view: "mem_view (el_db ex_log1) (encodePartKey p i) = (if p = 0 \<and> i = 1 then Some (str_bytes ''m'') else None)"
  by (auto simp: wx_db mem_view_def)

lemma wx_stored: "stored_event (badger_stored mem_view ex_log1) wx_unmarshal p i = (if p = 0 \<and> i = 1 then Some wx_event else None)"
  by (simp add: stored_event_def badger_stored_def wx_view)

lemma wx_pages: "badger_pages mem_badger ex_log1 0 s = Some (if s \<le> 1 then [wx_entry] else [])"
  by (auto simp: badger_pages_def ReadPartition_def mem_sel filter_sort wx_db wx_view wx_entry_def dedup_no_part_prefix key_order
      watermarkPageSize_def decode_encode)

theorem shouldEmitScan_decides_witness:
  "shouldEmitScan 10 wx_unmarshal wx_lsn (badger_pages mem_badger ex_log1) 1 ''t'' ''1'' 3 =
    Ret (Some (Some (\<not> (\<exists>i ev. stored_event (badger_stored mem_view ex_log1) wx_unmarshal 0 i = Some ev \<and> supersedes wx_lsn ''t'' ''1'' 3 ev))))"
  by (rule shouldEmitScan_decides [OF mem_log.db_ok mem_log.log_ok _ PartitionOf_one])
    (use mem_log.seqs_left in \<open>simp_all add: wx_pages\<close>, simp add: ex_log1_def mem_hi_def gm_get0_def)

text \<open>An event is committed and observed, then the index of its table is built.\<close>

definition wx_state :: "checker \<Rightarrow> (string \<times> nat \<times> scan_state) option \<Rightarrow> wm" where
  "wx_state w sc = \<lparr>wm_log = stored_event (badger_stored mem_view ex_log1) wx_unmarshal, wm_unseen = [], wm_wc = w, wm_scan = sc\<rparr>"

definition wx_index :: "(string, u64) gomap \<Rightarrow> table_index" where
  "wx_index ks = \<lparr>ti_id = 0, ti_snapshotLSN = 3, ti_keys = ks, ti_overCap = False\<rparr>"

definition wx_checker :: "(string, u64) gomap \<Rightarrow> checker" where
  "wx_checker ks = (NewWatermarkChecker 1)\<lparr>wc_tables := [(''t'', wx_index ks)], wc_fresh := 1\<rparr>"

lemma wx_key [simp]: "raw_str (ev_key wx_event) = ''1''" "ev_table wx_event = ''t''" "lsnFromMetadata wx_lsn wx_event = Some 5"
  by (simp_all add: wx_event_def ex_event_def lsnFromMetadata_def raw_str_def)

lemma wx_reach: "wm_reach wx_unmarshal wx_lsn 1 (wx_state (wx_checker [(''1'', 5)]) None)"
proof -
  let ?R = "wm_reach wx_unmarshal wx_lsn 1"
  let ?log = "stored_event (badger_stored mem_view ex_log1) wx_unmarshal"
  have log: "(\<lambda>p i. None)(0 := (\<lambda>i. None)(1 \<mapsto> wx_event)) = ?log" by (auto simp: fun_eq_iff wx_stored)
  have "?R \<lparr>wm_log = ?log, wm_unseen = [wx_event], wm_wc = NewWatermarkChecker 1, wm_scan = None\<rparr>"
    using wm_reach.step [OF wm_reach.init wm_step.append [where p = 0 and i = 1 and ev = wx_event]] by (simp add: log)
  from wm_reach.step [OF this wm_step.observe [where a = "[]" and evs = "[wx_event]" and b = "[]"]]
  have "?R (wx_state (NewWatermarkChecker 1) None)"
    by (simp add: wx_state_def ObserveAppend_def observe_one_def NewWatermarkChecker_def)
  from wm_reach.step [OF this wm_step.start [where t = "''t''" and lsn = 3]]
  have "?R (wx_state (wx_checker []) (Some (''t'', 0, [0], 0, None)))"
    by (simp add: wx_state_def wx_checker_def wx_index_def register_index_def set_index_def NewWatermarkChecker_def)
  from wm_reach.step [OF this wm_step.read_page [where es = "[wx_entry]"]]
  have "?R (wx_state (wx_checker []) (Some (''t'', 0, [0], 0, Some [wx_entry])))"
    by (simp add: wx_state_def page_of_def wx_stored wx_entry_def event_of_def MaterializeEvent_def split: if_splits)
  from wm_reach.step [OF this wm_step.merge_page]
  have "?R (wx_state (wx_checker [(''1'', 5)]) (Some (''t'', 0, [], 0, None)))"
    by (simp add: wx_state_def mergeEntries_def wx_checker_def wx_index_def set_index_def mergeEventLocked_def NewWatermarkChecker_def
        defaultMaxIndexKeys_def after_page_def over_cap_def watermarkPageSize_def wx_entry_def event_of_def MaterializeEvent_def Let_def)
  from wm_reach.step [OF this wm_step.scan_done] show ?thesis by (simp add: wx_state_def)
qed

theorem index_agrees_with_scan_witness:
  "ShouldEmit 1 wx_unmarshal wx_lsn (badger_pages mem_badger ex_log1) (wm_wc (wx_state (wx_checker [(''1'', 5)]) None)) ''t'' ''1'' 3 =
     Ret (Some (Some False))"
proof -
  have "shouldEmitScan 1 wx_unmarshal wx_lsn (badger_pages mem_badger ex_log1) 1 ''t'' ''1'' 3 = Ret (Some (Some False))"
    by (simp add: shouldEmitScan_def wx_pages event_of_def MaterializeEvent_def supersedes_iff wx_entry_def watermarkPageSize_def)
  then show ?thesis
    using index_agrees_with_scan [OF wx_reach mem_log.pages.paged_log_axioms, of "''t''" "wx_index [(''1'', 5)]" "''1''" 1 False]
    by (simp add: wx_state_def wx_checker_def wx_index_def)
qed

end
