(* ===== verification/Pk_Canonical.thy ===== *)
theory Pk_Canonical
  imports Pg_Parser
begin

text \<open>
  Canonical primary keys (\<open>internal/pk/canonical.go\<close>). The snapshot reads native values, the WAL
  carries Postgres text; \<open>Canonical\<close> turns the former into the latter, so that both paths name a row
  by the same bytes. \<open>value_fmt\<close> holds the standard library's formatting of floats and times.
\<close>

section \<open>Values\<close>

text \<open>
  The Go types the code distinguishes. A numeric carries the string its \<open>Value\<close> method yields
  (\<^term>\<open>None\<close> when it fails) and its \<open>%v\<close> text.
\<close>

datatype pg_val =
    PgNil
  | PgStr string
  | PgInt int
  | PgUint nat
  | PgFloat32 u32
  | PgFloat64 float64
  | PgBool bool
  | PgBytes bytes
  | PgUUID bytes
  | PgTime int int
  | PgNumeric "string option" string
  | PgStringer string
  | PgOther string

record value_fmt =
  vf_float32 :: "u32 \<Rightarrow> string"
  vf_float64 :: "float64 \<Rightarrow> string"
  vf_time :: "int \<Rightarrow> int \<Rightarrow> string"

text \<open>\<open>strconv.FormatInt(i, 10)\<close> and \<open>%x\<close> on bytes.\<close>

definition int_str :: "int \<Rightarrow> string" where
  "int_str i = (if i < 0 then ''-'' @ dec_str (nat (- i)) else dec_str (nat i))"

definition hex_digit :: "nat \<Rightarrow> char" where
  "hex_digit n = ''0123456789abcdef'' ! n"

definition hex_str :: "bytes \<Rightarrow> string" where
  "hex_str bs = concat (map (\<lambda>b. [hex_digit (unat b div 16), hex_digit (unat b mod 16)]) bs)"

section \<open>Canonical\<close>

definition canonicalNumberString :: "value_fmt \<Rightarrow> pg_val \<Rightarrow> string option" where
  "canonicalNumberString vf v =
     (case v of
        PgInt i \<Rightarrow> Some (int_str i)
      | PgUint n \<Rightarrow> Some (dec_str n)
      | PgFloat32 f \<Rightarrow> Some (vf_float32 vf f)
      | PgFloat64 f \<Rightarrow> Some (vf_float64 vf f)
      | _ \<Rightarrow> None)"

definition canonicalBool :: "bool \<Rightarrow> string" where
  "canonicalBool t = (if t then ''t'' else ''f'')"

definition canonicalUUID :: "bytes \<Rightarrow> string" where
  "canonicalUUID t =
     hex_str (take 4 t) @ ''-'' @ hex_str (take 2 (drop 4 t)) @ ''-'' @ hex_str (take 2 (drop 6 t)) @ ''-'' @
     hex_str (take 2 (drop 8 t)) @ ''-'' @ hex_str (take 6 (drop 10 t))"

definition canonicalPgNumeric :: "string option \<Rightarrow> string \<Rightarrow> string" where
  "canonicalPgNumeric val orig = (case val of Some s \<Rightarrow> s | None \<Rightarrow> orig)"

definition canonicalValue :: "value_fmt \<Rightarrow> pg_val \<Rightarrow> row_val" where
  "canonicalValue vf v =
     (if v = PgNil then VNull
      else case canonicalNumberString vf v of
        Some s \<Rightarrow> VStr s
      | None \<Rightarrow>
          (case v of
             PgStr s \<Rightarrow> VStr s
           | PgBool t \<Rightarrow> VStr (canonicalBool t)
           | PgBytes b \<Rightarrow> VStr (CHR 0x5C # CHR ''x'' # hex_str b)
           | PgUUID b \<Rightarrow> VStr (canonicalUUID b)
           | PgTime t off \<Rightarrow> VStr (vf_time vf t off)
           | PgNumeric val orig \<Rightarrow> VStr (canonicalPgNumeric val orig)
           | PgStringer s \<Rightarrow> VStr s
           | PgOther s \<Rightarrow> VStr s
           | _ \<Rightarrow> VNull))"

definition Canonical :: "value_fmt \<Rightarrow> (row \<Rightarrow> string option) \<Rightarrow> (string, pg_val) gomap \<Rightarrow> string option" where
  "Canonical vf marshal pkMap = marshal (fold (\<lambda>(k, v) out. gm_set k (canonicalValue vf v) out) pkMap [])"

section \<open>The primary key of a snapshot row\<close>

text \<open>
  The loop of \<open>snapshotTable\<close> over the columns of a row: \<open>pkColIdx\<close> maps a key column to its (last)
  position, the map and the tuple of key values are filled as the columns come.
\<close>

type_synonym db_row = "(string \<times> pg_val) list"

definition pkColIdx :: "string list \<Rightarrow> (string, nat) gomap" where
  "pkColIdx cols = fold (\<lambda>(i, c) m. gm_set c i m) (enumerate 0 cols) []"

definition row_map :: "db_row \<Rightarrow> (string, pg_val) gomap" where
  "row_map r = fold (\<lambda>(c, v) m. gm_set c v m) r []"

definition pk_map :: "string list \<Rightarrow> db_row \<Rightarrow> (string, pg_val) gomap" where
  "pk_map cols r = fold (\<lambda>(c, v) m. if gm_get (pkColIdx cols) c = None then m else gm_set c v m) r []"

definition pk_values :: "string list \<Rightarrow> db_row \<Rightarrow> pg_val list" where
  "pk_values cols r =
     fold (\<lambda>(c, v) t. case gm_get (pkColIdx cols) c of None \<Rightarrow> t | Some i \<Rightarrow> t[i := v]) r (replicate (length cols) PgNil)"

section \<open>Both paths name a row alike\<close>

text \<open>
  What Postgres sends for a value on the WAL, where the documentation fixes it: integers in decimal,
  booleans as \<open>t\<close> and \<open>f\<close>, bytea in hexadecimal after \<open>\\x\<close>, a UUID as 32 hexadecimal digits
  in groups of 8, 4, 4, 4 and 12.
\<close>

definition pg_text :: "pg_val \<Rightarrow> string option" where
  "pg_text v =
     (case v of
        PgStr s \<Rightarrow> Some s
      | PgInt i \<Rightarrow> Some (int_str i)
      | PgUint n \<Rightarrow> Some (dec_str n)
      | PgBool b \<Rightarrow> Some (if b then ''t'' else ''f'')
      | PgBytes b \<Rightarrow> Some (CHR 0x5C # CHR ''x'' # hex_str b)
      | PgUUID b \<Rightarrow>
          (let h = hex_str b in
           Some (take 8 h @ ''-'' @ take 4 (drop 8 h) @ ''-'' @ take 4 (drop 12 h) @ ''-'' @ take 4 (drop 16 h) @ ''-'' @ drop 20 h))
      | _ \<Rightarrow> None)"

text \<open>A tuple column that carries the value.\<close>

definition carries :: "col_data \<Rightarrow> pg_val \<Rightarrow> bool" where
  "carries col v \<longleftrightarrow>
     (v = PgNil \<and> col = ColNull) \<or>
     (\<exists>s. pg_text v = Some s \<and> col = ColText s \<and> (\<forall>b. v = PgUUID b \<longrightarrow> length b = 16))"

lemma hex_str_append: "hex_str (a @ b) = hex_str a @ hex_str b"
  by (simp add: hex_str_def)

lemma length_hex_str [simp]: "length (hex_str b) = 2 * length b"
  by (induction b) (simp_all add: hex_str_def)

lemma hex_take_drop: "hex_str (take n b) = take (2 * n) (hex_str b)" "hex_str (drop n b) = drop (2 * n) (hex_str b)"
proof -
  have "hex_str (take n b) = take (2 * n) (hex_str b) \<and> hex_str (drop n b) = drop (2 * n) (hex_str b)"
  proof (induction b arbitrary: n)
    case (Cons x b)
    then show ?case by (cases n) (simp_all add: hex_str_def)
  qed (simp add: hex_str_def)
  then show "hex_str (take n b) = take (2 * n) (hex_str b)" "hex_str (drop n b) = drop (2 * n) (hex_str b)" by simp_all
qed

lemma canonicalUUID_groups: "length b = 16 \<Longrightarrow> pg_text (PgUUID b) = Some (canonicalUUID b)"
  by (simp add: pg_text_def canonicalUUID_def hex_take_drop Let_def drop_drop)

lemma carries_canonical:
  assumes "carries col v"
  shows "(case col of ColText s \<Rightarrow> canonicalValue vf v = VStr s | ColNull \<Rightarrow> canonicalValue vf v = VNull | _ \<Rightarrow> False)"
  using assms canonicalUUID_groups
  by (cases v) (auto simp: carries_def pg_text_def canonicalValue_def canonicalNumberString_def canonicalBool_def Let_def)

lemma update_new: "k \<notin> fst ` set m \<Longrightarrow> gm_set k v m = m @ [(k, v)]"
  by (induction m) auto

lemma pkColIdx_iff: "gm_get (pkColIdx cols) c = None \<longleftrightarrow> c \<notin> set cols"
proof -
  have "gm_get (fold (\<lambda>(i, c) m. gm_set c i m) xs m) c = None \<longleftrightarrow> c \<notin> snd ` set xs \<and> gm_get m c = None" for xs :: "(nat \<times> string) list" and m
    by (induction xs arbitrary: m) (auto simp: gomap_simps split: if_splits)
  moreover have "snd ` set (enumerate 0 cols) = set cols" by (metis list.set_map map_snd_enumerate)
  ultimately show ?thesis by (simp add: pkColIdx_def)
qed

lemma pk_map_filter:
  assumes "distinct (map fst r)"
  shows "pk_map cols r = filter (\<lambda>(c, v). c \<in> set cols) r"
proof -
  have "fold (\<lambda>(c, v) m. if gm_get (pkColIdx cols) c = None then m else gm_set c v m) r m = m @ filter (\<lambda>(c, v). c \<in> set cols) r"
    if "distinct (map fst r)" "fst ` set m \<inter> fst ` set r = {}" for m r
    using that by (induction r arbitrary: m) (auto simp: pkColIdx_iff update_new)
  from this [OF assms, of "[]"] show ?thesis by (simp add: pk_map_def)
qed

lemma Canonical_map:
  assumes "distinct (map fst m)"
  shows "Canonical vf marshal m = marshal (map (\<lambda>(k, v). (k, canonicalValue vf v)) m)"
proof -
  have "fold (\<lambda>(k, v) out. gm_set k (canonicalValue vf v) out) m acc = acc @ map (\<lambda>(k, v). (k, canonicalValue vf v)) m"
    if "distinct (map fst m)" "fst ` set acc \<inter> fst ` set m = {}" for m acc
    using that by (induction m arbitrary: acc) (auto simp: update_new)
  from this [OF assms, of "[]"] show ?thesis by (simp add: Canonical_def)
qed

lemma extractPK_filter:
  assumes "list_all2 carries cols (map snd r)" "map rc_name rcs = map fst r" "distinct (map fst r)"
    and "\<forall>rc \<in> set rcs. bit (rc_flags rc) 0 \<longleftrightarrow> rc_name rc \<in> set pks" "fst ` set acc \<inter> fst ` set r = {}"
  shows "fold (\<lambda>(rc, col) pk. pk_col rc col pk) (zip rcs cols) acc =
    acc @ map (\<lambda>(k, v). (k, canonicalValue vf v)) (filter (\<lambda>(c, v). c \<in> set pks) r)"
  using assms
proof (induction r arbitrary: rcs cols acc)
  case (Cons kv r)
  obtain k v where kv: "kv = (k, v)" by fastforce
  obtain rc rcs' where rcs: "rcs = rc # rcs'" "rc_name rc = k" "map rc_name rcs' = map fst r"
    using Cons.prems(2) by (auto simp: kv map_eq_Cons_conv)
  obtain col cols' where cols: "cols = col # cols'" "carries col v" "list_all2 carries cols' (map snd r)"
    using Cons.prems(1) by (auto simp: kv list_all2_Cons2)
  have col: "pk_col rc col acc = (if k \<in> set pks then acc @ [(k, canonicalValue vf v)] else acc)"
    using carries_canonical [OF cols(2), of vf] Cons.prems(4,5) rcs by (auto simp: pk_col_def kv update_new split: col_data.splits)
  show ?case using Cons.IH [OF cols(3) rcs(3), of "pk_col rc col acc"] Cons.prems col by (auto simp: kv rcs cols(1))
qed simp


definition ck_rel :: relation_msg where
  "ck_rel = \<lparr>rm_id = 1, rm_namespace = ''public'', rm_name = ''users'',
     rm_columns = [\<lparr>rc_name = ''id'', rc_flags = 1\<rparr>, \<lparr>rc_name = ''blob'', rc_flags = 1\<rparr>, \<lparr>rc_name = ''name'', rc_flags = 0\<rparr>]\<rparr>"

definition ck_fmt :: value_fmt where
  "ck_fmt = \<lparr>vf_float32 = (\<lambda>_. ''1''), vf_float64 = (\<lambda>_. ''1''), vf_time = (\<lambda>_ _. ''now'')\<rparr>"


end
