(* ===== verification/Backfill.thy ===== *)
theory Backfill
  imports Watermark Pk_Canonical Pg_Source Go_Strings
begin

text \<open>
  The backfill engine (\<open>internal/backfill\<close>: \<open>store.go\<close>, \<open>cursor.go\<close>, \<open>optimizer.go\<close>,
  \<open>backfill.go\<close>): keyset paging over a table, watermark check per row, buffered appends, persistent
  progress, the five strategies and the reset after slot loss. Inputs of a run (database answers,
  append and save outcomes, clocks, the watermark checker at each row) come from environment records;
  a run may stop at any failure, and running out of page inputs is a crash.
\<close>

section \<open>Persistent state\<close>

record backfill_state =
  bk_source :: string
  bk_table :: string
  bk_status :: string
  bk_strategy :: string
  bk_cursor :: "string option"
  bk_total :: int
  bk_processed :: int
  bk_lsn :: u64
  bk_snapshotID :: string
  bk_started :: "int option"
  bk_updated :: int

type_synonym backfill_store = "(string \<times> string, backfill_state) gomap"

text \<open>The upsert keyed by source and table; the database sets \<open>updated_at\<close>. \<^term>\<open>None\<close> is an error.\<close>

definition SaveState :: "bool \<Rightarrow> int \<Rightarrow> backfill_state \<Rightarrow> backfill_store \<Rightarrow> backfill_store option" where
  "SaveState ok now st store =
     (if ok then Some (gm_set (bk_source st, bk_table st) (st\<lparr>bk_updated := now\<rparr>) store) else None)"

definition LoadState :: "bool \<Rightarrow> string \<Rightarrow> string \<Rightarrow> backfill_store \<Rightarrow> backfill_state option option" where
  "LoadState ok sourceID table store = (if ok then Some (gm_get store (sourceID, table)) else None)"

section \<open>Keyset cursor\<close>

text \<open>\<open>sanitize\<close> is \<open>pgx.Identifier.Sanitize\<close>.\<close>

record keyset_cursor =
  kc_table :: string
  kc_schema :: string
  kc_pkcols :: "string list"
  kc_last :: "pg_val list option"

definition qualifiedTable :: "(string list \<Rightarrow> string) \<Rightarrow> keyset_cursor \<Rightarrow> string" where
  "qualifiedTable sanitize c = (if kc_schema c \<noteq> [] then sanitize [kc_schema c, kc_table c] else sanitize [kc_table c])"

definition quotedPKCols :: "(string list \<Rightarrow> string) \<Rightarrow> keyset_cursor \<Rightarrow> string list" where
  "quotedPKCols sanitize c = map (\<lambda>col. sanitize [col]) (kc_pkcols c)"

definition BuildFirstQuery :: "(string list \<Rightarrow> string) \<Rightarrow> nat \<Rightarrow> keyset_cursor \<Rightarrow> string \<times> pg_val list" where
  "BuildFirstQuery sanitize batchSize c =
     (''SELECT * FROM '' @ qualifiedTable sanitize c @ '' ORDER BY '' @ join (quotedPKCols sanitize c) '' ASC, '' @ '' ASC'' @
      '' LIMIT '' @ dec_str batchSize, [])"

definition whereClause :: "string list \<Rightarrow> string" where
  "whereClause cols =
     (if length cols = 1 then cols ! 0 @ '' > $1''
      else ''('' @ join cols '', '' @ '')'' @ '' > '' @
           ''('' @ join (map (\<lambda>i. ''$'' @ dec_str (i + 1)) [0..<length cols]) '', '' @ '')'')"

definition BuildNextQuery :: "(string list \<Rightarrow> string) \<Rightarrow> nat \<Rightarrow> pg_val list \<Rightarrow> keyset_cursor \<Rightarrow> string \<times> pg_val list" where
  "BuildNextQuery sanitize batchSize lastPK c =
     (let cols = quotedPKCols sanitize c in
      (''SELECT * FROM '' @ qualifiedTable sanitize c @ '' WHERE '' @ whereClause cols @ '' ORDER BY '' @
       join (map (\<lambda>col. col @ '' ASC'') cols) '', '' @ '' LIMIT '' @ dec_str batchSize, lastPK))"

section \<open>Batch size\<close>

definition defaultBatch :: nat where "defaultBatch = 5000"
definition minBatch :: nat where "minBatch = 100"
definition maxBatch :: nat where "maxBatch = 50000"

definition second_ns :: int where "second_ns = 1000000000"

text \<open>\<open>float64(current) * 1.25\<close> is exact on the range of batch sizes, and \<open>int\<close> truncates.\<close>

definition Adjust :: "int \<Rightarrow> nat \<Rightarrow> nat" where
  "Adjust d current =
     (if d < second_ns then min (current * 5 div 4) maxBatch
      else if d > 3 * second_ns then max (current div 2) minBatch
      else current)"

section \<open>Events\<close>

text \<open>\<open>json_int\<close> is the JSON number of an \<open>int64\<close> in the metadata.\<close>

definition MakeReadEvent ::
  "(int \<Rightarrow> json) \<Rightarrow> string \<times> int \<Rightarrow> string \<Rightarrow> string \<Rightarrow> string \<Rightarrow> string \<Rightarrow> string \<Rightarrow> string \<Rightarrow> backfill_state \<Rightarrow> change_event" where
  "MakeReadEvent json_int env sourceID schema table pkJSON rowJSON snapshotID st =
     (let qualified = (if schema \<noteq> [] then schema @ ''.'' @ table else table) in
      \<lparr>ev_id = fst env, ev_idempotency_key = sourceID @ '':'' @ qualified @ '':'' @ pkJSON @ '':read:'' @ snapshotID,
       ev_timestamp = snd env, ev_source = sourceID, ev_operation = OpRead, ev_database = [], ev_schema = schema,
       ev_table = table, ev_key = Some pkJSON, ev_before = None, ev_after = Some rowJSON,
       ev_metadata = [(''snapshot'', JBool True), (''snapshot_id'', JStr snapshotID),
         (''snapshot_progress'', JObj [(''total'', json_int (bk_total st)), (''completed'', json_int (bk_processed st))])],
       ev_ai_context = None\<rparr>)"

definition MakeControlEvent ::
  "(int \<Rightarrow> json) \<Rightarrow> string \<times> int \<Rightarrow> string \<Rightarrow> string \<Rightarrow> string \<Rightarrow> string \<Rightarrow> backfill_state \<Rightarrow> change_event" where
  "MakeControlEvent json_int env sourceID table controlType snapshotID st =
     \<lparr>ev_id = fst env, ev_idempotency_key = sourceID @ '':'' @ table @ '':control:'' @ controlType @ '':'' @ snapshotID,
      ev_timestamp = snd env, ev_source = sourceID, ev_operation = OpControl, ev_database = [], ev_schema = [],
      ev_table = table, ev_key = Some ''{}'', ev_before = None, ev_after = None,
      ev_metadata = [(''control_type'', JStr controlType), (''total_rows'', json_int (bk_processed st)),
        (''snapshot_id'', JStr snapshotID)],
      ev_ai_context = None\<rparr>"

definition newSnapshotID :: "string \<Rightarrow> string \<Rightarrow> int \<Rightarrow> string" where
  "newSnapshotID sourceID table unixNano = sourceID @ ''_'' @ table @ ''_'' @ int_str unixNano"

section \<open>The engine\<close>

definition backfillBatchSize :: nat where "backfillBatchSize = 256"

record backfill_config =
  cf_sourceID :: string
  cf_schema :: string
  cf_table :: string
  cf_strategy :: string
  cf_pkcols :: "string list"

text \<open>
  Dependencies of the engine. \<open>bd_appendBatch\<close> is \<^term>\<open>None\<close> for an engine built without batching;
  both append functions act on a sink state \<open>'w\<close>. \<open>bd_pk_json\<close> and \<open>bd_pk_parse\<close> are \<open>json.Marshal\<close>
  and \<open>json.Unmarshal\<close> on a tuple of values. The rest are JSON, formatting and what the watermark check needs.
\<close>

record 'w backfill_deps =
  bd_sanitize :: "string list \<Rightarrow> string"
  bd_marshal_row :: "(string, pg_val) gomap \<Rightarrow> string option"
  bd_marshal :: "row \<Rightarrow> string option"
  bd_fmt :: value_fmt
  bd_pk_json :: "pg_val list \<Rightarrow> string option"
  bd_pk_parse :: "string \<Rightarrow> pg_val list option"
  bd_json_int :: "int \<Rightarrow> json"
  bd_unmarshal :: "string \<Rightarrow> change_event option"
  bd_parse_lsn :: "string \<Rightarrow> u64 option"
  bd_fuel :: nat
  bd_watermark :: bool
  bd_append :: "bool \<Rightarrow> change_event \<Rightarrow> 'w \<Rightarrow> (source_error + unit) \<times> 'w"
  bd_appendBatch :: "(append_outcome \<Rightarrow> change_event list \<Rightarrow> 'w \<Rightarrow> (source_error + unit) \<times> 'w) option"

datatype backfill_error =
    LoadErr | SaveStateErr | OpenConnErr | QueryErr | RowValuesErr | RowsErr | MarshalRowErr | MarshalPKErr
  | SinkErr source_error | WatermarkPanic | WatermarkFuel | Interrupted

datatype rows_end = RowsDone | RowsBroken backfill_error

text \<open>Inputs of one page; the functions are indexed by the number of rows of the page seen so far.\<close>

record page_env =
  pv_query :: "string \<times> pg_val list \<Rightarrow> (db_row list \<times> rows_end) option"
  pv_checker :: "nat \<Rightarrow> checker"
  pv_read :: "nat \<Rightarrow> u32 \<Rightarrow> u64 \<Rightarrow> log_entry list option"
  pv_event :: "nat \<Rightarrow> string \<times> int"
  pv_append :: "nat \<Rightarrow> bool"
  pv_appendBatch :: "nat \<Rightarrow> append_outcome"
  pv_save :: bool
  pv_now :: int
  pv_elapsed :: int

text \<open>
  The variables of the page loop: \<open>pg_skipped\<close> records schema, table and key of the rows the watermark check
  suppressed, the other fields are the code's variables.
\<close>

record 'w page =
  pg_state :: backfill_state
  pg_cursor :: "pg_val list option"
  pg_buf :: "change_event list"
  pg_bufPK :: "pg_val list option"
  pg_lastPK :: "pg_val list option"
  pg_count :: nat
  pg_sink :: 'w
  pg_skipped :: "(string \<times> string \<times> string) list"

text \<open>Move the cursor; the saved key stays as it is when the tuple does not marshal.\<close>

definition move_cursor :: "(pg_val list \<Rightarrow> string option) \<Rightarrow> pg_val list option \<Rightarrow> 'w page \<Rightarrow> 'w page" where
  "move_cursor pk_json lastPK pg =
     (case lastPK of
        None \<Rightarrow> pg
      | Some k \<Rightarrow>
          pg\<lparr>pg_cursor := Some k,
             pg_state := (case pk_json k of None \<Rightarrow> pg_state pg | Some j \<Rightarrow> (pg_state pg)\<lparr>bk_cursor := Some j\<rparr>)\<rparr>)"

definition flushEventBuf ::
  "(append_outcome \<Rightarrow> change_event list \<Rightarrow> 'w \<Rightarrow> (source_error + unit) \<times> 'w) \<Rightarrow> (pg_val list \<Rightarrow> string option) \<Rightarrow> append_outcome \<Rightarrow>
     'w page \<Rightarrow> (backfill_error + unit) \<times> 'w page" where
  "flushEventBuf appendBatch pk_json oc pg =
     (if pg_buf pg = [] then (Inr (), pg)
      else case appendBatch oc (pg_buf pg) (pg_sink pg) of
             (Inl e, w) \<Rightarrow> (Inl (SinkErr e), pg\<lparr>pg_sink := w\<rparr>)
           | (Inr _, w) \<Rightarrow> (Inr (), (move_cursor pk_json (pg_bufPK pg) (pg\<lparr>pg_sink := w\<rparr>))\<lparr>pg_buf := [], pg_bufPK := None\<rparr>))"

text \<open>The answer of the watermark check for a key: an error answers like emit.\<close>

definition watermark_emits ::
  "'w backfill_deps \<Rightarrow> backfill_config \<Rightarrow> page_env \<Rightarrow> nat \<Rightarrow> string \<Rightarrow> u64 \<Rightarrow> backfill_error + bool" where
  "watermark_emits d cfg env i pkJSON lsn =
     (if \<not> bd_watermark d then Inr True
      else case ShouldEmit (bd_fuel d) (bd_unmarshal d) (bd_parse_lsn d) (pv_read env i) (pv_checker env i) (cf_table cfg) pkJSON lsn of
             Panic \<Rightarrow> Inl WatermarkPanic
           | Ret None \<Rightarrow> Inl WatermarkFuel
           | Ret (Some None) \<Rightarrow> Inr True
           | Ret (Some (Some emit)) \<Rightarrow> Inr emit)"

text \<open>The end of the loop body for a row: \<open>lastPKValues\<close>, \<open>rowCount\<close> and, for an emitted row, \<open>ProcessedRows\<close>.\<close>

definition count_row :: "pg_val list \<Rightarrow> bool \<Rightarrow> 'w page \<Rightarrow> 'w page" where
  "count_row k emitted pg =
     pg\<lparr>pg_lastPK := Some k, pg_count := pg_count pg + 1,
        pg_state := (if emitted then (pg_state pg)\<lparr>bk_processed := bk_processed (pg_state pg) + 1\<rparr> else pg_state pg)\<rparr>"

definition emit_row :: "'w backfill_deps \<Rightarrow> page_env \<Rightarrow> change_event \<Rightarrow> pg_val list \<Rightarrow> 'w page \<Rightarrow> (backfill_error + unit) \<times> 'w page" where
  "emit_row d env ev k pg =
     (let i = pg_count pg in
      case bd_appendBatch d of
        Some appendBatch \<Rightarrow>
          (let pg = pg\<lparr>pg_buf := pg_buf pg @ [ev], pg_bufPK := Some k\<rparr> in
           if backfillBatchSize \<le> length (pg_buf pg) then flushEventBuf appendBatch (bd_pk_json d) (pv_appendBatch env i) pg
           else (Inr (), pg))
      | None \<Rightarrow>
          (case bd_append d (pv_append env i) ev (pg_sink pg) of
             (Inl e, w) \<Rightarrow> (Inl (SinkErr e), pg\<lparr>pg_sink := w\<rparr>)
           | (Inr _, w) \<Rightarrow> (Inr (), pg\<lparr>pg_sink := w\<rparr>)))"

definition snapshot_row ::
  "'w backfill_deps \<Rightarrow> backfill_config \<Rightarrow> page_env \<Rightarrow> string \<Rightarrow> db_row \<Rightarrow> 'w page \<Rightarrow> (backfill_error + unit) \<times> 'w page" where
  "snapshot_row d cfg env snapshotID r pg =
     (let k = pk_values (cf_pkcols cfg) r in
      case bd_marshal_row d (row_map r) of
        None \<Rightarrow> (Inl MarshalRowErr, pg)
      | Some rowJSON \<Rightarrow>
         (case Canonical (bd_fmt d) (bd_marshal d) (pk_map (cf_pkcols cfg) r) of
            None \<Rightarrow> (Inl MarshalPKErr, pg)
          | Some pkJSON \<Rightarrow>
             (case watermark_emits d cfg env (pg_count pg) pkJSON (bk_lsn (pg_state pg)) of
                Inl e \<Rightarrow> (Inl e, pg)
              | Inr False \<Rightarrow> (Inr (), count_row k False (pg\<lparr>pg_skipped := pg_skipped pg @ [(cf_schema cfg, cf_table cfg, pkJSON)]\<rparr>))
              | Inr True \<Rightarrow>
                  (let ev = MakeReadEvent (bd_json_int d) (pv_event env (pg_count pg)) (cf_sourceID cfg) (cf_schema cfg) (cf_table cfg)
                              pkJSON rowJSON snapshotID (pg_state pg) in
                   case emit_row d env ev k pg of
                     (Inl e, pg) \<Rightarrow> (Inl e, pg)
                   | (Inr _, pg) \<Rightarrow> (Inr (), count_row k True pg)))))"

fun row_loop ::
  "'w backfill_deps \<Rightarrow> backfill_config \<Rightarrow> page_env \<Rightarrow> string \<Rightarrow> rows_end \<Rightarrow> db_row list \<Rightarrow> 'w page \<Rightarrow> (backfill_error + unit) \<times> 'w page" where
  "row_loop d cfg env snapshotID fin [] pg = (case fin of RowsDone \<Rightarrow> (Inr (), pg) | RowsBroken e \<Rightarrow> (Inl e, pg))"
| "row_loop d cfg env snapshotID fin (r # rs) pg =
     (case snapshot_row d cfg env snapshotID r pg of
        (Inl e, pg) \<Rightarrow> (Inl e, pg)
      | (Inr _, pg) \<Rightarrow> row_loop d cfg env snapshotID fin rs pg)"

definition page_query :: "'w backfill_deps \<Rightarrow> backfill_config \<Rightarrow> nat \<Rightarrow> pg_val list option \<Rightarrow> string \<times> pg_val list" where
  "page_query d cfg batchSize lastPK =
     (let c = \<lparr>kc_table = cf_table cfg, kc_schema = cf_schema cfg, kc_pkcols = cf_pkcols cfg, kc_last = lastPK\<rparr> in
      case lastPK of
        None \<Rightarrow> BuildFirstQuery (bd_sanitize d) batchSize c
      | Some k \<Rightarrow> BuildNextQuery (bd_sanitize d) batchSize k c)"

record 'w engine =
  en_store :: backfill_store
  en_sink :: 'w
  en_skipped :: "(string \<times> string \<times> string) list"

text \<open>One iteration of the page loop; the flag says that the batch was short and the snapshot is done.\<close>

definition snapshot_page ::
  "'w backfill_deps \<Rightarrow> backfill_config \<Rightarrow> page_env \<Rightarrow> string \<Rightarrow> nat \<Rightarrow> pg_val list option \<Rightarrow> backfill_state \<Rightarrow> 'w engine \<Rightarrow>
     (backfill_error + bool) \<times> pg_val list option \<times> backfill_state \<times> 'w engine" where
  "snapshot_page d cfg env snapshotID batchSize lastPK st en =
     (case pv_query env (page_query d cfg batchSize lastPK) of
        None \<Rightarrow> (Inl QueryErr, lastPK, st, en)
      | Some (rows, fin) \<Rightarrow>
          (let pg = \<lparr>pg_state = st, pg_cursor = lastPK, pg_buf = [], pg_bufPK = None, pg_lastPK = None, pg_count = 0,
                     pg_sink = en_sink en, pg_skipped = en_skipped en\<rparr>;
               leave = (\<lambda>pg. en\<lparr>en_sink := pg_sink pg, en_skipped := pg_skipped pg\<rparr>) in
           case row_loop d cfg env snapshotID fin rows pg of
             (Inl e, pg) \<Rightarrow> (Inl e, pg_cursor pg, pg_state pg, leave pg)
           | (Inr _, pg) \<Rightarrow>
              (case (case bd_appendBatch d of
                       Some appendBatch \<Rightarrow> flushEventBuf appendBatch (bd_pk_json d) (pv_appendBatch env (pg_count pg)) pg
                     | None \<Rightarrow> (Inr (), pg)) of
                 (Inl e, pg) \<Rightarrow> (Inl e, pg_cursor pg, pg_state pg, leave pg)
               | (Inr _, pg) \<Rightarrow>
                   (let pg = move_cursor (bd_pk_json d) (pg_lastPK pg) pg in
                    case SaveState (pv_save env) (pv_now env) (pg_state pg) (en_store en) of
                      None \<Rightarrow> (Inl SaveStateErr, pg_cursor pg, pg_state pg, leave pg)
                    | Some store \<Rightarrow>
                        (Inr (pg_count pg < batchSize), pg_cursor pg, pg_state pg, (leave pg)\<lparr>en_store := store\<rparr>)))))"

fun snapshot_loop ::
  "'w backfill_deps \<Rightarrow> backfill_config \<Rightarrow> string \<Rightarrow> page_env list \<Rightarrow> nat \<Rightarrow> pg_val list option \<Rightarrow> backfill_state \<Rightarrow> 'w engine \<Rightarrow>
     (backfill_error + unit) \<times> backfill_state \<times> 'w engine" where
  "snapshot_loop d cfg snapshotID [] batchSize lastPK st en = (Inl Interrupted, st, en)"
| "snapshot_loop d cfg snapshotID (env # envs) batchSize lastPK st en =
     (case snapshot_page d cfg env snapshotID batchSize lastPK st en of
        (Inl e, lastPK, st, en) \<Rightarrow> (Inl e, st, en)
      | (Inr True, lastPK, st, en) \<Rightarrow> (Inr (), st, en)
      | (Inr False, lastPK, st, en) \<Rightarrow> snapshot_loop d cfg snapshotID envs (Adjust (pv_elapsed env) batchSize) lastPK st en)"

section \<open>Runs\<close>

text \<open>
  Inputs of the run of one table: outcomes of the loads and saves, the connection, the row estimate
  and the flush position (\<^term>\<open>None\<close> when the query fails), clocks, and the pages.
\<close>

record run_env =
  re_load :: bool
  re_open :: bool
  re_reltuples :: "int option"
  re_save1 :: bool
  re_flushLSN :: "string option"
  re_pages :: "page_env list"
  re_control :: bool
  re_control_ev :: "string \<times> int"
  re_save2 :: bool
  re_nano :: int
  re_now :: int

text \<open>Row estimate, snapshot identifier and status; then the position of a first start (BKF-02).\<close>

definition start_state :: "backfill_config \<Rightarrow> run_env \<Rightarrow> backfill_state \<Rightarrow> backfill_state" where
  "start_state cfg env st =
     (let reltuples = (case re_reltuples env of None \<Rightarrow> - 1 | Some n \<Rightarrow> n) in
      st\<lparr>bk_total := (if reltuples > 0 then reltuples else - 1),
         bk_snapshotID := (if bk_snapshotID st = [] then newSnapshotID (cf_sourceID cfg) (cf_table cfg) (re_nano env) else bk_snapshotID st),
         bk_status := ''running''\<rparr>)"

definition assign_lsn :: "'w backfill_deps \<Rightarrow> run_env \<Rightarrow> backfill_state \<Rightarrow> backfill_state" where
  "assign_lsn d env st =
     (if bk_lsn st = 0
      then (case re_flushLSN env of
              None \<Rightarrow> st
            | Some s \<Rightarrow> (case bd_parse_lsn d s of None \<Rightarrow> st | Some l \<Rightarrow> st\<lparr>bk_lsn := l\<rparr>))
      else st)"

definition snapshotTable ::
  "'w backfill_deps \<Rightarrow> backfill_config \<Rightarrow> run_env \<Rightarrow> backfill_state \<Rightarrow> 'w engine \<Rightarrow> (backfill_error + unit) \<times> backfill_state \<times> 'w engine" where
  "snapshotTable d cfg env st en =
     (if \<not> re_open env then (Inl OpenConnErr, st, en)
      else
        let lastPK = (case bk_cursor st of None \<Rightarrow> None | Some j \<Rightarrow> bd_pk_parse d j);
            st = start_state cfg env st
        in case SaveState (re_save1 env) (re_now env) st (en_store en) of
             None \<Rightarrow> (Inl SaveStateErr, st, en)
           | Some store \<Rightarrow>
               snapshot_loop d cfg (bk_snapshotID st) (re_pages env) defaultBatch lastPK (assign_lsn d env st) (en\<lparr>en_store := store\<rparr>))"

definition put_status ::
  "bool \<Rightarrow> int \<Rightarrow> string \<Rightarrow> backfill_state \<Rightarrow> 'w engine \<Rightarrow> (backfill_error + unit) \<times> 'w engine" where
  "put_status ok now status st en =
     (case SaveState ok now (st\<lparr>bk_status := status, bk_updated := now\<rparr>) (en_store en) of
        None \<Rightarrow> (Inl SaveStateErr, en)
      | Some store \<Rightarrow> (Inr (), en\<lparr>en_store := store\<rparr>))"

definition fresh_state :: "backfill_config \<Rightarrow> int \<Rightarrow> backfill_state" where
  "fresh_state cfg now =
     \<lparr>bk_source = cf_sourceID cfg, bk_table = cf_table cfg, bk_status = ''pending'', bk_strategy = cf_strategy cfg, bk_cursor = None,
      bk_total = 0, bk_processed = 0, bk_lsn = 0, bk_snapshotID = [], bk_started = None, bk_updated = now\<rparr>"

definition runOne :: "'w backfill_deps \<Rightarrow> backfill_config \<Rightarrow> run_env \<Rightarrow> 'w engine \<Rightarrow> (backfill_error + unit) \<times> 'w engine" where
  "runOne d cfg env en =
     (case LoadState (re_load env) (cf_sourceID cfg) (cf_table cfg) (en_store en) of
        None \<Rightarrow> (Inl LoadErr, en)
      | Some loaded \<Rightarrow>
          (let st = (case loaded of None \<Rightarrow> fresh_state cfg (re_now env) | Some st \<Rightarrow> st) in
           if cf_strategy cfg = ''stream_only'' then put_status (re_save2 env) (re_now env) ''completed'' st en
           else if cf_strategy cfg = ''snapshot_deferred'' then put_status (re_save2 env) (re_now env) ''deferred'' st en
           else if bk_status st = ''completed'' then (Inr (), en)
           else
             (case snapshotTable d cfg env st en of
                (Inl e, st, en) \<Rightarrow> (Inl e, en)
              | (Inr _, st, en) \<Rightarrow>
                  (let snapshotID = (if bk_snapshotID st = [] then newSnapshotID (cf_sourceID cfg) (cf_table cfg) (re_nano env)
                                     else bk_snapshotID st);
                       ev = MakeControlEvent (bd_json_int d) (re_control_ev env) (cf_sourceID cfg) (cf_table cfg) ''snapshot_complete'' snapshotID st
                   in case bd_append d (re_control env) ev (en_sink en) of
                        (Inl e, w) \<Rightarrow> (Inl (SinkErr e), en\<lparr>en_sink := w\<rparr>)
                      | (Inr _, w) \<Rightarrow> put_status (re_save2 env) (re_now env) ''completed'' st (en\<lparr>en_sink := w\<rparr>)))))"

fun Run :: "'w backfill_deps \<Rightarrow> (backfill_config \<times> run_env) list \<Rightarrow> 'w engine \<Rightarrow> (backfill_error + unit) \<times> 'w engine" where
  "Run d [] en = (Inr (), en)"
| "Run d ((cfg, env) # rest) en =
     (case runOne d cfg env en of
        (Inl e, en) \<Rightarrow> (Inl e, en)
      | (Inr _, en) \<Rightarrow> Run d rest en)"

definition reset_state :: "backfill_config \<Rightarrow> u64 \<Rightarrow> int \<Rightarrow> int \<Rightarrow> backfill_state \<Rightarrow> backfill_state" where
  "reset_state cfg snapshotLSN now nano st =
     st\<lparr>bk_status := ''pending'', bk_strategy := cf_strategy cfg, bk_cursor := None, bk_total := 0, bk_processed := 0,
        bk_lsn := snapshotLSN, bk_snapshotID := newSnapshotID (cf_sourceID cfg) (cf_table cfg) nano,
        bk_started := None, bk_updated := now\<rparr>"

text \<open>Inputs per table of a reset: load and save outcome and the clock.\<close>

fun ResetForSlotLoss ::
  "u64 \<Rightarrow> int \<Rightarrow> (backfill_config \<times> bool \<times> bool \<times> int) list \<Rightarrow> 'w engine \<Rightarrow> (backfill_error + unit) \<times> 'w engine" where
  "ResetForSlotLoss snapshotLSN now [] en = (Inr (), en)"
| "ResetForSlotLoss snapshotLSN now ((cfg, load_ok, save_ok, nano) # rest) en =
     (if cf_strategy cfg = ''stream_only'' then ResetForSlotLoss snapshotLSN now rest en
      else case LoadState load_ok (cf_sourceID cfg) (cf_table cfg) (en_store en) of
        None \<Rightarrow> (Inl LoadErr, en)
      | Some loaded \<Rightarrow>
          (case SaveState save_ok now
                  (reset_state cfg snapshotLSN now nano (case loaded of None \<Rightarrow> fresh_state cfg now | Some st \<Rightarrow> st)) (en_store en) of
             None \<Rightarrow> (Inl SaveStateErr, en)
           | Some store \<Rightarrow> ResetForSlotLoss snapshotLSN now rest (en\<lparr>en_store := store\<rparr>)))"

fun HasPendingBackfills :: "(backfill_config \<times> bool) list \<Rightarrow> backfill_store \<Rightarrow> bool" where
  "HasPendingBackfills [] store = False"
| "HasPendingBackfills ((cfg, load_ok) # rest) store =
     (if cf_strategy cfg = ''stream_only'' then HasPendingBackfills rest store
      else case LoadState load_ok (cf_sourceID cfg) (cf_table cfg) store of
        None \<Rightarrow> False
      | Some None \<Rightarrow> True
      | Some (Some st) \<Rightarrow> bk_status st = ''pending'' \<or> bk_status st = ''running'' \<or> HasPendingBackfills rest store)"

end
