(* ===== verification/Backfill_Safety.thy ===== *)
theory Backfill_Safety
  imports Backfill
begin

text \<open>
  What a finished snapshot has covered. Two interfaces: the sink that snapshot events are appended
  to (the connector provides it), and the pages that the database returns for the keyset queries.
  The table may change while it is read; the theorem is about the keys that are there all the time.
\<close>

section \<open>The sink\<close>

locale backfill_sink =
  fixes d :: "'w backfill_deps" and durable :: "'w \<Rightarrow> change_event set" and sink_ok :: "'w \<Rightarrow> bool"
  assumes append_law: "sink_ok w \<Longrightarrow> bd_append d ok ev w = (r, w') \<Longrightarrow>
      sink_ok w' \<and> durable w \<subseteq> durable w' \<and> (r = Inr () \<longrightarrow> ev \<in> durable w')"
    and batch_law: "bd_appendBatch d = Some ab \<Longrightarrow> sink_ok w \<Longrightarrow> ab oc evs w = (r, w') \<Longrightarrow>
      sink_ok w' \<and> durable w \<subseteq> durable w' \<and> (r = Inr () \<longrightarrow> set evs \<subseteq> durable w')"

text \<open>The production wiring: \<open>NewBackfillEngineWithBatch\<close> with the two methods of the connector.\<close>

definition NewBackfillEngineWithBatch :: "connector backfill_deps \<Rightarrow> connector backfill_deps" where
  "NewBackfillEngineWithBatch d = d\<lparr>bd_append := AppendAndQueue, bd_appendBatch := Some AppendAndQueueBatch\<rparr>"

interpretation connector_sink: backfill_sink "NewBackfillEngineWithBatch d" "\<lambda>c. set (cn_log c)" cn_has_log for d
  by unfold_locales
    (auto simp: NewBackfillEngineWithBatch_def AppendAndQueue_def AppendAndQueueBatch_def split: if_splits append_outcome.splits)

section \<open>The pages\<close>

text \<open>
  \<open>K\<close> are the key tuples of rows that are in the table during every query, \<open>name\<close> their canonical
  JSON, \<open>earlier\<close> the order of the database. A page that ended normally has every such key after the
  position, or it is full and the key comes after all its rows.
\<close>

definition page_complete ::
  "'w backfill_deps \<Rightarrow> backfill_config \<Rightarrow> (pg_val list \<Rightarrow> pg_val list \<Rightarrow> bool) \<Rightarrow> pg_val list set \<Rightarrow> (pg_val list \<Rightarrow> string) \<Rightarrow> page_env \<Rightarrow> bool" where
  "page_complete d cfg earlier K name env \<longleftrightarrow>
     (\<forall>n pos rows fin. pv_query env (page_query d cfg n pos) = Some (rows, fin) \<longrightarrow>
        (\<forall>r \<in> set rows. pk_values (cf_pkcols cfg) r \<in> K \<longrightarrow>
           Canonical (bd_fmt d) (bd_marshal d) (pk_map (cf_pkcols cfg) r) = Some (name (pk_values (cf_pkcols cfg) r))) \<and>
        (fin = RowsDone \<longrightarrow>
           (\<forall>k \<in> K. (\<forall>p. pos = Some p \<longrightarrow> earlier p k) \<longrightarrow>
              k \<in> pk_values (cf_pkcols cfg) ` set rows \<or> (n \<le> length rows \<and> (\<forall>r \<in> set rows. earlier (pk_values (cf_pkcols cfg) r) k)))))"

text \<open>A saved cursor never reads back as a later position.\<close>

definition cursor_reads_back ::
  "'w backfill_deps \<Rightarrow> (pg_val list \<Rightarrow> pg_val list \<Rightarrow> bool) \<Rightarrow> pg_val list set \<Rightarrow> bool" where
  "cursor_reads_back d earlier K \<longleftrightarrow>
     (\<forall>q j p. bd_pk_json d q = Some j \<and> bd_pk_parse d j = Some p \<longrightarrow> (\<forall>k \<in> K. earlier q k \<longrightarrow> earlier p k))"

locale snapshot = backfill_sink d durable sink_ok
  for d :: "'w backfill_deps" and durable :: "'w \<Rightarrow> change_event set" and sink_ok :: "'w \<Rightarrow> bool" +
  fixes cfg :: backfill_config and earlier :: "pg_val list \<Rightarrow> pg_val list \<Rightarrow> bool"
    and K :: "pg_val list set" and name :: "pg_val list \<Rightarrow> string"
begin

definition names_row :: "string \<Rightarrow> change_event \<Rightarrow> bool" where
  "names_row j ev \<longleftrightarrow> ev_operation ev = OpRead \<and> ev_source ev = cf_sourceID cfg \<and> ev_schema ev = cf_schema cfg \<and>
     ev_table ev = cf_table cfg \<and> ev_key ev = Some j"

definition handled :: "'w \<Rightarrow> (string \<times> string \<times> string) list \<Rightarrow> string \<Rightarrow> bool" where
  "handled w skipped j \<longleftrightarrow> (\<exists>ev \<in> durable w. names_row j ev) \<or> (cf_schema cfg, cf_table cfg, j) \<in> set skipped"

abbreviation key :: "db_row \<Rightarrow> pg_val list" where
  "key \<equiv> pk_values (cf_pkcols cfg)"

text \<open>Everything up to a position is handled.\<close>

definition covered :: "'w \<Rightarrow> (string \<times> string \<times> string) list \<Rightarrow> pg_val list option \<Rightarrow> bool" where
  "covered w skipped pos \<longleftrightarrow> (\<forall>k \<in> K. \<forall>p. pos = Some p \<and> \<not> earlier p k \<longrightarrow> handled w skipped (name k))"

text \<open>What holds inside a page after the rows \<open>done\<close>, which began at position \<open>pos0\<close> in state \<open>st0\<close>.\<close>

definition same_run :: "backfill_state \<Rightarrow> backfill_state \<Rightarrow> bool" where
  "same_run st0 st \<longleftrightarrow> bk_source st = bk_source st0 \<and> bk_table st = bk_table st0 \<and> bk_status st = bk_status st0 \<and>
     bk_snapshotID st = bk_snapshotID st0 \<and> bk_lsn st = bk_lsn st0"

definition core_inv :: "'w page \<Rightarrow> db_row list \<Rightarrow> 'w page \<Rightarrow> bool" where
  "core_inv pg0 seen pg \<longleftrightarrow>
     sink_ok (pg_sink pg) \<and> durable (pg_sink pg0) \<subseteq> durable (pg_sink pg) \<and> set (pg_skipped pg0) \<subseteq> set (pg_skipped pg) \<and>
     same_run (pg_state pg0) (pg_state pg) \<and>
     (pg_cursor pg = pg_cursor pg0 \<or> pg_cursor pg \<in> Some ` key ` set seen) \<and>
     (bk_cursor (pg_state pg) = bk_cursor (pg_state pg0) \<or> (\<exists>r \<in> set seen. \<exists>j. bd_pk_json d (key r) = Some j \<and> bk_cursor (pg_state pg) = Some j)) \<and>
     (pg_bufPK pg = None \<or> pg_bufPK pg \<in> Some ` key ` set seen) \<and> (bd_appendBatch d = None \<longrightarrow> pg_buf pg = []) \<and>
     (\<forall>r \<in> set seen. \<forall>j. Canonical (bd_fmt d) (bd_marshal d) (pk_map (cf_pkcols cfg) r) = Some j \<longrightarrow>
        handled (pg_sink pg) (pg_skipped pg) j \<or> (\<exists>ev \<in> set (pg_buf pg). names_row j ev))"

definition page_inv :: "'w page \<Rightarrow> db_row list \<Rightarrow> 'w page \<Rightarrow> bool" where
  "page_inv pg0 seen pg \<longleftrightarrow> core_inv pg0 seen pg \<and> pg_count pg = length seen \<and>
     pg_lastPK pg = (if seen = [] then None else Some (key (last seen)))"

lemma handled_mono:
  "handled w sk j \<Longrightarrow> durable w \<subseteq> durable w' \<Longrightarrow> set sk \<subseteq> set sk' \<Longrightarrow> handled w' sk' j"
  by (auto simp: handled_def)

lemma covered_mono: "covered w sk pos \<Longrightarrow> durable w \<subseteq> durable w' \<Longrightarrow> set sk \<subseteq> set sk' \<Longrightarrow> covered w' sk' pos"
  using handled_mono unfolding covered_def by blast

definition page_frame :: "'w page \<Rightarrow> 'w page \<Rightarrow> bool" where
  "page_frame pg0 pg \<longleftrightarrow> sink_ok (pg_sink pg) \<and> durable (pg_sink pg0) \<subseteq> durable (pg_sink pg) \<and> set (pg_skipped pg0) \<subseteq> set (pg_skipped pg)"

lemma core_inv_frame: "core_inv pg0 seen pg \<Longrightarrow> page_frame pg0 pg"
  by (simp add: core_inv_def page_frame_def)

lemma page_inv_frame: "page_inv pg0 seen pg \<Longrightarrow> page_frame pg0 pg"
  by (auto simp: page_inv_def intro: core_inv_frame)

lemma move_cursor_frame [simp]:
  "pg_sink (move_cursor f k pg) = pg_sink pg" "pg_skipped (move_cursor f k pg) = pg_skipped pg" "pg_buf (move_cursor f k pg) = pg_buf pg"
  "pg_bufPK (move_cursor f k pg) = pg_bufPK pg" "pg_lastPK (move_cursor f k pg) = pg_lastPK pg" "pg_count (move_cursor f k pg) = pg_count pg"
  "same_run st0 (pg_state (move_cursor f k pg)) = same_run st0 (pg_state pg)"
  by (auto simp: move_cursor_def same_run_def split: option.splits)

lemma move_cursor_inv:
  assumes "core_inv pg0 seen pg" "k = None \<or> k \<in> Some ` key ` set seen"
  shows "core_inv pg0 seen (move_cursor (bd_pk_json d) k pg)"
proof (cases k)
  case None
  then show ?thesis using assms by (simp add: move_cursor_def)
next
  case (Some q)
  then have q: "q \<in> key ` set seen" using assms(2) by auto
  have "pg_cursor (move_cursor (bd_pk_json d) k pg) \<in> Some ` key ` set seen" using q by (simp add: move_cursor_def Some)
  moreover have "bk_cursor (pg_state (move_cursor (bd_pk_json d) k pg)) = bk_cursor (pg_state pg) \<or>
      (\<exists>r \<in> set seen. \<exists>j. bd_pk_json d (key r) = Some j \<and> bk_cursor (pg_state (move_cursor (bd_pk_json d) k pg)) = Some j)"
    using q by (auto simp: move_cursor_def Some split: option.splits)
  ultimately show ?thesis using assms(1) unfolding core_inv_def by auto
qed

lemma flush_step:
  assumes inv: "core_inv pg0 seen pg" and ab: "bd_appendBatch d = Some ab"
    and f: "flushEventBuf ab (bd_pk_json d) oc pg = (res, pg')"
  shows "(res = Inr () \<longrightarrow> core_inv pg0 seen pg' \<and> pg_buf pg' = []) \<and> page_frame pg0 pg' \<and>
    pg_count pg' = pg_count pg \<and> pg_lastPK pg' = pg_lastPK pg"
proof (cases "pg_buf pg = []")
  case True
  then show ?thesis using f inv core_inv_frame [OF inv] by (auto simp: flushEventBuf_def)
next
  case False
  obtain r w where w: "ab oc (pg_buf pg) (pg_sink pg) = (r, w)" by fastforce
  have ok: "sink_ok (pg_sink pg)" using inv by (simp add: core_inv_def)
  note law = batch_law [OF ab ok w]
  have base: "page_frame pg0 (pg\<lparr>pg_sink := w\<rparr>)" using law inv by (auto simp: page_frame_def core_inv_def)
  show ?thesis
  proof (cases r)
    case (Inl e)
    then show ?thesis using f False w base by (auto simp: flushEventBuf_def)
  next
    case (Inr u)
    then have dur: "set (pg_buf pg) \<subseteq> durable w" using law by simp
    let ?pg = "pg\<lparr>pg_sink := w, pg_buf := [], pg_bufPK := None\<rparr>"
    have pg': "pg' = move_cursor (bd_pk_json d) (pg_bufPK pg) ?pg" "res = Inr ()"
      using f False w Inr by (auto simp: flushEventBuf_def move_cursor_def split: option.splits)
    have "handled w (pg_skipped pg) j" if "handled (pg_sink pg) (pg_skipped pg) j \<or> (\<exists>ev \<in> set (pg_buf pg). names_row j ev)" for j
      using that law dur by (auto simp: handled_def)
    then have "core_inv pg0 seen ?pg" using inv law unfolding core_inv_def by auto
    then have "core_inv pg0 seen pg'" unfolding pg' by (rule move_cursor_inv) (use inv in \<open>simp add: core_inv_def\<close>)
    then show ?thesis using core_inv_frame pg' by auto
  qed
qed

text \<open>A row counts as seen once its key is skipped, appended or buffered.\<close>

lemma core_inv_snoc:
  assumes "core_inv pg0 seen pg"
    and "\<And>j. Canonical (bd_fmt d) (bd_marshal d) (pk_map (cf_pkcols cfg) r) = Some j \<Longrightarrow>
      handled (pg_sink pg) (pg_skipped pg) j \<or> (\<exists>ev \<in> set (pg_buf pg). names_row j ev)"
  shows "core_inv pg0 (seen @ [r]) pg"
  using assms unfolding core_inv_def by auto

lemma buffer_inv:
  assumes "core_inv pg0 seen pg" "bd_appendBatch d \<noteq> None"
  shows "core_inv pg0 seen (pg\<lparr>pg_buf := pg_buf pg @ [ev]\<rparr>)"
  using assms unfolding core_inv_def by auto

lemma bufPK_inv:
  assumes "core_inv pg0 seen pg" "k \<in> key ` set seen"
  shows "core_inv pg0 seen (pg\<lparr>pg_bufPK := Some k\<rparr>)"
  using assms unfolding core_inv_def by auto

lemma emit_step:
  assumes inv: "core_inv pg0 seen pg" and j: "Canonical (bd_fmt d) (bd_marshal d) (pk_map (cf_pkcols cfg) r) = Some j"
    and ev: "names_row j ev" and e: "emit_row d env ev (key r) pg = (res, pg')"
  shows "(res = Inr () \<longrightarrow> core_inv pg0 (seen @ [r]) pg') \<and> page_frame pg0 pg' \<and> pg_count pg' = pg_count pg"
proof (cases "bd_appendBatch d")
  case None
  obtain s w where w: "bd_append d (pv_append env (pg_count pg)) ev (pg_sink pg) = (s, w)" by fastforce
  have ok: "sink_ok (pg_sink pg)" using inv by (simp add: core_inv_def)
  note law = append_law [OF ok w]
  have pg': "pg' = pg\<lparr>pg_sink := w\<rparr>" "res = Inr () \<Longrightarrow> s = Inr ()" using e None w by (auto simp: emit_row_def Let_def split: sum.splits)
  have "core_inv pg0 seen pg'"
    using inv law handled_mono [of "pg_sink pg" "pg_skipped pg" _ w "pg_skipped pg"] unfolding core_inv_def pg' by auto
  moreover have "handled w (pg_skipped pg) j" if "res = Inr ()" using law pg'(2) [OF that] ev by (auto simp: handled_def)
  ultimately show ?thesis using core_inv_snoc [of pg0 seen pg' r] core_inv_frame j by (auto simp: pg')
next
  case (Some ab)
  let ?pg = "pg\<lparr>pg_buf := pg_buf pg @ [ev], pg_bufPK := Some (key r)\<rparr>"
  have "core_inv pg0 (seen @ [r]) (pg\<lparr>pg_buf := pg_buf pg @ [ev]\<rparr>)"
    by (rule core_inv_snoc [OF buffer_inv [OF inv]]) (use Some j ev in auto)
  from bufPK_inv [OF this, of "key r"] have b: "core_inv pg0 (seen @ [r]) ?pg" by simp
  have "emit_row d env ev (key r) pg =
      (if backfillBatchSize \<le> length (pg_buf ?pg) then flushEventBuf ab (bd_pk_json d) (pv_appendBatch env (pg_count pg)) ?pg else (Inr (), ?pg))"
    by (simp add: emit_row_def Some)
  then consider (flush) "flushEventBuf ab (bd_pk_json d) (pv_appendBatch env (pg_count pg)) ?pg = (res, pg')" | (keep) "res = Inr ()" "pg' = ?pg"
    using e by (auto split: if_splits)
  then show ?thesis
  proof cases
    case flush
    from flush_step [OF b Some this] show ?thesis by simp
  next
    case keep
    then show ?thesis using b core_inv_frame [OF b] by simp
  qed
qed

lemma row_step:
  assumes inv: "page_inv pg0 seen pg" and s: "snapshot_row d cfg env sid r pg = (res, pg')"
  shows "(res = Inr () \<longrightarrow> page_inv pg0 (seen @ [r]) pg') \<and> page_frame pg0 pg'"
proof -
  have core: "core_inv pg0 seen pg" and cnt: "pg_count pg = length seen" using inv by (simp_all add: page_inv_def)
  note fr = core_inv_frame [OF core]
  have counted: "page_inv pg0 (seen @ [r]) (count_row (key r) b p)" if "core_inv pg0 (seen @ [r]) p" "pg_count p = length seen" for b p
    using that by (simp add: page_inv_def core_inv_def count_row_def same_run_def)
  have framed: "page_frame pg0 (count_row k b p) = page_frame pg0 p" for k b p by (simp add: page_frame_def count_row_def)
  obtain rowJSON j e where c: "bd_marshal_row d (row_map r) = Some rowJSON \<and> Canonical (bd_fmt d) (bd_marshal d) (pk_map (cf_pkcols cfg) r) = Some j \<and>
      watermark_emits d cfg env (pg_count pg) j (bk_lsn (pg_state pg)) = Inr e \<or> (pg' = pg \<and> (\<exists>x. res = Inl x))"
    using s by (auto simp: snapshot_row_def Let_def split: option.splits sum.splits)
  show ?thesis
  proof (cases "pg' = pg \<and> (\<exists>x. res = Inl x)")
    case True
    then show ?thesis using fr by auto
  next
    case False
    then have m: "bd_marshal_row d (row_map r) = Some rowJSON" and j: "Canonical (bd_fmt d) (bd_marshal d) (pk_map (cf_pkcols cfg) r) = Some j"
      and e: "watermark_emits d cfg env (pg_count pg) j (bk_lsn (pg_state pg)) = Inr e" using c by blast+
    show ?thesis
    proof (cases e)
      case False
      let ?p = "pg\<lparr>pg_skipped := pg_skipped pg @ [(cf_schema cfg, cf_table cfg, j)]\<rparr>"
      have pg': "pg' = count_row (key r) False ?p" "res = Inr ()" using s m j e False by (simp_all add: snapshot_row_def)
      have "core_inv pg0 seen ?p" using core unfolding core_inv_def by (auto simp: handled_def)
      then have "core_inv pg0 (seen @ [r]) ?p" by (rule core_inv_snoc) (use j in \<open>simp add: handled_def\<close>)
      then show ?thesis using counted [of ?p False] core_inv_frame [of pg0 "seen @ [r]" ?p] framed cnt pg' by simp
    next
      case True
      let ?ev = "MakeReadEvent (bd_json_int d) (pv_event env (pg_count pg)) (cf_sourceID cfg) (cf_schema cfg) (cf_table cfg) j rowJSON sid (pg_state pg)"
      obtain q p where em: "emit_row d env ?ev (key r) pg = (q, p)" by fastforce
      have "names_row j ?ev" by (simp add: names_row_def MakeReadEvent_def Let_def)
      from emit_step [OF core j this em]
      have E: "(q = Inr () \<longrightarrow> core_inv pg0 (seen @ [r]) p) \<and> page_frame pg0 p \<and> pg_count p = pg_count pg" .
      have "(res, pg') = (case q of Inl x \<Rightarrow> (Inl x, p) | Inr _ \<Rightarrow> (Inr (), count_row (key r) True p))"
        using s m j e True em by (simp add: snapshot_row_def Let_def)
      then show ?thesis using E counted [of p True] framed cnt by (cases q) auto
    qed
  qed
qed

lemma row_loop_inv:
  assumes "row_loop d cfg env sid fin rows pg = (res, pg')" "page_inv pg0 seen pg"
  shows "(res = Inr () \<longrightarrow> page_inv pg0 (seen @ rows) pg' \<and> fin = RowsDone) \<and> page_frame pg0 pg'"
  using assms
proof (induction rows arbitrary: pg seen)
  case Nil
  then show ?case using page_inv_frame by (auto split: rows_end.splits)
next
  case (Cons r rows)
  obtain q p where s: "snapshot_row d cfg env sid r pg = (q, p)" by fastforce
  note R = row_step [OF Cons.prems(2) s]
  show ?case
  proof (cases q)
    case (Inl x)
    then show ?thesis using Cons.prems(1) s R by auto
  next
    case (Inr u)
    then show ?thesis using Cons.IH [of p "seen @ [r]"] Cons.prems(1) s R by auto
  qed
qed

end

section \<open>Pages and runs\<close>

context snapshot
begin

definition grows :: "'w engine \<Rightarrow> 'w engine \<Rightarrow> bool" where
  "grows en en' \<longleftrightarrow> (sink_ok (en_sink en) \<longrightarrow> sink_ok (en_sink en') \<and> durable (en_sink en) \<subseteq> durable (en_sink en')) \<and>
     set (en_skipped en) \<subseteq> set (en_skipped en')"

definition all_handled :: "'w engine \<Rightarrow> bool" where
  "all_handled en \<longleftrightarrow> (\<forall>k \<in> K. handled (en_sink en) (en_skipped en) (name k))"

abbreviation covers :: "'w engine \<Rightarrow> pg_val list option \<Rightarrow> bool" where
  "covers en \<equiv> covered (en_sink en) (en_skipped en)"

definition saved_pos :: "backfill_state \<Rightarrow> pg_val list option" where
  "saved_pos st = (case bk_cursor st of None \<Rightarrow> None | Some j \<Rightarrow> bd_pk_parse d j)"

text \<open>After a complete page every position the page passed through is covered.\<close>

lemma page_end:
  assumes reads_back: "cursor_reads_back d earlier K" and complete: "page_complete d cfg earlier K name env"
    and q: "pv_query env (page_query d cfg n pos) = Some (rows, RowsDone)"
    and inv: "core_inv pg0 rows pg" and buf: "pg_buf pg = []" and pos: "pg_cursor pg0 = pos"
    and c: "covered (pg_sink pg0) (pg_skipped pg0) pos" "covered (pg_sink pg0) (pg_skipped pg0) (saved_pos (pg_state pg0))"
  shows "covered (pg_sink pg) (pg_skipped pg) (pg_cursor pg)" "covered (pg_sink pg) (pg_skipped pg) (saved_pos (pg_state pg))"
    "length rows < n \<Longrightarrow> \<forall>k \<in> K. handled (pg_sink pg) (pg_skipped pg) (name k)"
proof -
  let ?h = "\<lambda>k. handled (pg_sink pg) (pg_skipped pg) (name k)"
  from complete q have law: "\<And>r. r \<in> set rows \<Longrightarrow> key r \<in> K \<Longrightarrow>
        Canonical (bd_fmt d) (bd_marshal d) (pk_map (cf_pkcols cfg) r) = Some (name (key r))"
      "\<And>k. k \<in> K \<Longrightarrow> \<forall>p. pos = Some p \<longrightarrow> earlier p k \<Longrightarrow> k \<in> key ` set rows \<or> (n \<le> length rows \<and> (\<forall>r \<in> set rows. earlier (key r) k))"
    unfolding page_complete_def by blast+
  have rows: "?h (key r)" if "r \<in> set rows" "key r \<in> K" for r
    using inv law(1) [OF that] that(1) buf unfolding core_inv_def by auto
  have mono: "durable (pg_sink pg0) \<subseteq> durable (pg_sink pg)" "set (pg_skipped pg0) \<subseteq> set (pg_skipped pg)" using inv by (simp_all add: core_inv_def)
  note c' = covered_mono [OF c(1) mono] covered_mono [OF c(2) mono]
  have k: "?h k \<or> (n \<le> length rows \<and> (\<forall>r \<in> set rows. earlier (key r) k))" if "k \<in> K" for k
  proof (cases "\<forall>p. pos = Some p \<longrightarrow> earlier p k")
    case True
    from law(2) [OF that True] rows that show ?thesis by auto
  next
    case False
    then show ?thesis using c'(1) that unfolding covered_def by blast
  qed
  have at: "covered (pg_sink pg) (pg_skipped pg) (Some (key r))" if "r \<in> set rows" for r
    using k that unfolding covered_def by blast
  show "covered (pg_sink pg) (pg_skipped pg) (pg_cursor pg)" using inv c'(1) pos at unfolding core_inv_def by auto
  show "covered (pg_sink pg) (pg_skipped pg) (saved_pos (pg_state pg))"
  proof (cases "bk_cursor (pg_state pg) = bk_cursor (pg_state pg0)")
    case True
    then show ?thesis using c'(2) by (simp add: saved_pos_def)
  next
    case False
    then obtain r j where r: "r \<in> set rows" "bd_pk_json d (key r) = Some j" "bk_cursor (pg_state pg) = Some j"
      using inv unfolding core_inv_def by auto
    then have "covered (pg_sink pg) (pg_skipped pg) (bd_pk_parse d j)"
      using at [OF r(1)] reads_back unfolding covered_def cursor_reads_back_def by blast
    then show ?thesis by (simp add: saved_pos_def r)
  qed
  show "\<forall>k \<in> K. ?h k" if "length rows < n" using k that by fastforce
qed

lemma page_step:
  assumes reads_back: "cursor_reads_back d earlier K" and complete: "page_complete d cfg earlier K name env"
    and s: "snapshot_page d cfg env sid n pos st en = (res, pos', st', en')"
    and ok: "sink_ok (en_sink en)" and c: "covers en pos" "covers en (saved_pos st)"
  shows "grows en en' \<and> (\<forall>e. res = Inl e \<longrightarrow> en_store en' = en_store en) \<and>
    (\<forall>b. res = Inr b \<longrightarrow> en_store en' = gm_set (bk_source st, bk_table st) (st'\<lparr>bk_updated := pv_now env\<rparr>) (en_store en) \<and>
       same_run st st' \<and> covers en' pos' \<and> covers en' (saved_pos st') \<and> (b \<longrightarrow> all_handled en'))"
proof (cases "pv_query env (page_query d cfg n pos)")
  case None
  then show ?thesis using s by (auto simp: snapshot_page_def grows_def)
next
  case (Some rf)
  obtain rows fin where rf: "rf = (rows, fin)" by fastforce
  define pg0 where "pg0 = \<lparr>pg_state = st, pg_cursor = pos, pg_buf = [], pg_bufPK = None, pg_lastPK = None, pg_count = 0,
    pg_sink = en_sink en, pg_skipped = en_skipped en\<rparr>"
  let ?leave = "\<lambda>pg. en\<lparr>en_sink := pg_sink pg, en_skipped := pg_skipped pg\<rparr>"
  have init: "page_inv pg0 [] pg0" using ok by (simp add: page_inv_def core_inv_def pg0_def same_run_def)
  have grow: "page_frame pg0 pg \<Longrightarrow> grows en (?leave pg)" for pg by (simp add: page_frame_def grows_def pg0_def)
  obtain r1 pg1 where l: "row_loop d cfg env sid fin rows pg0 = (r1, pg1)" by fastforce
  note L = row_loop_inv [OF l init, simplified]
  let ?fl = "case bd_appendBatch d of Some ab \<Rightarrow> flushEventBuf ab (bd_pk_json d) (pv_appendBatch env (pg_count pg1)) pg1 | None \<Rightarrow> (Inr (), pg1)"
  obtain r2 pg2 where f: "?fl = (r2, pg2)" by fastforce
  let ?pg = "move_cursor (bd_pk_json d) (pg_lastPK pg2) pg2"
  have def: "(res, pos', st', en') = (case r1 of Inl e \<Rightarrow> (Inl e, pg_cursor pg1, pg_state pg1, ?leave pg1) | Inr _ \<Rightarrow>
      (case r2 of Inl e \<Rightarrow> (Inl e, pg_cursor pg2, pg_state pg2, ?leave pg2) | Inr _ \<Rightarrow>
        (case SaveState (pv_save env) (pv_now env) (pg_state ?pg) (en_store en) of
           None \<Rightarrow> (Inl SaveStateErr, pg_cursor ?pg, pg_state ?pg, ?leave ?pg)
         | Some store \<Rightarrow> (Inr (pg_count ?pg < n), pg_cursor ?pg, pg_state ?pg, (?leave ?pg)\<lparr>en_store := store\<rparr>))))"
    using s Some l f unfolding rf snapshot_page_def pg0_def [symmetric] by (simp add: Let_def split: sum.splits option.splits)
  show ?thesis
  proof (cases r1)
    case (Inl e)
    then show ?thesis using def L grow by auto
  next
    case (Inr u)
    then have I1: "page_inv pg0 rows pg1" "fin = RowsDone" using L by auto
    have F: "(r2 = Inr () \<longrightarrow> core_inv pg0 rows pg2 \<and> pg_buf pg2 = []) \<and> page_frame pg0 pg2 \<and> pg_count pg2 = pg_count pg1 \<and> pg_lastPK pg2 = pg_lastPK pg1"
    proof (cases "bd_appendBatch d")
      case None
      then show ?thesis using f I1 page_inv_frame [OF I1(1)] by (auto simp: page_inv_def core_inv_def)
    next
      case (Some ab)
      have core: "core_inv pg0 rows pg1" using I1(1) by (simp add: page_inv_def)
      have "flushEventBuf ab (bd_pk_json d) (pv_appendBatch env (pg_count pg1)) pg1 = (r2, pg2)" using f Some by simp
      from flush_step [OF core Some this] show ?thesis .
    qed
    show ?thesis
    proof (cases r2)
      case (Inl e)
      then show ?thesis using def Inr F grow by auto
    next
      case r2: (Inr u)
      have core: "core_inv pg0 rows ?pg" by (rule move_cursor_inv) (use F r2 I1 in \<open>auto simp: page_inv_def\<close>)
      have cnt: "pg_count ?pg = length rows" using F I1 by (simp add: page_inv_def)
      have "pg_buf ?pg = []" using F r2 by simp
      note E = page_end [OF reads_back complete Some [unfolded rf I1(2)] core this]
      have C: "covered (pg_sink ?pg) (pg_skipped ?pg) (pg_cursor ?pg)" "covered (pg_sink ?pg) (pg_skipped ?pg) (saved_pos (pg_state ?pg))"
        "length rows < n \<Longrightarrow> \<forall>k \<in> K. handled (pg_sink ?pg) (pg_skipped ?pg) (name k)"
        using E c by (simp_all add: pg0_def)
      have run: "same_run st (pg_state ?pg)" using core by (simp add: core_inv_def pg0_def)
      then have id: "bk_source (pg_state ?pg) = bk_source st" "bk_table (pg_state ?pg) = bk_table st" by (simp_all add: same_run_def)
      show ?thesis
      proof (cases "pv_save env")
        case False
        then show ?thesis using def Inr r2 grow [OF core_inv_frame [OF core]] by (simp add: SaveState_def)
      next
        case True
        then have "res = Inr (length rows < n)" "pos' = pg_cursor ?pg" "st' = pg_state ?pg"
          "en' = (?leave ?pg)\<lparr>en_store := gm_set (bk_source st, bk_table st) ((pg_state ?pg)\<lparr>bk_updated := pv_now env\<rparr>) (en_store en)\<rparr>"
          using def Inr r2 cnt id by (simp_all add: SaveState_def)
        then show ?thesis using grow [OF core_inv_frame [OF core]] C run by (simp add: grows_def all_handled_def)
      qed
    qed
  qed
qed

definition target :: "string \<times> string" where
  "target = (cf_sourceID cfg, cf_table cfg)"

definition eng_inv :: "'w engine \<Rightarrow> bool" where
  "eng_inv en \<longleftrightarrow> sink_ok (en_sink en) \<and>
     (\<forall>i st. gm_get (en_store en) i = Some st \<longrightarrow> (bk_source st, bk_table st) = i) \<and>
     (\<forall>st. gm_get (en_store en) target = Some st \<longrightarrow> covers en (saved_pos st) \<and> (bk_status st = ''completed'' \<longrightarrow> all_handled en))"

definition only_target :: "'w engine \<Rightarrow> 'w engine \<Rightarrow> bool" where
  "only_target en en' \<longleftrightarrow> (\<forall>i. i \<noteq> target \<longrightarrow> gm_get (en_store en') i = gm_get (en_store en) i)"

lemma grows_trans: "grows a b \<Longrightarrow> grows b c \<Longrightarrow> grows a c"
  by (auto simp: grows_def)

lemma grows_refl [simp]: "grows en en"
  by (simp add: grows_def)

lemma grows_keeps:
  assumes "grows en en'" "sink_ok (en_sink en)"
  shows "sink_ok (en_sink en')" "covers en pos \<Longrightarrow> covers en' pos" "all_handled en \<Longrightarrow> all_handled en'"
  using assms covered_mono handled_mono unfolding grows_def all_handled_def by blast+

text \<open>The store written for the target, by a state that covers what its cursor says.\<close>

lemma eng_inv_put:
  assumes inv: "eng_inv en" and g: "grows en en'" and id: "(bk_source st, bk_table st) = target"
    and st: "en_store en' = gm_set target (st\<lparr>bk_updated := now\<rparr>) (en_store en)"
    and c: "covers en' (saved_pos st)" "bk_status st = ''completed'' \<Longrightarrow> all_handled en'"
  shows "eng_inv en'" "only_target en en'"
proof -
  have "saved_pos (st\<lparr>bk_updated := now\<rparr>) = saved_pos st" by (simp add: saved_pos_def)
  then show "eng_inv en'"
    using inv c id grows_keeps(1) [OF g] unfolding eng_inv_def st by (auto simp: gomap_simps split: if_splits)
  show "only_target en en'" by (simp add: only_target_def st gomap_simps)
qed

lemma eng_inv_same:
  assumes "eng_inv en" "grows en en'" "en_store en' = en_store en"
  shows "eng_inv en'" "only_target en en'"
  using assms(1,3) grows_keeps [OF assms(2)] by (simp_all add: eng_inv_def only_target_def)

lemma only_target_trans: "only_target a b \<Longrightarrow> only_target b c \<Longrightarrow> only_target a c"
  by (simp add: only_target_def)

lemma loop_step:
  assumes reads_back: "cursor_reads_back d earlier K" and "snapshot_loop d cfg sid envs n pos st en = (res, st', en')" "\<forall>env \<in> set envs. page_complete d cfg earlier K name env"
    and "eng_inv en" "covers en pos" "covers en (saved_pos st)" "(bk_source st, bk_table st) = target" "bk_status st \<noteq> ''completed''"
  shows "eng_inv en' \<and> grows en en' \<and> only_target en en' \<and>
    (res = Inr () \<longrightarrow> all_handled en' \<and> same_run st st' \<and> covers en' (saved_pos st'))"
  using assms(2-)
proof (induction envs arbitrary: n pos st en)
  case Nil
  then show ?case by (auto simp: only_target_def)
next
  case (Cons env envs)
  obtain r pos1 st1 en1 where p: "snapshot_page d cfg env sid n pos st en = (r, pos1, st1, en1)" by (metis prod_cases4)
  have ok: "sink_ok (en_sink en)" using Cons.prems(3) by (simp add: eng_inv_def)
  have "page_complete d cfg earlier K name env" using Cons.prems(2) by simp
  note P = page_step [OF reads_back this p ok Cons.prems(4,5)]
  show ?case
  proof (cases r)
    case (Inl e)
    then show ?thesis using Cons.prems(1,3) P p eng_inv_same [of en en1] by auto
  next
    case (Inr b)
    then have S: "en_store en1 = gm_set target (st1\<lparr>bk_updated := pv_now env\<rparr>) (en_store en)" "same_run st st1"
      "covers en1 pos1" "covers en1 (saved_pos st1)" "b \<Longrightarrow> all_handled en1" and G: "grows en en1"
      using P Cons.prems(6) by auto
    have id: "(bk_source st1, bk_table st1) = target" "bk_status st1 \<noteq> ''completed''" using S(2) Cons.prems(6,7) by (auto simp: same_run_def)
    note E = eng_inv_put [OF Cons.prems(3) G id(1) S(1,4)]
    show ?thesis
    proof (cases b)
      case True
      then show ?thesis using Cons.prems(1) p Inr E S G id(2) by auto
    next
      case False
      then have rest: "snapshot_loop d cfg sid envs (Adjust (pv_elapsed env) n) pos1 st1 en1 = (res, st', en')"
        using Cons.prems(1) p Inr by simp
      have "eng_inv en1" using E(1) id(2) by blast
      from Cons.IH [OF rest _ this S(3,4) id] Cons.prems(2) have
        IH: "eng_inv en' \<and> grows en1 en' \<and> only_target en1 en' \<and> (res = Inr () \<longrightarrow> all_handled en' \<and> same_run st1 st' \<and> covers en' (saved_pos st'))"
        by simp
      have "same_run st1 st' \<Longrightarrow> same_run st st'" using S(2) by (simp add: same_run_def)
      then show ?thesis using IH grows_trans [OF G] only_target_trans E(2) id(2) by blast
    qed
  qed
qed

lemma table_step:
  assumes reads_back: "cursor_reads_back d earlier K" and s: "snapshotTable d cfg env st en = (res, st', en')" and pages: "\<forall>pv \<in> set (re_pages env). page_complete d cfg earlier K name pv"
    and inv: "eng_inv en" and c: "covers en (saved_pos st)" and id: "(bk_source st, bk_table st) = target"
  shows "eng_inv en' \<and> grows en en' \<and> only_target en en' \<and>
    (res = Inr () \<longrightarrow> all_handled en' \<and> covers en' (saved_pos st') \<and> (bk_source st', bk_table st') = target)"
proof (cases "re_open env \<and> re_save1 env")
  case False
  then show ?thesis using s inv by (auto simp: snapshotTable_def SaveState_def Let_def only_target_def split: if_splits)
next
  case True
  define st1 where "st1 = start_state cfg env st"
  define en1 where "en1 = en\<lparr>en_store := gm_set target (st1\<lparr>bk_updated := re_now env\<rparr>) (en_store en)\<rparr>"
  let ?st2 = "assign_lsn d env st1"
  have st1: "(bk_source st1, bk_table st1) = target" "bk_status st1 = ''running''" "saved_pos st1 = saved_pos st"
    using id by (simp_all add: st1_def start_state_def saved_pos_def Let_def)
  have st2: "(bk_source ?st2, bk_table ?st2) = target" "bk_status ?st2 \<noteq> ''completed''" "saved_pos ?st2 = saved_pos st"
    using st1 by (auto simp: assign_lsn_def saved_pos_def split: option.splits)
  have loop: "snapshot_loop d cfg (bk_snapshotID st1) (re_pages env) defaultBatch (saved_pos st) ?st2 en1 = (res, st', en')"
    using s True st1(1) by (simp add: snapshotTable_def SaveState_def st1_def [symmetric] en1_def saved_pos_def)
  have G: "grows en en1" by (simp add: grows_def en1_def)
  have c1: "covers en1 (saved_pos st)" using c by (simp add: en1_def)
  have E: "eng_inv en1" "only_target en en1" using eng_inv_put [OF inv G st1(1)] st1 c1 by (simp_all add: en1_def)
  from loop_step [OF reads_back loop pages E(1) c1 _ st2(1,2)] c1 st2(3)
  have L: "eng_inv en' \<and> grows en1 en' \<and> only_target en1 en' \<and> (res = Inr () \<longrightarrow> all_handled en' \<and> same_run ?st2 st' \<and> covers en' (saved_pos st'))"
    by simp
  moreover have "same_run ?st2 st' \<Longrightarrow> (bk_source st', bk_table st') = target" using st2(1) by (simp add: same_run_def)
  ultimately show ?thesis using grows_trans [OF G] only_target_trans [OF E(2)] by blast
qed

text \<open>The run of one table. The keys matter only to a strategy that takes a snapshot.\<close>

lemma runOne_step:
  assumes reads_back: "cursor_reads_back d earlier K" and r: "runOne d cfg env en = (res, en')" and pages: "\<forall>pv \<in> set (re_pages env). page_complete d cfg earlier K name pv"
    and inv: "eng_inv en" and strategy: "K = {} \<or> cf_strategy cfg \<notin> {''stream_only'', ''snapshot_deferred''}"
  shows "eng_inv en' \<and> grows en en' \<and> only_target en en'"
proof (cases "re_load env")
  case False
  then show ?thesis using r inv by (simp add: runOne_def LoadState_def only_target_def)
next
  case load: True
  let ?l = "gm_get (en_store en) target"
  define st where "st = (case ?l of None \<Rightarrow> fresh_state cfg (re_now env) | Some st \<Rightarrow> st)"
  have st: "(bk_source st, bk_table st) = target" "covers en (saved_pos st)" "bk_status st = ''completed'' \<Longrightarrow> all_handled en"
    using inv unfolding eng_inv_def st_def
    by (auto simp: fresh_state_def saved_pos_def covered_def target_def split: option.splits)
  have put: "eng_inv e2 \<and> grows e1 e2 \<and> only_target e1 e2"
    if "put_status ok now s x e1 = (q, e2)" "eng_inv e1" "(bk_source x, bk_table x) = target" "covers e1 (saved_pos x)"
      "s = ''completed'' \<Longrightarrow> all_handled e1" for ok now s x q and e1 e2 :: "'w engine"
  proof (cases ok)
    case False
    then show ?thesis using that by (simp add: put_status_def SaveState_def only_target_def)
  next
    case True
    let ?x = "x\<lparr>bk_status := s, bk_updated := now\<rparr>"
    have e2: "e2 = e1\<lparr>en_store := gm_set target (?x\<lparr>bk_updated := now\<rparr>) (en_store e1)\<rparr>" using that(1,3) True by (simp add: put_status_def SaveState_def)
    have g: "grows e1 e2" by (simp add: e2 grows_def)
    have "eng_inv e2" "only_target e1 e2"
      using eng_inv_put [OF that(2) g, of ?x now] that(3-5) by (simp_all add: e2 saved_pos_def all_handled_def)
    then show ?thesis using g by blast
  qed
  show ?thesis
  proof (cases "cf_strategy cfg \<in> {''stream_only'', ''snapshot_deferred''}")
    case True
    then have "K = {}" using strategy by blast
    then have "all_handled en" unfolding all_handled_def by blast
    moreover obtain s where "put_status (re_save2 env) (re_now env) s st en = (res, en')"
      using True r load by (auto simp: runOne_def LoadState_def target_def [symmetric] st_def [symmetric])
    ultimately show ?thesis using put inv st by blast
  next
    case snap: False
    show ?thesis
    proof (cases "bk_status st = ''completed''")
      case True
      then show ?thesis using snap r load inv
        by (simp add: runOne_def LoadState_def target_def [symmetric] st_def [symmetric] only_target_def)
    next
      case False
      obtain q st1 en1 where t: "snapshotTable d cfg env st en = (q, st1, en1)" by (metis prod_cases3)
      note T = table_step [OF reads_back t pages inv st(2,1)]
      show ?thesis
      proof (cases q)
        case (Inl e)
        then show ?thesis using T t snap False r load by (simp add: runOne_def LoadState_def target_def [symmetric] st_def [symmetric])
      next
        case (Inr u)
        let ?ev = "MakeControlEvent (bd_json_int d) (re_control_ev env) (cf_sourceID cfg) (cf_table cfg) ''snapshot_complete''
          (if bk_snapshotID st1 = [] then newSnapshotID (cf_sourceID cfg) (cf_table cfg) (re_nano env) else bk_snapshotID st1) st1"
        obtain x w where a: "bd_append d (re_control env) ?ev (en_sink en1) = (x, w)" by fastforce
        let ?en2 = "en1\<lparr>en_sink := w\<rparr>"
        have "grows en1 ?en2" using append_law [OF _ a] T by (auto simp: grows_def eng_inv_def)
        then have E2: "eng_inv ?en2" "only_target en1 ?en2" "grows en1 ?en2" using eng_inv_same [of en1 ?en2] T by simp_all
        have c: "covers ?en2 (saved_pos st1)" "all_handled ?en2" "(bk_source st1, bk_table st1) = target"
          using grows_keeps [OF E2(3)] T Inr by (auto simp: eng_inv_def)
        have "(res, en') = (case x of Inl e \<Rightarrow> (Inl (SinkErr e), ?en2) | Inr _ \<Rightarrow> put_status (re_save2 env) (re_now env) ''completed'' st1 ?en2)"
          using r load snap False t Inr a by (simp add: runOne_def LoadState_def target_def [symmetric] st_def [symmetric] Let_def split: sum.splits)
        then consider "en' = ?en2" | "put_status (re_save2 env) (re_now env) ''completed'' st1 ?en2 = (res, en')" by (cases x) auto
        then have "eng_inv en' \<and> grows ?en2 en' \<and> only_target ?en2 en'"
        proof cases
          case 1
          then show ?thesis using E2(1) by (simp add: only_target_def)
        next
          case 2
          from put [OF this E2(1) c(3,1)] c(2) show ?thesis by blast
        qed
        then show ?thesis using T E2 grows_trans only_target_trans by blast
      qed
    qed
  qed
qed

text \<open>Runs over several tables: another table's run only adds events and writes its own state.\<close>

definition own_pages :: "(backfill_config \<times> run_env) list \<Rightarrow> bool" where
  "own_pages cs \<longleftrightarrow> (\<forall>(c, env) \<in> set cs. (cf_sourceID c, cf_table c) = target \<longrightarrow>
     c = cfg \<and> (\<forall>pv \<in> set (re_pages env). page_complete d cfg earlier K name pv))"

lemma other_run:
  assumes r: "runOne d c env en = (res, en')" and c: "(cf_sourceID c, cf_table c) \<noteq> target" and inv: "eng_inv en"
  shows "eng_inv en'"
proof -
  have o: "snapshot d durable sink_ok" by (rule snapshot_axioms)
  have "snapshot.eng_inv d durable sink_ok c earlier {} name en"
    using inv by (simp add: snapshot.eng_inv_def [OF o] eng_inv_def snapshot.covered_def [OF o] snapshot.all_handled_def [OF o])
  then have S: "snapshot.eng_inv d durable sink_ok c earlier {} name en'" "snapshot.grows durable sink_ok en en'"
      "snapshot.only_target c en en'"
    using snapshot.runOne_step [OF o _ r, of earlier "{}" name] by (simp_all add: page_complete_def cursor_reads_back_def)
  have g: "grows en en'" using S(2) by (simp add: snapshot.grows_def [OF o] grows_def)
  have keep: "gm_get (en_store en') target = gm_get (en_store en) target"
  proof -
    have "\<forall>i. i \<noteq> snapshot.target c \<longrightarrow> gm_get (en_store en') i = gm_get (en_store en) i" using S(3) by (simp only: snapshot.only_target_def [OF o])
    moreover have "target \<noteq> snapshot.target c" using c by (auto simp: snapshot.target_def [OF o])
    ultimately show ?thesis by blast
  qed
  have wf: "\<forall>i st. gm_get (en_store en') i = Some st \<longrightarrow> (bk_source st, bk_table st) = i"
    using S(1) by (simp add: snapshot.eng_inv_def [OF o])
  have ok: "sink_ok (en_sink en)" using inv by (simp add: eng_inv_def)
  show ?thesis using inv wf keep grows_keeps [OF g ok] unfolding eng_inv_def by simp
qed

lemma Run_step:
  assumes reads_back: "cursor_reads_back d earlier K" and "Run d cs en = (res, en')" "own_pages cs" "eng_inv en" "cf_strategy cfg \<notin> {''stream_only'', ''snapshot_deferred''}"
  shows "eng_inv en'"
  using assms(2-)
proof (induction cs arbitrary: en)
  case (Cons ce cs)
  obtain c env where ce: "ce = (c, env)" by fastforce
  obtain q en1 where r: "runOne d c env en = (q, en1)" by fastforce
  have e1: "eng_inv en1"
  proof (cases "(cf_sourceID c, cf_table c) = target")
    case True
    then have "c = cfg" "\<forall>pv \<in> set (re_pages env). page_complete d cfg earlier K name pv" using Cons.prems(2) by (auto simp: own_pages_def ce)
    then show ?thesis using runOne_step [of env en q en1, OF reads_back] r Cons.prems(3,4) by blast
  next
    case False
    then show ?thesis using other_run [OF r] Cons.prems(3) by blast
  qed
  show ?case
  proof (cases q)
    case (Inl e)
    then show ?thesis using e1 Cons.prems(1) r by (simp add: ce)
  next
    case (Inr u)
    then show ?thesis using Cons.IH [OF _ _ e1 Cons.prems(4)] Cons.prems(1,2) r by (auto simp: ce own_pages_def)
  qed
qed simp

lemma Reset_step:
  assumes "ResetForSlotLoss lsn now cs en = (res, en')" "eng_inv en"
  shows "eng_inv en'"
  using assms
proof (induction cs arbitrary: en)
  case (Cons x rest)
  obtain c load_ok save_ok nano where x: "x = (c, load_ok, save_ok, nano)" by (metis prod_cases4)
  let ?i = "(cf_sourceID c, cf_table c)"
  let ?st = "reset_state c lsn now nano (case gm_get (en_store en) ?i of None \<Rightarrow> fresh_state c now | Some st \<Rightarrow> st)"
  let ?en1 = "en\<lparr>en_store := gm_set ?i (?st\<lparr>bk_updated := now\<rparr>) (en_store en)\<rparr>"
  have id: "(bk_source ?st, bk_table ?st) = ?i"
    using Cons.prems(2) unfolding eng_inv_def by (auto simp: fresh_state_def reset_state_def split: option.splits)
  have "saved_pos (?st\<lparr>bk_updated := now\<rparr>) = None" "bk_status ?st \<noteq> ''completed''" by (simp_all add: saved_pos_def reset_state_def)
  then have e1: "eng_inv ?en1"
    using Cons.prems(2) id unfolding eng_inv_def by (auto simp: gomap_simps covered_def all_handled_def split: if_splits)
  consider "cf_strategy c = ''stream_only''" "ResetForSlotLoss lsn now rest en = (res, en')" | "en' = en"
    | "ResetForSlotLoss lsn now rest ?en1 = (res, en')"
    using Cons.prems(1) id by (auto simp: x LoadState_def SaveState_def split: if_splits)
  then show ?case using Cons.IH Cons.prems(2) e1 by cases blast+
qed simp

end

interpretation wired: snapshot "NewBackfillEngineWithBatch d" "\<lambda>c. set (cn_log c)" cn_has_log cfg earlier K name for d cfg earlier K name
  by (simp add: snapshot_def connector_sink.backfill_sink_axioms)

end
