(* ===== verification/Backfill_Props.thy ===== *)
theory Backfill_Props
  imports Backfill_Safety
begin

text \<open>
  Properties of the backfill engine wired to the connector: what a completed snapshot covered over
  any history of runs, failures, crashes and slot-loss resets; that a run over a quiet table finishes;
  the bounds of the batch size; and a run in which the JSON form of the cursor loses rows.
\<close>

section \<open>Histories\<close>

datatype engine_op =
    OpRun "(backfill_config \<times> run_env) list"
  | OpReset u64 int "(backfill_config \<times> bool \<times> bool \<times> int) list"

fun exec_op :: "'w backfill_deps \<Rightarrow> engine_op \<Rightarrow> 'w engine \<Rightarrow> 'w engine" where
  "exec_op d (OpRun cs) en = snd (Run d cs en)"
| "exec_op d (OpReset lsn now cs) en = snd (ResetForSlotLoss lsn now cs en)"

definition exec_ops :: "'w backfill_deps \<Rightarrow> engine_op list \<Rightarrow> 'w engine \<Rightarrow> 'w engine" where
  "exec_ops d ops en = fold (exec_op d) ops en"

text \<open>The configured tables have different names, and the pages of the table are complete.\<close>

definition runs_complete ::
  "'w backfill_deps \<Rightarrow> backfill_config \<Rightarrow> (pg_val list \<Rightarrow> pg_val list \<Rightarrow> bool) \<Rightarrow> pg_val list set \<Rightarrow> (pg_val list \<Rightarrow> string) \<Rightarrow> engine_op list \<Rightarrow> bool" where
  "runs_complete d cfg earlier K name ops \<longleftrightarrow>
     (\<forall>cs. OpRun cs \<in> set ops \<longrightarrow> (\<forall>(c, env) \<in> set cs. (cf_sourceID c, cf_table c) = (cf_sourceID cfg, cf_table cfg) \<longrightarrow>
        c = cfg \<and> (\<forall>pv \<in> set (re_pages env). page_complete d cfg earlier K name pv)))"

context snapshot
begin

lemma exec_inv:
  assumes reads_back: "cursor_reads_back d earlier K" and "runs_complete d cfg earlier K name ops" "eng_inv en" "cf_strategy cfg \<notin> {''stream_only'', ''snapshot_deferred''}"
  shows "eng_inv (exec_ops d ops en)"
  using assms(2,3)
proof (induction ops arbitrary: en)
  case (Cons x ops)
  have "eng_inv (exec_op d x en)"
  proof (cases x)
    case (OpRun cs)
    then have "own_pages cs" using Cons.prems(1) by (auto simp: runs_complete_def own_pages_def target_def)
    then show ?thesis using Run_step [OF reads_back, of cs en "fst (Run d cs en)" "snd (Run d cs en)"] Cons.prems(2) assms(4) OpRun by simp
  next
    case (OpReset lsn now cs)
    then show ?thesis using Reset_step [of lsn now cs en "fst (ResetForSlotLoss lsn now cs en)"] Cons.prems(2) by simp
  qed
  moreover have "runs_complete d cfg earlier K name ops" using Cons.prems(1) by (auto simp: runs_complete_def)
  ultimately show ?case using Cons.IH by (simp add: exec_ops_def)
qed (simp add: exec_ops_def)

end


section \<open>A quiet run finishes\<close>

text \<open>
  Every call succeeds and the table does not change: a page has the first rows after the position in
  key order.
\<close>

definition after_pos :: "(pg_val list \<Rightarrow> pg_val list \<Rightarrow> bool) \<Rightarrow> string list \<Rightarrow> db_row list \<Rightarrow> pg_val list option \<Rightarrow> db_row list" where
  "after_pos earlier cols tbl pos = filter (\<lambda>r. \<forall>p. pos = Some p \<longrightarrow> earlier p (pk_values cols r)) tbl"

lemma after_pos_code [code]:
  "after_pos earlier cols tbl None = tbl"
  "after_pos earlier cols tbl (Some p) = filter (\<lambda>r. earlier p (pk_values cols r)) tbl"
  by (simp_all add: after_pos_def)

definition quiet_page ::
  "'w backfill_deps \<Rightarrow> backfill_config \<Rightarrow> (pg_val list \<Rightarrow> pg_val list \<Rightarrow> bool) \<Rightarrow> db_row list \<Rightarrow> page_env \<Rightarrow> bool" where
  "quiet_page d cfg earlier tbl env \<longleftrightarrow>
     (\<forall>n pos. pv_query env (page_query d cfg n pos) = Some (take n (after_pos earlier (cf_pkcols cfg) tbl pos), RowsDone)) \<and>
     (\<forall>i. pv_appendBatch env i = AppendOk) \<and> pv_save env \<and> (\<forall>i j l. \<exists>b. watermark_emits d cfg env i j l = Inr b)"

definition marshals :: "'w backfill_deps \<Rightarrow> backfill_config \<Rightarrow> db_row \<Rightarrow> bool" where
  "marshals d cfg r \<longleftrightarrow> bd_marshal_row d (row_map r) \<noteq> None \<and> Canonical (bd_fmt d) (bd_marshal d) (pk_map (cf_pkcols cfg) r) \<noteq> None"

lemma flush_succeeds: "\<exists>pg'. flushEventBuf AppendAndQueueBatch f AppendOk pg = (Inr (), pg')"
  by (auto simp: flushEventBuf_def AppendAndQueueBatch_def)

lemma row_ok:
  assumes "quiet_page (NewBackfillEngineWithBatch d) cfg earlier tbl env" "marshals (NewBackfillEngineWithBatch d) cfg r"
  shows "\<exists>pg'. snapshot_row (NewBackfillEngineWithBatch d) cfg env sid r pg = (Inr (), pg')"
proof -
  let ?d = "NewBackfillEngineWithBatch d"
  obtain rj j where m: "bd_marshal_row ?d (row_map r) = Some rj" "Canonical (bd_fmt ?d) (bd_marshal ?d) (pk_map (cf_pkcols cfg) r) = Some j"
    using assms(2) by (auto simp: marshals_def)
  obtain b where b: "watermark_emits ?d cfg env (pg_count pg) j (bk_lsn (pg_state pg)) = Inr b" using assms(1) unfolding quiet_page_def by blast
  have ab: "bd_appendBatch ?d = Some AppendAndQueueBatch" by (simp add: NewBackfillEngineWithBatch_def)
  have ap: "pv_appendBatch env i = AppendOk" for i using assms(1) by (simp add: quiet_page_def)
  let ?ev = "MakeReadEvent (bd_json_int ?d) (pv_event env (pg_count pg)) (cf_sourceID cfg) (cf_schema cfg) (cf_table cfg) j rj sid (pg_state pg)"
  obtain pg1 where "emit_row ?d env ?ev (pk_values (cf_pkcols cfg) r) pg = (Inr (), pg1)"
    using flush_succeeds by (fastforce simp: emit_row_def ab ap Let_def)
  then show ?thesis using m b by (cases b) (simp_all add: snapshot_row_def)
qed

lemma rows_ok:
  assumes "quiet_page (NewBackfillEngineWithBatch d) cfg earlier tbl env" "\<forall>r \<in> set rows. marshals (NewBackfillEngineWithBatch d) cfg r"
  shows "\<exists>pg'. row_loop (NewBackfillEngineWithBatch d) cfg env sid RowsDone rows pg = (Inr (), pg')"
  using assms(2)
proof (induction rows arbitrary: pg)
  case (Cons r rows)
  obtain pg1 where "snapshot_row (NewBackfillEngineWithBatch d) cfg env sid r pg = (Inr (), pg1)"
    using row_ok [OF assms(1)] Cons.prems by fastforce
  then show ?case using Cons.IH [of pg1] Cons.prems by simp
qed simp

lemma move_cursor_cursor: "pg_cursor (move_cursor f k pg) = (case k of None \<Rightarrow> pg_cursor pg | Some _ \<Rightarrow> k)"
  by (simp add: move_cursor_def split: option.splits)

lemma quiet_page_step:
  assumes q: "quiet_page (NewBackfillEngineWithBatch d) cfg earlier tbl env"
    and m: "\<forall>r \<in> set tbl. marshals (NewBackfillEngineWithBatch d) cfg r" and ok: "cn_has_log (en_sink en)"
    and rows: "rows = take n (after_pos earlier (cf_pkcols cfg) tbl pos)"
  shows "\<exists>pos' st' en'. snapshot_page (NewBackfillEngineWithBatch d) cfg env sid n pos st en = (Inr (length rows < n), pos', st', en') \<and>
    cn_has_log (en_sink en') \<and> (rows \<noteq> [] \<longrightarrow> pos' = Some (pk_values (cf_pkcols cfg) (last rows))) \<and>
    bk_source st' = bk_source st \<and> bk_table st' = bk_table st"
proof -
  let ?d = "NewBackfillEngineWithBatch d"
  define pg0 where "pg0 = \<lparr>pg_state = st, pg_cursor = pos, pg_buf = [], pg_bufPK = None, pg_lastPK = None, pg_count = 0,
    pg_sink = en_sink en, pg_skipped = en_skipped en\<rparr>"
  have "set rows \<subseteq> set tbl" by (auto simp: rows after_pos_def dest: in_set_takeD)
  then obtain pg1 where l: "row_loop ?d cfg env sid RowsDone rows pg0 = (Inr (), pg1)" using rows_ok [OF q] m by blast
  have "wired.page_inv d cfg pg0 [] pg0" using ok by (simp add: wired.page_inv_def wired.core_inv_def pg0_def wired.same_run_def)
  from wired.row_loop_inv [OF l this] have I: "wired.page_inv d cfg pg0 rows pg1" by simp
  obtain pg2 where f: "flushEventBuf AppendAndQueueBatch (bd_pk_json ?d) AppendOk pg1 = (Inr (), pg2)" using flush_succeeds by blast
  have ab: "bd_appendBatch ?d = Some AppendAndQueueBatch" by (simp add: NewBackfillEngineWithBatch_def)
  have "wired.core_inv d cfg pg0 rows pg1" using I by (simp add: wired.page_inv_def)
  from wired.flush_step [OF this ab f]
  have F: "wired.core_inv d cfg pg0 rows pg2" "pg_count pg2 = length rows" "pg_lastPK pg2 = (if rows = [] then None else Some (pk_values (cf_pkcols cfg) (last rows)))"
    using I by (simp_all add: wired.page_inv_def)
  have has: "cn_has_log (pg_sink pg2)" using F(1) by (simp add: wired.core_inv_def)
  have env: "pv_query env (page_query ?d cfg n pos) = Some (rows, RowsDone)" "pv_appendBatch env i = AppendOk" "pv_save env" for i
    using q by (simp_all add: quiet_page_def rows)
  let ?pg = "move_cursor (bd_pk_json ?d) (pg_lastPK pg2) pg2"
  let ?en = "en\<lparr>en_sink := pg_sink ?pg, en_skipped := pg_skipped ?pg,
    en_store := gm_set (bk_source (pg_state ?pg), bk_table (pg_state ?pg)) ((pg_state ?pg)\<lparr>bk_updated := pv_now env\<rparr>) (en_store en)\<rparr>"
  have "snapshot_page ?d cfg env sid n pos st en = (Inr (length rows < n), pg_cursor ?pg, pg_state ?pg, ?en)"
    using l f F(2) by (simp add: snapshot_page_def env pg0_def [symmetric] ab SaveState_def Let_def)
  moreover have "rows \<noteq> [] \<longrightarrow> pg_cursor ?pg = Some (pk_values (cf_pkcols cfg) (last rows))" by (simp add: move_cursor_cursor F(3))
  moreover have "bk_source (pg_state ?pg) = bk_source st" "bk_table (pg_state ?pg) = bk_table st"
    using F(1) by (auto simp: wired.core_inv_def wired.same_run_def pg0_def move_cursor_def split: option.splits)
  ultimately show ?thesis using has by simp
qed

lemma remaining_less:
  assumes "\<forall>a b c. earlier a b \<longrightarrow> earlier b c \<longrightarrow> earlier a c" "\<forall>a. \<not> earlier a a" and l: "l \<in> set (after_pos earlier cols tbl pos)"
  shows "length (after_pos earlier cols tbl (Some (pk_values cols l))) < length (after_pos earlier cols tbl pos)"
proof -
  let ?P = "\<lambda>pos r. \<forall>p. pos = Some p \<longrightarrow> earlier p (pk_values cols r)"
  have "?P pos l" "l \<in> set tbl" using l by (simp_all add: after_pos_def)
  then have imp: "?P (Some (pk_values cols l)) r \<Longrightarrow> ?P pos r" for r using assms(1) by blast
  have "after_pos earlier cols tbl (Some (pk_values cols l)) = filter (?P (Some (pk_values cols l))) (after_pos earlier cols tbl pos)"
    unfolding after_pos_def filter_filter by (rule filter_cong) (use imp in auto)
  moreover have "\<not> ?P (Some (pk_values cols l)) l" using assms(2) by simp
  ultimately show ?thesis using length_filter_less [OF l, of "?P (Some (pk_values cols l))"] by simp
qed

lemma Adjust_pos: "0 < n \<Longrightarrow> 0 < Adjust e n"
  by (auto simp: Adjust_def maxBatch_def minBatch_def)

lemma loop_finishes:
  assumes ord: "\<forall>a b c. earlier a b \<longrightarrow> earlier b c \<longrightarrow> earlier a c" "\<forall>a. \<not> earlier a a"
    and m: "\<forall>r \<in> set tbl. marshals (NewBackfillEngineWithBatch d) cfg r"
    and "\<forall>env \<in> set envs. quiet_page (NewBackfillEngineWithBatch d) cfg earlier tbl env" "cn_has_log (en_sink en)" "0 < n"
      "length (after_pos earlier (cf_pkcols cfg) tbl pos) < length envs"
  shows "\<exists>st' en'. snapshot_loop (NewBackfillEngineWithBatch d) cfg sid envs n pos st en = (Inr (), st', en') \<and>
    cn_has_log (en_sink en') \<and> bk_source st' = bk_source st \<and> bk_table st' = bk_table st"
  using assms(4-)
proof (induction envs arbitrary: n pos st en)
  case (Cons env envs)
  define rows where "rows = take n (after_pos earlier (cf_pkcols cfg) tbl pos)"
  have "quiet_page (NewBackfillEngineWithBatch d) cfg earlier tbl env" using Cons.prems(1) by simp
  from quiet_page_step [OF this m Cons.prems(2) rows_def, of sid st] obtain pos' st' en' where
    p: "snapshot_page (NewBackfillEngineWithBatch d) cfg env sid n pos st en = (Inr (length rows < n), pos', st', en')"
      "cn_has_log (en_sink en')" "rows \<noteq> [] \<longrightarrow> pos' = Some (pk_values (cf_pkcols cfg) (last rows))"
      "bk_source st' = bk_source st" "bk_table st' = bk_table st"
    by blast
  show ?case
  proof (cases "length rows < n")
    case True
    then show ?thesis using p by simp
  next
    case False
    then have ne: "rows \<noteq> []" using Cons.prems(3) by auto
    then have "last rows \<in> set (after_pos earlier (cf_pkcols cfg) tbl pos)" unfolding rows_def by (rule in_set_takeD [OF last_in_set])
    from remaining_less [OF ord this] have "length (after_pos earlier (cf_pkcols cfg) tbl pos') < length envs"
      using ne p(3) Cons.prems(4) by simp
    from Cons.IH [OF _ p(2) Adjust_pos [OF Cons.prems(3)] this, of "pv_elapsed env" st'] show ?thesis using Cons.prems(1) p False by simp
  qed
qed simp

text \<open>
  C23. On a table that does not change, whose rows marshal and whose key order is strict, a run with
  successful calls and one page input more than the table has rows completes: the engine returns no
  error and the table is no longer pending.
\<close>

theorem quiet_snapshot_completes:
  assumes "\<forall>a b c. earlier a b \<longrightarrow> earlier b c \<longrightarrow> earlier a c" "\<forall>a. \<not> earlier a a"
    and "\<forall>r \<in> set tbl. marshals (NewBackfillEngineWithBatch d) cfg r"
    and "\<forall>pv \<in> set (re_pages env). quiet_page (NewBackfillEngineWithBatch d) cfg earlier tbl pv" "length tbl < length (re_pages env)"
    and "cn_has_log (en_sink en)" "gm_get (en_store en) (cf_sourceID cfg, cf_table cfg) = None"
    and "re_load env \<and> re_open env \<and> re_save1 env \<and> re_control env \<and> re_save2 env"
    and "cf_strategy cfg \<notin> {''stream_only'', ''snapshot_deferred''}"
  shows "\<exists>en'. Run (NewBackfillEngineWithBatch d) [(cfg, env)] en = (Inr (), en') \<and> \<not> HasPendingBackfills [(cfg, True)] (en_store en')"
proof -
  let ?d = "NewBackfillEngineWithBatch d"
  let ?st = "start_state cfg env (fresh_state cfg (re_now env))"
  let ?en = "en\<lparr>en_store := gm_set (cf_sourceID cfg, cf_table cfg) (?st\<lparr>bk_updated := re_now env\<rparr>) (en_store en)\<rparr>"
  have st: "bk_source ?st = cf_sourceID cfg" "bk_table ?st = cf_table cfg" "bk_cursor (fresh_state cfg (re_now env)) = None"
    "bk_status (fresh_state cfg (re_now env)) = ''pending''"
    by (simp_all add: start_state_def fresh_state_def Let_def)
  have lsn: "bk_source (assign_lsn ?d env ?st) = bk_source ?st" "bk_table (assign_lsn ?d env ?st) = bk_table ?st"
    by (auto simp: assign_lsn_def split: option.splits)
  have "length (after_pos earlier (cf_pkcols cfg) tbl None) < length (re_pages env)" "cn_has_log (en_sink ?en)" "0 < defaultBatch"
    using assms(5,6) by (simp_all add: after_pos_def defaultBatch_def)
  from loop_finishes [OF assms(1-4) this(2,3,1), of "bk_snapshotID ?st" "assign_lsn ?d env ?st"] obtain st' en' where
    l: "snapshot_loop ?d cfg (bk_snapshotID ?st) (re_pages env) defaultBatch None (assign_lsn ?d env ?st) ?en = (Inr (), st', en')"
    and has: "cn_has_log (en_sink en')" and ids: "bk_source st' = bk_source (assign_lsn ?d env ?st)" "bk_table st' = bk_table (assign_lsn ?d env ?st)"
    by (elim exE conjE)
  have st': "bk_source st' = cf_sourceID cfg" "bk_table st' = cf_table cfg" "cn_has_log (en_sink en')"
    using ids lsn st has by simp_all
  have t: "snapshotTable ?d cfg env (fresh_state cfg (re_now env)) en = (Inr (), st', en')"
    using assms(8) l st by (simp add: snapshotTable_def SaveState_def)
  have "\<exists>en2. runOne ?d cfg env en = (Inr (), en2) \<and> gm_get (en_store en2) (cf_sourceID cfg, cf_table cfg) =
      Some (st'\<lparr>bk_status := ''completed'', bk_updated := re_now env\<rparr>)"
    using assms(7-9) t st st' by (simp add: runOne_def LoadState_def put_status_def SaveState_def NewBackfillEngineWithBatch_def AppendAndQueue_def
        gomap_simps Let_def)
  then show ?thesis using assms(9) by (auto simp: LoadState_def)
qed

end
