(* ===== verification/Backfill_Examples.thy ===== *)
theory Backfill_Examples
  imports Backfill_Props
begin

text \<open>
  A table of two rows behind a small interpreter of the two keyset queries: it shows that the laws of
  the pages hold for a database that sorts, filters and limits, and is the database of the example runs.
\<close>

section \<open>A sorted table gives complete pages\<close>

lemma sorted_take_earlier:
  assumes "sorted_wrt R xs" "r \<in> set xs" "r \<notin> set (take n xs)" "x \<in> set (take n xs)"
  shows "R x r \<and> n \<le> length xs"
proof -
  have "xs = take n xs @ drop n xs" by simp
  moreover have "r \<in> set (drop n xs)" using assms(2,3) by (metis Un_iff append_take_drop_id set_append)
  ultimately have "R x r" using assms(1,4) sorted_wrt_append by metis
  moreover have "n \<le> length xs" using \<open>r \<in> set (drop n xs)\<close> by (metis drop_all empty_iff empty_set nat_le_linear)
  ultimately show ?thesis by blast
qed

lemma quiet_page_complete:
  assumes q: "quiet_page d cfg earlier tbl env"
    and srt: "sorted_wrt (\<lambda>a b. earlier (pk_values (cf_pkcols cfg) a) (pk_values (cf_pkcols cfg) b)) tbl"
    and nm: "\<forall>r \<in> set tbl. Canonical (bd_fmt d) (bd_marshal d) (pk_map (cf_pkcols cfg) r) = Some (name (pk_values (cf_pkcols cfg) r))"
  shows "page_complete d cfg earlier (pk_values (cf_pkcols cfg) ` set tbl) name env"
proof -
  let ?key = "pk_values (cf_pkcols cfg)"
  have pg: "?key r \<in> ?key ` set (take n xs) \<or> n \<le> length (take n xs) \<and> (\<forall>x \<in> set (take n xs). earlier (?key x) (?key r))"
    if "r \<in> set tbl" "\<forall>p. pos = Some p \<longrightarrow> earlier p (?key r)" "xs = after_pos earlier (cf_pkcols cfg) tbl pos" for n r pos xs
  proof (cases "r \<in> set (take n xs)")
    case False
    have r: "r \<in> set xs" using that by (simp add: after_pos_def)
    have s: "sorted_wrt (\<lambda>a b. earlier (?key a) (?key b)) xs" using srt that(3) by (simp add: after_pos_def sorted_wrt_filter)
    have "n \<le> length xs" using r False by (metis nat_le_linear take_all)
    then show ?thesis using sorted_take_earlier [OF s r False] by auto
  qed blast
  have sub: "r \<in> set tbl" if "r \<in> set (take n (after_pos earlier (cf_pkcols cfg) tbl pos))" for n pos r
    using in_set_takeD [OF that] by (simp add: after_pos_def)
  have query: "pv_query env (page_query d cfg n pos) = Some (take n (after_pos earlier (cf_pkcols cfg) tbl pos), RowsDone)" for n pos
    using q by (simp add: quiet_page_def)
  show ?thesis unfolding page_complete_def query
  proof (intro allI impI conjI ballI)
    fix n pos rows fin r
    assume "Some (take n (after_pos earlier (cf_pkcols cfg) tbl pos), RowsDone) = Some (rows, fin)" "r \<in> set rows"
    then show "Canonical (bd_fmt d) (bd_marshal d) (pk_map (cf_pkcols cfg) r) = Some (name (?key r))" using nm sub by blast
  next
    fix n pos rows fin k
    assume "Some (take n (after_pos earlier (cf_pkcols cfg) tbl pos), RowsDone) = Some (rows, fin)" "k \<in> ?key ` set tbl"
      "\<forall>p. pos = Some p \<longrightarrow> earlier p k"
    then show "k \<in> ?key ` set rows \<or> n \<le> length rows \<and> (\<forall>r \<in> set rows. earlier (?key r) k)" using pg by blast
  qed
qed

section \<open>A table\<close>

definition bx_config :: backfill_config where
  "bx_config = \<lparr>cf_sourceID = ''pg'', cf_schema = ''public'', cf_table = ''t'', cf_strategy = ''snapshot_and_stream'', cf_pkcols = [''id'']\<rparr>"

text \<open>\<open>json.Unmarshal\<close> into \<open>[]any\<close> makes a \<open>float64\<close> of a number; from \<open>2 ^ 53\<close> to \<open>2 ^ 54\<close> these are the even ones, ties go to a multiple of four.\<close>

definition f64_round :: "nat \<Rightarrow> nat" where
  "f64_round n = (if n < 2 ^ 53 then n else if n mod 4 = 1 then n - 1 else if n mod 4 = 3 then n + 1 else n)"

definition bx_base :: "connector backfill_deps" where
  "bx_base = \<lparr>bd_sanitize = concat, bd_marshal_row = (\<lambda>_. Some ''row''),
     bd_marshal = (\<lambda>m. Some (concat (map (\<lambda>(k, v). case v of VStr s \<Rightarrow> s | _ \<Rightarrow> '''') m))), bd_fmt = ck_fmt,
     bd_pk_json = (\<lambda>k. case k of [PgInt i] \<Rightarrow> if 0 \<le> i then Some (dec_str (nat i)) else None | _ \<Rightarrow> None),
     bd_pk_parse = (\<lambda>s. Some [PgInt (int (f64_round (dec_val s)))]), bd_json_int = (\<lambda>_. JNull), bd_unmarshal = (\<lambda>_. None),
     bd_parse_lsn = (\<lambda>_. None), bd_fuel = 0, bd_watermark = False,
     bd_append = AppendAndQueue, bd_appendBatch = None\<rparr>"

definition bx_deps :: "connector backfill_deps" where
  "bx_deps = NewBackfillEngineWithBatch bx_base"

fun bx_earlier :: "pg_val list \<Rightarrow> pg_val list \<Rightarrow> bool" where
  "bx_earlier [PgInt i] [PgInt j] = (i < j)"
| "bx_earlier _ _ = False"

definition bx_row :: "int \<Rightarrow> db_row" where
  "bx_row i = [(''id'', PgInt i)]"

text \<open>The interpreter reads the limit off the query and tells the two queries apart.\<close>

definition limit_of :: "string \<Rightarrow> nat" where
  "limit_of sql = dec_val (rev (takeWhile is_digit (rev sql)))"

definition bx_query :: "db_row list \<Rightarrow> string \<times> pg_val list \<Rightarrow> (db_row list \<times> rows_end) option" where
  "bx_query tbl q =
     (let n = limit_of (fst q);
          pos = (if q = page_query bx_deps bx_config n None then None else Some (snd q)) in
      Some (take n (after_pos bx_earlier [''id''] tbl pos), RowsDone))"

definition bx_page :: "db_row list \<Rightarrow> page_env" where
  "bx_page tbl = \<lparr>pv_query = bx_query tbl, pv_checker = (\<lambda>_. NewWatermarkChecker 1), pv_read = (\<lambda>_ _ _. None),
     pv_event = (\<lambda>_. (''id'', 0)), pv_append = (\<lambda>_. True), pv_appendBatch = (\<lambda>_. AppendOk), pv_save = True, pv_now = 0, pv_elapsed = 0\<rparr>"

definition bx_env :: "page_env list \<Rightarrow> run_env" where
  "bx_env pages = \<lparr>re_load = True, re_open = True, re_reltuples = Some 2, re_save1 = True, re_flushLSN = None, re_pages = pages,
     re_control = True, re_control_ev = (''c'', 0), re_save2 = True, re_nano = 7, re_now = 0\<rparr>"

definition bx_engine :: "connector engine" where
  "bx_engine = \<lparr>en_store = [], en_sink = NewWithEventLog ''pg'' True, en_skipped = []\<rparr>"

lemma limit_of_sql: "limit_of (s @ '' LIMIT '' @ dec_str n) = n"
proof -
  have "takeWhile is_digit (rev (dec_str n) @ CHR '' '' # rev ('' LIMIT'') @ rev s) = rev (dec_str n) @ takeWhile is_digit (CHR '' '' # rev ('' LIMIT'') @ rev s)"
    by (rule takeWhile_append2) (simp add: dec_str_digits)
  then show ?thesis by (simp add: limit_of_def is_digit_def del: dec_val.simps)
qed

lemma bx_query_page: "bx_query tbl (page_query bx_deps bx_config n pos) = Some (take n (after_pos bx_earlier [''id''] tbl pos), RowsDone)"
proof -
  let ?q = "page_query bx_deps bx_config"
  have "\<exists>s. fst (?q n pos) = s @ '' LIMIT '' @ dec_str n" for n pos
    by (cases pos) (auto simp: page_query_def BuildFirstQuery_def BuildNextQuery_def Let_def intro: exI)
  then have lim: "limit_of (fst (?q n pos)) = n" for n pos by (metis limit_of_sql)
  have args: "snd (?q n (Some p)) = p" for p by (simp add: page_query_def BuildNextQuery_def Let_def)
  have "?q n (Some p) \<noteq> ?q n None" for p
    by (simp add: page_query_def BuildFirstQuery_def BuildNextQuery_def qualifiedTable_def bx_config_def bx_deps_def bx_base_def
        NewBackfillEngineWithBatch_def Let_def)
  then show ?thesis by (cases pos) (simp_all add: bx_query_def lim args Let_def)
qed

lemma bx_sel:
  "bd_watermark bx_deps = False" "bd_append bx_deps = AppendAndQueue" "bd_appendBatch bx_deps = Some AppendAndQueueBatch"
  "bd_marshal_row bx_deps r = Some ''row''" "bd_json_int bx_deps = (\<lambda>_. JNull)"
  "bd_pk_json bx_deps [PgInt i] = (if 0 \<le> i then Some (dec_str (nat i)) else None)"
  "bd_pk_parse bx_deps s = Some [PgInt (int (f64_round (dec_val s)))]"
  by (simp_all add: bx_deps_def bx_base_def NewBackfillEngineWithBatch_def del: dec_val.simps)

definition bx_name :: "pg_val list \<Rightarrow> string" where
  "bx_name k = (case k of [PgInt i] \<Rightarrow> int_str i | _ \<Rightarrow> '''')"

lemma bx_pk [simp]:
  "pk_values [''id''] (bx_row i) = [PgInt i]" "pk_map [''id''] (bx_row i) = [(''id'', PgInt i)]" "cf_pkcols bx_config = [''id'']"
  by (simp_all add: pk_values_def pk_map_def pkColIdx_def bx_row_def bx_config_def)

lemma bx_config_sel: "cf_sourceID bx_config = ''pg''" "cf_table bx_config = ''t''" "cf_schema bx_config = ''public''" "cf_strategy bx_config = ''snapshot_and_stream''"
  by (simp_all add: bx_config_def)

lemma bx_canonical: "Canonical (bd_fmt bx_deps) (bd_marshal bx_deps) [(''id'', PgInt i)] = Some (int_str i)"
  by (simp add: Canonical_def canonicalValue_def canonicalNumberString_def bx_deps_def bx_base_def NewBackfillEngineWithBatch_def)

lemma bx_quiet: "quiet_page bx_deps bx_config bx_earlier tbl (bx_page tbl)"
proof -
  have "watermark_emits bx_deps bx_config env i j l = Inr True" for env i j l by (simp add: watermark_emits_def bx_sel)
  then show ?thesis by (simp add: quiet_page_def bx_page_def bx_query_page) blast
qed

definition bx_table :: "db_row list" where
  "bx_table = [bx_row 1, bx_row 2]"

lemma bx_complete: "page_complete bx_deps bx_config bx_earlier {[PgInt 1], [PgInt 2]} bx_name ((bx_page bx_table)\<lparr>pv_save := b\<rparr>)"
proof -
  have "page_complete bx_deps bx_config bx_earlier (pk_values (cf_pkcols bx_config) ` set bx_table) bx_name (bx_page bx_table)"
    by (rule quiet_page_complete [OF bx_quiet]) (auto simp: bx_table_def bx_canonical bx_name_def)
  then show ?thesis by (simp add: page_complete_def bx_table_def)
qed

lemma bx_reads_back: "cursor_reads_back bx_deps bx_earlier {[PgInt 1], [PgInt 2]}"
  by (auto simp: cursor_reads_back_def bx_deps_def bx_base_def NewBackfillEngineWithBatch_def f64_round_def
      split: list.splits pg_val.splits if_splits simp del: dec_val.simps elim!: bx_earlier.elims)

section \<open>Runs\<close>

lemmas run_simps = runOne_def LoadState_def snapshotTable_def start_state_def SaveState_def assign_lsn_def put_status_def fresh_state_def
  snapshot_page_def snapshot_row_def emit_row_def flushEventBuf_def move_cursor_def count_row_def watermark_emits_def MakeReadEvent_def
  MakeControlEvent_def AppendAndQueue_def AppendAndQueueBatch_def NewWithEventLog_def bx_sel bx_config_sel after_pos_code defaultBatch_def
  backfillBatchSize_def gomap_simps Let_def

text \<open>A first run that fails to save its progress, and a second one.\<close>

definition bx_ops :: "engine_op list" where
  "bx_ops = [OpRun [(bx_config, bx_env [(bx_page bx_table)\<lparr>pv_save := False\<rparr>])], OpRun [(bx_config, bx_env [(bx_page bx_table)\<lparr>pv_save := True\<rparr>])]]"

lemma bx_run: "map_option bk_status (gm_get (en_store (exec_ops bx_deps bx_ops bx_engine)) (''pg'', ''t'')) = Some ''completed''"
  by (simp add: bx_ops_def exec_ops_def bx_env_def bx_engine_def run_simps bx_page_def bx_query_page bx_table_def bx_canonical)

lemma NewBackfillEngineWithBatch_fixed: "NewBackfillEngineWithBatch bx_base = bx_deps"
  by (simp add: bx_deps_def)


theorem quiet_snapshot_completes_witness:
  "\<exists>en'. Run bx_deps [(bx_config, bx_env (replicate 3 (bx_page bx_table)))] bx_engine = (Inr (), en') \<and>
     \<not> HasPendingBackfills [(bx_config, True)] (en_store en')"
proof -
  have "\<forall>a b c. bx_earlier a b \<longrightarrow> bx_earlier b c \<longrightarrow> bx_earlier a c" "\<forall>a. \<not> bx_earlier a a"
    by (auto elim!: bx_earlier.elims)
  moreover have "\<forall>r \<in> set bx_table. marshals bx_deps bx_config r"
    by (auto simp: marshals_def bx_table_def bx_canonical) (simp_all add: bx_deps_def bx_base_def NewBackfillEngineWithBatch_def)
  ultimately show ?thesis
    using quiet_snapshot_completes [where d = bx_base and en = bx_engine and cfg = bx_config and env = "bx_env (replicate 3 (bx_page bx_table))",
      unfolded NewBackfillEngineWithBatch_fixed, of bx_earlier bx_table] bx_quiet
    by (simp add: bx_env_def bx_table_def bx_engine_def NewWithEventLog_def bx_config_def)
qed

section \<open>A cursor that reads back too high\<close>

definition bx_interrupted :: "connector engine" where
  "bx_interrupted = bx_engine\<lparr>en_store := [((''pg'', ''t''), (start_state bx_config (bx_env []) (fresh_state bx_config 0))
     \<lparr>bk_cursor := bd_pk_json bx_deps [PgInt 9007199254740995]\<rparr>)]\<rparr>"

text \<open>
  The saved cursor is JSON, and \<open>json.Unmarshal\<close> makes a \<open>float64\<close> of an integer key. A snapshot
  interrupted after the key \<open>9007199254740995\<close> (\<open>2 ^ 53 + 3\<close>) resumes after \<open>9007199254740996\<close>: the
  run completes, and the row with that key has no event.
\<close>

theorem resumed_cursor_skips_row:
  "let tbl = [bx_row 9007199254740995, bx_row 9007199254740996];
       (res, en) = Run bx_deps [(bx_config, bx_env [bx_page tbl])] bx_interrupted
   in res = Inr () \<and> \<not> HasPendingBackfills [(bx_config, True)] (en_store en) \<and>
      list_all (\<lambda>ev. ev_operation ev = OpControl) (cn_log (en_sink en)) \<and> en_skipped en = []"
  by (simp add: bx_interrupted_def bx_env_def bx_engine_def run_simps bx_page_def bx_query_page f64_round_def del: dec_val.simps)

end
