(* ===== verification/Pg_Ident.thy ===== *)
theory Pg_Ident
  imports Go_Strings
begin

text \<open>
  Table references (\<open>internal/pgident/ident.go\<close>): parsing of \<open>schema.table\<close> with double-quoted
  parts, and quoting for SQL. A reader of the code's index into the string is the rest of the string
  here. \<open>sanitize\<close> is \<open>pgx.Identifier.Sanitize\<close>.
\<close>

datatype ident_error = EmptyRef | EmptyIdent | TooManyParts | UnexpectedChar | TrailingDot | QuoteMidIdent | UnclosedQuote

definition dquote :: char where "dquote = CHR 0x22"

text \<open>After the opening quote: the name and what follows the closing quote.\<close>

fun readQuoted :: "string \<Rightarrow> ident_error + string \<times> string" where
  "readQuoted [] = Inl UnclosedQuote"
| "readQuoted (c # cs) =
     (if c \<noteq> dquote then (case readQuoted cs of Inl e \<Rightarrow> Inl e | Inr (name, rest) \<Rightarrow> Inr (c # name, rest))
      else case cs of
        [] \<Rightarrow> Inr ([], [])
      | c' # cs' \<Rightarrow>
          if c' = dquote then (case readQuoted cs' of Inl e \<Rightarrow> Inl e | Inr (name, rest) \<Rightarrow> Inr (dquote # name, rest))
          else Inr ([], c' # cs'))"

fun readPlain :: "string \<Rightarrow> ident_error + string \<times> string" where
  "readPlain [] = Inr ([], [])"
| "readPlain (c # cs) =
     (if c = CHR ''.'' then Inr ([], c # cs)
      else if c = dquote then Inl QuoteMidIdent
      else case readPlain cs of Inl e \<Rightarrow> Inl e | Inr (name, rest) \<Rightarrow> Inr (c # name, rest))"

definition readIdent :: "string \<Rightarrow> ident_error + string \<times> string" where
  "readIdent s =
     (case s of
        c # cs \<Rightarrow> if c = dquote then readQuoted cs
                  else (case readPlain s of Inl e \<Rightarrow> Inl e | Inr (name, rest) \<Rightarrow> if name = [] then Inl EmptyIdent else Inr (name, rest))
      | [] \<Rightarrow> Inl EmptyIdent)"

lemma readQuoted_shorter: "readQuoted s = Inr (name, rest) \<Longrightarrow> length rest < length s"
  by (induction s arbitrary: name rest rule: readQuoted.induct) (fastforce split: if_splits sum.splits list.splits)+

lemma readPlain_shorter: "readPlain s = Inr (name, rest) \<Longrightarrow> length name + length rest = length s"
  by (induction s arbitrary: name rest) (auto split: if_splits sum.splits)

lemma readIdent_shorter: "readIdent s = Inr (name, rest) \<Longrightarrow> length rest < length s"
proof (cases s)
  case (Cons c cs)
  moreover assume "readIdent s = Inr (name, rest)"
  ultimately show ?thesis
    using readQuoted_shorter [of cs name rest] readPlain_shorter [of s name rest]
    by (cases name) (auto simp: readIdent_def split: if_splits sum.splits)
qed (simp add: readIdent_def)

function splitQualified :: "string \<Rightarrow> ident_error + string list" where
  "splitQualified s =
     (if s = [] then Inr []
      else case readIdent s of
        Inl e \<Rightarrow> Inl e
      | Inr (part, rest) \<Rightarrow>
          (case rest of
             [] \<Rightarrow> Inr [part]
           | c # rest' \<Rightarrow>
               if c \<noteq> CHR ''.'' then Inl UnexpectedChar
               else if rest' = [] then Inl TrailingDot
               else (case splitQualified rest' of Inl e \<Rightarrow> Inl e | Inr parts \<Rightarrow> Inr (part # parts))))"
  by pat_completeness auto
termination
  by (relation "measure length") (auto dest: readIdent_shorter)

declare splitQualified.simps [simp del]

definition Parse_ident :: "string \<Rightarrow> ident_error + string \<times> string" where
  "Parse_ident ref0 =
     (let ref = TrimSpace ref0 in
      if ref = [] then Inl EmptyRef
      else case splitQualified ref of
        Inl e \<Rightarrow> Inl e
      | Inr parts \<Rightarrow>
          (case parts of
             [t] \<Rightarrow> if t = [] then Inl EmptyIdent else Inr ([], t)
           | [s, t] \<Rightarrow> if s = [] \<or> t = [] then Inl EmptyIdent else Inr (s, t)
           | _ \<Rightarrow> Inl TooManyParts))"

definition Qualify :: "(string list \<Rightarrow> string) \<Rightarrow> string \<Rightarrow> string \<Rightarrow> string" where
  "Qualify sanitize schema table = (if schema \<noteq> [] then sanitize [schema, table] else sanitize [table])"

definition splitSchemaTable :: "string \<Rightarrow> ident_error + string \<times> string" where
  "splitSchemaTable s =
     (case Parse_ident s of
        Inl e \<Rightarrow> Inl e
      | Inr (schema, table) \<Rightarrow> Inr (if schema = [] then ''public'' else schema, table))"

section \<open>Round trip\<close>

text \<open>What \<open>Sanitize\<close> documents: parts in double quotes, quotes doubled, joined by dots, NUL bytes dropped.\<close>

fun double_quotes :: "string \<Rightarrow> string" where
  "double_quotes [] = []"
| "double_quotes (c # cs) = (if c = dquote then [dquote, dquote] else [c]) @ double_quotes cs"

definition quote_ident :: "string \<Rightarrow> string" where
  "quote_ident s = dquote # double_quotes (filter (\<lambda>c. c \<noteq> CHR 0x00) s) @ [dquote]"

definition pgx_sanitize :: "(string list \<Rightarrow> string) \<Rightarrow> bool" where
  "pgx_sanitize sanitize \<longleftrightarrow>
     (\<forall>t. sanitize [t] = quote_ident t) \<and> (\<forall>s t. sanitize [s, t] = quote_ident s @ ''.'' @ quote_ident t)"

lemma readQuoted_quoted:
  assumes "rest = [] \<or> hd rest \<noteq> dquote"
  shows "readQuoted (double_quotes s @ dquote # rest) = Inr (s, rest)"
proof (induction s)
  case Nil
  then show ?case using assms by (cases rest) auto
qed simp

lemma readIdent_quoted:
  assumes "rest = [] \<or> hd rest \<noteq> dquote" "CHR 0x00 \<notin> set s"
  shows "readIdent (quote_ident s @ rest) = Inr (s, rest)"
proof -
  have "filter (\<lambda>c. c \<noteq> CHR 0x00) s = s" using assms(2) by (auto simp: filter_id_conv)
  then show ?thesis using readQuoted_quoted [OF assms(1), of s] by (simp add: readIdent_def quote_ident_def)
qed

lemma quote_ident_nonempty [simp]: "quote_ident s \<noteq> []"
  by (simp add: quote_ident_def)

lemma splitQualified_quoted: "CHR 0x00 \<notin> set s \<Longrightarrow> splitQualified (quote_ident s) = Inr [s]"
  using readIdent_quoted [of "[]" s] by (subst splitQualified.simps) simp

lemma splitQualified_quoted2:
  assumes "CHR 0x00 \<notin> set s" "CHR 0x00 \<notin> set t"
  shows "splitQualified (quote_ident s @ CHR ''.'' # quote_ident t) = Inr [s, t]"
  using readIdent_quoted [of "CHR ''.'' # quote_ident t" s] splitQualified_quoted [OF assms(2)] assms(1)
  by (subst splitQualified.simps) (simp add: dquote_def)

lemma TrimSpace_quoted: "TrimSpace (dquote # s @ [dquote]) = dquote # s @ [dquote]"
  by (rule TrimSpace_solid) (simp_all add: solid_def dquote_def IsSpace_def code_def)

text \<open>
  A quoted reference parses back to the names it was built from, whatever dots, quotes, spaces or
  capitals they contain.
\<close>

theorem Parse_Qualify:
  assumes "pgx_sanitize sanitize" "table \<noteq> []" "CHR 0x00 \<notin> set schema" "CHR 0x00 \<notin> set table"
  shows "Parse_ident (Qualify sanitize schema table) = Inr (schema, table)"
proof (cases "schema = []")
  case True
  then show ?thesis
    using assms splitQualified_quoted [of table] TrimSpace_quoted [of "double_quotes (filter (\<lambda>c. c \<noteq> CHR 0x00) table)"]
    by (simp add: Parse_ident_def Qualify_def pgx_sanitize_def quote_ident_def Let_def)
next
  case False
  let ?q = "double_quotes (filter (\<lambda>c. c \<noteq> CHR 0x00) schema) @ dquote # CHR ''.'' # dquote # double_quotes (filter (\<lambda>c. c \<noteq> CHR 0x00) table)"
  have "TrimSpace (quote_ident schema @ CHR ''.'' # quote_ident table) = quote_ident schema @ CHR ''.'' # quote_ident table"
    using TrimSpace_quoted [of ?q] by (simp add: quote_ident_def)
  then show ?thesis
    using assms False splitQualified_quoted2 by (simp add: Parse_ident_def Qualify_def pgx_sanitize_def Let_def)
qed

definition ident_sanitize :: "string list \<Rightarrow> string" where
  "ident_sanitize parts = (case parts of [t] \<Rightarrow> quote_ident t | [s, t] \<Rightarrow> quote_ident s @ ''.'' @ quote_ident t | _ \<Rightarrow> [])"

theorem Parse_Qualify_witness:
  "Parse_ident (Qualify ident_sanitize ''Sales'' (dquote # ''a.b'')) = Inr (''Sales'', dquote # ''a.b'')"
  by (rule Parse_Qualify) (simp_all add: pgx_sanitize_def ident_sanitize_def dquote_def)

end
