(* ===== verification/Pg_Session.thy ===== *)
theory Pg_Session
  imports Backfill_Safety Pg_Ident
begin

text \<open>
  Connecting (\<open>connectAndStream\<close>, \<open>Run\<close>, \<open>ensurePublication\<close>, \<open>ApplyDefaults\<close> of
  \<open>internal/source/postgres\<close>): the checks before a session, the replication slot, the checkpoint, the
  reset of the backfill after slot loss and its launch. Every call to Postgres or a store is an input
  that says how it ends. The slot itself is server state that outlives the process.
\<close>

section \<open>Configuration\<close>

record pg_config =
  pc_dsn :: string
  pc_slotName :: string
  pc_publicationName :: string
  pc_tables :: "string list"
  pc_allowAllTables :: bool
  pc_sourceID :: string
  pc_initialBackoff :: int
  pc_maxBackoff :: int
  pc_standbyTimeout :: int
  pc_walLagThreshold :: int

definition ApplyDefaults :: "pg_config \<Rightarrow> pg_config" where
  "ApplyDefaults c =
     c\<lparr>pc_slotName := (if pc_slotName c = [] then ''kaptanto_'' @ pc_sourceID c else pc_slotName c),
       pc_publicationName := (if pc_publicationName c = [] then ''kaptanto_pub_'' @ pc_sourceID c else pc_publicationName c),
       pc_initialBackoff := (if pc_initialBackoff c = 0 then 2 * second_ns else pc_initialBackoff c),
       pc_maxBackoff := (if pc_maxBackoff c = 0 then 60 * second_ns else pc_maxBackoff c),
       pc_standbyTimeout := (if pc_standbyTimeout c = 0 then 10 * second_ns else pc_standbyTimeout c),
       pc_walLagThreshold := (if pc_walLagThreshold c = 0 then 100 * 1024 * 1024 else pc_walLagThreshold c)\<rparr>"

section \<open>Publication\<close>

datatype session_error =
    ReplConnErr | QueryConnErr | NotPrimary | BadTable ident_error | PublicationErr | NoTables | SlotErr | LoadCkptErr | ParseCkptErr
  | ResetErr backfill_error | StartErr | StreamErr source_error

text \<open>
  \<open>count\<close> is the answer of the existence query (\<^term>\<open>None\<close> for an error). The result is an error, or
  the statement to execute when the publication is missing.
\<close>

fun qualify_tables :: "(string list \<Rightarrow> string) \<Rightarrow> string list \<Rightarrow> session_error + string list" where
  "qualify_tables sanitize [] = Inr []"
| "qualify_tables sanitize (t # ts) =
     (case Parse_ident t of
        Inl e \<Rightarrow> Inl (BadTable e)
      | Inr (schema, table) \<Rightarrow>
          (case qualify_tables sanitize ts of
             Inl e \<Rightarrow> Inl e
           | Inr qs \<Rightarrow> Inr (Qualify sanitize (if schema = [] then ''public'' else schema) table # qs)))"

definition ensurePublication ::
  "(string list \<Rightarrow> string) \<Rightarrow> nat option \<Rightarrow> string \<Rightarrow> string list \<Rightarrow> bool \<Rightarrow> session_error + string option" where
  "ensurePublication sanitize count pubName tables allowAllTables =
     (case count of
        None \<Rightarrow> Inl PublicationErr
      | Some n \<Rightarrow>
          if 0 < n then Inr None
          else if tables = [] then
            (if \<not> allowAllTables then Inl NoTables
             else Inr (Some (''CREATE PUBLICATION '' @ sanitize [pubName] @ '' FOR ALL TABLES'')))
          else (case qualify_tables sanitize tables of
                  Inl e \<Rightarrow> Inl e
                | Inr qs \<Rightarrow> Inr (Some (''CREATE PUBLICATION '' @ sanitize [pubName] @ '' FOR TABLE '' @ join qs '', ''))))"

section \<open>One session\<close>

text \<open>
  Inputs: outcomes of the connections, the recovery check (\<^term>\<open>None\<close> error), the publication
  query and statement, the slot query (\<^term>\<open>False\<close> error), the consistent point of a created slot, the
  checkpoint load, the inputs of the reset, the start of replication.
\<close>

record session_env =
  se_repl :: bool
  se_query :: bool
  se_inRecovery :: "bool option"
  se_pubCount :: "nat option"
  se_pubExec :: bool
  se_slotQuery :: bool
  se_create :: "string option"
  se_load :: bool
  se_reset :: "(backfill_config \<times> bool \<times> bool \<times> int) list"
  se_now :: int
  se_start :: bool
  se_pending :: "(backfill_config \<times> bool) list"

text \<open>The server's slot, and the engine, whose sink is the connector with its checkpoint.\<close>

record source_world =
  sw_slot :: bool
  sw_engine :: "connector engine"

text \<open>What a started session runs with: start position, acknowledgement floor, and whether the backfill was launched.\<close>

record session =
  ss_start :: u64
  ss_saved :: u64
  ss_backfill :: bool

fun check_tables :: "string list \<Rightarrow> session_error option" where
  "check_tables [] = None"
| "check_tables (t # ts) = (case splitSchemaTable t of Inl e \<Rightarrow> Some (BadTable e) | Inr _ \<Rightarrow> check_tables ts)"

definition resetBackfillOnSlotLoss ::
  "session_env \<Rightarrow> bool \<Rightarrow> u64 \<Rightarrow> connector engine \<Rightarrow> (session_error + unit) \<times> connector engine" where
  "resetBackfillOnSlotLoss env needsSnapshot snapshotLSN en =
     (if \<not> needsSnapshot then (Inr (), en)
      else case ResetForSlotLoss snapshotLSN (se_now env) (se_reset env) en of
             (Inl e, en) \<Rightarrow> (Inl (ResetErr e), en)
           | (Inr _, en) \<Rightarrow> (Inr (), en))"

definition launchBackfill :: "session_env \<Rightarrow> bool \<Rightarrow> connector engine \<Rightarrow> bool" where
  "launchBackfill env needsSnapshot en \<longleftrightarrow> HasPendingBackfills (se_pending env) (en_store en) \<or> needsSnapshot"

definition connect_checks :: "(string list \<Rightarrow> string) \<Rightarrow> pg_config \<Rightarrow> session_env \<Rightarrow> session_error option" where
  "connect_checks sanitize cfg env =
     (if \<not> se_repl env then Some ReplConnErr
      else if \<not> se_query env then Some QueryConnErr
      else if se_inRecovery env \<noteq> Some False then Some NotPrimary
      else case check_tables (pc_tables cfg) of
        Some e \<Rightarrow> Some e
      | None \<Rightarrow>
          (case ensurePublication sanitize (se_pubCount env) (pc_publicationName cfg) (pc_tables cfg) (pc_allowAllTables cfg) of
             Inl e \<Rightarrow> Some e
           | Inr None \<Rightarrow> None
           | Inr (Some sql) \<Rightarrow> if se_pubExec env then None else Some PublicationErr))"

definition load_checkpoint :: "(string \<Rightarrow> u64 option) \<Rightarrow> session_env \<Rightarrow> connector engine \<Rightarrow> session_error + u64 \<times> bool" where
  "load_checkpoint parse_lsn env en =
     (if \<not> se_load env then Inl LoadCkptErr
      else let s = cn_ckpt (en_sink en) in
        if s = [] then Inr (0, False)
        else case parse_lsn s of None \<Rightarrow> Inl ParseCkptErr | Some l \<Rightarrow> Inr (l, True))"

definition connectAndStream ::
  "(string \<Rightarrow> u64 option) \<Rightarrow> (string list \<Rightarrow> string) \<Rightarrow> pg_config \<Rightarrow> session_env \<Rightarrow> bool \<Rightarrow> source_world
     \<Rightarrow> (session_error + session) \<times> source_world" where
  "connectAndStream parse_lsn sanitize cfg env wasEverConnected w =
     (case connect_checks sanitize cfg env of
        Some e \<Rightarrow> (Inl e, w)
      | None \<Rightarrow>
         (case ensureSlot parse_lsn (if se_slotQuery env then Some (if sw_slot w then 1 else 0) else None) (se_create env) wasEverConnected of
            None \<Rightarrow> (Inl SlotErr, w)
          | Some (needsSnapshot, consistentPoint) \<Rightarrow>
             (let w = w\<lparr>sw_slot := True\<rparr> in
              case load_checkpoint parse_lsn env (sw_engine w) of
                Inl e \<Rightarrow> (Inl e, w)
              | Inr (checkpoint, hasCheckpoint) \<Rightarrow>
                 (case resetBackfillOnSlotLoss env needsSnapshot consistentPoint (sw_engine w) of
                    (Inl e, en) \<Rightarrow> (Inl e, w\<lparr>sw_engine := en\<rparr>)
                  | (Inr _, en) \<Rightarrow>
                     (let w = w\<lparr>sw_engine := en\<lparr>en_sink := start_session (en_sink en)\<rparr>\<rparr>;
                          (startLSN, lastSaved) = ReplicationStartLSN needsSnapshot consistentPoint checkpoint hasCheckpoint in
                      if \<not> se_start env then (Inl StartErr, w)
                      else (Inr \<lparr>ss_start = startLSN, ss_saved = lastSaved, ss_backfill = launchBackfill env needsSnapshot (sw_engine w)\<rparr>, w))))))"

text \<open>The reconnect loop: after the first attempt, successful or not, \<open>wasEverConnected\<close> is true; the delays double.\<close>

fun reconnects ::
  "(string \<Rightarrow> u64 option) \<Rightarrow> (string list \<Rightarrow> string) \<Rightarrow> pg_config \<Rightarrow> session_env list \<Rightarrow> bool \<Rightarrow> int \<Rightarrow> source_world
     \<Rightarrow> ((session_error + session) \<times> int) list \<times> source_world" where
  "reconnects parse_lsn sanitize cfg [] wasEver backoff w = ([], w)"
| "reconnects parse_lsn sanitize cfg (env # envs) wasEver backoff w =
     (let (r, w) = connectAndStream parse_lsn sanitize cfg env wasEver w;
          (rs, w) = reconnects parse_lsn sanitize cfg envs True (next_backoff backoff (pc_maxBackoff cfg)) w
      in ((r, backoff) # rs, w))"

section \<open>Slot loss\<close>

definition store_wf :: "backfill_store \<Rightarrow> bool" where
  "store_wf store \<longleftrightarrow> (\<forall>i st. gm_get store i = Some st \<longrightarrow> (bk_source st, bk_table st) = i)"

definition is_reset :: "u64 \<Rightarrow> backfill_store \<Rightarrow> backfill_config \<Rightarrow> bool" where
  "is_reset lsn store c \<longleftrightarrow> (\<exists>st. gm_get store (cf_sourceID c, cf_table c) = Some st \<and> bk_status st = ''pending'' \<and>
     bk_cursor st = None \<and> bk_processed st = 0 \<and> bk_lsn st = lsn)"

lemma ResetForSlotLoss_resets:
  assumes "ResetForSlotLoss lsn now cs en = (Inr (), en')" "store_wf (en_store en)"
  shows "(\<forall>c. is_reset lsn (en_store en) c \<longrightarrow> is_reset lsn (en_store en') c) \<and>
    (\<forall>(c, l, s, n) \<in> set cs. cf_strategy c \<noteq> ''stream_only'' \<longrightarrow> is_reset lsn (en_store en') c)"
  using assms
proof (induction cs arbitrary: en)
  case (Cons x rest)
  obtain c load_ok save_ok nano where x: "x = (c, load_ok, save_ok, nano)" by (metis prod_cases4)
  let ?i = "(cf_sourceID c, cf_table c)"
  let ?st = "reset_state c lsn now nano (case gm_get (en_store en) ?i of None \<Rightarrow> fresh_state c now | Some st \<Rightarrow> st)"
  let ?en1 = "en\<lparr>en_store := gm_set ?i (?st\<lparr>bk_updated := now\<rparr>) (en_store en)\<rparr>"
  have id: "(bk_source ?st, bk_table ?st) = ?i"
    using Cons.prems(2) unfolding store_wf_def by (auto simp: fresh_state_def reset_state_def split: option.splits)
  show ?case
  proof (cases "cf_strategy c = ''stream_only''")
    case True
    then show ?thesis using Cons.IH [OF _ Cons.prems(2)] Cons.prems(1) by (auto simp: x)
  next
    case False
    then have r: "ResetForSlotLoss lsn now rest ?en1 = (Inr (), en')"
      using Cons.prems(1) id by (auto simp: x LoadState_def SaveState_def split: if_splits)
    have wf: "store_wf (en_store ?en1)" using Cons.prems(2) id by (auto simp: store_wf_def gomap_simps split: if_splits)
    have "is_reset lsn (en_store ?en1) c" by (simp add: is_reset_def gomap_simps reset_state_def)
    moreover have "is_reset lsn (en_store en) b \<Longrightarrow> is_reset lsn (en_store ?en1) b" for b
      by (auto simp: is_reset_def gomap_simps reset_state_def)
    ultimately show ?thesis using Cons.IH [OF r wf] by (auto simp: x)
  qed
qed simp

text \<open>
  C24. SRC-06: a reconnect that finds the slot gone and reaches streaming has reset every table that is
  snapshotted (pending, first page, the new slot's consistent point as snapshot position), has
  launched the backfill, starts there and acknowledges nothing older.
\<close>

theorem slot_loss_recovers:
  assumes "connectAndStream parse_lsn sanitize cfg env True w = (Inr s, w')" "\<not> sw_slot w" "store_wf (en_store (sw_engine w))"
  shows "\<exists>cp l. se_create env = Some cp \<and> l = (case parse_lsn cp of None \<Rightarrow> 0 | Some l \<Rightarrow> l) \<and>
    ss_backfill s \<and> ss_start s = l \<and> ss_saved s = 0 \<and> sw_slot w' \<and>
    (\<forall>(c, load_ok, save_ok, nano) \<in> set (se_reset env). cf_strategy c \<noteq> ''stream_only'' \<longrightarrow> is_reset l (en_store (sw_engine w')) c)"
proof -
  obtain cp where cp: "se_create env = Some cp" "se_slotQuery env"
    using assms(1,2) by (auto simp: connectAndStream_def ensureSlot_def split: option.splits if_splits)
  let ?l = "case parse_lsn cp of None \<Rightarrow> 0 | Some l \<Rightarrow> l"
  obtain k h where k: "load_checkpoint parse_lsn env (sw_engine w) = Inr (k, h)" and pre: "connect_checks sanitize cfg env = None"
    using assms(1,2) by (auto simp: connectAndStream_def ensureSlot_def Let_def cp split: option.splits if_splits sum.splits)
  obtain r en where r: "ResetForSlotLoss ?l (se_now env) (se_reset env) (sw_engine w) = (r, en)" by fastforce
  have "r = Inr ()"
    using assms(1,2) cp k pre r by (cases r) (auto simp: connectAndStream_def ensureSlot_def resetBackfillOnSlotLoss_def Let_def)
  moreover from this have "se_start env" "w' = \<lparr>sw_slot = True, sw_engine = en\<lparr>en_sink := start_session (en_sink en)\<rparr>\<rparr>"
      "ss_start s = ?l" "ss_saved s = 0" "ss_backfill s"
    using assms(1,2) cp k pre r
    by (auto simp: connectAndStream_def ensureSlot_def resetBackfillOnSlotLoss_def ReplicationStartLSN_def launchBackfill_def Let_def split: if_splits)
  ultimately show ?thesis using ResetForSlotLoss_resets [OF _ assms(3)] r cp by auto
qed

text \<open>
  The slot is created before anything is recorded. When the attempt that found the slot gone fails
  after that (here at the checkpoint load), the next attempt sees a slot and takes no snapshot: the
  changes of the gap are not re-read.
\<close>

theorem slot_loss_forgotten:
  assumes "\<not> sw_slot w" "connect_checks sanitize cfg env1 = None" "se_slotQuery env1" "se_create env1 = Some cp" "\<not> se_load env1"
    and "connectAndStream parse_lsn sanitize cfg env1 True w = (r1, w1)"
    and "connectAndStream parse_lsn sanitize cfg env2 True w1 = (Inr s, w2)"
    and "\<not> HasPendingBackfills (se_pending env2) (en_store (sw_engine w))"
  shows "\<not> ss_backfill s \<and> en_store (sw_engine w2) = en_store (sw_engine w)"
proof -
  have w1: "w1 = w\<lparr>sw_slot := True\<rparr>"
    using assms(1-6) by (simp add: connectAndStream_def ensureSlot_def load_checkpoint_def Let_def)
  then show ?thesis
    using assms(7,8)
    by (auto simp: connectAndStream_def ensureSlot_def resetBackfillOnSlotLoss_def launchBackfill_def Let_def
        split: option.splits if_splits sum.splits prod.splits)
qed

section \<open>A run\<close>

definition sx_config :: pg_config where
  "sx_config = \<lparr>pc_dsn = ''postgres://h/db'', pc_slotName = [], pc_publicationName = ''p'', pc_tables = [''public.t''], pc_allowAllTables = False,
     pc_sourceID = ''pg'', pc_initialBackoff = 0, pc_maxBackoff = 0, pc_standbyTimeout = 0, pc_walLagThreshold = 0\<rparr>"

definition sx_table :: backfill_config where
  "sx_table = \<lparr>cf_sourceID = ''pg'', cf_schema = ''public'', cf_table = ''t'', cf_strategy = ''snapshot_and_stream'', cf_pkcols = [''id'']\<rparr>"

definition sx_env :: "bool \<Rightarrow> session_env" where
  "sx_env load_ok = \<lparr>se_repl = True, se_query = True, se_inRecovery = Some False, se_pubCount = Some 1, se_pubExec = True, se_slotQuery = True,
     se_create = Some ''0/9'', se_load = load_ok, se_reset = [(sx_table, True, True, 7)], se_now = 0, se_start = True,
     se_pending = [(sx_table, True)]\<rparr>"

definition sx_world :: source_world where
  "sx_world = \<lparr>sw_slot = False, sw_engine = \<lparr>en_store = [((''pg'', ''t''), (fresh_state sx_table 0)\<lparr>bk_status := ''completed''\<rparr>)],
     en_sink = NewWithEventLog ''pg'' True, en_skipped = []\<rparr>\<rparr>"

lemma sx_checks: "connect_checks sanitize sx_config (sx_env b) = None"
proof -
  have "splitQualified ''t'' = Inr [''t'']" by (subst splitQualified.simps) (simp add: readIdent_def dquote_def)
  then have "splitQualified ''public.t'' = Inr [''public'', ''t'']" by (subst splitQualified.simps) (simp add: readIdent_def dquote_def)
  moreover have "TrimSpace ''public.t'' = ''public.t''" by (rule TrimSpace_solid) (simp_all add: solid_def IsSpace_def code_def)
  ultimately show ?thesis
    by (simp add: connect_checks_def sx_env_def sx_config_def ensurePublication_def splitSchemaTable_def Parse_ident_def)
qed

lemmas session_simps = connectAndStream_def sx_checks sx_env_def sx_world_def sx_table_def ensureSlot_def load_checkpoint_def
  resetBackfillOnSlotLoss_def LoadState_def SaveState_def reset_state_def fresh_state_def ReplicationStartLSN_def launchBackfill_def
  NewWithEventLog_def start_session_def ClearRelationCache_def New_def gomap_simps Let_def

theorem slot_loss_recovers_witness:
  "\<exists>s w'. connectAndStream (\<lambda>_. Some 9) concat sx_config (sx_env True) True sx_world = (Inr s, w') \<and> ss_backfill s \<and> ss_start s = 9 \<and>
     is_reset 9 (en_store (sw_engine w')) sx_table"
proof -
  obtain s w' where c: "connectAndStream (\<lambda>_. Some 9) concat sx_config (sx_env True) True sx_world = (Inr s, w')"
    using sx_checks [of concat True] by (simp add: session_simps)
  have "\<not> sw_slot sx_world" "store_wf (en_store (sw_engine sx_world))" by (auto simp: sx_world_def sx_table_def fresh_state_def store_wf_def)
  from slot_loss_recovers [OF c this(1,2)] show ?thesis using c by (auto simp: sx_env_def sx_table_def)
qed

theorem slot_loss_forgotten_witness:
  "\<exists>r1 w1 s w2. connectAndStream (\<lambda>_. Some 9) concat sx_config (sx_env False) True sx_world = (r1, w1) \<and>
     connectAndStream (\<lambda>_. Some 9) concat sx_config (sx_env True) True w1 = (Inr s, w2) \<and> \<not> ss_backfill s \<and>
     en_store (sw_engine w2) = en_store (sw_engine sx_world)"
proof -
  have 1: "connectAndStream (\<lambda>_. Some 9) concat sx_config (sx_env False) True sx_world = (Inl LoadCkptErr, sx_world\<lparr>sw_slot := True\<rparr>)"
    using sx_checks [of concat False] by (simp add: session_simps)
  obtain s w2 where 2: "connectAndStream (\<lambda>_. Some 9) concat sx_config (sx_env True) True (sx_world\<lparr>sw_slot := True\<rparr>) = (Inr s, w2)"
    using sx_checks [of concat True] by (simp add: session_simps)
  have "\<not> ss_backfill s \<and> en_store (sw_engine w2) = en_store (sw_engine sx_world)"
    by (rule slot_loss_forgotten [OF _ sx_checks _ _ _ 1 2]) (simp_all add: session_simps)
  then show ?thesis using 1 2 by blast
qed

end
