(* ===== verification/Transform.thy ===== *)
theory Transform
  imports Retry_Scheduler Go_Lib
begin

text \<open>
  Event transforms (\<open>internal/transform\<close>): the engine interface, its two implementations and
  \<open>Compile\<close>. Parsing and executing a template (\<open>text/template\<close>) and compiling and running a jq program
  (gojq) are arguments; what the engines make of their results is modelled.
\<close>

definition LangGoTemplate :: string where "LangGoTemplate = ''go-template''"
definition LangJQ :: string where "LangJQ = ''jq''"

text \<open>
  An engine applied to the stored bytes and the event fails, drops the event (\<^term>\<open>Inr None\<close>) or
  returns the new body.
\<close>

record engine =
  en_language :: string
  en_apply :: "string \<Rightarrow> change_event \<Rightarrow> go_error + string option"

type_synonym go_template = "change_event \<Rightarrow> go_error + string"

section \<open>Go templates\<close>

definition goTemplateApply :: "go_template \<Rightarrow> string \<Rightarrow> change_event \<Rightarrow> go_error + string option" where
  "goTemplateApply tmpl raw ev =
     (case tmpl ev of
        Inl err \<Rightarrow> Inl (RuntimeError LangGoTemplate err)
      | Inr out \<Rightarrow> if TrimSpace out = [] then Inr None else Inr (Some out))"

definition compileGoTemplate :: "(string \<Rightarrow> go_error + go_template) \<Rightarrow> string \<Rightarrow> go_error + engine" where
  "compileGoTemplate parse expression =
     (case parse expression of
        Inl err \<Rightarrow> Inl (ErrWrap ''go-template parse: '' err)
      | Inr tmpl \<Rightarrow> Inr \<lparr>en_language = LangGoTemplate, en_apply = goTemplateApply tmpl\<rparr>)"

section \<open>jq\<close>

text \<open>
  A compiled program: decoding the input, the outputs its iterator yields (the first two when it
  yields more), whether an output is null, and encoding one. A cancelled run yields an error.
\<close>

datatype 'j jq_output = JqValue 'j | JqError go_error

record 'j jq_code =
  jc_decode :: "string \<Rightarrow> go_error + 'j"
  jc_run :: "'j \<Rightarrow> 'j jq_output list"
  jc_null :: "'j \<Rightarrow> bool"
  jc_marshal :: "'j \<Rightarrow> go_error + string"

fun jq_loop :: "'j jq_output list \<Rightarrow> 'j option \<Rightarrow> nat \<Rightarrow> go_error + 'j option" where
  "jq_loop [] first count = Inr first"
| "jq_loop (JqError err # outs) first count = Inl (RuntimeError LangJQ err)"
| "jq_loop (JqValue v # outs) first count =
     (if Suc count = 1 then jq_loop outs (Some v) (Suc count)
      else Inl (RuntimeError LangJQ (ErrOther (''expression produced '' @ dec_str (Suc count) @
                 '' outputs; must produce exactly one''))))"

definition jqApply :: "'j jq_code \<Rightarrow> string \<Rightarrow> change_event \<Rightarrow> go_error + string option" where
  "jqApply prog raw ev =
     (case jc_decode prog raw of
        Inl err \<Rightarrow> Inl (RuntimeError LangJQ (ErrWrap ''json unmarshal: '' err))
      | Inr input \<Rightarrow>
          case jq_loop (jc_run prog input) None 0 of
            Inl err \<Rightarrow> Inl err
          | Inr None \<Rightarrow> Inr None
          | Inr (Some first) \<Rightarrow>
              if jc_null prog first then Inr None
              else case jc_marshal prog first of
                     Inl err \<Rightarrow> Inl (RuntimeError LangJQ (ErrWrap ''json marshal: '' err))
                   | Inr out \<Rightarrow> Inr (Some out))"

definition compileJQ :: "(string \<Rightarrow> go_error + 'q) \<Rightarrow> ('q \<Rightarrow> go_error + 'j jq_code) \<Rightarrow> string \<Rightarrow> go_error + engine" where
  "compileJQ parse build expression =
     (case parse expression of
        Inl err \<Rightarrow> Inl (ErrWrap ''jq parse: '' err)
      | Inr query \<Rightarrow>
          case build query of
            Inl err \<Rightarrow> Inl (ErrWrap ''jq compile: '' err)
          | Inr prog \<Rightarrow> Inr \<lparr>en_language = LangJQ, en_apply = jqApply prog\<rparr>)"

section \<open>Compile\<close>

type_synonym compilers = "(string, string \<Rightarrow> go_error + engine) gomap"

definition compilers ::
  "(string \<Rightarrow> go_error + go_template) \<Rightarrow> (string \<Rightarrow> go_error + 'q) \<Rightarrow> ('q \<Rightarrow> go_error + 'j jq_code) \<Rightarrow> compilers" where
  "compilers parseT parseQ compQ =
     [(LangGoTemplate, compileGoTemplate parseT), (LangJQ, compileJQ parseQ compQ)]"

definition allowlistNames :: string where
  "allowlistNames = join [LangGoTemplate, LangJQ] '', ''"

definition unsupportedLanguageError :: "string \<Rightarrow> go_error" where
  "unsupportedLanguageError language =
     ErrOther (''unknown transform language \"'' @ language @ ''\"; supported languages: '' @ allowlistNames)"

definition Compile :: "compilers \<Rightarrow> string \<Rightarrow> string \<Rightarrow> go_error + engine" where
  "Compile fns language expression =
     (case gm_get fns language of
        None \<Rightarrow> Inl (unsupportedLanguageError language)
      | Some fn \<Rightarrow> fn expression)"

section \<open>Lemmas\<close>

lemma lang_neq [simp]: "LangJQ \<noteq> LangGoTemplate" "LangGoTemplate \<noteq> LangJQ"
  by (simp_all add: LangJQ_def LangGoTemplate_def)

text \<open>A compiled engine reports the language it was compiled from.\<close>

lemma Compile_language:
  assumes "Compile (compilers pt pq cq) lang expr = Inr eng"
  shows "en_language eng = lang \<and> lang \<in> {LangGoTemplate, LangJQ}"
  using assms
  by (auto simp: Compile_def compilers_def compileGoTemplate_def compileJQ_def
        split: if_splits sum.splits option.splits)

text \<open>A transform that fails at run time fails permanently, so its event is not retried.\<close>

lemma jq_loop_error: "jq_loop outs first n = Inl err \<Longrightarrow> \<exists>c. err = RuntimeError LangJQ c"
  by (induction outs first n rule: jq_loop.induct) (auto split: if_splits)

lemma apply_error_permanent:
  assumes "Compile (compilers pt pq cq) lang expr = Inr eng" "en_apply eng raw ev = Inl err"
  shows "isPermanentError (Some err)"
proof -
  have "\<exists>l c. err = RuntimeError l c"
    using assms
    by (auto simp: Compile_def compilers_def compileGoTemplate_def compileJQ_def goTemplateApply_def jqApply_def
          split: if_splits sum.splits option.splits) (metis jq_loop_error)
  then show ?thesis by (auto simp: isPermanentError_def)
qed

end
