(* ===== verification/Webhook_Config.thy ===== *)
theory Webhook_Config
  imports Transform
begin

text \<open>
  Construction of the webhook sink (\<open>internal/output/webhook/consumer.go\<close>, the configuration types of
  \<open>internal/config/config.go\<close>): environment expansion, the start-up rules and the sink they yield. The
  process environment, the file system, the AWS credential chain, \<open>url.Parse\<close>, \<open>time.ParseDuration\<close> and
  the template parser are fields of \<open>web_os\<close>.
\<close>

section \<open>Configuration\<close>

record sigv4_config =
  sg_region :: string
  sg_service :: string

record tls_config =
  tls_ca_file :: string
  tls_cert_file :: string
  tls_key_file :: string

record webhook_config =
  wc_url :: string
  wc_url_template :: string
  wc_method :: string
  wc_timeout :: string
  wc_headers :: "(string, string) gomap"
  wc_bearer_token :: string
  wc_basic_username :: string
  wc_basic_password :: string
  wc_sigv4 :: "sigv4_config option"
  wc_secret :: string
  wc_max_events :: int
  wc_payload_template :: string
  wc_language :: string
  wc_expression :: string
  wc_tls :: tls_config

text \<open>One constructor per error the constructor of the sink returns.\<close>

datatype webhook_error =
    MissingEnv "string list"
  | UrlRequired
  | MethodNotAllowed string
  | SchemeNotHttp
  | SigV4RegionRequired
  | SigV4WithBearer
  | SigV4WithBasic
  | SigV4WithSecret
  | BearerWithBasic
  | AuthorizationHeader
  | NegativeMaxEvents
  | PayloadTemplateBatch
  | TimeoutInvalid
  | TimeoutNotPositive
  | UrlTemplateInvalid
  | PayloadAndTransform
  | LanguageNotAllowed string
  | LanguageXorExpression
  | GoTemplateBatch
  | PayloadTemplateError go_error
  | TransformError go_error
  | CaFileUnreadable
  | CaFileInvalid
  | CertXorKey
  | KeyPairInvalid
  | AwsConfigError
  | AwsCredentialsError

record web_os =
  wo_lookupenv :: "string \<Rightarrow> string option"
  wo_parse_url :: "string \<Rightarrow> (string \<times> string) option"
  wo_parse_duration :: "string \<Rightarrow> int option"
  wo_parse_template :: "string \<Rightarrow> go_template option"
  wo_compilers :: compilers
  wo_read_file :: "string \<Rightarrow> string option"
  wo_pem_ok :: "string \<Rightarrow> bool"
  wo_keypair_ok :: "string \<Rightarrow> string \<Rightarrow> bool"
  wo_aws_config_ok :: bool
  wo_aws_credentials_ok :: bool

section \<open>Environment expansion\<close>

definition expand :: "web_os \<Rightarrow> string \<Rightarrow> string" where
  "expand os s = Expand (\<lambda>n. case wo_lookupenv os n of None \<Rightarrow> [] | Some v \<Rightarrow> v) s"

definition missing_vars :: "web_os \<Rightarrow> string \<Rightarrow> string list" where
  "missing_vars os s = filter (\<lambda>n. wo_lookupenv os n = None) (expand_names s)"

definition expandSecret :: "web_os \<Rightarrow> string \<Rightarrow> webhook_error + string" where
  "expandSecret os s =
     (if missing_vars os s \<noteq> [] then Inl (MissingEnv (missing_vars os s)) else Inr (expand os s))"

definition expandWebhookConfig :: "web_os \<Rightarrow> webhook_config \<Rightarrow> webhook_error + webhook_config" where
  "expandWebhookConfig os cfg =
     (case expandSecret os (wc_bearer_token cfg) of
        Inl err \<Rightarrow> Inl err
      | Inr token \<Rightarrow>
          case expandSecret os (wc_basic_password cfg) of
            Inl err \<Rightarrow> Inl err
          | Inr password \<Rightarrow>
              case expandSecret os (wc_secret cfg) of
                Inl err \<Rightarrow> Inl err
              | Inr secret \<Rightarrow>
                  Inr (cfg\<lparr>wc_url := expand os (wc_url cfg), wc_url_template := expand os (wc_url_template cfg),
                           wc_bearer_token := token, wc_basic_password := password, wc_secret := secret,
                           wc_headers := map (\<lambda>(k, v). (k, expand os v)) (wc_headers cfg)\<rparr>))"

section \<open>Start-up rules\<close>

definition requireHTTPScheme :: "web_os \<Rightarrow> string \<Rightarrow> bool" where
  "requireHTTPScheme os s =
     (let trimmed = TrimSpace s
      in HasPrefix trimmed ''http://'' \<or> HasPrefix trimmed ''https://'' \<or>
         (case wo_parse_url os trimmed of
            None \<Rightarrow> False
          | Some (scheme, host) \<Rightarrow> scheme = ''http'' \<or> scheme = ''https''))"

definition validateURLAndMethod :: "web_os \<Rightarrow> webhook_config \<Rightarrow> webhook_error + string" where
  "validateURLAndMethod os cfg =
     (if wc_url cfg = [] \<and> wc_url_template cfg = [] then Inl UrlRequired
      else
        let m = (if wc_method cfg = [] then ''POST'' else wc_method cfg); trimmed = TrimSpace (wc_url_template cfg)
        in if m \<notin> {''POST'', ''PUT'', ''PATCH''} then Inl (MethodNotAllowed (wc_method cfg))
           else if wc_url cfg \<noteq> [] \<and> \<not> requireHTTPScheme os (wc_url cfg) then Inl SchemeNotHttp
           else if wc_url_template cfg \<noteq> [] \<and> trimmed \<noteq> [] \<and> \<not> HasPrefix trimmed ''{{'' \<and>
                   \<not> requireHTTPScheme os trimmed then Inl SchemeNotHttp
           else Inr m)"

definition validateAuth :: "webhook_config \<Rightarrow> webhook_error + bool \<times> bool" where
  "validateAuth cfg =
     (let hasBearer = (wc_bearer_token cfg \<noteq> []); hasBasic = (wc_basic_username cfg \<noteq> []);
          hasSigV4 = (wc_sigv4 cfg \<noteq> None);
          sigErr = (case wc_sigv4 cfg of
              None \<Rightarrow> None
            | Some sg \<Rightarrow>
                if TrimSpace (sg_region sg) = [] then Some SigV4RegionRequired
                else if hasBearer then Some SigV4WithBearer
                else if hasBasic then Some SigV4WithBasic
                else if wc_secret cfg \<noteq> [] then Some SigV4WithSecret
                else None)
      in case sigErr of
           Some err \<Rightarrow> Inl err
         | None \<Rightarrow>
             if hasBearer \<and> hasBasic then Inl BearerWithBasic
             else if (hasBearer \<or> hasBasic \<or> hasSigV4) \<and> list_ex (\<lambda>(k, v). EqualFold k ''Authorization'') (wc_headers cfg)
             then Inl AuthorizationHeader
             else Inr (hasBearer, hasBasic))"

definition validateBatchAndPayload :: "webhook_config \<Rightarrow> webhook_error option" where
  "validateBatchAndPayload cfg =
     (if wc_max_events cfg < 0 then Some NegativeMaxEvents
      else if wc_payload_template cfg \<noteq> [] \<and> wc_max_events cfg > 1 then Some PayloadTemplateBatch
      else None)"

definition parseTimeout :: "web_os \<Rightarrow> webhook_config \<Rightarrow> webhook_error + int" where
  "parseTimeout os cfg =
     (if wc_timeout cfg = [] then Inr (30 * second)
      else case wo_parse_duration os (wc_timeout cfg) of
             None \<Rightarrow> Inl TimeoutInvalid
           | Some d \<Rightarrow> if d \<le> 0 then Inl TimeoutNotPositive else Inr d)"

definition parseURLTemplate :: "web_os \<Rightarrow> webhook_config \<Rightarrow> webhook_error + go_template option" where
  "parseURLTemplate os cfg =
     (if wc_url_template cfg = [] then Inr None
      else case wo_parse_template os (wc_url_template cfg) of
             None \<Rightarrow> Inl UrlTemplateInvalid
           | Some t \<Rightarrow> Inr (Some t))"

definition buildAuthHeader :: "webhook_config \<Rightarrow> bool \<Rightarrow> bool \<Rightarrow> string" where
  "buildAuthHeader cfg hasBearer hasBasic =
     (if hasBearer then ''Bearer '' @ wc_bearer_token cfg
      else if hasBasic then
        ''Basic '' @ EncodeToString (wc_basic_username cfg @ '':'' @ wc_basic_password cfg)
      else [])"

definition compileWebhookEngine :: "web_os \<Rightarrow> webhook_config \<Rightarrow> webhook_error + engine option" where
  "compileWebhookEngine os cfg =
     (let lang = wc_language cfg; expr = wc_expression cfg; hasPayload = (wc_payload_template cfg \<noteq> [])
      in if hasPayload \<and> (lang \<noteq> [] \<or> expr \<noteq> []) then Inl PayloadAndTransform
         else if lang \<noteq> [] \<and> lang \<noteq> LangJQ \<and> lang \<noteq> LangGoTemplate then Inl (LanguageNotAllowed lang)
         else if (lang = []) \<noteq> (expr = []) then Inl LanguageXorExpression
         else if lang = LangGoTemplate \<and> wc_max_events cfg > 1 then Inl GoTemplateBatch
         else if hasPayload then
           (case Compile (wo_compilers os) LangGoTemplate (wc_payload_template cfg) of
              Inl err \<Rightarrow> Inl (PayloadTemplateError err) | Inr eng \<Rightarrow> Inr (Some eng))
         else if lang \<noteq> [] then
           (case Compile (wo_compilers os) lang expr of
              Inl err \<Rightarrow> Inl (TransformError err) | Inr eng \<Rightarrow> Inr (Some eng))
         else Inr None)"

record webhook_norm =
  wn_method :: string
  wn_authHdr :: string
  wn_secret :: string
  wn_batchMax :: int
  wn_timeout :: int
  wn_urlT :: "go_template option"
  wn_engine :: "engine option"

definition validateWebhookConfig :: "web_os \<Rightarrow> webhook_config \<Rightarrow> webhook_error + webhook_norm" where
  "validateWebhookConfig os cfg =
     (case validateURLAndMethod os cfg of Inl err \<Rightarrow> Inl err | Inr m \<Rightarrow>
      case validateAuth cfg of Inl err \<Rightarrow> Inl err | Inr (hasBearer, hasBasic) \<Rightarrow>
      case validateBatchAndPayload cfg of Some err \<Rightarrow> Inl err | None \<Rightarrow>
      case parseTimeout os cfg of Inl err \<Rightarrow> Inl err | Inr timeout \<Rightarrow>
      case parseURLTemplate os cfg of Inl err \<Rightarrow> Inl err | Inr urlT \<Rightarrow>
      case compileWebhookEngine os cfg of Inl err \<Rightarrow> Inl err | Inr eng \<Rightarrow>
        Inr \<lparr>wn_method = m, wn_authHdr = buildAuthHeader cfg hasBearer hasBasic, wn_secret = wc_secret cfg,
             wn_batchMax = (if wc_max_events cfg = 0 then 1 else wc_max_events cfg),
             wn_timeout = timeout, wn_urlT = urlT, wn_engine = eng\<rparr>)"

text \<open>The TLS configuration is used by the transport only; what matters here is when building it fails.\<close>

definition buildTLSConfig :: "web_os \<Rightarrow> tls_config \<Rightarrow> webhook_error option" where
  "buildTLSConfig os t =
     (let caErr = (if tls_ca_file t = [] then None
                   else case wo_read_file os (tls_ca_file t) of
                          None \<Rightarrow> Some CaFileUnreadable
                        | Some pem \<Rightarrow> if wo_pem_ok os pem then None else Some CaFileInvalid)
      in case caErr of
           Some err \<Rightarrow> Some err
         | None \<Rightarrow>
             if (tls_cert_file t \<noteq> []) \<noteq> (tls_key_file t \<noteq> []) then Some CertXorKey
             else if tls_cert_file t \<noteq> [] \<and> tls_key_file t \<noteq> [] \<and>
                     \<not> wo_keypair_ok os (tls_cert_file t) (tls_key_file t) then Some KeyPairInvalid
             else None)"

definition resolveWebhookSigV4 :: "web_os \<Rightarrow> sigv4_config option \<Rightarrow> webhook_error + sigv4_config option" where
  "resolveWebhookSigV4 os cfg =
     (case cfg of
        None \<Rightarrow> Inr None
      | Some sg \<Rightarrow>
          let service = (if TrimSpace (sg_service sg) = [] then ''lambda'' else TrimSpace (sg_service sg))
          in if \<not> wo_aws_config_ok os then Inl AwsConfigError
             else if \<not> wo_aws_credentials_ok os then Inl AwsCredentialsError
             else Inr (Some \<lparr>sg_region = TrimSpace (sg_region sg), sg_service = service\<rparr>))"

section \<open>The sink\<close>

record pending_req =
  pr_url :: string
  pr_body :: string
  pr_key :: string
  pr_seq :: u64

record webhook_sink =
  ws_id :: string
  ws_url :: string
  ws_urlT :: "go_template option"
  ws_engine :: "engine option"
  ws_method :: string
  ws_headers :: "(string, string) gomap"
  ws_authHdr :: string
  ws_secret :: string
  ws_sigv4 :: "sigv4_config option"
  ws_batchMax :: int
  ws_timeout :: int
  ws_pending :: "(u32, pending_req list) gomap"

definition newWebhookSinkConsumer :: "web_os \<Rightarrow> string \<Rightarrow> webhook_config \<Rightarrow> bool \<Rightarrow> webhook_error + webhook_sink" where
  "newWebhookSinkConsumer os i cfg0 exp =
     (case (if exp then expandWebhookConfig os cfg0 else Inr cfg0) of Inl err \<Rightarrow> Inl err | Inr cfg \<Rightarrow>
      case validateWebhookConfig os cfg of Inl err \<Rightarrow> Inl err | Inr norm \<Rightarrow>
      case buildTLSConfig os (wc_tls cfg) of Some err \<Rightarrow> Inl err | None \<Rightarrow>
      case resolveWebhookSigV4 os (wc_sigv4 cfg) of Inl err \<Rightarrow> Inl err | Inr sigv4 \<Rightarrow>
        Inr \<lparr>ws_id = i, ws_url = wc_url cfg, ws_urlT = wn_urlT norm, ws_engine = wn_engine norm,
             ws_method = wn_method norm, ws_headers = wc_headers cfg, ws_authHdr = wn_authHdr norm,
             ws_secret = wn_secret norm, ws_sigv4 = sigv4, ws_batchMax = wn_batchMax norm,
             ws_timeout = wn_timeout norm, ws_pending = []\<rparr>)"

definition NewWebhookSinkConsumer :: "web_os \<Rightarrow> string \<Rightarrow> webhook_config \<Rightarrow> webhook_error + webhook_sink" where
  "NewWebhookSinkConsumer os i cfg = newWebhookSinkConsumer os i cfg True"

definition NewResolvedWebhookSinkConsumer :: "web_os \<Rightarrow> string \<Rightarrow> webhook_config \<Rightarrow> webhook_error + webhook_sink" where
  "NewResolvedWebhookSinkConsumer os i cfg = newWebhookSinkConsumer os i cfg False"

section \<open>What the rules guarantee\<close>

text \<open>
  The well-formedness of a sink: an allowed method, a usable URL, a positive timeout and batch size,
  at most one way to authenticate, no configured header that competes with it, and templates, whose
  output need not be JSON, only with single-event bodies.
\<close>

definition sink_wf :: "webhook_sink \<Rightarrow> bool" where
  "sink_wf ws \<longleftrightarrow>
     ws_method ws \<in> {''POST'', ''PUT'', ''PATCH''} \<and> (ws_url ws \<noteq> [] \<or> ws_urlT ws \<noteq> None) \<and>
     1 \<le> ws_batchMax ws \<and> 0 < ws_timeout ws \<and>
     (ws_sigv4 ws \<noteq> None \<longrightarrow> ws_authHdr ws = [] \<and> ws_secret ws = []) \<and>
     (ws_authHdr ws \<noteq> [] \<or> ws_sigv4 ws \<noteq> None \<longrightarrow> \<not> list_ex (\<lambda>(k, v). EqualFold k ''Authorization'') (ws_headers ws)) \<and>
     (\<forall>eng. ws_engine ws = Some eng \<longrightarrow> en_language eng = LangGoTemplate \<longrightarrow> ws_batchMax ws = 1)"

lemma validateURLAndMethod_ok:
  assumes "validateURLAndMethod os cfg = Inr m"
  shows "m \<in> {''POST'', ''PUT'', ''PATCH''}" "wc_url cfg \<noteq> [] \<or> wc_url_template cfg \<noteq> []"
  using assms by (auto simp: validateURLAndMethod_def Let_def split: if_splits)

lemma validateAuth_ok:
  assumes "validateAuth cfg = Inr (hb, hs)"
  shows "hb \<longleftrightarrow> wc_bearer_token cfg \<noteq> []" "hs \<longleftrightarrow> wc_basic_username cfg \<noteq> []"
    and "wc_sigv4 cfg \<noteq> None \<Longrightarrow> \<not> hb \<and> \<not> hs \<and> wc_secret cfg = []"
    and "hb \<or> hs \<or> wc_sigv4 cfg \<noteq> None \<Longrightarrow> \<not> list_ex (\<lambda>(k, v). EqualFold k ''Authorization'') (wc_headers cfg)"
  using assms by (auto simp: validateAuth_def Let_def split: if_splits option.splits)

lemma parseTimeout_ok: "parseTimeout os cfg = Inr d \<Longrightarrow> 0 < d"
  by (auto simp: parseTimeout_def second_def split: if_splits option.splits)

lemma compileWebhookEngine_ok:
  assumes "compileWebhookEngine os cfg = Inr (Some eng)" "wo_compilers os = compilers pt pq cq"
    and "en_language eng = LangGoTemplate" "validateBatchAndPayload cfg = None"
  shows "wc_max_events cfg \<le> 1"
  using assms
  by (auto simp: compileWebhookEngine_def validateBatchAndPayload_def Let_def dest: Compile_language
        split: if_splits sum.splits)

lemma parseURLTemplate_ok: "parseURLTemplate os cfg = Inr t \<Longrightarrow> t = None \<longleftrightarrow> wc_url_template cfg = []"
  by (auto simp: parseURLTemplate_def split: if_splits option.splits) metis

lemma validateWebhookConfig_ok:
  assumes "validateWebhookConfig os cfg = Inr n"
  obtains m hb hs d t eng where
    "validateURLAndMethod os cfg = Inr m" "validateAuth cfg = Inr (hb, hs)" "validateBatchAndPayload cfg = None"
    "parseTimeout os cfg = Inr d" "parseURLTemplate os cfg = Inr t" "compileWebhookEngine os cfg = Inr eng"
    "n = \<lparr>wn_method = m, wn_authHdr = buildAuthHeader cfg hb hs, wn_secret = wc_secret cfg,
          wn_batchMax = (if wc_max_events cfg = 0 then 1 else wc_max_events cfg), wn_timeout = d, wn_urlT = t, wn_engine = eng\<rparr>"
  using assms unfolding validateWebhookConfig_def by (auto split: sum.splits prod.splits option.splits)

text \<open>
  C25. A webhook sink that is constructed, from an expanded or an already resolved configuration, is
  well formed and starts with an empty buffer.
\<close>

theorem new_webhook_sink_wf:
  assumes "newWebhookSinkConsumer os i cfg exp = Inr ws" "wo_compilers os = compilers pt pq cq"
  shows "sink_wf ws \<and> ws_pending ws = []"
proof -
  obtain c n sg where c: "validateWebhookConfig os c = Inr n" "resolveWebhookSigV4 os (wc_sigv4 c) = Inr sg"
    and ws: "ws = \<lparr>ws_id = i, ws_url = wc_url c, ws_urlT = wn_urlT n, ws_engine = wn_engine n,
             ws_method = wn_method n, ws_headers = wc_headers c, ws_authHdr = wn_authHdr n,
             ws_secret = wn_secret n, ws_sigv4 = sg, ws_batchMax = wn_batchMax n, ws_timeout = wn_timeout n, ws_pending = []\<rparr>"
    using assms(1) unfolding newWebhookSinkConsumer_def by (auto split: sum.splits option.splits if_splits)
  from c(1) obtain m hb hs d t eng where v:
    "validateURLAndMethod os c = Inr m" "validateAuth c = Inr (hb, hs)" "validateBatchAndPayload c = None"
    "parseTimeout os c = Inr d" "parseURLTemplate os c = Inr t" "compileWebhookEngine os c = Inr eng"
    and n: "n = \<lparr>wn_method = m, wn_authHdr = buildAuthHeader c hb hs, wn_secret = wc_secret c,
          wn_batchMax = (if wc_max_events c = 0 then 1 else wc_max_events c), wn_timeout = d, wn_urlT = t, wn_engine = eng\<rparr>"
    by (rule validateWebhookConfig_ok)
  have sg: "sg \<noteq> None \<longleftrightarrow> wc_sigv4 c \<noteq> None"
    using c(2) by (auto simp: resolveWebhookSigV4_def Let_def split: option.splits if_splits)
  have hdr: "buildAuthHeader c hb hs = [] \<longleftrightarrow> \<not> hb \<and> \<not> hs" by (simp add: buildAuthHeader_def)
  have pos: "0 \<le> wc_max_events c" using v(3) by (simp add: validateBatchAndPayload_def split: if_splits)
  have "1 \<le> ws_batchMax ws" using pos by (simp add: ws n)
  moreover have "ws_method ws \<in> {''POST'', ''PUT'', ''PATCH''}" "0 < ws_timeout ws"
    using validateURLAndMethod_ok(1) [OF v(1)] parseTimeout_ok [OF v(4)] by (simp_all add: ws n)
  moreover have "ws_url ws \<noteq> [] \<or> ws_urlT ws \<noteq> None"
    using validateURLAndMethod_ok(2) [OF v(1)] parseURLTemplate_ok [OF v(5)] by (auto simp: ws n)
  moreover have "ws_sigv4 ws \<noteq> None \<longrightarrow> ws_authHdr ws = [] \<and> ws_secret ws = []"
    using validateAuth_ok(3) [OF v(2)] sg by (simp add: ws n buildAuthHeader_def)
  moreover have "ws_authHdr ws \<noteq> [] \<or> ws_sigv4 ws \<noteq> None \<longrightarrow>
      \<not> list_ex (\<lambda>(k, v). EqualFold k ''Authorization'') (ws_headers ws)"
    using validateAuth_ok(4) [OF v(2)] sg hdr by (simp add: ws n)
  moreover have "\<forall>eng. ws_engine ws = Some eng \<longrightarrow> en_language eng = LangGoTemplate \<longrightarrow> ws_batchMax ws = 1"
    using compileWebhookEngine_ok [OF _ assms(2) _ v(3)] v(6) pos by (auto simp: ws n)
  ultimately show ?thesis unfolding sink_wf_def by (simp add: ws)
qed

end
