(* ===== verification/Batch_Sink.thy ===== *)
theory Batch_Sink
  imports Retry_Scheduler
begin

text \<open>
  The contract between the router and a sink that buffers (\<open>router.BatchFlusher\<close> in
  \<open>internal/router/router.go\<close>): \<open>Deliver\<close> appends at most one item to the buffer of the partition of the
  entry, \<open>FlushBatch\<close> takes the buffer of a partition and returns nil only when the far side has
  acknowledged every item in it. What a batch of entries needs of a sink is proved once here.
\<close>

text \<open>
  The router's use of a sink for one batch: \<open>Deliver\<close> for every entry in turn, whatever it returns.
  The environment of a call (what the outside world answers to it) comes with the entry.
\<close>

fun deliver_all :: "('e \<Rightarrow> log_entry \<Rightarrow> 's \<Rightarrow> go_error option \<times> 's) \<Rightarrow> ('e \<times> log_entry) list \<Rightarrow> 's
    \<Rightarrow> go_error option list \<times> 's" where
  "deliver_all deliver [] s = ([], s)"
| "deliver_all deliver ((env, e) # ds) s =
     (let (err, s1) = deliver env e s; (errs, s2) = deliver_all deliver ds s1 in (err # errs, s2))"

text \<open>The payload every sink sends: the stored bytes when there are any, else the encoded event.\<close>

definition payload_of :: "(change_event \<Rightarrow> string option) \<Rightarrow> log_entry \<Rightarrow> string option" where
  "payload_of marshal e =
     (if le_raw e \<noteq> [] then Some (le_raw e) else case le_event e of None \<Rightarrow> None | Some ev \<Rightarrow> marshal ev)"

definition entry_err_string :: "entry_error \<Rightarrow> string" where
  "entry_err_string err = (case err of
     NoRawBytes \<Rightarrow> ''eventlog: LogEntry has no Raw bytes'' | UnmarshalFailed \<Rightarrow> ''eventlog: unmarshal event'')"

definition materialize_error :: "string \<Rightarrow> entry_error \<Rightarrow> go_error" where
  "materialize_error sink err = ErrWrap (sink @ '' sink: materialize event: '') (ErrOther (entry_err_string err))"

section \<open>The contract\<close>

locale batch_sink =
  fixes deliver :: "'e \<Rightarrow> log_entry \<Rightarrow> 's \<Rightarrow> go_error option \<times> 's"
    and flush :: "'f \<Rightarrow> u32 \<Rightarrow> 's \<Rightarrow> go_error option \<times> 's \<times> 'i list"
    and pending :: "'s \<Rightarrow> u32 \<Rightarrow> 'i list"
    and skips :: "'e \<Rightarrow> log_entry \<Rightarrow> 's \<Rightarrow> bool"
    and carries :: "'e \<Rightarrow> log_entry \<Rightarrow> 'i \<Rightarrow> bool"
  assumes deliver_ok: "deliver env e s = (None, s') \<Longrightarrow>
      skips env e s \<and> pending s' = pending s \<or>
      (\<exists>i. carries env e i \<and> pending s' = (pending s)(le_partition e := pending s (le_partition e) @ [i]))"
    and deliver_err: "deliver env e s = (Some err, s') \<Longrightarrow> pending s' = pending s"
    and flush_pops: "flush fe p s = (r, s', acked) \<Longrightarrow> pending s' = (pending s)(p := [])"
    and flush_ok: "flush fe p s = (None, s', acked) \<Longrightarrow> set (pending s p) \<subseteq> set acked"
begin

lemma deliver_keeps:
  assumes "deliver env e s = (r, s')"
  shows "\<exists>is. pending s' q = pending s q @ is"
proof (cases r)
  case None
  with assms show ?thesis using deliver_ok [of env e s s'] by auto
next
  case (Some err)
  with assms show ?thesis using deliver_err [of env e s err s'] by auto
qed

lemma deliver_all_keeps: "deliver_all deliver ds s = (errs, s') \<Longrightarrow> \<exists>is. pending s' q = pending s q @ is"
proof (induction ds arbitrary: s errs s')
  case (Cons d ds)
  obtain env e where d: "d = (env, e)" by (cases d)
  obtain r s1 where 1: "deliver env e s = (r, s1)" by (cases "deliver env e s")
  obtain errs2 s2 where 2: "deliver_all deliver ds s1 = (errs2, s2)" by (cases "deliver_all deliver ds s1")
  from Cons.prems d 1 2 have "s' = s2" by simp
  with deliver_keeps [OF 1, of q] Cons.IH [OF 2] show ?case by auto
qed simp

lemma length_errs: "deliver_all deliver ds s = (errs, s') \<Longrightarrow> length errs = length ds"
  by (induction ds arbitrary: s errs s') (auto split: prod.splits)

text \<open>Every entry whose delivery returned nil was skipped then or has an item in the buffer now.\<close>

lemma deliver_all_buffers:
  assumes "deliver_all deliver ds s = (errs, s')" "k < length ds" "errs ! k = None" "ds ! k = (env, e)"
  shows "skips env e (snd (deliver_all deliver (take k ds) s)) \<or> (\<exists>i \<in> set (pending s' (le_partition e)). carries env e i)"
  using assms
proof (induction ds arbitrary: s errs s' k)
  case (Cons d ds)
  obtain env' e' where d: "d = (env', e')" by (cases d)
  obtain r s1 where 1: "deliver env' e' s = (r, s1)" by (cases "deliver env' e' s")
  obtain errs2 s2 where 2: "deliver_all deliver ds s1 = (errs2, s2)" by (cases "deliver_all deliver ds s1")
  from Cons.prems(1) d 1 2 have s': "s' = s2" "errs = r # errs2" by simp_all
  show ?case
  proof (cases k)
    case 0
    with Cons.prems d s' have r: "r = None" "env' = env" "e' = e" by simp_all
    obtain js where js: "pending s2 (le_partition e) = pending s1 (le_partition e) @ js"
      using deliver_all_keeps [OF 2] by blast
    from deliver_ok [of env e s s1] 1 r have
      "skips env e s \<or> (\<exists>i \<in> set (pending s1 (le_partition e)). carries env e i)" by auto
    with js s'(1) 0 show ?thesis by auto
  next
    case (Suc m)
    then have "snd (deliver_all deliver (take k (d # ds)) s) = snd (deliver_all deliver (take m ds) s1)"
      using d 1 by (simp add: case_prod_beta)
    with Suc Cons.IH [OF 2, of m] Cons.prems s' show ?thesis by simp
  qed
qed simp

text \<open>
  The CHK-01 promise for one batch: when the flush returns nil, every entry whose \<open>Deliver\<close> returned
  nil is acknowledged, unless the sink skipped it on purpose.
\<close>

lemma batch_acknowledged:
  assumes "deliver_all deliver ds s = (errs, s1)" "flush fe p s1 = (None, s2, acked)"
    and "k < length ds" "errs ! k = None" "ds ! k = (env, e)" "le_partition e = p"
  shows "skips env e (snd (deliver_all deliver (take k ds) s)) \<or> (\<exists>i \<in> set acked. carries env e i)"
  using deliver_all_buffers [OF assms(1,3,4,5)] flush_ok [OF assms(2)] assms(6) by blast

text \<open>After a flush, failed or not, nothing of the partition is left in memory.\<close>

lemma flush_forgets:
  assumes "flush fe p s = (r, s', acked)"
  shows "pending s' p = []" and "q \<noteq> p \<Longrightarrow> pending s' q = pending s q"
  using flush_pops [OF assms] by simp_all

end

text \<open>
  The promise of a sink without the locale around it: whatever was buffered before, whatever the
  outside world answers, a flush that returns nil has every entry of the batch acknowledged whose
  \<open>Deliver\<close> returned nil.
\<close>

definition keeps_batches ::
  "('e \<Rightarrow> log_entry \<Rightarrow> 's \<Rightarrow> go_error option \<times> 's) \<Rightarrow> ('f \<Rightarrow> u32 \<Rightarrow> 's \<Rightarrow> go_error option \<times> 's \<times> 'i list)
     \<Rightarrow> ('e \<Rightarrow> log_entry \<Rightarrow> 's \<Rightarrow> bool) \<Rightarrow> ('e \<Rightarrow> log_entry \<Rightarrow> 'i \<Rightarrow> bool) \<Rightarrow> bool" where
  "keeps_batches deliver flush skips carries \<longleftrightarrow>
     (\<forall>ds s errs s1 fe p s2 acked k env e.
        deliver_all deliver ds s = (errs, s1) \<longrightarrow> flush fe p s1 = (None, s2, acked) \<longrightarrow>
        k < length ds \<longrightarrow> errs ! k = None \<longrightarrow> ds ! k = (env, e) \<longrightarrow> le_partition e = p \<longrightarrow>
        skips env e (snd (deliver_all deliver (take k ds) s)) \<or> (\<exists>i \<in> set acked. carries env e i))"

context batch_sink
begin

lemma keeps: "keeps_batches deliver flush skips carries"
  unfolding keeps_batches_def using batch_acknowledged by blast

end

section \<open>Buffers\<close>

text \<open>All sinks keep \<open>map[uint32][]item\<close> and pop with \<open>delete\<close>.\<close>

definition push_item :: "u32 \<Rightarrow> 'i \<Rightarrow> (u32, 'i list) gomap \<Rightarrow> (u32, 'i list) gomap" where
  "push_item p i m = gm_set p (gm_get0 [] m p @ [i]) m"

lemma gm_get0_push [simp]:
  "gm_get0 [] (push_item p i m) = (gm_get0 [] m)(p := gm_get0 [] m p @ [i])"
  by (rule ext) (simp add: push_item_def gm_get0_set)

lemma gm_get0_del [simp]: "gm_get0 [] (gm_del p m) = (gm_get0 [] m)(p := [])"
  by (rule ext) (simp add: gm_get0_def gm_get_del)

lemma fun_upd_empty: "gm_get0 [] m p = [] \<Longrightarrow> (gm_get0 [] m)(p := []) = gm_get0 [] m"
  by (metis fun_upd_triv)

end
