(* ===== verification/Webhook_Sink.thy ===== *)
theory Webhook_Sink
  imports Webhook_Config Batch_Sink Router
begin

text \<open>
  The webhook sink at run time (\<open>internal/output/webhook/consumer.go\<close>, \<open>sign.go\<close>): \<open>Deliver\<close>, grouping
  into requests, the requests themselves, poison isolation and \<open>FlushBatch\<close>. The far side is a
  parameter: \<open>we_do n r\<close> answers the \<open>n\<close>-th request of a flush. A trace records the requests with their
  outcomes. Metrics are not modelled.
\<close>

section \<open>Deliver\<close>

definition resolveURL :: "web_os \<Rightarrow> webhook_sink \<Rightarrow> change_event \<Rightarrow> go_error + string" where
  "resolveURL os ws ev =
     (case ws_urlT ws of
        Some t \<Rightarrow>
          (case t ev of
             Inl err \<Rightarrow> Inl (ErrWrap ''webhook sink: url-template execution: '' err)
           | Inr out \<Rightarrow>
               let u = TrimSpace out
               in if u = [] then Inl (ErrOther (''webhook sink: url-template rendered to an empty string '' @ dash @
                                '' check url-template config''))
                  else if \<not> requireHTTPScheme os u
                  then Inl (PermanentError ''webhook sink: url/url-template must use http or https scheme'')
                  else Inr u)
      | None \<Rightarrow>
          let u = TrimSpace (ws_url ws)
          in if u = [] then Inl (ErrOther ''webhook sink: url is empty'') else Inr u)"

text \<open>\<open>buildBody\<close>: an error, a drop (\<^term>\<open>Inr None\<close>) or the body.\<close>

definition buildBody ::
  "(change_event \<Rightarrow> string option) \<Rightarrow> webhook_sink \<Rightarrow> log_entry \<Rightarrow> change_event \<Rightarrow> go_error + string option" where
  "buildBody marshal ws e ev =
     (case (if le_raw e \<noteq> [] then Some (le_raw e) else marshal ev) of
        None \<Rightarrow> Inl (ErrOther ''webhook sink: marshal event'')
      | Some raw \<Rightarrow>
          case ws_engine ws of
            None \<Rightarrow> Inr (Some raw)
          | Some eng \<Rightarrow> en_apply eng raw ev)"

record web_codec =
  cd_os :: web_os
  cd_unmarshal :: "string \<Rightarrow> change_event option"
  cd_marshal :: "change_event \<Rightarrow> string option"

definition Deliver :: "web_codec \<Rightarrow> log_entry \<Rightarrow> webhook_sink \<Rightarrow> go_error option \<times> webhook_sink" where
  "Deliver cd e ws =
     (case MaterializeEvent (cd_unmarshal cd) e of
        Inl err \<Rightarrow> (Some (materialize_error ''webhook'' err), ws)
      | Inr e1 \<Rightarrow>
          case le_event e1 of
            None \<Rightarrow> (None, ws)
          | Some ev \<Rightarrow>
              case resolveURL (cd_os cd) ws ev of
                Inl err \<Rightarrow> (Some err, ws)
              | Inr u \<Rightarrow>
                  case buildBody (cd_marshal cd) ws e1 ev of
                    Inl err \<Rightarrow> (Some err, ws)
                  | Inr None \<Rightarrow> (None, ws)
                  | Inr (Some body) \<Rightarrow>
                      (None, ws\<lparr>ws_pending := push_item (le_partition e1)
                                \<lparr>pr_url = u, pr_body = body, pr_key = ev_idempotency_key ev, pr_seq = le_seq e1\<rparr>
                                (ws_pending ws)\<rparr>))"

section \<open>Grouping\<close>

record http_req =
  hr_url :: string
  hr_body :: string
  hr_key :: string
  hr_keys :: string
  hr_seq :: u64
  hr_single :: bool
  hr_items :: "pending_req list"

definition single_req :: "pending_req \<Rightarrow> http_req" where
  "single_req p = \<lparr>hr_url = pr_url p, hr_body = pr_body p, hr_key = pr_key p, hr_keys = [], hr_seq = pr_seq p,
                   hr_single = True, hr_items = []\<rparr>"

definition array_req :: "string \<Rightarrow> pending_req list \<Rightarrow> http_req" where
  "array_req u items =
     \<lparr>hr_url = u, hr_body = ''['' @ join (map pr_body items) '','' @ '']'', hr_key = [],
      hr_keys = join (map pr_key items) '','', hr_seq = 0, hr_single = False, hr_items = items\<rparr>"

text \<open>The inner loop takes entries while the URL is the same and the chunk is not full.\<close>

fun take_chunk :: "string \<Rightarrow> nat \<Rightarrow> pending_req list \<Rightarrow> pending_req list \<times> pending_req list" where
  "take_chunk u 0 batch = ([], batch)"
| "take_chunk u (Suc n) [] = ([], [])"
| "take_chunk u (Suc n) (p # ps) =
     (if pr_url p = u then (let (items, rest) = take_chunk u n ps in (p # items, rest)) else ([], p # ps))"

lemma take_chunk_append: "fst (take_chunk u n ps) @ snd (take_chunk u n ps) = ps"
  by (induction u n ps rule: take_chunk.induct) (auto simp: case_prod_beta)

lemma take_chunk_shorter: "length (snd (take_chunk u n ps)) \<le> length ps"
  using take_chunk_append [of u n ps] by (metis le_add2 length_append)

function group_chunks :: "nat \<Rightarrow> pending_req list \<Rightarrow> http_req list" where
  "group_chunks n [] = []"
| "group_chunks n (p # ps) =
     (let (items, rest) = take_chunk (pr_url p) n ps in array_req (pr_url p) (p # items) # group_chunks n rest)"
  by pat_completeness auto
termination
  by (relation "measure (\<lambda>(n, ps). length ps)") (auto, metis take_chunk_shorter le_imp_less_Suc snd_conv)

definition groupRequests :: "pending_req list \<Rightarrow> int \<Rightarrow> http_req list" where
  "groupRequests batch batchMax =
     (if batchMax \<le> 1 then map single_req batch else group_chunks (nat batchMax - 1) batch)"

section \<open>Requests\<close>

record wire =
  wi_method :: string
  wi_url :: string
  wi_body :: string
  wi_headers :: "(string, string) gomap"

record webhook_env =
  we_new :: "string \<Rightarrow> string \<Rightarrow> string option"
  we_now :: "nat \<Rightarrow> nat"
  we_creds :: "nat \<Rightarrow> string option"
  we_sign :: "nat \<Rightarrow> wire \<Rightarrow> string \<Rightarrow> string \<Rightarrow> string \<Rightarrow> string + (string, string) gomap"
  we_do :: "nat \<Rightarrow> wire \<Rightarrow> string + nat \<times> string"
  we_redact :: "string \<Rightarrow> string"
  we_format :: "string \<Rightarrow> string"

definition signature :: "string \<Rightarrow> nat \<Rightarrow> string \<Rightarrow> string" where
  "signature secret t body =
     (if secret = [] then []
      else let payload = dec_str t @ ''.'' @ body
           in ''t='' @ dec_str t @ '',v1='' @ hex_bytes (hmac_sha256 (str_bytes secret) (str_bytes payload)))"

definition signRequestSigV4 :: "webhook_env \<Rightarrow> nat \<Rightarrow> sigv4_config \<Rightarrow> wire \<Rightarrow> string \<Rightarrow> string + wire" where
  "signRequestSigV4 env n sg r body =
     (case we_creds env n of
        Some err \<Rightarrow> Inl (''resolve aws credentials: '' @ err)
      | None \<Rightarrow>
          let payloadHash = hex_bytes (sha256 (str_bytes body));
              r1 = r\<lparr>wi_headers := header_set ''X-Amz-Content-Sha256'' payloadHash (wi_headers r)\<rparr>
          in case we_sign env n r1 payloadHash (sg_service sg) (sg_region sg) of
               Inl err \<Rightarrow> Inl (''sign request: '' @ err)
             | Inr h \<Rightarrow> Inr (r1\<lparr>wi_headers := h\<rparr>))"

text \<open>The request before it is signed by AWS SigV4: headers are set in this order.\<close>

definition build_request :: "webhook_env \<Rightarrow> nat \<Rightarrow> webhook_sink \<Rightarrow> http_req \<Rightarrow> wire" where
  "build_request env n ws r =
     (let h0 = fold (\<lambda>(k, v). header_set k v) (ws_headers ws) [];
          h1 = header_set ''User-Agent'' ''kaptanto'' (header_set ''Content-Type'' ''application/json'' h0);
          h2 = (if hr_single r then header_set ''X-Kaptanto-Idempotency-Key'' (hr_key r) h1
                else header_set ''X-Kaptanto-Idempotency-Keys'' (hr_keys r) h1);
          h3 = (if ws_authHdr ws \<noteq> [] then header_set ''Authorization'' (ws_authHdr ws) h2 else h2);
          h4 = (if ws_secret ws \<noteq> [] then header_set ''X-Kaptanto-Signature'' (signature (ws_secret ws) (we_now env n) (hr_body r)) h3
                else h3)
      in \<lparr>wi_method = ws_method ws, wi_url = hr_url r, wi_body = hr_body r, wi_headers = h4\<rparr>)"

definition doRequest :: "webhook_env \<Rightarrow> nat \<Rightarrow> webhook_sink \<Rightarrow> http_req \<Rightarrow> string + nat \<times> string" where
  "doRequest env n ws r =
     (case we_new env (ws_method ws) (hr_url r) of
        Some err \<Rightarrow> Inl (''create request: '' @ err)
      | None \<Rightarrow>
          case (case ws_sigv4 ws of
                  None \<Rightarrow> Inr (build_request env n ws r)
                | Some sg \<Rightarrow> signRequestSigV4 env n sg (build_request env n ws r) (hr_body r)) of
            Inl err \<Rightarrow> Inl err
          | Inr w \<Rightarrow> we_do env n w)"

definition isTransientStatus :: "nat \<Rightarrow> bool" where
  "isTransientStatus status \<longleftrightarrow> status = 408 \<or> status = 429 \<or> status \<ge> 500"

definition is_2xx :: "nat \<Rightarrow> bool" where
  "is_2xx status \<longleftrightarrow> 200 \<le> status \<and> status < 300"

section \<open>Sending\<close>

type_synonym trace = "(http_req \<times> (string + nat \<times> string)) list"

definition transport_error :: "webhook_env \<Rightarrow> webhook_sink \<Rightarrow> string \<Rightarrow> string \<Rightarrow> go_error" where
  "transport_error env ws u err = ErrWrap (''webhook sink: '' @ ws_method ws @ '' '' @ we_redact env u @ '': '') (ErrOther err)"

definition status_error :: "webhook_env \<Rightarrow> webhook_sink \<Rightarrow> string \<Rightarrow> nat \<Rightarrow> string \<Rightarrow> go_error" where
  "status_error env ws u status snippet =
     ErrOther (''webhook sink: '' @ ws_method ws @ '' '' @ we_redact env u @ '' returned '' @ dec_str status @ '': '' @ we_format env snippet)"

fun isolatePoisonChunk :: "webhook_env \<Rightarrow> webhook_sink \<Rightarrow> pending_req list \<Rightarrow> nat \<Rightarrow> go_error option \<times> trace" where
  "isolatePoisonChunk env ws [] n = (None, [])"
| "isolatePoisonChunk env ws (it # items) n =
     (let res = doRequest env n ws (single_req it); sent = (single_req it, res)
      in case res of
           Inl err \<Rightarrow> (Some (transport_error env ws (pr_url it) err), [sent])
         | Inr (status, snippet) \<Rightarrow>
             if is_2xx status then
               (let (err, tr) = isolatePoisonChunk env ws items (Suc n) in (err, sent # tr))
             else
               let cause = status_error env ws (pr_url it) status snippet
               in if isTransientStatus status then (Some cause, [sent])
                  else (Some (PermanentFlushError (pr_seq it) (Some cause)), [sent]))"

definition sendGrouped :: "webhook_env \<Rightarrow> webhook_sink \<Rightarrow> http_req \<Rightarrow> nat \<Rightarrow> go_error option \<times> trace" where
  "sendGrouped env ws r n =
     (let res = doRequest env n ws r; sent = (r, res)
      in case res of
           Inl err \<Rightarrow> (Some (transport_error env ws (hr_url r) err), [sent])
         | Inr (status, snippet) \<Rightarrow>
             if is_2xx status then (None, [sent])
             else
               let cause = status_error env ws (hr_url r) status snippet
               in if isTransientStatus status then (Some cause, [sent])
                  else if hr_single r \<or> length (hr_items r) \<le> 1 then
                    (let s = (if \<not> hr_single r \<and> length (hr_items r) = 1 then pr_seq (hr_items r ! 0) else hr_seq r)
                     in (Some (PermanentFlushError s (Some cause)), [sent]))
                  else let (err, tr) = isolatePoisonChunk env ws (hr_items r) (Suc n) in (err, sent # tr))"

fun send_all :: "webhook_env \<Rightarrow> webhook_sink \<Rightarrow> http_req list \<Rightarrow> nat \<Rightarrow> go_error option \<times> trace" where
  "send_all env ws [] n = (None, [])"
| "send_all env ws (r # rs) n =
     (let (err, tr) = sendGrouped env ws r n
      in case err of
           Some e \<Rightarrow> (Some e, tr)
         | None \<Rightarrow> let (err2, tr2) = send_all env ws rs (n + length tr) in (err2, tr @ tr2))"

definition FlushBatch :: "webhook_env \<Rightarrow> u32 \<Rightarrow> webhook_sink \<Rightarrow> go_error option \<times> webhook_sink \<times> trace" where
  "FlushBatch env p ws =
     (let batch = gm_get0 [] (ws_pending ws) p
      in if batch = [] then (None, ws, [])
         else let (err, tr) = send_all env ws (groupRequests batch (ws_batchMax ws)) 0
              in (err, ws\<lparr>ws_pending := gm_del p (ws_pending ws)\<rparr>, tr))"

section \<open>What was acknowledged\<close>

text \<open>The buffered events a request stands for, and those of the requests answered with a 2xx status.\<close>

definition req_items :: "http_req \<Rightarrow> pending_req list" where
  "req_items r = (if hr_single r then [\<lparr>pr_url = hr_url r, pr_body = hr_body r, pr_key = hr_key r, pr_seq = hr_seq r\<rparr>] else hr_items r)"

definition ok_result :: "string + nat \<times> string \<Rightarrow> bool" where
  "ok_result res = (case res of Inl _ \<Rightarrow> False | Inr (status, _) \<Rightarrow> is_2xx status)"

definition poison_result :: "string + nat \<times> string \<Rightarrow> bool" where
  "poison_result res = (case res of Inl _ \<Rightarrow> False | Inr (status, _) \<Rightarrow> \<not> is_2xx status \<and> \<not> isTransientStatus status)"

definition acked :: "trace \<Rightarrow> pending_req list" where
  "acked tr = concat (map (req_items \<circ> fst) (filter (ok_result \<circ> snd) tr))"

end
