(* ===== verification/Webhook_Props.thy ===== *)
theory Webhook_Props
  imports Webhook_Sink
begin

text \<open>
  What the webhook sink guarantees: requests tile the buffer in order, the acknowledged events of a
  flush are a prefix of it, and a permanent error names the first event that is not acknowledged.
\<close>

section \<open>Grouping\<close>

lemma req_items_single [simp]: "req_items (single_req p) = [p]"
  by (simp add: req_items_def single_req_def)

lemma req_items_array [simp]: "req_items (array_req u items) = items"
  by (simp add: req_items_def array_req_def)

lemma take_chunk_url: "p \<in> set (fst (take_chunk u n ps)) \<Longrightarrow> pr_url p = u"
  by (induction u n ps rule: take_chunk.induct) (auto simp: case_prod_beta split: if_splits)

lemma take_chunk_length: "length (fst (take_chunk u n ps)) \<le> n"
  by (induction u n ps rule: take_chunk.induct) (auto simp: case_prod_beta)

lemma take_chunk_stops:
  "snd (take_chunk u n ps) = q # qs \<Longrightarrow> length (fst (take_chunk u n ps)) = n \<or> pr_url q \<noteq> u"
  by (induction u n ps rule: take_chunk.induct) (auto simp: case_prod_beta split: if_splits)

lemma group_chunks_tile: "concat (map req_items (group_chunks n batch)) = batch"
proof (induction n batch rule: group_chunks.induct)
  case (2 n p ps)
  obtain items rest where t: "take_chunk (pr_url p) n ps = (items, rest)" by (cases "take_chunk (pr_url p) n ps")
  with 2 [OF t [symmetric] refl] take_chunk_append [of "pr_url p" n ps] show ?case by simp
qed simp

text \<open>A request of an array: its items share the URL, at most \<open>m\<close> of them, and body and header list them.\<close>

definition chunk_ok :: "nat \<Rightarrow> http_req \<Rightarrow> bool" where
  "chunk_ok m r \<longleftrightarrow> (\<exists>u items. r = array_req u items \<and> items \<noteq> [] \<and> length items \<le> m \<and> (\<forall>p \<in> set items. pr_url p = u))"

lemma group_chunks_ok: "r \<in> set (group_chunks n batch) \<Longrightarrow> chunk_ok (Suc n) r"
proof (induction n batch rule: group_chunks.induct)
  case (2 n p ps)
  obtain items rest where t: "take_chunk (pr_url p) n ps = (items, rest)" by (cases "take_chunk (pr_url p) n ps")
  have "chunk_ok (Suc n) (array_req (pr_url p) (p # items))"
    using take_chunk_url [of _ "pr_url p" n ps] take_chunk_length [of "pr_url p" n ps] t
    by (fastforce simp: chunk_ok_def)
  with 2 t show ?case by auto
qed simp

text \<open>Grouping is maximal: a chunk ends because it is full or because the URL changes.\<close>

fun maximal :: "nat \<Rightarrow> http_req list \<Rightarrow> bool" where
  "maximal m (r # s # rs) \<longleftrightarrow> (length (req_items r) = m \<or> hr_url r \<noteq> hr_url s) \<and> maximal m (s # rs)"
| "maximal m _ \<longleftrightarrow> True"

lemma group_chunks_maximal: "maximal (Suc n) (group_chunks n batch)"
proof (induction n batch rule: group_chunks.induct)
  case (2 n p ps)
  obtain items rest where t: "take_chunk (pr_url p) n ps = (items, rest)" by (cases "take_chunk (pr_url p) n ps")
  with 2 have IH: "maximal (Suc n) (group_chunks n rest)" by simp
  show ?case
  proof (cases rest)
    case (Cons q qs)
    then have "length items = n \<or> pr_url q \<noteq> pr_url p"
      using take_chunk_stops [of "pr_url p" n ps q qs] t by auto
    with t IH Cons show ?thesis by (auto simp: array_req_def req_items_def case_prod_beta)
  qed (use t in simp)
qed simp

lemma groupRequests_chunk:
  assumes "1 \<le> batchMax" "r \<in> set (groupRequests batch batchMax)"
  shows "1 \<le> length (req_items r) \<and> int (length (req_items r)) \<le> batchMax \<and> (\<forall>p \<in> set (req_items r). pr_url p = hr_url r)"
proof (cases "batchMax \<le> 1")
  case True
  with assms show ?thesis by (auto simp: groupRequests_def single_req_def req_items_def)
next
  case False
  then have "chunk_ok (nat batchMax) r"
    using assms group_chunks_ok [of r "nat batchMax - 1" batch] by (simp add: groupRequests_def)
  then show ?thesis using assms(1)
    by (auto simp: chunk_ok_def array_req_def req_items_def Suc_le_eq le_nat_iff)
qed

lemma groupRequests_concat: "concat (map req_items (groupRequests batch batchMax)) = batch"
  by (simp add: groupRequests_def group_chunks_tile comp_def)

text \<open>
  Grouping neither loses, repeats nor reorders a buffered event; a request has at most the
  configured number of events, all of one URL; and no two neighbouring requests could have been one.
\<close>

theorem groupRequests_tile:
  assumes "1 \<le> batchMax"
  shows "concat (map req_items (groupRequests batch batchMax)) = batch \<and>
    (\<forall>r \<in> set (groupRequests batch batchMax).
       1 \<le> length (req_items r) \<and> int (length (req_items r)) \<le> batchMax \<and> (\<forall>p \<in> set (req_items r). pr_url p = hr_url r)) \<and>
    (batchMax > 1 \<longrightarrow> maximal (nat batchMax) (groupRequests batch batchMax))"
proof -
  have "maximal (nat batchMax) (groupRequests batch batchMax)" if "batchMax > 1"
    using that group_chunks_maximal [of "nat batchMax - 1" batch] by (simp add: groupRequests_def)
  then show ?thesis using groupRequests_concat groupRequests_chunk [OF assms] by blast
qed

section \<open>Outcomes\<close>

text \<open>
  The outcome of sending the events \<open>items\<close>: on success all of them are acknowledged, in order; on an
  error a proper prefix, and when the error is permanent it names the event after that prefix, which
  was sent on its own and rejected.
\<close>

definition outcome :: "pending_req list \<Rightarrow> go_error option \<Rightarrow> trace \<Rightarrow> bool" where
  "outcome items err tr \<longleftrightarrow>
     (case err of
        None \<Rightarrow> acked tr = items
      | Some e \<Rightarrow>
          \<exists>k < length items. acked tr = take k items \<and>
            (case poison_of e of
               None \<Rightarrow> True
             | Some (s, _) \<Rightarrow> s = pr_seq (items ! k) \<and> (\<exists>(r, res) \<in> set tr. req_items r = [items ! k] \<and> poison_result res)))"

lemma acked_simps [simp]:
  "acked [] = []" "acked (tr @ tr') = acked tr @ acked tr'"
  "acked ((r, res) # tr) = (if ok_result res then req_items r else []) @ acked tr"
  by (simp_all add: acked_def)

lemma outcome_append: "outcome xs None tr \<Longrightarrow> outcome ys err tr' \<Longrightarrow> outcome (xs @ ys) err (tr @ tr')"
proof (cases err)
  case (Some e)
  assume xs: "outcome xs None tr" and ys: "outcome ys err tr'"
  from ys Some obtain k where k: "k < length ys" "acked tr' = take k ys" and
    pe: "case poison_of e of None \<Rightarrow> True
         | Some (s, _) \<Rightarrow> s = pr_seq (ys ! k) \<and> (\<exists>(r, res) \<in> set tr'. req_items r = [ys ! k] \<and> poison_result res)"
    by (auto simp: outcome_def)
  have "length xs + k < length (xs @ ys)" "acked (tr @ tr') = take (length xs + k) (xs @ ys)"
    using k xs by (simp_all add: outcome_def)
  moreover have "(xs @ ys) ! (length xs + k) = ys ! k" by (simp add: nth_append)
  ultimately show ?thesis unfolding outcome_def Some option.case
    by (intro exI [of _ "length xs + k"]) (use pe in \<open>auto split: option.splits\<close>)
qed (simp add: outcome_def)

lemma outcome_more: "outcome xs (Some e) tr \<Longrightarrow> outcome (xs @ ys) (Some e) tr"
  unfolding outcome_def option.case by (fastforce simp: nth_append split: option.splits)

lemma poison_of_simps [simp]:
  "poison_of (ErrOther m) = None" "poison_of (ErrWrap m (ErrOther m')) = None"
  "poison_of (PermanentFlushError s c) = Some (s, PermanentFlushError s c)"
  by (cases c; simp add: poison_of_def)+

text \<open>An answer is a failure to get one, a 2xx status, a transient status or poison.\<close>

lemma result_cases:
  obtains (transport) err where "res = Inl err"
  | (ok) status snippet where "res = Inr (status, snippet)" "is_2xx status"
  | (transient) status snippet where "res = Inr (status, snippet)" "\<not> is_2xx status" "isTransientStatus status"
  | (poison) status snippet where "res = Inr (status, snippet)" "\<not> is_2xx status" "\<not> isTransientStatus status"
  by (cases res) (simp, metis surj_pair)

lemmas result_defs = ok_result_def poison_result_def

lemma isolate_outcome: "isolatePoisonChunk env ws items n = (err, tr) \<Longrightarrow> outcome items err tr"
proof (induction items arbitrary: n err tr)
  case (Cons it items)
  let ?res = "doRequest env n ws (single_req it)"
  show ?case
  proof (cases rule: result_cases [of ?res])
    case transport
    with Cons.prems show ?thesis
      by (auto simp: outcome_def transport_error_def result_defs)
  next
    case (ok status snippet)
    obtain err2 tr2 where r: "isolatePoisonChunk env ws items (Suc n) = (err2, tr2)"
      by (cases "isolatePoisonChunk env ws items (Suc n)")
    with ok Cons.prems have "err = err2" "tr = [(single_req it, ?res)] @ tr2" by (simp_all add: Let_def)
    moreover have "outcome [it] None [(single_req it, ?res)]" using ok by (simp add: outcome_def result_defs)
    ultimately show ?thesis using outcome_append [of "[it]"] Cons.IH [OF r] by (metis append_Cons append_Nil)
  next
    case (transient status snippet)
    with Cons.prems show ?thesis
      by (auto simp: outcome_def Let_def status_error_def result_defs)
  next
    case (poison status snippet)
    with Cons.prems show ?thesis by (auto simp: outcome_def Let_def result_defs)
  qed
qed (simp add: outcome_def)

definition req_wf :: "http_req \<Rightarrow> bool" where
  "req_wf r \<longleftrightarrow> (\<exists>p. r = single_req p) \<or> (\<exists>u items. r = array_req u items \<and> items \<noteq> [])"

lemma groupRequests_wf: "r \<in> set (groupRequests batch m) \<Longrightarrow> req_wf r"
  using group_chunks_ok [of r "nat m - 1" batch]
  by (auto simp: groupRequests_def req_wf_def chunk_ok_def split: if_splits)

lemma req_wf_items: "req_wf r \<Longrightarrow> req_items r \<noteq> []"
  by (auto simp: req_wf_def)

lemma lone_item:
  assumes "req_wf r" "hr_single r \<or> length (hr_items r) \<le> 1"
  shows "\<exists>p. req_items r = [p] \<and>
    (if \<not> hr_single r \<and> length (hr_items r) = 1 then pr_seq (hr_items r ! 0) else hr_seq r) = pr_seq p"
  using assms(1) unfolding req_wf_def
proof (elim disjE exE conjE)
  fix p assume "r = single_req p"
  then show ?thesis by (intro exI [of _ p]) (simp add: single_req_def req_items_def)
next
  fix u items assume r: "r = array_req u items" "items \<noteq> []"
  with assms(2) obtain p where "items = [p]" by (cases items) (auto simp: array_req_def)
  with r show ?thesis by (simp add: array_req_def req_items_def)
qed

lemma send_one_outcome:
  assumes "sendGrouped env ws r n = (err, tr)" "req_wf r"
  shows "outcome (req_items r) err tr"
proof -
  let ?res = "doRequest env n ws r"
  show ?thesis
  proof (cases rule: result_cases [of ?res])
    case transport
    with assms req_wf_items [OF assms(2)] show ?thesis
      by (auto simp: sendGrouped_def outcome_def transport_error_def result_defs Let_def)
  next
    case ok
    with assms show ?thesis by (auto simp: sendGrouped_def outcome_def result_defs Let_def)
  next
    case transient
    with assms req_wf_items [OF assms(2)] show ?thesis
      by (auto simp: sendGrouped_def outcome_def status_error_def result_defs Let_def)
  next
    case (poison status snippet)
    show ?thesis
    proof (cases "hr_single r \<or> length (hr_items r) \<le> 1")
      case True
      with assms(2) obtain p where p: "req_items r = [p]"
        "(if \<not> hr_single r \<and> length (hr_items r) = 1 then pr_seq (hr_items r ! 0) else hr_seq r) = pr_seq p"
        using lone_item by blast
      with assms(1) poison True show ?thesis
        by (auto simp: sendGrouped_def outcome_def result_defs Let_def)
    next
      case False
      then have "req_items r = hr_items r" by (simp add: req_items_def)
      moreover obtain err2 tr2 where i: "isolatePoisonChunk env ws (hr_items r) (Suc n) = (err2, tr2)"
        by (cases "isolatePoisonChunk env ws (hr_items r) (Suc n)")
      moreover from assms(1) poison False i have "err = err2" "tr = [(r, ?res)] @ tr2"
        by (simp_all add: sendGrouped_def Let_def)
      moreover have "outcome [] None [(r, ?res)]" using poison by (simp add: outcome_def result_defs)
      ultimately show ?thesis using outcome_append [of "[]"] isolate_outcome [OF i] by (metis append_Nil)
    qed
  qed
qed

lemma send_all_outcome:
  "send_all env ws rs n = (err, tr) \<Longrightarrow> \<forall>r \<in> set rs. req_wf r \<Longrightarrow> outcome (concat (map req_items rs)) err tr"
proof (induction rs arbitrary: n err tr)
  case (Cons r rs)
  obtain e1 tr1 where s: "sendGrouped env ws r n = (e1, tr1)" by (cases "sendGrouped env ws r n")
  from send_one_outcome [OF s] Cons.prems(2) have o: "outcome (req_items r) e1 tr1" by simp
  show ?case
  proof (cases e1)
    case None
    obtain e2 tr2 where a: "send_all env ws rs (n + length tr1) = (e2, tr2)" by (cases "send_all env ws rs (n + length tr1)")
    with Cons.prems(1) s None have "err = e2" "tr = tr1 @ tr2" by (simp_all add: Let_def)
    with o None Cons.IH [OF a] Cons.prems(2) show ?thesis by (simp add: outcome_append)
  next
    case (Some e)
    with Cons.prems(1) s o show ?thesis by (auto simp: outcome_more)
  qed
qed (simp add: outcome_def)

lemma webhook_flush_outcome:
  assumes "FlushBatch env p ws = (err, ws', tr)"
  shows "gm_get0 [] (ws_pending ws') = (gm_get0 [] (ws_pending ws))(p := []) \<and>
    outcome (gm_get0 [] (ws_pending ws) p) err tr"
proof (cases "gm_get0 [] (ws_pending ws) p = []")
  case True
  with assms show ?thesis by (auto simp: FlushBatch_def outcome_def fun_upd_empty)
next
  case False
  let ?b = "gm_get0 [] (ws_pending ws) p"
  obtain e t where s: "send_all env ws (groupRequests ?b (ws_batchMax ws)) 0 = (e, t)"
    by (cases "send_all env ws (groupRequests ?b (ws_batchMax ws)) 0")
  from send_all_outcome [OF s] have "outcome ?b e t"
    by (simp add: groupRequests_wf groupRequests_concat)
  with assms False s show ?thesis by (auto simp: FlushBatch_def Let_def)
qed

text \<open>
  C9. A flush takes the buffer of the partition and leaves the others alone. When it returns nil, the
  acknowledged events are exactly the buffered ones, in order. When it fails, they are a proper prefix
  of the buffer; and when the failure is permanent, the sequence number it names is that of the first
  event that is not acknowledged, which the far side rejected on its own.
\<close>

theorem webhook_flush_prefix:
  assumes "FlushBatch env p ws = (err, ws', tr)"
  shows "gm_get0 [] (ws_pending ws') = (gm_get0 [] (ws_pending ws))(p := []) \<and>
    outcome (gm_get0 [] (ws_pending ws) p) err tr"
  using assms by (rule webhook_flush_outcome)

section \<open>The sink keeps the contract\<close>

definition webhook_flush :: "webhook_env \<Rightarrow> u32 \<Rightarrow> webhook_sink \<Rightarrow> go_error option \<times> webhook_sink \<times> pending_req list" where
  "webhook_flush env p ws = (let (err, ws', tr) = FlushBatch env p ws in (err, ws', acked tr))"

definition webhook_pending :: "webhook_sink \<Rightarrow> u32 \<Rightarrow> pending_req list" where
  "webhook_pending ws = gm_get0 [] (ws_pending ws)"

text \<open>The request of an entry: its URL, body, idempotency key and sequence number; \<^term>\<open>None\<close> is a drop.\<close>

definition request_of :: "web_codec \<Rightarrow> log_entry \<Rightarrow> webhook_sink \<Rightarrow> go_error + pending_req option" where
  "request_of cd e ws =
     (case MaterializeEvent (cd_unmarshal cd) e of
        Inl err \<Rightarrow> Inl (materialize_error ''webhook'' err)
      | Inr e1 \<Rightarrow>
          case le_event e1 of
            None \<Rightarrow> Inr None
          | Some ev \<Rightarrow>
              case resolveURL (cd_os cd) ws ev of
                Inl err \<Rightarrow> Inl err
              | Inr u \<Rightarrow>
                  case buildBody (cd_marshal cd) ws e1 ev of
                    Inl err \<Rightarrow> Inl err
                  | Inr None \<Rightarrow> Inr None
                  | Inr (Some body) \<Rightarrow>
                      Inr (Some \<lparr>pr_url = u, pr_body = body, pr_key = ev_idempotency_key ev, pr_seq = le_seq e1\<rparr>))"

lemma Materialize_sel:
  "MaterializeEvent um e = Inr e1 \<Longrightarrow> le_partition e1 = le_partition e \<and> le_seq e1 = le_seq e \<and> le_raw e1 = le_raw e \<and> le_event e1 \<noteq> None"
  by (auto simp: MaterializeEvent_def split: if_splits option.splits)

lemma Deliver_request:
  "Deliver cd e ws =
     (case request_of cd e ws of
        Inl err \<Rightarrow> (Some err, ws)
      | Inr None \<Rightarrow> (None, ws)
      | Inr (Some r) \<Rightarrow> (None, ws\<lparr>ws_pending := push_item (le_partition e) r (ws_pending ws)\<rparr>))"
proof (cases "MaterializeEvent (cd_unmarshal cd) e")
  case (Inr e1)
  from Materialize_sel [OF this] have "le_partition e1 = le_partition e" by simp
  with Inr show ?thesis
    by (simp add: Deliver_def request_of_def split: sum.split option.split)
qed (simp add: Deliver_def request_of_def)

text \<open>Everything but the buffer of a sink stays as it was constructed.\<close>

lemma webhook_static [simp]:
  "resolveURL os (ws\<lparr>ws_pending := m\<rparr>) = resolveURL os ws" "buildBody mj (ws\<lparr>ws_pending := m\<rparr>) = buildBody mj ws"
  "sink_wf (ws\<lparr>ws_pending := m\<rparr>) = sink_wf ws"
  by (simp_all add: fun_eq_iff resolveURL_def buildBody_def sink_wf_def cong: option.case_cong)

lemma request_static [simp]: "request_of cd e (ws\<lparr>ws_pending := m\<rparr>) = request_of cd e ws"
  by (simp add: request_of_def cong: option.case_cong sum.case_cong)

interpretation webhook: batch_sink Deliver webhook_flush webhook_pending
  "\<lambda>cd e ws. request_of cd e ws = Inr None"
  "\<lambda>cd e r. \<exists>ws. request_of cd e ws = Inr (Some r)"
proof
  show "request_of cd e ws = Inr None \<and> webhook_pending ws' = webhook_pending ws \<or>
      (\<exists>i. (\<exists>ws. request_of cd e ws = Inr (Some i)) \<and>
        webhook_pending ws' = (webhook_pending ws)(le_partition e := webhook_pending ws (le_partition e) @ [i]))"
    if "Deliver cd e ws = (None, ws')" for cd e ws ws'
    using that unfolding Deliver_request webhook_pending_def by (auto split: sum.splits option.splits)
  show "webhook_pending ws' = webhook_pending ws" if "Deliver cd e ws = (Some err, ws')" for cd e ws err ws'
    using that unfolding Deliver_request by (auto split: sum.splits option.splits)
  show "webhook_pending ws' = (webhook_pending ws)(p := [])" if "webhook_flush env p ws = (r, ws', a)" for env p ws r ws' a
    using that webhook_flush_outcome [of env p ws r ws']
    by (auto simp: webhook_flush_def webhook_pending_def split: prod.splits)
  show "set (webhook_pending ws p) \<subseteq> set a" if "webhook_flush env p ws = (None, ws', a)" for env p ws ws' a
    using that webhook_flush_outcome [of env p ws None ws']
    by (auto simp: webhook_flush_def webhook_pending_def outcome_def split: prod.splits)
qed

section \<open>Headers\<close>

lemma header_get [simp]: "gm_get (header_set k v h) k' = (if CanonicalHeaderKey k = k' then Some v else gm_get h k')"
  by (simp add: header_set_def gm_get_set)

lemma canonical_keys [simp]:
  "CanonicalHeaderKey ''Content-Type'' = ''Content-Type''" "CanonicalHeaderKey ''User-Agent'' = ''User-Agent''"
  "CanonicalHeaderKey ''Authorization'' = ''Authorization''"
  "CanonicalHeaderKey ''X-Kaptanto-Idempotency-Key'' = ''X-Kaptanto-Idempotency-Key''"
  "CanonicalHeaderKey ''X-Kaptanto-Idempotency-Keys'' = ''X-Kaptanto-Idempotency-Keys''"
  "CanonicalHeaderKey ''X-Kaptanto-Signature'' = ''X-Kaptanto-Signature''"
  by (simp_all add: CanonicalHeaderKey_def is_token_byte_def code_def upper_def lower_def)

text \<open>
  Whatever headers are configured, a request carries the JSON content type, the idempotency keys
  of exactly the events it stands for, the configured credentials, and a signature of the very body
  that is sent.
\<close>

theorem webhook_request_headers:
  assumes "req_wf r" "w = build_request env n ws r"
  shows "wi_body w = hr_body r \<and>
    gm_get (wi_headers w) ''Content-Type'' = Some ''application/json'' \<and>
    (hr_single r \<longrightarrow> gm_get (wi_headers w) ''X-Kaptanto-Idempotency-Key'' = Some (pr_key (hd (req_items r)))) \<and>
    (\<not> hr_single r \<longrightarrow> gm_get (wi_headers w) ''X-Kaptanto-Idempotency-Keys'' = Some (join (map pr_key (req_items r)) '','')) \<and>
    (ws_authHdr ws \<noteq> [] \<longrightarrow> gm_get (wi_headers w) ''Authorization'' = Some (ws_authHdr ws)) \<and>
    (ws_secret ws \<noteq> [] \<longrightarrow>
       gm_get (wi_headers w) ''X-Kaptanto-Signature'' = Some (signature (ws_secret ws) (we_now env n) (wi_body w)))"
proof -
  have "hr_single r \<Longrightarrow> hr_key r = pr_key (hd (req_items r))" "\<not> hr_single r \<Longrightarrow> hr_keys r = join (map pr_key (req_items r)) '',''"
    using assms(1) by (auto simp: req_wf_def req_items_def single_req_def array_req_def)
  then show ?thesis by (simp add: assms(2) build_request_def Let_def)
qed

end
