(* ===== verification/Sink_Retry.thy ===== *)
theory Sink_Retry
  imports Webhook_Props Delivery Retry_Examples
begin

text \<open>
  The retry scheduler and a sink that buffers. \<open>drainGroup\<close> takes a nil error of \<open>Deliver\<close> for delivery:
  it pops the record and has the router persist the released cursor. For a sink that only buffers in
  \<open>Deliver\<close> the event is then in memory alone until the next flush of its partition.
\<close>

lemma drain_one_pop:
  assumes "rs_inv pf rs" "BlockedQueue rs c g = [rec]" "rr_next_retry_at rec \<le> de_now env" "de_deliver env = None"
    and "rs_on_floor_released rs"
  shows "\<exists>rs'. drainGroup marshal [env] c g rs =
      Ret (rs', [EffDeliver c (rr_entry rec) None, EffFloor (FloorNote c (pf g) (Floor rs' c (pf g)))]) \<and>
    rs_inv pf rs' \<and> queued rs' c g = []"
proof -
  let ?s = "ensureState c rs"
  have q: "gm_get0 [] (cr_blocked ?s) g = [rec]" using assms(2) by (simp add: BlockedQueue_ensure)
  obtain rs' effs where p: "pop_and_release (de_now2 env) c g rec [rec] ?s rs = (rs', effs)"
    by (cases "pop_and_release (de_now2 env) c g rec [rec] ?s rs")
  note R = pop_and_release_state [OF assms(1,2) refl p]
  have "drainGroup marshal [env] c g rs = Ret (rs', EffDeliver c (rr_entry rec) None # effs)"
    using assms(3,4) q p by (simp add: drain_head_def drain_apply_def Let_def)
  moreover have "queued rs' c g = []" using R(2) [of c g] assms(2) by (simp add: queued_def)
  ultimately show ?thesis using R(1,3) assms(5) by auto
qed

text \<open>The floor note makes the router store the cursor it has in memory, capped by the floor.\<close>

lemma run_floor_note:
  assumes "find_active c 0 (rt_consumers rt) = Some i"
  shows "rt_store (run_notes save [EffDeliver c e err, EffFloor (FloorNote c p fl)] rt) =
    save c p (let seq = cursor_at (rt_consumers rt ! i) p in case fl of Some f \<Rightarrow> if f < seq then f else seq | None \<Rightarrow> seq) (rt_store rt)"
  using assms by (simp add: run_notes_def handleFloorRelease_def saveCursor_def Let_def split: option.split)

text \<open>
  When the retry of a buffered webhook event succeeds and the flush that follows fails, the event
  is gone: it was popped from the retry queue, the buffer is empty, the far side acknowledged nothing,
  and the router has stored its cursor, which nothing holds below the event any more.
\<close>

theorem retried_webhook_event_lost:
  assumes "rs_inv pf (rt_rs rt)" "rs_on_floor_released (rt_rs rt)" "BlockedQueue (rt_rs rt) c g = [rec]"
    and "rr_next_retry_at rec \<le> de_now env" "le_partition (rr_entry rec) = p" "pf g = p"
    and "find_active c 0 (rt_consumers rt) = Some i"
    and "webhook_pending ws p = []" "Deliver cd (rr_entry rec) ws = (de_deliver env, ws1)" "de_deliver env = None"
    and "FlushBatch wenv p ws1 = (Some err, ws2, tr)"
  shows "\<exists>rs' effs. drainGroup marshal [env] c g (rt_rs rt) = Ret (rs', effs) \<and>
    queued rs' c g = [] \<and> webhook_pending ws2 p = [] \<and> acked tr = [] \<and>
    rt_store (run_notes save effs (rt\<lparr>rt_rs := rs'\<rparr>)) =
      save c p (capped rs' c p (cursor_at (rt_consumers rt ! i) p)) (rt_store rt)"
proof -
  obtain rs' where d: "drainGroup marshal [env] c g (rt_rs rt) =
      Ret (rs', [EffDeliver c (rr_entry rec) None, EffFloor (FloorNote c p (Floor rs' c p))])" "queued rs' c g = []"
    using drain_one_pop [OF assms(1,3,4,10,2)] assms(6) by metis
  have wf: "webhook_flush wenv p ws1 = (Some err, ws2, acked tr)" using assms(11) by (simp add: webhook_flush_def)
  have "length (webhook_pending ws1 p) \<le> 1"
    using webhook.deliver_ok [of cd "rr_entry rec" ws ws1] assms(5,8,9,10) by auto
  moreover have "\<exists>k < length (webhook_pending ws1 p). acked tr = take k (webhook_pending ws1 p)"
    using webhook_flush_outcome [OF assms(11)] by (auto simp: outcome_def webhook_pending_def)
  ultimately have "acked tr = []" by (auto simp: le_Suc_eq)
  moreover have "webhook_pending ws2 p = []" by (rule webhook.flush_forgets(1) [OF wf])
  moreover have "rt_store (run_notes save [EffDeliver c (rr_entry rec) None, EffFloor (FloorNote c p (Floor rs' c p))] (rt\<lparr>rt_rs := rs'\<rparr>)) =
      save c p (capped rs' c p (cursor_at (rt_consumers rt ! i) p)) (rt_store rt)"
    using run_floor_note [of c "rt\<lparr>rt_rs := rs'\<rparr>" i save "rr_entry rec" None p "Floor rs' c p"] assms(7)
    by (simp add: capped_def Let_def)
  ultimately show ?thesis using d by blast
qed

section \<open>A lost event\<close>

text \<open>One consumer whose only group holds event 7, a router that has gone on to 9, a server that answers 503.\<close>

definition lost_os :: web_os where
  "lost_os = \<lparr>wo_lookupenv = (\<lambda>_. None), wo_parse_url = (\<lambda>_. None), wo_parse_duration = (\<lambda>_. None),
     wo_parse_template = (\<lambda>_. None), wo_compilers = [], wo_read_file = (\<lambda>_. None), wo_pem_ok = (\<lambda>_. False),
     wo_keypair_ok = (\<lambda>_ _. False), wo_aws_config_ok = False, wo_aws_credentials_ok = False\<rparr>"

definition lost_cd :: web_codec where
  "lost_cd = \<lparr>cd_os = lost_os, cd_unmarshal = (\<lambda>_. None), cd_marshal = (\<lambda>_. None)\<rparr>"

definition lost_sink :: webhook_sink where
  "lost_sink = \<lparr>ws_id = ''c'', ws_url = ''http://h'', ws_urlT = None, ws_engine = None, ws_method = ''POST'', ws_headers = [],
     ws_authHdr = [], ws_secret = [], ws_sigv4 = None, ws_batchMax = 1, ws_timeout = 1, ws_pending = []\<rparr>"

definition lost_env :: webhook_env where
  "lost_env = \<lparr>we_new = (\<lambda>_ _. None), we_now = (\<lambda>_. 0), we_creds = (\<lambda>_. None), we_sign = (\<lambda>_ _ _ _ _. Inl []),
     we_do = (\<lambda>_ _. Inr (503, [])), we_redact = (\<lambda>u. u), we_format = (\<lambda>s. s)\<rparr>"

definition lost_rt :: "(string \<times> u32 \<times> u64) list router" where
  "lost_rt = \<lparr>rt_consumers = [\<lparr>cs_consumer = Some ''c'', cs_cursor = [(0, 9)], cs_removed = False, cs_batch = True,
       cs_provisional = [], cs_skipped = [], cs_streak = [], cs_streak_logged = [], cs_nodlq_logged = []\<rparr>],
     rt_num = 1, rt_store = [], rt_rs = (ex_rs (Some ex_ev))\<lparr>rs_on_floor_released := True\<rparr>, rt_dlq = True\<rparr>"

lemmas lost_defs = lost_os_def lost_cd_def lost_sink_def lost_env_def lost_rt_def

definition lost_entry :: log_entry where
  "lost_entry = rr_entry (ex_rec (Some ex_ev) 7)"

lemma lost_url: "TrimSpace ''http://h'' = ''http://h''"
  by (rule TrimSpace_solid) (simp_all add: solid_def IsSpace_def code_def)

lemma lost_deliver: "Deliver lost_cd lost_entry lost_sink =
    (None, lost_sink\<lparr>ws_pending := [(0, [\<lparr>pr_url = ''http://h'', pr_body = ''r'', pr_key = ''k'', pr_seq = 7\<rparr>])]\<rparr>)"
  by (simp add: Deliver_def lost_entry_def ex_rec_def ex_ev_def MaterializeEvent_def lost_defs resolveURL_def buildBody_def lost_url
      push_item_def gm_get0_def)

lemma lost_flush: "\<exists>err ws2 tr. FlushBatch lost_env 0
    (lost_sink\<lparr>ws_pending := [(0, [\<lparr>pr_url = ''http://h'', pr_body = ''r'', pr_key = ''k'', pr_seq = 7\<rparr>])]\<rparr>) = (Some err, ws2, tr)"
  by (simp add: FlushBatch_def lost_defs gm_get0_def groupRequests_def sendGrouped_def doRequest_def single_req_def
      is_2xx_def isTransientStatus_def Let_def)

lemma lost_queue: "BlockedQueue (rt_rs lost_rt) ''c'' ''g'' = [ex_rec (Some ex_ev) 7]"
  using ex_rs_queue [of "Some ex_ev"] by (simp add: lost_rt_def BlockedQueue_def)

lemma lost_inv: "rs_inv (\<lambda>_. 0) (rt_rs lost_rt)"
  using ex_rs_inv [of "Some ex_ev"] by (simp add: lost_rt_def rs_inv_def)

lemma lost_floor: "drainGroup (\<lambda>_. None) [ex_denv None] ''c'' ''g'' (rt_rs lost_rt) = Ret (rs', effs) \<Longrightarrow> Floor rs' ''c'' 0 = None"
  by (auto simp: lost_rt_def ex_rs_def ex_rec_def ex_denv_def AddBlocked_def rs_SetDLQ_def NewRetryScheduler_def ensureState_def
      lowerFloor_def drain_head_def drain_apply_def pop_and_release_def afterPop_def popHead_def recomputeFloor_def put_state_def
      Floor_def gm_get0_def Let_def)

theorem retried_webhook_event_lost_witness:
  "\<exists>rs' effs ws2 err tr.
     FlushBatch lost_env 0 (snd (Deliver lost_cd lost_entry lost_sink)) = (Some err, ws2, tr) \<and>
     drainGroup (\<lambda>_. None) [ex_denv None] ''c'' ''g'' (rt_rs lost_rt) = Ret (rs', effs) \<and>
     queued rs' ''c'' ''g'' = [] \<and> webhook_pending ws2 0 = [] \<and> acked tr = [] \<and>
     rt_store (run_notes (\<lambda>c p s st. (c, p, s) # st) effs (lost_rt\<lparr>rt_rs := rs'\<rparr>)) = [(''c'', 0, 9)]"
proof -
  obtain err ws2 tr where f: "FlushBatch lost_env 0 (snd (Deliver lost_cd lost_entry lost_sink)) = (Some err, ws2, tr)"
    using lost_flush lost_deliver by auto
  have a: "find_active ''c'' 0 (rt_consumers lost_rt) = Some 0" "rs_on_floor_released (rt_rs lost_rt)"
    "rt_store lost_rt = []" "cursor_at (rt_consumers lost_rt ! 0) 0 = 9" "webhook_pending lost_sink 0 = []"
    by (simp_all add: lost_defs active_def cs_id_def cursor_at_def webhook_pending_def gm_get0_def)
  have b: "rr_next_retry_at (ex_rec (Some ex_ev) 7) \<le> de_now (ex_denv None)" "de_deliver (ex_denv None) = None"
    "le_partition (rr_entry (ex_rec (Some ex_ev) 7)) = 0"
    by (simp_all add: ex_rec_def ex_denv_def)
  have d: "Deliver lost_cd (rr_entry (ex_rec (Some ex_ev) 7)) lost_sink = (de_deliver (ex_denv None), snd (Deliver lost_cd lost_entry lost_sink))"
    using lost_deliver b(2) by (simp add: lost_entry_def)
  show ?thesis
    using retried_webhook_event_lost [OF lost_inv a(2) lost_queue b(1,3) refl a(1,5) d b(2) f,
        of "\<lambda>_. None" "\<lambda>c p s st. (c, p, s) # st"] f lost_floor
    by (auto simp: a(3,4) capped_def)
qed

end
