(* ===== verification/Queue_Sinks.thy ===== *)
theory Queue_Sinks
  imports Batch_Sink Transform
begin

text \<open>
  The sinks that publish to a message broker in batches: Kafka (\<open>internal/output/kafka\<close>), NATS
  JetStream (\<open>output/nats\<close>), Google Pub/Sub (\<open>output/pubsub\<close>) and RabbitMQ (\<open>output/rabbitmq\<close>). Each keeps a
  buffer per partition; they differ in when the message leaves the process (RabbitMQ and Pub/Sub
  already publish in \<open>Deliver\<close>) and in how acknowledgements are collected. The broker's answers are
  parameters. Metrics are not modelled.
\<close>

record codec =
  co_unmarshal :: "string \<Rightarrow> change_event option"
  co_marshal :: "change_event \<Rightarrow> string option"

text \<open>The steps the \<open>Deliver\<close> functions share: decode the entry, render a template, choose the payload.\<close>

definition with_event :: "codec \<Rightarrow> string \<Rightarrow> log_entry \<Rightarrow> (log_entry \<Rightarrow> change_event \<Rightarrow> go_error + 'a) \<Rightarrow> go_error + 'a" where
  "with_event co sink e f =
     (case MaterializeEvent (co_unmarshal co) e of
        Inl err \<Rightarrow> Inl (materialize_error sink err)
      | Inr e1 \<Rightarrow> (case le_event e1 of None \<Rightarrow> Inl (materialize_error sink NoRawBytes) | Some ev \<Rightarrow> f e1 ev))"

definition with_payload :: "codec \<Rightarrow> string \<Rightarrow> log_entry \<Rightarrow> change_event \<Rightarrow> (string \<Rightarrow> go_error + 'a) \<Rightarrow> go_error + 'a" where
  "with_payload co sink e ev f =
     (if le_raw e \<noteq> [] then f (le_raw e)
      else case co_marshal co ev of None \<Rightarrow> Inl (ErrOther (sink @ '' sink: marshal event'')) | Some data \<Rightarrow> f data)"

text \<open>A rendered name, trimmed, must not be empty.\<close>

definition rendered :: "go_template \<Rightarrow> string \<Rightarrow> string \<Rightarrow> change_event \<Rightarrow> (string \<Rightarrow> go_error + 'a) \<Rightarrow> go_error + 'a" where
  "rendered tmpl exec_msg empty_msg ev f =
     (case tmpl ev of
        Inl err \<Rightarrow> Inl (ErrWrap exec_msg err)
      | Inr out \<Rightarrow> if TrimSpace out = [] then Inl (ErrOther empty_msg) else f (TrimSpace out))"

text \<open>Buffer the item a \<open>Deliver\<close> made, or return its error.\<close>

definition buffer_result ::
  "go_error + 'i \<Rightarrow> u32 \<Rightarrow> (u32, 'i list) gomap \<Rightarrow> go_error option \<times> (u32, 'i list) gomap" where
  "buffer_result r p m = (case r of Inl err \<Rightarrow> (Some err, m) | Inr i \<Rightarrow> (None, push_item p i m))"

section \<open>Kafka\<close>

record kafka_record =
  kr_topic :: string
  kr_key :: string
  kr_value :: string
  kr_idempotency :: string

record kafka_sink =
  ks_id :: string
  ks_topicT :: go_template
  ks_pending :: "(u32, kafka_record list) gomap"

definition kafka_record_of :: "codec \<Rightarrow> go_template \<Rightarrow> log_entry \<Rightarrow> go_error + kafka_record" where
  "kafka_record_of co topicT e =
     with_event co ''kafka'' e (\<lambda>e1 ev.
       rendered topicT ''kafka sink: topic template execution: ''
         (''kafka sink: topic template rendered to an empty string '' @ dash @ '' check TopicTemplate config'') ev (\<lambda>topic.
         with_payload co ''kafka'' e1 ev (\<lambda>data.
           Inr \<lparr>kr_topic = topic, kr_key = raw_str (ev_key ev), kr_value = data, kr_idempotency = ev_idempotency_key ev\<rparr>)))"

definition kafka_Deliver :: "codec \<Rightarrow> log_entry \<Rightarrow> kafka_sink \<Rightarrow> go_error option \<times> kafka_sink" where
  "kafka_Deliver co e ks =
     (let (err, m) = buffer_result (kafka_record_of co (ks_topicT ks) e) (le_partition e) (ks_pending ks)
      in (err, ks\<lparr>ks_pending := m\<rparr>))"

text \<open>
  \<open>kf_flush\<close> is the error of \<open>client.Flush\<close>, \<open>kf_produce i\<close> the error the callback of record \<open>i\<close> gets. The
  channel is drained once per record; the first error it yields is returned.
\<close>

record kafka_env =
  kf_flush :: "string option"
  kf_produce :: "nat \<Rightarrow> string option"

fun first_error :: "('a \<Rightarrow> go_error option) \<Rightarrow> 'a list \<Rightarrow> go_error option" where
  "first_error err [] = None"
| "first_error err (x # xs) = (case err x of Some e \<Rightarrow> Some e | None \<Rightarrow> first_error err xs)"

definition kafka_FlushBatch :: "kafka_env \<Rightarrow> u32 \<Rightarrow> kafka_sink \<Rightarrow> go_error option \<times> kafka_sink \<times> kafka_record list" where
  "kafka_FlushBatch env p ks =
     (let batch = gm_get0 [] (ks_pending ks) p; ks' = ks\<lparr>ks_pending := gm_del p (ks_pending ks)\<rparr>;
          results = zip [0..<length batch] batch;
          acks = map snd (filter (\<lambda>(i, r). kf_produce env i = None) results)
      in if batch = [] then (None, ks, [])
         else case kf_flush env of
                Some err \<Rightarrow> (Some (ErrWrap ''kafka sink: flush batch: '' (ErrOther err)), ks', acks)
              | None \<Rightarrow>
                  (first_error (\<lambda>(i, r). map_option (\<lambda>err. ErrWrap ''kafka sink: produce record: '' (ErrOther err)) (kf_produce env i)) results,
                   ks', acks))"

section \<open>NATS JetStream\<close>

definition isInvalidNATSSubject :: "string \<Rightarrow> bool" where
  "isInvalidNATSSubject subject \<longleftrightarrow>
     subject = [] \<or> list_ex (\<lambda>c. c \<in> set [CHR '' '', CHR 0x09, CHR 0x0D, CHR 0x0A]) subject \<or>
     list_ex (\<lambda>t. t = []) (split_on CHR ''.'' subject)"

record nats_msg =
  nm_subject :: string
  nm_data :: string
  nm_idempotency :: string

record nats_sink =
  ns_id :: string
  ns_subjectT :: go_template
  ns_pending :: "(u32, nats_msg list) gomap"

definition nats_msg_of :: "codec \<Rightarrow> go_template \<Rightarrow> log_entry \<Rightarrow> go_error + nats_msg" where
  "nats_msg_of co subjectT e =
     with_event co ''nats'' e (\<lambda>e1 ev.
       case subjectT ev of
         Inl err \<Rightarrow> Inl (ErrWrap ''nats sink: subject template execution: '' err)
       | Inr subject \<Rightarrow>
           if isInvalidNATSSubject subject then Inl (ErrOther (''nats sink: invalid subject '' @ subject @ '' derived from template''))
           else with_payload co ''nats'' e1 ev (\<lambda>data.
                  Inr \<lparr>nm_subject = subject, nm_data = data, nm_idempotency = ev_idempotency_key ev\<rparr>))"

definition nats_Deliver :: "codec \<Rightarrow> log_entry \<Rightarrow> nats_sink \<Rightarrow> go_error option \<times> nats_sink" where
  "nats_Deliver co e ns =
     (let (err, m) = buffer_result (nats_msg_of co (ns_subjectT ns) e) (le_partition e) (ns_pending ns)
      in (err, ns\<lparr>ns_pending := m\<rparr>))"

text \<open>
  \<open>nf_publish i\<close> is the immediate error of the \<open>i\<close>-th \<open>PublishMsgAsync\<close>, \<open>nf_future i\<close> what the select on its
  future sees.
\<close>

datatype future = FutOk | FutErr string | FutCtxDone

record nats_env =
  nf_publish :: "nat \<Rightarrow> string option"
  nf_future :: "nat \<Rightarrow> future"

fun nats_publish :: "nats_env \<Rightarrow> nat \<Rightarrow> nats_msg list \<Rightarrow> go_error option" where
  "nats_publish env i [] = None"
| "nats_publish env i (m # ms) =
     (case nf_publish env i of
        Some err \<Rightarrow> Some (ErrWrap (''nats sink: publish async to subject '' @ nm_subject m @ '': '') (ErrOther err))
      | None \<Rightarrow> nats_publish env (Suc i) ms)"

fun nats_wait :: "nats_env \<Rightarrow> nat \<Rightarrow> nats_msg list \<Rightarrow> go_error option \<Rightarrow> nats_msg list \<Rightarrow> go_error option \<times> nats_msg list" where
  "nats_wait env i [] firstErr acks = (firstErr, acks)"
| "nats_wait env i (m # ms) firstErr acks =
     (case nf_future env i of
        FutCtxDone \<Rightarrow> (Some (ErrOther ''context canceled''), acks)
      | FutOk \<Rightarrow> nats_wait env (Suc i) ms firstErr (acks @ [m])
      | FutErr err \<Rightarrow>
          nats_wait env (Suc i) ms
            (if firstErr = None then Some (ErrWrap ''nats sink: pubAck error: '' (ErrOther err)) else firstErr) acks)"

definition nats_FlushBatch :: "nats_env \<Rightarrow> u32 \<Rightarrow> nats_sink \<Rightarrow> go_error option \<times> nats_sink \<times> nats_msg list" where
  "nats_FlushBatch env p ns =
     (let batch = gm_get0 [] (ns_pending ns) p; ns' = ns\<lparr>ns_pending := gm_del p (ns_pending ns)\<rparr>
      in if batch = [] then (None, ns, [])
         else case nats_publish env 0 batch of
                Some err \<Rightarrow> (Some err, ns', [])
              | None \<Rightarrow> (let (err, acks) = nats_wait env 0 batch None [] in (err, ns', acks)))"

section \<open>Google Pub/Sub\<close>

text \<open>
  \<open>Publish\<close> does not block: it yields a result to wait for, here the number \<open>pm_result\<close>. The pool maps a
  topic to whether message ordering is enabled on its publisher.
\<close>

record pubsub_msg =
  pm_topic :: string
  pm_orderingKey :: string
  pm_data :: string
  pm_idempotency :: string
  pm_result :: nat

record pubsub_sink =
  pu_id :: string
  pu_topicID :: string
  pu_topicT :: "go_template option"
  pu_publishers :: "(string, bool) gomap"
  pu_pending :: "(u32, pubsub_msg list) gomap"

definition resolveTopicID :: "pubsub_sink \<Rightarrow> change_event \<Rightarrow> (string \<Rightarrow> go_error + 'a) \<Rightarrow> go_error + 'a" where
  "resolveTopicID pu ev f =
     (case pu_topicT pu of
        None \<Rightarrow> f (pu_topicID pu)
      | Some t \<Rightarrow> rendered t ''pubsub sink: topic template execution: ''
          (''pubsub sink: topic template rendered to empty string '' @ dash @ '' check TopicTemplate config'') ev f)"

definition getOrCreatePublisher :: "string \<Rightarrow> (string, bool) gomap \<Rightarrow> (string, bool) gomap" where
  "getOrCreatePublisher topicID pubs = (if gm_get pubs topicID \<noteq> None then pubs else gm_set topicID True pubs)"

record pubsub_codec =
  pd_codec :: codec
  pd_result :: nat

definition pubsub_msg_of :: "pubsub_codec \<Rightarrow> pubsub_sink \<Rightarrow> log_entry \<Rightarrow> go_error + pubsub_msg" where
  "pubsub_msg_of pd pu e =
     with_event (pd_codec pd) ''pubsub'' e (\<lambda>e1 ev.
       with_payload (pd_codec pd) ''pubsub'' e1 ev (\<lambda>data.
         resolveTopicID pu ev (\<lambda>topicID.
           Inr \<lparr>pm_topic = topicID, pm_orderingKey = raw_str (ev_key ev), pm_data = data,
                pm_idempotency = ev_idempotency_key ev, pm_result = pd_result pd\<rparr>)))"

definition pubsub_Deliver :: "pubsub_codec \<Rightarrow> log_entry \<Rightarrow> pubsub_sink \<Rightarrow> go_error option \<times> pubsub_sink" where
  "pubsub_Deliver pd e pu =
     (case pubsub_msg_of pd pu e of
        Inl err \<Rightarrow> (Some err, pu)
      | Inr m \<Rightarrow>
          (None, pu\<lparr>pu_publishers := getOrCreatePublisher (pm_topic m) (pu_publishers pu),
                    pu_pending := push_item (le_partition e) m (pu_pending pu)\<rparr>))"

datatype publish_error = ErrPublishingPaused string | PublishError string

definition publish_error_string :: "publish_error \<Rightarrow> string" where
  "publish_error_string err = (case err of
     ErrPublishingPaused key \<Rightarrow> ''pubsub: Publishing for ordering key, '' @ key @ '', paused due to previous error.''
   | PublishError m \<Rightarrow> m)"

text \<open>The wait loop also yields the publishers it may have created and the ordering keys it resumed.\<close>

fun pubsub_wait ::
  "(nat \<Rightarrow> publish_error option) \<Rightarrow> pubsub_msg list \<Rightarrow> go_error option \<Rightarrow> pubsub_msg list \<Rightarrow> (string, bool) gomap \<Rightarrow> (string \<times> string) list
     \<Rightarrow> go_error option \<times> pubsub_msg list \<times> (string, bool) gomap \<times> (string \<times> string) list" where
  "pubsub_wait get [] firstErr acks pubs resumed = (firstErr, acks, pubs, resumed)"
| "pubsub_wait get (m # ms) firstErr acks pubs resumed =
     (case get (pm_result m) of
        None \<Rightarrow> pubsub_wait get ms firstErr (acks @ [m]) pubs resumed
      | Some err \<Rightarrow>
          pubsub_wait get ms
            (if firstErr = None then
               Some (ErrWrap (''pubsub sink: publish for key '' @ pm_orderingKey m @ '' to topic '' @ pm_topic m @ '': '')
                       (ErrOther (publish_error_string err)))
             else firstErr)
            acks (getOrCreatePublisher (pm_topic m) pubs)
            (case err of ErrPublishingPaused key \<Rightarrow> resumed @ [(pm_topic m, key)] | PublishError _ \<Rightarrow> resumed))"

definition pubsub_FlushBatch ::
  "(nat \<Rightarrow> publish_error option) \<Rightarrow> u32 \<Rightarrow> pubsub_sink \<Rightarrow> go_error option \<times> pubsub_sink \<times> pubsub_msg list \<times> (string \<times> string) list" where
  "pubsub_FlushBatch get p pu =
     (let batch = gm_get0 [] (pu_pending pu) p
      in if batch = [] then (None, pu, [], [])
         else let (err, acks, pubs, resumed) = pubsub_wait get batch None [] (pu_publishers pu) []
              in (err, pu\<lparr>pu_pending := gm_del p (pu_pending pu), pu_publishers := pubs\<rparr>, acks, resumed))"

section \<open>RabbitMQ\<close>

text \<open>A published message waits for a confirmation, here the number \<open>rm_confirm\<close>. Channels are numbers.\<close>

record rabbit_msg =
  rm_exchange :: string
  rm_routingKey :: string
  rm_body :: string
  rm_idempotency :: string
  rm_confirm :: nat

record rabbit_sink =
  rb_id :: string
  rb_exchange :: string
  rb_routingKeyT :: go_template
  rb_channels :: "nat list"
  rb_pending :: "(u32, rabbit_msg list) gomap"

text \<open>\<open>rc_publish ch exchange key\<close>: the error of the publish call or the confirmation to wait for.\<close>

record rabbit_codec =
  rc_codec :: codec
  rc_publish :: "nat \<Rightarrow> string \<Rightarrow> string \<Rightarrow> string + nat"

definition channel_for :: "u32 \<Rightarrow> nat list \<Rightarrow> nat" where
  "channel_for p chs = chs ! unat (p mod 64)"

definition rabbit_msg_of :: "rabbit_codec \<Rightarrow> rabbit_sink \<Rightarrow> log_entry \<Rightarrow> go_error + rabbit_msg" where
  "rabbit_msg_of rc rb e =
     with_event (rc_codec rc) ''rabbitmq'' e (\<lambda>e1 ev.
       rendered (rb_routingKeyT rb) ''rabbitmq sink: routing key template execution: ''
         (''rabbitmq sink: routing key template rendered to empty string '' @ dash @ '' check routing-key-template config'') ev (\<lambda>key.
           with_payload (rc_codec rc) ''rabbitmq'' e1 ev (\<lambda>data.
             case rc_publish rc (channel_for (le_partition e) (rb_channels rb)) (rb_exchange rb) key of
               Inl err \<Rightarrow> Inl (ErrWrap (''rabbitmq sink: publish to exchange '' @ rb_exchange rb @ '' routing-key '' @ key @ '': '') (ErrOther err))
             | Inr dc \<Rightarrow> Inr \<lparr>rm_exchange = rb_exchange rb, rm_routingKey = key, rm_body = data,
                             rm_idempotency = ev_idempotency_key ev, rm_confirm = dc\<rparr>)))"

definition rabbit_Deliver :: "rabbit_codec \<Rightarrow> log_entry \<Rightarrow> rabbit_sink \<Rightarrow> go_error option \<times> rabbit_sink" where
  "rabbit_Deliver rc e rb =
     (let (err, m) = buffer_result (rabbit_msg_of rc rb e) (le_partition e) (rb_pending rb)
      in (err, rb\<lparr>rb_pending := m\<rparr>))"

text \<open>\<open>WaitContext\<close>: an error, an acknowledgement (true) or a negative one.\<close>

definition confirm_error :: "(nat \<Rightarrow> string + bool) \<Rightarrow> rabbit_msg \<Rightarrow> go_error option" where
  "confirm_error wait m =
     (case wait (rm_confirm m) of
        Inl err \<Rightarrow> Some (ErrWrap (''rabbitmq sink: wait confirm for exchange '' @ rm_exchange m @ '' routing-key '' @ rm_routingKey m @ '': '') (ErrOther err))
      | Inr False \<Rightarrow> Some (ErrOther (''rabbitmq sink: broker nacked message on exchange '' @ rm_exchange m @ '' routing-key '' @ rm_routingKey m))
      | Inr True \<Rightarrow> None)"

definition rabbit_FlushBatch :: "(nat \<Rightarrow> string + bool) \<Rightarrow> u32 \<Rightarrow> rabbit_sink \<Rightarrow> go_error option \<times> rabbit_sink \<times> rabbit_msg list" where
  "rabbit_FlushBatch wait p rb =
     (let batch = gm_get0 [] (rb_pending rb) p
      in if batch = [] then (None, rb, [])
         else (first_error (confirm_error wait) batch, rb\<lparr>rb_pending := gm_del p (rb_pending rb)\<rparr>,
               filter (\<lambda>m. confirm_error wait m = None) batch))"

text \<open>Dialling opens 64 channels in confirm mode; any failure closes the connection.\<close>

record dial_env =
  dl_dial :: "string option"
  dl_channel :: "nat \<Rightarrow> string + nat"
  dl_confirm :: "nat \<Rightarrow> string option"

fun open_channels :: "dial_env \<Rightarrow> nat list \<Rightarrow> go_error + nat list" where
  "open_channels env [] = Inr []"
| "open_channels env (i # is) =
     (case dl_channel env i of
        Inl err \<Rightarrow> Inl (ErrWrap (''rabbitmq sink: open channel '' @ dec_str i @ '': '') (ErrOther err))
      | Inr ch \<Rightarrow>
          (case dl_confirm env i of
             Some err \<Rightarrow> Inl (ErrWrap (''rabbitmq sink: enable publisher confirms on channel '' @ dec_str i @ '': '') (ErrOther err))
           | None \<Rightarrow> (case open_channels env is of Inl err \<Rightarrow> Inl err | Inr chs \<Rightarrow> Inr (ch # chs))))"

definition dialAndOpenChannels :: "dial_env \<Rightarrow> string \<Rightarrow> go_error + nat list" where
  "dialAndOpenChannels env url =
     (case dl_dial env of
        Some err \<Rightarrow> Inl (ErrWrap (''rabbitmq sink: dial '' @ url @ '': '') (ErrOther err))
      | None \<Rightarrow> open_channels env [0..<64])"

text \<open>
  One cycle of \<open>reconnectLoop\<close> after the connection broke: a wait before each attempt, the delay doubled
  up to 30 seconds after a failure. The list of attempts ends when the context is cancelled.
\<close>

definition maxDelay :: int where "maxDelay = 30 * second"

definition next_delay :: "int \<Rightarrow> int" where
  "next_delay delay = (if delay < maxDelay then (if delay * 2 > maxDelay then maxDelay else delay * 2) else delay)"

fun reconnect_cycle :: "(dial_env \<times> (int \<Rightarrow> int)) list \<Rightarrow> string \<Rightarrow> int \<Rightarrow> rabbit_sink \<Rightarrow> int list \<times> rabbit_sink" where
  "reconnect_cycle [] url delay rb = ([], rb)"
| "reconnect_cycle ((env, rnd) # as) url delay rb =
     (let jitter = rnd (delay div 2)
      in case dialAndOpenChannels env url of
           Inl err \<Rightarrow> (let (ws, rb') = reconnect_cycle as url (next_delay delay) rb in ((delay + jitter) # ws, rb'))
         | Inr chs \<Rightarrow> ([delay + jitter], rb\<lparr>rb_channels := chs\<rparr>))"

section \<open>The sinks keep the contract\<close>

lemma buffer_result_cases:
  "buffer_result r p m = (None, m') \<longleftrightarrow> (\<exists>i. r = Inr i \<and> m' = push_item p i m)"
  "buffer_result r p m = (Some err, m') \<longleftrightarrow> r = Inl err \<and> m' = m"
  by (auto simp: buffer_result_def split: sum.splits)

lemma first_error_None: "first_error err xs = None \<longleftrightarrow> (\<forall>x \<in> set xs. err x = None)"
  by (induction xs) (auto split: option.splits)

definition kafka_pending :: "kafka_sink \<Rightarrow> u32 \<Rightarrow> kafka_record list" where
  "kafka_pending ks = gm_get0 [] (ks_pending ks)"

interpretation kafka: batch_sink kafka_Deliver kafka_FlushBatch kafka_pending "\<lambda>_ _ _. False"
  "\<lambda>co e r. \<exists>t. kafka_record_of co t e = Inr r"
proof
  show "False \<and> kafka_pending ks' = kafka_pending ks \<or>
      (\<exists>i. (\<exists>t. kafka_record_of co t e = Inr i) \<and> kafka_pending ks' = (kafka_pending ks)(le_partition e := kafka_pending ks (le_partition e) @ [i]))"
    if "kafka_Deliver co e ks = (None, ks')" for co e ks ks'
    using that by (auto simp: kafka_Deliver_def kafka_pending_def buffer_result_cases split: prod.splits)
  show "kafka_pending ks' = kafka_pending ks" if "kafka_Deliver co e ks = (Some err, ks')" for co e ks err ks'
    using that by (auto simp: kafka_Deliver_def kafka_pending_def buffer_result_cases split: prod.splits)
  show "kafka_pending ks' = (kafka_pending ks)(p := [])" if "kafka_FlushBatch env p ks = (r, ks', a)" for env p ks r ks' a
    using that by (auto simp: kafka_FlushBatch_def kafka_pending_def fun_upd_empty Let_def split: if_splits option.splits)
  show "set (kafka_pending ks p) \<subseteq> set a" if "kafka_FlushBatch env p ks = (None, ks', a)" for env p ks ks' a
    using that
    by (fastforce simp: kafka_FlushBatch_def kafka_pending_def first_error_None Let_def in_set_conv_nth set_zip image_iff
        split: if_splits option.splits)
qed

definition nats_pending :: "nats_sink \<Rightarrow> u32 \<Rightarrow> nats_msg list" where
  "nats_pending ns = gm_get0 [] (ns_pending ns)"

lemma nats_wait_failed: "nats_wait env i ms (Some err) acks \<noteq> (None, acks')"
  by (induction ms arbitrary: i acks) (auto split: future.splits)

lemma nats_wait_ok:
  "nats_wait env i ms None acks = (None, acks') \<Longrightarrow> set acks \<union> set ms \<subseteq> set acks'"
proof (induction ms arbitrary: i acks)
  case (Cons m ms)
  show ?case
  proof (cases "nf_future env i")
    case FutOk
    with Cons.prems have "nats_wait env (Suc i) ms None (acks @ [m]) = (None, acks')" by simp
    from Cons.IH [OF this] show ?thesis by simp
  qed (use Cons.prems nats_wait_failed in auto)
qed simp

interpretation nats: batch_sink nats_Deliver nats_FlushBatch nats_pending "\<lambda>_ _ _. False"
  "\<lambda>co e m. \<exists>t. nats_msg_of co t e = Inr m"
proof
  show "False \<and> nats_pending ns' = nats_pending ns \<or>
      (\<exists>i. (\<exists>t. nats_msg_of co t e = Inr i) \<and> nats_pending ns' = (nats_pending ns)(le_partition e := nats_pending ns (le_partition e) @ [i]))"
    if "nats_Deliver co e ns = (None, ns')" for co e ns ns'
    using that by (auto simp: nats_Deliver_def nats_pending_def buffer_result_cases split: prod.splits)
  show "nats_pending ns' = nats_pending ns" if "nats_Deliver co e ns = (Some err, ns')" for co e ns err ns'
    using that by (auto simp: nats_Deliver_def nats_pending_def buffer_result_cases split: prod.splits)
  show "nats_pending ns' = (nats_pending ns)(p := [])" if "nats_FlushBatch env p ns = (r, ns', a)" for env p ns r ns' a
    using that by (auto simp: nats_FlushBatch_def nats_pending_def fun_upd_empty Let_def split: if_splits option.splits prod.splits)
  show "set (nats_pending ns p) \<subseteq> set a" if "nats_FlushBatch env p ns = (None, ns', a)" for env p ns ns' a
    using that nats_wait_ok [of env 0 "nats_pending ns p" "[]" a]
    by (auto simp: nats_FlushBatch_def nats_pending_def Let_def split: if_splits option.splits prod.splits)
qed

definition pubsub_pending :: "pubsub_sink \<Rightarrow> u32 \<Rightarrow> pubsub_msg list" where
  "pubsub_pending pu = gm_get0 [] (pu_pending pu)"

definition pubsub_flush :: "(nat \<Rightarrow> publish_error option) \<Rightarrow> u32 \<Rightarrow> pubsub_sink \<Rightarrow> go_error option \<times> pubsub_sink \<times> pubsub_msg list" where
  "pubsub_flush get p pu = (let (err, pu', acks, resumed) = pubsub_FlushBatch get p pu in (err, pu', acks))"

lemma pubsub_wait_failed: "pubsub_wait get ms (Some err) acks pubs res \<noteq> (None, rest)"
  by (induction ms arbitrary: acks pubs res) (auto split: option.splits)

lemma pubsub_wait_ok:
  "pubsub_wait get ms None acks pubs res = (None, acks', pubs', res') \<Longrightarrow> set acks \<union> set ms \<subseteq> set acks'"
proof (induction ms arbitrary: acks pubs res)
  case (Cons m ms)
  show ?case
  proof (cases "get (pm_result m)")
    case None
    with Cons.prems have "pubsub_wait get ms None (acks @ [m]) pubs res = (None, acks', pubs', res')" by simp
    from Cons.IH [OF this] show ?thesis by simp
  qed (use Cons.prems pubsub_wait_failed in auto)
qed simp

text \<open>Every paused ordering key of the batch is resumed, whatever else fails.\<close>

lemma pubsub_wait_keeps:
  "pubsub_wait get ms fe acks pubs res = (fe', acks', pubs', res') \<Longrightarrow> set res \<subseteq> set res'"
proof (induction ms arbitrary: fe acks pubs res)
  case (Cons m ms)
  let ?res = "case get (pm_result m) of Some (ErrPublishingPaused key) \<Rightarrow> res @ [(pm_topic m, key)] | _ \<Rightarrow> res"
  from Cons.prems obtain fe1 acks1 pubs1 where "pubsub_wait get ms fe1 acks1 pubs1 ?res = (fe', acks', pubs', res')"
    by (cases "get (pm_result m)") auto
  from Cons.IH [OF this] show ?case by (auto split: option.splits publish_error.splits)
qed simp

lemma pubsub_wait_resumes:
  "pubsub_wait get ms fe acks pubs res = (fe', acks', pubs', res') \<Longrightarrow> m \<in> set ms \<Longrightarrow>
     get (pm_result m) = Some (ErrPublishingPaused key) \<Longrightarrow> (pm_topic m, key) \<in> set res'"
proof (induction ms arbitrary: fe acks pubs res)
  case (Cons x ms)
  show ?case
  proof (cases "x = m")
    case True
    with Cons.prems(1,3) obtain fe1 pubs1 where
      "pubsub_wait get ms fe1 acks pubs1 (res @ [(pm_topic m, key)]) = (fe', acks', pubs', res')" by simp
    from pubsub_wait_keeps [OF this] show ?thesis by simp
  next
    case False
    from Cons.prems(1) obtain fe1 acks1 pubs1 res1 where "pubsub_wait get ms fe1 acks1 pubs1 res1 = (fe', acks', pubs', res')"
      by (cases "get (pm_result x)") auto
    with Cons.IH Cons.prems(2,3) False show ?thesis by simp
  qed
qed simp

interpretation pubsub: batch_sink pubsub_Deliver pubsub_flush pubsub_pending "\<lambda>_ _ _. False"
  "\<lambda>pd e m. \<exists>pu. pubsub_msg_of pd pu e = Inr m"
proof
  show "False \<and> pubsub_pending pu' = pubsub_pending pu \<or>
      (\<exists>i. (\<exists>pu. pubsub_msg_of pd pu e = Inr i) \<and> pubsub_pending pu' = (pubsub_pending pu)(le_partition e := pubsub_pending pu (le_partition e) @ [i]))"
    if "pubsub_Deliver pd e pu = (None, pu')" for pd e pu pu'
    using that by (auto simp: pubsub_Deliver_def pubsub_pending_def split: sum.splits)
  show "pubsub_pending pu' = pubsub_pending pu" if "pubsub_Deliver pd e pu = (Some err, pu')" for pd e pu err pu'
    using that by (auto simp: pubsub_Deliver_def split: sum.splits)
  show "pubsub_pending pu' = (pubsub_pending pu)(p := [])" if "pubsub_flush get p pu = (r, pu', a)" for get p pu r pu' a
    using that by (auto simp: pubsub_flush_def pubsub_FlushBatch_def pubsub_pending_def fun_upd_empty Let_def split: if_splits prod.splits)
  show "set (pubsub_pending pu p) \<subseteq> set a" if "pubsub_flush get p pu = (None, pu', a)" for get p pu pu' a
    using that pubsub_wait_ok [of get "pubsub_pending pu p" "[]"]
    by (auto simp: pubsub_flush_def pubsub_FlushBatch_def pubsub_pending_def Let_def split: if_splits prod.splits)
qed

definition rabbit_pending :: "rabbit_sink \<Rightarrow> u32 \<Rightarrow> rabbit_msg list" where
  "rabbit_pending rb = gm_get0 [] (rb_pending rb)"

interpretation rabbit: batch_sink rabbit_Deliver rabbit_FlushBatch rabbit_pending "\<lambda>_ _ _. False"
  "\<lambda>rc e m. \<exists>rb. rabbit_msg_of rc rb e = Inr m"
proof
  show "False \<and> rabbit_pending rb' = rabbit_pending rb \<or>
      (\<exists>i. (\<exists>rb. rabbit_msg_of rc rb e = Inr i) \<and> rabbit_pending rb' = (rabbit_pending rb)(le_partition e := rabbit_pending rb (le_partition e) @ [i]))"
    if "rabbit_Deliver rc e rb = (None, rb')" for rc e rb rb'
    using that by (auto simp: rabbit_Deliver_def rabbit_pending_def buffer_result_cases split: prod.splits)
  show "rabbit_pending rb' = rabbit_pending rb" if "rabbit_Deliver rc e rb = (Some err, rb')" for rc e rb err rb'
    using that by (auto simp: rabbit_Deliver_def rabbit_pending_def buffer_result_cases split: prod.splits)
  show "rabbit_pending rb' = (rabbit_pending rb)(p := [])" if "rabbit_FlushBatch wait p rb = (r, rb', a)" for wait p rb r rb' a
    using that by (auto simp: rabbit_FlushBatch_def rabbit_pending_def fun_upd_empty Let_def split: if_splits)
  show "set (rabbit_pending rb p) \<subseteq> set a" if "rabbit_FlushBatch wait p rb = (None, rb', a)" for wait p rb rb' a
    using that by (auto simp: rabbit_FlushBatch_def rabbit_pending_def first_error_None Let_def split: if_splits)
qed

section \<open>What a message says of its entry\<close>

text \<open>The messages carry the idempotency key of the event and its stored bytes.\<close>

lemma with_event_ok:
  "with_event co sink e f = Inr x \<longleftrightarrow> (\<exists>e1 ev. MaterializeEvent (co_unmarshal co) e = Inr e1 \<and> le_event e1 = Some ev \<and> f e1 ev = Inr x)"
  by (auto simp: with_event_def split: sum.splits option.splits)

lemma with_payload_ok:
  "with_payload co sink e ev f = Inr x \<longleftrightarrow> (\<exists>data. (if le_raw e \<noteq> [] then Some (le_raw e) else co_marshal co ev) = Some data \<and> f data = Inr x)"
  by (auto simp: with_payload_def split: option.splits)

lemma rendered_ok:
  "rendered t m1 m2 ev f = Inr x \<longleftrightarrow> (\<exists>out. t ev = Inr out \<and> TrimSpace out \<noteq> [] \<and> f (TrimSpace out) = Inr x)"
  by (auto simp: rendered_def split: sum.splits)

section \<open>Reconnecting\<close>

lemma open_channels_length: "open_channels env is = Inr chs \<Longrightarrow> length chs = length is"
  by (induction "is" arbitrary: chs) (auto split: sum.splits option.splits)

lemma dial_64: "dialAndOpenChannels env url = Inr chs \<Longrightarrow> length chs = 64"
  using open_channels_length [of env "[0..<64]" chs] by (auto simp: dialAndOpenChannels_def split: option.splits)

lemma next_delay_bounds: "second \<le> d \<Longrightarrow> d \<le> maxDelay \<Longrightarrow> second \<le> next_delay d \<and> next_delay d \<le> maxDelay"
  by (auto simp: next_delay_def maxDelay_def second_def)

text \<open>
  However often dialling fails, every wait of the reconnect loop lies between one and 45 seconds,
  and the sink always has its 64 channels, so that the channel of a partition exists.
\<close>

theorem reconnect_bounds:
  assumes "reconnect_cycle as url d rb = (ws, rb')" "second \<le> d" "d \<le> maxDelay" "length (rb_channels rb) = 64"
    and "\<forall>(env, rnd) \<in> set as. \<forall>n > 0. 0 \<le> rnd n \<and> rnd n < n"
  shows "length (rb_channels rb') = 64 \<and> (\<forall>w \<in> set ws. second \<le> w \<and> w < 45 * second) \<and> unat ((p :: u32) mod 64) < length (rb_channels rb')"
proof -
  have "length (rb_channels rb') = 64 \<and> (\<forall>w \<in> set ws. second \<le> w \<and> w < 45 * second)"
    using assms
  proof (induction as arbitrary: d ws)
    case (Cons a as)
    obtain env rnd where a: "a = (env, rnd)" by (cases a)
    have "0 < d div 2" using Cons.prems(2) by (simp add: second_def)
    with Cons.prems(5) a have j: "0 \<le> rnd (d div 2)" "rnd (d div 2) < d div 2" by auto
    then have w: "second \<le> d + rnd (d div 2)" "d + rnd (d div 2) < 45 * second"
      using Cons.prems(2,3) by (auto simp: maxDelay_def second_def)
    show ?case
    proof (cases "dialAndOpenChannels env url")
      case (Inl err)
      obtain ws2 rb2 where r: "reconnect_cycle as url (next_delay d) rb = (ws2, rb2)" by (cases "reconnect_cycle as url (next_delay d) rb")
      with Cons.prems(1) a Inl have "ws = (d + rnd (d div 2)) # ws2" "rb2 = rb'" by (simp_all add: Let_def)
      with Cons.IH [of "next_delay d" ws2] r w next_delay_bounds [OF Cons.prems(2,3)] Cons.prems(4,5) show ?thesis by simp
    next
      case (Inr chs)
      with Cons.prems(1) a w dial_64 [OF Inr] show ?thesis by (auto simp: Let_def)
    qed
  qed simp
  moreover have "unat (p mod 64) < 64"
  proof -
    have "unat (p mod 64) = unat p mod 64" by (simp add: unat_mod)
    then show ?thesis by simp
  qed
  ultimately show ?thesis by simp
qed

text \<open>
  C10. The Kafka, NATS, Pub/Sub and RabbitMQ sinks keep the batch promise: when a flush returns nil, the
  broker has acknowledged a message for every entry of the partition whose \<open>Deliver\<close> returned nil.
\<close>

theorem queue_sinks_keep_batches:
  "keeps_batches kafka_Deliver kafka_FlushBatch (\<lambda>_ _ _. False) (\<lambda>co e r. \<exists>t. kafka_record_of co t e = Inr r) \<and>
   keeps_batches nats_Deliver nats_FlushBatch (\<lambda>_ _ _. False) (\<lambda>co e m. \<exists>t. nats_msg_of co t e = Inr m) \<and>
   keeps_batches pubsub_Deliver pubsub_flush (\<lambda>_ _ _. False) (\<lambda>pd e m. \<exists>pu. pubsub_msg_of pd pu e = Inr m) \<and>
   keeps_batches rabbit_Deliver rabbit_FlushBatch (\<lambda>_ _ _. False) (\<lambda>rc e m. \<exists>rb. rabbit_msg_of rc rb e = Inr m)"
  using kafka.keeps nats.keeps pubsub.keeps rabbit.keeps by blast

end
