(* ===== verification/Sqs_Sink.thy ===== *)
theory Sqs_Sink
  imports Queue_Sinks
begin

text \<open>
  The SQS FIFO sink (\<open>internal/output/sqs/consumer.go\<close>): queue validation, batch entry ids,
  \<open>SendMessageBatch\<close> in chunks of ten. The service is a parameter: \<open>GetQueueAttributes\<close> answers an error
  or the \<open>FifoQueue\<close> attribute, \<open>SendMessageBatch\<close> an error or the entries it failed.
\<close>

section \<open>State\<close>

record sqs_entry =
  se_queueURL :: string
  se_id :: string
  se_body :: string
  se_groupId :: string
  se_dedupId :: string
  se_idempotency :: string

record sqs_sink =
  sq_id :: string
  sq_queueURL :: string
  sq_queueURLT :: "go_template option"
  sq_validated :: "string list"
  sq_pending :: "(u32, sqs_entry list) gomap"
  sq_used :: "(u32, string list) gomap"

type_synonym queue_attributes = "string \<Rightarrow> string + string"

definition check_fifo :: "queue_attributes \<Rightarrow> string \<Rightarrow> go_error option" where
  "check_fifo attr url =
     (case attr url of
        Inl err \<Rightarrow> Some (ErrWrap (''sqs sink: get queue attributes for '' @ url @ '': '') (ErrOther err))
      | Inr v \<Rightarrow> if v \<noteq> ''true'' then Some (ErrOther (''sqs sink: '' @ url @ '' is not a FIFO queue '' @ dash @
                    '' SQS sink requires a .fifo queue URL'')) else None)"

definition newConsumerWithClient ::
  "queue_attributes \<Rightarrow> string \<Rightarrow> string \<Rightarrow> go_template option \<Rightarrow> go_error + sqs_sink" where
  "newConsumerWithClient attr i queueURL queueURLT =
     (case check_fifo attr queueURL of
        Some err \<Rightarrow> Inl err
      | None \<Rightarrow> Inr \<lparr>sq_id = i, sq_queueURL = queueURL, sq_queueURLT = queueURLT, sq_validated = [queueURL], sq_pending = [], sq_used = []\<rparr>)"

definition resolveQueueURL :: "sqs_sink \<Rightarrow> change_event \<Rightarrow> (string \<Rightarrow> go_error + 'a) \<Rightarrow> go_error + 'a" where
  "resolveQueueURL sq ev f =
     (case sq_queueURLT sq of
        None \<Rightarrow> f (sq_queueURL sq)
      | Some t \<Rightarrow> rendered t ''sqs sink: queue-url-template execution: ''
          (''sqs sink: queue-url-template rendered to empty string '' @ dash @ '' check QueueURLTemplate config'') ev f)"

text \<open>A queue is validated once; only a successful check is remembered.\<close>

definition getOrValidateQueue :: "queue_attributes \<Rightarrow> string \<Rightarrow> sqs_sink \<Rightarrow> go_error option \<times> sqs_sink" where
  "getOrValidateQueue attr url sq =
     (if url \<in> set (sq_validated sq) then (None, sq)
      else case check_fifo attr url of
             Some err \<Rightarrow> (Some err, sq)
           | None \<Rightarrow> (None, sq\<lparr>sq_validated := url # sq_validated sq\<rparr>))"

section \<open>Batch entry ids\<close>

text \<open>
  The search for an id that is not used in the batch: the first 16 digits of the deduplication id,
  then the first 14 followed by a counter. The fuel bounds the unbounded loop of the source.
\<close>

fun search_id :: "nat \<Rightarrow> string list \<Rightarrow> string \<Rightarrow> nat \<Rightarrow> string \<Rightarrow> string option" where
  "search_id 0 used batchID i finalID = None"
| "search_id (Suc n) used batchID i finalID =
     (if finalID \<notin> set used then Some finalID
      else search_id n used batchID (Suc i) (take 14 batchID @ hex_num i))"

definition unique_id :: "string list \<Rightarrow> string \<Rightarrow> string option" where
  "unique_id used batchID = search_id (length used + 2) used batchID 0 batchID"

fun hex_val :: "string \<Rightarrow> nat" where
  "hex_val s = foldl (\<lambda>a c. a * 16 + (if code c < 58 then code c - 48 else code c - 87)) 0 s"

lemma nibble_val: "n < 16 \<Longrightarrow> (if code (nibble n) < 58 then code (nibble n) - 48 else code (nibble n) - 87) = n"
  by (auto simp: nibble_def code_def)

lemma hex_val_hex_num [simp]: "hex_val (hex_num n) = n"
proof (induction n rule: hex_num.induct)
  case (1 n)
  show ?case
  proof (cases "n < 16")
    case True
    then show ?thesis using nibble_val [of n] by (subst hex_num.simps) simp
  next
    case False
    then show ?thesis using 1 [OF False] nibble_val [of "n mod 16"] by (subst hex_num.simps) simp
  qed
qed

lemma hex_num_inject [simp]: "hex_num m = hex_num n \<longleftrightarrow> m = n"
  by (metis hex_val_hex_num)

lemma search_id_used:
  "search_id n used b i f = None \<Longrightarrow> f \<in> set used \<or> n = 0"
  "search_id n used b i f = None \<Longrightarrow> Suc k < n \<Longrightarrow> take 14 b @ hex_num (i + k) \<in> set used"
proof (induction n arbitrary: i f k)
  case (Suc n)
  { case 1 then show ?case by (simp split: if_splits) }
  { case 2
    then have r: "search_id n used b (Suc i) (take 14 b @ hex_num i) = None" by (simp split: if_splits)
    show ?case
    proof (cases k)
      case 0
      with Suc.IH(1) [OF r] 2 show ?thesis by auto
    next
      case (Suc j)
      with Suc.IH(2) [OF r, of j] 2 show ?thesis by simp
    qed }
qed simp_all

lemma search_id_fresh: "search_id n used b i f = Some x \<Longrightarrow> x \<notin> set used"
  by (induction n arbitrary: i f) (auto split: if_splits)

lemma unique_id_fresh: "unique_id used b = Some x \<Longrightarrow> x \<notin> set used"
  unfolding unique_id_def by (rule search_id_fresh)

text \<open>The loop ends: among one candidate more than there are used ids, one is free.\<close>

lemma unique_id_total: "\<exists>x. unique_id used b = Some x"
proof (rule ccontr)
  assume "\<nexists>x. unique_id used b = Some x"
  then have none: "search_id (length used + 2) used b 0 b = None" by (simp add: unique_id_def)
  let ?c = "\<lambda>k. take 14 b @ hex_num k"
  have "?c ` {..length used} \<subseteq> set used"
    using search_id_used(2) [OF none] by (auto simp: less_Suc_eq_le)
  then have "card (?c ` {..length used}) \<le> length used"
    by (meson card_length card_mono finite_set le_trans)
  moreover have "inj_on ?c {..length used}" by (auto simp: inj_on_def)
  ultimately show False by (simp add: card_image)
qed

section \<open>Deliver\<close>

record sqs_codec =
  sc_codec :: codec
  sc_attr :: queue_attributes

definition groupID :: "change_event \<Rightarrow> string" where
  "groupID ev = hex16 (fnv64a (str_bytes (raw_str (ev_key ev))))"

definition dedupID :: "change_event \<Rightarrow> string" where
  "dedupID ev = take 64 (hex_bytes (sha256 (str_bytes (ev_idempotency_key ev))))"

text \<open>The entry without its id, then the id under the lock.\<close>

definition sqs_entry_of :: "sqs_codec \<Rightarrow> sqs_sink \<Rightarrow> log_entry \<Rightarrow> go_error + sqs_entry" where
  "sqs_entry_of sc sq e =
     with_event (sc_codec sc) ''sqs'' e (\<lambda>e1 ev.
       resolveQueueURL sq ev (\<lambda>url.
         case fst (getOrValidateQueue (sc_attr sc) url sq) of
           Some err \<Rightarrow> Inl err
         | None \<Rightarrow>
             with_payload (sc_codec sc) ''sqs'' e1 ev (\<lambda>data.
               Inr \<lparr>se_queueURL = url, se_id = take 16 (dedupID ev), se_body = data, se_groupId = groupID ev,
                    se_dedupId = dedupID ev, se_idempotency = ev_idempotency_key ev\<rparr>)))"

text \<open>The queue an entry goes to, when the source gets as far as validating it.\<close>

definition sqs_target :: "sqs_codec \<Rightarrow> sqs_sink \<Rightarrow> log_entry \<Rightarrow> string option" where
  "sqs_target sc sq e =
     (case with_event (sc_codec sc) ''sqs'' e (\<lambda>e1 ev. resolveQueueURL sq ev Inr) of Inl _ \<Rightarrow> None | Inr url \<Rightarrow> Some url)"

definition sqs_Deliver :: "sqs_codec \<Rightarrow> log_entry \<Rightarrow> sqs_sink \<Rightarrow> go_error option \<times> sqs_sink" where
  "sqs_Deliver sc e sq0 =
     (let sq = (case sqs_target sc sq0 e of None \<Rightarrow> sq0 | Some url \<Rightarrow> snd (getOrValidateQueue (sc_attr sc) url sq0))
      in case sqs_entry_of sc sq0 e of
           Inl err \<Rightarrow> (Some err, sq)
         | Inr en \<Rightarrow>
             let p = le_partition e; used = gm_get0 [] (sq_used sq) p
             in case unique_id used (se_id en) of
                  None \<Rightarrow> (Some (ErrOther ''unreachable''), sq)
                | Some finalID \<Rightarrow>
                    (None, sq\<lparr>sq_used := gm_set p (finalID # used) (sq_used sq),
                              sq_pending := push_item p (en\<lparr>se_id := finalID\<rparr>) (sq_pending sq)\<rparr>))"

section \<open>FlushBatch\<close>

text \<open>Grouping by queue; the list order of the map is an iteration order.\<close>

definition byQueue :: "sqs_entry list \<Rightarrow> (string, sqs_entry list) gomap" where
  "byQueue batch = fold (\<lambda>en m. gm_set (se_queueURL en) (gm_get0 [] m (se_queueURL en) @ [en]) m) batch []"

function chunks10 :: "sqs_entry list \<Rightarrow> sqs_entry list list" where
  "chunks10 entries = (if entries = [] then [] else take 10 entries # chunks10 (drop 10 entries))"
  by pat_completeness auto
termination by (relation "measure length") (auto simp: neq_Nil_conv)

declare chunks10.simps [simp del]

record failed_entry =
  fe_id :: string
  fe_code :: string
  fe_message :: "string option"

type_synonym sqs_env = "nat \<Rightarrow> string \<Rightarrow> sqs_entry list \<Rightarrow> string + failed_entry list"

definition failed_error :: "string \<Rightarrow> failed_entry \<Rightarrow> go_error" where
  "failed_error url f = ErrOther (''sqs sink: batch entry failed on '' @ url @ '': code='' @ fe_code f @ '' message='' @
     (case fe_message f of None \<Rightarrow> ''unknown'' | Some m \<Rightarrow> m))"

fun send_chunks :: "sqs_env \<Rightarrow> nat \<Rightarrow> (string \<times> sqs_entry list) list \<Rightarrow> go_error option \<Rightarrow> sqs_entry list \<Rightarrow> go_error option \<times> sqs_entry list" where
  "send_chunks env n [] firstErr acks = (firstErr, acks)"
| "send_chunks env n ((url, chunk) # cs) firstErr acks =
     (case env n url chunk of
        Inl err \<Rightarrow>
          send_chunks env (Suc n) cs
            (if firstErr = None then Some (ErrWrap (''sqs sink: send batch to '' @ url @ '': '') (ErrOther err)) else firstErr) acks
      | Inr failed \<Rightarrow>
          send_chunks env (Suc n) cs
            (if failed \<noteq> [] \<and> firstErr = None then Some (failed_error url (hd failed)) else firstErr)
            (acks @ filter (\<lambda>en. se_id en \<notin> fe_id ` set failed) chunk))"

definition all_chunks :: "sqs_entry list \<Rightarrow> (string \<times> sqs_entry list) list" where
  "all_chunks batch = concat (map (\<lambda>(url, entries). map (Pair url) (chunks10 entries)) (byQueue batch))"

definition sqs_FlushBatch :: "sqs_env \<Rightarrow> u32 \<Rightarrow> sqs_sink \<Rightarrow> go_error option \<times> sqs_sink \<times> sqs_entry list" where
  "sqs_FlushBatch env p sq =
     (let batch = gm_get0 [] (sq_pending sq) p
      in if batch = [] then (None, sq, [])
         else let (err, acks) = send_chunks env 0 (all_chunks batch) None []
              in (err, sq\<lparr>sq_pending := gm_del p (sq_pending sq), sq_used := gm_del p (sq_used sq)\<rparr>, acks))"

section \<open>Chunks\<close>

lemma chunks10_concat: "concat (chunks10 es) = es"
proof (induction es rule: chunks10.induct)
  case (1 es)
  then show ?case by (subst chunks10.simps) simp
qed

lemma chunks10_size: "c \<in> set (chunks10 es) \<Longrightarrow> c \<noteq> [] \<and> length c \<le> 10"
proof (induction es rule: chunks10.induct)
  case (1 es)
  from 1(2) show ?case by (subst (asm) chunks10.simps) (auto split: if_splits dest: 1(1))
qed

lemma byQueue_fold:
  "gm_get0 [] (fold (\<lambda>en m. gm_set (se_queueURL en) (gm_get0 [] m (se_queueURL en) @ [en]) m) batch m) u =
     gm_get0 [] m u @ filter (\<lambda>en. se_queueURL en = u) batch"
  by (induction batch arbitrary: m) (simp_all add: gm_get0_set)

text \<open>The entries of a queue keep their order.\<close>

lemma byQueue_order: "gm_get0 [] (byQueue batch) u = filter (\<lambda>en. se_queueURL en = u) batch"
  using byQueue_fold [of batch "[]" u] by (simp add: byQueue_def gm_get0_def)

lemma byQueue_wf: "gm_wf (byQueue batch)"
proof -
  have "gm_wf m \<Longrightarrow> gm_wf (fold (\<lambda>en m. gm_set (se_queueURL en) (gm_get0 [] m (se_queueURL en) @ [en]) m) batch m)" for m
    by (induction batch arbitrary: m) simp_all
  then show ?thesis by (simp add: byQueue_def)
qed

lemma all_chunks_cover:
  assumes "en \<in> set batch"
  shows "\<exists>chunk. (se_queueURL en, chunk) \<in> set (all_chunks batch) \<and> en \<in> set chunk"
proof -
  let ?u = "se_queueURL en"
  have "en \<in> set (gm_get0 [] (byQueue batch) ?u)" using assms by (simp add: byQueue_order)
  then obtain es where es: "gm_get (byQueue batch) ?u = Some es" "en \<in> set es"
    by (cases "gm_get (byQueue batch) ?u") auto
  from es(2) obtain chunk where "chunk \<in> set (chunks10 es)" "en \<in> set chunk"
    by (metis UN_E chunks10_concat set_concat)
  with map_of_SomeD [OF es(1)] show ?thesis by (force simp: all_chunks_def)
qed

lemma send_chunks_failed: "send_chunks env n cs (Some err) acks \<noteq> (None, acks')"
  by (induction cs arbitrary: n acks) (auto split: sum.splits)

lemma send_chunks_ok:
  "send_chunks env n cs None acks = (None, acks') \<Longrightarrow> set acks \<union> \<Union> (set ` snd ` set cs) \<subseteq> set acks'"
proof (induction cs arbitrary: n acks)
  case (Cons c cs)
  obtain url chunk where c: "c = (url, chunk)" by (cases c)
  show ?case
  proof (cases "env n url chunk")
    case (Inr failed)
    with Cons.prems c have "failed = []" using send_chunks_failed [of env "Suc n" cs] by (auto split: if_splits)
    with Cons.prems c Inr have "send_chunks env (Suc n) cs None (acks @ chunk) = (None, acks')" by simp
    from Cons.IH [OF this] c show ?thesis by simp
  qed (use Cons.prems c send_chunks_failed in auto)
qed simp

section \<open>The sink keeps the contract\<close>

definition sqs_pending :: "sqs_sink \<Rightarrow> u32 \<Rightarrow> sqs_entry list" where
  "sqs_pending sq = gm_get0 [] (sq_pending sq)"

lemma validate_sel [simp]:
  "sq_pending (snd (getOrValidateQueue attr url sq)) = sq_pending sq" "sq_used (snd (getOrValidateQueue attr url sq)) = sq_used sq"
  by (simp_all add: getOrValidateQueue_def split: option.splits)

lemma sqs_Deliver_cases:
  obtains (failed) err where "sqs_entry_of sc sq e = Inl err" "fst (sqs_Deliver sc e sq) = Some err"
      "sq_pending (snd (sqs_Deliver sc e sq)) = sq_pending sq" "sq_used (snd (sqs_Deliver sc e sq)) = sq_used sq"
  | (ok) en i where "sqs_entry_of sc sq e = Inr en" "fst (sqs_Deliver sc e sq) = None" "i \<notin> set (gm_get0 [] (sq_used sq) (le_partition e))"
      "sq_pending (snd (sqs_Deliver sc e sq)) = push_item (le_partition e) (en\<lparr>se_id := i\<rparr>) (sq_pending sq)"
      "sq_used (snd (sqs_Deliver sc e sq)) = gm_set (le_partition e) (i # gm_get0 [] (sq_used sq) (le_partition e)) (sq_used sq)"
proof -
  define sq1 where "sq1 = (case sqs_target sc sq e of None \<Rightarrow> sq | Some url \<Rightarrow> snd (getOrValidateQueue (sc_attr sc) url sq))"
  have s1: "sq_pending sq1 = sq_pending sq" "sq_used sq1 = sq_used sq" by (simp_all add: sq1_def split: option.split)
  show thesis
  proof (cases "sqs_entry_of sc sq e")
    case (Inl err)
    then have "sqs_Deliver sc e sq = (Some err, sq1)" by (simp add: sqs_Deliver_def sq1_def Let_def)
    with Inl s1 show ?thesis by (intro failed) simp_all
  next
    case (Inr en)
    obtain i where i: "unique_id (gm_get0 [] (sq_used sq) (le_partition e)) (se_id en) = Some i"
      using unique_id_total by blast
    have "sqs_Deliver sc e sq = (None, sq1\<lparr>sq_used := gm_set (le_partition e) (i # gm_get0 [] (sq_used sq1) (le_partition e)) (sq_used sq1),
        sq_pending := push_item (le_partition e) (en\<lparr>se_id := i\<rparr>) (sq_pending sq1)\<rparr>)"
      using Inr i by (simp add: sqs_Deliver_def sq1_def [symmetric] s1(2) Let_def)
    with Inr unique_id_fresh [OF i] s1 show ?thesis by (intro ok) simp_all
  qed
qed

interpretation sqs: batch_sink sqs_Deliver sqs_FlushBatch sqs_pending "\<lambda>_ _ _. False"
  "\<lambda>sc e en. \<exists>sq en0. sqs_entry_of sc sq e = Inr en0 \<and> en = en0\<lparr>se_id := se_id en\<rparr>"
proof
  show "False \<and> sqs_pending sq' = sqs_pending sq \<or>
      (\<exists>i. (\<exists>sq en0. sqs_entry_of sc sq e = Inr en0 \<and> i = en0\<lparr>se_id := se_id i\<rparr>) \<and>
        sqs_pending sq' = (sqs_pending sq)(le_partition e := sqs_pending sq (le_partition e) @ [i]))"
    if "sqs_Deliver sc e sq = (None, sq')" for sc e sq sq'
  proof (cases rule: sqs_Deliver_cases [of sc sq e])
    case (ok en i)
    moreover have "en\<lparr>se_id := i\<rparr> = en\<lparr>se_id := se_id (en\<lparr>se_id := i\<rparr>)\<rparr>" by simp
    ultimately show ?thesis using that unfolding sqs_pending_def by (metis gm_get0_push snd_conv)
  qed (use that in simp)
  show "sqs_pending sq' = sqs_pending sq" if "sqs_Deliver sc e sq = (Some err, sq')" for sc e sq err sq'
    by (cases rule: sqs_Deliver_cases [of sc sq e]) (use that in \<open>simp_all add: sqs_pending_def\<close>)
  show "sqs_pending sq' = (sqs_pending sq)(p := [])" if "sqs_FlushBatch env p sq = (r, sq', a)" for env p sq r sq' a
    using that by (auto simp: sqs_FlushBatch_def sqs_pending_def fun_upd_empty Let_def split: if_splits prod.splits)
  show "set (sqs_pending sq p) \<subseteq> set a" if "sqs_FlushBatch env p sq = (None, sq', a)" for env p sq sq' a
  proof
    fix en assume en: "en \<in> set (sqs_pending sq p)"
    then have s: "send_chunks env 0 (all_chunks (sqs_pending sq p)) None [] = (None, a)"
      using that by (auto simp: sqs_FlushBatch_def sqs_pending_def Let_def split: if_splits prod.splits)
    from all_chunks_cover [OF en] send_chunks_ok [OF s] show "en \<in> set a" by force
  qed
qed

section \<open>Ids\<close>

text \<open>The ids of the buffered entries of a partition are distinct and all marked as used.\<close>

definition ids_ok :: "sqs_sink \<Rightarrow> bool" where
  "ids_ok sq \<longleftrightarrow> (\<forall>p. distinct (map se_id (sqs_pending sq p)) \<and> se_id ` set (sqs_pending sq p) \<subseteq> set (gm_get0 [] (sq_used sq) p))"

lemma ids_ok_Deliver: "ids_ok sq \<Longrightarrow> ids_ok (snd (sqs_Deliver sc e sq))"
  by (cases rule: sqs_Deliver_cases [of sc sq e]) (auto simp: ids_ok_def sqs_pending_def gm_get0_set)

lemma ids_ok_Flush: "ids_ok sq \<Longrightarrow> sqs_FlushBatch env p sq = (r, sq', a) \<Longrightarrow> ids_ok sq'"
proof -
  assume inv: "ids_ok sq" and f: "sqs_FlushBatch env p sq = (r, sq', a)"
  show "ids_ok sq'"
  proof (cases "gm_get0 [] (sq_pending sq) p = []")
    case False
    with f have "sq' = sq\<lparr>sq_pending := gm_del p (sq_pending sq), sq_used := gm_del p (sq_used sq)\<rparr>"
      by (auto simp: sqs_FlushBatch_def Let_def split: prod.splits)
    with inv show ?thesis by (simp add: ids_ok_def sqs_pending_def)
  qed (use f inv in \<open>simp add: sqs_FlushBatch_def\<close>)
qed

inductive sqs_reach :: "sqs_sink \<Rightarrow> bool" where
  new: "newConsumerWithClient attr i url t = Inr sq \<Longrightarrow> sqs_reach sq"
| deliver: "sqs_reach sq \<Longrightarrow> sqs_reach (snd (sqs_Deliver sc e sq))"
| flush: "sqs_reach sq \<Longrightarrow> sqs_FlushBatch env p sq = (r, sq', a) \<Longrightarrow> sqs_reach sq'"

lemma sqs_reach_ids: "sqs_reach sq \<Longrightarrow> ids_ok sq"
proof (induction rule: sqs_reach.induct)
  case (new attr i url t sq)
  then show ?case
    by (auto simp: newConsumerWithClient_def ids_ok_def sqs_pending_def gm_get0_def split: option.splits)
qed (auto intro: ids_ok_Deliver ids_ok_Flush)

lemma chunk_sub: "(url, chunk) \<in> set (all_chunks batch) \<Longrightarrow>
    length chunk \<le> 10 \<and> (\<exists>xs ys. filter (\<lambda>en. se_queueURL en = url) batch = xs @ chunk @ ys)"
proof -
  assume "(url, chunk) \<in> set (all_chunks batch)"
  then obtain es where es: "(url, es) \<in> set (byQueue batch)" "chunk \<in> set (chunks10 es)"
    by (auto simp: all_chunks_def)
  then have "gm_get0 [] (byQueue batch) url = es" 
    using gm_mem_iff [OF byQueue_wf] by (metis gm_get0_Some)
  then have "es = filter (\<lambda>en. se_queueURL en = url) batch" by (simp add: byQueue_order)
  moreover from es(2) obtain cs ds where "chunks10 es = cs @ chunk # ds" by (metis split_list)
  then have "es = concat cs @ chunk @ concat ds" using chunks10_concat [of es] by simp
  ultimately show ?thesis using chunks10_size [OF es(2)] by metis
qed

text \<open>
  In every reachable state of the SQS sink, each request of a flush goes to one queue, has at most
  ten entries, keeps the order of the buffer, and its entry ids are distinct, so that a failure the
  service reports by id names one entry. The search for a fresh id always ends.
\<close>

theorem sqs_chunks_valid:
  assumes "sqs_reach sq" "(url, chunk) \<in> set (all_chunks (sqs_pending sq p))"
  shows "length chunk \<le> 10 \<and> distinct (map se_id chunk) \<and>
    (\<exists>xs ys. filter (\<lambda>en. se_queueURL en = url) (sqs_pending sq p) = xs @ chunk @ ys) \<and>
    (\<forall>used b. \<exists>x. unique_id used b = Some x \<and> x \<notin> set used)"
proof -
  from chunk_sub [OF assms(2)] obtain xs ys where
    x: "length chunk \<le> 10" "filter (\<lambda>en. se_queueURL en = url) (sqs_pending sq p) = xs @ chunk @ ys" by blast
  have "distinct (map se_id (sqs_pending sq p))" using sqs_reach_ids [OF assms(1)] by (simp add: ids_ok_def)
  then have "distinct (map se_id (filter (\<lambda>en. se_queueURL en = url) (sqs_pending sq p)))"
    by (rule distinct_map_filter)
  then have "distinct (map se_id chunk)" using x(2) by simp
  moreover have "\<exists>x. unique_id used b = Some x \<and> x \<notin> set used" for used b
    using unique_id_total [of used b] unique_id_fresh by blast
  ultimately show ?thesis using x by blast
qed

section \<open>A failed chunk does not stop the next one\<close>

lemma send_rest:
  assumes "\<forall>k. env (n + k) u = (\<lambda>_. Inr [])" "\<forall>(url, chunk) \<in> set cs. url = u"
  shows "send_chunks env n cs fe acks = (fe, acks @ concat (map snd cs))"
  using assms
proof (induction cs arbitrary: n acks)
  case (Cons c cs)
  obtain chunk where c: "c = (u, chunk)" using Cons.prems(2) by (cases c) auto
  have "\<forall>k. env (Suc n + k) u = (\<lambda>_. Inr [])" using Cons.prems(1) by (metis add_Suc add_Suc_right)
  moreover have "env n u chunk = Inr []" using Cons.prems(1) by (metis add_0_right)
  ultimately show ?case using Cons c by simp
qed simp

lemma all_chunks_one_queue:
  assumes "\<forall>en \<in> set batch. se_queueURL en = u" "batch \<noteq> []"
  shows "all_chunks batch = map (Pair u) (chunks10 batch)"
proof -
  have "fold (\<lambda>en m. gm_set (se_queueURL en) (gm_get0 [] m (se_queueURL en) @ [en]) m) xs [(u, ys)] = [(u, ys @ xs)]"
    if "\<forall>en \<in> set xs. se_queueURL en = u" for xs ys
    using that by (induction xs arbitrary: ys) simp_all
  note * = this
  obtain x xs where b: "batch = x # xs" using assms(2) by (cases batch) auto
  have "byQueue batch = [(u, batch)]"
    using * [of xs "[x]"] assms(1) by (simp add: byQueue_def b gm_get0_def [of "[]" "[]"])
  then show ?thesis by (simp add: all_chunks_def)
qed

text \<open>
  When the first request of a flush fails and the others succeed, the flush fails, yet every
  message after the tenth has been accepted, also those that share their message group with one of
  the first ten. The router delivers the batch again, so the queue gets the first ten behind messages
  of the same key that followed them, and drops the repeated later ones as duplicates.
\<close>

theorem sqs_failed_chunk_overtaken:
  assumes "\<forall>en \<in> set (sqs_pending sq p). se_queueURL en = u" "10 < length (sqs_pending sq p)"
    and "\<forall>chunk. env 0 u chunk = Inl err" "\<forall>k chunk. env (Suc k) u chunk = Inr []"
  shows "\<exists>e sq'. sqs_FlushBatch env p sq = (Some e, sq', drop 10 (sqs_pending sq p))"
proof -
  let ?b = "sqs_pending sq p"
  have ne: "?b \<noteq> []" using assms(2) by auto
  have c: "all_chunks ?b = (u, take 10 ?b) # map (Pair u) (chunks10 (drop 10 ?b))"
    using all_chunks_one_queue [OF assms(1) ne] ne by (simp add: chunks10.simps [of ?b])
  have r: "send_chunks env (Suc 0) (map (Pair u) (chunks10 (drop 10 ?b))) fe [] = (fe, drop 10 ?b)" for fe
    using send_rest [of env "Suc 0" u "map (Pair u) (chunks10 (drop 10 ?b))" fe "[]"] assms(4)
    by (simp add: comp_def chunks10_concat fun_eq_iff case_prod_beta)
  have "\<exists>e. send_chunks env 0 (all_chunks ?b) None [] = (Some e, drop 10 ?b)"
    unfolding c using assms(3) r by simp
  with ne show ?thesis by (auto simp: sqs_FlushBatch_def sqs_pending_def Let_def)
qed

end
