(* ===== verification/Stream_Sinks.thy ===== *)
theory Stream_Sinks
  imports Batch_Sink Row_Filter Go_Lib
begin

text \<open>
  The consumers that write to a stream: NDJSON on standard output (\<open>internal/output/stdout/writer.go\<close>),
  Server-Sent Events (\<open>output/sse/consumer.go\<close>) and the gRPC bridge (\<open>output/grpc/consumer.go\<close>, the send loop
  of \<open>server.go\<close>). A writer accepts a sequence of writes of which any may fail; what it accepted is the
  wire. Metrics are not modelled.
\<close>

section \<open>Writing\<close>

text \<open>\<open>env k\<close> is the error of the \<open>k\<close>-th write of a call. The first error ends the sequence.\<close>

fun do_writes :: "(nat \<Rightarrow> go_error option) \<Rightarrow> nat \<Rightarrow> string list \<Rightarrow> string \<Rightarrow> go_error option \<times> string" where
  "do_writes env k [] w = (None, w)"
| "do_writes env k (s # ss) w = (case env k of Some err \<Rightarrow> (Some err, w) | None \<Rightarrow> do_writes env (Suc k) ss (w @ s))"

lemma do_writes_ok: "do_writes env k ss w = (None, w') \<Longrightarrow> w' = w @ concat ss"
proof (induction ss arbitrary: k w)
  case (Cons s ss)
  then show ?case by (auto split: option.splits dest!: Cons.IH)
qed simp

lemma do_writes_prefix: "do_writes env k ss w = (r, w') \<Longrightarrow> \<exists>n. w' = w @ concat (take n ss)"
proof (induction ss arbitrary: k w)
  case (Cons s ss)
  show ?case
  proof (cases "env k")
    case None
    with Cons.prems have "do_writes env (Suc k) ss (w @ s) = (r, w')" by simp
    from Cons.IH [OF this] obtain n where "w' = (w @ s) @ concat (take n ss)" ..
    then show ?thesis by (intro exI [of _ "Suc n"]) simp
  next
    case (Some err)
    with Cons.prems show ?thesis by (intro exI [of _ 0]) simp
  qed
qed simp

section \<open>Standard output\<close>

record stdout_env =
  so_unmarshal :: "string \<Rightarrow> change_event option"
  so_marshal :: "change_event \<Rightarrow> string option"
  so_write :: "nat \<Rightarrow> go_error option"

record stdout_writer =
  so_wire :: string
  so_metrics :: bool

definition newline :: char where "newline = CHR 0x0A"

definition stdout_Deliver :: "stdout_env \<Rightarrow> log_entry \<Rightarrow> stdout_writer \<Rightarrow> go_error option \<times> stdout_writer" where
  "stdout_Deliver env e so =
     (case (if le_raw e \<noteq> [] then Some (le_raw e) else case le_event e of None \<Rightarrow> Some ''null'' | Some ev \<Rightarrow> so_marshal env ev) of
        None \<Rightarrow> (Some (ErrOther ''json: marshal''), so)
      | Some data \<Rightarrow>
          let (err, w) = do_writes (so_write env) 0 [data, [newline]] (so_wire so); so1 = so\<lparr>so_wire := w\<rparr>
          in case err of
               Some er \<Rightarrow> (Some er, so1)
             | None \<Rightarrow>
                 if so_metrics so then
                   (case MaterializeEvent (so_unmarshal env) e of
                      Inl er \<Rightarrow> (Some (ErrOther (entry_err_string er)), so1)
                    | Inr _ \<Rightarrow> (None, so1))
                 else (None, so1))"

section \<open>Server-Sent Events\<close>

text \<open>
  \<open>sse_wire\<close> is what was written to the response, \<open>sse_sent\<close> the prefix of it that was flushed to the
  connection.
\<close>

record sse_consumer =
  sse_id :: string
  sse_filter :: event_filter
  sse_rowFilters :: "(string, expr option) gomap"
  sse_colSets :: "(string, string list) gomap"
  sse_closed :: bool
  sse_wire :: string
  sse_sent :: string

record sse_env =
  sv_unmarshal :: "string \<Rightarrow> change_event option"
  sv_convs :: convs
  sv_rows :: "string \<Rightarrow> (string, json) gomap option option"
  sv_decode :: "string \<Rightarrow> json option"
  sv_encode :: "json \<Rightarrow> string option"
  sv_marshal :: "change_event \<Rightarrow> string option"
  sv_write :: "nat \<Rightarrow> go_error option"

definition filterSets :: "(string, string list) gomap \<Rightarrow> (string, string list) gomap" where
  "filterSets colFilters = filter (\<lambda>(t, s). s \<noteq> []) (map (\<lambda>(t, cols). (t, BuildAllowSet cols)) colFilters)"

definition NewSSEConsumer ::
  "string \<Rightarrow> event_filter \<Rightarrow> (string, expr option) gomap \<Rightarrow> (string, string list) gomap \<Rightarrow> sse_consumer" where
  "NewSSEConsumer consumerID flt rowFilters colFilters =
     \<lparr>sse_id = ''sse:'' @ consumerID, sse_filter = flt, sse_rowFilters = rowFilters, sse_colSets = filterSets colFilters,
      sse_closed = False, sse_wire = [], sse_sent = []\<rparr>"

definition sse_Close :: "sse_consumer \<Rightarrow> sse_consumer" where
  "sse_Close c = c\<lparr>sse_closed := True\<rparr>"

text \<open>The row filter of a table: \<^term>\<open>None\<close> when none is configured or it is nil.\<close>

definition row_matches :: "convs \<Rightarrow> (string \<Rightarrow> (string, json) gomap option option) \<Rightarrow> (string, expr option) gomap \<Rightarrow> change_event \<Rightarrow> filter_error + bool" where
  "row_matches cv rows rfs ev =
     (case gm_get rfs (ev_table ev) of Some (Some root) \<Rightarrow> Match cv rows (Some root) ev | _ \<Rightarrow> Inr True)"

definition sse_head :: "change_event \<Rightarrow> string" where
  "sse_head ev = ''id: '' @ ev_id ev @ [newline] @ ''data: ''"

definition column_filtered :: "(string \<Rightarrow> json option) \<Rightarrow> (json \<Rightarrow> string option) \<Rightarrow> string list \<Rightarrow> change_event \<Rightarrow> string + change_event" where
  "column_filtered dec enc colSet ev =
     (case ApplyColumnFilterSet dec enc (ev_before ev) colSet of
        None \<Rightarrow> Inl ''column filter before''
      | Some before \<Rightarrow>
          (case ApplyColumnFilterSet dec enc (ev_after ev) colSet of
             None \<Rightarrow> Inl ''column filter after''
           | Some after \<Rightarrow> Inr (ev\<lparr>ev_before := before, ev_after := after\<rparr>)))"

text \<open>
  The writes of one event: the id line and the start of the data line first; then the stored bytes
  when no column filter applies, else the filtered event. \<^term>\<open>Inl\<close> is the error that follows the
  writes made so far.
\<close>

definition sse_writes :: "sse_env \<Rightarrow> sse_consumer \<Rightarrow> log_entry \<Rightarrow> change_event \<Rightarrow> string list \<times> go_error option" where
  "sse_writes sv c e ev =
     (let colSet = gm_get0 [] (sse_colSets c) (ev_table ev)
      in if colSet = [] \<and> le_raw e \<noteq> [] then ([sse_head ev, le_raw e, [newline, newline]], None)
         else case column_filtered (sv_decode sv) (sv_encode sv) colSet ev of
                Inl msg \<Rightarrow> ([sse_head ev], Some (ErrOther (''sse: '' @ msg)))
              | Inr ev' \<Rightarrow>
                  (case sv_marshal sv ev' of
                     None \<Rightarrow> ([sse_head ev], Some (ErrOther ''json: marshal''))
                   | Some j \<Rightarrow> ([sse_head ev, j @ [newline], [newline]], None)))"

definition sse_Deliver :: "sse_env \<Rightarrow> log_entry \<Rightarrow> sse_consumer \<Rightarrow> go_error option \<times> sse_consumer" where
  "sse_Deliver sv e c =
     (case MaterializeEvent (sv_unmarshal sv) e of
        Inl err \<Rightarrow> (Some (ErrWrap ''sse consumer: materialize event: '' (ErrOther (entry_err_string err))), c)
      | Inr e1 \<Rightarrow>
          if sse_closed c then (Some (ErrOther ''sse: connection closed''), c)
          else case le_event e1 of
                 None \<Rightarrow> (None, c)
               | Some ev \<Rightarrow>
                   if \<not> Allow (sse_filter c) ev then (None, c)
                   else case row_matches (sv_convs sv) (sv_rows sv) (sse_rowFilters c) ev of
                          Inl err \<Rightarrow> (Some (PermanentError ''sse: row filter''), c)
                        | Inr False \<Rightarrow> (None, c)
                        | Inr True \<Rightarrow>
                            let (ss, after) = sse_writes sv c e1 ev;
                                (err, w) = do_writes (sv_write sv) 0 ss (sse_wire c)
                            in (if err = None then after else err, c\<lparr>sse_wire := w\<rparr>))"

definition sse_FlushBatch :: "go_error option \<Rightarrow> sse_consumer \<Rightarrow> go_error option \<times> sse_consumer" where
  "sse_FlushBatch flushErr c =
     (if sse_closed c then (None, c)
      else case flushErr of Some err \<Rightarrow> (Some err, c) | None \<Rightarrow> (None, c\<lparr>sse_sent := sse_wire c\<rparr>))"

section \<open>gRPC\<close>

record proto_event =
  pe_id :: string
  pe_idempotencyKey :: string
  pe_operation :: string
  pe_table :: string
  pe_payload :: string

text \<open>\<open>gc_ch\<close> is the buffered channel (oldest first), \<open>gc_sent\<close> what the handler sent on the stream.\<close>

record grpc_consumer =
  gc_id :: string
  gc_ch :: "proto_event list"
  gc_bufSize :: nat
  gc_filter :: event_filter
  gc_done :: bool
  gc_rowFilters :: "(string, expr option) gomap"
  gc_colSets :: "(string, string list) gomap"
  gc_sent :: "proto_event list"

definition NewGRPCConsumer ::
  "string \<Rightarrow> nat \<Rightarrow> event_filter \<Rightarrow> (string, expr option) gomap \<Rightarrow> (string, string list) gomap \<Rightarrow> grpc_consumer" where
  "NewGRPCConsumer consumerID bufSize flt rowFilters colFilters =
     \<lparr>gc_id = ''grpc:'' @ consumerID, gc_ch = [], gc_bufSize = bufSize, gc_filter = flt, gc_done = False,
      gc_rowFilters = rowFilters, gc_colSets = filterSets colFilters, gc_sent = []\<rparr>"

definition grpc_event :: "change_event \<Rightarrow> string \<Rightarrow> proto_event" where
  "grpc_event ev payload = \<lparr>pe_id = ev_id ev, pe_idempotencyKey = ev_idempotency_key ev, pe_operation = ev_operation ev,
     pe_table = ev_table ev, pe_payload = payload\<rparr>"

text \<open>
  \<open>pick_done\<close>: with the channel not full and the handler gone both cases of the select are ready, and
  the runtime picks one of them.
\<close>

definition grpc_Deliver :: "sse_env \<Rightarrow> bool \<Rightarrow> log_entry \<Rightarrow> grpc_consumer \<Rightarrow> go_error option \<times> grpc_consumer" where
  "grpc_Deliver sv pick_done e c =
     (case MaterializeEvent (sv_unmarshal sv) e of
        Inl err \<Rightarrow> (Some (ErrWrap ''grpc consumer: materialize event: '' (ErrOther (entry_err_string err))), c)
      | Inr e1 \<Rightarrow>
          case le_event e1 of
            None \<Rightarrow> (None, c)
          | Some ev \<Rightarrow>
              if \<not> Allow (gc_filter c) ev then (None, c)
              else case row_matches (sv_convs sv) (sv_rows sv) (gc_rowFilters c) ev of
                     Inl err \<Rightarrow> (Some (PermanentError ''grpc consumer: row filter''), c)
                   | Inr False \<Rightarrow> (None, c)
                   | Inr True \<Rightarrow>
                       (case column_filtered (sv_decode sv) (sv_encode sv) (gm_get0 [] (gc_colSets c) (ev_table ev)) ev of
                          Inl msg \<Rightarrow> (Some (ErrOther (''grpc consumer: '' @ msg)), c)
                        | Inr ev' \<Rightarrow>
                            (case sv_marshal sv ev' of
                               None \<Rightarrow> (Some (ErrOther ''grpc consumer: marshal event''), c)
                             | Some payload \<Rightarrow>
                                 if length (gc_ch c) < gc_bufSize c \<and> \<not> (gc_done c \<and> pick_done) then
                                   (None, c\<lparr>gc_ch := gc_ch c @ [grpc_event ev payload]\<rparr>)
                                 else if gc_done c then (Some (ErrOther ''grpc consumer: subscribe handler exited''), c)
                                 else (Some (ErrOther ''grpc consumer: channel full, slow client (backpressure)''), c))))"

definition grpc_Close :: "grpc_consumer \<Rightarrow> grpc_consumer" where
  "grpc_Close c = c\<lparr>gc_done := True\<rparr>"

text \<open>
  One turn of the send loop of \<open>Subscribe\<close>: the context is done, or the next event is taken from the
  channel and sent; an error of \<open>Send\<close> ends the handler, which closes the consumer.
\<close>

datatype loop_choice = CtxDone | TakeNext "string option"

definition subscribe_turn :: "loop_choice \<Rightarrow> grpc_consumer \<Rightarrow> grpc_consumer" where
  "subscribe_turn ch c =
     (if gc_done c then c
      else case ch of
             CtxDone \<Rightarrow> grpc_Close c
           | TakeNext err \<Rightarrow>
               (case gc_ch c of
                  [] \<Rightarrow> c
                | ev # evs \<Rightarrow>
                    if err = None then c\<lparr>gc_ch := evs, gc_sent := gc_sent c @ [ev]\<rparr>
                    else grpc_Close (c\<lparr>gc_ch := evs\<rparr>)))"

definition bindGRPCConsumerID :: "string \<Rightarrow> string \<Rightarrow> string option" where
  "bindGRPCConsumerID scope requested =
     (if scope = [] then Some requested
      else if requested = [] then Some scope
      else if requested \<noteq> scope then None
      else Some requested)"

end
