(* ===== verification/Stream_Props.thy ===== *)
theory Stream_Props
  imports Stream_Sinks Router
begin

text \<open>
  What the stream consumers guarantee: NDJSON lines can be read back, SSE frames are whole, the gRPC
  channel is a bounded FIFO; and where a nil error means less than delivery.
\<close>

section \<open>NDJSON\<close>

lemma split_on_append: "newline \<notin> set s \<Longrightarrow> split_on newline (s @ newline # t) = s # split_on newline t"
  by (induction s) auto

lemma split_lines: "\<forall>s \<in> set ss. newline \<notin> set s \<Longrightarrow> split_on newline (concat (map (\<lambda>s. s @ [newline]) ss)) = ss @ [[]]"
proof (induction ss)
  case (Cons s ss)
  then show ?case using split_on_append [of s "concat (map (\<lambda>s. s @ [newline]) ss)"] by simp
qed simp

definition stdout_payload :: "stdout_env \<Rightarrow> log_entry \<Rightarrow> string option" where
  "stdout_payload env e =
     (if le_raw e \<noteq> [] then Some (le_raw e) else case le_event e of None \<Rightarrow> Some ''null'' | Some ev \<Rightarrow> so_marshal env ev)"

lemma stdout_line:
  assumes "stdout_Deliver env e so = (None, so')"
  shows "\<exists>data. stdout_payload env e = Some data \<and> so_wire so' = so_wire so @ data @ [newline] \<and> so_metrics so' = so_metrics so"
proof -
  from assms obtain data where d: "stdout_payload env e = Some data"
    by (cases "stdout_payload env e") (auto simp: stdout_Deliver_def stdout_payload_def)
  obtain err w where w: "do_writes (so_write env) 0 [data, [newline]] (so_wire so) = (err, w)"
    by (cases "do_writes (so_write env) 0 [data, [newline]] (so_wire so)")
  have r: "stdout_Deliver env e so =
      (case err of Some er \<Rightarrow> (Some er, so\<lparr>so_wire := w\<rparr>)
       | None \<Rightarrow> if so_metrics so then
           (case MaterializeEvent (so_unmarshal env) e of Inl er \<Rightarrow> (Some (ErrOther (entry_err_string er)), so\<lparr>so_wire := w\<rparr>)
            | Inr _ \<Rightarrow> (None, so\<lparr>so_wire := w\<rparr>)) else (None, so\<lparr>so_wire := w\<rparr>))"
    using d w by (simp add: stdout_Deliver_def stdout_payload_def Let_def)
  with assms have "err = None" "so' = so\<lparr>so_wire := w\<rparr>" by (auto split: option.splits if_splits sum.splits)
  with do_writes_ok w d show ?thesis by fastforce
qed

lemma stdout_lines:
  assumes "deliver_all stdout_Deliver ds so = (errs, so')" "set errs \<subseteq> {None}"
  shows "\<exists>datas. map (\<lambda>(env, e). stdout_payload env e) ds = map Some datas \<and>
    so_wire so' = so_wire so @ concat (map (\<lambda>s. s @ [newline]) datas)"
  using assms
proof (induction ds arbitrary: so errs)
  case (Cons d ds)
  obtain env e where d: "d = (env, e)" by (cases d)
  obtain r so1 where 1: "stdout_Deliver env e so = (r, so1)" by (cases "stdout_Deliver env e so")
  obtain errs2 so2 where 2: "deliver_all stdout_Deliver ds so1 = (errs2, so2)" by (cases "deliver_all stdout_Deliver ds so1")
  from Cons.prems d 1 2 have r: "r = None" "so2 = so'" "set errs2 \<subseteq> {None}" by auto
  with 1 2 have 1: "stdout_Deliver env e so = (None, so1)" and 2: "deliver_all stdout_Deliver ds so1 = (errs2, so')" by simp_all
  from stdout_line [OF 1] obtain data where "stdout_payload env e = Some data" "so_wire so1 = so_wire so @ data @ [newline]" by blast
  moreover from Cons.IH [OF 2 r(3)] obtain datas where
    "map (\<lambda>(env, e). stdout_payload env e) ds = map Some datas" "so_wire so' = so_wire so1 @ concat (map (\<lambda>s. s @ [newline]) datas)" by blast
  ultimately show ?case using d by (intro exI [of _ "data # datas"]) simp
qed simp

text \<open>
  When every delivery to standard output succeeds, splitting the output at newlines gives back the
  payloads, one per line, in order, provided no payload has a newline in it, as compact JSON has not.
\<close>

theorem stdout_ndjson:
  assumes "deliver_all stdout_Deliver ds so = (errs, so')" "set errs \<subseteq> {None}" "so_wire so = []"
    and "\<forall>(env, e) \<in> set ds. \<forall>s. stdout_payload env e = Some s \<longrightarrow> newline \<notin> set s"
  shows "map Some (butlast (split_on newline (so_wire so'))) = map (\<lambda>(env, e). stdout_payload env e) ds"
proof -
  from stdout_lines [OF assms(1,2)] obtain datas where
    d: "map (\<lambda>(env, e). stdout_payload env e) ds = map Some datas" "so_wire so' = concat (map (\<lambda>s. s @ [newline]) datas)"
    using assms(3) by auto
  have "newline \<notin> set s" if "s \<in> set datas" for s
  proof -
    from that have "Some s \<in> set (map (\<lambda>(env, e). stdout_payload env e) ds)" unfolding d(1) by simp
    then show ?thesis using assms(4) by force
  qed
  then show ?thesis using split_lines [of datas] d by simp
qed

section \<open>Server-Sent Events\<close>

text \<open>What an event adds to the wire when nothing fails.\<close>

definition sse_frame :: "change_event \<Rightarrow> string \<Rightarrow> string" where
  "sse_frame ev payload = sse_head ev @ payload @ [newline, newline]"

lemma sse_writes_ok: "sse_writes sv c e ev = (ss, None) \<Longrightarrow> \<exists>payload. concat ss = sse_frame ev payload"
  by (auto simp: sse_writes_def sse_frame_def Let_def split: if_splits sum.splits option.splits)

text \<open>
  A delivery to an SSE connection that returns nil wrote nothing, because a filter rejected the
  event, or exactly one whole frame; a failed one wrote a prefix of it at most. A delivery never
  flushes.
\<close>

theorem sse_frames_whole:
  assumes "sse_Deliver sv e c = (r, c')"
  shows "sse_sent c' = sse_sent c \<and>
    (r = None \<longrightarrow> sse_wire c' = sse_wire c \<or> (\<exists>ev payload. sse_wire c' = sse_wire c @ sse_frame ev payload)) \<and>
    (\<exists>t. sse_wire c' = sse_wire c @ t)"
proof (cases "c' = c")
  case False
  with assms obtain e1 ev ss after err w where m: "sse_writes sv c e1 ev = (ss, after)"
    "do_writes (sv_write sv) 0 ss (sse_wire c) = (err, w)" "r = (if err = None then after else err)" "c' = c\<lparr>sse_wire := w\<rparr>"
    unfolding sse_Deliver_def by (auto split: sum.splits option.splits if_splits bool.splits prod.splits)
  moreover have "\<exists>ev payload. w = sse_wire c @ sse_frame ev payload" if "r = None"
    using that m do_writes_ok [of "sv_write sv" 0 ss "sse_wire c" w] sse_writes_ok [of sv c e1 ev ss] by (auto split: if_splits)
  moreover from do_writes_prefix [OF m(2)] have "\<exists>t. w = sse_wire c @ t" by blast
  ultimately show ?thesis by auto
qed (use assms in auto)

text \<open>
  When the handler of an SSE connection returns after an event was written and before the router
  flushes, the flush reports success although nothing was sent: the router promotes the provisional
  cursor of the consumer and stores it, so the client that reconnects starts behind the event.
\<close>

theorem sse_closed_flush_confirms:
  assumes "sse_Deliver sv e c = (None, c1)" "sse_wire c1 \<noteq> sse_wire c" "sse_sent c = sse_wire c"
    and "sse_FlushBatch ferr (sse_Close c1) = (r, c2)" "fe_flush env i = r" "\<not> fe_ctx env i"
  shows "sse_sent c2 = sse_sent c \<and> sse_sent c2 \<noteq> sse_wire c2 \<and>
    fst (flush_loop marshal save env p [i] bs until rt) = promoteProvisional save i p (resetPoisonStreak i p rt)"
proof -
  from sse_frames_whole [OF assms(1)] have "sse_sent c1 = sse_sent c" by simp
  with assms show ?thesis by (auto simp: sse_FlushBatch_def sse_Close_def)
qed

section \<open>gRPC\<close>

inductive grpc_run :: "grpc_consumer \<Rightarrow> proto_event list \<Rightarrow> grpc_consumer \<Rightarrow> bool" for c0 where
  start: "grpc_run c0 [] c0"
| accept: "grpc_run c0 acc c \<Longrightarrow> grpc_Deliver sv pd e c = (None, c') \<Longrightarrow> gc_ch c' = gc_ch c @ evs \<Longrightarrow> grpc_run c0 (acc @ evs) c'"
| reject: "grpc_run c0 acc c \<Longrightarrow> grpc_Deliver sv pd e c = (Some err, c') \<Longrightarrow> grpc_run c0 acc c'"
| turn: "grpc_run c0 acc c \<Longrightarrow> grpc_run c0 acc (subscribe_turn ch c)"

lemma grpc_Deliver_cases:
  assumes "grpc_Deliver sv pd e c = (r, c')"
  shows "c' = c \<or> (r = None \<and> length (gc_ch c) < gc_bufSize c \<and> (\<exists>ev. c' = c\<lparr>gc_ch := gc_ch c @ [ev]\<rparr>))"
  using assms unfolding grpc_Deliver_def by (auto split: sum.splits option.splits if_splits bool.splits)

text \<open>
  The events a gRPC consumer accepted are, in order, those sent on the stream, at most one that a
  failed send took with it, and those still in the channel, which never exceeds its size.
\<close>

theorem grpc_fifo:
  assumes "grpc_run (NewGRPCConsumer i n flt rf cf) acc c"
  shows "length (gc_ch c) \<le> n \<and>
    (\<exists>failed. acc = gc_sent c @ failed @ gc_ch c \<and> length failed \<le> 1 \<and> (failed \<noteq> [] \<longrightarrow> gc_done c))"
proof -
  have "gc_bufSize c = n \<and> length (gc_ch c) \<le> n \<and>
    (\<exists>failed. acc = gc_sent c @ failed @ gc_ch c \<and> length failed \<le> 1 \<and> (failed \<noteq> [] \<longrightarrow> gc_done c))"
    using assms
  proof (induction rule: grpc_run.induct)
    case start
    show ?case by (simp add: NewGRPCConsumer_def)
  next
    case (accept acc c sv pd e c' evs)
    then show ?case using grpc_Deliver_cases [OF accept.hyps(2)] by auto
  next
    case (reject acc c sv pd e err c')
    then show ?case using grpc_Deliver_cases [OF reject.hyps(2)] by auto
  next
    case (turn acc c ch)
    then obtain failed where f: "acc = gc_sent c @ failed @ gc_ch c" "length failed \<le> 1" "failed \<noteq> [] \<longrightarrow> gc_done c" by blast
    show ?case
    proof (cases "gc_done c \<or> gc_ch c = [] \<or> ch = CtxDone")
      case True
      with turn.IH f show ?thesis
        by (cases ch) (auto simp: subscribe_turn_def grpc_Close_def intro!: exI [of _ failed])
    next
      case False
      then obtain err ev evs where x: "ch = TakeNext err" "gc_ch c = ev # evs" "\<not> gc_done c"
        by (cases ch; cases "gc_ch c") auto
      with f have "failed = []" by auto
      with x f turn.IH show ?thesis
        by (cases err) (auto simp: subscribe_turn_def grpc_Close_def)
    qed
  qed
  then show ?thesis by blast
qed

end
