(* ===== verification/Hash_Cache.thy ===== *)
theory Hash_Cache
  imports Retry_Scheduler Go_Lib
begin

text \<open>
  The text-hash cache of the vector sink (\<open>internal/output/vector/hashcache.go\<close>): a table in SQLite with
  an LRU in front of it. Database failures are arguments. A transaction that is rolled back leaves the
  table alone; the LRU is changed as the loop goes.
\<close>

section \<open>The LRU\<close>

text \<open>\<open>hl_order\<close> is the list of the source, front first; \<open>hl_items\<close> maps an id to the hash of its element.\<close>

record hash_lru =
  hl_cap :: nat
  hl_order :: "string list"
  hl_items :: "(string, bytes) gomap"

definition newHashLRU :: "int \<Rightarrow> hash_lru" where
  "newHashLRU cap = \<lparr>hl_cap = (if cap \<le> 0 then 4096 else nat cap), hl_order = [], hl_items = []\<rparr>"

definition move_front :: "string \<Rightarrow> hash_lru \<Rightarrow> hash_lru" where
  "move_front i l = l\<lparr>hl_order := i # removeAll i (hl_order l)\<rparr>"

definition lru_get :: "string \<Rightarrow> hash_lru \<Rightarrow> bytes option \<times> hash_lru" where
  "lru_get i l = (case gm_get (hl_items l) i of None \<Rightarrow> (None, l) | Some h \<Rightarrow> (Some h, move_front i l))"

function evict :: "hash_lru \<Rightarrow> hash_lru" where
  "evict l =
     (if length (hl_order l) > hl_cap l then
        evict (l\<lparr>hl_items := gm_del (last (hl_order l)) (hl_items l), hl_order := butlast (hl_order l)\<rparr>)
      else l)"
  by pat_completeness auto
termination by (relation "measure (\<lambda>l. length (hl_order l))") auto

declare evict.simps [simp del]

definition lru_put :: "string \<Rightarrow> bytes \<Rightarrow> hash_lru \<Rightarrow> hash_lru" where
  "lru_put i h l =
     (if gm_get (hl_items l) i \<noteq> None then move_front i (l\<lparr>hl_items := gm_set i h (hl_items l)\<rparr>)
      else evict (l\<lparr>hl_order := i # hl_order l, hl_items := gm_set i h (hl_items l)\<rparr>))"

definition lru_del :: "string \<Rightarrow> hash_lru \<Rightarrow> hash_lru" where
  "lru_del i l =
     (if gm_get (hl_items l) i = None then l
      else l\<lparr>hl_items := gm_del i (hl_items l), hl_order := removeAll i (hl_order l)\<rparr>)"

section \<open>The cache\<close>

record hash_cache =
  hc_db :: "(string, bytes) gomap"
  hc_disabled :: bool
  hc_lru :: hash_lru

definition OpenHashCache :: "bool \<Rightarrow> (string, bytes) gomap \<Rightarrow> hash_cache" where
  "OpenHashCache failed table =
     (if failed then \<lparr>hc_db = [], hc_disabled = True, hc_lru = newHashLRU 0\<rparr>
      else \<lparr>hc_db = table, hc_disabled = False, hc_lru = newHashLRU 4096\<rparr>)"

definition HashText :: "string \<Rightarrow> bytes" where
  "HashText text = sha256 (str_bytes text)"

text \<open>A failed query is a miss.\<close>

definition hc_Get :: "bool \<Rightarrow> string \<Rightarrow> hash_cache \<Rightarrow> bytes option \<times> hash_cache" where
  "hc_Get dbErr i hc =
     (if hc_disabled hc then (None, hc)
      else case lru_get i (hc_lru hc) of
             (Some h, l) \<Rightarrow> (Some h, hc\<lparr>hc_lru := l\<rparr>)
           | (None, l) \<Rightarrow>
               (case (if dbErr then None else gm_get (hc_db hc) i) of
                  None \<Rightarrow> (None, hc)
                | Some h \<Rightarrow> (Some h, hc\<lparr>hc_lru := lru_put i h (hc_lru hc)\<rparr>)))"

definition hc_Unchanged :: "bool \<Rightarrow> string \<Rightarrow> bytes \<Rightarrow> hash_cache \<Rightarrow> bool \<times> hash_cache" where
  "hc_Unchanged dbErr i h hc = (let (stored, hc') = hc_Get dbErr i hc in (stored = Some h, hc'))"

text \<open>The failures of a transaction: beginning, preparing, the \<open>k\<close>-th statement, committing.\<close>

record tx_env =
  tx_begin :: bool
  tx_prepare :: bool
  tx_exec :: "nat \<Rightarrow> bool"
  tx_commit :: bool

definition no_failure :: tx_env where
  "no_failure = \<lparr>tx_begin = False, tx_prepare = False, tx_exec = (\<lambda>_. False), tx_commit = False\<rparr>"

fun put_loop :: "tx_env \<Rightarrow> nat \<Rightarrow> (string \<times> bytes) list \<Rightarrow> (string, bytes) gomap \<Rightarrow> hash_lru \<Rightarrow> (string, bytes) gomap option \<times> hash_lru" where
  "put_loop tx k [] db l = (Some db, l)"
| "put_loop tx k ((i, h) # ps) db l =
     (if tx_exec tx k then (None, l) else put_loop tx (Suc k) ps (gm_set i h db) (lru_put i h l))"

definition hc_PutBatch :: "tx_env \<Rightarrow> string list \<Rightarrow> bytes list \<Rightarrow> hash_cache \<Rightarrow> go_error option \<times> hash_cache" where
  "hc_PutBatch tx ids hashes hc =
     (if hc_disabled hc \<or> ids = [] then (None, hc)
      else if length ids \<noteq> length hashes then (Some (ErrOther ''vector: hash cache put batch: length mismatch''), hc)
      else if tx_begin tx then (Some (ErrOther ''vector: hash cache put batch begin''), hc)
      else if tx_prepare tx then (Some (ErrOther ''vector: hash cache put batch prepare''), hc)
      else case put_loop tx 0 (zip ids hashes) (hc_db hc) (hc_lru hc) of
             (None, l) \<Rightarrow> (Some (ErrOther ''vector: hash cache put''), hc\<lparr>hc_lru := l\<rparr>)
           | (Some db, l) \<Rightarrow>
               if tx_commit tx then (Some (ErrOther ''vector: hash cache put batch commit''), hc\<lparr>hc_lru := l\<rparr>)
               else (None, hc\<lparr>hc_db := db, hc_lru := l\<rparr>))"

definition hc_Put :: "tx_env \<Rightarrow> string \<Rightarrow> bytes \<Rightarrow> hash_cache \<Rightarrow> go_error option \<times> hash_cache" where
  "hc_Put tx i h hc = hc_PutBatch tx [i] [h] hc"

fun del_loop :: "tx_env \<Rightarrow> nat \<Rightarrow> string list \<Rightarrow> (string, bytes) gomap \<Rightarrow> hash_lru \<Rightarrow> (string, bytes) gomap option \<times> hash_lru" where
  "del_loop tx k [] db l = (Some db, l)"
| "del_loop tx k (i # ids) db l =
     (if tx_exec tx k then (None, l) else del_loop tx (Suc k) ids (gm_del i db) (lru_del i l))"

definition hc_DelBatch :: "tx_env \<Rightarrow> string list \<Rightarrow> hash_cache \<Rightarrow> go_error option \<times> hash_cache" where
  "hc_DelBatch tx ids hc =
     (if hc_disabled hc \<or> ids = [] then (None, hc)
      else if tx_begin tx then (Some (ErrOther ''vector: hash cache del batch begin''), hc)
      else if tx_prepare tx then (Some (ErrOther ''vector: hash cache del batch prepare''), hc)
      else case del_loop tx 0 ids (hc_db hc) (hc_lru hc) of
             (None, l) \<Rightarrow> (Some (ErrOther ''vector: hash cache del''), hc\<lparr>hc_lru := l\<rparr>)
           | (Some db, l) \<Rightarrow>
               if tx_commit tx then (Some (ErrOther ''vector: hash cache del batch commit''), hc\<lparr>hc_lru := l\<rparr>)
               else (None, hc\<lparr>hc_db := db, hc_lru := l\<rparr>))"

definition hc_Del :: "tx_env \<Rightarrow> string \<Rightarrow> hash_cache \<Rightarrow> go_error option \<times> hash_cache" where
  "hc_Del tx i hc = hc_DelBatch tx [i] hc"

section \<open>Invariant\<close>

text \<open>The LRU list has the keys of the map, once each, at most \<open>cap\<close> of them.\<close>

definition lru_inv :: "hash_lru \<Rightarrow> bool" where
  "lru_inv l \<longleftrightarrow> distinct (hl_order l) \<and> set (hl_order l) = dom (gm_get (hl_items l)) \<and> length (hl_order l) \<le> hl_cap l"

text \<open>The LRU agrees with the table on what it holds.\<close>

definition cache_inv :: "hash_cache \<Rightarrow> bool" where
  "cache_inv hc \<longleftrightarrow> lru_inv (hc_lru hc) \<and> (\<forall>i h. gm_get (hl_items (hc_lru hc)) i = Some h \<longrightarrow> gm_get (hc_db hc) i = Some h)"

definition cache_view :: "hash_cache \<Rightarrow> string \<Rightarrow> bytes option" where
  "cache_view hc i = (if hc_disabled hc then None else gm_get (hc_db hc) i)"

lemma move_front_inv: "lru_inv l \<Longrightarrow> gm_get (hl_items l) i \<noteq> None \<Longrightarrow> lru_inv (move_front i l)"
proof -
  assume inv: "lru_inv l" and i: "gm_get (hl_items l) i \<noteq> None"
  then have m: "i \<in> set (hl_order l)" by (auto simp: lru_inv_def)
  then have "length (i # removeAll i (hl_order l)) = length (hl_order l)"
    using inv by (simp add: lru_inv_def distinct_remove1_removeAll [symmetric] length_remove1)
      (metis Suc_pred length_pos_if_in_set)
  with inv m show ?thesis by (auto simp: lru_inv_def move_front_def distinct_removeAll)
qed

lemma move_front_sel [simp]: "hl_items (move_front i l) = hl_items l" "hl_cap (move_front i l) = hl_cap l"
  by (simp_all add: move_front_def)

lemma lru_evict_one:
  assumes "distinct (hl_order l)" "set (hl_order l) = dom (gm_get (hl_items l))" "length (hl_order l) \<le> Suc (hl_cap l)"
  shows "lru_inv (evict l) \<and> hl_cap (evict l) = hl_cap l \<and> (\<forall>i h. gm_get (hl_items (evict l)) i = Some h \<longrightarrow> gm_get (hl_items l) i = Some h)"
proof (cases "length (hl_order l) > hl_cap l")
  case False
  with assms show ?thesis by (simp add: evict.simps [of l] lru_inv_def)
next
  case True
  let ?l = "l\<lparr>hl_items := gm_del (last (hl_order l)) (hl_items l), hl_order := butlast (hl_order l)\<rparr>"
  have n: "hl_order l \<noteq> []" using True by auto
  have len: "length (butlast (hl_order l)) \<le> hl_cap l" using assms(3) by simp
  have e: "evict l = ?l" using True len by (simp add: evict.simps [of l] evict.simps [of ?l])
  have o: "hl_order l = butlast (hl_order l) @ [last (hl_order l)]" using n by simp
  then have "set (butlast (hl_order l)) = set (hl_order l) - {last (hl_order l)}" "distinct (butlast (hl_order l))"
    using assms(1) by (metis Diff_insert_absorb append_Nil2 distinct_append disjoint_iff insertI1 list.simps(15) set_append
        Un_insert_right sup_bot.right_neutral list.set(1), metis distinct_butlast)
  with assms(2) len show ?thesis unfolding e by (auto simp: lru_inv_def gm_get_del split: if_splits)
qed

lemma lru_put_inv:
  assumes "lru_inv l"
  shows "lru_inv (lru_put i h l) \<and> (\<forall>j g. gm_get (hl_items (lru_put i h l)) j = Some g \<longrightarrow> (if j = i then g = h else gm_get (hl_items l) j = Some g))"
proof (cases "gm_get (hl_items l) i = None")
  case True
  let ?l = "l\<lparr>hl_order := i # hl_order l, hl_items := gm_set i h (hl_items l)\<rparr>"
  have "distinct (hl_order ?l)" "set (hl_order ?l) = dom (gm_get (hl_items ?l))" "length (hl_order ?l) \<le> Suc (hl_cap ?l)"
    using assms True by (auto simp: lru_inv_def gm_get_set split: if_splits)
  from lru_evict_one [OF this] have E: "lru_inv (evict ?l)" "\<forall>j g. gm_get (hl_items (evict ?l)) j = Some g \<longrightarrow> gm_get (gm_set i h (hl_items l)) j = Some g"
    by simp_all
  have "if j = i then g = h else gm_get (hl_items l) j = Some g" if "gm_get (hl_items (evict ?l)) j = Some g" for j g
    using E(2) that gm_get_set [of i h "hl_items l" j] by (auto split: if_splits)
  with E(1) True show ?thesis by (simp add: lru_put_def)
next
  case False
  let ?l = "l\<lparr>hl_items := gm_set i h (hl_items l)\<rparr>"
  have "lru_inv ?l" using assms False by (auto simp: lru_inv_def gm_get_set split: if_splits)
  with move_front_inv [of ?l i] False show ?thesis by (auto simp: lru_put_def gm_get_set)
qed

lemma lru_del_inv:
  assumes "lru_inv l"
  shows "lru_inv (lru_del i l) \<and> gm_get (hl_items (lru_del i l)) = (gm_get (hl_items l))(i := None)"
proof (cases "gm_get (hl_items l) i = None")
  case True
  with assms show ?thesis by (simp add: lru_del_def fun_upd_idem)
next
  case False
  with assms show ?thesis
    by (auto simp: lru_inv_def lru_del_def fun_eq_iff gm_get_del distinct_removeAll split: if_splits
        intro: le_trans [OF length_removeAll_less_eq])
qed

section \<open>Batches\<close>

text \<open>What a batch of puts or deletions does to the hash of an id.\<close>

definition put_all :: "(string \<times> bytes) list \<Rightarrow> (string \<Rightarrow> bytes option) \<Rightarrow> string \<Rightarrow> bytes option" where
  "put_all ps v = fold (\<lambda>(i, h) v. v(i := Some h)) ps v"

definition del_all :: "string list \<Rightarrow> (string \<Rightarrow> bytes option) \<Rightarrow> string \<Rightarrow> bytes option" where
  "del_all ids v = fold (\<lambda>i v. v(i := None)) ids v"

definition agree :: "hash_lru \<Rightarrow> (string, bytes) gomap \<Rightarrow> bool" where
  "agree l db \<longleftrightarrow> lru_inv l \<and> (\<forall>i h. gm_get (hl_items l) i = Some h \<longrightarrow> gm_get db i = Some h)"

lemma gm_get_set_fun: "gm_get (gm_set i h m) = (gm_get m)(i \<mapsto> h)"
  by (simp add: fun_eq_iff gm_get_set)

lemma gm_get_del_fun: "gm_get (gm_del i m) = (gm_get m)(i := None)"
  by (simp add: fun_eq_iff gm_get_del)

lemma put_loop_ok:
  "agree l db \<Longrightarrow> put_loop no_failure k ps db l = (r, l') \<Longrightarrow> \<exists>db'. r = Some db' \<and> agree l' db' \<and> gm_get db' = put_all ps (gm_get db)"
proof (induction ps arbitrary: k db l)
  case (Cons p ps)
  obtain i h where p: "p = (i, h)" by (cases p)
  have "agree (lru_put i h l) (gm_set i h db)"
    using Cons.prems(1) lru_put_inv [of l i h] by (fastforce simp: agree_def gm_get_set split: if_splits)
  moreover have "put_loop no_failure (Suc k) ps (gm_set i h db) (lru_put i h l) = (r, l')"
    using Cons.prems(2) p by (simp add: no_failure_def)
  ultimately show ?case using Cons.IH p by (fastforce simp: put_all_def gm_get_set_fun)
qed (auto simp: put_all_def)

lemma del_loop_ok:
  "agree l db \<Longrightarrow> del_loop no_failure k ids db l = (r, l') \<Longrightarrow> \<exists>db'. r = Some db' \<and> agree l' db' \<and> gm_get db' = del_all ids (gm_get db)"
proof (induction ids arbitrary: k db l)
  case (Cons i ids)
  have "agree (lru_del i l) (gm_del i db)"
    using Cons.prems(1) lru_del_inv [of l i] by (auto simp: agree_def gm_get_del_fun)
  moreover have "del_loop no_failure (Suc k) ids (gm_del i db) (lru_del i l) = (r, l')"
    using Cons.prems(2) by (simp add: no_failure_def)
  ultimately show ?case using Cons.IH by (fastforce simp: del_all_def gm_get_del_fun)
qed (auto simp: del_all_def)

lemma cache_inv_agree: "cache_inv hc \<longleftrightarrow> agree (hc_lru hc) (hc_db hc)"
  by (simp add: cache_inv_def agree_def)

section \<open>The interface of the consumer\<close>

text \<open>
  \<open>textHashCache\<close>, the surface the vector consumer uses: \<open>unchanged\<close> compares with the remembered hash,
  the batch operations update it. \<open>view\<close> is what is remembered.
\<close>

record 'c hash_ops =
  ho_unchanged :: "string \<Rightarrow> bytes \<Rightarrow> 'c \<Rightarrow> bool \<times> 'c"
  ho_put :: "string list \<Rightarrow> bytes list \<Rightarrow> 'c \<Rightarrow> go_error option \<times> 'c"
  ho_del :: "string list \<Rightarrow> 'c \<Rightarrow> go_error option \<times> 'c"

text \<open>The laws of reading, which a cache keeps even when its writes fail, and those of writing.\<close>

locale text_hash_cache_read =
  fixes ops :: "'c hash_ops"
    and view :: "'c \<Rightarrow> string \<Rightarrow> bytes option"
    and inv :: "'c \<Rightarrow> bool"
  assumes unchanged_ok: "inv c \<Longrightarrow> ho_unchanged ops i h c = (b, c') \<Longrightarrow> inv c' \<and> view c' = view c \<and> (b \<longleftrightarrow> view c i = Some h)"

locale text_hash_cache = text_hash_cache_read ops view inv
  for ops :: "'c hash_ops" and view and inv +
  assumes put_ok: "inv c \<Longrightarrow> length ids = length hs \<Longrightarrow> ho_put ops ids hs c = (err, c') \<Longrightarrow>
      inv c' \<and> (\<forall>i. view c' i = put_all (zip ids hs) (view c) i \<or> view c' i = None)"
    and del_ok: "inv c \<Longrightarrow> ho_del ops ids c = (err, c') \<Longrightarrow> inv c' \<and> (\<forall>i. view c' i = del_all ids (view c) i \<or> view c' i = None)"

text \<open>
  The SQLite cache, its database working, keeps the contract; a disabled one remembers nothing. A
  contract of this kind cannot hold when writes fail, as the error of a batch is only logged.
\<close>

definition sqlite_ops :: "hash_cache hash_ops" where
  "sqlite_ops = \<lparr>ho_unchanged = hc_Unchanged False, ho_put = hc_PutBatch no_failure, ho_del = hc_DelBatch no_failure\<rparr>"

lemma cache_view_enabled: "\<not> hc_disabled hc \<Longrightarrow> cache_view hc = gm_get (hc_db hc)"
  by (simp add: fun_eq_iff cache_view_def)

lemma hc_Get_ok:
  assumes "cache_inv hc" "hc_Get False i hc = (r, hc')"
  shows "cache_inv hc' \<and> cache_view hc' = cache_view hc \<and> r = cache_view hc i"
proof (cases "hc_disabled hc")
  case True
  with assms show ?thesis by (simp add: hc_Get_def cache_view_def)
next
  case False
  show ?thesis
  proof (cases "gm_get (hl_items (hc_lru hc)) i")
    case None
    have "agree (lru_put i h (hc_lru hc)) (hc_db hc)" if "gm_get (hc_db hc) i = Some h" for h
      using that assms(1) lru_put_inv [of "hc_lru hc" i h] by (fastforce simp: cache_inv_agree agree_def split: if_splits)
    moreover have "hc_Get False i hc = (gm_get (hc_db hc) i,
        case gm_get (hc_db hc) i of None \<Rightarrow> hc | Some h \<Rightarrow> hc\<lparr>hc_lru := lru_put i h (hc_lru hc)\<rparr>)"
      using False None by (simp add: hc_Get_def lru_get_def split: option.split)
    ultimately show ?thesis using assms False
      by (cases "gm_get (hc_db hc) i") (auto simp: cache_inv_agree cache_view_enabled)
  next
    case (Some h)
    with assms(1) have "gm_get (hc_db hc) i = Some h" by (simp add: cache_inv_def)
    moreover have "lru_inv (move_front i (hc_lru hc))" using assms(1) Some by (simp add: cache_inv_def move_front_inv)
    moreover have "hc_Get False i hc = (Some h, hc\<lparr>hc_lru := move_front i (hc_lru hc)\<rparr>)"
      using False Some by (simp add: hc_Get_def lru_get_def)
    ultimately show ?thesis using assms False by (auto simp: cache_inv_def cache_view_enabled)
  qed
qed

interpretation sqlite: text_hash_cache sqlite_ops cache_view cache_inv
proof
  show "cache_inv c' \<and> cache_view c' = cache_view c \<and> (b \<longleftrightarrow> cache_view c i = Some h)"
    if "cache_inv c" "ho_unchanged sqlite_ops i h c = (b, c')" for c i h b c'
    using that hc_Get_ok [of c i] by (auto simp: sqlite_ops_def hc_Unchanged_def split: prod.splits)
  show "cache_inv c' \<and> (\<forall>i. cache_view c' i = put_all (zip ids hs) (cache_view c) i \<or> cache_view c' i = None)"
    if "cache_inv c" "length ids = length hs" "ho_put sqlite_ops ids hs c = (err, c')" for c ids hs err c'
  proof (cases "hc_disabled c \<or> ids = []")
    case True
    with that show ?thesis by (auto simp: sqlite_ops_def hc_PutBatch_def cache_view_def put_all_def)
  next
    case False
    obtain r l where p: "put_loop no_failure 0 (zip ids hs) (hc_db c) (hc_lru c) = (r, l)"
      by (cases "put_loop no_failure 0 (zip ids hs) (hc_db c) (hc_lru c)")
    from put_loop_ok [OF that(1) [unfolded cache_inv_agree] p] obtain db where
      "r = Some db" "agree l db" "gm_get db = put_all (zip ids hs) (gm_get (hc_db c))" by blast
    with p that False show ?thesis
      by (auto simp: sqlite_ops_def hc_PutBatch_def no_failure_def cache_inv_agree cache_view_enabled)
  qed
  show "cache_inv c' \<and> (\<forall>i. cache_view c' i = del_all ids (cache_view c) i \<or> cache_view c' i = None)"
    if "cache_inv c" "ho_del sqlite_ops ids c = (err, c')" for c ids err c'
  proof (cases "hc_disabled c \<or> ids = []")
    case True
    with that show ?thesis by (auto simp: sqlite_ops_def hc_DelBatch_def cache_view_def del_all_def)
  next
    case False
    obtain r l where p: "del_loop no_failure 0 ids (hc_db c) (hc_lru c) = (r, l)"
      by (cases "del_loop no_failure 0 ids (hc_db c) (hc_lru c)")
    from del_loop_ok [OF that(1) [unfolded cache_inv_agree] p] obtain db where
      "r = Some db" "agree l db" "gm_get db = del_all ids (gm_get (hc_db c))" by blast
    with p that False show ?thesis
      by (auto simp: sqlite_ops_def hc_DelBatch_def no_failure_def cache_inv_agree cache_view_enabled)
  qed
qed

lemma OpenHashCache_inv: "cache_inv (OpenHashCache failed table)"
  by (simp add: OpenHashCache_def cache_inv_def newHashLRU_def lru_inv_def)

end
