(* ===== verification/Vector_Sink.thy ===== *)
theory Vector_Sink
  imports Hash_Cache Transform Batch_Sink Pk_Canonical
begin

text \<open>
  The vector sink (\<open>internal/output/vector/consumer.go\<close>, \<open>extract.go\<close>, \<open>store.go\<close>, \<open>status.go\<close>): text
  extraction, the stable identity of a row, buffering with the text-hash cache, and the flush, which
  embeds and upserts or deletes runs of events and isolates poison. The embedder and the vector store
  are outside; the model keeps the content of the store (\<open>fs_world\<close>), on which a call that returns nil
  has its full effect and a failed one whatever the damage functions of \<open>vec_env\<close> say. Metrics are left out.
\<close>

section \<open>Errors\<close>

definition status_of :: "go_error \<Rightarrow> nat option" where
  "status_of err =
     (case find (\<lambda>e. case e of StatusError _ _ \<Rightarrow> True | _ \<Rightarrow> False) (err_chain err) of
        Some (StatusError n _) \<Rightarrow> Some n
      | _ \<Rightarrow> None)"

definition IsTransient :: "go_error option \<Rightarrow> bool" where
  "IsTransient err =
     (case err of
        None \<Rightarrow> False
      | Some e \<Rightarrow> (case status_of e of None \<Rightarrow> True | Some n \<Rightarrow> n = 408 \<or> n = 429 \<or> n \<ge> 500))"

definition IsPoison :: "go_error option \<Rightarrow> bool" where
  "IsPoison err =
     (case err of
        None \<Rightarrow> False
      | Some e \<Rightarrow> (case status_of e of None \<Rightarrow> False | Some n \<Rightarrow> 400 \<le> n \<and> n < 500 \<and> n \<noteq> 408 \<and> n \<noteq> 429))"

section \<open>Identity and text of an event\<close>

record vec_codec =
  vx_unmarshal :: "string \<Rightarrow> change_event option"
  vx_object :: "string \<Rightarrow> (string, json) gomap option"
  vx_fmt :: value_fmt
  vx_marshal_row :: "row \<Rightarrow> string option"
  vx_text :: "json \<Rightarrow> string"
  vx_float :: "float64 \<Rightarrow> string"
  vx_time :: "int \<Rightarrow> string"

definition json_pg :: "vec_codec \<Rightarrow> json \<Rightarrow> pg_val" where
  "json_pg cd j =
     (case j of JNull \<Rightarrow> PgNil | JBool b \<Rightarrow> PgBool b | JNum f \<Rightarrow> PgFloat64 f | JStr s \<Rightarrow> PgStr s | _ \<Rightarrow> PgOther (vx_text cd j))"

definition CanonicalID :: "vec_codec \<Rightarrow> string \<Rightarrow> string \<Rightarrow> (string, json) gomap \<Rightarrow> go_error + string" where
  "CanonicalID cd schema table key =
     (let t = TrimSpace table; s = TrimSpace schema
      in if t = [] then Inl (ErrOther ''vector: CanonicalID: table is required'')
         else case Canonical (vx_fmt cd) (vx_marshal_row cd) (map (\<lambda>(k, v). (k, json_pg cd v)) key) of
                None \<Rightarrow> Inl (ErrOther ''vector: CanonicalID'')
              | Some canon \<Rightarrow> Inr ((if s \<noteq> [] then s @ ''.'' @ t else t) @ '':'' @ canon))"

definition CanonicalIDFromRaw :: "vec_codec \<Rightarrow> string \<Rightarrow> string \<Rightarrow> raw_message \<Rightarrow> go_error + string" where
  "CanonicalIDFromRaw cd schema table key =
     (if raw_str key = [] \<or> raw_str key = ''null'' then CanonicalID cd schema table []
      else case vx_object cd (raw_str key) of
             None \<Rightarrow> Inl (ErrOther ''vector: CanonicalID: key'')
           | Some m \<Rightarrow> CanonicalID cd schema table m)"

datatype extractor = ExtColumns "string list" | ExtTemplate go_template

definition NewExtractor :: "(string \<Rightarrow> go_template option) \<Rightarrow> string list \<Rightarrow> string \<Rightarrow> go_error + extractor" where
  "NewExtractor parse cols tmpl =
     (let hasCols = (cols \<noteq> []); hasTmpl = (TrimSpace tmpl \<noteq> [])
      in if hasCols \<and> hasTmpl then Inl (ErrOther ''vector: source: exactly one of columns or template must be set, got both'')
         else if \<not> hasCols \<and> \<not> hasTmpl then Inl (ErrOther ''vector: source: exactly one of columns or template must be set, got neither'')
         else if hasTmpl then
           (case parse tmpl of None \<Rightarrow> Inl (ErrOther ''vector: source: template parse'') | Some t \<Rightarrow> Inr (ExtTemplate t))
         else Inr (ExtColumns cols))"

definition formatValue :: "vec_codec \<Rightarrow> json option \<Rightarrow> string" where
  "formatValue cd v =
     (case v of
        None \<Rightarrow> []
      | Some JNull \<Rightarrow> []
      | Some (JStr s) \<Rightarrow> s
      | Some (JBool b) \<Rightarrow> (if b then ''true'' else ''false'')
      | Some (JNum f) \<Rightarrow> vx_float cd f
      | Some j \<Rightarrow> vx_text cd j)"

definition extractColumns :: "vec_codec \<Rightarrow> string list \<Rightarrow> change_event \<Rightarrow> go_error + string" where
  "extractColumns cd cols ev =
     (if raw_str (ev_after ev) = [] then Inr []
      else case vx_object cd (raw_str (ev_after ev)) of
             None \<Rightarrow> Inl (ExtractError (ErrOther ''after json''))
           | Some m \<Rightarrow> Inr (TrimSpace (join (map (\<lambda>c. c @ '': '' @ formatValue cd (gm_get m c)) cols) [CHR 0x0A])))"

definition Extract :: "vec_codec \<Rightarrow> extractor \<Rightarrow> change_event \<Rightarrow> go_error + string" where
  "Extract cd ex ev =
     (case ex of
        ExtColumns cols \<Rightarrow> extractColumns cd cols ev
      | ExtTemplate t \<Rightarrow> (case t ev of Inl err \<Rightarrow> Inl (ExtractError err) | Inr out \<Rightarrow> Inr (TrimSpace out)))"

definition buildMetadata :: "vec_codec \<Rightarrow> change_event \<Rightarrow> string list \<Rightarrow> (string, json) gomap" where
  "buildMetadata cd ev cols =
     (let m0 = [(''table'', JStr (ev_table ev)), (''operation'', JStr (ev_operation ev)), (''timestamp'', JStr (vx_time cd (ev_timestamp ev)))];
          m1 = (if ev_schema ev \<noteq> [] then gm_set ''schema'' (JStr (ev_schema ev)) m0 else m0)
      in if cols = [] \<or> raw_str (ev_after ev) = [] then m1
         else case vx_object cd (raw_str (ev_after ev)) of
                None \<Rightarrow> m1
              | Some after \<Rightarrow> fold (\<lambda>c m. case gm_get after c of None \<Rightarrow> m | Some v \<Rightarrow> gm_set c v m) cols m1)"

section \<open>The consumer\<close>

record pending_vec =
  pv_seq :: u64
  pv_id :: string
  pv_text :: string
  pv_hash :: bytes
  pv_metadata :: "(string, json) gomap"
  pv_delete :: bool

record 'c vector_sink =
  vs_id :: string
  vs_extractor :: extractor
  vs_metadataCols :: "string list"
  vs_batchMax :: int
  vs_pending :: "(u32, pending_vec list) gomap"
  vs_pendingIDs :: "(u32, string list) gomap"
  vs_cache :: 'c

definition NewVectorSinkConsumerWithDeps :: "string \<Rightarrow> extractor \<Rightarrow> 'c \<Rightarrow> string list \<Rightarrow> int \<Rightarrow> 'c vector_sink" where
  "NewVectorSinkConsumerWithDeps i ex cache metadata batchMax =
     \<lparr>vs_id = i, vs_extractor = ex, vs_metadataCols = metadata, vs_batchMax = (if batchMax \<le> 0 then 96 else batchMax),
      vs_pending = [], vs_pendingIDs = [], vs_cache = cache\<rparr>"

text \<open>The part of \<open>Deliver\<close> before the lock: an error, an event to skip, or the item to buffer.\<close>

definition vec_item :: "vec_codec \<Rightarrow> extractor \<Rightarrow> string list \<Rightarrow> log_entry \<Rightarrow> go_error + pending_vec option" where
  "vec_item cd ex cols e =
     (case MaterializeEvent (vx_unmarshal cd) e of
        Inl err \<Rightarrow> Inl (materialize_error ''vector'' err)
      | Inr e1 \<Rightarrow>
          case le_event e1 of
            None \<Rightarrow> Inr None
          | Some ev \<Rightarrow>
              if ev_operation ev = OpControl then Inr None
              else case CanonicalIDFromRaw cd (ev_schema ev) (ev_table ev) (ev_key ev) of
                     Inl err \<Rightarrow> Inl (ErrWrap ''vector sink: canonical id: '' err)
                   | Inr i \<Rightarrow>
                       if ev_operation ev = OpDelete then
                         Inr (Some \<lparr>pv_seq = le_seq e1, pv_id = i, pv_text = [], pv_hash = [], pv_metadata = [], pv_delete = True\<rparr>)
                       else case Extract cd ex ev of
                              Inl err \<Rightarrow> Inl err
                            | Inr text \<Rightarrow>
                                if text = [] then Inr None
                                else Inr (Some \<lparr>pv_seq = le_seq e1, pv_id = i, pv_text = text, pv_hash = HashText text,
                                                pv_metadata = buildMetadata cd ev cols, pv_delete = False\<rparr>))"

definition buffer_vec :: "u32 \<Rightarrow> pending_vec \<Rightarrow> 'c vector_sink \<Rightarrow> 'c vector_sink" where
  "buffer_vec p it vs =
     vs\<lparr>vs_pendingIDs := gm_set p (pv_id it # gm_get0 [] (vs_pendingIDs vs) p) (vs_pendingIDs vs),
        vs_pending := push_item p it (vs_pending vs)\<rparr>"

definition vec_Deliver :: "'c hash_ops \<Rightarrow> vec_codec \<Rightarrow> log_entry \<Rightarrow> 'c vector_sink \<Rightarrow> go_error option \<times> 'c vector_sink" where
  "vec_Deliver ops cd e vs =
     (case vec_item cd (vs_extractor vs) (vs_metadataCols vs) e of
        Inl err \<Rightarrow> (Some err, vs)
      | Inr None \<Rightarrow> (None, vs)
      | Inr (Some it) \<Rightarrow>
          let p = le_partition e
          in if pv_delete it then (None, buffer_vec p it vs)
             else
               let hasPending = (pv_id it \<in> set (gm_get0 [] (vs_pendingIDs vs) p));
                   (unchanged, c) = ho_unchanged ops (pv_id it) (pv_hash it) (vs_cache vs);
                   vs1 = vs\<lparr>vs_cache := c\<rparr>
               in if unchanged \<and> \<not> hasPending then (None, vs1) else (None, buffer_vec p it vs1))"

section \<open>Runs\<close>

type_synonym vec_run = "bool \<times> pending_vec list"

definition add_run :: "vec_run list \<Rightarrow> pending_vec \<Rightarrow> vec_run list" where
  "add_run runs it =
     (if runs = [] \<or> fst (last runs) \<noteq> pv_delete it then runs @ [(pv_delete it, [it])]
      else butlast runs @ [(fst (last runs), snd (last runs) @ [it])])"

definition splitRuns :: "pending_vec list \<Rightarrow> vec_run list" where
  "splitRuns batch = foldl add_run [] batch"

section \<open>Flushing\<close>

type_synonym vec = "32 word list"

record vec_record =
  vr_id :: string
  vr_vector :: vec
  vr_metadata :: "(string, json) gomap"
  vr_text :: string

type_synonym vec_world = "string \<Rightarrow> vec_record option"

text \<open>What happens outside: the \<open>n\<close>-th call of a flush to the embedder or the store, and the effect of a failed store call.\<close>

record vec_env =
  ve_cap :: int
  ve_embed :: "nat \<Rightarrow> string list \<Rightarrow> go_error + vec list"
  ve_upsert :: "nat \<Rightarrow> vec_record list \<Rightarrow> go_error option"
  ve_delete :: "nat \<Rightarrow> string list \<Rightarrow> go_error option"
  ve_upsert_damage :: "nat \<Rightarrow> vec_record list \<Rightarrow> vec_world \<Rightarrow> vec_world"
  ve_delete_damage :: "nat \<Rightarrow> string list \<Rightarrow> vec_world \<Rightarrow> vec_world"

text \<open>The state of a flush: calls made, the store, the hash cache, the vectors embedded in this attempt.\<close>

record 'c flush_st =
  fs_n :: nat
  fs_world :: vec_world
  fs_cache :: 'c
  fs_vectors :: "(string, vec) gomap"

definition embedCacheKey :: "pending_vec \<Rightarrow> string" where
  "embedCacheKey it = pv_id it @ [CHR 0x00] @ map (\<lambda>b. char_of (unat b)) (pv_hash it)"

definition store_Delete :: "vec_env \<Rightarrow> string list \<Rightarrow> 'c flush_st \<Rightarrow> go_error option \<times> 'c flush_st" where
  "store_Delete env ids fs =
     (let err = ve_delete env (fs_n fs) ids;
          w = (if err = None then (\<lambda>i. if i \<in> set ids then None else fs_world fs i) else ve_delete_damage env (fs_n fs) ids (fs_world fs))
      in (err, fs\<lparr>fs_n := Suc (fs_n fs), fs_world := w\<rparr>))"

definition store_Upsert :: "vec_env \<Rightarrow> vec_record list \<Rightarrow> 'c flush_st \<Rightarrow> go_error option \<times> 'c flush_st" where
  "store_Upsert env recs fs =
     (let err = ve_upsert env (fs_n fs) recs;
          w = (if err = None then fold (\<lambda>r w. w(vr_id r := Some r)) recs (fs_world fs) else ve_upsert_damage env (fs_n fs) recs (fs_world fs))
      in (err, fs\<lparr>fs_n := Suc (fs_n fs), fs_world := w\<rparr>))"

text \<open>Errors of the cache are logged and dropped.\<close>

definition ackDeletes :: "'c hash_ops \<Rightarrow> pending_vec list \<Rightarrow> 'c flush_st \<Rightarrow> 'c flush_st" where
  "ackDeletes ops items fs = (if items = [] then fs else fs\<lparr>fs_cache := snd (ho_del ops (map pv_id items) (fs_cache fs))\<rparr>)"

definition ackUpserts :: "'c hash_ops \<Rightarrow> pending_vec list \<Rightarrow> 'c flush_st \<Rightarrow> 'c flush_st" where
  "ackUpserts ops items fs =
     (let its = filter (\<lambda>it. pv_hash it \<noteq> []) items
      in if its = [] then fs else fs\<lparr>fs_cache := snd (ho_put ops (map pv_id its) (map pv_hash its) (fs_cache fs))\<rparr>)"

definition wrapEmbedErr :: "go_error \<Rightarrow> pending_vec list \<Rightarrow> go_error" where
  "wrapEmbedErr err items = (if IsPoison (Some err) \<and> length items = 1 then PermanentFlushError (pv_seq (items ! 0)) (Some err) else err)"

definition classifyStoreErr :: "go_error \<Rightarrow> pending_vec list \<Rightarrow> go_error" where
  "classifyStoreErr err items = (if IsPoison (Some err) \<and> length items \<ge> 1 then PermanentFlushError (pv_seq (items ! 0)) (Some err) else err)"

fun isolateDelete :: "'c hash_ops \<Rightarrow> vec_env \<Rightarrow> pending_vec list \<Rightarrow> 'c flush_st \<Rightarrow> go_error option \<times> 'c flush_st" where
  "isolateDelete ops env [] fs = (None, fs)"
| "isolateDelete ops env (it # items) fs =
     (case store_Delete env [pv_id it] fs of
        (Some err, fs1) \<Rightarrow> (Some (if IsPoison (Some err) then PermanentFlushError (pv_seq it) (Some err) else err), fs1)
      | (None, fs1) \<Rightarrow> isolateDelete ops env items (ackDeletes ops [it] fs1))"

definition flushDeleteRun :: "'c hash_ops \<Rightarrow> vec_env \<Rightarrow> pending_vec list \<Rightarrow> 'c flush_st \<Rightarrow> go_error option \<times> 'c flush_st" where
  "flushDeleteRun ops env items fs =
     (case store_Delete env (map pv_id items) fs of
        (Some err, fs1) \<Rightarrow>
          if IsPoison (Some err) \<and> length items > 1 then isolateDelete ops env items fs1
          else (Some (classifyStoreErr err items), fs1)
      | (None, fs1) \<Rightarrow> (None, ackDeletes ops items fs1))"

definition ensureEmbedded :: "vec_env \<Rightarrow> pending_vec list \<Rightarrow> 'c flush_st \<Rightarrow> go_error option \<times> 'c flush_st" where
  "ensureEmbedded env items fs =
     (let need = filter (\<lambda>it. gm_get (fs_vectors fs) (embedCacheKey it) = None) items; texts = map pv_text need
      in if texts = [] then (None, fs)
         else let fs1 = fs\<lparr>fs_n := Suc (fs_n fs)\<rparr>
              in case ve_embed env (fs_n fs) texts of
                   Inl err \<Rightarrow> (Some err, fs1)
                 | Inr vecs \<Rightarrow>
                     if length vecs \<noteq> length texts then (Some (ErrOther ''vector: embedder returned a wrong number of vectors (VEC-02)''), fs1)
                     else (None, fs1\<lparr>fs_vectors := fold (\<lambda>(it, v) m. gm_set (embedCacheKey it) v m) (zip need vecs) (fs_vectors fs)\<rparr>))"

definition record_of :: "'c flush_st \<Rightarrow> pending_vec \<Rightarrow> vec_record" where
  "record_of fs it = \<lparr>vr_id = pv_id it, vr_vector = gm_get0 [] (fs_vectors fs) (embedCacheKey it), vr_metadata = pv_metadata it, vr_text = pv_text it\<rparr>"

fun isolateUpsert :: "'c hash_ops \<Rightarrow> vec_env \<Rightarrow> pending_vec list \<Rightarrow> 'c flush_st \<Rightarrow> go_error option \<times> 'c flush_st" where
  "isolateUpsert ops env [] fs = (None, fs)"
| "isolateUpsert ops env (it # items) fs =
     (case ensureEmbedded env [it] fs of
        (Some err, fs1) \<Rightarrow> (Some (if IsPoison (Some err) then PermanentFlushError (pv_seq it) (Some err) else err), fs1)
      | (None, fs1) \<Rightarrow>
          (case store_Upsert env [record_of fs1 it] fs1 of
             (Some err, fs2) \<Rightarrow> (Some (if IsPoison (Some err) then PermanentFlushError (pv_seq it) (Some err) else err), fs2)
           | (None, fs2) \<Rightarrow> isolateUpsert ops env items (ackUpserts ops [it] fs2)))"

definition flushUpsertChunk :: "'c hash_ops \<Rightarrow> vec_env \<Rightarrow> pending_vec list \<Rightarrow> 'c flush_st \<Rightarrow> go_error option \<times> 'c flush_st" where
  "flushUpsertChunk ops env items fs =
     (case ensureEmbedded env items fs of
        (Some err, fs1) \<Rightarrow>
          if IsPoison (Some err) \<and> length items > 1 then isolateUpsert ops env items fs1
          else (Some (wrapEmbedErr err items), fs1)
      | (None, fs1) \<Rightarrow>
          (case store_Upsert env (map (record_of fs1) items) fs1 of
             (Some err, fs2) \<Rightarrow>
               if IsPoison (Some err) \<and> length items > 1 then isolateUpsert ops env items fs2
               else (Some (classifyStoreErr err items), fs2)
           | (None, fs2) \<Rightarrow> (None, ackUpserts ops items fs2)))"

definition chunk_size :: "int \<Rightarrow> int \<Rightarrow> nat" where
  "chunk_size batchMax cap = (let s = (if cap > 0 \<and> cap < batchMax then cap else batchMax) in if s < 1 then 1 else nat s)"

function flush_chunks :: "'c hash_ops \<Rightarrow> vec_env \<Rightarrow> nat \<Rightarrow> pending_vec list \<Rightarrow> 'c flush_st \<Rightarrow> go_error option \<times> 'c flush_st" where
  "flush_chunks ops env k items fs =
     (if items = [] then (None, fs)
      else case flushUpsertChunk ops env (take (Suc k) items) fs of
             (Some err, fs1) \<Rightarrow> (Some err, fs1)
           | (None, fs1) \<Rightarrow> flush_chunks ops env k (drop (Suc k) items) fs1)"
  by pat_completeness auto
termination by (relation "measure (\<lambda>(ops, env, k, items, fs). length items)") (auto simp: neq_Nil_conv)

declare flush_chunks.simps [simp del]

definition flushUpsertRun :: "'c hash_ops \<Rightarrow> vec_env \<Rightarrow> int \<Rightarrow> pending_vec list \<Rightarrow> 'c flush_st \<Rightarrow> go_error option \<times> 'c flush_st" where
  "flushUpsertRun ops env batchMax items fs = flush_chunks ops env (chunk_size batchMax (ve_cap env) - 1) items fs"

fun flush_runs :: "'c hash_ops \<Rightarrow> vec_env \<Rightarrow> int \<Rightarrow> vec_run list \<Rightarrow> 'c flush_st \<Rightarrow> go_error option \<times> 'c flush_st" where
  "flush_runs ops env batchMax [] fs = (None, fs)"
| "flush_runs ops env batchMax ((del, items) # rs) fs =
     (case (if del then flushDeleteRun ops env items fs else flushUpsertRun ops env batchMax items fs) of
        (Some err, fs1) \<Rightarrow> (Some err, fs1)
      | (None, fs1) \<Rightarrow> flush_runs ops env batchMax rs fs1)"

definition vec_FlushBatch ::
  "'c hash_ops \<Rightarrow> vec_env \<Rightarrow> u32 \<Rightarrow> vec_world \<Rightarrow> 'c vector_sink \<Rightarrow> go_error option \<times> vec_world \<times> 'c vector_sink" where
  "vec_FlushBatch ops env p w vs =
     (let batch = gm_get0 [] (vs_pending vs) p
      in if batch = [] then (None, w, vs)
         else let (err, fs) = flush_runs ops env (vs_batchMax vs) (splitRuns batch)
                                \<lparr>fs_n = 0, fs_world = w, fs_cache = vs_cache vs, fs_vectors = []\<rparr>
              in (err, fs_world fs, vs\<lparr>vs_pending := gm_del p (vs_pending vs), vs_pendingIDs := gm_del p (vs_pendingIDs vs),
                                      vs_cache := fs_cache fs\<rparr>))"

end
