(* ===== verification/Vector_Props.thy ===== *)
theory Vector_Props
  imports Vector_Sink
begin

text \<open>
  Convergence of the vector store: whatever attempts failed before, and however much of a failed call
  the store had already done, once a flush returns nil every row of the batch is in the store as its
  last event left it. The proof is for any text-hash cache with the contract of \<open>text_hash_cache\<close>.
\<close>

section \<open>What an item asks of the store\<close>

definition ok_item :: "pending_vec \<Rightarrow> vec_record option \<Rightarrow> bool" where
  "ok_item x r \<longleftrightarrow> (if pv_delete x then r = None else \<exists>rec. r = Some rec \<and> vr_text rec = pv_text x)"

definition item_hash :: "pending_vec \<Rightarrow> bytes option" where
  "item_hash x = (if pv_delete x then None else Some (pv_hash x))"

definition item_wf :: "pending_vec \<Rightarrow> bool" where
  "item_wf x \<longleftrightarrow> pv_delete x \<or> pv_hash x = HashText (pv_text x)"

definition differs :: "(string \<Rightarrow> bytes option) \<Rightarrow> pending_vec \<Rightarrow> bool" where
  "differs v x \<longleftrightarrow> pv_delete x \<or> v (pv_id x) \<noteq> Some (pv_hash x)"

text \<open>A remembered hash is the hash of the text in the store.\<close>

definition coherent :: "vec_world \<Rightarrow> (string \<Rightarrow> bytes option) \<Rightarrow> string \<Rightarrow> bool" where
  "coherent w v i \<longleftrightarrow> (\<forall>h. v i = Some h \<longrightarrow> (\<exists>rec. w i = Some rec \<and> HashText (vr_text rec) = h))"

lemma ok_item_coherent: "item_wf x \<Longrightarrow> ok_item x (w (pv_id x)) \<Longrightarrow> \<not> differs v x \<Longrightarrow> coherent w v (pv_id x)"
  by (auto simp: ok_item_def item_wf_def differs_def coherent_def split: if_splits)

text \<open>
  Between attempts a row may be out of step with its hash (a call failed after the store had done part
  of it), but then an item of the batch differs from the hash, so it will be sent again.
\<close>

definition repairable :: "pending_vec set \<Rightarrow> vec_world \<Rightarrow> (string \<Rightarrow> bytes option) \<Rightarrow> bool" where
  "repairable X w v \<longleftrightarrow> (\<forall>i. coherent w v i \<or> (\<exists>x \<in> X. pv_id x = i \<and> differs v x))"

lemma repairable_mono: "repairable X w v \<Longrightarrow> X \<subseteq> Y \<Longrightarrow> repairable Y w v"
  unfolding repairable_def by blast

section \<open>Which items are buffered\<close>

fun buffered :: "(string \<Rightarrow> bytes option) \<Rightarrow> string set \<Rightarrow> pending_vec list \<Rightarrow> pending_vec list" where
  "buffered v S [] = []"
| "buffered v S (x # xs) =
     (if differs v x \<or> pv_id x \<in> S then x # buffered v (insert (pv_id x) S) xs else buffered v S xs)"

definition of_id :: "string \<Rightarrow> pending_vec list \<Rightarrow> pending_vec list" where
  "of_id i xs = filter (\<lambda>x. pv_id x = i) xs"

lemma of_id_simps [simp]:
  "of_id i [] = []" "of_id i (x # xs) = (if pv_id x = i then x # of_id i xs else of_id i xs)"
  "of_id i (xs @ ys) = of_id i xs @ of_id i ys"
  by (simp_all add: of_id_def)

lemma of_id_set: "set (of_id i xs) = {x \<in> set xs. pv_id x = i}"
  by (simp add: of_id_def)

lemma of_id_empty: "of_id i xs = [] \<longleftrightarrow> (\<forall>x \<in> set xs. pv_id x \<noteq> i)"
  by (auto simp: of_id_def filter_empty_conv)

text \<open>From the first item that differs on, everything of an id is buffered.\<close>

lemma buffered_of_id:
  "of_id i (buffered v S xs) = (if i \<in> S then of_id i xs else dropWhile (\<lambda>x. \<not> differs v x) (of_id i xs))"
  by (induction xs arbitrary: S) auto

lemma buffered_subset: "set (buffered v S xs) \<subseteq> set xs"
  by (induction xs arbitrary: S) auto

lemma buffered_last:
  assumes "of_id i (buffered v {} xs) \<noteq> []"
  shows "last (of_id i (buffered v {} xs)) = last (of_id i xs)"
  using assms buffered_of_id [of i v "{}" xs] takeWhile_dropWhile_id [of "\<lambda>x. \<not> differs v x" "of_id i xs"]
  by (metis empty_iff last_appendR)

lemma buffered_none:
  assumes "of_id i (buffered v {} xs) = []" "x \<in> set xs" "pv_id x = i"
  shows "\<not> differs v x"
  using assms buffered_of_id [of i v "{}" xs] by (auto simp: dropWhile_eq_Nil_conv of_id_set)

section \<open>The progress of a flush\<close>

text \<open>
  \<open>progress w0 v0 pre post w v\<close>: of a batch \<open>pre @ post\<close> that started with the store \<open>w0\<close> and the hashes
  \<open>v0\<close>, the items of \<open>pre\<close> are done and remembered (or forgotten), those of \<open>post\<close> perhaps in part.
\<close>

definition done_as :: "('a \<Rightarrow> 'b \<Rightarrow> bool) \<Rightarrow> 'b \<Rightarrow> 'a list \<Rightarrow> 'b \<Rightarrow> bool" where
  "done_as P r0 xs r \<longleftrightarrow> (if xs = [] then r = r0 else P (last xs) r)"

definition progress ::
  "vec_world \<Rightarrow> (string \<Rightarrow> bytes option) \<Rightarrow> pending_vec list \<Rightarrow> pending_vec list \<Rightarrow> vec_world \<Rightarrow> (string \<Rightarrow> bytes option) \<Rightarrow> bool" where
  "progress w0 v0 pre post w v \<longleftrightarrow>
     (\<forall>i. (done_as (\<lambda>x h. h = item_hash x) (v0 i) (of_id i pre) (v i) \<or> v i = None) \<and>
          (done_as ok_item (w0 i) (of_id i pre) (w i) \<or> (\<exists>x \<in> set post. pv_id x = i \<and> ok_item x (w i))))"

lemma progress_start: "progress w0 v0 [] post w0 v0"
  by (simp add: progress_def done_as_def)

lemma progress_forget: "progress w0 v0 pre post w v \<Longrightarrow> (\<And>i. v' i = v i \<or> v' i = None) \<Longrightarrow> progress w0 v0 pre post w v'"
  unfolding progress_def by metis

lemma progress_step:
  assumes "progress w0 v0 pre (x # post) w v" "ok_item x r"
  shows "progress w0 v0 (pre @ [x]) post (w(pv_id x := r)) (v(pv_id x := item_hash x))"
  unfolding progress_def
proof
  fix i
  show "(done_as (\<lambda>x h. h = item_hash x) (v0 i) (of_id i (pre @ [x])) ((v(pv_id x := item_hash x)) i) \<or> (v(pv_id x := item_hash x)) i = None) \<and>
        (done_as ok_item (w0 i) (of_id i (pre @ [x])) ((w(pv_id x := r)) i) \<or> (\<exists>y \<in> set post. pv_id y = i \<and> ok_item y ((w(pv_id x := r)) i)))"
  proof (cases "pv_id x = i")
    case True
    with assms(2) show ?thesis by (simp add: done_as_def)
  next
    case False
    with assms(1) show ?thesis by (auto simp: progress_def)
  qed
qed

lemma progress_steps:
  assumes "progress w0 v0 pre (xs @ post) w v" "\<And>x. x \<in> set xs \<Longrightarrow> ok_item x (r x)"
  shows "progress w0 v0 (pre @ xs) post (fold (\<lambda>x w. w(pv_id x := r x)) xs w) (fold (\<lambda>x v. v(pv_id x := item_hash x)) xs v)"
  using assms
proof (induction xs arbitrary: pre w v)
  case (Cons x xs)
  from progress_step [of w0 v0 pre x "xs @ post" w v "r x"] Cons.prems
  have "progress w0 v0 (pre @ [x]) (xs @ post) (w(pv_id x := r x)) (v(pv_id x := item_hash x))" by simp
  from Cons.IH [OF this] Cons.prems(2) show ?case by simp
qed simp

lemma progress_damage:
  assumes "progress w0 v0 pre (xs @ post) w v"
    and "\<And>i. w' i = w i \<or> (\<exists>x \<in> set xs. pv_id x = i \<and> ok_item x (w' i))"
  shows "progress w0 v0 pre (xs @ post) w' v"
  unfolding progress_def
proof
  fix i
  from assms(1) show "(done_as (\<lambda>x h. h = item_hash x) (v0 i) (of_id i pre) (v i) \<or> v i = None) \<and>
      (done_as ok_item (w0 i) (of_id i pre) (w' i) \<or> (\<exists>x \<in> set (xs @ post). pv_id x = i \<and> ok_item x (w' i)))"
    using assms(2) [of i] unfolding progress_def by (metis Un_iff set_append)
qed

text \<open>A flush that failed on the way leaves the rows repairable, a finished one leaves them done.\<close>

lemma progress_repairable:
  assumes "progress w0 v0 pre post w v" "repairable X w0 v0" "set (pre @ post) \<subseteq> X" "\<forall>x \<in> X. item_wf x"
  shows "repairable X w v"
  unfolding repairable_def
proof
  fix i
  have wf: "item_wf x" if "x \<in> set (pre @ post)" for x using that assms(3,4) by blast
  consider "v i = None" | x where "x \<in> set post" "pv_id x = i" "ok_item x (w i)"
    | "done_as (\<lambda>x h. h = item_hash x) (v0 i) (of_id i pre) (v i)" "done_as ok_item (w0 i) (of_id i pre) (w i)"
    using assms(1) unfolding progress_def by metis
  then show "coherent w v i \<or> (\<exists>x \<in> X. pv_id x = i \<and> differs v x)"
  proof cases
    case 1
    then show ?thesis by (simp add: coherent_def)
  next
    case (2 x)
    with wf [of x] assms(3) ok_item_coherent [of x w v] show ?thesis by auto
  next
    case 3
    show ?thesis
    proof (cases "of_id i pre = []")
      case True
      with 3 have "w i = w0 i" "v i = v0 i" by (simp_all add: done_as_def)
      with assms(2) show ?thesis by (auto simp: repairable_def coherent_def differs_def)
    next
      case False
      then have "last (of_id i pre) \<in> set pre" "pv_id (last (of_id i pre)) = i"
        using last_in_set [OF False] by (simp_all add: of_id_set)
      with 3 False wf [of "last (of_id i pre)"] show ?thesis
        by (auto simp: done_as_def coherent_def ok_item_def item_hash_def item_wf_def split: if_splits)
    qed
  qed
qed

lemma progress_done:
  assumes "progress w0 v0 b [] w v" "repairable (set xs) w0 v0" "b = buffered v0 {} xs" "\<forall>x \<in> set xs. item_wf x"
  shows "\<forall>i. coherent w v i" and "\<And>i. of_id i xs \<noteq> [] \<Longrightarrow>
      (if pv_delete (last (of_id i xs)) then w i = None
       else \<exists>rec. w i = Some rec \<and> HashText (vr_text rec) = HashText (pv_text (last (of_id i xs))))"
proof -
  have wf: "item_wf (last (of_id i xs))" if "of_id i xs \<noteq> []" for i
    using last_in_set [OF that] assms(4) by (simp add: of_id_set)
  have hit: "ok_item (last (of_id i xs)) (w i)" "v i = item_hash (last (of_id i xs)) \<or> v i = None" "of_id i xs \<noteq> []"
    if "of_id i b \<noteq> []" for i
  proof -
    from that have l: "last (of_id i b) = last (of_id i xs)" unfolding assms(3) by (rule buffered_last)
    with that assms(1) show "ok_item (last (of_id i xs)) (w i)" "v i = item_hash (last (of_id i xs)) \<or> v i = None"
      unfolding progress_def done_as_def by (metis empty_iff list.set(1))+
    from that buffered_subset [of v0 "{}" xs] show "of_id i xs \<noteq> []" unfolding assms(3) of_id_empty by blast
  qed
  have miss: "w i = w0 i" "v i = v0 i \<or> v i = None" "coherent w0 v0 i" if "of_id i b = []" for i
  proof -
    from that assms(1) show "w i = w0 i" "v i = v0 i \<or> v i = None"
      unfolding progress_def done_as_def by (metis empty_iff list.set(1))+
    from that assms(2,3) show "coherent w0 v0 i" unfolding repairable_def using buffered_none [of i v0 xs] by blast
  qed
  show "\<forall>i. coherent w v i"
  proof
    fix i
    show "coherent w v i"
    proof (cases "of_id i b = []")
      case True
      with miss [OF this] show ?thesis by (auto simp: coherent_def)
    next
      case False
      from hit [OF this] wf [of i] show ?thesis
        by (auto simp: coherent_def ok_item_def item_hash_def item_wf_def split: if_splits)
    qed
  qed
  fix i
  assume i: "of_id i xs \<noteq> []"
  let ?x = "last (of_id i xs)"
  have x: "?x \<in> set xs" "pv_id ?x = i" using last_in_set [OF i] by (simp_all add: of_id_set)
  show "if pv_delete ?x then w i = None else \<exists>rec. w i = Some rec \<and> HashText (vr_text rec) = HashText (pv_text ?x)"
  proof (cases "of_id i b = []")
    case True
    with buffered_none [of i v0 xs ?x] x assms(3) have "\<not> differs v0 ?x" by simp
    with miss [OF True] x(2) wf [OF i] show ?thesis by (auto simp: differs_def coherent_def item_wf_def)
  next
    case False
    from hit(1) [OF this] show ?thesis by (auto simp: ok_item_def split: if_splits)
  qed
qed

section \<open>The store\<close>

text \<open>
  What the store promises of a call that fails: every row is as before or as one item of the call asks.
\<close>

definition contained :: "vec_env \<Rightarrow> bool" where
  "contained env \<longleftrightarrow>
     (\<forall>n recs w i. ve_upsert_damage env n recs w i = w i \<or> (\<exists>r \<in> set recs. vr_id r = i \<and> ve_upsert_damage env n recs w i = Some r)) \<and>
     (\<forall>n ids w i. ve_delete_damage env n ids w i = w i \<or> (i \<in> set ids \<and> ve_delete_damage env n ids w i = None))"

lemma fold_delete: "(\<lambda>i. if i \<in> set ids then None else w i) = fold (\<lambda>i w. w(i := None)) ids w"
proof (induction ids arbitrary: w)
  case (Cons a ids)
  show ?case unfolding fold_Cons comp_def Cons.IH [symmetric] by (rule ext) auto
qed simp

lemma item_wf_hash: "item_wf x \<Longrightarrow> \<not> pv_delete x \<Longrightarrow> pv_hash x \<noteq> []"
  using length_sha256 [of "str_bytes (pv_text x)"] by (auto simp: item_wf_def HashText_def simp del: length_sha256)

lemma put_items:
  "\<forall>x \<in> set xs. \<not> pv_delete x \<Longrightarrow> put_all (zip (map pv_id xs) (map pv_hash xs)) v = fold (\<lambda>x v. v(pv_id x := item_hash x)) xs v"
  by (induction xs arbitrary: v) (auto simp: put_all_def item_hash_def)

lemma del_items: "\<forall>x \<in> set xs. pv_delete x \<Longrightarrow> del_all (map pv_id xs) v = fold (\<lambda>x v. v(pv_id x := item_hash x)) xs v"
  by (induction xs arbitrary: v) (auto simp: del_all_def item_hash_def)

lemma ok_record: "\<not> pv_delete x \<Longrightarrow> ok_item x (Some (record_of fs x))"
  by (simp add: ok_item_def record_of_def)

lemma upsert_world:
  "fold (\<lambda>r w. w(vr_id r := Some r)) (map (record_of fs) xs) w = fold (\<lambda>x w. w(pv_id x := Some (record_of fs x))) xs w"
  by (induction xs arbitrary: w) (auto simp: record_of_def)

lemma store_upsert_world: "fs_world (snd (store_Upsert env recs fs)) =
    (if ve_upsert env (fs_n fs) recs = None then fold (\<lambda>r w. w(vr_id r := Some r)) recs (fs_world fs)
     else ve_upsert_damage env (fs_n fs) recs (fs_world fs))"
  by (simp add: store_Upsert_def Let_def)

lemma ensureEmbedded_keeps: "ensureEmbedded env items fs = (r, fs1) \<Longrightarrow> fs_world fs1 = fs_world fs \<and> fs_cache fs1 = fs_cache fs"
  by (auto simp: ensureEmbedded_def Let_def split: if_splits sum.splits)

lemma splitRuns_ok: "concat (map snd (splitRuns b)) = b \<and> (\<forall>(d, xs) \<in> set (splitRuns b). \<forall>x \<in> set xs. pv_delete x = d)"
proof (induction b rule: rev_induct)
  case (snoc x b)
  show ?case
  proof (cases "splitRuns b" rule: rev_cases)
    case Nil
    with snoc show ?thesis by (simp add: splitRuns_def add_run_def)
  next
    case (snoc rs r)
    with snoc.IH show ?thesis by (cases r) (auto simp: splitRuns_def add_run_def)
  qed
qed (simp add: splitRuns_def)

section \<open>The flush over any cache\<close>

context text_hash_cache
begin

definition reached :: "vec_world \<Rightarrow> (string \<Rightarrow> bytes option) \<Rightarrow> pending_vec list \<Rightarrow> pending_vec list \<Rightarrow> 'c flush_st \<Rightarrow> bool" where
  "reached w0 v0 pre post fs \<longleftrightarrow> inv (fs_cache fs) \<and> progress w0 v0 pre post (fs_world fs) (view (fs_cache fs))"

definition result ::
  "vec_world \<Rightarrow> (string \<Rightarrow> bytes option) \<Rightarrow> pending_vec list \<Rightarrow> pending_vec list \<Rightarrow> pending_vec list \<Rightarrow> go_error option \<times> 'c flush_st \<Rightarrow> bool" where
  "result w0 v0 pre xs post r \<longleftrightarrow>
     (if fst r = None then reached w0 v0 (pre @ xs) post (snd r)
      else \<exists>pre' post'. pre' @ post' = pre @ xs @ post \<and> reached w0 v0 pre' post' (snd r))"

lemma reached_forget:
  assumes "progress w0 v0 pre post (fs_world fs) (f (view (fs_cache fs)))" "inv c" "\<And>i. view c i = f (view (fs_cache fs)) i \<or> view c i = None"
  shows "reached w0 v0 pre post (fs\<lparr>fs_cache := c\<rparr>)"
  using progress_forget [OF assms(1,3)] assms(2) by (simp add: reached_def)

lemma delete_done:
  assumes "reached w0 v0 pre (xs @ post) fs" "store_Delete env (map pv_id xs) fs = (None, fs1)" "\<forall>x \<in> set xs. pv_delete x"
  shows "reached w0 v0 (pre @ xs) post (ackDeletes ops xs fs1)"
proof -
  have fs1: "fs_world fs1 = fold (\<lambda>x w. w(pv_id x := None)) xs (fs_world fs)" "fs_cache fs1 = fs_cache fs"
    using assms(2) fold_delete [of "map pv_id xs" "fs_world fs"]
    by (auto simp: store_Delete_def Let_def fold_map comp_def split: if_splits)
  have p: "progress w0 v0 (pre @ xs) post (fs_world fs1) (del_all (map pv_id xs) (view (fs_cache fs1)))"
    unfolding del_items [OF assms(3)] fs1 using assms(1,3) progress_steps [of w0 v0 pre xs post _ _ "\<lambda>_. None"]
    by (simp add: reached_def ok_item_def)
  obtain e c where d: "ho_del ops (map pv_id xs) (fs_cache fs1) = (e, c)" by (cases "ho_del ops (map pv_id xs) (fs_cache fs1)")
  from del_ok [OF _ d] assms(1) fs1(2) have "inv c" "\<forall>i. view c i = del_all (map pv_id xs) (view (fs_cache fs1)) i \<or> view c i = None"
    by (simp_all add: reached_def)
  with p reached_forget [of w0 v0 "pre @ xs" post fs1 "del_all (map pv_id xs)" c] assms(1) fs1 d show ?thesis
    by (cases "xs = []") (auto simp: ackDeletes_def reached_def del_all_def)
qed

lemma upsert_done:
  assumes "reached w0 v0 pre (xs @ post) fs" "store_Upsert env (map (record_of fs') xs) fs = (None, fs1)"
    and "\<forall>x \<in> set xs. \<not> pv_delete x" "\<forall>x \<in> set xs. item_wf x"
  shows "reached w0 v0 (pre @ xs) post (ackUpserts ops xs fs1)"
proof -
  have fs1: "fs_world fs1 = fold (\<lambda>x w. w(pv_id x := Some (record_of fs' x))) xs (fs_world fs)" "fs_cache fs1 = fs_cache fs"
    using assms(2) upsert_world [of fs' xs "fs_world fs"] by (auto simp: store_Upsert_def Let_def split: if_splits)
  have p: "progress w0 v0 (pre @ xs) post (fs_world fs1) (put_all (zip (map pv_id xs) (map pv_hash xs)) (view (fs_cache fs1)))"
    unfolding put_items [OF assms(3)] fs1 using assms(1,3) progress_steps [of w0 v0 pre xs post _ _ "\<lambda>x. Some (record_of fs' x)"]
    by (simp add: reached_def ok_record)
  have f: "filter (\<lambda>it. pv_hash it \<noteq> []) xs = xs" using assms(3,4) item_wf_hash by (auto intro: filter_True)
  obtain e c where d: "ho_put ops (map pv_id xs) (map pv_hash xs) (fs_cache fs1) = (e, c)"
    by (cases "ho_put ops (map pv_id xs) (map pv_hash xs) (fs_cache fs1)")
  from put_ok [OF _ _ d] assms(1) fs1(2) have
    "inv c" "\<forall>i. view c i = put_all (zip (map pv_id xs) (map pv_hash xs)) (view (fs_cache fs1)) i \<or> view c i = None"
    by (simp_all add: reached_def)
  with p reached_forget [of w0 v0 "pre @ xs" post fs1 "put_all (zip (map pv_id xs) (map pv_hash xs))" c] assms(1) fs1 d f show ?thesis
    by (cases "xs = []") (auto simp: ackUpserts_def reached_def put_all_def)
qed

lemma delete_failed:
  assumes "reached w0 v0 pre (xs @ post) fs" "store_Delete env (map pv_id xs) fs = (Some err, fs1)" "\<forall>x \<in> set xs. pv_delete x" "contained env"
  shows "reached w0 v0 pre (xs @ post) fs1"
proof -
  have fs1: "fs_world fs1 = ve_delete_damage env (fs_n fs) (map pv_id xs) (fs_world fs)" "fs_cache fs1 = fs_cache fs"
    using assms(2) by (auto simp: store_Delete_def Let_def split: if_splits)
  have "fs_world fs1 i = fs_world fs i \<or> (\<exists>x \<in> set xs. pv_id x = i \<and> ok_item x (fs_world fs1 i))" for i
  proof -
    have "fs_world fs1 i = fs_world fs i \<or> (i \<in> set (map pv_id xs) \<and> fs_world fs1 i = None)"
      using assms(4) unfolding contained_def fs1 by blast
    with assms(3) show ?thesis by (auto simp: ok_item_def)
  qed
  with assms(1) progress_damage [of w0 v0 pre xs post "fs_world fs" _ "fs_world fs1"] show ?thesis
    by (auto simp: reached_def fs1(2))
qed

lemma upsert_failed:
  assumes "reached w0 v0 pre (xs @ post) fs" "store_Upsert env (map (record_of fs') xs) fs = (Some err, fs1)"
    and "\<forall>x \<in> set xs. \<not> pv_delete x" "contained env"
  shows "reached w0 v0 pre (xs @ post) fs1"
proof -
  have fs1: "fs_world fs1 = ve_upsert_damage env (fs_n fs) (map (record_of fs') xs) (fs_world fs)" "fs_cache fs1 = fs_cache fs"
    using assms(2) by (auto simp: store_Upsert_def Let_def split: if_splits)
  have "fs_world fs1 i = fs_world fs i \<or> (\<exists>x \<in> set xs. pv_id x = i \<and> ok_item x (fs_world fs1 i))" for i
  proof -
    have "fs_world fs1 i = fs_world fs i \<or> (\<exists>r \<in> set (map (record_of fs') xs). vr_id r = i \<and> fs_world fs1 i = Some r)"
      using assms(4) unfolding contained_def fs1 by blast
    then consider "fs_world fs1 i = fs_world fs i" | x where "x \<in> set xs" "vr_id (record_of fs' x) = i" "fs_world fs1 i = Some (record_of fs' x)"
      by auto
    then show ?thesis
    proof cases
      case (2 x)
      with assms(3) ok_record [of x fs'] show ?thesis by (auto simp: record_of_def)
    qed simp
  qed
  with assms(1) progress_damage [of w0 v0 pre xs post "fs_world fs" _ "fs_world fs1"] show ?thesis
    by (auto simp: reached_def fs1(2))
qed

lemma result_err: "reached w0 v0 pre (xs @ post) fs \<Longrightarrow> result w0 v0 pre xs post (Some err, fs)"
  by (auto simp: result_def)

lemma result_none: "result w0 v0 pre xs post (None, fs) = reached w0 v0 (pre @ xs) post fs"
  by (simp add: result_def)

lemma result_cons: "result w0 v0 (pre @ [x]) xs post r \<Longrightarrow> result w0 v0 pre (x # xs) post r"
  by (cases "fst r") (simp_all add: result_def)

lemma isolateDelete_result:
  "reached w0 v0 pre (xs @ post) fs \<Longrightarrow> \<forall>x \<in> set xs. pv_delete x \<Longrightarrow> contained env \<Longrightarrow>
     result w0 v0 pre xs post (isolateDelete ops env xs fs)"
proof (induction xs arbitrary: pre fs)
  case (Cons x xs)
  obtain r fs1 where s: "store_Delete env (map pv_id [x]) fs = (r, fs1)" by (cases "store_Delete env (map pv_id [x]) fs")
  show ?case
  proof (cases r)
    case None
    from delete_done [of w0 v0 pre "[x]" "xs @ post" fs env fs1] Cons.prems s None
    have "reached w0 v0 (pre @ [x]) (xs @ post) (ackDeletes ops [x] fs1)" by simp
    from result_cons [OF Cons.IH [OF this]] Cons.prems s None show ?thesis by simp
  next
    case (Some err)
    from delete_failed [of w0 v0 pre "[x]" "xs @ post" fs env err fs1] Cons.prems s Some
    have "reached w0 v0 pre (x # xs @ post) fs1" by simp
    with s Some show ?thesis by (simp add: result_err)
  qed
qed (simp add: result_none)

lemma flushDeleteRun_result:
  assumes "reached w0 v0 pre (xs @ post) fs" "\<forall>x \<in> set xs. pv_delete x" "contained env"
  shows "result w0 v0 pre xs post (flushDeleteRun ops env xs fs)"
proof -
  obtain r fs1 where s: "store_Delete env (map pv_id xs) fs = (r, fs1)" by (cases "store_Delete env (map pv_id xs) fs")
  show ?thesis
  proof (cases r)
    case None
    with s delete_done [OF assms(1) _ assms(2)] show ?thesis by (simp add: flushDeleteRun_def result_none)
  next
    case (Some err)
    with s delete_failed [OF assms(1) _ assms(2,3)] have "reached w0 v0 pre (xs @ post) fs1" by simp
    with s Some isolateDelete_result assms(2,3) show ?thesis by (simp add: flushDeleteRun_def result_err)
  qed
qed

lemma embedded_reached: "ensureEmbedded env items fs = (r, fs1) \<Longrightarrow> reached w0 v0 pre post fs \<Longrightarrow> reached w0 v0 pre post fs1"
  using ensureEmbedded_keeps [of env items fs r fs1] by (simp add: reached_def)

lemma isolateUpsert_result:
  "reached w0 v0 pre (xs @ post) fs \<Longrightarrow> \<forall>x \<in> set xs. \<not> pv_delete x \<Longrightarrow> \<forall>x \<in> set xs. item_wf x \<Longrightarrow> contained env \<Longrightarrow>
     result w0 v0 pre xs post (isolateUpsert ops env xs fs)"
proof (induction xs arbitrary: pre fs)
  case (Cons x xs)
  obtain q fs1 where e: "ensureEmbedded env [x] fs = (q, fs1)" by (cases "ensureEmbedded env [x] fs")
  have r1: "reached w0 v0 pre (x # xs @ post) fs1" using embedded_reached [OF e] Cons.prems(1) by simp
  obtain r fs2 where s: "store_Upsert env (map (record_of fs1) [x]) fs1 = (r, fs2)"
    by (cases "store_Upsert env (map (record_of fs1) [x]) fs1")
  consider err where "q = Some err" | err where "q = None" "r = Some err" | "q = None" "r = None" by (cases q; cases r) auto
  then show ?case
  proof cases
    case (1 err)
    with e r1 show ?thesis by (simp add: result_err)
  next
    case (2 err)
    with upsert_failed [of w0 v0 pre "[x]" "xs @ post" fs1 env fs1 err fs2] Cons.prems r1 s
    have "reached w0 v0 pre (x # xs @ post) fs2" by simp
    with e s 2 show ?thesis by (simp add: result_err)
  next
    case 3
    with upsert_done [of w0 v0 pre "[x]" "xs @ post" fs1 env fs1 fs2] Cons.prems r1 s
    have "reached w0 v0 (pre @ [x]) (xs @ post) (ackUpserts ops [x] fs2)" by simp
    from result_cons [OF Cons.IH [OF this]] Cons.prems e s 3 show ?thesis by simp
  qed
qed (simp add: result_none)

lemma flushUpsertChunk_result:
  assumes "reached w0 v0 pre (xs @ post) fs" "\<forall>x \<in> set xs. \<not> pv_delete x" "\<forall>x \<in> set xs. item_wf x" "contained env"
  shows "result w0 v0 pre xs post (flushUpsertChunk ops env xs fs)"
proof -
  obtain q fs1 where e: "ensureEmbedded env xs fs = (q, fs1)" by (cases "ensureEmbedded env xs fs")
  have r1: "reached w0 v0 pre (xs @ post) fs1" using embedded_reached [OF e] assms(1) by simp
  obtain r fs2 where s: "store_Upsert env (map (record_of fs1) xs) fs1 = (r, fs2)"
    by (cases "store_Upsert env (map (record_of fs1) xs) fs1")
  consider err where "q = Some err" | err where "q = None" "r = Some err" | "q = None" "r = None" by (cases q; cases r) auto
  then show ?thesis
  proof cases
    case (1 err)
    with e r1 isolateUpsert_result [OF r1 assms(2,3,4)] show ?thesis by (simp add: flushUpsertChunk_def result_err)
  next
    case (2 err)
    with upsert_failed [OF r1 _ assms(2,4)] s have "reached w0 v0 pre (xs @ post) fs2" by simp
    with e s 2 isolateUpsert_result [OF this assms(2,3,4)] show ?thesis by (simp add: flushUpsertChunk_def result_err)
  next
    case 3
    with upsert_done [OF r1 _ assms(2,3)] e s show ?thesis by (simp add: flushUpsertChunk_def result_none)
  qed
qed

text \<open>Two stages in a row, the second run only when the first returned nil.\<close>

lemma result_append:
  assumes "result w0 v0 pre xs (ys @ post) (r, fs1)"
    and "r = None \<Longrightarrow> reached w0 v0 (pre @ xs) (ys @ post) fs1 \<Longrightarrow> result w0 v0 (pre @ xs) ys post q"
  shows "result w0 v0 pre (xs @ ys) post (case r of None \<Rightarrow> q | Some err \<Rightarrow> (Some err, fs1))"
  using assms by (cases r) (auto simp: result_def)

lemma flush_chunks_result:
  "reached w0 v0 pre (xs @ post) fs \<Longrightarrow> \<forall>x \<in> set xs. \<not> pv_delete x \<Longrightarrow> \<forall>x \<in> set xs. item_wf x \<Longrightarrow> contained env \<Longrightarrow>
     result w0 v0 pre xs post (flush_chunks ops env k xs fs)"
proof (induction "length xs" arbitrary: pre xs fs rule: less_induct)
  case less
  show ?case
  proof (cases "xs = []")
    case True
    with less.prems show ?thesis by (simp add: flush_chunks.simps [of ops env k "[]"] result_none)
  next
    case False
    let ?a = "take (Suc k) xs" and ?b = "drop (Suc k) xs"
    obtain r fs1 where c: "flushUpsertChunk ops env ?a fs = (r, fs1)" by (cases "flushUpsertChunk ops env ?a fs")
    have ab: "\<forall>x \<in> set ?a. \<not> pv_delete x" "\<forall>x \<in> set ?a. item_wf x" "\<forall>x \<in> set ?b. \<not> pv_delete x" "\<forall>x \<in> set ?b. item_wf x"
      using less.prems(2,3) by (auto dest: in_set_takeD in_set_dropD)
    have t: "?a @ ?b @ post = xs @ post" by (metis append_assoc append_take_drop_id)
    have "result w0 v0 pre ?a (?b @ post) (r, fs1)"
      using flushUpsertChunk_result [of w0 v0 pre ?a "?b @ post" fs env] ab less.prems(1,4) t c by simp
    then have "result w0 v0 pre (?a @ ?b) post (case r of None \<Rightarrow> flush_chunks ops env k ?b fs1 | Some err \<Rightarrow> (Some err, fs1))"
      by (rule result_append) (use less.hyps [of ?b] ab less.prems(4) False in \<open>simp add: neq_Nil_conv\<close>)
    with c False show ?thesis by (simp add: flush_chunks.simps [of ops env k xs] split: option.splits)
  qed
qed

lemma flush_runs_result:
  "reached w0 v0 pre (concat (map snd rs) @ post) fs \<Longrightarrow> \<forall>(d, xs) \<in> set rs. \<forall>x \<in> set xs. pv_delete x = d \<Longrightarrow>
     \<forall>x \<in> set (concat (map snd rs)). item_wf x \<Longrightarrow> contained env \<Longrightarrow>
     result w0 v0 pre (concat (map snd rs)) post (flush_runs ops env bm rs fs)"
proof (induction rs arbitrary: pre fs)
  case (Cons run rs)
  obtain d xs where run: "run = (d, xs)" by (cases run)
  let ?f = "if d then flushDeleteRun ops env xs fs else flushUpsertRun ops env bm xs fs" and ?ys = "concat (map snd rs)"
  obtain r fs1 where f: "?f = (r, fs1)" by (cases ?f)
  have "result w0 v0 pre xs (?ys @ post) ?f"
    using Cons.prems run flushDeleteRun_result [of w0 v0 pre xs "?ys @ post" fs env]
      flush_chunks_result [of w0 v0 pre xs "?ys @ post" fs env] by (auto simp: flushUpsertRun_def)
  then have "result w0 v0 pre (xs @ ?ys) post (case r of None \<Rightarrow> flush_runs ops env bm rs fs1 | Some err \<Rightarrow> (Some err, fs1))"
    unfolding f by (rule result_append) (use Cons.IH Cons.prems run in auto)
  with run f show ?case by (simp split: option.splits)
qed (simp add: result_none)

end

section \<open>Attempts\<close>

text \<open>The entries of a batch that come to the cache, as items.\<close>

definition item_of :: "vec_codec \<Rightarrow> extractor \<Rightarrow> string list \<Rightarrow> log_entry \<Rightarrow> pending_vec option" where
  "item_of cd ex cols e = (case vec_item cd ex cols e of Inr (Some it) \<Rightarrow> Some it | _ \<Rightarrow> None)"

definition items_of :: "vec_codec \<Rightarrow> extractor \<Rightarrow> string list \<Rightarrow> log_entry list \<Rightarrow> pending_vec list" where
  "items_of cd ex cols es = List.map_filter (item_of cd ex cols) es"

lemma item_of_wf: "item_of cd ex cols e = Some it \<Longrightarrow> item_wf it"
  by (auto simp: item_of_def vec_item_def item_wf_def split: sum.splits option.splits if_splits)

lemma items_of_simps [simp]:
  "items_of cd ex cols [] = []"
  "items_of cd ex cols (e # es) = (case item_of cd ex cols e of None \<Rightarrow> items_of cd ex cols es | Some it \<Rightarrow> it # items_of cd ex cols es)"
  by (simp_all add: items_of_def List.map_filter_def split: option.splits)

lemma items_of_set: "set (items_of cd ex cols es) = {it. \<exists>e \<in> set es. item_of cd ex cols e = Some it}"
  by (induction es) (auto split: option.splits)

text \<open>The router's attempt at a batch of one partition, and a run of attempts whose flush failed.\<close>

definition vec_attempt :: "'c hash_ops \<Rightarrow> vec_codec \<Rightarrow> u32 \<Rightarrow> vec_env \<Rightarrow> log_entry list \<Rightarrow> vec_world \<times> 'c vector_sink
    \<Rightarrow> go_error option \<times> vec_world \<times> 'c vector_sink" where
  "vec_attempt ops cd p env es s =
     vec_FlushBatch ops env p (fst s) (snd (deliver_all (\<lambda>_. vec_Deliver ops cd) (map (Pair ()) es) (snd s)))"

inductive retried :: "'c hash_ops \<Rightarrow> vec_codec \<Rightarrow> u32 \<Rightarrow> vec_world \<times> 'c vector_sink \<Rightarrow> log_entry list \<Rightarrow> vec_world \<times> 'c vector_sink \<Rightarrow> bool"
  for ops cd p s0 where
  start: "retried ops cd p s0 [] s0"
| again: "retried ops cd p s0 es s \<Longrightarrow> set es \<subseteq> set es' \<Longrightarrow> \<forall>e \<in> set es'. le_partition e = p \<Longrightarrow> contained env \<Longrightarrow>
    vec_attempt ops cd p env es' s = (Some err, s') \<Longrightarrow> retried ops cd p s0 es' s'"

definition vec_clean :: "u32 \<Rightarrow> 'c vector_sink \<Rightarrow> bool" where
  "vec_clean p vs \<longleftrightarrow> gm_get0 [] (vs_pending vs) p = [] \<and> gm_get0 [] (vs_pendingIDs vs) p = []"

definition same_config :: "'c vector_sink \<Rightarrow> 'c vector_sink \<Rightarrow> bool" where
  "same_config vs vs' \<longleftrightarrow> vs_extractor vs' = vs_extractor vs \<and> vs_metadataCols vs' = vs_metadataCols vs"

abbreviation items :: "vec_codec \<Rightarrow> 'c vector_sink \<Rightarrow> log_entry list \<Rightarrow> pending_vec list" where
  "items cd vs es \<equiv> items_of cd (vs_extractor vs) (vs_metadataCols vs) es"

context text_hash_cache_read
begin

definition buffers :: "u32 \<Rightarrow> 'c vector_sink \<Rightarrow> 'c vector_sink \<Rightarrow> pending_vec list \<Rightarrow> bool" where
  "buffers p vs vs' b \<longleftrightarrow> same_config vs vs' \<and> inv (vs_cache vs') \<and> view (vs_cache vs') = view (vs_cache vs) \<and>
     gm_get0 [] (vs_pending vs') p = gm_get0 [] (vs_pending vs) p @ b \<and>
     gm_get0 [] (vs_pendingIDs vs') p = rev (map pv_id b) @ gm_get0 [] (vs_pendingIDs vs) p"

lemma Deliver_buffers:
  assumes "inv (vs_cache vs)" "vec_Deliver ops cd e vs = (r, vs')"
  shows "buffers (le_partition e) vs vs'
    (buffered (view (vs_cache vs)) (set (gm_get0 [] (vs_pendingIDs vs) (le_partition e))) (items cd vs [e]))"
proof (cases "item_of cd (vs_extractor vs) (vs_metadataCols vs) e")
  case None
  then have "vs' = vs" using assms(2) by (auto simp: item_of_def vec_Deliver_def split: sum.splits option.splits)
  with None assms(1) show ?thesis by (simp add: buffers_def same_config_def)
next
  case (Some it)
  then have v: "vec_item cd (vs_extractor vs) (vs_metadataCols vs) e = Inr (Some it)"
    by (auto simp: item_of_def split: sum.splits option.splits)
  obtain u c where u: "ho_unchanged ops (pv_id it) (pv_hash it) (vs_cache vs) = (u, c)"
    by (cases "ho_unchanged ops (pv_id it) (pv_hash it) (vs_cache vs)")
  from unchanged_ok [OF assms(1) u] have c: "inv c" "view c = view (vs_cache vs)" "u \<longleftrightarrow> view (vs_cache vs) (pv_id it) = Some (pv_hash it)"
    by simp_all
  show ?thesis
  proof (cases "pv_delete it")
    case True
    with v assms have "vs' = buffer_vec (le_partition e) it vs" by (simp add: vec_Deliver_def Let_def)
    with True Some assms(1) show ?thesis
      by (simp add: buffers_def same_config_def buffer_vec_def differs_def gm_get0_set)
  next
    case False
    with v u assms(2) have "vs' = (if u \<and> pv_id it \<notin> set (gm_get0 [] (vs_pendingIDs vs) (le_partition e)) then vs\<lparr>vs_cache := c\<rparr>
        else buffer_vec (le_partition e) it (vs\<lparr>vs_cache := c\<rparr>))"
      by (auto simp: vec_Deliver_def Let_def split: if_splits)
    with False Some c show ?thesis
      by (simp add: buffers_def same_config_def buffer_vec_def differs_def gm_get0_set)
  qed
qed

lemma buffered_append: "buffered v S (xs @ ys) = buffered v S xs @ buffered v (S \<union> pv_id ` set (buffered v S xs)) ys"
  by (induction xs arbitrary: S) auto

lemma deliver_all_buffers:
  assumes "inv (vs_cache vs)" "\<forall>e \<in> set es. le_partition e = p"
  shows "buffers p vs (snd (deliver_all (\<lambda>_. vec_Deliver ops cd) (map (Pair ()) es) vs))
    (buffered (view (vs_cache vs)) (set (gm_get0 [] (vs_pendingIDs vs) p)) (items cd vs es))"
  using assms
proof (induction es arbitrary: vs)
  case (Cons e es)
  obtain r vs1 where d: "vec_Deliver ops cd e vs = (r, vs1)" by (cases "vec_Deliver ops cd e vs")
  let ?S = "set (gm_get0 [] (vs_pendingIDs vs) p)" and ?v = "view (vs_cache vs)"
  let ?b = "buffered ?v ?S (items cd vs [e])"
  have p: "le_partition e = p" using Cons.prems(2) by simp
  have b: "buffers p vs vs1 ?b" using Deliver_buffers [OF Cons.prems(1) d] p by simp
  then have s: "set (gm_get0 [] (vs_pendingIDs vs1) p) = ?S \<union> pv_id ` set ?b" "view (vs_cache vs1) = ?v" "inv (vs_cache vs1)"
    "vs_extractor vs1 = vs_extractor vs" "vs_metadataCols vs1 = vs_metadataCols vs"
    by (auto simp: buffers_def same_config_def)
  have "items cd vs (e # es) = items cd vs [e] @ items cd vs es" by (simp split: option.splits)
  then have e: "buffered ?v ?S (items cd vs (e # es)) = ?b @ buffered ?v (?S \<union> pv_id ` set ?b) (items cd vs es)"
    by (simp only: buffered_append)
  from Cons.IH [of vs1] s(3) Cons.prems(2) b d show ?case
    unfolding e by (simp add: s(1,2,4,5) buffers_def same_config_def case_prod_beta)
qed (simp add: buffers_def same_config_def)

end

context text_hash_cache
begin

text \<open>What holds of the sink and the store between attempts.\<close>

definition between :: "vec_codec \<Rightarrow> u32 \<Rightarrow> 'c vector_sink \<Rightarrow> log_entry list \<Rightarrow> vec_world \<times> 'c vector_sink \<Rightarrow> bool" where
  "between cd p vs0 es s \<longleftrightarrow> same_config vs0 (snd s) \<and> vec_clean p (snd s) \<and> inv (vs_cache (snd s)) \<and>
     repairable (set (items cd vs0 es)) (fst s) (view (vs_cache (snd s)))"

lemma FlushBatch_result:
  assumes "inv (vs_cache vs)" "gm_get0 [] (vs_pending vs) p = b" "gm_get0 [] (vs_pendingIDs vs) p = rev (map pv_id b)"
    and "\<forall>x \<in> set b. item_wf x" "contained env" "vec_FlushBatch ops env p w vs = (r, s')"
  shows "(r = None \<longrightarrow> progress w (view (vs_cache vs)) b [] (fst s') (view (vs_cache (snd s')))) \<and>
    (\<exists>pre post. pre @ post = b \<and> progress w (view (vs_cache vs)) pre post (fst s') (view (vs_cache (snd s')))) \<and>
    inv (vs_cache (snd s')) \<and> same_config vs (snd s') \<and> vec_clean p (snd s')"
proof (cases "b = []")
  case True
  with assms have "r = None" "s' = (w, vs)" by (auto simp: vec_FlushBatch_def)
  with assms True progress_start show ?thesis by (simp add: vec_clean_def same_config_def)
next
  case False
  let ?fs = "\<lparr>fs_n = 0, fs_world = w, fs_cache = vs_cache vs, fs_vectors = []\<rparr>" and ?v = "view (vs_cache vs)"
  obtain q fs where q: "flush_runs ops env (vs_batchMax vs) (splitRuns b) ?fs = (q, fs)"
    by (cases "flush_runs ops env (vs_batchMax vs) (splitRuns b) ?fs")
  have c: "concat (map snd (splitRuns b)) = b" using splitRuns_ok [of b] by simp
  have "reached w ?v [] (concat (map snd (splitRuns b)) @ []) ?fs" using assms(1) by (simp add: reached_def progress_start)
  from flush_runs_result [OF this, of env "vs_batchMax vs"] c splitRuns_ok [of b] assms(4,5) q
  have fl: "result w ?v [] b [] (q, fs)" by simp
  from False assms(2,6) q have s': "r = q" "fst s' = fs_world fs" "snd s' = vs\<lparr>vs_pending := gm_del p (vs_pending vs),
      vs_pendingIDs := gm_del p (vs_pendingIDs vs), vs_cache := fs_cache fs\<rparr>"
    by (auto simp: vec_FlushBatch_def)
  moreover have "inv (fs_cache fs)" "r = None \<Longrightarrow> progress w ?v b [] (fst s') (view (vs_cache (snd s')))"
      "\<exists>pre post. pre @ post = b \<and> progress w ?v pre post (fst s') (view (vs_cache (snd s')))"
    using fl s' by (cases q; auto simp: result_def reached_def)+
  ultimately show ?thesis by (simp add: same_config_def vec_clean_def)
qed

lemma attempt_result:
  assumes "between cd p vs0 es s" "set es \<subseteq> set es'" "\<forall>e \<in> set es'. le_partition e = p" "contained env"
    and "vec_attempt ops cd p env es' s = (r, s')"
  shows "between cd p vs0 es' s'" and "r = None \<Longrightarrow> progress (fst s) (view (vs_cache (snd s)))
    (buffered (view (vs_cache (snd s))) {} (items cd vs0 es')) [] (fst s') (view (vs_cache (snd s')))"
proof -
  obtain w vs where s: "s = (w, vs)" by (cases s)
  let ?v = "view (vs_cache vs)" and ?xs = "items cd vs0 es'"
  let ?b = "buffered ?v {} ?xs"
  define vs1 where "vs1 = snd (deliver_all (\<lambda>_. vec_Deliver ops cd) (map (Pair ()) es') vs)"
  have i: "same_config vs0 vs" "vec_clean p vs" "inv (vs_cache vs)" "repairable (set (items cd vs0 es)) w ?v"
    using assms(1) s by (simp_all add: between_def)
  have rep: "repairable (set ?xs) w ?v"
    by (rule repairable_mono [OF i(4)]) (use assms(2) in \<open>auto simp: items_of_set\<close>)
  have wf: "\<forall>x \<in> set ?xs. item_wf x" using item_of_wf by (auto simp: items_of_set)
  have "items cd vs es' = ?xs" using i(1) by (simp add: same_config_def)
  with deliver_all_buffers [OF i(3) assms(3), of cd] i(2) have "buffers p vs vs1 ?b" by (simp add: vs1_def vec_clean_def)
  with i(1,2) have b: "same_config vs0 vs1" "inv (vs_cache vs1)" "view (vs_cache vs1) = ?v" "gm_get0 [] (vs_pending vs1) p = ?b"
      "gm_get0 [] (vs_pendingIDs vs1) p = rev (map pv_id ?b)"
    by (auto simp: buffers_def same_config_def vec_clean_def)
  have "vec_FlushBatch ops env p w vs1 = (r, s')" using assms(5) s by (simp add: vec_attempt_def vs1_def)
  from FlushBatch_result [OF b(2,4,5) _ assms(4) this] wf buffered_subset [of ?v "{}" ?xs] b(1,3)
  have res: "r = None \<longrightarrow> progress w ?v ?b [] (fst s') (view (vs_cache (snd s')))"
      "\<exists>pre post. pre @ post = ?b \<and> progress w ?v pre post (fst s') (view (vs_cache (snd s')))"
      "inv (vs_cache (snd s')) \<and> same_config vs0 (snd s') \<and> vec_clean p (snd s')"
    by (auto simp: same_config_def)
  from res(1) s show "r = None \<Longrightarrow> progress (fst s) (view (vs_cache (snd s)))
    (buffered (view (vs_cache (snd s))) {} (items cd vs0 es')) [] (fst s') (view (vs_cache (snd s')))" by simp
  from res(2) obtain pre post where pp: "pre @ post = ?b" "progress w ?v pre post (fst s') (view (vs_cache (snd s')))" by blast
  have "repairable (set ?xs) (fst s') (view (vs_cache (snd s')))"
    by (rule progress_repairable [OF pp(2) rep _ wf]) (use pp(1) buffered_subset [of ?v "{}" ?xs] in auto)
  with res(3) show "between cd p vs0 es' s'" by (simp add: between_def)
qed

lemma retried_between: "retried ops cd p s0 es s \<Longrightarrow> between cd p vs0 [] s0 \<Longrightarrow> between cd p vs0 es s"
proof (induction rule: retried.induct)
  case (again es s es' env err s')
  from attempt_result(1) [OF again.IH [OF again.prems] again.hyps(2,3,4,5)] show ?case .
qed

lemma converges:
  assumes "vec_clean p vs0" "inv (vs_cache vs0)" "\<forall>i. coherent w0 (view (vs_cache vs0)) i"
    and "retried ops cd p (w0, vs0) es s" "set es \<subseteq> set es'" "\<forall>e \<in> set es'. le_partition e = p" "contained env"
    and "vec_attempt ops cd p env es' s = (None, w', vs')"
  shows "vec_clean p vs' \<and> inv (vs_cache vs') \<and> (\<forall>i. coherent w' (view (vs_cache vs')) i)"
    and "of_id i (items cd vs0 es') \<noteq> [] \<Longrightarrow>
      (if pv_delete (last (of_id i (items cd vs0 es'))) then w' i = None
       else \<exists>rec. w' i = Some rec \<and> HashText (vr_text rec) = HashText (pv_text (last (of_id i (items cd vs0 es')))))"
proof -
  have "between cd p vs0 [] (w0, vs0)" using assms(1,2,3) by (simp add: between_def same_config_def repairable_def)
  with assms(4) have b: "between cd p vs0 es s" by (rule retried_between)
  note r = attempt_result [OF b assms(5,6,7,8)]
  have rep: "repairable (set (items cd vs0 es')) (fst s) (view (vs_cache (snd s)))"
    by (rule repairable_mono [of "set (items cd vs0 es)"])
      (use b in \<open>simp add: between_def\<close>, use assms(5) in \<open>auto simp only: items_of_set\<close>)
  have wf: "\<forall>x \<in> set (items cd vs0 es'). item_wf x" using item_of_wf by (auto simp: items_of_set)
  note d = progress_done [OF r(2) [OF refl] rep refl wf]
  from r(1) d(1) show "vec_clean p vs' \<and> inv (vs_cache vs') \<and> (\<forall>i. coherent w' (view (vs_cache vs')) i)" by (simp add: between_def)
  from d(2) show "of_id i (items cd vs0 es') \<noteq> [] \<Longrightarrow>
      (if pv_delete (last (of_id i (items cd vs0 es'))) then w' i = None
       else \<exists>rec. w' i = Some rec \<and> HashText (vr_text rec) = HashText (pv_text (last (of_id i (items cd vs0 es')))))"
    unfolding fst_conv by blast
qed

end

section \<open>The sink on SQLite\<close>


text \<open>The sink whose cache cannot begin a transaction.\<close>

definition stuck_ops :: "tx_env \<Rightarrow> hash_cache hash_ops" where
  "stuck_ops tx = sqlite_ops\<lparr>ho_put := hc_PutBatch tx, ho_del := hc_DelBatch tx\<rparr>"

interpretation stuck: text_hash_cache_read "stuck_ops tx" cache_view cache_inv
  for tx
  using sqlite.unchanged_ok by unfold_locales (auto simp: stuck_ops_def)

lemma stuck_del: "tx_begin tx \<Longrightarrow> snd (ho_del (stuck_ops tx) [i] c) = c"
  by (simp add: stuck_ops_def hc_DelBatch_def)

lemma flush_one_delete:
  assumes "gm_get0 [] (vs_pending vs) p = [x]" "pv_delete x" "ve_delete env 0 [pv_id x] = None"
    and "snd (ho_del ops [pv_id x] (vs_cache vs)) = vs_cache vs"
  shows "\<exists>vs'. vec_FlushBatch ops env p w vs = (None, w(pv_id x := None), vs') \<and>
    vs_cache vs' = vs_cache vs \<and> same_config vs vs' \<and> vec_clean p vs'"
proof -
  have "splitRuns [x] = [(True, [x])]" using assms(2) by (simp add: splitRuns_def add_run_def)
  moreover have "(\<lambda>i. if i = pv_id x then None else w i) = w(pv_id x := None)" by (rule ext) simp
  ultimately show ?thesis using assms
    by (simp add: vec_FlushBatch_def flushDeleteRun_def store_Delete_def ackDeletes_def same_config_def vec_clean_def cong: if_cong)
qed

text \<open>
  What the contract of the cache is needed for: the sink logs a failed write of the hash cache and
  goes on. A row with text \<open>A\<close> is in the store and in the cache; it is deleted while the cache cannot be
  written, then inserted again with the same text. Both attempts return nil, the second without sending
  anything, and the row is missing from the store.
\<close>

theorem stale_hash_loses_row:
  assumes "vec_clean p vs" "cache_inv (vs_cache vs)" "cache_view (vs_cache vs) (pv_id x1) = Some (HashText A)" "tx_begin tx"
    and "item_of cd (vs_extractor vs) (vs_metadataCols vs) e1 = Some x1" "pv_delete x1"
    and "item_of cd (vs_extractor vs) (vs_metadataCols vs) e2 = Some x2" "\<not> pv_delete x2" "pv_text x2 = A" "pv_id x2 = pv_id x1"
    and "le_partition e1 = p" "le_partition e2 = p" "ve_delete env 0 [pv_id x1] = None"
  shows "\<exists>w1 vs1 vs2. vec_attempt (stuck_ops tx) cd p env [e1] (w, vs) = (None, w1, vs1) \<and>
    vec_attempt sqlite_ops cd p env [e2] (w1, vs1) = (None, w1, vs2) \<and> w1 (pv_id x2) = None"
proof -
  have h: "pv_hash x2 = HashText A" using item_of_wf [OF assms(7)] assms(8,9) by (simp add: item_wf_def)
  obtain r1 v1 where d1: "vec_Deliver (stuck_ops tx) cd e1 vs = (r1, v1)" by (cases "vec_Deliver (stuck_ops tx) cd e1 vs")
  have b1: "gm_get0 [] (vs_pending v1) p = [x1]" "same_config vs v1" "cache_inv (vs_cache v1)" "cache_view (vs_cache v1) = cache_view (vs_cache vs)"
    using stuck.Deliver_buffers [OF assms(2) d1] assms(1,5,6,11) by (auto simp: stuck.buffers_def vec_clean_def differs_def)
  from flush_one_delete [of v1 p x1 env "stuck_ops tx" w] b1(1) assms(4,6,13) stuck_del
  obtain v2 where f1: "vec_FlushBatch (stuck_ops tx) env p w v1 = (None, w(pv_id x1 := None), v2)"
      "vs_cache v2 = vs_cache v1" "same_config v1 v2" "vec_clean p v2" by blast
  obtain r2 v3 where d2: "vec_Deliver sqlite_ops cd e2 v2 = (r2, v3)" by (cases "vec_Deliver sqlite_ops cd e2 v2")
  have "items cd v2 [e2] = [x2]" using assms(7) b1(2) f1(3) by (simp add: same_config_def)
  then have "gm_get0 [] (vs_pending v3) p = []"
    using sqlite.Deliver_buffers [OF _ d2] b1 f1(2,4) assms(3,8,10,12) h
    by (auto simp: sqlite.buffers_def vec_clean_def differs_def)
  then have "vec_FlushBatch sqlite_ops env p (w(pv_id x1 := None)) v3 = (None, w(pv_id x1 := None), v3)" by (simp add: vec_FlushBatch_def)
  with d1 d2 f1 assms(10) show ?thesis by (simp add: vec_attempt_def)
qed

end
