(* ===== verification/Sink_Examples.thy ===== *)
theory Sink_Examples
  imports Sink_Retry Sqs_Sink Stream_Props Vector_Props
begin

text \<open>Small sinks on which the properties of the sinks are applied.\<close>

section \<open>Webhook\<close>

definition ok_os :: web_os where
  "ok_os = lost_os\<lparr>wo_compilers := compilers (\<lambda>_. Inl ErrClosedPipe) (\<lambda>_. Inl ErrClosedPipe :: go_error + unit)
     (\<lambda>_. Inl ErrClosedPipe :: go_error + unit jq_code)\<rparr>"

definition ok_cfg :: webhook_config where
  "ok_cfg = \<lparr>wc_url = ''http://h'', wc_url_template = [], wc_method = [], wc_timeout = [], wc_headers = [], wc_bearer_token = ''t'',
     wc_basic_username = [], wc_basic_password = [], wc_sigv4 = None, wc_secret = [], wc_max_events = 0, wc_payload_template = [],
     wc_language = [], wc_expression = [], wc_tls = \<lparr>tls_ca_file = [], tls_cert_file = [], tls_key_file = []\<rparr>\<rparr>"

theorem new_webhook_sink_wf_witness:
  "\<exists>ws. newWebhookSinkConsumer ok_os ''w'' ok_cfg False = Inr ws \<and> sink_wf ws \<and> ws_pending ws = []"
proof -
  have v: "validateWebhookConfig ok_os ok_cfg = Inr \<lparr>wn_method = ''POST'', wn_authHdr = ''Bearer t'', wn_secret = [], wn_batchMax = 1,
      wn_timeout = 30 * second, wn_urlT = None, wn_engine = None\<rparr>"
    by (simp add: validateWebhookConfig_def ok_cfg_def validateURLAndMethod_def validateAuth_def validateBatchAndPayload_def
        parseTimeout_def parseURLTemplate_def compileWebhookEngine_def buildAuthHeader_def requireHTTPScheme_def lost_url HasPrefix_def Let_def)
  then obtain ws where n: "newWebhookSinkConsumer ok_os ''w'' ok_cfg False = Inr ws"
    by (simp add: newWebhookSinkConsumer_def v) (simp add: ok_cfg_def buildTLSConfig_def resolveWebhookSigV4_def)
  have "wo_compilers ok_os = compilers (\<lambda>_. Inl ErrClosedPipe) (\<lambda>_. Inl ErrClosedPipe :: go_error + unit)
      (\<lambda>_. Inl ErrClosedPipe :: go_error + unit jq_code)"
    by (simp add: ok_os_def)
  from new_webhook_sink_wf [OF n this] n show ?thesis by simp
qed

definition lost_req :: pending_req where
  "lost_req = \<lparr>pr_url = ''http://h'', pr_body = ''r'', pr_key = ''k'', pr_seq = 7\<rparr>"

definition lost_ws :: webhook_sink where
  "lost_ws = lost_sink\<lparr>ws_pending := [(0, [lost_req])]\<rparr>"

theorem groupRequests_tile_witness:
  "concat (map req_items (groupRequests [lost_req, lost_req, lost_req\<lparr>pr_url := ''http://i''\<rparr>] 2)) =
     [lost_req, lost_req, lost_req\<lparr>pr_url := ''http://i''\<rparr>] \<and>
   maximal 2 (groupRequests [lost_req, lost_req, lost_req\<lparr>pr_url := ''http://i''\<rparr>] 2)"
  using groupRequests_tile [of 2 "[lost_req, lost_req, lost_req\<lparr>pr_url := ''http://i''\<rparr>]"] by simp

theorem webhook_flush_prefix_witness:
  "\<exists>err ws' tr. FlushBatch lost_env 0 lost_ws = (Some err, ws', tr) \<and> gm_get0 [] (ws_pending ws') 0 = [] \<and>
     outcome [lost_req] (Some err) tr"
proof -
  obtain err ws' tr where f: "FlushBatch lost_env 0 lost_ws = (Some err, ws', tr)"
    using lost_flush by (auto simp: lost_ws_def lost_req_def)
  have "gm_get0 [] (ws_pending lost_ws) 0 = [lost_req]" by (simp add: lost_ws_def gm_get0_def)
  with webhook_flush_prefix [OF f] f show ?thesis by simp
qed

theorem webhook_request_headers_witness:
  "req_wf (single_req lost_req) \<and>
   gm_get (wi_headers (build_request lost_env 0 (lost_ws\<lparr>ws_secret := ''s''\<rparr>) (single_req lost_req))) ''X-Kaptanto-Signature'' =
     Some (signature ''s'' 0 ''r'') \<and>
   gm_get (wi_headers (build_request lost_env 0 (lost_ws\<lparr>ws_secret := ''s''\<rparr>) (single_req lost_req))) ''X-Kaptanto-Idempotency-Key'' = Some ''k''"
proof -
  have wf: "req_wf (single_req lost_req)" unfolding req_wf_def by blast
  from webhook_request_headers [OF wf refl, of lost_env 0 "lost_ws\<lparr>ws_secret := ''s''\<rparr>"] wf show ?thesis
    by (simp add: single_req_def req_items_def lost_req_def lost_env_def)
qed

section \<open>Brokers\<close>

definition down_env :: dial_env where
  "down_env = \<lparr>dl_dial = Some ''refused'', dl_channel = (\<lambda>_. Inr 0), dl_confirm = (\<lambda>_. None)\<rparr>"

definition ex_rabbit :: rabbit_sink where
  "ex_rabbit = \<lparr>rb_id = ''r'', rb_exchange = ''x'', rb_routingKeyT = (\<lambda>_. Inr ''k''), rb_channels = [0..<64], rb_pending = []\<rparr>"

theorem reconnect_bounds_witness:
  "reconnect_cycle [(down_env, \<lambda>_. 0), (down_env, \<lambda>_. 0)] ''u'' second ex_rabbit = ([second, 2 * second], ex_rabbit) \<and>
   list_all (\<lambda>w. second \<le> w \<and> w < 45 * second) [second, 2 * second] \<and> unat ((65 :: u32) mod 64) < length (rb_channels ex_rabbit)"
proof -
  have r: "reconnect_cycle [(down_env, \<lambda>_. 0), (down_env, \<lambda>_. 0)] ''u'' second ex_rabbit = ([second, 2 * second], ex_rabbit)"
    by (simp add: dialAndOpenChannels_def down_env_def next_delay_def maxDelay_def second_def)
  from reconnect_bounds [OF r, of 65] r show ?thesis by (simp add: maxDelay_def second_def ex_rabbit_def)
qed

definition ex_sc :: sqs_codec where
  "ex_sc = \<lparr>sc_codec = \<lparr>co_unmarshal = (\<lambda>_. None), co_marshal = (\<lambda>_. None)\<rparr>, sc_attr = (\<lambda>_. Inr ''true'')\<rparr>"

definition ex_sqs :: sqs_sink where
  "ex_sqs = \<lparr>sq_id = ''q'', sq_queueURL = ''u.fifo'', sq_queueURLT = None, sq_validated = [''u.fifo''], sq_pending = [], sq_used = []\<rparr>"

definition ex_sqs1 :: sqs_sink where
  "ex_sqs1 = snd (sqs_Deliver ex_sc lost_entry ex_sqs)"

lemma ex_sqs1_pending: "\<exists>en. sqs_pending ex_sqs1 0 = [en]"
proof (cases rule: sqs_Deliver_cases [of ex_sc ex_sqs lost_entry])
  case (failed err)
  then show ?thesis
    by (simp add: sqs_entry_of_def with_event_def with_payload_def resolveQueueURL_def getOrValidateQueue_def ex_sc_def ex_sqs_def
        lost_entry_def ex_rec_def MaterializeEvent_def)
next
  case (ok en i)
  then show ?thesis by (simp add: ex_sqs1_def sqs_pending_def ex_sqs_def lost_entry_def ex_rec_def gm_get0_def)
qed

theorem sqs_chunks_valid_witness:
  "\<exists>url chunk. sqs_reach ex_sqs1 \<and> (url, chunk) \<in> set (all_chunks (sqs_pending ex_sqs1 0)) \<and> length chunk \<le> 10 \<and> distinct (map se_id chunk)"
proof -
  have "newConsumerWithClient (\<lambda>_. Inr ''true'') ''q'' ''u.fifo'' None = Inr ex_sqs"
    by (simp add: newConsumerWithClient_def check_fifo_def ex_sqs_def)
  then have r: "sqs_reach ex_sqs1" unfolding ex_sqs1_def by (intro sqs_reach.deliver sqs_reach.new)
  obtain en where "sqs_pending ex_sqs1 0 = [en]" using ex_sqs1_pending by blast
  then obtain url chunk where "(url, chunk) \<in> set (all_chunks (sqs_pending ex_sqs1 0))"
    using all_chunks_cover [of en "sqs_pending ex_sqs1 0"] by auto
  with sqs_chunks_valid [OF r this] r show ?thesis by blast
qed

definition ex_msg :: sqs_entry where
  "ex_msg = \<lparr>se_queueURL = ''u.fifo'', se_id = ''1'', se_body = ''r'', se_groupId = ''g'', se_dedupId = ''d'', se_idempotency = ''k''\<rparr>"

theorem sqs_failed_chunk_overtaken_witness:
  "\<exists>e sq'. sqs_FlushBatch (\<lambda>n _ _. if n = 0 then Inl ''throttled'' else Inr []) 0 (ex_sqs\<lparr>sq_pending := [(0, replicate 11 ex_msg)]\<rparr>) =
     (Some e, sq', [ex_msg])"
proof -
  let ?sq = "ex_sqs\<lparr>sq_pending := [(0, replicate 11 ex_msg)]\<rparr>"
  have p: "sqs_pending ?sq 0 = replicate 11 ex_msg" by (simp add: sqs_pending_def gm_get0_def)
  from sqs_failed_chunk_overtaken [of ?sq 0 "''u.fifo''" "\<lambda>n _ _. if n = 0 then Inl ''throttled'' else Inr []" "''throttled''"] p
  show ?thesis by (simp add: ex_msg_def)
qed

section \<open>Streams\<close>

definition ex_stdout :: stdout_env where
  "ex_stdout = \<lparr>so_unmarshal = (\<lambda>_. None), so_marshal = (\<lambda>_. None), so_write = (\<lambda>_. None)\<rparr>"

theorem stdout_ndjson_witness:
  "butlast (split_on newline (so_wire (snd (deliver_all stdout_Deliver [(ex_stdout, lost_entry), (ex_stdout, lost_entry)]
     \<lparr>so_wire = [], so_metrics = False\<rparr>)))) = [''r'', ''r'']"
proof -
  let ?ds = "[(ex_stdout, lost_entry), (ex_stdout, lost_entry)]" and ?so = "\<lparr>so_wire = [], so_metrics = False\<rparr>"
  obtain errs so' where d: "deliver_all stdout_Deliver ?ds ?so = (errs, so')" by (cases "deliver_all stdout_Deliver ?ds ?so")
  have p: "stdout_payload ex_stdout lost_entry = Some ''r''" by (simp add: stdout_payload_def lost_entry_def ex_rec_def)
  have e: "set errs \<subseteq> {None}" using d by (auto simp: stdout_Deliver_def ex_stdout_def lost_entry_def ex_rec_def)
  from stdout_ndjson [OF d e] p have "map Some (butlast (split_on newline (so_wire so'))) = map Some [''r'', ''r'']"
    by (simp add: newline_def)
  with d show ?thesis by (simp add: map_injective inj_map_eq_map)
qed

definition ex_sv :: sse_env where
  "ex_sv = \<lparr>sv_unmarshal = (\<lambda>_. None), sv_convs = \<lparr>cv_parse = (\<lambda>_. None), cv_format = (\<lambda>_. ''0''), cv_sprint = (\<lambda>_. [])\<rparr>, sv_rows = (\<lambda>_. None), sv_decode = (\<lambda>_. None), sv_encode = (\<lambda>_. None),
     sv_marshal = (\<lambda>_. Some ''j''), sv_write = (\<lambda>_. None)\<rparr>"

definition ex_fenv :: flush_env where
  "ex_fenv = \<lparr>fe_ctx = (\<lambda>_. False), fe_flush = (\<lambda>_. None), fe_reread = (\<lambda>_ _ _. None), fe_write = (\<lambda>_ _. None), fe_now = (\<lambda>_. 0), fe_rnd = (\<lambda>_ _. 0)\<rparr>"

definition ex_sse :: sse_consumer where
  "ex_sse = NewSSEConsumer ''c'' (NewEventFilter [] []) [] []"

definition ex_sse1 :: sse_consumer where
  "ex_sse1 = ex_sse\<lparr>sse_wire := sse_head ex_ev @ ''r'' @ [newline, newline]\<rparr>"

theorem sse_closed_flush_confirms_witness:
  "sse_Deliver ex_sv lost_entry ex_sse = (None, ex_sse1) \<and> sse_FlushBatch None (sse_Close ex_sse1) = (None, sse_Close ex_sse1) \<and>
   sse_sent (sse_Close ex_sse1) = [] \<and> sse_wire (sse_Close ex_sse1) \<noteq> [] \<and>
   fst (flush_loop (\<lambda>_. None) (\<lambda>_ _ _ st. st) ex_fenv 0 [0] [] None lost_rt) =
     promoteProvisional (\<lambda>_ _ _ st. st) 0 0 (resetPoisonStreak 0 0 lost_rt)"
proof -
  have d: "sse_Deliver ex_sv lost_entry ex_sse = (None, ex_sse1)"
    by (simp add: sse_Deliver_def lost_entry_def ex_rec_def MaterializeEvent_def ex_sse_def ex_sse1_def NewSSEConsumer_def Allow_def
        NewEventFilter_def row_matches_def sse_writes_def ex_sv_def gm_get0_def filterSets_def)
  have f: "sse_FlushBatch None (sse_Close ex_sse1) = (None, sse_Close ex_sse1)" by (simp add: sse_FlushBatch_def sse_Close_def)
  have w: "sse_wire ex_sse1 \<noteq> sse_wire ex_sse" "sse_sent ex_sse = sse_wire ex_sse" "sse_wire ex_sse = []" "sse_sent ex_sse = []"
    by (simp_all add: ex_sse1_def ex_sse_def NewSSEConsumer_def sse_head_def)
  have "fe_flush ex_fenv 0 = None" "\<not> fe_ctx ex_fenv 0" by (simp_all add: ex_fenv_def)
  from sse_closed_flush_confirms [OF d w(1,2) f this, of "\<lambda>_. None" "\<lambda>_ _ _ st. st" 0 "[]" None lost_rt] d f w(3,4) show ?thesis
    by (auto simp del: flush_loop.simps)
qed

definition ex_grpc :: grpc_consumer where
  "ex_grpc = NewGRPCConsumer ''c'' 1 (NewEventFilter [] []) [] []"

theorem grpc_fifo_witness:
  "\<exists>acc c. grpc_run ex_grpc acc c \<and> length acc = 1 \<and> length (gc_ch c) \<le> 1 \<and>
     (\<exists>failed. acc = gc_sent c @ failed @ gc_ch c \<and> length failed \<le> 1)"
proof -
  have "grpc_Deliver ex_sv False lost_entry ex_grpc = (None, ex_grpc\<lparr>gc_ch := [grpc_event ex_ev ''j'']\<rparr>)"
    by (simp add: grpc_Deliver_def lost_entry_def ex_rec_def MaterializeEvent_def ex_grpc_def NewGRPCConsumer_def Allow_def NewEventFilter_def
        row_matches_def column_filtered_def ex_sv_def ex_ev_def ApplyColumnFilterSet_def)
  from grpc_run.accept [OF grpc_run.start this, of "[grpc_event ex_ev ''j'']"]
  have r: "grpc_run ex_grpc [grpc_event ex_ev ''j''] (ex_grpc\<lparr>gc_ch := [grpc_event ex_ev ''j'']\<rparr>)"
    by (simp add: ex_grpc_def NewGRPCConsumer_def)
  from grpc_fifo [OF r [unfolded ex_grpc_def]] show ?thesis
    by (intro exI [of _ "[grpc_event ex_ev ''j'']"] exI [of _ "ex_grpc\<lparr>gc_ch := [grpc_event ex_ev ''j'']\<rparr>"]) (use r in \<open>auto simp: ex_grpc_def\<close>)
qed

section \<open>Vector store\<close>

definition ex_vx :: vec_codec where
  "ex_vx = \<lparr>vx_unmarshal = (\<lambda>_. None), vx_object = (\<lambda>_. Some []), vx_fmt = ck_fmt, vx_marshal_row = (\<lambda>_. Some ''1''),
     vx_text = (\<lambda>_. []), vx_float = (\<lambda>_. []), vx_time = (\<lambda>_. [])\<rparr>"

definition gone_entry :: log_entry where
  "gone_entry = lost_entry\<lparr>le_event := Some (ex_ev\<lparr>ev_operation := OpDelete\<rparr>)\<rparr>"

definition ex_vs :: "(string, bytes) gomap \<Rightarrow> hash_cache vector_sink" where
  "ex_vs table = NewVectorSinkConsumerWithDeps ''v'' (ExtTemplate (\<lambda>_. Inr ''A'')) (OpenHashCache False table) [] 0"

definition ex_gone :: pending_vec where
  "ex_gone = \<lparr>pv_seq = 7, pv_id = ''public.t:1'', pv_text = [], pv_hash = [], pv_metadata = [], pv_delete = True\<rparr>"

lemma trim_words: "TrimSpace ''t'' = ''t''" "TrimSpace ''public'' = ''public''" "TrimSpace ''A'' = ''A''"
  by (rule TrimSpace_solid; simp add: solid_def IsSpace_def code_def)+

lemma vs_config: "vs_extractor (ex_vs table) = ExtTemplate (\<lambda>_. Inr ''A'')" "vs_metadataCols (ex_vs table) = []"
  by (simp_all add: ex_vs_def NewVectorSinkConsumerWithDeps_def)

lemma ex_id: "CanonicalIDFromRaw ex_vx ''public'' ''t'' (Some ''1'') = Inr ''public.t:1''"
  by (simp add: CanonicalIDFromRaw_def CanonicalID_def ex_vx_def trim_words Canonical_def Let_def)

lemma gone_item: "item_of ex_vx (vs_extractor (ex_vs table)) (vs_metadataCols (ex_vs table)) gone_entry = Some ex_gone"
  by (simp add: item_of_def vec_item_def gone_entry_def lost_entry_def ex_rec_def MaterializeEvent_def ex_ev_def ex_id ex_gone_def
      OpDelete_def OpControl_def)

lemma kept_item: "\<exists>x. item_of ex_vx (vs_extractor (ex_vs table)) (vs_metadataCols (ex_vs table)) lost_entry = Some x \<and>
    \<not> pv_delete x \<and> pv_text x = ''A'' \<and> pv_id x = ''public.t:1''"
  by (simp add: vs_config item_of_def vec_item_def lost_entry_def ex_rec_def MaterializeEvent_def ex_ev_def ex_id
      OpDelete_def OpInsert_def OpControl_def Extract_def trim_words)

lemma ex_vs_ok: "vec_clean 0 (ex_vs table)" "cache_inv (vs_cache (ex_vs table))" "cache_view (vs_cache (ex_vs table)) = gm_get table"
proof -
  show "vec_clean 0 (ex_vs table)" by (simp add: ex_vs_def NewVectorSinkConsumerWithDeps_def vec_clean_def gm_get0_def)
  have c: "vs_cache (ex_vs table) = OpenHashCache False table" by (simp add: ex_vs_def NewVectorSinkConsumerWithDeps_def)
  then show "cache_inv (vs_cache (ex_vs table))" by (simp add: OpenHashCache_inv)
  show "cache_view (vs_cache (ex_vs table)) = gm_get table" unfolding c by (simp add: cache_view_enabled OpenHashCache_def)
qed

text \<open>The store fails the first call and has done nothing of it.\<close>

definition ex_venv :: "go_error option \<Rightarrow> vec_env" where
  "ex_venv err = \<lparr>ve_cap = 0, ve_embed = (\<lambda>_ ts. Inr (map (\<lambda>_. []) ts)), ve_upsert = (\<lambda>_ _. None), ve_delete = (\<lambda>_ _. err),
     ve_upsert_damage = (\<lambda>_ _ w. w), ve_delete_damage = (\<lambda>_ _ w. w)\<rparr>"

lemma ex_contained: "contained (ex_venv err)"
  by (simp add: contained_def ex_venv_def)

definition ex_world :: vec_world where
  "ex_world = [''public.t:1'' \<mapsto> \<lparr>vr_id = ''public.t:1'', vr_vector = [], vr_metadata = [], vr_text = ''A''\<rparr>]"

definition ex_vs1 :: "(string, bytes) gomap \<Rightarrow> hash_cache vector_sink" where
  "ex_vs1 table = (ex_vs table)\<lparr>vs_pending := [(0, [ex_gone])], vs_pendingIDs := [(0, [''public.t:1''])]\<rparr>"

lemma gone_deliver: "vec_Deliver ops ex_vx gone_entry (ex_vs table) = (None, ex_vs1 table)"
proof -
  have "vec_item ex_vx (vs_extractor (ex_vs table)) (vs_metadataCols (ex_vs table)) gone_entry = Inr (Some ex_gone)"
    using gone_item [of table] by (auto simp: item_of_def split: sum.splits option.splits)
  moreover have "le_partition gone_entry = 0" by (simp add: gone_entry_def lost_entry_def ex_rec_def)
  ultimately show ?thesis
    by (simp add: vec_Deliver_def ex_vs1_def buffer_vec_def ex_gone_def push_item_def gm_get0_def)
      (simp add: ex_vs_def NewVectorSinkConsumerWithDeps_def)
qed

lemma gone_fails: "vec_attempt sqlite_ops ex_vx 0 (ex_venv (Some ErrClosedPipe)) [gone_entry] (w, ex_vs []) = (Some ErrClosedPipe, w, ex_vs [])"
  by (simp add: vec_attempt_def gone_deliver ex_vs1_def vec_FlushBatch_def gm_get0_def splitRuns_def add_run_def ex_gone_def flushDeleteRun_def
      store_Delete_def ex_venv_def IsPoison_def status_of_def classifyStoreErr_def Let_def)
    (simp add: ex_vs_def NewVectorSinkConsumerWithDeps_def)

lemma gone_done: "\<exists>w' vs'. vec_attempt sqlite_ops ex_vx 0 (ex_venv None) [gone_entry] (w, ex_vs []) = (None, w', vs')"
  by (simp add: vec_attempt_def gone_deliver ex_vs1_def vec_FlushBatch_def gm_get0_def splitRuns_def add_run_def ex_gone_def flushDeleteRun_def
      store_Delete_def ex_venv_def Let_def)


theorem stale_hash_loses_row_witness:
  "\<exists>w1 vs1 vs2. vec_attempt (stuck_ops (no_failure\<lparr>tx_begin := True\<rparr>)) ex_vx 0 (ex_venv None) [gone_entry]
       (ex_world, ex_vs [(''public.t:1'', HashText ''A'')]) = (None, w1, vs1) \<and>
     vec_attempt sqlite_ops ex_vx 0 (ex_venv None) [lost_entry] (w1, vs1) = (None, w1, vs2) \<and> w1 ''public.t:1'' = None"
proof -
  let ?t = "[(''public.t:1'', HashText ''A'')]"
  obtain x where x: "item_of ex_vx (vs_extractor (ex_vs ?t)) (vs_metadataCols (ex_vs ?t)) lost_entry = Some x"
      "\<not> pv_delete x" "pv_text x = ''A''" "pv_id x = ''public.t:1''" using kept_item by blast
  have v: "cache_view (vs_cache (ex_vs ?t)) (pv_id ex_gone) = Some (HashText ''A'')" by (simp add: ex_vs_ok(3) ex_gone_def)
  have p: "le_partition gone_entry = 0" "le_partition lost_entry = 0" by (simp_all add: gone_entry_def lost_entry_def ex_rec_def)
  have t: "tx_begin (no_failure\<lparr>tx_begin := True\<rparr>)" by simp
  have g: "pv_delete ex_gone" "pv_id x = pv_id ex_gone" "ve_delete (ex_venv None) 0 [pv_id ex_gone] = None"
    by (simp_all add: ex_gone_def x(4) ex_venv_def)
  from stale_hash_loses_row [OF ex_vs_ok(1,2) v t gone_item g(1) x(1,2,3) g(2) p g(3), of ex_world] x(4) show ?thesis by simp
qed

end
