(* ===== verification/Nats_Log.thy ===== *)
theory Nats_Log
  imports Eventlog_Store Watermark_Scan
begin

text \<open>
  The event log of cluster mode (\<open>internal/eventlog/nats.go\<close>): one JetStream stream with a subject per
  partition, deduplication by message id in the server, one pull consumer per partition that is reused
  as long as reads continue where the last one stopped. JetStream is a record of functions;
  \<open>js_laws\<close> collects what its documentation promises. The first argument of each of them is what the
  network does in that call.
\<close>

section \<open>JetStream\<close>

record js_msg =
  jm_subject :: string
  jm_data :: string
  jm_id :: string

datatype pub_result = PubAck u64 bool | PubErr string

text \<open>A fetched message with the sequence number of its metadata, which may be unreadable.\<close>

type_synonym fetched = "(u64 option \<times> string) list"

record ('n, 'js) jetstream =
  jt_async_err :: "'n \<Rightarrow> js_msg \<Rightarrow> 'js \<Rightarrow> string option"
  jt_publish :: "'n \<Rightarrow> js_msg \<Rightarrow> 'js \<Rightarrow> pub_result \<times> 'js"
  jt_create :: "'n \<Rightarrow> string \<Rightarrow> string \<Rightarrow> u64 \<Rightarrow> 'js \<Rightarrow> string option \<times> 'js"
  jt_delete :: "'n \<Rightarrow> string \<Rightarrow> 'js \<Rightarrow> 'js"
  jt_fetch :: "'n \<Rightarrow> string \<Rightarrow> nat \<Rightarrow> 'js \<Rightarrow> (string + fetched \<times> string option) \<times> 'js"

text \<open>
  What a publish may do: store the message under a new number at the end, or find its id in the window
  of duplicates and store nothing. After an error the message is stored or not.
\<close>

definition js_stores :: "('js \<Rightarrow> (u64 \<times> js_msg) list) \<Rightarrow> ('js \<Rightarrow> string set) \<Rightarrow> js_msg \<Rightarrow> u64 \<Rightarrow> 'js \<Rightarrow> 'js \<Rightarrow> bool" where
  "js_stores view seen m q s s' \<longleftrightarrow> jm_id m \<notin> seen s \<and> view s' = view s @ [(q, m)] \<and> seen s' = insert (jm_id m) (seen s)"

definition js_keeps :: "('js \<Rightarrow> (u64 \<times> js_msg) list) \<Rightarrow> ('js \<Rightarrow> string set) \<Rightarrow> 'js \<Rightarrow> 'js \<Rightarrow> bool" where
  "js_keeps view seen s s' \<longleftrightarrow> view s' = view s \<and> seen s' = seen s"

definition published :: "('js \<Rightarrow> (u64 \<times> js_msg) list) \<Rightarrow> ('js \<Rightarrow> string set) \<Rightarrow> js_msg \<Rightarrow> pub_result \<Rightarrow> 'js \<Rightarrow> 'js \<Rightarrow> bool" where
  "published view seen m r s s' \<longleftrightarrow>
     (case r of
        PubAck q False \<Rightarrow> js_stores view seen m q s s'
      | PubAck q True \<Rightarrow> jm_id m \<in> seen s \<and> js_keeps view seen s s'
      | PubErr _ \<Rightarrow> js_keeps view seen s s' \<or> (\<exists>q. js_stores view seen m q s s'))"

definition waiting :: "string \<Rightarrow> u64 \<Rightarrow> (u64 \<times> js_msg) list \<Rightarrow> (u64 \<times> js_msg) list" where
  "waiting subj from ms = filter (\<lambda>(q, m). from \<le> q \<and> jm_subject m = subj) ms"

text \<open>
  \<open>pos s name\<close>: the subject of a consumer and the number from which it delivers next. A fetch without
  an error returns the waiting messages, as many as asked for and available. Messages and their ids stay
  for the retention time, so the laws describe a stream within it.
\<close>

definition fetch_ok :: "('js \<Rightarrow> (u64 \<times> js_msg) list) \<Rightarrow> ('js \<Rightarrow> string \<Rightarrow> (string \<times> u64) option) \<Rightarrow> string \<Rightarrow> nat \<Rightarrow> fetched \<Rightarrow> 'js \<Rightarrow> 'js \<Rightarrow> bool" where
  "fetch_ok view pos name k ms s s' \<longleftrightarrow>
     (\<exists>subj from. pos s name = Some (subj, from) \<and>
        list_all2 (\<lambda>(oq, d) (q, m). d = jm_data m \<and> oq \<in> {None, Some q}) ms (take k (waiting subj from (view s))) \<and>
        pos s' name = Some (subj, if ms = [] then from else fst (last (take k (waiting subj from (view s)))) + 1))"

definition js_laws :: "('n, 'js) jetstream \<Rightarrow> ('js \<Rightarrow> bool) \<Rightarrow> ('js \<Rightarrow> (u64 \<times> js_msg) list) \<Rightarrow> ('js \<Rightarrow> string set)
    \<Rightarrow> ('js \<Rightarrow> string \<Rightarrow> (string \<times> u64) option) \<Rightarrow> bool" where
  "js_laws jt ok view seen pos \<longleftrightarrow>
     (\<forall>s. ok s \<longrightarrow> sorted_wrt (<) (map fst (view s)) \<and> (\<forall>q \<in> fst ` set (view s). q \<noteq> 0 \<and> q \<noteq> - 1)) \<and>
     (\<forall>n m s r s'. ok s \<longrightarrow> jt_publish jt n m s = (r, s') \<longrightarrow> ok s' \<and> pos s' = pos s \<and> published view seen m r s s') \<and>
     (\<forall>n name subj from s r s'. ok s \<longrightarrow> jt_create jt n name subj from s = (r, s') \<longrightarrow>
        ok s' \<and> js_keeps view seen s s' \<and> (\<forall>c. c \<noteq> name \<longrightarrow> pos s' c = pos s c) \<and> (r = None \<longrightarrow> pos s' name = Some (subj, from))) \<and>
     (\<forall>n name s. ok s \<longrightarrow> ok (jt_delete jt n name s) \<and> js_keeps view seen s (jt_delete jt n name s) \<and>
        (\<forall>c. c \<noteq> name \<longrightarrow> pos (jt_delete jt n name s) c = pos s c)) \<and>
     (\<forall>n name k s r s'. ok s \<longrightarrow> jt_fetch jt n name k s = (r, s') \<longrightarrow>
        ok s' \<and> js_keeps view seen s s' \<and> (\<forall>c. c \<noteq> name \<longrightarrow> pos s' c = pos s c) \<and>
        (\<forall>ms. r = Inr (ms, None) \<longrightarrow> fetch_ok view pos name k ms s s'))"

section \<open>State\<close>

definition pad5 :: "nat \<Rightarrow> string" where
  "pad5 n = replicate (5 - length (dec_str n)) (CHR ''0'') @ dec_str n"

definition natsSubject :: "u32 \<Rightarrow> string" where
  "natsSubject p = ''kaptanto.events.'' @ pad5 (unat p)"

record nats_reader =
  nr_cons :: "string option"
  nr_next :: u64

text \<open>\<open>nl_log\<close> is the part the Badger log has too: partitions, notify channels and observers, around the stream.\<close>

record 'js nats_log =
  nl_log :: "'js evlog"
  nl_instance :: string
  nl_readers :: "nats_reader list"

record stream_config =
  sc_name :: string
  sc_subjects :: "string list"
  sc_replicas :: nat
  sc_max_age :: int
  sc_duplicates :: int

text \<open>What starting the server, connecting and creating the stream answer; the stream that was there before comes back.\<close>

record 'js open_env =
  oe_start :: "string option"
  oe_connect :: "string option"
  oe_context :: "string option"
  oe_stream :: "stream_config \<Rightarrow> string + 'js"
  oe_instance :: string

definition new_nats_log :: "'js \<Rightarrow> string \<Rightarrow> u32 \<Rightarrow> int \<Rightarrow> 'js nats_log" where
  "new_nats_log js inst numPartitions retention =
     (let num = (if numPartitions = 0 then 64 else numPartitions)
      in \<lparr>nl_log = \<lparr>el_db = js, el_num = num, el_retention = retention, el_pending = [], el_observers = [], el_next_obs = 0, el_calls = []\<rparr>,
          nl_instance = inst, nl_readers = replicate (unat num) \<lparr>nr_cons = None, nr_next = 0\<rparr>\<rparr>)"

definition OpenNats :: "'js open_env \<Rightarrow> string list \<Rightarrow> u32 \<Rightarrow> int \<Rightarrow> string + 'js nats_log" where
  "OpenNats env peers numPartitions retention0 =
     (case oe_start env of
        Some e \<Rightarrow> Inl e
      | None \<Rightarrow>
          (case oe_connect env of
             Some e \<Rightarrow> Inl (''nats eventlog: connect: '' @ e)
           | None \<Rightarrow>
               (case oe_context env of
                  Some e \<Rightarrow> Inl (''nats eventlog: jetstream context: '' @ e)
                | None \<Rightarrow>
                    let retention = (if retention0 \<le> 0 then 24 * 3600 * 1000000000 else retention0)
                    in case oe_stream env \<lparr>sc_name = ''kaptanto-events'', sc_subjects = [''kaptanto.events.*''],
                                            sc_replicas = (if 0 < length peers then length peers + 1 else 1),
                                            sc_max_age = retention, sc_duplicates = retention\<rparr> of
                         Inl e \<Rightarrow> Inl (''nats eventlog: create stream: '' @ e)
                       | Inr js \<Rightarrow> Inr (new_nats_log js (oe_instance env) numPartitions retention))))"

abbreviation nl_js :: "'js nats_log \<Rightarrow> 'js" where
  "nl_js nl \<equiv> el_db (nl_log nl)"

abbreviation set_js :: "'js \<Rightarrow> 'js nats_log \<Rightarrow> 'js nats_log" where
  "set_js js nl \<equiv> nl\<lparr>nl_log := (nl_log nl)\<lparr>el_db := js\<rparr>\<rparr>"

section \<open>Append\<close>

datatype nats_error = NatsMarshal | NatsPublish string | NatsAsync nat string | NatsAck nat string | NatsFetch string | NatsConsumer string
  | NatsUnmarshal | NatsMetadata | NatsBatch string | NatsCancelled

definition nats_msg :: "u32 \<Rightarrow> string \<Rightarrow> change_event \<Rightarrow> js_msg" where
  "nats_msg p data ev = \<lparr>jm_subject = natsSubject p, jm_data = data, jm_id = ev_idempotency_key ev\<rparr>"

definition nats_Append :: "('n, 'js) jetstream \<Rightarrow> (change_event \<Rightarrow> string option) \<Rightarrow> 'n \<Rightarrow> change_event \<Rightarrow> 'js nats_log
    \<Rightarrow> ((nats_error + u64) \<times> 'js nats_log) go" where
  "nats_Append jt marshal n ev nl =
     (case PartitionOf (str_bytes (raw_str (ev_key ev))) (el_num (nl_log nl)) of
        Panic \<Rightarrow> Panic
      | Ret p \<Rightarrow> Ret
         (case marshal ev of
            None \<Rightarrow> (Inl NatsMarshal, nl)
          | Some data \<Rightarrow>
              (case jt_publish jt n (nats_msg p data ev) (nl_js nl) of
                 (PubErr err, js) \<Rightarrow> (Inl (NatsPublish err), set_js js nl)
               | (PubAck q True, js) \<Rightarrow> (Inr 0, set_js js nl)
               | (PubAck q False, js) \<Rightarrow>
                   (Inr q, (set_js js nl)\<lparr>nl_log := notifyObservers [(ev, q)] (notify p (nl_log (set_js js nl)))\<rparr>))))"

section \<open>AppendBatch\<close>

fun prepare_msgs :: "(change_event \<Rightarrow> string option) \<Rightarrow> u32 \<Rightarrow> change_event list \<Rightarrow> (nats_error + (u32 \<times> js_msg) list) go" where
  "prepare_msgs marshal num [] = Ret (Inr [])"
| "prepare_msgs marshal num (ev # evs) =
     (case PartitionOf (str_bytes (raw_str (ev_key ev))) num of
        Panic \<Rightarrow> Panic
      | Ret p \<Rightarrow>
          (case marshal ev of
             None \<Rightarrow> Ret (Inl NatsMarshal)
           | Some data \<Rightarrow>
               (case prepare_msgs marshal num evs of
                  Panic \<Rightarrow> Panic
                | Ret (Inl err) \<Rightarrow> Ret (Inl err)
                | Ret (Inr ms) \<Rightarrow> Ret (Inr ((p, nats_msg p data ev) # ms)))))"

text \<open>
  The pipelined publishes. They reach the server in order on one connection; the result of each is
  what its future yields later. An error of the call itself ends the loop.
\<close>

fun publish_async :: "('n, 'js) jetstream \<Rightarrow> (nat \<Rightarrow> 'n) \<Rightarrow> nat \<Rightarrow> js_msg list \<Rightarrow> 'js \<Rightarrow> (nats_error + pub_result list) \<times> 'js" where
  "publish_async jt env i [] js = (Inr [], js)"
| "publish_async jt env i (m # ms) js =
     (case jt_async_err jt (env i) m js of
        Some err \<Rightarrow> (Inl (NatsAsync i err), js)
      | None \<Rightarrow>
          (case jt_publish jt (env i) m js of
             (r, js1) \<Rightarrow>
               (case publish_async jt env (Suc i) ms js1 of
                  (Inl err, js2) \<Rightarrow> (Inl err, js2)
                | (Inr rs, js2) \<Rightarrow> (Inr (r # rs), js2))))"

record batch_acks =
  ba_seqs :: "u64 list"
  ba_written :: "(change_event \<times> u64) list"
  ba_notify :: "u32 list"
  ba_err :: "nats_error option"

text \<open>\<open>ctx i\<close>: the deadline passed and the select took that case.\<close>

fun collectBatchPubAcks :: "(nat \<Rightarrow> bool) \<Rightarrow> nat \<Rightarrow> (change_event \<times> u32 \<times> pub_result) list \<Rightarrow> batch_acks \<Rightarrow> batch_acks" where
  "collectBatchPubAcks ctx i [] ba = ba"
| "collectBatchPubAcks ctx i ((ev, p, r) # rs) ba =
     collectBatchPubAcks ctx (Suc i) rs
       (if ctx i then ba\<lparr>ba_seqs := ba_seqs ba @ [0], ba_err := (if ba_err ba = None then Some (NatsAck i ''context deadline exceeded'') else ba_err ba)\<rparr>
        else case r of
               PubAck q True \<Rightarrow> ba\<lparr>ba_seqs := ba_seqs ba @ [0]\<rparr>
             | PubAck q False \<Rightarrow>
                 ba\<lparr>ba_seqs := ba_seqs ba @ [q], ba_written := ba_written ba @ [(ev, q)], ba_notify := List.insert p (ba_notify ba)\<rparr>
             | PubErr err \<Rightarrow> ba\<lparr>ba_seqs := ba_seqs ba @ [0], ba_err := (if ba_err ba = None then Some (NatsAck i err) else ba_err ba)\<rparr>)"

definition no_acks :: batch_acks where
  "no_acks = \<lparr>ba_seqs = [], ba_written = [], ba_notify = [], ba_err = None\<rparr>"

definition nats_AppendBatch :: "('n, 'js) jetstream \<Rightarrow> (change_event \<Rightarrow> string option) \<Rightarrow> (nat \<Rightarrow> 'n) \<Rightarrow> (nat \<Rightarrow> bool)
    \<Rightarrow> change_event list \<Rightarrow> 'js nats_log \<Rightarrow> ((u64 list \<times> nats_error option) \<times> 'js nats_log) go" where
  "nats_AppendBatch jt marshal env ctx evs nl =
     (if evs = [] then Ret (([], None), nl)
      else case prepare_msgs marshal (el_num (nl_log nl)) evs of
             Panic \<Rightarrow> Panic
           | Ret (Inl err) \<Rightarrow> Ret (([], Some err), nl)
           | Ret (Inr pms) \<Rightarrow> Ret
               (case publish_async jt env 0 (map snd pms) (nl_js nl) of
                  (Inl err, js) \<Rightarrow> (([], Some err), set_js js nl)
                | (Inr rs, js) \<Rightarrow>
                    let ba = collectBatchPubAcks ctx 0 (zip evs (zip (map fst pms) rs)) no_acks
                    in ((ba_seqs ba, ba_err ba),
                        (set_js js nl)\<lparr>nl_log := notifyObservers (ba_written ba) (fold notify (ba_notify ba) (nl_log (set_js js nl)))\<rparr>)))"

section \<open>ReadPartition\<close>

definition pullConsumerName :: "'js nats_log \<Rightarrow> u32 \<Rightarrow> string" where
  "pullConsumerName nl p = ''kaptanto-rp-'' @ pad5 (unat p) @ ''-'' @ nl_instance nl"

definition deletePullConsumer :: "('n, 'js) jetstream \<Rightarrow> 'n \<Rightarrow> nats_reader \<times> 'js \<Rightarrow> nats_reader \<times> 'js" where
  "deletePullConsumer jt n = (\<lambda>(r, js).
     case nr_cons r of None \<Rightarrow> (r, js) | Some name \<Rightarrow> (\<lparr>nr_cons = None, nr_next = 0\<rparr>, jt_delete jt n name js))"

record 'n read_env =
  rv_ctx :: bool
  rv_delete :: 'n
  rv_stale :: 'n
  rv_create :: 'n
  rv_fetch :: 'n
  rv_drop :: 'n

definition ensurePullConsumer :: "('n, 'js) jetstream \<Rightarrow> 'n read_env \<Rightarrow> string \<Rightarrow> u32 \<Rightarrow> u64 \<Rightarrow> nats_reader \<times> 'js
    \<Rightarrow> (nats_error + string) \<times> nats_reader \<times> 'js" where
  "ensurePullConsumer jt env name p startSeq = (\<lambda>(r, js).
     case (nr_cons r, nr_next r = startSeq) of
       (Some c, True) \<Rightarrow> (Inr c, r, js)
     | _ \<Rightarrow>
         let (r1, js1) = deletePullConsumer jt (rv_delete env) (r, js); js2 = jt_delete jt (rv_stale env) name js1
         in case jt_create jt (rv_create env) name (natsSubject p) startSeq js2 of
              (Some err, js3) \<Rightarrow> (Inl (NatsConsumer err), r1, js3)
            | (None, js3) \<Rightarrow> (Inr name, \<lparr>nr_cons = Some name, nr_next = startSeq\<rparr>, js3))"

fun collectPullEntries :: "(string \<Rightarrow> change_event option) \<Rightarrow> u32 \<Rightarrow> fetched \<Rightarrow> log_entry list \<Rightarrow> u64 \<Rightarrow> nats_error + log_entry list \<times> u64" where
  "collectPullEntries unmarshal p [] entries lastSeq = Inr (entries, lastSeq)"
| "collectPullEntries unmarshal p ((oq, data) # ms) entries lastSeq =
     (case unmarshal data of
        None \<Rightarrow> Inl NatsUnmarshal
      | Some ev \<Rightarrow>
          (case oq of
             None \<Rightarrow> Inl NatsMetadata
           | Some q \<Rightarrow>
               collectPullEntries unmarshal p ms (entries @ [\<lparr>le_seq = q, le_partition = p, le_event = Some ev, le_raw = data\<rparr>]) q))"

definition read_locked :: "('n, 'js) jetstream \<Rightarrow> (string \<Rightarrow> change_event option) \<Rightarrow> 'n read_env \<Rightarrow> string \<Rightarrow> u32 \<Rightarrow> u64 \<Rightarrow> nat
    \<Rightarrow> nats_reader \<times> 'js \<Rightarrow> (nats_error + log_entry list) \<times> nats_reader \<times> 'js" where
  "read_locked jt unmarshal env name p startSeq limit s =
     (case ensurePullConsumer jt env name p startSeq s of
        (Inl err, r, js) \<Rightarrow> (Inl err, r, js)
      | (Inr c, r, js) \<Rightarrow>
          (case jt_fetch jt (rv_fetch env) c limit js of
             (Inl err, js1) \<Rightarrow> (Inl (NatsFetch err), deletePullConsumer jt (rv_drop env) (r, js1))
           | (Inr (ms, merr), js1) \<Rightarrow>
               (case collectPullEntries unmarshal p ms [] 0 of
                  Inl err \<Rightarrow> (Inl err, deletePullConsumer jt (rv_drop env) (r, js1))
                | Inr (entries, lastSeq) \<Rightarrow>
                    (case merr of
                       Some err \<Rightarrow> (Inl (NatsBatch err), deletePullConsumer jt (rv_drop env) (r, js1))
                     | None \<Rightarrow> (Inr entries, if lastSeq \<noteq> 0 then r\<lparr>nr_next := lastSeq + 1\<rparr> else r, js1)))))"

definition nats_ReadPartition :: "('n, 'js) jetstream \<Rightarrow> (string \<Rightarrow> change_event option) \<Rightarrow> 'n read_env \<Rightarrow> u32 \<Rightarrow> u64 \<Rightarrow> int \<Rightarrow> 'js nats_log
    \<Rightarrow> ((nats_error + log_entry list) \<times> 'js nats_log) go" where
  "nats_ReadPartition jt unmarshal env p fromSeq limit nl =
     (if rv_ctx env then Ret (Inl NatsCancelled, nl)
      else if limit \<le> 0 then Ret (Inr [], nl)
      else if length (nl_readers nl) \<le> unat p then Panic
      else let startSeq = (if fromSeq = 0 then 1 else fromSeq);
               (res, r, js) = read_locked jt unmarshal env (pullConsumerName nl p) p startSeq (nat limit) (nl_readers nl ! unat p, nl_js nl)
           in Ret (res, (set_js js nl)\<lparr>nl_readers := (nl_readers nl)[unat p := r]\<rparr>))"

definition ReleasePartition :: "('n, 'js) jetstream \<Rightarrow> 'n \<Rightarrow> u32 \<Rightarrow> 'js nats_log \<Rightarrow> 'js nats_log" where
  "ReleasePartition jt n p nl =
     (if el_num (nl_log nl) \<le> p then nl
      else let (r, js) = deletePullConsumer jt n (nl_readers nl ! unat p, nl_js nl)
           in (set_js js nl)\<lparr>nl_readers := (nl_readers nl)[unat p := r]\<rparr>)"

end
