(* ===== verification/Nats_Props.thy ===== *)
theory Nats_Props
  imports Nats_Log "HOL-Library.Sublist"
begin

text \<open>
  What the JetStream log guarantees: a read returns the entries of the partition from a number on, however
  the consumer of the partition was used before, so the log provides the paged reads of the watermark
  checker; a batch that returns nil is stored and observed, in order. And what a failed batch does to the
  order of events and to the observers.
\<close>

section \<open>Names\<close>

lemma dec_val_zeros: "dec_val (replicate k (CHR ''0'') @ s) = dec_val s"
  by (induction k) simp_all

lemma pad5_inject [simp]: "pad5 m = pad5 n \<longleftrightarrow> m = n"
  by (metis dec_val_dec_str dec_val_zeros pad5_def)

lemma pad5_digits: "c \<in> set (pad5 n) \<Longrightarrow> is_digit c"
  by (auto simp: pad5_def dest: dec_str_digits) (simp add: is_digit_def)

lemma natsSubject_inject [simp]: "natsSubject p = natsSubject q \<longleftrightarrow> p = q"
  by (simp add: natsSubject_def word_unat_eq_iff)

lemma pullConsumerName_inject: "pullConsumerName nl p = pullConsumerName nl q \<longleftrightarrow> p = q"
proof
  have t: "takeWhile is_digit (pad5 n @ CHR ''-'' # xs) = pad5 n" for n xs
  proof -
    have "takeWhile is_digit (pad5 n @ CHR ''-'' # xs) = pad5 n @ takeWhile is_digit (CHR ''-'' # xs)"
      by (rule takeWhile_append2) (rule pad5_digits)
    then show ?thesis by (simp add: is_digit_def)
  qed
  assume "pullConsumerName nl p = pullConsumerName nl q"
  then have "pad5 (unat p) @ CHR ''-'' # nl_instance nl = pad5 (unat q) @ CHR ''-'' # nl_instance nl"
    by (simp add: pullConsumerName_def)
  from arg_cong [OF this, of "takeWhile is_digit"] show "p = q" by (simp add: t word_unat_eq_iff)
qed simp

section \<open>Reads\<close>

text \<open>
  A reader that has a consumer knows where it stands, unless the server dropped the consumer.
\<close>

definition reader_ok :: "('js \<Rightarrow> string \<Rightarrow> (string \<times> u64) option) \<Rightarrow> string \<Rightarrow> u32 \<Rightarrow> nats_reader \<Rightarrow> 'js \<Rightarrow> bool" where
  "reader_ok pos name p r js \<longleftrightarrow>
     (\<forall>c. nr_cons r = Some c \<longrightarrow> c = name \<and> (\<forall>x. pos js c = Some x \<longrightarrow> x = (natsSubject p, nr_next r)))"

definition readers_ok :: "('js \<Rightarrow> string \<Rightarrow> (string \<times> u64) option) \<Rightarrow> 'js nats_log \<Rightarrow> bool" where
  "readers_ok pos nl \<longleftrightarrow> length (nl_readers nl) = unat (el_num (nl_log nl)) \<and>
     (\<forall>p. unat p < length (nl_readers nl) \<longrightarrow> reader_ok pos (pullConsumerName nl p) p (nl_readers nl ! unat p) (nl_js nl))"

lemma reader_ok_None: "nr_cons r = None \<Longrightarrow> reader_ok pos name p r js"
  by (simp add: reader_ok_def)

lemma reader_ok_pos: "reader_ok pos name p r js \<Longrightarrow> pos js' name = pos js name \<Longrightarrow> reader_ok pos name p r js'"
  by (auto simp: reader_ok_def)

text \<open>The entries stand for the messages: their numbers and bytes, with the decoded events.\<close>

definition delivers :: "(string \<Rightarrow> change_event option) \<Rightarrow> u32 \<Rightarrow> (u64 \<times> js_msg) list \<Rightarrow> log_entry list \<Rightarrow> bool" where
  "delivers unmarshal p ws es \<longleftrightarrow> map le_seq es = map fst ws \<and> map le_raw es = map (jm_data \<circ> snd) ws \<and>
     (\<forall>e \<in> set es. le_partition e = p \<and> (\<exists>ev. le_event e = Some ev \<and> unmarshal (le_raw e) = Some ev))"

lemma collectPullEntries_ok:
  assumes "collectPullEntries unmarshal p ms acc l = Inr (es, l')"
    and "list_all2 (\<lambda>(oq, d) (q, m). d = jm_data m \<and> oq \<in> {None, Some q}) ms ws"
  shows "\<exists>fs. es = acc @ fs \<and> delivers unmarshal p ws fs \<and> l' = (if ws = [] then l else fst (last ws))"
  using assms
proof (induction ms arbitrary: acc l ws)
  case (Cons x ms)
  obtain oq d where x: "x = (oq, d)" by (cases x)
  from Cons.prems(2) x obtain q m ws' where w: "ws = (q, m) # ws'" "d = jm_data m" "oq \<in> {None, Some q}"
      "list_all2 (\<lambda>(oq, d) (q, m). d = jm_data m \<and> oq \<in> {None, Some q}) ms ws'"
    by (auto simp: list_all2_Cons1)
  from Cons.prems(1) x w(3) obtain ev where ev: "unmarshal d = Some ev" "oq = Some q"
      "collectPullEntries unmarshal p ms (acc @ [\<lparr>le_seq = q, le_partition = p, le_event = Some ev, le_raw = d\<rparr>]) q = Inr (es, l')"
    by (auto split: option.splits)
  from Cons.IH [OF ev(3) w(4)] obtain fs where
    "es = (acc @ [\<lparr>le_seq = q, le_partition = p, le_event = Some ev, le_raw = d\<rparr>]) @ fs" "delivers unmarshal p ws' fs"
    "l' = (if ws' = [] then q else fst (last ws'))" by blast
  with w ev(1) show ?case
    by (intro exI [of _ "\<lparr>le_seq = q, le_partition = p, le_event = Some ev, le_raw = d\<rparr> # fs"]) (auto simp: delivers_def)
qed (simp add: delivers_def)

locale jetstream_log =
  fixes jt :: "('n, 'js) jetstream" and ok :: "'js \<Rightarrow> bool" and view :: "'js \<Rightarrow> (u64 \<times> js_msg) list"
    and seen :: "'js \<Rightarrow> string set" and pos :: "'js \<Rightarrow> string \<Rightarrow> (string \<times> u64) option"
  assumes laws: "js_laws jt ok view seen pos"
begin

lemmas law = laws [unfolded js_laws_def]

lemma view_ok: "ok s \<Longrightarrow> sorted_wrt (<) (map fst (view s))" "ok s \<Longrightarrow> (q, m) \<in> set (view s) \<Longrightarrow> q \<noteq> 0 \<and> q \<noteq> - 1"
  using law [THEN conjunct1, rule_format, of s] by (simp, force)

lemma publish_law: "ok s \<Longrightarrow> jt_publish jt n m s = (r, s') \<Longrightarrow> ok s' \<and> pos s' = pos s \<and> published view seen m r s s'"
  by (rule law [THEN conjunct2, THEN conjunct1, rule_format])

lemma create_law: "ok s \<Longrightarrow> jt_create jt n name subj from s = (r, s') \<Longrightarrow>
    ok s' \<and> js_keeps view seen s s' \<and> (\<forall>c. c \<noteq> name \<longrightarrow> pos s' c = pos s c) \<and> (r = None \<longrightarrow> pos s' name = Some (subj, from))"
  using law [THEN conjunct2, THEN conjunct2, THEN conjunct1, THEN spec, THEN spec, THEN spec, THEN spec, THEN spec, THEN spec, THEN spec, THEN mp, THEN mp]
  by simp

lemma delete_law: "ok s \<Longrightarrow> ok (jt_delete jt n name s) \<and> js_keeps view seen s (jt_delete jt n name s) \<and>
    (\<forall>c. c \<noteq> name \<longrightarrow> pos (jt_delete jt n name s) c = pos s c)"
  using law [THEN conjunct2, THEN conjunct2, THEN conjunct2, THEN conjunct1, THEN spec, THEN spec, THEN spec, THEN mp] by simp

lemma fetch_law: "ok s \<Longrightarrow> jt_fetch jt n name k s = (r, s') \<Longrightarrow>
    ok s' \<and> js_keeps view seen s s' \<and> (\<forall>c. c \<noteq> name \<longrightarrow> pos s' c = pos s c) \<and> (\<forall>ms. r = Inr (ms, None) \<longrightarrow> fetch_ok view pos name k ms s s')"
  using law [THEN conjunct2, THEN conjunct2, THEN conjunct2, THEN conjunct2, THEN spec, THEN spec, THEN spec, THEN spec, THEN spec, THEN spec, THEN mp, THEN mp]
  by simp

text \<open>What every step of a read keeps: the stream, and the consumers of other partitions.\<close>

definition quiet :: "string \<Rightarrow> 'js \<Rightarrow> 'js \<Rightarrow> bool" where
  "quiet name s s' \<longleftrightarrow> ok s' \<and> js_keeps view seen s s' \<and> (\<forall>c. c \<noteq> name \<longrightarrow> pos s' c = pos s c)"

lemma quiet_trans: "quiet name s s1 \<Longrightarrow> quiet name s1 s2 \<Longrightarrow> quiet name s s2"
  by (simp add: quiet_def js_keeps_def)

lemma quiet_delete: "ok s \<Longrightarrow> quiet name s (jt_delete jt n name s)"
  using delete_law [of s n name] by (simp add: quiet_def)

lemma quiet_drop:
  assumes "ok js" "reader_ok pos name p r js" "deletePullConsumer jt n (r, js) = (r', js')"
  shows "quiet name js js'" "nr_cons r' = None"
  using assms quiet_delete [of js name n] by (auto simp: deletePullConsumer_def reader_ok_def quiet_def js_keeps_def split: option.splits)

lemma ensure_ok:
  assumes "ok js" "reader_ok pos name p r js" "ensurePullConsumer jt env name p start (r, js) = (res, r', js')"
  shows "quiet name js js' \<and> reader_ok pos name p r' js' \<and> (\<forall>c. res = Inr c \<longrightarrow> c = name \<and> nr_cons r' = Some name \<and> nr_next r' = start)"
proof (cases "nr_cons r \<noteq> None \<and> nr_next r = start")
  case True
  then have "ensurePullConsumer jt env name p start (r, js) = (Inr name, r, js)"
    using assms(2) by (auto simp: ensurePullConsumer_def reader_ok_def)
  with assms True show ?thesis by (auto simp: quiet_def js_keeps_def reader_ok_def)
next
  case False
  obtain r1 js1 where d: "deletePullConsumer jt (rv_delete env) (r, js) = (r1, js1)" by (cases "deletePullConsumer jt (rv_delete env) (r, js)")
  define js2 where "js2 = jt_delete jt (rv_stale env) name js1"
  obtain e js3 where c: "jt_create jt (rv_create env) name (natsSubject p) start js2 = (e, js3)"
    by (cases "jt_create jt (rv_create env) name (natsSubject p) start js2")
  note D = quiet_drop [OF assms(1,2) d]
  have q2: "quiet name js1 js2" unfolding js2_def by (rule quiet_delete) (use D(1) in \<open>simp add: quiet_def\<close>)
  then have C: "quiet name js2 js3" "e = None \<longrightarrow> pos js3 name = Some (natsSubject p, start)"
    using create_law [OF _ c] by (simp_all add: quiet_def)
  have "ensurePullConsumer jt env name p start (r, js) =
      (case e of Some err \<Rightarrow> (Inl (NatsConsumer err), r1, js3) | None \<Rightarrow> (Inr name, \<lparr>nr_cons = Some name, nr_next = start\<rparr>, js3))"
    using False d c by (auto simp: ensurePullConsumer_def js2_def split: option.splits bool.splits)
  with assms(3) D(2) C quiet_trans [OF quiet_trans [OF D(1) q2] C(1)] show ?thesis
    by (cases e) (auto simp: reader_ok_def)
qed

lemma read_locked_ok:
  assumes "ok js" "reader_ok pos name p r js" "read_locked jt unmarshal env name p start k (r, js) = (res, r', js')"
  shows "quiet name js js' \<and> reader_ok pos name p r' js'"
    and "res = Inr es \<Longrightarrow> delivers unmarshal p (take k (waiting (natsSubject p) start (view js))) es"
proof -
  obtain ce r1 js1 where e: "ensurePullConsumer jt env name p start (r, js) = (ce, r1, js1)"
    by (cases "ensurePullConsumer jt env name p start (r, js)")
  note E = ensure_ok [OF assms(1,2) e]
  have "(quiet name js js' \<and> reader_ok pos name p r' js') \<and> (res = Inr es \<longrightarrow> delivers unmarshal p (take k (waiting (natsSubject p) start (view js))) es)"
  proof (cases ce)
    case (Inl err)
    with e E assms(3) show ?thesis by (auto simp: read_locked_def)
  next
    case (Inr c)
    obtain fr js2 where f: "jt_fetch jt (rv_fetch env) c k js1 = (fr, js2)" by (cases "jt_fetch jt (rv_fetch env) c k js1")
    from E Inr have c: "c = name" "nr_cons r1 = Some name" "nr_next r1 = start" "ok js1" "view js1 = view js" "reader_ok pos name p r1 js1"
      by (auto simp: quiet_def js_keeps_def)
    from fetch_law [OF c(4) f] c(1) have F: "quiet name js1 js2" "\<And>ms. fr = Inr (ms, None) \<Longrightarrow> fetch_ok view pos name k ms js1 js2"
      by (auto simp: quiet_def)
    have q: "quiet name js js2" using E F(1) quiet_trans by blast
    have drop: "quiet name js (snd d) \<and> reader_ok pos name p (fst d) (snd d)" if "d = deletePullConsumer jt (rv_drop env) (r1, js2)" for d
      using that c(2) quiet_trans [OF q quiet_delete [of js2 name "rv_drop env"]] q by (simp add: deletePullConsumer_def reader_ok_def quiet_def)
    show ?thesis
    proof (cases "\<exists>ms es' l. fr = Inr (ms, None) \<and> collectPullEntries unmarshal p ms [] 0 = Inr (es', l)")
      case True
      then obtain ms es' l where t: "fr = Inr (ms, None)" "collectPullEntries unmarshal p ms [] 0 = Inr (es', l)" by blast
      from F(2) [OF t(1)] c(2,3,6) obtain ws where ws: "ws = take k (waiting (natsSubject p) start (view js))"
          "list_all2 (\<lambda>(oq, d) (q, m). d = jm_data m \<and> oq \<in> {None, Some q}) ms ws"
          "pos js2 name = Some (natsSubject p, if ms = [] then start else fst (last ws) + 1)"
        by (auto simp: fetch_ok_def reader_ok_def c(5))
      have nz: "fst (last ws) \<noteq> 0" if "ws \<noteq> []"
      proof -
        have "last ws \<in> set (view js)" using last_in_set [OF that] unfolding ws(1) waiting_def by (auto dest: in_set_takeD)
        with view_ok(2) [OF assms(1), of "fst (last ws)" "snd (last ws)"] show ?thesis by simp
      qed
      note C = collectPullEntries_ok [OF t(2) ws(2)]
      have "res = Inr es'" "js' = js2" "r' = (if l \<noteq> 0 then r1\<lparr>nr_next := l + 1\<rparr> else r1)"
        using assms(3) e Inr f t by (auto simp: read_locked_def)
      moreover have "ms = [] \<longleftrightarrow> ws = []" using ws(2) by (auto simp: list_all2_iff)
      ultimately show ?thesis using C nz ws(3) q c(2,3) by (auto simp: reader_ok_def ws(1))
    next
      case False
      then have x: "\<exists>err. res = Inl err" "(r', js') = deletePullConsumer jt (rv_drop env) (r1, js2)"
        using assms(3) e Inr f by (auto simp: read_locked_def split: sum.splits prod.splits option.splits)
      from drop [OF x(2)] have "quiet name js js' \<and> reader_ok pos name p r' js'" by simp
      with x(1) show ?thesis by auto
    qed
  qed
  then show "quiet name js js' \<and> reader_ok pos name p r' js'" "res = Inr es \<Longrightarrow> delivers unmarshal p (take k (waiting (natsSubject p) start (view js))) es" by blast+
qed

lemma waiting_start: "ok js \<Longrightarrow> waiting subj (if from = 0 then 1 else from) (view js) = waiting subj from (view js)"
proof -
  assume ok: "ok js"
  have "1 \<le> q" if "q \<noteq> 0" for q :: u64 using that by (simp add: word_le_nat_alt Suc_le_eq unat_gt_0)
  with view_ok(2) [OF ok] show ?thesis unfolding waiting_def by (intro filter_cong) auto
qed

lemma ReadPartition_ok:
  assumes "ok (nl_js nl)" "readers_ok pos nl" "nats_ReadPartition jt unmarshal env p from limit nl = Ret (res, nl')"
  shows "ok (nl_js nl') \<and> view (nl_js nl') = view (nl_js nl) \<and> seen (nl_js nl') = seen (nl_js nl) \<and> readers_ok pos nl'"
    and "res = Inr es \<Longrightarrow> delivers unmarshal p (take (nat limit) (waiting (natsSubject p) from (view (nl_js nl)))) es"
proof -
  have "(ok (nl_js nl') \<and> view (nl_js nl') = view (nl_js nl) \<and> seen (nl_js nl') = seen (nl_js nl) \<and> readers_ok pos nl') \<and>
    (res = Inr es \<longrightarrow> delivers unmarshal p (take (nat limit) (waiting (natsSubject p) from (view (nl_js nl)))) es)"
  proof (cases "rv_ctx env \<or> limit \<le> 0")
    case True
    with assms show ?thesis by (auto simp: nats_ReadPartition_def delivers_def split: if_splits)
  next
    case False
    let ?start = "if from = 0 then 1 else from" and ?name = "pullConsumerName nl p"
    obtain x r js where rl: "read_locked jt unmarshal env ?name p ?start (nat limit) (nl_readers nl ! unat p, nl_js nl) = (x, r, js)"
      by (cases "read_locked jt unmarshal env ?name p ?start (nat limit) (nl_readers nl ! unat p, nl_js nl)")
    from assms(3) False have len: "unat p < length (nl_readers nl)" by (auto simp: nats_ReadPartition_def split: if_splits)
    with assms(3) False rl have res: "res = x" "nl' = (set_js js nl)\<lparr>nl_readers := (nl_readers nl)[unat p := r]\<rparr>"
      by (auto simp: nats_ReadPartition_def)
    have ro: "reader_ok pos ?name p (nl_readers nl ! unat p) (nl_js nl)" using assms(2) len by (simp add: readers_ok_def)
    note R = read_locked_ok [OF assms(1) ro rl]
    have "reader_ok pos (pullConsumerName nl q) q ((nl_readers nl)[unat p := r] ! unat q) js" if "unat q < length (nl_readers nl)" for q
    proof (cases "q = p")
      case False
      then have "pullConsumerName nl q \<noteq> ?name" by (simp add: pullConsumerName_inject)
      then have "pos js (pullConsumerName nl q) = pos (nl_js nl) (pullConsumerName nl q)" using R(1) by (simp add: quiet_def)
      moreover have "(nl_readers nl)[unat p := r] ! unat q = nl_readers nl ! unat q" using False by (simp add: word_unat_eq_iff)
      moreover have "reader_ok pos (pullConsumerName nl q) q (nl_readers nl ! unat q) (nl_js nl)" using assms(2) that by (simp add: readers_ok_def)
      ultimately show ?thesis using reader_ok_pos by metis
    qed (use R(1) len in simp)
    with assms(2) have "readers_ok pos nl'" by (simp add: readers_ok_def res(2) pullConsumerName_def)
    with R waiting_start [OF assms(1)] show ?thesis by (simp add: res quiet_def js_keeps_def)
  qed
  then show "ok (nl_js nl') \<and> view (nl_js nl') = view (nl_js nl) \<and> seen (nl_js nl') = seen (nl_js nl) \<and> readers_ok pos nl'"
    "res = Inr es \<Longrightarrow> delivers unmarshal p (take (nat limit) (waiting (natsSubject p) from (view (nl_js nl)))) es" by blast+
qed

lemma OpenNats_readers: "OpenNats env peers num ret = Inr nl \<Longrightarrow> readers_ok pos nl"
  by (auto simp: OpenNats_def new_nats_log_def readers_ok_def Let_def intro: reader_ok_None split: option.splits sum.splits)

end

section \<open>The log for the watermark checker\<close>

definition nats_stored :: "('js \<Rightarrow> (u64 \<times> js_msg) list) \<Rightarrow> 'js nats_log \<Rightarrow> u32 \<Rightarrow> u64 \<Rightarrow> string option" where
  "nats_stored view nl p i = map_of (map (\<lambda>(q, m). (q, jm_data m)) (waiting (natsSubject p) 0 (view (nl_js nl)))) i"

definition nats_pages :: "('n, 'js) jetstream \<Rightarrow> (string \<Rightarrow> change_event option) \<Rightarrow> 'n read_env \<Rightarrow> 'js nats_log \<Rightarrow> u32 \<Rightarrow> u64 \<Rightarrow> log_entry list option" where
  "nats_pages jt unmarshal env nl p s =
     (case nats_ReadPartition jt unmarshal env p s (int watermarkPageSize) nl of Ret (Inr es, _) \<Rightarrow> Some es | _ \<Rightarrow> None)"

locale open_jetstream_log = jetstream_log jt ok view seen pos
  for jt :: "('n, 'js) jetstream" and ok view seen pos +
  fixes nl :: "'js nats_log" and unmarshal :: "string \<Rightarrow> change_event option" and env :: "'n read_env"
  assumes nl_ok: "ok (nl_js nl)" and nl_readers: "readers_ok pos nl" and no_empty: "unmarshal [] = None"
begin

lemma waiting_sorted: "sorted_wrt (<) (map fst (waiting subj s (view (nl_js nl))))"
  using view_ok(1) [OF nl_ok] by (simp add: waiting_def sorted_wrt_map sorted_wrt_filter)

lemma stored_iff: "nats_stored view nl p i = Some d \<longleftrightarrow> (\<exists>m. (i, m) \<in> set (waiting (natsSubject p) 0 (view (nl_js nl))) \<and> d = jm_data m)"
proof -
  let ?ws = "waiting (natsSubject p) 0 (view (nl_js nl))"
  have "distinct (map fst (map (\<lambda>(q, m). (q, jm_data m)) ?ws))"
    using strict_sorted_iff [of "map fst ?ws"] waiting_sorted [of "natsSubject p" 0] by (simp add: comp_def case_prod_beta)
  then show ?thesis by (auto simp: nats_stored_def)
qed

lemma pagesD:
  assumes "nats_pages jt unmarshal env nl p s = Some es"
  shows "delivers unmarshal p (take watermarkPageSize (waiting (natsSubject p) s (view (nl_js nl)))) es"
proof -
  from assms obtain nl' where "nats_ReadPartition jt unmarshal env p s (int watermarkPageSize) nl = Ret (Inr es, nl')"
    by (auto simp: nats_pages_def split: go.splits prod.splits sum.splits)
  from ReadPartition_ok(2) [OF nl_ok nl_readers this refl] show ?thesis by simp
qed

end

sublocale open_jetstream_log \<subseteq> pages: paged_log "nats_pages jt unmarshal env nl" "nats_stored view nl" unmarshal
proof unfold_locales
  fix p s es
  assume r: "nats_pages jt unmarshal env nl p s = Some es"
  let ?ws = "waiting (natsSubject p) s (view (nl_js nl))"
  note D = pagesD [OF r, unfolded delivers_def]
  show "sorted_wrt (<) (map le_seq es)"
    using D waiting_sorted [of "natsSubject p" s] by (simp add: take_map [symmetric] sorted_wrt_take)
  show "s \<le> le_seq e \<and> nats_stored view nl p (le_seq e) = Some (le_raw e) \<and>
      le_event e \<in> {None, stored_event (nats_stored view nl) unmarshal p (le_seq e)}" if "e \<in> set es" for e
  proof -
    from that obtain k where k: "k < length es" "es ! k = e" by (auto simp: in_set_conv_nth)
    have len: "length es = length (take watermarkPageSize ?ws)" using D by (metis length_map)
    have "le_seq e = fst (take watermarkPageSize ?ws ! k)" "le_raw e = jm_data (snd (take watermarkPageSize ?ws ! k))"
      using D k len by (metis nth_map, metis comp_apply nth_map)
    moreover have "take watermarkPageSize ?ws ! k \<in> set ?ws" using k(1) len by (metis in_set_takeD nth_mem)
    ultimately obtain m where m: "(le_seq e, m) \<in> set ?ws" "le_raw e = jm_data m" by (metis prod.collapse)
    then have st: "nats_stored view nl p (le_seq e) = Some (le_raw e)" "s \<le> le_seq e" unfolding stored_iff by (auto simp: waiting_def)
    from D that obtain ev where "le_event e = Some ev" "unmarshal (le_raw e) = Some ev" by blast
    with st no_empty show ?thesis by (auto simp: stored_event_def)
  qed
  show "i \<in> le_seq ` set es" if "s \<le> i" "nats_stored view nl p i \<noteq> None" "(\<exists>e \<in> set es. i < le_seq e) \<or> length es < watermarkPageSize" for i
  proof -
    from that(1,2) have i: "i \<in> set (map fst ?ws)"
      using stored_iff [of p i "the (nats_stored view nl p i)"] by (force simp: waiting_def)
    have le: "le_seq ` set es = set (take watermarkPageSize (map fst ?ws))" "length es = length (take watermarkPageSize (map fst ?ws))"
      using D by (metis list.set_map take_map, metis length_map take_map)
    have "i \<in> set (take watermarkPageSize (map fst ?ws))"
    proof (rule ccontr)
      assume no: "i \<notin> set (take watermarkPageSize (map fst ?ws))"
      with i have drop: "i \<in> set (drop watermarkPageSize (map fst ?ws))" by (metis Un_iff append_take_drop_id set_append)
      then have "length (take watermarkPageSize (map fst ?ws)) = watermarkPageSize" by (auto simp: min_def)
      with that(3) le(2) obtain e where e: "e \<in> set es" "i < le_seq e" by auto
      with le(1) have "le_seq e \<in> set (take watermarkPageSize (map fst ?ws))" by blast
      moreover have "sorted_wrt (<) (take watermarkPageSize (map fst ?ws) @ drop watermarkPageSize (map fst ?ws))"
        using waiting_sorted [of "natsSubject p" s] by simp
      ultimately have "le_seq e < i" using drop unfolding sorted_wrt_append by blast
      with e(2) show False by simp
    qed
    with le(1) show ?thesis by simp
  qed
next
  fix p i
  show "i \<noteq> - 1" if "nats_stored view nl p i \<noteq> None"
  proof -
    from that obtain d where "nats_stored view nl p i = Some d" by blast
    then obtain m where "(i, m) \<in> set (view (nl_js nl))" unfolding stored_iff by (auto simp: waiting_def)
    with view_ok(2) [OF nl_ok] show ?thesis by blast
  qed
qed

section \<open>Batches\<close>

text \<open>How the stream grows by a batch: an acknowledged message is appended, a duplicate is not, after an error either.\<close>

fun grows :: "js_msg list \<Rightarrow> pub_result list \<Rightarrow> (u64 \<times> js_msg) list \<Rightarrow> bool" where
  "grows (m # ms) (PubAck q dup # rs) new = (if dup then grows ms rs new else \<exists>new'. new = (q, m) # new' \<and> grows ms rs new')"
| "grows (m # ms) (PubErr err # rs) new = (grows ms rs new \<or> (\<exists>q new'. new = (q, m) # new' \<and> grows ms rs new'))"
| "grows ms rs new = (ms = [] \<and> rs = [] \<and> new = [])"

text \<open>The stream after a publish that ended early grew by a part of the batch.\<close>

context jetstream_log
begin

lemma publish_async_ok:
  "ok js \<Longrightarrow> publish_async jt env i ms js = (Inr rs, js') \<Longrightarrow>
     ok js' \<and> pos js' = pos js \<and> length rs = length ms \<and> (\<exists>new. view js' = view js @ new \<and> grows ms rs new) \<and> seen js \<subseteq> seen js' \<and>
     (\<forall>k < length ms. \<forall>q d. rs ! k = PubAck q d \<longrightarrow> jm_id (ms ! k) \<in> seen js')"
proof (induction ms arbitrary: i js rs)
  case (Cons m ms)
  obtain r js1 where p: "jt_publish jt (env i) m js = (r, js1)" by (cases "jt_publish jt (env i) m js")
  from Cons.prems(2) p obtain rs' where rs: "rs = r # rs'" "publish_async jt env (Suc i) ms js1 = (Inr rs', js')"
    by (auto split: option.splits prod.splits sum.splits)
  from publish_law [OF Cons.prems(1) p] have P: "ok js1" "pos js1 = pos js" "published view seen m r js js1" by simp_all
  from Cons.IH [OF P(1) rs(2)] obtain new where I: "ok js'" "pos js' = pos js1" "length rs' = length ms" "view js' = view js1 @ new"
      "grows ms rs' new" "seen js1 \<subseteq> seen js'" "\<forall>k < length ms. \<forall>q d. rs' ! k = PubAck q d \<longrightarrow> jm_id (ms ! k) \<in> seen js'" by blast
  have s1: "seen js \<subseteq> seen js1" "\<And>q d. r = PubAck q d \<Longrightarrow> jm_id m \<in> seen js1"
    using P(3) by (auto simp: published_def js_stores_def js_keeps_def split: pub_result.splits bool.splits)
  have "\<exists>new. view js' = view js @ new \<and> grows (m # ms) (r # rs') new"
    using P(3) I(4,5) by (cases r) (auto simp: published_def js_stores_def js_keeps_def split: bool.splits)
  moreover have "\<forall>k < length (m # ms). \<forall>q d. (r # rs') ! k = PubAck q d \<longrightarrow> jm_id ((m # ms) ! k) \<in> seen js'"
    using I(6,7) s1(2) by (auto simp: nth_Cons split: nat.splits)
  ultimately show ?case using I P s1 rs(1) by auto
qed auto

end

text \<open>What is collected are the events whose own acknowledgement arrived in time.\<close>

fun told :: "(nat \<Rightarrow> bool) \<Rightarrow> nat \<Rightarrow> (change_event \<times> u32 \<times> pub_result) list \<Rightarrow> (change_event \<times> u64) list" where
  "told ctx i [] = []"
| "told ctx i ((ev, p, r) # xs) =
     (case r of PubAck q False \<Rightarrow> if ctx i then told ctx (Suc i) xs else (ev, q) # told ctx (Suc i) xs | _ \<Rightarrow> told ctx (Suc i) xs)"

lemma collect_written: "ba_written (collectBatchPubAcks ctx i xs ba) = ba_written ba @ told ctx i xs"
  by (induction ctx i xs ba rule: collectBatchPubAcks.induct) (auto split: pub_result.splits bool.splits)

definition told_key :: "change_event \<times> u64 \<Rightarrow> u64 \<times> string" where
  "told_key = (\<lambda>(ev, q). (q, ev_idempotency_key ev))"

definition stored_key :: "u64 \<times> js_msg \<Rightarrow> u64 \<times> string" where
  "stored_key = (\<lambda>(q, m). (q, jm_id m))"

fun all_acked :: "(nat \<Rightarrow> bool) \<Rightarrow> nat \<Rightarrow> pub_result list \<Rightarrow> bool" where
  "all_acked ctx i [] = True"
| "all_acked ctx i (r # rs) = (\<not> ctx i \<and> (\<exists>q d. r = PubAck q d) \<and> all_acked ctx (Suc i) rs)"

lemma all_acked_nth: "all_acked ctx i rs \<Longrightarrow> k < length rs \<Longrightarrow> \<exists>q d. rs ! k = PubAck q d"
  by (induction rs arbitrary: i k) (auto simp: nth_Cons split: nat.splits)

lemma collect_err:
  "ba_err (collectBatchPubAcks ctx i xs ba) = None \<longleftrightarrow> ba_err ba = None \<and> all_acked ctx i (map (snd \<circ> snd) xs)"
  by (induction ctx i xs ba rule: collectBatchPubAcks.induct) (auto split: pub_result.splits bool.splits)

text \<open>Observers are told, in order, of messages that were stored; of all of them when nothing failed.\<close>

lemma told_grows:
  assumes "grows ms rs new" "map jm_id ms = map ev_idempotency_key evs" "length ps = length evs"
  shows "subseq (map told_key (told ctx i (zip evs (zip ps rs)))) (map stored_key new)"
    and "all_acked ctx i rs \<Longrightarrow> map told_key (told ctx i (zip evs (zip ps rs))) = map stored_key new"
  using assms
proof (induction ms rs new arbitrary: evs ps i rule: grows.induct)
  case (1 m ms q dup rs new)
  { case 1
    then show ?case using "1.IH" by (cases evs; cases ps; cases dup) (auto simp: told_key_def stored_key_def, rule list_emb_Cons, simp)
  next
    case 2
    then show ?case using "1.IH" by (cases evs; cases ps; cases dup) (auto simp: told_key_def stored_key_def) }
next
  case (2 m ms err rs new)
  { case 1
    then show ?case using "2.IH" by (cases evs; cases ps) (auto, rule list_emb_Cons, simp)
  next
    case 2
    then show ?case by auto }
qed auto

lemma nats_notify_frame [simp]:
  "el_calls (fold notify ps el) = el_calls el" "el_observers (fold notify ps el) = el_observers el" "el_db (fold notify ps el) = el_db el"
  by (induction ps arbitrary: el) (simp_all add: notify_def)

lemma prepare_msgs_ok:
  "prepare_msgs marshal num evs = Ret (Inr pms) \<Longrightarrow> length pms = length evs \<and> map jm_id (map snd pms) = map ev_idempotency_key evs"
  by (induction evs arbitrary: pms) (auto simp: nats_msg_def split: go.splits option.splits sum.splits)

context jetstream_log
begin

text \<open>The common part of a batch that got as far as collecting the acknowledgements.\<close>

lemma batch_run:
  assumes "nats_AppendBatch jt marshal env ctx evs nl = Ret ((seqs, err), nl')" "evs \<noteq> []" "ok (nl_js nl)"
    and "prepare_msgs marshal (el_num (nl_log nl)) evs = Ret (Inr pms)" "publish_async jt env 0 (map snd pms) (nl_js nl) = (Inr rs, js)"
  shows "\<exists>new. ok (nl_js nl') \<and> view (nl_js nl') = view (nl_js nl) @ new \<and>
    el_calls (nl_log nl') = el_calls (nl_log nl) @
      (let ws = told ctx 0 (zip evs (zip (map fst pms) rs)) in if ws = [] then [] else map (\<lambda>ob. (ob, ws)) (el_observers (nl_log nl))) \<and>
    subseq (map told_key (told ctx 0 (zip evs (zip (map fst pms) rs)))) (map stored_key new) \<and>
    (err = None \<longrightarrow> map told_key (told ctx 0 (zip evs (zip (map fst pms) rs))) = map stored_key new \<and>
      (\<forall>ev \<in> set evs. ev_idempotency_key ev \<in> seen (nl_js nl')))"
proof -
  let ?ba = "collectBatchPubAcks ctx 0 (zip evs (zip (map fst pms) rs)) no_acks"
  have P: "length pms = length evs" "map jm_id (map snd pms) = map ev_idempotency_key evs" using prepare_msgs_ok [OF assms(4)] by simp_all
  from publish_async_ok [OF assms(3,5)] obtain new where A: "ok js" "length rs = length pms" "view js = view (nl_js nl) @ new"
      "grows (map snd pms) rs new" "\<forall>k < length (map snd pms). \<forall>q d. rs ! k = PubAck q d \<longrightarrow> jm_id (map snd pms ! k) \<in> seen js"
    by auto
  have nl': "err = ba_err ?ba" "nl_log nl' = notifyObservers (ba_written ?ba) (fold notify (ba_notify ?ba) ((nl_log nl)\<lparr>el_db := js\<rparr>))"
    using assms by (auto simp: nats_AppendBatch_def Let_def)
  have w: "ba_written ?ba = told ctx 0 (zip evs (zip (map fst pms) rs))" by (simp add: collect_written no_acks_def)
  have len: "length (map fst pms) = length evs" using P by simp
  note T = told_grows [OF A(4) P(2) len, of ctx 0]
  have "map (snd \<circ> snd) (zip evs (zip (map fst pms) rs)) = rs" using A(2) P(1) by (simp add: map_zip_map2 flip: map_map)
  then have acked: "err = None \<longleftrightarrow> all_acked ctx 0 rs" by (simp add: nl'(1) collect_err no_acks_def)
  have seen: "ev_idempotency_key ev \<in> seen js" if "err = None" "ev \<in> set evs" for ev
  proof -
    from that(2) obtain k where k: "k < length evs" "evs ! k = ev" by (auto simp: in_set_conv_nth)
    with all_acked_nth [of ctx 0 rs k] that(1) acked A(2) P(1) obtain q d where "rs ! k = PubAck q d" by auto
    with A(5) k P have "jm_id (map snd pms ! k) \<in> seen js" by simp
    moreover have "jm_id (map snd pms ! k) = ev_idempotency_key ev" using P k by (metis length_map nth_map)
    ultimately show ?thesis by simp
  qed
  show ?thesis
    by (rule exI [of _ new]) (use A(1,3) nl'(2) w T acked seen in \<open>simp add: notifyObservers_def Let_def\<close>)
qed

end

text \<open>
  A batch that reaches the server: whatever is acknowledged or fails, observers are told, in order,
  of events that are in the stream now. When \<open>AppendBatch\<close> returns nil they are told of exactly what the
  stream grew by, and every event of the batch is in the stream or was there before.
\<close>

theorem nats_batch_observed:
  assumes "js_laws jt ok view seen pos" "ok (nl_js nl)" "evs \<noteq> []"
    and "prepare_msgs marshal (el_num (nl_log nl)) evs = Ret (Inr pms)" "publish_async jt env 0 (map snd pms) (nl_js nl) = (Inr rs, js)"
    and "nats_AppendBatch jt marshal env ctx evs nl = Ret ((seqs, err), nl')"
  shows "\<exists>new ws. view (nl_js nl') = view (nl_js nl) @ new \<and>
    el_calls (nl_log nl') = el_calls (nl_log nl) @ (if ws = [] then [] else map (\<lambda>ob. (ob, ws)) (el_observers (nl_log nl))) \<and>
    subseq (map told_key ws) (map stored_key new) \<and>
    (err = None \<longrightarrow> map told_key ws = map stored_key new \<and> (\<forall>ev \<in> set evs. ev_idempotency_key ev \<in> seen (nl_js nl')))"
  using jetstream_log.batch_run [OF jetstream_log.intro [OF assms(1)] assms(6,3,2,4,5)] unfolding Let_def by blast

text \<open>
  C26. Reading: whatever the consumer of the partition was used for before, a read that returns no error
  yields the events of the partition from the given number on, in order, as many as asked for and there;
  and the readers keep knowing where their consumers stand.
\<close>

theorem nats_read_correct:
  assumes "js_laws jt ok view seen pos" "ok (nl_js nl)" "readers_ok pos nl"
    and "nats_ReadPartition jt unmarshal env p from limit nl = Ret (res, nl')"
  shows "readers_ok pos nl' \<and> ok (nl_js nl') \<and> view (nl_js nl') = view (nl_js nl) \<and>
    (\<forall>es. res = Inr es \<longrightarrow> delivers unmarshal p (take (nat limit) (waiting (natsSubject p) from (view (nl_js nl)))) es)"
  using jetstream_log.ReadPartition_ok [OF jetstream_log.intro [OF assms(1)] assms(2,3,4)] by blast

text \<open>
  A batch with two events of one row: the first publish fails and the second is stored. The batch
  fails, the connector sends it again after its reconnect, and the server drops the second as a duplicate,
  so that the older event follows the newer one in the log.
\<close>

theorem nats_batch_reorders:
  assumes "js_laws jt ok view seen pos" "ok (nl_js nl)"
    and "prepare_msgs marshal (el_num (nl_log nl)) [a, b] = Ret (Inr [(p, ma), (p, mb)])"
    and "jm_id ma \<noteq> jm_id mb" "jm_id ma \<notin> seen (nl_js nl)"
    and "\<And>k m s. jt_async_err jt (env k) m s = None" "\<And>k m s. jt_async_err jt (env' k) m s = None" "\<And>k. \<not> ctx k"
    and "jt_publish jt (env 0) ma (nl_js nl) = (PubErr e, js1)" "view js1 = view (nl_js nl)" "seen js1 = seen (nl_js nl)"
    and "jt_publish jt (env 1) mb js1 = (PubAck q False, js2)"
    and "jt_publish jt (env' 0) ma js2 = (PubAck q1 d1, js3)" "jt_publish jt (env' 1) mb js3 = (PubAck q2 d2, js4)"
  shows "\<exists>seqs1 nl1 seqs2 nl2 q'. nats_AppendBatch jt marshal env ctx [a, b] nl = Ret ((seqs1, Some (NatsAck 0 e)), nl1) \<and>
    nats_AppendBatch jt marshal env' ctx [a, b] nl1 = Ret ((seqs2, None), nl2) \<and>
    view (nl_js nl2) = view (nl_js nl) @ [(q, mb), (q', ma)]"
proof -
  note P = jetstream_log.publish_law [OF jetstream_log.intro [OF assms(1)]]
  from P [OF assms(2,9)] have o1: "ok js1" by simp
  from P [OF o1 assms(12)] have o2: "ok js2" "view js2 = view (nl_js nl) @ [(q, mb)]" "seen js2 = insert (jm_id mb) (seen (nl_js nl))"
    using assms(10,11) by (simp_all add: published_def js_stores_def)
  from P [OF o2(1) assms(13)] have d1: "\<not> d1" "ok js3" "view js3 = view js2 @ [(q1, ma)]" "seen js3 = insert (jm_id ma) (seen js2)"
    using assms(4,5) o2(3) by (cases d1; simp add: published_def js_stores_def)+
  from P [OF d1(2) assms(14)] have d2: "d2" "view js4 = view js3"
    using d1(4) o2(3) by (cases d2; simp add: published_def js_stores_def js_keeps_def)+
  have "publish_async jt env 0 [ma, mb] (nl_js nl) = (Inr [PubErr e, PubAck q False], js2)" using assms(6,9,12) by simp
  then obtain seqs1 nl1 where r1: "nats_AppendBatch jt marshal env ctx [a, b] nl = Ret ((seqs1, Some (NatsAck 0 e)), nl1)"
      "nl_js nl1 = js2" "el_num (nl_log nl1) = el_num (nl_log nl)"
    using assms(3,8) by (simp add: nats_AppendBatch_def no_acks_def notifyObservers_def notify_def)
  have "publish_async jt env' 0 [ma, mb] (nl_js nl1) = (Inr [PubAck q1 False, PubAck q2 True], js4)"
    using assms(7,13,14) d1(1) d2(1) r1(2) by simp
  then obtain seqs2 nl2 where "nats_AppendBatch jt marshal env' ctx [a, b] nl1 = Ret ((seqs2, None), nl2)" "nl_js nl2 = js4"
    using assms(3,8) r1(3) by (simp add: nats_AppendBatch_def no_acks_def notifyObservers_def notify_def)
  with r1(1) d2(2) d1(3) o2(2) show ?thesis by auto
qed

text \<open>
  An event whose acknowledgement is lost is stored, but the observers are not told: not when the
  append fails, and not when it is repeated, as the server answers that it is a duplicate. The index of the
  watermark checker then never hears of it.
\<close>

theorem nats_lost_ack_unobserved:
  assumes "js_laws jt ok view seen pos" "ok (nl_js nl)"
    and "PartitionOf (str_bytes (raw_str (ev_key ev))) (el_num (nl_log nl)) = Ret p" "marshal ev = Some data"
    and "jt_publish jt n (nats_msg p data ev) (nl_js nl) = (PubErr e, js1)" "view js1 \<noteq> view (nl_js nl)"
    and "jt_publish jt n' (nats_msg p data ev) js1 = (PubAck q d, js2)"
  shows "\<exists>nl1 nl2 q'. nats_Append jt marshal n ev nl = Ret (Inl (NatsPublish e), nl1) \<and>
    nats_Append jt marshal n' ev nl1 = Ret (Inr 0, nl2) \<and>
    view (nl_js nl2) = view (nl_js nl) @ [(q', nats_msg p data ev)] \<and> el_calls (nl_log nl2) = el_calls (nl_log nl)"
proof -
  note P = jetstream_log.publish_law [OF jetstream_log.intro [OF assms(1)]]
  from P [OF assms(2,5)] assms(6) obtain q' where o1: "ok js1" "view js1 = view (nl_js nl) @ [(q', nats_msg p data ev)]"
      "jm_id (nats_msg p data ev) \<in> seen js1"
    by (auto simp: published_def js_keeps_def js_stores_def)
  from P [OF o1(1) assms(7)] o1(3) have "d" "view js2 = view js1" by (cases d; simp add: published_def js_stores_def js_keeps_def)+
  with assms(3,4,5,7) o1(2) show ?thesis by (simp add: nats_Append_def)
qed

end
