(* ===== verification/Nats_Examples.thy ===== *)
theory Nats_Examples
  imports Nats_Props Eventlog_Instance
begin

text \<open>A stream in memory with the laws of JetStream, and runs of the log on it.\<close>

datatype fault = NoFault | NotStored | AckLost | AsyncFails

record mem_js =
  mj_msgs :: "(u64 \<times> js_msg) list"
  mj_next :: u64
  mj_cons :: "(string, string \<times> u64) gomap"

definition mj_seen :: "mem_js \<Rightarrow> string set" where
  "mj_seen s = (jm_id \<circ> snd) ` set (mj_msgs s)"

definition mj_ok :: "mem_js \<Rightarrow> bool" where
  "mj_ok s \<longleftrightarrow> sorted_wrt (<) (map fst (mj_msgs s)) \<and> (\<forall>q \<in> fst ` set (mj_msgs s). q \<noteq> 0 \<and> q < mj_next s) \<and> mj_next s \<noteq> 0"

definition mj_store :: "js_msg \<Rightarrow> mem_js \<Rightarrow> mem_js" where
  "mj_store m s = s\<lparr>mj_msgs := mj_msgs s @ [(mj_next s, m)], mj_next := mj_next s + 1\<rparr>"

definition mj_publish :: "fault \<Rightarrow> js_msg \<Rightarrow> mem_js \<Rightarrow> pub_result \<times> mem_js" where
  "mj_publish n m s =
     (if mj_next s = - 1 then (PubErr ''full'', s)
      else if jm_id m \<in> mj_seen s then (if n = NoFault then (PubAck 0 True, s) else (PubErr ''timeout'', s))
      else case n of
             NotStored \<Rightarrow> (PubErr ''timeout'', s)
           | AckLost \<Rightarrow> (PubErr ''timeout'', mj_store m s)
           | _ \<Rightarrow> (PubAck (mj_next s) False, mj_store m s))"

definition mj_fetch :: "fault \<Rightarrow> string \<Rightarrow> nat \<Rightarrow> mem_js \<Rightarrow> (string + fetched \<times> string option) \<times> mem_js" where
  "mj_fetch n name k s =
     (case gm_get (mj_cons s) name of
        None \<Rightarrow> (Inl ''no consumer'', s)
      | Some (subj, from) \<Rightarrow>
          if n = NoFault then
            let ws = take k (waiting subj from (mj_msgs s))
            in (Inr (map (\<lambda>(q, m). (Some q, jm_data m)) ws, None),
                s\<lparr>mj_cons := gm_set name (subj, if ws = [] then from else fst (last ws) + 1) (mj_cons s)\<rparr>)
          else (Inl ''timeout'', s))"

definition mem_jt :: "(fault, mem_js) jetstream" where
  "mem_jt = \<lparr>jt_async_err = (\<lambda>n m s. if n = AsyncFails then Some ''stalled'' else None), jt_publish = mj_publish,
     jt_create = (\<lambda>n name subj from s. (None, s\<lparr>mj_cons := gm_set name (subj, from) (mj_cons s)\<rparr>)),
     jt_delete = (\<lambda>n name s. s\<lparr>mj_cons := gm_del name (mj_cons s)\<rparr>), jt_fetch = mj_fetch\<rparr>"

abbreviation mj_pos :: "mem_js \<Rightarrow> string \<Rightarrow> (string \<times> u64) option" where
  "mj_pos s \<equiv> gm_get (mj_cons s)"

lemma mj_store_ok: "mj_ok s \<Longrightarrow> mj_next s \<noteq> - 1 \<Longrightarrow> mj_ok (mj_store m s)"
proof -
  assume ok: "mj_ok s" and n: "mj_next s \<noteq> - 1"
  have "mj_next s < mj_next s + 1" by (rule word_less_succ [OF n])
  with ok show ?thesis by (force simp: mj_ok_def mj_store_def sorted_wrt_append intro: less_trans)
qed

lemma mj_stores: "jm_id m \<notin> mj_seen s \<Longrightarrow> js_stores mj_msgs mj_seen m (mj_next s) s (mj_store m s)"
  by (auto simp: js_stores_def mj_store_def mj_seen_def)

lemma mem_js_laws: "js_laws mem_jt mj_ok mj_msgs mj_seen mj_pos"
  unfolding js_laws_def
proof (intro conjI allI impI)
  fix s assume ok: "mj_ok s"
  show "sorted_wrt (<) (map fst (mj_msgs s))" using ok by (simp add: mj_ok_def)
  show "\<forall>q \<in> fst ` set (mj_msgs s). q \<noteq> 0 \<and> q \<noteq> - 1" using ok by (auto simp: mj_ok_def)
next
  fix n m s r s' assume ok: "mj_ok s" and p: "jt_publish mem_jt n m s = (r, s')"
  from p have p: "mj_publish n m s = (r, s')" by (simp add: mem_jt_def)
  show "mj_ok s'" using p ok mj_store_ok by (auto simp: mj_publish_def split: if_splits fault.splits)
  show "mj_pos s' = mj_pos s" using p by (auto simp: mj_publish_def mj_store_def split: if_splits fault.splits)
  show "published mj_msgs mj_seen m r s s'"
    using p mj_stores [of m s] by (auto simp: mj_publish_def published_def js_keeps_def split: if_splits fault.splits)
next
  fix n name k s r s' assume ok: "mj_ok s" and f: "jt_fetch mem_jt n name k s = (r, s')"
  from f have f: "mj_fetch n name k s = (r, s')" by (simp add: mem_jt_def)
  then obtain cs where s': "s' = s\<lparr>mj_cons := cs\<rparr>" "\<And>c. c \<noteq> name \<Longrightarrow> gm_get cs c = mj_pos s c"
  proof (cases "mj_cons s' = mj_cons s")
    case True
    with f that [of "mj_cons s"] show ?thesis by (auto simp: mj_fetch_def Let_def split: option.splits if_splits)
  next
    case False
    with f that [of "mj_cons s'"] show ?thesis by (auto simp: mj_fetch_def Let_def gm_get_set split: option.splits if_splits)
  qed
  then show "mj_ok s'" "js_keeps mj_msgs mj_seen s s'" "\<And>c. c \<noteq> name \<Longrightarrow> mj_pos s' c = mj_pos s c"
    using ok by (simp_all add: mj_ok_def js_keeps_def mj_seen_def)
  fix ms assume "r = Inr (ms, None)"
  with f obtain subj st where x: "mj_pos s name = Some (subj, st)" "ms = map (\<lambda>(q, m). (Some q, jm_data m)) (take k (waiting subj st (mj_msgs s)))"
      "mj_pos s' name = Some (subj, if take k (waiting subj st (mj_msgs s)) = [] then st else fst (last (take k (waiting subj st (mj_msgs s)))) + 1)"
    by (auto simp: mj_fetch_def Let_def gm_get_set split: option.splits if_splits)
  then show "fetch_ok mj_msgs mj_pos name k ms s s'"
    unfolding fetch_ok_def by (intro exI [of _ subj] exI [of _ st]) (simp add: list_all2_conv_all_nth case_prod_beta)
qed (auto simp: mem_jt_def js_keeps_def mj_ok_def mj_seen_def gm_get_set gm_get_del)

section \<open>Runs\<close>

definition ex_nats :: "mem_js nats_log" where
  "ex_nats = new_nats_log \<lparr>mj_msgs = [], mj_next = 1, mj_cons = []\<rparr> ''i'' 1 0"

abbreviation nats_marshal :: "change_event \<Rightarrow> string option" where
  "nats_marshal \<equiv> (\<lambda>ev. Some (ev_id ev))"

definition row_event :: "string \<Rightarrow> change_event" where
  "row_event i = (ex_event i)\<lparr>ev_id := i\<rparr>"

abbreviation row_msg :: "string \<Rightarrow> js_msg" where
  "row_msg i \<equiv> nats_msg 0 i (row_event i)"

lemma row_prepared: "prepare_msgs nats_marshal (el_num (nl_log ex_nats)) [row_event i, row_event j] = Ret (Inr [(0, row_msg i), (0, row_msg j)])"
  by (simp add: ex_nats_def new_nats_log_def PartitionOf_def row_event_def)

lemma ex_nats_ok: "mj_ok (nl_js ex_nats)" "mj_msgs (nl_js ex_nats) = []" "mj_seen (nl_js ex_nats) = {}" "readers_ok mj_pos ex_nats"
  by (simp_all add: ex_nats_def new_nats_log_def mj_ok_def mj_seen_def readers_ok_def reader_ok_def)

interpretation mem_stream: jetstream_log mem_jt mj_ok mj_msgs mj_seen mj_pos
  by (rule jetstream_log.intro [OF mem_js_laws])

lemma ex_publish: "publish_async mem_jt (\<lambda>_. NoFault) 0 [row_msg ''a'', row_msg ''b''] (nl_js ex_nats) =
    (Inr [PubAck 1 False, PubAck 2 False], \<lparr>mj_msgs = [(1, row_msg ''a''), (2, row_msg ''b'')], mj_next = 3, mj_cons = []\<rparr>)"
  by (simp add: mem_jt_def mj_publish_def mj_store_def mj_seen_def ex_nats_def new_nats_log_def nats_msg_def row_event_def ex_event_def)

definition ex_nats1 :: "mem_js nats_log" where
  "ex_nats1 = ex_nats\<lparr>nl_log := (nl_log ex_nats)\<lparr>el_db := \<lparr>mj_msgs = [(1, row_msg ''a''), (2, row_msg ''b'')], mj_next = 3, mj_cons = []\<rparr>,
     el_pending := [0]\<rparr>\<rparr>"

lemma ex_nats_batch: "nats_AppendBatch mem_jt nats_marshal (\<lambda>_. NoFault) (\<lambda>_. False) [row_event ''a'', row_event ''b''] ex_nats = Ret (([1, 2], None), ex_nats1)"
proof -
  have "\<exists>l. nats_AppendBatch mem_jt nats_marshal (\<lambda>_. NoFault) (\<lambda>_. False) [row_event ''a'', row_event ''b''] ex_nats = Ret (([1, 2], None), l) \<and> l = ex_nats1"
    using row_prepared [of "''a''" "''b''"] ex_publish
    by (simp add: nats_AppendBatch_def no_acks_def ex_nats1_def notifyObservers_def) (simp add: ex_nats_def new_nats_log_def notify_def)
  then show ?thesis by blast
qed

theorem nats_batch_observed_witness:
  "\<exists>new. nats_AppendBatch mem_jt nats_marshal (\<lambda>_. NoFault) (\<lambda>_. False) [row_event ''a'', row_event ''b''] ex_nats = Ret (([1, 2], None), ex_nats1) \<and>
     mj_msgs (nl_js ex_nats1) = mj_msgs (nl_js ex_nats) @ new \<and> ev_idempotency_key (row_event ''a'') \<in> mj_seen (nl_js ex_nats1)"
proof -
  have p: "publish_async mem_jt (\<lambda>_. NoFault) 0 (map snd [(0, row_msg ''a''), (0, row_msg ''b'')]) (nl_js ex_nats) =
    (Inr [PubAck 1 False, PubAck 2 False], \<lparr>mj_msgs = [(1, row_msg ''a''), (2, row_msg ''b'')], mj_next = 3, mj_cons = []\<rparr>)"
    using ex_publish by simp
  from nats_batch_observed [OF mem_js_laws ex_nats_ok(1) _ row_prepared [of "''a''" "''b''"] p ex_nats_batch] ex_nats_batch show ?thesis by auto
qed

definition ex_read :: "fault read_env" where
  "ex_read = \<lparr>rv_ctx = False, rv_delete = NoFault, rv_stale = NoFault, rv_create = NoFault, rv_fetch = NoFault, rv_drop = NoFault\<rparr>"

lemma ex_nats1_ok: "mj_ok (nl_js ex_nats1)" "readers_ok mj_pos ex_nats1"
  by (simp_all add: ex_nats1_def mj_ok_def readers_ok_def reader_ok_def ex_nats_def new_nats_log_def)

theorem nats_read_correct_witness:
  "\<exists>es nl'. nats_ReadPartition mem_jt (\<lambda>s. Some (row_event s)) ex_read 0 2 5 ex_nats1 = Ret (Inr es, nl') \<and> readers_ok mj_pos nl' \<and>
     delivers (\<lambda>s. Some (row_event s)) 0 [(2, row_msg ''b'')] es"
proof -
  have w: "waiting (natsSubject 0) 2 (mj_msgs (nl_js ex_nats1)) = [(2, row_msg ''b'')]"
    by (simp add: ex_nats1_def waiting_def nats_msg_def word_le_nat_alt)
  let ?u = "\<lambda>s. Some (row_event s)" and ?n = "pullConsumerName ex_nats1 0" and ?r = "nl_readers ex_nats1 ! 0"
  let ?js = "(nl_js ex_nats1)\<lparr>mj_cons := [(?n, natsSubject 0, 2)]\<rparr>"
  have e: "ensurePullConsumer mem_jt ex_read ?n 0 2 (?r, nl_js ex_nats1) = (Inr ?n, \<lparr>nr_cons = Some ?n, nr_next = 2\<rparr>, ?js)"
    by (simp add: ensurePullConsumer_def deletePullConsumer_def mem_jt_def ex_nats1_def ex_nats_def new_nats_log_def)
  have f: "\<exists>js. jt_fetch mem_jt (rv_fetch ex_read) ?n 5 ?js = (Inr ([(Some 2, ''b'')], None), js)"
    using w by (simp add: mem_jt_def mj_fetch_def ex_read_def nats_msg_def)
  have "\<exists>es r js. read_locked mem_jt ?u ex_read ?n 0 2 5 (?r, nl_js ex_nats1) = (Inr es, r, js)"
    using e f by (auto simp: read_locked_def)
  then obtain es nl' where r: "nats_ReadPartition mem_jt ?u ex_read 0 2 5 ex_nats1 = Ret (Inr es, nl')"
    by (auto simp: nats_ReadPartition_def) (simp_all add: ex_read_def ex_nats1_def ex_nats_def new_nats_log_def)
  from nats_read_correct [OF mem_js_laws ex_nats1_ok r] w r show ?thesis by auto
qed

theorem nats_batch_reorders_witness:
  "\<exists>seqs1 nl1 seqs2 nl2 q'.
     nats_AppendBatch mem_jt nats_marshal (\<lambda>i. if i = 0 then NotStored else NoFault) (\<lambda>_. False) [row_event ''a'', row_event ''b''] ex_nats =
       Ret ((seqs1, Some (NatsAck 0 ''timeout'')), nl1) \<and>
     nats_AppendBatch mem_jt nats_marshal (\<lambda>_. NoFault) (\<lambda>_. False) [row_event ''a'', row_event ''b''] nl1 = Ret ((seqs2, None), nl2) \<and>
     mj_msgs (nl_js nl2) = [(1, row_msg ''b''), (q', row_msg ''a'')]"
proof -
  let ?s0 = "nl_js ex_nats" and ?a = "row_msg ''a''" and ?b = "row_msg ''b''" and ?env = "\<lambda>i :: nat. if i = 0 then NotStored else NoFault"
  let ?s1 = "mj_store ?b ?s0" and ?s2 = "mj_store ?a (mj_store ?b ?s0)"
  note defs = mem_jt_def mj_publish_def mj_seen_def ex_nats_def new_nats_log_def mj_store_def nats_msg_def row_event_def ex_event_def
  have i: "jm_id ?a \<noteq> jm_id ?b" "jm_id ?a \<notin> mj_seen ?s0" by (simp_all add: defs)
  have n: "\<And>k m s. jt_async_err mem_jt (?env k) m s = None" "\<And>k m s. jt_async_err mem_jt NoFault m s = None" by (simp_all add: mem_jt_def)
  have p: "jt_publish mem_jt (?env 0) ?a ?s0 = (PubErr ''timeout'', ?s0)" "jt_publish mem_jt (?env 1) ?b ?s0 = (PubAck 1 False, ?s1)"
    "jt_publish mem_jt NoFault ?a ?s1 = (PubAck 2 False, ?s2)" "jt_publish mem_jt NoFault ?b ?s2 = (PubAck 0 True, ?s2)"
    by (simp_all add: defs)
  from nats_batch_reorders [OF mem_js_laws ex_nats_ok(1) row_prepared i n _ p(1) refl refl p(2,3,4), of "\<lambda>_. False"] ex_nats_ok(2)
  show ?thesis by simp
qed

theorem nats_lost_ack_unobserved_witness:
  "\<exists>nl1 nl2 q'. nats_Append mem_jt nats_marshal AckLost (row_event ''a'') ex_nats = Ret (Inl (NatsPublish ''timeout''), nl1) \<and>
     nats_Append mem_jt nats_marshal NoFault (row_event ''a'') nl1 = Ret (Inr 0, nl2) \<and> mj_msgs (nl_js nl2) = [(q', row_msg ''a'')] \<and>
     el_calls (nl_log nl2) = []"
proof -
  have p: "PartitionOf (str_bytes (raw_str (ev_key (row_event ''a'')))) (el_num (nl_log ex_nats)) = Ret 0"
    by (simp add: ex_nats_def new_nats_log_def PartitionOf_def)
  have m: "nats_marshal (row_event ''a'') = Some ''a''" by (simp add: row_event_def)
  let ?js = "mj_store (row_msg ''a'') (nl_js ex_nats)"
  have p1: "jt_publish mem_jt AckLost (row_msg ''a'') (nl_js ex_nats) = (PubErr ''timeout'', ?js)" "mj_msgs ?js \<noteq> mj_msgs (nl_js ex_nats)"
    by (simp_all add: mem_jt_def mj_publish_def mj_seen_def ex_nats_def new_nats_log_def mj_store_def)
  have p2: "jt_publish mem_jt NoFault (row_msg ''a'') ?js = (PubAck 0 True, ?js)"
    by (simp add: mem_jt_def mj_publish_def mj_seen_def ex_nats_def new_nats_log_def mj_store_def)
  from nats_lost_ack_unobserved [where marshal = nats_marshal and ev = "row_event ''a''", OF mem_js_laws ex_nats_ok(1) p m p1 p2] ex_nats_ok(2) show ?thesis
    by (simp add: ex_nats_def new_nats_log_def)
qed

text \<open>The in-memory stream provides the pages of the watermark checker.\<close>

interpretation mem_pages: open_jetstream_log mem_jt mj_ok mj_msgs mj_seen mj_pos ex_nats1 "\<lambda>s. if s = [] then None else Some (row_event s)" ex_read
  by unfold_locales (simp_all add: ex_nats1_ok)

end
