(* ===== verification/Wal_Leader.thy ===== *)
theory Wal_Leader
  imports Kaptanto_Prelude
begin

text \<open>
  Election of the node that reads the WAL in cluster mode (\<open>internal/cluster/wal_leader.go\<close>): a lease in a
  JetStream key-value bucket, taken with \<open>Create\<close>, renewed with \<open>Update\<close> on the revision last seen, lost when
  the bucket's TTL removes the key. The bucket is a record of functions with its documented laws
  (\<open>kv_laws\<close>); the electors of all nodes run against it in one step relation with a clock.
\<close>

section \<open>The bucket\<close>

text \<open>What a watcher sends: the current values, a nil marker after them, then every later operation.\<close>

datatype watch_in = WPut | WDelete | WPurge | WMarker | WClosed

text \<open>The first argument of a call is what the network does in it, the second the time at the server.\<close>

record ('n, 's) kv_bucket =
  kv_Create :: "'n \<Rightarrow> nat \<Rightarrow> string \<Rightarrow> 's \<Rightarrow> (string + u64) \<times> 's"
  kv_Update :: "'n \<Rightarrow> nat \<Rightarrow> string \<Rightarrow> u64 \<Rightarrow> 's \<Rightarrow> (string + u64) \<times> 's"
  kv_Watch :: "'n \<Rightarrow> 's \<Rightarrow> string + watch_in list"
  kv_expire :: "nat \<Rightarrow> 's \<Rightarrow> 's"

text \<open>The entry of the key: its revision, its value and the time it was written.\<close>

type_synonym lease = "(u64 \<times> string \<times> nat) option"

definition kv_writes :: "('s \<Rightarrow> lease) \<Rightarrow> ('s \<Rightarrow> u64) \<Rightarrow> nat \<Rightarrow> string \<Rightarrow> u64 \<Rightarrow> 's \<Rightarrow> 's \<Rightarrow> bool" where
  "kv_writes entry revn now v q s s' \<longleftrightarrow> revn s < q \<and> revn s' = q \<and> entry s' = Some (q, v, now)"

definition kv_same :: "('s \<Rightarrow> lease) \<Rightarrow> ('s \<Rightarrow> u64) \<Rightarrow> 's \<Rightarrow> 's \<Rightarrow> bool" where
  "kv_same entry revn s s' \<longleftrightarrow> revn s' = revn s \<and> entry s' = entry s"

text \<open>A write happens when the guard holds. After an error it happened or not.\<close>

definition kv_answers :: "('s \<Rightarrow> lease) \<Rightarrow> ('s \<Rightarrow> u64) \<Rightarrow> bool \<Rightarrow> nat \<Rightarrow> string \<Rightarrow> string + u64 \<Rightarrow> 's \<Rightarrow> 's \<Rightarrow> bool" where
  "kv_answers entry revn guard now v r s s' \<longleftrightarrow>
     (case r of
        Inr q \<Rightarrow> guard \<and> kv_writes entry revn now v q s s'
      | Inl _ \<Rightarrow> kv_same entry revn s s' \<or> guard \<and> (\<exists>q. kv_writes entry revn now v q s s'))"

definition kv_laws :: "('n, 's) kv_bucket \<Rightarrow> nat \<Rightarrow> ('s \<Rightarrow> bool) \<Rightarrow> ('s \<Rightarrow> lease) \<Rightarrow> ('s \<Rightarrow> u64) \<Rightarrow> bool" where
  "kv_laws kv ttl ok entry revn \<longleftrightarrow>
     (\<forall>n now v s r s'. ok s \<longrightarrow> kv_Create kv n now v s = (r, s') \<longrightarrow>
        ok s' \<and> kv_answers entry revn (entry s = None) now v r s s') \<and>
     (\<forall>n now v q s r s'. ok s \<longrightarrow> kv_Update kv n now v q s = (r, s') \<longrightarrow>
        ok s' \<and> kv_answers entry revn (map_option fst (entry s) = Some q) now v r s s') \<and>
     (\<forall>n s ups. ok s \<longrightarrow> kv_Watch kv n s = Inr ups \<longrightarrow> ups = (if entry s = None then [WMarker] else [WPut, WMarker])) \<and>
     (\<forall>now s. ok s \<longrightarrow> ok (kv_expire kv now s) \<and>
        (kv_same entry revn s (kv_expire kv now s) \<or>
         revn (kv_expire kv now s) = revn s \<and> entry (kv_expire kv now s) = None \<and> (\<forall>q v w. entry s = Some (q, v, w) \<longrightarrow> w + ttl \<le> now)))"

section \<open>The elector\<close>

record elector =
  we_nodeID :: string
  we_epoch :: u64
  we_isLeader :: bool

definition openOrCreateLeaderBucket :: "string + 's \<Rightarrow> string + 's \<Rightarrow> string + 's \<Rightarrow> string + 's" where
  "openOrCreateLeaderBucket open1 create open2 =
     (case open1 of
        Inr kv \<Rightarrow> Inr kv
      | Inl _ \<Rightarrow>
          (case create of
             Inr kv \<Rightarrow> Inr kv
           | Inl err \<Rightarrow> (case open2 of Inr kv2 \<Rightarrow> Inr kv2 | Inl _ \<Rightarrow> Inl (''create KV bucket: '' @ err))))"

definition NewWalLeaderElector :: "string option \<Rightarrow> string + 's \<Rightarrow> string \<Rightarrow> string + elector \<times> 's" where
  "NewWalLeaderElector js bucket nodeID =
     (case js of
        Some err \<Rightarrow> Inl (''wal leader: jetstream context: '' @ err)
      | None \<Rightarrow>
          (case bucket of
             Inl err \<Rightarrow> Inl (''wal leader: open bucket: '' @ err)
           | Inr kv \<Rightarrow> Inr (\<lparr>we_nodeID = nodeID, we_epoch = 0, we_isLeader = False\<rparr>, kv)))"

definition defaultLeaseTTL :: nat where
  "defaultLeaseTTL = 15"

definition defaultRenewEvery :: nat where
  "defaultRenewEvery = 7"

text \<open>
  Where the goroutine of \<open>Run\<close> stands. \<open>Won\<close>: \<open>Create\<close> returned, nothing stored yet; \<open>EpochStored\<close>: between the two
  atomic stores; \<open>Holding\<close>: in \<open>holdLease\<close> before a tick; \<open>Renewed\<close>: \<open>Update\<close> returned; \<open>WatchStart\<close>,
  \<open>Watching\<close>: in \<open>watchForExpiry\<close>, with the updates that are waiting in the channel.
\<close>

datatype wl_pc = RunTop | Won u64 | EpochStored u64 | Holding u64 | Renewed u64 | WatchStart | Watching "watch_in list" | Returned

definition run_create :: "('n, 's) kv_bucket \<Rightarrow> 'n \<Rightarrow> nat \<Rightarrow> bool \<Rightarrow> elector \<times> 's \<Rightarrow> wl_pc \<times> elector \<times> 's" where
  "run_create kv n now ctx = (\<lambda>(e, s).
     if ctx then (Returned, e\<lparr>we_isLeader := False\<rparr>, s)
     else case kv_Create kv n now (we_nodeID e) s of
            (Inr revn, s') \<Rightarrow> (Won revn, e, s')
          | (Inl _, s') \<Rightarrow> (WatchStart, e, s'))"

definition holdLease_turn :: "('n, 's) kv_bucket \<Rightarrow> 'n \<Rightarrow> nat \<Rightarrow> bool \<Rightarrow> u64 \<Rightarrow> elector \<times> 's \<Rightarrow> wl_pc \<times> elector \<times> 's" where
  "holdLease_turn kv n now ctx currentRev = (\<lambda>(e, s).
     if ctx then (Returned, e\<lparr>we_isLeader := False\<rparr>, s)
     else case kv_Update kv n now (we_nodeID e) currentRev s of
            (Inl _, s') \<Rightarrow> (RunTop, e\<lparr>we_isLeader := False\<rparr>, s')
          | (Inr newRev, s') \<Rightarrow> (Renewed newRev, e, s'))"

definition watch_start :: "('n, 's) kv_bucket \<Rightarrow> 'n \<Rightarrow> bool \<Rightarrow> elector \<times> 's \<Rightarrow> wl_pc \<times> elector \<times> 's" where
  "watch_start kv n ctx = (\<lambda>(e, s).
     case kv_Watch kv n s of
       Inl _ \<Rightarrow> if ctx then (Returned, e\<lparr>we_isLeader := False\<rparr>, s) else (RunTop, e, s)
     | Inr ups \<Rightarrow> (Watching ups, e, s))"

text \<open>One turn of the loop in \<open>watchForExpiry\<close>; with an empty channel and no cancellation it waits.\<close>

definition watch_turn :: "bool \<Rightarrow> watch_in list \<Rightarrow> elector \<times> 's \<Rightarrow> wl_pc \<times> elector \<times> 's" where
  "watch_turn ctx ups = (\<lambda>(e, s).
     if ctx then (Returned, e\<lparr>we_isLeader := False\<rparr>, s)
     else case ups of
            [] \<Rightarrow> (Watching [], e, s)
          | WPut # us \<Rightarrow> (Watching us, e, s)
          | _ # us \<Rightarrow> (RunTop, e, s))"

definition elector_turn :: "('n, 's) kv_bucket \<Rightarrow> 'n \<Rightarrow> nat \<Rightarrow> bool \<Rightarrow> wl_pc \<Rightarrow> elector \<times> 's \<Rightarrow> wl_pc \<times> elector \<times> 's" where
  "elector_turn kv n now ctx pc = (\<lambda>(e, s).
     case pc of
       RunTop \<Rightarrow> run_create kv n now ctx (e, s)
     | Won revn \<Rightarrow> (EpochStored revn, e\<lparr>we_epoch := revn\<rparr>, s)
     | EpochStored revn \<Rightarrow> (Holding revn, e\<lparr>we_isLeader := True\<rparr>, s)
     | Holding revn \<Rightarrow> holdLease_turn kv n now ctx revn (e, s)
     | Renewed revn \<Rightarrow> (Holding revn, e\<lparr>we_epoch := revn\<rparr>, s)
     | WatchStart \<Rightarrow> watch_start kv n ctx (e, s)
     | Watching ups \<Rightarrow> watch_turn ctx ups (e, s)
     | Returned \<Rightarrow> (Returned, e, s))"

text \<open>The two loads of \<open>EpochGetter\<close>: the epoch at one moment, the flag at a later one.\<close>

definition EpochGetter :: "elector \<Rightarrow> elector \<Rightarrow> u64 \<times> bool" where
  "EpochGetter e1 e2 = (we_epoch e1, we_isLeader e2)"

section \<open>All nodes\<close>

text \<open>
  \<open>pr_due\<close> is when the turn under way ends at the latest if calls return within \<open>d\<close> and ticks come on time:
  \<open>d\<close> after the server took a \<open>Create\<close>, and one period and \<open>d\<close> after the ticker started or last renewed.
\<close>

record proc =
  pr_el :: elector
  pr_pc :: wl_pc
  pr_due :: nat

record 's wal_sys =
  ws_now :: nat
  ws_kv :: 's
  ws_proc :: "nat \<Rightarrow> proc"

definition due_after :: "nat \<Rightarrow> nat \<Rightarrow> nat \<Rightarrow> wl_pc \<Rightarrow> wl_pc \<Rightarrow> nat \<Rightarrow> nat" where
  "due_after renew d now pc pc' old =
     (case (pc, pc') of
        (RunTop, Won _) \<Rightarrow> now + d
      | (EpochStored _, _) \<Rightarrow> now + renew + d
      | (Holding _, Renewed _) \<Rightarrow> now + renew + d
      | _ \<Rightarrow> old)"

definition turn :: "('n, 's) kv_bucket \<Rightarrow> nat \<Rightarrow> nat \<Rightarrow> 'n \<Rightarrow> bool \<Rightarrow> nat \<Rightarrow> 's wal_sys \<Rightarrow> 's wal_sys" where
  "turn kv renew d n ctx i s =
     (let p = ws_proc s i; (pc, e, kvs) = elector_turn kv n (ws_now s) ctx (pr_pc p) (pr_el p, ws_kv s)
      in s\<lparr>ws_kv := kvs, ws_proc := (ws_proc s)(i := \<lparr>pr_el = e, pr_pc = pc, pr_due = due_after renew d (ws_now s) (pr_pc p) pc (pr_due p)\<rparr>)\<rparr>)"

fun held :: "wl_pc \<Rightarrow> u64 option" where
  "held (Won r) = Some r"
| "held (EpochStored r) = Some r"
| "held (Holding r) = Some r"
| "held (Renewed r) = Some r"
| "held _ = None"

definition in_time :: "'s wal_sys \<Rightarrow> nat \<Rightarrow> bool" where
  "in_time s t \<longleftrightarrow> (\<forall>i. held (pr_pc (ws_proc s i)) \<noteq> None \<longrightarrow> t \<le> pr_due (ws_proc s i))"

definition fresh_proc :: "string \<Rightarrow> proc" where
  "fresh_proc node = \<lparr>pr_el = \<lparr>we_nodeID = node, we_epoch = 0, we_isLeader = False\<rparr>, pr_pc = RunTop, pr_due = 0\<rparr>"

definition push_update :: "watch_in \<Rightarrow> proc \<Rightarrow> proc" where
  "push_update u p = (case pr_pc p of Watching us \<Rightarrow> p\<lparr>pr_pc := Watching (us @ [u])\<rparr> | _ \<Rightarrow> p)"

text \<open>With \<open>timely\<close> no process is late; without it a process may sleep while time passes.\<close>

inductive wal_step :: "('n, 's) kv_bucket \<Rightarrow> nat \<Rightarrow> nat \<Rightarrow> bool \<Rightarrow> 's wal_sys \<Rightarrow> 's wal_sys \<Rightarrow> bool" for kv renew d timely where
  step_turn: "wal_step kv renew d timely s (turn kv renew d n ctx i s)"
| step_push: "wal_step kv renew d timely s (s\<lparr>ws_proc := (ws_proc s)(i := push_update u (ws_proc s i))\<rparr>)"
| step_expire: "wal_step kv renew d timely s (s\<lparr>ws_kv := kv_expire kv (ws_now s) (ws_kv s)\<rparr>)"
| step_time: "(timely \<longrightarrow> in_time s t) \<Longrightarrow> ws_now s \<le> t \<Longrightarrow> wal_step kv renew d timely s (s\<lparr>ws_now := t\<rparr>)"
| step_restart: "wal_step kv renew d timely s (s\<lparr>ws_proc := (ws_proc s)(i := fresh_proc (we_nodeID (pr_el (ws_proc s i))))\<rparr>)"

definition wal_start :: "'s \<Rightarrow> (nat \<Rightarrow> string) \<Rightarrow> 's wal_sys" where
  "wal_start kvs ids = \<lparr>ws_now = 0, ws_kv = kvs, ws_proc = (\<lambda>i. fresh_proc (ids i))\<rparr>"

end
