(* ===== verification/Wal_Leader_Props.thy ===== *)
theory Wal_Leader_Props
  imports Wal_Leader
begin

text \<open>
  What the lease gives: epochs are fencing tokens whatever is late or lost, and with calls that return in time
  there is one leader. And where the comments promise more than the code does.
\<close>

section \<open>The contract of the bucket\<close>

locale lease_bucket =
  fixes kv :: "('n, 's) kv_bucket" and ttl :: nat and ok :: "'s \<Rightarrow> bool" and entry :: "'s \<Rightarrow> lease" and revn :: "'s \<Rightarrow> u64"
  assumes laws: "kv_laws kv ttl ok entry revn"
begin

lemmas law = laws [unfolded kv_laws_def]
lemmas create_law = law [THEN conjunct1, rule_format]
lemmas update_law = law [THEN conjunct2, THEN conjunct1, rule_format]
lemmas watch_law = law [THEN conjunct2, THEN conjunct2, THEN conjunct1, rule_format]
lemmas expire_laws = law [THEN conjunct2, THEN conjunct2, THEN conjunct2, rule_format]

lemma expire_law:
  assumes "ok s"
  shows "ok (kv_expire kv now s)" "revn (kv_expire kv now s) = revn s"
    "entry (kv_expire kv now s) = entry s \<or> entry (kv_expire kv now s) = None \<and> (\<forall>q v w. entry s = Some (q, v, w) \<longrightarrow> w + ttl \<le> now)"
  using expire_laws [OF assms, of now] unfolding kv_same_def by auto

lemma sum_neither: "\<forall>x. r \<noteq> Inl x \<Longrightarrow> \<forall>y. r \<noteq> Inr y \<Longrightarrow> False"
  by (cases r) auto

lemma answers_rev: "kv_answers entry revn g now v r s s' \<Longrightarrow> revn s \<le> revn s' \<and> (\<forall>q. r = Inr q \<longrightarrow> revn s < q \<and> q \<le> revn s')"
  by (auto simp: kv_answers_def kv_writes_def kv_same_def split: sum.splits dest: sum_neither)

text \<open>The effect of a turn on the bucket, for every place the goroutine may be in.\<close>

definition turn_ok :: "nat \<Rightarrow> proc \<Rightarrow> 's \<Rightarrow> wl_pc \<Rightarrow> elector \<Rightarrow> 's \<Rightarrow> bool" where
  "turn_ok now p s pc' e' s' \<longleftrightarrow>
     ok s' \<and> we_nodeID e' = we_nodeID (pr_el p) \<and>
     (case pr_pc p of
        RunTop \<Rightarrow> (pc' = Returned \<and> s' = s \<and> e' = (pr_el p)\<lparr>we_isLeader := False\<rparr>) \<or>
          e' = pr_el p \<and> (\<exists>r. kv_answers entry revn (entry s = None) now (we_nodeID (pr_el p)) r s s' \<and>
             (case r of Inr q \<Rightarrow> pc' = Won q | Inl _ \<Rightarrow> pc' = WatchStart))
      | Won r \<Rightarrow> s' = s \<and> pc' = EpochStored r \<and> e' = (pr_el p)\<lparr>we_epoch := r\<rparr>
      | EpochStored r \<Rightarrow> s' = s \<and> pc' = Holding r \<and> e' = (pr_el p)\<lparr>we_isLeader := True\<rparr>
      | Holding q \<Rightarrow> (pc' = Returned \<and> s' = s \<and> e' = (pr_el p)\<lparr>we_isLeader := False\<rparr>) \<or>
          (\<exists>r. kv_answers entry revn (map_option fst (entry s) = Some q) now (we_nodeID (pr_el p)) r s s' \<and>
             (case r of Inr q' \<Rightarrow> pc' = Renewed q' \<and> e' = pr_el p | Inl _ \<Rightarrow> pc' = RunTop \<and> e' = (pr_el p)\<lparr>we_isLeader := False\<rparr>))
      | Renewed r \<Rightarrow> s' = s \<and> pc' = Holding r \<and> e' = (pr_el p)\<lparr>we_epoch := r\<rparr>
      | _ \<Rightarrow> s' = s \<and> held pc' = None \<and> (e' = pr_el p \<or> e' = (pr_el p)\<lparr>we_isLeader := False\<rparr>))"

lemma elector_turn_ok:
  assumes "elector_turn kv n now ctx (pr_pc p) (pr_el p, s) = (pc', e', s')" "ok s"
  shows "turn_ok now p s pc' e' s'"
proof (cases "pr_pc p")
  case RunTop
  show ?thesis
  proof (cases ctx)
    case True
    with RunTop assms show ?thesis by (auto simp: turn_ok_def elector_turn_def run_create_def)
  next
    case False
    obtain r t where c: "kv_Create kv n now (we_nodeID (pr_el p)) s = (r, t)" by fastforce
    from create_law [OF assms(2) c] RunTop False assms(1) c show ?thesis
      by (cases r) (auto simp: turn_ok_def elector_turn_def run_create_def intro!: exI [of _ r])
  qed
next
  case (Holding q)
  show ?thesis
  proof (cases ctx)
    case True
    with Holding assms show ?thesis by (auto simp: turn_ok_def elector_turn_def holdLease_turn_def)
  next
    case False
    obtain r t where c: "kv_Update kv n now (we_nodeID (pr_el p)) q s = (r, t)" by fastforce
    from update_law [OF assms(2) c] Holding False assms(1) c show ?thesis
      by (cases r) (auto simp: turn_ok_def elector_turn_def holdLease_turn_def intro!: exI [of _ r])
  qed
next
  case WatchStart
  with assms show ?thesis by (auto simp: turn_ok_def elector_turn_def watch_start_def split: sum.splits if_splits)
next
  case (Watching ups)
  from assms(1) [unfolded Watching] assms(2) show ?thesis unfolding turn_ok_def Watching
    by (auto simp: elector_turn_def watch_turn_def split: list.splits watch_in.splits if_splits)
qed (use assms in \<open>auto simp: turn_ok_def elector_turn_def\<close>)

lemma turn_cases:
  assumes "ok (ws_kv s)"
  obtains pc e kvs where
    "turn kv renew d n ctx i s = s\<lparr>ws_kv := kvs, ws_proc := (ws_proc s)(i := \<lparr>pr_el = e, pr_pc = pc,
       pr_due = due_after renew d (ws_now s) (pr_pc (ws_proc s i)) pc (pr_due (ws_proc s i))\<rparr>)\<rparr>"
    "turn_ok (ws_now s) (ws_proc s i) (ws_kv s) pc e kvs"
proof -
  obtain pc e kvs where t: "elector_turn kv n (ws_now s) ctx (pr_pc (ws_proc s i)) (pr_el (ws_proc s i), ws_kv s) = (pc, e, kvs)"
    by (metis prod_cases3)
  from elector_turn_ok [OF t assms] t show ?thesis by (intro that) (simp_all add: turn_def Let_def)
qed

section \<open>Epochs\<close>

definition tokens :: "proc \<Rightarrow> u64 set" where
  "tokens p = (if we_epoch (pr_el p) = 0 then {} else {we_epoch (pr_el p)}) \<union> set_option (held (pr_pc p))"

definition tokens_inv :: "'s wal_sys \<Rightarrow> bool" where
  "tokens_inv s \<longleftrightarrow> ok (ws_kv s) \<and> (\<forall>i. \<forall>t \<in> tokens (ws_proc s i). 0 < t \<and> t \<le> revn (ws_kv s)) \<and>
     (\<forall>i j. i \<noteq> j \<longrightarrow> tokens (ws_proc s i) \<inter> tokens (ws_proc s j) = {})"

definition grants :: "'s wal_sys \<Rightarrow> 's wal_sys \<Rightarrow> bool" where
  "grants s s' \<longleftrightarrow> ok (ws_kv s') \<and> revn (ws_kv s) \<le> revn (ws_kv s') \<and>
     (\<forall>i. \<forall>t \<in> tokens (ws_proc s' i). t \<in> tokens (ws_proc s i) \<or> revn (ws_kv s) < t \<and> t \<le> revn (ws_kv s')) \<and>
     (\<exists>i. \<forall>j. j \<noteq> i \<longrightarrow> ws_proc s' j = ws_proc s j)"

lemma turn_tokens:
  assumes "turn_ok now p s pc e s'"
  shows "ok s' \<and> revn s \<le> revn s' \<and> (\<forall>t \<in> tokens \<lparr>pr_el = e, pr_pc = pc, pr_due = due\<rparr>. t \<in> tokens p \<or> revn s < t \<and> t \<le> revn s')"
proof (cases "pr_pc p")
  case RunTop
  then consider "pc = Returned" "s' = s" "we_epoch e = we_epoch (pr_el p)"
    | r where "e = pr_el p" "kv_answers entry revn (entry s = None) now (we_nodeID (pr_el p)) r s s'" "case r of Inr q \<Rightarrow> pc = Won q | Inl _ \<Rightarrow> pc = WatchStart"
    using assms by (auto simp: turn_ok_def)
  then show ?thesis using assms answers_rev by cases (auto simp: tokens_def turn_ok_def split: sum.splits dest: sum_neither)
next
  case (Holding q)
  with assms have "pc = Returned \<and> s' = s \<and> e = (pr_el p)\<lparr>we_isLeader := False\<rparr> \<or>
      (\<exists>r. kv_answers entry revn (map_option fst (entry s) = Some q) now (we_nodeID (pr_el p)) r s s' \<and>
         (case r of Inr q' \<Rightarrow> pc = Renewed q' \<and> e = pr_el p | Inl _ \<Rightarrow> pc = RunTop \<and> e = (pr_el p)\<lparr>we_isLeader := False\<rparr>))"
    by (simp add: turn_ok_def)
  then show ?thesis
  proof (elim disjE exE conjE)
    fix r
    assume "kv_answers entry revn (map_option fst (entry s) = Some q) now (we_nodeID (pr_el p)) r s s'"
      "case r of Inr q' \<Rightarrow> pc = Renewed q' \<and> e = pr_el p | Inl _ \<Rightarrow> pc = RunTop \<and> e = (pr_el p)\<lparr>we_isLeader := False\<rparr>"
    with answers_rev assms show ?thesis by (cases r) (auto simp: tokens_def turn_ok_def)
  qed (use assms in \<open>auto simp: tokens_def turn_ok_def\<close>)
qed (use assms in \<open>auto simp: turn_ok_def tokens_def\<close>)

lemma step_grants:
  assumes "wal_step kv renew d timely s s'" "ok (ws_kv s)"
  shows "grants s s'"
  using assms
proof cases
  case (step_turn n ctx i)
  obtain pc e kvs where t: "s' = s\<lparr>ws_kv := kvs, ws_proc := (ws_proc s)(i := \<lparr>pr_el = e, pr_pc = pc,
       pr_due = due_after renew d (ws_now s) (pr_pc (ws_proc s i)) pc (pr_due (ws_proc s i))\<rparr>)\<rparr>"
    and ok: "turn_ok (ws_now s) (ws_proc s i) (ws_kv s) pc e kvs"
    using turn_cases [OF assms(2)] step_turn by metis
  from turn_tokens [OF ok] show ?thesis unfolding grants_def t by auto
next
  case (step_push i u)
  have "tokens (push_update u p) = tokens p" for p by (auto simp: push_update_def tokens_def split: wl_pc.splits)
  with step_push assms(2) show ?thesis by (auto simp: grants_def intro!: exI [of _ i])
next
  case step_expire
  then show ?thesis using expire_law [OF assms(2)] by (auto simp: grants_def)
next
  case (step_restart i)
  have "tokens (fresh_proc n) = {}" for n by (simp add: tokens_def fresh_proc_def)
  with step_restart assms(2) show ?thesis by (auto simp: grants_def intro!: exI [of _ i])
qed (auto simp: grants_def)

lemma grants_inv:
  assumes "grants s s'" "tokens_inv s"
  shows "tokens_inv s'"
proof -
  from assms(1) obtain i where i: "\<And>j. j \<noteq> i \<Longrightarrow> ws_proc s' j = ws_proc s j" unfolding grants_def by blast
  have new: "t \<in> tokens (ws_proc s j) \<or> revn (ws_kv s) < t" "0 < t \<and> t \<le> revn (ws_kv s')" if "t \<in> tokens (ws_proc s' j)" for t j
    using that assms unfolding grants_def tokens_inv_def
    by (blast, metis order_trans order.strict_trans1 word_zero_le)
  have "tokens (ws_proc s' j) \<inter> tokens (ws_proc s' k) = {}" if "j \<noteq> k" for j k
  proof -
    have old: "t \<le> revn (ws_kv s)" if "t \<in> tokens (ws_proc s m)" for t m using that assms(2) by (auto simp: tokens_inv_def)
    have dis: "tokens (ws_proc s j) \<inter> tokens (ws_proc s k) = {}" using assms(2) that by (auto simp: tokens_inv_def)
    from that i consider "ws_proc s' j = ws_proc s j" | "ws_proc s' k = ws_proc s k" by metis
    then show ?thesis using new(1) old dis by cases (fastforce simp: disjoint_iff not_less)+
  qed
  with new(2) assms(1) show ?thesis by (auto simp: tokens_inv_def grants_def)
qed

lemma start_tokens: "ok kvs \<Longrightarrow> tokens_inv (wal_start kvs ids)"
  by (simp add: tokens_inv_def wal_start_def tokens_def fresh_proc_def)

lemma run_tokens:
  assumes "(wal_step kv renew d timely)\<^sup>*\<^sup>* s s'" "tokens_inv s"
  shows "tokens_inv s' \<and> revn (ws_kv s) \<le> revn (ws_kv s') \<and>
    (\<forall>i. \<forall>t \<in> tokens (ws_proc s' i). t \<in> tokens (ws_proc s i) \<or> revn (ws_kv s) < t)"
  using assms
proof induction
  case base
  then show ?case by simp
next
  case (step s' s'')
  then have inv: "tokens_inv s'" by simp
  then have g: "grants s' s''" using step_grants [OF step.hyps(2)] by (simp add: tokens_inv_def)
  from g have new: "t \<in> tokens (ws_proc s' i) \<or> revn (ws_kv s') < t" if "t \<in> tokens (ws_proc s'' i)" for t i
    using that unfolding grants_def by blast
  from step.IH [OF step.prems] have ih: "revn (ws_kv s) \<le> revn (ws_kv s')"
    and old: "t \<in> tokens (ws_proc s' i) \<Longrightarrow> t \<in> tokens (ws_proc s i) \<or> revn (ws_kv s) < t" for t i by auto
  from g ih have "revn (ws_kv s) \<le> revn (ws_kv s'')" unfolding grants_def by (meson order_trans)
  moreover have "t \<in> tokens (ws_proc s i) \<or> revn (ws_kv s) < t" if "t \<in> tokens (ws_proc s'' i)" for t i
    using new [OF that] old ih order.strict_trans1 by blast
  ultimately show ?case using grants_inv [OF g inv] by blast
qed

lemma tokens_fence:
  assumes "(wal_step kv renew d timely)\<^sup>*\<^sup>* (wal_start kvs ids) s" "ok kvs" "(wal_step kv renew d timely)\<^sup>*\<^sup>* s s'" "i \<noteq> j"
  shows "tokens (ws_proc s i) \<inter> tokens (ws_proc s' j) = {}"
proof -
  from run_tokens [OF assms(1) start_tokens [OF assms(2)]] have s: "tokens_inv s" by simp
  with run_tokens [OF assms(3)] assms(4) show ?thesis
    unfolding tokens_inv_def by (smt (verit) disjoint_iff linorder_not_less)
qed

section \<open>One leader\<close>

text \<open>What a process that took the lease may still wait for before it is in \<open>holdLease\<close>.\<close>

fun slack :: "nat \<Rightarrow> nat \<Rightarrow> wl_pc \<Rightarrow> nat" where
  "slack renew d (Won _) = renew + d"
| "slack renew d (EpochStored _) = renew + d"
| "slack renew d _ = 0"

definition lease_of :: "nat \<Rightarrow> nat \<Rightarrow> nat \<Rightarrow> 's \<Rightarrow> proc \<Rightarrow> bool" where
  "lease_of renew d now s p \<longleftrightarrow>
     (we_isLeader (pr_el p) \<longrightarrow> (\<exists>r. pr_pc p = Holding r \<or> pr_pc p = Renewed r)) \<and>
     (\<forall>r. held (pr_pc p) = Some r \<longrightarrow> now \<le> pr_due p \<and>
        (\<exists>w. entry s = Some (r, we_nodeID (pr_el p), w) \<and> pr_due p + slack renew d (pr_pc p) < w + ttl))"

lemma lease_of_entry: "lease_of renew d now s p \<Longrightarrow> (held (pr_pc p) \<noteq> None \<Longrightarrow> entry s' = entry s) \<Longrightarrow> lease_of renew d now s' p"
  by (auto simp: lease_of_def)

lemma lease_of_None: "held (pr_pc p) = None \<Longrightarrow> \<not> we_isLeader (pr_el p) \<Longrightarrow> lease_of renew d now s p"
  by (simp add: lease_of_def)

lemma lease_of_follower: "lease_of renew d now s p \<Longrightarrow> \<forall>r. pr_pc p \<noteq> Holding r \<and> pr_pc p \<noteq> Renewed r \<Longrightarrow> \<not> we_isLeader (pr_el p)"
  by (auto simp: lease_of_def)

text \<open>The lease of one process is safe from the turns of the others.\<close>

lemma turn_other:
  assumes "turn_ok now p s pc e s'" "entry s = Some (r, v, w)" "r \<notin> tokens p"
  shows "entry s' = entry s"
  using assms
  by (cases "pr_pc p") (auto simp: turn_ok_def tokens_def kv_answers_def kv_same_def split: sum.splits dest: sum_neither)

lemma turn_own:
  assumes "turn_ok now p s pc e s'" "lease_of renew d now s p" "renew + 2 * d < ttl"
  shows "lease_of renew d now s' \<lparr>pr_el = e, pr_pc = pc, pr_due = due_after renew d now (pr_pc p) pc (pr_due p)\<rparr>"
proof (cases "pr_pc p")
  case RunTop
  with lease_of_follower [OF assms(2)] have nl: "\<not> we_isLeader (pr_el p)" by simp
  from assms(1) RunTop have "pc = Returned \<and> e = (pr_el p)\<lparr>we_isLeader := False\<rparr> \<or>
      e = pr_el p \<and> (\<exists>r. kv_answers entry revn (entry s = None) now (we_nodeID (pr_el p)) r s s' \<and>
         (case r of Inr q \<Rightarrow> pc = Won q | Inl _ \<Rightarrow> pc = WatchStart))"
    unfolding turn_ok_def by auto
  then show ?thesis
  proof (elim disjE exE conjE)
    fix r
    assume "e = pr_el p" "kv_answers entry revn (entry s = None) now (we_nodeID (pr_el p)) r s s'"
      "case r of Inr q \<Rightarrow> pc = Won q | Inl _ \<Rightarrow> pc = WatchStart"
    with nl RunTop assms(3) show ?thesis
      by (cases r) (simp_all add: kv_answers_def kv_writes_def lease_of_def due_after_def)
  qed (simp add: lease_of_def)
next
  case (Holding q)
  from assms(1) Holding have "pc = Returned \<and> e = (pr_el p)\<lparr>we_isLeader := False\<rparr> \<or>
      (\<exists>r. kv_answers entry revn (map_option fst (entry s) = Some q) now (we_nodeID (pr_el p)) r s s' \<and>
         (case r of Inr q' \<Rightarrow> pc = Renewed q' \<and> e = pr_el p | Inl _ \<Rightarrow> pc = RunTop \<and> e = (pr_el p)\<lparr>we_isLeader := False\<rparr>))"
    unfolding turn_ok_def by auto
  then show ?thesis
  proof (elim disjE exE conjE)
    fix r
    assume "kv_answers entry revn (map_option fst (entry s) = Some q) now (we_nodeID (pr_el p)) r s s'"
      "case r of Inr q' \<Rightarrow> pc = Renewed q' \<and> e = pr_el p | Inl _ \<Rightarrow> pc = RunTop \<and> e = (pr_el p)\<lparr>we_isLeader := False\<rparr>"
    with Holding assms(3) show ?thesis
      by (cases r) (simp_all add: kv_answers_def kv_writes_def lease_of_def due_after_def)
  qed (simp add: lease_of_def)
next
  case (Won q)
  with assms show ?thesis by (auto simp: turn_ok_def lease_of_def due_after_def)
next
  case (EpochStored q)
  with assms show ?thesis by (auto simp: turn_ok_def lease_of_def due_after_def)
next
  case (Renewed q)
  with assms show ?thesis by (auto simp: turn_ok_def lease_of_def due_after_def)
qed (use assms in \<open>auto simp: turn_ok_def lease_of_def due_after_def\<close>)

definition lease_inv :: "nat \<Rightarrow> nat \<Rightarrow> 's wal_sys \<Rightarrow> bool" where
  "lease_inv renew d s \<longleftrightarrow> tokens_inv s \<and> (\<forall>i. lease_of renew d (ws_now s) (ws_kv s) (ws_proc s i))"

lemma held_token: "held (pr_pc p) = Some r \<Longrightarrow> r \<in> tokens p"
  by (simp add: tokens_def)

lemma turn_lease:
  assumes "lease_inv renew d s" "renew + 2 * d < ttl"
  shows "lease_of renew d (ws_now (turn kv renew d n ctx i s)) (ws_kv (turn kv renew d n ctx i s)) (ws_proc (turn kv renew d n ctx i s) j)"
proof -
  from assms(1) have ok: "ok (ws_kv s)" and l: "lease_of renew d (ws_now s) (ws_kv s) (ws_proc s k)" for k
    by (auto simp: lease_inv_def tokens_inv_def)
  obtain pc e kvs where t: "turn kv renew d n ctx i s = s\<lparr>ws_kv := kvs, ws_proc := (ws_proc s)(i := \<lparr>pr_el = e, pr_pc = pc,
       pr_due = due_after renew d (ws_now s) (pr_pc (ws_proc s i)) pc (pr_due (ws_proc s i))\<rparr>)\<rparr>"
    and tok: "turn_ok (ws_now s) (ws_proc s i) (ws_kv s) pc e kvs"
    using turn_cases [OF ok] by blast
  show ?thesis
  proof (cases "j = i")
    case True
    with turn_own [OF tok l assms(2)] show ?thesis by (simp add: t)
  next
    case False
    have "entry kvs = entry (ws_kv s)" if h: "held (pr_pc (ws_proc s j)) = Some r" for r
    proof -
      from l [of j] h obtain v w where en: "entry (ws_kv s) = Some (r, v, w)" by (auto simp: lease_of_def)
      have "r \<notin> tokens (ws_proc s i)" using assms(1) held_token [OF h] False by (fastforce simp: lease_inv_def tokens_inv_def)
      from turn_other [OF tok en this] show ?thesis .
    qed
    with lease_of_entry [OF l [of j], of kvs] False show ?thesis by (auto simp: t)
  qed
qed

lemma step_lease:
  assumes "wal_step kv renew d True s s'" "lease_inv renew d s" "renew + 2 * d < ttl"
  shows "lease_inv renew d s'"
proof -
  from assms(2) have ok: "ok (ws_kv s)" and l: "lease_of renew d (ws_now s) (ws_kv s) (ws_proc s k)" for k
    by (auto simp: lease_inv_def tokens_inv_def)
  from grants_inv [OF step_grants [OF assms(1) ok]] assms(2) have "tokens_inv s'" by (simp add: lease_inv_def)
  moreover have "lease_of renew d (ws_now s') (ws_kv s') (ws_proc s' j)" for j
    using assms(1)
  proof cases
    case (step_turn n ctx i)
    with turn_lease [OF assms(2,3)] show ?thesis by simp
  next
    case (step_push i u)
    with l [of j] show ?thesis by (auto simp: push_update_def lease_of_def split: wl_pc.splits)
  next
    case step_expire
    have "entry (kv_expire kv (ws_now s) (ws_kv s)) = entry (ws_kv s)" if "held (pr_pc (ws_proc s j)) \<noteq> None"
      using that l [of j] expire_law(3) [OF ok, of "ws_now s"] by (force simp: lease_of_def)
    from lease_of_entry [OF l this] step_expire show ?thesis by simp
  next
    case (step_time t)
    with l [of j] show ?thesis by (auto simp: lease_of_def in_time_def)
  next
    case (step_restart i)
    with l [of j] show ?thesis by (auto simp: lease_of_None fresh_proc_def)
  qed
  ultimately show ?thesis by (simp add: lease_inv_def)
qed

lemma run_lease:
  assumes "(wal_step kv renew d True)\<^sup>*\<^sup>* (wal_start kvs ids) s" "ok kvs" "renew + 2 * d < ttl"
  shows "lease_inv renew d s"
  using assms(1)
proof induction
  case base
  have "lease_of renew d now s' (fresh_proc n)" for now s' n by (rule lease_of_None) (simp_all add: fresh_proc_def)
  then show ?case using start_tokens [OF assms(2)] by (simp add: lease_inv_def wal_start_def)
next
  case (step s s')
  then show ?case using step_lease assms(3) by blast
qed

lemma leaders_equal:
  assumes "lease_inv renew d s" "we_isLeader (pr_el (ws_proc s i))" "we_isLeader (pr_el (ws_proc s j))"
  shows "i = j"
proof -
  have "\<exists>r. held (pr_pc (ws_proc s k)) = Some r \<and> map_option fst (entry (ws_kv s)) = Some r" if "we_isLeader (pr_el (ws_proc s k))" for k
    using assms(1) that by (fastforce simp: lease_inv_def lease_of_def)
  from this [OF assms(2)] this [OF assms(3)] obtain r where "held (pr_pc (ws_proc s i)) = Some r" "held (pr_pc (ws_proc s j)) = Some r"
    by auto
  with assms(1) held_token show ?thesis unfolding lease_inv_def tokens_inv_def by blast
qed

section \<open>A standby\<close>

definition stands_by :: "nat \<Rightarrow> 's wal_sys \<Rightarrow> bool" where
  "stands_by j s \<longleftrightarrow> ok (ws_kv s) \<and> entry (ws_kv s) \<noteq> None \<and> pr_pc (ws_proc s j) = RunTop"

lemma set_pc: "\<lparr>pr_el = pr_el p, pr_pc = pc, pr_due = pr_due p\<rparr> = p\<lparr>pr_pc := pc\<rparr>"
  by (cases p) simp

lemma standby_round:
  assumes "stands_by j s" "\<And>s. ok s \<Longrightarrow> \<exists>ups. kv_Watch kv n s = Inr ups"
  shows "\<exists>kvs. (turn kv renew d n False j ^^ 4) s = s\<lparr>ws_kv := kvs\<rparr> \<and> ok kvs \<and> entry kvs = entry (ws_kv s)"
proof -
  obtain r kvs where c: "kv_Create kv n (ws_now s) (we_nodeID (pr_el (ws_proc s j))) (ws_kv s) = (r, kvs)" by fastforce
  from assms(1) have ok: "ok (ws_kv s)" "entry (ws_kv s) \<noteq> None" "pr_pc (ws_proc s j) = RunTop" by (auto simp: stands_by_def)
  from create_law [OF ok(1) c] ok(2) obtain err where r: "r = Inl err" "ok kvs" "entry kvs = entry (ws_kv s)"
    by (cases r) (auto simp: kv_answers_def kv_same_def)
  from assms(2) [OF r(2)] watch_law [OF r(2)] r(3) ok(2) have w: "kv_Watch kv n kvs = Inr [WPut, WMarker]" by auto
  let ?p = "ws_proc s j"
  define f where "f = turn kv renew d n False j"
  have 1: "f s = s\<lparr>ws_kv := kvs, ws_proc := (ws_proc s)(j := ?p\<lparr>pr_pc := WatchStart\<rparr>)\<rparr>"
    by (simp add: f_def turn_def elector_turn_def run_create_def due_after_def Let_def set_pc c r ok(3))
  have 2: "f (f s) = s\<lparr>ws_kv := kvs, ws_proc := (ws_proc s)(j := ?p\<lparr>pr_pc := Watching [WPut, WMarker]\<rparr>)\<rparr>"
    by (subst 1) (simp add: f_def turn_def elector_turn_def watch_start_def due_after_def Let_def set_pc w)
  have 3: "f (f (f s)) = s\<lparr>ws_kv := kvs, ws_proc := (ws_proc s)(j := ?p\<lparr>pr_pc := Watching [WMarker]\<rparr>)\<rparr>"
    by (subst 2) (simp add: f_def turn_def elector_turn_def watch_turn_def due_after_def Let_def set_pc)
  have 4: "f (f (f (f s))) = s\<lparr>ws_kv := kvs, ws_proc := (ws_proc s)(j := ?p\<lparr>pr_pc := RunTop\<rparr>)\<rparr>"
    by (subst 3) (simp add: f_def turn_def elector_turn_def watch_turn_def due_after_def Let_def set_pc)
  have "(ws_proc s)(j := ?p\<lparr>pr_pc := RunTop\<rparr>) = ws_proc s" using ok(3) by (intro ext) simp
  with 4 r(2,3) show ?thesis by (auto simp: f_def numeral_eq_Suc)
qed

lemma standby_rounds:
  assumes "stands_by j s" "\<And>s. ok s \<Longrightarrow> \<exists>ups. kv_Watch kv n s = Inr ups"
  shows "\<exists>kvs. (turn kv renew d n False j ^^ (4 * k)) s = s\<lparr>ws_kv := kvs\<rparr> \<and> ok kvs \<and> entry kvs = entry (ws_kv s)"
proof (induction k)
  case 0
  with assms(1) show ?case by (auto simp: stands_by_def intro: exI [of _ "ws_kv s"])
next
  case (Suc k)
  then obtain kvs where k: "(turn kv renew d n False j ^^ (4 * k)) s = s\<lparr>ws_kv := kvs\<rparr>" "ok kvs" "entry kvs = entry (ws_kv s)" by blast
  with assms(1) have "stands_by j (s\<lparr>ws_kv := kvs\<rparr>)" by (simp add: stands_by_def)
  from standby_round [OF this assms(2), of renew d] obtain kvs' where
    "(turn kv renew d n False j ^^ 4) (s\<lparr>ws_kv := kvs\<rparr>) = s\<lparr>ws_kv := kvs'\<rparr>" "ok kvs'" "entry kvs' = entry kvs" by auto
  moreover have "(turn kv renew d n False j ^^ (4 * Suc k)) s = (turn kv renew d n False j ^^ 4) ((turn kv renew d n False j ^^ (4 * k)) s)"
    by (simp only: mult_Suc_right funpow_add o_apply)
  ultimately show ?case using k by (auto simp del: funpow.simps)
qed

lemma won_exceeds:
  assumes "ok (ws_kv s)" "pr_pc (ws_proc s j) = RunTop" "pr_pc (ws_proc (turn kv renew d n ctx j s) j) = Won q"
  shows "revn (ws_kv s) < q"
proof -
  obtain pc e kvs where t: "turn kv renew d n ctx j s = s\<lparr>ws_kv := kvs, ws_proc := (ws_proc s)(j := \<lparr>pr_el = e, pr_pc = pc,
       pr_due = due_after renew d (ws_now s) (pr_pc (ws_proc s j)) pc (pr_due (ws_proc s j))\<rparr>)\<rparr>"
    and tok: "turn_ok (ws_now s) (ws_proc s j) (ws_kv s) pc e kvs"
    using turn_cases [OF assms(1)] by blast
  from tok assms(2,3) obtain r where "kv_answers entry revn (entry (ws_kv s) = None) (ws_now s) (we_nodeID (pr_el (ws_proc s j))) r (ws_kv s) kvs"
      "case r of Inr q \<Rightarrow> pc = Won q | Inl _ \<Rightarrow> pc = WatchStart" "pc = Won q"
    by (auto simp: turn_ok_def t)
  with answers_rev show ?thesis by (cases r) auto
qed

end

section \<open>Theorems\<close>

text \<open>
  C27. Epochs are fencing tokens. Over every run of the electors, with processes that sleep, calls that fail
  after the server took them, expired leases and restarts: an epoch that one process had at some time is
  never the epoch of another process, then or later, and whoever wins the lease later gets a greater one.
\<close>

theorem wal_epochs_fence:
  assumes "kv_laws kv ttl ok entry revn" "ok kvs"
    and "(wal_step kv renew d timely)\<^sup>*\<^sup>* (wal_start kvs ids) s" "(wal_step kv renew d timely)\<^sup>*\<^sup>* s s'"
    and "i \<noteq> j" "we_epoch (pr_el (ws_proc s i)) \<noteq> 0"
  shows "we_epoch (pr_el (ws_proc s' j)) \<noteq> we_epoch (pr_el (ws_proc s i)) \<and>
    (\<forall>n ctx q. pr_pc (ws_proc s' j) = RunTop \<longrightarrow> pr_pc (ws_proc (turn kv renew d n ctx j s') j) = Won q \<longrightarrow>
       we_epoch (pr_el (ws_proc s i)) < q)"
proof -
  note L = lease_bucket.intro [OF assms(1)]
  let ?e = "we_epoch (pr_el (ws_proc s i))"
  have t: "?e \<in> lease_bucket.tokens (ws_proc s i)" using assms(6) by (simp add: lease_bucket.tokens_def [OF L])
  have "we_epoch (pr_el (ws_proc s' j)) \<noteq> ?e"
    using lease_bucket.tokens_fence [OF L assms(3,2,4,5)] t assms(6) by (auto simp: lease_bucket.tokens_def [OF L])
  moreover from lease_bucket.run_tokens [OF L assms(3) lease_bucket.start_tokens [OF L assms(2)]]
  have inv: "lease_bucket.tokens_inv ok revn s" by simp
  with lease_bucket.run_tokens [OF L assms(4)] t have "?e \<le> revn (ws_kv s)" "revn (ws_kv s) \<le> revn (ws_kv s')" "ok (ws_kv s')"
    by (auto simp: lease_bucket.tokens_inv_def [OF L])
  ultimately show ?thesis using lease_bucket.won_exceeds [OF L] by (meson order.strict_trans1 order_trans)
qed

text \<open>
  C28. One leader. When every call returns within \<open>d\<close> of the server's action, ticks are not late, and the lease
  outlasts a renewal period and two such delays, at most one process reports that it leads, and the
  key names its node.
\<close>

theorem wal_single_leader:
  assumes "kv_laws kv ttl ok entry revn" "ok kvs" "renew + 2 * d < ttl"
    and "(wal_step kv renew d True)\<^sup>*\<^sup>* (wal_start kvs ids) s" "we_isLeader (pr_el (ws_proc s i))"
  shows "(\<exists>q w. entry (ws_kv s) = Some (q, we_nodeID (pr_el (ws_proc s i)), w)) \<and>
    (\<forall>j. we_isLeader (pr_el (ws_proc s j)) \<longrightarrow> j = i)"
proof -
  note L = lease_bucket.intro [OF assms(1)]
  note inv = lease_bucket.run_lease [OF L assms(4,2,3)]
  from inv assms(5) have "\<exists>q w. entry (ws_kv s) = Some (q, we_nodeID (pr_el (ws_proc s i)), w)"
    by (fastforce simp: lease_bucket.lease_inv_def [OF L] lease_bucket.lease_of_def [OF L])
  with lease_bucket.leaders_equal [OF L inv] assms(5) show ?thesis by blast
qed

text \<open>
  A standby does not wait: the watcher sends the current value and then the nil that marks the end of the
  initial values, on which \<open>watchForExpiry\<close> returns. While another node holds the lease, any number of
  rounds of \<open>Create\<close> and \<open>Watch\<close> take no time and change nothing.
\<close>

theorem standby_spins:
  assumes "kv_laws kv ttl ok entry revn" "ok (ws_kv s)" "entry (ws_kv s) = Some l" "pr_pc (ws_proc s j) = RunTop"
    and "\<And>s. ok s \<Longrightarrow> \<exists>ups. kv_Watch kv n s = Inr ups"
  shows "\<exists>kvs. (turn kv renew d n False j ^^ (4 * k)) s = s\<lparr>ws_kv := kvs\<rparr> \<and> entry kvs = Some l"
proof -
  note L = lease_bucket.intro [OF assms(1)]
  from assms(2-4) have "lease_bucket.stands_by ok entry j s" by (simp add: lease_bucket.stands_by_def [OF L])
  from lease_bucket.standby_rounds [OF L this, where n = n and renew = renew and d = d and k = k] assms(5)
  have "\<exists>kvs. (turn kv renew d n False j ^^ (4 * k)) s = s\<lparr>ws_kv := kvs\<rparr> \<and> ok kvs \<and> entry kvs = entry (ws_kv s)" by blast
  then show ?thesis unfolding assms(3) by blast
qed

end
