(* ===== verification/Wal_Leader_Examples.thy ===== *)
theory Wal_Leader_Examples
  imports Wal_Leader_Props
begin

text \<open>A bucket in memory that keeps the laws, runs of the electors on it, and instances of the theorems.\<close>

record mem_kv =
  mk_entry :: lease
  mk_rev :: u64

definition mk_ok :: "mem_kv \<Rightarrow> bool" where
  "mk_ok s \<longleftrightarrow> True"

text \<open>The network argument says whether the reply arrives. At the last revision the bucket takes no more writes.\<close>

definition mk_write :: "bool \<Rightarrow> bool \<Rightarrow> nat \<Rightarrow> string \<Rightarrow> mem_kv \<Rightarrow> (string + u64) \<times> mem_kv" where
  "mk_write arrives guard now v s =
     (if guard \<and> mk_rev s \<noteq> - 1
      then (if arrives then Inr (mk_rev s + 1) else Inl ''timeout'', \<lparr>mk_entry = Some (mk_rev s + 1, v, now), mk_rev = mk_rev s + 1\<rparr>)
      else (Inl ''wrong last sequence'', s))"

definition mem_bucket :: "nat \<Rightarrow> (bool, mem_kv) kv_bucket" where
  "mem_bucket ttl =
     \<lparr>kv_Create = (\<lambda>n now v s. mk_write n (mk_entry s = None) now v s),
      kv_Update = (\<lambda>n now v q s. mk_write n (map_option fst (mk_entry s) = Some q) now v s),
      kv_Watch = (\<lambda>n s. Inr (if mk_entry s = None then [WMarker] else [WPut, WMarker])),
      kv_expire = (\<lambda>now s. case mk_entry s of None \<Rightarrow> s | Some (q, v, w) \<Rightarrow> if w + ttl \<le> now then s\<lparr>mk_entry := None\<rparr> else s)\<rparr>"

lemma mk_write_answers:
  "mk_write n g now v s = (r, s') \<Longrightarrow> kv_answers mk_entry mk_rev g now v r s s'"
  by (auto simp: mk_write_def kv_answers_def kv_writes_def kv_same_def word_less_succ_iff split: if_splits)

lemma mem_bucket_laws: "kv_laws (mem_bucket ttl) ttl mk_ok mk_entry mk_rev"
  by (auto simp: kv_laws_def mem_bucket_def mk_ok_def kv_same_def intro: mk_write_answers split: option.splits)

interpretation mem_lease: lease_bucket "mem_bucket 15" 15 mk_ok mk_entry mk_rev
  by unfold_locales (rule mem_bucket_laws)

definition kv0 :: mem_kv where
  "kv0 = \<lparr>mk_entry = None, mk_rev = 0\<rparr>"

definition node_ids :: "nat \<Rightarrow> string" where
  "node_ids i = (if i = 0 then ''a'' else ''b'')"

lemmas turn_defs = turn_def elector_turn_def run_create_def holdLease_turn_def due_after_def mem_bucket_def mk_write_def Let_def
lemmas start_defs = wal_start_def fresh_proc_def kv0_def node_ids_def

text \<open>Process 0 takes the free key and is the leader after three turns; \<open>late\<close> passes between the first and the second.\<close>

definition led :: "nat \<Rightarrow> nat \<Rightarrow> mem_kv wal_sys" where
  "led d late =
     (let s0 = wal_start kv0 node_ids
      in s0\<lparr>ws_now := late, ws_kv := \<lparr>mk_entry = Some (1, ''a'', 0), mk_rev = 1\<rparr>,
            ws_proc := (ws_proc s0)(0 := \<lparr>pr_el = \<lparr>we_nodeID = ''a'', we_epoch = 1, we_isLeader = True\<rparr>, pr_pc = Holding 1, pr_due = late + 7 + d\<rparr>)\<rparr>)"

definition won :: "nat \<Rightarrow> nat \<Rightarrow> mem_kv wal_sys" where
  "won d now =
     (let s0 = wal_start kv0 node_ids
      in s0\<lparr>ws_now := now, ws_kv := \<lparr>mk_entry = Some (1, ''a'', 0), mk_rev = 1\<rparr>,
            ws_proc := (ws_proc s0)(0 := \<lparr>pr_el = \<lparr>we_nodeID = ''a'', we_epoch = 0, we_isLeader = False\<rparr>, pr_pc = Won 1, pr_due = d\<rparr>)\<rparr>)"

lemma won_turns: "turn (mem_bucket 15) 7 d True False 0 (turn (mem_bucket 15) 7 d True False 0 (won d late)) = led d late"
  by (simp add: won_def led_def turn_defs)

lemma start_turn: "turn (mem_bucket 15) 7 d True False 0 (wal_start kv0 node_ids) = won d 0"
  by (simp add: won_def turn_defs start_defs)

lemma led_reached:
  assumes "late \<le> d"
  shows "(wal_step (mem_bucket 15) 7 d True)\<^sup>*\<^sup>* (wal_start kv0 node_ids) (led d late)"
proof -
  let ?R = "wal_step (mem_bucket 15) 7 d True" and ?t = "turn (mem_bucket 15) 7 d True False 0"
  have "?R (wal_start kv0 node_ids) (won d 0)" using step_turn [of _ _ _ _ _ True False 0] by (metis start_turn)
  moreover have "?R (won d 0) ((won d 0)\<lparr>ws_now := late\<rparr>)"
    using assms by (intro step_time) (auto simp: in_time_def won_def start_defs)
  moreover have "(won d 0)\<lparr>ws_now := late\<rparr> = won d late" by (simp add: won_def Let_def)
  moreover have "?R (won d late) (?t (won d late))" "?R (?t (won d late)) (?t (?t (won d late)))" by (rule step_turn)+
  ultimately show ?thesis unfolding won_turns by (metis (no_types, lifting) rtranclp.simps)
qed

text \<open>Then the lease runs out while process 0 waits, and process 1 takes it.\<close>

definition expired :: "mem_kv wal_sys" where
  "expired = (led 5 5)\<lparr>ws_now := 15, ws_kv := \<lparr>mk_entry = None, mk_rev = 1\<rparr>\<rparr>"

definition overtaken :: "mem_kv wal_sys" where
  "overtaken = (turn (mem_bucket 15) 7 5 True False 1 ^^ 3) expired"

lemma overtaken_eq:
  "overtaken = (led 5 5)\<lparr>ws_now := 15, ws_kv := \<lparr>mk_entry = Some (2, ''b'', 15), mk_rev = 2\<rparr>,
     ws_proc := (ws_proc (led 5 5))(1 := \<lparr>pr_el = \<lparr>we_nodeID = ''b'', we_epoch = 2, we_isLeader = True\<rparr>, pr_pc = Holding 2, pr_due = 27\<rparr>)\<rparr>"
  by (simp add: overtaken_def expired_def numeral_eq_Suc led_def turn_defs start_defs)

lemma overtaken_reached: "(wal_step (mem_bucket 15) 7 5 True)\<^sup>*\<^sup>* (led 5 5) overtaken"
proof -
  let ?R = "wal_step (mem_bucket 15) 7 5 True" and ?t = "turn (mem_bucket 15) 7 5 True False 1"
  let ?s = "(led 5 5)\<lparr>ws_now := 15\<rparr>"
  have 1: "?R (led 5 5) ?s" by (intro step_time) (auto simp: in_time_def led_def start_defs)
  have "?R ?s (?s\<lparr>ws_kv := kv_expire (mem_bucket 15) (ws_now ?s) (ws_kv ?s)\<rparr>)" by (rule step_expire)
  then have 2: "?R ?s expired" by (simp add: expired_def led_def mem_bucket_def Let_def)
  have "?R\<^sup>*\<^sup>* expired ((?t ^^ k) expired)" for k
    by (induction k) (auto intro: rtranclp.rtrancl_into_rtrancl step_turn)
  with 1 2 show ?thesis unfolding overtaken_def by (meson converse_rtranclp_into_rtranclp)
qed

text \<open>
  With the constants of the code and calls that may take five seconds two processes report that they lead:
  the reply to \<open>Create\<close> was slow, so the first renewal comes after the lease has run out.
\<close>

lemma wal_leaders_overlap:
  "\<exists>s. (wal_step (mem_bucket defaultLeaseTTL) defaultRenewEvery 5 True)\<^sup>*\<^sup>* (wal_start kv0 node_ids) s \<and>
     we_isLeader (pr_el (ws_proc s 0)) \<and> we_isLeader (pr_el (ws_proc s 1))"
proof -
  have "(wal_step (mem_bucket 15) 7 5 True)\<^sup>*\<^sup>* (wal_start kv0 node_ids) overtaken"
    using led_reached [of 5 5] overtaken_reached by simp
  moreover have "we_isLeader (pr_el (ws_proc overtaken 0))" "we_isLeader (pr_el (ws_proc overtaken 1))"
    by (simp_all add: overtaken_eq led_def Let_def)
  ultimately show ?thesis unfolding defaultLeaseTTL_def defaultRenewEvery_def by blast
qed

section \<open>Instances\<close>

theorem wal_epochs_fence_witness:
  "we_epoch (pr_el (ws_proc (led 5 5) 0)) = 1 \<and> we_epoch (pr_el (ws_proc overtaken 1)) \<noteq> 1"
proof -
  have "mk_ok kv0" "we_epoch (pr_el (ws_proc (led 5 5) 0)) = 1" by (simp_all add: mk_ok_def led_def Let_def)
  with wal_epochs_fence [OF mem_bucket_laws _ led_reached [OF order_refl] overtaken_reached, where i = 0 and j = 1] show ?thesis by simp
qed

theorem wal_single_leader_witness:
  "we_isLeader (pr_el (ws_proc (led 3 3) 0)) \<and> \<not> we_isLeader (pr_el (ws_proc (led 3 3) 1))"
proof -
  have "we_isLeader (pr_el (ws_proc (led 3 3) 0))" "mk_ok kv0" by (simp_all add: led_def Let_def mk_ok_def)
  with wal_single_leader [OF mem_bucket_laws _ _ led_reached [of 3 3], of 0] show ?thesis by auto
qed

theorem standby_spins_witness:
  "map_option fst (mk_entry (ws_kv ((turn (mem_bucket 15) 7 3 True False 1 ^^ (4 * 25)) (led 3 0)))) = Some 1 \<and>
   ws_now ((turn (mem_bucket 15) 7 3 True False 1 ^^ (4 * 25)) (led 3 0)) = 0"
proof -
  have s: "mk_entry (ws_kv (led 3 0)) = Some (1, ''a'', 0)" "pr_pc (ws_proc (led 3 0) 1) = RunTop" "mk_ok (ws_kv (led 3 0))" "ws_now (led 3 0) = 0"
    by (simp_all add: led_def Let_def start_defs mk_ok_def)
  have w: "\<exists>ups. kv_Watch (mem_bucket 15) True t = Inr ups" for t by (simp add: mem_bucket_def)
  from standby_spins [OF mem_bucket_laws s(3,1,2) w, where renew = 7 and d = 3 and k = 25] obtain kvs where
    "(turn (mem_bucket 15) 7 3 True False 1 ^^ (4 * 25)) (led 3 0) = (led 3 0)\<lparr>ws_kv := kvs\<rparr>" "mk_entry kvs = Some (1, ''a'', 0)"
    by blast
  then show ?thesis using s(4) by (simp del: funpow.simps)
qed

end
