(* ===== verification/Ha_Leader.thy ===== *)
theory Ha_Leader
  imports Kaptanto_Prelude
begin

text \<open>
  Leader election of two instances over a Postgres advisory lock (\<open>internal/ha/leader.go\<close>). The lock belongs
  to a session; Postgres releases it when the session ends. The server is a record of functions with its
  documented laws; a process is named by the one session it opens.
\<close>

section \<open>Sessions and the lock\<close>

text \<open>The first argument of a query is what the network does in it.\<close>

record ('n, 's) lock_ops =
  lk_try :: "'n \<Rightarrow> nat \<Rightarrow> 's \<Rightarrow> (string + bool) \<times> 's"
  lk_unlock :: "'n \<Rightarrow> nat \<Rightarrow> 's \<Rightarrow> (string + bool) \<times> 's"
  lk_end :: "nat \<Rightarrow> 's \<Rightarrow> 's"

definition lock_laws :: "('n, 's) lock_ops \<Rightarrow> ('s \<Rightarrow> nat \<Rightarrow> bool) \<Rightarrow> ('s \<Rightarrow> nat option) \<Rightarrow> bool" where
  "lock_laws pg alive holder \<longleftrightarrow>
     (\<forall>n k s r s'. lk_try pg n k s = (r, s') \<longrightarrow>
        alive s' = alive s \<and> (\<not> alive s k \<longrightarrow> (\<exists>e. r = Inl e) \<and> holder s' = holder s) \<and>
        (r = Inr True \<longrightarrow> holder s \<in> {None, Some k} \<and> holder s' = Some k) \<and>
        (r = Inr False \<longrightarrow> holder s' = holder s) \<and>
        (holder s' = holder s \<or> holder s = None \<and> holder s' = Some k)) \<and>
     (\<forall>n k s r s'. lk_unlock pg n k s = (r, s') \<longrightarrow>
        alive s' = alive s \<and> (holder s' = holder s \<or> holder s = Some k \<and> holder s' = None)) \<and>
     (\<forall>k s. alive (lk_end pg k s) = (alive s)(k := False) \<and>
        holder (lk_end pg k s) = (if holder s = Some k then None else holder s))"

section \<open>The elector\<close>

definition NewLeaderElector :: "string option \<Rightarrow> nat \<Rightarrow> string + nat" where
  "NewLeaderElector connect_err conn = (case connect_err of Some e \<Rightarrow> Inl e | None \<Rightarrow> Inr conn)"

definition TryAcquire :: "('n, 's) lock_ops \<Rightarrow> 'n \<Rightarrow> nat \<Rightarrow> 's \<Rightarrow> (bool \<times> string option) \<times> 's" where
  "TryAcquire pg n conn s =
     (case lk_try pg n conn s of
        (Inl e, s') \<Rightarrow> ((False, Some e), s')
      | (Inr acquired, s') \<Rightarrow> ((acquired, None), s'))"

definition Release :: "('n, 's) lock_ops \<Rightarrow> 'n \<Rightarrow> nat \<Rightarrow> 's \<Rightarrow> string option \<times> 's" where
  "Release pg n conn s =
     (case lk_unlock pg n conn s of
        (Inl e, s') \<Rightarrow> (Some e, s')
      | (Inr _, s') \<Rightarrow> (None, s'))"

definition ha_Close :: "('n, 's) lock_ops \<Rightarrow> nat \<Rightarrow> 's \<Rightarrow> 's" where
  "ha_Close pg conn s = lk_end pg conn s"

text \<open>The cases of the select in \<open>RunStandby\<close>. With no further input the loop still polls: \<open>None\<close>.\<close>

datatype 'n standby_in = CtxDone string | Tick 'n

fun RunStandby :: "('n, 's) lock_ops \<Rightarrow> nat \<Rightarrow> 'n standby_in list \<Rightarrow> 's \<Rightarrow> (string + unit) option \<times> 's" where
  "RunStandby pg conn [] s = (None, s)"
| "RunStandby pg conn (CtxDone e # ins) s = (Some (Inl e), s)"
| "RunStandby pg conn (Tick n # ins) s =
     (case TryAcquire pg n conn s of
        ((_, Some e), s') \<Rightarrow> RunStandby pg conn ins s'
      | ((True, None), s') \<Rightarrow> (Some (Inr ()), s')
      | ((False, None), s') \<Rightarrow> RunStandby pg conn ins s')"

section \<open>All instances\<close>

datatype ha_pc = HaStandby | HaLeading | HaStopped

record 's ha_sys =
  hs_pg :: 's
  hs_pc :: "nat \<Rightarrow> ha_pc"

text \<open>
  Any number of ticks of one process are a step, as are the end of a process and the loss of a session,
  which the process does not notice.
\<close>

inductive ha_step :: "('n, 's) lock_ops \<Rightarrow> 's ha_sys \<Rightarrow> 's ha_sys \<Rightarrow> bool" for pg where
  ha_poll: "hs_pc s i = HaStandby \<Longrightarrow> RunStandby pg i ins (hs_pg s) = (r, db) \<Longrightarrow>
     pc = (case r of None \<Rightarrow> HaStandby | Some (Inr _) \<Rightarrow> HaLeading | Some (Inl _) \<Rightarrow> HaStopped) \<Longrightarrow>
     ha_step pg s (s\<lparr>hs_pg := db, hs_pc := (hs_pc s)(i := pc)\<rparr>)"
| ha_exit: "ha_step pg s (s\<lparr>hs_pg := ha_Close pg i (hs_pg s), hs_pc := (hs_pc s)(i := HaStopped)\<rparr>)"
| ha_lost: "ha_step pg s (s\<lparr>hs_pg := lk_end pg i (hs_pg s)\<rparr>)"

locale advisory_lock =
  fixes pg :: "('n, 's) lock_ops" and alive :: "'s \<Rightarrow> nat \<Rightarrow> bool" and holder :: "'s \<Rightarrow> nat option"
  assumes laws: "lock_laws pg alive holder"
begin

lemmas try_law = laws [unfolded lock_laws_def, THEN conjunct1, rule_format]
lemmas end_law = laws [unfolded lock_laws_def, THEN conjunct2, THEN conjunct2, rule_format]

text \<open>While it polls, a process takes the lock only when it is free, and then or never returns nil.\<close>

lemma RunStandby_ok:
  assumes "RunStandby pg k ins s = (r, s')"
  shows "alive s' = alive s \<and> (holder s' = holder s \<or> holder s = None \<and> holder s' = Some k) \<and>
    (r = Some (Inr ()) \<longrightarrow> alive s k \<and> holder s' = Some k)"
  using assms
proof (induction ins arbitrary: s)
  case Nil
  then show ?case by simp
next
  case (Cons x ins)
  show ?case
  proof (cases x)
    case (CtxDone e)
    with Cons.prems show ?thesis by auto
  next
    case (Tick n)
    obtain t s1 where t: "lk_try pg n k s = (t, s1)" by fastforce
    note l = try_law [OF t]
    show ?thesis
    proof (cases "t = Inr True")
      case True
      with Cons.prems Tick t l show ?thesis by (auto simp: TryAcquire_def)
    next
      case False
      with Cons.prems Tick t have "RunStandby pg k ins s1 = (r, s')"
        by (auto simp: TryAcquire_def split: sum.splits bool.splits prod.splits)
      from Cons.IH [OF this] l show ?thesis by auto
    qed
  qed
qed

text \<open>A standby whose session is gone polls a dead connection: it never leads.\<close>

lemma RunStandby_lost:
  assumes "\<not> alive s k" "RunStandby pg k ins s = (r, s')"
  shows "r \<noteq> Some (Inr ())"
  using RunStandby_ok [OF assms(2)] assms(1) by auto

definition lock_inv :: "'s ha_sys \<Rightarrow> bool" where
  "lock_inv s \<longleftrightarrow> (\<forall>i. hs_pc s i = HaLeading \<longrightarrow> alive (hs_pg s) i \<longrightarrow> holder (hs_pg s) = Some i)"

lemma step_lock:
  assumes "ha_step pg s s'" "lock_inv s"
  shows "lock_inv s'"
  using assms(1)
proof cases
  case (ha_poll i ins r db pc)
  from RunStandby_ok [OF ha_poll(3)] assms(2) ha_poll show ?thesis
    by (fastforce simp: lock_inv_def split: option.splits sum.splits)
next
  case (ha_exit i)
  with assms(2) end_law [of i "hs_pg s"] show ?thesis by (auto simp: lock_inv_def ha_Close_def)
next
  case (ha_lost i)
  with assms(2) end_law [of i "hs_pg s"] show ?thesis by (auto simp: lock_inv_def)
qed

lemma run_lock:
  assumes "(ha_step pg)\<^sup>*\<^sup>* s s'" "lock_inv s"
  shows "lock_inv s'"
  using assms by induction (auto intro: step_lock)

end

section \<open>Theorems\<close>

definition ha_start :: "'s \<Rightarrow> 's ha_sys" where
  "ha_start db = \<lparr>hs_pg = db, hs_pc = (\<lambda>_. HaStandby)\<rparr>"

text \<open>
  C31. Of the instances whose session is alive at most one leads, and it holds the lock; and once the session of a
  standby is gone, no number of polls makes it the leader.
\<close>

theorem ha_single_leader:
  assumes "lock_laws pg alive holder" "(ha_step pg)\<^sup>*\<^sup>* (ha_start db) s"
    and "hs_pc s i = HaLeading" "alive (hs_pg s) i"
  shows "holder (hs_pg s) = Some i \<and> (\<forall>j. hs_pc s j = HaLeading \<longrightarrow> alive (hs_pg s) j \<longrightarrow> j = i) \<and>
    (\<forall>j ins. \<not> alive (hs_pg s) j \<longrightarrow> fst (RunStandby pg j ins (hs_pg s)) \<noteq> Some (Inr ()))"
proof -
  note L = advisory_lock.intro [OF assms(1)]
  have "advisory_lock.lock_inv alive holder (ha_start db)" by (simp add: advisory_lock.lock_inv_def [OF L] ha_start_def)
  from advisory_lock.run_lock [OF L assms(2) this]
  have "\<And>j. hs_pc s j = HaLeading \<Longrightarrow> alive (hs_pg s) j \<Longrightarrow> holder (hs_pg s) = Some j" by (simp add: advisory_lock.lock_inv_def [OF L])
  moreover have "fst (RunStandby pg j ins (hs_pg s)) \<noteq> Some (Inr ())" if "\<not> alive (hs_pg s) j" for j ins
    using advisory_lock.RunStandby_lost [OF L that, of ins] by (cases "RunStandby pg j ins (hs_pg s)") simp
  ultimately show ?thesis using assms(3,4) by (metis option.inject)
qed

section \<open>A server in memory\<close>

record mem_pg =
  mp_alive :: "nat \<Rightarrow> bool"
  mp_holder :: "nat option"

text \<open>The network argument says whether the reply arrives.\<close>

definition mem_lock :: "(bool, mem_pg) lock_ops" where
  "mem_lock =
     \<lparr>lk_try = (\<lambda>n k s. if \<not> mp_alive s k then (Inl ''conn closed'', s)
        else let got = (mp_holder s = None \<or> mp_holder s = Some k)
             in (if n then Inr got else Inl ''timeout'', if got then s\<lparr>mp_holder := Some k\<rparr> else s)),
      lk_unlock = (\<lambda>n k s. if mp_alive s k \<and> mp_holder s = Some k then (Inr True, s\<lparr>mp_holder := None\<rparr>) else (Inr False, s)),
      lk_end = (\<lambda>k s. s\<lparr>mp_alive := (mp_alive s)(k := False), mp_holder := (if mp_holder s = Some k then None else mp_holder s)\<rparr>)\<rparr>"

lemma mem_lock_laws: "lock_laws mem_lock mp_alive mp_holder"
  by (auto simp: lock_laws_def mem_lock_def Let_def split: if_splits)

interpretation mem_session: advisory_lock mem_lock mp_alive mp_holder
  by unfold_locales (rule mem_lock_laws)

definition pg0 :: mem_pg where
  "pg0 = \<lparr>mp_alive = (\<lambda>_. True), mp_holder = None\<rparr>"

definition one_leads :: "mem_pg ha_sys" where
  "one_leads = \<lparr>hs_pg = pg0\<lparr>mp_holder := Some 0\<rparr>, hs_pc = (\<lambda>_. HaStandby)(0 := HaLeading)\<rparr>"

lemma one_leads_step: "ha_step mem_lock (ha_start pg0) one_leads"
  using ha_poll [of "ha_start pg0" 0 mem_lock "[Tick True]" "Some (Inr ())" "hs_pg one_leads" HaLeading]
  by (simp add: ha_start_def one_leads_def pg0_def TryAcquire_def mem_lock_def)

theorem ha_single_leader_witness: "mp_holder (hs_pg one_leads) = Some 0 \<and> hs_pc one_leads 0 = HaLeading"
proof -
  have "hs_pc one_leads 0 = HaLeading" "mp_alive (hs_pg one_leads) 0" by (simp_all add: one_leads_def pg0_def)
  moreover have "(ha_step mem_lock)\<^sup>*\<^sup>* (ha_start pg0) one_leads" using one_leads_step by blast
  ultimately show ?thesis using ha_single_leader [OF mem_lock_laws, of pg0 one_leads 0] by simp
qed

text \<open>
  A leader whose session is lost does not learn of it: another instance takes the lock, and both lead.
\<close>

lemma ha_leaders_overlap:
  "\<exists>s. (ha_step mem_lock)\<^sup>*\<^sup>* (ha_start pg0) s \<and> hs_pc s 0 = HaLeading \<and> hs_pc s 1 = HaLeading"
proof -
  define lost where "lost = one_leads\<lparr>hs_pg := lk_end mem_lock 0 (hs_pg one_leads)\<rparr>"
  have 1: "ha_step mem_lock one_leads lost" unfolding lost_def by (rule ha_lost)
  obtain db where "RunStandby mem_lock 1 [Tick True] (hs_pg lost) = (Some (Inr ()), db)" "hs_pc lost 1 = HaStandby"
    by (simp add: lost_def one_leads_def pg0_def TryAcquire_def mem_lock_def)
  then have 2: "ha_step mem_lock lost (lost\<lparr>hs_pg := db, hs_pc := (hs_pc lost)(1 := HaLeading)\<rparr>)" (is "ha_step _ _ ?both")
    by (intro ha_poll [where ins = "[Tick True]" and r = "Some (Inr ())"]) simp_all
  have "(ha_step mem_lock)\<^sup>*\<^sup>* (ha_start pg0) one_leads" using one_leads_step by blast
  with 1 2 have "(ha_step mem_lock)\<^sup>*\<^sup>* (ha_start pg0) ?both" by (meson rtranclp.rtrancl_into_rtrancl)
  moreover have "hs_pc ?both 0 = HaLeading" "hs_pc ?both 1 = HaLeading" by (simp_all add: lost_def one_leads_def)
  ultimately show ?thesis by blast
qed

end
