(* ===== verification/Source_Checkpoint.thy ===== *)
theory Source_Checkpoint
  imports Kaptanto_Prelude
begin

text \<open>
  The stores of source positions (\<open>internal/checkpoint/sqlite.go\<close>, \<open>postgres.go\<close>, the interface of
  \<open>store.go\<close>): one row per source id, written by an ckpt_upsert, read on start. Both stores provide the locale
  \<open>checkpoint_store\<close>, on which the connectors rely.
\<close>

section \<open>The interface\<close>

text \<open>How a statement ends. After an error it took effect or not.\<close>

datatype exec_outcome = ExecOk | ExecErr bool

text \<open>\<open>ck_save\<close> returns whether it succeeded; \<open>ck_load\<close> returns \<open>None\<close> on an error.\<close>

record 's ckpt_ops =
  ck_save :: "exec_outcome \<Rightarrow> string \<Rightarrow> string \<Rightarrow> 's \<Rightarrow> bool \<times> 's"
  ck_load :: "bool \<Rightarrow> string \<Rightarrow> 's \<Rightarrow> string option"

locale checkpoint_store =
  fixes ops :: "'s ckpt_ops" and ok :: "'s \<Rightarrow> bool" and position :: "'s \<Rightarrow> string \<Rightarrow> string"
  assumes save_law: "ok s \<Longrightarrow> ck_save ops oc sid lsn s = (r, s') \<Longrightarrow>
      ok s' \<and> (r \<longleftrightarrow> oc = ExecOk) \<and> position s' = (if oc = ExecErr False then position s else (position s)(sid := lsn))"
    and load_law: "ok s \<Longrightarrow> ck_load ops fails sid s = (if fails then None else Some (position s sid))"
begin

lemma save_load:
  assumes "ok s" "ck_save ops ExecOk sid lsn s = (r, s')"
  shows "r \<and> ck_load ops False sid s' = Some lsn \<and> (\<forall>sid'. sid' \<noteq> sid \<longrightarrow> ck_load ops False sid' s' = ck_load ops False sid' s)"
  using save_law [OF assms] assms(1) by (simp add: load_law)

lemma save_ok: "ok s \<Longrightarrow> ok (snd (ck_save ops oc sid lsn s))"
  by (metis prod.collapse save_law)

lemma save_result: "ok s \<Longrightarrow> fst (ck_save ops oc sid lsn s) \<longleftrightarrow> oc = ExecOk"
  by (metis prod.collapse save_law)

lemma save_position:
  "ok s \<Longrightarrow> position (snd (ck_save ops oc sid lsn s)) = (if oc = ExecErr False then position s else (position s)(sid := lsn))"
  by (metis prod.collapse save_law)

end

section \<open>The table\<close>

record ckpt_row =
  kr_source :: string
  kr_lsn :: string
  kr_updated :: int

type_synonym ckpt_table = "ckpt_row list"

text \<open>\<open>source_id\<close> is the primary key.\<close>

definition table_ok :: "ckpt_table \<Rightarrow> bool" where
  "table_ok t \<longleftrightarrow> distinct (map kr_source t)"

text \<open>\<open>INSERT ... ON CONFLICT (source_id) DO UPDATE\<close> with the time of the statement.\<close>

definition ckpt_upsert :: "int \<Rightarrow> string \<Rightarrow> string \<Rightarrow> ckpt_table \<Rightarrow> ckpt_table" where
  "ckpt_upsert now sid lsn t =
     (if sid \<in> kr_source ` set t
      then map (\<lambda>r. if kr_source r = sid then r\<lparr>kr_lsn := lsn, kr_updated := now\<rparr> else r) t
      else t @ [\<lparr>kr_source = sid, kr_lsn = lsn, kr_updated = now\<rparr>])"

definition select_lsn :: "string \<Rightarrow> ckpt_table \<Rightarrow> string option" where
  "select_lsn sid t = map_option kr_lsn (find (\<lambda>r. kr_source r = sid) t)"

definition position_of :: "ckpt_table \<Rightarrow> string \<Rightarrow> string" where
  "position_of t sid = (case select_lsn sid t of None \<Rightarrow> [] | Some lsn \<Rightarrow> lsn)"

definition exec_upsert :: "exec_outcome \<Rightarrow> int \<Rightarrow> string \<Rightarrow> string \<Rightarrow> ckpt_table \<Rightarrow> bool \<times> ckpt_table" where
  "exec_upsert oc now sid lsn t =
     (case oc of
        ExecOk \<Rightarrow> (True, ckpt_upsert now sid lsn t)
      | ExecErr applied \<Rightarrow> (False, if applied then ckpt_upsert now sid lsn t else t))"

section \<open>SQLite\<close>

text \<open>The outcomes are those of \<open>sql.Open\<close>, of the two pragmas and of the schema statement.\<close>

definition initSchema :: "string option \<Rightarrow> ckpt_table option \<Rightarrow> string + ckpt_table" where
  "initSchema err file =
     (case err of Some e \<Rightarrow> Inl (''checkpoint: create schema: '' @ e) | None \<Rightarrow> Inr (case file of None \<Rightarrow> [] | Some t \<Rightarrow> t))"

fun apply_pragmas :: "(string \<times> string option) list \<Rightarrow> string option" where
  "apply_pragmas [] = None"
| "apply_pragmas ((pragma, err) # ps) =
     (case err of Some e \<Rightarrow> Some (''checkpoint: apply pragma '' @ pragma @ '': '' @ e) | None \<Rightarrow> apply_pragmas ps)"

definition sqlite_Open :: "string option \<Rightarrow> string option \<Rightarrow> string option \<Rightarrow> string option \<Rightarrow> ckpt_table option \<Rightarrow> string + ckpt_table" where
  "sqlite_Open open_err wal_err sync_err schema_err file =
     (case open_err of
        Some e \<Rightarrow> Inl (''checkpoint: open sqlite db: '' @ e)
      | None \<Rightarrow>
          (case apply_pragmas [(''PRAGMA journal_mode=WAL;'', wal_err), (''PRAGMA synchronous=NORMAL;'', sync_err)] of
             Some e \<Rightarrow> Inl e
           | None \<Rightarrow> initSchema schema_err file))"

definition sqlite_Save :: "int \<Rightarrow> exec_outcome \<Rightarrow> string \<Rightarrow> string \<Rightarrow> ckpt_table \<Rightarrow> bool \<times> ckpt_table" where
  "sqlite_Save now oc sourceID lsn t = exec_upsert oc now sourceID lsn t"

text \<open>No row is not an error: a first run starts with the empty position.\<close>

definition sqlite_Load :: "bool \<Rightarrow> string \<Rightarrow> ckpt_table \<Rightarrow> string option" where
  "sqlite_Load fails sourceID t =
     (if fails then None else case select_lsn sourceID t of None \<Rightarrow> Some [] | Some lsn \<Rightarrow> Some lsn)"

definition sqlite_ops :: "int \<Rightarrow> ckpt_table ckpt_ops" where
  "sqlite_ops now = \<lparr>ck_save = sqlite_Save now, ck_load = sqlite_Load\<rparr>"

section \<open>Postgres\<close>

definition OpenPostgres :: "string option \<Rightarrow> string option \<Rightarrow> ckpt_table option \<Rightarrow> string + ckpt_table" where
  "OpenPostgres connect_err schema_err shared =
     (case connect_err of
        Some e \<Rightarrow> Inl (''checkpoint: open postgres: '' @ e)
      | None \<Rightarrow>
          (case schema_err of
             Some e \<Rightarrow> Inl (''checkpoint: create schema: '' @ e)
           | None \<Rightarrow> Inr (case shared of None \<Rightarrow> [] | Some t \<Rightarrow> t)))"

definition postgres_Save :: "int \<Rightarrow> exec_outcome \<Rightarrow> string \<Rightarrow> string \<Rightarrow> ckpt_table \<Rightarrow> bool \<times> ckpt_table" where
  "postgres_Save now oc sourceID lsn t = exec_upsert oc now sourceID lsn t"

definition postgres_Load :: "bool \<Rightarrow> string \<Rightarrow> ckpt_table \<Rightarrow> string option" where
  "postgres_Load fails sourceID t =
     (if fails then None else case select_lsn sourceID t of None \<Rightarrow> Some [] | Some lsn \<Rightarrow> Some lsn)"

definition postgres_ops :: "int \<Rightarrow> ckpt_table ckpt_ops" where
  "postgres_ops now = \<lparr>ck_save = postgres_Save now, ck_load = postgres_Load\<rparr>"

section \<open>Both keep the contract\<close>

lemma find_None_source: "sid \<notin> kr_source ` set t \<Longrightarrow> find (\<lambda>r. kr_source r = sid) t = None"
  by (auto simp: find_None_iff)

lemma find_append: "find P (xs @ ys) = (case find P xs of None \<Rightarrow> find P ys | Some x \<Rightarrow> Some x)"
  by (induction xs) auto

lemma find_ckpt_upsert:
  "find (\<lambda>r. kr_source r = sid') (ckpt_upsert now sid lsn t) =
     (if sid' = sid then Some (case find (\<lambda>r. kr_source r = sid) t of None \<Rightarrow> \<lparr>kr_source = sid, kr_lsn = lsn, kr_updated = now\<rparr>
        | Some r \<Rightarrow> r\<lparr>kr_lsn := lsn, kr_updated := now\<rparr>)
      else find (\<lambda>r. kr_source r = sid') t)"
proof (cases "sid \<in> kr_source ` set t")
  case True
  have "find (\<lambda>r. kr_source r = sid') (map (\<lambda>r. if kr_source r = sid then r\<lparr>kr_lsn := lsn, kr_updated := now\<rparr> else r) t) =
     (if sid' = sid then map_option (\<lambda>r. r\<lparr>kr_lsn := lsn, kr_updated := now\<rparr>) (find (\<lambda>r. kr_source r = sid) t)
      else find (\<lambda>r. kr_source r = sid') t)"
    by (induction t) auto
  moreover from True have "\<exists>r. find (\<lambda>r. kr_source r = sid) t = Some r" by (cases "find (\<lambda>r. kr_source r = sid) t") (auto simp: find_None_iff)
  ultimately show ?thesis using True by (auto simp: ckpt_upsert_def)
next
  case False
  then show ?thesis by (auto simp: ckpt_upsert_def find_append find_None_source split: option.splits)
qed

lemma ckpt_upsert_ok:
  assumes "table_ok t"
  shows "table_ok (ckpt_upsert now sid lsn t)"
proof -
  have "map kr_source (map (\<lambda>r. if kr_source r = sid then r\<lparr>kr_lsn := lsn, kr_updated := now\<rparr> else r) t) = map kr_source t"
    by (induction t) auto
  with assms show ?thesis unfolding table_ok_def ckpt_upsert_def by (auto simp del: map_map)
qed

lemma position_upsert: "position_of (ckpt_upsert now sid lsn t) = (position_of t)(sid := lsn)"
  by (rule ext) (auto simp: position_of_def select_lsn_def find_ckpt_upsert split: option.splits)

lemma exec_upsert_law:
  assumes "table_ok t" "exec_upsert oc now sid lsn t = (r, t')"
  shows "table_ok t' \<and> (r \<longleftrightarrow> oc = ExecOk) \<and> position_of t' = (if oc = ExecErr False then position_of t else (position_of t)(sid := lsn))"
  using assms by (cases oc) (auto simp: exec_upsert_def ckpt_upsert_ok position_upsert split: if_splits)

lemmas store_defs = sqlite_ops_def sqlite_Save_def sqlite_Load_def postgres_ops_def postgres_Save_def postgres_Load_def

interpretation sqlite_store: checkpoint_store "sqlite_ops now" table_ok position_of for now
  by unfold_locales (auto simp: store_defs position_of_def split: option.splits dest: exec_upsert_law)

interpretation postgres_store: checkpoint_store "postgres_ops now" table_ok position_of for now
  by unfold_locales (auto simp: store_defs position_of_def split: option.splits dest: exec_upsert_law)

text \<open>A database that was opened for the first time has no position for any source.\<close>

lemma opened_empty: "sqlite_Open e1 e2 e3 e4 None = Inr t \<Longrightarrow> table_ok t \<and> position_of t = (\<lambda>_. [])"
  by (auto simp: sqlite_Open_def initSchema_def table_ok_def position_of_def select_lsn_def split: option.splits)

end
