(* ===== verification/Mongo_Source.thy ===== *)
theory Mongo_Source
  imports Change_Event Source_Checkpoint Go_Lib
begin

text \<open>
  The MongoDB source (\<open>internal/source/mongodb/connector.go\<close>, \<open>internal/parser/mongodb/normalizer.go\<close>): change
  stream documents are normalised into events, appended in batches, and the resume token of the last
  document is saved after the append. BSON is opaque: a document is its bytes, and the driver's codec a
  record of functions. The checkpoint store is any \<open>ckpt_ops\<close>.
\<close>

section \<open>Normalizer\<close>

type_synonym bson = string

record changeStreamDoc =
  cs_ResumeToken :: bson
  cs_OperationType :: string
  cs_T :: u32
  cs_I :: u32
  cs_DB :: string
  cs_Coll :: string
  cs_DocumentKey :: bson
  cs_FullDocument :: bson
  cs_BeforeChange :: bson

record bson_ops =
  bs_unmarshal :: "bson \<Rightarrow> changeStreamDoc option"
  bs_ext_json :: "bson \<Rightarrow> string option"
  bs_string :: "bson \<Rightarrow> string"
  bs_parse :: "string \<Rightarrow> bson option"

text \<open>\<open>%08X\<close> of a 32-bit number.\<close>

definition upper_nibble :: "nat \<Rightarrow> char" where
  "upper_nibble n = char_of (if n < 10 then 48 + n else 55 + n)"

definition hex8 :: "u32 \<Rightarrow> string" where
  "hex8 x = map (\<lambda>i. upper_nibble (unat x div 16 ^ (7 - i) mod 16)) [0..<8]"

definition mongo_op :: "string \<Rightarrow> operation option" where
  "mongo_op t =
     (if t = ''insert'' then Some OpInsert
      else if t = ''update'' \<or> t = ''replace'' then Some OpUpdate
      else if t = ''delete'' then Some OpDelete
      else None)"

definition mongo_key :: "string \<Rightarrow> changeStreamDoc \<Rightarrow> string \<Rightarrow> operation \<Rightarrow> string" where
  "mongo_key sourceID cs keyJSON op =
     sourceID @ '':'' @ cs_DB cs @ ''.'' @ cs_Coll cs @ '':'' @ keyJSON @ '':'' @ op @ '':'' @ hex8 (cs_T cs) @ hex8 (cs_I cs)"

text \<open>An absent sub-document stays nil.\<close>

definition opt_json :: "bson_ops \<Rightarrow> bson \<Rightarrow> raw_message option" where
  "opt_json bs doc = (if doc = [] then Some None else map_option Some (bs_ext_json bs doc))"

datatype normalize_error = BadBson | UnsupportedOp string | MissingFullDocument | BadKey | BadFullDocument | BadBeforeChange

definition NormalizeChangeEvent :: "bson_ops \<Rightarrow> bson \<Rightarrow> string \<Rightarrow> string \<Rightarrow> normalize_error + change_event" where
  "NormalizeChangeEvent bs raw sourceID newID =
     (case bs_unmarshal bs raw of
        None \<Rightarrow> Inl BadBson
      | Some cs \<Rightarrow>
          (case mongo_op (cs_OperationType cs) of
             None \<Rightarrow> Inl (UnsupportedOp (cs_OperationType cs))
           | Some op \<Rightarrow>
               if op = OpInsert \<and> cs_FullDocument cs = [] then Inl MissingFullDocument
               else (case bs_ext_json bs (cs_DocumentKey cs) of
                       None \<Rightarrow> Inl BadKey
                     | Some keyJSON \<Rightarrow>
                         (case opt_json bs (cs_FullDocument cs) of
                            None \<Rightarrow> Inl BadFullDocument
                          | Some afterJSON \<Rightarrow>
                              (case opt_json bs (cs_BeforeChange cs) of
                                 None \<Rightarrow> Inl BadBeforeChange
                               | Some beforeJSON \<Rightarrow>
                                   Inr \<lparr>ev_id = newID, ev_idempotency_key = mongo_key sourceID cs keyJSON op,
                                        ev_timestamp = int (unat (cs_T cs)) * 1000000000, ev_source = sourceID,
                                        ev_operation = op, ev_database = cs_DB cs, ev_schema = [], ev_table = cs_Coll cs,
                                        ev_key = Some keyJSON, ev_before = beforeJSON, ev_after = afterJSON,
                                        ev_metadata = [(''resume_token'', JStr (bs_string bs (cs_ResumeToken cs))), (''snapshot'', JBool False),
                                                       (''db'', JStr (cs_DB cs)), (''collection'', JStr (cs_Coll cs))],
                                        ev_ai_context = None\<rparr>)))))"

section \<open>Connector state\<close>

record mongo_cfg =
  mg_URI :: string
  mg_Database :: string
  mg_Collections :: "string list"
  mg_SourceID :: string

definition mongo_ApplyDefaults :: "mongo_cfg \<Rightarrow> mongo_cfg" where
  "mongo_ApplyDefaults c = (if mg_SourceID c = [] then c\<lparr>mg_SourceID := ''mongo_default''\<rparr> else c)"

definition mongo_validate :: "mongo_cfg \<Rightarrow> bool" where
  "mongo_validate c \<longleftrightarrow> mg_Database c \<noteq> []"

text \<open>
  \<open>mc_log\<close> is what the event log stores. It keeps the first event of every idempotency key, which is what
  its appends do.
\<close>

record 's mongo_conn =
  mc_cfg :: mongo_cfg
  mc_store :: 's
  mc_has_log :: bool
  mc_log :: "change_event list"
  mc_chan :: "change_event list"
  mc_needsSnapshot :: bool
  mc_tokens :: "(string, bson) gomap"
  mc_batchesFlushed :: u64
  mc_eventsFlushed :: u64

datatype mongo_error = MongoAppend | MongoSave | MongoLoad | MongoNoCollection | MongoNoDatabase | MongoStream string

definition checkpointKey :: "mongo_cfg \<Rightarrow> string \<Rightarrow> string" where
  "checkpointKey cfg collName = mg_SourceID cfg @ '':'' @ collName"

definition tokenToString :: "bson_ops \<Rightarrow> bson \<Rightarrow> string" where
  "tokenToString bs token = (if token = [] then [] else bs_string bs token)"

definition tokenFromString :: "bson_ops \<Rightarrow> string \<Rightarrow> bson option" where
  "tokenFromString bs s = (if s = [] then Some [] else bs_parse bs s)"

text \<open>\<open>fails\<close> says which of the two queries fail.\<close>

definition loadResumeTokenFromStore :: "'s ckpt_ops \<Rightarrow> bson_ops \<Rightarrow> bool \<times> bool \<Rightarrow> mongo_cfg \<Rightarrow> string \<Rightarrow> 's \<Rightarrow> mongo_error + bson" where
  "loadResumeTokenFromStore ck bs fails cfg collName st =
     (case ck_load ck (fst fails) (checkpointKey cfg collName) st of
        None \<Rightarrow> Inl MongoLoad
      | Some tokenStr0 \<Rightarrow>
          (case (if tokenStr0 = [] then ck_load ck (snd fails) (mg_SourceID cfg) st else Some tokenStr0) of
             None \<Rightarrow> Inl MongoLoad
           | Some tokenStr \<Rightarrow>
               if tokenStr = [] then Inr []
               else (case tokenFromString bs tokenStr of None \<Rightarrow> Inr [] | Some raw \<Rightarrow> Inr raw)))"

fun load_tokens :: "(string \<Rightarrow> mongo_error + bson) \<Rightarrow> string list \<Rightarrow> (string, bson) gomap \<Rightarrow> mongo_error + (string, bson) gomap" where
  "load_tokens load [] m = Inr m"
| "load_tokens load (coll # colls) m =
     (case load coll of
        Inl e \<Rightarrow> Inl e
      | Inr raw \<Rightarrow> load_tokens load colls (if raw = [] then m else gm_set coll raw m))"

definition mongo_NewWithEventLog :: "'s ckpt_ops \<Rightarrow> bson_ops \<Rightarrow> (string \<Rightarrow> bool \<times> bool) \<Rightarrow> mongo_cfg \<Rightarrow> 's \<Rightarrow> bool \<Rightarrow> change_event list
    \<Rightarrow> mongo_error + 's mongo_conn" where
  "mongo_NewWithEventLog ck bs fails cfg0 st el log =
     (let cfg = mongo_ApplyDefaults cfg0
      in if \<not> mongo_validate cfg then Inl MongoNoDatabase
         else case load_tokens (\<lambda>coll. loadResumeTokenFromStore ck bs (fails coll) cfg coll st) (mg_Collections cfg) [] of
                Inl e \<Rightarrow> Inl e
              | Inr toks \<Rightarrow>
                  Inr \<lparr>mc_cfg = cfg, mc_store = st, mc_has_log = el, mc_log = log, mc_chan = [], mc_needsSnapshot = False,
                       mc_tokens = toks, mc_batchesFlushed = 0, mc_eventsFlushed = 0\<rparr>)"

definition resumeTokenForCollection :: "'s mongo_conn \<Rightarrow> string \<Rightarrow> bson" where
  "resumeTokenForCollection c collName = gm_get0 [] (mc_tokens c) collName"

definition collectionForEvent :: "mongo_cfg \<Rightarrow> change_event \<Rightarrow> string" where
  "collectionForEvent cfg ev =
     (if ev_table ev \<noteq> [] \<and> ev_table ev \<in> set (mg_Collections cfg) then ev_table ev
      else case mg_Collections cfg of [] \<Rightarrow> [] | coll # _ \<Rightarrow> coll)"

section \<open>Appending\<close>

definition log_put :: "change_event \<Rightarrow> change_event list \<Rightarrow> change_event list" where
  "log_put ev log = (if ev_idempotency_key ev \<in> ev_idempotency_key ` set log then log else log @ [ev])"

text \<open>A batch append stores all events or, when it fails, those of some positions.\<close>

datatype log_outcome = LogOk | LogErr "nat \<Rightarrow> bool"

definition log_batch :: "log_outcome \<Rightarrow> change_event list \<Rightarrow> change_event list \<Rightarrow> bool \<times> change_event list" where
  "log_batch oc evs log =
     (case oc of
        LogOk \<Rightarrow> (True, fold log_put evs log)
      | LogErr stored \<Rightarrow> (False, fold log_put (map (\<lambda>i. evs ! i) (filter stored [0..<length evs])) log))"

definition mongo_chan_cap :: nat where
  "mongo_chan_cap = 1024"

definition queue_event :: "change_event \<Rightarrow> change_event list \<Rightarrow> change_event list" where
  "queue_event ev ch = (if length ch < mongo_chan_cap then ch @ [ev] else ch)"

definition saveResumeToken :: "'s ckpt_ops \<Rightarrow> bson_ops \<Rightarrow> exec_outcome \<Rightarrow> string \<Rightarrow> bson \<Rightarrow> 's mongo_conn \<Rightarrow> mongo_error option \<times> 's mongo_conn" where
  "saveResumeToken ck bs oc collName token c =
     (case ck_save ck oc (checkpointKey (mc_cfg c) collName) (tokenToString bs token) (mc_store c) of
        (False, st) \<Rightarrow> (Some MongoSave, c\<lparr>mc_store := st\<rparr>)
      | (True, st) \<Rightarrow> (None, c\<lparr>mc_store := st, mc_tokens := gm_set collName token (mc_tokens c)\<rparr>))"

definition mongo_AppendAndQueue :: "'s ckpt_ops \<Rightarrow> bson_ops \<Rightarrow> log_outcome \<Rightarrow> exec_outcome \<Rightarrow> change_event \<Rightarrow> bson \<Rightarrow> 's mongo_conn
    \<Rightarrow> mongo_error option \<times> 's mongo_conn" where
  "mongo_AppendAndQueue ck bs loc soc ev token c =
     (let (stored, log) = (if mc_has_log c then log_batch loc [ev] (mc_log c) else (True, mc_log c)); c1 = c\<lparr>mc_log := log\<rparr>
      in if \<not> stored then (Some MongoAppend, c1)
         else if collectionForEvent (mc_cfg c) ev = [] then (Some MongoNoCollection, c1)
         else case saveResumeToken ck bs soc (collectionForEvent (mc_cfg c) ev) token c1 of
                (Some e, c2) \<Rightarrow> (Some e, c2)
              | (None, c2) \<Rightarrow>
                  (None, c2\<lparr>mc_chan := queue_event ev (mc_chan c2), mc_batchesFlushed := mc_batchesFlushed c2 + 1,
                            mc_eventsFlushed := mc_eventsFlushed c2 + 1\<rparr>))"

definition mongo_AppendAndQueueBatch :: "'s ckpt_ops \<Rightarrow> bson_ops \<Rightarrow> log_outcome \<Rightarrow> exec_outcome \<Rightarrow> string \<Rightarrow> change_event list \<Rightarrow> bson
    \<Rightarrow> 's mongo_conn \<Rightarrow> mongo_error option \<times> 's mongo_conn" where
  "mongo_AppendAndQueueBatch ck bs loc soc collName evs lastToken c =
     (if evs = [] then (None, c)
      else let (stored, log) = (if mc_has_log c then log_batch loc evs (mc_log c) else (True, mc_log c)); c1 = c\<lparr>mc_log := log\<rparr>
           in if \<not> stored then (Some MongoAppend, c1)
              else case saveResumeToken ck bs soc collName lastToken c1 of
                     (Some e, c2) \<Rightarrow> (Some e, c2)
                   | (None, c2) \<Rightarrow>
                       (None, c2\<lparr>mc_chan := fold queue_event evs (mc_chan c2), mc_batchesFlushed := mc_batchesFlushed c2 + 1,
                                 mc_eventsFlushed := mc_eventsFlushed c2 + of_nat (length evs)\<rparr>))"

section \<open>Consuming a stream\<close>

definition maxChangeStreamBatchSize :: nat where
  "maxChangeStreamBatchSize = 256"

text \<open>
  What the iterator yields: the document, if it decodes, its resume token, the identifier the generator
  would give, and whether the driver had it buffered, so that \<open>TryNext\<close> returns it.
\<close>

record stream_item =
  si_doc :: "bson option"
  si_token :: bson
  si_id :: string
  si_buffered :: bool

definition decodeNext :: "bson_ops \<Rightarrow> string \<Rightarrow> stream_item \<Rightarrow> change_event option \<times> bson" where
  "decodeNext bs sourceID it =
     (case si_doc it of
        None \<Rightarrow> (None, si_token it)
      | Some raw \<Rightarrow>
          (case NormalizeChangeEvent bs raw sourceID (si_id it) of
             Inl _ \<Rightarrow> (None, si_token it)
           | Inr ev \<Rightarrow> (Some ev, si_token it)))"

definition take_item :: "bson_ops \<Rightarrow> string \<Rightarrow> stream_item \<Rightarrow> change_event list \<times> bson \<Rightarrow> change_event list \<times> bson" where
  "take_item bs sourceID it = (\<lambda>(batch, lastToken).
     case decodeNext bs sourceID it of
       (Some ev, token) \<Rightarrow> (batch @ [ev], token)
     | (None, token) \<Rightarrow> (batch, if token \<noteq> [] then token else lastToken))"

text \<open>The inner loop: drain what is buffered while the batch is not full.\<close>

fun drain_batch :: "bson_ops \<Rightarrow> string \<Rightarrow> stream_item list \<Rightarrow> change_event list \<times> bson \<Rightarrow> (change_event list \<times> bson) \<times> stream_item list" where
  "drain_batch bs sourceID [] b = (b, [])"
| "drain_batch bs sourceID (it # its) b =
     (if length (fst b) < maxChangeStreamBatchSize \<and> si_buffered it then drain_batch bs sourceID its (take_item bs sourceID it b)
      else (b, it # its))"

record batch_env =
  be_log :: log_outcome
  be_save :: exec_outcome

definition flush_batch :: "'s ckpt_ops \<Rightarrow> bson_ops \<Rightarrow> batch_env \<Rightarrow> string \<Rightarrow> change_event list \<times> bson \<Rightarrow> 's mongo_conn
    \<Rightarrow> mongo_error option \<times> 's mongo_conn" where
  "flush_batch ck bs env collName = (\<lambda>(batch, lastToken) c.
     if batch \<noteq> [] then mongo_AppendAndQueueBatch ck bs (be_log env) (be_save env) collName batch lastToken c
     else if lastToken \<noteq> [] then saveResumeToken ck bs (be_save env) collName lastToken c
     else (None, c))"

definition strings_Contains :: "string \<Rightarrow> string \<Rightarrow> bool" where
  "strings_Contains s sub \<longleftrightarrow> (\<exists>i \<in> {0..length s}. take (length sub) (drop i s) = sub)"

datatype mongo_err = CommandError int string | OtherError string

definition isInvalidResumeToken :: "mongo_err \<Rightarrow> bool" where
  "isInvalidResumeToken err =
     (case err of
        CommandError ec msg \<Rightarrow> ec = 260 \<or> strings_Contains msg ''InvalidResumeToken''
      | OtherError msg \<Rightarrow> strings_Contains msg ''InvalidResumeToken'')"

lemma drain_batch_shorter: "length (snd (drain_batch bs sourceID its b)) \<le> length its"
  by (induction bs sourceID its b rule: drain_batch.induct) auto

text \<open>One turn of the outer loop: a batch is collected and flushed. The documents left over come back.\<close>

definition stream_turn :: "'s ckpt_ops \<Rightarrow> bson_ops \<Rightarrow> batch_env \<Rightarrow> string \<Rightarrow> stream_item \<Rightarrow> stream_item list \<Rightarrow> 's mongo_conn
    \<Rightarrow> mongo_error option \<times> stream_item list \<times> 's mongo_conn" where
  "stream_turn ck bs env collName it its c =
     (let sourceID = mg_SourceID (mc_cfg c); (b, rest) = drain_batch bs sourceID its (take_item bs sourceID it ([], []));
          (r, c') = flush_batch ck bs env collName b c
      in (r, rest, c'))"

lemma stream_turn_shorter: "stream_turn ck bs env collName it its c = (r, rest, c') \<Longrightarrow> length rest \<le> length its"
  using drain_batch_shorter [of bs "mg_SourceID (mc_cfg c)" its "take_item bs (mg_SourceID (mc_cfg c)) it ([], [])"]
  by (auto simp: stream_turn_def Let_def split: prod.splits)

text \<open>
  \<open>consumeStream\<close> on the documents that come, in the \<open>i\<close>th batch with the outcomes \<open>env i\<close>, and the error
  of the iterator at the end. The result is an error, or whether a snapshot is needed.
\<close>

function consumeStream :: "'s ckpt_ops \<Rightarrow> bson_ops \<Rightarrow> (nat \<Rightarrow> batch_env) \<Rightarrow> nat \<Rightarrow> string \<Rightarrow> stream_item list \<Rightarrow> mongo_err option \<Rightarrow> 's mongo_conn
    \<Rightarrow> ((mongo_error + mongo_err) + bool) \<times> 's mongo_conn" where
  "consumeStream ck bs env i collName [] err c =
     (case err of
        None \<Rightarrow> (Inr False, c)
      | Some e \<Rightarrow> if isInvalidResumeToken e then (Inr True, c) else (Inl (Inr e), c))"
| "consumeStream ck bs env i collName (it # its) err c =
     (case stream_turn ck bs (env i) collName it its c of
        (Some e, rest, c') \<Rightarrow> (Inl (Inl e), c')
      | (None, rest, c') \<Rightarrow> consumeStream ck bs env (Suc i) collName rest err c')"
  by pat_completeness auto
termination
  by (relation "measure (\<lambda>(ck, bs, env, i, collName, its, err, c). length its)")
    (auto dest!: stream_turn_shorter [OF sym])

section \<open>Reconnecting\<close>

definition defaultInitialBackoff :: int where
  "defaultInitialBackoff = 2"

definition defaultMaxBackoff :: int where
  "defaultMaxBackoff = 60"

definition mongo_nextBackoff :: "int \<Rightarrow> int" where
  "mongo_nextBackoff b = (if 2 * b > defaultMaxBackoff then defaultMaxBackoff else 2 * b)"

text \<open>
  One turn of the loop in \<open>runCollection\<close>: whether the context is done at each point where it is looked at, and what
  the stream does. \<open>at_items\<close> sees the token with which it was opened.
\<close>

record attempt =
  at_ctx0 :: bool
  at_ctx1 :: bool
  at_open_err :: "mongo_err option"
  at_items :: "bson \<Rightarrow> stream_item list"
  at_env :: "nat \<Rightarrow> batch_env"
  at_iter_err :: "mongo_err option"

text \<open>The result: a snapshot is needed, cancelled, or (\<open>None\<close>) still running. The waits are collected.\<close>

datatype coll_result = CollNeedsSnapshot | CollCancelled

fun runCollection :: "'s ckpt_ops \<Rightarrow> bson_ops \<Rightarrow> string \<Rightarrow> attempt list \<Rightarrow> int \<Rightarrow> 's mongo_conn \<Rightarrow> coll_result option \<times> int list \<times> 's mongo_conn" where
  "runCollection ck bs collName [] backoff c = (None, [], c)"
| "runCollection ck bs collName (a # rest) backoff c =
     (if at_ctx0 a then (Some CollCancelled, [], c)
      else case at_open_err a of
        Some e \<Rightarrow>
          if isInvalidResumeToken e then (Some CollNeedsSnapshot, [], c)
          else if at_ctx1 a then (Some CollCancelled, [], c)
          else (case runCollection ck bs collName rest (mongo_nextBackoff backoff) c of (r, ws, c') \<Rightarrow> (r, backoff # ws, c'))
      | None \<Rightarrow>
          (case consumeStream ck bs (at_env a) 0 collName (at_items a (resumeTokenForCollection c collName)) (at_iter_err a) c of
             (r, c1) \<Rightarrow>
               if r = Inr True then (Some CollNeedsSnapshot, [], c1)
               else if at_ctx1 a then (Some CollCancelled, [], c1)
               else if isl r
               then (case runCollection ck bs collName rest (mongo_nextBackoff defaultInitialBackoff) c1 of
                       (r', ws, c') \<Rightarrow> (r', defaultInitialBackoff # ws, c'))
               else runCollection ck bs collName rest defaultInitialBackoff c1))"

text \<open>
  \<open>Run\<close> waits for the goroutines of all collections and only then looks at what they returned; it returns when
  each of them has a result.
\<close>

definition mongo_Run :: "bool \<Rightarrow> (string \<Rightarrow> coll_result option) \<Rightarrow> 's mongo_conn \<Rightarrow> (mongo_error option \<times> 's mongo_conn) option" where
  "mongo_Run ctx results c =
     (if \<exists>coll \<in> set (mg_Collections (mc_cfg c)). results coll = None then None
      else if \<exists>coll \<in> set (mg_Collections (mc_cfg c)). results coll = Some CollNeedsSnapshot
      then Some (None, c\<lparr>mc_needsSnapshot := True\<rparr>)
      else Some (if ctx then Some (MongoStream ''context canceled'') else None, c))"

end
