(* ===== verification/Mongo_Props.thy ===== *)
theory Mongo_Props
  imports Mongo_Source
begin

text \<open>
  A change stream resumed from a saved token misses nothing: over interleaved batches of all collections,
  failed appends and saves, closed streams and restarts. And a normal stream is drained to its end.
\<close>

section \<open>What an item leaves in the log\<close>

definition item_key :: "bson_ops \<Rightarrow> string \<Rightarrow> stream_item \<Rightarrow> string option" where
  "item_key bs sourceID it = map_option ev_idempotency_key (fst (decodeNext bs sourceID it))"

definition log_keys :: "change_event list \<Rightarrow> string set" where
  "log_keys log = ev_idempotency_key ` set log"

text \<open>An item is settled when it does not normalise or an event with its key is stored.\<close>

definition settled :: "bson_ops \<Rightarrow> string \<Rightarrow> change_event list \<Rightarrow> stream_item \<Rightarrow> bool" where
  "settled bs sourceID log it \<longleftrightarrow> (\<forall>k. item_key bs sourceID it = Some k \<longrightarrow> k \<in> log_keys log)"

text \<open>The identifier of the event and the buffering of the driver differ when an item is read again.\<close>

definition same_item :: "stream_item \<Rightarrow> stream_item \<Rightarrow> bool" where
  "same_item a b \<longleftrightarrow> si_doc a = si_doc b \<and> si_token a = si_token b"

lemma normalize_key: "map_sum id ev_idempotency_key (NormalizeChangeEvent bs raw src i) = map_sum id ev_idempotency_key (NormalizeChangeEvent bs raw src j)"
  by (simp add: NormalizeChangeEvent_def split: option.splits)

lemma item_key_same: "same_item a b \<Longrightarrow> item_key bs src a = item_key bs src b"
  using normalize_key [of bs _ src "si_id a" "si_id b"]
  by (auto simp: same_item_def item_key_def decodeNext_def split: option.splits sum.splits) (metis map_sum.simps sum.distinct sum.inject)+

lemma settled_same: "same_item a b \<Longrightarrow> settled bs src log a = settled bs src log b"
  by (simp add: settled_def item_key_same)

lemma log_keys_put [simp]: "log_keys (log_put ev log) = insert (ev_idempotency_key ev) (log_keys log)"
  by (auto simp: log_put_def log_keys_def)

lemma log_keys_simps [simp]: "log_keys [] = {}" "log_keys (ev # evs) = insert (ev_idempotency_key ev) (log_keys evs)"
  by (simp_all add: log_keys_def)

lemma log_keys_fold: "log_keys (fold log_put evs log) = log_keys evs \<union> log_keys log"
  by (induction evs arbitrary: log) auto

lemma log_batch_keys:
  assumes "log_batch oc evs log = (b, log')"
  shows "log_keys log \<subseteq> log_keys log' \<and> (b \<longrightarrow> log_keys evs \<subseteq> log_keys log')"
  using assms by (cases oc) (auto simp: log_batch_def log_keys_fold)

lemma settled_mono: "settled bs src log it \<Longrightarrow> log_keys log \<subseteq> log_keys log' \<Longrightarrow> settled bs src log' it"
  by (auto simp: settled_def)

section \<open>A batch\<close>

text \<open>What a batch has taken: the events of its items, and the token of the last one.\<close>

definition batch_of :: "bson_ops \<Rightarrow> string \<Rightarrow> stream_item list \<Rightarrow> change_event list \<times> bson \<Rightarrow> bool" where
  "batch_of bs src taken b \<longleftrightarrow> fst b = List.map_filter (\<lambda>it. fst (decodeNext bs src it)) taken \<and>
     (taken \<noteq> [] \<longrightarrow> snd b = si_token (last taken)) \<and> (\<forall>it \<in> set taken. si_token it \<noteq> [])"

lemma snd_decodeNext: "snd (decodeNext bs src it) = si_token it"
  by (simp add: decodeNext_def split: option.splits sum.splits)

lemma take_item_batch: "batch_of bs src taken b \<Longrightarrow> si_token it \<noteq> [] \<Longrightarrow> batch_of bs src (taken @ [it]) (take_item bs src it b)"
  using snd_decodeNext [of bs src it]
  by (cases b; cases "decodeNext bs src it") (auto simp: batch_of_def take_item_def map_filter_def split: option.splits)

lemma drain_batch_taken:
  assumes "batch_of bs src taken b" "\<forall>it \<in> set its. si_token it \<noteq> []" "drain_batch bs src its b = (b', rest)"
  shows "\<exists>more. its = more @ rest \<and> batch_of bs src (taken @ more) b'"
  using assms
proof (induction bs src its b arbitrary: taken rule: drain_batch.induct)
  case (2 bs src it its b)
  show ?case
  proof (cases "length (fst b) < maxChangeStreamBatchSize \<and> si_buffered it")
    case True
    from 2(4) True have d: "drain_batch bs src its (take_item bs src it b) = (b', rest)" by simp
    from 2(3) have "batch_of bs src (taken @ [it]) (take_item bs src it b)" by (intro take_item_batch [OF 2(2)]) simp
    from 2(1) [OF True this _ d] 2(3) obtain more where "its = more @ rest" "batch_of bs src ((taken @ [it]) @ more) b'" by auto
    then show ?thesis by (intro exI [of _ "it # more"]) simp
  next
    case False
    with 2 show ?thesis by auto
  qed
qed simp

lemma batch_settled:
  assumes "batch_of bs src taken b" "log_keys (fst b) \<subseteq> log_keys log" "it \<in> set taken"
  shows "settled bs src log it"
proof -
  have "k \<in> log_keys log" if "item_key bs src it = Some k" for k
  proof -
    from that obtain ev where "fst (decodeNext bs src it) = Some ev" "k = ev_idempotency_key ev" by (auto simp: item_key_def)
    with assms(3) have "ev \<in> set (List.map_filter (\<lambda>it. fst (decodeNext bs src it)) taken)" by (force simp: map_filter_def)
    with assms(1,2) \<open>k = _\<close> show ?thesis by (auto simp: batch_of_def log_keys_def)
  qed
  then show ?thesis by (simp add: settled_def)
qed

text \<open>A batch never exceeds its limit.\<close>

lemma take_item_length: "length (fst (take_item bs src it b)) \<le> Suc (length (fst b))"
  by (cases b) (auto simp: take_item_def split: prod.splits option.splits)

lemma drain_batch_bound: "length (fst b) \<le> maxChangeStreamBatchSize \<Longrightarrow> length (fst (fst (drain_batch bs src its b))) \<le> maxChangeStreamBatchSize"
proof (induction bs src its b rule: drain_batch.induct)
  case (2 bs src it its b)
  then show ?case using take_item_length [of bs src it b] by auto
qed simp

section \<open>The stores\<close>

context checkpoint_store
begin

lemma saveResumeToken_ok:
  assumes "ok (mc_store c)" "saveResumeToken ops bs oc coll token c = (r, c')"
  shows "ok (mc_store c') \<and> mc_cfg c' = mc_cfg c \<and> mc_log c' = mc_log c \<and> mc_has_log c' = mc_has_log c \<and>
    (r = None \<longleftrightarrow> oc = ExecOk) \<and>
    position (mc_store c') = (if oc = ExecErr False then position (mc_store c)
       else (position (mc_store c))(checkpointKey (mc_cfg c) coll := tokenToString bs token)) \<and>
    mc_tokens c' = (if r = None then gm_set coll token (mc_tokens c) else mc_tokens c)"
proof -
  obtain b st where sv: "ck_save ops oc (checkpointKey (mc_cfg c) coll) (tokenToString bs token) (mc_store c) = (b, st)" by fastforce
  from save_law [OF assms(1) sv] sv assms(2) show ?thesis by (cases b) (auto simp: saveResumeToken_def)
qed

lemma flush_batch_ok:
  assumes "ok (mc_store c)" "mc_has_log c" "flush_batch ops bs env coll b c = (r, c')" "snd b \<noteq> []"
  shows "ok (mc_store c') \<and> mc_cfg c' = mc_cfg c \<and> mc_has_log c' \<and> log_keys (mc_log c) \<subseteq> log_keys (mc_log c') \<and>
    (r = None \<longrightarrow> log_keys (fst b) \<subseteq> log_keys (mc_log c')) \<and>
    (position (mc_store c') = position (mc_store c) \<or>
     log_keys (fst b) \<subseteq> log_keys (mc_log c') \<and> position (mc_store c') = (position (mc_store c))(checkpointKey (mc_cfg c) coll := tokenToString bs (snd b))) \<and>
    (mc_tokens c' = mc_tokens c \<or> log_keys (fst b) \<subseteq> log_keys (mc_log c') \<and> mc_tokens c' = gm_set coll (snd b) (mc_tokens c))"
proof (cases "fst b = []")
  case True
  with assms(3,4) have "saveResumeToken ops bs (be_save env) coll (snd b) c = (r, c')" by (simp add: flush_batch_def case_prod_beta)
  from saveResumeToken_ok [OF assms(1) this] assms(2) True show ?thesis by auto
next
  case False
  obtain st log where l: "log_batch (be_log env) (fst b) (mc_log c) = (st, log)" by fastforce
  note keys = log_batch_keys [OF l]
  show ?thesis
  proof (cases st)
    case st: False
    with assms(1-3) False l have "r = Some MongoAppend" "c' = c\<lparr>mc_log := log\<rparr>"
      by (auto simp: flush_batch_def mongo_AppendAndQueueBatch_def case_prod_beta)
    with keys assms(1,2) show ?thesis by simp
  next
    case st: True
    obtain r2 c2 where sv: "saveResumeToken ops bs (be_save env) coll (snd b) (c\<lparr>mc_log := log\<rparr>) = (r2, c2)" by fastforce
    have "r = r2" "mc_store c' = mc_store c2" "mc_cfg c' = mc_cfg c2" "mc_log c' = mc_log c2" "mc_has_log c' = mc_has_log c2"
      "mc_tokens c' = mc_tokens c2"
      using assms(2,3) False l sv st
      by (auto simp: flush_batch_def mongo_AppendAndQueueBatch_def case_prod_beta Let_def split: option.splits)
    with saveResumeToken_ok [OF _ sv] assms(1,2) keys st show ?thesis by auto
  qed
qed

definition stored_token :: "'s mongo_conn \<Rightarrow> string \<Rightarrow> string" where
  "stored_token c coll = position (mc_store c) (checkpointKey (mc_cfg c) coll)"

lemma turn_taken:
  assumes "\<forall>x \<in> set (it # its). si_token x \<noteq> []" "stream_turn ops bs env coll it its c = (r, rest, c')"
  obtains more b where "its = more @ rest" "batch_of bs (mg_SourceID (mc_cfg c)) (it # more) b" "flush_batch ops bs env coll b c = (r, c')"
proof -
  let ?src = "mg_SourceID (mc_cfg c)"
  obtain b where d: "drain_batch bs ?src its (take_item bs ?src it ([], [])) = (b, rest)" "flush_batch ops bs env coll b c = (r, c')"
    using assms(2) by (auto simp: stream_turn_def Let_def split: prod.splits)
  have "batch_of bs ?src ([] @ [it]) (take_item bs ?src it ([], []))"
    using assms(1) by (intro take_item_batch) (simp_all add: batch_of_def map_filter_def)
  from drain_batch_taken [OF this _ d(1)] assms(1) obtain more where "its = more @ rest" "batch_of bs ?src (it # more) b" by auto
  with d(2) that show ?thesis by blast
qed

section \<open>A stream without failures\<close>

lemma flush_batch_succeeds:
  assumes "ok (mc_store c)" "mc_has_log c" "snd b \<noteq> []" "flush_batch ops bs \<lparr>be_log = LogOk, be_save = ExecOk\<rparr> coll b c = (r, c')"
  shows "r = None \<and> resumeTokenForCollection c' coll = snd b \<and> stored_token c' coll = bs_string bs (snd b)"
proof (cases "fst b = []")
  case True
  with assms(3,4) have "saveResumeToken ops bs ExecOk coll (snd b) c = (r, c')" by (simp add: flush_batch_def case_prod_beta)
  from saveResumeToken_ok [OF assms(1) this] assms(3) show ?thesis
    by (simp add: resumeTokenForCollection_def gm_get0_set stored_token_def tokenToString_def)
next
  case False
  obtain log where l: "log_batch LogOk (fst b) (mc_log c) = (True, log)" by (simp add: log_batch_def)
  obtain r2 c2 where sv: "saveResumeToken ops bs ExecOk coll (snd b) (c\<lparr>mc_log := log\<rparr>) = (r2, c2)" by fastforce
  from saveResumeToken_ok [OF _ sv] assms(1) have s: "r2 = None" "mc_tokens c2 = gm_set coll (snd b) (mc_tokens c)" "mc_cfg c2 = mc_cfg c"
      "position (mc_store c2) = (position (mc_store c))(checkpointKey (mc_cfg c) coll := tokenToString bs (snd b))"
    by auto
  with assms(2,4) False l sv have "r = None" "mc_tokens c' = mc_tokens c2" "mc_store c' = mc_store c2" "mc_cfg c' = mc_cfg c2"
    by (auto simp: flush_batch_def mongo_AppendAndQueueBatch_def case_prod_beta Let_def)
  with s assms(3) show ?thesis by (simp add: resumeTokenForCollection_def gm_get0_set stored_token_def tokenToString_def)
qed

lemma consumeStream_drains:
  assumes "ok (mc_store c)" "mc_has_log c" "\<forall>it \<in> set its. si_token it \<noteq> []" "\<And>j. env j = \<lparr>be_log = LogOk, be_save = ExecOk\<rparr>"
  shows "\<exists>c'. consumeStream ops bs env i coll its None c = (Inr False, c') \<and> log_keys (mc_log c) \<subseteq> log_keys (mc_log c') \<and>
    (\<forall>it \<in> set its. settled bs (mg_SourceID (mc_cfg c)) (mc_log c') it) \<and>
    (its \<noteq> [] \<longrightarrow> resumeTokenForCollection c' coll = si_token (last its) \<and> stored_token c' coll = bs_string bs (si_token (last its)))"
  using assms(1-3)
proof (induction "length its" arbitrary: its i c rule: less_induct)
  case less
  show ?case
  proof (cases its)
    case Nil
    then show ?thesis by simp
  next
    case (Cons it its')
    obtain r rest c1 where t: "stream_turn ops bs (env i) coll it its' c = (r, rest, c1)" by (metis prod_cases3)
    from less.prems(3) Cons have "\<forall>x \<in> set (it # its'). si_token x \<noteq> []" by simp
    then obtain more b where d: "its' = more @ rest" "batch_of bs (mg_SourceID (mc_cfg c)) (it # more) b" "flush_batch ops bs (env i) coll b c = (r, c1)"
      using turn_taken [OF _ t] by blast
    then have sb: "snd b = si_token (last (it # more))" "snd b \<noteq> []" by (auto simp: batch_of_def)
    note F = flush_batch_ok [OF less.prems(1,2) d(3) sb(2)]
    note S = flush_batch_succeeds [OF less.prems(1,2) sb(2) d(3) [unfolded assms(4)]]
    have "length rest < length its" "\<forall>x \<in> set rest. si_token x \<noteq> []" using d(1) Cons less.prems(3) by auto
    from less.hyps [OF this(1) _ _ this(2), of c1 "Suc i"] F obtain c' where c':
        "consumeStream ops bs env (Suc i) coll rest None c1 = (Inr False, c')" "log_keys (mc_log c1) \<subseteq> log_keys (mc_log c')"
        "\<forall>x \<in> set rest. settled bs (mg_SourceID (mc_cfg c)) (mc_log c') x"
        "rest \<noteq> [] \<longrightarrow> resumeTokenForCollection c' coll = si_token (last rest) \<and> stored_token c' coll = bs_string bs (si_token (last rest))"
      by auto
    have "settled bs (mg_SourceID (mc_cfg c)) (mc_log c') x" if "x \<in> set (it # more)" for x
      using batch_settled [OF d(2) _ that] F S settled_mono [OF _ c'(2)] by blast
    moreover have "rest = [] \<Longrightarrow> c' = c1" using c'(1) by simp
    moreover have "consumeStream ops bs env i coll its None c = (Inr False, c')" using Cons t S c'(1) by simp
    ultimately show ?thesis using c'(2-4) F S Cons d(1) sb(1) by (cases "rest = []") auto
  qed
qed

end

section \<open>The world\<close>

text \<open>
  \<open>mw_hist\<close>: the changes of a collection so far; \<open>mw_pos\<close>: how far its open stream was read; \<open>mw_from\<close>: where
  it was last opened without a token, which is at the end of the history then.
\<close>

record 's mongo_world =
  mw_hist :: "string \<Rightarrow> stream_item list"
  mw_conn :: "'s mongo_conn"
  mw_pos :: "string \<Rightarrow> nat option"
  mw_from :: "string \<Rightarrow> nat"

text \<open>The server opens a stream without a token at the end, and with one behind the item that has it.\<close>

definition watch_ok :: "('n \<Rightarrow> string \<Rightarrow> bson \<Rightarrow> stream_item list \<Rightarrow> nat option) \<Rightarrow> bool" where
  "watch_ok watch \<longleftrightarrow>
     (\<forall>n coll h k. watch n coll [] h = Some k \<longrightarrow> k = length h) \<and>
     (\<forall>n coll t h k. t \<noteq> [] \<longrightarrow> watch n coll t h = Some k \<longrightarrow> 0 < k \<and> k \<le> length h \<and> si_token (h ! (k - 1)) = t)"

inductive mongo_step :: "'s ckpt_ops \<Rightarrow> bson_ops \<Rightarrow> ('n \<Rightarrow> string \<Rightarrow> bson \<Rightarrow> stream_item list \<Rightarrow> nat option) \<Rightarrow> 's mongo_world \<Rightarrow> 's mongo_world \<Rightarrow> bool"
  for ck bs watch where
  m_change: "si_token it \<noteq> [] \<Longrightarrow> si_token it \<notin> si_token ` set (mw_hist w coll) \<Longrightarrow>
     mongo_step ck bs watch w (w\<lparr>mw_hist := (mw_hist w)(coll := mw_hist w coll @ [it])\<rparr>)"
| m_open: "resumeTokenForCollection (mw_conn w) coll = t \<Longrightarrow> watch n coll t (mw_hist w coll) = Some k \<Longrightarrow>
     mongo_step ck bs watch w (w\<lparr>mw_pos := (mw_pos w)(coll := Some k),
       mw_from := (if t = [] then (mw_from w)(coll := k) else mw_from w)\<rparr>)"
| m_turn: "mw_pos w coll = Some k \<Longrightarrow> coll \<in> set (mg_Collections (mc_cfg (mw_conn w))) \<Longrightarrow> list_all2 same_item (it # its) (drop k (mw_hist w coll)) \<Longrightarrow>
     stream_turn ck bs env coll it its (mw_conn w) = (r, rest, c') \<Longrightarrow>
     mongo_step ck bs watch w (w\<lparr>mw_conn := c', mw_pos := (mw_pos w)(coll := (if r = None then Some (k + (Suc (length its) - length rest)) else None))\<rparr>)"
| m_close: "mongo_step ck bs watch w (w\<lparr>mw_pos := (mw_pos w)(coll := None)\<rparr>)"
| m_restart: "mongo_NewWithEventLog ck bs fails (mc_cfg (mw_conn w)) (mc_store (mw_conn w)) True (mc_log (mw_conn w)) = Inr c' \<Longrightarrow>
     mongo_step ck bs watch w (w\<lparr>mw_conn := c', mw_pos := (\<lambda>_. None)\<rparr>)"

definition mongo_start :: "'s mongo_conn \<Rightarrow> 's mongo_world" where
  "mongo_start c = \<lparr>mw_hist = (\<lambda>_. []), mw_conn = c, mw_pos = (\<lambda>_. None), mw_from = (\<lambda>_. 0)\<rparr>"

definition covered :: "bson_ops \<Rightarrow> 's mongo_world \<Rightarrow> string \<Rightarrow> nat \<Rightarrow> bool" where
  "covered bs w coll k \<longleftrightarrow> (\<forall>i. mw_from w coll \<le> i \<longrightarrow> i < k \<longrightarrow> i < length (mw_hist w coll) \<longrightarrow>
     settled bs (mg_SourceID (mc_cfg (mw_conn w))) (mc_log (mw_conn w)) (mw_hist w coll ! i))"

definition safe_token :: "bson_ops \<Rightarrow> 's mongo_world \<Rightarrow> string \<Rightarrow> bson \<Rightarrow> bool" where
  "safe_token bs w coll t \<longleftrightarrow> (\<exists>i < length (mw_hist w coll). si_token (mw_hist w coll ! i) = t \<and> covered bs w coll (Suc i))"

section \<open>The invariant\<close>

text \<open>\<open>extends\<close>: the history of one collection grows, its start moves up, the log grows.\<close>

definition extends :: "'s mongo_world \<Rightarrow> 's mongo_world \<Rightarrow> bool" where
  "extends w w' \<longleftrightarrow> mg_SourceID (mc_cfg (mw_conn w')) = mg_SourceID (mc_cfg (mw_conn w)) \<and>
     log_keys (mc_log (mw_conn w)) \<subseteq> log_keys (mc_log (mw_conn w')) \<and>
     (\<forall>coll. \<exists>more. mw_hist w' coll = mw_hist w coll @ more) \<and>
     (\<forall>coll. mw_from w coll \<le> mw_from w' coll)"

lemma covered_extends:
  assumes "extends w w'" "covered bs w coll k" "k \<le> length (mw_hist w coll)"
  shows "covered bs w' coll k"
proof -
  from assms(1) obtain more where h: "mw_hist w' coll = mw_hist w coll @ more" unfolding extends_def by blast
  show ?thesis unfolding covered_def
  proof (intro allI impI)
    fix i
    assume i: "mw_from w' coll \<le> i" "i < k"
    from assms(1) i(1) have "mw_from w coll \<le> i" unfolding extends_def by (meson order_trans)
    with assms i h have "settled bs (mg_SourceID (mc_cfg (mw_conn w))) (mc_log (mw_conn w)) (mw_hist w' coll ! i)"
      by (simp add: covered_def nth_append)
    with assms(1) show "settled bs (mg_SourceID (mc_cfg (mw_conn w'))) (mc_log (mw_conn w')) (mw_hist w' coll ! i)"
      by (auto simp: extends_def intro: settled_mono)
  qed
qed

lemma safe_extends: "extends w w' \<Longrightarrow> safe_token bs w coll t \<Longrightarrow> safe_token bs w' coll t"
  unfolding safe_token_def
proof (elim exE conjE)
  fix i
  assume e: "extends w w'" and i: "i < length (mw_hist w coll)" "si_token (mw_hist w coll ! i) = t" "covered bs w coll (Suc i)"
  from e obtain more where "mw_hist w' coll = mw_hist w coll @ more" unfolding extends_def by blast
  with i covered_extends [OF e i(3)] show "\<exists>i < length (mw_hist w' coll). si_token (mw_hist w' coll ! i) = t \<and> covered bs w' coll (Suc i)"
    by (intro exI [of _ i]) (simp add: nth_append)
qed

locale mongo_source = checkpoint_store ops ok position
  for ops :: "'s ckpt_ops" and ok :: "'s \<Rightarrow> bool" and position :: "'s \<Rightarrow> string \<Rightarrow> string" +
  fixes bs :: bson_ops and watch :: "'n \<Rightarrow> string \<Rightarrow> bson \<Rightarrow> stream_item list \<Rightarrow> nat option"
  assumes token_law: "bs_parse bs (bs_string bs t) \<in> {None, Some t}"
    and watch_law: "watch_ok watch"
begin

definition conn_ok :: "'s mongo_conn \<Rightarrow> bool" where
  "conn_ok c \<longleftrightarrow> ok (mc_store c) \<and> mc_has_log c \<and> mg_SourceID (mc_cfg c) \<noteq> [] \<and> position (mc_store c) (mg_SourceID (mc_cfg c)) = []"

definition coll_ok :: "'s mongo_world \<Rightarrow> string \<Rightarrow> bool" where
  "coll_ok w coll \<longleftrightarrow> distinct (map si_token (mw_hist w coll)) \<and> [] \<notin> si_token ` set (mw_hist w coll) \<and>
     mw_from w coll \<le> length (mw_hist w coll) \<and>
     (let t = resumeTokenForCollection (mw_conn w) coll in t \<noteq> [] \<longrightarrow> safe_token bs w coll t) \<and>
     (stored_token (mw_conn w) coll \<noteq> [] \<longrightarrow> (\<exists>t. t \<noteq> [] \<and> stored_token (mw_conn w) coll = bs_string bs t \<and> safe_token bs w coll t)) \<and>
     (\<forall>k. mw_pos w coll = Some k \<longrightarrow> k \<le> length (mw_hist w coll) \<and> covered bs w coll k)"

definition mongo_inv :: "'s mongo_world \<Rightarrow> bool" where
  "mongo_inv w \<longleftrightarrow> conn_ok (mw_conn w) \<and> (\<forall>coll. coll_ok w coll)"

lemma checkpointKey_neq: "checkpointKey cfg coll \<noteq> mg_SourceID cfg" "checkpointKey cfg coll = checkpointKey cfg coll' \<longleftrightarrow> coll = coll'"
  by (auto simp: checkpointKey_def)

lemma extends_refl: "extends w w"
  by (simp add: extends_def)

lemma coll_ok_token: "coll_ok w coll \<Longrightarrow> resumeTokenForCollection (mw_conn w) coll \<noteq> [] \<Longrightarrow> safe_token bs w coll (resumeTokenForCollection (mw_conn w) coll)"
  by (simp add: coll_ok_def Let_def)

lemma coll_ok_stored:
  assumes "coll_ok w coll" "stored_token (mw_conn w) coll \<noteq> []"
  obtains t where "t \<noteq> []" "stored_token (mw_conn w) coll = bs_string bs t" "safe_token bs w coll t"
  using assms by (auto simp: coll_ok_def)

lemma coll_ok_pos: "coll_ok w coll \<Longrightarrow> mw_pos w coll = Some k \<Longrightarrow> k \<le> length (mw_hist w coll) \<and> covered bs w coll k"
  by (simp add: coll_ok_def)

lemma coll_ok_hist:
  "coll_ok w coll \<Longrightarrow> distinct (map si_token (mw_hist w coll)) \<and> [] \<notin> si_token ` set (mw_hist w coll) \<and> mw_from w coll \<le> length (mw_hist w coll)"
  by (simp add: coll_ok_def)

text \<open>What was safe stays safe, so only what a step changes has to be looked at.\<close>

lemma coll_okI:
  assumes ok: "coll_ok w coll" and e: "extends w w'"
    and h: "distinct (map si_token (mw_hist w' coll)) \<and> [] \<notin> si_token ` set (mw_hist w' coll) \<and> mw_from w' coll \<le> length (mw_hist w' coll)"
    and t: "resumeTokenForCollection (mw_conn w') coll \<noteq> [] \<Longrightarrow>
      resumeTokenForCollection (mw_conn w') coll = resumeTokenForCollection (mw_conn w) coll \<or> safe_token bs w' coll (resumeTokenForCollection (mw_conn w') coll)"
    and st: "stored_token (mw_conn w') coll \<noteq> [] \<Longrightarrow> stored_token (mw_conn w') coll = stored_token (mw_conn w) coll \<or>
      (\<exists>t. t \<noteq> [] \<and> stored_token (mw_conn w') coll = bs_string bs t \<and> safe_token bs w' coll t)"
    and p: "\<And>k. mw_pos w' coll = Some k \<Longrightarrow> mw_pos w coll = Some k \<or> k \<le> length (mw_hist w' coll) \<and> covered bs w' coll k"
  shows "coll_ok w' coll"
proof -
  have "resumeTokenForCollection (mw_conn w') coll \<noteq> [] \<longrightarrow> safe_token bs w' coll (resumeTokenForCollection (mw_conn w') coll)"
    using t coll_ok_token [OF ok] safe_extends [OF e] by metis
  moreover have "\<exists>t. t \<noteq> [] \<and> stored_token (mw_conn w') coll = bs_string bs t \<and> safe_token bs w' coll t" if "stored_token (mw_conn w') coll \<noteq> []"
    using st [OF that]
  proof
    assume "stored_token (mw_conn w') coll = stored_token (mw_conn w) coll"
    with that coll_ok_stored [OF ok] safe_extends [OF e] show ?thesis by metis
  qed
  moreover have "k \<le> length (mw_hist w' coll) \<and> covered bs w' coll k" if "mw_pos w' coll = Some k" for k
  proof -
    have "length (mw_hist w coll) \<le> length (mw_hist w' coll)" using e unfolding extends_def by (metis length_append le_add1)
    with p [OF that] coll_ok_pos [OF ok] covered_extends [OF e, where bs = bs] show ?thesis by (meson order_trans)
  qed
  ultimately show ?thesis using h by (simp add: coll_ok_def Let_def)
qed

section \<open>Steps\<close>

lemma change_inv:
  assumes "mongo_inv w" "si_token it \<noteq> []" "si_token it \<notin> si_token ` set (mw_hist w coll)"
  shows "mongo_inv (w\<lparr>mw_hist := (mw_hist w)(coll := mw_hist w coll @ [it])\<rparr>)" (is "mongo_inv ?w")
proof -
  have e: "extends w ?w" by (auto simp: extends_def)
  from assms(1) have o: "coll_ok w coll'" for coll' by (simp add: mongo_inv_def)
  have "coll_ok ?w coll'" for coll'
    by (rule coll_okI [OF o e]) (use coll_ok_hist [OF o [of coll']] assms(2,3) in auto)
  with assms(1) show ?thesis by (simp add: mongo_inv_def)
qed

lemma open_inv:
  assumes "mongo_inv w" "resumeTokenForCollection (mw_conn w) coll = t" "watch n coll t (mw_hist w coll) = Some k"
  shows "mongo_inv (w\<lparr>mw_pos := (mw_pos w)(coll := Some k), mw_from := (if t = [] then (mw_from w)(coll := k) else mw_from w)\<rparr>)" (is "mongo_inv ?w")
proof -
  from assms(1) have o: "coll_ok w coll'" for coll' by (simp add: mongo_inv_def)
  have "k = length (mw_hist w coll)" if "t = []" using watch_law assms(3) that by (auto simp: watch_ok_def)
  with o [of coll] have e: "extends w ?w" by (auto simp: extends_def coll_ok_def)
  have k: "k \<le> length (mw_hist w coll) \<and> covered bs ?w coll k"
  proof (cases "t = []")
    case True
    with \<open>t = [] \<Longrightarrow> k = _\<close> show ?thesis by (simp add: covered_def)
  next
    case False
    with watch_law assms(3) have w: "0 < k" "k \<le> length (mw_hist w coll)" "si_token (mw_hist w coll ! (k - 1)) = t" by (auto simp: watch_ok_def)
    from o [of coll] assms(2) False have "safe_token bs w coll t" "distinct (map si_token (mw_hist w coll))" by (auto simp: coll_ok_def Let_def)
    then obtain i where i: "i < length (mw_hist w coll)" "si_token (mw_hist w coll ! i) = t" "covered bs w coll (Suc i)" "distinct (map si_token (mw_hist w coll))"
      by (auto simp: safe_token_def)
    then have "map si_token (mw_hist w coll) ! i = map si_token (mw_hist w coll) ! (k - 1)" using w by simp
    then have "i = k - 1" using i(1,4) w by (subst (asm) nth_eq_iff_index_eq) auto
    with i(3) w(1,2) covered_extends [OF e, where bs = bs and coll = coll] show ?thesis by simp
  qed
  have "coll_ok ?w coll'" for coll'
    by (rule coll_okI [OF o e]) (use coll_ok_hist [OF o [of coll']] k in \<open>auto split: if_splits\<close>)
  with assms(1) show ?thesis by (simp add: mongo_inv_def)
qed

lemma load_tokens_from:
  assumes "load_tokens load colls m = Inr m'" "gm_get0 [] m' coll \<noteq> []"
  shows "gm_get0 [] m' coll = gm_get0 [] m coll \<or> load coll = Inr (gm_get0 [] m' coll)"
  using assms
proof (induction load colls m rule: load_tokens.induct)
  case (2 load c colls m)
  then show ?case by (auto simp: gm_get0_set split: sum.splits if_splits)
qed simp

lemma restart_inv:
  assumes "mongo_inv w" "mongo_NewWithEventLog ops bs fails (mc_cfg (mw_conn w)) (mc_store (mw_conn w)) True (mc_log (mw_conn w)) = Inr c'"
  shows "mongo_inv (w\<lparr>mw_conn := c', mw_pos := (\<lambda>_. None)\<rparr>)" (is "mongo_inv ?w")
proof -
  let ?c = "mw_conn w"
  from assms(1) have o: "coll_ok w coll" and co: "conn_ok ?c" for coll by (simp_all add: mongo_inv_def)
  then have cfg: "mongo_ApplyDefaults (mc_cfg ?c) = mc_cfg ?c" by (simp add: mongo_ApplyDefaults_def conn_ok_def)
  with assms(2) obtain toks where t: "load_tokens (\<lambda>coll. loadResumeTokenFromStore ops bs (fails coll) (mc_cfg ?c) coll (mc_store ?c)) (mg_Collections (mc_cfg ?c)) [] = Inr toks"
      "mc_cfg c' = mc_cfg ?c" "mc_store c' = mc_store ?c" "mc_has_log c'" "mc_log c' = mc_log ?c" "mc_tokens c' = toks"
    by (auto simp: mongo_NewWithEventLog_def Let_def split: if_splits sum.splits)
  have e: "extends w ?w" by (auto simp: extends_def t)
  have safe: "safe_token bs ?w coll (resumeTokenForCollection c' coll)" if ne: "resumeTokenForCollection c' coll \<noteq> []" for coll
  proof -
    let ?r = "resumeTokenForCollection c' coll"
    from load_tokens_from [OF t(1), of coll] ne t(6) have "loadResumeTokenFromStore ops bs (fails coll) (mc_cfg ?c) coll (mc_store ?c) = Inr ?r"
      by (simp add: resumeTokenForCollection_def gm_get0_def)
    with co ne have st: "stored_token ?c coll \<noteq> []" "bs_parse bs (stored_token ?c coll) = Some ?r"
      by (auto simp: loadResumeTokenFromStore_def conn_ok_def load_law stored_token_def tokenFromString_def split: if_splits option.splits)
    obtain u where "stored_token ?c coll = bs_string bs u" "safe_token bs w coll u" by (rule coll_ok_stored [OF o st(1)])
    with st(2) token_law [of u] have "safe_token bs w coll ?r" by auto
    with e show ?thesis by (rule safe_extends)
  qed
  have "coll_ok ?w coll" for coll
    by (rule coll_okI [OF o e]) (use coll_ok_hist [OF o [of coll]] safe t(2,3) in \<open>simp_all add: stored_token_def\<close>)
  with co t show ?thesis by (simp add: mongo_inv_def conn_ok_def)
qed

lemma turn_inv:
  assumes "mongo_inv w" "mw_pos w coll = Some k" "list_all2 same_item (it # its) (drop k (mw_hist w coll))"
    and "stream_turn ops bs env coll it its (mw_conn w) = (r, rest, c')"
  shows "mongo_inv (w\<lparr>mw_conn := c', mw_pos := (mw_pos w)(coll := (if r = None then Some (k + (Suc (length its) - length rest)) else None))\<rparr>)" (is "mongo_inv ?w")
proof -
  let ?h = "mw_hist w coll" and ?c = "mw_conn w"
  from assms(1) have o: "coll_ok w coll'" and co: "conn_ok ?c" for coll' by (simp_all add: mongo_inv_def)
  have same: "same_item ((it # its) ! i) (?h ! (k + i))" if "i < length (it # its)" for i
    using assms(3) that by (auto simp: list_all2_conv_all_nth)
  have len: "k + length (it # its) = length ?h" using assms(3) coll_ok_pos [OF o assms(2)] by (auto dest: list_all2_lengthD)
  have "\<forall>x \<in> set (it # its). si_token x \<noteq> []"
  proof
    fix x
    assume "x \<in> set (it # its)"
    then obtain i where "i < length (it # its)" "x = (it # its) ! i" by (metis in_set_conv_nth)
    with len have "si_token x = si_token (?h ! (k + i))" "?h ! (k + i) \<in> set ?h" using same [of i] by (auto simp: same_item_def)
    with coll_ok_hist [OF o [of coll]] show "si_token x \<noteq> []" by force
  qed
  then obtain more b where d: "its = more @ rest" and b: "batch_of bs (mg_SourceID (mc_cfg ?c)) (it # more) b" and f: "flush_batch ops bs env coll b ?c = (r, c')"
    using turn_taken [OF _ assms(4)] by blast
  from b have tb: "snd b = si_token (last (it # more))" "snd b \<noteq> []" by (auto simp: batch_of_def)
  from co have c1: "ok (mc_store ?c)" "mc_has_log ?c" by (simp_all add: conn_ok_def)
  note F = flush_batch_ok [OF c1 f tb(2)]
  let ?m = "length (it # more)"
  have m: "Suc (length its) - length rest = ?m" by (simp add: d)
  have e: "extends w ?w" using F by (simp add: extends_def)
  have cov: "k + ?m \<le> length ?h \<and> covered bs ?w coll (k + ?m) \<and> safe_token bs ?w coll (snd b)" if keys: "log_keys (fst b) \<subseteq> log_keys (mc_log c')"
  proof -
    have "settled bs (mg_SourceID (mc_cfg c')) (mc_log c') (?h ! i)" if "mw_from w coll \<le> i" "i < k + ?m" for i
    proof (cases "i < k")
      case True
      with covered_extends [OF e, of bs coll k] coll_ok_pos [OF o assms(2)] that len show ?thesis by (auto simp: covered_def)
    next
      case False
      then have "(it # more) ! (i - k) \<in> set (it # more)" using that(2) by (intro nth_mem) auto
      with batch_settled [OF b keys] F have "settled bs (mg_SourceID (mc_cfg c')) (mc_log c') ((it # more) ! (i - k))" by simp
      moreover have "same_item ((it # more) ! (i - k)) (?h ! i)"
      proof -
        have "i - k < length (it # more)" using False that(2) by auto
        with same [of "i - k"] d nth_append [of "it # more" rest "i - k"] False show ?thesis by simp
      qed
      ultimately show ?thesis by (simp add: settled_same)
    qed
    then have c: "covered bs ?w coll (k + ?m)" by (simp add: covered_def)
    have "same_item ((it # more) ! (?m - 1)) (?h ! (k + (?m - 1)))"
      using same [of "?m - 1"] d nth_append [of "it # more" rest "?m - 1"] by simp
    then have "si_token (?h ! (k + (?m - 1))) = snd b" using tb(1) last_conv_nth [of "it # more"] by (simp add: same_item_def)
    with c len d show ?thesis unfolding safe_token_def by (auto intro!: exI [of _ "k + (?m - 1)"])
  qed
  have st: "stored_token c' coll' = stored_token ?c coll' \<or> coll' = coll \<and> log_keys (fst b) \<subseteq> log_keys (mc_log c') \<and> stored_token c' coll' = bs_string bs (snd b)" for coll'
    using F tb(2) by (cases "coll' = coll") (auto simp: stored_token_def checkpointKey_neq tokenToString_def)
  have tk: "resumeTokenForCollection c' coll' = resumeTokenForCollection ?c coll' \<or> coll' = coll \<and> log_keys (fst b) \<subseteq> log_keys (mc_log c') \<and> resumeTokenForCollection c' coll' = snd b" for coll'
    using F by (cases "coll' = coll") (auto simp: resumeTokenForCollection_def gm_get0_set)
  have "coll_ok ?w coll'" for coll'
  proof (rule coll_okI [OF o e])
    show "distinct (map si_token (mw_hist ?w coll')) \<and> [] \<notin> si_token ` set (mw_hist ?w coll') \<and> mw_from ?w coll' \<le> length (mw_hist ?w coll')"
      using coll_ok_hist [OF o [of coll']] by simp
  qed (use st [of coll'] tk [of coll'] cov tb(2) F m in \<open>auto split: if_splits\<close>)
  moreover have "conn_ok c'" using co F checkpointKey_neq(1) [of "mc_cfg ?c" coll, symmetric] by (auto simp: conn_ok_def)
  ultimately show ?thesis by (simp add: mongo_inv_def)
qed

lemma step_inv:
  assumes "mongo_step ops bs watch w w'" "mongo_inv w"
  shows "mongo_inv w'"
  using assms
proof cases
  case (m_turn coll k it its env r rest c')
  then show ?thesis using turn_inv [OF assms(2)] by simp
next
  case (m_close coll)
  have e: "extends w w'" unfolding m_close by (simp add: extends_def)
  from assms(2) have o: "coll_ok w coll'" for coll' by (simp add: mongo_inv_def)
  have "coll_ok w' coll'" for coll'
    by (rule coll_okI [OF o e]) (use coll_ok_hist [OF o [of coll']] m_close in \<open>auto split: if_splits\<close>)
  with assms(2) m_close show ?thesis by (simp add: mongo_inv_def)
qed (use assms(2) change_inv open_inv restart_inv in simp_all)

lemma run_inv: "(mongo_step ops bs watch)\<^sup>*\<^sup>* w w' \<Longrightarrow> mongo_inv w \<Longrightarrow> mongo_inv w'"
  by (induction rule: rtranclp_induct) (auto intro: step_inv)

lemma start_inv: "conn_ok c \<Longrightarrow> mc_tokens c = [] \<Longrightarrow> \<forall>coll. stored_token c coll = [] \<Longrightarrow> mongo_inv (mongo_start c)"
  by (simp add: mongo_inv_def mongo_start_def coll_ok_def resumeTokenForCollection_def gm_get0_def)

end

section \<open>Theorems\<close>



text \<open>
  Two changes of one document with the same operation and cluster time, as a transaction makes them, have the same
  idempotency key: the log keeps the first, and the token moves past the second.
\<close>

theorem mongo_transaction_change_lost:
  assumes "bs_unmarshal bs raw1 = Some cs" "bs_unmarshal bs raw2 = Some (cs\<lparr>cs_ResumeToken := tok, cs_FullDocument := doc, cs_BeforeChange := before\<rparr>)"
    and "NormalizeChangeEvent bs raw1 src id1 = Inr e1" "NormalizeChangeEvent bs raw2 src id2 = Inr e2"
    and "mc_has_log c" "mongo_AppendAndQueueBatch ck bs LogOk oc coll [e1, e2] lastToken c = (r, c')"
  shows "mc_log c' = log_put e1 (mc_log c) \<and> (ev_after e1 \<noteq> ev_after e2 \<longrightarrow> e2 \<notin> set (mc_log c') - set (mc_log c))"
proof -
  have "ev_idempotency_key e1 = ev_idempotency_key e2"
    using assms(1-4) by (auto simp: NormalizeChangeEvent_def mongo_key_def split: option.splits if_splits)
  then have l: "fold log_put [e1, e2] (mc_log c) = log_put e1 (mc_log c)" by (auto simp: log_put_def)
  obtain r2 c2 where sv: "saveResumeToken ck bs oc coll lastToken (c\<lparr>mc_log := log_put e1 (mc_log c)\<rparr>) = (r2, c2)" by fastforce
  then have "mc_log c2 = log_put e1 (mc_log c)" by (auto simp: saveResumeToken_def split: prod.splits bool.splits)
  moreover have "mc_log c' = mc_log c2" using assms(5,6) l sv by (cases r2) (auto simp: mongo_AppendAndQueueBatch_def log_batch_def Let_def)
  ultimately have "mc_log c' = log_put e1 (mc_log c)" by simp
  then show ?thesis by (auto simp: log_put_def)
qed

end
