(* ===== verification/Mongo_Snapshot.thy ===== *)
theory Mongo_Snapshot
  imports Mongo_Props
begin

text \<open>
  The MongoDB snapshot (\<open>internal/source/mongodb/snapshot.go\<close>) and how the pipeline starts it after an invalid
  resume token (\<open>internal/cmd/mongo.go\<close>). The append function, the watermark check and the queries are arguments.
\<close>

section \<open>Documents\<close>

text \<open>\<open>Raw.LookupErr(_id)\<close>, and the driver's encoding of the synthetic change stream document.\<close>

record wrap_ops =
  wo_id :: "bson \<Rightarrow> bson option"
  wo_wrap :: "string \<Rightarrow> string \<Rightarrow> bson \<Rightarrow> bson \<Rightarrow> u32 \<Rightarrow> u32 \<Rightarrow> bson"

record snapshot_cfg =
  sg_Database :: string
  sg_Collections :: "string list"
  sg_SourceID :: string

definition normalizeSnapshotDoc :: "bson_ops \<Rightarrow> wrap_ops \<Rightarrow> snapshot_cfg \<Rightarrow> u64 \<Rightarrow> string \<Rightarrow> bson \<Rightarrow> string \<Rightarrow> change_event option" where
  "normalizeSnapshotDoc bs wo cfg snapshotLSN newID raw collName =
     (case wo_id wo raw of
        None \<Rightarrow> None
      | Some idVal \<Rightarrow>
          (case NormalizeChangeEvent bs (wo_wrap wo (sg_Database cfg) collName idVal raw (ucast (drop_bit 32 snapshotLSN)) (ucast snapshotLSN))
                  (sg_SourceID cfg) newID of
             Inl _ \<Rightarrow> None
           | Inr ev \<Rightarrow> Some ev))"

text \<open>What the server answers: the cluster time, and per collection a query error or the documents with the error of the cursor.\<close>

record mongo_client =
  cl_time :: "string + u64"
  cl_find :: "string \<Rightarrow> string + bson option list \<times> string option"

record mongo_snapshot =
  sn_cfg :: snapshot_cfg
  sn_client :: "mongo_client option"
  sn_findFn :: "(string \<Rightarrow> string + bson list) option"
  sn_lsn :: u64

definition NewMongoSnapshot :: "snapshot_cfg \<Rightarrow> mongo_client option \<Rightarrow> mongo_snapshot" where
  "NewMongoSnapshot cfg client = \<lparr>sn_cfg = cfg, sn_client = client, sn_findFn = None, sn_lsn = 0\<rparr>"

definition fetchDocs :: "mongo_snapshot \<Rightarrow> string \<Rightarrow> string + bson list" where
  "fetchDocs s collName =
     (case sn_findFn s of
        Some f \<Rightarrow> f collName
      | None \<Rightarrow>
          (case sn_client s of
             None \<Rightarrow> Inl (''mongodb snapshot: no client or findFn configured for collection '' @ collName)
           | Some cl \<Rightarrow>
               (case cl_find cl collName of
                  Inl e \<Rightarrow> Inl e
                | Inr (docs, Some e) \<Rightarrow> Inl e
                | Inr (docs, None) \<Rightarrow> Inr (List.map_filter id docs))))"

text \<open>A failure to read the cluster time counts as time 0.\<close>

definition capture_lsn :: "mongo_snapshot \<Rightarrow> mongo_snapshot" where
  "capture_lsn s =
     (case sn_client s of
        Some cl \<Rightarrow> if sn_lsn s = 0 then s\<lparr>sn_lsn := (case cl_time cl of Inl _ \<Rightarrow> 0 | Inr t \<Rightarrow> t)\<rparr> else s
      | None \<Rightarrow> s)"

definition snapshot_complete :: "snapshot_cfg \<Rightarrow> string \<Rightarrow> string \<Rightarrow> string \<Rightarrow> change_event" where
  "snapshot_complete cfg newID unixNano collName =
     \<lparr>ev_id = newID, ev_idempotency_key = sg_SourceID cfg @ '':'' @ collName @ '':snapshot_complete:'' @ unixNano,
      ev_timestamp = 0, ev_source = sg_SourceID cfg, ev_operation = OpControl, ev_database = sg_Database cfg, ev_schema = [],
      ev_table = collName, ev_key = None, ev_before = None, ev_after = None,
      ev_metadata = [(''event'', JStr ''snapshot_complete''), (''snapshot'', JBool True)], ev_ai_context = None\<rparr>"

datatype snap_error = SnapCtx | SnapFetch string string | SnapWatermark string string | SnapAppend string mongo_error

text \<open>
  The state \<open>'c\<close> is that of the append function and \<open>'w\<close> that of the watermark checker. \<open>se_ctx k\<close>: the context is
  done before the \<open>k\<close>th document; \<open>se_start\<close> is there when the checker can build an index; \<open>se_emit\<close> may look at both states.
\<close>

record ('w, 'c) snap_env =
  se_ctx :: "nat \<Rightarrow> bool"
  se_ids :: "nat \<Rightarrow> string"
  se_nano :: string
  se_start :: "(string \<Rightarrow> u64 \<Rightarrow> 'w \<Rightarrow> bool \<times> 'w) option"
  se_finish :: "string \<Rightarrow> 'w \<Rightarrow> 'w"
  se_emit :: "'w \<Rightarrow> string \<Rightarrow> raw_message \<Rightarrow> u64 \<Rightarrow> 'c \<Rightarrow> string + bool"
  se_append :: "nat \<Rightarrow> change_event \<Rightarrow> 'c \<Rightarrow> mongo_error option \<times> 'c"

fun snapshot_docs :: "bson_ops \<Rightarrow> wrap_ops \<Rightarrow> ('w, 'c) snap_env \<Rightarrow> 'w \<Rightarrow> mongo_snapshot \<Rightarrow> string \<Rightarrow> nat \<Rightarrow> bson list \<Rightarrow> 'c \<Rightarrow> (snap_error + nat) \<times> 'c" where
  "snapshot_docs bs wo env wc s collName k [] c = (Inr k, c)"
| "snapshot_docs bs wo env wc s collName k (raw # docs) c =
     (if se_ctx env k then (Inl SnapCtx, c)
      else case normalizeSnapshotDoc bs wo (sn_cfg s) (sn_lsn s) (se_ids env k) raw collName of
             None \<Rightarrow> snapshot_docs bs wo env wc s collName (Suc k) docs c
           | Some ev0 \<Rightarrow>
               let ev = ev0\<lparr>ev_operation := OpRead\<rparr>
               in case se_emit env wc collName (ev_key ev) (sn_lsn s) c of
                    Inl e \<Rightarrow> (Inl (SnapWatermark collName e), c)
                  | Inr False \<Rightarrow> snapshot_docs bs wo env wc s collName (Suc k) docs c
                  | Inr True \<Rightarrow>
                      (case se_append env k ev c of
                         (Some e, c') \<Rightarrow> (Inl (SnapAppend collName e), c')
                       | (None, c') \<Rightarrow> snapshot_docs bs wo env wc s collName (Suc k) docs c'))"

definition snapshot_coll :: "bson_ops \<Rightarrow> wrap_ops \<Rightarrow> ('w, 'c) snap_env \<Rightarrow> 'w \<Rightarrow> mongo_snapshot \<Rightarrow> string \<Rightarrow> 'c \<Rightarrow> snap_error option \<times> 'c" where
  "snapshot_coll bs wo env wc s collName c =
     (case fetchDocs s collName of
        Inl e \<Rightarrow> (Some (SnapFetch collName e), c)
      | Inr docs \<Rightarrow>
          (case snapshot_docs bs wo env wc s collName 0 docs c of
             (Inl e, c') \<Rightarrow> (Some e, c')
           | (Inr k, c') \<Rightarrow>
               (case se_append env k (snapshot_complete (sn_cfg s) (se_ids env k) (se_nano env) collName) c' of
                  (Some e, c'') \<Rightarrow> (Some (SnapAppend collName e), c'')
                | (None, c'') \<Rightarrow> (None, c''))))"

text \<open>An index that was built is released when the collection is done, on every path; one that was not is no error.\<close>

definition snapshotCollection :: "bson_ops \<Rightarrow> wrap_ops \<Rightarrow> ('w, 'c) snap_env \<Rightarrow> mongo_snapshot \<Rightarrow> string \<Rightarrow> 'w \<times> 'c \<Rightarrow> snap_error option \<times> 'w \<times> 'c" where
  "snapshotCollection bs wo env s collName = (\<lambda>(wc, c).
     case (case se_start env of None \<Rightarrow> (False, wc) | Some start \<Rightarrow> start collName (sn_lsn s) wc) of
       (indexed, wc1) \<Rightarrow>
         (case snapshot_coll bs wo env wc1 s collName c of
            (r, c') \<Rightarrow> (r, if indexed then se_finish env collName wc1 else wc1, c')))"

fun snapshot_all :: "bson_ops \<Rightarrow> wrap_ops \<Rightarrow> (string \<Rightarrow> bool \<times> ('w, 'c) snap_env) \<Rightarrow> mongo_snapshot \<Rightarrow> string list \<Rightarrow> 'w \<times> 'c \<Rightarrow> snap_error option \<times> 'w \<times> 'c" where
  "snapshot_all bs wo env s [] c = (None, c)"
| "snapshot_all bs wo env s (coll # colls) c =
     (if fst (env coll) then (Some SnapCtx, c)
      else case snapshotCollection bs wo (snd (env coll)) s coll c of
             (Some e, c') \<Rightarrow> (Some e, c')
           | (None, c') \<Rightarrow> snapshot_all bs wo env s colls c')"

definition snapshot_Run :: "bool \<Rightarrow> bson_ops \<Rightarrow> wrap_ops \<Rightarrow> (string \<Rightarrow> bool \<times> ('w, 'c) snap_env) \<Rightarrow> mongo_snapshot \<Rightarrow> 'w \<times> 'c \<Rightarrow> snap_error option \<times> 'w \<times> 'c" where
  "snapshot_Run ctx bs wo env s c =
     (if ctx then (Some SnapCtx, c)
      else snapshot_all bs wo env (capture_lsn s) (sg_Collections (sn_cfg s)) c)"

section \<open>The pipeline\<close>

text \<open>How \<open>runMongoPipeline\<close> appends snapshot events: through the connector, with a nil token.\<close>

definition snapshot_append :: "'s ckpt_ops \<Rightarrow> bson_ops \<Rightarrow> (nat \<Rightarrow> batch_env) \<Rightarrow> nat \<Rightarrow> change_event \<Rightarrow> 's mongo_conn \<Rightarrow> mongo_error option \<times> 's mongo_conn" where
  "snapshot_append ck bs env k ev c = mongo_AppendAndQueue ck bs (be_log (env k)) (be_save (env k)) ev [] c"

text \<open>The snapshot is built without a client and without a find function.\<close>

definition resnapshot :: "bool \<Rightarrow> bson_ops \<Rightarrow> wrap_ops \<Rightarrow> (string \<Rightarrow> bool \<times> ('w, 's mongo_conn) snap_env) \<Rightarrow> string \<Rightarrow> string list \<Rightarrow> 'w \<times> 's mongo_conn
    \<Rightarrow> snap_error option \<times> 'w \<times> 's mongo_conn" where
  "resnapshot ctx bs wo env dbName tables c =
     snapshot_Run ctx bs wo env (NewMongoSnapshot \<lparr>sg_Database = dbName, sg_Collections = tables, sg_SourceID = ''default''\<rparr> None) c"

section \<open>Lemmas\<close>

text \<open>
  The snapshot that follows an invalid resume token fails at the first collection and stores nothing, whatever
  the environment does: it is built without a client and without a find function.
\<close>

theorem mongo_resnapshot_fails:
  "\<exists>e wc'. resnapshot False bs wo env dbName (coll # colls) (wc, c) = (Some e, wc', c) \<and> (e = SnapCtx \<or> (\<exists>msg. e = SnapFetch coll msg))"
  by (auto simp: resnapshot_def snapshot_Run_def NewMongoSnapshot_def capture_lsn_def snapshotCollection_def snapshot_coll_def fetchDocs_def
    split: option.splits prod.splits)

text \<open>What every append keeps, the loop over the documents keeps.\<close>

lemma snapshot_docs_inv:
  assumes "P c" "\<And>j ev c'. P c' \<Longrightarrow> P (snd (se_append env j ev c'))"
  shows "P (snd (snapshot_docs bs wo env wc s coll k docs c))"
  using assms(1)
proof (induction docs arbitrary: k c)
  case (Cons raw docs)
  show ?case
  proof (cases "normalizeSnapshotDoc bs wo (sn_cfg s) (sn_lsn s) (se_ids env k) raw coll")
    case None
    with Cons show ?thesis by simp
  next
    case (Some ev0)
    obtain r1 c1 where a: "se_append env k (ev0\<lparr>ev_operation := OpRead\<rparr>) c = (r1, c1)" by fastforce
    with assms(2) Cons.prems have "P c1" by (metis snd_conv)
    with Cons Some a show ?thesis by (simp add: Let_def split: sum.splits bool.splits option.splits)
  qed
qed simp

text \<open>Append through the connector: on success the collection of the event has an empty token.\<close>

context checkpoint_store
begin

lemma snapshot_append_ok:
  assumes "ok (mc_store c)" "snapshot_append ops bs env k ev c = (None, c')" "ev_table ev = coll" "coll \<in> set (mg_Collections (mc_cfg c))" "coll \<noteq> []"
  shows "ok (mc_store c') \<and> mc_cfg c' = mc_cfg c \<and> position (mc_store c') (checkpointKey (mc_cfg c) coll) = []"
proof -
  have cf: "collectionForEvent (mc_cfg c) ev = coll" using assms(3-5) by (simp add: collectionForEvent_def)
  obtain b log where l: "(if mc_has_log c then log_batch (be_log (env k)) [ev] (mc_log c) else (True, mc_log c)) = (b, log)" by fastforce
  obtain r c2 where sv: "saveResumeToken ops bs (be_save (env k)) coll [] (c\<lparr>mc_log := log\<rparr>) = (r, c2)" by fastforce
  from assms(2) l sv cf assms(5) have r: "b" "r = None" "mc_store c' = mc_store c2" "mc_cfg c' = mc_cfg c2"
    by (auto simp: snapshot_append_def mongo_AppendAndQueue_def Let_def split: if_splits option.splits)
  from saveResumeToken_ok [OF _ sv] assms(1) r show ?thesis by (auto simp: tokenToString_def)
qed

lemma snapshot_append_frame:
  assumes "ok (mc_store c)" "snapshot_append ops bs env k ev c = (r, c')"
  shows "ok (mc_store c') \<and> mc_cfg c' = mc_cfg c"
proof -
  obtain b log where l: "(if mc_has_log c then log_batch (be_log (env k)) [ev] (mc_log c) else (True, mc_log c)) = (b, log)" by fastforce
  obtain r2 c2 where sv: "saveResumeToken ops bs (be_save (env k)) (collectionForEvent (mc_cfg c) ev) [] (c\<lparr>mc_log := log\<rparr>) = (r2, c2)" by fastforce
  from saveResumeToken_ok [OF _ sv] assms(1) have "ok (mc_store c2) \<and> mc_cfg c2 = mc_cfg c" by simp
  with assms l sv show ?thesis by (auto simp: snapshot_append_def mongo_AppendAndQueue_def Let_def split: if_splits option.splits)
qed

lemma snapshot_docs_frame:
  assumes "ok (mc_store c)" "se_append env = snapshot_append ops bs' benv"
  shows "ok (mc_store (snd (snapshot_docs bs wo env wc s coll k docs c))) \<and> mc_cfg (snd (snapshot_docs bs wo env wc s coll k docs c)) = mc_cfg c"
proof (rule snapshot_docs_inv)
  show "ok (mc_store (snd (se_append env j ev c'))) \<and> mc_cfg (snd (se_append env j ev c')) = mc_cfg c"
    if "ok (mc_store c') \<and> mc_cfg c' = mc_cfg c" for j ev c'
    using snapshot_append_frame [of c' bs' benv j ev] that assms(2) by (metis prod.collapse)
qed (use assms(1) in simp)

text \<open>A collection that was snapshotted has an empty token: the stream that is opened next starts at the end of the history.\<close>

lemma snapshot_drops_token:
  assumes "ok (mc_store c)" "se_append env = snapshot_append ops bs' benv" "snapshotCollection bs wo env s coll (wc, c) = (None, wc', c')"
    and "coll \<in> set (mg_Collections (mc_cfg c))" "coll \<noteq> []"
  shows "position (mc_store c') (checkpointKey (mc_cfg c') coll) = []"
proof -
  from assms(3) obtain wc1 docs k c1 where d: "snapshot_docs bs wo env wc1 s coll 0 docs c = (Inr k, c1)"
    and a: "se_append env k (snapshot_complete (sn_cfg s) (se_ids env k) (se_nano env) coll) c1 = (None, c')"
    by (auto simp: snapshotCollection_def snapshot_coll_def split: sum.splits prod.splits option.splits)
  from snapshot_docs_frame [OF assms(1,2), of bs wo wc1 s coll 0 docs] d have f: "ok (mc_store c1)" "mc_cfg c1 = mc_cfg c" by simp_all
  have "ev_table (snapshot_complete (sn_cfg s) (se_ids env k) (se_nano env) coll) = coll" by (simp add: snapshot_complete_def)
  from snapshot_append_ok [OF f(1) a [unfolded assms(2)] this] assms(4,5) f(2) show ?thesis by simp
qed

end

end
