(* ===== verification/Mongo_Examples.thy ===== *)
theory Mongo_Examples
  imports Mongo_Snapshot
begin

text \<open>A codec and a server that keep the laws, a run of the connector on a SQLite store, and instances of the theorems.\<close>

text \<open>A document is a key of one character followed by the full document, changed in an update at time 1.\<close>

definition ex_bs :: bson_ops where
  "ex_bs =
     \<lparr>bs_unmarshal = (\<lambda>raw. case raw of
        [] \<Rightarrow> None
      | k # doc \<Rightarrow> Some \<lparr>cs_ResumeToken = ''r'', cs_OperationType = ''update'', cs_T = 1, cs_I = 0, cs_DB = ''d'', cs_Coll = ''c'',
                         cs_DocumentKey = [k], cs_FullDocument = doc, cs_BeforeChange = []\<rparr>),
      bs_ext_json = Some, bs_string = id, bs_parse = Some\<rparr>"

definition ex_watch :: "unit \<Rightarrow> string \<Rightarrow> bson \<Rightarrow> stream_item list \<Rightarrow> nat option" where
  "ex_watch n coll t h =
     (if t = [] then Some (length h)
      else if t \<in> si_token ` set h then Some (Suc (length (takeWhile (\<lambda>it. si_token it \<noteq> t) h))) else None)"

lemma ex_watch_ok: "watch_ok ex_watch"
proof -
  have "si_token (h ! length (takeWhile (\<lambda>it. si_token it \<noteq> t) h)) = t \<and> length (takeWhile (\<lambda>it. si_token it \<noteq> t) h) < length h"
    if "t \<in> si_token ` set h" for t h
    using that by (induction h) auto
  then show ?thesis by (auto simp: watch_ok_def ex_watch_def Suc_le_eq split: if_splits)
qed

lemma ex_bs_law: "bs_parse ex_bs (bs_string ex_bs t) \<in> {None, Some t}"
  by (simp add: ex_bs_def)

interpretation sqlite_mongo: mongo_source "sqlite_ops 0" table_ok position_of ex_bs ex_watch
  by unfold_locales (use ex_bs_law ex_watch_ok in auto)

definition ex_mongo_cfg :: mongo_cfg where
  "ex_mongo_cfg = \<lparr>mg_URI = ''mongodb://h/d'', mg_Database = ''d'', mg_Collections = [''c''], mg_SourceID = ''s''\<rparr>"

definition ex_mongo :: "ckpt_table mongo_conn" where
  "ex_mongo = \<lparr>mc_cfg = ex_mongo_cfg, mc_store = [], mc_has_log = True, mc_log = [], mc_chan = [], mc_needsSnapshot = False,
     mc_tokens = [], mc_batchesFlushed = 0, mc_eventsFlushed = 0\<rparr>"

lemma ex_mongo_new: "mongo_NewWithEventLog (sqlite_ops 0) ex_bs (\<lambda>_. (False, False)) ex_mongo_cfg [] True [] = Inr ex_mongo"
  by (simp add: mongo_NewWithEventLog_def mongo_ApplyDefaults_def mongo_validate_def ex_mongo_cfg_def ex_mongo_def
    loadResumeTokenFromStore_def store_defs select_lsn_def)

definition ex_item :: stream_item where
  "ex_item = \<lparr>si_doc = Some ''ka'', si_token = ''1'', si_id = ''i'', si_buffered = False\<rparr>"

definition ok_env :: batch_env where
  "ok_env = \<lparr>be_log = LogOk, be_save = ExecOk\<rparr>"

definition ex_mongo1 :: "ckpt_table mongo_conn" where
  "ex_mongo1 = snd (snd (stream_turn (sqlite_ops 0) ex_bs ok_env ''c'' ex_item [] ex_mongo))"

lemma ex_turn: "stream_turn (sqlite_ops 0) ex_bs ok_env ''c'' ex_item [] ex_mongo = (None, [], ex_mongo1)"
  by (simp add: ex_mongo1_def stream_turn_def Let_def take_item_def decodeNext_def NormalizeChangeEvent_def ex_bs_def ex_item_def mongo_op_def op_defs
    opt_json_def flush_batch_def mongo_AppendAndQueueBatch_def ex_mongo_def log_batch_def ok_env_def saveResumeToken_def store_defs exec_upsert_def)

lemma ex_stored: "position_of (mc_store ex_mongo1) (checkpointKey (mc_cfg ex_mongo1) ''c'') = ''1''"
  by (simp add: ex_mongo1_def stream_turn_def Let_def take_item_def decodeNext_def NormalizeChangeEvent_def ex_bs_def ex_item_def mongo_op_def op_defs
    opt_json_def flush_batch_def mongo_AppendAndQueueBatch_def ex_mongo_def log_batch_def ok_env_def saveResumeToken_def store_defs exec_upsert_def
    position_of_def select_lsn_def ckpt_upsert_def tokenToString_def)

definition ex_world :: "ckpt_table mongo_world" where
  "ex_world = \<lparr>mw_hist = (\<lambda>_. [])(''c'' := [ex_item]), mw_conn = ex_mongo1, mw_pos = (\<lambda>_. None)(''c'' := Some 1), mw_from = (\<lambda>_. 0)\<rparr>"

lemma ex_run: "(mongo_step (sqlite_ops 0) ex_bs ex_watch)\<^sup>*\<^sup>* (mongo_start ex_mongo) ex_world"
proof -
  let ?R = "mongo_step (sqlite_ops 0) ex_bs ex_watch"
  define w1 where "w1 = (mongo_start ex_mongo)\<lparr>mw_pos := (\<lambda>_. None)(''c'' := Some 0)\<rparr>"
  define w2 where "w2 = w1\<lparr>mw_hist := (mw_hist w1)(''c'' := mw_hist w1 ''c'' @ [ex_item])\<rparr>"
  have "?R (mongo_start ex_mongo) w1"
    using m_open [of "mongo_start ex_mongo" "''c''" "[]" ex_watch "()" 0]
    by (simp add: w1_def mongo_start_def resumeTokenForCollection_def ex_mongo_def gm_get0_def ex_watch_def fun_upd_def)
  moreover have "?R w1 w2" unfolding w2_def by (rule m_change) (simp_all add: w1_def mongo_start_def ex_item_def)
  moreover have "mw_conn w2 = ex_mongo" "mw_pos w2 ''c'' = Some 0" "mw_hist w2 ''c'' = [ex_item]" by (simp_all add: w2_def w1_def mongo_start_def)
  then have "?R w2 (w2\<lparr>mw_conn := ex_mongo1, mw_pos := (mw_pos w2)(''c'' := Some 1)\<rparr>)"
    using m_turn [of w2 "''c''" 0 ex_item "[]" "sqlite_ops 0" ex_bs ok_env None "[]" ex_mongo1 ex_watch] ex_turn
    by (simp add: same_item_def ex_mongo_def ex_mongo_cfg_def)
  moreover have "w2\<lparr>mw_conn := ex_mongo1, mw_pos := (mw_pos w2)(''c'' := Some 1)\<rparr> = ex_world"
    by (simp add: ex_world_def w2_def w1_def mongo_start_def)
  ultimately show ?thesis by (metis (no_types, lifting) rtranclp.simps)
qed



definition lost_pair :: "change_event \<times> change_event" where
  "lost_pair = (projr (NormalizeChangeEvent ex_bs ''ka'' ''s'' ''1''), projr (NormalizeChangeEvent ex_bs ''kb'' ''s'' ''2''))"

theorem mongo_transaction_change_lost_witness:
  "map ev_after (mc_log (snd (mongo_AppendAndQueueBatch (sqlite_ops 0) ex_bs LogOk ExecOk ''c'' [fst lost_pair, snd lost_pair] ''t'' ex_mongo))) = [Some ''a'']"
proof -
  let ?run = "mongo_AppendAndQueueBatch (sqlite_ops 0) ex_bs LogOk ExecOk ''c'' [fst lost_pair, snd lost_pair] ''t'' ex_mongo"
  obtain r c' where run: "?run = (r, c')" by fastforce
  obtain cs where u: "bs_unmarshal ex_bs ''ka'' = Some cs" "bs_unmarshal ex_bs ''kb'' = Some (cs\<lparr>cs_ResumeToken := ''r'', cs_FullDocument := ''b'', cs_BeforeChange := []\<rparr>)"
    by (simp add: ex_bs_def)
  have n: "NormalizeChangeEvent ex_bs ''ka'' ''s'' ''1'' = Inr (fst lost_pair)" "NormalizeChangeEvent ex_bs ''kb'' ''s'' ''2'' = Inr (snd lost_pair)"
    "ev_after (fst lost_pair) = Some ''a''"
    by (simp_all add: lost_pair_def NormalizeChangeEvent_def ex_bs_def mongo_op_def op_defs opt_json_def)
  have "mc_has_log ex_mongo" "mc_log ex_mongo = []" by (simp_all add: ex_mongo_def)
  with mongo_transaction_change_lost [OF u n(1,2) _ run] n(3) run show ?thesis by (simp add: log_put_def)
qed

end
