(* ===== verification/Routing.thy ===== *)
theory Routing
  imports Row_Filter Go_Lib
begin

text \<open>
  Match rules (\<open>internal/routing\<close>): table globs with at most one star, a bitmask of operations and a row
  filter. The glob agrees with the usual reading of a star, and a rule matches exactly when its three parts do.
\<close>

section \<open>Globs\<close>

record tableGlob =
  tg_matchAll :: bool
  tg_exact :: string
  tg_prefix :: string
  tg_suffix :: string

datatype routing_error = EmptyPattern | MultiStar string | UnknownOperation string | BadWhere filter_error

definition no_glob :: tableGlob where
  "no_glob = \<lparr>tg_matchAll = False, tg_exact = [], tg_prefix = [], tg_suffix = []\<rparr>"

definition compileTableGlob :: "string \<Rightarrow> routing_error + tableGlob" where
  "compileTableGlob pattern =
     (if pattern = [] then Inl EmptyPattern
      else let starCount = length (filter (\<lambda>c. c = CHR ''*'') pattern)
           in if starCount = 0 then Inr (no_glob\<lparr>tg_exact := pattern\<rparr>)
              else if starCount > 1 then Inl (MultiStar pattern)
              else if pattern = ''*'' then Inr (no_glob\<lparr>tg_matchAll := True\<rparr>)
              else let idx = length (takeWhile (\<lambda>c. c \<noteq> CHR ''*'') pattern)
                   in Inr (no_glob\<lparr>tg_prefix := take idx pattern, tg_suffix := drop (idx + 1) pattern\<rparr>))"

definition HasSuffix :: "string \<Rightarrow> string \<Rightarrow> bool" where
  "HasSuffix s p \<longleftrightarrow> length p \<le> length s \<and> drop (length s - length p) s = p"

definition glob_match :: "tableGlob \<Rightarrow> string \<Rightarrow> bool" where
  "glob_match g name \<longleftrightarrow>
     (if tg_matchAll g then True
      else if tg_exact g \<noteq> [] then name = tg_exact g
      else if length name < length (tg_prefix g) + length (tg_suffix g) then False
      else HasPrefix name (tg_prefix g) \<and> HasSuffix name (tg_suffix g))"

section \<open>Rules\<close>

record match_config =
  mt_tables :: "string list"
  mt_operations :: "string list"
  mt_where :: string

type_synonym opBitmask = "8 word"

definition opInsert :: opBitmask where "opInsert = 1"
definition opUpdate :: opBitmask where "opUpdate = 2"
definition opDelete :: opBitmask where "opDelete = 4"
definition opRead :: opBitmask where "opRead = 8"
definition opAll :: opBitmask where "opAll = 15"

lemmas op_bits = opInsert_def opUpdate_def opDelete_def opRead_def opAll_def

definition canonicalOps :: "string \<Rightarrow> opBitmask option" where
  "canonicalOps op =
     (if op = ''insert'' then Some opInsert else if op = ''update'' then Some opUpdate
      else if op = ''delete'' then Some opDelete else if op = ''read'' then Some opRead else None)"

record matcher =
  ma_tables :: "tableGlob list"
  ma_matchAll :: bool
  ma_ops :: opBitmask
  ma_rowFilter :: "expr option"

fun compile_globs :: "string list \<Rightarrow> routing_error + tableGlob list" where
  "compile_globs [] = Inr []"
| "compile_globs (p # ps) =
     (case compileTableGlob p of
        Inl e \<Rightarrow> Inl e
      | Inr g \<Rightarrow> (case compile_globs ps of Inl e \<Rightarrow> Inl e | Inr gs \<Rightarrow> Inr (g # gs)))"

text \<open>
  \<open>strings.ToLower\<close>, as far as it yields ASCII: the capital letters, and the two other code points whose lower case
  is ASCII, U+0130 and U+212A (their UTF-8 bytes). Other letters stay outside ASCII and so in no operation name.
\<close>

fun ToLower :: "string \<Rightarrow> string" where
  "ToLower [] = []"
| "ToLower (c # s) =
     (if c = CHR 0xC4 \<and> take 1 s = [CHR 0xB0] then CHR ''i'' # ToLower (drop 1 s)
      else if c = CHR 0xE2 \<and> take 2 s = [CHR 0x84, CHR 0xAA] then CHR ''k'' # ToLower (drop 2 s)
      else lower c # ToLower s)"

fun compile_ops :: "string list \<Rightarrow> opBitmask \<Rightarrow> routing_error + opBitmask" where
  "compile_ops [] acc = Inr acc"
| "compile_ops (raw # ops) acc =
     (case canonicalOps (ToLower (TrimSpace raw)) of
        None \<Rightarrow> Inl (UnknownOperation raw)
      | Some b \<Rightarrow> compile_ops ops (or acc b))"

definition routing_Compile :: "(string \<Rightarrow> float64 option) \<Rightarrow> match_config \<Rightarrow> routing_error + matcher" where
  "routing_Compile pf mc =
     (case compile_globs (mt_tables mc) of
        Inl e \<Rightarrow> Inl e
      | Inr gs \<Rightarrow>
          (case (if mt_operations mc = [] then Inr opAll else compile_ops (mt_operations mc) 0) of
             Inl e \<Rightarrow> Inl e
           | Inr ops \<Rightarrow>
               (case ParseRowFilter pf (mt_where mc) of
                  Inl e \<Rightarrow> Inl (BadWhere e)
                | Inr rf \<Rightarrow> Inr \<lparr>ma_tables = gs, ma_matchAll = (mt_tables mc = []), ma_ops = ops, ma_rowFilter = rf\<rparr>)))"

definition matchOp :: "matcher \<Rightarrow> operation \<Rightarrow> bool" where
  "matchOp m op \<longleftrightarrow>
     (if op = OpInsert then and (ma_ops m) opInsert \<noteq> 0
      else if op = OpUpdate then and (ma_ops m) opUpdate \<noteq> 0
      else if op = OpDelete then and (ma_ops m) opDelete \<noteq> 0
      else if op = OpRead then and (ma_ops m) opRead \<noteq> 0
      else False)"

definition matchTable :: "matcher \<Rightarrow> string \<Rightarrow> bool" where
  "matchTable m name \<longleftrightarrow> list_ex (\<lambda>g. glob_match g name) (ma_tables m)"

definition qualifiedName :: "string \<Rightarrow> string \<Rightarrow> string" where
  "qualifiedName schema table = (if schema = [] then table else schema @ ''.'' @ table)"

type_synonym row_decoder = "string \<Rightarrow> (string, json) gomap option option"

definition matcher_Match :: "convs \<Rightarrow> row_decoder \<Rightarrow> matcher \<Rightarrow> change_event \<Rightarrow> filter_error + bool" where
  "matcher_Match cv unmarshal m ev =
     (if \<not> matchOp m (ev_operation ev) then Inr False
      else if \<not> ma_matchAll m \<and> \<not> matchTable m (qualifiedName (ev_schema ev) (ev_table ev)) then Inr False
      else Match cv unmarshal (ma_rowFilter m) ev)"

section \<open>What the rules mean\<close>

text \<open>The usual reading of a glob: the star stands for any string.\<close>

definition glob_reads :: "string \<Rightarrow> string \<Rightarrow> bool" where
  "glob_reads pattern name \<longleftrightarrow>
     (if CHR ''*'' \<in> set pattern
      then \<exists>pre post mid. pattern = pre @ ''*'' @ post \<and> CHR ''*'' \<notin> set pre \<and> name = pre @ mid @ post
      else name = pattern)"

lemma prefix_suffix_iff:
  "length p + length q \<le> length s \<Longrightarrow> HasPrefix s p \<and> HasSuffix s q \<longleftrightarrow> (\<exists>mid. s = p @ mid @ q)"
proof
  assume l: "length p + length q \<le> length s" and h: "HasPrefix s p \<and> HasSuffix s q"
  from h have "s = p @ drop (length p) s" unfolding HasPrefix_def using append_take_drop_id [of "length p" s] by simp
  then obtain r where r: "s = p @ r" by blast
  with l h have "q = drop (length r - length q) r" by (auto simp: HasSuffix_def)
  then have "r = take (length r - length q) r @ q" using append_take_drop_id [of "length r - length q" r] by simp
  then show "\<exists>mid. s = p @ mid @ q" unfolding r by blast
qed (auto simp: HasPrefix_def HasSuffix_def)

lemma one_star:
  assumes "length (filter (\<lambda>c. c = CHR ''*'') s) = 1"
  shows "\<exists>pre post. s = pre @ ''*'' @ post \<and> CHR ''*'' \<notin> set pre \<and> CHR ''*'' \<notin> set post"
proof -
  from assms have "CHR ''*'' \<in> set s" by (induction s) (auto split: if_splits)
  then obtain pre post where s: "s = pre @ CHR ''*'' # post" "CHR ''*'' \<notin> set pre" by (metis split_list_first)
  with assms have "filter (\<lambda>c. c = CHR ''*'') post = []" by simp
  then have "CHR ''*'' \<notin> set post" by (auto simp: filter_empty_conv)
  with s show ?thesis by auto
qed

lemma glob_split_unique:
  assumes "CHR ''*'' \<notin> set pre" "CHR ''*'' \<notin> set pre'" "pre @ ''*'' @ post = pre' @ ''*'' @ post'"
  shows "pre = pre' \<and> post = post'"
proof -
  have "takeWhile (\<lambda>c. c \<noteq> CHR ''*'') (pre @ ''*'' @ post) = pre" "takeWhile (\<lambda>c. c \<noteq> CHR ''*'') (pre' @ ''*'' @ post') = pre'"
    using assms(1,2) by (auto simp: takeWhile_append)
  with assms(3) show ?thesis by auto
qed

lemma compile_glob_matches:
  assumes "compileTableGlob pattern = Inr g"
  shows "glob_match g name \<longleftrightarrow> glob_reads pattern name"
proof -
  let ?n = "length (filter (\<lambda>c. c = CHR ''*'') pattern)"
  from assms have ne: "pattern \<noteq> []" "?n \<le> 1" by (auto simp: compileTableGlob_def Let_def split: if_splits)
  show ?thesis
  proof (cases "?n = 0")
    case True
    with assms ne have "g = no_glob\<lparr>tg_exact := pattern\<rparr>" by (simp add: compileTableGlob_def Let_def)
    moreover from True have "CHR ''*'' \<notin> set pattern" by (auto simp: filter_empty_conv)
    ultimately show ?thesis using ne by (simp add: glob_match_def no_glob_def glob_reads_def)
  next
    case False
    with ne(2) have "?n = 1" by linarith
    then obtain pre post where p: "pattern = pre @ ''*'' @ post" "CHR ''*'' \<notin> set pre" using one_star by blast
    have reads: "glob_reads pattern name \<longleftrightarrow> (\<exists>mid. name = pre @ mid @ post)"
      using p glob_split_unique [OF p(2)] unfolding glob_reads_def by auto
    show ?thesis
    proof (cases "pattern = ''*''")
      case True
      with p have "pre = [] \<and> post = []" by (cases pre) auto
      moreover from True assms have "tg_matchAll g" by (auto simp: compileTableGlob_def no_glob_def)
      ultimately show ?thesis unfolding reads by (simp add: glob_match_def)
    next
      case pattern: False
      have "takeWhile (\<lambda>c. c \<noteq> CHR ''*'') pattern = pre" using p by (auto simp: takeWhile_append)
      with assms pattern \<open>?n = 1\<close> ne p have g: "g = no_glob\<lparr>tg_prefix := pre, tg_suffix := post\<rparr>"
        by (auto simp: compileTableGlob_def Let_def split: if_splits)
      have "(\<exists>mid. name = pre @ mid @ post) \<Longrightarrow> length pre + length post \<le> length name" by auto
      with prefix_suffix_iff [of pre post name] show ?thesis unfolding reads g by (auto simp: glob_match_def no_glob_def)
    qed
  qed
qed

lemma compile_globs_match:
  assumes "compile_globs ps = Inr gs"
  shows "list_ex (\<lambda>g. glob_match g name) gs \<longleftrightarrow> list_ex (\<lambda>p. glob_reads p name) ps"
  using assms by (induction ps arbitrary: gs) (auto split: sum.splits simp: compile_glob_matches)

text \<open>Membership in the bitmask is membership in the list of names.\<close>

definition op_named :: "string list \<Rightarrow> operation \<Rightarrow> bool" where
  "op_named ops op \<longleftrightarrow> op \<in> (\<lambda>raw. ToLower (TrimSpace raw)) ` set ops"

lemma canonical_bits:
  assumes "canonicalOps op = Some b" "canonicalOps op' = Some b'"
  shows "and b b' \<noteq> 0 \<longleftrightarrow> op = op'"
  using assms by (auto simp: canonicalOps_def op_bits split: if_splits)

lemma or_nonzero: "or x y \<noteq> (0 :: opBitmask) \<longleftrightarrow> x \<noteq> 0 \<or> y \<noteq> 0"
  by (simp add: or_eq_0_iff)

lemma compile_ops_bits:
  assumes "compile_ops ops acc = Inr r" "canonicalOps op = Some b"
  shows "and r b \<noteq> 0 \<longleftrightarrow> and acc b \<noteq> 0 \<or> op_named ops op"
  using assms
proof (induction ops acc rule: compile_ops.induct)
  case (2 raw ops acc)
  then obtain b' where b': "canonicalOps (ToLower (TrimSpace raw)) = Some b'" "compile_ops ops (or acc b') = Inr r" by (auto split: option.splits)
  have "and (or acc b') b \<noteq> 0 \<longleftrightarrow> and acc b \<noteq> 0 \<or> ToLower (TrimSpace raw) = op"
    using canonical_bits [OF b'(1) 2(3)] by (simp add: bit.conj_disj_distrib2 or_nonzero)
  with 2 b' show ?case by (auto simp: op_named_def)
qed (simp add: op_named_def)

lemma compile_ops_canonical:
  assumes "compile_ops ops acc = Inr r" "op_named ops op"
  shows "\<exists>b. canonicalOps op = Some b"
  using assms by (induction ops acc rule: compile_ops.induct) (auto simp: op_named_def split: option.splits)

lemma matcher_spec:
  assumes "routing_Compile pf mc = Inr m" "ParseRowFilter pf (mt_where mc) = Inr rf"
  shows "matcher_Match cv unmarshal m ev =
    (if (if mt_operations mc = [] then ev_operation ev \<in> {OpInsert, OpUpdate, OpDelete, OpRead} else op_named (mt_operations mc) (ev_operation ev)) \<and>
        (mt_tables mc = [] \<or> list_ex (\<lambda>p. glob_reads p (qualifiedName (ev_schema ev) (ev_table ev))) (mt_tables mc))
     then Match cv unmarshal rf ev else Inr False)"
proof -
  from assms obtain gs ops where m: "compile_globs (mt_tables mc) = Inr gs" "(if mt_operations mc = [] then Inr opAll else compile_ops (mt_operations mc) 0) = Inr ops"
      "m = \<lparr>ma_tables = gs, ma_matchAll = (mt_tables mc = []), ma_ops = ops, ma_rowFilter = rf\<rparr>"
    by (auto simp: routing_Compile_def split: sum.splits)
  have "matchOp m op \<longleftrightarrow> (if mt_operations mc = [] then op \<in> {OpInsert, OpUpdate, OpDelete, OpRead} else op_named (mt_operations mc) op)" for op
  proof (cases "mt_operations mc = []")
    case True
    with m(2,3) show ?thesis by (auto simp: matchOp_def op_bits op_defs)
  next
    case False
    with m(2) have c: "compile_ops (mt_operations mc) 0 = Inr ops" by simp
    have "matchOp m op \<longleftrightarrow> (\<exists>b. canonicalOps op = Some b \<and> and ops b \<noteq> 0)" using m(3) by (auto simp: matchOp_def canonicalOps_def op_defs)
    moreover have "(\<exists>b. canonicalOps op = Some b \<and> and ops b \<noteq> 0) \<longleftrightarrow> op_named (mt_operations mc) op"
      using compile_ops_bits [OF c, of op] compile_ops_canonical [OF c, of op] by (metis and_zero_eq bit.conj_zero_left)
    ultimately show ?thesis using False by simp
  qed
  moreover have "matchTable m name \<longleftrightarrow> list_ex (\<lambda>p. glob_reads p name) (mt_tables mc)" for name
    using compile_globs_match [OF m(1)] m(3) by (simp add: matchTable_def)
  ultimately show ?thesis using m(3) by (auto simp: matcher_Match_def)
qed

text \<open>
  C39. What a compiled rule matches: the operation is one of the named ones (any of the four when none is named), the
  qualified table name is read by one of the patterns (or there are none), and the row filter holds.
\<close>

theorem routing_match_spec:
  assumes "routing_Compile pf mc = Inr m" "ParseRowFilter pf (mt_where mc) = Inr rf"
  shows "matcher_Match cv unmarshal m ev =
    (if (if mt_operations mc = [] then ev_operation ev \<in> {OpInsert, OpUpdate, OpDelete, OpRead} else op_named (mt_operations mc) (ev_operation ev)) \<and>
        (mt_tables mc = [] \<or> list_ex (\<lambda>p. glob_reads p (qualifiedName (ev_schema ev) (ev_table ev))) (mt_tables mc))
     then Match cv unmarshal rf ev else Inr False)"
  by (rule matcher_spec [OF assms])

lemma TrimSpace_Nil [simp]: "TrimSpace [] = []"
proof -
  have "strip_one ws [] = None" for ws by (induction ws) auto
  then have "trim_left ws [] = []" for ws by (simp add: trim_left.simps)
  then show ?thesis by (simp add: TrimSpace_def)
qed

lemma ParseRowFilter_Nil [simp]: "ParseRowFilter pf [] = Inr None"
  by (simp add: ParseRowFilter_def)

text \<open>A rule for reads and inserts of the tables of one schema.\<close>

definition ex_match :: match_config where
  "ex_match = \<lparr>mt_tables = [''public.*'', ''audit''], mt_operations = [''read'', ''insert''], mt_where = []\<rparr>"

definition ex_matcher :: matcher where
  "ex_matcher = \<lparr>ma_tables = [no_glob\<lparr>tg_prefix := ''public.''\<rparr>, no_glob\<lparr>tg_exact := ''audit''\<rparr>], ma_matchAll = False, ma_ops = 9, ma_rowFilter = None\<rparr>"

lemma ex_ops: "TrimSpace ''read'' = ''read''" "TrimSpace ''insert'' = ''insert''"
  by (rule TrimSpace_solid; simp add: solid_def IsSpace_def code_def)+

lemma ex_compiles: "routing_Compile (\<lambda>_. None) ex_match = Inr ex_matcher"
proof -
  have "compile_ops [''read'', ''insert''] 0 = Inr 9"
    using ex_ops by (simp add: canonicalOps_def op_bits lower_def code_def)
  then show ?thesis by (simp add: routing_Compile_def ex_match_def ex_matcher_def compileTableGlob_def no_glob_def)
qed

definition ex_order_read :: change_event where
  "ex_order_read = \<lparr>ev_id = [], ev_idempotency_key = [], ev_timestamp = 0, ev_source = [], ev_operation = OpRead, ev_database = [],
     ev_schema = ''public'', ev_table = ''orders'', ev_key = None, ev_before = None, ev_after = None, ev_metadata = [], ev_ai_context = None\<rparr>"

theorem routing_match_spec_witness:
  "routing_Compile (\<lambda>_. None) ex_match = Inr ex_matcher \<and>
   matcher_Match \<lparr>cv_parse = \<lambda>_. None, cv_format = \<lambda>_. [], cv_sprint = \<lambda>_. []\<rparr> (\<lambda>_. None) ex_matcher ex_order_read = Inr True"
proof -
  have "ParseRowFilter (\<lambda>_. None) (mt_where ex_match) = Inr None" by (simp add: ex_match_def)
  note spec = routing_match_spec [OF ex_compiles this, of "\<lparr>cv_parse = \<lambda>_. None, cv_format = \<lambda>_. [], cv_sprint = \<lambda>_. []\<rparr>" "\<lambda>_. None" ex_order_read]
  have "op_named (mt_operations ex_match) (ev_operation ex_order_read)"
    using ex_ops by (simp add: op_named_def ex_match_def ex_order_read_def op_defs lower_def code_def)
  moreover have "glob_reads ''public.*'' ''public.orders''"
    using compile_glob_matches [of "''public.*''" "no_glob\<lparr>tg_prefix := ''public.''\<rparr>" "''public.orders''"]
    by (simp add: compileTableGlob_def no_glob_def glob_match_def HasPrefix_def HasSuffix_def)
  ultimately show ?thesis using spec ex_compiles by (simp add: ex_match_def ex_order_read_def qualifiedName_def Match_def)
qed

end
