(* ===== verification/Mcp_Acl.thy ===== *)
theory Mcp_Acl
  imports Routing
begin

text \<open>
  Access control of the MCP server (\<open>internal/mcp/acl.go\<close>): which tables an API key may see and which columns
  are masked for it. JSON decoding and encoding are parameters.
\<close>

record redact_config =
  rd_tables :: "string list"
  rd_columns :: "string list"

record mcp_api_key =
  mk_name :: string
  mk_key :: string
  mk_tables :: "string list"
  mk_redact :: "redact_config list"

record redactRule =
  rr_matcher :: matcher
  rr_columns :: "string set"

record acl =
  ac_name :: string
  ac_matcher :: matcher
  ac_allowAllTables :: bool
  ac_rules :: "redactRule list"

datatype acl_error = TablesRequired string | BadTables string routing_error | BadRedact string nat routing_error

fun compile_rules :: "(string \<Rightarrow> float64 option) \<Rightarrow> string \<Rightarrow> nat \<Rightarrow> redact_config list \<Rightarrow> acl_error + redactRule list" where
  "compile_rules pf name i [] = Inr []"
| "compile_rules pf name i (r # rs) =
     (if rd_columns r = [] then compile_rules pf name (Suc i) rs
      else case routing_Compile pf \<lparr>mt_tables = rd_tables r, mt_operations = [], mt_where = []\<rparr> of
             Inl e \<Rightarrow> Inl (BadRedact name i e)
           | Inr rm \<Rightarrow>
               (case compile_rules pf name (Suc i) rs of
                  Inl e \<Rightarrow> Inl e
                | Inr rules \<Rightarrow> Inr (\<lparr>rr_matcher = rm, rr_columns = set (rd_columns r)\<rparr> # rules)))"

definition CompileACL :: "(string \<Rightarrow> float64 option) \<Rightarrow> mcp_api_key \<Rightarrow> acl_error + acl" where
  "CompileACL pf key =
     (if mk_tables key = [] then Inl (TablesRequired (mk_name key))
      else case routing_Compile pf \<lparr>mt_tables = mk_tables key, mt_operations = [], mt_where = []\<rparr> of
             Inl e \<Rightarrow> Inl (BadTables (mk_name key) e)
           | Inr m \<Rightarrow>
               (case compile_rules pf (mk_name key) 0 (mk_redact key) of
                  Inl e \<Rightarrow> Inl e
                | Inr rules \<Rightarrow> Inr \<lparr>ac_name = mk_name key, ac_matcher = m, ac_allowAllTables = (mk_tables key = [''*'']), ac_rules = rules\<rparr>))"

definition mcp_splitQualified :: "string \<Rightarrow> string \<times> string" where
  "mcp_splitQualified name =
     (let r = takeWhile (\<lambda>c. c \<noteq> CHR ''.'') (rev name)
      in if length r = length name then ([], name) else (take (length name - length r - 1) name, rev r))"

text \<open>The event a table name is probed with; it has no row, so the row filter is not evaluated on anything.\<close>

definition probe :: "string \<Rightarrow> change_event" where
  "probe qualified =
     (let (schema, table) = mcp_splitQualified qualified
      in \<lparr>ev_id = [], ev_idempotency_key = [], ev_timestamp = 0, ev_source = [], ev_operation = OpRead, ev_database = [], ev_schema = schema,
          ev_table = table, ev_key = None, ev_before = None, ev_after = None, ev_metadata = [], ev_ai_context = None\<rparr>)"

text \<open>What the evaluation of rules and the masking use of the library.\<close>

record codec =
  cd_convs :: convs
  cd_row :: row_decoder
  cd_decode :: "string \<Rightarrow> json option"
  cd_encode :: "json \<Rightarrow> string option"

definition AllowTable :: "codec \<Rightarrow> acl \<Rightarrow> string \<Rightarrow> bool" where
  "AllowTable cd a qualified \<longleftrightarrow>
     (if ac_allowAllTables a then True else matcher_Match (cd_convs cd) (cd_row cd) (ac_matcher a) (probe qualified) = Inr True)"

definition FilterTables :: "codec \<Rightarrow> acl \<Rightarrow> string list \<Rightarrow> string list" where
  "FilterTables cd a tables = filter (AllowTable cd a) tables"

definition columnsFor :: "codec \<Rightarrow> acl \<Rightarrow> string \<Rightarrow> string set" where
  "columnsFor cd a qualified =
     \<Union> (set (map rr_columns (filter (\<lambda>r. matcher_Match (cd_convs cd) (cd_row cd) (rr_matcher r) (probe qualified) = Inr True) (ac_rules a))))"

definition IsColumnRedacted :: "codec \<Rightarrow> acl \<Rightarrow> string \<Rightarrow> string \<Rightarrow> bool" where
  "IsColumnRedacted cd a qualified column \<longleftrightarrow> column \<in> columnsFor cd a qualified"

definition redactedValue :: json where
  "redactedValue = JStr ''***''"

definition mask_object :: "string set \<Rightarrow> (string, json) gomap \<Rightarrow> (string, json) gomap" where
  "mask_object cols m = map (\<lambda>(k, v). (k, if k \<in> cols then redactedValue else v)) m"

definition maskColumns :: "codec \<Rightarrow> raw_message \<Rightarrow> string set \<Rightarrow> raw_message" where
  "maskColumns cd raw cols =
     (case raw of
        None \<Rightarrow> None
      | Some r \<Rightarrow>
          if cols = {} then raw
          else case cd_decode cd r of
                 Some (JObj m) \<Rightarrow>
                   if list_ex (\<lambda>(k, v). k \<in> cols) m
                   then (case cd_encode cd (JObj (mask_object cols m)) of
                           None \<Rightarrow> raw
                         | Some out \<Rightarrow> Some out)
                   else raw
               | _ \<Rightarrow> raw)"

definition acl_Apply :: "codec \<Rightarrow> acl \<Rightarrow> change_event \<Rightarrow> change_event option" where
  "acl_Apply cd a ev =
     (let qualified = qualifiedName (ev_schema ev) (ev_table ev); cols = columnsFor cd a qualified
      in if \<not> AllowTable cd a qualified then None
         else if cols = {} then Some ev
         else Some (ev\<lparr>ev_before := maskColumns cd (ev_before ev) cols, ev_after := maskColumns cd (ev_after ev) cols, ev_ai_context := None\<rparr>))"

section \<open>What a key sees\<close>

text \<open>The configuration read directly: a pattern of the key covers the table; the columns of the blocks that cover it.\<close>

definition covers :: "string list \<Rightarrow> string \<Rightarrow> bool" where
  "covers patterns name \<longleftrightarrow> patterns = [] \<or> list_ex (\<lambda>p. glob_reads p name) patterns"

definition masked :: "mcp_api_key \<Rightarrow> string \<Rightarrow> string set" where
  "masked key name = \<Union> {set (rd_columns r) |r. r \<in> set (mk_redact key) \<and> covers (rd_tables r) name}"

lemma split_join:
  assumes "mcp_splitQualified name = (s, t)" "take 1 name \<noteq> ''.''"
  shows "qualifiedName s t = name"
proof -
  obtain r d where r: "r = takeWhile (\<lambda>c. c \<noteq> CHR ''.'') (rev name)" and d: "d = dropWhile (\<lambda>c. c \<noteq> CHR ''.'') (rev name)" by blast
  from r d have rn: "rev name = r @ d" by simp
  have sp: "(s, t) = (if length r = length name then ([], name) else (take (length name - length r - 1) name, rev r))"
    using assms(1) by (simp add: mcp_splitQualified_def r [symmetric])
  show ?thesis
  proof (cases d)
    case Nil
    with rn have "length r = length name" by (metis append.right_neutral length_rev)
    with sp show ?thesis by (simp add: qualifiedName_def)
  next
    case (Cons x e)
    with d have "x = CHR ''.''" by (metis (mono_tags, lifting) dropWhile_eq_Cons_conv)
    with rn Cons have n: "name = rev e @ ''.'' @ rev r" by (metis append.assoc append_Cons append_Nil rev.simps(2) rev_append rev_rev_ident)
    with sp have st: "s = rev e" "t = rev r" by simp_all
    from assms(2) n have "e \<noteq> []" by auto
    with st n show ?thesis by (simp add: qualifiedName_def)
  qed
qed

lemma probe_match:
  assumes "routing_Compile pf \<lparr>mt_tables = tables, mt_operations = [], mt_where = []\<rparr> = Inr m" "take 1 name \<noteq> ''.''"
  shows "matcher_Match cv row m (probe name) = Inr (covers tables name)"
proof -
  have "ParseRowFilter pf (mt_where \<lparr>mt_tables = tables, mt_operations = [], mt_where = []\<rparr>) = Inr None"
    by simp
  from matcher_spec [OF assms(1) this] have "matcher_Match cv row m (probe name) =
      (if tables = [] \<or> list_ex (\<lambda>p. glob_reads p (qualifiedName (ev_schema (probe name)) (ev_table (probe name)))) tables
       then Match cv row None (probe name) else Inr False)"
    by (simp add: probe_def split: prod.split)
  moreover have "qualifiedName (ev_schema (probe name)) (ev_table (probe name)) = name"
    using split_join [of name] assms(2) by (auto simp: probe_def split: prod.split)
  ultimately show ?thesis by (auto simp: Match_def covers_def)
qed

lemma glob_reads_star: "glob_reads ''*'' name"
proof -
  have "''*'' = [] @ ''*'' @ []" "name = [] @ name @ []" by simp_all
  then show ?thesis unfolding glob_reads_def by (metis append_Nil empty_iff empty_set list.set_intros(1))
qed

lemma AllowTable_iff:
  assumes "CompileACL pf key = Inr a" "take 1 name \<noteq> ''.''"
  shows "AllowTable cd a name \<longleftrightarrow> covers (mk_tables key) name"
proof -
  from assms(1) obtain m where m: "routing_Compile pf \<lparr>mt_tables = mk_tables key, mt_operations = [], mt_where = []\<rparr> = Inr m"
      "ac_matcher a = m" "ac_allowAllTables a \<longleftrightarrow> mk_tables key = [''*'']"
    by (auto simp: CompileACL_def split: if_splits sum.splits)
  show ?thesis using probe_match [OF m(1) assms(2)] m(2,3) glob_reads_star by (auto simp: AllowTable_def covers_def)
qed

lemma compile_rules_columns:
  assumes "compile_rules pf kn i rs = Inr rules" "take 1 name \<noteq> ''.''"
  shows "\<Union> (set (map rr_columns (filter (\<lambda>r. matcher_Match cv row (rr_matcher r) (probe name) = Inr True) rules))) =
    \<Union> {set (rd_columns r) |r. r \<in> set rs \<and> covers (rd_tables r) name}"
  using assms(1)
proof (induction pf kn i rs arbitrary: rules rule: compile_rules.induct)
  case (2 pf kn i r rs)
  have split: "\<Union> {set (rd_columns x) |x. x \<in> set (r # rs) \<and> covers (rd_tables x) name} =
      (if covers (rd_tables r) name then set (rd_columns r) else {}) \<union> \<Union> {set (rd_columns x) |x. x \<in> set rs \<and> covers (rd_tables x) name}"
    by auto
  show ?case
  proof (cases "rd_columns r = []")
    case True
    with 2 show ?thesis unfolding split by simp
  next
    case False
    with 2(3) obtain rm rest where m: "routing_Compile pf \<lparr>mt_tables = rd_tables r, mt_operations = [], mt_where = []\<rparr> = Inr rm"
        "compile_rules pf kn (Suc i) rs = Inr rest" "rules = \<lparr>rr_matcher = rm, rr_columns = set (rd_columns r)\<rparr> # rest"
      by (auto split: sum.splits)
    from 2(2) [OF False m(1,2)] probe_match [OF m(1) assms(2), of cv row] m(3) show ?thesis unfolding split by simp
  qed
qed simp

lemma columnsFor_eq:
  assumes "CompileACL pf key = Inr a" "take 1 name \<noteq> ''.''"
  shows "columnsFor cd a name = masked key name"
proof -
  from assms(1) obtain rules where "compile_rules pf (mk_name key) 0 (mk_redact key) = Inr rules" "ac_rules a = rules"
    by (auto simp: CompileACL_def split: if_splits sum.splits)
  with compile_rules_columns [OF _ assms(2)] show ?thesis by (simp add: columnsFor_def masked_def)
qed

text \<open>JSON: the masked object of a row encodes, and decodes to itself.\<close>

definition codec_ok :: "codec \<Rightarrow> string set \<Rightarrow> raw_message \<Rightarrow> bool" where
  "codec_ok cd cols raw \<longleftrightarrow>
     (case raw of
        None \<Rightarrow> True
      | Some r \<Rightarrow>
          (case cd_decode cd r of
             Some (JObj m) \<Rightarrow>
               (case cd_encode cd (JObj (mask_object cols m)) of
                  Some s \<Rightarrow> cd_decode cd s = Some (JObj (mask_object cols m))
                | None \<Rightarrow> False)
           | _ \<Rightarrow> True))"

text \<open>\<open>side_masked\<close>: of the object in a row side only the given columns were changed, to the mask.\<close>

definition side_masked :: "codec \<Rightarrow> string set \<Rightarrow> raw_message \<Rightarrow> raw_message \<Rightarrow> bool" where
  "side_masked cd cols raw out \<longleftrightarrow>
     (\<forall>r m. raw = Some r \<longrightarrow> cd_decode cd r = Some (JObj m) \<longrightarrow>
        (\<exists>r' m'. out = Some r' \<and> cd_decode cd r' = Some (JObj m') \<and>
           (\<forall>c. gm_get m' c = (if c \<in> cols then map_option (\<lambda>_. redactedValue) (gm_get m c) else gm_get m c))))"

lemma gm_get_mask: "gm_get (mask_object cols m) c = (if c \<in> cols then map_option (\<lambda>_. redactedValue) (gm_get m c) else gm_get m c)"
  unfolding mask_object_def by (induction m) auto

lemma maskColumns_masks:
  assumes "codec_ok cd cols raw"
  shows "side_masked cd cols raw (maskColumns cd raw cols)"
  unfolding side_masked_def
proof (intro allI impI)
  fix r m
  assume r: "raw = Some r" "cd_decode cd r = Some (JObj m)"
  show "\<exists>r' m'. maskColumns cd raw cols = Some r' \<and> cd_decode cd r' = Some (JObj m') \<and>
      (\<forall>c. gm_get m' c = (if c \<in> cols then map_option (\<lambda>_. redactedValue) (gm_get m c) else gm_get m c))"
  proof (cases "list_ex (\<lambda>(k, v). k \<in> cols) m")
    case True
    let ?m = "mask_object cols m"
    from assms r obtain s where "cd_encode cd (JObj ?m) = Some s" "cd_decode cd s = Some (JObj ?m)"
      by (auto simp: codec_ok_def split: option.splits)
    moreover from True have "cols \<noteq> {}" by (auto simp: list_ex_iff)
    ultimately show ?thesis using r True gm_get_mask [of cols m] by (auto simp: maskColumns_def intro!: exI [of _ s] exI [of _ ?m])
  next
    case False
    then have "gm_get m c = None" if "c \<in> cols" for c using that by (induction m) auto
    with r False show ?thesis by (auto simp: maskColumns_def)
  qed
qed

text \<open>\<open>seen_as\<close>: what a key that masks \<open>cols\<close> receives of an event.\<close>

definition seen_as :: "codec \<Rightarrow> string set \<Rightarrow> change_event \<Rightarrow> change_event \<Rightarrow> bool" where
  "seen_as cd cols ev out \<longleftrightarrow>
     side_masked cd cols (ev_before ev) (ev_before out) \<and> side_masked cd cols (ev_after ev) (ev_after out) \<and>
     out = ev\<lparr>ev_before := ev_before out, ev_after := ev_after out, ev_ai_context := if cols = {} then ev_ai_context ev else None\<rparr>"

lemma Apply_seen:
  fixes cols
  assumes "codec_ok cd cols (ev_before ev)" "codec_ok cd cols (ev_after ev)"
    and q: "q = qualifiedName (ev_schema ev) (ev_table ev)" and cols: "cols = columnsFor cd a q"
  shows "case acl_Apply cd a ev of None \<Rightarrow> \<not> AllowTable cd a q | Some out \<Rightarrow> AllowTable cd a q \<and> seen_as cd cols ev out"
proof -
  have "side_masked cd {} raw raw" for raw by (auto simp: side_masked_def)
  with maskColumns_masks [OF assms(1)] maskColumns_masks [OF assms(2)] show ?thesis
    by (auto simp: acl_Apply_def Let_def seen_as_def q [symmetric] cols [symmetric])
qed


text \<open>The list of tables a key is shown is what its patterns cover.\<close>

lemma FilterTables_covered:
  assumes "CompileACL pf key = Inr a" "list_all (\<lambda>t. take 1 t \<noteq> ''.'') tables"
  shows "FilterTables cd a tables = filter (covers (mk_tables key)) tables"
  using assms(2) AllowTable_iff [OF assms(1)] by (induction tables) (auto simp: FilterTables_def)

section \<open>A key that may not read a column\<close>

definition ex_key :: mcp_api_key where
  "ex_key = \<lparr>mk_name = ''bot'', mk_key = ''k1'', mk_tables = [''public.orders''], mk_redact = [\<lparr>rd_tables = [], rd_columns = [''email'']\<rparr>]\<rparr>"

definition ex_acl :: acl where
  "ex_acl = \<lparr>ac_name = ''bot'',
     ac_matcher = \<lparr>ma_tables = [no_glob\<lparr>tg_exact := ''public.orders''\<rparr>], ma_matchAll = False, ma_ops = opAll, ma_rowFilter = None\<rparr>,
     ac_allowAllTables = False,
     ac_rules = [\<lparr>rr_matcher = \<lparr>ma_tables = [], ma_matchAll = True, ma_ops = opAll, ma_rowFilter = None\<rparr>, rr_columns = {''email''}\<rparr>]\<rparr>"

definition ex_row :: "(string, json) gomap" where
  "ex_row = [(''email'', JStr ''a@b''), (''paid'', JBool True)]"

text \<open>A codec for two texts; the primary key of the table is the masked column.\<close>

definition ex_codec :: codec where
  "ex_codec = \<lparr>cd_convs = \<lparr>cv_parse = \<lambda>_. None, cv_format = \<lambda>_. [], cv_sprint = \<lambda>_. []\<rparr>, cd_row = \<lambda>_. None,
     cd_decode = \<lambda>s. if s = ''row'' then Some (JObj ex_row) else if s = ''hidden'' then Some (JObj (mask_object {''email''} ex_row)) else None,
     cd_encode = \<lambda>j. if j = JObj (mask_object {''email''} ex_row) then Some ''hidden'' else None\<rparr>"

definition ex_order_update :: change_event where
  "ex_order_update = ex_order_read\<lparr>ev_operation := OpUpdate, ev_key := Some ''a@b'', ev_after := Some ''row'', ev_ai_context := Some ''about a@b''\<rparr>"

lemmas ex_acl_defs = ex_key_def ex_acl_def ex_codec_def ex_order_update_def ex_order_read_def

lemma ex_acl_compiles: "CompileACL (\<lambda>_. None) ex_key = Inr ex_acl"
  by (simp add: CompileACL_def routing_Compile_def compileTableGlob_def ex_key_def ex_acl_def no_glob_def)

lemma ex_masked: "masked ex_key q = {''email''}"
  by (simp add: masked_def covers_def ex_key_def)

lemma ex_codec_ok: "codec_ok ex_codec {''email''} (ev_before ex_order_update)" "codec_ok ex_codec {''email''} (ev_after ex_order_update)"
  by (simp_all add: codec_ok_def ex_acl_defs)

lemma ex_apply: "acl_Apply ex_codec ex_acl ex_order_update = Some (ex_order_update\<lparr>ev_after := Some ''hidden'', ev_ai_context := None\<rparr>)"
proof -
  have q: "qualifiedName (ev_schema ex_order_update) (ev_table ex_order_update) = ''public.orders''" by (simp add: ex_acl_defs qualifiedName_def)
  have "columnsFor ex_codec ex_acl ''public.orders'' = {''email''}"
    using columnsFor_eq [OF ex_acl_compiles] by (simp add: ex_masked)
  moreover have "AllowTable ex_codec ex_acl ''public.orders''"
    using AllowTable_iff [OF ex_acl_compiles] by (simp add: covers_def ex_key_def glob_reads_def)
  ultimately show ?thesis unfolding acl_Apply_def q Let_def by (simp add: ex_acl_defs maskColumns_def ex_row_def)
qed


text \<open>
  Masking stops at the row sides: the key of the event, which repeats the primary key columns, is passed on unmasked
  even where those columns are masked.
\<close>

lemma masked_key_leaks:
  "''email'' \<in> masked ex_key ''public.orders'' \<and> map_option ev_key (acl_Apply ex_codec ex_acl ex_order_update) = Some (Some ''a@b'')"
  by (simp add: ex_masked ex_apply) (simp add: ex_acl_defs)

end
