(* ===== verification/Mcp_Ring.thy ===== *)
theory Mcp_Ring
  imports Mcp_Acl
begin

text \<open>
  The bounded buffers of the MCP server: the ring of a subscription (\<open>ringBuffer\<close> in
  \<open>internal/mcp/subscription.go\<close>) and the index of recent events (\<open>internal/mcp/recent.go\<close>). Both are shown to be
  bounded first-in first-out queues that forget their oldest entry.
\<close>

section \<open>The ring of a subscription\<close>

record 'a ringBuffer =
  rb_slots :: "'a option list"
  rb_start :: nat
  rb_length :: nat
  rb_dropped :: nat

definition DefaultRingSize :: int where "DefaultRingSize = 1024"

definition newRingBuffer :: "int \<Rightarrow> 'a ringBuffer" where
  "newRingBuffer cap0 =
     (let cap = (if cap0 < 1 then DefaultRingSize else cap0)
      in \<lparr>rb_slots = replicate (nat cap) None, rb_start = 0, rb_length = 0, rb_dropped = 0\<rparr>)"

definition ring_push :: "'a \<Rightarrow> 'a ringBuffer \<Rightarrow> bool \<times> 'a ringBuffer" where
  "ring_push ev r0 =
     (let evicted = (rb_length r0 = length (rb_slots r0));
          r = (if evicted
               then r0\<lparr>rb_slots := (rb_slots r0)[rb_start r0 := None], rb_start := (rb_start r0 + 1) mod length (rb_slots r0),
                       rb_length := rb_length r0 - 1, rb_dropped := rb_dropped r0 + 1\<rparr>
               else r0)
      in (evicted, r\<lparr>rb_slots := (rb_slots r)[(rb_start r + rb_length r) mod length (rb_slots r) := Some ev], rb_length := rb_length r + 1\<rparr>))"

fun drain_slots :: "nat \<Rightarrow> 'a ringBuffer \<Rightarrow> 'a option list \<times> 'a ringBuffer" where
  "drain_slots 0 r = ([], r)"
| "drain_slots (Suc n) r =
     (let ev = rb_slots r ! rb_start r;
          (evs, r') = drain_slots n (r\<lparr>rb_slots := (rb_slots r)[rb_start r := None],
             rb_start := (rb_start r + 1) mod length (rb_slots r), rb_length := rb_length r - 1\<rparr>)
      in (ev # evs, r'))"

definition ring_drain :: "int \<Rightarrow> 'a ringBuffer \<Rightarrow> ('a option list \<times> nat \<times> nat) \<times> 'a ringBuffer" where
  "ring_drain max0 r =
     (let dropped = rb_dropped r; n = min (nat max0) (rb_length r);
          (evs, r') = drain_slots n (r\<lparr>rb_dropped := 0\<rparr>)
      in ((evs, dropped, rb_length r'), r'))"

section \<open>The index of recent events\<close>

definition DefaultRecentIndexSize :: int where "DefaultRecentIndexSize = 10000"

record recentIndex =
  ri_cap :: nat
  ri_slots :: "string list"
  ri_start :: nat
  ri_length :: nat
  ri_byID :: "(string, change_event) gomap"

definition newRecentIndex :: "int \<Rightarrow> recentIndex" where
  "newRecentIndex capacity0 =
     (let capacity = nat (if capacity0 < 1 then DefaultRecentIndexSize else capacity0)
      in \<lparr>ri_cap = capacity, ri_slots = replicate capacity [], ri_start = 0, ri_length = 0, ri_byID = []\<rparr>)"

definition zero_ulid :: string where
  "zero_ulid = replicate 26 (CHR ''0'')"

definition recent_put :: "change_event \<Rightarrow> recentIndex \<Rightarrow> recentIndex" where
  "recent_put ev idx =
     (let eid = ev_id ev
      in if eid = [] \<or> eid = zero_ulid then idx
         else if gm_get (ri_byID idx) eid \<noteq> None then idx\<lparr>ri_byID := gm_set eid ev (ri_byID idx)\<rparr>
         else let i1 = (if ri_length idx = ri_cap idx
                        then idx\<lparr>ri_byID := gm_del (ri_slots idx ! ri_start idx) (ri_byID idx),
                                 ri_slots := (ri_slots idx)[ri_start idx := []],
                                 ri_start := (ri_start idx + 1) mod ri_cap idx, ri_length := ri_length idx - 1\<rparr>
                        else idx)
              in i1\<lparr>ri_slots := (ri_slots i1)[(ri_start i1 + ri_length i1) mod ri_cap i1 := eid],
                    ri_byID := gm_set eid ev (ri_byID i1), ri_length := ri_length i1 + 1\<rparr>)"

definition recent_get :: "string \<Rightarrow> recentIndex \<Rightarrow> change_event option" where
  "recent_get eid idx = gm_get (ri_byID idx) eid"

definition recent_clear :: "recentIndex \<Rightarrow> recentIndex" where
  "recent_clear idx = \<lparr>ri_cap = ri_cap idx, ri_slots = replicate (ri_cap idx) [], ri_start = 0, ri_length = 0, ri_byID = []\<rparr>"

text \<open>\<open>recentConsumer.Deliver\<close>: an entry that cannot be decoded is skipped, and no error is returned.\<close>

definition recent_Deliver :: "(string \<Rightarrow> change_event option) \<Rightarrow> log_entry \<Rightarrow> recentIndex \<Rightarrow> recentIndex" where
  "recent_Deliver unmarshal entry idx =
     (case MaterializeEvent unmarshal entry of
        Inl e \<Rightarrow> idx
      | Inr entry' \<Rightarrow> (case le_event entry' of None \<Rightarrow> idx | Some ev \<Rightarrow> recent_put ev idx))"

section \<open>Circular windows\<close>

text \<open>The \<open>n\<close> slots from \<open>i\<close> on, around the end of the array.\<close>

definition window :: "'a list \<Rightarrow> nat \<Rightarrow> nat \<Rightarrow> 'a list" where
  "window xs i n = map (\<lambda>k. xs ! ((i + k) mod length xs)) [0..<n]"

lemma length_window [simp]: "length (window xs i n) = n"
  by (simp add: window_def)

lemma window_zero [simp]: "window xs i 0 = []"
  by (simp add: window_def)

lemma circular_distinct:
  assumes "a < (c :: nat)" "b < c" "(i + a) mod c = (i + b) mod c"
  shows "a = b"
proof -
  have *: "x = y" if "x \<le> y" "y < c" "(i + x) mod c = (i + y) mod c" for x y
  proof -
    from that have "c dvd (i + y) - (i + x)" using mod_eq_dvd_iff_nat [of "i + x" "i + y" c] by simp
    with that show ?thesis by (auto dest: dvd_imp_le)
  qed
  from assms show ?thesis using * [of a b] * [of b a] by linarith
qed

lemma window_write:
  assumes "n < length xs"
  shows "window (xs[(i + n) mod length xs := x]) i (Suc n) = window xs i n @ [x]"
proof -
  from assms have "0 < length xs" by linarith
  then have "(i + n) mod length xs < length xs" by simp
  moreover have "(i + n) mod length xs \<noteq> (i + k) mod length xs" if "k < n" for k
    using that assms circular_distinct [of k "length xs" n i] by fastforce
  ultimately show ?thesis by (simp add: window_def nth_list_update)
qed

lemma window_Suc: "i < length xs \<Longrightarrow> window xs i (Suc n) = xs ! i # window xs ((i + 1) mod length xs) n"
proof -
  assume "i < length xs"
  have "[0..<Suc n] = 0 # map Suc [0..<n]" by (simp add: map_Suc_upt upt_conv_Cons)
  moreover have "(i + Suc k) mod length xs = ((i + 1) mod length xs + k) mod length xs" for k by (simp add: mod_add_left_eq)
  ultimately show ?thesis using \<open>i < length xs\<close> by (simp add: window_def comp_def)
qed

lemma window_erase:
  assumes "i < length xs" "n < length xs"
  shows "window (xs[i := z]) ((i + 1) mod length xs) n = window xs ((i + 1) mod length xs) n"
proof -
  from assms(1) have "xs \<noteq> []" by auto
  then have "i \<noteq> ((i + 1) mod length xs + k) mod length xs" if "k < n" for k
    using that assms circular_distinct [of "Suc k" "length xs" 0 i] by (auto simp: mod_simps)
  then show ?thesis by (auto simp: window_def)
qed

lemma window_pop:
  assumes "i < length xs" "n \<le> length xs" "n > 0"
  shows "window (xs[i := z]) ((i + 1) mod length xs) (n - 1) = tl (window xs i n)" "hd (window xs i n) = xs ! i"
  using assms window_Suc [of i xs "n - 1"] window_erase [of i xs "n - 1" z] by simp_all

section \<open>Bounded queues\<close>

definition keep_last :: "nat \<Rightarrow> 'a list \<Rightarrow> 'a list" where
  "keep_last n xs = drop (length xs - n) xs"

lemma keep_last_short [simp]: "length xs \<le> n \<Longrightarrow> keep_last n xs = xs"
  by (simp add: keep_last_def)

lemma length_keep_last [simp]: "length (keep_last n xs) = min n (length xs)"
  by (simp add: keep_last_def)

lemma keep_last_snoc: "keep_last n (keep_last n xs @ [x]) = keep_last n (xs @ [x])"
  by (cases "length xs \<le> n") (auto simp: keep_last_def Suc_diff_le)

lemma keep_last_full: "length xs = n \<Longrightarrow> n > 0 \<Longrightarrow> keep_last n (xs @ [x]) = tl xs @ [x]"
  by (cases xs) (auto simp: keep_last_def)

text \<open>\<open>offer\<close>: what a bounded queue does with an element, unless it skips it.\<close>

definition offer :: "('a list \<Rightarrow> 'a \<Rightarrow> bool) \<Rightarrow> nat \<Rightarrow> 'a \<Rightarrow> 'a list \<Rightarrow> 'a list" where
  "offer skip n x q = (if skip q x then q else keep_last n (q @ [x]))"

lemma offers_all: "length q \<le> n \<Longrightarrow> fold (offer (\<lambda>_ _. False) n) xs q = keep_last n (q @ xs)"
proof (induction xs rule: rev_induct)
  case (snoc x xs)
  then show ?case using keep_last_snoc [of n "q @ xs" x] by (simp add: offer_def)
qed simp

locale bounded_queue =
  fixes ok :: "'s \<Rightarrow> bool" and cap :: "'s \<Rightarrow> nat" and queue :: "'s \<Rightarrow> 'q list" and push :: "'x \<Rightarrow> 's \<Rightarrow> 's"
    and key :: "'x \<Rightarrow> 'q" and skip :: "'q list \<Rightarrow> 'q \<Rightarrow> bool"
  assumes push_ok: "ok s \<Longrightarrow> ok (push x s)"
    and push_cap: "ok s \<Longrightarrow> cap (push x s) = cap s"
    and push_queue: "ok s \<Longrightarrow> queue (push x s) = offer skip (cap s) (key x) (queue s)"
    and queue_bound: "ok s \<Longrightarrow> length (queue s) \<le> cap s"
begin

lemma pushes: "ok s \<Longrightarrow> ok (fold push xs s) \<and> cap (fold push xs s) = cap s \<and> queue (fold push xs s) = fold (offer skip (cap s)) (map key xs) (queue s)"
  by (induction xs arbitrary: s) (simp_all add: push_ok push_cap push_queue)

lemma pushes_bounded: "ok s \<Longrightarrow> length (queue (fold push xs s)) \<le> cap s"
  using pushes [of s xs] queue_bound by metis

end

subsection \<open>The ring\<close>

definition ring_ok :: "'a ringBuffer \<Rightarrow> bool" where
  "ring_ok r \<longleftrightarrow> rb_start r < length (rb_slots r) \<and> rb_length r \<le> length (rb_slots r) \<and> None \<notin> set (window (rb_slots r) (rb_start r) (rb_length r))"

definition ring_queue :: "'a ringBuffer \<Rightarrow> 'a list" where
  "ring_queue r = map the (window (rb_slots r) (rb_start r) (rb_length r))"

definition ring_cap :: "'a ringBuffer \<Rightarrow> nat" where
  "ring_cap r = length (rb_slots r)"

lemma newRing_ok: "ring_ok (newRingBuffer n)" "ring_queue (newRingBuffer n) = []" "rb_dropped (newRingBuffer n) = 0"
  "ring_cap (newRingBuffer n) = nat (if n < 1 then DefaultRingSize else n)"
  by (auto simp: newRingBuffer_def ring_ok_def ring_queue_def ring_cap_def Let_def DefaultRingSize_def)

lemma tl_window_mem: "x \<in> set (tl (window xs i n)) \<Longrightarrow> x \<in> set (window xs i n)"
  by (cases "window xs i n") auto

lemma ring_push_spec:
  assumes "ring_ok r"
  shows "ring_ok (snd (ring_push ev r))" "ring_cap (snd (ring_push ev r)) = ring_cap r"
    "ring_queue (snd (ring_push ev r)) = keep_last (ring_cap r) (ring_queue r @ [ev])"
    "rb_dropped (snd (ring_push ev r)) = rb_dropped r + (if fst (ring_push ev r) then 1 else 0)"
    "fst (ring_push ev r) \<longleftrightarrow> length (ring_queue r) = ring_cap r"
proof -
  let ?xs = "rb_slots r" and ?i = "rb_start r" and ?n = "rb_length r"
  from assms have h: "?i < length ?xs" "?n \<le> length ?xs" "None \<notin> set (window ?xs ?i ?n)" by (auto simp: ring_ok_def)
  then have pos: "0 < length ?xs" by linarith
  show "rb_dropped (snd (ring_push ev r)) = rb_dropped r + (if fst (ring_push ev r) then 1 else 0)" by (simp add: ring_push_def Let_def)
  show "fst (ring_push ev r) \<longleftrightarrow> length (ring_queue r) = ring_cap r" by (simp add: ring_push_def Let_def ring_queue_def ring_cap_def)
  show "ring_cap (snd (ring_push ev r)) = ring_cap r" by (simp add: ring_push_def Let_def ring_cap_def)
  have "ring_ok (snd (ring_push ev r)) \<and> ring_queue (snd (ring_push ev r)) = keep_last (ring_cap r) (ring_queue r @ [ev])"
  proof (cases "?n = length ?xs")
    case True
    let ?ys = "?xs[?i := None]" and ?j = "(?i + 1) mod length ?xs"
    have w: "window (?ys[(?j + (?n - 1)) mod length ?xs := Some ev]) ?j ?n = tl (window ?xs ?i ?n) @ [Some ev]"
      using window_write [of "?n - 1" ?ys ?j "Some ev"] window_pop(1) [of ?i ?xs ?n None] h pos True by simp
    from True pos h have r': "snd (ring_push ev r) = r\<lparr>rb_slots := ?ys[(?j + (?n - 1)) mod length ?xs := Some ev], rb_start := ?j, rb_length := ?n, rb_dropped := rb_dropped r + 1\<rparr>"
      by (simp add: ring_push_def Let_def)
    have "keep_last (ring_cap r) (ring_queue r @ [ev]) = tl (ring_queue r) @ [ev]"
      by (rule keep_last_full) (use True pos in \<open>simp_all add: ring_queue_def ring_cap_def\<close>)
    then show ?thesis using h pos True w unfolding r' by (auto simp: ring_ok_def ring_queue_def map_tl dest: tl_window_mem)
  next
    case False
    with h have lt: "?n < length ?xs" by simp
    from False have r': "snd (ring_push ev r) = r\<lparr>rb_slots := ?xs[(?i + ?n) mod length ?xs := Some ev], rb_length := Suc ?n\<rparr>"
      by (simp add: ring_push_def Let_def)
    show ?thesis using h lt window_write [OF lt, of ?i "Some ev"] unfolding r' by (auto simp: ring_ok_def ring_queue_def ring_cap_def)
  qed
  then show "ring_ok (snd (ring_push ev r))" "ring_queue (snd (ring_push ev r)) = keep_last (ring_cap r) (ring_queue r @ [ev])" by simp_all
qed

interpretation ring: bounded_queue ring_ok ring_cap ring_queue "\<lambda>ev r. snd (ring_push ev r)" "\<lambda>x. x" "\<lambda>_ _. False"
  by unfold_locales (simp_all add: ring_push_spec offer_def, simp add: ring_queue_def ring_cap_def ring_ok_def)

lemma drain_slots_spec:
  assumes "ring_ok r" "n \<le> rb_length r"
  shows "case drain_slots n r of (evs, r') \<Rightarrow>
     evs = map Some (take n (ring_queue r)) \<and> ring_ok r' \<and> ring_queue r' = drop n (ring_queue r) \<and> ring_cap r' = ring_cap r \<and> rb_dropped r' = rb_dropped r"
  using assms
proof (induction n arbitrary: r)
  case (Suc n)
  let ?xs = "rb_slots r" and ?i = "rb_start r" and ?n = "rb_length r"
  let ?r = "r\<lparr>rb_slots := ?xs[?i := None], rb_start := (?i + 1) mod length ?xs, rb_length := ?n - 1\<rparr>"
  from Suc.prems have h: "?i < length ?xs" "?n \<le> length ?xs" "None \<notin> set (window ?xs ?i ?n)" "0 < ?n" by (auto simp: ring_ok_def)
  note pop = window_pop [OF h(1,2,4)]
  from h(4) obtain w ws where w: "window ?xs ?i ?n = w # ws" by (metis length_window length_greater_0_conv neq_Nil_conv)
  have "Suc ?i mod length ?xs < length ?xs" using h(1) by (intro mod_less_divisor) linarith
  then have ok: "ring_ok ?r" using h pop(1) [of None] w by (auto simp: ring_ok_def)
  have q: "ring_queue r = the w # ring_queue ?r" "?xs ! ?i = Some (the w)" using pop(1) [of None] pop(2) w h(3) by (auto simp: ring_queue_def)
  from Suc.IH [OF ok] Suc.prems(2) q show ?case by (auto simp: ring_cap_def split: prod.splits)
qed simp

lemma ring_drain_spec:
  assumes "ring_ok r" "ring_drain mx r = ((evs, dropped, remaining), r')"
  shows "evs = map Some (take (nat mx) (ring_queue r)) \<and> dropped = rb_dropped r \<and> remaining = length (ring_queue r') \<and>
    ring_ok r' \<and> ring_queue r' = drop (nat mx) (ring_queue r) \<and> ring_cap r' = ring_cap r \<and> rb_dropped r' = 0"
proof -
  let ?r = "r\<lparr>rb_dropped := 0\<rparr>" and ?n = "min (nat mx) (rb_length r)"
  have r: "ring_ok ?r" "ring_queue ?r = ring_queue r" "ring_cap ?r = ring_cap r" "length (ring_queue r) = rb_length r"
    using assms(1) by (auto simp: ring_ok_def ring_queue_def ring_cap_def)
  from assms(2) have d: "drain_slots ?n ?r = (evs, r')" "dropped = rb_dropped r" "remaining = rb_length r'"
    by (auto simp: ring_drain_def Let_def split: prod.splits)
  from drain_slots_spec [OF r(1), of ?n] d(1) have "evs = map Some (take ?n (ring_queue r)) \<and> ring_ok r' \<and> ring_queue r' = drop ?n (ring_queue r) \<and> ring_cap r' = ring_cap r \<and> rb_dropped r' = 0"
    by (simp add: r)
  moreover have "take ?n (ring_queue r) = take (nat mx) (ring_queue r)" "drop ?n (ring_queue r) = drop (nat mx) (ring_queue r)" using r(4) by (simp_all add: min_def)
  moreover have "length (ring_queue r') = rb_length r'" by (simp add: ring_queue_def)
  ultimately show ?thesis using d by simp
qed

subsection \<open>The index\<close>

definition recent_ids :: "recentIndex \<Rightarrow> string list" where
  "recent_ids idx = window (ri_slots idx) (ri_start idx) (ri_length idx)"

definition no_index :: "string list \<Rightarrow> string \<Rightarrow> bool" where
  "no_index q eid \<longleftrightarrow> eid = [] \<or> eid = zero_ulid \<or> eid \<in> set q"

definition recent_ok :: "recentIndex \<Rightarrow> bool" where
  "recent_ok idx \<longleftrightarrow> ri_start idx < ri_cap idx \<and> ri_length idx \<le> ri_cap idx \<and> length (ri_slots idx) = ri_cap idx \<and>
     distinct (recent_ids idx) \<and> (\<forall>eid. gm_get (ri_byID idx) eid \<noteq> None \<longleftrightarrow> eid \<in> set (recent_ids idx))"

lemma newRecent_ok: "recent_ok (newRecentIndex n)" "recent_ids (newRecentIndex n) = []"
  "ri_cap (newRecentIndex n) = nat (if n < 1 then DefaultRecentIndexSize else n)"
  by (auto simp: newRecentIndex_def recent_ok_def recent_ids_def Let_def DefaultRecentIndexSize_def)

lemma recent_clear_ok: "recent_ok idx \<Longrightarrow> recent_ok (recent_clear idx) \<and> recent_get eid (recent_clear idx) = None"
  by (auto simp: recent_clear_def recent_ok_def recent_ids_def recent_get_def)

lemma recent_put_spec:
  assumes "recent_ok idx"
  shows "recent_ok (recent_put ev idx) \<and> ri_cap (recent_put ev idx) = ri_cap idx \<and>
    recent_ids (recent_put ev idx) = offer no_index (ri_cap idx) (ev_id ev) (recent_ids idx)"
proof -
  let ?xs = "ri_slots idx" and ?i = "ri_start idx" and ?n = "ri_length idx" and ?q = "recent_ids idx" and ?e = "ev_id ev"
  from assms have h: "?i < length ?xs" "?n \<le> length ?xs" "ri_cap idx = length ?xs" "distinct ?q"
      "\<And>eid. gm_get (ri_byID idx) eid \<noteq> None \<longleftrightarrow> eid \<in> set ?q" by (auto simp: recent_ok_def)
  then have pos: "0 < length ?xs" by linarith
  consider "?e = [] \<or> ?e = zero_ulid" | "?e \<noteq> []" "?e \<noteq> zero_ulid" "?e \<in> set ?q"
    | "?e \<noteq> []" "?e \<noteq> zero_ulid" "?e \<notin> set ?q" "?n = length ?xs" | "?e \<noteq> []" "?e \<noteq> zero_ulid" "?e \<notin> set ?q" "?n < length ?xs"
    using h(2) by linarith
  then show ?thesis
  proof cases
    case 1
    then have "recent_put ev idx = idx" by (auto simp: recent_put_def Let_def)
    with 1 assms show ?thesis by (auto simp: offer_def no_index_def)
  next
    case 2
    with h(5) have "recent_put ev idx = idx\<lparr>ri_byID := gm_set ?e ev (ri_byID idx)\<rparr>" by (auto simp: recent_put_def Let_def)
    with 2 h show ?thesis by (auto simp: recent_ok_def recent_ids_def offer_def no_index_def gm_get_set)
  next
    case 3
    let ?ys = "?xs[?i := []]" and ?j = "(?i + 1) mod length ?xs"
    have w: "window (?ys[(?j + (?n - 1)) mod length ?xs := ?e]) ?j ?n = tl ?q @ [?e]"
      using window_write [of "?n - 1" ?ys ?j ?e] window_pop(1) [of ?i ?xs ?n "[]"] h pos 3 by (simp add: recent_ids_def)
    from 3(3) h(5) [of ?e] have "gm_get (ri_byID idx) ?e = None" by auto
    with 3 h(3) pos have r': "recent_put ev idx = idx\<lparr>ri_slots := ?ys[(?j + (?n - 1)) mod length ?xs := ?e], ri_start := ?j,
        ri_byID := gm_set ?e ev (gm_del (?xs ! ?i) (ri_byID idx)), ri_length := ?n\<rparr>"
      by (simp add: recent_put_def Let_def)
    from 3(4) pos obtain w ws where q: "?q = w # ws" by (metis recent_ids_def length_window length_greater_0_conv neq_Nil_conv)
    with window_pop(2) [of ?i ?xs ?n] h 3(4) pos have hd: "?xs ! ?i = w" by (simp add: recent_ids_def)
    have "keep_last (length ?xs) (?q @ [?e]) = tl ?q @ [?e]" by (rule keep_last_full) (use 3(4) pos in \<open>simp_all add: recent_ids_def\<close>)
    then show ?thesis using h pos 3 w q hd unfolding r' by (auto simp: recent_ok_def recent_ids_def offer_def no_index_def gm_get_set gm_get_del)
  next
    case 4
    from 4(3) h(5) [of ?e] have "gm_get (ri_byID idx) ?e = None" by auto
    with 4 h(3) have r': "recent_put ev idx = idx\<lparr>ri_slots := ?xs[(?i + ?n) mod length ?xs := ?e], ri_byID := gm_set ?e ev (ri_byID idx), ri_length := Suc ?n\<rparr>"
      by (simp add: recent_put_def Let_def)
    show ?thesis using h 4 window_write [OF 4(4), of ?i ?e] unfolding r' by (auto simp: recent_ok_def recent_ids_def offer_def no_index_def gm_get_set)
  qed
qed

interpretation recent: bounded_queue recent_ok ri_cap recent_ids recent_put ev_id no_index
  by unfold_locales (simp_all add: recent_put_spec, simp add: recent_ok_def recent_ids_def)

lemma recent_put_get:
  assumes "recent_ok idx" "eid \<in> set (recent_ids (recent_put ev idx))"
  shows "recent_get eid (recent_put ev idx) = (if ev_id ev = eid \<and> eid \<noteq> [] \<and> eid \<noteq> zero_ulid then Some ev else recent_get eid idx)"
proof -
  have "recent_ok (recent_put ev idx)" using assms(1) recent_put_spec by blast
  with assms(2) have "recent_get eid (recent_put ev idx) \<noteq> None" by (auto simp: recent_ok_def recent_get_def)
  then show ?thesis by (auto simp: recent_put_def Let_def recent_get_def gm_get_set gm_get_del split: if_splits)
qed

section \<open>What the buffers hold\<close>

lemma pushes_dropped:
  assumes "ring_ok r"
  shows "rb_dropped (fold (\<lambda>ev r. snd (ring_push ev r)) xs r) = rb_dropped r + (length (ring_queue r @ xs) - ring_cap r)"
  using assms
proof (induction xs arbitrary: r)
  case Nil
  then show ?case by (simp add: ring_ok_def ring_queue_def ring_cap_def)
next
  case (Cons x xs)
  have "length (ring_queue r) \<le> ring_cap r" using Cons.prems by (rule ring.queue_bound)
  then show ?case using Cons.IH [of "snd (ring_push x r)"] ring_push_spec [OF Cons.prems, of x] by auto
qed

lemma ring_fifo:
  fixes n :: int and xs :: "'a list"
  defines "c \<equiv> nat (if n < 1 then DefaultRingSize else n)"
  defines "r \<equiv> fold (\<lambda>ev r. snd (ring_push ev r)) xs (newRingBuffer n)"
  shows "ring_ok r \<and> ring_cap r = c \<and> ring_queue r = keep_last c xs \<and> rb_dropped r = length xs - c"
  using ring.pushes [OF newRing_ok(1), of xs n] pushes_dropped [OF newRing_ok(1), of xs n] newRing_ok(2-4) [of n]
  by (simp add: offers_all c_def r_def newRing_ok)

text \<open>
  The ring of a subscription is a bounded first-in first-out queue: after any events, a drain returns the oldest of
  the newest \<open>c\<close> of them, in order and without a gap, counts exactly the events that fell out, and leaves the rest.
\<close>

theorem mcp_ring_fifo:
  "case ring_drain mx (fold (\<lambda>ev r. snd (ring_push ev r)) xs (newRingBuffer n)) of
     ((evs, dropped, remaining), r') \<Rightarrow>
       let c = nat (if n < 1 then DefaultRingSize else n); q = keep_last c xs
       in evs = map Some (take (nat mx) q) \<and> dropped = length xs - c \<and> ring_queue r' = drop (nat mx) q \<and>
          remaining = length q - nat mx \<and> rb_dropped r' = 0"
  using ring_fifo [of xs n] ring_drain_spec [of "fold (\<lambda>ev r. snd (ring_push ev r)) xs (newRingBuffer n)" mx]
  by (auto simp: Let_def split: prod.splits)

lemma offers_named: "x \<in> set (fold (offer no_index c) xs q) \<Longrightarrow> x \<in> set q \<or> x \<noteq> [] \<and> x \<noteq> zero_ulid"
  by (induction xs arbitrary: q) (force simp: offer_def no_index_def keep_last_def dest: in_set_dropD split: if_splits)+

lemma recent_named: "x \<in> set (recent_ids (fold recent_put evs (newRecentIndex n))) \<Longrightarrow> x \<noteq> [] \<and> x \<noteq> zero_ulid"
  using recent.pushes [OF newRecent_ok(1), of evs n] newRecent_ok(2) [of n] offers_named by fastforce

lemma recent_window:
  fixes n :: int and evs :: "change_event list"
  defines "idx \<equiv> fold recent_put evs (newRecentIndex n)"
  shows "recent_ok idx \<and> recent_get eid idx = (if eid \<in> set (recent_ids idx) then find (\<lambda>e. ev_id e = eid) (rev evs) else None)"
  unfolding idx_def
proof (induction evs rule: rev_induct)
  case Nil
  then show ?case using newRecent_ok [of n] by (auto simp: recent_get_def recent_ok_def)
next
  case (snoc ev evs)
  let ?i = "fold recent_put evs (newRecentIndex n)"
  have ok: "recent_ok ?i" "recent_ok (recent_put ev ?i)" using snoc recent_put_spec by blast+
  have q: "recent_ids (recent_put ev ?i) = offer no_index (ri_cap ?i) (ev_id ev) (recent_ids ?i)" using recent_put_spec [OF ok(1)] by blast
  show ?case
  proof (cases "eid \<in> set (recent_ids (recent_put ev ?i))")
    case True
    have "eid \<noteq> [] \<and> eid \<noteq> zero_ulid" if "ev_id ev = eid" "eid \<notin> set (recent_ids ?i)"
      using True that q by (auto simp: offer_def no_index_def)
    moreover have "eid \<in> set (recent_ids ?i)" if "ev_id ev \<noteq> eid"
      using True that q by (auto simp: offer_def keep_last_def dest: in_set_dropD split: if_splits)
    moreover have "eid \<noteq> [] \<and> eid \<noteq> zero_ulid" if "eid \<in> set (recent_ids ?i)" using that recent_named [where evs = evs and n = n] by blast
    ultimately show ?thesis using True snoc ok recent_put_get [OF ok(1) True] by auto
  next
    case False
    with ok(2) show ?thesis by (auto simp: recent_ok_def recent_get_def)
  qed
qed

text \<open>
  C37. The recent-event index answers a lookup with the event last delivered under that id as long as the id is among the
  ids the bounded queue keeps, with nothing otherwise; it never holds more than its capacity, nor an id twice.
\<close>

theorem mcp_recent_window:
  "let c = nat (if n < 1 then DefaultRecentIndexSize else n); q = fold (offer no_index c) (map ev_id evs) []
   in length q \<le> c \<and> distinct q \<and>
      recent_get eid (fold recent_put evs (newRecentIndex n)) = (if eid \<in> set q then find (\<lambda>e. ev_id e = eid) (rev evs) else None)"
proof -
  let ?i = "fold recent_put evs (newRecentIndex n)"
  have "recent_ids ?i = fold (offer no_index (nat (if n < 1 then DefaultRecentIndexSize else n))) (map ev_id evs) []"
    using recent.pushes [OF newRecent_ok(1), of evs n] newRecent_ok [of n] by simp
  moreover have "distinct (recent_ids ?i)" using recent_window [where evs = evs and n = n] by (simp add: recent_ok_def)
  ultimately show ?thesis using recent_window [where evs = evs and n = n and eid = eid] recent.pushes_bounded [OF newRecent_ok(1), of evs n] newRecent_ok(3) [of n] by (simp add: Let_def)
qed

end
