(* ===== verification/Mcp_Subs.thy ===== *)
theory Mcp_Subs
  imports Mcp_Ring "HOL-Library.Multiset"
begin

text \<open>
  Subscriptions of the MCP server (\<open>internal/mcp/subscription.go\<close>, \<open>recent.go\<close>, the key table of \<open>server.go\<close>). The
  server's mutex makes each call atomic, so a call is a function on the state. The router the server registers its
  consumers with is the list of registered ids, the SDK the set of published resource URIs. Times and the random part
  of an id are arguments.
\<close>

section \<open>State\<close>

datatype mcp_error = Unauthenticated | NoRouter | BadMatch routing_error | TableNotAccessible | LimitReached int
  | IdRequired | SubscriptionNotFound | UnknownResource | NotRecent int | EncodeFailed

datatype outcome = OutcomeOK | OutcomeError | OutcomeDenied

record resolved_key =
  rk_name :: string
  rk_secret :: string
  rk_acl :: acl

record subscription =
  sb_id :: string
  sb_keyName :: string
  sb_sessionID :: string
  sb_acl :: acl
  sb_match :: match_config
  sb_matcher :: matcher
  sb_resourceURI :: string
  sb_createdAt :: int
  sb_ring :: "change_event ringBuffer option"
  sb_closed :: bool
  sb_nudgePending :: bool

record audit_record =
  au_key :: string
  au_tool :: string
  au_params :: "string list"
  au_tables :: "string list"
  au_outcome :: outcome

record mcp_server =
  sv_keys :: "resolved_key list"
  sv_maxSubscriptions :: int
  sv_ringSize :: int
  sv_recentSize :: int
  sv_registry :: "string list option"
  sv_subs :: "(string, subscription) gomap"
  sv_sessionSubs :: "(string, string list) gomap"
  sv_recent :: "recentIndex option"
  sv_resources :: "string set"
  sv_active :: "int option"
  sv_audit :: "audit_record list option"

definition DefaultMaxSubscriptions :: int where "DefaultMaxSubscriptions = 16"
definition defaultDrainMax :: int where "defaultDrainMax = 100"
definition subscriptionURIPrefix :: string where "subscriptionURIPrefix = ''kaptanto://subscriptions/''"
definition recentConsumerID :: string where "recentConsumerID = ''mcp:internal:recent''"

section \<open>One subscription\<close>

text \<open>\<open>Deliver\<close> with \<open>scheduleNudge\<close>: the timer is armed unless one is pending.\<close>

definition sub_Deliver :: "codec \<Rightarrow> (string \<Rightarrow> change_event option) \<Rightarrow> log_entry \<Rightarrow> subscription \<Rightarrow> subscription" where
  "sub_Deliver cd unmarshal entry sub =
     (case MaterializeEvent unmarshal entry of
        Inl e \<Rightarrow> sub
      | Inr entry' \<Rightarrow>
          (case le_event entry' of
             None \<Rightarrow> sub
           | Some ev \<Rightarrow>
               if matcher_Match (cd_convs cd) (cd_row cd) (sb_matcher sub) ev \<noteq> Inr True then sub
               else if \<not> AllowTable cd (sb_acl sub) (qualifiedName (ev_schema ev) (ev_table ev)) then sub
               else if sb_closed sub then sub
               else sub\<lparr>sb_ring := map_option (\<lambda>r. snd (ring_push ev r)) (sb_ring sub), sb_nudgePending := True\<rparr>))"

text \<open>The timer: it is disarmed, and a subscription still open publishes its URI.\<close>

definition nudge_fires :: "subscription \<Rightarrow> subscription \<times> string option" where
  "nudge_fires sub = (sub\<lparr>sb_nudgePending := False\<rparr>, if sb_closed sub then None else Some (sb_resourceURI sub))"

definition closeRing :: "subscription \<Rightarrow> subscription" where
  "closeRing sub = sub\<lparr>sb_nudgePending := False, sb_closed := True, sb_ring := None\<rparr>"

definition sub_drain :: "codec \<Rightarrow> int \<Rightarrow> subscription \<Rightarrow> (change_event list \<times> nat \<times> nat) \<times> subscription" where
  "sub_drain cd mx sub =
     (if sb_closed sub then (([], 0, 0), sub)
      else case sb_ring sub of
             None \<Rightarrow> (([], 0, 0), sub)
           | Some ring \<Rightarrow>
               let ((raw, dropped, remaining), ring') = ring_drain mx ring
               in ((List.map_filter (\<lambda>ev. case ev of None \<Rightarrow> None | Some e \<Rightarrow> acl_Apply cd (sb_acl sub) e) raw, dropped, remaining),
                   sub\<lparr>sb_ring := Some ring'\<rparr>))"

definition sub_snapshot :: "subscription \<Rightarrow> nat \<times> nat" where
  "sub_snapshot sub =
     (if sb_closed sub then (0, 0) else case sb_ring sub of None \<Rightarrow> (0, 0) | Some r \<Rightarrow> (rb_length r, rb_dropped r))"

section \<open>The server\<close>

definition CheckBearer :: "string \<Rightarrow> string \<Rightarrow> bool" where
  "CheckBearer provided expected \<longleftrightarrow> (if provided = [] \<or> expected = [] then False else provided = expected)"

definition lookupKey :: "resolved_key list \<Rightarrow> string \<Rightarrow> resolved_key option" where
  "lookupKey keys provided = fold (\<lambda>k m. if CheckBearer provided (rk_secret k) then Some k else m) keys None"

definition removeSubscriptionLocked :: "subscription \<Rightarrow> mcp_server \<Rightarrow> mcp_server" where
  "removeSubscriptionLocked sub s =
     (let sid = sb_id sub; sess = sb_sessionID sub
      in if gm_get (sv_subs s) sid = None then s
         else let kept = filter (\<lambda>x. x \<noteq> sid) (gm_get0 [] (sv_sessionSubs s) sess)
              in s\<lparr>sv_subs := gm_del sid (sv_subs s),
                   sv_sessionSubs := (if sess = [] then sv_sessionSubs s
                                      else if kept = [] then gm_del sess (sv_sessionSubs s)
                                      else gm_set sess kept (sv_sessionSubs s)),
                   sv_registry := map_option (remove1 sid) (sv_registry s),
                   sv_active := map_option (\<lambda>n. n - 1) (sv_active s),
                   sv_resources := sv_resources s - {sb_resourceURI sub}\<rparr>)"

definition new_subscription :: "int \<Rightarrow> string \<Rightarrow> string \<Rightarrow> resolved_key \<Rightarrow> match_config \<Rightarrow> matcher \<Rightarrow> int \<Rightarrow> subscription" where
  "new_subscription now sid sessionID k mc m ringSize0 =
     (let ringSize = (if ringSize0 \<le> 0 then DefaultRingSize else ringSize0)
      in \<lparr>sb_id = sid, sb_keyName = rk_name k, sb_sessionID = sessionID, sb_acl = rk_acl k, sb_match = mc, sb_matcher = m,
          sb_resourceURI = subscriptionURIPrefix @ sid, sb_createdAt = now, sb_ring = Some (newRingBuffer ringSize), sb_closed = False,
          sb_nudgePending = False\<rparr>)"

definition add_subscription :: "string list \<Rightarrow> subscription \<Rightarrow> mcp_server \<Rightarrow> mcp_server" where
  "add_subscription reg sub s =
     (let sid = sb_id sub; sess = sb_sessionID sub
      in s\<lparr>sv_subs := gm_set sid sub (sv_subs s),
           sv_sessionSubs := (if sess = [] then sv_sessionSubs s else gm_set sess (gm_get0 [] (sv_sessionSubs s) sess @ [sid]) (sv_sessionSubs s)),
           sv_registry := Some (reg @ [sid]),
           sv_active := map_option (\<lambda>n. n + 1) (sv_active s),
           sv_resources := insert (sb_resourceURI sub) (sv_resources s)\<rparr>)"

definition owned :: "string \<Rightarrow> mcp_server \<Rightarrow> nat" where
  "owned name s = length (filter (\<lambda>(i, sub). sb_keyName sub = name) (sv_subs s))"

definition max_subs :: "mcp_server \<Rightarrow> int" where
  "max_subs s = (if sv_maxSubscriptions s \<le> 0 then DefaultMaxSubscriptions else sv_maxSubscriptions s)"

definition subscribeToChanges ::
  "(string \<Rightarrow> float64 option) \<Rightarrow> codec \<Rightarrow> int \<Rightarrow> string \<Rightarrow> resolved_key option \<Rightarrow> string \<Rightarrow> match_config \<Rightarrow> mcp_server \<Rightarrow>
   ((mcp_error + string \<times> string) \<times> string list \<times> outcome) \<times> mcp_server" where
  "subscribeToChanges pf cd now ulid key sessionID mc0 s =
     (case key of
        None \<Rightarrow> ((Inl Unauthenticated, [], OutcomeError), s)
      | Some k \<Rightarrow>
          (case sv_registry s of
             None \<Rightarrow> ((Inl NoRouter, [], OutcomeError), s)
           | Some reg \<Rightarrow>
               (case routing_Compile pf mc0 of
                  Inl e \<Rightarrow> ((Inl (BadMatch e), [], OutcomeError), s)
                | Inr m0 \<Rightarrow>
                    let allowed = FilterTables cd (rk_acl k) (mt_tables mc0);
                        mc = (if mt_tables mc0 = [] then mc0 else mc0\<lparr>mt_tables := allowed\<rparr>)
                    in if mt_tables mc0 \<noteq> [] \<and> allowed = [] then ((Inl TableNotAccessible, mt_tables mc0, OutcomeDenied), s)
                       else case routing_Compile pf mc of
                              Inl e \<Rightarrow> ((Inl (BadMatch e), [], OutcomeError), s)
                            | Inr m \<Rightarrow>
                                if int (owned (rk_name k) s) \<ge> max_subs s then ((Inl (LimitReached (max_subs s)), mt_tables mc, OutcomeError), s)
                                else let sid = ''mcp:'' @ rk_name k @ '':'' @ ulid; sub = new_subscription now sid sessionID k mc m (sv_ringSize s)
                                     in ((Inr (sid, sb_resourceURI sub), mt_tables mc, OutcomeOK), add_subscription reg sub s))))"

lemma subscribe_cases:
  "snd (subscribeToChanges pf cd now ulid key sess mc s) = s \<or>
   (\<exists>k reg mc' m. key = Some k \<and> sv_registry s = Some reg \<and> int (owned (rk_name k) s) < max_subs s \<and>
      snd (subscribeToChanges pf cd now ulid key sess mc s) =
        add_subscription reg (new_subscription now (''mcp:'' @ rk_name k @ '':'' @ ulid) sess k mc' m (sv_ringSize s)) s)"
  unfolding subscribeToChanges_def Let_def by (auto simp: not_le split: option.split sum.split if_split)

definition unsubscribe :: "resolved_key option \<Rightarrow> string \<Rightarrow> mcp_server \<Rightarrow> ((mcp_error + unit) \<times> outcome) \<times> mcp_server" where
  "unsubscribe key subscriptionID0 s =
     (case key of
        None \<Rightarrow> ((Inl Unauthenticated, OutcomeError), s)
      | Some k \<Rightarrow>
          let subscriptionID = TrimSpace subscriptionID0
          in if subscriptionID = [] then ((Inl IdRequired, OutcomeError), s)
             else case gm_get (sv_subs s) subscriptionID of
                    None \<Rightarrow> ((Inl SubscriptionNotFound, OutcomeError), s)
                  | Some sub \<Rightarrow>
                      if sb_keyName sub \<noteq> rk_name k then ((Inl SubscriptionNotFound, OutcomeDenied), s)
                      else ((Inr (), OutcomeOK), removeSubscriptionLocked sub s))"

record subscription_info =
  si_id :: string
  si_match :: match_config
  si_buffered :: nat
  si_dropped :: nat
  si_createdAt :: int

definition listSubscriptions :: "resolved_key option \<Rightarrow> mcp_server \<Rightarrow> (mcp_error + subscription_info list) \<times> outcome" where
  "listSubscriptions key s =
     (case key of
        None \<Rightarrow> (Inl Unauthenticated, OutcomeError)
      | Some k \<Rightarrow>
          (Inr (map (\<lambda>(i, sub). let (buffered, dropped) = sub_snapshot sub
                                in \<lparr>si_id = sb_id sub, si_match = sb_match sub, si_buffered = buffered, si_dropped = dropped, si_createdAt = sb_createdAt sub\<rparr>)
                    (filter (\<lambda>(i, sub). sb_keyName sub = rk_name k) (sv_subs s))), OutcomeOK))"

text \<open>\<open>encode\<close> stands for the marshalling of an event into a generic object; an event it fails on is left out.\<close>

definition getRecentEvents ::
  "codec \<Rightarrow> (change_event \<Rightarrow> 'j option) \<Rightarrow> resolved_key option \<Rightarrow> string \<Rightarrow> int \<Rightarrow> mcp_server \<Rightarrow>
   ((mcp_error + 'j list \<times> nat \<times> nat) \<times> outcome) \<times> mcp_server" where
  "getRecentEvents cd encode key subscriptionID max0 s =
     (case key of
        None \<Rightarrow> ((Inl Unauthenticated, OutcomeError), s)
      | Some k \<Rightarrow>
          let sid = TrimSpace subscriptionID; mx = (if max0 \<le> 0 then defaultDrainMax else max0)
          in if sid = [] then ((Inl IdRequired, OutcomeError), s)
             else case gm_get (sv_subs s) sid of
                    None \<Rightarrow> ((Inl SubscriptionNotFound, OutcomeError), s)
                  | Some sub \<Rightarrow>
                      if sb_keyName sub \<noteq> rk_name k then ((Inl SubscriptionNotFound, OutcomeDenied), s)
                      else let ((events, dropped, remaining), sub') = sub_drain cd mx sub
                           in ((Inr (List.map_filter encode events, dropped, remaining), OutcomeOK), s\<lparr>sv_subs := gm_set sid sub' (sv_subs s)\<rparr>))"

definition TrimPrefix :: "string \<Rightarrow> string \<Rightarrow> string" where
  "TrimPrefix s p = (if HasPrefix s p then drop (length p) s else s)"

definition readSubscriptionResource :: "resolved_key option \<Rightarrow> string \<Rightarrow> mcp_server \<Rightarrow> mcp_error + string \<times> nat \<times> nat" where
  "readSubscriptionResource key uri s =
     (let sid = TrimPrefix uri subscriptionURIPrefix
      in case gm_get (sv_subs s) sid of
           None \<Rightarrow> Inl SubscriptionNotFound
         | Some sub \<Rightarrow>
             (case key of
                None \<Rightarrow> Inl SubscriptionNotFound
              | Some k \<Rightarrow> if sb_keyName sub \<noteq> rk_name k then Inl SubscriptionNotFound else Inr (sid, sub_snapshot sub)))"

definition checkSubscriptionOwnership :: "resolved_key option \<Rightarrow> string \<Rightarrow> mcp_server \<Rightarrow> mcp_error + unit" where
  "checkSubscriptionOwnership key uri s =
     (case gm_get (sv_subs s) (TrimPrefix uri subscriptionURIPrefix) of
        None \<Rightarrow> Inl UnknownResource
      | Some sub \<Rightarrow>
          (case key of
             None \<Rightarrow> Inl UnknownResource
           | Some k \<Rightarrow> if sb_keyName sub \<noteq> rk_name k then Inl UnknownResource else Inr ()))"

text \<open>Both resource handlers; a request without parameters is refused before.\<close>

definition allowResourceSubscribe :: "resolved_key option \<Rightarrow> string \<Rightarrow> mcp_server \<Rightarrow> mcp_error + unit" where
  "allowResourceSubscribe key uri s =
     (if \<not> HasPrefix uri subscriptionURIPrefix then Inl UnknownResource else checkSubscriptionOwnership key uri s)"

definition remove_by_id :: "string \<Rightarrow> mcp_server \<Rightarrow> mcp_server" where
  "remove_by_id i s = (case gm_get (sv_subs s) i of None \<Rightarrow> s | Some sub \<Rightarrow> removeSubscriptionLocked sub s)"

definition cleanupSession :: "string \<Rightarrow> mcp_server \<Rightarrow> mcp_server" where
  "cleanupSession sessionID s =
     (if sessionID = [] then s
      else fold remove_by_id (gm_get0 [] (sv_sessionSubs s) sessionID) (s\<lparr>sv_sessionSubs := gm_del sessionID (sv_sessionSubs s)\<rparr>))"

section \<open>The recent-event index of the server\<close>

definition recentCap :: "mcp_server \<Rightarrow> int" where
  "recentCap s = (if sv_recentSize s > 0 then sv_recentSize s else DefaultRecentIndexSize)"

definition startRecentIndexLocked :: "mcp_server \<Rightarrow> mcp_server" where
  "startRecentIndexLocked s =
     (case sv_registry s of
        None \<Rightarrow> s
      | Some reg \<Rightarrow>
          if sv_keys s = [] then s
          else case sv_recent s of
                 Some idx \<Rightarrow> s\<lparr>sv_registry := Some (reg @ [recentConsumerID])\<rparr>
               | None \<Rightarrow> s\<lparr>sv_recent := Some (newRecentIndex (recentCap s)), sv_registry := Some (reg @ [recentConsumerID])\<rparr>)"

definition stopRecentIndexLocked :: "mcp_server \<Rightarrow> mcp_server" where
  "stopRecentIndexLocked s =
     (case sv_recent s of
        None \<Rightarrow> s
      | Some idx \<Rightarrow> s\<lparr>sv_registry := map_option (remove1 recentConsumerID) (sv_registry s), sv_recent := None\<rparr>)"

text \<open>\<open>SetRouter\<close> with the consumers the new router has; the old one keeps what was registered with it, less the index.\<close>

definition mcp_SetRouter :: "string list option \<Rightarrow> mcp_server \<Rightarrow> mcp_server" where
  "mcp_SetRouter r s =
     (let s' = s\<lparr>sv_registry := r\<rparr>
      in if r \<noteq> None then startRecentIndexLocked s' else s'\<lparr>sv_recent := None\<rparr>)"

definition cleanupAllSubscriptions :: "mcp_server \<Rightarrow> mcp_server" where
  "cleanupAllSubscriptions s =
     stopRecentIndexLocked
       (s\<lparr>sv_registry := map_option (fold (\<lambda>(i, sub). remove1 (sb_id sub)) (sv_subs s)) (sv_registry s),
          sv_resources := sv_resources s - (\<lambda>(i, sub). sb_resourceURI sub) ` set (sv_subs s),
          sv_active := map_option (\<lambda>n. n - int (length (sv_subs s))) (sv_active s),
          sv_subs := [], sv_sessionSubs := []\<rparr>)"

definition getEventByID ::
  "codec \<Rightarrow> (change_event \<Rightarrow> 'j option) \<Rightarrow> resolved_key option \<Rightarrow> string \<Rightarrow> mcp_server \<Rightarrow> (mcp_error + 'j) \<times> string list \<times> outcome" where
  "getEventByID cd encode key id0 s =
     (case key of
        None \<Rightarrow> (Inl Unauthenticated, [], OutcomeError)
      | Some k \<Rightarrow>
          let eid = TrimSpace id0; miss = Inl (NotRecent (recentCap s))
          in if eid = [] then (Inl IdRequired, [], OutcomeError)
             else case sv_recent s of
                    None \<Rightarrow> (miss, [], OutcomeError)
                  | Some idx \<Rightarrow>
                      (case recent_get eid idx of
                         None \<Rightarrow> (miss, [], OutcomeError)
                       | Some ev \<Rightarrow>
                           let qualified = qualifiedName (ev_schema ev) (ev_table ev)
                           in case acl_Apply cd (rk_acl k) ev of
                                None \<Rightarrow> (miss, [qualified], OutcomeDenied)
                              | Some redacted \<Rightarrow>
                                  (case encode redacted of
                                     None \<Rightarrow> (Inl EncodeFailed, [qualified], OutcomeError)
                                   | Some j \<Rightarrow> (Inr j, [qualified], OutcomeOK))))"

section \<open>The tool handlers and the audit log\<close>

definition RecordToolCall :: "string \<Rightarrow> string \<Rightarrow> string list \<Rightarrow> string list \<Rightarrow> outcome \<Rightarrow> mcp_server \<Rightarrow> mcp_server" where
  "RecordToolCall keyName tool params tables outcome s =
     s\<lparr>sv_audit := map_option (\<lambda>rs. rs @ [\<lparr>au_key = keyName, au_tool = tool, au_params = params, au_tables = tables, au_outcome = outcome\<rparr>]) (sv_audit s)\<rparr>"

definition key_label :: "resolved_key option \<Rightarrow> string" where
  "key_label key = (case key of None \<Rightarrow> ''unknown'' | Some k \<Rightarrow> rk_name k)"

definition subscribeParamsSummary :: "match_config \<Rightarrow> string list" where
  "subscribeParamsSummary mc =
     (if mt_tables mc \<noteq> [] then [''tables''] else []) @ (if mt_operations mc \<noteq> [] then [''operations''] else []) @
     (if TrimSpace (mt_where mc) \<noteq> [] then [''where''] else [])"

definition handleSubscribeToChanges ::
  "(string \<Rightarrow> float64 option) \<Rightarrow> codec \<Rightarrow> int \<Rightarrow> string \<Rightarrow> resolved_key option \<Rightarrow> string \<Rightarrow> match_config \<Rightarrow> mcp_server \<Rightarrow>
   (mcp_error + string \<times> string) \<times> mcp_server" where
  "handleSubscribeToChanges pf cd now ulid key sessionID mc s =
     (let ((out, tables, oc), s') = subscribeToChanges pf cd now ulid key sessionID mc s
      in (out, RecordToolCall (key_label key) ''subscribe_to_changes'' (subscribeParamsSummary mc) tables oc s'))"

definition handleUnsubscribe :: "resolved_key option \<Rightarrow> string \<Rightarrow> mcp_server \<Rightarrow> (mcp_error + unit) \<times> mcp_server" where
  "handleUnsubscribe key sid s =
     (let ((out, oc), s') = unsubscribe key sid s
      in (out, RecordToolCall (key_label key) ''unsubscribe'' [''subscription_id''] [] oc s'))"

definition handleListSubscriptions :: "resolved_key option \<Rightarrow> mcp_server \<Rightarrow> (mcp_error + subscription_info list) \<times> mcp_server" where
  "handleListSubscriptions key s =
     (let (out, oc) = listSubscriptions key s in (out, RecordToolCall (key_label key) ''list_subscriptions'' [] [] oc s))"

definition handleGetRecentEvents ::
  "codec \<Rightarrow> (change_event \<Rightarrow> 'j option) \<Rightarrow> resolved_key option \<Rightarrow> string \<Rightarrow> int \<Rightarrow> mcp_server \<Rightarrow> (mcp_error + 'j list \<times> nat \<times> nat) \<times> mcp_server" where
  "handleGetRecentEvents cd encode key sid mx s =
     (let ((out, oc), s') = getRecentEvents cd encode key sid mx s
      in (out, RecordToolCall (key_label key) ''get_recent_events'' [''subscription_id''] [] oc s'))"

definition handleGetEventByID ::
  "codec \<Rightarrow> (change_event \<Rightarrow> 'j option) \<Rightarrow> resolved_key option \<Rightarrow> string \<Rightarrow> mcp_server \<Rightarrow> (mcp_error + 'j) \<times> mcp_server" where
  "handleGetEventByID cd encode key eid s =
     (let (out, tables, oc) = getEventByID cd encode key eid s
      in (out, RecordToolCall (key_label key) ''get_event_by_id'' [''id''] tables oc s))"

end
