(* ===== verification/Mcp_Props.thy ===== *)
theory Mcp_Props
  imports Mcp_Subs
begin

text \<open>
  What the MCP server keeps: no consumer, resource or buffer outlives its subscription and the counts stay capped; a key
  neither sees nor changes the subscriptions of another; what a subscription drains; every tool call is audited.
\<close>

section \<open>The state between calls\<close>

definition ring_size :: "mcp_server \<Rightarrow> nat" where
  "ring_size s = nat (if sv_ringSize s \<le> 0 then DefaultRingSize else sv_ringSize s)"

definition sub_ok :: "nat \<Rightarrow> string \<Rightarrow> subscription \<Rightarrow> bool" where
  "sub_ok n i sub \<longleftrightarrow> sb_id sub = i \<and> sb_resourceURI sub = subscriptionURIPrefix @ i \<and> \<not> sb_closed sub \<and>
     (case sb_ring sub of None \<Rightarrow> False | Some r \<Rightarrow> ring_ok r \<and> ring_cap r = n)"

definition session_ids :: "string \<Rightarrow> mcp_server \<Rightarrow> string set" where
  "session_ids sess s = {i. \<exists>sub. gm_get (sv_subs s) i = Some sub \<and> sb_sessionID sub = sess}"

text \<open>
  \<open>hygiene_but X base s\<close>: the router has the consumers of \<open>base\<close> (those of the rest of the program), one per live subscription and
  the index; the published resources and the gauge count the live subscriptions; the session table lists
  them, but for the sessions of \<open>X\<close>.
\<close>

definition hygiene_but :: "string set \<Rightarrow> string multiset \<Rightarrow> mcp_server \<Rightarrow> bool" where
  "hygiene_but X base s \<longleftrightarrow>
     gm_wf (sv_subs s) \<and>
     (\<forall>i sub. gm_get (sv_subs s) i = Some sub \<longrightarrow> sub_ok (ring_size s) i sub) \<and>
     (case sv_registry s of
        None \<Rightarrow> sv_subs s = [] \<and> sv_recent s = None
      | Some reg \<Rightarrow> mset reg = base + mset (map fst (sv_subs s)) + (if sv_recent s = None then {#} else {#recentConsumerID#})) \<and>
     sv_resources s = (\<lambda>i. subscriptionURIPrefix @ i) ` set (map fst (sv_subs s)) \<and>
     (case sv_active s of None \<Rightarrow> True | Some n \<Rightarrow> n = int (length (sv_subs s))) \<and>
     (\<forall>sess. sess \<notin> X \<longrightarrow> set (gm_get0 [] (sv_sessionSubs s) sess) = session_ids sess s) \<and>
     (\<forall>name. int (owned name s) \<le> max_subs s)"

abbreviation hygiene :: "string multiset \<Rightarrow> mcp_server \<Rightarrow> bool" where
  "hygiene \<equiv> hygiene_but {[]}"

lemma hygieneI:
  assumes "gm_wf (sv_subs s)" "\<And>i sub. gm_get (sv_subs s) i = Some sub \<Longrightarrow> sub_ok (ring_size s) i sub"
    "case sv_registry s of
        None \<Rightarrow> sv_subs s = [] \<and> sv_recent s = None
      | Some reg \<Rightarrow> mset reg = base + mset (map fst (sv_subs s)) + (if sv_recent s = None then {#} else {#recentConsumerID#})"
    "sv_resources s = (\<lambda>i. subscriptionURIPrefix @ i) ` set (map fst (sv_subs s))"
    "case sv_active s of None \<Rightarrow> True | Some n \<Rightarrow> n = int (length (sv_subs s))"
    "\<And>sess. sess \<notin> X \<Longrightarrow> set (gm_get0 [] (sv_sessionSubs s) sess) = session_ids sess s"
    "\<And>name. int (owned name s) \<le> max_subs s"
  shows "hygiene_but X base s"
  unfolding hygiene_but_def by (intro conjI allI impI) (simp_all add: assms [unfolded map_map])

subsection \<open>Counting in a map\<close>

lemma gm_set_fresh: "gm_get m k = None \<Longrightarrow> gm_set k v m = m @ [(k, v)]"
  by (induction m) (auto split: if_splits)

lemma gm_del_count:
  assumes "gm_wf m" "gm_get m k = Some v"
  shows "mset (gm_del k m) = mset m - {#(k, v)#}" "(k, v) \<in># mset m"
proof -
  show "mset (gm_del k m) = mset m - {#(k, v)#}"
    using assms
  proof (induction m)
    case (Cons a m)
    show ?case
    proof (cases "fst a = k")
      case True
      with Cons.prems have "k \<notin> set (map fst m)" "snd a = v" by (auto split: if_splits)
      then have "gm_del k m = m" by (induction m) auto
      with True \<open>snd a = v\<close> show ?thesis by (cases a) simp
    next
      case False
      with Cons have "mset (gm_del k m) = mset m - {#(k, v)#}" by (cases a) auto
      moreover from False have "(k, v) \<noteq> a" by auto
      ultimately show ?thesis using False diff_union_swap [of "(k, v)" a "mset m"] by (cases a) simp
    qed
  qed simp
  show "(k, v) \<in># mset m" using assms(2) by (auto dest: map_of_SomeD)
qed

lemma gm_set_same_keys: "gm_get m k = Some v \<Longrightarrow> map fst (gm_set k v' m) = map fst m"
  by (induction m) auto

lemma length_filter_mset: "length (filter P xs) = size (filter_mset P (mset xs))"
  by (simp flip: mset_filter)

section \<open>Every call keeps it\<close>

definition sub_names :: "subscription \<Rightarrow> string \<times> string" where
  "sub_names sub = (sb_keyName sub, sb_sessionID sub)"

text \<open>A call that changes one subscription and keeps whose it is.\<close>

lemma hygiene_update:
  assumes "hygiene_but X base s" "gm_get (sv_subs s) i = Some sub" "sub_ok (ring_size s) i sub'" "sub_names sub' = sub_names sub"
  shows "hygiene_but X base (s\<lparr>sv_subs := gm_set i sub' (sv_subs s)\<rparr>)"
proof -
  note keys = gm_set_same_keys [OF assms(2), of sub']
  then have len: "length (gm_set i sub' (sv_subs s)) = length (sv_subs s)" by (metis length_map)
  have ne: "sv_subs s \<noteq> []" using assms(2) by auto
  have own: "length (filter (\<lambda>(i, sub). sb_keyName sub = name) (gm_set i sub' m)) = length (filter (\<lambda>(i, sub). sb_keyName sub = name) m)"
    if "gm_get m i = Some sub" for name m using that assms(4) by (induction m) (auto simp: sub_names_def)
  let ?s = "s\<lparr>sv_subs := gm_set i sub' (sv_subs s)\<rparr>"
  have sess: "session_ids x ?s = session_ids x s" for x using assms(2,4) by (auto simp: session_ids_def gm_get_set sub_names_def)
  have size: "ring_size ?s = ring_size s" "max_subs ?s = max_subs s" by (simp_all add: ring_size_def max_subs_def)
  show ?thesis
  proof (rule hygieneI)
    show "sub_ok (ring_size ?s) j x" if "gm_get (sv_subs ?s) j = Some x" for j x
      using that assms(1,3) size by (auto simp: hygiene_but_def gm_get_set split: if_splits)
  qed (use assms(1) ne own [OF assms(2)] in \<open>auto simp: hygiene_but_def keys len sess size owned_def simp del: set_map split: option.splits\<close>)
qed

lemma hygiene_remove:
  assumes h: "hygiene_but X base s" and "[] \<in> X" and sub: "gm_get (sv_subs s) i = Some sub"
  shows "hygiene_but X base (removeSubscriptionLocked sub s)" "sv_subs (removeSubscriptionLocked sub s) = gm_del i (sv_subs s)"
    "gm_get (sv_sessionSubs s) x = None \<Longrightarrow> gm_get (sv_sessionSubs (removeSubscriptionLocked sub s)) x = None"
proof -
  let ?t = "removeSubscriptionLocked sub s"
  have wf: "gm_wf (sv_subs s)" using h by (simp add: hygiene_but_def)
  from h sub have ok: "sb_id sub = i" "sb_resourceURI sub = subscriptionURIPrefix @ i" by (auto simp: hygiene_but_def sub_ok_def)
  note del = gm_del_count [OF wf sub]
  have "mset (map fst (gm_del i (sv_subs s))) = image_mset fst (mset (sv_subs s) - {#(i, sub)#})" by (simp only: mset_map del(1))
  also have "\<dots> = mset (map fst (sv_subs s)) - {#i#}" using del(2) by (simp add: image_mset_Diff)
  finally have keys: "mset (map fst (gm_del i (sv_subs s))) = mset (map fst (sv_subs s)) - {#i#}" "i \<in># mset (map fst (sv_subs s))"
    using del(2) by (auto simp: image_iff) force
  have fields: "sv_subs ?t = gm_del i (sv_subs s)" "sv_registry ?t = map_option (remove1 i) (sv_registry s)" "sv_recent ?t = sv_recent s"
      "sv_resources ?t = sv_resources s - {subscriptionURIPrefix @ i}" "sv_active ?t = map_option (\<lambda>n. n - 1) (sv_active s)"
      "sv_maxSubscriptions ?t = sv_maxSubscriptions s" "sv_ringSize ?t = sv_ringSize s"
    using sub ok by (simp_all add: removeSubscriptionLocked_def Let_def)
  show "sv_subs ?t = gm_del i (sv_subs s)" by (rule fields)
  have st: "gm_get0 [] (sv_sessionSubs ?t) x = (if x = sb_sessionID sub \<and> x \<noteq> [] then filter (\<lambda>y. y \<noteq> i) (gm_get0 [] (sv_sessionSubs s) x) else gm_get0 [] (sv_sessionSubs s) x)" for x
    using sub ok by (auto simp: removeSubscriptionLocked_def Let_def gm_get0_def gm_get_set gm_get_del)
  show "gm_get (sv_sessionSubs s) x = None \<Longrightarrow> gm_get (sv_sessionSubs ?t) x = None"
    using sub ok by (auto simp: removeSubscriptionLocked_def Let_def gm_get_set gm_get_del gm_get0_def)
  show "hygiene_but X base ?t"
  proof (rule hygieneI)
    show "sub_ok (ring_size ?t) j x" if "gm_get (sv_subs ?t) j = Some x" for j x
      using that h by (auto simp: fields hygiene_but_def ring_size_def gm_get_del split: if_splits)
    show "case sv_registry ?t of None \<Rightarrow> sv_subs ?t = [] \<and> sv_recent ?t = None
        | Some reg \<Rightarrow> mset reg = base + mset (map fst (sv_subs ?t)) + (if sv_recent ?t = None then {#} else {#recentConsumerID#})"
    proof (cases "sv_registry s")
      case None
      with h sub show ?thesis by (auto simp: hygiene_but_def)
    next
      case (Some reg)
      with h have "mset reg = base + mset (map fst (sv_subs s)) + (if sv_recent s = None then {#} else {#recentConsumerID#})" by (simp add: hygiene_but_def)
      then show ?thesis using Some keys by (simp add: fields del: mset_map)
    qed
    show "sv_resources ?t = (\<lambda>i. subscriptionURIPrefix @ i) ` set (map fst (sv_subs ?t))"
      using h by (auto simp: hygiene_but_def fields delete_keys)
    show "case sv_active ?t of None \<Rightarrow> True | Some n \<Rightarrow> n = int (length (sv_subs ?t))"
    proof -
      have "0 < length (sv_subs s)" using sub by auto
      then have "int (length (gm_del i (sv_subs s))) = int (length (sv_subs s)) - 1" using arg_cong [OF del(1), of size] del(2) by (simp add: size_Diff_singleton of_nat_diff Suc_leI)
      with h show ?thesis by (auto simp: hygiene_but_def fields split: option.splits)
    qed
    show "set (gm_get0 [] (sv_sessionSubs ?t) x) = session_ids x ?t" if "x \<notin> X" for x
    proof -
      from h that have "set (gm_get0 [] (sv_sessionSubs s) x) = session_ids x s" by (simp add: hygiene_but_def)
      moreover from that assms(2) have "x \<noteq> []" by auto
      ultimately show ?thesis using sub by (auto simp: st session_ids_def fields gm_get_del)
    qed
    show "int (owned name ?t) \<le> max_subs ?t" for name
    proof -
      have "owned name ?t \<le> owned name s"
        unfolding owned_def fields length_filter_mset del(1) by (intro size_mset_mono multiset_filter_mono) simp
      moreover have "int (owned name s) \<le> max_subs s" using h by (simp add: hygiene_but_def)
      moreover have "max_subs ?t = max_subs s" by (simp add: max_subs_def fields)
      ultimately show ?thesis by linarith
    qed
  qed (use wf in \<open>simp add: fields\<close>)
qed

lemma hygiene_remove_ids:
  assumes "hygiene_but X base s" "[] \<in> X"
  shows "hygiene_but X base (fold remove_by_id ids s) \<and>
    (\<forall>j. gm_get (sv_subs (fold remove_by_id ids s)) j = (if j \<in> set ids then None else gm_get (sv_subs s) j)) \<and>
    (gm_get (sv_sessionSubs s) x = None \<longrightarrow> gm_get (sv_sessionSubs (fold remove_by_id ids s)) x = None)"
  using assms
proof (induction ids arbitrary: s)
  case (Cons i ids)
  show ?case
  proof (cases "gm_get (sv_subs s) i")
    case None
    with Cons show ?thesis by (simp add: remove_by_id_def)
  next
    case (Some sub)
    note rm = hygiene_remove [OF Cons.prems Some]
    from Cons.IH [OF rm(1) Cons.prems(2)] Some show ?thesis by (auto simp: remove_by_id_def rm(2,3) gm_get_del)
  qed
qed simp

lemma hygiene_session:
  assumes "hygiene_but X base s" "set (gm_get0 [] (sv_sessionSubs s) x) = session_ids x s"
  shows "hygiene_but (X - {x}) base s"
  using assms by (auto simp: hygiene_but_def split: option.splits)

text \<open>Only these fields matter.\<close>

lemma hygiene_cong:
  assumes "hygiene_but X base s"
    and "sv_subs t = sv_subs s" "sv_registry t = sv_registry s" "sv_recent t = None \<longleftrightarrow> sv_recent s = None" "sv_resources t = sv_resources s"
      "sv_active t = sv_active s" "sv_maxSubscriptions t = sv_maxSubscriptions s" "sv_ringSize t = sv_ringSize s"
    and "\<And>x. x \<notin> Y \<Longrightarrow> x \<notin> X \<and> gm_get0 [] (sv_sessionSubs t) x = gm_get0 [] (sv_sessionSubs s) x"
  shows "hygiene_but Y base t"
proof -
  have "\<forall>x. x \<notin> Y \<longrightarrow> set (gm_get0 [] (sv_sessionSubs t) x) = {i. \<exists>sub. gm_get (sv_subs s) i = Some sub \<and> sb_sessionID sub = x}"
    using assms(1,9) by (simp add: hygiene_but_def session_ids_def)
  with assms(1) show ?thesis unfolding hygiene_but_def session_ids_def owned_def max_subs_def ring_size_def assms(2-8) by simp
qed

lemma hygiene_drop_session:
  assumes "hygiene_but X base s"
  shows "hygiene_but (insert x X) base (s\<lparr>sv_sessionSubs := gm_del x (sv_sessionSubs s)\<rparr>)"
  by (rule hygiene_cong [OF assms]) (auto simp: gm_get0_def gm_get_del)

lemma hygiene_record: "hygiene base s \<Longrightarrow> hygiene base (RecordToolCall n t ps ts oc s)"
  by (rule hygiene_cong) (auto simp: RecordToolCall_def)

lemma cleanupSession_spec:
  assumes h: "hygiene base s" and "sess \<noteq> []"
  shows "hygiene base (cleanupSession sess s) \<and>
    (\<forall>j. gm_get (sv_subs (cleanupSession sess s)) j = (if j \<in> session_ids sess s then None else gm_get (sv_subs s) j))"
proof -
  let ?s = "s\<lparr>sv_sessionSubs := gm_del sess (sv_sessionSubs s)\<rparr>" and ?ids = "gm_get0 [] (sv_sessionSubs s) sess"
  let ?t = "fold remove_by_id ?ids ?s"
  have ids: "set ?ids = session_ids sess s" using assms by (simp add: hygiene_but_def)
  have none: "gm_get (sv_sessionSubs ?s) sess = None" by (simp add: gm_get_del)
  from hygiene_remove_ids [OF hygiene_drop_session [OF h, of sess], of ?ids sess] none
  have t: "hygiene_but (insert sess {[]}) base ?t" "\<And>j. gm_get (sv_subs ?t) j = (if j \<in> session_ids sess s then None else gm_get (sv_subs s) j)"
      "gm_get (sv_sessionSubs ?t) sess = None" by (simp_all add: ids)
  have "session_ids sess ?t = {}" unfolding session_ids_def t(2) by (auto simp: session_ids_def)
  with t(3) have "set (gm_get0 [] (sv_sessionSubs ?t) sess) = session_ids sess ?t" by simp
  from hygiene_session [OF t(1) this] assms(2) have "hygiene base ?t" by (simp add: insert_Diff_if)
  with t(2) assms(2) show ?thesis by (simp add: cleanupSession_def)
qed

lemma hygiene_add:
  assumes h: "hygiene base s" and f: "gm_get (sv_subs s) sid = None" and k: "sv_registry s = Some reg" "int (owned (rk_name k) s) < max_subs s"
  shows "hygiene base (add_subscription reg (new_subscription now sid sess k mc m (sv_ringSize s)) s)"
proof -
  define sub where "sub = new_subscription now sid sess k mc m (sv_ringSize s)"
  have sb: "sb_id sub = sid" "sb_sessionID sub = sess" "sb_keyName sub = rk_name k" "sb_resourceURI sub = subscriptionURIPrefix @ sid"
    by (simp_all add: sub_def new_subscription_def)
  from f have new: "sid \<notin> set (map fst (sv_subs s))" by (simp add: map_of_eq_None_iff)
  let ?t = "add_subscription reg sub s"
  have t: "sv_subs ?t = sv_subs s @ [(sid, sub)]" "sv_registry ?t = Some (reg @ [sid])" "sv_recent ?t = sv_recent s"
      "sv_active ?t = map_option (\<lambda>n. n + 1) (sv_active s)" "sv_resources ?t = insert (subscriptionURIPrefix @ sid) (sv_resources s)"
      "sv_ringSize ?t = sv_ringSize s" "sv_maxSubscriptions ?t = sv_maxSubscriptions s"
      "gm_get0 [] (sv_sessionSubs ?t) x = (if x = sess \<and> x \<noteq> [] then gm_get0 [] (sv_sessionSubs s) x @ [sid] else gm_get0 [] (sv_sessionSubs s) x)" for x
    by (auto simp: add_subscription_def Let_def sb gm_set_fresh [OF f] gm_get0_set)
  have get: "gm_get (sv_subs ?t) j = (if j = sid then Some sub else gm_get (sv_subs s) j)" for j
    using f by (simp add: t map_add_def split: option.split)
  have "sub_ok (ring_size s) sid sub"
    by (simp add: sub_ok_def sub_def new_subscription_def ring_size_def newRing_ok DefaultRingSize_def)
  then have "sub_ok (ring_size ?t) j x" if "gm_get (sv_subs ?t) j = Some x" for j x
    using h that unfolding get by (auto simp: hygiene_but_def ring_size_def t split: if_splits)
  moreover have "set (gm_get0 [] (sv_sessionSubs ?t) x) = session_ids x ?t" if "x \<notin> {[]}" for x
  proof -
    from h that have "set (gm_get0 [] (sv_sessionSubs s) x) = session_ids x s" by (simp add: hygiene_but_def)
    then show ?thesis using that f sb unfolding session_ids_def get by (auto simp: t)
  qed
  moreover have "int (owned name ?t) \<le> max_subs ?t" for name
    using h k(2) sb by (auto simp: owned_def hygiene_but_def max_subs_def t)
  moreover have "sv_resources ?t = (\<lambda>i. subscriptionURIPrefix @ i) ` set (map fst (sv_subs ?t))" "gm_wf (sv_subs ?t)"
    using h new by (auto simp: hygiene_but_def t)
  moreover have "case sv_active ?t of None \<Rightarrow> True | Some n \<Rightarrow> n = int (length (sv_subs ?t))"
    using h by (auto simp: hygiene_but_def t split: option.splits)
  ultimately show ?thesis unfolding sub_def [symmetric]
    by (intro hygieneI) (use h k(1) in \<open>auto simp: hygiene_but_def t\<close>)
qed

lemma hygiene_subscribe:
  assumes "hygiene base s" "\<And>k. key = Some k \<Longrightarrow> gm_get (sv_subs s) (''mcp:'' @ rk_name k @ '':'' @ ulid) = None"
  shows "hygiene base (snd (subscribeToChanges pf cd now ulid key sess mc s))"
  using subscribe_cases [of pf cd now ulid key sess mc s] assms hygiene_add [OF assms(1)] by metis

subsection \<open>Deliveries and drains\<close>

lemma sub_Deliver_ok: "sub_ok n i sub \<Longrightarrow> sub_ok n i (sub_Deliver cd um e sub) \<and> sub_names (sub_Deliver cd um e sub) = sub_names sub"
  by (auto simp: sub_Deliver_def sub_ok_def sub_names_def ring_push_spec split: sum.split option.splits)

lemma sub_drain_ok:
  assumes "sub_ok n i sub" "sub_drain cd mx sub = (out, sub')"
  shows "sub_ok n i sub' \<and> sub_names sub' = sub_names sub"
proof -
  from assms(1) obtain r where r: "sb_ring sub = Some r" "ring_ok r" "ring_cap r = n" "\<not> sb_closed sub" by (auto simp: sub_ok_def split: option.splits)
  obtain evs d m r' where d: "ring_drain mx r = ((evs, d, m), r')" by (metis surj_pair)
  from assms(2) r(1,4) d have "sub' = sub\<lparr>sb_ring := Some r'\<rparr>" by (auto simp: sub_drain_def)
  with ring_drain_spec [OF r(2) d] assms(1) r show ?thesis by (auto simp: sub_ok_def sub_names_def)
qed

text \<open>The router calls a consumer by its id: a subscription or the index.\<close>

definition deliver_to :: "codec \<Rightarrow> (string \<Rightarrow> change_event option) \<Rightarrow> string \<Rightarrow> log_entry \<Rightarrow> mcp_server \<Rightarrow> mcp_server" where
  "deliver_to cd unmarshal i entry s =
     (case gm_get (sv_subs s) i of
        Some sub \<Rightarrow> s\<lparr>sv_subs := gm_set i (sub_Deliver cd unmarshal entry sub) (sv_subs s)\<rparr>
      | None \<Rightarrow> if i = recentConsumerID then s\<lparr>sv_recent := map_option (recent_Deliver unmarshal entry) (sv_recent s)\<rparr> else s)"

definition nudge_turn :: "string \<Rightarrow> mcp_server \<Rightarrow> mcp_server" where
  "nudge_turn i s = (case gm_get (sv_subs s) i of Some sub \<Rightarrow> s\<lparr>sv_subs := gm_set i (fst (nudge_fires sub)) (sv_subs s)\<rparr> | None \<Rightarrow> s)"

lemma hygiene_sub: "hygiene_but X base s \<Longrightarrow> gm_get (sv_subs s) i = Some sub \<Longrightarrow> sub_ok (ring_size s) i sub"
  by (simp add: hygiene_but_def)

lemma hygiene_deliver:
  assumes "hygiene base s"
  shows "hygiene base (deliver_to cd um i e s)"
proof (cases "gm_get (sv_subs s) i")
  case None
  have "hygiene base (s\<lparr>sv_recent := map_option f (sv_recent s)\<rparr>)" for f by (rule hygiene_cong [OF assms]) auto
  with None assms show ?thesis by (simp add: deliver_to_def)
next
  case (Some sub)
  with hygiene_update [OF assms Some] sub_Deliver_ok [OF hygiene_sub [OF assms Some]] show ?thesis by (simp add: deliver_to_def)
qed

lemma hygiene_nudge:
  assumes "hygiene base s"
  shows "hygiene base (nudge_turn i s)"
proof (cases "gm_get (sv_subs s) i")
  case (Some sub)
  have "sub_ok (ring_size s) i (fst (nudge_fires sub)) \<and> sub_names (fst (nudge_fires sub)) = sub_names sub"
    using hygiene_sub [OF assms Some] by (simp add: nudge_fires_def sub_ok_def sub_names_def)
  with hygiene_update [OF assms Some] Some show ?thesis by (simp add: nudge_turn_def)
qed (simp add: nudge_turn_def assms)

lemma hygiene_drain:
  assumes "hygiene base s"
  shows "hygiene base (snd (getRecentEvents cd enc key i mx s))"
proof (cases "snd (getRecentEvents cd enc key i mx s) = s")
  case False
  then obtain sub out sub' m where sub: "gm_get (sv_subs s) (TrimSpace i) = Some sub" "sub_drain cd m sub = (out, sub')"
      and t: "snd (getRecentEvents cd enc key i mx s) = s\<lparr>sv_subs := gm_set (TrimSpace i) sub' (sv_subs s)\<rparr>"
    by (auto simp: getRecentEvents_def Let_def split: option.splits if_splits prod.splits)
  from hygiene_update [OF assms sub(1)] sub_drain_ok [OF hygiene_sub [OF assms sub(1)] sub(2)] show ?thesis unfolding t by blast
qed (simp add: assms)

lemma hygiene_unsubscribe:
  assumes "hygiene base s"
  shows "hygiene base (snd (unsubscribe key i s))"
  using assms hygiene_remove(1) [OF assms] by (auto simp: unsubscribe_def Let_def split: option.splits)

subsection \<open>Start and shutdown\<close>

lemma mset_fold_remove1: "mset (fold remove1 ids reg) = mset reg - mset ids"
  by (induction ids arbitrary: reg) auto

lemma hygiene_cleanupAll:
  assumes h: "hygiene base s"
  shows "hygiene base (cleanupAllSubscriptions s) \<and> sv_subs (cleanupAllSubscriptions s) = [] \<and>
    map_option mset (sv_registry (cleanupAllSubscriptions s)) = map_option (\<lambda>_. base) (sv_registry s)"
proof -
  let ?t = "cleanupAllSubscriptions s"
  have wf: "gm_wf (sv_subs s)" using h by (simp add: hygiene_but_def)
  have id: "fst p = sb_id (snd p) \<and> sb_resourceURI (snd p) = subscriptionURIPrefix @ fst p" if "p \<in> set (sv_subs s)" for p
    using that hygiene_sub [OF h, of "fst p" "snd p"] gm_mem_iff [OF wf, of "fst p" "snd p"] by (simp add: sub_ok_def)
  have "fold (\<lambda>(i, sub). remove1 (sb_id sub)) m reg = fold remove1 (map fst m) reg" if "set m \<subseteq> set (sv_subs s)" for m reg
    using that by (induction m arbitrary: reg) (auto dest: id)
  then have f: "fold (\<lambda>(i, sub). remove1 (sb_id sub)) (sv_subs s) = fold remove1 (map fst (sv_subs s))" by auto
  have "(\<lambda>(i, sub). sb_resourceURI sub) ` set (sv_subs s) = (\<lambda>i. subscriptionURIPrefix @ i) ` set (map fst (sv_subs s))"
    using id by (force simp: image_image)
  then have r: "sv_resources s - (\<lambda>(i, sub). sb_resourceURI sub) ` set (sv_subs s) = {}" using h by (simp add: hygiene_but_def)
  have t: "sv_subs ?t = []" "sv_sessionSubs ?t = []" "sv_resources ?t = {}" "sv_recent ?t = None"
      "sv_active ?t = map_option (\<lambda>n. n - int (length (sv_subs s))) (sv_active s)"
      "sv_registry ?t = map_option (\<lambda>reg. (if sv_recent s = None then id else remove1 recentConsumerID) (fold remove1 (map fst (sv_subs s)) reg)) (sv_registry s)"
    by (auto simp: cleanupAllSubscriptions_def stopRecentIndexLocked_def f r option.map_comp comp_def split: option.split)
  have reg: "map_option mset (sv_registry ?t) = map_option (\<lambda>_. base) (sv_registry s)"
    using h unfolding t(6) by (cases "sv_registry s") (auto simp: hygiene_but_def mset_fold_remove1)
  then have "case sv_registry ?t of None \<Rightarrow> True | Some reg \<Rightarrow> mset reg = base" by (cases "sv_registry s") (auto split: option.split)
  then have "hygiene base ?t"
    using h by (intro hygieneI) (auto simp: t session_ids_def owned_def max_subs_def hygiene_but_def DefaultMaxSubscriptions_def split: option.splits)
  with reg t(1) show ?thesis by simp
qed

lemma hygiene_SetRouter:
  assumes "hygiene base s" "sv_subs s = []" "sv_keys s \<noteq> []" "mset reg = base"
  shows "hygiene base (mcp_SetRouter (Some reg) s)"
proof -
  let ?t = "mcp_SetRouter (Some reg) s"
  have t: "sv_subs ?t = []" "sv_registry ?t = Some (reg @ [recentConsumerID])" "sv_recent ?t \<noteq> None" "sv_resources ?t = sv_resources s"
      "sv_active ?t = sv_active s" "sv_sessionSubs ?t = sv_sessionSubs s" "sv_maxSubscriptions ?t = sv_maxSubscriptions s"
    using assms(2,3) by (auto simp: mcp_SetRouter_def startRecentIndexLocked_def Let_def split: option.split)
  show ?thesis using assms
    by (intro hygieneI) (auto simp: t session_ids_def owned_def max_subs_def hygiene_but_def split: option.splits)
qed

section \<open>The server's life\<close>

definition mcp_init :: "mcp_server \<Rightarrow> bool" where
  "mcp_init s \<longleftrightarrow> sv_subs s = [] \<and> sv_sessionSubs s = [] \<and> sv_registry s = None \<and> sv_recent s = None \<and> sv_resources s = {} \<and>
     (sv_active s = None \<or> sv_active s = Some 0)"

text \<open>
  One call at a time, in any order: tool calls of any key, deliveries, nudges, the end of a session, the shutdown. A
  subscription id is new (ULIDs do not repeat); the router is set while there is no subscription, on a server with keys.
\<close>

inductive mcp_step :: "codec \<Rightarrow> string multiset \<Rightarrow> mcp_server \<Rightarrow> mcp_server \<Rightarrow> bool" for cd base where
  Router: "sv_subs s = [] \<Longrightarrow> sv_keys s \<noteq> [] \<Longrightarrow> mset reg = base \<Longrightarrow> mcp_step cd base s (mcp_SetRouter (Some reg) s)"
| Subscribe: "(\<And>k. key = Some k \<Longrightarrow> gm_get (sv_subs s) (''mcp:'' @ rk_name k @ '':'' @ ulid) = None) \<Longrightarrow>
    mcp_step cd base s (snd (handleSubscribeToChanges pf cd now ulid key sess mc s))"
| Unsubscribe: "mcp_step cd base s (snd (handleUnsubscribe key i s))"
| ListSubs: "mcp_step cd base s (snd (handleListSubscriptions key s))"
| Drain: "mcp_step cd base s (snd (handleGetRecentEvents cd (enc :: change_event \<Rightarrow> json option) key i mx s))"
| Lookup: "mcp_step cd base s (snd (handleGetEventByID cd (enc :: change_event \<Rightarrow> json option) key i s))"
| Delivery: "mcp_step cd base s (deliver_to cd unmarshal i entry s)"
| Nudge: "mcp_step cd base s (nudge_turn i s)"
| SessionEnd: "mcp_step cd base s (cleanupSession sess s)"
| Shutdown: "mcp_step cd base s (cleanupAllSubscriptions s)"

lemma hygiene_init: "mcp_init s \<Longrightarrow> hygiene base s"
  by (intro hygieneI) (auto simp: mcp_init_def session_ids_def owned_def max_subs_def DefaultMaxSubscriptions_def)

lemma hygiene_step:
  assumes "mcp_step cd base s t" "hygiene base s"
  shows "hygiene base t"
  using assms
proof cases
  case (Subscribe key ulid pf now sess mc)
  then show ?thesis using hygiene_record hygiene_subscribe [OF assms(2)]
    by (simp add: handleSubscribeToChanges_def split: prod.splits) (metis snd_conv)
next
  case (Unsubscribe key i)
  then show ?thesis using hygiene_record hygiene_unsubscribe [OF assms(2), of key i] by (simp add: handleUnsubscribe_def split: prod.splits)
next
  case (Drain enc key i mx)
  then show ?thesis using hygiene_record hygiene_drain [OF assms(2), of cd enc key i mx] by (simp add: handleGetRecentEvents_def split: prod.splits)
next
  case (SessionEnd sess)
  then show ?thesis using cleanupSession_spec [OF assms(2), of sess] assms(2) by (cases "sess = []") (simp_all add: cleanupSession_def)
qed (use assms(2) in \<open>simp_all add: hygiene_SetRouter hygiene_deliver hygiene_nudge hygiene_cleanupAll hygiene_record
    handleListSubscriptions_def handleGetEventByID_def split: prod.splits\<close>)

lemma hygiene_reach:
  assumes "(mcp_step cd base)\<^sup>*\<^sup>* s0 s" "mcp_init s0"
  shows "hygiene base s"
  using assms by (induction rule: rtranclp_induct) (auto intro: hygiene_init hygiene_step)

text \<open>
  C33. Subscription hygiene: after any calls, deliveries and session ends the router has exactly one consumer per live
  subscription beside the index and its own, the published resources and the gauge count the live subscriptions, every
  ring is within its size and no key has more than its share. The end of a session removes the session's
  subscriptions, and no other.
\<close>

theorem mcp_subscription_hygiene:
  assumes "(mcp_step cd base)\<^sup>*\<^sup>* s0 s" "mcp_init s0" "sess \<noteq> []"
  shows "hygiene base s \<and> hygiene base (cleanupSession sess s) \<and>
    gm_get (sv_subs (cleanupSession sess s)) j = (if j \<in> session_ids sess s then None else gm_get (sv_subs s) j)"
  using hygiene_reach [OF assms(1,2)] cleanupSession_spec [of base s sess] assms(3) by simp

section \<open>Keys do not see each other\<close>

text \<open>\<open>foreign k i s\<close>: the id is that of another key's subscription.\<close>

definition foreign :: "resolved_key \<Rightarrow> string \<Rightarrow> mcp_server \<Rightarrow> bool" where
  "foreign k i s \<longleftrightarrow> (case gm_get (sv_subs s) i of None \<Rightarrow> False | Some sub \<Rightarrow> sb_keyName sub \<noteq> rk_name k)"

definition without :: "string \<Rightarrow> mcp_server \<Rightarrow> mcp_server" where
  "without i s = s\<lparr>sv_subs := gm_del i (sv_subs s)\<rparr>"

lemma without_get [simp]: "gm_get (sv_subs (without i s)) i = None"
  by (simp add: without_def gm_get_del)

lemma URI_id: "TrimPrefix (subscriptionURIPrefix @ i) subscriptionURIPrefix = i"
  by (simp add: TrimPrefix_def HasPrefix_def)


section \<open>What a subscription drains\<close>

text \<open>The events of the log that a subscription takes: decodable, matched, of an allowed table.\<close>

definition takes :: "codec \<Rightarrow> (string \<Rightarrow> change_event option) \<Rightarrow> subscription \<Rightarrow> log_entry \<Rightarrow> change_event option" where
  "takes cd unmarshal sub entry =
     (case MaterializeEvent unmarshal entry of
        Inl e \<Rightarrow> None
      | Inr entry' \<Rightarrow>
          (case le_event entry' of
             None \<Rightarrow> None
           | Some ev \<Rightarrow>
               if matcher_Match (cd_convs cd) (cd_row cd) (sb_matcher sub) ev = Inr True \<and>
                  AllowTable cd (sb_acl sub) (qualifiedName (ev_schema ev) (ev_table ev))
               then Some ev else None))"

lemma sub_Deliver_takes:
  assumes "\<not> sb_closed sub" "sb_ring sub = Some r"
  shows "sub_Deliver cd um e sub =
    (case takes cd um sub e of None \<Rightarrow> sub | Some ev \<Rightarrow> sub\<lparr>sb_ring := Some (snd (ring_push ev r)), sb_nudgePending := True\<rparr>)"
  using assms by (auto simp: sub_Deliver_def takes_def split: sum.split option.split)

lemma takes_cong: "sb_matcher sub = sb_matcher sub' \<Longrightarrow> sb_acl sub = sb_acl sub' \<Longrightarrow> takes cd um sub = takes cd um sub'"
  by (simp add: takes_def fun_eq_iff split: sum.split option.split)

lemma takes_allowed: "takes cd um sub e = Some ev \<Longrightarrow> acl_Apply cd (sb_acl sub) ev \<noteq> None"
  by (auto simp: takes_def acl_Apply_def Let_def split: sum.splits option.splits if_splits)

lemma deliveries:
  assumes "\<not> sb_closed sub" "sb_ring sub = Some r"
  shows "sb_closed (fold (sub_Deliver cd um) es sub) = False \<and> sb_acl (fold (sub_Deliver cd um) es sub) = sb_acl sub \<and>
    sb_ring (fold (sub_Deliver cd um) es sub) = Some (fold (\<lambda>ev r. snd (ring_push ev r)) (List.map_filter (takes cd um sub) es) r) \<and>
    (sb_nudgePending (fold (sub_Deliver cd um) es sub) \<longleftrightarrow> sb_nudgePending sub \<or> List.map_filter (takes cd um sub) es \<noteq> [])"
  using assms
proof (induction es arbitrary: sub r)
  case (Cons e es)
  show ?case
  proof (cases "takes cd um sub e")
    case None
    with Cons show ?thesis by (simp add: sub_Deliver_takes map_filter_simps)
  next
    case (Some ev)
    let ?sub = "sub\<lparr>sb_ring := Some (snd (ring_push ev r)), sb_nudgePending := True\<rparr>"
    have "takes cd um ?sub = takes cd um sub" by (rule takes_cong) simp_all
    with Cons.IH [of ?sub "snd (ring_push ev r)"] Cons.prems Some show ?thesis by (simp add: sub_Deliver_takes map_filter_simps)
  qed
qed (simp add: map_filter_simps)


section \<open>Every tool call is audited\<close>

definition audited :: "resolved_key option \<Rightarrow> audit_record list \<Rightarrow> (mcp_error + 'r) \<times> mcp_server \<Rightarrow> bool" where
  "audited key rs out \<longleftrightarrow>
     (\<exists>r. sv_audit (snd out) = Some (rs @ [r]) \<and> au_key r = key_label key \<and> (au_outcome r = OutcomeOK \<longleftrightarrow> \<not> isl (fst out)))"

lemma audit_kept:
  "sv_audit (snd (subscribeToChanges pf cd now ulid key sess mc s)) = sv_audit s" "sv_audit (snd (unsubscribe key i s)) = sv_audit s"
  "sv_audit (snd (getRecentEvents cd enc key i mx s)) = sv_audit s"
  subgoal using subscribe_cases [of pf cd now ulid key sess mc s] by (auto simp: add_subscription_def Let_def)
  subgoal by (auto simp: unsubscribe_def removeSubscriptionLocked_def Let_def split: option.split)
  subgoal by (auto simp: getRecentEvents_def Let_def split: option.split prod.split)
  done

lemma outcome_says:
  "subscribeToChanges pf cd now ulid key sess mc s = ((o1, ts, oc1), s1) \<Longrightarrow> oc1 = OutcomeOK \<longleftrightarrow> \<not> isl o1"
  "unsubscribe key i s = ((o2, oc2), s2) \<Longrightarrow> oc2 = OutcomeOK \<longleftrightarrow> \<not> isl o2"
  "getRecentEvents cd enc key i mx s = ((o3, oc3), s3) \<Longrightarrow> oc3 = OutcomeOK \<longleftrightarrow> \<not> isl o3"
  "listSubscriptions key s = (o4, oc4) \<Longrightarrow> oc4 = OutcomeOK \<longleftrightarrow> \<not> isl o4"
  "getEventByID cd enc' key i s = (o5, ts5, oc5) \<Longrightarrow> oc5 = OutcomeOK \<longleftrightarrow> \<not> isl o5"
  subgoal by (auto simp: subscribeToChanges_def Let_def split: option.splits sum.splits if_splits)
  subgoal by (auto simp: unsubscribe_def Let_def split: option.splits if_splits)
  subgoal by (auto simp: getRecentEvents_def Let_def split: option.splits if_splits prod.splits)
  subgoal by (auto simp: listSubscriptions_def split: option.splits)
  subgoal by (auto simp: getEventByID_def Let_def split: option.splits if_splits)
  done

lemma audited_record:
  "sv_audit s = Some rs \<Longrightarrow> oc = OutcomeOK \<longleftrightarrow> \<not> isl out \<Longrightarrow> audited key rs (out, RecordToolCall (key_label key) tool ps ts oc s)"
  by (simp add: audited_def RecordToolCall_def)

text \<open>
  Audit completeness: each tool call appends exactly one line, with the caller's name, and its outcome is \<open>ok\<close>
  exactly when the call returned a result.
\<close>

theorem mcp_calls_audited:
  assumes "sv_audit s = Some rs"
  shows "audited key rs (handleSubscribeToChanges pf cd now ulid key sess mc s) \<and> audited key rs (handleUnsubscribe key i s) \<and>
    audited key rs (handleListSubscriptions key s) \<and> audited key rs (handleGetRecentEvents cd enc key i mx s) \<and>
    audited key rs (handleGetEventByID cd enc' key i s)"
proof (intro conjI)
  show "audited key rs (handleSubscribeToChanges pf cd now ulid key sess mc s)"
    using audit_kept(1) [of pf cd now ulid key sess mc s] assms outcome_says(1) [of pf cd now ulid key sess mc s]
    by (auto simp: handleSubscribeToChanges_def split: prod.split intro!: audited_record)
  show "audited key rs (handleUnsubscribe key i s)"
    using audit_kept(2) [of key i s] assms outcome_says(2) [of key i s] by (auto simp: handleUnsubscribe_def split: prod.split intro!: audited_record)
  show "audited key rs (handleGetRecentEvents cd enc key i mx s)"
    using audit_kept(3) [of cd enc key i mx s] assms outcome_says(3) [of cd enc key i mx s]
    by (auto simp: handleGetRecentEvents_def split: prod.split intro!: audited_record)
  show "audited key rs (handleListSubscriptions key s)"
    using assms outcome_says(4) [of key s] by (auto simp: handleListSubscriptions_def split: prod.split intro!: audited_record)
  show "audited key rs (handleGetEventByID cd enc' key i s)"
    using assms outcome_says(5) [of cd enc' key i s] by (auto simp: handleGetEventByID_def split: prod.split intro!: audited_record)
qed

end
