(* ===== verification/Mcp_Examples.thy ===== *)
theory Mcp_Examples
  imports Mcp_Props
begin

text \<open>
  A server with one key, one session and one subscription: the hypotheses of the MCP theorems hold there. And a
  subscription made while its session ends, which nothing removes.
\<close>

definition ex_rk :: resolved_key where
  "ex_rk = \<lparr>rk_name = ''bot'', rk_secret = ''s3'', rk_acl = ex_acl\<rparr>"

definition ex_srv :: mcp_server where
  "ex_srv = \<lparr>sv_keys = [ex_rk], sv_maxSubscriptions = 1, sv_ringSize = 2, sv_recentSize = 0, sv_registry = None, sv_subs = [], sv_sessionSubs = [],
     sv_recent = None, sv_resources = {}, sv_active = Some 0, sv_audit = Some []\<rparr>"

definition ex_sub_match :: match_config where
  "ex_sub_match = \<lparr>mt_tables = [''public.orders''], mt_operations = [], mt_where = []\<rparr>"

definition ex_sub_matcher :: matcher where
  "ex_sub_matcher = \<lparr>ma_tables = [no_glob\<lparr>tg_exact := ''public.orders''\<rparr>], ma_matchAll = False, ma_ops = opAll, ma_rowFilter = None\<rparr>"

definition ex_sid :: string where "ex_sid = ''mcp:bot:u1''"

definition ex_sub :: subscription where
  "ex_sub = new_subscription 0 ex_sid ''S1'' ex_rk ex_sub_match ex_sub_matcher 2"

definition ex_up :: mcp_server where
  "ex_up = mcp_SetRouter (Some [''sse'']) ex_srv"

definition ex_subscribed :: mcp_server where
  "ex_subscribed = snd (handleSubscribeToChanges (\<lambda>_. None) ex_codec 0 ''u1'' (Some ex_rk) ''S1'' ex_sub_match ex_up)"

lemma ex_sub_compiles: "routing_Compile (\<lambda>_. None) ex_sub_match = Inr ex_sub_matcher"
  by (simp add: routing_Compile_def compileTableGlob_def ex_sub_match_def ex_sub_matcher_def no_glob_def)

lemma ex_allowed: "AllowTable ex_codec ex_acl ''public.orders''"
  using AllowTable_iff [OF ex_acl_compiles] by (simp add: covers_def ex_key_def glob_reads_def)

lemma ex_up_fields: "sv_subs ex_up = []" "sv_registry ex_up = Some [''sse'', recentConsumerID]" "sv_sessionSubs ex_up = []"
  "owned n ex_up = 0" "max_subs ex_up = 1" "sv_ringSize ex_up = 2" "sv_audit ex_up = Some []"
  by (simp_all add: ex_up_def mcp_SetRouter_def startRecentIndexLocked_def ex_srv_def owned_def max_subs_def Let_def)

lemma ex_rk_fields: "rk_name ex_rk = ''bot''" "rk_acl ex_rk = ex_acl"
  by (simp_all add: ex_rk_def)

lemma ex_subscribes:
  assumes "sv_registry s = Some reg" "int (owned ''bot'' s) < max_subs s" "sv_ringSize s = 2"
  shows "subscribeToChanges (\<lambda>_. None) ex_codec 0 ''u1'' (Some ex_rk) ''S1'' ex_sub_match s =
    ((Inr (ex_sid, subscriptionURIPrefix @ ex_sid), [''public.orders''], OutcomeOK), add_subscription reg ex_sub s)"
proof -
  have "FilterTables ex_codec ex_acl [''public.orders''] = [''public.orders'']" by (simp add: FilterTables_def ex_allowed)
  moreover have e: "ex_sub_match\<lparr>mt_tables := [''public.orders'']\<rparr> = ex_sub_match" by (simp add: ex_sub_match_def)
  moreover have "mt_tables ex_sub_match = [''public.orders'']" by (simp add: ex_sub_match_def)
  moreover have "new_subscription 0 ''mcp:bot:u1'' ''S1'' ex_rk ex_sub_match ex_sub_matcher 2 = ex_sub" by (simp add: ex_sub_def ex_sid_def)
  moreover have "sb_resourceURI ex_sub = subscriptionURIPrefix @ ''mcp:bot:u1''" by (simp add: ex_sub_def new_subscription_def ex_sid_def)
  ultimately show ?thesis using assms by (simp add: subscribeToChanges_def e ex_sub_compiles ex_rk_fields ex_sid_def Let_def)
qed

lemma ex_subscribed_subs: "sv_subs ex_subscribed = [(ex_sid, ex_sub)]"
  by (simp add: ex_subscribed_def handleSubscribeToChanges_def ex_subscribes ex_up_fields RecordToolCall_def add_subscription_def Let_def)
     (simp add: ex_sub_def new_subscription_def)

lemma ex_reach: "(mcp_step ex_codec {#''sse''#})\<^sup>*\<^sup>* ex_srv ex_subscribed"
proof -
  have "mcp_step ex_codec {#''sse''#} ex_srv ex_up" unfolding ex_up_def by (rule Router) (simp_all add: ex_srv_def)
  moreover have "mcp_step ex_codec {#''sse''#} ex_up ex_subscribed" unfolding ex_subscribed_def by (rule Subscribe) (simp add: ex_up_fields)
  ultimately show ?thesis by (rule converse_rtranclp_into_rtranclp [OF _ r_into_rtranclp])
qed

theorem mcp_subscription_hygiene_witness:
  "(mcp_step ex_codec {#''sse''#})\<^sup>*\<^sup>* ex_srv ex_subscribed \<and> ex_sid \<in> session_ids ''S1'' ex_subscribed \<and> hygiene {#''sse''#} ex_subscribed \<and>
   hygiene {#''sse''#} (cleanupSession ''S1'' ex_subscribed) \<and> gm_get (sv_subs (cleanupSession ''S1'' ex_subscribed)) ex_sid = None"
proof -
  have i: "mcp_init ex_srv" by (simp add: mcp_init_def ex_srv_def)
  have m: "ex_sid \<in> session_ids ''S1'' ex_subscribed"
    by (simp add: session_ids_def ex_subscribed_subs) (simp add: ex_sub_def new_subscription_def)
  from mcp_subscription_hygiene [OF ex_reach i, of "''S1''" ex_sid] m ex_reach show ?thesis by simp
qed

definition ex_other :: resolved_key where
  "ex_other = \<lparr>rk_name = ''eve'', rk_secret = ''s4'', rk_acl = ex_acl\<rparr>"


definition ex_log_entry :: log_entry where
  "ex_log_entry = \<lparr>le_seq = 1, le_partition = 0, le_event = Some ex_order_update, le_raw = []\<rparr>"

lemma ex_takes: "takes ex_codec (\<lambda>_. None) ex_sub ex_log_entry = Some ex_order_update"
proof -
  have q: "qualifiedName (ev_schema ex_order_update) (ev_table ex_order_update) = ''public.orders''"
    by (simp add: ex_order_update_def ex_order_read_def qualifiedName_def)
  have "ev_operation ex_order_update = OpUpdate" by (simp add: ex_order_update_def)
  then have "matcher_Match (cd_convs ex_codec) (cd_row ex_codec) ex_sub_matcher ex_order_update = Inr True"
    unfolding matcher_Match_def q by (simp add: ex_sub_matcher_def matchOp_def matchTable_def glob_match_def no_glob_def op_bits op_defs Match_def)
  moreover have "sb_matcher ex_sub = ex_sub_matcher" "sb_acl ex_sub = ex_acl" by (simp_all add: ex_sub_def new_subscription_def ex_rk_def)
  ultimately show ?thesis unfolding takes_def MaterializeEvent_def by (simp add: ex_log_entry_def q ex_allowed)
qed


theorem mcp_calls_audited_witness:
  "sv_audit ex_up = Some [] \<and> audited (Some ex_rk) [] (handleUnsubscribe (Some ex_rk) ex_sid ex_up) \<and> audited None [] (handleListSubscriptions None ex_up)"
  using mcp_calls_audited [OF ex_up_fields(7), where key = "Some ex_rk" and i = ex_sid] mcp_calls_audited [OF ex_up_fields(7), where key = None] ex_up_fields(7) by blast

text \<open>
  A tool call that is still running when its session ends: the session's cleanup finds nothing to remove, the
  subscription is made after it, and no later event of that session removes it.
\<close>

lemma late_subscribe_stays:
  "sv_subs (snd (handleSubscribeToChanges (\<lambda>_. None) ex_codec 0 ''u1'' (Some ex_rk) ''S1'' ex_sub_match (cleanupSession ''S1'' ex_up))) = [(ex_sid, ex_sub)]"
proof -
  have "cleanupSession ''S1'' ex_up = ex_up" by (simp add: cleanupSession_def ex_up_fields gm_get0_def)
  then show ?thesis using ex_subscribed_subs by (simp add: ex_subscribed_def)
qed

end
