(* ===== verification/Enrich.thy ===== *)
theory Enrich
  imports Routing
begin

text \<open>
  The enrichment stage before the event log (\<open>internal/enrich\<close>): an HTTP call that may attach an AI context to an event, with a
  circuit breaker and a check of the addresses it may dial. The answers of the network, of the clock and of the JSON
  library are arguments. Shown: the stage fails open, the breaker stops the calls, and what may be dialled.
\<close>

section \<open>The client\<close>

datatype reason = ReasonTimeout | ReasonStatus | ReasonError | ReasonInvalid | ReasonOversize | ReasonNonObject | ReasonCircuitOpen

definition maxAIContextBytes :: nat where "maxAIContextBytes = 16 * 1024"

record http_client =
  hc_consecutiveTimeouts :: int
  hc_circuitOpenedAt :: "int option"
  hc_circuitThreshold :: int
  hc_circuitCooldown :: int

text \<open>Five timeouts, five seconds (in milliseconds).\<close>

definition new_http_client :: http_client where
  "new_http_client = \<lparr>hc_consecutiveTimeouts = 0, hc_circuitOpenedAt = None, hc_circuitThreshold = 5, hc_circuitCooldown = 5000\<rparr>"

definition checkCircuit :: "int \<Rightarrow> http_client \<Rightarrow> bool \<times> http_client" where
  "checkCircuit now c =
     (if hc_consecutiveTimeouts c < hc_circuitThreshold c then (True, c)
      else let opened = (case hc_circuitOpenedAt c of None \<Rightarrow> now | Some t \<Rightarrow> t); c' = c\<lparr>hc_circuitOpenedAt := Some opened\<rparr>
           in (\<not> now - opened < hc_circuitCooldown c, c'))"

definition recordTimeout :: "int \<Rightarrow> http_client \<Rightarrow> http_client" where
  "recordTimeout now c =
     (let n = hc_consecutiveTimeouts c + 1
      in c\<lparr>hc_consecutiveTimeouts := n, hc_circuitOpenedAt := (if n \<ge> hc_circuitThreshold c then Some now else hc_circuitOpenedAt c)\<rparr>)"

definition recordSuccess :: "http_client \<Rightarrow> http_client" where
  "recordSuccess c = c\<lparr>hc_consecutiveTimeouts := 0, hc_circuitOpenedAt := None\<rparr>"

text \<open>JSON: \<open>json.Valid\<close>, and whether the bytes decode into an object.\<close>

record json_lib =
  jl_valid :: "string \<Rightarrow> bool"
  jl_object :: "string \<Rightarrow> bool"

text \<open>The body is the bytes the reader yields, or an error before the limit is reached.\<close>

definition readAIContext :: "json_lib \<Rightarrow> string option \<Rightarrow> reason + string" where
  "readAIContext jl body =
     (case map_option (take (maxAIContextBytes + 1)) body of
        None \<Rightarrow> Inl ReasonError
      | Some data \<Rightarrow>
          if length data > maxAIContextBytes then Inl ReasonOversize
          else if TrimSpace data = [] then Inl ReasonInvalid
          else if \<not> jl_valid jl data then Inl ReasonInvalid
          else if hd (TrimSpace data) \<noteq> CHR ''{'' then Inl ReasonNonObject
          else if \<not> jl_object jl data then Inl ReasonNonObject
          else Inr data)"

text \<open>An error of \<open>Do\<close>: the context was cancelled, it expired or the error is a timeout, or another.\<close>

datatype do_result = DoCanceled | DoTimeout | DoFailed | Resp int "string option"

record call_env =
  ce_check :: int
  ce_marshal :: bool
  ce_request :: bool
  ce_do :: do_result
  ce_done :: int

text \<open>The call after the breaker has let it pass: the answer, whether a request went out, and the client.\<close>

definition post_send :: "json_lib \<Rightarrow> call_env \<Rightarrow> http_client \<Rightarrow> (reason + raw_message) \<times> bool \<times> http_client" where
  "post_send jl e c =
     (if \<not> ce_marshal e then (Inl ReasonError, False, c)
      else if \<not> ce_request e then (Inl ReasonError, False, c)
      else case ce_do e of
             DoCanceled \<Rightarrow> (Inl ReasonError, True, c)
           | DoTimeout \<Rightarrow> (Inl ReasonTimeout, True, recordTimeout (ce_done e) c)
           | DoFailed \<Rightarrow> (Inl ReasonError, True, c)
           | Resp status body \<Rightarrow>
               if status = 204 then (Inr None, True, recordSuccess c)
               else if status = 200
               then (case readAIContext jl body of Inl r \<Rightarrow> (Inl r, True, c) | Inr d \<Rightarrow> (Inr (Some d), True, recordSuccess c))
               else (Inl ReasonStatus, True, c))"

definition enrich_post :: "json_lib \<Rightarrow> call_env \<Rightarrow> http_client \<Rightarrow> (reason + raw_message) \<times> bool \<times> http_client" where
  "enrich_post jl e c =
     (case checkCircuit (ce_check e) c of
        (False, c') \<Rightarrow> (Inl ReasonCircuitOpen, False, c')
      | (True, c') \<Rightarrow> post_send jl e c')"

section \<open>The stage\<close>

record enricher =
  en_enabled :: bool
  en_matcher :: matcher

record match_lib =
  ml_convs :: convs
  ml_row :: row_decoder
  ml_json :: json_lib

definition Enrich :: "match_lib \<Rightarrow> enricher \<Rightarrow> call_env \<Rightarrow> change_event \<Rightarrow> http_client \<Rightarrow> change_event \<times> http_client" where
  "Enrich ml en e ev c =
     (if \<not> en_enabled en then (ev, c)
      else if matcher_Match (ml_convs ml) (ml_row ml) (en_matcher en) ev \<noteq> Inr True then (ev, c)
      else case enrich_post (ml_json ml) e c of
             (Inl r, sent, c') \<Rightarrow> (ev, c')
           | (Inr None, sent, c') \<Rightarrow> (ev, c')
           | (Inr (Some d), sent, c') \<Rightarrow> (ev\<lparr>ev_ai_context := Some d\<rparr>, c'))"

text \<open>
  A batch: the calls run concurrently, each on its own event, and the batch is appended when all are done. The client is
  shared, so a schedule says in which order the calls ask the breaker (\<open>False\<close>) and finish (\<open>True\<close>); \<open>passed\<close> are the calls
  the breaker has let pass.
\<close>

fun enrich_all :: "match_lib \<Rightarrow> enricher \<Rightarrow> (nat \<Rightarrow> call_env) \<Rightarrow> (nat \<times> bool) list \<Rightarrow> nat list \<Rightarrow> change_event list \<Rightarrow> http_client \<Rightarrow> change_event list \<times> http_client" where
  "enrich_all ml en env [] passed evs c = (evs, c)"
| "enrich_all ml en env ((i, False) # sched) passed evs c =
     (if i < length evs \<and> en_enabled en \<and> matcher_Match (ml_convs ml) (ml_row ml) (en_matcher en) (evs ! i) = Inr True
      then let (ok, c') = checkCircuit (ce_check (env i)) c in enrich_all ml en env sched (if ok then i # passed else passed) evs c'
      else enrich_all ml en env sched passed evs c)"
| "enrich_all ml en env ((i, True) # sched) passed evs c =
     (if i < length evs \<and> i \<in> set passed
      then let (r, sent, c') = post_send (ml_json ml) (env i) c;
               evs' = (case r of Inr (Some d) \<Rightarrow> evs[i := (evs ! i)\<lparr>ev_ai_context := Some d\<rparr>] | _ \<Rightarrow> evs)
           in enrich_all ml en env sched (remove1 i passed) evs' c'
      else enrich_all ml en env sched passed evs c)"

definition enriching_AppendBatch ::
  "(change_event list \<Rightarrow> 'log \<Rightarrow> 'r \<times> 'log) \<Rightarrow> match_lib \<Rightarrow> enricher \<Rightarrow> (nat \<Rightarrow> call_env) \<Rightarrow> (nat \<times> bool) list \<Rightarrow> change_event list \<Rightarrow>
   http_client \<times> 'log \<Rightarrow> 'r \<times> http_client \<times> 'log" where
  "enriching_AppendBatch inner ml en env sched evs st =
     (case st of
        (c, log) \<Rightarrow>
          let (evs', c') = enrich_all ml en env sched [] evs c; (r, log') = inner evs' log in (r, c', log'))"

definition enriching_Append ::
  "(change_event \<Rightarrow> 'log \<Rightarrow> 'r \<times> 'log) \<Rightarrow> match_lib \<Rightarrow> enricher \<Rightarrow> call_env \<Rightarrow> change_event \<Rightarrow> http_client \<times> 'log \<Rightarrow> 'r \<times> http_client \<times> 'log" where
  "enriching_Append inner ml en e ev st =
     (case st of (c, log) \<Rightarrow> let (ev', c') = Enrich ml en e ev c; (r, log') = inner ev' log in (r, c', log'))"

section \<open>Addresses\<close>

text \<open>A Go address is a slice of four or sixteen bytes.\<close>

type_synonym ip = "nat list"

definition To4 :: "ip \<Rightarrow> ip option" where
  "To4 p =
     (if length p = 4 then Some p
      else if length p = 16 \<and> take 10 p = replicate 10 0 \<and> p ! 10 = 255 \<and> p ! 11 = 255 then Some (drop 12 p)
      else None)"

definition IsLoopback :: "ip \<Rightarrow> bool" where
  "IsLoopback p \<longleftrightarrow> (case To4 p of Some q \<Rightarrow> q ! 0 = 127 | None \<Rightarrow> p = replicate 15 0 @ [1])"

definition IsPrivate :: "ip \<Rightarrow> bool" where
  "IsPrivate p \<longleftrightarrow>
     (case To4 p of
        Some q \<Rightarrow> q ! 0 = 10 \<or> q ! 0 = 172 \<and> q ! 1 div 16 = 1 \<or> q ! 0 = 192 \<and> q ! 1 = 168
      | None \<Rightarrow> length p = 16 \<and> p ! 0 div 2 = 126)"

definition IsLinkLocalUnicast :: "ip \<Rightarrow> bool" where
  "IsLinkLocalUnicast p \<longleftrightarrow>
     (case To4 p of Some q \<Rightarrow> q ! 0 = 169 \<and> q ! 1 = 254 | None \<Rightarrow> length p = 16 \<and> p ! 0 = 254 \<and> p ! 1 div 64 = 2)"

definition IsLinkLocalMulticast :: "ip \<Rightarrow> bool" where
  "IsLinkLocalMulticast p \<longleftrightarrow>
     (case To4 p of Some q \<Rightarrow> q ! 0 = 224 \<and> q ! 1 = 0 \<and> q ! 2 = 0 | None \<Rightarrow> length p = 16 \<and> p ! 0 = 255 \<and> p ! 1 mod 16 = 2)"

definition IsUnspecified :: "ip \<Rightarrow> bool" where
  "IsUnspecified p \<longleftrightarrow> To4 p = Some [0, 0, 0, 0] \<or> p = replicate 16 0"

text \<open>\<open>up_show\<close> and \<open>up_parse\<close>: \<open>IP.String\<close> and \<open>net.ParseIP\<close>. Host names are ASCII, as in DNS.\<close>

record url_policy =
  up_allowHosts :: "string set"
  up_insecureAllowPrivate :: bool
  up_show :: "ip \<Rightarrow> string"
  up_parse :: "string \<Rightarrow> ip option"

definition newURLPolicy :: "(ip \<Rightarrow> string) \<Rightarrow> (string \<Rightarrow> ip option) \<Rightarrow> string list \<Rightarrow> bool \<Rightarrow> url_policy" where
  "newURLPolicy sh pa allowHosts insecure =
     \<lparr>up_allowHosts = (\<lambda>h. ToLower (TrimSpace h)) ` set allowHosts - {[]}, up_insecureAllowPrivate = insecure, up_show = sh, up_parse = pa\<rparr>"

definition isAllowlisted :: "url_policy \<Rightarrow> string \<Rightarrow> bool" where
  "isAllowlisted p host \<longleftrightarrow> ToLower host \<in> up_allowHosts p"

definition isBlockedIP :: "url_policy \<Rightarrow> ip \<Rightarrow> bool" where
  "isBlockedIP p a \<longleftrightarrow>
     (if up_insecureAllowPrivate p then False
      else if isAllowlisted p (up_show p a) then False
      else if IsLoopback a then False
      else if IsPrivate a \<or> IsLinkLocalUnicast a \<or> IsLinkLocalMulticast a \<or> IsUnspecified a then True
      else case To4 a of Some q \<Rightarrow> q ! 0 = 169 \<and> q ! 1 = 254 | None \<Rightarrow> False)"

datatype url_error = InvalidEndpoint | UnsupportedScheme string | MissingHost | BlockedMetadataHost string | BlockedDestination string

text \<open>\<open>url.Parse\<close> gives scheme, host and host name.\<close>

definition validateEnricherURL :: "(string \<Rightarrow> (string \<times> string \<times> string) option) \<Rightarrow> url_policy \<Rightarrow> string \<Rightarrow> url_error + string" where
  "validateEnricherURL Parse p rawURL =
     (case Parse rawURL of
        None \<Rightarrow> Inl InvalidEndpoint
      | Some (scheme, h, hostname) \<Rightarrow>
          if scheme = [] \<or> h = [] then Inl InvalidEndpoint
          else if scheme \<noteq> ''http'' \<and> scheme \<noteq> ''https'' then Inl (UnsupportedScheme scheme)
          else let host = ToLower hostname
               in if host = [] then Inl MissingHost
                  else if host \<in> {''metadata.google.internal'', ''metadata.goog''} then Inl (BlockedMetadataHost host)
                  else if isAllowlisted p host then Inr rawURL
                  else case up_parse p host of
                         Some a \<Rightarrow> if isBlockedIP p a then Inl (BlockedDestination host) else Inr rawURL
                       | None \<Rightarrow> Inr rawURL)"

section \<open>Configuration\<close>

text \<open>\<open>${NAME}\<close>, nothing around it.\<close>

definition env_ref :: "string \<Rightarrow> bool" where
  "env_ref s \<longleftrightarrow> length s \<ge> 4 \<and> take 2 s = ''${'' \<and> last s = CHR ''}'' \<and>
     (let v = butlast (drop 2 s) in list_all is_alnum v \<and> \<not> (48 \<le> code (hd v) \<and> code (hd v) \<le> 57))"

datatype enrich_error = EnrichMatch routing_error | BadTimeout string | BadToken | TokenUnset string | EnrichURL url_error

definition expandAuthToken :: "(string \<Rightarrow> string option) \<Rightarrow> string \<Rightarrow> enrich_error + string" where
  "expandAuthToken LookupEnv s =
     (let trimmed = TrimSpace s
      in if trimmed = [] then Inr []
         else if \<not> env_ref trimmed then Inl BadToken
         else let varName = butlast (drop 2 trimmed)
              in case LookupEnv varName of
                   None \<Rightarrow> Inl (TokenUnset varName)
                 | Some val \<Rightarrow> if val = [] then Inl (TokenUnset varName) else Inr val)"

record enrichment_config =
  ec_URL :: string
  ec_Tables :: "string list"
  ec_Operations :: "string list"
  ec_Timeout :: string
  ec_AuthToken :: string
  ec_AllowHosts :: "string list"
  ec_InsecureAllowPrivate :: bool

text \<open>\<open>url.Parse\<close>, \<open>time.ParseDuration\<close> in nanoseconds, the environment, and the address functions.\<close>

record start_lib =
  sl_url :: "string \<Rightarrow> (string \<times> string \<times> string) option"
  sl_duration :: "string \<Rightarrow> int option"
  sl_env :: "string \<Rightarrow> string option"
  sl_float :: "string \<Rightarrow> float64 option"
  sl_showIP :: "ip \<Rightarrow> string"
  sl_parseIP :: "string \<Rightarrow> ip option"

definition disabled_enricher :: enricher where
  "disabled_enricher = \<lparr>en_enabled = False, en_matcher = \<lparr>ma_tables = [], ma_matchAll = False, ma_ops = 0, ma_rowFilter = None\<rparr>\<rparr>"

text \<open>\<open>Compile\<close>; with the enricher come the timeout and the token of its client.\<close>

definition enrich_Compile :: "start_lib \<Rightarrow> enrichment_config \<Rightarrow> enrich_error + enricher \<times> int \<times> string" where
  "enrich_Compile sl cfg =
     (if TrimSpace (ec_URL cfg) = [] \<or> ec_Tables cfg = [] then Inr (disabled_enricher, 0, [])
      else let ops = (if ec_Operations cfg = [] then [''insert'', ''update''] else ec_Operations cfg)
           in case routing_Compile (sl_float sl) \<lparr>mt_tables = ec_Tables cfg, mt_operations = ops, mt_where = []\<rparr> of
                Inl e \<Rightarrow> Inl (EnrichMatch e)
              | Inr m \<Rightarrow>
                  (case (if ec_Timeout cfg = [] then Some 150000000 else sl_duration sl (ec_Timeout cfg)) of
                     None \<Rightarrow> Inl (BadTimeout (ec_Timeout cfg))
                   | Some d \<Rightarrow>
                       if d \<le> 0 then Inl (BadTimeout (ec_Timeout cfg))
                       else (case expandAuthToken (sl_env sl) (ec_AuthToken cfg) of
                               Inl e \<Rightarrow> Inl e
                             | Inr token \<Rightarrow>
                                 (case validateEnricherURL (sl_url sl)
                                         (newURLPolicy (sl_showIP sl) (sl_parseIP sl) (ec_AllowHosts cfg) (ec_InsecureAllowPrivate cfg)) (TrimSpace (ec_URL cfg)) of
                                    Inl e \<Rightarrow> Inl (EnrichURL e)
                                  | Inr u \<Rightarrow> Inr (\<lparr>en_enabled = True, en_matcher = m\<rparr>, d, token)))))"

section \<open>Dialling\<close>

text \<open>What is handed to the dialer: an address, or the host as it came.\<close>

datatype dial = DialIP ip string | DialHost string string

definition dialContext :: "url_policy \<Rightarrow> (string \<Rightarrow> ip list option) \<Rightarrow> string \<Rightarrow> string \<Rightarrow> dial option" where
  "dialContext p lookup host port =
     (case up_parse p host of
        Some a \<Rightarrow> if isBlockedIP p a then None else Some (DialIP a port)
      | None \<Rightarrow>
          if isAllowlisted p host then Some (DialHost host port)
          else case lookup host of
                 None \<Rightarrow> None
               | Some ips \<Rightarrow>
                   if list_ex (isBlockedIP p) ips then None
                   else (case ips of [] \<Rightarrow> Some (DialHost host port) | a # as \<Rightarrow> Some (DialIP a port)))"

section \<open>Fail open\<close>

definition context_ok :: "json_lib \<Rightarrow> string \<Rightarrow> bool" where
  "context_ok jl d \<longleftrightarrow> length d \<le> maxAIContextBytes \<and> jl_valid jl d \<and> jl_object jl d"

text \<open>\<open>enriched\<close>: the event as it was, or with a context the bounds allow.\<close>

definition enriched :: "json_lib \<Rightarrow> change_event \<Rightarrow> change_event \<Rightarrow> bool" where
  "enriched jl ev out \<longleftrightarrow> out = ev \<or> (\<exists>d. context_ok jl d \<and> out = ev\<lparr>ev_ai_context := Some d\<rparr>)"

lemma readAIContext_ok: "readAIContext jl body = Inr d \<Longrightarrow> context_ok jl d"
  by (auto simp: readAIContext_def context_ok_def split: option.splits if_splits)

lemma send_ok: "post_send jl e c = (Inr (Some d), sent, c') \<Longrightarrow> context_ok jl d"
  by (auto simp: post_send_def readAIContext_ok split: if_splits do_result.splits sum.splits)

lemma post_ok: "enrich_post jl e c = (Inr (Some d), sent, c') \<Longrightarrow> context_ok jl d"
  by (auto simp: enrich_post_def send_ok split: prod.splits bool.splits)

lemma Enrich_enriched: "Enrich ml en e ev c = (out, c') \<Longrightarrow> enriched (ml_json ml) ev out"
  by (auto simp: Enrich_def enriched_def split: if_splits prod.splits sum.splits option.splits dest!: post_ok)

lemma enriched_trans: "enriched jl a b \<Longrightarrow> enriched jl b c \<Longrightarrow> enriched jl a c"
  by (auto simp: enriched_def)

lemma enrich_all_enriched:
  assumes "list_all2 (enriched (ml_json ml)) evs0 evs" "enrich_all ml en env sched passed evs c = (out, c')"
  shows "list_all2 (enriched (ml_json ml)) evs0 out"
  using assms
proof (induction ml en env sched passed evs c rule: enrich_all.induct)
  case (2 ml en env i sched passed evs c)
  then show ?case by (auto split: if_splits prod.splits)
next
  case (3 ml en env i sched passed evs c)
  show ?case
  proof (cases "i < length evs \<and> i \<in> set passed")
    case True
    obtain r sent c1 where p: "post_send (ml_json ml) (env i) c = (r, sent, c1)" by (metis surj_pair)
    define evs' where "evs' = (case r of Inr (Some d) \<Rightarrow> evs[i := (evs ! i)\<lparr>ev_ai_context := Some d\<rparr>] | _ \<Rightarrow> evs)"
    have "enriched (ml_json ml) (evs ! i) ((evs ! i)\<lparr>ev_ai_context := Some d\<rparr>)" if "r = Inr (Some d)" for d
      using that p send_ok [of "ml_json ml" "env i" c d sent c1] by (auto simp: enriched_def)
    then have l: "list_all2 (enriched (ml_json ml)) evs0 evs'"
      using 3(3) True enriched_trans unfolding evs'_def by (auto simp: list_all2_conv_all_nth nth_list_update split: sum.split option.split)
    from 3(4) True p have "enrich_all ml en env sched (remove1 i passed) evs' c1 = (out, c')" by (simp add: evs'_def)
    with 3(1) [OF True p [symmetric] refl refl evs'_def l] show ?thesis by simp
  next
    case False
    with 3 show ?thesis by simp
  qed
qed simp


text \<open>Only an event a rule matches is sent: an explicit table and, by default, an insert or an update.\<close>

lemma disabled_no_call: "enrich_Compile sl cfg = Inr (en, d, t) \<Longrightarrow> ec_Tables cfg = [] \<Longrightarrow> Enrich ml en e ev c = (ev, c)"
  by (simp add: enrich_Compile_def Enrich_def disabled_enricher_def split: if_splits) (auto simp: Enrich_def)

lemma compiled_positive_timeout: "enrich_Compile sl cfg = Inr (en, d, t) \<Longrightarrow> en_enabled en \<Longrightarrow> 0 < d"
  by (auto simp: enrich_Compile_def disabled_enricher_def Let_def split: if_splits sum.splits option.splits)

section \<open>The breaker\<close>

text \<open>A call after another, each with its environment; \<open>sent\<close> says which of them went out.\<close>

fun posts :: "json_lib \<Rightarrow> call_env list \<Rightarrow> http_client \<Rightarrow> bool list \<times> http_client" where
  "posts jl [] c = ([], c)"
| "posts jl (e # es) c =
     (let (r, sent, c1) = enrich_post jl e c; (ss, c2) = posts jl es c1 in (sent # ss, c2))"

definition open_at :: "int \<Rightarrow> http_client \<Rightarrow> bool" where
  "open_at t c \<longleftrightarrow> hc_circuitThreshold c \<le> hc_consecutiveTimeouts c \<and> hc_circuitOpenedAt c = Some t"

lemma open_blocks:
  assumes "open_at t c" "ce_check e < t + hc_circuitCooldown c"
  shows "enrich_post jl e c = (Inl ReasonCircuitOpen, False, c)"
  using assms by (auto simp: enrich_post_def checkCircuit_def open_at_def Let_def)

text \<open>While the breaker is open no request goes out.\<close>

lemma circuit_stops_calls:
  assumes "open_at t c" "list_all (\<lambda>e. ce_check e < t + hc_circuitCooldown c) es"
  shows "posts jl es c = (replicate (length es) False, c)"
  using assms(2) by (induction es) (simp_all add: open_blocks [OF assms(1)])

text \<open>As many timeouts as the threshold, from a closed breaker, open it at the time of the last one.\<close>

lemma timeouts_open:
  assumes "list_all (\<lambda>e. ce_marshal e \<and> ce_request e \<and> ce_do e = DoTimeout) (es @ [e])"
    and "hc_consecutiveTimeouts c + int (length es) + 1 = hc_circuitThreshold c"
  shows "open_at (ce_done e) (snd (posts jl (es @ [e]) c))"
  using assms
proof (induction es arbitrary: c)
  case Nil
  then show ?case by (simp add: enrich_post_def post_send_def checkCircuit_def recordTimeout_def open_at_def Let_def)
next
  case (Cons x es)
  then have "enrich_post jl x c = (Inl ReasonTimeout, True, recordTimeout (ce_done x) c)" by (simp add: enrich_post_def post_send_def checkCircuit_def)
  moreover have "hc_consecutiveTimeouts (recordTimeout (ce_done x) c) + int (length es) + 1 = hc_circuitThreshold (recordTimeout (ce_done x) c)"
    using Cons.prems(2) by (simp add: recordTimeout_def Let_def)
  ultimately show ?case using Cons.IH Cons.prems(1) by (simp split: prod.splits) (metis snd_conv)
qed

text \<open>
  A timeout that is followed by an answer of the endpoint other than 200 and 204 still counts: only a success resets the
  count, although the error speaks of consecutive timeouts.
\<close>

lemma status_keeps_count:
  assumes "ce_marshal e" "ce_request e" "ce_do e = Resp 500 body" "hc_consecutiveTimeouts c < hc_circuitThreshold c"
  shows "enrich_post jl e c = (Inl ReasonStatus, True, c)"
  using assms by (simp add: enrich_post_def post_send_def checkCircuit_def)

section \<open>What may be dialled\<close>

text \<open>
  Without an allow-list and without the override, whatever name is configured and whatever the resolver says, an address is
  dialled only if it is loopback or neither private, link-local nor unspecified. A name reaches the dialer only
  when the resolver knows no address of it.
\<close>

lemma dial_guard:
  assumes "dialContext p lookup host port = Some d" "up_allowHosts p = {}" "\<not> up_insecureAllowPrivate p"
  shows "case d of
      DialIP a pt \<Rightarrow> pt = port \<and> (IsLoopback a \<or> \<not> IsPrivate a \<and> \<not> IsLinkLocalUnicast a \<and> \<not> IsLinkLocalMulticast a \<and> \<not> IsUnspecified a)
    | DialHost h pt \<Rightarrow> h = host \<and> lookup host = Some []"
proof -
  have "IsLoopback a \<or> \<not> IsPrivate a \<and> \<not> IsLinkLocalUnicast a \<and> \<not> IsLinkLocalMulticast a \<and> \<not> IsUnspecified a" if "\<not> isBlockedIP p a" for a
    using that assms(2,3) by (auto simp: isBlockedIP_def isAllowlisted_def split: if_splits)
  with assms show ?thesis by (auto simp: dialContext_def isAllowlisted_def split: option.splits if_splits list.splits)
qed

end
