(* ===== verification/Mcp_Tools.thy ===== *)
theory Mcp_Tools
  imports Mcp_Props Enrich
begin

text \<open>
  The keys of the MCP server and its schema tools (\<open>internal/mcp/server.go\<close>, \<open>tools.go\<close>, \<open>schema.go\<close>,
  \<open>internal/auth/auth.go\<close>): how configured keys become principals, and what the schema tools show of the tables.
\<close>

section \<open>Bearer tokens\<close>

text \<open>The seven bytes before the token are compared without case; \<open>EqualFold\<close> on them is on ASCII.\<close>

definition bearer_scheme :: "string \<Rightarrow> bool" where
  "bearer_scheme hdr \<longleftrightarrow> length hdr \<ge> 7 \<and> map lower (take 7 hdr) = ''bearer ''"

definition ExtractBearerHTTP :: "string \<Rightarrow> string" where
  "ExtractBearerHTTP hdr = (if \<not> bearer_scheme hdr then [] else drop 7 hdr)"

text \<open>The values of the metadata key; \<open>None\<close> when the context has no metadata.\<close>

definition ExtractBearerGRPC :: "string list option \<Rightarrow> string" where
  "ExtractBearerGRPC md =
     (case md of
        None \<Rightarrow> []
      | Some [] \<Rightarrow> []
      | Some (v # vs) \<Rightarrow> if bearer_scheme v then drop 7 v else v)"

definition auth_Middleware :: "string \<Rightarrow> string \<Rightarrow> bool" where
  "auth_Middleware token hdr \<longleftrightarrow> CheckBearer (ExtractBearerHTTP hdr) token"

definition auth_Interceptor :: "string \<Rightarrow> string list option \<Rightarrow> bool" where
  "auth_Interceptor token md \<longleftrightarrow> CheckBearer (ExtractBearerGRPC md) token"

section \<open>Keys\<close>

record mcp_config =
  mf_enabled :: bool
  mf_port :: int
  mf_maxSubscriptions :: int
  mf_ringSize :: int
  mf_auditEnabled :: "bool option"
  mf_apiKeys :: "mcp_api_key list"

datatype resolve_error = NoKeys | NameRequired nat | DuplicateName string | BadEnvRef nat | EnvUnset nat string | BadACL acl_error

definition resolveStrictEnvRef :: "(string \<Rightarrow> string option) \<Rightarrow> nat \<Rightarrow> string \<Rightarrow> resolve_error + string" where
  "resolveStrictEnvRef LookupEnv i raw =
     (let trimmed = TrimSpace raw
      in if trimmed = [] then Inl (BadEnvRef i)
         else if \<not> env_ref trimmed then Inl (BadEnvRef i)
         else let varName = butlast (drop 2 trimmed)
              in case LookupEnv varName of
                   None \<Rightarrow> Inl (EnvUnset i varName)
                 | Some val \<Rightarrow> if val = [] then Inl (EnvUnset i varName) else Inr val)"

fun resolve_keys :: "(string \<Rightarrow> float64 option) \<Rightarrow> (string \<Rightarrow> string option) \<Rightarrow> nat \<Rightarrow> string list \<Rightarrow> mcp_api_key list \<Rightarrow> resolve_error + resolved_key list" where
  "resolve_keys pf LookupEnv i seen [] = Inr []"
| "resolve_keys pf LookupEnv i seen (k # ks) =
     (if TrimSpace (mk_name k) = [] then Inl (NameRequired i)
      else if mk_name k \<in> set seen then Inl (DuplicateName (mk_name k))
      else case resolveStrictEnvRef LookupEnv i (mk_key k) of
             Inl e \<Rightarrow> Inl e
           | Inr secret \<Rightarrow>
               (case CompileACL pf k of
                  Inl e \<Rightarrow> Inl (BadACL e)
                | Inr a \<Rightarrow>
                    (case resolve_keys pf LookupEnv (Suc i) (mk_name k # seen) ks of
                       Inl e \<Rightarrow> Inl e
                     | Inr rest \<Rightarrow> Inr (\<lparr>rk_name = mk_name k, rk_secret = secret, rk_acl = a\<rparr> # rest))))"

definition ResolveConfig ::
  "(string \<Rightarrow> float64 option) \<Rightarrow> (string \<Rightarrow> string option) \<Rightarrow> mcp_config \<Rightarrow> resolve_error + mcp_config \<times> resolved_key list" where
  "ResolveConfig pf LookupEnv cfg =
     (let out = cfg\<lparr>mf_port := (if mf_port cfg = 0 then 7655 else mf_port cfg),
                    mf_maxSubscriptions := (if mf_maxSubscriptions cfg = 0 then DefaultMaxSubscriptions else mf_maxSubscriptions cfg),
                    mf_ringSize := (if mf_ringSize cfg = 0 then DefaultRingSize else mf_ringSize cfg),
                    mf_auditEnabled := (if mf_auditEnabled cfg = None then Some True else mf_auditEnabled cfg)\<rparr>
      in if \<not> mf_enabled out then Inr (out, [])
         else if mf_apiKeys out = [] then Inl NoKeys
         else case resolve_keys pf LookupEnv 0 [] (mf_apiKeys out) of
                Inl e \<Rightarrow> Inl e
              | Inr keys \<Rightarrow> Inr (out\<lparr>mf_apiKeys := map (\<lambda>k. k\<lparr>mk_key := ''${REDACTED}''\<rparr>) (mf_apiKeys out)\<rparr>, keys))"

text \<open>\<open>authMiddleware\<close>: the request goes on with its principal, or is answered 401 and audited.\<close>

definition authMiddleware :: "string \<Rightarrow> mcp_server \<Rightarrow> resolved_key option \<times> mcp_server" where
  "authMiddleware hdr s =
     (case lookupKey (sv_keys s) (ExtractBearerHTTP hdr) of
        None \<Rightarrow> (None, RecordToolCall ''unknown'' ''auth'' [] [] OutcomeDenied s)
      | Some k \<Rightarrow> (Some k, s))"

section \<open>Schema tools\<close>

record column_info =
  ci_name :: string
  ci_type :: string
  ci_primaryKey :: bool
  ci_redacted :: bool

text \<open>A schema provider: the captured tables and the columns of a table.\<close>

record schema_provider =
  sp_captured :: "string list"
  sp_schema :: "string \<Rightarrow> column_info list option"

definition merge_names :: "string list \<Rightarrow> string list \<Rightarrow> string list" where
  "merge_names names out =
     fold (\<lambda>name0 out. let name = TrimSpace name0 in if name = [] \<or> name \<in> set out then out else out @ [name]) names out"

definition mergeTableNames :: "string list \<Rightarrow> string list \<Rightarrow> string list" where
  "mergeTableNames configured captured = merge_names captured (merge_names configured [])"

record table_entry =
  te_name :: string
  te_source :: string
  te_captured :: bool

definition SourcePostgres :: string where "SourcePostgres = ''postgres''"
definition SourceMongoDB :: string where "SourceMongoDB = ''mongodb''"
definition mongoSchemalessNote :: string where "mongoSchemalessNote = ''schemaless; fields observed per-event''"

definition listTables ::
  "codec \<Rightarrow> string \<Rightarrow> string list \<Rightarrow> schema_provider option \<Rightarrow> resolved_key option \<Rightarrow> (mcp_error + table_entry list) \<times> string list \<times> outcome" where
  "listTables cd sourceType configured provider key =
     (case key of
        None \<Rightarrow> (Inl Unauthenticated, [], OutcomeError)
      | Some k \<Rightarrow>
          let captured = (case provider of None \<Rightarrow> [] | Some p \<Rightarrow> sp_captured p);
              allowed = FilterTables cd (rk_acl k) (mergeTableNames configured captured);
              src = (if sourceType = [] then SourcePostgres else sourceType)
          in (Inr (map (\<lambda>name. \<lparr>te_name = name, te_source = src, te_captured = (name \<in> set captured)\<rparr>) allowed), allowed, OutcomeOK))"

record table_schema =
  ts_table :: string
  ts_columns :: "column_info list"
  ts_source :: string
  ts_note :: string

definition getTableSchema ::
  "codec \<Rightarrow> string \<Rightarrow> schema_provider option \<Rightarrow> resolved_key option \<Rightarrow> string \<Rightarrow> (mcp_error + table_schema) \<times> outcome" where
  "getTableSchema cd sourceType provider key table0 =
     (case key of
        None \<Rightarrow> (Inl Unauthenticated, OutcomeError)
      | Some k \<Rightarrow>
          let table = TrimSpace table0; src = (if sourceType = [] then SourcePostgres else sourceType)
          in if table = [] then (Inl IdRequired, OutcomeError)
             else if \<not> AllowTable cd (rk_acl k) table then (Inl TableNotAccessible, OutcomeDenied)
             else if src = SourceMongoDB
             then (Inr \<lparr>ts_table = table, ts_columns = [], ts_source = SourceMongoDB, ts_note = mongoSchemalessNote\<rparr>, OutcomeOK)
             else let cols = (case provider of None \<Rightarrow> [] | Some p \<Rightarrow> (case sp_schema p table of None \<Rightarrow> [] | Some got \<Rightarrow> got))
                  in (Inr \<lparr>ts_table = table, ts_columns = map (\<lambda>c. c\<lparr>ci_redacted := IsColumnRedacted cd (rk_acl k) table (ci_name c)\<rparr>) cols,
                           ts_source = SourcePostgres, ts_note = []\<rparr>, OutcomeOK))"

definition handleListTables ::
  "codec \<Rightarrow> string \<Rightarrow> string list \<Rightarrow> schema_provider option \<Rightarrow> resolved_key option \<Rightarrow> mcp_server \<Rightarrow> (mcp_error + table_entry list) \<times> mcp_server" where
  "handleListTables cd src configured provider key s =
     (let (out, tables, oc) = listTables cd src configured provider key
      in (out, RecordToolCall (key_label key) ''list_tables'' [] tables oc s))"

definition handleGetTableSchema ::
  "codec \<Rightarrow> string \<Rightarrow> schema_provider option \<Rightarrow> resolved_key option \<Rightarrow> string \<Rightarrow> mcp_server \<Rightarrow> (mcp_error + table_schema) \<times> mcp_server" where
  "handleGetTableSchema cd src provider key table s =
     (let (out, oc) = getTableSchema cd src provider key table
      in (out, RecordToolCall (key_label key) ''get_table_schema'' [''table''] (if table = [] then [] else [table]) oc s))"

section \<open>Who a token is\<close>

lemma lookupKey_snoc: "lookupKey (ks @ [k]) t = (if CheckBearer t (rk_secret k) then Some k else lookupKey ks t)"
  by (simp add: lookupKey_def)

lemma lookupKey_spec:
  "lookupKey keys t = (if t = [] then None else find (\<lambda>k. rk_secret k = t) (rev keys))"
proof (induction keys rule: rev_induct)
  case Nil
  show ?case by (simp add: lookupKey_def)
next
  case (snoc k ks)
  then show ?case by (cases "t = []") (auto simp: lookupKey_snoc CheckBearer_def)
qed

lemma find_in: "find P xs = Some x \<Longrightarrow> x \<in> set xs \<and> P x"
  by (induction xs) (auto split: if_splits)

definition secret_of :: "(string \<Rightarrow> string option) \<Rightarrow> mcp_api_key \<Rightarrow> string option" where
  "secret_of LookupEnv k = LookupEnv (butlast (drop 2 (TrimSpace (mk_key k))))"

lemma resolve_keys_spec:
  assumes "resolve_keys pf env i seen ks = Inr rks"
  shows "map rk_name rks = map mk_name ks \<and> distinct (map mk_name ks) \<and> set (map mk_name ks) \<inter> set seen = {} \<and>
    list_all2 (\<lambda>k rk. secret_of env k = Some (rk_secret rk) \<and> rk_secret rk \<noteq> [] \<and> CompileACL pf k = Inr (rk_acl rk)) ks rks"
  using assms
proof (induction pf env i seen ks arbitrary: rks rule: resolve_keys.induct)
  case (2 pf env i seen k ks)
  from 2(2) obtain secret a rest where k: "mk_name k \<notin> set seen" "resolveStrictEnvRef env i (mk_key k) = Inr secret" "CompileACL pf k = Inr a"
      "resolve_keys pf env (Suc i) (mk_name k # seen) ks = Inr rest" "rks = \<lparr>rk_name = mk_name k, rk_secret = secret, rk_acl = a\<rparr> # rest"
      "TrimSpace (mk_name k) \<noteq> []"
    by (auto split: if_splits sum.splits)
  from k(2) have "secret_of env k = Some secret \<and> secret \<noteq> []"
    by (auto simp: resolveStrictEnvRef_def secret_of_def Let_def split: if_splits option.splits)
  with 2(1) [OF k(6,1,2,3,4)] k show ?case by auto
qed auto

text \<open>
  C36. Who a token is: on a resolved configuration the key names are pairwise different, so ownership by name is ownership by
  key; a request is let in exactly when its token is the non-empty secret of some configured key, and then as
  a configured key with that secret and the rules of its configuration.
\<close>

theorem mcp_principal:
  assumes "ResolveConfig pf env cfg = Inr (cfg', keys)" "mf_enabled cfg"
  shows "distinct (map rk_name keys) \<and> map rk_name keys = map mk_name (mf_apiKeys cfg) \<and>
    (lookupKey keys t = None \<longleftrightarrow> \<not> list_ex (\<lambda>k. secret_of env k = Some t) (mf_apiKeys cfg)) \<and>
    (\<forall>rk. lookupKey keys t = Some rk \<longrightarrow>
       (\<exists>k \<in> set (mf_apiKeys cfg). mk_name k = rk_name rk \<and> secret_of env k = Some t \<and> CompileACL pf k = Inr (rk_acl rk)))"
proof -
  from assms have r: "resolve_keys pf env 0 [] (mf_apiKeys cfg) = Inr keys" by (auto simp: ResolveConfig_def Let_def split: if_splits sum.splits)
  note spec = resolve_keys_spec [OF r]
  then have pair: "\<And>j. j < length keys \<Longrightarrow> mk_name (mf_apiKeys cfg ! j) = rk_name (keys ! j) \<and> secret_of env (mf_apiKeys cfg ! j) = Some (rk_secret (keys ! j)) \<and>
      rk_secret (keys ! j) \<noteq> [] \<and> CompileACL pf (mf_apiKeys cfg ! j) = Inr (rk_acl (keys ! j))"
    and len: "length keys = length (mf_apiKeys cfg)"
    by (auto simp: list_all2_conv_all_nth) (metis nth_map)
  have found: "\<exists>k \<in> set (mf_apiKeys cfg). mk_name k = rk_name rk \<and> secret_of env k = Some t \<and> CompileACL pf k = Inr (rk_acl rk)" if "lookupKey keys t = Some rk" for rk
  proof -
    from that have "find (\<lambda>k. rk_secret k = t) (rev keys) = Some rk" by (simp add: lookupKey_spec split: if_splits)
    from find_in [OF this] have "rk \<in> set keys" "rk_secret rk = t" by simp_all
    then obtain j where "j < length keys" "rk = keys ! j" by (auto simp: in_set_conv_nth)
    with pair [of j] len \<open>rk_secret rk = t\<close> show ?thesis by (metis nth_mem)
  qed
  have "lookupKey keys t = None \<longleftrightarrow> \<not> list_ex (\<lambda>k. secret_of env k = Some t) (mf_apiKeys cfg)"
  proof
    assume n: "lookupKey keys t = None"
    show "\<not> list_ex (\<lambda>k. secret_of env k = Some t) (mf_apiKeys cfg)"
    proof
      assume "list_ex (\<lambda>k. secret_of env k = Some t) (mf_apiKeys cfg)"
      then obtain j where j: "j < length keys" "secret_of env (mf_apiKeys cfg ! j) = Some t" using len by (auto simp: list_ex_length)
      with pair [OF j(1)] have "rk_secret (keys ! j) = t" "t \<noteq> []" by auto
      with n j(1) show False by (auto simp: lookupKey_spec find_None_iff)
    qed
  next
    assume "\<not> list_ex (\<lambda>k. secret_of env k = Some t) (mf_apiKeys cfg)"
    then show "lookupKey keys t = None" using found by (cases "lookupKey keys t") (auto simp: list_ex_iff)
  qed
  with spec found show ?thesis by auto
qed

section \<open>What the schema tools show\<close>

lemma merge_names_spec:
  "distinct out \<Longrightarrow> [] \<notin> set out \<Longrightarrow> distinct (merge_names names out) \<and> set (merge_names names out) = set out \<union> (TrimSpace ` set names - {[]})"
  unfolding merge_names_def by (induction names arbitrary: out) (auto simp: Let_def)

lemma mergeTableNames_spec:
  "distinct (mergeTableNames conf capt) \<and> set (mergeTableNames conf capt) = TrimSpace ` (set conf \<union> set capt) - {[]}"
  using merge_names_spec [of "[]" conf] merge_names_spec [of "merge_names conf []" capt] by (auto simp: mergeTableNames_def)

lemma listTables_covered:
  assumes "CompileACL pf key = Inr (rk_acl rk)" "list_all (\<lambda>t. take 1 (TrimSpace t) \<noteq> ''.'') (conf @ capt)"
    and "listTables cd src conf (Some \<lparr>sp_captured = capt, sp_schema = f\<rparr>) (Some rk) = (Inr ts, names, oc)"
  shows "distinct (map te_name ts) \<and> set (map te_name ts) = {n \<in> TrimSpace ` (set conf \<union> set capt) - {[]}. covers (mk_tables key) n}"
proof -
  note m = mergeTableNames_spec [of conf capt]
  have "list_all (\<lambda>t. take 1 t \<noteq> ''.'') (mergeTableNames conf capt)" using m assms(2) by (auto simp: list_all_iff)
  from FilterTables_covered [OF assms(1) this, of cd] assms(3) have "map te_name ts = filter (covers (mk_tables key)) (mergeTableNames conf capt)"
    by (auto simp: listTables_def Let_def comp_def)
  with m show ?thesis by auto
qed

lemma schema_marks_redacted:
  assumes "CompileACL pf key = Inr (rk_acl rk)" "take 1 (TrimSpace t) \<noteq> ''.''" "getTableSchema cd src provider (Some rk) t = (Inr ts, oc)"
  shows "covers (mk_tables key) (TrimSpace t) \<and> list_all (\<lambda>c. ci_redacted c \<longleftrightarrow> ci_name c \<in> masked key (TrimSpace t)) (ts_columns ts)"
proof -
  let ?f = "\<lambda>c. c\<lparr>ci_redacted := IsColumnRedacted cd (rk_acl rk) (TrimSpace t) (ci_name c)\<rparr>"
  from assms(3) have "AllowTable cd (rk_acl rk) (TrimSpace t) \<and> (\<exists>cols. ts_columns ts = map ?f cols)"
    by (auto simp: getTableSchema_def Let_def split: if_splits)
  then obtain cols where c: "AllowTable cd (rk_acl rk) (TrimSpace t)" "ts_columns ts = map ?f cols" by blast
  have "list_all (\<lambda>c. ci_redacted c \<longleftrightarrow> ci_name c \<in> masked key (TrimSpace t)) (map ?f cols)"
    by (simp add: list_all_iff IsColumnRedacted_def columnsFor_eq [OF assms(1,2)])
  with c AllowTable_iff [OF assms(1,2), of cd] show ?thesis by simp
qed

section \<open>A configuration with one key\<close>

definition ex_env_key :: mcp_api_key where
  "ex_env_key = ex_key\<lparr>mk_key := ''${K}''\<rparr>"

definition ex_mcp_config :: mcp_config where
  "ex_mcp_config = \<lparr>mf_enabled = True, mf_port = 0, mf_maxSubscriptions = 0, mf_ringSize = 0, mf_auditEnabled = None, mf_apiKeys = [ex_env_key]\<rparr>"

definition ex_env :: "string \<Rightarrow> string option" where
  "ex_env v = (if v = ''K'' then Some ''s3'' else None)"

lemma ex_trims: "TrimSpace ''bot'' = ''bot''" "TrimSpace ''${K}'' = ''${K}''"
  by (rule TrimSpace_solid; simp add: solid_def IsSpace_def code_def)+

lemma ex_resolves: "\<exists>cfg'. ResolveConfig (\<lambda>_. None) ex_env ex_mcp_config = Inr (cfg', [\<lparr>rk_name = ''bot'', rk_secret = ''s3'', rk_acl = ex_acl\<rparr>])"
proof -
  have acl: "CompileACL (\<lambda>_. None) ex_env_key = Inr ex_acl"
    by (simp add: CompileACL_def routing_Compile_def compileTableGlob_def ex_env_key_def ex_key_def ex_acl_def no_glob_def)
  have "resolveStrictEnvRef ex_env 0 ''${K}'' = Inr ''s3''"
    unfolding resolveStrictEnvRef_def ex_trims by (simp add: env_ref_def is_alnum_def code_def ex_env_def)
  moreover have "mk_name ex_env_key = ''bot''" "mk_key ex_env_key = ''${K}''" by (simp_all add: ex_env_key_def ex_key_def)
  ultimately have "resolve_keys (\<lambda>_. None) ex_env 0 [] [ex_env_key] = Inr [\<lparr>rk_name = ''bot'', rk_secret = ''s3'', rk_acl = ex_acl\<rparr>]"
    by (simp add: acl ex_trims)
  then show ?thesis by (simp add: ResolveConfig_def ex_mcp_config_def)
qed

theorem mcp_principal_witness:
  "\<exists>cfg' k. ResolveConfig (\<lambda>_. None) ex_env ex_mcp_config = Inr (cfg', [k]) \<and> lookupKey [k] ''s4'' = None \<and> lookupKey [k] ''s3'' = Some k"
proof -
  obtain cfg' where c: "ResolveConfig (\<lambda>_. None) ex_env ex_mcp_config = Inr (cfg', [\<lparr>rk_name = ''bot'', rk_secret = ''s3'', rk_acl = ex_acl\<rparr>])"
    using ex_resolves by blast
  have e: "mf_enabled ex_mcp_config" by (simp add: ex_mcp_config_def)
  have "secret_of ex_env ex_env_key = Some ''s3''"
    by (simp add: secret_of_def ex_env_key_def ex_trims ex_env_def)
  then show ?thesis using c mcp_principal [OF c e, of "''s4''"] mcp_principal [OF c e, of "''s3''"]
    by (auto simp: ex_mcp_config_def lookupKey_def CheckBearer_def)
qed

end
