(* ===== verification/Mcp_Audit.thy ===== *)
theory Mcp_Audit
  imports Kaptanto_Prelude "HOL-Library.Sublist"
begin

text \<open>
  The audit file of the MCP server (\<open>internal/mcp/audit.go\<close>): lines are appended to one file, which is rotated through
  three older ones when it would grow past its size. The file system is a map from paths to contents; the faults of the
  operating system are an argument of each call.
\<close>

section \<open>The auditor\<close>

definition auditMaxBytes :: int where "auditMaxBytes = 100 * 1024 * 1024"

type_synonym file_system = "(string, string) gomap"

record auditor =
  ad_path :: string
  ad_open :: bool
  ad_size :: int

text \<open>\<open>ae_short\<close>: a write that stops after so many bytes.\<close>

record audit_env =
  ae_renameOld :: "nat \<Rightarrow> bool"
  ae_renameActive :: bool
  ae_open :: bool
  ae_short :: "nat option"

definition no_faults :: audit_env where
  "no_faults = \<lparr>ae_renameOld = \<lambda>_. False, ae_renameActive = False, ae_open = False, ae_short = None\<rparr>"

definition rotated :: "string \<Rightarrow> nat \<Rightarrow> string" where
  "rotated path i = path @ ''.'' @ [char_of (48 + i)]"

definition rename :: "string \<Rightarrow> string \<Rightarrow> file_system \<Rightarrow> file_system" where
  "rename src dst fs = (case gm_get fs src of None \<Rightarrow> fs | Some c \<Rightarrow> gm_del src (gm_set dst c fs))"

definition audit_open :: "audit_env \<Rightarrow> auditor \<Rightarrow> file_system \<Rightarrow> bool \<times> auditor \<times> file_system" where
  "audit_open e a fs =
     (if ae_open e then (False, a, fs)
      else let fs' = (if gm_get fs (ad_path a) = None then gm_set (ad_path a) [] fs else fs)
           in (True, a\<lparr>ad_open := True, ad_size := int (length (gm_get0 [] fs' (ad_path a)))\<rparr>, fs'))"

text \<open>The shift of one rotated file; \<open>None\<close> is the early return.\<close>

definition shift :: "audit_env \<Rightarrow> string \<Rightarrow> nat \<Rightarrow> file_system \<Rightarrow> file_system option" where
  "shift e path i fs =
     (if gm_get fs (rotated path i) = None then Some fs
      else if ae_renameOld e i then None
      else Some (rename (rotated path i) (rotated path (i + 1)) fs))"

definition rotateLocked :: "audit_env \<Rightarrow> auditor \<Rightarrow> file_system \<Rightarrow> bool \<times> auditor \<times> file_system" where
  "rotateLocked e a0 fs0 =
     (let a = a0\<lparr>ad_open := False\<rparr>; p = ad_path a; fs1 = gm_del (rotated p 3) fs0
      in case shift e p 2 fs1 of
           None \<Rightarrow> (False, a, fs1)
         | Some fs2 \<Rightarrow>
             (case shift e p 1 fs2 of
                None \<Rightarrow> (False, a, fs2)
              | Some fs3 \<Rightarrow>
                  if gm_get fs3 p \<noteq> None \<and> ae_renameActive e then (False, a, fs3)
                  else audit_open e a (rename p (rotated p 1) fs3)))"

definition audit_write :: "audit_env \<Rightarrow> string \<Rightarrow> auditor \<Rightarrow> file_system \<Rightarrow> auditor \<times> file_system" where
  "audit_write e line a fs =
     (if \<not> ad_open a then (a, fs)
      else let out = (case ae_short e of None \<Rightarrow> line | Some n \<Rightarrow> take n line)
           in (a\<lparr>ad_size := ad_size a + int (length out)\<rparr>, gm_set (ad_path a) (gm_get0 [] fs (ad_path a) @ out) fs))"

text \<open>\<open>Record\<close>: a failed rotation is logged and the write is tried all the same.\<close>

definition audit_Record :: "audit_env \<Rightarrow> string \<Rightarrow> auditor \<times> file_system \<Rightarrow> auditor \<times> file_system" where
  "audit_Record e line st =
     (case st of
        (a, fs) \<Rightarrow>
          if \<not> ad_open a then (a, fs)
          else if ad_size a + int (length line) > auditMaxBytes
          then let (rotated_ok, a', fs') = rotateLocked e a fs in audit_write e line a' fs'
          else audit_write e line a fs)"

definition NewAuditor :: "audit_env \<Rightarrow> string \<Rightarrow> file_system \<Rightarrow> (auditor \<times> file_system) option" where
  "NewAuditor e path fs =
     (case audit_open e \<lparr>ad_path = path, ad_open = False, ad_size = 0\<rparr> fs of
        (True, a, fs') \<Rightarrow> Some (a, fs')
      | (False, a, fs') \<Rightarrow> None)"

section \<open>The log in the files\<close>

text \<open>The files of the log, oldest first.\<close>

definition audit_log :: "string \<Rightarrow> file_system \<Rightarrow> string" where
  "audit_log p fs = gm_get0 [] fs (rotated p 3) @ gm_get0 [] fs (rotated p 2) @ gm_get0 [] fs (rotated p 1) @ gm_get0 [] fs p"

definition audit_ok :: "auditor \<times> file_system \<Rightarrow> bool" where
  "audit_ok st \<longleftrightarrow> (case st of (a, fs) \<Rightarrow> ad_open a \<and> ad_size a = int (length (gm_get0 [] fs (ad_path a))) \<and> gm_get fs (ad_path a) \<noteq> None)"

lemma rotated_neq: "rotated p i \<noteq> p" "p \<noteq> rotated p i"
  by (auto simp: rotated_def)

lemma rotated_inj: "i < 10 \<Longrightarrow> j < 10 \<Longrightarrow> rotated p i = rotated p j \<longleftrightarrow> i = j"
  by (auto simp: rotated_def char_of_eq_iff take_bit_nat_eq_self)

lemmas rotated_simps = rotated_neq rotated_inj

lemma rename_get0:
  "src \<noteq> dst \<Longrightarrow> gm_get fs src \<noteq> None \<Longrightarrow> gm_get0 [] (rename src dst fs) k = (if k = src then [] else if k = dst then gm_get0 [] fs src else gm_get0 [] fs k)"
  by (auto simp: rename_def gm_get0_def gm_get_del gm_get_set split: option.split)

text \<open>Without faults a rotation drops the oldest file, and nothing else.\<close>

lemma shift_get0:
  assumes "i < 9" "\<not> ae_renameOld e i" "gm_get fs (rotated p (i + 1)) = None"
  obtains fs' where "shift e p i fs = Some fs'" "gm_get fs' (rotated p i) = None"
    "\<And>k. gm_get0 [] fs' k = (if k = rotated p i then [] else if k = rotated p (i + 1) then gm_get0 [] fs (rotated p i) else gm_get0 [] fs k)"
    "gm_get fs' p = gm_get fs p"
proof (cases "gm_get fs (rotated p i)")
  case None
  have "gm_get0 [] fs k = (if k = rotated p i then [] else if k = rotated p (i + 1) then gm_get0 [] fs (rotated p i) else gm_get0 [] fs k)" for k
    using None assms(3) by (auto simp: gm_get0_def)
  with None that [of fs] show thesis by (simp add: shift_def)
next
  case (Some c)
  have ne: "rotated p i \<noteq> rotated p (i + 1)" using assms(1) by (simp add: rotated_inj)
  have "gm_get (rename (rotated p i) (rotated p (i + 1)) fs) (rotated p i) = None" "gm_get (rename (rotated p i) (rotated p (i + 1)) fs) p = gm_get fs p"
    using Some by (simp_all add: rename_def gm_get_del gm_get_set rotated_neq)
  with Some assms(2) that [of "rename (rotated p i) (rotated p (i + 1)) fs"] rename_get0 [OF ne] show thesis by (simp add: shift_def)
qed

lemma rotate_log:
  assumes "gm_get fs (ad_path a) \<noteq> None"
  shows "\<exists>fs'. rotateLocked no_faults a fs = (True, a\<lparr>ad_open := True, ad_size := 0\<rparr>, fs') \<and> gm_get fs' (ad_path a) = Some [] \<and>
    suffix (audit_log (ad_path a) fs') (audit_log (ad_path a) fs)"
proof -
  let ?p = "ad_path a" and ?e = no_faults
  have e: "\<not> ae_renameOld ?e i" "\<not> ae_renameActive ?e" "\<not> ae_open ?e" for i by (simp_all add: no_faults_def)
  have n1: "gm_get (gm_del (rotated ?p 3) fs) (rotated ?p (2 + 1)) = None" by (simp add: gm_get_del)
  obtain fs2 where f2: "shift ?e ?p 2 (gm_del (rotated ?p 3) fs) = Some fs2" "gm_get fs2 (rotated ?p 2) = None"
      "\<And>k. gm_get0 [] fs2 k = (if k = rotated ?p 2 then [] else if k = rotated ?p (2 + 1) then gm_get0 [] (gm_del (rotated ?p 3) fs) (rotated ?p 2)
          else gm_get0 [] (gm_del (rotated ?p 3) fs) k)" "gm_get fs2 ?p = gm_get (gm_del (rotated ?p 3) fs) ?p"
    by (rule shift_get0 [OF _ e(1) n1]) simp_all
  have n2: "gm_get fs2 (rotated ?p (1 + 1)) = None" using f2(2) by (simp add: numeral_2_eq_2)
  obtain fs3 where f3: "shift ?e ?p 1 fs2 = Some fs3" "gm_get fs3 (rotated ?p 1) = None"
      "\<And>k. gm_get0 [] fs3 k = (if k = rotated ?p 1 then [] else if k = rotated ?p (1 + 1) then gm_get0 [] fs2 (rotated ?p 1) else gm_get0 [] fs2 k)"
      "gm_get fs3 ?p = gm_get fs2 ?p"
    by (rule shift_get0 [OF _ e(1) n2]) simp_all
  have p3: "gm_get fs3 ?p \<noteq> None" using f3(4) f2(4) assms by (simp add: gm_get_del rotated_neq)
  define fs4 where "fs4 = rename ?p (rotated ?p 1) fs3"
  have f4: "gm_get fs4 ?p = None" using p3 by (auto simp: fs4_def rename_def gm_get_del)
  have g4: "gm_get0 [] fs4 k = (if k = ?p then [] else if k = rotated ?p 1 then gm_get0 [] fs3 ?p else gm_get0 [] fs3 k)" for k
    unfolding fs4_def by (rule rename_get0) (simp_all add: rotated_neq p3)
  let ?fs' = "gm_set ?p [] fs4"
  have r: "rotateLocked ?e a fs = (True, a\<lparr>ad_open := True, ad_size := 0\<rparr>, ?fs')"
    using f2(1) f3(1) f4 e by (simp add: rotateLocked_def audit_open_def Let_def fs4_def gm_get0_set)
  have "audit_log ?p ?fs' = gm_get0 [] fs (rotated ?p 2) @ gm_get0 [] fs (rotated ?p 1) @ gm_get0 [] fs ?p"
    unfolding audit_log_def gm_get0_set g4 f3(3) f2(3) by (simp add: rotated_simps gm_get0_def gm_get_del numeral_3_eq_3 numeral_2_eq_2)
  then have "suffix (audit_log ?p ?fs') (audit_log ?p fs)" by (simp add: audit_log_def suffix_def)
  with r show ?thesis by (auto simp: gm_get_set)
qed

lemma write_log:
  assumes "audit_ok (a, fs)"
  shows "audit_ok (audit_write no_faults line a fs) \<and> ad_path (fst (audit_write no_faults line a fs)) = ad_path a \<and>
    audit_log (ad_path a) (snd (audit_write no_faults line a fs)) = audit_log (ad_path a) fs @ line \<and>
    ad_size (fst (audit_write no_faults line a fs)) = ad_size a + int (length line)"
  using assms by (simp add: audit_ok_def audit_write_def no_faults_def Let_def audit_log_def gm_get0_set gm_get_set rotated_neq)

lemma record_log:
  assumes "audit_ok (a, fs)"
  shows "audit_ok (audit_Record no_faults line (a, fs)) \<and> ad_path (fst (audit_Record no_faults line (a, fs))) = ad_path a \<and>
    suffix (audit_log (ad_path a) (snd (audit_Record no_faults line (a, fs)))) (audit_log (ad_path a) fs @ line) \<and>
    suffix line (audit_log (ad_path a) (snd (audit_Record no_faults line (a, fs)))) \<and>
    (int (length line) \<le> auditMaxBytes \<longrightarrow> ad_size (fst (audit_Record no_faults line (a, fs))) \<le> auditMaxBytes)"
proof (cases "ad_size a + int (length line) > auditMaxBytes")
  case True
  from assms obtain fs' where r: "rotateLocked no_faults a fs = (True, a\<lparr>ad_open := True, ad_size := 0\<rparr>, fs')" "gm_get fs' (ad_path a) = Some []"
      "suffix (audit_log (ad_path a) fs') (audit_log (ad_path a) fs)"
    using rotate_log [of fs a] by (auto simp: audit_ok_def)
  from r(2) have ok: "audit_ok (a\<lparr>ad_open := True, ad_size := 0\<rparr>, fs')" by (simp add: audit_ok_def)
  from True assms r(1) have rec: "audit_Record no_faults line (a, fs) = audit_write no_faults line (a\<lparr>ad_open := True, ad_size := 0\<rparr>) fs'"
    by (simp add: audit_Record_def audit_ok_def)
  show ?thesis unfolding rec using write_log [OF ok, of line] r(3) by (auto simp: suffix_def)
next
  case False
  with assms have "audit_Record no_faults line (a, fs) = audit_write no_faults line a fs" by (simp add: audit_Record_def audit_ok_def)
  with write_log [OF assms, of line] False show ?thesis by (auto simp: suffix_def)
qed

lemma records_log:
  assumes "audit_ok (a, fs)"
  shows "audit_ok (fold (audit_Record no_faults) ls (a, fs)) \<and> ad_path (fst (fold (audit_Record no_faults) ls (a, fs))) = ad_path a \<and>
    suffix (audit_log (ad_path a) (snd (fold (audit_Record no_faults) ls (a, fs)))) (audit_log (ad_path a) fs @ concat ls)"
  using assms
proof (induction ls arbitrary: a fs)
  case (Cons l ls)
  obtain a' fs' where r: "audit_Record no_faults l (a, fs) = (a', fs')" by fastforce
  from record_log [OF Cons.prems, of l] r have one: "audit_ok (a', fs')" "ad_path a' = ad_path a" "suffix (audit_log (ad_path a) fs') (audit_log (ad_path a) fs @ l)" by simp_all
  from Cons.IH [OF one(1)] one(2,3) r show ?case by (auto simp: suffix_def) (metis append.assoc)
qed simp


section \<open>After a failed rotation\<close>

text \<open>
  The rotation closes the file first. When it then fails, the line is not written although the comment says the current
  file is still tried, and no line is ever written again: the auditor counts as closed.
\<close>

lemma failed_rotation_stops:
  assumes "ad_open a" "ad_size a + int (length line) > auditMaxBytes" "rotateLocked e a fs = (False, a', fs')"
  shows "snd (audit_Record e line (a, fs)) = fs' \<and> fold (\<lambda>(e, l). audit_Record e l) calls (audit_Record e line (a, fs)) = (a', fs')"
proof -
  from assms(3) have closed: "\<not> ad_open a'"
    by (auto simp: rotateLocked_def audit_open_def Let_def split: option.splits if_splits)
  with assms have r: "audit_Record e line (a, fs) = (a', fs')" by (simp add: audit_Record_def audit_write_def)
  have "fold (\<lambda>(e, l). audit_Record e l) calls (a', fs') = (a', fs')" by (induction calls) (auto simp: audit_Record_def closed)
  with r show ?thesis by simp
qed

section \<open>A file\<close>


end
