(* ===== verification/Spec2Isabelle.thy ===== *)
theory Spec2Isabelle
  imports Delivery_Props Retry_Examples Eventlog_Instance Dlq_Store Row_Filter_Eval Row_Filter_Parse Cluster_Fencing
    Pg_Source_Props Watermark_Badger Backfill_Examples Pg_Session Sink_Examples
    Nats_Examples Wal_Leader_Examples Ha_Leader Mongo_Examples
    Mcp_Examples Mcp_Tools Mcp_Audit
begin

text \<open>
  \<^bold>\<open>Kaptanto\<close> is a change-data-capture server in Go. A source connector reads the write-ahead log of
  Postgres or the change streams of MongoDB and appends change events to an event log; a backfill engine reads existing rows into the
  same log; a router reads the log partition by partition and delivers every entry to every
  registered consumer; failures are retried and finally dead-lettered; cursors and checkpoints are
  saved so that a restart loses nothing. Several nodes share the partitions through two tables. An MCP server
  lets AI clients subscribe to the changes they may see.

  \<^bold>\<open>How the parts meet.\<close> Postgres messages go through the parser and the connector's buffer into the
  event log, and only then is the position checkpointed and acknowledged. Backfill rows go into the
  same log through the connector's append functions, after the watermark checker has asked the log
  whether a newer event of the row is there. The router dispatches log entries, hands failed ones to
  the retry scheduler, caps the persisted cursor at the scheduler's floor, and the scheduler's release
  note moves the cursor on. The dead-letter store takes what the scheduler gives up. Consumers are
  sinks: most of them buffer in \<open>Deliver\<close> and send in \<open>FlushBatch\<close>, and the router persists a cursor only
  after the flush. In a cluster the partition manager tells the router which partitions to serve and
  wraps the cursor store.

  \<^bold>\<open>Theories and sources\<close> (paths under \<open>src/internal\<close>).

  \<^item> \<open>Kaptanto_Prelude\<close>, \<open>Go_Strings\<close>: Go maps as association lists, panics, machine words, decimal
    numerals, the \<open>strings\<close> functions in use. Shared lemma collections are \<open>gomap_simps\<close> and \<open>record_frames\<close>.
  \<^item> \<open>Change_Event\<close> (\<open>event/event.go\<close>, \<open>eventlog/logentry.go\<close>): events, JSON values, log entries
    that are decoded on demand.
  \<^item> \<open>Eventlog_Keys\<close>, \<open>Eventlog_Store\<close>, \<open>Eventlog_Batch\<close>, \<open>Eventlog_Instance\<close> (\<open>eventlog/keys.go\<close>,
    \<open>badger.go\<close>): the byte layout of keys, \<open>Append\<close>, \<open>AppendBatch\<close> with its chunks, \<open>ReadPartition\<close>,
    observers. Badger is a record of functions with its documented laws (\<open>badger_ok\<close>), provided by an
    in-memory database. Shown: dedup by idempotency key, durability of a batch, chunk budgets, and that a
    read returns the entries from a number on, in order and without gaps.
  \<^item> \<open>Nats_Log\<close>, \<open>Nats_Props\<close>, \<open>Nats_Examples\<close> (\<open>eventlog/nats.go\<close>): the log of cluster mode on a JetStream stream, a
    parameter with laws. Shown: a read through the reused pull consumer returns the entries from a number on,
    observers hear of what was stored; and how a failed publish reorders or hides events.
  \<^item> \<open>Retry_Scheduler\<close>, \<open>Retry_Examples\<close> (\<open>router/retry.go\<close>, \<open>permanent.go\<close>): blocked queues, floors,
    draining, dead-lettering. Shown: the floor is the least queued number in every reachable state, a drain
    accounts for every entry it removes, drains what is deliverable and does not panic on decoded entries.
  \<^item> \<open>Router\<close>, \<open>Cursor_Stores\<close>, \<open>Delivery\<close>, \<open>Delivery_Safety\<close>, \<open>Delivery_Props\<close> (\<open>router/router.go\<close>,
    \<open>checkpoint/cursor_store.go\<close>): registration, the three phases of dispatch, provisional cursors and batch
    flushes, the cursor stores behind the locale \<open>cursor_store\<close>. \<open>Delivery\<close> is a step relation over appends,
    each phase of each partition, drains, releases, store flushes, failures and restarts. Shown: an entry
    below a persisted cursor was delivered, dead-lettered or skipped as undecodable; an entry below a cursor
    in memory is settled or queued. The pop of a queue and its release callback are one step.
  \<^item> \<open>Dlq_Store\<close> (\<open>dlq/sqlite.go\<close>): the table with its unique index and every operation on it.
  \<^item> \<open>Row_Filter\<close>, \<open>Row_Filter_Parse\<close>, \<open>Row_Filter_Eval\<close> (\<open>output/row_filter.go\<close>, \<open>filter.go\<close>,
    \<open>column_filter.go\<close>): tokenizer, parser, evaluator. The parser's fuel is proved sufficient from the token
    count, and printing followed by parsing is the identity.
  \<^item> \<open>Cluster\<close>, \<open>Cluster_Safety\<close>, \<open>Cluster_Fencing\<close> (\<open>cluster/partitions.go\<close>, \<open>partition_manager.go\<close>,
    \<open>membership.go\<close>, \<open>epoch_cursor_store.go\<close>): the SQL statements on both tables, interleaved per statement over
    all nodes. Shown: an epoch is held by one node, a change of owner raises it, a tick takes over stale
    partitions; and what the fencing does not do.
  \<^item> \<open>Wal_Leader\<close>, \<open>Wal_Leader_Props\<close>, \<open>Wal_Leader_Examples\<close> (\<open>cluster/wal_leader.go\<close>): the electors of all nodes over a
    lease in a key-value bucket (locale \<open>lease_bucket\<close>), with a clock. Shown: epochs are fencing tokens; one
    leader when calls return in time, and two when they take five seconds; a standby polls without a pause.
    \<open>Ha_Leader\<close> (\<open>ha/leader.go\<close>): the same question for the advisory lock of HA mode (locale \<open>advisory_lock\<close>).
  \<^item> \<open>Pg_Parser\<close>, \<open>Pg_Toast\<close>, \<open>Pg_Keys\<close> (\<open>parser/pgoutput\<close>): messages to events. The TOAST cache
    refines the list of most recently used rows; keys are distinct within a transaction and repeat on replay.
  \<^item> \<open>Pg_Ident\<close>, \<open>Pg_Source\<close>, \<open>Pg_Source_Props\<close>, \<open>Pg_Session\<close> (\<open>pgident/ident.go\<close>, \<open>source/postgres\<close>):
    table references, the receive loop with its buffer, session setup and reconnects. Shown: committed rows are
    in the log before their checkpoint, nothing is acknowledged ahead of the checkpoint, slot loss resets
    the backfill; and runs in which streamed transactions or a failed recovery lose or leak rows.
  \<^item> \<open>Source_Checkpoint\<close> (\<open>checkpoint/sqlite.go\<close>, \<open>postgres.go\<close>): the locale \<open>checkpoint_store\<close> and both stores.
    \<open>Mongo_Source\<close>, \<open>Mongo_Props\<close>, \<open>Mongo_Snapshot\<close>, \<open>Mongo_Examples\<close> (\<open>source/mongodb\<close>, \<open>parser/mongodb\<close>, \<open>cmd/mongo.go\<close>):
    the connector of MongoDB as a client of that locale. Shown: no change up to a stored resume token is missing
    from the log, over any failures and restarts; a stream is drained; and that the snapshot after an invalid
    token cannot work. A batch with its append and its save is one step.
  \<^item> \<open>Watermark\<close>, \<open>Watermark_Scan\<close>, \<open>Watermark_Index\<close>, \<open>Watermark_Badger\<close> (\<open>backfill/watermark.go\<close>): the
    locale \<open>paged_log\<close> states what the checker needs of the log; Badger and JetStream provide it. The index is built
    and observed under interleaved appends, and answers as the scan does; the scan always answers.
  \<^item> \<open>Pk_Canonical\<close>, \<open>Backfill\<close>, \<open>Backfill_Safety\<close>, \<open>Backfill_Props\<close>, \<open>Backfill_Examples\<close> (\<open>pk/canonical.go\<close>,
    \<open>backfill\<close>): keyset paging over a changing table, buffered appends, saved progress. The locale
    \<open>backfill_sink\<close> is what the engine needs of the append functions, provided by the connector. Shown: a
    completed snapshot covered every lasting key over any history of failures, a quiet run completes, and
    snapshot and WAL name a row by the same bytes.

  \<^item> \<open>Go_Lib\<close>: parts of the Go library the sinks use (\<open>os.Expand\<close>, header canonicalisation, hex, base64,
    FNV-1a, SHA-256, HMAC). \<open>Transform\<close> (\<open>transform\<close>): compilation by language and the two engines.
  \<^item> \<open>Batch_Sink\<close> (\<open>router.BatchFlusher\<close>): the locale \<open>batch_sink\<close> is the contract of a sink that buffers, and
    what a batch needs of it is proved once there. It is interpreted for the webhook, Kafka, NATS, Pub/Sub,
    RabbitMQ and SQS sinks.
  \<^item> \<open>Webhook_Config\<close>, \<open>Webhook_Sink\<close>, \<open>Webhook_Props\<close>, \<open>Sink_Retry\<close> (\<open>output/webhook\<close>): start-up rules, URL and
    body of an event, grouping, signing, sending, poison isolation. Shown: a constructed sink is well formed,
    requests tile the buffer, a flush acknowledges a prefix and a permanent error names the event after it,
    headers and signature fit the body; and how the retry scheduler loses an event of a buffering sink.
  \<^item> \<open>Queue_Sinks\<close>, \<open>Sqs_Sink\<close> (\<open>output/kafka\<close>, \<open>nats\<close>, \<open>pubsub\<close>, \<open>rabbitmq\<close>, \<open>sqs\<close>): \<open>Deliver\<close> and \<open>FlushBatch\<close> of
    each broker, the reconnect loop, SQS batch ids and chunks. The fuel of the search for a free batch id is
    two more than the ids in use, which is proved enough.
  \<^item> \<open>Stream_Sinks\<close>, \<open>Stream_Props\<close> (\<open>output/stdout\<close>, \<open>sse\<close>, \<open>grpc\<close>): lines, frames, the bounded channel; and
    where a nil error means less than delivery.
  \<^item> \<open>Hash_Cache\<close>, \<open>Vector_Sink\<close>, \<open>Vector_Props\<close> (\<open>output/vector\<close>): the text-hash cache, an LRU before a table,
    behind the locales \<open>text_hash_cache_read\<close> and \<open>text_hash_cache\<close>; extraction, runs, chunks, isolation. Shown:
    after any failed attempts a flush that returns nil leaves every row of the batch in the store as its last
    event says; and what goes wrong when the cache cannot be written. \<open>Sink_Examples\<close> has concrete sinks.

  \<^item> \<open>Routing\<close> (\<open>routing\<close>): table globs and match rules, with the usual reading of a star as reference.
    \<open>Enrich\<close> (\<open>enrich\<close>): the stage before the log, with its circuit breaker and the check of dialled addresses. Shown: it
    fails open; an open breaker stops the calls; which addresses can be dialled.
  \<^item> \<open>Mcp_Acl\<close>, \<open>Mcp_Ring\<close>, \<open>Mcp_Subs\<close>, \<open>Mcp_Props\<close>, \<open>Mcp_Examples\<close>, \<open>Mcp_Tools\<close>, \<open>Mcp_Audit\<close> (\<open>mcp\<close>, \<open>auth/auth.go\<close>): the server
    for AI clients. Rules and masking of a key; ring and recent-event index, both instances of the locale \<open>bounded_queue\<close>;
    subscriptions, sessions and tool calls as a step relation, one call per step as the server's mutex has it; keys
    and schema tools; the rotated audit file. Shown: what a key receives of an event, that no consumer, resource or buffer
    outlives its subscription, what a drain returns, that a key cannot see another's subscriptions, who a token is.

  \<^bold>\<open>Conventions.\<close> State is passed explicitly; a Go error is \<^term>\<open>Inl\<close> or \<^term>\<open>None\<close>; a panic is
  \<^term>\<open>Panic\<close>. Outcomes of calls the program does not control (databases, network, clocks, random
  numbers) are inputs of the operations, so a theorem holds for all of them. Third-party code and JSON
  are parameters; what is assumed of them is stated where they are used and met by an instance.
  Loops over unbounded input are recursive on the input; loops that depend on a database (index scans)
  take fuel, and the theorems bound the fuel that suffices.

  \<^bold>\<open>Not modelled.\<close> The clients of embedding services and vector stores; constructors of the broker sinks,
  which parse options and dial; the SDK and the listener of the MCP server; actions;
  configuration, command line, metrics, logging.
\<close>

end
